(* ===== verification/Prelude.thy ===== *)
theory Prelude
  imports Main "HOL-Library.Monad_Syntax" "HOL-Library.Word"
begin

text \<open>
  Shared vocabulary of the development: the model of a fatal \<^verbatim>\<open>invariant(...)\<close> of
  \<^verbatim>\<open>src/mongo/util/assert_util.h\<close>, the collections the component proofs draw on, and the
  generic facts on lists, options and words that several components need.

  An operation that contains fatal assertions returns \<open>'a option\<close>: \<open>None\<close> is the
  process aborting at a failed assertion, \<open>Some\<close> the normal return. A theorem that an operation
  returns \<open>Some\<close> therefore says that none of its assertions can fire.
\<close>

unbundle bit_operations_syntax

named_theorems abort_simps \<open>rewriting successful runs of operations with fatal assertions\<close>
named_theorems head_simps \<open>field-wise effect of the operations on a lock head\<close>
named_theorems count_simps \<open>counting the elements of a list that satisfy a predicate\<close>

subsection \<open>Fatal assertions\<close>

definition invariant :: "bool \<Rightarrow> unit option" where
  "invariant b = (if b then Some () else None)"

lemma invariant_eq_Some [simp, abort_simps]: "invariant b = Some u \<longleftrightarrow> b"
  by (simp add: invariant_def)

lemma invariant_True [simp]: "invariant True = Some ()"
  by (simp add: invariant_def)

lemma invariant_False [simp]: "invariant False = None"
  by (simp add: invariant_def)

lemma invariant_bind_Some [simp, abort_simps]:
  "Option.bind (invariant b) f = Some y \<longleftrightarrow> b \<and> f () = Some y"
  by (cases b) auto

lemma invariant_bind_True: "b \<Longrightarrow> Option.bind (invariant b) f = f ()"
  by simp

declare Option.bind_eq_Some_conv [abort_simps]

text \<open>The evaluator looks at a continuation only when the first step has returned.\<close>

lemma option_bind_code [code_unfold]: "Option.bind x f = (case x of None \<Rightarrow> None | Some a \<Rightarrow> f a)"
  by (cases x) simp_all

subsection \<open>Counting\<close>

definition countp :: "('a \<Rightarrow> bool) \<Rightarrow> 'a list \<Rightarrow> nat" where
  "countp P xs = length (filter P xs)"

lemma countp_Nil [simp, count_simps]: "countp P [] = 0"
  by (simp add: countp_def)

lemma countp_Cons [simp, count_simps]: "countp P (x # xs) = (if P x then 1 else 0) + countp P xs"
  by (simp add: countp_def)

lemma countp_append [simp, count_simps]: "countp P (xs @ ys) = countp P xs + countp P ys"
  by (simp add: countp_def)

lemma countp_pos_iff: "0 < countp P xs \<longleftrightarrow> (\<exists>x \<in> set xs. P x)"
  by (induction xs) auto

lemma countp_0_iff: "countp P xs = 0 \<longleftrightarrow> (\<forall>x \<in> set xs. \<not> P x)"
  by (induction xs) auto

lemma countp_cong: "(\<And>x. x \<in> set xs \<Longrightarrow> P x = Q x) \<Longrightarrow> countp P xs = countp Q xs"
  by (induction xs) auto

lemma countp_remove1:
  "x \<in> set xs \<Longrightarrow> countp P xs = (if P x then 1 else 0) + countp P (remove1 x xs)"
  by (induction xs) auto

lemma countp_le_length: "countp P xs \<le> length xs"
  by (induction xs) auto

lemma countp_sub:
  "x \<in> set xs \<Longrightarrow> countp P (remove1 x xs) = countp P xs - (if P x then 1 else 0)"
  by (simp add: countp_remove1)

text \<open>
  Changing the predicate at one element of a list without duplicates moves the count by
  the difference at that element.
\<close>

lemma countp_change_at:
  assumes "distinct xs" and "x \<in> set xs" and "\<And>y. y \<in> set xs \<Longrightarrow> y \<noteq> x \<Longrightarrow> P y = Q y"
  shows "countp P xs + (if Q x then 1 else 0) = countp Q xs + (if P x then 1 else 0)"
  using assms
proof (induction xs)
  case Nil
  then show ?case by simp
next
  case (Cons a xs)
  show ?case
  proof (cases "a = x")
    case True
    with Cons.prems have "countp P xs = countp Q xs"
      by (intro countp_cong) auto
    with True show ?thesis by simp
  next
    case False
    with Cons show ?thesis by auto
  qed
qed

lemma countp_ge2I:
  assumes "distinct xs" "x \<in> set xs" "y \<in> set xs" "x \<noteq> y" "P x" "P y"
  shows "2 \<le> countp P xs"
proof -
  have "countp P xs = 1 + countp P (remove1 x xs)"
    using assms by (simp add: countp_remove1 [of x])
  moreover have "0 < countp P (remove1 x xs)"
    using assms by (auto simp: countp_pos_iff)
  ultimately show ?thesis by simp
qed

subsection \<open>Lists\<close>

lemma list_all_update: "list_all P xs \<Longrightarrow> P y \<Longrightarrow> list_all P (xs[i := y])"
  using set_update_subset_insert [of xs i y] by (auto simp: list_all_iff)

lemma remove1_last_append: "x \<notin> set xs \<Longrightarrow> remove1 x (xs @ x # ys) = xs @ ys"
  by (simp add: remove1_append)

subsection \<open>Binary length\<close>

text \<open>The number of significant bits of a number, for arithmetic in floating point.\<close>

fun bitLength :: "nat \<Rightarrow> nat" where
  "bitLength n = (if n = 0 then 0 else Suc (bitLength (n div 2)))"

declare bitLength.simps [simp del]

end
