(* ===== verification/LockModes.thy ===== *)
theory LockModes
  imports Prelude
begin

text \<open>
  Lock modes and resource identifiers: the enumerations and helpers of
  \<^verbatim>\<open>db/concurrency/lock_manager_defs.h\<close> and the conflict table at the top of
  \<^verbatim>\<open>db/concurrency/lock_manager.cpp\<close>. Mode sets are kept as the \<open>uint32_t\<close> bit masks of
  the source; resource identifiers as the \<open>uint64_t\<close> hash with the type in its top three bits.
\<close>

subsection \<open>Lock modes\<close>

datatype LockMode = MODE_NONE | MODE_IS | MODE_IX | MODE_S | MODE_X

datatype LockResult = LOCK_OK | LOCK_WAITING | LOCK_TIMEOUT | LOCK_INVALID

type_synonym mode_mask = "32 word"

text \<open>The numeric value of the C enumeration, and the modes the loops from 1 range over.\<close>

fun mode_val :: "LockMode \<Rightarrow> nat" where
  "mode_val MODE_NONE = 0"
| "mode_val MODE_IS = 1"
| "mode_val MODE_IX = 2"
| "mode_val MODE_S = 3"
| "mode_val MODE_X = 4"

definition modes_from_1 :: "LockMode list" where
  "modes_from_1 = [MODE_IS, MODE_IX, MODE_S, MODE_X]"

definition modeMask :: "LockMode \<Rightarrow> mode_mask" where
  "modeMask m = push_bit (mode_val m) 1"

fun LockConflictsTable :: "LockMode \<Rightarrow> mode_mask" where
  "LockConflictsTable MODE_NONE = 0"
| "LockConflictsTable MODE_IS = modeMask MODE_X"
| "LockConflictsTable MODE_IX = modeMask MODE_S OR modeMask MODE_X"
| "LockConflictsTable MODE_S = modeMask MODE_IX OR modeMask MODE_X"
| "LockConflictsTable MODE_X =
     modeMask MODE_S OR modeMask MODE_X OR modeMask MODE_IS OR modeMask MODE_IX"

definition intentModes :: mode_mask where
  "intentModes = modeMask MODE_IS OR modeMask MODE_IX"

definition conflicts :: "LockMode \<Rightarrow> mode_mask \<Rightarrow> bool" where
  "conflicts newMode existingModesMask \<longleftrightarrow> LockConflictsTable newMode AND existingModesMask \<noteq> 0"

definition isModeCovered :: "LockMode \<Rightarrow> LockMode \<Rightarrow> bool" where
  "isModeCovered mode coveringMode \<longleftrightarrow>
     (LockConflictsTable coveringMode OR LockConflictsTable mode) = LockConflictsTable coveringMode"

definition isSharedLockMode :: "LockMode \<Rightarrow> bool" where
  "isSharedLockMode m \<longleftrightarrow> m = MODE_IS \<or> m = MODE_S"

fun modeName :: "LockMode \<Rightarrow> string" where
  "modeName MODE_NONE = ''NONE''"
| "modeName MODE_IS = ''IS''"
| "modeName MODE_IX = ''IX''"
| "modeName MODE_S = ''S''"
| "modeName MODE_X = ''X''"

fun legacyModeName :: "LockMode \<Rightarrow> string" where
  "legacyModeName MODE_NONE = ''''"
| "legacyModeName MODE_IS = ''r''"
| "legacyModeName MODE_IX = ''w''"
| "legacyModeName MODE_S = ''R''"
| "legacyModeName MODE_X = ''W''"

text \<open>The compatibility matrix of the header comment, as a reference for the bit masks.\<close>

fun compatible :: "LockMode \<Rightarrow> LockMode \<Rightarrow> bool" where
  "compatible MODE_NONE g = True"
| "compatible MODE_IS g = (g \<noteq> MODE_X)"
| "compatible MODE_IX g = (g \<in> {MODE_NONE, MODE_IS, MODE_IX})"
| "compatible MODE_S g = (g \<in> {MODE_NONE, MODE_IS, MODE_S})"
| "compatible MODE_X g = (g = MODE_NONE)"

subsection \<open>Facts on masks\<close>

lemma mode_val_inject [simp]: "mode_val a = mode_val b \<longleftrightarrow> a = b"
  by (cases a; cases b) auto

lemma mode_val_less: "mode_val m < 5"
  by (cases m) auto

lemma set_modes_from_1 [simp]: "set modes_from_1 = UNIV - {MODE_NONE}"
  using LockMode.exhaust by (auto simp: modes_from_1_def)

lemma ex_LockMode:
  "(\<exists>m. P m) \<longleftrightarrow> P MODE_NONE \<or> P MODE_IS \<or> P MODE_IX \<or> P MODE_S \<or> P MODE_X"
  using LockMode.exhaust by metis

lemma all_LockMode:
  "(\<forall>m. P m) \<longleftrightarrow> P MODE_NONE \<and> P MODE_IS \<and> P MODE_IX \<and> P MODE_S \<and> P MODE_X"
  using LockMode.exhaust by metis

lemma bit_modeMask [simp]: "bit (modeMask m) n \<longleftrightarrow> n = mode_val m"
proof -
  have "(modeMask m :: mode_mask) = 2 ^ mode_val m"
    by (simp add: modeMask_def)
  then show ?thesis
    using mode_val_less [of m] by (auto simp: bit_exp_iff)
qed

lemma modeMask_nonzero [simp]: "modeMask m \<noteq> 0"
proof
  assume "modeMask m = 0"
  then have "bit (0 :: mode_mask) (mode_val m)" by (metis bit_modeMask)
  then show False by simp
qed

lemma bit_LockConflictsTable:
  "bit (LockConflictsTable m) n \<longleftrightarrow> (\<exists>g. n = mode_val g \<and> \<not> compatible m g)"
  by (cases m) (auto simp: bit_or_iff ex_LockMode)

lemma word_and_nonzero_iff: "(a :: mode_mask) AND b \<noteq> 0 \<longleftrightarrow> (\<exists>n. bit a n \<and> bit b n)"
  using bit_imp_le_length [where 'a = 32] by (fastforce simp: bit_eq_iff bit_and_iff)

lemma conflicts_iff: "conflicts m w \<longleftrightarrow> (\<exists>g. \<not> compatible m g \<and> bit w (mode_val g))"
  by (auto simp: conflicts_def word_and_nonzero_iff bit_LockConflictsTable)

lemma compatible_sym: "compatible a b = compatible b a"
  by (cases a; cases b) auto

lemma isModeCovered_iff: "isModeCovered m c \<longleftrightarrow> (\<forall>g. compatible c g \<longrightarrow> compatible m g)"
proof -
  have "isModeCovered m c \<longleftrightarrow>
      (\<forall>n. bit (LockConflictsTable m) n \<longrightarrow> bit (LockConflictsTable c) n)"
    unfolding isModeCovered_def
    using bit_imp_le_length [where 'a = 32] by (fastforce simp: bit_eq_iff bit_or_iff)
  then show ?thesis
    by (auto simp: bit_LockConflictsTable)
qed

lemma isModeCovered_refl [simp]: "isModeCovered m m"
  by (simp add: isModeCovered_iff)

lemma isModeCovered_trans: "isModeCovered a b \<Longrightarrow> isModeCovered b c \<Longrightarrow> isModeCovered a c"
  by (simp add: isModeCovered_iff)

text \<open>The covering relation, mode by mode.\<close>

lemma isModeCovered_code:
  "isModeCovered m c \<longleftrightarrow> m = MODE_NONE \<or> m = c \<or> c = MODE_X \<or> m = MODE_IS \<and> c \<noteq> MODE_NONE"
  by (cases m; cases c) (auto simp: isModeCovered_iff all_LockMode)

subsection \<open>Resource identifiers\<close>

datatype ResourceType =
    RESOURCE_INVALID | RESOURCE_PBWM | RESOURCE_RSTL | RESOURCE_GLOBAL
  | RESOURCE_DATABASE | RESOURCE_COLLECTION | RESOURCE_METADATA | RESOURCE_MUTEX

type_synonym ResourceId = "64 word"
type_synonym LockerId = "64 word"

definition resourceTypeBits :: nat where
  "resourceTypeBits = 3"

fun rtype_val :: "ResourceType \<Rightarrow> nat" where
  "rtype_val RESOURCE_INVALID = 0"
| "rtype_val RESOURCE_PBWM = 1"
| "rtype_val RESOURCE_RSTL = 2"
| "rtype_val RESOURCE_GLOBAL = 3"
| "rtype_val RESOURCE_DATABASE = 4"
| "rtype_val RESOURCE_COLLECTION = 5"
| "rtype_val RESOURCE_METADATA = 6"
| "rtype_val RESOURCE_MUTEX = 7"

text \<open>
  The cast \<open>static_cast<ResourceType>\<close> of a three-bit number; all eight values are
  enumerators, so the last equation only covers \<open>7\<close> for the inputs the code has.
\<close>

definition rtype_of :: "nat \<Rightarrow> ResourceType" where
  "rtype_of n =
     (if n = 0 then RESOURCE_INVALID else if n = 1 then RESOURCE_PBWM
      else if n = 2 then RESOURCE_RSTL else if n = 3 then RESOURCE_GLOBAL
      else if n = 4 then RESOURCE_DATABASE else if n = 5 then RESOURCE_COLLECTION
      else if n = 6 then RESOURCE_METADATA else RESOURCE_MUTEX)"

fun resourceTypeName :: "ResourceType \<Rightarrow> string" where
  "resourceTypeName RESOURCE_INVALID = ''Invalid''"
| "resourceTypeName RESOURCE_PBWM = ''ParallelBatchWriterMode''"
| "resourceTypeName RESOURCE_RSTL = ''ReplicationStateTransition''"
| "resourceTypeName RESOURCE_GLOBAL = ''Global''"
| "resourceTypeName RESOURCE_DATABASE = ''Database''"
| "resourceTypeName RESOURCE_COLLECTION = ''Collection''"
| "resourceTypeName RESOURCE_METADATA = ''Metadata''"
| "resourceTypeName RESOURCE_MUTEX = ''Mutex''"

definition hash_mask :: "64 word" where
  "hash_mask = drop_bit resourceTypeBits (- 1)"

definition fullHash :: "ResourceType \<Rightarrow> 64 word \<Rightarrow> ResourceId" where
  "fullHash type hashId =
     push_bit (64 - resourceTypeBits) (of_nat (rtype_val type)) + (hashId AND hash_mask)"

definition getType :: "ResourceId \<Rightarrow> ResourceType" where
  "getType resId = rtype_of (unat (drop_bit (64 - resourceTypeBits) resId))"

definition getHashId :: "ResourceId \<Rightarrow> 64 word" where
  "getHashId resId = resId AND hash_mask"

definition isValid :: "ResourceId \<Rightarrow> bool" where
  "isValid resId \<longleftrightarrow> getType resId \<noteq> RESOURCE_INVALID"

definition resourceIdGlobal :: ResourceId where
  "resourceIdGlobal = fullHash RESOURCE_GLOBAL 1"

definition resourceIdParallelBatchWriterMode :: ResourceId where
  "resourceIdParallelBatchWriterMode = fullHash RESOURCE_PBWM 1"

definition resourceIdReplicationStateTransitionLock :: ResourceId where
  "resourceIdReplicationStateTransitionLock = fullHash RESOURCE_RSTL 1"

lemma rtype_of_val [simp]: "rtype_of (rtype_val t) = t"
  by (cases t) (auto simp: rtype_of_def)

lemma rtype_val_less: "rtype_val t < 8"
  by (cases t) auto

lemma hash_mask_eq: "hash_mask = mask 61"
  by (simp add: hash_mask_def resourceTypeBits_def mask_eq_exp_minus_1)

lemma unat_hash_part: "unat (h AND hash_mask) = unat h mod 2 ^ 61"
proof -
  have "h AND hash_mask = take_bit 61 h"
    by (simp only: hash_mask_eq take_bit_eq_mask)
  then show ?thesis
    by (simp only: unsigned_take_bit_eq) (simp add: take_bit_eq_mod)
qed

lemma unat_type_part: "unat (push_bit 61 (of_nat (rtype_val t)) :: 64 word) = rtype_val t * 2 ^ 61"
  by (cases t) simp_all

lemma unat_fullHash: "unat (fullHash t h) = rtype_val t * 2 ^ 61 + unat h mod 2 ^ 61"
proof -
  have "unat h mod 2 ^ 61 < 2 ^ 61" by simp
  then have "rtype_val t * 2 ^ 61 + unat h mod 2 ^ 61 < 2 ^ 64"
    using rtype_val_less [of t] by (simp add: power_add)
  then show ?thesis
    by (simp add: fullHash_def resourceTypeBits_def unat_word_ariths unat_type_part unat_hash_part)
qed

lemma getType_fullHash [simp]: "getType (fullHash t h) = t"
proof -
  have "unat (drop_bit 61 (fullHash t h)) = unat (fullHash t h) div 2 ^ 61"
    by (simp only: unat_drop_bit_eq) (simp add: drop_bit_eq_div)
  also have "\<dots> = rtype_val t"
    by (simp add: unat_fullHash)
  finally have "unat (drop_bit 61 (fullHash t h)) = rtype_val t" .
  then show ?thesis
    by (simp only: getType_def resourceTypeBits_def rtype_of_val) simp
qed

lemma unat_getHashId_fullHash: "unat (getHashId (fullHash t h)) = unat h mod 2 ^ 61"
  by (simp add: getHashId_def unat_hash_part unat_fullHash)


subsection \<open>Properties\<close>

text \<open>The conflict table implements the documented compatibility matrix: a mode conflicts with a
  set of existing modes, given as a bit mask, exactly if the matrix has it incompatible with one of
  them; the matrix is symmetric; and one mode covers another exactly if whatever is compatible with
  the first is compatible with the second.\<close>

theorem lock_conflicts_match_matrix:
  "(conflicts m w \<longleftrightarrow> (\<exists>g. \<not> compatible m g \<and> bit w (mode_val g))) \<and>
   (compatible m g \<longleftrightarrow> compatible g m) \<and>
   (isModeCovered m c \<longleftrightarrow> {g. compatible c g} \<subseteq> {g. compatible m g})"
  using conflicts_iff [of m w] compatible_sym [of m g] by (auto simp: isModeCovered_iff)

lemma getHashId_fullHash:
  "unat h < 2 ^ 61 \<Longrightarrow> getHashId (fullHash t h) = h"
  using unat_getHashId_fullHash [of t h] by (simp add: word_unat_eq_iff)

text \<open>Resource identifiers: type and hash are read back from the packed 64-bit value as they were put
  in (the hash as far as it fits 61 bits), identifiers of different types are different, and the
  canonical locking order compares first by type.\<close>

theorem resource_id_roundtrip:
  assumes "unat h < 2 ^ 61"
  shows "getType (fullHash t h) = t \<and> getHashId (fullHash t h) = h \<and>
    (rtype_val t < rtype_val u \<longrightarrow> fullHash t h < fullHash u h')"
proof -
  have "fullHash t h < fullHash u h'" if "rtype_val t < rtype_val u"
  proof -
    have "(rtype_val t + 1) * 2 ^ 61 \<le> rtype_val u * 2 ^ 61"
      using that by (intro mult_right_mono) auto
    then show ?thesis using assms by (simp add: word_less_nat_alt unat_fullHash)
  qed
  then show ?thesis using getHashId_fullHash [OF assms] by simp
qed

theorem resource_id_roundtrip_witness:
  "unat (5 :: 64 word) < 2 ^ 61 \<and> getType (fullHash RESOURCE_DATABASE 5) = RESOURCE_DATABASE \<and>
   fullHash RESOURCE_GLOBAL 5 < fullHash RESOURCE_DATABASE 0"
  using resource_id_roundtrip [of 5 RESOURCE_DATABASE]
    resource_id_roundtrip [of 5 RESOURCE_GLOBAL RESOURCE_DATABASE 0] by simp

end
