(* ===== verification/LockHead.thy ===== *)
theory LockHead
  imports LockModes
begin

text \<open>
  The per-resource half of the lock manager: \<open>struct LockRequest\<close> of
  \<^verbatim>\<open>lock_manager_defs.h\<close>, \<open>struct LockHead\<close> with its queues, counters and bit masks, and
  \<open>LockManager::_onLockModeChanged\<close>, all of \<^verbatim>\<open>lock_manager.cpp\<close>.

  Requests live in a store indexed by their address, as the Locker owns them and the lock
  manager only links them into queues. A queue is the list of the addresses it links, front
  first; theory \<open>RequestList\<close> shows that the intrusive doubly linked list of the source
  implements these lists. \<open>iter->prev == nullptr\<close> is the test that \<open>iter\<close> is the first
  of its queue. Counters are unsigned 32-bit in the source and \<open>nat\<close> here: each counts
  requests that are linked in memory at that moment, far fewer than \<open>2 ^ 32\<close>, and no counter is
  decremented at zero (the operations below would return \<open>None\<close>).
\<close>

subsection \<open>Requests\<close>

datatype Status = STATUS_NEW | STATUS_GRANTED | STATUS_WAITING | STATUS_CONVERTING

text \<open>The address of a request: the slot of the map of the Locker that owns it.\<close>

datatype req = Slot (slot_locker: LockerId) (slot_index: nat)

text \<open>A lock head is addressed by its resource, a partitioned lock head by partition and resource.\<close>

record LockRequest =
  locker :: LockerId
  enqueueAtFront :: bool
  compatibleFirst :: bool
  partitioned :: bool
  recursiveCount :: nat
  lockPtr :: "ResourceId option"
  partitionedLock :: "(LockerId \<times> ResourceId) option"
  status :: Status
  mode :: LockMode
  convertMode :: LockMode
  unlockPending :: nat

type_synonym store = "req \<Rightarrow> LockRequest"

definition LockRequest_initNew :: "LockerId \<Rightarrow> LockRequest" where
  "LockRequest_initNew l =
     \<lparr>locker = l, enqueueAtFront = False, compatibleFirst = False, partitioned = False,
      recursiveCount = 1, lockPtr = None, partitionedLock = None, status = STATUS_NEW,
      mode = MODE_NONE, convertMode = MODE_NONE, unlockPending = 0\<rparr>"

fun lockRequestStatusName :: "Status \<Rightarrow> string" where
  "lockRequestStatusName STATUS_NEW = ''new''"
| "lockRequestStatusName STATUS_GRANTED = ''granted''"
| "lockRequestStatusName STATUS_WAITING = ''waiting''"
| "lockRequestStatusName STATUS_CONVERTING = ''converting''"

text \<open>A call of \<open>LockGrantNotification::notify\<close>: the request, the resource and the outcome.\<close>

type_synonym notification = "req \<times> ResourceId \<times> LockResult"

subsection \<open>Lock heads\<close>

record LockHead =
  resourceId :: ResourceId
  grantedList :: "req list"
  grantedCounts :: "LockMode \<Rightarrow> nat"
  grantedModes :: mode_mask
  conflictList :: "req list"
  conflictCounts :: "LockMode \<Rightarrow> nat"
  conflictModes :: mode_mask
  partitions :: "LockerId list"
  conversionsCount :: nat
  compatibleFirstCount :: nat

definition LockHead_initNew :: "ResourceId \<Rightarrow> LockHead" where
  "LockHead_initNew resId =
     \<lparr>resourceId = resId, grantedList = [], grantedCounts = (\<lambda>_. 0), grantedModes = 0,
      conflictList = [], conflictCounts = (\<lambda>_. 0), conflictModes = 0, partitions = [],
      conversionsCount = 0, compatibleFirstCount = 0\<rparr>"

definition head_partitioned :: "LockHead \<Rightarrow> bool" where
  "head_partitioned h \<longleftrightarrow> partitions h \<noteq> []"

definition findRequest :: "store \<Rightarrow> LockerId \<Rightarrow> LockHead \<Rightarrow> req option" where
  "findRequest q lockerId h =
     (case find (\<lambda>r. locker (q r) = lockerId) (grantedList h) of
        Some r \<Rightarrow> Some r
      | None \<Rightarrow> find (\<lambda>r. locker (q r) = lockerId) (conflictList h))"

definition incGrantedModeCount :: "LockMode \<Rightarrow> LockHead \<Rightarrow> LockHead option" where
  "incGrantedModeCount m h =
     (let c = grantedCounts h m + 1; h1 = h\<lparr>grantedCounts := (grantedCounts h)(m := c)\<rparr>
      in if c = 1
         then do {
           invariant (grantedModes h1 AND modeMask m = 0);
           Some (h1\<lparr>grantedModes := grantedModes h1 OR modeMask m\<rparr>)
         }
         else Some h1)"

definition decGrantedModeCount :: "LockMode \<Rightarrow> LockHead \<Rightarrow> LockHead option" where
  "decGrantedModeCount m h =
     do {
       invariant (grantedCounts h m \<ge> 1);
       let c = grantedCounts h m - 1;
       let h1 = h\<lparr>grantedCounts := (grantedCounts h)(m := c)\<rparr>;
       if c = 0
       then do {
         invariant (grantedModes h1 AND modeMask m = modeMask m);
         Some (h1\<lparr>grantedModes := grantedModes h1 AND NOT (modeMask m)\<rparr>)
       }
       else Some h1
     }"

definition incConflictModeCount :: "LockMode \<Rightarrow> LockHead \<Rightarrow> LockHead option" where
  "incConflictModeCount m h =
     (let c = conflictCounts h m + 1; h1 = h\<lparr>conflictCounts := (conflictCounts h)(m := c)\<rparr>
      in if c = 1
         then do {
           invariant (conflictModes h1 AND modeMask m = 0);
           Some (h1\<lparr>conflictModes := conflictModes h1 OR modeMask m\<rparr>)
         }
         else Some h1)"

definition decConflictModeCount :: "LockMode \<Rightarrow> LockHead \<Rightarrow> LockHead option" where
  "decConflictModeCount m h =
     do {
       invariant (conflictCounts h m \<ge> 1);
       let c = conflictCounts h m - 1;
       let h1 = h\<lparr>conflictCounts := (conflictCounts h)(m := c)\<rparr>;
       if c = 0
       then do {
         invariant (conflictModes h1 AND modeMask m = modeMask m);
         Some (h1\<lparr>conflictModes := conflictModes h1 AND NOT (modeMask m)\<rparr>)
       }
       else Some h1
     }"

definition newRequest :: "req \<Rightarrow> store \<Rightarrow> LockHead \<Rightarrow> (LockResult \<times> store \<times> LockHead) option" where
  "newRequest r q h =
     do {
       invariant (partitionedLock (q r) = None);
       let q1 = q(r := (q r)\<lparr>lockPtr := Some (resourceId h)\<rparr>);
       if conflicts (mode (q1 r)) (grantedModes h) \<or>
          (compatibleFirstCount h = 0 \<and> conflicts (mode (q1 r)) (conflictModes h))
       then do {
         let q2 = q1(r := (q1 r)\<lparr>status := STATUS_WAITING\<rparr>);
         let h1 = (if enqueueAtFront (q2 r)
                   then h\<lparr>conflictList := r # conflictList h\<rparr>
                   else h\<lparr>conflictList := conflictList h @ [r]\<rparr>);
         h2 \<leftarrow> incConflictModeCount (mode (q2 r)) h1;
         Some (LOCK_WAITING, q2, h2)
       }
       else do {
         let q2 = q1(r := (q1 r)\<lparr>status := STATUS_GRANTED\<rparr>);
         let h1 = h\<lparr>grantedList := grantedList h @ [r]\<rparr>;
         h2 \<leftarrow> incGrantedModeCount (mode (q2 r)) h1;
         let h3 = (if compatibleFirst (q2 r)
                   then h2\<lparr>compatibleFirstCount := compatibleFirstCount h2 + 1\<rparr> else h2);
         Some (LOCK_OK, q2, h3)
       }
     }"

subsection \<open>Granting after a change\<close>

text \<open>
  The inner loops over \<open>i = 1, \<dots>, LockModesCount - 1\<close>: in \<open>convert\<close>, the granted mask
  without what the request holds; in \<open>_onLockModeChanged\<close>, without what it holds and waits for.
\<close>

fun maskWithoutHeld :: "(LockMode \<Rightarrow> nat) \<Rightarrow> LockMode \<Rightarrow> LockMode list \<Rightarrow> mode_mask \<Rightarrow> mode_mask" where
  "maskWithoutHeld counts held [] w = w"
| "maskWithoutHeld counts held (i # is) w =
     (let currentRequestHolds = (if held = i then 1 else 0)
      in maskWithoutHeld counts held is
           (if counts i > currentRequestHolds then w OR modeMask i else w))"

fun maskWithoutHeldAndWaited ::
  "(LockMode \<Rightarrow> nat) \<Rightarrow> LockMode \<Rightarrow> LockMode \<Rightarrow> LockMode list \<Rightarrow> mode_mask \<Rightarrow> mode_mask option" where
  "maskWithoutHeldAndWaited counts held waited [] w = Some w"
| "maskWithoutHeldAndWaited counts held waited (i # is) w =
     do {
       let currentRequestHolds = (if held = i then (1::nat) else 0);
       let currentRequestWaits = (if waited = i then 1 else 0);
       invariant (currentRequestHolds + currentRequestWaits \<le> 1);
       maskWithoutHeldAndWaited counts held waited is
         (if counts i > currentRequestHolds + currentRequestWaits then w OR modeMask i else w)
     }"

text \<open>The first loop of \<open>_onLockModeChanged\<close>: conversions, from the front of the granted queue.\<close>

fun grantConversions ::
  "req list \<Rightarrow> store \<Rightarrow> LockHead \<Rightarrow> notification list \<Rightarrow> (store \<times> LockHead \<times> notification list) option" where
  "grantConversions [] q h l = Some (q, h, l)"
| "grantConversions (iter # rest) q h l =
     (if conversionsCount h = 0 then Some (q, h, l)
      else if status (q iter) = STATUS_CONVERTING
      then do {
        invariant (convertMode (q iter) \<noteq> MODE_NONE);
        grantedModesWithoutCurrentRequest \<leftarrow>
          maskWithoutHeldAndWaited (grantedCounts h) (mode (q iter)) (convertMode (q iter))
            modes_from_1 0;
        if \<not> conflicts (convertMode (q iter)) grantedModesWithoutCurrentRequest
        then do {
          let h1 = h\<lparr>conversionsCount := conversionsCount h - 1\<rparr>;
          h2 \<leftarrow> decGrantedModeCount (mode (q iter)) h1;
          let q1 = q(iter := (q iter)\<lparr>status := STATUS_GRANTED, mode := convertMode (q iter),
                                       convertMode := MODE_NONE\<rparr>);
          grantConversions rest q1 h2 (l @ [(iter, resourceId h2, LOCK_OK)])
        }
        else grantConversions rest q h l
      }
      else grantConversions rest q h l)"

text \<open>The second loop: the conflict queue, front to back.\<close>

fun grantWaiters ::
  "req list \<Rightarrow> bool \<Rightarrow> store \<Rightarrow> LockHead \<Rightarrow> notification list \<Rightarrow>
     (store \<times> LockHead \<times> notification list) option" where
  "grantWaiters [] newlyCompatibleFirst q h l = Some (q, h, l)"
| "grantWaiters (iter # rest) newlyCompatibleFirst q h l =
     do {
       invariant (status (q iter) = STATUS_WAITING);
       if conflicts (mode (q iter)) (grantedModes h)
       then (if conflictList h \<noteq> [] \<and> hd (conflictList h) = iter \<and> \<not> newlyCompatibleFirst
             then Some (q, h, l)
             else grantWaiters rest newlyCompatibleFirst q h l)
       else do {
         let q1 = q(iter := (q iter)\<lparr>status := STATUS_GRANTED\<rparr>);
         h1 \<leftarrow> decConflictModeCount (mode (q1 iter)) (h\<lparr>conflictList := remove1 iter (conflictList h)\<rparr>);
         h2 \<leftarrow> incGrantedModeCount (mode (q1 iter)) (h1\<lparr>grantedList := grantedList h1 @ [iter]\<rparr>);
         let ncf = (newlyCompatibleFirst \<or> compatibleFirst (q1 iter) \<and> compatibleFirstCount h2 = 0);
         let h3 = (if compatibleFirst (q1 iter)
                   then h2\<lparr>compatibleFirstCount := compatibleFirstCount h2 + 1\<rparr> else h2);
         let l1 = l @ [(iter, resourceId h3, LOCK_OK)];
         if mode (q1 iter) = MODE_X then Some (q1, h3, l1) else grantWaiters rest ncf q1 h3 l1
       }
     }"

definition onLockModeChanged ::
  "bool \<Rightarrow> store \<Rightarrow> LockHead \<Rightarrow> notification list \<Rightarrow> (store \<times> LockHead \<times> notification list) option" where
  "onLockModeChanged checkConflictQueue q h l =
     do {
       (q1, h1, l1) \<leftarrow> grantConversions (grantedList h) q h l;
       (q2, h2, l2) \<leftarrow> (if checkConflictQueue then grantWaiters (conflictList h1) False q1 h1 l1
                        else Some (q1, h1, l1));
       invariant ((grantedModes h2 = 0) \<noteq> (grantedList h2 \<noteq> []));
       invariant ((conflictModes h2 = 0) \<noteq> (conflictList h2 \<noteq> []));
       Some (q2, h2, l2)
     }"

end
