(* ===== verification/LockManager.thy ===== *)
theory LockManager
  imports LockHead "HOL-Library.AList"
begin

text \<open>
  \<open>class LockManager\<close> of \<^verbatim>\<open>db/concurrency/lock_manager.cpp\<close>: the hash buckets of lock
  heads, the partitions that let requests in intent modes bypass a lock head, and the operations
  \<open>lock\<close>, \<open>convert\<close>, \<open>unlock\<close>, \<open>downgrade\<close> and \<open>cleanupUnusedLocks\<close>.

  Every operation runs under the mutex of the bucket of its resource, so it is one atomic
  step here. (\<open>lock\<close> looks into the partition before it takes the bucket mutex; a migration in
  between only makes the lookup miss, and the miss continues on the slow path that the model
  has as well.) The iteration order of a hash bucket is the order of its association list.
\<close>

type_synonym partition_table = "LockerId \<Rightarrow> ResourceId \<rightharpoonup> req list"

record LockManager =
  lockBuckets :: "nat \<Rightarrow> (ResourceId \<times> LockHead) list"
  partitionTable :: partition_table
  requestStore :: store
  notifications :: "notification list"

definition numLockBuckets :: nat where
  "numLockBuckets = 128"

definition numPartitions :: "64 word" where
  "numPartitions = 32"

definition emptyLockManager :: LockManager where
  "emptyLockManager =
     \<lparr>lockBuckets = (\<lambda>_. []), partitionTable = (\<lambda>_ _. None),
      requestStore = (\<lambda>r. LockRequest_initNew (slot_locker r)), notifications = []\<rparr>"

definition getBucket :: "ResourceId \<Rightarrow> nat" where
  "getBucket resId = unat (resId mod of_nat numLockBuckets)"

definition getPartition :: "LockRequest \<Rightarrow> LockerId" where
  "getPartition request = locker request mod numPartitions"

definition findHead :: "ResourceId \<Rightarrow> LockManager \<Rightarrow> LockHead option" where
  "findHead resId lm = map_of (lockBuckets lm (getBucket resId)) resId"

text \<open>Writing through the pointer to a lock head that is (or is being put) in the bucket.\<close>

definition putHead :: "ResourceId \<Rightarrow> LockHead \<Rightarrow> LockManager \<Rightarrow> LockManager" where
  "putHead resId h lm =
     lm\<lparr>lockBuckets := (lockBuckets lm)
          (getBucket resId := AList.update resId h (lockBuckets lm (getBucket resId)))\<rparr>"

definition findOrInsertHead :: "ResourceId \<Rightarrow> LockManager \<Rightarrow> LockHead" where
  "findOrInsertHead resId lm =
     (case findHead resId lm of None \<Rightarrow> LockHead_initNew resId | Some h \<Rightarrow> h)"

definition findOrInsertPartitioned :: "ResourceId \<Rightarrow> LockerId \<Rightarrow> partition_table \<Rightarrow> req list" where
  "findOrInsertPartitioned resId p P = (case P p resId of None \<Rightarrow> [] | Some gl \<Rightarrow> gl)"

definition PartitionedLockHead_newRequest ::
  "req \<Rightarrow> LockerId \<Rightarrow> ResourceId \<Rightarrow> req list \<Rightarrow> store \<Rightarrow> (req list \<times> store) option" where
  "PartitionedLockHead_newRequest r p resId gl q =
     do {
       invariant (partitioned (q r));
       invariant (lockPtr (q r) = None);
       let q1 = q(r := (q r)\<lparr>partitionedLock := Some (p, resId), status := STATUS_GRANTED\<rparr>);
       Some (gl @ [r], q1)
     }"

subsection \<open>Migration of partitioned requests\<close>

fun migrateRequests :: "req list \<Rightarrow> store \<Rightarrow> LockHead \<Rightarrow> (store \<times> LockHead) option" where
  "migrateRequests [] q h = Some (q, h)"
| "migrateRequests (request # rest) q h =
     do {
       let q1 = q(request := (q request)\<lparr>partitionedLock := None\<rparr>);
       (res, q2, h2) \<leftarrow> newRequest request q1 h;
       invariant (res = LOCK_OK);
       migrateRequests rest q2 h2
     }"

text \<open>The loop takes the last element of \<open>partitions\<close> first; the argument is that vector reversed.\<close>

fun migrateLoop ::
  "LockerId list \<Rightarrow> partition_table \<Rightarrow> store \<Rightarrow> LockHead \<Rightarrow> (partition_table \<times> store \<times> LockHead) option" where
  "migrateLoop [] P q h = Some (P, q, h)"
| "migrateLoop (p # ps) P q h =
     do {
       (P1, q1, h1) \<leftarrow>
         (case P p (resourceId h) of
            None \<Rightarrow> Some (P, q, h)
          | Some gl \<Rightarrow>
              do {
                (q1, h1) \<leftarrow> migrateRequests gl q h;
                Some (P(p := (P p)(resourceId h := None)), q1, h1)
              });
       let h2 = h1\<lparr>partitions := butlast (partitions h1)\<rparr>;
       migrateLoop ps P1 q1 h2
     }"

definition migratePartitionedLockHeads ::
  "partition_table \<Rightarrow> store \<Rightarrow> LockHead \<Rightarrow> (partition_table \<times> store \<times> LockHead) option" where
  "migratePartitionedLockHeads P q h =
     do {
       invariant (head_partitioned h);
       invariant (grantedModes h AND NOT intentModes = 0 \<and> conflictModes h = 0);
       migrateLoop (rev (partitions h)) P q h
     }"

definition migrateIfPartitioned ::
  "partition_table \<Rightarrow> store \<Rightarrow> LockHead \<Rightarrow> (partition_table \<times> store \<times> LockHead) option" where
  "migrateIfPartitioned P q h =
     (if head_partitioned h then migratePartitionedLockHeads P q h else Some (P, q, h))"

subsection \<open>Operations\<close>

definition LockManager_lock ::
  "ResourceId \<Rightarrow> req \<Rightarrow> LockMode \<Rightarrow> LockManager \<Rightarrow> (LockResult \<times> LockManager) option" where
  "LockManager_lock resId r m lm =
     do {
       let q = requestStore lm;
       let P = partitionTable lm;
       invariant (status (q r) = STATUS_NEW);
       invariant (recursiveCount (q r) = 1);
       let q1 = q(r := (q r)\<lparr>partitioned := (m = MODE_IX \<or> m = MODE_IS), mode := m\<rparr>);
       let p = getPartition (q1 r);
       case (if partitioned (q1 r) then P p resId else None) of
         Some gl \<Rightarrow>
           do {
             (gl1, q2) \<leftarrow> PartitionedLockHead_newRequest r p resId gl q1;
             Some (LOCK_OK, lm\<lparr>requestStore := q2, partitionTable := P(p := (P p)(resId \<mapsto> gl1))\<rparr>)
           }
       | None \<Rightarrow>
           do {
             let h = findOrInsertHead resId lm;
             if partitioned (q1 r) \<and> grantedModes h AND NOT intentModes = 0 \<and> conflictModes h = 0
             then do {
               let gl = findOrInsertPartitioned resId p P;
               let h1 = h\<lparr>partitions := partitions h @ [p]\<rparr>;
               (gl1, q2) \<leftarrow> PartitionedLockHead_newRequest r p resId gl q1;
               Some (LOCK_OK, putHead resId h1
                 (lm\<lparr>requestStore := q2, partitionTable := P(p := (P p)(resId \<mapsto> gl1))\<rparr>))
             }
             else do {
               (P1, q2, h1) \<leftarrow> migrateIfPartitioned P q1 h;
               let q3 = q2(r := (q2 r)\<lparr>partitioned := False\<rparr>);
               (res, q4, h2) \<leftarrow> newRequest r q3 h1;
               Some (res, putHead resId h2 (lm\<lparr>requestStore := q4, partitionTable := P1\<rparr>))
             }
           }
     }"

definition LockManager_convert ::
  "ResourceId \<Rightarrow> req \<Rightarrow> LockMode \<Rightarrow> LockManager \<Rightarrow> (LockResult \<times> LockManager) option" where
  "LockManager_convert resId r newMode lm =
     do {
       let q = requestStore lm;
       invariant (status (q r) = STATUS_GRANTED);
       invariant (recursiveCount (q r) > 0);
       let q1 = q(r := (q r)\<lparr>recursiveCount := recursiveCount (q r) + 1\<rparr>);
       if (LockConflictsTable (mode (q1 r)) OR LockConflictsTable newMode) =
          LockConflictsTable (mode (q1 r))
       then Some (LOCK_OK, lm\<lparr>requestStore := q1\<rparr>)
       else do {
         invariant ((LockConflictsTable (mode (q1 r)) OR LockConflictsTable newMode) =
                    LockConflictsTable newMode);
         invariant (findHead resId lm \<noteq> None);
         h \<leftarrow> findHead resId lm;
         (P1, q2, h1) \<leftarrow> migrateIfPartitioned (partitionTable lm) q1 h;
         let grantedModesWithoutCurrentRequest =
           maskWithoutHeld (grantedCounts h1) (mode (q2 r)) modes_from_1 0;
         if conflicts newMode grantedModesWithoutCurrentRequest
         then do {
           let q3 = q2(r := (q2 r)\<lparr>status := STATUS_CONVERTING, convertMode := newMode\<rparr>);
           let h2 = h1\<lparr>conversionsCount := conversionsCount h1 + 1\<rparr>;
           h3 \<leftarrow> incGrantedModeCount (convertMode (q3 r)) h2;
           Some (LOCK_WAITING, putHead resId h3 (lm\<lparr>requestStore := q3, partitionTable := P1\<rparr>))
         }
         else do {
           h2 \<leftarrow> incGrantedModeCount newMode h1;
           h3 \<leftarrow> decGrantedModeCount (mode (q2 r)) h2;
           let q3 = q2(r := (q2 r)\<lparr>mode := newMode\<rparr>);
           Some (LOCK_OK, putHead resId h3 (lm\<lparr>requestStore := q3, partitionTable := P1\<rparr>))
         }
       }
     }"

text \<open>
  The part of \<open>unlock\<close> under the bucket mutex: the three branches on the request's status.
  Cancelling a conversion resets \<open>convertMode\<close> before it is read as the index of
  \<open>grantedCounts\<close>, exactly as the source has it.
\<close>

definition unlockHead ::
  "req \<Rightarrow> store \<Rightarrow> LockHead \<Rightarrow> notification list \<Rightarrow> (store \<times> LockHead \<times> notification list) option" where
  "unlockHead r q h l =
     (case status (q r) of
        STATUS_GRANTED \<Rightarrow>
          do {
            let h1 = h\<lparr>grantedList := remove1 r (grantedList h)\<rparr>;
            h2 \<leftarrow> decGrantedModeCount (mode (q r)) h1;
            h3 \<leftarrow> (if compatibleFirst (q r)
                   then do {
                     invariant (compatibleFirstCount h2 > 0);
                     let h3 = h2\<lparr>compatibleFirstCount := compatibleFirstCount h2 - 1\<rparr>;
                     invariant (compatibleFirstCount h3 = 0 \<or> grantedList h3 \<noteq> []);
                     Some h3
                   }
                   else Some h2);
            onLockModeChanged (grantedCounts h3 (mode (q r)) = 0) q h3 l
          }
      | STATUS_WAITING \<Rightarrow>
          do {
            invariant (recursiveCount (q r) = 0);
            let h1 = h\<lparr>conflictList := remove1 r (conflictList h)\<rparr>;
            h2 \<leftarrow> decConflictModeCount (mode (q r)) h1;
            onLockModeChanged True q h2 l
          }
      | STATUS_CONVERTING \<Rightarrow>
          do {
            invariant (recursiveCount (q r) > 0);
            invariant (conversionsCount h > 0);
            let q1 = q(r := (q r)\<lparr>status := STATUS_GRANTED\<rparr>);
            let h1 = h\<lparr>conversionsCount := conversionsCount h - 1\<rparr>;
            h2 \<leftarrow> decGrantedModeCount (convertMode (q1 r)) h1;
            let q2 = q1(r := (q1 r)\<lparr>convertMode := MODE_NONE\<rparr>);
            onLockModeChanged (grantedCounts h2 (convertMode (q2 r)) = 0) q2 h2 l
          }
      | STATUS_NEW \<Rightarrow> None)"

definition LockManager_unlock :: "req \<Rightarrow> LockManager \<Rightarrow> (bool \<times> LockManager) option" where
  "LockManager_unlock r lm =
     do {
       let q = requestStore lm;
       let P = partitionTable lm;
       invariant (recursiveCount (q r) > 0);
       let q1 = q(r := (q r)\<lparr>recursiveCount := recursiveCount (q r) - 1\<rparr>);
       if status (q1 r) = STATUS_GRANTED \<and> recursiveCount (q1 r) > 0
       then Some (False, lm\<lparr>requestStore := q1\<rparr>)
       else do {
         invariant (\<not> partitioned (q1 r) \<or> status (q1 r) = STATUS_GRANTED \<or>
                    status (q1 r) = STATUS_CONVERTING);
         case (if partitioned (q1 r) then partitionedLock (q1 r) else None) of
           Some (p, resId) \<Rightarrow>
             Some (True, lm\<lparr>requestStore := q1,
               partitionTable := P(p := (P p)(resId := map_option (remove1 r) (P p resId)))\<rparr>)
         | None \<Rightarrow>
             do {
               invariant (lockPtr (q1 r) \<noteq> None);
               resId \<leftarrow> lockPtr (q1 r);
               h \<leftarrow> findHead resId lm;
               (q2, h1, l1) \<leftarrow> unlockHead r q1 h (notifications lm);
               Some (recursiveCount (q2 r) = 0,
                     putHead resId h1 (lm\<lparr>requestStore := q2, notifications := l1\<rparr>))
             }
       }
     }"

definition LockManager_downgrade :: "req \<Rightarrow> LockMode \<Rightarrow> LockManager \<Rightarrow> LockManager option" where
  "LockManager_downgrade r newMode lm =
     do {
       let q = requestStore lm;
       invariant (lockPtr (q r) \<noteq> None);
       invariant (status (q r) = STATUS_GRANTED);
       invariant (recursiveCount (q r) > 0);
       invariant ((LockConflictsTable (mode (q r)) OR LockConflictsTable newMode) =
                  LockConflictsTable (mode (q r)));
       resId \<leftarrow> lockPtr (q r);
       h \<leftarrow> findHead resId lm;
       h1 \<leftarrow> incGrantedModeCount newMode h;
       h2 \<leftarrow> decGrantedModeCount (mode (q r)) h1;
       let q1 = q(r := (q r)\<lparr>mode := newMode\<rparr>);
       (q2, h3, l1) \<leftarrow> onLockModeChanged True q1 h2 (notifications lm);
       Some (putHead resId h3 (lm\<lparr>requestStore := q2, notifications := l1\<rparr>))
     }"

subsection \<open>Cleaning up\<close>

text \<open>The loop over the entries of a bucket, keeping the ones that still have granted requests.\<close>

fun cleanupEntries ::
  "(ResourceId \<times> LockHead) list \<Rightarrow> partition_table \<Rightarrow> store \<Rightarrow>
     ((ResourceId \<times> LockHead) list \<times> partition_table \<times> store) option" where
  "cleanupEntries [] P q = Some ([], P, q)"
| "cleanupEntries ((k, lock) # es) P q =
     do {
       (P1, q1, lock1) \<leftarrow> migrateIfPartitioned P q lock;
       if grantedModes lock1 = 0
       then do {
         invariant (grantedList lock1 = []);
         invariant (conflictModes lock1 = 0);
         invariant (conflictList lock1 = []);
         invariant (conversionsCount lock1 = 0);
         invariant (compatibleFirstCount lock1 = 0);
         cleanupEntries es P1 q1
       }
       else do {
         (es1, P2, q2) \<leftarrow> cleanupEntries es P1 q1;
         Some ((k, lock1) # es1, P2, q2)
       }
     }"

definition cleanupUnusedLocksInBucket :: "nat \<Rightarrow> LockManager \<Rightarrow> LockManager option" where
  "cleanupUnusedLocksInBucket i lm =
     do {
       (es, P, q) \<leftarrow> cleanupEntries (lockBuckets lm i) (partitionTable lm) (requestStore lm);
       Some (lm\<lparr>lockBuckets := (lockBuckets lm)(i := es), partitionTable := P, requestStore := q\<rparr>)
     }"

fun cleanupBuckets :: "nat list \<Rightarrow> LockManager \<Rightarrow> LockManager option" where
  "cleanupBuckets [] lm = Some lm"
| "cleanupBuckets (i # is) lm = do { lm1 \<leftarrow> cleanupUnusedLocksInBucket i lm; cleanupBuckets is lm1 }"

definition cleanupUnusedLocks :: "LockManager \<Rightarrow> LockManager option" where
  "cleanupUnusedLocks lm = cleanupBuckets [0..<numLockBuckets] lm"

end
