(* ===== verification/LockHeadInv.thy ===== *)
theory LockHeadInv
  imports LockHead
begin

text \<open>
  The invariant of one lock head. Its counters and bit masks are a cache of the two queues
  (\<open>head_sync\<close>), every linked request is in the state its queue demands and the granted
  modes are pairwise compatible (\<open>reqs_ok\<close>). The lemmas show that the counter updates, the
  admission of a request and the two granting loops of \<open>_onLockModeChanged\<close> never hit one of their
  assertions on such a head and lead to such a head again.
\<close>

subsection \<open>Counters and masks as functions of the queues\<close>

definition maskOf :: "(LockMode \<Rightarrow> nat) \<Rightarrow> mode_mask" where
  "maskOf c =
     (if 0 < c MODE_NONE then modeMask MODE_NONE else 0) OR
     (if 0 < c MODE_IS then modeMask MODE_IS else 0) OR
     (if 0 < c MODE_IX then modeMask MODE_IX else 0) OR
     (if 0 < c MODE_S then modeMask MODE_S else 0) OR
     (if 0 < c MODE_X then modeMask MODE_X else 0)"

definition held :: "store \<Rightarrow> req list \<Rightarrow> LockMode \<Rightarrow> nat" where
  "held q xs m =
     (if m = MODE_NONE then 0
      else countp (\<lambda>r. mode (q r) = m) xs + countp (\<lambda>r. convertMode (q r) = m) xs)"

definition waited :: "store \<Rightarrow> req list \<Rightarrow> LockMode \<Rightarrow> nat" where
  "waited q xs m = countp (\<lambda>r. mode (q r) = m) xs"

definition converting :: "store \<Rightarrow> req \<Rightarrow> bool" where
  "converting q r \<longleftrightarrow> status (q r) = STATUS_CONVERTING"

definition compatFirst :: "store \<Rightarrow> req \<Rightarrow> bool" where
  "compatFirst q r \<longleftrightarrow> compatibleFirst (q r)"

definition head_sync :: "store \<Rightarrow> LockHead \<Rightarrow> bool" where
  "head_sync q h \<longleftrightarrow>
     grantedCounts h = held q (grantedList h) \<and>
     grantedModes h = maskOf (held q (grantedList h)) \<and>
     conflictCounts h = waited q (conflictList h) \<and>
     conflictModes h = maskOf (waited q (conflictList h)) \<and>
     conversionsCount h = countp (converting q) (grantedList h) \<and>
     compatibleFirstCount h = countp (compatFirst q) (grantedList h)"

lemma bit_maskOf: "bit (maskOf c) n \<longleftrightarrow> (\<exists>m. n = mode_val m \<and> 0 < c m)"
  by (auto simp: maskOf_def bit_or_iff ex_LockMode)

lemma bit_maskOf_mode [simp]: "bit (maskOf c) (mode_val m) \<longleftrightarrow> 0 < c m"
  by (auto simp: bit_maskOf)

lemma maskOf_eqI: "(\<And>n. bit w n \<longleftrightarrow> (\<exists>m. n = mode_val m \<and> 0 < c m)) \<Longrightarrow> w = maskOf c"
  by (rule bit_eqI) (simp add: bit_maskOf)

lemma maskOf_0_iff: "maskOf c = 0 \<longleftrightarrow> (\<forall>m. c m = 0)"
proof
  assume "maskOf c = 0"
  then have "\<not> bit (maskOf c) (mode_val m)" for m by simp
  then show "\<forall>m. c m = 0" by simp
qed (simp add: maskOf_def)

lemma mask_inc: "maskOf (c(m := Suc (c m))) = maskOf c OR modeMask m"
  by (rule maskOf_eqI [symmetric]) (auto simp: bit_or_iff bit_maskOf)

lemma mask_inc_pos: "0 < c m \<Longrightarrow> maskOf (c(m := Suc (c m))) = maskOf c"
  by (rule maskOf_eqI [symmetric]) (auto simp: bit_maskOf)

lemma mode_val_lt32 [simp]: "mode_val m < 32"
  using mode_val_less [of m] by simp

lemma mask_dec_zero: "maskOf (c(m := 0)) = maskOf c AND NOT (modeMask m)"
proof (rule maskOf_eqI [symmetric])
  fix n
  show "bit (maskOf c AND NOT (modeMask m)) n \<longleftrightarrow> (\<exists>k. n = mode_val k \<and> 0 < (c(m := 0)) k)"
    by (auto simp: bit_and_iff bit_not_iff bit_maskOf)
qed

lemma mask_dec_pos: "Suc 0 < c m \<Longrightarrow> maskOf (c(m := c m - 1)) = maskOf c"
  by (rule maskOf_eqI [symmetric]) (auto simp: bit_maskOf)

lemma maskOf_and_modeMask:
  "maskOf c AND modeMask m = (if 0 < c m then modeMask m else 0)"
  by (rule bit_eqI) (auto simp: bit_and_iff bit_maskOf)

text \<open>Under a synchronised mask the counter updates succeed and keep the mask synchronised.\<close>

lemma incGrantedModeCount_eq:
  assumes "grantedModes h = maskOf (grantedCounts h)"
  shows "incGrantedModeCount m h =
    Some (h\<lparr>grantedCounts := (grantedCounts h)(m := Suc (grantedCounts h m)),
            grantedModes := maskOf ((grantedCounts h)(m := Suc (grantedCounts h m)))\<rparr>)"
proof (cases "grantedCounts h m = 0")
  case True
  with assms show ?thesis
    by (simp add: incGrantedModeCount_def Let_def maskOf_and_modeMask flip: mask_inc)
next
  case False
  with assms show ?thesis
    by (cases h) (simp add: incGrantedModeCount_def Let_def mask_inc_pos)
qed

lemma incConflictModeCount_eq:
  assumes "conflictModes h = maskOf (conflictCounts h)"
  shows "incConflictModeCount m h =
    Some (h\<lparr>conflictCounts := (conflictCounts h)(m := Suc (conflictCounts h m)),
            conflictModes := maskOf ((conflictCounts h)(m := Suc (conflictCounts h m)))\<rparr>)"
proof (cases "conflictCounts h m = 0")
  case True
  with assms show ?thesis
    by (simp add: incConflictModeCount_def Let_def maskOf_and_modeMask flip: mask_inc)
next
  case False
  with assms show ?thesis
    by (cases h) (simp add: incConflictModeCount_def Let_def mask_inc_pos)
qed

lemma decGrantedModeCount_eq:
  assumes "grantedModes h = maskOf (grantedCounts h)" and "0 < grantedCounts h m"
  shows "decGrantedModeCount m h =
    Some (h\<lparr>grantedCounts := (grantedCounts h)(m := grantedCounts h m - 1),
            grantedModes := maskOf ((grantedCounts h)(m := grantedCounts h m - 1))\<rparr>)"
  using assms mask_dec_pos [of "grantedCounts h" m]
  by (auto simp: decGrantedModeCount_def Let_def mask_dec_zero maskOf_and_modeMask)

lemma decConflictModeCount_eq:
  assumes "conflictModes h = maskOf (conflictCounts h)" and "0 < conflictCounts h m"
  shows "decConflictModeCount m h =
    Some (h\<lparr>conflictCounts := (conflictCounts h)(m := conflictCounts h m - 1),
            conflictModes := maskOf ((conflictCounts h)(m := conflictCounts h m - 1))\<rparr>)"
  using assms mask_dec_pos [of "conflictCounts h" m]
  by (auto simp: decConflictModeCount_def Let_def mask_dec_zero maskOf_and_modeMask)

lemma conflicts_maskOf: "conflicts m (maskOf c) \<longleftrightarrow> (\<exists>g. \<not> compatible m g \<and> 0 < c g)"
  by (simp add: conflicts_iff)

lemma compatible_NONE [simp]: "compatible m MODE_NONE"
  by (cases m) auto

text \<open>A mode conflicts with the granted mask iff it conflicts with what some granted request
  holds or is converting to.\<close>

lemma conflicts_held:
  "conflicts m (maskOf (held q xs)) \<longleftrightarrow>
     (\<exists>r \<in> set xs. \<not> compatible m (mode (q r)) \<or> \<not> compatible m (convertMode (q r)))"
proof -
  have "0 < held q xs g \<longleftrightarrow>
      g \<noteq> MODE_NONE \<and> (\<exists>r \<in> set xs. mode (q r) = g \<or> convertMode (q r) = g)" for g
    by (auto simp: held_def countp_pos_iff)
  then show ?thesis
    unfolding conflicts_maskOf by (metis compatible_NONE)
qed

lemma conflicts_waited:
  "conflicts m (maskOf (waited q xs)) \<longleftrightarrow> (\<exists>r \<in> set xs. \<not> compatible m (mode (q r)))"
  by (auto simp: conflicts_maskOf waited_def countp_pos_iff)

lemma held_upd_notin [simp]: "r \<notin> set xs \<Longrightarrow> held (q(r := x)) xs = held q xs"
  by (rule ext) (auto simp: held_def intro!: countp_cong arg_cong2 [where f = "(+)"])

lemma waited_upd_notin [simp]: "r \<notin> set xs \<Longrightarrow> waited (q(r := x)) xs = waited q xs"
  by (rule ext) (auto simp: waited_def intro!: countp_cong)

lemma converting_upd_notin [simp]:
  "r \<notin> set xs \<Longrightarrow> countp (converting (q(r := x))) xs = countp (converting q) xs"
  by (auto simp: converting_def intro!: countp_cong split: if_splits)

lemma compatFirst_upd_notin [simp]:
  "r \<notin> set xs \<Longrightarrow>
     countp (compatFirst (q(r := x))) xs = countp (compatFirst q) xs"
  by (auto simp: compatFirst_def intro!: countp_cong split: if_splits)

lemma held_remove1:
  "r \<in> set xs \<Longrightarrow> i \<noteq> MODE_NONE \<Longrightarrow>
     held q xs i = held q (remove1 r xs) i + (if mode (q r) = i then 1 else 0)
                   + (if convertMode (q r) = i then 1 else 0)"
  by (auto simp: held_def countp_remove1 [where x = r])

lemma held_minus_own:
  assumes "r \<in> set xs" "i \<noteq> MODE_NONE"
  shows "(if mode (q r) = i then 1 else 0) + (if convertMode (q r) = i then 1 else 0) < held q xs i
    \<longleftrightarrow> 0 < held q (remove1 r xs) i"
  using held_remove1 [OF assms, of q] by linarith

lemma ex_modes_from_1:
  assumes "\<And>i. i \<noteq> MODE_NONE \<Longrightarrow> A i \<longleftrightarrow> 0 < B i" and "B MODE_NONE = (0::nat)"
  shows "(\<exists>i \<in> set modes_from_1. n = mode_val i \<and> A i) \<longleftrightarrow> (\<exists>m. n = mode_val m \<and> 0 < B m)"
  unfolding modes_from_1_def using assms by (auto simp: ex_LockMode)

lemma held_NONE [simp]: "held q xs MODE_NONE = 0"
  by (simp add: held_def)

lemma bit_maskWithoutHeld:
  "bit (maskWithoutHeld counts a is w) n \<longleftrightarrow>
     bit w n \<or> (\<exists>i \<in> set is. n = mode_val i \<and> (if a = i then 1 else 0) < counts i)"
  by (induction "is" arbitrary: w) (auto simp: Let_def bit_or_iff)

lemma maskWithoutHeldAndWaited_Some:
  "a \<noteq> b \<Longrightarrow> \<exists>w'. maskWithoutHeldAndWaited counts a b is w = Some w' \<and>
     (\<forall>n. bit w' n \<longleftrightarrow> bit w n \<or> (\<exists>i \<in> set is. n = mode_val i \<and>
        (if a = i then 1 else 0) + (if b = i then 1 else 0) < counts i))"
proof (induction "is" arbitrary: w)
  case Nil
  then show ?case by simp
next
  case (Cons i "is")
  let ?w = "if counts i > (if a = i then 1 else 0) + (if b = i then 1 else 0)
            then w OR modeMask i else w"
  obtain w' where "maskWithoutHeldAndWaited counts a b is ?w = Some w'"
    and "\<forall>n. bit w' n \<longleftrightarrow> bit ?w n \<or> (\<exists>i \<in> set is. n = mode_val i \<and>
        (if a = i then 1 else 0) + (if b = i then 1 else 0) < counts i)"
    using Cons.IH [OF Cons.prems, of ?w] by blast
  then show ?case
    using Cons.prems by (auto simp: Let_def bit_or_iff)
qed

text \<open>What a converting request is checked against: everything but its own two modes.\<close>

lemma maskWithoutHeldAndWaited_eq:
  assumes "r \<in> set xs" and "mode (q r) \<noteq> convertMode (q r)"
  shows "maskWithoutHeldAndWaited (held q xs) (mode (q r)) (convertMode (q r)) modes_from_1 0 =
         Some (maskOf (held q (remove1 r xs)))"
proof -
  obtain w where w: "maskWithoutHeldAndWaited (held q xs) (mode (q r)) (convertMode (q r))
      modes_from_1 0 = Some w"
    and bits: "\<forall>n. bit w n \<longleftrightarrow> (\<exists>i \<in> set modes_from_1. n = mode_val i \<and>
        (if mode (q r) = i then 1 else 0) + (if convertMode (q r) = i then 1 else 0) < held q xs i)"
    using maskWithoutHeldAndWaited_Some [OF assms(2), of "held q xs" modes_from_1 0] by auto
  have "w = maskOf (held q (remove1 r xs))"
  proof (rule maskOf_eqI)
    fix n
    show "bit w n \<longleftrightarrow> (\<exists>m. n = mode_val m \<and> 0 < held q (remove1 r xs) m)"
      unfolding bits [rule_format]
      by (rule ex_modes_from_1) (simp_all only: held_minus_own [OF assms(1)] held_NONE not_False_eq_True)
  qed
  with w show ?thesis by simp
qed

lemma maskWithoutHeld_eq:
  assumes "r \<in> set xs" and "convertMode (q r) = MODE_NONE"
  shows "maskWithoutHeld (held q xs) (mode (q r)) modes_from_1 0 = maskOf (held q (remove1 r xs))"
proof (rule maskOf_eqI)
  fix n
  have "(if mode (q r) = i then 1 else 0) < held q xs i \<longleftrightarrow> 0 < held q (remove1 r xs) i"
    if "i \<noteq> MODE_NONE" for i
    using held_minus_own [OF assms(1) that, of q] assms(2) that by simp
  then show "bit (maskWithoutHeld (held q xs) (mode (q r)) modes_from_1 0) n \<longleftrightarrow>
      (\<exists>m. n = mode_val m \<and> 0 < held q (remove1 r xs) m)"
    using ex_modes_from_1 [of "\<lambda>i. (if mode (q r) = i then 1 else 0) < held q xs i"]
    by (simp add: bit_maskWithoutHeld)
qed

subsection \<open>The invariant of a lock head\<close>

definition granted_ok :: "store \<Rightarrow> req \<Rightarrow> bool" where
  "granted_ok q r \<longleftrightarrow> mode (q r) \<noteq> MODE_NONE \<and>
     (status (q r) = STATUS_GRANTED \<and> convertMode (q r) = MODE_NONE \<or>
      status (q r) = STATUS_CONVERTING \<and> convertMode (q r) \<noteq> MODE_NONE \<and>
      convertMode (q r) \<noteq> mode (q r) \<and> isModeCovered (mode (q r)) (convertMode (q r)))"

definition waiting_ok :: "store \<Rightarrow> req \<Rightarrow> bool" where
  "waiting_ok q r \<longleftrightarrow>
     status (q r) = STATUS_WAITING \<and> mode (q r) \<noteq> MODE_NONE \<and> convertMode (q r) = MODE_NONE"

definition linked_to :: "store \<Rightarrow> ResourceId \<Rightarrow> req \<Rightarrow> bool" where
  "linked_to q k r \<longleftrightarrow> lockPtr (q r) = Some k \<and> partitionedLock (q r) = None"

definition compat_all :: "store \<Rightarrow> req list \<Rightarrow> bool" where
  "compat_all q xs \<longleftrightarrow>
     (\<forall>r \<in> set xs. \<forall>s \<in> set xs. r \<noteq> s \<longrightarrow> compatible (mode (q r)) (mode (q s)))"

definition reqs_ok :: "store \<Rightarrow> LockHead \<Rightarrow> bool" where
  "reqs_ok q h \<longleftrightarrow>
     distinct (grantedList h @ conflictList h) \<and>
     (\<forall>r \<in> set (grantedList h). granted_ok q r \<and> linked_to q (resourceId h) r) \<and>
     (\<forall>r \<in> set (conflictList h). waiting_ok q r \<and> linked_to q (resourceId h) r) \<and>
     compat_all q (grantedList h)"

definition head_ok :: "store \<Rightarrow> LockHead \<Rightarrow> bool" where
  "head_ok q h \<longleftrightarrow>
     head_sync q h \<and> reqs_ok q h \<and> (grantedList h = [] \<longrightarrow> conflictList h = [])"

lemma head_ok_initNew: "head_ok q (LockHead_initNew k)"
  by (auto simp: head_ok_def head_sync_def reqs_ok_def LockHead_initNew_def held_def waited_def
      compat_all_def maskOf_def)

lemma head_syncD:
  assumes "head_sync q h"
  shows "grantedModes h = maskOf (grantedCounts h)" "conflictModes h = maskOf (conflictCounts h)"
    "grantedCounts h = held q (grantedList h)" "conflictCounts h = waited q (conflictList h)"
    "grantedModes h = maskOf (held q (grantedList h))"
    "conflictModes h = maskOf (waited q (conflictList h))"
    "conversionsCount h = countp (converting q) (grantedList h)"
    "compatibleFirstCount h = countp (compatFirst q) (grantedList h)"
  using assms by (simp_all add: head_sync_def)

text \<open>The masks are zero exactly when their queue is empty: the final assertions of
  \<open>_onLockModeChanged\<close>.\<close>

lemma granted_mask_zero:
  "head_sync q h \<Longrightarrow> reqs_ok q h \<Longrightarrow> grantedModes h = 0 \<longleftrightarrow> grantedList h = []"
proof -
  assume h: "head_sync q h" "reqs_ok q h"
  have "0 < held q (grantedList h) (mode (q r))" if "r \<in> set (grantedList h)" for r
    using that h(2) by (auto simp: held_def reqs_ok_def granted_ok_def countp_pos_iff)
  then have "(\<forall>m. held q (grantedList h) m = 0) \<longleftrightarrow> grantedList h = []"
    by (metis countp_Nil held_def list.set_intros(1) neq_Nil_conv add_0 not_gr0)
  with h(1) show ?thesis by (simp add: head_syncD maskOf_0_iff)
qed

lemma conflict_mask_zero: "head_sync q h \<Longrightarrow> conflictModes h = 0 \<longleftrightarrow> conflictList h = []"
proof -
  assume h: "head_sync q h"
  have "0 < waited q (conflictList h) (mode (q r))" if "r \<in> set (conflictList h)" for r
    using that by (auto simp: waited_def countp_pos_iff)
  then have "(\<forall>m. waited q (conflictList h) m = 0) \<longleftrightarrow> conflictList h = []"
    by (metis countp_Nil waited_def list.set_intros(1) neq_Nil_conv not_gr0)
  with h show ?thesis by (simp add: head_syncD maskOf_0_iff)
qed

end
