(* ===== verification/GrantLoops.thy ===== *)
theory GrantLoops
  imports LockHeadInv
begin

text \<open>
  The two loops of \<open>LockManager::_onLockModeChanged\<close>. A loop is a sequence of grants; each
  grant keeps the invariant of the head, changes only the granted request, and is announced by
  exactly one notification (\<open>grants\<close>). The relation composes, so the loop lemmas are inductions
  over their queue with the single grants as steps.
\<close>

text \<open>Granting writes only the status and the two modes of a request.\<close>

definition same_identity :: "LockRequest \<Rightarrow> LockRequest \<Rightarrow> bool" where
  "same_identity x y \<longleftrightarrow>
     locker y = locker x \<and> enqueueAtFront y = enqueueAtFront x \<and>
     compatibleFirst y = compatibleFirst x \<and> partitioned y = partitioned x \<and>
     recursiveCount y = recursiveCount x \<and> lockPtr y = lockPtr x \<and>
     partitionedLock y = partitionedLock x \<and> unlockPending y = unlockPending x"

text \<open>What granting does to one request: nothing, or the end of its wait.\<close>

definition granted_from :: "LockRequest \<Rightarrow> LockRequest \<Rightarrow> bool" where
  "granted_from x y \<longleftrightarrow> y = x \<or>
     status x = STATUS_WAITING \<and> y = x\<lparr>status := STATUS_GRANTED\<rparr> \<or>
     status x = STATUS_CONVERTING \<and>
       y = x\<lparr>status := STATUS_GRANTED, mode := convertMode x, convertMode := MODE_NONE\<rparr>"

lemma granted_fromD:
  assumes "granted_from x y"
  shows "same_identity x y" "status x = STATUS_GRANTED \<Longrightarrow> y = x"
    "status y \<noteq> status x \<Longrightarrow> status y = STATUS_GRANTED" "status y \<noteq> STATUS_GRANTED \<Longrightarrow> y = x"
  using assms by (auto simp: granted_from_def same_identity_def)

lemma granted_from_trans: "granted_from x y \<Longrightarrow> granted_from y z \<Longrightarrow> granted_from x z"
  by (auto simp: granted_from_def)

definition grants ::
  "store \<Rightarrow> LockHead \<Rightarrow> notification list \<Rightarrow> store \<Rightarrow> LockHead \<Rightarrow> notification list \<Rightarrow> bool" where
  "grants q h l q' h' l' \<longleftrightarrow>
     resourceId h' = resourceId h \<and> partitions h' = partitions h \<and>
     set (grantedList h') \<union> set (conflictList h') = set (grantedList h) \<union> set (conflictList h) \<and>
     set (grantedList h) \<subseteq> set (grantedList h') \<and>
     (\<forall>r. r \<notin> set (grantedList h) \<union> set (conflictList h) \<longrightarrow> q' r = q r) \<and>
     (\<forall>r. granted_from (q r) (q' r)) \<and>
     (\<exists>ns. l' = l @ map (\<lambda>r. (r, resourceId h, LOCK_OK)) ns \<and> distinct ns \<and>
           set ns = {r. status (q r) \<noteq> STATUS_GRANTED \<and> status (q' r) = STATUS_GRANTED})"

lemma grants_refl [simp]: "grants q h l q h l"
  by (simp add: grants_def granted_from_def)

lemma grantsD:
  assumes "grants q h l q' h' l'"
  shows "same_identity (q r) (q' r)" "status (q r) = STATUS_GRANTED \<Longrightarrow> q' r = q r"
    "status (q' r) \<noteq> status (q r) \<Longrightarrow> status (q' r) = STATUS_GRANTED"
    "granted_from (q r) (q' r)" "r \<notin> set (grantedList h) \<union> set (conflictList h) \<Longrightarrow> q' r = q r"
proof -
  show g: "granted_from (q r) (q' r)" using assms unfolding grants_def by blast
  note d = granted_fromD [OF g]
  show "same_identity (q r) (q' r)" by (fact d(1))
  show "status (q r) = STATUS_GRANTED \<Longrightarrow> q' r = q r" by (fact d(2))
  show "status (q' r) \<noteq> status (q r) \<Longrightarrow> status (q' r) = STATUS_GRANTED" by (fact d(3))
  show "r \<notin> set (grantedList h) \<union> set (conflictList h) \<Longrightarrow> q' r = q r"
    using assms unfolding grants_def by blast
qed

lemma grants_trans:
  assumes "grants q h l q' h' l'" and "grants q' h' l' q'' h'' l''"
  shows "grants q h l q'' h'' l''"
proof -
  obtain ns where ns: "l' = l @ map (\<lambda>r. (r, resourceId h, LOCK_OK)) ns" "distinct ns"
    "set ns = {r. status (q r) \<noteq> STATUS_GRANTED \<and> status (q' r) = STATUS_GRANTED}"
    using assms(1) by (auto simp: grants_def)
  obtain ns' where ns': "l'' = l' @ map (\<lambda>r. (r, resourceId h', LOCK_OK)) ns'" "distinct ns'"
    "set ns' = {r. status (q' r) \<noteq> STATUS_GRANTED \<and> status (q'' r) = STATUS_GRANTED}"
    using assms(2) by (auto simp: grants_def)
  have mono': "status (q'' r) \<noteq> status (q' r) \<Longrightarrow> status (q'' r) = STATUS_GRANTED" for r
    using grantsD(3) [OF assms(2)] .
  have mono: "status (q' r) \<noteq> status (q r) \<Longrightarrow> status (q' r) = STATUS_GRANTED" for r
    using grantsD(3) [OF assms(1)] .
  have "set (ns @ ns') = {r. status (q r) \<noteq> STATUS_GRANTED \<and> status (q'' r) = STATUS_GRANTED}"
    using ns(3) ns'(3) mono mono' by auto metis+
  moreover have "distinct (ns @ ns')"
    using ns(2,3) ns'(2,3) by auto
  moreover have "l'' = l @ map (\<lambda>r. (r, resourceId h, LOCK_OK)) (ns @ ns')"
    using ns(1) ns'(1) assms(1) by (simp add: grants_def)
  moreover have "granted_from (q r) (q'' r)" for r
    using granted_from_trans grantsD(4) [OF assms(1)] grantsD(4) [OF assms(2)] .
  ultimately show ?thesis
    using assms unfolding grants_def by (intro conjI exI [of _ "ns @ ns'"]) auto
qed

subsection \<open>Replacing one request of a queue\<close>

lemma held_upd:
  assumes "distinct xs" "r \<in> set xs" "m \<noteq> MODE_NONE"
  shows "held (q(r := x)) xs m + (if mode (q r) = m then 1 else 0) + (if convertMode (q r) = m then 1 else 0)
       = held q xs m + (if mode x = m then 1 else 0) + (if convertMode x = m then 1 else 0)"
proof -
  have "held (q(r := x)) (remove1 r xs) = held q (remove1 r xs)"
    using assms(1) by simp
  with held_remove1 [OF assms(2,3), of q] held_remove1 [OF assms(2,3), of "q(r := x)"]
  show ?thesis by simp
qed

lemma converting_upd:
  assumes "distinct xs" "r \<in> set xs"
  shows "countp (converting (q(r := x))) xs + (if converting q r then 1 else 0)
       = countp (converting q) xs + (if status x = STATUS_CONVERTING then 1 else 0)"
  using countp_change_at [OF assms, of "converting (q(r := x))" "converting q"]
  by (simp add: converting_def)

lemma compatFirst_upd:
  assumes "compatibleFirst x = compatibleFirst (q r)"
  shows "countp (compatFirst (q(r := x))) xs = countp (compatFirst q) xs"
  using assms by (intro countp_cong) (auto simp: compatFirst_def)

lemma waited_upd:
  assumes "mode x = mode (q r)"
  shows "waited (q(r := x)) xs = waited q xs"
  using assms by (intro ext) (auto simp: waited_def intro!: countp_cong)

subsection \<open>Granting one conversion\<close>

lemma conversion_step:
  fixes h :: LockHead and q :: store and r :: req
  defines "q1 \<equiv> q(r := (q r)\<lparr>status := STATUS_GRANTED, mode := convertMode (q r), convertMode := MODE_NONE\<rparr>)"
  assumes sync: "head_sync q h" and ok: "reqs_ok q h" and r: "r \<in> set (grantedList h)"
    and conv: "status (q r) = STATUS_CONVERTING"
    and nc: "\<not> conflicts (convertMode (q r)) (maskOf (held q (remove1 r (grantedList h))))"
  shows "\<exists>h2. decGrantedModeCount (mode (q r)) (h\<lparr>conversionsCount := conversionsCount h - 1\<rparr>) = Some h2 \<and>
      head_sync q1 h2 \<and> reqs_ok q1 h2 \<and> grantedList h2 = grantedList h \<and>
      conflictList h2 = conflictList h \<and> grants q h l q1 h2 (l @ [(r, resourceId h2, LOCK_OK)])"
proof -
  have d: "distinct (grantedList h)" and dc: "r \<notin> set (conflictList h)"
    using ok r by (auto simp: reqs_ok_def)
  have m: "mode (q r) \<noteq> MODE_NONE" "convertMode (q r) \<noteq> MODE_NONE" "convertMode (q r) \<noteq> mode (q r)"
    using ok r conv by (auto simp: reqs_ok_def granted_ok_def)
  let ?c = "held q (grantedList h)"
  let ?x = "(q r)\<lparr>status := STATUS_GRANTED, mode := convertMode (q r), convertMode := MODE_NONE\<rparr>"
  have pos: "0 < ?c (mode (q r))"
    using held_remove1 [OF r m(1), of q] by simp
  have counts: "?c(mode (q r) := ?c (mode (q r)) - 1) = held q1 (grantedList h)"
  proof
    fix k
    show "(?c(mode (q r) := ?c (mode (q r)) - 1)) k = held q1 (grantedList h) k"
      using held_upd [OF d r, of k q ?x] m pos by (cases "k = MODE_NONE") (auto simp: q1_def split: if_splits)
  qed
  have cc: "conversionsCount h - 1 = countp (converting q1) (grantedList h)"
    using converting_upd [OF d r, of q ?x] conv sync
    by (auto simp: q1_def head_syncD converting_def split: if_splits)
  let ?h2 = "h\<lparr>conversionsCount := conversionsCount h - 1,
               grantedCounts := held q1 (grantedList h),
               grantedModes := maskOf (held q1 (grantedList h))\<rparr>"
  have dec: "decGrantedModeCount (mode (q r)) (h\<lparr>conversionsCount := conversionsCount h - 1\<rparr>) = Some ?h2"
    using decGrantedModeCount_eq [of "h\<lparr>conversionsCount := conversionsCount h - 1\<rparr>" "mode (q r)"] sync pos
    by (simp add: head_syncD flip: counts)
  have "head_sync q1 ?h2"
    using sync cc dc by (simp add: head_sync_def) (simp add: q1_def compatFirst_upd)
  moreover have "reqs_ok q1 ?h2"
  proof -
    have others: "compatible (convertMode (q r)) (mode (q s))" if "s \<in> set (grantedList h)" "s \<noteq> r" for s
      using nc that d by (auto simp: conflicts_held)
    then have "compat_all q1 (grantedList h)"
      using ok compatible_sym by (auto simp: reqs_ok_def compat_all_def q1_def)
    moreover have "granted_ok q1 s \<and> linked_to q1 (resourceId h) s" if "s \<in> set (grantedList h)" for s
      using ok that m by (auto simp: reqs_ok_def q1_def granted_ok_def linked_to_def)
    moreover have "waiting_ok q1 s \<and> linked_to q1 (resourceId h) s" if "s \<in> set (conflictList h)" for s
      using ok that dc by (auto simp: reqs_ok_def q1_def waiting_ok_def linked_to_def)
    ultimately show ?thesis
      using ok by (simp add: reqs_ok_def)
  qed
  moreover have "grants q h l q1 ?h2 (l @ [(r, resourceId ?h2, LOCK_OK)])"
    unfolding grants_def using r conv
    by (intro conjI exI [of _ "[r]"]) (auto simp: q1_def granted_from_def)
  ultimately show ?thesis
    using dec by (intro exI [of _ ?h2]) simp
qed

lemma grantConversions_ok:
  assumes "head_sync q h" "reqs_ok q h" "distinct xs" "set xs \<subseteq> set (grantedList h)"
  shows "\<exists>q' h' l'. grantConversions xs q h l = Some (q', h', l') \<and>
      head_sync q' h' \<and> reqs_ok q' h' \<and> grantedList h' = grantedList h \<and>
      conflictList h' = conflictList h \<and> grants q h l q' h' l'"
  using assms
proof (induction xs arbitrary: q h l)
  case Nil
  then show ?case by simp
next
  case (Cons r rest)
  have r: "r \<in> set (grantedList h)" and rest: "distinct rest" "set rest \<subseteq> set (grantedList h)"
    using Cons.prems by auto
  note skip = Cons.IH [OF Cons.prems(1,2) rest, of l]
  show ?case
  proof (cases "conversionsCount h = 0 \<or> status (q r) \<noteq> STATUS_CONVERTING")
    case True
    then show ?thesis using skip Cons.prems by auto
  next
    case False
    then have conv: "status (q r) = STATUS_CONVERTING" by simp
    with Cons.prems(2) r have m: "convertMode (q r) \<noteq> MODE_NONE" "mode (q r) \<noteq> convertMode (q r)"
      by (auto simp: reqs_ok_def granted_ok_def)
    let ?w = "maskOf (held q (remove1 r (grantedList h)))"
    have w: "maskWithoutHeldAndWaited (grantedCounts h) (mode (q r)) (convertMode (q r)) modes_from_1 0
        = Some ?w"
      using Cons.prems(1) maskWithoutHeldAndWaited_eq [of r "grantedList h" q] r m by (simp add: head_syncD)
    show ?thesis
    proof (cases "conflicts (convertMode (q r)) ?w")
      case True
      then show ?thesis using skip False m w by simp
    next
      case nc: False
      define q1 where "q1 = q(r := (q r)\<lparr>status := STATUS_GRANTED, mode := convertMode (q r),
          convertMode := MODE_NONE\<rparr>)"
      obtain h2 where h2: "decGrantedModeCount (mode (q r)) (h\<lparr>conversionsCount := conversionsCount h - 1\<rparr>)
          = Some h2" "head_sync q1 h2" "reqs_ok q1 h2" "grantedList h2 = grantedList h"
          "conflictList h2 = conflictList h" "grants q h l q1 h2 (l @ [(r, resourceId h2, LOCK_OK)])"
        using conversion_step [OF Cons.prems(1,2) r conv nc] unfolding q1_def by blast
      obtain q' h' l' where
        "grantConversions rest q1 h2 (l @ [(r, resourceId h2, LOCK_OK)]) = Some (q', h', l')"
        "head_sync q' h'" "reqs_ok q' h'" "grantedList h' = grantedList h2"
        "conflictList h' = conflictList h2" "grants q1 h2 (l @ [(r, resourceId h2, LOCK_OK)]) q' h' l'"
        using Cons.IH [OF h2(2,3), of "l @ [(r, resourceId h2, LOCK_OK)]"] rest h2(4) by auto
      then show ?thesis
        using False m w nc h2 grants_trans [OF h2(6)] by (simp flip: q1_def)
    qed
  qed
qed

subsection \<open>Granting one waiting request\<close>

lemma held_append1:
  "m \<noteq> MODE_NONE \<Longrightarrow> held q (xs @ [r]) m =
     held q xs m + (if mode (q r) = m then 1 else 0) + (if convertMode (q r) = m then 1 else 0)"
  by (auto simp: held_def)

lemma held_append_granted:
  assumes "mode (q r) \<noteq> MODE_NONE" "convertMode (q r) = MODE_NONE"
  shows "held q (xs @ [r]) = (held q xs)(mode (q r) := Suc (held q xs (mode (q r))))"
proof
  fix m
  show "held q (xs @ [r]) m = ((held q xs)(mode (q r) := Suc (held q xs (mode (q r))))) m"
    using assms held_append1 [of m q xs r] by (cases "m = MODE_NONE") auto
qed

lemma waited_remove1:
  "r \<in> set xs \<Longrightarrow> (waited q xs)(mode (q r) := waited q xs (mode (q r)) - 1) = waited q (remove1 r xs)"
  by (rule ext) (auto simp: waited_def countp_sub)

lemma compat_all_append1:
  "compat_all q (xs @ [r]) \<longleftrightarrow>
     compat_all q xs \<and> (\<forall>s \<in> set xs. s \<noteq> r \<longrightarrow> compatible (mode (q r)) (mode (q s)))"
  using compatible_sym by (auto simp: compat_all_def)

lemma waiter_step:
  fixes h :: LockHead and q :: store and r :: req
  defines "q1 \<equiv> q(r := (q r)\<lparr>status := STATUS_GRANTED\<rparr>)"
  assumes sync: "head_sync q h" and ok: "reqs_ok q h" and r: "r \<in> set (conflictList h)"
    and nc: "\<not> conflicts (mode (q r)) (grantedModes h)"
  shows "\<exists>h1 h2. decConflictModeCount (mode (q1 r)) (h\<lparr>conflictList := remove1 r (conflictList h)\<rparr>) = Some h1 \<and>
      incGrantedModeCount (mode (q1 r)) (h1\<lparr>grantedList := grantedList h1 @ [r]\<rparr>) = Some h2 \<and>
      (\<exists>h3. h3 = (if compatibleFirst (q1 r) then h2\<lparr>compatibleFirstCount := compatibleFirstCount h2 + 1\<rparr> else h2) \<and>
        head_sync q1 h3 \<and> reqs_ok q1 h3 \<and> grantedList h3 = grantedList h @ [r] \<and>
        conflictList h3 = remove1 r (conflictList h) \<and>
        grants q h l q1 h3 (l @ [(r, resourceId h3, LOCK_OK)]))"
proof -
  have dc: "distinct (conflictList h)" and rg: "r \<notin> set (grantedList h)"
    using ok r by (auto simp: reqs_ok_def)
  have m: "mode (q r) \<noteq> MODE_NONE" "convertMode (q r) = MODE_NONE" "status (q r) = STATUS_WAITING"
    using ok r by (auto simp: reqs_ok_def waiting_ok_def)
  have q1r: "mode (q1 r) = mode (q r)" "convertMode (q1 r) = MODE_NONE"
    "compatibleFirst (q1 r) = compatibleFirst (q r)" "status (q1 r) = STATUS_GRANTED"
    using m by (simp_all add: q1_def)
  let ?cl = "remove1 r (conflictList h)"
  let ?h1 = "h\<lparr>conflictList := ?cl, conflictCounts := waited q ?cl, conflictModes := maskOf (waited q ?cl)\<rparr>"
  have pos: "0 < waited q (conflictList h) (mode (q r))"
    using r by (auto simp: waited_def countp_pos_iff)
  have dec: "decConflictModeCount (mode (q1 r)) (h\<lparr>conflictList := ?cl\<rparr>) = Some ?h1"
    using decConflictModeCount_eq [of "h\<lparr>conflictList := ?cl\<rparr>" "mode (q r)"] sync pos
    by (simp add: head_syncD q1r flip: waited_remove1 [OF r])
  have held1: "held q1 (grantedList h @ [r]) =
      (held q (grantedList h))(mode (q r) := Suc (held q (grantedList h) (mode (q r))))"
    using held_append_granted [of q1 r "grantedList h"] m rg by (simp add: q1_def)
  let ?h2 = "?h1\<lparr>grantedList := grantedList h @ [r], grantedCounts := held q1 (grantedList h @ [r]),
                 grantedModes := maskOf (held q1 (grantedList h @ [r]))\<rparr>"
  have inc: "incGrantedModeCount (mode (q1 r)) (?h1\<lparr>grantedList := grantedList ?h1 @ [r]\<rparr>) = Some ?h2"
    using incGrantedModeCount_eq [of "?h1\<lparr>grantedList := grantedList h @ [r]\<rparr>" "mode (q r)"] sync
    by (simp add: head_syncD q1r held1)
  let ?h3 = "if compatibleFirst (q1 r) then ?h2\<lparr>compatibleFirstCount := compatibleFirstCount ?h2 + 1\<rparr> else ?h2"
  have "head_sync q1 ?h3"
    using sync rg dc m q1r unfolding head_sync_def
    by (simp add: q1_def waited_upd) (simp add: converting_def compatFirst_def)
  moreover have "reqs_ok q1 ?h3"
  proof -
    have "compat_all q1 (grantedList h @ [r])"
      using ok nc rg sync q1r
      by (auto simp: reqs_ok_def conflicts_held head_syncD q1_def compat_all_def compatible_sym)
    moreover have "granted_ok q1 s \<and> linked_to q1 (resourceId h) s" if "s \<in> set (grantedList h @ [r])" for s
      using ok that m r by (auto simp: reqs_ok_def q1_def granted_ok_def linked_to_def)
    moreover have "waiting_ok q1 s \<and> linked_to q1 (resourceId h) s" if "s \<in> set ?cl" for s
      using ok that dc by (auto simp: reqs_ok_def q1_def waiting_ok_def linked_to_def)
    ultimately show ?thesis
      using ok r by (auto simp: reqs_ok_def)
  qed
  moreover have "grants q h l q1 ?h3 (l @ [(r, resourceId ?h3, LOCK_OK)])"
    unfolding grants_def using r m dc
    by (intro conjI exI [of _ "[r]"]) (auto simp: q1_def granted_from_def)
  ultimately show ?thesis
    using dec inc by auto
qed

lemma grantWaiters_ok:
  assumes "head_sync q h" "reqs_ok q h" "distinct xs" "set xs \<subseteq> set (conflictList h)"
  shows "\<exists>q' h' l'. grantWaiters xs ncf q h l = Some (q', h', l') \<and>
      head_sync q' h' \<and> reqs_ok q' h' \<and> grants q h l q' h' l' \<and>
      (xs \<noteq> [] \<longrightarrow> grantedList h' \<noteq> [])"
  using assms
proof (induction xs arbitrary: q h l ncf)
  case Nil
  then show ?case by simp
next
  case (Cons r rest)
  have r: "r \<in> set (conflictList h)" and rest: "distinct rest" "set rest \<subseteq> set (conflictList h)" "r \<notin> set rest"
    using Cons.prems by auto
  have wait: "status (q r) = STATUS_WAITING"
    using Cons.prems(2) r by (auto simp: reqs_ok_def waiting_ok_def)
  show ?case
  proof (cases "conflicts (mode (q r)) (grantedModes h)")
    case True
    then have ne: "grantedList h \<noteq> []"
      using Cons.prems(1) by (auto simp: conflicts_held head_syncD)
    obtain q' h' l' where "grantWaiters rest ncf q h l = Some (q', h', l')" "head_sync q' h'"
      "reqs_ok q' h'" "grants q h l q' h' l'"
      using Cons.IH [OF Cons.prems(1,2) rest(1,2), of ncf l] by blast
    moreover from this have "grantedList h' \<noteq> []"
      using ne by (auto simp: grants_def)
    ultimately show ?thesis
      using True wait ne Cons.prems by (auto simp: Let_def)
  next
    case nc: False
    define q1 where "q1 = q(r := (q r)\<lparr>status := STATUS_GRANTED\<rparr>)"
    obtain h1 h2 h3 where step:
      "decConflictModeCount (mode (q1 r)) (h\<lparr>conflictList := remove1 r (conflictList h)\<rparr>) = Some h1"
      "incGrantedModeCount (mode (q1 r)) (h1\<lparr>grantedList := grantedList h1 @ [r]\<rparr>) = Some h2"
      "h3 = (if compatibleFirst (q1 r) then h2\<lparr>compatibleFirstCount := compatibleFirstCount h2 + 1\<rparr> else h2)"
      and h3: "head_sync q1 h3" "reqs_ok q1 h3" "grantedList h3 = grantedList h @ [r]"
      "conflictList h3 = remove1 r (conflictList h)" "grants q h l q1 h3 (l @ [(r, resourceId h3, LOCK_OK)])"
      using waiter_step [OF Cons.prems(1,2) r nc, of l] unfolding q1_def by blast
    have sub: "set rest \<subseteq> set (conflictList h3)"
      using rest h3(4) Cons.prems(2) by (auto simp: reqs_ok_def)
    let ?l1 = "l @ [(r, resourceId h3, LOCK_OK)]"
    let ?ncf = "ncf \<or> compatibleFirst (q1 r) \<and> compatibleFirstCount h2 = 0"
    obtain q' h' l' where rec: "grantWaiters rest ?ncf q1 h3 ?l1 = Some (q', h', l')" "head_sync q' h'"
      "reqs_ok q' h'" "grants q1 h3 ?l1 q' h' l'"
      using Cons.IH [OF h3(1,2) rest(1) sub, of ?ncf ?l1] by blast
    from rec(4) h3(3) have "grantedList h' \<noteq> []" by (auto simp: grants_def)
    moreover have "grants q h l q' h' l'"
      using grants_trans [OF h3(5) rec(4)] .
    ultimately show ?thesis
      using wait nc step rec h3 unfolding grantWaiters.simps Let_def q1_def [symmetric]
      by auto
  qed
qed

lemma onLockModeChanged_ok:
  assumes "head_sync q h" "reqs_ok q h" "check \<or> grantedList h \<noteq> [] \<or> conflictList h = []"
  shows "\<exists>q' h' l'. onLockModeChanged check q h l = Some (q', h', l') \<and>
      head_ok q' h' \<and> grants q h l q' h' l'"
proof -
  have d: "distinct (grantedList h)" "distinct (conflictList h)"
    using assms(2) by (auto simp: reqs_ok_def)
  obtain q1 h1 l1 where 1: "grantConversions (grantedList h) q h l = Some (q1, h1, l1)"
    "head_sync q1 h1" "reqs_ok q1 h1" "grantedList h1 = grantedList h"
    "conflictList h1 = conflictList h" "grants q h l q1 h1 l1"
    using grantConversions_ok [OF assms(1,2) d(1)] by blast
  obtain q2 h2 l2 where 2:
    "(if check then grantWaiters (conflictList h1) False q1 h1 l1 else Some (q1, h1, l1)) = Some (q2, h2, l2)"
    "head_sync q2 h2" "reqs_ok q2 h2" "grants q1 h1 l1 q2 h2 l2"
    "grantedList h2 = [] \<longrightarrow> conflictList h2 = []"
  proof (cases check)
    case True
    obtain q2 h2 l2 where w: "grantWaiters (conflictList h1) False q1 h1 l1 = Some (q2, h2, l2)"
      "head_sync q2 h2" "reqs_ok q2 h2" "grants q1 h1 l1 q2 h2 l2"
      "conflictList h1 \<noteq> [] \<longrightarrow> grantedList h2 \<noteq> []"
      using grantWaiters_ok [OF 1(2,3), of "conflictList h1" False l1] d(2) 1(5) by auto
    moreover from w(4) have "conflictList h1 = [] \<Longrightarrow> grantedList h2 = [] \<Longrightarrow> conflictList h2 = []"
      by (auto simp: grants_def)
    ultimately show ?thesis using True that by auto
  next
    case False
    then show ?thesis using that 1 assms(3) by auto
  qed
  moreover have "grants q h l q2 h2 l2"
    using grants_trans [OF 1(6) 2(4)] .
  moreover have "(grantedModes h2 = 0) \<noteq> (grantedList h2 \<noteq> [])"
    "(conflictModes h2 = 0) \<noteq> (conflictList h2 \<noteq> [])"
    using 2(2,3) granted_mask_zero conflict_mask_zero by blast+
  ultimately show ?thesis
    using 1(1) by (simp add: onLockModeChanged_def head_ok_def)
qed


subsection \<open>Who is left waiting\<close>

definition blocked :: "store \<Rightarrow> LockHead \<Rightarrow> req \<Rightarrow> bool" where
  "blocked q h r \<longleftrightarrow> conflicts (mode (q r)) (grantedModes h)"

lemma blocked_after_grant:
  assumes "head_sync q h" "head_sync q1 h3" "grantedList h3 = grantedList h @ [r]" "r \<notin> set (grantedList h)"
    "\<And>s. s \<noteq> r \<Longrightarrow> q1 s = q s"
  shows "blocked q h s \<Longrightarrow> s \<noteq> r \<Longrightarrow> blocked q1 h3 s"
  using assms by (auto simp: blocked_def conflicts_held head_syncD(5)) metis+

lemma conflicts_X: "m \<noteq> MODE_NONE \<Longrightarrow> \<not> compatible m MODE_X"
  by (cases m) simp_all

text \<open>
  The loop over the conflict queue leaves no waiter at the front that could be granted: \<open>pre\<close> is
  the part of the queue it has already passed.
\<close>

lemma grantWaiters_front:
  assumes "head_sync q h" "reqs_ok q h" "conflictList h = pre @ xs"
    "pre \<noteq> [] \<Longrightarrow> blocked q h (hd pre)" "grantWaiters xs ncf q h l = Some (q', h', l')"
  shows "conflictList h' \<noteq> [] \<Longrightarrow> blocked q' h' (hd (conflictList h'))"
  using assms
proof (induction xs arbitrary: pre q h l ncf)
  case Nil
  then show ?case by simp
next
  case (Cons r rest)
  have r: "r \<in> set (conflictList h)" using Cons.prems(4) by simp
  have d: "distinct (conflictList h)" "r \<notin> set (grantedList h)"
    using Cons.prems(3) r by (auto simp: reqs_ok_def)
  then have rpre: "r \<notin> set pre" using Cons.prems(4) by simp
  have wait: "status (q r) = STATUS_WAITING"
    using Cons.prems(3) r by (auto simp: reqs_ok_def waiting_ok_def)
  show ?case
  proof (cases "conflicts (mode (q r)) (grantedModes h)")
    case True
    then have bl: "blocked q h r" by (simp add: blocked_def)
    show ?thesis
    proof (cases "hd (conflictList h) = r \<and> \<not> ncf")
      case stop: True
      then have "h' = h" "q' = q" using Cons.prems(6) True wait r by (auto simp: Let_def split: if_splits)
      with stop bl show ?thesis by simp
    next
      case False
      then have rec: "grantWaiters rest ncf q h l = Some (q', h', l')"
        using Cons.prems(6) True wait by (auto simp: Let_def split: if_splits)
      have "blocked q h (hd (pre @ [r]))" using bl Cons.prems(5) by (cases pre) auto
      then show ?thesis
        using Cons.IH [OF Cons.prems(1-3) _ _ rec, of "pre @ [r]"] Cons.prems(4) by simp
    qed
  next
    case nc: False
    define q1 where "q1 = q(r := (q r)\<lparr>status := STATUS_GRANTED\<rparr>)"
    obtain h1 h2 h3 where step:
      "decConflictModeCount (mode (q1 r)) (h\<lparr>conflictList := remove1 r (conflictList h)\<rparr>) = Some h1"
      "incGrantedModeCount (mode (q1 r)) (h1\<lparr>grantedList := grantedList h1 @ [r]\<rparr>) = Some h2"
      "h3 = (if compatibleFirst (q1 r) then h2\<lparr>compatibleFirstCount := compatibleFirstCount h2 + 1\<rparr> else h2)"
      and h3: "head_sync q1 h3" "reqs_ok q1 h3" "grantedList h3 = grantedList h @ [r]"
      "conflictList h3 = remove1 r (conflictList h)"
      using waiter_step [OF Cons.prems(2,3) r nc, of l] unfolding q1_def by blast
    have cl: "conflictList h3 = pre @ rest" using h3(4) Cons.prems(4) rpre by (simp add: remove1_append)
    have q1o: "s \<noteq> r \<Longrightarrow> q1 s = q s" for s by (simp add: q1_def)
    let ?ncf = "ncf \<or> compatibleFirst (q1 r) \<and> compatibleFirstCount h2 = 0"
    let ?l1 = "l @ [(r, resourceId h3, LOCK_OK)]"
    show ?thesis
    proof (cases "mode (q1 r) = MODE_X")
      case True
      then have res: "q' = q1" "h' = h3"
        using Cons.prems(6) nc wait step unfolding grantWaiters.simps Let_def q1_def [symmetric] by auto
      have "\<not> compatible (mode (q1 s)) MODE_X" if "s \<in> set (conflictList h3)" for s
        using h3(2) that by (intro conflicts_X) (auto simp: reqs_ok_def waiting_ok_def)
      then have "blocked q1 h3 s" if "s \<in> set (conflictList h3)" for s
        using that True h3(1,3) by (auto simp: blocked_def conflicts_held head_syncD(5))
      with res Cons.prems(1) show ?thesis by simp
    next
      case False
      then have rec: "grantWaiters rest ?ncf q1 h3 ?l1 = Some (q', h', l')"
        using Cons.prems(6) nc wait step unfolding grantWaiters.simps Let_def q1_def [symmetric] by auto
      have "blocked q1 h3 (hd pre)" if "pre \<noteq> []"
        using blocked_after_grant [OF Cons.prems(2) h3(1,3) d(2) q1o] Cons.prems(5) [OF that] rpre that
        by (metis hd_in_set)
      then show ?thesis using Cons.IH [OF Cons.prems(1) h3(1,2) cl _ rec] by blast
    qed
  qed
qed

lemma onLockModeChanged_front:
  assumes "head_sync q h" "reqs_ok q h" "onLockModeChanged True q h l = Some (q', h', l')" "conflictList h' \<noteq> []"
  shows "blocked q' h' (hd (conflictList h'))"
proof -
  have d: "distinct (grantedList h)" using assms(2) by (auto simp: reqs_ok_def)
  obtain q1 h1 l1 where 1: "grantConversions (grantedList h) q h l = Some (q1, h1, l1)"
    "head_sync q1 h1" "reqs_ok q1 h1"
    using grantConversions_ok [OF assms(1,2) d] by blast
  then have "grantWaiters (conflictList h1) False q1 h1 l1 = Some (q', h', l')"
    using assms(3) by (auto simp: onLockModeChanged_def invariant_def split: Option.bind_splits if_splits)
  then show ?thesis
    using grantWaiters_front [OF 1(2,3), of "[]" "conflictList h1"] assms(4) by simp
qed

end
