(* ===== verification/LockHeadOps.thy ===== *)
theory LockHeadOps
  imports LockManager GrantLoops
begin

text \<open>
  What the operations of the lock manager do to one lock head that satisfies its invariant:
  admitting a request, changing the mode of a granted request, starting and cancelling a
  conversion, releasing a granted request and withdrawing a waiting one. Each runs to
  completion, re-establishes the invariant and leaves every other request alone.
\<close>

abbreviation onHead :: "LockHead \<Rightarrow> req set" where
  "onHead h \<equiv> set (grantedList h) \<union> set (conflictList h)"

definition relinked :: "store \<Rightarrow> LockHead \<Rightarrow> store \<Rightarrow> LockHead \<Rightarrow> bool" where
  "relinked q h q' h' \<longleftrightarrow>
     resourceId h' = resourceId h \<and> partitions h' = partitions h \<and>
     (\<forall>r. r \<notin> onHead h \<longrightarrow> q' r = q r) \<and> (\<forall>r. same_identity (q r) (q' r))"

lemma grants_relinked: "grants q h l q' h' l' \<Longrightarrow> relinked q h q' h'"
  using grantsD(1) [of q h l q' h' l'] by (auto simp: grants_def relinked_def granted_fromD)

lemma head_okD:
  assumes "head_ok q h"
  shows "head_sync q h" "reqs_ok q h" "grantedList h = [] \<Longrightarrow> conflictList h = []"
    "distinct (grantedList h)" "distinct (conflictList h)" "set (grantedList h) \<inter> set (conflictList h) = {}"
  using assms by (auto simp: head_ok_def reqs_ok_def)

lemma head_ok_granted: "head_ok q h \<Longrightarrow> r \<in> set (grantedList h) \<Longrightarrow>
    granted_ok q r \<and> linked_to q (resourceId h) r"
  by (auto simp: head_ok_def reqs_ok_def)

lemma head_ok_waiting: "head_ok q h \<Longrightarrow> r \<in> set (conflictList h) \<Longrightarrow>
    waiting_ok q r \<and> linked_to q (resourceId h) r"
  by (auto simp: head_ok_def reqs_ok_def)

text \<open>The invariant reads nothing of a request but its status, modes, flags and links.\<close>

lemma head_ok_cong:
  assumes "\<And>r. r \<in> onHead h \<Longrightarrow> mode (q' r) = mode (q r) \<and> convertMode (q' r) = convertMode (q r) \<and>
      status (q' r) = status (q r) \<and> compatibleFirst (q' r) = compatibleFirst (q r) \<and>
      lockPtr (q' r) = lockPtr (q r) \<and> partitionedLock (q' r) = partitionedLock (q r)"
  shows "head_ok q' h \<longleftrightarrow> head_ok q h"
proof -
  have "held q' (grantedList h) = held q (grantedList h)"
    using assms by (intro ext) (auto simp: held_def intro!: arg_cong2 [where f = "(+)"] countp_cong)
  moreover have "waited q' (conflictList h) = waited q (conflictList h)"
    using assms by (intro ext) (auto simp: waited_def intro!: countp_cong)
  moreover have "countp (converting q') (grantedList h) = countp (converting q) (grantedList h)"
    "countp (compatFirst q') (grantedList h) = countp (compatFirst q) (grantedList h)"
    using assms by (auto simp: converting_def compatFirst_def intro!: countp_cong)
  moreover have "reqs_ok q' h \<longleftrightarrow> reqs_ok q h"
    using assms by (auto simp: reqs_ok_def granted_ok_def waiting_ok_def linked_to_def compat_all_def)
  ultimately show ?thesis
    by (simp add: head_ok_def head_sync_def)
qed

lemma head_ok_partitions [simp]: "head_ok q (h\<lparr>partitions := ps\<rparr>) \<longleftrightarrow> head_ok q h"
  by (simp add: head_ok_def head_sync_def reqs_ok_def)

lemma head_ok_upd_notin: "r \<notin> onHead h \<Longrightarrow> head_ok (q(r := x)) h \<longleftrightarrow> head_ok q h"
  by (rule head_ok_cong) auto

subsection \<open>Admitting a request\<close>

text \<open>The condition under which a new request has to wait.\<close>

definition must_wait :: "store \<Rightarrow> LockMode \<Rightarrow> LockHead \<Rightarrow> bool" where
  "must_wait q m h \<longleftrightarrow>
     (\<exists>s \<in> set (grantedList h). \<not> compatible m (mode (q s)) \<or> \<not> compatible m (convertMode (q s))) \<or>
     (\<forall>s \<in> set (grantedList h). \<not> compatibleFirst (q s)) \<and>
     (\<exists>s \<in> set (conflictList h). \<not> compatible m (mode (q s)))"

lemma must_wait_masks:
  "head_sync q h \<Longrightarrow>
     conflicts m (grantedModes h) \<or> (compatibleFirstCount h = 0 \<and> conflicts m (conflictModes h))
     \<longleftrightarrow> must_wait q m h"
  by (auto simp: must_wait_def head_syncD conflicts_held conflicts_waited countp_0_iff compatFirst_def)

lemma newRequest_granted:
  assumes ok: "head_ok q h" and fresh: "r \<notin> onHead h"
    and m: "mode (q r) \<noteq> MODE_NONE" "convertMode (q r) = MODE_NONE" "partitionedLock (q r) = None"
    and free: "\<not> must_wait q (mode (q r)) h"
  defines "q1 \<equiv> q(r := (q r)\<lparr>lockPtr := Some (resourceId h), status := STATUS_GRANTED\<rparr>)"
  shows "\<exists>h'. newRequest r q h = Some (LOCK_OK, q1, h') \<and> head_ok q1 h' \<and>
      grantedList h' = grantedList h @ [r] \<and> conflictList h' = conflictList h \<and>
      resourceId h' = resourceId h \<and> partitions h' = partitions h"
proof -
  note sync = head_okD(1) [OF ok]
  have nw: "\<not> (conflicts (mode (q r)) (grantedModes h) \<or>
      compatibleFirstCount h = 0 \<and> conflicts (mode (q r)) (conflictModes h))"
    using free must_wait_masks [OF sync] by blast
  have q1r: "mode (q1 r) = mode (q r)" "convertMode (q1 r) = MODE_NONE"
    using m by (simp_all add: q1_def)
  have held1: "held q1 (grantedList h @ [r]) =
      (held q (grantedList h))(mode (q r) := Suc (held q (grantedList h) (mode (q r))))"
    using held_append_granted [of q1 r "grantedList h"] m fresh by (simp add: q1_def)
  let ?h2 = "h\<lparr>grantedList := grantedList h @ [r], grantedCounts := held q1 (grantedList h @ [r]),
               grantedModes := maskOf (held q1 (grantedList h @ [r]))\<rparr>"
  have inc: "incGrantedModeCount (mode (q r)) (h\<lparr>grantedList := grantedList h @ [r]\<rparr>) = Some ?h2"
    using incGrantedModeCount_eq [of "h\<lparr>grantedList := grantedList h @ [r]\<rparr>" "mode (q r)"] sync
    by (simp add: head_syncD held1)
  let ?h3 = "if compatibleFirst (q r) then ?h2\<lparr>compatibleFirstCount := compatibleFirstCount ?h2 + 1\<rparr> else ?h2"
  have run: "newRequest r q h = Some (LOCK_OK, q1, ?h3)"
    using nw m(3) inc by (auto simp: newRequest_def Let_def q1_def)
  have "head_sync q1 ?h3"
    using sync fresh unfolding head_sync_def
    by (simp add: q1_def waited_upd) (simp add: converting_def compatFirst_def)
  moreover have "reqs_ok q1 ?h3"
  proof -
    have "compatible (mode (q r)) (mode (q s))" if "s \<in> set (grantedList h)" for s
      using free that by (auto simp: must_wait_def)
    then have "compat_all q1 (grantedList h @ [r])"
      using head_okD(2) [OF ok] fresh
      by (auto simp: reqs_ok_def q1_def compat_all_def compatible_sym)
    moreover have "granted_ok q1 s \<and> linked_to q1 (resourceId h) s" if "s \<in> set (grantedList h @ [r])" for s
      using head_okD(2) [OF ok] that m by (auto simp: reqs_ok_def q1_def granted_ok_def linked_to_def)
    moreover have "waiting_ok q1 s \<and> linked_to q1 (resourceId h) s" if "s \<in> set (conflictList h)" for s
      using head_okD(2) [OF ok] that fresh by (auto simp: reqs_ok_def q1_def waiting_ok_def linked_to_def)
    ultimately show ?thesis
      using head_okD(2) [OF ok] fresh by (auto simp: reqs_ok_def)
  qed
  ultimately have "head_ok q1 ?h3" by (simp add: head_ok_def)
  with run show ?thesis by auto
qed

lemma newRequest_queued:
  assumes ok: "head_ok q h" and fresh: "r \<notin> onHead h"
    and m: "mode (q r) \<noteq> MODE_NONE" "convertMode (q r) = MODE_NONE" "partitionedLock (q r) = None"
    and wait: "must_wait q (mode (q r)) h"
  defines "q1 \<equiv> q(r := (q r)\<lparr>lockPtr := Some (resourceId h), status := STATUS_WAITING\<rparr>)"
  shows "\<exists>h'. newRequest r q h = Some (LOCK_WAITING, q1, h') \<and> head_ok q1 h' \<and>
      grantedList h' = grantedList h \<and>
      conflictList h' = (if enqueueAtFront (q r) then r # conflictList h else conflictList h @ [r]) \<and>
      resourceId h' = resourceId h \<and> partitions h' = partitions h"
proof -
  note sync = head_okD(1) [OF ok]
  let ?cl = "if enqueueAtFront (q r) then r # conflictList h else conflictList h @ [r]"
  have w: "conflicts (mode (q r)) (grantedModes h) \<or>
      compatibleFirstCount h = 0 \<and> conflicts (mode (q r)) (conflictModes h)"
    using wait must_wait_masks [OF sync] by blast
  have waited1: "waited q1 ?cl =
      (waited q (conflictList h))(mode (q r) := Suc (waited q (conflictList h) (mode (q r))))"
    using fresh by (intro ext) (auto simp: waited_def q1_def intro!: countp_cong)
  let ?h1 = "if enqueueAtFront (q r) then h\<lparr>conflictList := r # conflictList h\<rparr>
             else h\<lparr>conflictList := conflictList h @ [r]\<rparr>"
  let ?h2 = "h\<lparr>conflictList := ?cl, conflictCounts := waited q1 ?cl, conflictModes := maskOf (waited q1 ?cl)\<rparr>"
  have inc: "incConflictModeCount (mode (q r)) ?h1 = Some ?h2"
    using incConflictModeCount_eq [of ?h1 "mode (q r)"] sync by (simp add: head_syncD waited1)
  have run: "newRequest r q h = Some (LOCK_WAITING, q1, ?h2)"
    using w m(3) inc by (simp add: newRequest_def Let_def q1_def)
  have "head_sync q1 ?h2"
    using sync fresh unfolding head_sync_def by (simp add: q1_def)
  moreover have "reqs_ok q1 ?h2"
  proof -
    have "compat_all q1 (grantedList h)"
      using head_okD(2) [OF ok] fresh by (auto simp: reqs_ok_def q1_def compat_all_def)
    moreover have "granted_ok q1 s \<and> linked_to q1 (resourceId h) s" if "s \<in> set (grantedList h)" for s
      using head_okD(2) [OF ok] that fresh by (auto simp: reqs_ok_def q1_def granted_ok_def linked_to_def)
    moreover have "waiting_ok q1 s \<and> linked_to q1 (resourceId h) s" if "s \<in> set ?cl" for s
      using head_okD(2) [OF ok] that m
      by (auto simp: reqs_ok_def q1_def waiting_ok_def linked_to_def split: if_splits)
    ultimately show ?thesis
      using head_okD(2) [OF ok] fresh by (auto simp: reqs_ok_def)
  qed
  moreover have "grantedList h \<noteq> []"
    using wait head_okD(3) [OF ok] by (auto simp: must_wait_def)
  ultimately have "head_ok q1 ?h2" by (simp add: head_ok_def)
  with run show ?thesis by auto
qed

subsection \<open>Changing the mode of a granted request\<close>

text \<open>\<open>convert\<close> without conflict and \<open>downgrade\<close> both count the new mode in and the old one out.\<close>

lemma remode_counts:
  assumes sync: "head_sync q h" and ok: "reqs_ok q h" and r: "r \<in> set (grantedList h)"
    and m: "convertMode (q r) = MODE_NONE" "n \<noteq> MODE_NONE"
  defines "q1 \<equiv> q(r := (q r)\<lparr>mode := n\<rparr>)"
  shows "\<exists>h2. incGrantedModeCount n h = Some h2 \<and> decGrantedModeCount (mode (q r)) h2 =
      Some (h\<lparr>grantedCounts := held q1 (grantedList h), grantedModes := maskOf (held q1 (grantedList h))\<rparr>)"
proof -
  have d: "distinct (grantedList h)" and nn: "mode (q r) \<noteq> MODE_NONE"
    using ok r by (auto simp: reqs_ok_def granted_ok_def)
  let ?c = "(held q (grantedList h))(n := Suc (held q (grantedList h) n))"
  let ?h2 = "h\<lparr>grantedCounts := ?c, grantedModes := maskOf ?c\<rparr>"
  have inc: "incGrantedModeCount n h = Some ?h2"
    using incGrantedModeCount_eq [of h n] sync by (simp add: head_syncD)
  have pos: "0 < ?c (mode (q r))"
    using held_remove1 [OF r nn, of q] by simp
  have "?c(mode (q r) := ?c (mode (q r)) - 1) = held q1 (grantedList h)"
  proof
    fix k
    show "(?c(mode (q r) := ?c (mode (q r)) - 1)) k = held q1 (grantedList h) k"
      using held_upd [OF d r, of k q "(q r)\<lparr>mode := n\<rparr>"] held_remove1 [OF r nn, of q] m nn
      by (cases "k = MODE_NONE") (auto simp: q1_def split: if_splits)
  qed
  then have "decGrantedModeCount (mode (q r)) ?h2 =
      Some (h\<lparr>grantedCounts := held q1 (grantedList h), grantedModes := maskOf (held q1 (grantedList h))\<rparr>)"
    using decGrantedModeCount_eq [of ?h2 "mode (q r)"] pos by simp
  with inc show ?thesis by blast
qed

lemma remode_ok:
  assumes ok: "head_ok q h" and r: "r \<in> set (grantedList h)" and st: "status (q r) = STATUS_GRANTED"
    and n: "n \<noteq> MODE_NONE"
    and compat: "\<And>s. s \<in> set (grantedList h) \<Longrightarrow> s \<noteq> r \<Longrightarrow> compatible n (mode (q s))"
  defines "q1 \<equiv> q(r := (q r)\<lparr>mode := n\<rparr>)"
  shows "\<exists>h2 h3. incGrantedModeCount n h = Some h2 \<and> decGrantedModeCount (mode (q r)) h2 = Some h3 \<and>
      head_ok q1 h3 \<and> relinked q h q1 h3 \<and>
      grantedList h3 = grantedList h \<and> conflictList h3 = conflictList h"
proof -
  note sync = head_okD(1) [OF ok] and reqs = head_okD(2) [OF ok]
  have cm: "convertMode (q r) = MODE_NONE"
    using head_ok_granted [OF ok r] st by (auto simp: granted_ok_def)
  let ?h3 = "h\<lparr>grantedCounts := held q1 (grantedList h), grantedModes := maskOf (held q1 (grantedList h))\<rparr>"
  obtain h2 where run: "incGrantedModeCount n h = Some h2" "decGrantedModeCount (mode (q r)) h2 = Some ?h3"
    using remode_counts [OF sync reqs r cm n] unfolding q1_def by blast
  have rc: "r \<notin> set (conflictList h)" and d: "distinct (grantedList h)"
    using reqs r by (auto simp: reqs_ok_def)
  have "countp (converting q1) (grantedList h) = countp (converting q) (grantedList h)"
    by (intro countp_cong) (auto simp: q1_def converting_def)
  then have "head_sync q1 ?h3"
    using sync rc by (simp add: head_sync_def) (simp add: q1_def compatFirst_upd)
  moreover have "reqs_ok q1 ?h3"
    using reqs compat n st rc cm
    by (auto simp: reqs_ok_def q1_def granted_ok_def waiting_ok_def linked_to_def compat_all_def compatible_sym)
  moreover have "grantedList h \<noteq> []" using r by auto
  ultimately have "head_ok q1 ?h3" by (simp add: head_ok_def)
  moreover have "relinked q h q1 ?h3"
    using r by (auto simp: relinked_def q1_def same_identity_def)
  ultimately show ?thesis using run by auto
qed

lemma start_conversion_ok:
  assumes ok: "head_ok q h" and r: "r \<in> set (grantedList h)" and st: "status (q r) = STATUS_GRANTED"
    and n: "n \<noteq> MODE_NONE" "n \<noteq> mode (q r)" "isModeCovered (mode (q r)) n"
  defines "q1 \<equiv> q(r := (q r)\<lparr>status := STATUS_CONVERTING, convertMode := n\<rparr>)"
  shows "\<exists>h3. incGrantedModeCount n (h\<lparr>conversionsCount := conversionsCount h + 1\<rparr>) = Some h3 \<and>
      head_ok q1 h3 \<and> relinked q h q1 h3 \<and>
      grantedList h3 = grantedList h \<and> conflictList h3 = conflictList h"
proof -
  note sync = head_okD(1) [OF ok] and reqs = head_okD(2) [OF ok]
  have cm: "convertMode (q r) = MODE_NONE" "mode (q r) \<noteq> MODE_NONE"
    using head_ok_granted [OF ok r] st by (auto simp: granted_ok_def)
  have rc: "r \<notin> set (conflictList h)" and d: "distinct (grantedList h)"
    using reqs r by (auto simp: reqs_ok_def)
  let ?x = "(q r)\<lparr>status := STATUS_CONVERTING, convertMode := n\<rparr>"
  have counts: "(held q (grantedList h))(n := Suc (held q (grantedList h) n)) = held q1 (grantedList h)"
  proof
    fix k
    show "((held q (grantedList h))(n := Suc (held q (grantedList h) n))) k = held q1 (grantedList h) k"
      using held_upd [OF d r, of k q ?x] cm n
      by (cases "k = MODE_NONE") (auto simp: q1_def split: if_splits)
  qed
  let ?h3 = "h\<lparr>conversionsCount := conversionsCount h + 1, grantedCounts := held q1 (grantedList h),
               grantedModes := maskOf (held q1 (grantedList h))\<rparr>"
  have inc: "incGrantedModeCount n (h\<lparr>conversionsCount := conversionsCount h + 1\<rparr>) = Some ?h3"
    using incGrantedModeCount_eq [of "h\<lparr>conversionsCount := conversionsCount h + 1\<rparr>" n] sync
    by (simp add: head_syncD flip: counts)
  have "conversionsCount h + 1 = countp (converting q1) (grantedList h)"
    using converting_upd [OF d r, of q ?x] sync st by (simp add: q1_def head_syncD converting_def)
  then have "head_sync q1 ?h3"
    using sync rc by (simp add: head_sync_def) (simp add: q1_def compatFirst_upd)
  moreover have "reqs_ok q1 ?h3"
    using reqs n rc cm
    by (auto simp: reqs_ok_def q1_def granted_ok_def waiting_ok_def linked_to_def compat_all_def)
  moreover have "grantedList h \<noteq> []" using r by auto
  ultimately have "head_ok q1 ?h3" by (simp add: head_ok_def)
  moreover have "relinked q h q1 ?h3"
    using r by (auto simp: relinked_def q1_def same_identity_def)
  ultimately show ?thesis using inc by auto
qed

text \<open>The test of \<open>convert\<close> against the granted mask without the request's own mode.\<close>

lemma convert_conflict_iff:
  assumes "head_ok q h" "r \<in> set (grantedList h)" "convertMode (q r) = MODE_NONE"
  shows "conflicts n (maskWithoutHeld (grantedCounts h) (mode (q r)) modes_from_1 0) \<longleftrightarrow>
     (\<exists>s \<in> set (grantedList h) - {r}. \<not> compatible n (mode (q s)) \<or> \<not> compatible n (convertMode (q s)))"
proof -
  have "grantedCounts h = held q (grantedList h)"
    using head_okD(1) [OF assms(1)] by (simp add: head_syncD)
  then have "conflicts n (maskWithoutHeld (grantedCounts h) (mode (q r)) modes_from_1 0) \<longleftrightarrow>
      conflicts n (maskOf (held q (remove1 r (grantedList h))))"
    using maskWithoutHeld_eq [of r "grantedList h" q] assms by simp
  then show ?thesis
    using head_okD(4) [OF assms(1)] by (simp add: conflicts_held)
qed

subsection \<open>Releasing and cancelling\<close>

lemma head_sync_unlink_granted:
  assumes sync: "head_sync q h" and ok: "reqs_ok q h" and r: "r \<in> set (grantedList h)"
    and st: "status (q r) = STATUS_GRANTED"
  shows "\<exists>h2. decGrantedModeCount (mode (q r)) (h\<lparr>grantedList := remove1 r (grantedList h)\<rparr>) = Some h2 \<and>
      compatibleFirstCount h2 = compatibleFirstCount h \<and>
      head_sync q (h2\<lparr>compatibleFirstCount := compatibleFirstCount h - (if compatibleFirst (q r) then 1 else 0)\<rparr>) \<and>
      h2 = h\<lparr>grantedList := remove1 r (grantedList h), grantedCounts := held q (remove1 r (grantedList h)),
             grantedModes := maskOf (held q (remove1 r (grantedList h)))\<rparr>"
proof -
  have m: "mode (q r) \<noteq> MODE_NONE" "convertMode (q r) = MODE_NONE"
    using ok r st by (auto simp: reqs_ok_def granted_ok_def)
  let ?gl = "remove1 r (grantedList h)"
  have pos: "0 < held q (grantedList h) (mode (q r))"
    using held_remove1 [OF r m(1), of q] by simp
  have counts: "(held q (grantedList h))(mode (q r) := held q (grantedList h) (mode (q r)) - 1) = held q ?gl"
  proof
    fix k
    show "((held q (grantedList h))(mode (q r) := held q (grantedList h) (mode (q r)) - 1)) k = held q ?gl k"
      using held_remove1 [OF r, of k q] m by (cases "k = MODE_NONE") auto
  qed
  have "decGrantedModeCount (mode (q r)) (h\<lparr>grantedList := ?gl\<rparr>) =
      Some (h\<lparr>grantedList := ?gl, grantedCounts := held q ?gl, grantedModes := maskOf (held q ?gl)\<rparr>)"
    using decGrantedModeCount_eq [of "h\<lparr>grantedList := ?gl\<rparr>" "mode (q r)"] sync pos
    by (simp add: head_syncD flip: counts)
  moreover have "conversionsCount h = countp (converting q) ?gl"
    using sync st by (simp add: head_syncD countp_sub [OF r] converting_def)
  moreover have "compatibleFirstCount h - (if compatibleFirst (q r) then 1 else 0) = countp (compatFirst q) ?gl"
    using sync by (simp add: head_syncD countp_sub [OF r] compatFirst_def)
  ultimately show ?thesis
    using sync by (simp add: head_sync_def)
qed

text \<open>No request that could be granted is left at the front of the conflict queue.\<close>

definition front_blocked :: "store \<Rightarrow> LockHead \<Rightarrow> bool" where
  "front_blocked q h \<longleftrightarrow> (conflictList h \<noteq> [] \<longrightarrow> blocked q h (hd (conflictList h)))"

lemma unlockHead_granted:
  assumes ok: "head_ok q h" and r: "r \<in> set (grantedList h)" and st: "status (q r) = STATUS_GRANTED"
  shows "\<exists>q' h' l' h0. unlockHead r q h l = Some (q', h', l') \<and> head_ok q' h' \<and> relinked q h q' h' \<and>
      onHead h' = onHead h - {r} \<and> q' r = q r \<and> grants q h0 l q' h' l' \<and>
      grantedList h0 = remove1 r (grantedList h) \<and> conflictList h0 = conflictList h \<and>
      (held q (remove1 r (grantedList h)) (mode (q r)) = 0 \<longrightarrow> front_blocked q' h')"
proof -
  note sync = head_okD(1) [OF ok] and reqs = head_okD(2) [OF ok]
  have rc: "r \<notin> set (conflictList h)" and d: "distinct (grantedList h)"
    using reqs r by (auto simp: reqs_ok_def)
  let ?gl = "remove1 r (grantedList h)"
  obtain h2 where h2: "decGrantedModeCount (mode (q r)) (h\<lparr>grantedList := ?gl\<rparr>) = Some h2"
    "compatibleFirstCount h2 = compatibleFirstCount h"
    and eq: "h2 = h\<lparr>grantedList := ?gl, grantedCounts := held q ?gl, grantedModes := maskOf (held q ?gl)\<rparr>"
    and sync2: "head_sync q (h2\<lparr>compatibleFirstCount := compatibleFirstCount h - (if compatibleFirst (q r) then 1 else 0)\<rparr>)"
    using head_sync_unlink_granted [OF sync reqs r st] by blast
  define h3 where "h3 = h2\<lparr>compatibleFirstCount := compatibleFirstCount h - (if compatibleFirst (q r) then 1 else 0)\<rparr>"
  have sync3: "head_sync q h3" using sync2 by (simp add: h3_def)
  have lists: "grantedList h3 = ?gl" "conflictList h3 = conflictList h" "resourceId h3 = resourceId h"
    "partitions h3 = partitions h" "grantedCounts h3 = held q ?gl"
    by (simp_all add: h3_def eq)
  have reqs3: "reqs_ok q h3"
    using reqs lists d by (auto simp: reqs_ok_def compat_all_def)
  have cf: "compatibleFirst (q r) \<Longrightarrow> 0 < compatibleFirstCount h"
    using sync r by (auto simp: head_syncD countp_pos_iff compatFirst_def)
  have cf0: "?gl = [] \<Longrightarrow> compatibleFirstCount h3 = 0"
    using sync3 lists by (simp add: head_syncD)
  let ?check = "grantedCounts h3 (mode (q r)) = 0"
  have "?check \<or> grantedList h3 \<noteq> [] \<or> conflictList h3 = []"
    by (auto simp: lists held_def)
  then obtain q' h' l' where run: "onLockModeChanged ?check q h3 l = Some (q', h', l')"
    "head_ok q' h'" "grants q h3 l q' h' l'"
    using onLockModeChanged_ok [OF sync3 reqs3] by blast
  have mid: "(if compatibleFirst (q r)
       then do {
         invariant (compatibleFirstCount h2 > 0);
         let h3 = h2\<lparr>compatibleFirstCount := compatibleFirstCount h2 - 1\<rparr>;
         invariant (compatibleFirstCount h3 = 0 \<or> grantedList h3 \<noteq> []);
         Some h3
       }
       else Some h2) = Some h3"
    using cf cf0 h2(2) by (auto simp: h3_def eq Let_def)
  have "unlockHead r q h l = Some (q', h', l')"
    using st h2(1) mid run(1) by (simp add: unlockHead_def)
  moreover have "onHead h' = onHead h - {r}"
    using run(3) lists d rc by (auto simp: grants_def)
  moreover have "r \<notin> onHead h3" using lists d rc by simp
  then have "q' r = q r" "relinked q h q' h'"
    using run(3) lists d by (auto simp: grants_def relinked_def granted_fromD)
  moreover have "front_blocked q' h'" if "held q ?gl (mode (q r)) = 0"
    unfolding front_blocked_def using onLockModeChanged_front [OF sync3 reqs3] run(1) that lists(5) by simp
  ultimately show ?thesis
    using run(2,3) lists(1,2) by (intro exI [of _ q'] exI [of _ h'] exI [of _ l'] exI [of _ h3]) simp
qed

lemma unlockHead_waiting:
  assumes ok: "head_ok q h" and r: "r \<in> set (conflictList h)" and rc: "recursiveCount (q r) = 0"
  shows "\<exists>q' h' l' h0. unlockHead r q h l = Some (q', h', l') \<and> head_ok q' h' \<and> relinked q h q' h' \<and>
      onHead h' = onHead h - {r} \<and> q' r = q r \<and> grants q h0 l q' h' l' \<and>
      grantedList h0 = grantedList h \<and> conflictList h0 = remove1 r (conflictList h) \<and> front_blocked q' h'"
proof -
  note sync = head_okD(1) [OF ok] and reqs = head_okD(2) [OF ok]
  have st: "status (q r) = STATUS_WAITING"
    using head_ok_waiting [OF ok r] by (simp add: waiting_ok_def)
  have rg: "r \<notin> set (grantedList h)" and d: "distinct (conflictList h)"
    using reqs r by (auto simp: reqs_ok_def)
  let ?cl = "remove1 r (conflictList h)"
  let ?h2 = "h\<lparr>conflictList := ?cl, conflictCounts := waited q ?cl, conflictModes := maskOf (waited q ?cl)\<rparr>"
  have pos: "0 < waited q (conflictList h) (mode (q r))"
    using r by (auto simp: waited_def countp_pos_iff)
  have dec: "decConflictModeCount (mode (q r)) (h\<lparr>conflictList := ?cl\<rparr>) = Some ?h2"
    using decConflictModeCount_eq [of "h\<lparr>conflictList := ?cl\<rparr>" "mode (q r)"] sync pos
    by (simp add: head_syncD flip: waited_remove1 [OF r])
  have sync2: "head_sync q ?h2"
    using sync by (simp add: head_sync_def)
  have reqs2: "reqs_ok q ?h2"
    using reqs d by (auto simp: reqs_ok_def)
  obtain q' h' l' where run: "onLockModeChanged True q ?h2 l = Some (q', h', l')"
    "head_ok q' h'" "grants q ?h2 l q' h' l'"
    using onLockModeChanged_ok [OF sync2 reqs2, of True l] by blast
  have "unlockHead r q h l = Some (q', h', l')"
    using st rc dec run(1) by (simp add: unlockHead_def)
  moreover have "onHead h' = onHead h - {r}"
    using run(3) d rg by (auto simp: grants_def)
  moreover have "r \<notin> onHead ?h2" using d rg by simp
  then have "q' r = q r" "relinked q h q' h'"
    using run(3) d by (auto simp: grants_def relinked_def granted_fromD)
  moreover have "grantedList ?h2 = grantedList h" "conflictList ?h2 = ?cl" by simp_all
  moreover have "front_blocked q' h'" unfolding front_blocked_def using onLockModeChanged_front [OF sync2 reqs2 run(1)] by blast
  ultimately show ?thesis
    using run(2,3) by (intro exI [of _ q'] exI [of _ h'] exI [of _ l'] exI [of _ ?h2]) simp
qed

lemma unlockHead_converting:
  assumes ok: "head_ok q h" and r: "r \<in> set (grantedList h)" and st: "status (q r) = STATUS_CONVERTING"
    and rc: "0 < recursiveCount (q r)"
  defines "q2 \<equiv> q(r := (q r)\<lparr>status := STATUS_GRANTED, convertMode := MODE_NONE\<rparr>)"
  shows "\<exists>q' h' l' h0. unlockHead r q h l = Some (q', h', l') \<and> head_ok q' h' \<and> relinked q h q' h' \<and>
      onHead h' = onHead h \<and> q' r = q2 r \<and> grants q2 h0 l q' h' l' \<and>
      grantedList h0 = grantedList h \<and> conflictList h0 = conflictList h \<and> front_blocked q' h'"
proof -
  note sync = head_okD(1) [OF ok] and reqs = head_okD(2) [OF ok]
  have m: "mode (q r) \<noteq> MODE_NONE" "convertMode (q r) \<noteq> MODE_NONE" "convertMode (q r) \<noteq> mode (q r)"
    using head_ok_granted [OF ok r] st by (auto simp: granted_ok_def)
  have rcl: "r \<notin> set (conflictList h)" and d: "distinct (grantedList h)"
    using reqs r by (auto simp: reqs_ok_def)
  let ?x = "(q r)\<lparr>status := STATUS_GRANTED, convertMode := MODE_NONE\<rparr>"
  let ?c = "held q (grantedList h)"
  have pos: "0 < ?c (convertMode (q r))"
    using held_remove1 [OF r m(2), of q] by simp
  have counts: "?c(convertMode (q r) := ?c (convertMode (q r)) - 1) = held q2 (grantedList h)"
  proof
    fix k
    show "(?c(convertMode (q r) := ?c (convertMode (q r)) - 1)) k = held q2 (grantedList h) k"
      using held_upd [OF d r, of k q ?x] m pos
      by (cases "k = MODE_NONE") (auto simp: q2_def split: if_splits)
  qed
  have cpos: "0 < conversionsCount h"
    using sync r st by (auto simp: head_syncD countp_pos_iff converting_def)
  let ?h2 = "h\<lparr>conversionsCount := conversionsCount h - 1, grantedCounts := held q2 (grantedList h),
               grantedModes := maskOf (held q2 (grantedList h))\<rparr>"
  have dec: "decGrantedModeCount (convertMode (q r)) (h\<lparr>conversionsCount := conversionsCount h - 1\<rparr>) = Some ?h2"
    using decGrantedModeCount_eq [of "h\<lparr>conversionsCount := conversionsCount h - 1\<rparr>" "convertMode (q r)"] sync pos
    by (simp add: head_syncD flip: counts)
  have "conversionsCount h - 1 = countp (converting q2) (grantedList h)"
    using converting_upd [OF d r, of q ?x] st sync
    by (auto simp: q2_def head_syncD converting_def split: if_splits)
  then have sync2: "head_sync q2 ?h2"
    using sync rcl by (simp add: head_sync_def) (simp add: q2_def compatFirst_upd)
  have reqs2: "reqs_ok q2 ?h2"
    using reqs m rcl
    by (auto simp: reqs_ok_def q2_def granted_ok_def waiting_ok_def linked_to_def compat_all_def)
  obtain q' h' l' where run: "onLockModeChanged True q2 ?h2 l = Some (q', h', l')"
    "head_ok q' h'" "grants q2 ?h2 l q' h' l'"
    using onLockModeChanged_ok [OF sync2 reqs2, of True l] by blast
  have zero: "grantedCounts ?h2 MODE_NONE = 0" by simp
  have "unlockHead r q h l = Some (q', h', l')"
    using st rc cpos dec run(1) zero by (simp add: unlockHead_def Let_def q2_def fun_upd_idem)
  moreover have "onHead h' = onHead h" using run(3) by (simp add: grants_def)
  moreover have "q' r = q2 r"
    using grantsD(2) [OF run(3), of r] by (simp add: q2_def)
  moreover have "same_identity (q x) (q' x)" for x
    using grantsD(1) [OF run(3), of x] by (auto simp: q2_def same_identity_def)
  then have "relinked q h q' h'"
    using run(3) r by (auto simp: grants_def relinked_def q2_def)
  moreover have "front_blocked q' h'" unfolding front_blocked_def using onLockModeChanged_front [OF sync2 reqs2 run(1)] by blast
  ultimately show ?thesis using run(2,3) by (intro exI [of _ q'] exI [of _ h'] exI [of _ l'] exI [of _ ?h2]) simp
qed

end
