(* ===== verification/LockManagerInv.thy ===== *)
theory LockManagerInv
  imports LockHeadOps
begin

text \<open>
  The invariant of the whole lock manager: every lock head satisfies its own invariant, a
  partitioned head has only intent modes and no waiters, every partitioned lock head belongs to
  a partitioned lock head of the same resource, and the requests linked anywhere are exactly the
  ones that have been posted and not yet fully released. The table of lock heads is looked at
  through \<open>findHead\<close>, so the facts here do not depend on how the hash buckets store it.
\<close>

type_synonym head_table = "ResourceId \<rightharpoonup> LockHead"

definition intent_only :: "store \<Rightarrow> LockHead \<Rightarrow> bool" where
  "intent_only q h \<longleftrightarrow> conflictList h = [] \<and>
     (\<forall>r \<in> set (grantedList h). mode (q r) \<in> {MODE_IS, MODE_IX} \<and>
        convertMode (q r) \<in> {MODE_NONE, MODE_IS, MODE_IX})"

definition part_req_ok :: "store \<Rightarrow> LockerId \<Rightarrow> ResourceId \<Rightarrow> req \<Rightarrow> bool" where
  "part_req_ok q p k r \<longleftrightarrow>
     status (q r) = STATUS_GRANTED \<and> mode (q r) \<in> {MODE_IS, MODE_IX} \<and>
     convertMode (q r) = MODE_NONE \<and> partitionedLock (q r) = Some (p, k) \<and>
     lockPtr (q r) = None \<and> partitioned (q r)"

definition linked :: "head_table \<Rightarrow> partition_table \<Rightarrow> req \<Rightarrow> bool" where
  "linked H P r \<longleftrightarrow>
     (\<exists>k h. H k = Some h \<and> r \<in> onHead h) \<or> (\<exists>p k gl. P p k = Some gl \<and> r \<in> set gl)"

definition posted :: "LockRequest \<Rightarrow> bool" where
  "posted x \<longleftrightarrow> status x \<noteq> STATUS_NEW \<and> 0 < recursiveCount x"

definition heads_ok :: "head_table \<Rightarrow> store \<Rightarrow> bool" where
  "heads_ok H q \<longleftrightarrow> (\<forall>k h. H k = Some h \<longrightarrow>
     resourceId h = k \<and> head_ok q h \<and>
     (partitions h \<noteq> [] \<longrightarrow> intent_only q h))"

definition parts_ok :: "head_table \<Rightarrow> partition_table \<Rightarrow> store \<Rightarrow> bool" where
  "parts_ok H P q \<longleftrightarrow> (\<forall>p k gl. P p k = Some gl \<longrightarrow>
     distinct gl \<and> (\<forall>r \<in> set gl. part_req_ok q p k r) \<and>
     (\<exists>h. H k = Some h \<and> p \<in> set (partitions h)))"

definition table_ok :: "head_table \<Rightarrow> partition_table \<Rightarrow> store \<Rightarrow> bool" where
  "table_ok H P q \<longleftrightarrow>
     heads_ok H q \<and> parts_ok H P q \<and> (\<forall>r. linked H P r \<longleftrightarrow> posted (q r))"

lemma heads_okD:
  "heads_ok H q \<Longrightarrow> H k = Some h \<Longrightarrow>
     resourceId h = k \<and> head_ok q h \<and> (partitions h \<noteq> [] \<longrightarrow> intent_only q h)"
  by (simp add: heads_ok_def)

lemma parts_okD:
  "parts_ok H P q \<Longrightarrow> P p k = Some gl \<Longrightarrow>
     distinct gl \<and> (\<forall>r \<in> set gl. part_req_ok q p k r) \<and> (\<exists>h. H k = Some h \<and> p \<in> set (partitions h))"
  by (simp add: parts_ok_def)

lemma onHead_linked_to: "head_ok q h \<Longrightarrow> r \<in> onHead h \<Longrightarrow> linked_to q (resourceId h) r"
  using head_ok_granted head_ok_waiting by blast

text \<open>The links in a request tell where it is linked: the queues are disjoint.\<close>

lemma onHead_lockPtr:
  "heads_ok H q \<Longrightarrow> H k = Some h \<Longrightarrow> r \<in> onHead h \<Longrightarrow> lockPtr (q r) = Some k \<and> partitionedLock (q r) = None"
  using heads_okD [of H q k h] onHead_linked_to [of q h r] by (auto simp: linked_to_def)

lemma inPart_ptr:
  "parts_ok H P q \<Longrightarrow> P p k = Some gl \<Longrightarrow> r \<in> set gl \<Longrightarrow> lockPtr (q r) = None \<and> partitionedLock (q r) = Some (p, k)"
  using parts_okD [of H P q p k gl] by (auto simp: part_req_ok_def)

lemma table_okD:
  assumes "table_ok H P q"
  shows "heads_ok H q" "parts_ok H P q" "linked H P r \<longleftrightarrow> posted (q r)"
  using assms by (auto simp: table_ok_def)

subsection \<open>Replacing one lock head\<close>

definition linked_elsewhere :: "ResourceId \<Rightarrow> head_table \<Rightarrow> partition_table \<Rightarrow> req \<Rightarrow> bool" where
  "linked_elsewhere k H P x \<longleftrightarrow>
     (\<exists>k2 h2. k2 \<noteq> k \<and> H k2 = Some h2 \<and> x \<in> onHead h2) \<or> (\<exists>p k2 gl. P p k2 = Some gl \<and> x \<in> set gl)"

lemma linked_upd: "linked (H(k \<mapsto> h')) P x \<longleftrightarrow> x \<in> onHead h' \<or> linked_elsewhere k H P x"
  unfolding linked_def linked_elsewhere_def by (metis fun_upd_other fun_upd_same option.inject)

lemma linked_split:
  "linked H P x \<longleftrightarrow> (\<exists>h. H k = Some h \<and> x \<in> onHead h) \<or> linked_elsewhere k H P x"
  unfolding linked_def linked_elsewhere_def by metis

lemma heads_ok_update:
  assumes "heads_ok H q" and "resourceId h' = k" "head_ok q' h'"
    "partitions h' \<noteq> [] \<longrightarrow> intent_only q' h'"
    and frame: "\<And>k2 h2 x. k2 \<noteq> k \<Longrightarrow> H k2 = Some h2 \<Longrightarrow> x \<in> onHead h2 \<Longrightarrow> q' x = q x"
  shows "heads_ok (H(k \<mapsto> h')) q'"
  unfolding heads_ok_def
proof (intro allI impI)
  fix k2 h2
  assume h2: "(H(k \<mapsto> h')) k2 = Some h2"
  show "resourceId h2 = k2 \<and> head_ok q' h2 \<and>
      (partitions h2 \<noteq> [] \<longrightarrow> intent_only q' h2)"
  proof (cases "k2 = k")
    case True
    then show ?thesis using h2 assms(2-4) by simp
  next
    case False
    then have H: "H k2 = Some h2" using h2 by simp
    have eq: "x \<in> onHead h2 \<Longrightarrow> q' x = q x" for x using frame [OF False H] .
    then have "head_ok q' h2 \<longleftrightarrow> head_ok q h2" by (intro head_ok_cong) auto
    moreover have "intent_only q' h2 \<longleftrightarrow> intent_only q h2"
      using eq by (auto simp: intent_only_def)
    ultimately show ?thesis using heads_okD [OF assms(1) H] by simp
  qed
qed

text \<open>
  Replacing the head of resource \<open>k\<close>, where \<open>r\<close> is the only request that may join or
  leave its queues and is not linked elsewhere.
\<close>

lemma table_update:
  assumes ok: "table_ok H P q" and h: "H k = Some h \<or> H k = None \<and> onHead h = {} \<and> partitions h = []"
    and r: "r \<in> onHead h \<or> \<not> linked H P r"
    and h': "resourceId h' = k" "head_ok q' h'" "partitions h' = partitions h"
      "partitions h' \<noteq> [] \<longrightarrow> intent_only q' h'"
    and frame: "\<And>x. x \<notin> onHead h \<Longrightarrow> x \<noteq> r \<Longrightarrow> q' x = q x"
    and mem: "\<And>x. x \<in> onHead h' \<longleftrightarrow> (x \<in> onHead h \<or> x = r) \<and> posted (q' x)"
  shows "table_ok (H(k \<mapsto> h')) P q'"
proof -
  note H = table_okD(1) [OF ok] and P = table_okD(2) [OF ok] and L = table_okD(3) [OF ok]
  have on_k: "lockPtr (q x) = Some k" if "x \<in> onHead h" for x
    using h that onHead_lockPtr [OF H, of k h x] by auto
  have eq_other: "q' x = q x" if "k2 \<noteq> k" "H k2 = Some h2" "x \<in> onHead h2" for k2 h2 x
  proof -
    have "lockPtr (q x) = Some k2" using onHead_lockPtr [OF H that(2,3)] by simp
    moreover have "linked H P x" using that by (auto simp: linked_def)
    ultimately show ?thesis using frame [of x] on_k [of x] r that(1) by auto
  qed
  have eq_part: "q' x = q x" if "P p k2 = Some gl" "x \<in> set gl" for p k2 gl x
  proof -
    have "lockPtr (q x) = None" using inPart_ptr [OF P that] by simp
    moreover have "linked H P x" using that by (auto simp: linked_def)
    ultimately show ?thesis using frame [of x] on_k [of x] r by auto
  qed
  have "heads_ok (H(k \<mapsto> h')) q'"
    using heads_ok_update [OF H h'(1,2,4) eq_other] .
  moreover have "parts_ok (H(k \<mapsto> h')) P q'"
    unfolding parts_ok_def
  proof (intro allI impI)
    fix p k2 gl assume Pk: "P p k2 = Some gl"
    note old = parts_okD [OF P Pk]
    have "\<forall>x \<in> set gl. part_req_ok q' p k2 x"
      using old eq_part [OF Pk] by (simp add: part_req_ok_def)
    moreover have "\<exists>h2. (H(k \<mapsto> h')) k2 = Some h2 \<and> p \<in> set (partitions h2)"
      using old h h'(3) by auto
    ultimately show "distinct gl \<and> (\<forall>r\<in>set gl. part_req_ok q' p k2 r) \<and>
        (\<exists>h2. (H(k \<mapsto> h')) k2 = Some h2 \<and> p \<in> set (partitions h2))"
      using old by simp
  qed
  moreover have "linked (H(k \<mapsto> h')) P x \<longleftrightarrow> posted (q' x)" for x
  proof (cases "x \<in> onHead h \<or> x = r")
    case True
    have "\<not> (k2 \<noteq> k \<and> H k2 = Some h2 \<and> x \<in> onHead h2)" for k2 h2
      using True r on_k [of x] onHead_lockPtr [OF H, of k2 h2 x] by (auto simp: linked_def)
    moreover have "\<not> (P p k2 = Some gl \<and> x \<in> set gl)" for p k2 gl
      using True r on_k [of x] inPart_ptr [OF P, of p k2 gl x] by (auto simp: linked_def)
    ultimately have "\<not> linked_elsewhere k H P x"
      unfolding linked_elsewhere_def by blast
    then show ?thesis
      using True mem [of x] unfolding linked_upd by blast
  next
    case False
    then have "q' x = q x" and "x \<notin> onHead h'" using frame mem by auto
    moreover have "linked (H(k \<mapsto> h')) P x \<longleftrightarrow> linked H P x"
      using False \<open>x \<notin> onHead h'\<close> h unfolding linked_upd linked_split [of H P x k] by auto
    ultimately show ?thesis using L by simp
  qed
  ultimately show ?thesis by (simp add: table_ok_def)
qed

subsection \<open>Migration\<close>

lemma intent_only_no_wait:
  "intent_only q h \<Longrightarrow> m \<in> {MODE_IS, MODE_IX} \<Longrightarrow> \<not> must_wait q m h"
  by (auto simp: intent_only_def must_wait_def)

definition migrated :: "ResourceId \<Rightarrow> LockRequest \<Rightarrow> LockRequest" where
  "migrated k x = x\<lparr>partitionedLock := None, lockPtr := Some k, status := STATUS_GRANTED\<rparr>"

lemma migrateRequests_ok:
  assumes "head_ok q h" "intent_only q h" "distinct gl" "set gl \<inter> onHead h = {}"
    "\<forall>r \<in> set gl. mode (q r) \<in> {MODE_IS, MODE_IX} \<and> convertMode (q r) = MODE_NONE"
  shows "\<exists>h'. migrateRequests gl q h =
        Some (\<lambda>r. if r \<in> set gl then migrated (resourceId h) (q r) else q r, h') \<and>
      head_ok (\<lambda>r. if r \<in> set gl then migrated (resourceId h) (q r) else q r) h' \<and>
      grantedList h' = grantedList h @ gl \<and> conflictList h' = [] \<and>
      resourceId h' = resourceId h \<and> partitions h' = partitions h"
  using assms
proof (induction gl arbitrary: q h)
  case Nil
  then show ?case by (simp add: intent_only_def)
next
  case (Cons r gl)
  define q1 where "q1 = q(r := (q r)\<lparr>partitionedLock := None\<rparr>)"
  have fresh: "r \<notin> onHead h" using Cons.prems(4) by auto
  have ok1: "head_ok q1 h"
    using Cons.prems(1) fresh unfolding q1_def by (simp add: head_ok_upd_notin)
  have io1: "intent_only q1 h"
    using Cons.prems(2) fresh by (auto simp: intent_only_def q1_def)
  have m: "mode (q1 r) \<noteq> MODE_NONE" "convertMode (q1 r) = MODE_NONE" "partitionedLock (q1 r) = None"
    "mode (q1 r) \<in> {MODE_IS, MODE_IX}"
    using Cons.prems(5) by (auto simp: q1_def)
  define q2 where "q2 = q1(r := (q1 r)\<lparr>lockPtr := Some (resourceId h), status := STATUS_GRANTED\<rparr>)"
  obtain h2 where h2: "newRequest r q1 h = Some (LOCK_OK, q2, h2)" "head_ok q2 h2"
    "grantedList h2 = grantedList h @ [r]" "conflictList h2 = conflictList h"
    "resourceId h2 = resourceId h" "partitions h2 = partitions h"
    using newRequest_granted [OF ok1 fresh m(1-3) intent_only_no_wait [OF io1 m(4)]] unfolding q2_def by blast
  have io2: "intent_only q2 h2"
    using io1 m(2,4) h2(3,4) by (auto simp: intent_only_def q2_def)
  have q2r: "q2 r = migrated (resourceId h) (q r)"
    by (simp add: q2_def q1_def migrated_def)
  have q2o: "s \<noteq> r \<Longrightarrow> q2 s = q s" for s by (simp add: q2_def q1_def)
  have gl: "distinct gl" "r \<notin> set gl" "set gl \<inter> onHead h2 = {}"
    using Cons.prems(3,4) h2(3,4) by auto
  have prem: "\<forall>s \<in> set gl. mode (q2 s) \<in> {MODE_IS, MODE_IX} \<and> convertMode (q2 s) = MODE_NONE"
    using Cons.prems(5) gl(2) q2o by (metis list.set_intros(2))
  obtain h' where h': "migrateRequests gl q2 h2 =
        Some (\<lambda>s. if s \<in> set gl then migrated (resourceId h2) (q2 s) else q2 s, h')"
      "head_ok (\<lambda>s. if s \<in> set gl then migrated (resourceId h2) (q2 s) else q2 s) h'"
      "grantedList h' = grantedList h2 @ gl" "conflictList h' = []"
      "resourceId h' = resourceId h2" "partitions h' = partitions h2"
    using Cons.IH [OF h2(2) io2 gl(1,3) prem] by blast
  have "(\<lambda>s. if s \<in> set gl then migrated (resourceId h2) (q2 s) else q2 s) =
        (\<lambda>s. if s \<in> set (r # gl) then migrated (resourceId h) (q s) else q s)"
  proof (rule ext)
    fix s
    show "(if s \<in> set gl then migrated (resourceId h2) (q2 s) else q2 s) =
        (if s \<in> set (r # gl) then migrated (resourceId h) (q s) else q s)"
      by (cases "s = r") (use q2r q2o gl(2) h2(5) in simp_all)
  qed
  then show ?case
    using h2 h' by (simp add: Let_def q1_def [symmetric])
qed

text \<open>One round of the migration loop: the last partition of the head is emptied and dropped.\<close>

definition migrate_round ::
  "LockerId \<Rightarrow> partition_table \<Rightarrow> store \<Rightarrow> LockHead \<Rightarrow> (partition_table \<times> store \<times> LockHead) option" where
  "migrate_round p P q h =
     (case P p (resourceId h) of
        None \<Rightarrow> Some (P, q, h)
      | Some gl \<Rightarrow>
          do {
            (q1, h1) \<leftarrow> migrateRequests gl q h;
            Some (P(p := (P p)(resourceId h := None)), q1, h1)
          })"

definition in_other_part :: "partition_table \<Rightarrow> LockerId \<Rightarrow> ResourceId \<Rightarrow> req \<Rightarrow> bool" where
  "in_other_part P p k x \<longleftrightarrow> (\<exists>p2 k2 gl. (p2 \<noteq> p \<or> k2 \<noteq> k) \<and> P p2 k2 = Some gl \<and> x \<in> set gl)"

lemma in_part_split:
  "(\<exists>p2 k2 gl. P p2 k2 = Some gl \<and> x \<in> set gl) \<longleftrightarrow>
     (\<exists>gl. P p k = Some gl \<and> x \<in> set gl) \<or> in_other_part P p k x"
  unfolding in_other_part_def by metis

lemma in_part_upd:
  "(\<exists>p2 k2 gl. (P(p := (P p)(k := v))) p2 k2 = Some gl \<and> x \<in> set gl) \<longleftrightarrow>
     (\<exists>gl. v = Some gl \<and> x \<in> set gl) \<or> in_other_part P p k x"
proof -
  have "in_other_part (P(p := (P p)(k := v))) p k x = in_other_part P p k x"
    unfolding in_other_part_def by (metis fun_upd_other fun_upd_same)
  then show ?thesis
    unfolding in_part_split [of "P(p := (P p)(k := v))" x p k] by simp
qed

definition partReqs :: "partition_table \<Rightarrow> LockerId \<Rightarrow> ResourceId \<Rightarrow> req set" where
  "partReqs P p k = (case P p k of None \<Rightarrow> {} | Some gl \<Rightarrow> set gl)"

lemma migrate_round_run:
  fixes p :: LockerId
  assumes ok: "table_ok H P q" and h: "H k = Some h" and ps: "partitions h \<noteq> []"
  defines "q1 \<equiv> (\<lambda>r. if r \<in> partReqs P p k then migrated k (q r) else q r)"
  shows "\<exists>h1. migrate_round p P q h = Some (P(p := (P p)(k := None)), q1, h1) \<and>
      head_ok q1 h1 \<and> intent_only q1 h1 \<and> onHead h1 = onHead h \<union> partReqs P p k \<and>
      resourceId h1 = k \<and> partitions h1 = partitions h"
proof -
  have hk: "resourceId h = k" "head_ok q h" "intent_only q h"
    using heads_okD [OF table_okD(1) [OF ok] h] ps by auto
  show ?thesis
  proof (cases "P p k")
    case None
    then have "q1 = q" and "P(p := (P p)(k := None)) = P"
      by (auto simp: q1_def partReqs_def fun_upd_idem_iff)
    with hk None show ?thesis by (simp add: migrate_round_def partReqs_def)
  next
    case (Some gl)
    note pk = parts_okD [OF table_okD(2) [OF ok] Some]
    have disj: "set gl \<inter> onHead h = {}"
      using inPart_ptr [OF table_okD(2) [OF ok] Some] onHead_lockPtr [OF table_okD(1) [OF ok] h]
      by fastforce
    have q1': "q1 = (\<lambda>r. if r \<in> set gl then migrated k (q r) else q r)"
      by (simp add: q1_def partReqs_def Some)
    obtain h1 where h1: "migrateRequests gl q h = Some (q1, h1)" "head_ok q1 h1"
      "grantedList h1 = grantedList h @ gl" "conflictList h1 = []" "resourceId h1 = resourceId h"
      "partitions h1 = partitions h"
      using migrateRequests_ok [OF hk(2,3) _ disj] pk unfolding q1' hk(1) [symmetric]
      by (auto simp: part_req_ok_def)
    have "intent_only q1 h1"
      using hk(3) pk h1(3,4) by (auto simp: intent_only_def q1' migrated_def part_req_ok_def)
    moreover have "onHead h1 = onHead h \<union> partReqs P p k"
      using h1(3,4) hk(3) by (auto simp: partReqs_def Some intent_only_def)
    ultimately show ?thesis
      using h1 hk Some by (simp add: migrate_round_def)
  qed
qed

lemma migrate_round_table:
  assumes ok: "table_ok H P q" and h: "H k = Some h" and ps: "partitions h = ps @ [p]"
  shows "\<exists>q1 h1. migrate_round p P q h = Some (P(p := (P p)(k := None)), q1, h1) \<and>
      table_ok (H(k \<mapsto> h1\<lparr>partitions := ps\<rparr>)) (P(p := (P p)(k := None))) q1 \<and>
      partitions h1 = ps @ [p] \<and> resourceId h1 = k \<and>
      onHead h1 = onHead h \<union> partReqs P p k \<and>
      q1 = (\<lambda>r. if r \<in> partReqs P p k then migrated k (q r) else q r)"
proof -
  define q1 where "q1 = (\<lambda>r. if r \<in> partReqs P p k then migrated k (q r) else q r)"
  let ?P = "P(p := (P p)(k := None))"
  obtain h1 where h1: "migrate_round p P q h = Some (?P, q1, h1)" "head_ok q1 h1" "intent_only q1 h1"
    "onHead h1 = onHead h \<union> partReqs P p k" "resourceId h1 = k" "partitions h1 = partitions h"
    using migrate_round_run [OF ok h, of p] ps unfolding q1_def by auto
  note H = table_okD(1) [OF ok] and Po = table_okD(2) [OF ok] and L = table_okD(3) [OF ok]
  let ?h = "h1\<lparr>partitions := ps\<rparr>"
  have notin: "x \<notin> partReqs P p k" if "k2 \<noteq> k \<or> p2 \<noteq> p" "P p2 k2 = Some gl" "x \<in> set gl" for p2 k2 gl x
    using inPart_ptr [OF Po that(2,3)] inPart_ptr [OF Po, of p k _ x] that(1)
    by (auto simp: partReqs_def split: option.splits)
  have notin2: "x \<notin> partReqs P p k" if "H k2 = Some h2" "x \<in> onHead h2" for k2 h2 x
    using onHead_lockPtr [OF H that] inPart_ptr [OF Po, of p k _ x]
    by (auto simp: partReqs_def split: option.splits)
  have "heads_ok (H(k \<mapsto> ?h)) q1"
  proof (rule heads_ok_update [OF H])
    show "head_ok q1 ?h" using h1(2) by simp
    show "partitions ?h \<noteq> [] \<longrightarrow> intent_only q1 ?h" using h1(3) by (simp add: intent_only_def)
    show "q1 x = q x" if "k2 \<noteq> k" "H k2 = Some h2" "x \<in> onHead h2" for k2 h2 x
      using notin2 [OF that(2,3)] by (simp add: q1_def)
  qed (use h1 in simp_all)
  moreover have "parts_ok (H(k \<mapsto> ?h)) ?P q1"
    unfolding parts_ok_def
  proof (intro allI impI)
    fix p2 k2 gl assume Pk: "?P p2 k2 = Some gl"
    then have Pk': "P p2 k2 = Some gl" and ne: "k2 \<noteq> k \<or> p2 \<noteq> p"
      by (auto split: if_splits)
    have "\<forall>x \<in> set gl. part_req_ok q1 p2 k2 x"
      using parts_okD [OF Po Pk'] notin [OF ne Pk'] by (auto simp: q1_def part_req_ok_def)
    moreover have "\<exists>h2. (H(k \<mapsto> ?h)) k2 = Some h2 \<and> p2 \<in> set (partitions h2)"
      using parts_okD [OF Po Pk'] h ps ne by auto
    ultimately show "distinct gl \<and> (\<forall>r\<in>set gl. part_req_ok q1 p2 k2 r) \<and>
        (\<exists>h2. (H(k \<mapsto> ?h)) k2 = Some h2 \<and> p2 \<in> set (partitions h2))"
      using parts_okD [OF Po Pk'] by simp
  qed
  moreover have "linked (H(k \<mapsto> ?h)) ?P x \<longleftrightarrow> posted (q1 x)" for x
  proof -
    have "(\<exists>p2 k2 gl. P p2 k2 = Some gl \<and> x \<in> set gl) \<longleftrightarrow>
        x \<in> partReqs P p k \<or> (\<exists>p2 k2 gl. ?P p2 k2 = Some gl \<and> x \<in> set gl)"
      unfolding in_part_upd in_part_split [of P x p k] by (auto simp: partReqs_def split: option.splits)
    then have "linked (H(k \<mapsto> ?h)) ?P x \<longleftrightarrow> linked H P x"
      using h h1(4) unfolding linked_upd linked_split [of H P x k] linked_elsewhere_def by auto
    moreover have "posted (q1 x) \<longleftrightarrow> posted (q x)"
      using parts_okD [OF Po, of p k]
      by (auto simp: q1_def posted_def migrated_def partReqs_def part_req_ok_def split: option.splits)
    ultimately show ?thesis using L by simp
  qed
  ultimately show ?thesis
    using h1 ps unfolding q1_def by (auto simp: table_ok_def)
qed

end
