(* ===== verification/LockManagerOps.thy ===== *)
theory LockManagerOps
  imports LockManagerInv
begin

text \<open>
  Every operation of the lock manager keeps its invariant \<open>lm_ok\<close> and hits none of its
  assertions, given what its callers guarantee: a request that is posted is a fresh one, a
  conversion goes to a mode that is comparable with the held one, and so on.
\<close>

subsection \<open>The migration loop\<close>

definition inParts :: "partition_table \<Rightarrow> ResourceId \<Rightarrow> req \<Rightarrow> bool" where
  "inParts P k r \<longleftrightarrow> (\<exists>p gl. P p k = Some gl \<and> r \<in> set gl)"

definition migrate_all :: "partition_table \<Rightarrow> ResourceId \<Rightarrow> store \<Rightarrow> store" where
  "migrate_all P k q = (\<lambda>r. if inParts P k r then migrated k (q r) else q r)"

definition drop_parts :: "ResourceId \<Rightarrow> partition_table \<Rightarrow> partition_table" where
  "drop_parts k P = (\<lambda>p. (P p)(k := None))"

lemma inParts_partReqs: "inParts P k r \<longleftrightarrow> (\<exists>p. r \<in> partReqs P p k)"
  unfolding inParts_def partReqs_def by (auto split: option.splits)

lemma partReqs_drop: "partReqs (P(p := (P p)(k := None))) p2 k = (if p2 = p then {} else partReqs P p2 k)"
  by (simp add: partReqs_def)

lemma inParts_split:
  "inParts P k r \<longleftrightarrow> r \<in> partReqs P p k \<or> inParts (P(p := (P p)(k := None))) k r"
  unfolding inParts_partReqs partReqs_drop by (auto split: if_splits)

lemma migrateLoop_round:
  "migrateLoop (p # ps) P q h =
     Option.bind (migrate_round p P q h)
       (\<lambda>(P1, q1, h1). migrateLoop ps P1 q1 (h1\<lparr>partitions := butlast (partitions h1)\<rparr>))"
  by (simp add: migrate_round_def Let_def)

declare migrateLoop.simps(2) [simp del]

lemma migrateLoop_ok:
  assumes "table_ok H P q" "H k = Some h"
  shows "\<exists>h1. migrateLoop (rev (partitions h)) P q h =
        Some (drop_parts k P, migrate_all P k q, h1) \<and>
      table_ok (H(k \<mapsto> h1)) (drop_parts k P) (migrate_all P k q) \<and>
      partitions h1 = [] \<and> resourceId h1 = k \<and> onHead h1 = onHead h \<union> {r. inParts P k r}"
  using assms
proof (induction "length (partitions h)" arbitrary: H P q h)
  case 0
  then have none: "P p k = None" for p
    using parts_okD [OF table_okD(2) [OF 0(2)], of p k] by (cases "P p k") auto
  then have "(drop_parts k P) = P" "migrate_all P k q = q" "{r. inParts P k r} = {}" "H(k \<mapsto> h) = H"
    using 0(3) by (auto simp: drop_parts_def migrate_all_def inParts_def fun_upd_idem_iff fun_eq_iff)
  with 0 show ?case using heads_okD [OF table_okD(1) [OF 0(2)] 0(3)] by (simp del: fun_upd_apply)
next
  case (Suc n)
  obtain ps p where ps: "partitions h = ps @ [p]"
    using Suc(2) by (metis length_0_conv nat.distinct(1) rev_exhaust)
  let ?P = "P(p := (P p)(k := None))"
  obtain q1 h1 where r: "migrate_round p P q h = Some (?P, q1, h1)"
    "table_ok (H(k \<mapsto> h1\<lparr>partitions := ps\<rparr>)) ?P q1" "partitions h1 = ps @ [p]" "resourceId h1 = k"
    "onHead h1 = onHead h \<union> partReqs P p k"
    "q1 = (\<lambda>r. if r \<in> partReqs P p k then migrated k (q r) else q r)"
    using migrate_round_table [OF Suc(3,4) ps] by blast
  let ?h = "h1\<lparr>partitions := ps\<rparr>"
  obtain h2 where h2: "migrateLoop (rev ps) ?P q1 ?h =
        Some (drop_parts k ?P, migrate_all ?P k q1, h2)"
      "table_ok (H(k \<mapsto> ?h, k \<mapsto> h2)) (drop_parts k ?P) (migrate_all ?P k q1)"
      "partitions h2 = []" "resourceId h2 = k" "onHead h2 = onHead ?h \<union> {r. inParts ?P k r}"
    using Suc(1) [of ?h "H(k \<mapsto> ?h)" ?P q1] Suc(2) ps r(2) by auto
  have P: "(drop_parts k ?P) = (drop_parts k P)" by (auto simp: drop_parts_def fun_eq_iff)
  have q: "migrate_all ?P k q1 = migrate_all P k q"
    using inParts_split [of P k _ p] by (auto simp: migrate_all_def r(6) migrated_def fun_eq_iff)
  have "onHead h2 = onHead h \<union> {r. inParts P k r}"
    using h2(5) r(5) inParts_split [of P k _ p] by auto
  then show ?case
    using h2 r(1,3) ps unfolding P q by (simp add: migrateLoop_round)
qed

lemma bit_intentModes: "bit intentModes (mode_val m) \<longleftrightarrow> m \<in> {MODE_IS, MODE_IX}"
  by (cases m) (simp_all add: intentModes_def bit_or_iff)

text \<open>The mask test of the source says that a head has only intent modes and nobody waits.\<close>

lemma intent_only_masks:
  assumes "head_ok q h"
  shows "grantedModes h AND NOT intentModes = 0 \<and> conflictModes h = 0 \<longleftrightarrow> intent_only q h"
proof -
  note sync = head_okD(1) [OF assms]
  have "grantedModes h AND NOT intentModes = 0 \<longleftrightarrow> (\<forall>m. m \<notin> {MODE_IS, MODE_IX} \<longrightarrow> held q (grantedList h) m = 0)"
  proof -
    have "grantedModes h AND NOT intentModes = 0 \<longleftrightarrow>
        (\<forall>n. \<not> (bit (maskOf (held q (grantedList h))) n \<and> \<not> bit intentModes n))"
      using bit_imp_le_length [of "maskOf (held q (grantedList h))"]
      unfolding bit_eq_iff head_syncD(5) [OF sync] by (auto simp: bit_and_iff bit_not_iff)
    also have "\<dots> \<longleftrightarrow> (\<forall>m. m \<notin> {MODE_IS, MODE_IX} \<longrightarrow> held q (grantedList h) m = 0)"
      unfolding bit_maskOf bit_intentModes [symmetric] by auto
    finally show ?thesis .
  qed
  also have "\<dots> \<longleftrightarrow> (\<forall>r \<in> set (grantedList h). mode (q r) \<in> {MODE_IS, MODE_IX} \<and>
        convertMode (q r) \<in> {MODE_NONE, MODE_IS, MODE_IX})"
  proof -
    have "mode (q r) \<noteq> MODE_NONE" if "r \<in> set (grantedList h)" for r
      using head_ok_granted [OF assms that] by (simp add: granted_ok_def)
    moreover have "held q (grantedList h) m = 0 \<longleftrightarrow> m = MODE_NONE \<or>
        (\<forall>r \<in> set (grantedList h). mode (q r) \<noteq> m \<and> convertMode (q r) \<noteq> m)" for m
      by (auto simp: held_def countp_0_iff)
    ultimately show ?thesis by blast
  qed
  finally show ?thesis
    using conflict_mask_zero [OF sync] by (auto simp: intent_only_def)
qed

lemma migrateIfPartitioned_ok:
  assumes ok: "table_ok H P q" and h: "H k = Some h"
  shows "\<exists>h1. migrateIfPartitioned P q h = Some (drop_parts k P, migrate_all P k q, h1) \<and>
      table_ok (H(k \<mapsto> h1)) (drop_parts k P) (migrate_all P k q) \<and>
      partitions h1 = [] \<and> resourceId h1 = k \<and> onHead h1 = onHead h \<union> {r. inParts P k r}"
proof -
  note loop = migrateLoop_ok [OF ok h] and hk = heads_okD [OF table_okD(1) [OF ok] h]
  show ?thesis
  proof (cases "partitions h = []")
    case True
    with loop show ?thesis by (auto simp: migrateIfPartitioned_def head_partitioned_def)
  next
    case False
    then have "grantedModes h AND NOT intentModes = 0 \<and> conflictModes h = 0"
      using hk intent_only_masks [of q h] by blast
    with loop False show ?thesis
      by (simp add: migrateIfPartitioned_def migratePartitionedLockHeads_def head_partitioned_def)
  qed
qed


subsection \<open>The invariant of the lock manager\<close>

definition heads :: "LockManager \<Rightarrow> head_table" where
  "heads lm = (\<lambda>k. findHead k lm)"

definition buckets_ok :: "LockManager \<Rightarrow> bool" where
  "buckets_ok lm \<longleftrightarrow> (\<forall>i. distinct (map fst (lockBuckets lm i)) \<and>
     fst ` set (lockBuckets lm i) \<subseteq> {k. getBucket k = i})"

text \<open>A waiting request has been posted once and is not partitioned; a converting one was
  granted before, so it counts at least two acquisitions.\<close>

definition counts_ok :: "store \<Rightarrow> bool" where
  "counts_ok q \<longleftrightarrow> (\<forall>r. posted (q r) \<longrightarrow>
     (status (q r) = STATUS_WAITING \<longrightarrow> recursiveCount (q r) = 1 \<and> \<not> partitioned (q r)) \<and>
     (status (q r) = STATUS_CONVERTING \<longrightarrow> 2 \<le> recursiveCount (q r)))"

definition lm_ok :: "LockManager \<Rightarrow> bool" where
  "lm_ok lm \<longleftrightarrow> buckets_ok lm \<and> table_ok (heads lm) (partitionTable lm) (requestStore lm) \<and>
     counts_ok (requestStore lm)"

lemma heads_putHead [simp]: "heads (putHead k h lm) = (heads lm)(k \<mapsto> h)"
  by (auto simp: heads_def putHead_def findHead_def update_conv' fun_eq_iff)

lemma buckets_ok_putHead [simp]: "buckets_ok lm \<Longrightarrow> buckets_ok (putHead k h lm)"
  by (simp add: buckets_ok_def putHead_def distinct_update dom_update)

lemma putHead_simps [simp]:
  "partitionTable (putHead k h lm) = partitionTable lm"
  "requestStore (putHead k h lm) = requestStore lm"
  "notifications (putHead k h lm) = notifications lm"
  by (simp_all add: putHead_def)

lemma heads_other [simp]:
  "heads (lm\<lparr>requestStore := q\<rparr>) = heads lm" "heads (lm\<lparr>partitionTable := P\<rparr>) = heads lm"
  "heads (lm\<lparr>notifications := l\<rparr>) = heads lm"
  by (simp_all add: heads_def findHead_def)

lemma buckets_ok_other [simp]:
  "buckets_ok (lm\<lparr>requestStore := q\<rparr>) = buckets_ok lm" "buckets_ok (lm\<lparr>partitionTable := P\<rparr>) = buckets_ok lm"
  "buckets_ok (lm\<lparr>notifications := l\<rparr>) = buckets_ok lm"
  by (simp_all add: buckets_ok_def)

lemma findHead_heads: "findHead k lm = heads lm k"
  by (simp add: heads_def)

lemma counts_ok_upd:
  "counts_ok q \<Longrightarrow> (posted x \<Longrightarrow> status x \<noteq> STATUS_WAITING \<or> recursiveCount x = 1 \<and> \<not> partitioned x) \<Longrightarrow>
     (posted x \<Longrightarrow> status x \<noteq> STATUS_CONVERTING \<or> 2 \<le> recursiveCount x) \<Longrightarrow> counts_ok (q(r := x))"
  by (auto simp: counts_ok_def)

lemma counts_ok_migrate: "counts_ok q \<Longrightarrow> counts_ok (migrate_all P k q)"
  by (auto simp: counts_ok_def migrate_all_def migrated_def posted_def)

lemma counts_ok_grants: "counts_ok q \<Longrightarrow> grants q h l q' h' l' \<Longrightarrow> counts_ok q'"
proof -
  assume "counts_ok q" and g: "grants q h l q' h' l'"
  have "q' r = q r \<or> status (q' r) = STATUS_GRANTED \<and> recursiveCount (q' r) = recursiveCount (q r)" for r
    using grantsD(4) [OF g, of r] unfolding granted_from_def by (elim disjE conjE) simp_all
  then have "\<not> posted (q' r) \<or> q' r = q r \<or> status (q' r) = STATUS_GRANTED" for r by blast
  with \<open>counts_ok q\<close> show ?thesis
    unfolding counts_ok_def by (metis Status.distinct(7) Status.distinct(9))
qed

lemma lm_ok_empty: "lm_ok emptyLockManager"
  by (auto simp: lm_ok_def buckets_ok_def emptyLockManager_def heads_def findHead_def table_ok_def
      heads_ok_def parts_ok_def linked_def posted_def counts_ok_def LockRequest_initNew_def)

subsection \<open>Joining a partition\<close>

definition fresh_request :: "LockRequest \<Rightarrow> bool" where
  "fresh_request x \<longleftrightarrow> status x = STATUS_NEW \<and> recursiveCount x = 1 \<and> convertMode x = MODE_NONE \<and>
     lockPtr x = None \<and> partitionedLock x = None"

lemma not_posted_fresh: "fresh_request x \<Longrightarrow> \<not> posted x"
  by (simp add: fresh_request_def posted_def)

lemma table_join_partition:
  assumes ok: "table_ok H P q" and h: "H k = Some h \<or> H k = None \<and> h = LockHead_initNew k"
    and r: "\<not> posted (q r)" and io: "intent_only q h"
    and ps: "set ps = insert p (set (partitions h))"
    and gl: "gl = (case P p k of None \<Rightarrow> [] | Some gl \<Rightarrow> gl)"
    and x: "part_req_ok (q(r := x)) p k r" "posted x"
  shows "table_ok (H(k \<mapsto> h\<lparr>partitions := ps\<rparr>)) (P(p := (P p)(k \<mapsto> gl @ [r]))) (q(r := x))"
proof -
  let ?h = "h\<lparr>partitions := ps\<rparr>" and ?P = "P(p := (P p)(k \<mapsto> gl @ [r]))" and ?q = "q(r := x)"
  note Ho = table_okD(1) [OF ok] and Po = table_okD(2) [OF ok] and L = table_okD(3) [OF ok]
  have nl: "\<not> linked H P r" using L r by simp
  have on: "y \<noteq> r" if "H k2 = Some h2" "y \<in> onHead h2" for k2 h2 y
    using nl that by (auto simp: linked_def)
  have inp: "y \<noteq> r" if "P p2 k2 = Some gl2" "y \<in> set gl2" for p2 k2 gl2 y
    using nl that by (auto simp: linked_def)
  have hk: "resourceId h = k" "head_ok q h" "r \<notin> onHead h"
    using h heads_okD [OF Ho, of k h] head_ok_initNew on [of k h r] by (auto simp: LockHead_initNew_def)
  have "heads_ok (H(k \<mapsto> ?h)) ?q"
  proof (rule heads_ok_update [OF Ho])
    show "head_ok ?q ?h" using hk(2,3) by (simp add: head_ok_upd_notin)
    show "partitions ?h \<noteq> [] \<longrightarrow> intent_only ?q ?h" using io hk(3) by (auto simp: intent_only_def)
    show "?q y = q y" if "k2 \<noteq> k" "H k2 = Some h2" "y \<in> onHead h2" for k2 h2 y
      using on [OF that(2,3)] by simp
  qed (use hk in simp)
  moreover have "parts_ok (H(k \<mapsto> ?h)) ?P ?q"
    unfolding parts_ok_def
  proof (intro allI impI)
    fix p2 k2 gl2 assume Pk: "?P p2 k2 = Some gl2"
    show "distinct gl2 \<and> (\<forall>r\<in>set gl2. part_req_ok ?q p2 k2 r) \<and>
        (\<exists>h2. (H(k \<mapsto> ?h)) k2 = Some h2 \<and> p2 \<in> set (partitions h2))"
    proof (cases "p2 = p \<and> k2 = k")
      case True
      have "distinct gl \<and> (\<forall>y\<in>set gl. part_req_ok q p k y) \<and> r \<notin> set gl"
        using gl parts_okD [OF Po, of p k] inp [of p k] by (auto split: option.splits)
      with True Pk x(1) ps show ?thesis by (auto simp: part_req_ok_def)
    next
      case False
      then have Pk': "P p2 k2 = Some gl2" using Pk by (auto split: if_splits)
      note old = parts_okD [OF Po Pk']
      have "\<forall>y\<in>set gl2. part_req_ok ?q p2 k2 y"
        using old inp [OF Pk'] by (auto simp: part_req_ok_def)
      with old h ps show ?thesis by auto
    qed
  qed
  moreover have "linked (H(k \<mapsto> ?h)) ?P y \<longleftrightarrow> posted (?q y)" for y
  proof -
    have "(\<exists>p2 k2 gl2. ?P p2 k2 = Some gl2 \<and> y \<in> set gl2) \<longleftrightarrow>
        y = r \<or> (\<exists>p2 k2 gl2. P p2 k2 = Some gl2 \<and> y \<in> set gl2)"
      unfolding in_part_upd in_part_split [of P y p k] using gl by (auto split: option.splits)
    moreover have "onHead h = {}" if "H k = None" using h that by (auto simp: LockHead_initNew_def)
    ultimately have "linked (H(k \<mapsto> ?h)) ?P y \<longleftrightarrow> y = r \<or> linked H P y"
      using h unfolding linked_upd linked_split [of H P y k] linked_elsewhere_def by auto
    then show ?thesis using L x(2) nl by auto
  qed
  ultimately show ?thesis by (simp add: table_ok_def)
qed


subsection \<open>Posting a request\<close>

lemma initNew_simps [simp]:
  "resourceId (LockHead_initNew k) = k" "grantedList (LockHead_initNew k) = []"
  "conflictList (LockHead_initNew k) = []" "partitions (LockHead_initNew k) = []"
  by (simp_all add: LockHead_initNew_def)

lemma table_insert_head:
  assumes ok: "table_ok H P q" and none: "H k = None"
  shows "table_ok (H(k \<mapsto> LockHead_initNew k)) P q"
proof -
  note Ho = table_okD(1) [OF ok] and Po = table_okD(2) [OF ok] and L = table_okD(3) [OF ok]
  have "heads_ok (H(k \<mapsto> LockHead_initNew k)) q"
    by (rule heads_ok_update [OF Ho]) (simp_all add: head_ok_initNew)
  moreover have "parts_ok (H(k \<mapsto> LockHead_initNew k)) P q"
    using Po none unfolding parts_ok_def by (metis fun_upd_other option.distinct(1))
  moreover have "linked (H(k \<mapsto> LockHead_initNew k)) P x \<longleftrightarrow> posted (q x)" for x
    using L [of x] none unfolding linked_upd linked_split [of H P x k] by simp
  ultimately show ?thesis by (simp add: table_ok_def)
qed

lemma table_upd_unposted:
  assumes ok: "table_ok H P q" and r: "\<not> posted (q r)" "\<not> posted x"
  shows "table_ok H P (q(r := x))"
proof -
  note Ho = table_okD(1) [OF ok] and Po = table_okD(2) [OF ok] and L = table_okD(3) [OF ok]
  have nl: "\<not> linked H P r" using L r by simp
  have "heads_ok H (q(r := x))"
    unfolding heads_ok_def
  proof (intro allI impI)
    fix k h assume h: "H k = Some h"
    then have "r \<notin> onHead h" using nl by (auto simp: linked_def)
    with heads_okD [OF Ho h] show "resourceId h = k \<and> head_ok (q(r := x)) h \<and>
        (partitions h \<noteq> [] \<longrightarrow> intent_only (q(r := x)) h)"
      by (auto simp: head_ok_upd_notin intent_only_def)
  qed
  moreover have "parts_ok H P (q(r := x))"
    unfolding parts_ok_def
  proof (intro allI impI)
    fix p k gl assume Pk: "P p k = Some gl"
    then have "r \<notin> set gl" using nl by (auto simp: linked_def)
    with parts_okD [OF Po Pk] show "distinct gl \<and> (\<forall>y\<in>set gl. part_req_ok (q(r := x)) p k y) \<and>
        (\<exists>h. H k = Some h \<and> p \<in> set (partitions h))"
      by (auto simp: part_req_ok_def)
  qed
  ultimately show ?thesis
    using ok r by (auto simp: table_ok_def)
qed

text \<open>The resource a posted request is for, and the requests that keep mode \<open>m\<close> from being granted.\<close>

definition on_resource :: "LockRequest \<Rightarrow> ResourceId \<Rightarrow> bool" where
  "on_resource x k \<longleftrightarrow> lockPtr x = Some k \<or> lockPtr x = None \<and> map_option snd (partitionedLock x) = Some k"

definition blocks :: "store \<Rightarrow> ResourceId \<Rightarrow> LockMode \<Rightarrow> req \<Rightarrow> bool" where
  "blocks q k m s \<longleftrightarrow> posted (q s) \<and> on_resource (q s) k \<and>
     (\<not> compatible m (mode (q s)) \<or> \<not> compatible m (convertMode (q s)))"

lemma blocks_migrate_all:
  assumes ok: "table_ok H P q" and b: "blocks (migrate_all P k q) k m s"
  shows "blocks q k m s"
proof (cases "inParts P k s")
  case True
  then obtain p gl where "P p k = Some gl" "s \<in> set gl" by (auto simp: inParts_def)
  then have "part_req_ok q p k s" using parts_okD [OF table_okD(2) [OF ok]] by blast
  with b True show ?thesis
    by (auto simp: blocks_def migrate_all_def migrated_def posted_def on_resource_def part_req_ok_def)
next
  case False
  with b show ?thesis by (simp add: blocks_def migrate_all_def)
qed

lemma migrate_all_cases:
  assumes "table_ok H P q"
  shows "migrate_all P k q s = q s \<or> migrate_all P k q s = migrated k (q s) \<and> on_resource (q s) k \<and> posted (q s)"
proof (cases "inParts P k s")
  case True
  then obtain p gl where "P p k = Some gl" "s \<in> set gl" by (auto simp: inParts_def)
  then have "part_req_ok q p k s" "linked H P s"
    using parts_okD [OF table_okD(2) [OF assms]] unfolding linked_def by blast+
  moreover from this(2) have "posted (q s)" using table_okD(3) [OF assms] by simp
  ultimately show ?thesis using True by (simp add: migrate_all_def on_resource_def part_req_ok_def)
qed (simp add: migrate_all_def)

lemma must_wait_blocks:
  assumes "must_wait q m h" "table_ok H P q" "H k = Some h"
  shows "\<exists>s. blocks q k m s"
proof -
  obtain s where s: "s \<in> onHead h" "\<not> compatible m (mode (q s)) \<or> \<not> compatible m (convertMode (q s))"
    using assms(1) unfolding must_wait_def by blast
  have "posted (q s)" using table_okD(3) [OF assms(2), of s] assms(3) s(1) unfolding linked_def by blast
  moreover have "on_resource (q s) k"
    using onHead_lockPtr [OF table_okD(1) [OF assms(2)] assms(3) s(1)] by (simp add: on_resource_def)
  ultimately show ?thesis using s(2) unfolding blocks_def by blast
qed

lemma lock_slow_path:
  assumes ok: "table_ok H P q" and h: "H k = Some h"
    and r: "\<not> posted (q r)" "mode (q r) \<noteq> MODE_NONE" "convertMode (q r) = MODE_NONE"
      "partitionedLock (q r) = None" "0 < recursiveCount (q r)"
  shows "\<exists>P1 q2 h1 res q4 h2. migrateIfPartitioned P q h = Some (P1, q2, h1) \<and>
      newRequest r (q2(r := (q2 r)\<lparr>partitioned := False\<rparr>)) h1 = Some (res, q4, h2) \<and>
      table_ok (H(k \<mapsto> h2)) P1 q4 \<and> q2 = migrate_all P k q \<and>
      (\<exists>st. q4 = q2(r := (q r)\<lparr>partitioned := False, lockPtr := Some k, status := st\<rparr>) \<and>
        (res = LOCK_OK \<and> st = STATUS_GRANTED \<or> res = LOCK_WAITING \<and> st = STATUS_WAITING)) \<and>
      (res = LOCK_WAITING \<longrightarrow> (\<exists>s. s \<noteq> r \<and> blocks q k (mode (q r)) s))"
proof -
  let ?P = "drop_parts k P" and ?q = "migrate_all P k q"
  obtain h1 where h1: "migrateIfPartitioned P q h = Some (?P, ?q, h1)"
    "table_ok (H(k \<mapsto> h1)) ?P ?q" "partitions h1 = []" "resourceId h1 = k"
    "onHead h1 = onHead h \<union> {r. inParts P k r}"
    using migrateIfPartitioned_ok [OF ok h] by blast
  have "\<not> linked H P r" using table_okD(3) [OF ok] r(1) by simp
  then have np: "\<not> inParts P k r" by (auto simp: inParts_def linked_def)
  then have qr: "?q r = q r" by (simp add: migrate_all_def)
  define q3 where "q3 = ?q(r := (q r)\<lparr>partitioned := False\<rparr>)"
  have ok3: "table_ok (H(k \<mapsto> h1)) ?P q3"
    unfolding q3_def using r(1) qr by (intro table_upd_unposted [OF h1(2)]) (simp_all add: posted_def)
  have hk: "(H(k \<mapsto> h1)) k = Some h1" by simp
  have hok: "head_ok q3 h1" using heads_okD [OF table_okD(1) [OF ok3] hk] by simp
  have np3: "\<not> posted (q3 r)" using r(1) by (simp add: q3_def posted_def)
  have nl3: "\<not> linked (H(k \<mapsto> h1)) ?P r" using table_okD(3) [OF ok3] np3 by simp
  then have fresh: "r \<notin> onHead h1" using hk unfolding linked_def by blast
  have m: "mode (q3 r) \<noteq> MODE_NONE" "convertMode (q3 r) = MODE_NONE" "partitionedLock (q3 r) = None"
    using r by (simp_all add: q3_def)
  obtain res st h2 where run: "newRequest r q3 h1 =
        Some (res, q3(r := (q3 r)\<lparr>lockPtr := Some k, status := st\<rparr>), h2)"
      "head_ok (q3(r := (q3 r)\<lparr>lockPtr := Some k, status := st\<rparr>)) h2" "onHead h2 = insert r (onHead h1)"
      "resourceId h2 = k" "partitions h2 = []"
      "res = LOCK_OK \<and> st = STATUS_GRANTED \<or> res = LOCK_WAITING \<and> st = STATUS_WAITING"
      "res = LOCK_WAITING \<longrightarrow> must_wait q3 (mode (q3 r)) h1"
  proof (cases "must_wait q3 (mode (q3 r)) h1")
    case True
    obtain h' where n: "newRequest r q3 h1 =
          Some (LOCK_WAITING, q3(r := (q3 r)\<lparr>lockPtr := Some (resourceId h1), status := STATUS_WAITING\<rparr>), h')"
      "head_ok (q3(r := (q3 r)\<lparr>lockPtr := Some (resourceId h1), status := STATUS_WAITING\<rparr>)) h'"
      "grantedList h' = grantedList h1"
      "conflictList h' = (if enqueueAtFront (q3 r) then r # conflictList h1 else conflictList h1 @ [r])"
      "resourceId h' = resourceId h1" "partitions h' = partitions h1"
      using newRequest_queued [OF hok fresh m True] by blast
    show ?thesis by (rule that [of LOCK_WAITING STATUS_WAITING h']) (use n True h1(3,4) in auto)
  next
    case False
    show ?thesis using that newRequest_granted [OF hok fresh m False] h1(3,4) by fastforce
  qed
  have blk: "\<exists>s. s \<noteq> r \<and> blocks q k (mode (q r)) s" if w: "res = LOCK_WAITING"
  proof -
    obtain s where s: "blocks q3 k (mode (q3 r)) s"
      using must_wait_blocks [OF _ ok3 hk] run(7) w by blast
    then have "s \<noteq> r" using np3 by (auto simp: blocks_def)
    with s have "blocks ?q k (mode (q r)) s" by (simp add: q3_def blocks_def)
    with \<open>s \<noteq> r\<close> show ?thesis using blocks_migrate_all [OF ok] by blast
  qed
  let ?q4 = "q3(r := (q3 r)\<lparr>lockPtr := Some k, status := st\<rparr>)"
  have posted4: "posted (?q4 r)" using r(5) run(6) by (auto simp: posted_def q3_def)
  have "table_ok (H(k \<mapsto> h1, k \<mapsto> h2)) ?P ?q4"
  proof (rule table_update [OF ok3, of k h1 r])
    show "x \<in> onHead h2 \<longleftrightarrow> (x \<in> onHead h1 \<or> x = r) \<and> posted (?q4 x)" for x
      using run(3) posted4 table_okD(3) [OF ok3, of x] hk by (cases "x = r") (auto simp: linked_def)
  qed (use nl3 run h1 hk in auto)
  then show ?thesis
    using h1(1) run(1,6) qr blk
    by (intro exI [of _ ?P] exI [of _ ?q] exI [of _ h1] exI [of _ res] exI [of _ ?q4] exI [of _ h2])
      (auto simp: q3_def)
qed


lemma lm_okD:
  assumes "lm_ok lm"
  shows "buckets_ok lm" "table_ok (heads lm) (partitionTable lm) (requestStore lm)"
    "counts_ok (requestStore lm)"
  using assms by (simp_all add: lm_ok_def)

text \<open>What an operation that posts or converts \<open>r\<close> may do to the other requests: move them from
  the partitions to the lock head.\<close>

definition others_migrated :: "req \<Rightarrow> ResourceId \<Rightarrow> store \<Rightarrow> store \<Rightarrow> bool" where
  "others_migrated r k q q' \<longleftrightarrow>
     (\<forall>s. s \<noteq> r \<longrightarrow> q' s = q s \<or> q' s = migrated k (q s) \<and> on_resource (q s) k \<and> posted (q s))"

definition lock_outcome :: "LockResult \<Rightarrow> Status \<Rightarrow> bool" where
  "lock_outcome res st \<longleftrightarrow>
     res = LOCK_OK \<and> st = STATUS_GRANTED \<or> res = LOCK_WAITING \<and> st = STATUS_WAITING"

lemma lock_partitioned_ok:
  assumes ok: "lm_ok lm" and r: "\<not> posted (requestStore lm r)" and m: "m \<in> {MODE_IS, MODE_IX}"
    and fr: "fresh_request (requestStore lm r)"
    and h: "heads lm k = Some h \<or> heads lm k = None \<and> h = LockHead_initNew k"
    and io: "intent_only (requestStore lm) h" and ps: "set ps = insert p (set (partitions h))"
  defines "gl \<equiv> findOrInsertPartitioned k p (partitionTable lm)"
  defines "q2 \<equiv> (requestStore lm)(r := (requestStore lm r)\<lparr>partitioned := True, mode := m,
      partitionedLock := Some (p, k), status := STATUS_GRANTED\<rparr>)"
  defines "P2 \<equiv> (partitionTable lm)(p := (partitionTable lm p)(k \<mapsto> gl @ [r]))"
  shows "table_ok ((heads lm)(k \<mapsto> h\<lparr>partitions := ps\<rparr>)) P2 q2 \<and> counts_ok q2"
proof
  show "table_ok ((heads lm)(k \<mapsto> h\<lparr>partitions := ps\<rparr>)) P2 q2"
    unfolding q2_def P2_def using fr m
    by (intro table_join_partition [OF lm_okD(2) [OF ok] h r io ps])
      (auto simp: gl_def findOrInsertPartitioned_def part_req_ok_def posted_def fresh_request_def)
  show "counts_ok q2"
    unfolding q2_def by (rule counts_ok_upd [OF lm_okD(3) [OF ok]]) simp_all
qed

lemma LockManager_lock_ok:
  assumes ok: "lm_ok lm" and fr: "fresh_request (requestStore lm r)" and m: "m \<noteq> MODE_NONE"
  shows "\<exists>res lm'. LockManager_lock k r m lm = Some (res, lm') \<and> lm_ok lm' \<and>
      others_migrated r k (requestStore lm) (requestStore lm') \<and>
      lock_outcome res (status (requestStore lm' r)) \<and> mode (requestStore lm' r) = m \<and>
      recursiveCount (requestStore lm' r) = 1 \<and> convertMode (requestStore lm' r) = MODE_NONE \<and>
      notifications lm' = notifications lm \<and> on_resource (requestStore lm' r) k \<and>
      (res = LOCK_WAITING \<longrightarrow> (\<exists>s. s \<noteq> r \<and> blocks (requestStore lm) k m s))"
proof -
  let ?q = "requestStore lm" and ?P = "partitionTable lm"
  define q1 where "q1 = ?q(r := (?q r)\<lparr>partitioned := (m = MODE_IX \<or> m = MODE_IS), mode := m\<rparr>)"
  define p where "p = getPartition (q1 r)"
  define h where "h = findOrInsertHead k lm"
  note T = lm_okD(2) [OF ok]
  have np: "\<not> posted (?q r)" using not_posted_fresh [OF fr] .
  have fr': "status (?q r) = STATUS_NEW" "recursiveCount (?q r) = 1" "lockPtr (?q r) = None"
    "convertMode (?q r) = MODE_NONE" "partitionedLock (?q r) = None"
    using fr by (auto simp: fresh_request_def)
  have h: "heads lm k = Some h \<or> heads lm k = None \<and> h = LockHead_initNew k"
    by (auto simp: h_def findOrInsertHead_def findHead_heads split: option.splits)
  have q1r: "lockPtr (q1 r) = None" "recursiveCount (q1 r) = 1" "mode (q1 r) = m"
    "convertMode (q1 r) = MODE_NONE"
    using fr' by (simp_all add: q1_def)
  have q1o: "s \<noteq> r \<Longrightarrow> q1 s = ?q s" for s by (simp add: q1_def)
  have np1: "\<not> posted (q1 r)" using np by (simp add: q1_def posted_def)
  have T1: "table_ok (heads lm) ?P q1"
    unfolding q1_def using np by (intro table_upd_unposted [OF T]) (simp_all add: posted_def)
  have T1': "table_ok ((heads lm)(k \<mapsto> h)) ?P q1"
    using h T1 table_insert_head [OF T1] by (auto simp: fun_upd_idem)
  consider (fast) gl where "partitioned (q1 r)" "?P p k = Some gl"
    | (start) "partitioned (q1 r)" "?P p k = None" "grantedModes h AND NOT intentModes = 0 \<and> conflictModes h = 0"
    | (slow) "\<not> partitioned (q1 r) \<or> ?P p k = None"
        "\<not> (partitioned (q1 r) \<and> grantedModes h AND NOT intentModes = 0 \<and> conflictModes h = 0)"
    by (cases "?P p k") auto
  then show ?thesis
  proof cases
    case fast
    then have m': "m \<in> {MODE_IS, MODE_IX}" by (auto simp: q1_def)
    obtain h' where h': "heads lm k = Some h'" "p \<in> set (partitions h')"
      using parts_okD [OF table_okD(2) [OF T] fast(2)] by blast
    then have "intent_only ?q h'" using heads_okD [OF table_okD(1) [OF T] h'(1)] by force
    note join = lock_partitioned_ok [OF ok np m' fr _ this, of k "partitions h'" p]
    have "(heads lm)(k \<mapsto> h'\<lparr>partitions := partitions h'\<rparr>) = heads lm"
      using h'(1) by (auto simp: fun_eq_iff)
    with join h' have "table_ok (heads lm) (?P(p := (?P p)(k \<mapsto> gl @ [r]))) (q1(r := (q1 r)\<lparr>partitionedLock := Some (p, k), status := STATUS_GRANTED\<rparr>))"
       "counts_ok (q1(r := (q1 r)\<lparr>partitionedLock := Some (p, k), status := STATUS_GRANTED\<rparr>))"
      using m' fast by (auto simp: findOrInsertPartitioned_def q1_def)
    moreover have "LockManager_lock k r m lm = Some (LOCK_OK, lm\<lparr>requestStore :=
        q1(r := (q1 r)\<lparr>partitionedLock := Some (p, k), status := STATUS_GRANTED\<rparr>),
        partitionTable := ?P(p := (?P p)(k \<mapsto> gl @ [r]))\<rparr>)"
      using fast fr' q1r unfolding LockManager_lock_def Let_def q1_def [symmetric] p_def [symmetric]
      by (simp add: PartitionedLockHead_newRequest_def)
    ultimately show ?thesis
      using lm_okD(1) [OF ok] q1r q1o
      by (simp add: lm_ok_def others_migrated_def lock_outcome_def on_resource_def)
  next
    case start
    then have m': "m \<in> {MODE_IS, MODE_IX}" by (auto simp: q1_def)
    have "r \<notin> onHead h"
      using h table_okD(3) [OF T, of r] np by (auto simp: linked_def)
    moreover have "head_ok ?q h"
      using h heads_okD [OF table_okD(1) [OF T], of k h] head_ok_initNew by auto
    ultimately have "intent_only ?q h" using start(3) intent_only_masks by blast
    note join = lock_partitioned_ok [OF ok np m' fr h this, of "partitions h @ [p]" p]
    then have "table_ok ((heads lm)(k \<mapsto> h\<lparr>partitions := partitions h @ [p]\<rparr>)) (?P(p := (?P p)(k \<mapsto> [r])))
        (q1(r := (q1 r)\<lparr>partitionedLock := Some (p, k), status := STATUS_GRANTED\<rparr>))"
       "counts_ok (q1(r := (q1 r)\<lparr>partitionedLock := Some (p, k), status := STATUS_GRANTED\<rparr>))"
      using m' start by (auto simp: findOrInsertPartitioned_def q1_def)
    moreover have "LockManager_lock k r m lm = Some (LOCK_OK, putHead k (h\<lparr>partitions := partitions h @ [p]\<rparr>)
        (lm\<lparr>requestStore := q1(r := (q1 r)\<lparr>partitionedLock := Some (p, k), status := STATUS_GRANTED\<rparr>),
        partitionTable := ?P(p := (?P p)(k \<mapsto> [r]))\<rparr>))"
      using start fr' q1r
      unfolding LockManager_lock_def Let_def q1_def [symmetric] p_def [symmetric] h_def [symmetric]
      by (simp add: PartitionedLockHead_newRequest_def findOrInsertPartitioned_def)
    ultimately show ?thesis
      using lm_okD(1) [OF ok] q1r q1o
      by (simp add: lm_ok_def others_migrated_def lock_outcome_def on_resource_def)
  next
    case slow
    have pre: "mode (q1 r) \<noteq> MODE_NONE" "convertMode (q1 r) = MODE_NONE" "partitionedLock (q1 r) = None"
      "0 < recursiveCount (q1 r)"
      using fr' m by (simp_all add: q1_def)
    have hk: "((heads lm)(k \<mapsto> h)) k = Some h" by simp
    obtain P1 q2 h1 res q4 h2 st where run: "migrateIfPartitioned ?P q1 h = Some (P1, q2, h1)"
      "newRequest r (q2(r := (q2 r)\<lparr>partitioned := False\<rparr>)) h1 = Some (res, q4, h2)"
      "table_ok ((heads lm)(k \<mapsto> h, k \<mapsto> h2)) P1 q4" "q2 = migrate_all ?P k q1"
      "q4 = q2(r := (q1 r)\<lparr>partitioned := False, lockPtr := Some k, status := st\<rparr>)" "lock_outcome res st"
      "res = LOCK_WAITING \<longrightarrow> (\<exists>s. s \<noteq> r \<and> blocks q1 k (mode (q1 r)) s)"
      using lock_slow_path [OF T1' hk np1 pre] unfolding lock_outcome_def by blast
    have blk: "res = LOCK_WAITING \<longrightarrow> (\<exists>s. s \<noteq> r \<and> blocks ?q k m s)"
      using run(7) q1o unfolding blocks_def q1r(3) by metis
    have "counts_ok q1" unfolding q1_def
      by (rule counts_ok_upd [OF lm_okD(3) [OF ok]]) (use np in \<open>auto simp: posted_def\<close>)
    then have c: "counts_ok q4"
      unfolding run(5) using run(4,6) pre fr'
      by (intro counts_ok_upd) (auto simp: counts_ok_migrate lock_outcome_def q1_def)
    have om: "others_migrated r k ?q q4"
      using migrate_all_cases [OF T1, of k] q1o unfolding others_migrated_def run(5) run(4) by (metis fun_upd_other)
    have lm: "LockManager_lock k r m lm =
        Some (res, putHead k h2 (lm\<lparr>requestStore := q4, partitionTable := P1\<rparr>))"
      using slow fr' run(1,2)
      unfolding LockManager_lock_def Let_def q1_def [symmetric] p_def [symmetric] h_def [symmetric]
      by (cases "partitioned (q1 r)") auto
    have "lm_ok (putHead k h2 (lm\<lparr>requestStore := q4, partitionTable := P1\<rparr>))"
      using run(3) c lm_okD(1) [OF ok] by (simp add: lm_ok_def)
    with lm om run(5,6) fr' blk show ?thesis by (simp add: q1_def on_resource_def)
  qed
qed

end
