(* ===== verification/LockManagerSteps.thy ===== *)
theory LockManagerSteps
  imports LockManagerOps
begin

text \<open>
  The operations on requests that are already posted, \<open>convert\<close>, \<open>unlock\<close> and
  \<open>downgrade\<close>, and \<open>cleanupUnusedLocks\<close> keep the invariant of the lock manager.
\<close>

lemma table_recount:
  assumes ok: "table_ok H P q" and r: "posted (q r)" and n: "0 < n"
  shows "table_ok H P (q(r := (q r)\<lparr>recursiveCount := n\<rparr>))"
proof -
  let ?q = "q(r := (q r)\<lparr>recursiveCount := n\<rparr>)"
  note Ho = table_okD(1) [OF ok] and Po = table_okD(2) [OF ok] and L = table_okD(3) [OF ok]
  have e: "mode (?q x) = mode (q x)" "convertMode (?q x) = convertMode (q x)" "status (?q x) = status (q x)"
    "compatibleFirst (?q x) = compatibleFirst (q x)" "lockPtr (?q x) = lockPtr (q x)"
    "partitionedLock (?q x) = partitionedLock (q x)" "partitioned (?q x) = partitioned (q x)" for x
    by simp_all
  have "head_ok ?q h \<longleftrightarrow> head_ok q h" for h by (rule head_ok_cong) (simp only: e simp_thms)
  moreover have "intent_only ?q h \<longleftrightarrow> intent_only q h" for h by (simp only: intent_only_def e)
  moreover have "part_req_ok ?q p k x \<longleftrightarrow> part_req_ok q p k x" for p k x by (simp only: part_req_ok_def e)
  moreover have "posted (?q x) \<longleftrightarrow> posted (q x)" for x using r n by (simp add: posted_def)
  ultimately show ?thesis
    using ok unfolding table_ok_def heads_ok_def parts_ok_def by (simp del: fun_upd_apply)
qed

text \<open>Where a posted request is linked.\<close>

lemma posted_linked:
  assumes ok: "table_ok H P q" and r: "posted (q r)"
  shows "(\<exists>k h. H k = Some h \<and> r \<in> onHead h \<and> lockPtr (q r) = Some k \<and> partitionedLock (q r) = None) \<or>
    (\<exists>p k gl. P p k = Some gl \<and> r \<in> set gl \<and> lockPtr (q r) = None \<and> part_req_ok q p k r)"
proof -
  note Ho = table_okD(1) [OF ok] and Po = table_okD(2) [OF ok]
  have "linked H P r" using table_okD(3) [OF ok] r by simp
  then show ?thesis
    using onHead_lockPtr [OF Ho] inPart_ptr [OF Po] parts_okD [OF Po] unfolding linked_def by metis
qed

lemma status_granted_queue:
  "head_ok q h \<Longrightarrow> r \<in> onHead h \<Longrightarrow> status (q r) \<noteq> STATUS_WAITING \<Longrightarrow> r \<in> set (grantedList h)"
  using head_ok_waiting [of q h r] by (auto simp: waiting_ok_def)

lemma covered_compatible: "isModeCovered a b \<Longrightarrow> compatible b c \<Longrightarrow> compatible a c"
  by (simp add: isModeCovered_iff)

subsection \<open>convert\<close>

definition convert_outcome :: "LockResult \<Rightarrow> LockMode \<Rightarrow> LockRequest \<Rightarrow> LockRequest \<Rightarrow> bool" where
  "convert_outcome res n x y \<longleftrightarrow> recursiveCount y = recursiveCount x + 1 \<and>
     (res = LOCK_OK \<and> status y = STATUS_GRANTED \<and> convertMode y = MODE_NONE \<and>
        mode y = (if isModeCovered n (mode x) then mode x else n) \<or>
      res = LOCK_WAITING \<and> status y = STATUS_CONVERTING \<and> mode y = mode x \<and> convertMode y = n)"

lemma convert_on_head:
  assumes ok: "table_ok H P q" and h: "H k = Some h" and r: "r \<in> onHead h" "status (q r) = STATUS_GRANTED"
    and up: "isModeCovered (mode (q r)) n" "n \<noteq> mode (q r)" "n \<noteq> MODE_NONE"
    and ps: "partitions h = []"
  defines "w \<equiv> conflicts n (maskWithoutHeld (grantedCounts h) (mode (q r)) modes_from_1 0)"
  defines "q3 \<equiv> (if w then q(r := (q r)\<lparr>status := STATUS_CONVERTING, convertMode := n\<rparr>)
                     else q(r := (q r)\<lparr>mode := n\<rparr>))"
  shows "\<exists>h3. table_ok (H(k \<mapsto> h3)) P q3 \<and>
     (if w then incGrantedModeCount n (h\<lparr>conversionsCount := conversionsCount h + 1\<rparr>) = Some h3
      else \<exists>h2. incGrantedModeCount n h = Some h2 \<and> decGrantedModeCount (mode (q r)) h2 = Some h3)"
proof -
  have hok: "resourceId h = k" "head_ok q h"
    using heads_okD [OF table_okD(1) [OF ok] h] by auto
  have rg: "r \<in> set (grantedList h)" using status_granted_queue [OF hok(2) r(1)] r(2) by simp
  have cm: "convertMode (q r) = MODE_NONE" using head_ok_granted [OF hok(2) rg] r(2) by (auto simp: granted_ok_def)
  have "\<exists>h3. head_ok q3 h3 \<and> relinked q h q3 h3 \<and> onHead h3 = onHead h \<and>
     (if w then incGrantedModeCount n (h\<lparr>conversionsCount := conversionsCount h + 1\<rparr>) = Some h3
      else \<exists>h2. incGrantedModeCount n h = Some h2 \<and> decGrantedModeCount (mode (q r)) h2 = Some h3)"
  proof (cases w)
    case True
    then show ?thesis
      using start_conversion_ok [OF hok(2) rg r(2) up(3,2,1)] unfolding q3_def by auto
  next
    case False
    then have "compatible n (mode (q s))" if "s \<in> set (grantedList h)" "s \<noteq> r" for s
      using convert_conflict_iff [OF hok(2) rg cm] that unfolding w_def by auto
    with False show ?thesis
      using remode_ok [OF hok(2) rg r(2) up(3)] unfolding q3_def by auto
  qed
  then obtain h3 where h3: "head_ok q3 h3" "relinked q h q3 h3" "onHead h3 = onHead h"
     "if w then incGrantedModeCount n (h\<lparr>conversionsCount := conversionsCount h + 1\<rparr>) = Some h3
      else \<exists>h2. incGrantedModeCount n h = Some h2 \<and> decGrantedModeCount (mode (q r)) h2 = Some h3"
    by blast
  have pe: "posted (q3 x) \<longleftrightarrow> posted (q x)" for x using r(2) by (auto simp: q3_def posted_def)
  have "table_ok (H(k \<mapsto> h3)) P q3"
  proof (rule table_update [OF ok, of k h r])
    show "x \<in> onHead h3 \<longleftrightarrow> (x \<in> onHead h \<or> x = r) \<and> posted (q3 x)" for x
      using h3(3) pe [of x] r(1) table_okD(3) [OF ok, of x] h by (auto simp: linked_def)
    show "q3 x = q x" if "x \<notin> onHead h" "x \<noteq> r" for x using that by (simp add: q3_def)
  qed (use h r h3 hok ps in \<open>auto simp: relinked_def\<close>)
  with h3(4) show ?thesis by blast
qed

lemma granted_on_resource:
  assumes ok: "table_ok H P q" and r: "posted (q r)" "status (q r) = STATUS_GRANTED" "on_resource (q r) k"
  shows "convertMode (q r) = MODE_NONE \<and> (\<exists>h. H k = Some h \<and> (r \<in> onHead h \<or> inParts P k r))"
  using posted_linked [OF ok r(1)]
proof (elim disjE exE conjE)
  fix k' h assume h: "H k' = Some h" "r \<in> onHead h" "lockPtr (q r) = Some k'"
  have hok: "head_ok q h" using heads_okD [OF table_okD(1) [OF ok] h(1)] by simp
  have "r \<in> set (grantedList h)" by (rule status_granted_queue [OF hok h(2)]) (simp add: r(2))
  then have "granted_ok q r" using head_ok_granted [OF hok] by simp
  then have "convertMode (q r) = MODE_NONE" using r(2) by (auto simp: granted_ok_def)
  moreover have "k' = k" using h(3) r(3) by (simp add: on_resource_def)
  ultimately show ?thesis using h(1,2) by blast
next
  fix p k' gl assume gl: "P p k' = Some gl" "r \<in> set gl" "lockPtr (q r) = None" "part_req_ok q p k' r"
  with r have "k' = k" by (auto simp: on_resource_def part_req_ok_def)
  with gl parts_okD [OF table_okD(2) [OF ok] gl(1)] show ?thesis
    by (auto simp: part_req_ok_def inParts_def)
qed

lemma LockManager_convert_ok:
  assumes ok: "lm_ok lm" and r: "posted (requestStore lm r)" "status (requestStore lm r) = STATUS_GRANTED"
    and k: "on_resource (requestStore lm r) k" and n: "n \<noteq> MODE_NONE"
    and cmp: "isModeCovered n (mode (requestStore lm r)) \<or> isModeCovered (mode (requestStore lm r)) n"
  shows "\<exists>res lm'. LockManager_convert k r n lm = Some (res, lm') \<and> lm_ok lm' \<and>
      others_migrated r k (requestStore lm) (requestStore lm') \<and>
      convert_outcome res n (requestStore lm r) (requestStore lm' r) \<and>
      notifications lm' = notifications lm"
proof -
  let ?q = "requestStore lm" and ?P = "partitionTable lm"
  note T = lm_okD(2) [OF ok]
  define q1 where "q1 = ?q(r := (?q r)\<lparr>recursiveCount := recursiveCount (?q r) + 1\<rparr>)"
  have T1: "table_ok (heads lm) ?P q1"
    unfolding q1_def by (rule table_recount [OF T r(1)]) simp
  have pos: "0 < recursiveCount (?q r)" using r(1) by (simp add: posted_def)
  have q1r: "status (q1 r) = STATUS_GRANTED" "mode (q1 r) = mode (?q r)" "convertMode (q1 r) = convertMode (?q r)"
    "recursiveCount (q1 r) = recursiveCount (?q r) + 1" using r(2) by (simp_all add: q1_def)
  have C1: "counts_ok q1"
    unfolding q1_def by (rule counts_ok_upd [OF lm_okD(3) [OF ok]]) (use r(2) in simp_all)
  obtain h where h: "heads lm k = Some h" "r \<in> onHead h \<or> inParts ?P k r"
    and cm: "convertMode (?q r) = MODE_NONE"
    using granted_on_resource [OF T r k] by blast
  show ?thesis
  proof (cases "isModeCovered n (mode (?q r))")
    case True
    then have "LockManager_convert k r n lm = Some (LOCK_OK, lm\<lparr>requestStore := q1\<rparr>)"
      using r pos unfolding LockManager_convert_def Let_def q1_def [symmetric] by (simp add: isModeCovered_def q1r)
    with True T1 C1 lm_okD(1) [OF ok] show ?thesis
      using q1r cm by (simp add: lm_ok_def others_migrated_def convert_outcome_def) (simp add: q1_def)
  next
    case False
    with cmp have up: "isModeCovered (mode (?q r)) n" "n \<noteq> mode (?q r)" by auto
    let ?P1 = "drop_parts k ?P" and ?q2 = "migrate_all ?P k q1"
    obtain h1 where h1: "migrateIfPartitioned ?P q1 h = Some (?P1, ?q2, h1)"
      "table_ok ((heads lm)(k \<mapsto> h1)) ?P1 ?q2" "partitions h1 = []" "onHead h1 = onHead h \<union> {r. inParts ?P k r}"
      using migrateIfPartitioned_ok [OF T1 h(1)] by blast
    have q2r: "status (?q2 r) = STATUS_GRANTED" "mode (?q2 r) = mode (?q r)" "convertMode (?q2 r) = MODE_NONE"
      "recursiveCount (?q2 r) = recursiveCount (?q r) + 1"
      using q1r cm by (simp_all add: migrate_all_def migrated_def)
    have hk: "((heads lm)(k \<mapsto> h1)) k = Some h1" and rh: "r \<in> onHead h1" using h(2) h1(4) by auto
    have up2: "isModeCovered (mode (?q2 r)) n" "n \<noteq> mode (?q2 r)" using up q2r(2) by auto
    define w where "w = conflicts n (maskWithoutHeld (grantedCounts h1) (mode (?q2 r)) modes_from_1 0)"
    define q3 where "q3 = (if w then ?q2(r := (?q2 r)\<lparr>status := STATUS_CONVERTING, convertMode := n\<rparr>)
                     else ?q2(r := (?q2 r)\<lparr>mode := n\<rparr>))"
    obtain h3 where h3: "table_ok ((heads lm)(k \<mapsto> h1, k \<mapsto> h3)) ?P1 q3"
      "if w then incGrantedModeCount n (h1\<lparr>conversionsCount := conversionsCount h1 + 1\<rparr>) = Some h3
       else \<exists>h2. incGrantedModeCount n h1 = Some h2 \<and> decGrantedModeCount (mode (?q2 r)) h2 = Some h3"
      using convert_on_head [OF h1(2) hk rh q2r(1) up2 n h1(3)] unfolding w_def q3_def by blast
    have run: "LockManager_convert k r n lm =
        Some (if w then LOCK_WAITING else LOCK_OK, putHead k h3 (lm\<lparr>requestStore := q3, partitionTable := ?P1\<rparr>))"
      using r pos False up h(1) h1(1) h3(2) q1r(2) w_def
      unfolding LockManager_convert_def Let_def q1_def [symmetric] findHead_heads
      by (auto simp: isModeCovered_def q3_def ac_simps split: if_splits)
    have "counts_ok q3"
      using counts_ok_migrate [OF C1, of ?P k] q2r pos unfolding q3_def by (auto intro!: counts_ok_upd)
    then have "lm_ok (putHead k h3 (lm\<lparr>requestStore := q3, partitionTable := ?P1\<rparr>))"
      using h3(1) lm_okD(1) [OF ok] by (simp add: lm_ok_def)
    moreover have "others_migrated r k ?q q3"
      unfolding others_migrated_def
    proof (intro allI impI)
      fix s assume "s \<noteq> r"
      then have "q3 s = ?q2 s" "q1 s = ?q s" by (simp_all add: q3_def q1_def)
      then show "q3 s = ?q s \<or> q3 s = migrated k (?q s) \<and> on_resource (?q s) k \<and> posted (?q s)"
        using migrate_all_cases [OF T1, of k s] by simp
    qed
    moreover have "convert_outcome (if w then LOCK_WAITING else LOCK_OK) n (?q r) (q3 r)"
      using q2r False by (simp add: convert_outcome_def q3_def)
    ultimately show ?thesis using run by simp
  qed
qed


subsection \<open>unlock\<close>

lemma intent_only_grants:
  assumes g: "grants q h0 l q' h' l'" and ok: "head_ok q' h'" and cl: "conflictList h0 = []"
    and gl: "\<And>x. x \<in> set (grantedList h0) \<Longrightarrow> mode (q x) \<in> {MODE_IS, MODE_IX} \<and>
        convertMode (q x) \<in> {MODE_NONE, MODE_IS, MODE_IX} \<and> granted_ok q x"
  shows "intent_only q' h'"
proof -
  have sub: "set (grantedList h0) \<subseteq> set (grantedList h')" using g unfolding grants_def by blast
  have "onHead h' = onHead h0" using g unfolding grants_def by (elim conjE)
  with cl have un: "onHead h' = set (grantedList h0)" by simp
  then have "set (conflictList h') \<subseteq> set (grantedList h')" using sub by (metis Un_upper2 subset_trans)
  then have "set (conflictList h') = {}" using head_okD(6) [OF ok] Int_absorb1 by metis
  moreover have "mode (q' x) \<in> {MODE_IS, MODE_IX} \<and> convertMode (q' x) \<in> {MODE_NONE, MODE_IS, MODE_IX}"
    if "x \<in> set (grantedList h')" for x
  proof -
    have x: "x \<in> set (grantedList h0)" using that un by blast
    show ?thesis
      using grantsD(4) [OF g, of x] gl [OF x] unfolding granted_from_def
      by (elim disjE conjE) (auto simp: granted_ok_def)
  qed
  ultimately show ?thesis by (simp add: intent_only_def)
qed

lemma intent_only_members:
  assumes "intent_only q h" "head_ok q h" "x \<in> set (grantedList h)"
  shows "mode (q x) \<in> {MODE_IS, MODE_IX} \<and> convertMode (q x) \<in> {MODE_NONE, MODE_IS, MODE_IX} \<and> granted_ok q x"
  using assms head_ok_granted [OF assms(2,3)] by (simp add: intent_only_def)

text \<open>What \<open>unlock\<close> does to its own request, and to the others on the same head.\<close>

definition unlock_outcome :: "req \<Rightarrow> store \<Rightarrow> store \<Rightarrow> bool" where
  "unlock_outcome r q q' \<longleftrightarrow>
     (\<forall>s. s \<noteq> r \<longrightarrow> granted_from (q s) (q' s)) \<and>
     q' r = (if status (q r) = STATUS_CONVERTING
             then (q r)\<lparr>recursiveCount := recursiveCount (q r) - 1, status := STATUS_GRANTED, convertMode := MODE_NONE\<rparr>
             else (q r)\<lparr>recursiveCount := recursiveCount (q r) - 1\<rparr>)"

text \<open>The notifications appended by a step: one for each other request it granted.\<close>

definition notified :: "req \<Rightarrow> store \<Rightarrow> store \<Rightarrow> notification list \<Rightarrow> notification list \<Rightarrow> bool" where
  "notified r q q' l l' \<longleftrightarrow> (\<exists>k ns. l' = l @ map (\<lambda>s. (s, k, LOCK_OK)) ns \<and> distinct ns \<and>
     set ns = {s. s \<noteq> r \<and> status (q s) \<noteq> STATUS_GRANTED \<and> status (q' s) = STATUS_GRANTED})"

lemma grants_notified:
  assumes g: "grants q h l q' h' l'" and eq: "\<And>s. s \<noteq> r \<Longrightarrow> q s = q0 s"
    and r: "status (q r) = STATUS_GRANTED \<or> q' r = q r"
  shows "notified r q0 q' l l'"
proof -
  obtain ns where ns: "l' = l @ map (\<lambda>r. (r, resourceId h, LOCK_OK)) ns" "distinct ns"
    "set ns = {r. status (q r) \<noteq> STATUS_GRANTED \<and> status (q' r) = STATUS_GRANTED}"
    using g unfolding grants_def by blast
  have "set ns = {s. s \<noteq> r \<and> status (q0 s) \<noteq> STATUS_GRANTED \<and> status (q' s) = STATUS_GRANTED}"
    unfolding ns(3) using eq r by (metis (lifting))
  with ns show ?thesis unfolding notified_def by blast
qed

text \<open>The request is the last on its lock head to hold or convert to its mode, or it only waits for one.\<close>

definition frees :: "store \<Rightarrow> LockHead \<Rightarrow> req \<Rightarrow> bool" where
  "frees q h r \<longleftrightarrow> (status (q r) = STATUS_GRANTED \<longrightarrow>
     (\<forall>s \<in> set (grantedList h). s \<noteq> r \<longrightarrow> mode (q s) \<noteq> mode (q r) \<and> convertMode (q s) \<noteq> mode (q r)))"

lemma frees_held:
  assumes "frees q h r" "status (q r) = STATUS_GRANTED" "distinct (grantedList h)"
  shows "held q (remove1 r (grantedList h)) (mode (q r)) = 0"
  using assms by (auto simp: frees_def held_def countp_0_iff)

lemma unlock_on_head:
  assumes ok: "table_ok H P q" and C: "counts_ok q" and h: "H k = Some h" and r: "r \<in> onHead h" "posted (q r)"
    and last: "status (q r) = STATUS_GRANTED \<Longrightarrow> recursiveCount (q r) = 1"
  defines "q1 \<equiv> q(r := (q r)\<lparr>recursiveCount := recursiveCount (q r) - 1\<rparr>)"
  shows "\<exists>q' h' l'. unlockHead r q1 h l = Some (q', h', l') \<and> table_ok (H(k \<mapsto> h')) P q' \<and>
     counts_ok q' \<and> unlock_outcome r q q' \<and> notified r q q' l l' \<and>
     (\<forall>s. \<not> posted (q s) \<longrightarrow> q' s = q s) \<and> (frees q h r \<longrightarrow> front_blocked q' h')"
proof -
  have hok: "resourceId h = k" "head_ok q h" and io: "partitions h \<noteq> [] \<Longrightarrow> intent_only q h"
    using heads_okD [OF table_okD(1) [OF ok] h] by auto
  have hok1: "head_ok q1 h" using hok(2) head_ok_cong [of h q1 q] by (simp add: q1_def)
  have io1: "partitions h \<noteq> [] \<Longrightarrow> intent_only q1 h" using io by (simp add: q1_def intent_only_def)
  have q1r: "status (q1 r) = status (q r)" "recursiveCount (q1 r) = recursiveCount (q r) - 1"
    by (simp_all add: q1_def)
  have q1o: "s \<noteq> r \<Longrightarrow> q1 s = q s" for s by (simp add: q1_def)
  have all_posted: "x \<in> onHead h \<Longrightarrow> posted (q x)" for x
    using table_okD(3) [OF ok, of x] h by (auto simp: linked_def)
  let ?q2 = "if status (q r) = STATUS_CONVERTING
    then q1(r := (q1 r)\<lparr>status := STATUS_GRANTED, convertMode := MODE_NONE\<rparr>) else q1"
  have "\<exists>q' h' l' h0. unlockHead r q1 h l = Some (q', h', l') \<and> head_ok q' h' \<and> relinked q1 h q' h' \<and>
     onHead h' = {x \<in> onHead h. x \<noteq> r \<or> status (q r) = STATUS_CONVERTING} \<and> q' r = ?q2 r \<and>
     grants ?q2 h0 l q' h' l' \<and>
     set (grantedList h0) \<subseteq> set (grantedList h) \<and> set (conflictList h0) \<subseteq> set (conflictList h) \<and>
     (frees q h r \<longrightarrow> front_blocked q' h')"
  proof (cases "status (q r)")
    case STATUS_GRANTED
    then have rg: "r \<in> set (grantedList h)" using status_granted_queue [OF hok(2) r(1)] by simp
    obtain q' h' l' h0 where u: "unlockHead r q1 h l = Some (q', h', l')" "head_ok q' h'" "relinked q1 h q' h'"
      "onHead h' = onHead h - {r}" "q' r = q1 r" "grants q1 h0 l q' h' l'"
      "grantedList h0 = remove1 r (grantedList h)" "conflictList h0 = conflictList h"
      "held q1 (remove1 r (grantedList h)) (mode (q1 r)) = 0 \<longrightarrow> front_blocked q' h'"
      using unlockHead_granted [OF hok1 rg, of l] STATUS_GRANTED q1r(1) by auto
    have d: "distinct (grantedList h)" using head_okD(2) [OF hok(2)] by (simp add: reqs_ok_def)
    then have "held q1 (remove1 r (grantedList h)) = held q (remove1 r (grantedList h))" by (simp add: q1_def)
    then have "frees q h r \<longrightarrow> front_blocked q' h'"
      using u(9) frees_held [of q h r] STATUS_GRANTED d q1_def by simp
    then show ?thesis
      using u STATUS_GRANTED set_remove1_subset [of r "grantedList h"]
      by - (rule exI [of _ q'], rule exI [of _ h'], rule exI [of _ l'], rule exI [of _ h0], simp add: set_diff_eq)
  next
    case STATUS_WAITING
    then have rc: "r \<in> set (conflictList h)"
      using r(1) head_ok_granted [OF hok(2), of r] by (auto simp: granted_ok_def)
    have z: "recursiveCount (q1 r) = 0" using C r(2) STATUS_WAITING q1r by (simp add: counts_ok_def)
    obtain q' h' l' h0 where u: "unlockHead r q1 h l = Some (q', h', l')" "head_ok q' h'" "relinked q1 h q' h'"
      "onHead h' = onHead h - {r}" "q' r = q1 r" "grants q1 h0 l q' h' l'"
      "grantedList h0 = grantedList h" "conflictList h0 = remove1 r (conflictList h)" "front_blocked q' h'"
      using unlockHead_waiting [OF hok1 rc z, of l] by blast
    then show ?thesis
      using STATUS_WAITING set_remove1_subset [of r "conflictList h"]
      by - (rule exI [of _ q'], rule exI [of _ h'], rule exI [of _ l'], rule exI [of _ h0], simp add: set_diff_eq)
  next
    case STATUS_CONVERTING
    then have rg: "r \<in> set (grantedList h)" using status_granted_queue [OF hok(2) r(1)] by simp
    have z: "0 < recursiveCount (q1 r)" using C r(2) STATUS_CONVERTING q1r by (force simp: counts_ok_def)
    obtain q' h' l' h0 where u: "unlockHead r q1 h l = Some (q', h', l')" "head_ok q' h'" "relinked q1 h q' h'"
      "onHead h' = onHead h" "q' r = ?q2 r" "grants ?q2 h0 l q' h' l'"
      "grantedList h0 = grantedList h" "conflictList h0 = conflictList h" "front_blocked q' h'"
      using unlockHead_converting [OF hok1 rg _ z, of l] STATUS_CONVERTING q1r(1) by auto
    then show ?thesis
      using STATUS_CONVERTING
      by - (rule exI [of _ q'], rule exI [of _ h'], rule exI [of _ l'], rule exI [of _ h0], auto)
  next
    case STATUS_NEW
    with r(2) show ?thesis by (simp add: posted_def)
  qed
  then obtain q' h' l' h0 where u: "unlockHead r q1 h l = Some (q', h', l')" "head_ok q' h'" "relinked q1 h q' h'"
     "onHead h' = {x \<in> onHead h. x \<noteq> r \<or> status (q r) = STATUS_CONVERTING}" "q' r = ?q2 r"
     "grants ?q2 h0 l q' h' l'" "set (grantedList h0) \<subseteq> set (grantedList h)"
     "set (conflictList h0) \<subseteq> set (conflictList h)" "frees q h r \<longrightarrow> front_blocked q' h'" by blast
  have c: "status (q r) = STATUS_WAITING \<Longrightarrow> recursiveCount (q r) = 1 \<and> \<not> partitioned (q r)"
    "status (q r) = STATUS_CONVERTING \<Longrightarrow> 2 \<le> recursiveCount (q r)"
    using C r(2) by (simp_all add: counts_ok_def)
  have stay: "posted (q' r) \<longleftrightarrow> status (q r) = STATUS_CONVERTING"
    using u(5) last c r(2) q1r by (cases "status (q r)") (auto simp: posted_def)
  have "counts_ok ?q2"
    unfolding q1_def using c by (auto intro!: counts_ok_upd [OF C] simp: posted_def)
  then have C': "counts_ok q'" using counts_ok_grants u(6) by blast
  have pe: "x \<noteq> r \<Longrightarrow> posted (q' x) \<longleftrightarrow> posted (q x)" for x
    using grantsD(4) [OF u(6), of x] q1o [of x]
    by (auto simp: granted_from_def posted_def split: if_splits)
  have T: "table_ok (H(k \<mapsto> h')) P q'"
  proof (rule table_update [OF ok, of k h r])
    show "x \<in> onHead h' \<longleftrightarrow> (x \<in> onHead h \<or> x = r) \<and> posted (q' x)" for x
      using u(4) stay pe [of x] all_posted [of x] r(1) by (cases "x = r") auto
    show "q' x = q x" if "x \<notin> onHead h" "x \<noteq> r" for x
      using that u(3) q1o [of x] by (simp add: relinked_def)
    show "partitions h' \<noteq> [] \<longrightarrow> intent_only q' h'"
    proof
      assume "partitions h' \<noteq> []"
      then have i: "intent_only q1 h" using io1 u(3) by (simp add: relinked_def)
      show "intent_only q' h'"
      proof (rule intent_only_grants [OF u(6,2)])
        show "conflictList h0 = []" using u(8) i by (simp add: intent_only_def)
        fix x assume "x \<in> set (grantedList h0)"
        then have "x \<in> set (grantedList h)" using u(7) by blast
        from intent_only_members [OF i hok1 this]
        show "mode (?q2 x) \<in> {MODE_IS, MODE_IX} \<and> convertMode (?q2 x) \<in> {MODE_NONE, MODE_IS, MODE_IX} \<and>
            granted_ok ?q2 x"
          by (auto simp: granted_ok_def)
      qed
    qed
  qed (use h r u hok in \<open>auto simp: relinked_def\<close>)
  have "unlock_outcome r q q'"
    unfolding unlock_outcome_def
  proof (intro conjI allI impI)
    show "granted_from (q s) (q' s)" if "s \<noteq> r" for s
      using grantsD(4) [OF u(6), of s] q1o [OF that] that by (simp split: if_splits)
  qed (simp add: u(5) q1_def)
  moreover have "notified r q q' l l'"
    by (rule grants_notified [OF u(6)]) (use u(5) in \<open>auto simp: q1_def\<close>)
  moreover have "q' s = q s" if "\<not> posted (q s)" for s
  proof -
    have "s \<notin> onHead h" "s \<noteq> r" using that all_posted r(2) by auto
    then show ?thesis using u(3) q1o by (simp add: relinked_def)
  qed
  ultimately show ?thesis using u(1,9) T C' by blast
qed


lemma unlock_in_partition:
  assumes ok: "table_ok H P q" and r: "P p k = Some gl" "r \<in> set gl" and one: "recursiveCount (q r) = 1"
  defines "q1 \<equiv> q(r := (q r)\<lparr>recursiveCount := 0\<rparr>)"
  shows "table_ok H (P(p := (P p)(k \<mapsto> remove1 r gl))) q1"
proof -
  let ?P = "P(p := (P p)(k \<mapsto> remove1 r gl))"
  note Ho = table_okD(1) [OF ok] and Po = table_okD(2) [OF ok] and L = table_okD(3) [OF ok]
  note gl = parts_okD [OF Po r(1)]
  have ptr: "lockPtr (q r) = None" "partitionedLock (q r) = Some (p, k)" using inPart_ptr [OF Po r] by auto
  have q1o: "s \<noteq> r \<Longrightarrow> q1 s = q s" for s by (simp add: q1_def)
  have notin: "r \<notin> onHead h" if "H k2 = Some h" for k2 h
    using onHead_lockPtr [OF Ho that, of r] ptr by auto
  have "heads_ok H q1"
    unfolding heads_ok_def
  proof (intro allI impI)
    fix k2 h assume h: "H k2 = Some h"
    show "resourceId h = k2 \<and> head_ok q1 h \<and> (partitions h \<noteq> [] \<longrightarrow> intent_only q1 h)"
      using heads_okD [OF Ho h] notin [OF h] by (auto simp: q1_def head_ok_upd_notin intent_only_def)
  qed
  moreover have "parts_ok H ?P q1"
    unfolding parts_ok_def
  proof (intro allI impI)
    fix p2 k2 gl2 assume Pk: "?P p2 k2 = Some gl2"
    show "distinct gl2 \<and> (\<forall>s\<in>set gl2. part_req_ok q1 p2 k2 s) \<and> (\<exists>h. H k2 = Some h \<and> p2 \<in> set (partitions h))"
    proof (cases "p2 = p \<and> k2 = k")
      case True
      then show ?thesis using Pk gl q1o by (auto simp: part_req_ok_def)
    next
      case False
      then have Pk': "P p2 k2 = Some gl2" using Pk by (auto split: if_splits)
      have "r \<notin> set gl2" using inPart_ptr [OF Po Pk', of r] ptr False by auto
      then have "s \<in> set gl2 \<Longrightarrow> q1 s = q s" for s using q1o by metis
      then show ?thesis using parts_okD [OF Po Pk'] by (simp add: part_req_ok_def)
    qed
  qed
  moreover have "linked H ?P x \<longleftrightarrow> posted (q1 x)" for x
  proof -
    have eq: "(\<exists>p2 k2 gl2. ?P p2 k2 = Some gl2 \<and> x \<in> set gl2) \<longleftrightarrow> x \<in> set (remove1 r gl) \<or> in_other_part P p k x"
      unfolding in_part_upd by simp
    show ?thesis
    proof (cases "x = r")
      case True
      have "\<not> in_other_part P p k r"
        using inPart_ptr [OF Po, of _ _ _ r] ptr unfolding in_other_part_def by (metis option.inject prod.inject)
      then have "\<not> linked H ?P r"
        using eq True notin gl unfolding linked_def by auto
      then show ?thesis using True by (simp add: q1_def posted_def)
    next
      case False
      have "(\<exists>p2 k2 gl2. P p2 k2 = Some gl2 \<and> x \<in> set gl2) \<longleftrightarrow> x \<in> set gl \<or> in_other_part P p k x"
        unfolding in_part_split [of P x p k] using r(1) by simp
      with eq False have "linked H ?P x \<longleftrightarrow> linked H P x" unfolding linked_def by simp
      then show ?thesis using L q1o [OF False] by simp
    qed
  qed
  ultimately show ?thesis by (simp add: table_ok_def)
qed

text \<open>When an unlock takes the last acquisition of a request off its lock head, or cancels it, and no other
  request there holds its mode, the waiters have been granted until the front of the queue is blocked.\<close>

definition waiters_served :: "req \<Rightarrow> LockManager \<Rightarrow> LockManager \<Rightarrow> bool" where
  "waiters_served r lm lm' \<longleftrightarrow> (\<forall>k h. lockPtr (requestStore lm r) = Some k \<and> heads lm k = Some h \<and>
     frees (requestStore lm) h r \<and>
     (status (requestStore lm r) = STATUS_GRANTED \<longrightarrow> recursiveCount (requestStore lm r) = 1) \<longrightarrow>
     (\<exists>h'. heads lm' k = Some h' \<and> front_blocked (requestStore lm') h'))"

lemma LockManager_unlock_ok:
  assumes ok: "lm_ok lm" and r: "posted (requestStore lm r)"
  shows "\<exists>b lm'. LockManager_unlock r lm = Some (b, lm') \<and> lm_ok lm' \<and>
     unlock_outcome r (requestStore lm) (requestStore lm') \<and> (b \<longleftrightarrow> \<not> posted (requestStore lm' r)) \<and>
     notified r (requestStore lm) (requestStore lm') (notifications lm) (notifications lm') \<and>
     (\<forall>s. \<not> posted (requestStore lm s) \<longrightarrow> requestStore lm' s = requestStore lm s) \<and>
     waiters_served r lm lm'"
proof -
  let ?q = "requestStore lm" and ?P = "partitionTable lm"
  note T = lm_okD(2) [OF ok] and C = lm_okD(3) [OF ok]
  define q1 where "q1 = ?q(r := (?q r)\<lparr>recursiveCount := recursiveCount (?q r) - 1\<rparr>)"
  have pos: "0 < recursiveCount (?q r)" "status (?q r) \<noteq> STATUS_NEW" using r by (simp_all add: posted_def)
  have q1r: "status (q1 r) = status (?q r)" "partitioned (q1 r) = partitioned (?q r)" "lockPtr (q1 r) = lockPtr (?q r)"
    "partitionedLock (q1 r) = partitionedLock (?q r)" "recursiveCount (q1 r) = recursiveCount (?q r) - 1"
    by (simp_all add: q1_def)
  show ?thesis
  proof (cases "status (?q r) = STATUS_GRANTED \<and> 1 < recursiveCount (?q r)")
    case True
    have "table_ok (heads lm) ?P q1"
      unfolding q1_def by (rule table_recount [OF T r]) (use True in simp)
    moreover have "counts_ok q1" unfolding q1_def by (rule counts_ok_upd [OF C]) (use True in simp_all)
    moreover have "LockManager_unlock r lm = Some (False, lm\<lparr>requestStore := q1\<rparr>)"
      using True pos unfolding LockManager_unlock_def Let_def q1_def [symmetric] by (simp add: q1r)
    ultimately show ?thesis
      using lm_okD(1) [OF ok] True
      by (auto simp: lm_ok_def notified_def unlock_outcome_def q1_def posted_def granted_from_def waiters_served_def)
  next
    case False
    have last: "status (?q r) = STATUS_GRANTED \<Longrightarrow> recursiveCount (?q r) = 1" using False pos by simp
    have inv: "\<not> partitioned (?q r) \<or> status (?q r) = STATUS_GRANTED \<or> status (?q r) = STATUS_CONVERTING"
      using C r pos(2) unfolding counts_ok_def by (cases "status (?q r)") auto
    consider (head) k h where "heads lm k = Some h" "r \<in> onHead h" "lockPtr (?q r) = Some k" "partitionedLock (?q r) = None"
      | (part) p k gl where "?P p k = Some gl" "r \<in> set gl" "part_req_ok ?q p k r"
      using posted_linked [OF T r] by blast
    then show ?thesis
    proof cases
      case head
      obtain q' h' l' where u: "unlockHead r q1 h (notifications lm) = Some (q', h', l')"
        "table_ok ((heads lm)(k \<mapsto> h')) ?P q'" "counts_ok q'" "unlock_outcome r ?q q'" "notified r ?q q' (notifications lm) l'"
        "\<forall>s. \<not> posted (?q s) \<longrightarrow> q' s = ?q s" "frees ?q h r \<longrightarrow> front_blocked q' h'"
        using unlock_on_head [OF T C head(1,2) r last] unfolding q1_def by blast
      have "LockManager_unlock r lm = Some (recursiveCount (q' r) = 0,
          putHead k h' (lm\<lparr>requestStore := q', notifications := l'\<rparr>))"
        using False head pos inv u(1) unfolding LockManager_unlock_def Let_def q1_def [symmetric] findHead_heads
        by (auto simp: q1r)
      moreover have "status (q' r) \<noteq> STATUS_NEW" using u(4) pos by (simp add: unlock_outcome_def)
      ultimately show ?thesis
        using u lm_okD(1) [OF ok] head(1,3) by (simp add: lm_ok_def posted_def waiters_served_def)
    next
      case part
      then have pr: "status (?q r) = STATUS_GRANTED" "partitionedLock (?q r) = Some (p, k)" "partitioned (?q r)"
        by (simp_all add: part_req_ok_def)
      have "table_ok (heads lm) (?P(p := (?P p)(k \<mapsto> remove1 r gl))) q1"
        using unlock_in_partition [OF T part(1,2)] last [OF pr(1)] by (simp add: q1_def)
      moreover have "counts_ok q1" unfolding q1_def by (rule counts_ok_upd [OF C]) (use pr in simp_all)
      moreover have "LockManager_unlock r lm = Some (True, lm\<lparr>requestStore := q1,
          partitionTable := ?P(p := (?P p)(k \<mapsto> remove1 r gl))\<rparr>)"
        using False pos inv pr part unfolding LockManager_unlock_def Let_def q1_def [symmetric] by (simp add: q1r)
      ultimately show ?thesis
        using lm_okD(1) [OF ok] last [OF pr(1)] pr inPart_ptr [OF table_okD(2) [OF T] part(1,2)]
        by (auto simp: lm_ok_def notified_def unlock_outcome_def q1_def posted_def granted_from_def waiters_served_def)
    qed
  qed
qed


subsection \<open>downgrade\<close>

lemma downgrade_on_head:
  assumes ok: "table_ok H P q" and C: "counts_ok q" and h: "H k = Some h" and r: "r \<in> onHead h"
    and st: "status (q r) = STATUS_GRANTED" and n: "n \<noteq> MODE_NONE" "isModeCovered n (mode (q r))"
  defines "q1 \<equiv> q(r := (q r)\<lparr>mode := n\<rparr>)"
  shows "\<exists>h1 h2 q2 h3 l1. incGrantedModeCount n h = Some h1 \<and> decGrantedModeCount (mode (q r)) h1 = Some h2 \<and>
     onLockModeChanged True q1 h2 l = Some (q2, h3, l1) \<and> table_ok (H(k \<mapsto> h3)) P q2 \<and> counts_ok q2 \<and>
     q2 r = q1 r \<and> grants q1 h2 l q2 h3 l1"
proof -
  have hok: "resourceId h = k" "head_ok q h" and io: "partitions h \<noteq> [] \<Longrightarrow> intent_only q h"
    using heads_okD [OF table_okD(1) [OF ok] h] by auto
  have rg: "r \<in> set (grantedList h)" using status_granted_queue [OF hok(2) r] st by simp
  have compat: "compatible n (mode (q s))" if "s \<in> set (grantedList h)" "s \<noteq> r" for s
    using that rg head_okD(2) [OF hok(2)] covered_compatible [OF n(2)] by (auto simp: reqs_ok_def compat_all_def)
  obtain h1 h2 where c: "incGrantedModeCount n h = Some h1" "decGrantedModeCount (mode (q r)) h1 = Some h2"
    "head_ok q1 h2" "relinked q h q1 h2" "grantedList h2 = grantedList h" "conflictList h2 = conflictList h"
    using remode_ok [OF hok(2) rg st n(1) compat] unfolding q1_def by blast
  obtain q2 h3 l1 where g: "onLockModeChanged True q1 h2 l = Some (q2, h3, l1)" "head_ok q2 h3" "grants q1 h2 l q2 h3 l1"
    using onLockModeChanged_ok [OF head_okD(1,2) [OF c(3)], of True l] c(3) by blast
  have "counts_ok q1" unfolding q1_def
    by (rule counts_ok_upd [OF C]) (use st in simp_all)
  then have C2: "counts_ok q2" using counts_ok_grants g(3) by blast
  have q2r: "q2 r = q1 r" using grantsD(2) [OF g(3), of r] st by (simp add: q1_def)
  have pe: "posted (q2 x) \<longleftrightarrow> posted (q x)" for x
    using grantsD(4) [OF g(3), of x] by (auto simp: granted_from_def posted_def q1_def split: if_splits)
  have on: "onHead h3 = onHead h" using g(3) c(5,6) unfolding grants_def by (elim conjE) simp
  have all_posted: "x \<in> onHead h \<Longrightarrow> posted (q x)" for x
    using table_okD(3) [OF ok, of x] h by (auto simp: linked_def)
  have rl: "relinked q1 h2 q2 h3" using grants_relinked [OF g(3)] .
  have "table_ok (H(k \<mapsto> h3)) P q2"
  proof (rule table_update [OF ok, of k h r])
    show "x \<in> onHead h3 \<longleftrightarrow> (x \<in> onHead h \<or> x = r) \<and> posted (q2 x)" for x
      using on pe [of x] all_posted [of x] r by auto
    show "q2 x = q x" if "x \<notin> onHead h" "x \<noteq> r" for x
      using rl that c(5,6) by (simp add: relinked_def q1_def)
    show "partitions h3 \<noteq> [] \<longrightarrow> intent_only q2 h3"
    proof
      assume "partitions h3 \<noteq> []"
      then have i: "intent_only q h" using io rl c(4) by (simp add: relinked_def)
      then have "mode (q r) \<in> {MODE_IS, MODE_IX}" using rg by (auto simp: intent_only_def)
      then have n': "n \<in> {MODE_IS, MODE_IX}" using n by (auto simp: isModeCovered_code)
      show "intent_only q2 h3"
      proof (rule intent_only_grants [OF g(3,2)])
        show "conflictList h2 = []" using c(6) i by (simp add: intent_only_def)
        show "mode (q1 x) \<in> {MODE_IS, MODE_IX} \<and> convertMode (q1 x) \<in> {MODE_NONE, MODE_IS, MODE_IX} \<and> granted_ok q1 x"
          if "x \<in> set (grantedList h2)" for x
          using intent_only_members [OF i hok(2), of x] head_ok_granted [OF c(3) that] that c(5) n'
          by (auto simp: q1_def)
      qed
    qed
  qed (use h r g hok c rl in \<open>auto simp: relinked_def\<close>)
  with c g C2 q2r show ?thesis by blast
qed

lemma LockManager_downgrade_ok:
  assumes ok: "lm_ok lm" and r: "posted (requestStore lm r)" "status (requestStore lm r) = STATUS_GRANTED"
    "lockPtr (requestStore lm r) = Some k" and n: "n \<noteq> MODE_NONE" "isModeCovered n (mode (requestStore lm r))"
  shows "\<exists>lm'. LockManager_downgrade r n lm = Some lm' \<and> lm_ok lm' \<and>
     requestStore lm' r = (requestStore lm r)\<lparr>mode := n\<rparr> \<and>
     (\<forall>s. s \<noteq> r \<longrightarrow> granted_from (requestStore lm s) (requestStore lm' s)) \<and>
     notified r (requestStore lm) (requestStore lm') (notifications lm) (notifications lm')"
proof -
  let ?q = "requestStore lm"
  note T = lm_okD(2) [OF ok] and C = lm_okD(3) [OF ok]
  obtain h where h: "heads lm k = Some h" "r \<in> onHead h"
    using posted_linked [OF T r(1)] r(3) by auto
  obtain h1 h2 q2 h3 l1 where d: "incGrantedModeCount n h = Some h1" "decGrantedModeCount (mode (?q r)) h1 = Some h2"
     "onLockModeChanged True (?q(r := (?q r)\<lparr>mode := n\<rparr>)) h2 (notifications lm) = Some (q2, h3, l1)"
     "table_ok ((heads lm)(k \<mapsto> h3)) (partitionTable lm) q2" "counts_ok q2" "q2 r = (?q r)\<lparr>mode := n\<rparr>"
     "grants (?q(r := (?q r)\<lparr>mode := n\<rparr>)) h2 (notifications lm) q2 h3 l1"
    using downgrade_on_head [OF T C h r(2) n, of "notifications lm"] by auto
  have "LockManager_downgrade r n lm = Some (putHead k h3 (lm\<lparr>requestStore := q2, notifications := l1\<rparr>))"
    using r n h d unfolding LockManager_downgrade_def Let_def findHead_heads isModeCovered_def posted_def
    by (simp add: ac_simps)
  moreover have "granted_from (?q s) (q2 s)" if "s \<noteq> r" for s
    using grantsD(4) [OF d(7), of s] that by simp
  moreover have "notified r ?q q2 (notifications lm) l1"
    by (rule grants_notified [OF d(7)]) (use r d(6) in auto)
  ultimately show ?thesis
    using d(4-6) lm_okD(1) [OF ok] by (simp add: lm_ok_def)
qed

subsection \<open>cleanupUnusedLocks\<close>

lemma table_remove_head:
  assumes ok: "table_ok H P q" and h: "H k = Some h" "onHead h = {}" "partitions h = []"
  shows "table_ok (H(k := None)) P q"
proof -
  note Ho = table_okD(1) [OF ok] and Po = table_okD(2) [OF ok] and L = table_okD(3) [OF ok]
  have "heads_ok (H(k := None)) q" using Ho by (simp add: heads_ok_def)
  moreover have "P p k = None" for p
    using parts_okD [OF Po, of p k] h by (cases "P p k") auto
  then have "parts_ok (H(k := None)) P q"
    using Po unfolding parts_ok_def by (metis fun_upd_other option.distinct(1))
  moreover have "linked (H(k := None)) P x \<longleftrightarrow> linked H P x" for x
    using h unfolding linked_def by (metis empty_iff fun_upd_apply option.distinct(1) option.inject)
  ultimately show ?thesis using L by (simp add: table_ok_def)
qed

definition patched :: "head_table \<Rightarrow> ResourceId set \<Rightarrow> (ResourceId \<times> LockHead) list \<Rightarrow> head_table" where
  "patched H K es = (\<lambda>k. if k \<in> K then map_of es k else H k)"

lemma head_zero:
  "head_ok q h \<Longrightarrow> grantedModes h = 0 \<Longrightarrow>
     grantedList h = [] \<and> conflictList h = [] \<and> conflictModes h = 0 \<and> conversionsCount h = 0 \<and> compatibleFirstCount h = 0"
  using granted_mask_zero [of q h] conflict_mask_zero [of q h] head_okD [of q h]
  by (simp add: head_syncD)

lemma cleanupEntries_ok:
  assumes "table_ok H P q" "counts_ok q" "distinct (map fst es)" "\<And>k h. (k, h) \<in> set es \<Longrightarrow> H k = Some h"
  shows "\<exists>es1 P1 q1. cleanupEntries es P q = Some (es1, P1, q1) \<and>
     table_ok (patched H (fst ` set es) es1) P1 q1 \<and> counts_ok q1 \<and>
     distinct (map fst es1) \<and> fst ` set es1 \<subseteq> fst ` set es \<and>
     (\<forall>(k, h) \<in> set es1. grantedList h \<noteq> [] \<and> partitions h = []) \<and>
     (\<forall>r. q1 r = q r \<or> (\<exists>k. q1 r = migrated k (q r)))"
  using assms
proof (induction es arbitrary: H P q)
  case Nil
  then show ?case by (simp add: patched_def)
next
  case (Cons e es)
  obtain k h where e: "e = (k, h)" by fastforce
  have h: "H k = Some h" using Cons.prems(4) e by simp
  have kn: "k \<notin> fst ` set es" using Cons.prems(3) e by simp
  let ?P = "drop_parts k P" and ?q = "migrate_all P k q"
  obtain h1 where h1: "migrateIfPartitioned P q h = Some (?P, ?q, h1)"
    "table_ok (H(k \<mapsto> h1)) ?P ?q" "partitions h1 = []" "resourceId h1 = k"
    using migrateIfPartitioned_ok [OF Cons.prems(1) h] by blast
  have hok: "head_ok ?q h1" using heads_okD [OF table_okD(1) [OF h1(2)], of k h1] by simp
  define H1 where "H1 = (if grantedModes h1 = 0 then H(k := None) else H(k \<mapsto> h1))"
  have "table_ok (H(k \<mapsto> h1, k := None)) ?P ?q" if "grantedModes h1 = 0"
    by (rule table_remove_head [OF h1(2)]) (use head_zero [OF hok that] h1(3) in auto)
  then have T1: "table_ok H1 ?P ?q" using h1(2) by (simp add: H1_def)
  have H1: "(k2, h2) \<in> set es \<Longrightarrow> H1 k2 = Some h2" for k2 h2
    using Cons.prems(4) kn by (force simp: H1_def)
  obtain es1 P1 q1 where r: "cleanupEntries es ?P ?q = Some (es1, P1, q1)"
     "table_ok (patched H1 (fst ` set es) es1) P1 q1" "counts_ok q1"
     "distinct (map fst es1)" "fst ` set es1 \<subseteq> fst ` set es"
     "\<forall>(k, h) \<in> set es1. grantedList h \<noteq> [] \<and> partitions h = []"
     "\<forall>r. q1 r = ?q r \<or> (\<exists>k. q1 r = migrated k (?q r))"
    using Cons.IH [OF T1 counts_ok_migrate [OF Cons.prems(2)] _ H1] Cons.prems(3) by auto
  have kn1: "k \<notin> fst ` set es1" using kn r(5) by blast
  then have none: "map_of es1 k = None" by (simp add: map_of_eq_None_iff)
  define es2 where "es2 = (if grantedModes h1 = 0 then es1 else (k, h1) # es1)"
  have p: "patched H1 (fst ` set es) es1 = patched H (fst ` set (e # es)) es2"
    using kn none by (auto simp: patched_def H1_def es2_def e fun_eq_iff)
  have ce: "cleanupEntries (e # es) P q = Some (es2, P1, q1)"
    using h1(1) r(1) head_zero [OF hok] by (simp add: e es2_def)
  have mig: "q1 x = q x \<or> (\<exists>k. q1 x = migrated k (q x))" for x
    using r(7) [rule_format, of x] by (auto simp: migrate_all_def migrated_def split: if_splits)
  have ne: "grantedModes h1 \<noteq> 0 \<Longrightarrow> grantedList h1 \<noteq> []"
    using granted_mask_zero head_okD [OF hok] by blast
  have "distinct (map fst es2)" "fst ` set es2 \<subseteq> fst ` set (e # es)"
     "\<forall>(k, h) \<in> set es2. grantedList h \<noteq> [] \<and> partitions h = []"
    using r(4-6) kn1 ne h1(3) by (auto simp: es2_def e)
  with ce r(2,3) p mig show ?case by (intro exI [of _ es2] exI [of _ P1] exI [of _ q1]) simp
qed

lemma cleanupUnusedLocksInBucket_ok:
  assumes ok: "lm_ok lm"
  shows "\<exists>lm'. cleanupUnusedLocksInBucket i lm = Some lm' \<and> lm_ok lm' \<and>
     (\<forall>(k, h) \<in> set (lockBuckets lm' i). grantedList h \<noteq> [] \<and> partitions h = []) \<and>
     (\<forall>j. j \<noteq> i \<longrightarrow> lockBuckets lm' j = lockBuckets lm j) \<and>
     (\<forall>r. requestStore lm' r = requestStore lm r \<or> (\<exists>k. requestStore lm' r = migrated k (requestStore lm r)))"
proof -
  let ?es = "lockBuckets lm i"
  note T = lm_okD(2) [OF ok] and B = lm_okD(1) [OF ok]
  have d: "distinct (map fst ?es)" and sub: "fst ` set ?es \<subseteq> {k. getBucket k = i}"
    using B by (auto simp: buckets_ok_def)
  have "heads lm k = Some h" if "(k, h) \<in> set ?es" for k h
  proof -
    have "getBucket k = i" using sub that by force
    then show ?thesis using d that by (simp add: heads_def findHead_def)
  qed
  then obtain es1 P1 q1 where r: "cleanupEntries ?es (partitionTable lm) (requestStore lm) = Some (es1, P1, q1)"
     "table_ok (patched (heads lm) (fst ` set ?es) es1) P1 q1" "counts_ok q1"
     "distinct (map fst es1)" "fst ` set es1 \<subseteq> fst ` set ?es"
     "\<forall>(k, h) \<in> set es1. grantedList h \<noteq> [] \<and> partitions h = []"
     "\<forall>r. q1 r = requestStore lm r \<or> (\<exists>k. q1 r = migrated k (requestStore lm r))"
    using cleanupEntries_ok [OF T lm_okD(3) [OF ok] d] by blast
  let ?lm = "lm\<lparr>lockBuckets := (lockBuckets lm)(i := es1), partitionTable := P1, requestStore := q1\<rparr>"
  have "heads ?lm k = patched (heads lm) (fst ` set ?es) es1 k" for k
  proof (cases "k \<in> fst ` set ?es")
    case True
    then have "getBucket k = i" using sub by blast
    with True show ?thesis by (simp add: heads_def findHead_def patched_def)
  next
    case False
    then have "map_of ?es k = None" "map_of es1 k = None" using r(5) by (auto simp: map_of_eq_None_iff)
    with False show ?thesis by (auto simp: heads_def findHead_def patched_def)
  qed
  then have "heads ?lm = patched (heads lm) (fst ` set ?es) es1" by (rule ext)
  moreover have "fst ` set es1 \<subseteq> {k. getBucket k = i}" using r(5) sub by (rule subset_trans)
  then have "buckets_ok ?lm" using B r(4) by (simp add: buckets_ok_def)
  ultimately have "lm_ok ?lm" using r(2,3) by (simp add: lm_ok_def)
  moreover have "cleanupUnusedLocksInBucket i lm = Some ?lm"
    using r(1) by (simp add: cleanupUnusedLocksInBucket_def)
  ultimately show ?thesis using r(6,7) by (intro exI [of _ ?lm]) simp
qed


text \<open>A request that \<open>cleanupUnusedLocks\<close> moved from a partition to its lock head, or left alone.\<close>

definition cleaned :: "store \<Rightarrow> store \<Rightarrow> bool" where
  "cleaned q q' \<longleftrightarrow> (\<forall>r. q' r = q r \<or> (\<exists>k. q' r = migrated k (q r)))"

lemma migrated_migrated: "migrated k (migrated k' x) = migrated k x"
  by (simp add: migrated_def)

lemma cleaned_trans: "cleaned q q' \<Longrightarrow> cleaned q' q'' \<Longrightarrow> cleaned q q''"
  unfolding cleaned_def by (metis migrated_migrated)

lemma cleanupBuckets_ok:
  assumes "lm_ok lm"
  shows "\<exists>lm'. cleanupBuckets is lm = Some lm' \<and> lm_ok lm' \<and>
     (\<forall>i. (i \<in> set is \<longrightarrow> (\<forall>(k, h) \<in> set (lockBuckets lm' i). grantedList h \<noteq> [] \<and> partitions h = [])) \<and>
          (i \<notin> set is \<longrightarrow> lockBuckets lm' i = lockBuckets lm i)) \<and>
     cleaned (requestStore lm) (requestStore lm')"
  using assms
proof (induction "is" arbitrary: lm rule: rev_induct)
  case Nil
  then show ?case by (simp add: cleaned_def)
next
  case (snoc i "is")
  have app: "cleanupBuckets (is @ [i]) lm = Option.bind (cleanupBuckets is lm) (cleanupUnusedLocksInBucket i)" for lm
    by (induction "is" arbitrary: lm) (simp_all split: Option.bind_splits)
  obtain lm1 where 1: "cleanupBuckets is lm = Some lm1" "lm_ok lm1"
     "\<forall>j. (j \<in> set is \<longrightarrow> (\<forall>(k, h) \<in> set (lockBuckets lm1 j). grantedList h \<noteq> [] \<and> partitions h = [])) \<and>
          (j \<notin> set is \<longrightarrow> lockBuckets lm1 j = lockBuckets lm j)" "cleaned (requestStore lm) (requestStore lm1)"
    using snoc.IH [OF snoc.prems] by blast
  obtain lm2 where 2: "cleanupUnusedLocksInBucket i lm1 = Some lm2" "lm_ok lm2"
     "\<forall>(k, h) \<in> set (lockBuckets lm2 i). grantedList h \<noteq> [] \<and> partitions h = []"
     "\<forall>j. j \<noteq> i \<longrightarrow> lockBuckets lm2 j = lockBuckets lm1 j" "cleaned (requestStore lm1) (requestStore lm2)"
    using cleanupUnusedLocksInBucket_ok [OF 1(2), of i] unfolding cleaned_def by blast
  have "(\<forall>j. (j \<in> set (is @ [i]) \<longrightarrow> (\<forall>(k, h) \<in> set (lockBuckets lm2 j). grantedList h \<noteq> [] \<and> partitions h = [])) \<and>
          (j \<notin> set (is @ [i]) \<longrightarrow> lockBuckets lm2 j = lockBuckets lm j))"
  proof
    fix j
    show "(j \<in> set (is @ [i]) \<longrightarrow> (\<forall>(k, h) \<in> set (lockBuckets lm2 j). grantedList h \<noteq> [] \<and> partitions h = [])) \<and>
          (j \<notin> set (is @ [i]) \<longrightarrow> lockBuckets lm2 j = lockBuckets lm j)"
      using 1(3) 2(3,4) by (cases "j = i") simp_all
  qed
  with 1(1,4) 2 app cleaned_trans show ?case by auto
qed

lemma getBucket_less: "getBucket k < numLockBuckets"
  by (simp add: getBucket_def numLockBuckets_def unat_mod)

text \<open>After \<open>cleanupUnusedLocks\<close> every remaining lock head is in use and holds all its requests itself.\<close>

lemma cleanupUnusedLocks_ok:
  assumes "lm_ok lm"
  shows "\<exists>lm'. cleanupUnusedLocks lm = Some lm' \<and> lm_ok lm' \<and> cleaned (requestStore lm) (requestStore lm') \<and>
     (\<forall>k h. findHead k lm' = Some h \<longrightarrow> grantedList h \<noteq> [] \<and> partitions h = [])"
proof -
  obtain lm' where c: "cleanupUnusedLocks lm = Some lm'" "lm_ok lm'"
     "\<forall>i < numLockBuckets. \<forall>(k, h) \<in> set (lockBuckets lm' i). grantedList h \<noteq> [] \<and> partitions h = []"
     "cleaned (requestStore lm) (requestStore lm')"
    using cleanupBuckets_ok [OF assms, of "[0..<numLockBuckets]"] unfolding cleanupUnusedLocks_def by auto
  have "grantedList h \<noteq> [] \<and> partitions h = []" if "findHead k lm' = Some h" for k h
    using c(3) getBucket_less [of k] map_of_SomeD [of _ k h] that unfolding findHead_def by fastforce
  with c show ?thesis by blast
qed

end
