(* ===== verification/LockProtocol.thy ===== *)
theory LockProtocol
  imports LockManagerSteps
begin

text \<open>
  The lock manager as a state machine. A call is one public operation of \<open>LockManager\<close>, or a
  Locker that prepares one of its own requests with \<open>LockRequest::initNew\<close>; \<open>lm_pre\<close> is
  what the Locker guarantees about the call, \<open>lm_run\<close> its effect. The theorems hold in every state
  reachable from the empty lock manager by such calls, in any order and from any number of
  Lockers, each call being one step. What the steps leave out: a request's policy
  \<open>compatibleFirst\<close> is fixed when it is prepared, while \<open>LockerImpl::_lockBegin\<close> also sets it on a
  posted request that it converts to S or X (\<open>Locker.thy\<close> models that write); a downgrade is made
  of a request on a lock head, not in a partition, which is the assertion of \<open>downgrade\<close> itself; and
  \<open>unlock\<close> reads the status of its own request before it takes the mutex of the bucket.
\<close>

datatype lm_call =
    InitNew req LockerId bool bool
  | Lock ResourceId req LockMode
  | Convert ResourceId req LockMode
  | Unlock req
  | Downgrade req LockMode
  | CleanupUnusedLocks

fun lm_pre :: "lm_call \<Rightarrow> LockManager \<Rightarrow> bool" where
  "lm_pre (InitNew r l front first) lm \<longleftrightarrow> \<not> posted (requestStore lm r)"
| "lm_pre (Lock k r m) lm \<longleftrightarrow> fresh_request (requestStore lm r) \<and> m \<noteq> MODE_NONE"
| "lm_pre (Convert k r n) lm \<longleftrightarrow>
     posted (requestStore lm r) \<and> status (requestStore lm r) = STATUS_GRANTED \<and>
     on_resource (requestStore lm r) k \<and> n \<noteq> MODE_NONE \<and>
     (isModeCovered n (mode (requestStore lm r)) \<or> isModeCovered (mode (requestStore lm r)) n)"
| "lm_pre (Unlock r) lm \<longleftrightarrow> posted (requestStore lm r)"
| "lm_pre (Downgrade r n) lm \<longleftrightarrow>
     posted (requestStore lm r) \<and> status (requestStore lm r) = STATUS_GRANTED \<and>
     lockPtr (requestStore lm r) \<noteq> None \<and> n \<noteq> MODE_NONE \<and> isModeCovered n (mode (requestStore lm r))"
| "lm_pre CleanupUnusedLocks lm \<longleftrightarrow> True"

fun lm_run :: "lm_call \<Rightarrow> LockManager \<Rightarrow> LockManager option" where
  "lm_run (InitNew r l front first) lm =
     Some (lm\<lparr>requestStore := (requestStore lm)
       (r := (LockRequest_initNew l)\<lparr>enqueueAtFront := front, compatibleFirst := first\<rparr>)\<rparr>)"
| "lm_run (Lock k r m) lm = map_option snd (LockManager_lock k r m lm)"
| "lm_run (Convert k r n) lm = map_option snd (LockManager_convert k r n lm)"
| "lm_run (Unlock r) lm = map_option snd (LockManager_unlock r lm)"
| "lm_run (Downgrade r n) lm = LockManager_downgrade r n lm"
| "lm_run CleanupUnusedLocks lm = cleanupUnusedLocks lm"

inductive lm_reachable :: "LockManager \<Rightarrow> bool" where
  init: "lm_reachable emptyLockManager"
| step: "lm_reachable lm \<Longrightarrow> lm_pre c lm \<Longrightarrow> lm_run c lm = Some lm' \<Longrightarrow> lm_reachable lm'"

lemma lm_ok_initNew:
  assumes ok: "lm_ok lm" and r: "\<not> posted (requestStore lm r)" and x: "\<not> posted x"
  shows "lm_ok (lm\<lparr>requestStore := (requestStore lm)(r := x)\<rparr>)"
  using table_upd_unposted [OF lm_okD(2) [OF ok] r x] counts_ok_upd [OF lm_okD(3) [OF ok], of x r] x lm_okD(1) [OF ok]
  by (simp add: lm_ok_def)

text \<open>No assertion of the lock manager fails, and the invariant is kept.\<close>

lemma lm_run_ok:
  assumes "lm_ok lm" "lm_pre c lm"
  shows "\<exists>lm'. lm_run c lm = Some lm' \<and> lm_ok lm'"
proof (cases c)
  case (InitNew r l front first)
  then show ?thesis
    using assms lm_ok_initNew [of lm r "(LockRequest_initNew l)\<lparr>enqueueAtFront := front, compatibleFirst := first\<rparr>"]
    by (simp add: posted_def LockRequest_initNew_def)
next
  case (Lock k r m)
  then show ?thesis using assms LockManager_lock_ok [of lm r m k] by auto
next
  case (Convert k r n)
  then show ?thesis using assms LockManager_convert_ok [of lm r k n] by auto
next
  case (Unlock r)
  then show ?thesis using assms LockManager_unlock_ok [of lm r] by auto
next
  case (Downgrade r n)
  then show ?thesis using assms LockManager_downgrade_ok [of lm r _ n] by auto
next
  case CleanupUnusedLocks
  then show ?thesis using assms cleanupUnusedLocks_ok [of lm] by auto
qed

lemma lm_reachable_ok: "lm_reachable lm \<Longrightarrow> lm_ok lm"
  by (induction rule: lm_reachable.induct) (use lm_ok_empty lm_run_ok in fastforce)+

subsection \<open>Who holds a resource\<close>

definition holds :: "LockManager \<Rightarrow> ResourceId \<Rightarrow> req \<Rightarrow> bool" where
  "holds lm k r \<longleftrightarrow> posted (requestStore lm r) \<and> on_resource (requestStore lm r) k \<and>
     status (requestStore lm r) \<in> {STATUS_GRANTED, STATUS_CONVERTING}"

definition waits :: "LockManager \<Rightarrow> ResourceId \<Rightarrow> req \<Rightarrow> bool" where
  "waits lm k r \<longleftrightarrow> posted (requestStore lm r) \<and> on_resource (requestStore lm r) k \<and>
     status (requestStore lm r) = STATUS_WAITING"

lemma posted_place:
  assumes ok: "table_ok H P q" and r: "posted (q r)" "on_resource (q r) k"
  shows "\<exists>h. H k = Some h \<and> (r \<in> onHead h \<or> (\<exists>p \<in> set (partitions h). part_req_ok q p k r))"
  using posted_linked [OF ok r(1)]
proof (elim disjE exE conjE)
  fix k' h assume "H k' = Some h" "r \<in> onHead h" "lockPtr (q r) = Some k'"
  with r(2) show ?thesis by (auto simp: on_resource_def)
next
  fix p k' gl assume gl: "P p k' = Some gl" "r \<in> set gl" "lockPtr (q r) = None" "part_req_ok q p k' r"
  with r(2) have "k' = k" by (auto simp: on_resource_def part_req_ok_def)
  with gl parts_okD [OF table_okD(2) [OF ok] gl(1)] show ?thesis by auto
qed

lemma holders_compatible:
  assumes ok: "lm_ok lm" and hold: "holds lm k r" "holds lm k s" and ne: "r \<noteq> s"
  shows "compatible (mode (requestStore lm r)) (mode (requestStore lm s))"
proof -
  let ?q = "requestStore lm"
  note T = lm_okD(2) [OF ok]
  obtain h where h: "heads lm k = Some h" and r: "r \<in> onHead h \<or> (\<exists>p \<in> set (partitions h). part_req_ok ?q p k r)"
    using posted_place [OF T, of r k] hold(1) by (auto simp: holds_def)
  have s: "s \<in> onHead h \<or> (\<exists>p \<in> set (partitions h). part_req_ok ?q p k s)"
    using posted_place [OF T, of s k] hold(2) h by (auto simp: holds_def)
  have hok: "head_ok ?q h" and io: "partitions h \<noteq> [] \<Longrightarrow> intent_only ?q h"
    using heads_okD [OF table_okD(1) [OF T] h] by auto
  have g: "x \<in> onHead h \<Longrightarrow> holds lm k x \<Longrightarrow> x \<in> set (grantedList h)" for x
    using status_granted_queue [OF hok, of x] by (auto simp: holds_def)
  show ?thesis
  proof (cases "r \<in> onHead h \<and> s \<in> onHead h")
    case True
    then show ?thesis using g hold ne head_okD(2) [OF hok] by (auto simp: reqs_ok_def compat_all_def)
  next
    case False
    then have "partitions h \<noteq> []" using r s by auto
    then have i: "intent_only ?q h" by (rule io)
    have "mode (?q x) \<in> {MODE_IS, MODE_IX}"
      if "x \<in> onHead h \<or> (\<exists>p \<in> set (partitions h). part_req_ok ?q p k x)" "holds lm k x" for x
      using that g [of x] i by (auto simp: intent_only_def part_req_ok_def)
    from this [OF r hold(1)] this [OF s hold(2)] show ?thesis by auto
  qed
qed

lemma waiter_has_holder:
  assumes ok: "lm_ok lm" and w: "waits lm k r"
  shows "\<exists>s. holds lm k s"
proof -
  let ?q = "requestStore lm"
  note T = lm_okD(2) [OF ok]
  obtain h where h: "heads lm k = Some h" "r \<in> onHead h"
    using posted_place [OF T, of r k] w by (auto simp: waits_def part_req_ok_def)
  have hok: "head_ok ?q h" and rk: "resourceId h = k" using heads_okD [OF table_okD(1) [OF T] h(1)] by auto
  have "r \<in> set (conflictList h)"
    using h(2) head_ok_granted [OF hok, of r] w by (auto simp: waits_def granted_ok_def)
  then obtain s where s: "s \<in> set (grantedList h)"
    using head_okD(3) [OF hok] by (cases "grantedList h") auto
  then have "posted (?q s)" using table_okD(3) [OF T, of s] h(1) by (auto simp: linked_def)
  moreover have "status (?q s) \<in> {STATUS_GRANTED, STATUS_CONVERTING}" "lockPtr (?q s) = Some k"
    using head_ok_granted [OF hok s] rk by (auto simp: granted_ok_def linked_to_def)
  ultimately show ?thesis by (auto simp: holds_def on_resource_def)
qed


subsection \<open>Running a sequence of calls\<close>

fun lm_runs :: "lm_call list \<Rightarrow> LockManager \<Rightarrow> LockManager option" where
  "lm_runs [] lm = Some lm"
| "lm_runs (c # cs) lm =
     (if lm_pre c lm then Option.bind (lm_run c lm) (lm_runs cs) else None)"

lemma lm_runs_reachable: "lm_reachable lm \<Longrightarrow> lm_runs cs lm = Some lm' \<Longrightarrow> lm_reachable lm'"
  by (induction cs arbitrary: lm)
    (auto split: if_splits Option.bind_splits intro: lm_reachable.step)

text \<open>
  A sample history: two Lockers hold resource 7 in IX and IS through the partitions, a third
  asks for X (the partitions are migrated and it waits), the second asks to upgrade.
\<close>

definition sampleCalls :: "lm_call list" where
  "sampleCalls =
     [InitNew (Slot 1 0) 1 False False, Lock 7 (Slot 1 0) MODE_IX,
      InitNew (Slot 2 0) 2 False False, Lock 7 (Slot 2 0) MODE_IS,
      InitNew (Slot 3 0) 3 False False, Lock 7 (Slot 3 0) MODE_X,
      Convert 7 (Slot 2 0) MODE_S]"

definition sampleState :: LockManager where
  "sampleState = the (lm_runs sampleCalls emptyLockManager)"

lemma sampleState_runs: "lm_runs sampleCalls emptyLockManager \<noteq> None"
  by code_simp

lemma sampleState_reachable: "lm_reachable sampleState"
  using lm_runs_reachable [OF lm_reachable.init, of sampleCalls] sampleState_runs
  by (auto simp: sampleState_def)


subsection \<open>Properties\<close>

text \<open>(C3) Mutual exclusion: in every reachable state of the lock manager, any two different requests that
  hold the same resource, whether linked to the lock head or to one of the partitions, granted or
  converting, hold it in modes that are compatible in the documented matrix.\<close>

theorem mutual_exclusion:
  assumes "lm_reachable lm" "holds lm k r" "holds lm k s" "r \<noteq> s"
  shows "compatible (mode (requestStore lm r)) (mode (requestStore lm s))"
  using holders_compatible [OF lm_reachable_ok] assms by blast

theorem mutual_exclusion_witness:
  "holds sampleState 7 (Slot 1 0) \<and> holds sampleState 7 (Slot 2 0) \<and>
   compatible (mode (requestStore sampleState (Slot 1 0))) (mode (requestStore sampleState (Slot 2 0)))"
proof -
  have "holds sampleState 7 (Slot 1 0)" "holds sampleState 7 (Slot 2 0)" by code_simp+
  then show ?thesis using mutual_exclusion [OF sampleState_reachable] by simp
qed

text \<open>(C4) No assertion of the lock manager can fail: in every reachable state every call whose arguments meet
  the Locker's obligations returns, and leads to a reachable state again.\<close>

theorem lm_calls_total:
  assumes "lm_reachable lm" "lm_pre c lm"
  shows "\<exists>lm'. lm_run c lm = Some lm' \<and> lm_reachable lm'"
  using lm_run_ok [OF lm_reachable_ok [OF assms(1)] assms(2)] lm_reachable.step [OF assms] by blast

theorem lm_calls_total_witness:
  "lm_pre (Unlock (Slot 1 0)) sampleState \<and>
   (\<exists>lm'. lm_run (Unlock (Slot 1 0)) sampleState = Some lm' \<and> lm_reachable lm')"
proof -
  have "lm_pre (Unlock (Slot 1 0)) sampleState" by code_simp
  then show ?thesis using lm_calls_total [OF sampleState_reachable] by blast
qed

lemma others_migrated_holds:
  assumes om: "others_migrated r k (requestStore lm) (requestStore lm')" and s: "s \<noteq> r" "holds lm k s"
  shows "holds lm' k s \<and> mode (requestStore lm' s) = mode (requestStore lm s)"
proof -
  have "requestStore lm' s = requestStore lm s \<or> requestStore lm' s = migrated k (requestStore lm s)"
    using om s(1) by (auto simp: others_migrated_def)
  then show ?thesis
    using s(2) by (auto simp: holds_def migrated_def posted_def on_resource_def)
qed

text \<open>(C5) What \<open>lock\<close> returns. Posting a fresh request either grants it in the requested mode or queues
  it; it is queued whenever some holder's mode conflicts, and only if some posted request of
  that resource holds, waits for or converts to a conflicting mode; nobody is notified.\<close>

theorem lock_result_correct:
  assumes "lm_reachable lm" "lm_pre (Lock k r m) lm"
  shows "\<exists>res lm'. LockManager_lock k r m lm = Some (res, lm') \<and> mode (requestStore lm' r) = m \<and>
     notifications lm' = notifications lm \<and>
     (res = LOCK_OK \<and> holds lm' k r \<or>
      res = LOCK_WAITING \<and> waits lm' k r \<and> (\<exists>s. s \<noteq> r \<and> blocks (requestStore lm) k m s)) \<and>
     ((\<exists>s. holds lm k s \<and> \<not> compatible m (mode (requestStore lm s))) \<longrightarrow> res = LOCK_WAITING)"
proof -
  have fr: "fresh_request (requestStore lm r)" and m: "m \<noteq> MODE_NONE" using assms(2) by auto
  obtain res lm' where l: "LockManager_lock k r m lm = Some (res, lm')" "lm_ok lm'"
      "others_migrated r k (requestStore lm) (requestStore lm')"
      "lock_outcome res (status (requestStore lm' r))" "mode (requestStore lm' r) = m"
      "recursiveCount (requestStore lm' r) = 1" "notifications lm' = notifications lm"
      "on_resource (requestStore lm' r) k" "res = LOCK_WAITING \<longrightarrow> (\<exists>s. s \<noteq> r \<and> blocks (requestStore lm) k m s)"
    using LockManager_lock_ok [OF lm_reachable_ok [OF assms(1)] fr m, of k] by blast
  have p: "posted (requestStore lm' r)" using l(4,6) by (auto simp: posted_def lock_outcome_def)
  have "res = LOCK_WAITING" if s: "holds lm k s" "\<not> compatible m (mode (requestStore lm s))" for s
  proof -
    have ne: "s \<noteq> r" using s(1) not_posted_fresh [OF fr] by (auto simp: holds_def)
    note s' = others_migrated_holds [OF l(3) ne s(1)]
    show ?thesis
    proof (rule ccontr)
      assume "res \<noteq> LOCK_WAITING"
      then have "holds lm' k r" using l(4,8) p by (auto simp: holds_def lock_outcome_def)
      then have "compatible m (mode (requestStore lm s))"
        using holders_compatible [OF l(2), of k r s] s' ne l(5) by auto
      with s(2) show False by blast
    qed
  qed
  moreover have "res = LOCK_OK \<and> holds lm' k r \<or> res = LOCK_WAITING \<and> waits lm' k r"
    using l(4,8) p by (auto simp: holds_def waits_def lock_outcome_def)
  ultimately show ?thesis using l by blast
qed

theorem lock_result_correct_witness:
  "lm_pre (Lock 9 (Slot 4 0) MODE_S) emptyLockManager \<and>
   (\<exists>res lm'. LockManager_lock 9 (Slot 4 0) MODE_S emptyLockManager = Some (res, lm') \<and>
      mode (requestStore lm' (Slot 4 0)) = MODE_S)"
proof -
  have "lm_pre (Lock 9 (Slot 4 0) MODE_S) emptyLockManager" by code_simp
  then show ?thesis using lock_result_correct [OF lm_reachable.init] by blast
qed

text \<open>(C10) What \<open>convert\<close> returns: the count of acquisitions goes up by one; a mode that the held one
  covers is granted without a change of mode; otherwise the request is granted in the new mode, or
  keeps its old mode and waits as CONVERTING. Other requests are at most moved from a partition to
  the lock head.\<close>

theorem convert_result_correct:
  assumes "lm_reachable lm" "lm_pre (Convert k r n) lm"
  shows "\<exists>res lm'. LockManager_convert k r n lm = Some (res, lm') \<and>
     convert_outcome res n (requestStore lm r) (requestStore lm' r) \<and>
     others_migrated r k (requestStore lm) (requestStore lm') \<and> notifications lm' = notifications lm"
  using LockManager_convert_ok [OF lm_reachable_ok [OF assms(1)], of r k n] assms(2) by auto

theorem convert_result_correct_witness:
  "lm_pre (Convert 7 (Slot 1 0) MODE_X) sampleState \<and>
   (\<exists>res lm'. LockManager_convert 7 (Slot 1 0) MODE_X sampleState = Some (res, lm') \<and>
      convert_outcome res MODE_X (requestStore sampleState (Slot 1 0)) (requestStore lm' (Slot 1 0)))"
proof -
  have "lm_pre (Convert 7 (Slot 1 0) MODE_X) sampleState" by code_simp
  then show ?thesis using convert_result_correct [OF sampleState_reachable] by blast
qed

text \<open>The same history after the two holders have released all but one acquisition of the second.\<close>

definition releaseCalls :: "lm_call list" where
  "releaseCalls = sampleCalls @ [Unlock (Slot 1 0), Unlock (Slot 2 0)]"

definition releaseState :: LockManager where
  "releaseState = the (lm_runs releaseCalls emptyLockManager)"

lemma releaseState_reachable: "lm_reachable releaseState"
proof -
  have "lm_runs releaseCalls emptyLockManager \<noteq> None" by code_simp
  then show ?thesis
    using lm_runs_reachable [OF lm_reachable.init, of releaseCalls] by (auto simp: releaseState_def)
qed

text \<open>(C6) What \<open>unlock\<close> does: it takes one acquisition off the request (a conversion in progress is cancelled
  instead) and returns true exactly when none is left. Waiting and converting requests of the lock are
  all it may grant, nothing else happens to the other requests, nothing at all to those not posted, and
  each request it grants is notified exactly once with \<open>LOCK_OK\<close>. And it does grant: when the
  last acquisition of a request on the lock head goes, or its wait or conversion is cancelled, and no
  other request there holds or converts to its mode, then the waiters have been granted from the front of the
  conflict queue on: the request left at its front, if there is one, conflicts with a granted mode.\<close>

theorem unlock_result_correct:
  assumes "lm_reachable lm" "lm_pre (Unlock r) lm"
  shows "\<exists>b lm'. LockManager_unlock r lm = Some (b, lm') \<and>
     unlock_outcome r (requestStore lm) (requestStore lm') \<and> (b \<longleftrightarrow> \<not> posted (requestStore lm' r)) \<and>
     notified r (requestStore lm) (requestStore lm') (notifications lm) (notifications lm') \<and>
     (\<forall>s. \<not> posted (requestStore lm s) \<longrightarrow> requestStore lm' s = requestStore lm s) \<and>
     waiters_served r lm lm'"
  using LockManager_unlock_ok [OF lm_reachable_ok [OF assms(1)], of r] assms(2) by auto

theorem unlock_result_correct_witness:
  "lm_pre (Unlock (Slot 2 0)) releaseState \<and> waits releaseState 7 (Slot 3 0) \<and>
   (case LockManager_unlock (Slot 2 0) releaseState of None \<Rightarrow> False
    | Some (b, lm') \<Rightarrow> b \<and> holds lm' 7 (Slot 3 0) \<and> waiters_served (Slot 2 0) releaseState lm' \<and>
        notified (Slot 2 0) (requestStore releaseState) (requestStore lm') (notifications releaseState) (notifications lm'))"
proof -
  have pre: "lm_pre (Unlock (Slot 2 0)) releaseState" by code_simp
  have "waits releaseState 7 (Slot 3 0)" by code_simp
  moreover have "case LockManager_unlock (Slot 2 0) releaseState of None \<Rightarrow> False
    | Some (b, lm') \<Rightarrow> b \<and> holds lm' 7 (Slot 3 0)" by code_simp
  ultimately show ?thesis
    using unlock_result_correct [OF releaseState_reachable pre] pre by (auto split: option.splits)
qed

text \<open>\<open>downgrade\<close> puts the request into the weaker mode, grants whoever becomes grantable, and notifies
  each of those exactly once.\<close>

theorem downgrade_result_correct:
  assumes "lm_reachable lm" "lm_pre (Downgrade r n) lm"
  shows "\<exists>lm'. LockManager_downgrade r n lm = Some lm' \<and>
     requestStore lm' r = (requestStore lm r)\<lparr>mode := n\<rparr> \<and>
     (\<forall>s. s \<noteq> r \<longrightarrow> granted_from (requestStore lm s) (requestStore lm' s)) \<and>
     notified r (requestStore lm) (requestStore lm') (notifications lm) (notifications lm')"
  using LockManager_downgrade_ok [OF lm_reachable_ok [OF assms(1)], of r _ n] assms(2) by auto

theorem downgrade_result_correct_witness:
  "lm_pre (Downgrade (Slot 1 0) MODE_IS) sampleState \<and>
   (\<exists>lm'. LockManager_downgrade (Slot 1 0) MODE_IS sampleState = Some lm' \<and>
     requestStore lm' (Slot 1 0) = (requestStore sampleState (Slot 1 0))\<lparr>mode := MODE_IS\<rparr>)"
proof -
  have "lm_pre (Downgrade (Slot 1 0) MODE_IS) sampleState" by code_simp
  then show ?thesis using downgrade_result_correct [OF sampleState_reachable] by blast
qed

text \<open>(C7) A waiting request is never stranded: as long as it waits, some other request holds the
  resource, and so will call \<open>unlock\<close>, which looks at the queue again.\<close>

theorem waiter_not_stranded:
  assumes "lm_reachable lm" "waits lm k r"
  shows "\<exists>s. s \<noteq> r \<and> holds lm k s"
proof -
  obtain s where s: "holds lm k s"
    using waiter_has_holder [OF lm_reachable_ok [OF assms(1)] assms(2)] by blast
  then have "s \<noteq> r" using assms(2) by (auto simp: waits_def holds_def)
  with s show ?thesis by blast
qed

theorem waiter_not_stranded_witness:
  "waits sampleState 7 (Slot 3 0) \<and> (\<exists>s. s \<noteq> Slot 3 0 \<and> holds sampleState 7 s)"
proof -
  have "waits sampleState 7 (Slot 3 0)" by code_simp
  then show ?thesis using waiter_not_stranded [OF sampleState_reachable] by blast
qed

text \<open>The lock head of resource 7 in the state of the sample history in which the last holder is about
  to leave while a request waits, with that holder taken off the granted queue: what \<open>unlock\<close> hands to
  \<open>onLockModeChanged\<close>.\<close>

definition lastHolderGone :: "LockHead \<Rightarrow> LockHead" where
  "lastHolderGone h = h\<lparr>grantedList := [], grantedCounts := (\<lambda>_. 0), grantedModes := 0, compatibleFirstCount := 0\<rparr>"

lemma lastHolderGone_ok:
  assumes "head_ok q h" "\<forall>r\<in>set (grantedList h). status (q r) = STATUS_GRANTED"
  shows "head_sync q (lastHolderGone h)" "reqs_ok q (lastHolderGone h)"
proof -
  have "countp (converting q) (grantedList h) = 0" using assms(2) by (auto simp: countp_0_iff converting_def)
  then show "head_sync q (lastHolderGone h)"
    using head_okD(1) [OF assms(1)] by (auto simp: head_sync_def lastHolderGone_def held_def maskOf_def)
  show "reqs_ok q (lastHolderGone h)"
    using head_okD(2) [OF assms(1)] by (auto simp: reqs_ok_def lastHolderGone_def compat_all_def)
qed

text \<open>One more request waits behind the one for X.\<close>

definition queueState :: LockManager where
  "queueState = the (lm_runs (releaseCalls @ [InitNew (Slot 4 0) 4 False False, Lock 7 (Slot 4 0) MODE_S]) emptyLockManager)"

lemma queueState_reachable: "lm_reachable queueState"
proof -
  have "lm_runs (releaseCalls @ [InitNew (Slot 4 0) 4 False False, Lock 7 (Slot 4 0) MODE_S]) emptyLockManager \<noteq> None"
    by code_simp
  then show ?thesis
    using lm_runs_reachable [OF lm_reachable.init] by (auto simp: queueState_def)
qed

text \<open>(C8) After a lock's mode changed and the conflict queue was looked at, the request at the front of that
  queue, if any is left, conflicts with what is granted: no grantable request is left at the front. The
  lock head is any whose counters are those of its queues and whose requests are linked to it properly;
  it may have no holder left while requests wait, as when the last holder unlocks.\<close>

theorem no_grantable_front:
  assumes "head_sync q h" "reqs_ok q h" "onLockModeChanged True q h l = Some (q', h', l')" "conflictList h' \<noteq> []"
  shows "conflicts (mode (q' (hd (conflictList h')))) (grantedModes h')"
  using onLockModeChanged_front [OF assms] by (simp add: blocked_def)

theorem no_grantable_front_witness:
  "case findHead 7 queueState of None \<Rightarrow> False | Some h \<Rightarrow>
     conflictList (lastHolderGone h) = [Slot 3 0, Slot 4 0] \<and> grantedList (lastHolderGone h) = [] \<and>
     (case onLockModeChanged True (requestStore queueState) (lastHolderGone h) [] of None \<Rightarrow> False
      | Some (q', h', l') \<Rightarrow> grantedList h' = [Slot 3 0] \<and> hd (conflictList h') = Slot 4 0 \<and>
          conflicts (mode (q' (hd (conflictList h')))) (grantedModes h'))"
proof -
  let ?q = "requestStore queueState"
  have "case findHead 7 queueState of None \<Rightarrow> False | Some h \<Rightarrow>
     conflictList (lastHolderGone h) = [Slot 3 0, Slot 4 0] \<and>
     list_all (\<lambda>r. status (?q r) = STATUS_GRANTED) (grantedList h) \<and>
     (case onLockModeChanged True ?q (lastHolderGone h) [] of None \<Rightarrow> False
      | Some (q', h', l') \<Rightarrow> grantedList h' = [Slot 3 0] \<and> conflictList h' = [Slot 4 0])"
    by code_simp
  then obtain h q' h' l' where h: "findHead 7 queueState = Some h"
     "conflictList (lastHolderGone h) = [Slot 3 0, Slot 4 0]" "\<forall>r\<in>set (grantedList h). status (?q r) = STATUS_GRANTED"
     "onLockModeChanged True ?q (lastHolderGone h) [] = Some (q', h', l')"
     "grantedList h' = [Slot 3 0]" "conflictList h' = [Slot 4 0]"
    by (auto simp: list_all_iff split: option.splits)
  have "head_ok ?q h"
    using heads_okD [OF table_okD(1) [OF lm_okD(2) [OF lm_reachable_ok [OF queueState_reachable]]], of 7 h] h(1)
    by (simp add: findHead_heads)
  note ok = lastHolderGone_ok [OF this h(3)]
  show ?thesis using h no_grantable_front [OF ok h(4)] by (simp add: lastHolderGone_def)
qed

text \<open>(C9) The counters and bit masks of every lock head are exactly those of its queues, in every reachable
  state: per mode the number of requests holding or converting to it and of requests waiting for
  it, the conversions in progress, and the requests with compatible-first policy.\<close>

theorem head_counters_exact:
  assumes "lm_reachable lm" "findHead k lm = Some h"
  shows "head_sync (requestStore lm) h \<and> (grantedModes h = 0 \<longleftrightarrow> grantedList h = []) \<and>
     (conflictModes h = 0 \<longleftrightarrow> conflictList h = [])"
proof -
  have "head_ok (requestStore lm) h"
    using heads_okD [OF table_okD(1) [OF lm_okD(2) [OF lm_reachable_ok [OF assms(1)]]], of k h] assms(2)
    by (simp add: findHead_heads)
  then show ?thesis using granted_mask_zero conflict_mask_zero head_okD(1,2) by blast
qed

theorem head_counters_exact_witness:
  "case findHead 7 sampleState of None \<Rightarrow> False | Some h \<Rightarrow> head_sync (requestStore sampleState) h"
proof -
  have "findHead 7 sampleState \<noteq> None" by code_simp
  then show ?thesis using head_counters_exact [OF sampleState_reachable, of 7] by (auto split: option.splits)
qed

text \<open>\<open>cleanupUnusedLocks\<close> removes every unused lock head and only those: afterwards each head that is
  left has a granted request and no partitions, and every request is as it was, or moved from a
  partition to its lock head.\<close>

theorem cleanup_leaves_used_heads:
  assumes "lm_reachable lm"
  shows "\<exists>lm'. cleanupUnusedLocks lm = Some lm' \<and> cleaned (requestStore lm) (requestStore lm') \<and>
     (\<forall>k h. findHead k lm' = Some h \<longrightarrow> grantedList h \<noteq> [] \<and> partitions h = [])"
  using cleanupUnusedLocks_ok [OF lm_reachable_ok [OF assms]] by blast

theorem cleanup_leaves_used_heads_witness:
  "\<exists>lm'. cleanupUnusedLocks sampleState = Some lm' \<and> cleaned (requestStore sampleState) (requestStore lm') \<and>
     (\<forall>k h. findHead k lm' = Some h \<longrightarrow> grantedList h \<noteq> [] \<and> partitions h = [])"
  using cleanup_leaves_used_heads [OF sampleState_reachable] by blast

end
