(* ===== verification/RequestList.thy ===== *)
theory RequestList
  imports LockHead
begin

text \<open>
  \<open>class LockRequestList\<close> of \<^verbatim>\<open>db/concurrency/lock_request_list.h\<close>: the intrusive
  doubly linked list through the \<open>prev\<close> and \<open>next\<close> pointers of the requests. The pointers of
  all requests form one heap, which the granted queue, the conflict queue and the queues of the
  partitions share. The locale \<open>request_queue\<close> is the interface the lock manager relies on; its
  interpretation shows that the pointer operations provide it, so that the queues of theory
  \<open>LockHead\<close> may be plain lists.
\<close>

subsection \<open>The pointer operations\<close>

record links =
  next_req :: "req \<Rightarrow> req option"
  prev_req :: "req \<Rightarrow> req option"

record LockRequestList =
  front_req :: "req option"
  back_req :: "req option"

definition list_reset :: "LockRequestList \<Rightarrow> LockRequestList" where
  "list_reset L = L\<lparr>front_req := None, back_req := None\<rparr>"

definition list_empty :: "LockRequestList \<Rightarrow> bool" where
  "list_empty L \<longleftrightarrow> front_req L = None"

definition push_front :: "req \<Rightarrow> links \<Rightarrow> LockRequestList \<Rightarrow> (links \<times> LockRequestList) option" where
  "push_front request s L =
     do {
       invariant (next_req s request = None);
       invariant (prev_req s request = None);
       case front_req L of
         None \<Rightarrow> Some (s, L\<lparr>front_req := Some request, back_req := Some request\<rparr>)
       | Some f \<Rightarrow>
           do {
             let s1 = s\<lparr>next_req := (next_req s)(request := front_req L)\<rparr>;
             let s2 = s1\<lparr>prev_req := (prev_req s1)(f := Some request)\<rparr>;
             Some (s2, L\<lparr>front_req := Some request\<rparr>)
           }
     }"

text \<open>In a non-empty list \<open>_back\<close> is dereferenced without a check; a null \<open>_back\<close> would crash.\<close>

definition push_back :: "req \<Rightarrow> links \<Rightarrow> LockRequestList \<Rightarrow> (links \<times> LockRequestList) option" where
  "push_back request s L =
     do {
       invariant (next_req s request = None);
       invariant (prev_req s request = None);
       case front_req L of
         None \<Rightarrow> Some (s, L\<lparr>front_req := Some request, back_req := Some request\<rparr>)
       | Some f \<Rightarrow>
           do {
             let s1 = s\<lparr>prev_req := (prev_req s)(request := back_req L)\<rparr>;
             b \<leftarrow> back_req L;
             let s2 = s1\<lparr>next_req := (next_req s1)(b := Some request)\<rparr>;
             Some (s2, L\<lparr>back_req := Some request\<rparr>)
           }
     }"

definition list_remove :: "req \<Rightarrow> links \<Rightarrow> LockRequestList \<Rightarrow> links \<times> LockRequestList" where
  "list_remove request s L =
     (let (s1, L1) =
        (case prev_req s request of
           Some p \<Rightarrow> (s\<lparr>next_req := (next_req s)(p := next_req s request)\<rparr>, L)
         | None \<Rightarrow> (s, L\<lparr>front_req := next_req s request\<rparr>));
          (s2, L2) =
        (case next_req s1 request of
           Some n \<Rightarrow> (s1\<lparr>prev_req := (prev_req s1)(n := prev_req s1 request)\<rparr>, L1)
         | None \<Rightarrow> (s1, L1\<lparr>back_req := prev_req s1 request\<rparr>))
      in (s2\<lparr>prev_req := (prev_req s2)(request := None), next_req := (next_req s2)(request := None)\<rparr>, L2))"

subsection \<open>What a list of pointers represents\<close>

definition hd_opt :: "req list \<Rightarrow> req option" where
  "hd_opt xs = (case xs of [] \<Rightarrow> None | x # _ \<Rightarrow> Some x)"

definition last_opt :: "req list \<Rightarrow> req option" where
  "last_opt xs = hd_opt (rev xs)"

lemma hd_opt_simps [simp]: "hd_opt [] = None" "hd_opt (x # xs) = Some x"
  by (simp_all add: hd_opt_def)

lemma last_opt_simps [simp]: "last_opt [] = None" "last_opt (xs @ [x]) = Some x" "last_opt [x] = Some x"
  by (simp_all add: last_opt_def)

lemma hd_opt_append: "hd_opt (xs @ ys) = (if xs = [] then hd_opt ys else hd_opt xs)"
  by (cases xs) auto

lemma last_opt_append: "last_opt (xs @ ys) = (if ys = [] then last_opt xs else last_opt ys)"
  by (simp add: last_opt_def hd_opt_append)

lemma last_opt_Cons: "last_opt (x # xs) = (if xs = [] then Some x else last_opt xs)"
  using last_opt_append [of "[x]" xs] by simp

lemma hd_opt_mem: "hd_opt xs = Some x \<Longrightarrow> x \<in> set xs"
  by (cases xs) auto

lemma last_opt_mem: "last_opt xs = Some x \<Longrightarrow> x \<in> set xs"
  using hd_opt_mem [of "rev xs" x] by (simp add: last_opt_def)

lemma opt_None_iff [simp]: "hd_opt xs = None \<longleftrightarrow> xs = []" "last_opt xs = None \<longleftrightarrow> xs = []"
  by (cases xs; simp) (simp add: last_opt_def, cases "rev xs"; simp)

text \<open>
  \<open>linked_list s L xs\<close>: following the pointers of \<open>s\<close> from \<open>front\<close> gives the requests
  \<open>xs\<close>, following them back from \<open>back\<close> gives \<open>xs\<close> reversed.
\<close>

definition linked_list :: "links \<Rightarrow> LockRequestList \<Rightarrow> req list \<Rightarrow> bool" where
  "linked_list s L xs \<longleftrightarrow>
     distinct xs \<and> front_req L = hd_opt xs \<and> back_req L = last_opt xs \<and>
     (\<forall>ys x zs. xs = ys @ x # zs \<longrightarrow> next_req s x = hd_opt zs \<and> prev_req s x = last_opt ys)"

definition unlinked :: "links \<Rightarrow> req \<Rightarrow> bool" where
  "unlinked s r \<longleftrightarrow> next_req s r = None \<and> prev_req s r = None"

definition same_links :: "req set \<Rightarrow> links \<Rightarrow> links \<Rightarrow> bool" where
  "same_links A s s' \<longleftrightarrow> (\<forall>x. x \<notin> A \<longrightarrow> next_req s' x = next_req s x \<and> prev_req s' x = prev_req s x)"

lemma linked_listD:
  assumes "linked_list s L (ys @ x # zs)"
  shows "next_req s x = hd_opt zs" "prev_req s x = last_opt ys"
  using assms by (auto simp: linked_list_def)

lemma linked_list_frame:
  "same_links A s s' \<Longrightarrow> set xs \<inter> A = {} \<Longrightarrow> linked_list s L xs \<Longrightarrow> linked_list s' L xs"
  unfolding linked_list_def same_links_def by fastforce

lemma unlinked_frame: "same_links A s s' \<Longrightarrow> r \<notin> A \<Longrightarrow> unlinked s r \<Longrightarrow> unlinked s' r"
  by (simp add: unlinked_def same_links_def)

lemma linked_list_reset: "linked_list s (list_reset L) []"
  by (simp add: linked_list_def list_reset_def)

lemma linked_list_empty: "linked_list s L xs \<Longrightarrow> list_empty L \<longleftrightarrow> xs = []"
  by (simp add: linked_list_def list_empty_def)

lemma push_back_linked:
  assumes ok: "linked_list s L xs" and r: "unlinked s r" "r \<notin> set xs"
  shows "\<exists>s' L'. push_back r s L = Some (s', L') \<and> linked_list s' L' (xs @ [r]) \<and> same_links (insert r (set xs)) s s'"
proof (cases xs rule: rev_cases)
  case Nil
  then show ?thesis
    using ok r by (auto simp: push_back_def linked_list_def unlinked_def same_links_def Cons_eq_append_conv)
next
  case (snoc ws b)
  let ?s = "s\<lparr>prev_req := (prev_req s)(r := Some b), next_req := (next_req s)(b := Some r)\<rparr>"
  have nb: "r \<noteq> b" "b \<notin> set ws" using r(2) snoc ok by (auto simp: linked_list_def)
  have fb: "front_req L \<noteq> None" "back_req L = Some b" using ok snoc by (simp_all add: linked_list_def)
  have run: "push_back r s L = Some (?s, L\<lparr>back_req := Some r\<rparr>)"
    using r(1) fb by (auto simp: push_back_def unlinked_def)
  have ptr: "next_req ?s x = hd_opt zs \<and> prev_req ?s x = last_opt ys" if eq: "xs @ [r] = ys @ x # zs" for ys x zs
  proof (cases zs rule: rev_cases)
    case Nil
    with eq have "x = r" "ys = xs" by auto
    with Nil nb r(1) show ?thesis using snoc by (simp add: unlinked_def)
  next
    case (snoc us z)
    with eq have zr: "z = r" and xs: "xs = ys @ x # us" by auto
    have d: "distinct xs" "x \<in> set xs" using ok xs by (auto simp: linked_list_def)
    note p = linked_listD [OF ok [unfolded xs]]
    show ?thesis
    proof (cases "us = []")
      case True
      then have "x = b" using xs \<open>xs = ws @ [b]\<close> by auto
      with True snoc zr p nb show ?thesis by simp
    next
      case False
      then obtain us' where "us = us' @ [b]" using xs \<open>xs = ws @ [b]\<close> by (cases us rule: rev_cases) auto
      then have "x \<noteq> b" using d xs by auto
      moreover have "x \<noteq> r" using r(2) d by auto
      ultimately show ?thesis using False snoc p by (simp add: hd_opt_append)
    qed
  qed
  have "linked_list ?s (L\<lparr>back_req := Some r\<rparr>) (xs @ [r])"
    using ok r(2) ptr snoc unfolding linked_list_def by (auto simp: hd_opt_append last_opt_append last_opt_Cons)
  moreover have "same_links (insert r (set xs)) s ?s" using snoc by (simp add: same_links_def)
  ultimately show ?thesis using run by blast
qed

lemma push_front_linked:
  assumes ok: "linked_list s L xs" and r: "unlinked s r" "r \<notin> set xs"
  shows "\<exists>s' L'. push_front r s L = Some (s', L') \<and> linked_list s' L' (r # xs) \<and> same_links (insert r (set xs)) s s'"
proof (cases xs)
  case Nil
  then show ?thesis
    using ok r by (auto simp: push_front_def linked_list_def unlinked_def same_links_def Cons_eq_append_conv)
next
  case (Cons f ws)
  let ?s = "s\<lparr>next_req := (next_req s)(r := Some f), prev_req := (prev_req s)(f := Some r)\<rparr>"
  have nf: "r \<noteq> f" "f \<notin> set ws" using r(2) Cons ok by (auto simp: linked_list_def)
  have ff: "front_req L = Some f" using ok Cons by (simp add: linked_list_def)
  have run: "push_front r s L = Some (?s, L\<lparr>front_req := Some r\<rparr>)"
    using r(1) ff by (simp add: push_front_def unlinked_def)
  have ptr: "next_req ?s x = hd_opt zs \<and> prev_req ?s x = last_opt ys" if eq: "r # xs = ys @ x # zs" for ys x zs
  proof (cases ys)
    case Nil
    with eq have "x = r" "zs = xs" by auto
    with Nil nf r(1) show ?thesis using Cons by (simp add: unlinked_def)
  next
    case (Cons y us)
    with eq have yr: "y = r" and xs: "xs = us @ x # zs" by auto
    have d: "distinct xs" "x \<in> set xs" using ok xs by (auto simp: linked_list_def)
    note p = linked_listD [OF ok [unfolded xs]]
    show ?thesis
    proof (cases "us = []")
      case True
      then have "x = f" using xs \<open>xs = f # ws\<close> by auto
      with True Cons yr p nf show ?thesis by simp
    next
      case False
      then obtain us' where "us = f # us'" using xs \<open>xs = f # ws\<close> by (cases us) auto
      then have "x \<noteq> f" using d xs by auto
      moreover have "x \<noteq> r" using r(2) d by auto
      ultimately show ?thesis using False Cons p by (simp add: last_opt_Cons)
    qed
  qed
  have "linked_list ?s (L\<lparr>front_req := Some r\<rparr>) (r # xs)"
    using ok r(2) ptr Cons unfolding linked_list_def by (simp add: last_opt_Cons)
  moreover have "same_links (insert r (set xs)) s ?s" using Cons by (simp add: same_links_def)
  ultimately show ?thesis using run by blast
qed


text \<open>The fields after \<open>remove\<close>, with \<open>as\<close> and \<open>bs\<close> what stands before and after the request.\<close>

definition unlink_next :: "links \<Rightarrow> req \<Rightarrow> req list \<Rightarrow> req list \<Rightarrow> req \<Rightarrow> req option" where
  "unlink_next s r as bs =
     (case last_opt as of None \<Rightarrow> next_req s | Some p \<Rightarrow> (next_req s)(p := hd_opt bs))(r := None)"

definition unlink_prev :: "links \<Rightarrow> req \<Rightarrow> req list \<Rightarrow> req list \<Rightarrow> req \<Rightarrow> req option" where
  "unlink_prev s r as bs =
     (case hd_opt bs of None \<Rightarrow> prev_req s | Some n \<Rightarrow> (prev_req s)(n := last_opt as))(r := None)"

lemma list_remove_eq:
  assumes ok: "linked_list s L (as @ r # bs)"
  shows "list_remove r s L =
    (s\<lparr>next_req := unlink_next s r as bs, prev_req := unlink_prev s r as bs\<rparr>,
     L\<lparr>front_req := hd_opt (as @ bs), back_req := last_opt (as @ bs)\<rparr>)"
proof -
  have d: "r \<notin> set as" "r \<notin> set bs" and e: "front_req L = hd_opt (as @ r # bs)" "back_req L = last_opt (as @ r # bs)"
    using ok by (auto simp: linked_list_def)
  note p = linked_listD [OF ok]
  have ne: "last_opt as \<noteq> Some r" "hd_opt bs \<noteq> Some r" using d last_opt_mem hd_opt_mem by blast+
  show ?thesis
  proof (cases "last_opt as")
    case None
    then show ?thesis
      using p e ne by (cases L; cases "hd_opt bs") (auto split: if_splits simp: list_remove_def unlink_next_def unlink_prev_def
          hd_opt_append last_opt_append last_opt_Cons fun_upd_twist)
  next
    case (Some q)
    then have "as \<noteq> []" by auto
    with Some show ?thesis
      using p e ne by (cases "hd_opt bs") (auto simp: list_remove_def unlink_next_def unlink_prev_def
          hd_opt_append last_opt_append last_opt_Cons fun_upd_twist)
  qed
qed

lemma list_remove_linked:
  assumes ok: "linked_list s L xs" and r: "r \<in> set xs"
  shows "\<exists>s' L'. list_remove r s L = (s', L') \<and> linked_list s' L' (remove1 r xs) \<and> unlinked s' r \<and>
     same_links (set xs) s s'"
proof -
  obtain as bs where xs: "xs = as @ r # bs" using r by (meson split_list)
  have d: "distinct (as @ r # bs)" using ok xs by (simp add: linked_list_def)
  let ?s = "s\<lparr>next_req := unlink_next s r as bs, prev_req := unlink_prev s r as bs\<rparr>"
  let ?L = "L\<lparr>front_req := hd_opt (as @ bs), back_req := last_opt (as @ bs)\<rparr>"
  have rm: "remove1 r xs = as @ bs" using xs d by (simp add: remove1_append)
  have ptr: "next_req ?s x = hd_opt zs \<and> prev_req ?s x = last_opt ys" if eq: "as @ bs = ys @ x # zs" for ys x zs
  proof -
    have xr: "x \<noteq> r" using d eq by (metis Un_iff in_set_conv_decomp not_distinct_conv_prefix distinct_append distinct.simps(2) set_append disjoint_iff list.set_intros(1))
    consider (left) us where "as = ys @ x # us" "zs = us @ bs" | (right) us where "bs = us @ x # zs" "ys = as @ us"
      using eq by (auto simp: append_eq_append_conv2 append_eq_Cons_conv)
    then show ?thesis
    proof cases
      case left
      have o: "next_req s x = hd_opt (us @ r # bs)" "prev_req s x = last_opt ys"
        using linked_listD [of s L ys x "us @ r # bs"] ok xs left by simp_all
      have "hd_opt bs \<noteq> Some x" using d left hd_opt_mem by fastforce
      then have "prev_req ?s x = last_opt ys" using o xr by (simp add: unlink_prev_def split: option.splits)
      moreover have "last_opt as = Some x \<longleftrightarrow> us = []"
        using d left last_opt_mem [of us x] by (auto simp: last_opt_append last_opt_Cons)
      then have "next_req ?s x = hd_opt zs"
        using o xr left by (cases "us = []") (auto simp: unlink_next_def hd_opt_append split: option.splits)
      ultimately show ?thesis by simp
    next
      case right
      have o: "next_req s x = hd_opt zs" "prev_req s x = last_opt (as @ r # us)"
        using linked_listD [of s L "as @ r # us" x zs] ok xs right by simp_all
      have "last_opt as \<noteq> Some x" using d right last_opt_mem by fastforce
      then have "next_req ?s x = hd_opt zs" using o xr by (simp add: unlink_next_def split: option.splits)
      moreover have "hd_opt bs = Some x \<longleftrightarrow> us = []"
        using d right hd_opt_mem [of us x] by (auto simp: hd_opt_append)
      then have "prev_req ?s x = last_opt ys"
        using o xr right by (cases "us = []") (auto simp: unlink_prev_def last_opt_append last_opt_Cons split: option.splits)
      ultimately show ?thesis by simp
    qed
  qed
  have "linked_list ?s ?L (remove1 r xs)"
    unfolding linked_list_def rm using d ptr by simp
  moreover have "unlinked ?s r" by (simp add: unlinked_def unlink_next_def unlink_prev_def)
  moreover have "same_links (set xs) s ?s"
    using xs last_opt_mem hd_opt_mem
    by (fastforce simp: same_links_def unlink_next_def unlink_prev_def split: option.splits)
  ultimately show ?thesis using list_remove_eq [OF ok [unfolded xs]] by blast
qed


subsection \<open>The interface of a queue of requests\<close>

text \<open>
  What the lock manager relies on. \<open>reps h l xs\<close> says that the list object \<open>l\<close> links the
  requests \<open>xs\<close> in the heap \<open>h\<close>; a queue operation may touch the heap only at its own
  requests, so several queues live in one heap.
\<close>

locale request_queue =
  fixes reps :: "'h \<Rightarrow> 'l \<Rightarrow> req list \<Rightarrow> bool"
    and unused :: "'h \<Rightarrow> req \<Rightarrow> bool"
    and touches :: "req set \<Rightarrow> 'h \<Rightarrow> 'h \<Rightarrow> bool"
    and enq_front :: "req \<Rightarrow> 'h \<Rightarrow> 'l \<Rightarrow> ('h \<times> 'l) option"
    and enq_back :: "req \<Rightarrow> 'h \<Rightarrow> 'l \<Rightarrow> ('h \<times> 'l) option"
    and unlink :: "req \<Rightarrow> 'h \<Rightarrow> 'l \<Rightarrow> 'h \<times> 'l"
    and first :: "'l \<Rightarrow> req option"
  assumes reps_distinct: "reps h l xs \<Longrightarrow> distinct xs"
    and first_law: "reps h l xs \<Longrightarrow> first l = hd_opt xs"
    and enq_back_law: "reps h l xs \<Longrightarrow> unused h r \<Longrightarrow> r \<notin> set xs \<Longrightarrow>
      \<exists>h' l'. enq_back r h l = Some (h', l') \<and> reps h' l' (xs @ [r]) \<and> touches (insert r (set xs)) h h'"
    and enq_front_law: "reps h l xs \<Longrightarrow> unused h r \<Longrightarrow> r \<notin> set xs \<Longrightarrow>
      \<exists>h' l'. enq_front r h l = Some (h', l') \<and> reps h' l' (r # xs) \<and> touches (insert r (set xs)) h h'"
    and unlink_law: "reps h l xs \<Longrightarrow> r \<in> set xs \<Longrightarrow>
      \<exists>h' l'. unlink r h l = (h', l') \<and> reps h' l' (remove1 r xs) \<and> unused h' r \<and> touches (set xs) h h'"
    and frame_reps: "touches A h h' \<Longrightarrow> set xs \<inter> A = {} \<Longrightarrow> reps h l xs \<Longrightarrow> reps h' l xs"
    and frame_unused: "touches A h h' \<Longrightarrow> r \<notin> A \<Longrightarrow> unused h r \<Longrightarrow> unused h' r"
begin

text \<open>Moving a request from one queue to the end of another, as \<open>_onLockModeChanged\<close> does.\<close>

definition transfer :: "req \<Rightarrow> 'h \<Rightarrow> 'l \<Rightarrow> 'l \<Rightarrow> ('h \<times> 'l \<times> 'l) option" where
  "transfer r h l1 l2 =
     (case unlink r h l1 of (h1, l1') \<Rightarrow> map_option (\<lambda>(h2, l2'). (h2, l1', l2')) (enq_back r h1 l2))"

lemma transfer_ok:
  assumes "reps h l1 xs" "reps h l2 ys" "set xs \<inter> set ys = {}" "r \<in> set xs"
  shows "\<exists>h' l1' l2'. transfer r h l1 l2 = Some (h', l1', l2') \<and> reps h' l1' (remove1 r xs) \<and> reps h' l2' (ys @ [r])"
proof -
  obtain h1 l1' where 1: "unlink r h l1 = (h1, l1')" "reps h1 l1' (remove1 r xs)" "unused h1 r" "touches (set xs) h h1"
    using unlink_law [OF assms(1,4)] by blast
  have ys: "reps h1 l2 ys" using frame_reps [OF 1(4) _ assms(2)] assms(3) by (simp add: Int_commute)
  have "r \<notin> set ys" using assms(3,4) by blast
  from enq_back_law [OF ys 1(3) this] obtain h2 l2' where 2: "enq_back r h1 l2 = Some (h2, l2')" "reps h2 l2' (ys @ [r])"
    "touches (insert r (set ys)) h1 h2" by blast
  have "set (remove1 r xs) \<inter> insert r (set ys) = {}"
    using assms(3) reps_distinct [OF assms(1)] by auto
  from frame_reps [OF 2(3) this 1(2)] show ?thesis using 1(1) 2 by (simp add: transfer_def)
qed

text \<open>Emptying one queue into another front to back, as the migration of a partition does.\<close>

fun drain :: "nat \<Rightarrow> 'h \<Rightarrow> 'l \<Rightarrow> 'l \<Rightarrow> ('h \<times> 'l \<times> 'l) option" where
  "drain 0 h l1 l2 = (case first l1 of None \<Rightarrow> Some (h, l1, l2) | Some r \<Rightarrow> None)"
| "drain (Suc n) h l1 l2 =
     (case first l1 of
        None \<Rightarrow> Some (h, l1, l2)
      | Some r \<Rightarrow> Option.bind (transfer r h l1 l2) (\<lambda>(h', l1', l2'). drain n h' l1' l2'))"

lemma drain_ok:
  assumes "reps h l1 xs" "reps h l2 ys" "set xs \<inter> set ys = {}" "length xs \<le> n"
  shows "\<exists>h' l1' l2'. drain n h l1 l2 = Some (h', l1', l2') \<and> reps h' l1' [] \<and> reps h' l2' (ys @ xs)"
  using assms
proof (induction n arbitrary: h l1 l2 xs ys)
  case 0
  then show ?case using first_law [of h l1 xs] by simp
next
  case (Suc n)
  show ?case
  proof (cases xs)
    case Nil
    then show ?thesis using Suc.prems first_law [of h l1 xs] by simp
  next
    case (Cons r rest)
    obtain h' l1' l2' where t: "transfer r h l1 l2 = Some (h', l1', l2')" "reps h' l1' rest" "reps h' l2' (ys @ [r])"
      using transfer_ok [OF Suc.prems(1-3), of r] Cons by auto
    have "set rest \<inter> set (ys @ [r]) = {}" using Suc.prems(3) reps_distinct [OF Suc.prems(1)] Cons by auto
    from Suc.IH [OF t(2,3) this] show ?thesis
      using t(1) Cons Suc.prems(4) first_law [OF Suc.prems(1)] by simp
  qed
qed

end

interpretation rl: request_queue linked_list unlinked same_links push_front push_back list_remove front_req
proof
  show "linked_list h l xs \<Longrightarrow> distinct xs" for h l xs by (simp add: linked_list_def)
  show "linked_list h l xs \<Longrightarrow> front_req l = hd_opt xs" for h l xs by (simp add: linked_list_def)
qed (fact push_back_linked push_front_linked list_remove_linked linked_list_frame unlinked_frame)+

subsection \<open>Properties\<close>

text \<open>(C14) The pointer operations of \<open>LockRequestList\<close> implement the list operations of the model: on a list that
  represents \<open>xs\<close>, \<open>push_front\<close>, \<open>push_back\<close> and \<open>remove\<close> hit none of their
  sanity checks and represent \<open>r # xs\<close>, \<open>xs @ [r]\<close> and \<open>xs\<close> without
  \<open>r\<close>, and they change no pointer of a request outside the list.\<close>

theorem request_list_refines_list:
  assumes "linked_list s L xs"
  shows "(unlinked s r \<and> r \<notin> set xs \<longrightarrow>
      (\<exists>s' L'. push_front r s L = Some (s', L') \<and> linked_list s' L' (r # xs) \<and> same_links (insert r (set xs)) s s') \<and>
      (\<exists>s' L'. push_back r s L = Some (s', L') \<and> linked_list s' L' (xs @ [r]) \<and> same_links (insert r (set xs)) s s')) \<and>
    (r \<in> set xs \<longrightarrow>
      (\<exists>s' L'. list_remove r s L = (s', L') \<and> linked_list s' L' (remove1 r xs) \<and> unlinked s' r \<and> same_links (set xs) s s')) \<and>
    (list_empty L \<longleftrightarrow> xs = [])"
  using rl.enq_front_law [OF assms] rl.enq_back_law [OF assms] rl.unlink_law [OF assms] linked_list_empty [OF assms] by blast

definition sampleLinks :: "links \<times> LockRequestList" where
  "sampleLinks = the (Option.bind (push_back (Slot 1 0) \<lparr>next_req = (\<lambda>_. None), prev_req = (\<lambda>_. None)\<rparr>
     \<lparr>front_req = None, back_req = None\<rparr>) (\<lambda>(s, L). push_back (Slot 2 0) s L))"

lemma sampleLinks_ok: "linked_list (fst sampleLinks) (snd sampleLinks) [Slot 1 0, Slot 2 0]"
  by (auto simp: sampleLinks_def push_back_def linked_list_def Cons_eq_append_conv last_opt_Cons)

theorem request_list_refines_list_witness:
  "\<exists>s' L'. list_remove (Slot 1 0) (fst sampleLinks) (snd sampleLinks) = (s', L') \<and>
     linked_list s' L' [Slot 2 0] \<and> unlinked s' (Slot 1 0)"
  using request_list_refines_list [OF sampleLinks_ok, of "Slot 1 0"] by auto

text \<open>Granting a waiting request moves it from the conflict queue to the end of the granted queue without
  disturbing either: removing it from one pointer list and pushing it on another that lives in the
  same heap leaves exactly the two expected lists.\<close>

theorem request_list_transfer:
  assumes "linked_list s L1 xs" "linked_list s L2 ys" "set xs \<inter> set ys = {}" "r \<in> set xs"
  shows "\<exists>s' L1' L2'.
     (case list_remove r s L1 of (s1, M) \<Rightarrow> map_option (\<lambda>(s2, M2). (s2, M, M2)) (push_back r s1 L2)) = Some (s', L1', L2') \<and>
     linked_list s' L1' (remove1 r xs) \<and> linked_list s' L2' (ys @ [r])"
  using rl.transfer_ok [OF assms] by (simp add: rl.transfer_def)

theorem request_list_transfer_witness:
  "\<exists>s' L1' L2'.
     (case list_remove (Slot 1 0) (fst sampleLinks) (snd sampleLinks) of
        (s1, M) \<Rightarrow> map_option (\<lambda>(s2, M2). (s2, M, M2)) (push_back (Slot 1 0) s1 \<lparr>front_req = None, back_req = None\<rparr>)) = Some (s', L1', L2') \<and>
     linked_list s' L1' [Slot 2 0] \<and> linked_list s' L2' [Slot 1 0]"
proof -
  have "linked_list (fst sampleLinks) \<lparr>front_req = None, back_req = None\<rparr> []" by (simp add: linked_list_def)
  from request_list_transfer [OF sampleLinks_ok this, of "Slot 1 0"] show ?thesis by simp
qed

end
