(* ===== verification/FastMap.thy ===== *)
theory FastMap
  imports LockHead
begin

text \<open>
  \<open>class FastMapNoAlloc\<close> of \<^verbatim>\<open>db/concurrency/fast_map_noalloc.h\<close>, the map from resources
  to lock requests that a Locker keeps. Entries live in a deque and are reused, never freed. The
  deque is a list, front first; \<open>eaddr\<close> is the address of an entry's value, which stays the
  same for the life of the map: the entry allocated as the n-th has address n. An iterator is
  a position in the deque, past the last entry when it is finished.
\<close>

record PreallocEntry =
  inUse :: bool
  ekey :: ResourceId
  eaddr :: nat

record FastMapNoAlloc =
  fastAccess :: "PreallocEntry list"
  fastAccessUsedSize :: nat

definition fm_new :: FastMapNoAlloc where
  "fm_new = \<lparr>fastAccess = [], fastAccessUsedSize = 0\<rparr>"

text \<open>The loops that advance an iterator to the first entry with a property.\<close>

fun scan :: "(PreallocEntry \<Rightarrow> bool) \<Rightarrow> PreallocEntry list \<Rightarrow> nat \<Rightarrow> nat" where
  "scan P [] i = i"
| "scan P (e # es) i = (if P e then i else scan P es (Suc i))"

definition it_finished :: "FastMapNoAlloc \<Rightarrow> nat \<Rightarrow> bool" where
  "it_finished m it \<longleftrightarrow> length (fastAccess m) \<le> it"

definition it_objAddr :: "FastMapNoAlloc \<Rightarrow> nat \<Rightarrow> nat option" where
  "it_objAddr m it = do { invariant (\<not> it_finished m it); Some (eaddr (fastAccess m ! it)) }"

definition it_key :: "FastMapNoAlloc \<Rightarrow> nat \<Rightarrow> ResourceId option" where
  "it_key m it = do { invariant (\<not> it_finished m it); Some (ekey (fastAccess m ! it)) }"

definition it_next :: "FastMapNoAlloc \<Rightarrow> nat \<Rightarrow> nat option" where
  "it_next m it =
     do { invariant (\<not> it_finished m it); Some (scan inUse (drop (Suc it) (fastAccess m)) (Suc it)) }"

definition it_remove :: "FastMapNoAlloc \<Rightarrow> nat \<Rightarrow> (FastMapNoAlloc \<times> nat) option" where
  "it_remove m it =
     do {
       invariant (\<not> it_finished m it);
       invariant (inUse (fastAccess m ! it));
       let m1 = m\<lparr>fastAccess := (fastAccess m)[it := (fastAccess m ! it)\<lparr>inUse := False\<rparr>]\<rparr>;
       let m2 = m1\<lparr>fastAccessUsedSize := fastAccessUsedSize m1 - 1\<rparr>;
       it1 \<leftarrow> it_next m2 it;
       Some (m2, it1)
     }"

definition fm_begin :: "FastMapNoAlloc \<Rightarrow> nat" where
  "fm_begin m = scan inUse (fastAccess m) 0"

definition fm_find :: "ResourceId \<Rightarrow> FastMapNoAlloc \<Rightarrow> nat" where
  "fm_find k m = scan (\<lambda>e. inUse e \<and> ekey e = k) (fastAccess m) 0"

definition fm_insert :: "ResourceId \<Rightarrow> FastMapNoAlloc \<Rightarrow> (FastMapNoAlloc \<times> nat) option" where
  "fm_insert k m =
     do {
       let m1 = (if fastAccessUsedSize m = length (fastAccess m)
                 then m\<lparr>fastAccess := \<lparr>inUse = False, ekey = 0, eaddr = length (fastAccess m)\<rparr> # fastAccess m\<rparr>
                 else m);
       let it = scan (\<lambda>e. \<not> inUse e) (fastAccess m1) 0;
       invariant (\<not> it_finished m1 it \<and> \<not> inUse (fastAccess m1 ! it));
       let m2 = m1\<lparr>fastAccess := (fastAccess m1)[it := (fastAccess m1 ! it)\<lparr>inUse := True, ekey := k\<rparr>],
                   fastAccessUsedSize := fastAccessUsedSize m1 + 1\<rparr>;
       Some (m2, it)
     }"

definition fm_size :: "FastMapNoAlloc \<Rightarrow> nat" where
  "fm_size m = fastAccessUsedSize m"

definition fm_empty :: "FastMapNoAlloc \<Rightarrow> bool" where
  "fm_empty m \<longleftrightarrow> fastAccessUsedSize m = 0"

subsection \<open>What a map represents\<close>

text \<open>The value address stored for a key, and the invariant of the map.\<close>

definition fm_lookup :: "FastMapNoAlloc \<Rightarrow> ResourceId \<rightharpoonup> nat" where
  "fm_lookup m k = map_option eaddr (find (\<lambda>e. inUse e \<and> ekey e = k) (fastAccess m))"

definition fm_ok :: "FastMapNoAlloc \<Rightarrow> bool" where
  "fm_ok m \<longleftrightarrow>
     fastAccessUsedSize m = length (filter inUse (fastAccess m)) \<and>
     distinct (map eaddr (fastAccess m)) \<and> (\<forall>e \<in> set (fastAccess m). eaddr e < length (fastAccess m)) \<and>
     distinct (map ekey (filter inUse (fastAccess m)))"

lemma scan_lower: "i \<le> scan P es i"
proof (induction es arbitrary: i)
  case (Cons e es)
  show ?case using Cons.IH [of "Suc i"] by auto
qed simp

lemma scan_hit: "scan P es i < i + length es \<longleftrightarrow> (\<exists>e \<in> set es. P e)"
proof (induction es arbitrary: i)
  case (Cons e es)
  show ?case using Cons.IH [of "Suc i"] by auto
qed simp

lemma scan_nth: "scan P es i < i + length es \<Longrightarrow> P (es ! (scan P es i - i))"
proof (induction es arbitrary: i)
  case (Cons e es)
  show ?case
  proof (cases "P e")
    case False
    then have "scan P es (Suc i) < Suc i + length es" using Cons.prems by simp
    then have "P (es ! (scan P es (Suc i) - Suc i))" by (rule Cons.IH)
    moreover have "Suc i \<le> scan P es (Suc i)" by (rule scan_lower)
    ultimately show ?thesis using False by (simp add: nth_Cons' Suc_diff_Suc)
  qed simp
qed simp

lemma scan_find: "find P es = (if scan P es 0 < length es then Some (es ! scan P es 0) else None)"
proof -
  have "find P es = (if scan P es i < i + length es then Some (es ! (scan P es i - i)) else None)" for i
  proof (induction es arbitrary: i)
    case (Cons e es)
    have "Suc i \<le> scan P es (Suc i)" by (rule scan_lower)
    then show ?case using Cons.IH [of "Suc i"] by (auto simp: nth_Cons')
  qed simp
  from this [of 0] show ?thesis by simp
qed


lemma scan_split:
  assumes "\<exists>e \<in> set es. P e"
  shows "\<exists>as e bs. es = as @ e # bs \<and> scan P es 0 = length as \<and> P e \<and> es ! scan P es 0 = e"
proof -
  have lt: "scan P es 0 < length es" using assms scan_hit [of P es 0] by simp
  then have "P (es ! scan P es 0)" using scan_nth [of P es 0] by simp
  moreover have "es = take (scan P es 0) es @ es ! scan P es 0 # drop (Suc (scan P es 0)) es"
    using lt by (rule id_take_nth_drop)
  ultimately show ?thesis using lt by (intro exI [of _ "take (scan P es 0) es"] exI) auto
qed

lemma fm_lookup_iff:
  assumes "fm_ok m"
  shows "fm_lookup m k = Some a \<longleftrightarrow> (\<exists>e \<in> set (fastAccess m). inUse e \<and> ekey e = k \<and> eaddr e = a)"
proof
  assume "fm_lookup m k = Some a"
  then show "\<exists>e \<in> set (fastAccess m). inUse e \<and> ekey e = k \<and> eaddr e = a"
    by (auto simp: fm_lookup_def find_Some_iff)
next
  assume "\<exists>e \<in> set (fastAccess m). inUse e \<and> ekey e = k \<and> eaddr e = a"
  then obtain e where e: "e \<in> set (fastAccess m)" "inUse e" "ekey e = k" "eaddr e = a" by blast
  then obtain f where f: "find (\<lambda>e. inUse e \<and> ekey e = k) (fastAccess m) = Some f"
    by (cases "find (\<lambda>e. inUse e \<and> ekey e = k) (fastAccess m)") (auto simp: find_None_iff)
  then have "f \<in> set (fastAccess m)" "inUse f" "ekey f = k" by (auto simp: find_Some_iff)
  moreover have "inj_on ekey (set (filter inUse (fastAccess m)))"
    using assms by (simp add: fm_ok_def distinct_map)
  ultimately have "f = e" using e by (auto dest: inj_onD)
  with f e show "fm_lookup m k = Some a" by (simp add: fm_lookup_def)
qed

lemma fm_lookup_eqI:
  assumes "fm_ok m'" "\<And>k a. (\<exists>e \<in> set (fastAccess m'). inUse e \<and> ekey e = k \<and> eaddr e = a) \<longleftrightarrow> f k = Some a"
  shows "fm_lookup m' = f"
proof
  fix k
  have "fm_lookup m' k = Some a \<longleftrightarrow> f k = Some a" for a using fm_lookup_iff [OF assms(1)] assms(2) by simp
  then show "fm_lookup m' k = f k" by (cases "f k"; cases "fm_lookup m' k") auto
qed

lemma fm_lookup_inj: "fm_ok m \<Longrightarrow> fm_lookup m k = Some a \<Longrightarrow> fm_lookup m k' = Some a \<Longrightarrow> k = k'"
proof -
  assume ok: "fm_ok m" and "fm_lookup m k = Some a" "fm_lookup m k' = Some a"
  then obtain e e' where e: "e \<in> set (fastAccess m)" "ekey e = k" "eaddr e = a"
    "e' \<in> set (fastAccess m)" "ekey e' = k'" "eaddr e' = a" by (auto simp: fm_lookup_iff)
  have "inj_on eaddr (set (fastAccess m))" using ok by (simp add: fm_ok_def distinct_map)
  then have "e = e'" using e by (auto dest: inj_onD)
  with e show ?thesis by simp
qed

lemma fm_new_ok: "fm_ok fm_new" "fm_lookup fm_new k = None"
  by (simp_all add: fm_ok_def fm_new_def fm_lookup_def)

lemma used_less: "fastAccessUsedSize m = length (filter inUse es) \<Longrightarrow> fastAccessUsedSize m \<noteq> length es \<Longrightarrow> \<exists>e \<in> set es. \<not> inUse e"
  by (metis filter_True)

lemma fm_insert_ok:
  assumes ok: "fm_ok m" and k: "fm_lookup m k = None"
  shows "\<exists>m' it a. fm_insert k m = Some (m', it) \<and> fm_ok m' \<and> it_objAddr m' it = Some a \<and> it_key m' it = Some k \<and>
     fm_lookup m' = (fm_lookup m)(k \<mapsto> a) \<and> a \<notin> ran (fm_lookup m) \<and> fm_size m' = fm_size m + 1"
proof -
  let ?new = "\<lparr>inUse = False, ekey = 0, eaddr = length (fastAccess m)\<rparr> :: PreallocEntry"
  define es where "es = (if fastAccessUsedSize m = length (fastAccess m) then ?new # fastAccess m else fastAccess m)"
  have some: "\<exists>e \<in> set es. \<not> inUse e"
    using used_less [of m "fastAccess m"] ok by (auto simp: es_def fm_ok_def)
  obtain as e bs where sp: "es = as @ e # bs" "scan (\<lambda>e. \<not> inUse e) es 0 = length as" "\<not> inUse e"
    using scan_split [OF some] by blast
  have fe: "filter inUse es = filter inUse (fastAccess m)" by (simp add: es_def)
  have de: "distinct (map eaddr es)" "\<forall>x \<in> set es. eaddr x < length es"
    using ok by (auto simp: es_def fm_ok_def less_SucI)
  let ?e = "e\<lparr>inUse := True, ekey := k\<rparr>"
  let ?m = "m\<lparr>fastAccess := as @ ?e # bs, fastAccessUsedSize := fastAccessUsedSize m + 1\<rparr>"
  have run: "fm_insert k m = Some (?m, length as)"
  proof -
    have "(if fastAccessUsedSize m = length (fastAccess m) then m\<lparr>fastAccess := ?new # fastAccess m\<rparr> else m) = m\<lparr>fastAccess := es\<rparr>"
      by (simp add: es_def)
    then show ?thesis
      using sp by (simp add: fm_insert_def Let_def it_finished_def)
  qed
  have used: "(\<exists>x \<in> set (fastAccess m). inUse x \<and> P x) \<longleftrightarrow> (\<exists>x \<in> set as \<union> set bs. inUse x \<and> P x)" for P
  proof -
    have "(\<exists>x \<in> set (fastAccess m). inUse x \<and> P x) \<longleftrightarrow> (\<exists>x \<in> set (filter inUse (fastAccess m)). P x)" by auto
    also have "\<dots> \<longleftrightarrow> (\<exists>x \<in> set as \<union> set bs. inUse x \<and> P x)" unfolding fe [symmetric] using sp by auto
    finally show ?thesis .
  qed
  have nk: "\<not> (\<exists>x \<in> set as \<union> set bs. inUse x \<and> ekey x = k)"
    using k fm_lookup_iff [OF ok, of k] used [of "\<lambda>x. ekey x = k"] by (metis option.distinct(1))
  have fd: "distinct (map ekey (filter inUse (as @ e # bs)))" "fastAccessUsedSize m = length (filter inUse (as @ e # bs))"
    using ok fe sp by (simp_all add: fm_ok_def)
  have ok': "fm_ok ?m"
    using de sp fd nk by (auto simp: fm_ok_def)
  have na: "eaddr e \<notin> ran (fm_lookup m)"
  proof
    assume "eaddr e \<in> ran (fm_lookup m)"
    then obtain k' where "fm_lookup m k' = Some (eaddr e)" by (auto simp: ran_def)
    then obtain x where "x \<in> set as \<union> set bs" "eaddr x = eaddr e"
      using fm_lookup_iff [OF ok, of k' "eaddr e"] used [of "\<lambda>x. ekey x = k' \<and> eaddr x = eaddr e"] by auto
    then show False using de(1) sp(1) by (auto simp: image_iff)
  qed
  have "fm_lookup ?m = (fm_lookup m)(k \<mapsto> eaddr e)"
  proof (rule fm_lookup_eqI [OF ok'])
    fix k' a
    have "(\<exists>x \<in> set (fastAccess ?m). inUse x \<and> ekey x = k' \<and> eaddr x = a) \<longleftrightarrow>
       k' = k \<and> a = eaddr e \<or> (\<exists>x \<in> set (fastAccess m). inUse x \<and> ekey x = k' \<and> eaddr x = a)"
      using used [of "\<lambda>x. ekey x = k' \<and> eaddr x = a"] by auto
    then show "(\<exists>x \<in> set (fastAccess ?m). inUse x \<and> ekey x = k' \<and> eaddr x = a) \<longleftrightarrow> ((fm_lookup m)(k \<mapsto> eaddr e)) k' = Some a"
      using fm_lookup_iff [OF ok, of k' a] k by (cases "k' = k") auto
  qed
  moreover have "it_objAddr ?m (length as) = Some (eaddr e)" "it_key ?m (length as) = Some k"
    by (simp_all add: it_objAddr_def it_key_def it_finished_def)
  ultimately show ?thesis using run ok' na by (auto simp: fm_size_def)
qed

lemma fm_find_hit:
  assumes "fm_lookup m k = Some a"
  shows "\<not> it_finished m (fm_find k m)" "it_objAddr m (fm_find k m) = Some a" "it_key m (fm_find k m) = Some k"
    "inUse (fastAccess m ! fm_find k m)"
proof -
  let ?P = "\<lambda>e. inUse e \<and> ekey e = k"
  have lt: "fm_find k m < length (fastAccess m)" and a: "eaddr (fastAccess m ! fm_find k m) = a"
    using assms by (auto simp: fm_lookup_def fm_find_def scan_find split: if_splits)
  have "?P (fastAccess m ! fm_find k m)"
    using scan_nth [of ?P "fastAccess m" 0] lt by (simp add: fm_find_def)
  with lt a show "\<not> it_finished m (fm_find k m)" "it_objAddr m (fm_find k m) = Some a" "it_key m (fm_find k m) = Some k"
    "inUse (fastAccess m ! fm_find k m)"
    by (simp_all add: it_finished_def it_objAddr_def it_key_def)
qed

lemma fm_find_miss: "fm_lookup m k = None \<longleftrightarrow> it_finished m (fm_find k m)"
  by (auto simp: fm_lookup_def fm_find_def scan_find it_finished_def split: if_splits)

lemma it_remove_ok:
  assumes ok: "fm_ok m" and it: "it < length (fastAccess m)" "inUse (fastAccess m ! it)" "ekey (fastAccess m ! it) = k"
  shows "\<exists>m' it'. it_remove m it = Some (m', it') \<and> fm_ok m' \<and> fm_lookup m' = (fm_lookup m)(k := None) \<and>
     fm_size m' = fm_size m - 1"
proof -
  obtain as e bs where sp: "fastAccess m = as @ e # bs" "length as = it" "inUse e" "ekey e = k"
    using id_take_nth_drop [OF it(1)] it by (metis length_take min.absorb4)
  let ?e = "e\<lparr>inUse := False\<rparr>"
  let ?m = "m\<lparr>fastAccess := as @ ?e # bs, fastAccessUsedSize := fastAccessUsedSize m - 1\<rparr>"
  have upd: "(fastAccess m)[it := (fastAccess m ! it)\<lparr>inUse := False\<rparr>] = as @ ?e # bs"
    using sp by (auto simp: list_update_append nth_append)
  have run: "\<exists>it'. it_remove m it = Some (?m, it')"
    using it sp(2) upd by (simp add: it_remove_def it_next_def it_finished_def Let_def)
  have ok': "fm_ok ?m" using ok sp by (auto simp: fm_ok_def)
  have "k \<notin> ekey ` {x \<in> set as. inUse x}" "k \<notin> ekey ` {x \<in> set bs. inUse x}"
    using ok sp by (auto simp: fm_ok_def)
  then have nk: "\<not> (\<exists>x \<in> set as \<union> set bs. inUse x \<and> ekey x = k)" by blast
  have "fm_lookup ?m = (fm_lookup m)(k := None)"
  proof (rule fm_lookup_eqI [OF ok'])
    fix k' a
    show "(\<exists>x \<in> set (fastAccess ?m). inUse x \<and> ekey x = k' \<and> eaddr x = a) \<longleftrightarrow> ((fm_lookup m)(k := None)) k' = Some a"
      using fm_lookup_iff [OF ok, of k' a] sp nk by (cases "k' = k") auto
  qed
  with run ok' show ?thesis by (auto simp: fm_size_def)
qed

lemma fm_size_card: "fm_ok m \<Longrightarrow> fm_size m = card (dom (fm_lookup m))"
proof -
  assume ok: "fm_ok m"
  have "dom (fm_lookup m) = set (map ekey (filter inUse (fastAccess m)))"
    using fm_lookup_iff [OF ok] by auto
  then have "card (dom (fm_lookup m)) = length (map ekey (filter inUse (fastAccess m)))"
    using ok by (simp only: fm_ok_def distinct_card)
  then show ?thesis using ok by (simp add: fm_size_def fm_ok_def)
qed


subsection \<open>Iteration\<close>

text \<open>The entries that \<open>for (it = begin(); !it.finished(); it.next())\<close> visits; fuel bounds the steps.\<close>

fun visit :: "nat \<Rightarrow> FastMapNoAlloc \<Rightarrow> nat \<Rightarrow> PreallocEntry list option" where
  "visit 0 m it = None"
| "visit (Suc n) m it =
     (if it_finished m it then Some []
      else do {
        it1 \<leftarrow> it_next m it;
        es \<leftarrow> visit n m it1;
        Some (fastAccess m ! it # es)
      })"

lemma filter_scan: "filter P es = (if scan P es i < i + length es
    then es ! (scan P es i - i) # filter P (drop (Suc (scan P es i - i)) es) else [])"
proof (induction es arbitrary: i)
  case (Cons e es)
  have "Suc i \<le> scan P es (Suc i)" by (rule scan_lower)
  then have "Suc (scan P es (Suc i) - Suc i) = scan P es (Suc i) - i" "scan P es (Suc i) - i \<noteq> 0" by linarith+
  then show ?case using Cons.IH [of "Suc i"] by (auto simp: nth_Cons')
qed simp

lemma visit_from:
  assumes "it = scan inUse (drop j (fastAccess m)) j" "j \<le> length (fastAccess m)" "length (fastAccess m) - j < n"
  shows "visit n m it = Some (filter inUse (drop j (fastAccess m)))"
  using assms
proof (induction n arbitrary: it j)
  case 0
  then show ?case by simp
next
  case (Suc n)
  let ?es = "drop j (fastAccess m)"
  note fs = filter_scan [of inUse ?es j]
  have lower: "j \<le> it" unfolding Suc.prems(1) by (rule scan_lower)
  show ?case
  proof (cases "it < length (fastAccess m)")
    case False
    then have "filter inUse ?es = []" using fs Suc.prems(1,2) by simp
    with False show ?thesis by (simp add: it_finished_def)
  next
    case True
    have "visit n m (scan inUse (drop (Suc it) (fastAccess m)) (Suc it)) = Some (filter inUse (drop (Suc it) (fastAccess m)))"
      by (rule Suc.IH) (use True lower Suc.prems(3) in auto)
    moreover have "filter inUse ?es = fastAccess m ! it # filter inUse (drop (Suc it) (fastAccess m))"
      using fs Suc.prems(1,2) True lower by (simp add: add.commute)
    ultimately show ?thesis using True by (simp add: it_finished_def it_next_def)
  qed
qed

lemma visit_all: "visit (Suc (length (fastAccess m))) m (fm_begin m) = Some (filter inUse (fastAccess m))"
  using visit_from [of "fm_begin m" 0 m "Suc (length (fastAccess m))"] by (simp add: fm_begin_def del: visit.simps)

subsection \<open>The interface of a map with stable value addresses\<close>

text \<open>What the Locker relies on: a finite map from resources to the addresses of their requests, in
  which an address once given to a key is not given to another while that key is present.\<close>

locale address_map =
  fixes ok :: "'m \<Rightarrow> bool"
    and lookup :: "'m \<Rightarrow> ResourceId \<rightharpoonup> nat"
    and insert_key :: "ResourceId \<Rightarrow> 'm \<Rightarrow> 'm option"
    and remove_key :: "ResourceId \<Rightarrow> 'm \<Rightarrow> 'm option"
  assumes insert_law: "ok m \<Longrightarrow> lookup m k = None \<Longrightarrow>
      \<exists>m' a. insert_key k m = Some m' \<and> ok m' \<and> lookup m' = (lookup m)(k \<mapsto> a) \<and> a \<notin> ran (lookup m)"
    and remove_law: "ok m \<Longrightarrow> lookup m k = Some a \<Longrightarrow>
      \<exists>m'. remove_key k m = Some m' \<and> ok m' \<and> lookup m' = (lookup m)(k := None)"
begin

fun insert_keys :: "ResourceId list \<Rightarrow> 'm \<Rightarrow> 'm option" where
  "insert_keys [] m = Some m"
| "insert_keys (k # ks) m = Option.bind (insert_key k m) (insert_keys ks)"

text \<open>Keys already present keep their address however many others are added.\<close>

lemma insert_keys_ok:
  assumes "ok m" "distinct ks" "set ks \<inter> dom (lookup m) = {}"
  shows "\<exists>m'. insert_keys ks m = Some m' \<and> ok m' \<and> dom (lookup m') = dom (lookup m) \<union> set ks \<and> lookup m \<subseteq>\<^sub>m lookup m'"
  using assms
proof (induction ks arbitrary: m)
  case Nil
  then show ?case by simp
next
  case (Cons k ks)
  then have "lookup m k = None" by auto
  then obtain m1 a where 1: "insert_key k m = Some m1" "ok m1" "lookup m1 = (lookup m)(k \<mapsto> a)"
    using insert_law [OF Cons.prems(1)] by blast
  have "set ks \<inter> dom (lookup m1) = {}" using Cons.prems 1(3) by auto
  from Cons.IH [OF 1(2) _ this] Cons.prems obtain m' where
    "insert_keys ks m1 = Some m'" "ok m'" "dom (lookup m') = dom (lookup m1) \<union> set ks" "lookup m1 \<subseteq>\<^sub>m lookup m'" by auto
  moreover have "lookup m \<subseteq>\<^sub>m lookup m1" using 1(3) \<open>lookup m k = None\<close> by (auto simp: map_le_def)
  ultimately show ?case using 1 by (auto intro: map_le_trans)
qed

end

definition fm_insert_key :: "ResourceId \<Rightarrow> FastMapNoAlloc \<Rightarrow> FastMapNoAlloc option" where
  "fm_insert_key k m = map_option fst (fm_insert k m)"

definition fm_remove_key :: "ResourceId \<Rightarrow> FastMapNoAlloc \<Rightarrow> FastMapNoAlloc option" where
  "fm_remove_key k m = map_option fst (it_remove m (fm_find k m))"

lemma fm_remove_key_ok:
  assumes "fm_ok m" "fm_lookup m k = Some a"
  shows "\<exists>m'. fm_remove_key k m = Some m' \<and> fm_ok m' \<and> fm_lookup m' = (fm_lookup m)(k := None)"
proof -
  note hit = fm_find_hit [OF assms(2)]
  have "fm_find k m < length (fastAccess m)" "ekey (fastAccess m ! fm_find k m) = k"
    using hit(1,3) by (auto simp: it_finished_def it_key_def split: if_splits)
  from it_remove_ok [OF assms(1) this(1) hit(4) this(2)] show ?thesis by (auto simp: fm_remove_key_def)
qed

interpretation fm: address_map fm_ok fm_lookup fm_insert_key fm_remove_key
proof
  show "\<exists>m' a. fm_insert_key k m = Some m' \<and> fm_ok m' \<and> fm_lookup m' = (fm_lookup m)(k \<mapsto> a) \<and> a \<notin> ran (fm_lookup m)"
    if "fm_ok m" "fm_lookup m k = None" for m k
    using fm_insert_ok [OF that] by (auto simp: fm_insert_key_def)
qed (rule fm_remove_key_ok)

subsection \<open>Properties\<close>

text \<open>(C15) The map from resources to lock requests implements a finite map: an insertion of an absent key adds
  exactly that key with an address no other key has, a removal at the iterator found for a key
  takes out exactly that key, \<open>find\<close> is finished exactly for absent keys and otherwise points to
  the key's entry, \<open>size\<close> is the number of keys, and iterating from \<open>begin\<close> visits every used
  entry exactly once and ends.\<close>

theorem fast_map_refines_map:
  assumes "fm_ok m"
  shows "(fm_lookup m k = None \<longrightarrow> it_finished m (fm_find k m) \<and>
       (\<exists>m' it a. fm_insert k m = Some (m', it) \<and> fm_ok m' \<and> it_objAddr m' it = Some a \<and>
          fm_lookup m' = (fm_lookup m)(k \<mapsto> a) \<and> a \<notin> ran (fm_lookup m))) \<and>
     (fm_lookup m k = Some a \<longrightarrow> it_objAddr m (fm_find k m) = Some a \<and>
       (\<exists>m' it'. it_remove m (fm_find k m) = Some (m', it') \<and> fm_ok m' \<and> fm_lookup m' = (fm_lookup m)(k := None))) \<and>
     fm_size m = card (dom (fm_lookup m)) \<and>
     visit (Suc (length (fastAccess m))) m (fm_begin m) = Some (filter inUse (fastAccess m))"
proof (intro conjI impI)
  assume none: "fm_lookup m k = None"
  show "it_finished m (fm_find k m)" using none fm_find_miss by blast
  show "\<exists>m' it a. fm_insert k m = Some (m', it) \<and> fm_ok m' \<and> it_objAddr m' it = Some a \<and>
      fm_lookup m' = (fm_lookup m)(k \<mapsto> a) \<and> a \<notin> ran (fm_lookup m)"
    using fm_insert_ok [OF assms none] by blast
next
  assume some: "fm_lookup m k = Some a"
  show "it_objAddr m (fm_find k m) = Some a" using fm_find_hit [OF some] by simp
  show "\<exists>m' it'. it_remove m (fm_find k m) = Some (m', it') \<and> fm_ok m' \<and> fm_lookup m' = (fm_lookup m)(k := None)"
    using fm.remove_law [OF assms some] by (auto simp: fm_remove_key_def)
qed (use fm_size_card [OF assms] visit_all in blast)+

theorem fast_map_refines_map_witness:
  "fm_lookup fm_new 5 = None \<and>
   (\<exists>m' it a. fm_insert 5 fm_new = Some (m', it) \<and> fm_ok m' \<and> it_objAddr m' it = Some a \<and>
      fm_lookup m' = (fm_lookup fm_new)(5 \<mapsto> a))"
  using fast_map_refines_map [OF fm_new_ok(1), of 5] fm_new_ok(2) by blast

end
