(* ===== verification/Locker.thy ===== *)
theory Locker
  imports LockManager FastMap
begin

text \<open>
  \<open>class LockerImpl\<close> of \<^verbatim>\<open>db/concurrency/lock_state.cpp\<close>: what one operation does with the
  lock manager. The state is the Locker, the lock manager and the ticket holders. A call
  \<^item> returns \<open>None\<close> when an assertion of the source fails and the process aborts,
  \<^item> is \<open>Throw\<close> for an exception (lock timeout, interrupted operation), with the state
    as the unwinding leaves it,
  \<^item> is \<open>Blocked\<close> when it still waits after all the wake-ups it was given.
  What other threads do while this one sleeps is part of the environment: each wake-up carries the
  lock manager as the others left it. Lock statistics are left out, they have no influence.
\<close>

datatype ClientState = kInactive | kActiveReader | kActiveWriter | kQueuedReader | kQueuedWriter

record OneLock =
  one_resourceId :: ResourceId
  one_mode :: LockMode

record LockSnapshot =
  globalMode :: LockMode
  locks :: "OneLock list"

record WUOWLockSnapshot =
  saved_nestingLevel :: nat
  unlockPendingLocks :: "OneLock list"

record Locker =
  lockerId :: LockerId
  requests :: FastMapNoAlloc
  notifySeen :: nat
  wuowNestingLevel :: nat
  modeForTicket :: LockMode
  clientState :: ClientState
  sharedLocksShouldTwoPhaseLock :: bool
  maxLockTimeout :: "int option"
  globalLockMode :: "8 word"
  wasGlobalLockTakenInModeConflictingWithWrites :: bool
  uninterruptibleLocksRequested :: nat
  numResourcesToUnlockAtEndUnitOfWork :: nat
  shouldConflictWithSecondaryBatchApplication :: bool
  shouldAcquireTicket :: bool

definition newLocker :: "LockerId \<Rightarrow> Locker" where
  "newLocker i =
     \<lparr>lockerId = i, requests = fm_new, notifySeen = 0, wuowNestingLevel = 0, modeForTicket = MODE_NONE,
      clientState = kInactive, sharedLocksShouldTwoPhaseLock = False, maxLockTimeout = None,
      globalLockMode = 1, wasGlobalLockTakenInModeConflictingWithWrites = False,
      uninterruptibleLocksRequested = 0, numResourcesToUnlockAtEndUnitOfWork = 0,
      shouldConflictWithSecondaryBatchApplication = True, shouldAcquireTicket = True\<rparr>"

text \<open>The tickets left in the holders for reading and for writing, if these are installed.\<close>

record LState =
  lk :: Locker
  lmgr :: LockManager
  readTickets :: "nat option"
  writeTickets :: "nat option"

datatype lock_error = LockTimeout | InterruptedError int | AssertionException int

datatype 'a result = Done 'a | Throw lock_error | Blocked

type_synonym 'a step = "('a result \<times> LState) option"

definition andThen :: "'a step \<Rightarrow> ('a \<Rightarrow> LState \<Rightarrow> 'b step) \<Rightarrow> 'b step" where
  "andThen x f =
     (case x of
        None \<Rightarrow> None
      | Some (Done a, s) \<Rightarrow> f a s
      | Some (Throw e, s) \<Rightarrow> Some (Throw e, s)
      | Some (Blocked, s) \<Rightarrow> Some (Blocked, s))"

definition check :: "bool \<Rightarrow> 'a step \<Rightarrow> 'a step" where
  "check b x = (if b then x else None)"

text \<open>A wake-up of a waiting Locker: what others did to the lock manager since, the milliseconds waited in total, and
  whether the operation has been interrupted.\<close>

record WakeUp =
  w_lmgr :: "LockManager \<Rightarrow> LockManager"
  w_elapsed :: int
  w_interrupt :: "lock_error option"

datatype TicketWait = TicketGranted | TicketTimeout | TicketInterrupted lock_error

text \<open>The environment of one call: the operation context (if any) and its interruption, the storage
  engine, the clock, the failpoint for user operations, and how waits end.\<close>

record LEnv =
  hasOpCtx :: bool
  interruptStatus :: "lock_error option"
  supportsDBLocking :: bool
  nowMillis :: int
  failNonIntentLocks :: bool
  ticketWait :: TicketWait
  flowControlTicket :: "TicketWait option"
  wakeUps :: "WakeUp list"

subsection \<open>Requests\<close>

definition it_req :: "Locker \<Rightarrow> nat \<Rightarrow> req option" where
  "it_req L it = map_option (Slot (lockerId L)) (it_objAddr (requests L) it)"

definition find_req :: "ResourceId \<Rightarrow> LState \<Rightarrow> LockRequest option" where
  "find_req resId s = map_option (requestStore (lmgr s)) (it_req (lk s) (fm_find resId (requests (lk s))))"

definition upd_req :: "req \<Rightarrow> (LockRequest \<Rightarrow> LockRequest) \<Rightarrow> LState \<Rightarrow> LState" where
  "upd_req r f s =
     s\<lparr>lmgr := (lmgr s)\<lparr>requestStore := (requestStore (lmgr s))(r := f (requestStore (lmgr s) r))\<rparr>\<rparr>"

definition inAWriteUnitOfWork :: "Locker \<Rightarrow> bool" where
  "inAWriteUnitOfWork L \<longleftrightarrow> wuowNestingLevel L > 0"

definition shouldDelayUnlock :: "Locker \<Rightarrow> ResourceId \<Rightarrow> LockMode \<Rightarrow> bool option" where
  "shouldDelayUnlock L resId m =
     (case getType resId of
        RESOURCE_MUTEX \<Rightarrow> Some False
      | RESOURCE_INVALID \<Rightarrow> None
      | _ \<Rightarrow> (case m of
                MODE_X \<Rightarrow> Some True
              | MODE_IX \<Rightarrow> Some True
              | MODE_IS \<Rightarrow> Some (sharedLocksShouldTwoPhaseLock L)
              | MODE_S \<Rightarrow> Some (sharedLocksShouldTwoPhaseLock L)
              | MODE_NONE \<Rightarrow> None))"

definition getLockMode :: "ResourceId \<Rightarrow> LState \<Rightarrow> LockMode" where
  "getLockMode resId s = (case find_req resId s of None \<Rightarrow> MODE_NONE | Some x \<Rightarrow> mode x)"

definition isLockHeldForMode :: "ResourceId \<Rightarrow> LockMode \<Rightarrow> LState \<Rightarrow> bool" where
  "isLockHeldForMode resId m s \<longleftrightarrow> isModeCovered m (getLockMode resId s)"

definition isW :: "LState \<Rightarrow> bool" where
  "isW s \<longleftrightarrow> getLockMode resourceIdGlobal s = MODE_X"

definition isR :: "LState \<Rightarrow> bool" where
  "isR s \<longleftrightarrow> getLockMode resourceIdGlobal s = MODE_S"

definition isLocked :: "LState \<Rightarrow> bool" where
  "isLocked s \<longleftrightarrow> getLockMode resourceIdGlobal s \<noteq> MODE_NONE"

definition isWriteLocked :: "LState \<Rightarrow> bool" where
  "isWriteLocked s \<longleftrightarrow> isLockHeldForMode resourceIdGlobal MODE_IX s"

definition isReadLocked :: "LState \<Rightarrow> bool" where
  "isReadLocked s \<longleftrightarrow> isLockHeldForMode resourceIdGlobal MODE_IS s"

definition isRSTLExclusive :: "LState \<Rightarrow> bool" where
  "isRSTLExclusive s \<longleftrightarrow> getLockMode resourceIdReplicationStateTransitionLock s = MODE_X"

definition isRSTLLocked :: "LState \<Rightarrow> bool" where
  "isRSTLLocked s \<longleftrightarrow> getLockMode resourceIdReplicationStateTransitionLock s \<noteq> MODE_NONE"

text \<open>\<open>dbId\<close> and \<open>collId\<close> are the resource identifiers of the database and the collection names.\<close>

definition isDbLockedForMode :: "ResourceId \<Rightarrow> LockMode \<Rightarrow> LState \<Rightarrow> bool" where
  "isDbLockedForMode dbId m s \<longleftrightarrow>
     (if isW s then True
      else if isR s \<and> isSharedLockMode m then True
      else isLockHeldForMode dbId m s)"

definition isCollectionLockedForMode :: "ResourceId \<Rightarrow> ResourceId \<Rightarrow> LockMode \<Rightarrow> LState \<Rightarrow> bool" where
  "isCollectionLockedForMode dbId collId m s \<longleftrightarrow>
     (if isW s then True
      else if isR s \<and> isSharedLockMode m then True
      else let dbMode = getLockMode dbId s in
        if \<not> shouldConflictWithSecondaryBatchApplication (lk s) then True
        else case dbMode of
            MODE_NONE \<Rightarrow> False
          | MODE_X \<Rightarrow> True
          | MODE_S \<Rightarrow> isSharedLockMode m
          | MODE_IX \<Rightarrow> isLockHeldForMode collId m s
          | MODE_IS \<Rightarrow> isLockHeldForMode collId m s)"

definition modeBit :: "LockMode \<Rightarrow> 8 word" where
  "modeBit m = push_bit (mode_val m) 1"

definition wasGlobalLockTakenForWrite :: "Locker \<Rightarrow> bool" where
  "wasGlobalLockTakenForWrite L \<longleftrightarrow> globalLockMode L AND (modeBit MODE_IX OR modeBit MODE_X) \<noteq> 0"

definition wasGlobalLockTaken :: "Locker \<Rightarrow> bool" where
  "wasGlobalLockTaken L \<longleftrightarrow> globalLockMode L \<noteq> modeBit MODE_NONE"

definition setGlobalLockTakenInMode :: "LockMode \<Rightarrow> Locker \<Rightarrow> Locker" where
  "setGlobalLockTakenInMode m L =
     (let L1 = L\<lparr>globalLockMode := globalLockMode L OR modeBit m\<rparr>
      in if m = MODE_IX \<or> m = MODE_X \<or> m = MODE_S
         then L1\<lparr>wasGlobalLockTakenInModeConflictingWithWrites := True\<rparr> else L1)"

text \<open>The loop of \<open>getWaitingResource\<close> over the used entries; no resource is the invalid identifier 0.\<close>

definition getWaitingResource :: "LState \<Rightarrow> ResourceId" where
  "getWaitingResource s =
     (case find (\<lambda>e. status (requestStore (lmgr s) (Slot (lockerId (lk s)) (eaddr e)))
                     \<in> {STATUS_WAITING, STATUS_CONVERTING})
             (filter inUse (fastAccess (requests (lk s)))) of
        None \<Rightarrow> 0
      | Some e \<Rightarrow> ekey e)"

definition hasLockPending :: "LState \<Rightarrow> bool" where
  "hasLockPending s \<longleftrightarrow> isValid (getWaitingResource s)"

definition getClientState :: "LState \<Rightarrow> ClientState" where
  "getClientState s =
     (let state = clientState (lk s);
          state1 = (if state = kActiveReader \<and> hasLockPending s then kQueuedReader else state)
      in if state1 = kActiveWriter \<and> hasLockPending s then kQueuedWriter else state1)"

definition getLockerInfo_locks :: "LState \<Rightarrow> OneLock list" where
  "getLockerInfo_locks s =
     sort_key one_resourceId
       (map (\<lambda>e. \<lparr>one_resourceId = ekey e,
                  one_mode = mode (requestStore (lmgr s) (Slot (lockerId (lk s)) (eaddr e)))\<rparr>)
          (filter inUse (fastAccess (requests (lk s)))))"

definition isGlobalLockedRecursively :: "LState \<Rightarrow> bool" where
  "isGlobalLockedRecursively s \<longleftrightarrow>
     (case find_req resourceIdGlobal s of None \<Rightarrow> False | Some x \<Rightarrow> recursiveCount x > 1)"

subsection \<open>Tickets\<close>

text \<open>\<open>ticketHolders[mode]\<close>: reading for S and IS, writing for IX, none for X.\<close>

definition ticketsFor :: "LockMode \<Rightarrow> LState \<Rightarrow> nat option" where
  "ticketsFor m s =
     (case m of MODE_S \<Rightarrow> readTickets s | MODE_IS \<Rightarrow> readTickets s | MODE_IX \<Rightarrow> writeTickets s
      | MODE_X \<Rightarrow> None | MODE_NONE \<Rightarrow> None)"

definition setTicketsFor :: "LockMode \<Rightarrow> nat \<Rightarrow> LState \<Rightarrow> LState" where
  "setTicketsFor m n s =
     (if m = MODE_S \<or> m = MODE_IS then s\<lparr>readTickets := Some n\<rparr>
      else if m = MODE_IX then s\<lparr>writeTickets := Some n\<rparr> else s)"

definition upd_lk :: "(Locker \<Rightarrow> Locker) \<Rightarrow> LState \<Rightarrow> LState" where
  "upd_lk f s = s\<lparr>lk := f (lk s)\<rparr>"

text \<open>
  A ticket that is there is taken; otherwise the thread waits, and the environment says how
  the wait ends. A wait without a deadline cannot time out. An exception out of the wait puts the client
  state back to inactive, and so does a timeout, by the same scope guard.
\<close>

definition acquireTicket :: "LEnv \<Rightarrow> LockMode \<Rightarrow> int option \<Rightarrow> LState \<Rightarrow> bool step" where
  "acquireTicket env m deadline s =
     (let reader = isSharedLockMode m;
          active = upd_lk (\<lambda>L. L\<lparr>clientState := (if reader then kActiveReader else kActiveWriter)\<rparr>);
          queued = upd_lk (\<lambda>L. L\<lparr>clientState := (if reader then kQueuedReader else kQueuedWriter)\<rparr>);
          inactive = upd_lk (\<lambda>L. L\<lparr>clientState := kInactive\<rparr>);
          interruptible = hasOpCtx env \<and> uninterruptibleLocksRequested (lk s) = 0
      in case (if shouldAcquireTicket (lk s) then ticketsFor m s else None) of
           None \<Rightarrow> Some (Done True, active s)
         | Some (Suc n) \<Rightarrow> Some (Done True, active (setTicketsFor m n (queued s)))
         | Some 0 \<Rightarrow>
             (case ticketWait env of
                TicketGranted \<Rightarrow> Some (Done True, active (queued s))
              | TicketTimeout \<Rightarrow>
                  (if deadline = None then Some (Blocked, queued s) else Some (Done False, inactive (queued s)))
              | TicketInterrupted e \<Rightarrow>
                  (if interruptible then Some (Throw e, inactive (queued s)) else Some (Blocked, queued s))))"

definition releaseTicket_impl :: "LState \<Rightarrow> LState" where
  "releaseTicket_impl s =
     (let s1 = (case (if shouldAcquireTicket (lk s) then ticketsFor (modeForTicket (lk s)) s else None) of
                  None \<Rightarrow> s
                | Some n \<Rightarrow> setTicketsFor (modeForTicket (lk s)) (Suc n) s)
      in upd_lk (\<lambda>L. L\<lparr>clientState := kInactive\<rparr>) s1)"

definition releaseTicket :: "LState \<Rightarrow> unit step" where
  "releaseTicket s = check (modeForTicket (lk s) \<noteq> MODE_NONE) (Some (Done (), releaseTicket_impl s))"

definition reacquireTicket :: "LEnv \<Rightarrow> LState \<Rightarrow> unit step" where
  "reacquireTicket env s =
     check (modeForTicket (lk s) \<noteq> MODE_NONE)
       (let c = clientState (lk s); reader = isSharedLockMode (modeForTicket (lk s))
        in check (c = kInactive \<or> c = kActiveReader \<and> reader \<or> c = kActiveWriter \<and> \<not> reader)
          (if c \<noteq> kInactive then Some (Done (), s)
           else if maxLockTimeout (lk s) = None \<or> uninterruptibleLocksRequested (lk s) > 0
           then andThen (acquireTicket env (modeForTicket (lk s)) None s) (\<lambda>ok s1. check ok (Some (Done (), s1)))
           else andThen (acquireTicket env (modeForTicket (lk s))
                   (map_option (\<lambda>t. nowMillis env + t) (maxLockTimeout (lk s))) s)
                 (\<lambda>ok s1. if ok then Some (Done (), s1) else Some (Throw LockTimeout, s1))))"

subsection \<open>Unlocking\<close>

definition unlockImpl :: "nat \<Rightarrow> LState \<Rightarrow> ((bool \<times> nat) result \<times> LState) option" where
  "unlockImpl it s =
     do {
       r \<leftarrow> it_req (lk s) it;
       (released, lm1) \<leftarrow> LockManager_unlock r (lmgr s);
       let s1 = s\<lparr>lmgr := lm1\<rparr>;
       if released
       then do {
         k \<leftarrow> it_key (requests (lk s1)) it;
         s2 \<leftarrow> (if k = resourceIdGlobal
                 then do {
                   invariant (modeForTicket (lk s1) \<noteq> MODE_NONE);
                   let s2 = (if clientState (lk s1) \<noteq> kInactive then releaseTicket_impl s1 else s1);
                   Some (upd_lk (\<lambda>L. L\<lparr>modeForTicket := MODE_NONE\<rparr>) s2)
                 }
                 else Some s1);
         (m, it1) \<leftarrow> it_remove (requests (lk s2)) it;
         Some (Done (True, it1), upd_lk (\<lambda>L. L\<lparr>requests := m\<rparr>) s2)
       }
       else Some (Done (False, it), s1)
     }"

definition Locker_unlock :: "ResourceId \<Rightarrow> LState \<Rightarrow> bool step" where
  "Locker_unlock resId s =
     (let it = fm_find resId (requests (lk s))
      in if it_finished (requests (lk s)) it then Some (Done False, s)
         else do {
           r \<leftarrow> it_req (lk s) it;
           let x = requestStore (lmgr s) r;
           delay \<leftarrow> (if inAWriteUnitOfWork (lk s) then shouldDelayUnlock (lk s) resId (mode x) else Some False);
           if delay
           then if recursiveCount x > 1
             then andThen (unlockImpl it s) (\<lambda>(b, it1) s1. check (\<not> b) (Some (Done False, s1)))
             else do {
               let s1 = (if unlockPending x = 0
                         then upd_lk (\<lambda>L. L\<lparr>numResourcesToUnlockAtEndUnitOfWork :=
                                numResourcesToUnlockAtEndUnitOfWork L + 1\<rparr>) s else s);
               let s2 = upd_req r (\<lambda>x. x\<lparr>unlockPending := unlockPending x + 1\<rparr>) s1;
               invariant (unlockPending x + 1 \<le> recursiveCount x);
               Some (Done False, s2)
             }
           else andThen (unlockImpl it s) (\<lambda>(b, it1) s1. Some (Done b, s1))
         })"

definition unlockRSTLforPrepare :: "LState \<Rightarrow> bool step" where
  "unlockRSTLforPrepare s =
     (let it = fm_find resourceIdReplicationStateTransitionLock (requests (lk s))
      in if it_finished (requests (lk s)) it then Some (Done False, s)
         else do {
           r \<leftarrow> it_req (lk s) it;
           let s1 = (if unlockPending (requestStore (lmgr s) r) > 0
                     then upd_lk (\<lambda>L. L\<lparr>numResourcesToUnlockAtEndUnitOfWork :=
                            numResourcesToUnlockAtEndUnitOfWork L - 1\<rparr>)
                          (upd_req r (\<lambda>x. x\<lparr>unlockPending := 0\<rparr>) s)
                     else s);
           let s2 = upd_req r (\<lambda>x. x\<lparr>recursiveCount := 1\<rparr>) s1;
           andThen (unlockImpl it s2) (\<lambda>(b, it1) s3. Some (Done b, s3))
         })"

text \<open>The loop of \<open>unlockGlobal\<close>; fuel bounds the number of entries it walks over.\<close>

fun unlockChildren :: "nat \<Rightarrow> nat \<Rightarrow> LState \<Rightarrow> unit step" where
  "unlockChildren n it s =
     (if it_finished (requests (lk s)) it then Some (Done (), s)
      else case n of
        0 \<Rightarrow> None
      | Suc n1 \<Rightarrow>
          do {
            k \<leftarrow> it_key (requests (lk s)) it;
            if getType k \<in> {RESOURCE_GLOBAL, RESOURCE_PBWM, RESOURCE_RSTL, RESOURCE_MUTEX}
            then do { it1 \<leftarrow> it_next (requests (lk s)) it; unlockChildren n1 it1 s }
            else andThen (unlockImpl it s) (\<lambda>(b, it1) s1. check b (unlockChildren n1 it1 s1))
          })"

definition unlockGlobal :: "LState \<Rightarrow> bool step" where
  "unlockGlobal s =
     andThen (Locker_unlock resourceIdGlobal s) (\<lambda>b s1.
       if \<not> b then Some (Done False, s1)
       else check (\<not> inAWriteUnitOfWork (lk s1))
         (andThen (unlockChildren (length (fastAccess (requests (lk s1)))) (fm_begin (requests (lk s1))) s1)
           (\<lambda>_ s2. Some (Done True, s2))))"

subsection \<open>Write units of work\<close>

definition beginWriteUnitOfWork :: "LState \<Rightarrow> LState" where
  "beginWriteUnitOfWork s = upd_lk (\<lambda>L. L\<lparr>wuowNestingLevel := wuowNestingLevel L + 1\<rparr>) s"

text \<open>The inner loop: the pending unlocks of one request, at most as many as there are at its start.\<close>

fun fulfilPending :: "nat \<Rightarrow> nat \<Rightarrow> LState \<Rightarrow> unit step" where
  "fulfilPending n it s =
     do {
       r \<leftarrow> it_req (lk s) it;
       if unlockPending (requestStore (lmgr s) r) = 0 then Some (Done (), s)
       else case n of
         0 \<Rightarrow> None
       | Suc n1 \<Rightarrow>
           do {
             let s1 = upd_req r (\<lambda>x. x\<lparr>unlockPending := unlockPending x - 1\<rparr>) s;
             k \<leftarrow> it_key (requests (lk s1)) it;
             andThen (Locker_unlock k s1) (\<lambda>_ s2. fulfilPending n1 it s2)
           }
     }"

fun endUnitOfWorkLoop :: "nat \<Rightarrow> nat \<Rightarrow> LState \<Rightarrow> unit step" where
  "endUnitOfWorkLoop n it s =
     (if numResourcesToUnlockAtEndUnitOfWork (lk s) = 0 then Some (Done (), s)
      else case n of
        0 \<Rightarrow> None
      | Suc n1 \<Rightarrow>
          do {
            r \<leftarrow> it_req (lk s) it;
            let pending = unlockPending (requestStore (lmgr s) r);
            let s1 = (if pending > 0
                      then upd_lk (\<lambda>L. L\<lparr>numResourcesToUnlockAtEndUnitOfWork :=
                             numResourcesToUnlockAtEndUnitOfWork L - 1\<rparr>) s
                      else s);
            andThen (fulfilPending pending it s1) (\<lambda>_ s2.
              case it_next (requests (lk s2)) it of None \<Rightarrow> None | Some it1 \<Rightarrow> endUnitOfWorkLoop n1 it1 s2)
          })"

definition endWriteUnitOfWork :: "LState \<Rightarrow> unit step" where
  "endWriteUnitOfWork s =
     check (wuowNestingLevel (lk s) > 0)
       (let s1 = upd_lk (\<lambda>L. L\<lparr>wuowNestingLevel := wuowNestingLevel L - 1\<rparr>) s
        in if wuowNestingLevel (lk s1) > 0 then Some (Done (), s1)
           else endUnitOfWorkLoop (length (fastAccess (requests (lk s1)))) (fm_begin (requests (lk s1))) s1)"


text \<open>
  \<open>releaseWriteUnitOfWork\<close> takes the pending unlocks off their requests and remembers them;
  a request with several pending unlocks is remembered that often.
\<close>

fun releaseLoop :: "nat \<Rightarrow> nat \<Rightarrow> OneLock list \<Rightarrow> LState \<Rightarrow> (OneLock list) step" where
  "releaseLoop n it out s =
     (if numResourcesToUnlockAtEndUnitOfWork (lk s) = 0 then Some (Done out, s)
      else case n of
        0 \<Rightarrow> None
      | Suc n1 \<Rightarrow>
          do {
            r \<leftarrow> it_req (lk s) it;
            k \<leftarrow> it_key (requests (lk s)) it;
            let x = requestStore (lmgr s) r;
            let out1 = out @ replicate (unlockPending x) \<lparr>one_resourceId = k, one_mode = mode x\<rparr>;
            let s1 = (if unlockPending x > 0
                      then upd_lk (\<lambda>L. L\<lparr>numResourcesToUnlockAtEndUnitOfWork :=
                             numResourcesToUnlockAtEndUnitOfWork L - 1\<rparr>)
                           (upd_req r (\<lambda>x. x\<lparr>unlockPending := 0\<rparr>) s)
                      else s);
            it1 \<leftarrow> it_next (requests (lk s1)) it;
            releaseLoop n1 it1 out1 s1
          })"

definition releaseWriteUnitOfWork :: "LState \<Rightarrow> WUOWLockSnapshot step" where
  "releaseWriteUnitOfWork s =
     (let level = wuowNestingLevel (lk s);
          s1 = upd_lk (\<lambda>L. L\<lparr>wuowNestingLevel := 0\<rparr>) s
      in andThen (releaseLoop (length (fastAccess (requests (lk s1)))) (fm_begin (requests (lk s1))) [] s1)
           (\<lambda>out s2. Some (Done \<lparr>saved_nestingLevel = level, unlockPendingLocks = out\<rparr>, s2)))"

text \<open>The search of \<open>restoreWriteUnitOfWork\<close> for a request of that resource in that mode.\<close>

definition findPendingLock :: "OneLock \<Rightarrow> LState \<Rightarrow> req option" where
  "findPendingLock l s =
     map_option (\<lambda>e. Slot (lockerId (lk s)) (eaddr e))
       (find (\<lambda>e. ekey e = one_resourceId l \<and>
                  mode (requestStore (lmgr s) (Slot (lockerId (lk s)) (eaddr e))) = one_mode l)
          (filter inUse (fastAccess (requests (lk s)))))"

fun restorePending :: "OneLock list \<Rightarrow> LState \<Rightarrow> LState option" where
  "restorePending [] s = Some s"
| "restorePending (l # ls) s =
     do {
       r \<leftarrow> findPendingLock l s;
       let s1 = (if unlockPending (requestStore (lmgr s) r) = 0
                 then upd_lk (\<lambda>L. L\<lparr>numResourcesToUnlockAtEndUnitOfWork :=
                        numResourcesToUnlockAtEndUnitOfWork L + 1\<rparr>) s else s);
       restorePending ls (upd_req r (\<lambda>x. x\<lparr>unlockPending := unlockPending x + 1\<rparr>) s1)
     }"

definition restoreWriteUnitOfWork :: "WUOWLockSnapshot \<Rightarrow> LState \<Rightarrow> unit step" where
  "restoreWriteUnitOfWork w s =
     check (numResourcesToUnlockAtEndUnitOfWork (lk s) = 0)
       (check (\<not> inAWriteUnitOfWork (lk s))
         (do {
            s1 \<leftarrow> restorePending (unlockPendingLocks w) s;
            Some (Done (), upd_lk (\<lambda>L. L\<lparr>wuowNestingLevel := saved_nestingLevel w\<rparr>) s1)
          }))"

subsection \<open>Locking\<close>

text \<open>\<open>_notify.wait\<close>: whether the lock manager notified this Locker since \<open>_notify.clear\<close>.\<close>

definition notifiedSinceClear :: "LState \<Rightarrow> bool" where
  "notifiedSinceClear s \<longleftrightarrow>
     (\<exists>n \<in> set (drop (notifySeen (lk s)) (notifications (lmgr s))). slot_locker (fst n) = lockerId (lk s))"

text \<open>The part of \<open>_lockBegin\<close> that finds or creates the request.\<close>

definition getOrNewRequest :: "ResourceId \<Rightarrow> LState \<Rightarrow> (req \<times> bool \<times> LState) option" where
  "getOrNewRequest resId s =
     (let it = fm_find resId (requests (lk s))
      in if it_finished (requests (lk s)) it
         then do {
           (m, itNew) \<leftarrow> fm_insert resId (requests (lk s));
           let s1 = upd_lk (\<lambda>L. L\<lparr>requests := m\<rparr>) s;
           r \<leftarrow> it_req (lk s1) itNew;
           Some (r, True, upd_req r (\<lambda>_. LockRequest_initNew (lockerId (lk s1))) s1)
         }
         else do {
           r \<leftarrow> it_req (lk s) it;
           Some (r, False, s)
         })"

text \<open>The full modes of the Global, PBWM and RSTL resources get priority.\<close>

definition prioritize :: "ResourceId \<Rightarrow> LockMode \<Rightarrow> req \<Rightarrow> LState \<Rightarrow> LState" where
  "prioritize resId m r s =
     (if getType resId \<in> {RESOURCE_GLOBAL, RESOURCE_PBWM, RESOURCE_RSTL} \<and> (m = MODE_S \<or> m = MODE_X)
      then upd_req r (\<lambda>x. x\<lparr>enqueueAtFront := True, compatibleFirst := True\<rparr>) s else s)"

text \<open>Clearing the notification, calling the lock manager, and giving the lock back when the operation
  turns out to be interrupted.\<close>

definition postRequest :: "LEnv \<Rightarrow> ResourceId \<Rightarrow> LockMode \<Rightarrow> req \<Rightarrow> bool \<Rightarrow> LState \<Rightarrow> LockResult step" where
  "postRequest env resId m r isNew s =
     do {
       let s1 = upd_lk (\<lambda>L. L\<lparr>notifySeen := length (notifications (lmgr s))\<rparr>) s;
       (res, lm1) \<leftarrow> (if isNew then LockManager_lock resId r m (lmgr s1) else LockManager_convert resId r m (lmgr s1));
       let s2 = s1\<lparr>lmgr := lm1\<rparr>;
       case (if res = LOCK_OK \<and> hasOpCtx env \<and> uninterruptibleLocksRequested (lk s2) = 0
             then interruptStatus env else None) of
         None \<Rightarrow> Some (Done res, s2)
       | Some e \<Rightarrow>
           do {
             let unlockIt = fm_find resId (requests (lk s2));
             invariant (\<not> it_finished (requests (lk s2)) unlockIt);
             andThen (unlockImpl unlockIt s2) (\<lambda>_ s3. Some (Throw e, s3))
           }
     }"

definition lockBegin :: "LEnv \<Rightarrow> ResourceId \<Rightarrow> LockMode \<Rightarrow> LState \<Rightarrow> LockResult step" where
  "lockBegin env resId m s =
     do {
       (r, isNew, s1) \<leftarrow> getOrNewRequest resId s;
       let x = requestStore (lmgr s1) r;
       if unlockPending x > 0 \<and> isModeCovered m (mode x)
       then do {
         let s2 = upd_req r (\<lambda>x. x\<lparr>unlockPending := unlockPending x - 1\<rparr>) s1;
         let s3 = (if unlockPending x - 1 = 0
                   then upd_lk (\<lambda>L. L\<lparr>numResourcesToUnlockAtEndUnitOfWork :=
                          numResourcesToUnlockAtEndUnitOfWork L - 1\<rparr>) s2 else s2);
         Some (Done LOCK_OK, s3)
       }
       else postRequest env resId m r isNew (prioritize resId m r s1)
     }"

definition min_opt :: "int option \<Rightarrow> int option \<Rightarrow> int option" where
  "min_opt a b = (case a of None \<Rightarrow> b | Some x \<Rightarrow> (case b of None \<Rightarrow> a | Some y \<Rightarrow> Some (min x y)))"

definition MaxWaitTime :: int where
  "MaxWaitTime = 500"

text \<open>The scope guard of \<open>_lockComplete\<close>: a failed attempt gives the request back.\<close>

definition unlockOnError :: "ResourceId \<Rightarrow> lock_error \<Rightarrow> LState \<Rightarrow> unit step" where
  "unlockOnError resId e s =
     (let it = fm_find resId (requests (lk s))
      in check (\<not> it_finished (requests (lk s)) it) (andThen (unlockImpl it s) (\<lambda>_ s1. Some (Throw e, s1))))"

fun waitLoop :: "LEnv \<Rightarrow> ResourceId \<Rightarrow> int option \<Rightarrow> WakeUp list \<Rightarrow> LState \<Rightarrow> unit step" where
  "waitLoop env resId timeout [] s = Some (Blocked, s)"
| "waitLoop env resId timeout (w # ws) s =
     (let s1 = s\<lparr>lmgr := w_lmgr w (lmgr s)\<rparr>
      in case (if hasOpCtx env \<and> uninterruptibleLocksRequested (lk s1) = 0 then w_interrupt w else None) of
           Some e \<Rightarrow> unlockOnError resId e s1
         | None \<Rightarrow>
             if notifiedSinceClear s1 then Some (Done (), s1)
             else case timeout of
                 None \<Rightarrow> waitLoop env resId timeout ws s1
               | Some t \<Rightarrow>
                   (let waitTime = (if w_elapsed w < t then min (t - w_elapsed w) MaxWaitTime else 0)
                    in if waitTime = 0 then unlockOnError resId LockTimeout s1
                       else waitLoop env resId timeout ws s1))"

text \<open>Deadlines are milliseconds since the epoch, \<open>None\<close> for \<open>Date_t::max()\<close>.\<close>

definition lockComplete :: "LEnv \<Rightarrow> ResourceId \<Rightarrow> LockMode \<Rightarrow> int option \<Rightarrow> LState \<Rightarrow> unit step" where
  "lockComplete env resId m deadline s =
     (if uninterruptibleLocksRequested (lk s) = 0 \<and> failNonIntentLocks env \<and> \<not> (m = MODE_IS \<or> m = MODE_IX)
      then unlockOnError resId LockTimeout s
      else
        let t0 = (case deadline of None \<Rightarrow> None | Some d \<Rightarrow> if d \<le> 0 then Some 0 else Some (d - nowMillis env));
            t1 = min_opt t0 (maxLockTimeout (lk s));
            timeout = (if uninterruptibleLocksRequested (lk s) > 0 then None else t1)
        in waitLoop env resId timeout (wakeUps env) s)"

definition Locker_lock :: "LEnv \<Rightarrow> ResourceId \<Rightarrow> LockMode \<Rightarrow> int option \<Rightarrow> LState \<Rightarrow> unit step" where
  "Locker_lock env resId m deadline s =
     check (resId \<noteq> resourceIdGlobal)
       (andThen (lockBegin env resId m s) (\<lambda>res s1.
          if res = LOCK_OK then Some (Done (), s1)
          else check (res = LOCK_WAITING) (lockComplete env resId m deadline s1)))"

definition lockGlobal :: "LEnv \<Rightarrow> LockMode \<Rightarrow> int option \<Rightarrow> LState \<Rightarrow> unit step" where
  "lockGlobal env m deadline s =
     andThen
       (if modeForTicket (lk s) = MODE_NONE
        then if uninterruptibleLocksRequested (lk s) > 0
          then andThen (acquireTicket env m None s)
                 (\<lambda>ok s1. check ok (Some (Done deadline, upd_lk (\<lambda>L. L\<lparr>modeForTicket := m\<rparr>) s1)))
          else let d = min_opt deadline (map_option (\<lambda>t. nowMillis env + t) (maxLockTimeout (lk s)))
               in andThen (acquireTicket env m d s)
                    (\<lambda>ok s1. if ok then Some (Done d, upd_lk (\<lambda>L. L\<lparr>modeForTicket := m\<rparr>) s1)
                             else Some (Throw LockTimeout, s1))
        else Some (Done deadline, s))
       (\<lambda>d s1.
          let actual = (if hasOpCtx env \<and> \<not> supportsDBLocking env
                        then (if isSharedLockMode m then MODE_S else MODE_X) else m)
          in andThen (lockBegin env resourceIdGlobal actual s1) (\<lambda>res s2.
               if res = LOCK_OK then Some (Done (), s2)
               else check (res = LOCK_WAITING) (lockComplete env resourceIdGlobal actual d s2)))"

definition lockRSTLBegin :: "LEnv \<Rightarrow> bool \<Rightarrow> LockMode \<Rightarrow> LState \<Rightarrow> LockResult step" where
  "lockRSTLBegin env testOnly m s =
     check (testOnly \<or> m = MODE_IX \<or> m = MODE_X) (lockBegin env resourceIdReplicationStateTransitionLock m s)"

definition lockRSTLComplete :: "LEnv \<Rightarrow> LockMode \<Rightarrow> int option \<Rightarrow> LState \<Rightarrow> unit step" where
  "lockRSTLComplete env m deadline s = lockComplete env resourceIdReplicationStateTransitionLock m deadline s"

definition Locker_downgrade :: "ResourceId \<Rightarrow> LockMode \<Rightarrow> LState \<Rightarrow> unit step" where
  "Locker_downgrade resId m s =
     do {
       r \<leftarrow> it_req (lk s) (fm_find resId (requests (lk s)));
       lm1 \<leftarrow> LockManager_downgrade r m (lmgr s);
       Some (Done (), s\<lparr>lmgr := lm1\<rparr>)
     }"

text \<open>The flow control ticket leaves no trace in the Locker; it can be interrupted, or block.\<close>

definition getFlowControlTicket :: "LEnv \<Rightarrow> LockMode \<Rightarrow> LState \<Rightarrow> unit step" where
  "getFlowControlTicket env m s =
     (case (if m = MODE_IX \<and> clientState (lk s) = kInactive \<and> uninterruptibleLocksRequested (lk s) = 0
            then flowControlTicket env else None) of
        None \<Rightarrow> Some (Done (), s)
      | Some TicketGranted \<Rightarrow> Some (Done (), s)
      | Some TicketTimeout \<Rightarrow> Some (Blocked, s)
      | Some (TicketInterrupted e) \<Rightarrow> Some (Throw e, s))"

subsection \<open>Yielding\<close>

fun saveLoop :: "nat \<Rightarrow> nat \<Rightarrow> OneLock list \<Rightarrow> LState \<Rightarrow> (OneLock list) step" where
  "saveLoop n it out s =
     (if it_finished (requests (lk s)) it then Some (Done out, s)
      else case n of
        0 \<Rightarrow> None
      | Suc n1 \<Rightarrow>
          do {
            r \<leftarrow> it_req (lk s) it;
            resId \<leftarrow> it_key (requests (lk s)) it;
            let m = mode (requestStore (lmgr s) r);
            let t = getType resId;
            if t = RESOURCE_MUTEX
            then do { it1 \<leftarrow> it_next (requests (lk s)) it; saveLoop n1 it1 out s }
            else do {
              invariant (t = RESOURCE_DATABASE \<or> t = RESOURCE_COLLECTION \<or>
                         t = RESOURCE_PBWM \<and> isSharedLockMode m \<or> t = RESOURCE_RSTL \<and> m = MODE_IX);
              let out1 = out @ [\<lparr>one_resourceId = resId, one_mode = m\<rparr>];
              andThen (Locker_unlock resId s) (\<lambda>b s1.
                check b (case it_next (requests (lk s1)) it of
                           None \<Rightarrow> None | Some it1 \<Rightarrow> saveLoop n1 it1 out1 s1))
            }
          })"

text \<open>Returns whether the locks were released, with the snapshot the caller passed in updated.\<close>

definition saveLockStateAndUnlock :: "LState \<Rightarrow> (bool \<times> LockSnapshot) step" where
  "saveLockStateAndUnlock s =
     check (\<not> inAWriteUnitOfWork (lk s))
       (case find_req resourceIdGlobal s of
          None \<Rightarrow>
            check (\<forall>e \<in> set (filter inUse (fastAccess (requests (lk s)))). getType (ekey e) = RESOURCE_MUTEX)
              (Some (Done (False, \<lparr>globalMode = MODE_NONE, locks = []\<rparr>), s))
        | Some g \<Rightarrow>
            if recursiveCount g > 1 \<or>
               (case find_req resourceIdReplicationStateTransitionLock s of
                  None \<Rightarrow> False | Some x \<Rightarrow> recursiveCount x > 1)
            then Some (Done (False, \<lparr>globalMode = MODE_NONE, locks = []\<rparr>), s)
            else andThen (Locker_unlock resourceIdGlobal s) (\<lambda>b s1.
              check b
                (andThen (saveLoop (length (fastAccess (requests (lk s1)))) (fm_begin (requests (lk s1))) [] s1)
                  (\<lambda>out s2. check (\<not> isLocked s2)
                     (Some (Done (True, \<lparr>globalMode = mode g, locks = sort_key one_resourceId out\<rparr>), s2))))))"

fun lockAll :: "LEnv \<Rightarrow> OneLock list \<Rightarrow> LState \<Rightarrow> unit step" where
  "lockAll env [] s = Some (Done (), s)"
| "lockAll env (l # ls) s =
     andThen (Locker_lock env (one_resourceId l) (one_mode l) None s) (\<lambda>_ s1. lockAll env ls s1)"

definition restoreLockState :: "LEnv \<Rightarrow> LockSnapshot \<Rightarrow> LState \<Rightarrow> unit step" where
  "restoreLockState env state s =
     check (\<not> inAWriteUnitOfWork (lk s))
      (check (modeForTicket (lk s) = MODE_NONE)
       (check (clientState (lk s) = kInactive)
         (andThen (if hasOpCtx env then getFlowControlTicket env (globalMode state) s else Some (Done (), s))
           (\<lambda>_ s1.
             let (pbwm, rest1) = (case locks state of
                    l # ls \<Rightarrow> if one_resourceId l = resourceIdParallelBatchWriterMode then ([l], ls) else ([], locks state)
                  | [] \<Rightarrow> ([], []));
                 (rstl, rest2) = (case rest1 of
                    l # ls \<Rightarrow> if one_resourceId l = resourceIdReplicationStateTransitionLock then ([l], ls) else ([], rest1)
                  | [] \<Rightarrow> ([], []))
             in andThen (lockAll env pbwm s1) (\<lambda>_ s2.
                andThen (lockAll env rstl s2) (\<lambda>_ s3.
                andThen (lockGlobal env (globalMode state) None s3) (\<lambda>_ s4.
                andThen (lockAll env rest2 s4) (\<lambda>_ s5.
                  check (modeForTicket (lk s5) \<noteq> MODE_NONE) (Some (Done (), s5))))))))))"

text \<open>The two loops over all requests in the pair below, on the used entries.\<close>

fun takePending :: "PreallocEntry list \<Rightarrow> LState \<Rightarrow> LState option" where
  "takePending [] s = Some s"
| "takePending (e # es) s =
     (let r = Slot (lockerId (lk s)) (eaddr e)
      in do {
        invariant (unlockPending (requestStore (lmgr s) r) = 1);
        takePending es (upd_req r (\<lambda>x. x\<lparr>unlockPending := unlockPending x - 1\<rparr>) s)
      })"

fun markPending :: "PreallocEntry list \<Rightarrow> LState \<Rightarrow> LState option" where
  "markPending [] s = Some s"
| "markPending (e # es) s =
     (let r = Slot (lockerId (lk s)) (eaddr e); x = requestStore (lmgr s) r
      in do {
        delay \<leftarrow> shouldDelayUnlock (lk s) (ekey e) (mode x);
        invariant delay;
        invariant (unlockPending x = 0);
        markPending es (upd_req r (\<lambda>x. x\<lparr>unlockPending := unlockPending x + 1\<rparr>) s)
      })"

definition releaseWriteUnitOfWorkAndUnlock :: "LState \<Rightarrow> (bool \<times> LockSnapshot) step" where
  "releaseWriteUnitOfWorkAndUnlock s =
     check (wuowNestingLevel (lk s) = 1)
       (let s1 = upd_lk (\<lambda>L. L\<lparr>wuowNestingLevel := wuowNestingLevel L - 1\<rparr>) s
        in check (\<not> isGlobalLockedRecursively s1)
          (check (fm_size (requests (lk s1)) = numResourcesToUnlockAtEndUnitOfWork (lk s1))
            (do {
               s2 \<leftarrow> takePending (filter inUse (fastAccess (requests (lk s1)))) s1;
               saveLockStateAndUnlock (upd_lk (\<lambda>L. L\<lparr>numResourcesToUnlockAtEndUnitOfWork := 0\<rparr>) s2)
             })))"

definition restoreWriteUnitOfWorkAndLock :: "LEnv \<Rightarrow> LockSnapshot \<Rightarrow> LState \<Rightarrow> unit step" where
  "restoreWriteUnitOfWorkAndLock env state s =
     andThen (if globalMode state \<noteq> MODE_NONE then restoreLockState env state s else Some (Done (), s))
       (\<lambda>_ s1.
          check (numResourcesToUnlockAtEndUnitOfWork (lk s1) = 0)
            (do {
               s2 \<leftarrow> markPending (filter inUse (fastAccess (requests (lk s1)))) s1;
               Some (Done (), beginWriteUnitOfWork (upd_lk (\<lambda>L. L\<lparr>numResourcesToUnlockAtEndUnitOfWork :=
                                fm_size (requests L)\<rparr>) s2))
             }))"

end
