(* ===== verification/LockerProps.thy ===== *)
theory LockerProps
  imports Locker LockProtocol
begin

text \<open>
  Properties of \<open>LockerImpl\<close>: its map of requests and the lock manager agree (\<open>locker_inv\<close>),
  two-phase locking inside a write unit of work, the canonical order in which yielded locks are taken again.
\<close>

subsection \<open>The Locker and the lock manager agree\<close>

definition locker_inv :: "LState \<Rightarrow> bool" where
  "locker_inv s \<longleftrightarrow> lm_ok (lmgr s) \<and> fm_ok (requests (lk s)) \<and>
     (\<forall>k a. fm_lookup (requests (lk s)) k = Some a \<longrightarrow>
        posted (requestStore (lmgr s) (Slot (lockerId (lk s)) a)) \<and>
        on_resource (requestStore (lmgr s) (Slot (lockerId (lk s)) a)) k) \<and>
     (\<forall>a. a \<notin> ran (fm_lookup (requests (lk s))) \<longrightarrow> \<not> posted (requestStore (lmgr s) (Slot (lockerId (lk s)) a)))"

lemma locker_invD:
  assumes "locker_inv s"
  shows "lm_ok (lmgr s)" "fm_ok (requests (lk s))"
    "fm_lookup (requests (lk s)) k = Some a \<Longrightarrow> posted (requestStore (lmgr s) (Slot (lockerId (lk s)) a))"
    "fm_lookup (requests (lk s)) k = Some a \<Longrightarrow> on_resource (requestStore (lmgr s) (Slot (lockerId (lk s)) a)) k"
    "a \<notin> ran (fm_lookup (requests (lk s))) \<Longrightarrow> \<not> posted (requestStore (lmgr s) (Slot (lockerId (lk s)) a))"
  using assms by (auto simp: locker_inv_def)

lemma granted_from_keeps:
  "granted_from x y \<Longrightarrow> (posted y \<longleftrightarrow> posted x) \<and> (on_resource y k \<longleftrightarrow> on_resource x k)"
  unfolding granted_from_def by (elim disjE conjE) (auto simp: posted_def on_resource_def)

lemma migrated_keeps:
  "y = x \<or> y = migrated k0 x \<and> on_resource x k0 \<and> posted x \<Longrightarrow>
     (posted y \<longleftrightarrow> posted x) \<and> (on_resource x k \<longrightarrow> on_resource y k)"
  by (auto simp: posted_def on_resource_def migrated_def)

lemma upd_simps [simp]:
  "lk (upd_req r f s) = lk s" "lmgr (upd_lk g s) = lmgr s" "lk (upd_lk g s) = g (lk s)"
  "requestStore (lmgr (upd_req r f s)) = (requestStore (lmgr s))(r := f (requestStore (lmgr s) r))"
  "notifications (lmgr (upd_req r f s)) = notifications (lmgr s)"
  by (simp_all add: upd_req_def upd_lk_def)

lemma releaseTicket_impl_simps [simp]:
  "lmgr (releaseTicket_impl s) = lmgr s" "requests (lk (releaseTicket_impl s)) = requests (lk s)"
  "lockerId (lk (releaseTicket_impl s)) = lockerId (lk s)"
  by (auto simp: releaseTicket_impl_def Let_def setTicketsFor_def split: option.splits)

text \<open>Where an iterator points, in terms of the map.\<close>

lemma it_used:
  assumes "fm_ok m" "it < length (fastAccess m)" "inUse (fastAccess m ! it)"
  shows "it_objAddr m it = Some (eaddr (fastAccess m ! it))" "it_key m it = Some (ekey (fastAccess m ! it))"
    "fm_lookup m (ekey (fastAccess m ! it)) = Some (eaddr (fastAccess m ! it))"
  using assms fm_lookup_iff [OF assms(1)] by (auto simp: it_objAddr_def it_key_def it_finished_def)

lemma ran_upd_None: "m k = Some b \<Longrightarrow> a \<noteq> b \<Longrightarrow> a \<notin> ran (m(k := None)) \<Longrightarrow> a \<notin> ran m"
  unfolding ran_def by (auto split: if_splits) (metis option.inject)

lemma unlockImpl_ok:
  assumes inv: "locker_inv s" and it: "it < length (fastAccess (requests (lk s)))" "inUse (fastAccess (requests (lk s)) ! it)"
    and k: "k = ekey (fastAccess (requests (lk s)) ! it)"
    and ticket: "k = resourceIdGlobal \<Longrightarrow> recursiveCount (requestStore (lmgr s) (Slot (lockerId (lk s))
          (eaddr (fastAccess (requests (lk s)) ! it)))) = 1 \<Longrightarrow> modeForTicket (lk s) \<noteq> MODE_NONE"
  shows "\<exists>b it' s'. unlockImpl it s = Some (Done (b, it'), s') \<and> locker_inv s' \<and> lockerId (lk s') = lockerId (lk s) \<and>
     fm_lookup (requests (lk s')) = (if b then (fm_lookup (requests (lk s)))(k := None) else fm_lookup (requests (lk s))) \<and>
     (b \<longleftrightarrow> recursiveCount (requestStore (lmgr s) (Slot (lockerId (lk s)) (eaddr (fastAccess (requests (lk s)) ! it)))) = 1) \<and>
     (\<not> b \<longrightarrow> lk s' = lk s) \<and>
     unlock_outcome (Slot (lockerId (lk s)) (eaddr (fastAccess (requests (lk s)) ! it))) (requestStore (lmgr s)) (requestStore (lmgr s'))"
proof -
  let ?m = "requests (lk s)" and ?id = "lockerId (lk s)"
  note fm = locker_invD(2) [OF inv]
  note u = it_used [OF fm it]
  let ?a = "eaddr (fastAccess ?m ! it)"
  let ?r = "Slot ?id ?a"
  have look: "fm_lookup ?m k = Some ?a" using u(3) k by simp
  have p: "posted (requestStore (lmgr s) ?r)" using locker_invD(3) [OF inv look] .
  obtain b lm1 where un: "LockManager_unlock ?r (lmgr s) = Some (b, lm1)" "lm_ok lm1"
    "unlock_outcome ?r (requestStore (lmgr s)) (requestStore lm1)" "b \<longleftrightarrow> \<not> posted (requestStore lm1 ?r)"
    using LockManager_unlock_ok [OF locker_invD(1) [OF inv] p] by blast
  have keep: "(posted (requestStore lm1 x) \<longleftrightarrow> posted (requestStore (lmgr s) x)) \<and>
      (on_resource (requestStore lm1 x) k2 \<longleftrightarrow> on_resource (requestStore (lmgr s) x) k2)" if "x \<noteq> ?r" for x k2
    using un(3) that granted_from_keeps unfolding unlock_outcome_def by blast
  have own: "on_resource (requestStore lm1 ?r) k2 \<longleftrightarrow> on_resource (requestStore (lmgr s) ?r) k2" for k2
    using un(3) by (simp add: unlock_outcome_def on_resource_def)
  have one: "b \<longleftrightarrow> recursiveCount (requestStore (lmgr s) ?r) = 1"
    using un(3,4) p by (auto simp: unlock_outcome_def posted_def split: if_splits)
  have inj: "fm_lookup ?m k2 = Some ?a \<Longrightarrow> k2 = k" for k2 using fm_lookup_inj [OF fm _ look] by blast
  show ?thesis
  proof (cases b)
    case False
    have "locker_inv (s\<lparr>lmgr := lm1\<rparr>)"
      unfolding locker_inv_def
    proof (intro conjI allI impI)
      show "posted (requestStore (lmgr (s\<lparr>lmgr := lm1\<rparr>)) (Slot (lockerId (lk (s\<lparr>lmgr := lm1\<rparr>))) a))"
        "on_resource (requestStore (lmgr (s\<lparr>lmgr := lm1\<rparr>)) (Slot (lockerId (lk (s\<lparr>lmgr := lm1\<rparr>))) a)) k2"
        if "fm_lookup (requests (lk (s\<lparr>lmgr := lm1\<rparr>))) k2 = Some a" for k2 a
        using that locker_invD(3,4) [OF inv, of k2 a] keep [of "Slot ?id a"] own [of k2] un(4) False by (cases "a = ?a"; simp)+
      show "\<not> posted (requestStore (lmgr (s\<lparr>lmgr := lm1\<rparr>)) (Slot (lockerId (lk (s\<lparr>lmgr := lm1\<rparr>))) a))"
        if "a \<notin> ran (fm_lookup (requests (lk (s\<lparr>lmgr := lm1\<rparr>))))" for a
        using that locker_invD(5) [OF inv, of a] keep [of "Slot ?id a"] look by (cases "a = ?a") (auto simp: ran_def)
    qed (use un(2) fm in simp_all)
    with False un(1,3) u(1) one show ?thesis by (auto simp: unlockImpl_def it_req_def)
  next
    case True
    define s1 where "s1 = s\<lparr>lmgr := lm1\<rparr>"
    define s2 where "s2 = (if k = resourceIdGlobal then upd_lk (\<lambda>L. L\<lparr>modeForTicket := MODE_NONE\<rparr>)
        (if clientState (lk s1) \<noteq> kInactive then releaseTicket_impl s1 else s1) else s1)"
    have s2: "lmgr s2 = lm1" "requests (lk s2) = ?m" "lockerId (lk s2) = ?id"
      by (simp_all add: s2_def s1_def)
    obtain m' it' where rm: "it_remove ?m it = Some (m', it')" "fm_ok m'" "fm_lookup m' = (fm_lookup ?m)(k := None)"
      using it_remove_ok [OF fm it k [symmetric]] by blast
    have run: "unlockImpl it s = Some (Done (True, it'), upd_lk (\<lambda>L. L\<lparr>requests := m'\<rparr>) s2)"
      using True one un(1) u(1,2) k ticket rm(1) s2 unfolding unlockImpl_def it_req_def s2_def s1_def
      by (auto simp: Let_def)
    have "locker_inv (upd_lk (\<lambda>L. L\<lparr>requests := m'\<rparr>) s2)"
      unfolding locker_inv_def
    proof (intro conjI allI impI)
      show "posted (requestStore (lmgr (upd_lk (\<lambda>L. L\<lparr>requests := m'\<rparr>) s2)) (Slot (lockerId (lk (upd_lk (\<lambda>L. L\<lparr>requests := m'\<rparr>) s2))) a))"
        "on_resource (requestStore (lmgr (upd_lk (\<lambda>L. L\<lparr>requests := m'\<rparr>) s2)) (Slot (lockerId (lk (upd_lk (\<lambda>L. L\<lparr>requests := m'\<rparr>) s2))) a)) k2"
        if "fm_lookup (requests (lk (upd_lk (\<lambda>L. L\<lparr>requests := m'\<rparr>) s2))) k2 = Some a" for k2 a
      proof -
        have l: "fm_lookup ?m k2 = Some a" "k2 \<noteq> k" using that rm(3) by (auto split: if_splits)
        then have "a \<noteq> ?a" using inj by blast
        then show "posted (requestStore (lmgr (upd_lk (\<lambda>L. L\<lparr>requests := m'\<rparr>) s2)) (Slot (lockerId (lk (upd_lk (\<lambda>L. L\<lparr>requests := m'\<rparr>) s2))) a))"
        "on_resource (requestStore (lmgr (upd_lk (\<lambda>L. L\<lparr>requests := m'\<rparr>) s2)) (Slot (lockerId (lk (upd_lk (\<lambda>L. L\<lparr>requests := m'\<rparr>) s2))) a)) k2"
          using keep [of "Slot ?id a" k2] locker_invD(3,4) [OF inv l(1)] s2 by simp_all
      qed
      show "\<not> posted (requestStore (lmgr (upd_lk (\<lambda>L. L\<lparr>requests := m'\<rparr>) s2)) (Slot (lockerId (lk (upd_lk (\<lambda>L. L\<lparr>requests := m'\<rparr>) s2))) a))"
        if "a \<notin> ran (fm_lookup (requests (lk (upd_lk (\<lambda>L. L\<lparr>requests := m'\<rparr>) s2))))" for a
      proof (cases "a = ?a")
        case True
        then show ?thesis using \<open>b\<close> un(4) s2 by simp
      next
        case False
        then have "a \<notin> ran (fm_lookup ?m)" using that rm(3) ran_upd_None [of "fm_lookup ?m" k] look by simp
        then show ?thesis using locker_invD(5) [OF inv] keep [of "Slot ?id a"] False s2 by simp
      qed
    qed (use un(2) rm s2 in simp_all)
    moreover have "unlock_outcome ?r (requestStore (lmgr s)) (requestStore (lmgr (upd_lk (\<lambda>L. L\<lparr>requests := m'\<rparr>) s2)))"
      using un(3) s2(1) by simp
    ultimately show ?thesis
      using run rm(3) True s2 one
      by (intro exI [of _ True] exI [of _ it'] exI [of _ "upd_lk (\<lambda>L. L\<lparr>requests := m'\<rparr>) s2"]) simp
  qed
qed


text \<open>Creating the request of a resource that is not locked yet.\<close>

lemma getOrNewRequest_new:
  assumes inv: "locker_inv s" and k: "fm_lookup (requests (lk s)) k = None"
  shows "\<exists>m' a. let r = Slot (lockerId (lk s)) a in
     getOrNewRequest k s = Some (r, True,
       upd_req r (\<lambda>_. LockRequest_initNew (lockerId (lk s))) (upd_lk (\<lambda>L. L\<lparr>requests := m'\<rparr>) s)) \<and>
     fm_ok m' \<and> fm_lookup m' = (fm_lookup (requests (lk s)))(k \<mapsto> a) \<and> a \<notin> ran (fm_lookup (requests (lk s)))"
proof -
  obtain m' it a where i: "fm_insert k (requests (lk s)) = Some (m', it)" "fm_ok m'" "it_objAddr m' it = Some a"
    "fm_lookup m' = (fm_lookup (requests (lk s)))(k \<mapsto> a)" "a \<notin> ran (fm_lookup (requests (lk s)))"
    using fm_insert_ok [OF locker_invD(2) [OF inv] k] by blast
  then show ?thesis
    using k fm_find_miss [of "requests (lk s)" k]
    by (intro exI [of _ m'] exI [of _ a]) (simp add: getOrNewRequest_def Let_def it_req_def)
qed

definition strongGlobal :: "ResourceId \<Rightarrow> LockMode \<Rightarrow> bool" where
  "strongGlobal k m \<longleftrightarrow> getType k \<in> {RESOURCE_GLOBAL, RESOURCE_PBWM, RESOURCE_RSTL} \<and> (m = MODE_S \<or> m = MODE_X)"

lemma postRequest_new:
  assumes "LockManager_lock k r m (lmgr s) = Some (res, lm2)"
    and hit: "\<not> it_finished (requests (lk s)) (fm_find k (requests (lk s)))"
  defines "s2 \<equiv> s\<lparr>lk := (lk s)\<lparr>notifySeen := length (notifications (lmgr s))\<rparr>, lmgr := lm2\<rparr>"
  shows "postRequest env k m r True s =
     (case (if res = LOCK_OK \<and> hasOpCtx env \<and> uninterruptibleLocksRequested (lk s) = 0 then interruptStatus env else None) of
        None \<Rightarrow> Some (Done res, s2)
      | Some e \<Rightarrow> andThen (unlockImpl (fm_find k (requests (lk s))) s2) (\<lambda>_ s5. Some (Throw e, s5)))"
proof -
  define s1 where "s1 = upd_lk (\<lambda>L. L\<lparr>notifySeen := length (notifications (lmgr s))\<rparr>) s"
  have eq: "s1\<lparr>lmgr := lm2\<rparr> = s2" "lmgr s1 = lmgr s" by (simp_all add: s1_def upd_lk_def s2_def)
  have s2: "requests (lk s2) = requests (lk s)" "uninterruptibleLocksRequested (lk s2) = uninterruptibleLocksRequested (lk s)"
    by (simp_all add: s2_def)
  have "postRequest env k m r True s =
     (case (if res = LOCK_OK \<and> hasOpCtx env \<and> uninterruptibleLocksRequested (lk s2) = 0 then interruptStatus env else None) of
        None \<Rightarrow> Some (Done res, s2)
      | Some e \<Rightarrow> Option.bind (invariant (\<not> it_finished (requests (lk s2)) (fm_find k (requests (lk s2)))))
          (\<lambda>_. andThen (unlockImpl (fm_find k (requests (lk s2))) s2) (\<lambda>_ s5. Some (Throw e, s5))))"
    unfolding postRequest_def Let_def s1_def [symmetric] eq(2) by (simp only: assms(1) if_True bind.simps prod.case eq)
  with hit show ?thesis unfolding s2 by (simp cong: option.case_cong)
qed

lemma lockBegin_new_post:
  assumes inv: "locker_inv s" and k: "fm_lookup (requests (lk s)) k = None" and m: "m \<noteq> MODE_NONE"
  shows "\<exists>a res s4. let r = Slot (lockerId (lk s)) a in locker_inv s4 \<and> lk s4 = (lk s)\<lparr>requests := requests (lk s4), notifySeen := notifySeen (lk s4)\<rparr> \<and>
     fm_lookup (requests (lk s4)) k = Some a \<and> (fm_lookup (requests (lk s4)))(k := None) = fm_lookup (requests (lk s)) \<and>
     recursiveCount (requestStore (lmgr s4) r) = 1 \<and> getLockMode k s4 = m \<and> find_req k s4 = Some (requestStore (lmgr s4) r) \<and>
     lock_outcome res (status (requestStore (lmgr s4) r)) \<and> \<not> notifiedSinceClear s4 \<and>
     (\<forall>y. y \<noteq> r \<longrightarrow> requestStore (lmgr s4) y = requestStore (lmgr s) y \<or> requestStore (lmgr s4) y = migrated k (requestStore (lmgr s) y)) \<and>
     lockBegin env k m s =
       (case (if res = LOCK_OK \<and> hasOpCtx env \<and> uninterruptibleLocksRequested (lk s4) = 0 then interruptStatus env else None) of
          None \<Rightarrow> Some (Done res, s4)
        | Some e \<Rightarrow> andThen (unlockImpl (fm_find k (requests (lk s4))) s4) (\<lambda>_ s5. Some (Throw e, s5)))"
proof -
  let ?id = "lockerId (lk s)" and ?m = "requests (lk s)"
  obtain m' a where g: "getOrNewRequest k s = Some (Slot ?id a, True,
       upd_req (Slot ?id a) (\<lambda>_. LockRequest_initNew ?id) (upd_lk (\<lambda>L. L\<lparr>requests := m'\<rparr>) s))"
     "fm_ok m'" "fm_lookup m' = (fm_lookup ?m)(k \<mapsto> a)" "a \<notin> ran (fm_lookup ?m)"
    using getOrNewRequest_new [OF inv k] by (auto simp: Let_def)
  let ?r = "Slot ?id a"
  define x where "x = (if strongGlobal k m then (LockRequest_initNew ?id)\<lparr>enqueueAtFront := True, compatibleFirst := True\<rparr>
      else LockRequest_initNew ?id)"
  define lm1 where "lm1 = (lmgr s)\<lparr>requestStore := (requestStore (lmgr s))(?r := x)\<rparr>"
  have np: "\<not> posted (requestStore (lmgr s) ?r)" using locker_invD(5) [OF inv g(4)] .
  have fx: "fresh_request x" by (simp add: x_def fresh_request_def LockRequest_initNew_def)
  have lm1: "lm_ok lm1" unfolding lm1_def
    by (rule lm_ok_initNew [OF locker_invD(1) [OF inv] np not_posted_fresh [OF fx]])
  obtain res lm2 where l: "LockManager_lock k ?r m lm1 = Some (res, lm2)" "lm_ok lm2"
      "others_migrated ?r k (requestStore lm1) (requestStore lm2)" "lock_outcome res (status (requestStore lm2 ?r))"
      "mode (requestStore lm2 ?r) = m" "recursiveCount (requestStore lm2 ?r) = 1" "on_resource (requestStore lm2 ?r) k"
      "notifications lm2 = notifications lm1"
    using LockManager_lock_ok [OF lm1 _ m, of ?r k] fx by (auto simp: lm1_def)
  define s4 where "s4 = s\<lparr>lk := (lk s)\<lparr>requests := m', notifySeen := length (notifications (lmgr s))\<rparr>, lmgr := lm2\<rparr>"
  have ext: "prioritize k m ?r (upd_req ?r (\<lambda>_. LockRequest_initNew ?id) (upd_lk (\<lambda>L. L\<lparr>requests := m'\<rparr>) s))
      = s\<lparr>lk := (lk s)\<lparr>requests := m'\<rparr>, lmgr := lm1\<rparr>"
    by (simp add: prioritize_def upd_lk_def upd_req_def lm1_def x_def strongGlobal_def)
  have post: "posted (requestStore lm2 ?r)" using l(4,6) by (auto simp: posted_def lock_outcome_def)
  have keep: "(posted (requestStore lm2 y) \<longleftrightarrow> posted (requestStore (lmgr s) y)) \<and>
      (on_resource (requestStore (lmgr s) y) k2 \<longrightarrow> on_resource (requestStore lm2 y) k2)" if "y \<noteq> ?r" for y k2
  proof -
    have "requestStore lm1 y = requestStore (lmgr s) y" using that by (simp add: lm1_def)
    then show ?thesis
      using l(3) that migrated_keeps [of "requestStore lm2 y" "requestStore (lmgr s) y" k k2]
      unfolding others_migrated_def by auto
  qed
  have s4: "lmgr s4 = lm2" "requests (lk s4) = m'" "lockerId (lk s4) = ?id" by (simp_all add: s4_def)
  have inv4: "locker_inv s4"
    unfolding locker_inv_def s4
  proof (intro conjI allI impI)
    show "posted (requestStore lm2 (Slot ?id b))" "on_resource (requestStore lm2 (Slot ?id b)) k2"
      if "fm_lookup m' k2 = Some b" for k2 b
    proof -
      have "b = a \<and> k2 = k \<or> b \<noteq> a \<and> fm_lookup ?m k2 = Some b"
        using that g(3,4) by (auto simp: ran_def split: if_splits)
      then show "posted (requestStore lm2 (Slot ?id b))" "on_resource (requestStore lm2 (Slot ?id b)) k2"
        using post l(7) keep [of "Slot ?id b" k2] locker_invD(3,4) [OF inv, of k2 b] by auto
    qed
    show "\<not> posted (requestStore lm2 (Slot ?id b))" if "b \<notin> ran (fm_lookup m')" for b
    proof -
      have "b \<noteq> a" "b \<notin> ran (fm_lookup ?m)" using that g(3) k by auto
      then show ?thesis using keep [of "Slot ?id b"] locker_invD(5) [OF inv, of b] by simp
    qed
  qed (use l(2) g(2) in simp_all)
  have find: "find_req k s4 = Some (requestStore lm2 ?r)"
    using fm_find_hit(2) [of m' k a] g(3) by (simp add: find_req_def it_req_def s4_def)
  have hit: "\<not> it_finished m' (fm_find k m')" using fm_find_hit(1) [of m' k a] g(3) by simp
  have run: "lockBegin env k m s =
       (case (if res = LOCK_OK \<and> hasOpCtx env \<and> uninterruptibleLocksRequested (lk s4) = 0 then interruptStatus env else None) of
          None \<Rightarrow> Some (Done res, s4)
        | Some e \<Rightarrow> andThen (unlockImpl (fm_find k (requests (lk s4))) s4) (\<lambda>_ s5. Some (Throw e, s5)))"
  proof -
    have "lockBegin env k m s = postRequest env k m ?r True (s\<lparr>lk := (lk s)\<lparr>requests := m'\<rparr>, lmgr := lm1\<rparr>)"
      using g(1) by (simp add: lockBegin_def Let_def ext [symmetric]) (simp add: LockRequest_initNew_def)
    moreover have "notifications lm1 = notifications (lmgr s)" by (simp add: lm1_def)
    ultimately show ?thesis
      using postRequest_new [of k ?r m "s\<lparr>lk := (lk s)\<lparr>requests := m'\<rparr>, lmgr := lm1\<rparr>" res lm2 env] l(1) hit
      by (simp add: s4_def cong: option.case_cong)
  qed
  have others: "requestStore lm2 y = requestStore (lmgr s) y \<or> requestStore lm2 y = migrated k (requestStore (lmgr s) y)" if "y \<noteq> ?r" for y
    using l(3) that by (auto simp: others_migrated_def lm1_def)
  have quiet: "\<not> notifiedSinceClear s4" using l(8) by (simp add: notifiedSinceClear_def s4_def lm1_def)
  show ?thesis
    by (rule exI [of _ a], rule exI [of _ res], rule exI [of _ s4])
      (use inv4 find l(4,5,6) run g(3) k others quiet in \<open>auto simp: s4_def getLockMode_def fun_upd_idem\<close>)
qed


text \<open>An operation without interruptions, in an idle Locker of an idle server, for examples.\<close>

definition quietEnv :: LEnv where
  "quietEnv = \<lparr>hasOpCtx = False, interruptStatus = None, supportsDBLocking = True, nowMillis = 0,
     failNonIntentLocks = False, ticketWait = TicketGranted, flowControlTicket = None, wakeUps = []\<rparr>"

definition idleLocker :: LState where
  "idleLocker = \<lparr>lk = newLocker 1, lmgr = emptyLockManager, readTickets = Some 4, writeTickets = Some 4\<rparr>"

definition sampleSnapshot :: LockSnapshot where
  "sampleSnapshot = \<lparr>globalMode = MODE_IX,
     locks = [\<lparr>one_resourceId = resourceIdReplicationStateTransitionLock, one_mode = MODE_IX\<rparr>,
              \<lparr>one_resourceId = fullHash RESOURCE_DATABASE 5, one_mode = MODE_IX\<rparr>]\<rparr>"

lemma idleLocker_inv: "locker_inv idleLocker"
  unfolding locker_inv_def
  using lm_ok_empty fm_new_ok
  by (simp add: idleLocker_def newLocker_def emptyLockManager_def posted_def LockRequest_initNew_def)

subsection \<open>Yielding: the order in which locks are taken again\<close>

text \<open>Locks taken one after the other, in the order of a list; the global lock by its own operation.\<close>

fun lockInOrder :: "LEnv \<Rightarrow> OneLock list \<Rightarrow> LState \<Rightarrow> unit step" where
  "lockInOrder env [] s = Some (Done (), s)"
| "lockInOrder env (l # ls) s =
     andThen (if one_resourceId l = resourceIdGlobal then lockGlobal env (one_mode l) None s
              else Locker_lock env (one_resourceId l) (one_mode l) None s)
       (\<lambda>_ s1. lockInOrder env ls s1)"

definition yieldable :: "ResourceId \<Rightarrow> bool" where
  "yieldable k \<longleftrightarrow> k = resourceIdParallelBatchWriterMode \<or> k = resourceIdReplicationStateTransitionLock \<or>
     getType k = RESOURCE_DATABASE \<or> getType k = RESOURCE_COLLECTION"

lemma global_order:
  "resourceIdParallelBatchWriterMode < resourceIdReplicationStateTransitionLock"
  "resourceIdReplicationStateTransitionLock < resourceIdGlobal"
  by (simp_all add: resourceIdParallelBatchWriterMode_def resourceIdReplicationStateTransitionLock_def resourceIdGlobal_def
      word_less_nat_alt unat_fullHash)

lemma rtype_val_getType: "rtype_val (getType k) = unat k div 2 ^ 61"
proof -
  have "unat k < 2 ^ 64" using unsigned_less [of k] by simp
  then have lt: "unat k div 2 ^ 61 < 8" by (simp add: less_mult_imp_div_less)
  have "unat (drop_bit 61 k) = unat k div 2 ^ 61"
    by (simp only: unat_drop_bit_eq) (simp add: drop_bit_eq_div)
  then have "getType k = rtype_of (unat k div 2 ^ 61)" by (simp add: getType_def resourceTypeBits_def)
  moreover have "n < 8 \<Longrightarrow> rtype_val (rtype_of n) = n" for n
    by (auto simp: rtype_of_def)
  ultimately show ?thesis using lt by simp
qed

lemma finer_than_global: "getType k = RESOURCE_DATABASE \<or> getType k = RESOURCE_COLLECTION \<Longrightarrow> resourceIdGlobal < k"
  unfolding word_less_nat_alt resourceIdGlobal_def unat_fullHash
  using rtype_val_getType [of k] div_mult_mod_eq [of "unat k" "2 ^ 61"] by (elim disjE) simp_all

lemma andThen_assoc: "andThen (andThen x f) g = andThen x (\<lambda>a s. andThen (f a s) g)"
  by (auto simp: andThen_def split: option.splits prod.splits result.splits)

lemma andThen_Done [simp]: "andThen (Some (Done a, s)) f = f a s"
  by (simp add: andThen_def)

lemma lockInOrder_append: "lockInOrder env (xs @ ys) s = andThen (lockInOrder env xs s) (\<lambda>_ s1. lockInOrder env ys s1)"
  by (induction xs arbitrary: s) (auto simp: andThen_def split: option.splits prod.splits result.splits)

lemma lockAll_in_order: "\<forall>l \<in> set ls. one_resourceId l \<noteq> resourceIdGlobal \<Longrightarrow> lockAll env ls s = lockInOrder env ls s"
  by (induction ls arbitrary: s) (simp_all add: andThen_def split: option.splits prod.splits result.splits)

lemma insort_key_middle:
  assumes "\<forall>x \<in> set xs. f x < f a" "\<forall>x \<in> set ys. f a < f x"
  shows "insort_key f a (xs @ ys) = xs @ a # ys"
  using assms
proof (induction xs)
  case Nil
  then show ?case by (cases ys) auto
qed auto

text \<open>How \<open>restoreLockState\<close> splits the locks of a snapshot around the global one.\<close>

lemma snapshot_split:
  fixes ls :: "OneLock list"
  assumes "sorted_wrt (<) (map one_resourceId ls)" "\<forall>l \<in> set ls. yieldable (one_resourceId l)"
    and "(pbwm, rest1) = (case ls of
           l # r \<Rightarrow> if one_resourceId l = resourceIdParallelBatchWriterMode then ([l], r) else ([], ls) | [] \<Rightarrow> ([], []))"
    and "(rstl, rest2) = (case rest1 of
           l # r \<Rightarrow> if one_resourceId l = resourceIdReplicationStateTransitionLock then ([l], r) else ([], rest1) | [] \<Rightarrow> ([], []))"
  shows "ls = pbwm @ rstl @ rest2 \<and> (\<forall>l \<in> set (pbwm @ rstl). one_resourceId l < resourceIdGlobal) \<and>
    (\<forall>l \<in> set rest2. resourceIdGlobal < one_resourceId l)"
proof -
  note pr = global_order less_trans [OF global_order]
  have 1: "ls = pbwm @ rest1" "\<forall>l \<in> set pbwm. one_resourceId l = resourceIdParallelBatchWriterMode"
    using assms(3) by (auto split: list.splits if_splits)
  have 2: "rest1 = rstl @ rest2" "\<forall>l \<in> set rstl. one_resourceId l = resourceIdReplicationStateTransitionLock"
    using assms(4) by (auto split: list.splits if_splits)
  have s: "sorted_wrt (<) (map one_resourceId rest1)" "sorted_wrt (<) (map one_resourceId rest2)"
    using assms(1) by (simp_all add: 1 2 sorted_wrt_append)
  have no_pbwm: "\<forall>l \<in> set rest1. one_resourceId l \<noteq> resourceIdParallelBatchWriterMode"
    if r: "rest1 = x # xs" for x xs
  proof -
    have x: "one_resourceId x \<noteq> resourceIdParallelBatchWriterMode"
      using assms(1,3) r by (auto split: list.splits if_splits)
    have "yieldable (one_resourceId x)" using assms(2) 1(1) r by simp
    then have "resourceIdParallelBatchWriterMode < one_resourceId x"
      unfolding yieldable_def
      using x pr(1) less_trans [OF pr(3), of "one_resourceId x"] finer_than_global [of "one_resourceId x"] by (elim disjE) simp_all
    then show ?thesis using s(1) r by (auto dest: less_trans)
  qed
  have late: "resourceIdGlobal < one_resourceId l" if l: "l \<in> set rest2" for l
  proof -
    obtain x xs where x: "rest2 = x # xs" using l by (cases rest2) auto
    have p: "one_resourceId x \<noteq> resourceIdParallelBatchWriterMode"
      using no_pbwm [of "hd rest1" "tl rest1"] x 2(1) by simp
    have q: "one_resourceId x \<noteq> resourceIdReplicationStateTransitionLock"
      using s(1) 2(1) assms(4) x by (auto split: list.splits if_splits)
    have "yieldable (one_resourceId x)" using assms(2) 1(1) 2(1) x by simp
    then have "resourceIdGlobal < one_resourceId x" using p q finer_than_global unfolding yieldable_def by blast
    then show ?thesis using s(2) x l by (auto dest: less_trans)
  qed
  have early: "one_resourceId l < resourceIdGlobal" if "l \<in> set (pbwm @ rstl)" for l
    using that 1(2) 2(2) pr by auto
  show ?thesis using 1(1) 2(1) late early by blast
qed

text \<open>(C13) Locks given up by a yield are taken again in the canonical order: for a snapshot as
  \<open>saveLockStateAndUnlock\<close> makes it (sorted by resource; PBWM, RSTL, databases and
  collections), \<open>restoreLockState\<close> behaves as taking the global lock and all the locks of the
  snapshot one by one, sorted by resource identifier.\<close>

theorem restore_in_canonical_order:
  assumes "sorted_wrt (<) (map one_resourceId (locks state))" "\<forall>l \<in> set (locks state). yieldable (one_resourceId l)"
    "\<not> inAWriteUnitOfWork (lk s)" "modeForTicket (lk s) = MODE_NONE" "clientState (lk s) = kInactive"
  shows "restoreLockState env state s =
     andThen (if hasOpCtx env then getFlowControlTicket env (globalMode state) s else Some (Done (), s)) (\<lambda>_ s1.
       andThen (lockInOrder env (sort_key one_resourceId
                  (\<lparr>one_resourceId = resourceIdGlobal, one_mode = globalMode state\<rparr> # locks state)) s1)
         (\<lambda>_ s2. check (modeForTicket (lk s2) \<noteq> MODE_NONE) (Some (Done (), s2))))"
proof -
  define p1 where "p1 = (case locks state of
     l # r \<Rightarrow> if one_resourceId l = resourceIdParallelBatchWriterMode then ([l], r) else ([], locks state) | [] \<Rightarrow> ([], []))"
  define pbwm rest1 where "pbwm = fst p1" "rest1 = snd p1"
  then have 1: "(pbwm, rest1) = (case locks state of
     l # r \<Rightarrow> if one_resourceId l = resourceIdParallelBatchWriterMode then ([l], r) else ([], locks state) | [] \<Rightarrow> ([], []))"
    by (simp only: p1_def prod.collapse)
  define p2 where "p2 = (case rest1 of
     l # r \<Rightarrow> if one_resourceId l = resourceIdReplicationStateTransitionLock then ([l], r) else ([], rest1) | [] \<Rightarrow> ([], []))"
  define rstl rest2 where "rstl = fst p2" "rest2 = snd p2"
  then have 2: "(rstl, rest2) = (case rest1 of
     l # r \<Rightarrow> if one_resourceId l = resourceIdReplicationStateTransitionLock then ([l], r) else ([], rest1) | [] \<Rightarrow> ([], []))"
    by (simp only: p2_def prod.collapse)
  note sp = snapshot_split [OF assms(1,2) 1 2]
  let ?g = "\<lparr>one_resourceId = resourceIdGlobal, one_mode = globalMode state\<rparr>"
  have "sorted (map one_resourceId (locks state))" using assms(1) by (rule strict_sorted_imp_sorted)
  then have "sort_key one_resourceId (?g # locks state) = insort_key one_resourceId ?g (locks state)"
    by (simp add: sort_key_id_if_sorted)
  also have "\<dots> = (pbwm @ rstl) @ ?g # rest2"
    using insort_key_middle [of "pbwm @ rstl" one_resourceId ?g rest2] sp by simp
  finally have srt: "sort_key one_resourceId (?g # locks state) = pbwm @ rstl @ ?g # rest2" by simp
  have ng: "\<forall>l \<in> set pbwm. one_resourceId l \<noteq> resourceIdGlobal" "\<forall>l \<in> set rstl. one_resourceId l \<noteq> resourceIdGlobal"
    "\<forall>l \<in> set rest2. one_resourceId l \<noteq> resourceIdGlobal"
    using sp by (auto dest: less_imp_neq)
  show ?thesis
    unfolding srt restoreLockState_def 1 [symmetric] prod.case 2 [symmetric] Let_def
    by (simp add: check_def assms lockInOrder_append andThen_assoc lockAll_in_order ng)
qed

theorem restore_in_canonical_order_witness:
  "restoreLockState quietEnv sampleSnapshot idleLocker =
     andThen (lockInOrder quietEnv (sort_key one_resourceId
                (\<lparr>one_resourceId = resourceIdGlobal, one_mode = MODE_IX\<rparr> # locks sampleSnapshot)) idleLocker)
       (\<lambda>_ s2. check (modeForTicket (lk s2) \<noteq> MODE_NONE) (Some (Done (), s2)))"
proof -
  have "sorted_wrt (<) (map one_resourceId (locks sampleSnapshot))" "\<forall>l \<in> set (locks sampleSnapshot). yieldable (one_resourceId l)"
    by code_simp+
  then show ?thesis
    using restore_in_canonical_order [of sampleSnapshot idleLocker quietEnv]
    by (simp add: quietEnv_def idleLocker_def newLocker_def inAWriteUnitOfWork_def sampleSnapshot_def)
qed

subsection \<open>Properties of locking and unlocking\<close>

lemma lockBegin_new_ok:
  assumes "locker_inv s" "fm_lookup (requests (lk s)) k = None" "m \<noteq> MODE_NONE"
    "k = resourceIdGlobal \<Longrightarrow> modeForTicket (lk s) \<noteq> MODE_NONE"
  shows "\<exists>out s'. lockBegin env k m s = Some (out, s') \<and> locker_inv s' \<and>
     (case out of
        Done res \<Rightarrow> getLockMode k s' = m \<and> (res = LOCK_OK \<or> res = LOCK_WAITING) \<and>
          (fm_lookup (requests (lk s')))(k := None) = fm_lookup (requests (lk s))
      | Throw e \<Rightarrow> interruptStatus env = Some e \<and> fm_lookup (requests (lk s')) = fm_lookup (requests (lk s))
      | Blocked \<Rightarrow> False)"
proof -
  obtain a res s4 where b: "locker_inv s4" "lk s4 = (lk s)\<lparr>requests := requests (lk s4), notifySeen := notifySeen (lk s4)\<rparr>"
     "fm_lookup (requests (lk s4)) k = Some a" "(fm_lookup (requests (lk s4)))(k := None) = fm_lookup (requests (lk s))"
     "getLockMode k s4 = m" "lock_outcome res (status (requestStore (lmgr s4) (Slot (lockerId (lk s)) a)))"
     "recursiveCount (requestStore (lmgr s4) (Slot (lockerId (lk s)) a)) = 1"
     "lockBegin env k m s =
       (case (if res = LOCK_OK \<and> hasOpCtx env \<and> uninterruptibleLocksRequested (lk s4) = 0 then interruptStatus env else None) of
          None \<Rightarrow> Some (Done res, s4)
        | Some e \<Rightarrow> andThen (unlockImpl (fm_find k (requests (lk s4))) s4) (\<lambda>_ s5. Some (Throw e, s5)))"
    using lockBegin_new_post [OF assms(1-3), of env] unfolding Let_def by blast
  define c where "c = (if res = LOCK_OK \<and> hasOpCtx env \<and> uninterruptibleLocksRequested (lk s4) = 0 then interruptStatus env else None)"
  show ?thesis
  proof (cases c)
    case None
    then show ?thesis using b by (auto simp: c_def [symmetric] lock_outcome_def)
  next
    case (Some e)
    let ?m = "requests (lk s4)"
    note hit = fm_find_hit [OF b(3)]
    have it: "fm_find k ?m < length (fastAccess ?m)" "ekey (fastAccess ?m ! fm_find k ?m) = k"
      "eaddr (fastAccess ?m ! fm_find k ?m) = a"
      using hit(1-3) by (auto simp: it_finished_def it_key_def it_objAddr_def split: if_splits)
    have same: "modeForTicket (lk s4) = modeForTicket (lk s)" "lockerId (lk s4) = lockerId (lk s)"
      using arg_cong [OF b(2), of modeForTicket] arg_cong [OF b(2), of lockerId] by simp_all
    have tick: "k = resourceIdGlobal \<Longrightarrow> modeForTicket (lk s4) \<noteq> MODE_NONE" using assms(4) same by simp
    obtain bb it' s5 where u: "unlockImpl (fm_find k ?m) s4 = Some (Done (bb, it'), s5)" "locker_inv s5"
      "fm_lookup (requests (lk s5)) = (if bb then (fm_lookup ?m)(k := None) else fm_lookup ?m)"
      "bb \<longleftrightarrow> recursiveCount (requestStore (lmgr s4) (Slot (lockerId (lk s4)) (eaddr (fastAccess ?m ! fm_find k ?m)))) = 1"
      using unlockImpl_ok [OF b(1) it(1) hit(4) it(2) [symmetric] tick] by blast
    have "bb" using u(4) b(7) it(3) same by simp
    moreover have "interruptStatus env = Some e" using Some by (simp add: c_def split: if_splits)
    moreover have "lockBegin env k m s = Some (Throw e, s5)"
      unfolding b(8) c_def [symmetric] Some using u(1) by simp
    ultimately show ?thesis using u(2,3) b(4) by auto
  qed
qed

lemma table_ok_unlockPending:
  assumes ok: "table_ok H P q"
  shows "table_ok H P (q(r := (q r)\<lparr>unlockPending := n\<rparr>))"
proof -
  let ?q = "q(r := (q r)\<lparr>unlockPending := n\<rparr>)"
  have e: "mode (?q x) = mode (q x)" "convertMode (?q x) = convertMode (q x)" "status (?q x) = status (q x)"
    "compatibleFirst (?q x) = compatibleFirst (q x)" "lockPtr (?q x) = lockPtr (q x)"
    "partitionedLock (?q x) = partitionedLock (q x)" "partitioned (?q x) = partitioned (q x)"
    "recursiveCount (?q x) = recursiveCount (q x)" for x
    by simp_all
  have "head_ok ?q h \<longleftrightarrow> head_ok q h" for h by (rule head_ok_cong) (simp only: e simp_thms)
  moreover have "intent_only ?q h \<longleftrightarrow> intent_only q h" for h by (simp only: intent_only_def e)
  moreover have "part_req_ok ?q p k x \<longleftrightarrow> part_req_ok q p k x" for p k x by (simp only: part_req_ok_def e)
  moreover have "posted (?q x) \<longleftrightarrow> posted (q x)" for x by (simp only: posted_def e)
  ultimately show ?thesis
    using ok unfolding table_ok_def heads_ok_def parts_ok_def by (simp del: fun_upd_apply)
qed

lemma lm_ok_unlockPending:
  assumes ok: "lm_ok lm"
  shows "lm_ok (lm\<lparr>requestStore := (requestStore lm)(r := (requestStore lm r)\<lparr>unlockPending := n\<rparr>)\<rparr>)"
proof -
  let ?q = "(requestStore lm)(r := (requestStore lm r)\<lparr>unlockPending := n\<rparr>)"
  have "table_ok (heads lm) (partitionTable lm) ?q" by (rule table_ok_unlockPending [OF lm_okD(2) [OF ok]])
  moreover have "counts_ok ?q" using lm_okD(3) [OF ok] by (auto simp: counts_ok_def posted_def)
  ultimately show ?thesis using lm_okD(1) [OF ok] by (simp add: lm_ok_def del: fun_upd_apply)
qed


definition databaseInUnitOfWork :: LState where
  "databaseInUnitOfWork =
     beginWriteUnitOfWork (snd (the (lockBegin quietEnv (fullHash RESOURCE_DATABASE 5) MODE_IX idleLocker)))"

lemma databaseInUnitOfWork_inv: "locker_inv databaseInUnitOfWork"
proof -
  have "fullHash RESOURCE_DATABASE 5 \<noteq> resourceIdGlobal" by code_simp
  moreover have "fm_lookup (requests (lk idleLocker)) k = None" for k
    by (simp add: idleLocker_def newLocker_def fm_new_ok)
  ultimately obtain out s' where "lockBegin quietEnv (fullHash RESOURCE_DATABASE 5) MODE_IX idleLocker = Some (out, s')" "locker_inv s'"
    using lockBegin_new_ok [OF idleLocker_inv, of "fullHash RESOURCE_DATABASE 5" MODE_IX quietEnv] by auto
  then show ?thesis by (simp add: databaseInUnitOfWork_def beginWriteUnitOfWork_def locker_inv_def)
qed


subsection \<open>The modes the global lock was taken in\<close>

lemma mode_bits [simp]: "modeBit m AND modeBit n = (if m = n then modeBit m else 0)" "modeBit m \<noteq> 0"
  by (cases m; cases n; simp add: modeBit_def)+

lemma globalLockMode_fold:
  "globalLockMode (fold setGlobalLockTakenInMode ms L) = fold (\<lambda>m w. w OR modeBit m) ms (globalLockMode L)"
  by (induction ms arbitrary: L) (simp_all add: setGlobalLockTakenInMode_def Let_def)

lemma conflicting_fold:
  "wasGlobalLockTakenInModeConflictingWithWrites (fold setGlobalLockTakenInMode ms L) \<longleftrightarrow>
     wasGlobalLockTakenInModeConflictingWithWrites L \<or> MODE_IX \<in> set ms \<or> MODE_X \<in> set ms \<or> MODE_S \<in> set ms"
  by (induction ms arbitrary: L) (auto simp: setGlobalLockTakenInMode_def Let_def)

lemma bits_of_modes:
  "fold (\<lambda>m w. w OR modeBit m) ms w AND modeBit n \<noteq> 0 \<longleftrightarrow> w AND modeBit n \<noteq> 0 \<or> n \<in> set ms"
proof (induction ms arbitrary: w)
  case (Cons m ms)
  have "(w OR modeBit m) AND modeBit n \<noteq> 0 \<longleftrightarrow> w AND modeBit n \<noteq> 0 \<or> n = m"
    by (simp add: bit.conj_disj_distrib2 or_eq_0_iff)
  then show ?case using Cons.IH [of "w OR modeBit m"] by auto
qed simp

text \<open>The flags about the global lock are exact: after the Locker recorded the modes \<open>ms\<close> of its
  acquisitions of the global lock, it says that it took the lock for writing just when IX or X is among
  them, and that it took it in a mode that conflicts with writes just when IX, X or S is.\<close>

theorem was_global_lock_flags:
  "(wasGlobalLockTakenForWrite (fold setGlobalLockTakenInMode ms (newLocker i)) \<longleftrightarrow> MODE_IX \<in> set ms \<or> MODE_X \<in> set ms) \<and>
   (wasGlobalLockTakenInModeConflictingWithWrites (fold setGlobalLockTakenInMode ms (newLocker i)) \<longleftrightarrow>
     MODE_IX \<in> set ms \<or> MODE_X \<in> set ms \<or> MODE_S \<in> set ms)"
proof
  let ?w = "fold (\<lambda>m w. w OR modeBit m) ms 1"
  have init: "(1::8 word) = modeBit MODE_NONE" by (simp add: modeBit_def)
  have "?w AND (modeBit MODE_IX OR modeBit MODE_X) \<noteq> 0 \<longleftrightarrow> ?w AND modeBit MODE_IX \<noteq> 0 \<or> ?w AND modeBit MODE_X \<noteq> 0"
    by (simp add: bit.conj_disj_distrib or_eq_0_iff)
  then show "wasGlobalLockTakenForWrite (fold setGlobalLockTakenInMode ms (newLocker i)) \<longleftrightarrow> MODE_IX \<in> set ms \<or> MODE_X \<in> set ms"
    unfolding wasGlobalLockTakenForWrite_def globalLockMode_fold bits_of_modes by (simp add: newLocker_def bits_of_modes) (simp add: init)
  show "wasGlobalLockTakenInModeConflictingWithWrites (fold setGlobalLockTakenInMode ms (newLocker i)) \<longleftrightarrow>
     MODE_IX \<in> set ms \<or> MODE_X \<in> set ms \<or> MODE_S \<in> set ms"
    unfolding conflicting_fold by (simp add: newLocker_def)
qed

subsection \<open>Upgrading a global lock that has left its partition\<close>

text \<open>
  The Locker takes the global lock in IX, some other thread's cleanup moves the request from its partition to
  the lock head, and the Locker upgrades it to X: \<open>_lockBegin\<close> then sets \<open>compatibleFirst\<close> on a
  request that is already on the lock head, whose \<open>compatibleFirstCount\<close> was not incremented for it. The last unlock
  fails the assertion \<open>lock->compatibleFirstCount > 0\<close>; without the cleanup in between both unlocks succeed.
\<close>

definition upgradeGlobal :: "bool \<Rightarrow> (bool \<times> bool) step" where
  "upgradeGlobal cleanup =
     andThen (lockGlobal quietEnv MODE_IX None idleLocker) (\<lambda>_ s1.
     andThen (if cleanup then map_option (\<lambda>l. (Done (), s1\<lparr>lmgr := l\<rparr>)) (cleanupUnusedLocks (lmgr s1)) else Some (Done (), s1)) (\<lambda>_ s2.
     andThen (lockGlobal quietEnv MODE_X None s2) (\<lambda>_ s3.
     andThen (unlockGlobal s3) (\<lambda>b1 s4.
     andThen (unlockGlobal s4) (\<lambda>b2 s5. Some (Done (b1, b2), s5))))))"

lemma global_upgrade_on_head_aborts:
  "map_option fst (upgradeGlobal False) = Some (Done (False, True)) \<and> upgradeGlobal True = None"
proof
  show "map_option fst (upgradeGlobal False) = Some (Done (False, True))" by code_simp
  have "map_option fst (upgradeGlobal True) = None" by code_simp
  then show "upgradeGlobal True = None" by simp
qed

end
