(* ===== verification/LockGuards.thy ===== *)
theory LockGuards
  imports LockerProps
begin

text \<open>
  The scoped locks of \<^verbatim>\<open>db/concurrency/d_concurrency.cpp\<close> over a Locker. A constructor returns the guard object and the state; when it
  throws, what was constructed before has been destroyed, as the unwinding does it. A destructor takes the object. The functions from names of
  databases and collections to their identifiers, which hash the names, are arguments. A guard that takes several locks waits in several places:
  its environment is a function of the type of the resource it waits for.
\<close>

subsection \<open>Resource locks\<close>

record ResourceLock =
  rl_rid :: ResourceId
  rl_result :: LockResult

definition newResourceLock :: "ResourceId \<Rightarrow> ResourceLock" where
  "newResourceLock rid = \<lparr>rl_rid = rid, rl_result = LOCK_INVALID\<rparr>"

definition ResourceLock_lock :: "LEnv \<Rightarrow> LockMode \<Rightarrow> int option \<Rightarrow> ResourceLock \<Rightarrow> LState \<Rightarrow> ResourceLock step" where
  "ResourceLock_lock env m deadline l s =
     check (rl_result l = LOCK_INVALID)
       (andThen (Locker_lock env (rl_rid l) m deadline s) (\<lambda>_ s1. Some (Done (l\<lparr>rl_result := LOCK_OK\<rparr>), s1)))"

definition ResourceLock_unlock :: "ResourceLock \<Rightarrow> LState \<Rightarrow> ResourceLock step" where
  "ResourceLock_unlock l s =
     (if rl_result l = LOCK_OK
      then andThen (Locker_unlock (rl_rid l) s) (\<lambda>_ s1. Some (Done (l\<lparr>rl_result := LOCK_INVALID\<rparr>), s1))
      else Some (Done l, s))"

definition deleteResourceLock :: "ResourceLock \<Rightarrow> LState \<Rightarrow> unit step" where
  "deleteResourceLock l s =
     (if rl_result l = LOCK_OK then andThen (ResourceLock_unlock l s) (\<lambda>_ s1. Some (Done (), s1)) else Some (Done (), s))"

text \<open>Mutexes are resources numbered in the order in which they are made; \<open>labels\<close> are their names.\<close>

definition newResourceIdForMutex :: "string \<Rightarrow> string list \<Rightarrow> ResourceId \<times> string list" where
  "newResourceIdForMutex label labels = (fullHash RESOURCE_MUTEX (of_nat (length labels)), labels @ [label])"

definition ResourceMutex_getName :: "ResourceId \<Rightarrow> string list \<Rightarrow> string option" where
  "ResourceMutex_getName rid labels =
     do {
       invariant (getType rid = RESOURCE_MUTEX);
       if unat (getHashId rid) < length labels then Some (labels ! unat (getHashId rid)) else None
     }"

definition isExclusivelyLocked :: "ResourceId \<Rightarrow> LState \<Rightarrow> bool" where
  "isExclusivelyLocked rid s \<longleftrightarrow> isLockHeldForMode rid MODE_X s"

definition isAtLeastReadLocked :: "ResourceId \<Rightarrow> LState \<Rightarrow> bool" where
  "isAtLeastReadLocked rid s \<longleftrightarrow> isLockHeldForMode rid MODE_IS s"

definition newExclusiveLock :: "LEnv \<Rightarrow> ResourceId \<Rightarrow> LState \<Rightarrow> ResourceLock step" where
  "newExclusiveLock env rid s = ResourceLock_lock (env\<lparr>hasOpCtx := False\<rparr>) MODE_X None (newResourceLock rid) s"

definition newSharedLock :: "LEnv \<Rightarrow> ResourceId \<Rightarrow> LState \<Rightarrow> ResourceLock step" where
  "newSharedLock env rid s = ResourceLock_lock (env\<lparr>hasOpCtx := False\<rparr>) MODE_IS None (newResourceLock rid) s"

text \<open>The batch writer takes the resource in mode X and no longer conflicts with itself; the flag is put back at the end.\<close>

definition newParallelBatchWriterMode :: "LEnv \<Rightarrow> LState \<Rightarrow> (ResourceLock \<times> bool) step" where
  "newParallelBatchWriterMode env s =
     andThen (newExclusiveLock env resourceIdParallelBatchWriterMode s) (\<lambda>l s1.
       Some (Done (l, shouldConflictWithSecondaryBatchApplication (lk s1)),
             upd_lk (\<lambda>L. L\<lparr>shouldConflictWithSecondaryBatchApplication := False\<rparr>) s1))"

definition deleteParallelBatchWriterMode :: "ResourceLock \<times> bool \<Rightarrow> LState \<Rightarrow> unit step" where
  "deleteParallelBatchWriterMode p s =
     deleteResourceLock (fst p) (upd_lk (\<lambda>L. L\<lparr>shouldConflictWithSecondaryBatchApplication := snd p\<rparr>) s)"

subsection \<open>The global lock\<close>

type_synonym GuardEnv = "ResourceType \<Rightarrow> LEnv"

datatype InterruptBehavior = kThrow | kLeaveUnlocked

record GlobalLock =
  gl_result :: LockResult
  gl_pbwm :: ResourceLock
  gl_interruptBehavior :: InterruptBehavior
  gl_isOutermostLock :: bool

definition isInterruption :: "lock_error \<Rightarrow> bool" where
  "isInterruption e = (case e of LockTimeout \<Rightarrow> True | InterruptedError _ \<Rightarrow> True | AssertionException _ \<Rightarrow> False)"

text \<open>A scope guard that is dismissed on success: its action runs when the body throws.\<close>

definition onThrow :: "'a step \<Rightarrow> (LState \<Rightarrow> unit step) \<Rightarrow> 'a step" where
  "onThrow x cleanup =
     (case x of
        Some (Throw e, s) \<Rightarrow> andThen (cleanup s) (\<lambda>_ s1. Some (Throw e, s1))
      | _ \<Rightarrow> x)"

definition unlockResource :: "ResourceId \<Rightarrow> LState \<Rightarrow> unit step" where
  "unlockResource k s = andThen (Locker_unlock k s) (\<lambda>_ s1. Some (Done (), s1))"

text \<open>The part of the constructor inside \<^verbatim>\<open>try\<close>: the result is the state of the lock on the batch writer resource.\<close>

definition acquireGlobal :: "GuardEnv \<Rightarrow> LockMode \<Rightarrow> int option \<Rightarrow> LState \<Rightarrow> ResourceLock step" where
  "acquireGlobal env m deadline s =
     (let pbwm = newResourceLock resourceIdParallelBatchWriterMode in
      andThen
        (if shouldConflictWithSecondaryBatchApplication (lk s) then ResourceLock_lock (env RESOURCE_PBWM) MODE_IS deadline pbwm s
         else Some (Done pbwm, s))
        (\<lambda>pbwm1 s1.
           onThrow
             (andThen (Locker_lock (env RESOURCE_RSTL) resourceIdReplicationStateTransitionLock MODE_IX deadline s1) (\<lambda>_ s2.
                onThrow (andThen (lockGlobal (env RESOURCE_GLOBAL) m deadline s2) (\<lambda>_ s3. Some (Done pbwm1, s3)))
                  (unlockResource resourceIdReplicationStateTransitionLock)))
             (\<lambda>s2. if shouldConflictWithSecondaryBatchApplication (lk s2)
                   then andThen (ResourceLock_unlock pbwm1 s2) (\<lambda>_ s3. Some (Done (), s3)) else Some (Done (), s2))))"

text \<open>Timeouts and interruptions are of the category that may be suppressed. The lock on the batch writer resource is then free again.\<close>

definition newGlobalLock :: "GuardEnv \<Rightarrow> LockMode \<Rightarrow> int option \<Rightarrow> InterruptBehavior \<Rightarrow> LState \<Rightarrow> GlobalLock step" where
  "newGlobalLock env m deadline behavior s =
     (let outermost = (\<not> isLocked s);
          finish = (\<lambda>res pbwm s1.
            Some (Done \<lparr>gl_result = res, gl_pbwm = pbwm, gl_interruptBehavior = behavior, gl_isOutermostLock = outermost\<rparr>,
                  upd_lk (setGlobalLockTakenInMode (getLockMode resourceIdGlobal s1)) s1))
      in andThen (getFlowControlTicket (env RESOURCE_GLOBAL) m s) (\<lambda>_ s1.
           case acquireGlobal env m deadline s1 of
             None \<Rightarrow> None
           | Some (Done pbwm, s2) \<Rightarrow> finish LOCK_OK pbwm s2
           | Some (Throw e, s2) \<Rightarrow>
               if behavior = kThrow \<or> \<not> isInterruption e then Some (Throw e, s2)
               else finish LOCK_INVALID (newResourceLock resourceIdParallelBatchWriterMode) s2
           | Some (Blocked, s2) \<Rightarrow> Some (Blocked, s2)))"

text \<open>
  The destructor; before the last unlock the storage snapshot is abandoned, which the Locker does not see. The lock on the batch writer
  resource is a member and is destroyed last.
\<close>

definition deleteGlobalLock :: "GlobalLock \<Rightarrow> LState \<Rightarrow> unit step" where
  "deleteGlobalLock g s =
     andThen (if gl_result g = LOCK_OK then andThen (unlockGlobal s) (\<lambda>_ s1. Some (Done (), s1)) else Some (Done (), s)) (\<lambda>_ s1.
     andThen (if gl_result g = LOCK_OK \<or> gl_result g = LOCK_WAITING
              then unlockResource resourceIdReplicationStateTransitionLock s1 else Some (Done (), s1)) (\<lambda>_ s2.
     deleteResourceLock (gl_pbwm g) s2))"

subsection \<open>Databases and collections\<close>

record DBLock =
  db_id :: ResourceId
  db_result :: LockResult
  db_mode :: LockMode
  db_globalLock :: GlobalLock

definition nsIsDbOnly :: "string \<Rightarrow> bool" where
  "nsIsDbOnly ns \<longleftrightarrow> CHR ''.'' \<notin> set ns"

definition resourceIdAdminDB :: "(string \<Rightarrow> ResourceId) \<Rightarrow> ResourceId" where
  "resourceIdAdminDB dbId = dbId ''admin''"

definition newDBLock :: "GuardEnv \<Rightarrow> (string \<Rightarrow> ResourceId) \<Rightarrow> string \<Rightarrow> LockMode \<Rightarrow> int option \<Rightarrow> LState \<Rightarrow> DBLock step" where
  "newDBLock env dbId db m deadline s =
     andThen (newGlobalLock env (if isSharedLockMode m then MODE_IS else MODE_IX) deadline kThrow s) (\<lambda>g s1.
       onThrow
         (if \<not> (db \<noteq> [] \<and> nsIsDbOnly db) then Some (Throw (AssertionException 28539), s1)
          else let m1 = (if dbId db = resourceIdAdminDB dbId \<and> \<not> isSharedLockMode m then MODE_X else m)
               in andThen (Locker_lock (env RESOURCE_DATABASE) (dbId db) m1 deadline s1) (\<lambda>_ s2.
                    Some (Done \<lparr>db_id = dbId db, db_result = LOCK_OK, db_mode = m1, db_globalLock = g\<rparr>, s2)))
         (deleteGlobalLock g))"

definition deleteDBLock :: "DBLock \<Rightarrow> LState \<Rightarrow> unit step" where
  "deleteDBLock l s =
     andThen (if db_result l = LOCK_OK then unlockResource (db_id l) s else Some (Done (), s)) (\<lambda>_ s1.
       deleteGlobalLock (db_globalLock l) s1)"

definition relockWithMode :: "LEnv \<Rightarrow> LockMode \<Rightarrow> DBLock \<Rightarrow> LState \<Rightarrow> DBLock step" where
  "relockWithMode env newMode l s =
     check (\<not> inAWriteUnitOfWork (lk s))
       (check (isSharedLockMode (db_mode l) \<and> \<not> isSharedLockMode newMode \<longrightarrow> isWriteLocked s)
         (andThen (Locker_unlock (db_id l) s) (\<lambda>_ s1.
            check (isLocked s1)
              (andThen (Locker_lock env (db_id l) newMode None s1) (\<lambda>_ s2.
                 Some (Done (l\<lparr>db_mode := newMode, db_result := LOCK_OK\<rparr>), s2))))))"

text \<open>
  A collection given by its name, or by a UUID that the catalog resolves. \<open>resolved\<close> are the answers of the catalog, one after the other: a name, or none
  when it throws because the UUID is gone. The lock is taken again until the name is the same before and after. Nothing gives it back when the
  catalog throws in between: the object is not constructed yet.
\<close>

definition collectionLockMode :: "bool \<Rightarrow> LockMode \<Rightarrow> LockMode" where
  "collectionLockMode supportsDocLocking m = (if \<not> supportsDocLocking then (if isSharedLockMode m then MODE_S else MODE_X) else m)"

definition NamespaceString_coll :: "string \<Rightarrow> string" where
  "NamespaceString_coll ns = drop 1 (dropWhile (\<lambda>c. c \<noteq> CHR ''.'') ns)"

definition newCollectionLock :: "LEnv \<Rightarrow> bool \<Rightarrow> (string \<Rightarrow> ResourceId) \<Rightarrow> string \<Rightarrow> LockMode \<Rightarrow> int option \<Rightarrow> LState \<Rightarrow> ResourceId step" where
  "newCollectionLock env docLocking collId nss m deadline s =
     check (NamespaceString_coll nss \<noteq> [])
       (andThen (Locker_lock env (collId nss) (collectionLockMode docLocking m) deadline s) (\<lambda>_ s1. Some (Done (collId nss), s1)))"

definition NamespaceNotFound :: lock_error where
  "NamespaceNotFound = AssertionException 26"

fun lockResolved :: "LEnv \<Rightarrow> (string \<Rightarrow> ResourceId) \<Rightarrow> LockMode \<Rightarrow> int option \<Rightarrow> string \<Rightarrow> string option list \<Rightarrow> LState \<Rightarrow> ResourceId step" where
  "lockResolved env collId m deadline nss [] s =
     andThen (Locker_lock env (collId nss) m deadline s) (\<lambda>_ s1. Some (Blocked, s1))"
| "lockResolved env collId m deadline nss (r # rs) s =
     andThen (Locker_lock env (collId nss) m deadline s) (\<lambda>_ s1.
       case r of
         None \<Rightarrow> Some (Throw NamespaceNotFound, s1)
       | Some nss1 \<Rightarrow>
           if nss1 = nss then Some (Done (collId nss), s1)
           else andThen (unlockResource (collId nss) s1) (\<lambda>_ s2. lockResolved env collId m deadline nss1 rs s2))"

definition newCollectionLockUUID ::
    "LEnv \<Rightarrow> bool \<Rightarrow> (string \<Rightarrow> ResourceId) \<Rightarrow> string option list \<Rightarrow> LockMode \<Rightarrow> int option \<Rightarrow> LState \<Rightarrow> ResourceId step" where
  "newCollectionLockUUID env docLocking collId resolved m deadline s =
     (case resolved of
        [] \<Rightarrow> Some (Blocked, s)
      | None # _ \<Rightarrow> Some (Throw NamespaceNotFound, s)
      | Some nss # rs \<Rightarrow> lockResolved env collId (collectionLockMode docLocking m) deadline nss rs s)"

definition deleteCollectionLock :: "ResourceId \<Rightarrow> LState \<Rightarrow> unit step" where
  "deleteCollectionLock i s = unlockResource i s"

subsection \<open>Giving all locks up for a time\<close>

definition newTempRelease :: "LState \<Rightarrow> (bool \<times> LockSnapshot) step" where
  "newTempRelease s = saveLockStateAndUnlock s"

definition deleteTempRelease :: "LEnv \<Rightarrow> bool \<times> LockSnapshot \<Rightarrow> LState \<Rightarrow> unit step" where
  "deleteTempRelease env t s =
     (if fst t then check (\<not> isLocked s) (restoreLockState env (snd t) s) else Some (Done (), s))"

end
