(* ===== verification/LockGuardProps.thy ===== *)
theory LockGuardProps
  imports LockGuards
begin

text \<open>
  The guards take all of their locks or none: a constructor that throws has given back what it had taken, and a destructor gives back the rest.
  Shown for an operation that holds no locks yet, while other operations go on with their own requests.
\<close>

subsection \<open>Requests taken once\<close>

abbreviation held :: "LState \<Rightarrow> ResourceId \<Rightarrow> nat option" where
  "held s \<equiv> fm_lookup (requests (lk s))"

abbreviation own :: "LState \<Rightarrow> nat \<Rightarrow> LockRequest" where
  "own s a \<equiv> requestStore (lmgr s) (Slot (lockerId (lk s)) a)"

definition once :: "LState \<Rightarrow> bool" where
  "once s \<longleftrightarrow> locker_inv s \<and>
     (\<forall>k a. held s k = Some a \<longrightarrow> recursiveCount (own s a) = 1 \<and> (status (own s a) = STATUS_GRANTED \<or> status (own s a) = STATUS_WAITING))"

text \<open>All of the requests, with the exception of those of some resources, are granted.\<close>

definition granted_but :: "ResourceId set \<Rightarrow> LState \<Rightarrow> bool" where
  "granted_but K s \<longleftrightarrow> (\<forall>k a. held s k = Some a \<longrightarrow> k \<notin> K \<longrightarrow> status (own s a) = STATUS_GRANTED)"

lemma onceD:
  assumes "once s"
  shows "locker_inv s" "held s k = Some a \<Longrightarrow> recursiveCount (own s a) = 1"
    "held s k = Some a \<Longrightarrow> status (own s a) = STATUS_GRANTED \<or> status (own s a) = STATUS_WAITING"
  using assms by (auto simp: once_def)

lemma held_inj: "once s \<Longrightarrow> held s k = Some a \<Longrightarrow> held s j = Some a \<Longrightarrow> j = k"
  using fm_lookup_inj [OF locker_invD(2) [OF onceD(1)]] by blast

text \<open>What an unlock leaves alone in the Locker.\<close>

definition same_flags :: "LState \<Rightarrow> LState \<Rightarrow> bool" where
  "same_flags s s' \<longleftrightarrow> wuowNestingLevel (lk s') = wuowNestingLevel (lk s) \<and> lockerId (lk s') = lockerId (lk s) \<and>
     shouldConflictWithSecondaryBatchApplication (lk s') = shouldConflictWithSecondaryBatchApplication (lk s)"

lemma same_flags_refl [simp]: "same_flags s s"
  by (simp add: same_flags_def)

lemma same_flags_trans: "same_flags s t \<Longrightarrow> same_flags t u \<Longrightarrow> same_flags s u"
  by (simp add: same_flags_def)

lemma releaseTicket_impl_flags: "same_flags s (releaseTicket_impl s)"
  by (auto simp: same_flags_def releaseTicket_impl_def Let_def upd_lk_def setTicketsFor_def split: option.splits)

lemma unlockImpl_flags:
  assumes "unlockImpl it s = Some (out, s')"
  shows "same_flags s s'" "it_key (requests (lk s)) it \<noteq> Some resourceIdGlobal \<Longrightarrow> modeForTicket (lk s') = modeForTicket (lk s)"
  using assms releaseTicket_impl_flags [of "s\<lparr>lmgr := l\<rparr>" for l]
  by (auto simp: unlockImpl_def same_flags_def upd_lk_def Let_def invariant_def split: if_splits Option.bind_splits)

text \<open>The entry of a request that is held.\<close>

lemma held_entry:
  assumes "held s k = Some a"
  shows "\<not> it_finished (requests (lk s)) (fm_find k (requests (lk s)))" "fm_find k (requests (lk s)) < length (fastAccess (requests (lk s)))"
    "inUse (fastAccess (requests (lk s)) ! fm_find k (requests (lk s)))" "ekey (fastAccess (requests (lk s)) ! fm_find k (requests (lk s))) = k"
    "eaddr (fastAccess (requests (lk s)) ! fm_find k (requests (lk s))) = a"
    "it_req (lk s) (fm_find k (requests (lk s))) = Some (Slot (lockerId (lk s)) a)"
    "it_key (requests (lk s)) (fm_find k (requests (lk s))) = Some k"
  using fm_find_hit [OF assms(1)]
  by (auto simp: it_finished_def it_key_def it_objAddr_def it_req_def split: if_splits)

lemma getLockMode_held: "held s k = Some a \<Longrightarrow> getLockMode k s = mode (own s a)"
  using held_entry(6) [of s k a] by (simp add: getLockMode_def find_req_def)

lemma getLockMode_none: "held s k = None \<Longrightarrow> getLockMode k s = MODE_NONE"
  using fm_find_miss [of "requests (lk s)" k] by (simp add: getLockMode_def find_req_def it_req_def it_objAddr_def)

lemma unlockImpl_once:
  assumes "once s" "held s k = Some a" "k = resourceIdGlobal \<Longrightarrow> modeForTicket (lk s) \<noteq> MODE_NONE" "granted_but K s"
  shows "\<exists>it' s'. unlockImpl (fm_find k (requests (lk s))) s = Some (Done (True, it'), s') \<and> once s' \<and> held s' = (held s)(k := None) \<and>
    granted_but K s' \<and> same_flags s s' \<and> (k \<noteq> resourceIdGlobal \<longrightarrow> modeForTicket (lk s') = modeForTicket (lk s)) \<and>
    (K \<subseteq> {k} \<longrightarrow> (\<forall>j. j \<noteq> k \<longrightarrow> getLockMode j s' = getLockMode j s))"
proof -
  note e = held_entry [OF assms(2)]
  obtain b it' s' where u: "unlockImpl (fm_find k (requests (lk s))) s = Some (Done (b, it'), s')" "locker_inv s'" "lockerId (lk s') = lockerId (lk s)"
    "held s' = (if b then (held s)(k := None) else held s)" "b \<longleftrightarrow> recursiveCount (own s a) = 1"
    "unlock_outcome (Slot (lockerId (lk s)) a) (requestStore (lmgr s)) (requestStore (lmgr s'))"
    using unlockImpl_ok [OF onceD(1) [OF assms(1)] e(2,3) e(4) [symmetric]] assms(3) unfolding e(5) by blast
  have b: "b" using u(5) onceD(2) [OF assms(1,2)] by simp
  have keep: "granted_from (own s c) (own s' c)" "held s j = Some c" "j \<noteq> k" if "held s' j = Some c" for j c
  proof -
    show j: "held s j = Some c" "j \<noteq> k" using that u(4) b by (auto split: if_splits)
    have "c \<noteq> a" using held_inj [OF assms(1) assms(2), of j] j by blast
    then show "granted_from (own s c) (own s' c)" using u(3,6) by (simp add: unlock_outcome_def)
  qed
  have "recursiveCount (own s' c) = 1 \<and> (status (own s' c) = STATUS_GRANTED \<or> status (own s' c) = STATUS_WAITING)" if "held s' j = Some c" for j c
    using keep [OF that] onceD(2,3) [OF assms(1), of j c] by (auto simp: granted_from_def)
  then have once: "once s'" using u(2) by (simp add: once_def)
  have grant: "granted_but K s'"
    using keep granted_fromD(2) assms(4) unfolding granted_but_def by metis
  have "getLockMode j s' = getLockMode j s" if "K \<subseteq> {k}" "j \<noteq> k" for j
  proof (cases "held s' j")
    case None
    then show ?thesis using u(4) b that(2) by (simp add: getLockMode_none)
  next
    case (Some c)
    have "status (own s c) = STATUS_GRANTED" using keep(2,3) [OF Some] assms(4) that unfolding granted_but_def by blast
    then have "own s' c = own s c" using granted_fromD(2) [OF keep(1) [OF Some]] by simp
    then show ?thesis using getLockMode_held [OF Some] getLockMode_held [OF keep(2) [OF Some]] by simp
  qed
  then show ?thesis using u(1,4) b once grant unlockImpl_flags [OF u(1)] e(7) by auto
qed

abbreviation single :: "LState \<Rightarrow> bool" where
  "single s \<equiv> once s \<and> granted_but {} s"

text \<open>Locks that an operation gives back one by one, outside of a unit of work.\<close>

lemma Locker_unlock_single:
  assumes "single s" "held s k = Some a" "k = resourceIdGlobal \<Longrightarrow> modeForTicket (lk s) \<noteq> MODE_NONE" "\<not> inAWriteUnitOfWork (lk s)"
  shows "\<exists>s'. Locker_unlock k s = Some (Done True, s') \<and> single s' \<and> held s' = (held s)(k := None) \<and> same_flags s s' \<and>
    (k \<noteq> resourceIdGlobal \<longrightarrow> modeForTicket (lk s') = modeForTicket (lk s)) \<and> (\<forall>j. j \<noteq> k \<longrightarrow> getLockMode j s' = getLockMode j s)"
  using unlockImpl_once [OF _ assms(2,3), of "{}"] held_entry [OF assms(2)] assms(1,4) by (auto simp: Locker_unlock_def Let_def)

lemma Locker_unlock_none: "held s k = None \<Longrightarrow> Locker_unlock k s = Some (Done False, s)"
  using fm_find_miss [of "requests (lk s)" k] by (simp add: Locker_unlock_def Let_def)

lemma unlockResource_single:
  assumes "single s" "held s k = Some a" "k \<noteq> resourceIdGlobal" "\<not> inAWriteUnitOfWork (lk s)"
  shows "\<exists>s'. unlockResource k s = Some (Done (), s') \<and> single s' \<and> held s' = (held s)(k := None) \<and> same_flags s s' \<and>
    modeForTicket (lk s') = modeForTicket (lk s) \<and> (\<forall>j. j \<noteq> k \<longrightarrow> getLockMode j s' = getLockMode j s)"
  using Locker_unlock_single [OF assms(1,2) _ assms(4)] assms(3) by (auto simp: unlockResource_def)

subsection \<open>Taking a lock while others go on\<close>

text \<open>The request for one more resource is with the lock manager, granted or waiting.\<close>

definition posting :: "ResourceId \<Rightarrow> LockMode \<Rightarrow> LState \<Rightarrow> LState \<Rightarrow> bool" where
  "posting k m s s' \<longleftrightarrow> once s' \<and> granted_but {k} s' \<and> same_flags s s' \<and> (\<exists>a. held s' = (held s)(k \<mapsto> a)) \<and> getLockMode k s' = m \<and>
     (\<forall>j. j \<noteq> k \<longrightarrow> getLockMode j s' = getLockMode j s)"

text \<open>The outcome of taking a lock: it is granted in the mode asked for, or nothing has changed, or the operation still waits.\<close>

definition taken :: "ResourceId \<Rightarrow> LockMode \<Rightarrow> LState \<Rightarrow> 'a result \<Rightarrow> LState \<Rightarrow> bool" where
  "taken k m s out s' =
     (case out of
        Done _ \<Rightarrow> posting k m s s' \<and> granted_but {} s'
      | Throw e \<Rightarrow> single s' \<and> same_flags s s' \<and> held s' = held s \<and> (\<forall>j. getLockMode j s' = getLockMode j s)
      | Blocked \<Rightarrow> True)"

definition ticket_kept :: "ResourceId \<Rightarrow> LState \<Rightarrow> 'a result \<Rightarrow> LState \<Rightarrow> bool" where
  "ticket_kept k s out s' =
     (case out of Done _ \<Rightarrow> modeForTicket (lk s') = modeForTicket (lk s)
      | Throw e \<Rightarrow> k \<noteq> resourceIdGlobal \<longrightarrow> modeForTicket (lk s') = modeForTicket (lk s)
      | Blocked \<Rightarrow> True)"

lemma give_back:
  assumes "posting k m s0 s" "held s0 k = None" "k = resourceIdGlobal \<Longrightarrow> modeForTicket (lk s) \<noteq> MODE_NONE"
  shows "\<exists>it' s'. unlockImpl (fm_find k (requests (lk s))) s = Some (Done (True, it'), s') \<and> taken k m s0 (Throw e :: 'a result) s' \<and>
    (k \<noteq> resourceIdGlobal \<longrightarrow> modeForTicket (lk s') = modeForTicket (lk s))"
proof -
  obtain a where p: "once s" "granted_but {k} s" "same_flags s0 s" "held s = (held s0)(k \<mapsto> a)" "\<And>j. j \<noteq> k \<Longrightarrow> getLockMode j s = getLockMode j s0"
    using assms(1) by (auto simp: posting_def)
  obtain it' s' where u: "unlockImpl (fm_find k (requests (lk s))) s = Some (Done (True, it'), s')" "once s'" "held s' = (held s)(k := None)"
    "granted_but {k} s'" "same_flags s s'" "\<And>j. j \<noteq> k \<Longrightarrow> getLockMode j s' = getLockMode j s"
    "k \<noteq> resourceIdGlobal \<longrightarrow> modeForTicket (lk s') = modeForTicket (lk s)"
    using unlockImpl_once [OF p(1), of k a "{k}"] assms(3) p(2,4) by auto
  have h: "held s' = held s0" using u(3) p(4) assms(2) by (simp add: fun_upd_idem)
  then have "getLockMode k s' = getLockMode k s0" using assms(2) by (simp add: getLockMode_none)
  then have "getLockMode j s' = getLockMode j s0" for j using u(6) p(5) by (cases "j = k") auto
  moreover have "granted_but {} s'" using u(4) h assms(2) unfolding granted_but_def by (metis option.distinct(1) singletonD)
  ultimately show ?thesis using u h same_flags_trans [OF p(3)] by (auto simp: taken_def)
qed

lemma lockBegin_posting:
  assumes "single s" "held s k = None" "m \<noteq> MODE_NONE" "k = resourceIdGlobal \<Longrightarrow> modeForTicket (lk s) \<noteq> MODE_NONE"
  shows "(\<exists>s'. lockBegin env k m s = Some (Done LOCK_OK, s') \<and> taken k m s (Done ()) s' \<and> modeForTicket (lk s') = modeForTicket (lk s)) \<or>
    (\<exists>s'. lockBegin env k m s = Some (Done LOCK_WAITING, s') \<and> posting k m s s' \<and> modeForTicket (lk s') = modeForTicket (lk s) \<and> \<not> notifiedSinceClear s') \<or>
    (\<exists>e s'. lockBegin env k m s = Some (Throw e, s') \<and> taken k m s (Throw e :: unit result) s' \<and>
      (k \<noteq> resourceIdGlobal \<longrightarrow> modeForTicket (lk s') = modeForTicket (lk s)))"
proof -
  have o: "once s" using assms(1) by simp
  obtain a res s4 where b: "locker_inv s4" "lk s4 = (lk s)\<lparr>requests := requests (lk s4), notifySeen := notifySeen (lk s4)\<rparr>"
     "held s4 k = Some a" "(held s4)(k := None) = held s" "recursiveCount (requestStore (lmgr s4) (Slot (lockerId (lk s)) a)) = 1" "getLockMode k s4 = m"
     "lock_outcome res (status (requestStore (lmgr s4) (Slot (lockerId (lk s)) a)))"
     "\<forall>y. y \<noteq> Slot (lockerId (lk s)) a \<longrightarrow> requestStore (lmgr s4) y = requestStore (lmgr s) y \<or> requestStore (lmgr s4) y = migrated k (requestStore (lmgr s) y)"
     "\<not> notifiedSinceClear s4"
     "lockBegin env k m s =
       (case (if res = LOCK_OK \<and> hasOpCtx env \<and> uninterruptibleLocksRequested (lk s4) = 0 then interruptStatus env else None) of
          None \<Rightarrow> Some (Done res, s4)
        | Some e \<Rightarrow> andThen (unlockImpl (fm_find k (requests (lk s4))) s4) (\<lambda>_ s5. Some (Throw e, s5)))"
    using lockBegin_new_post [OF onceD(1) [OF o] assms(2,3), of env] unfolding Let_def by blast
  have same: "wuowNestingLevel (lk s4) = wuowNestingLevel (lk s)" "modeForTicket (lk s4) = modeForTicket (lk s)" "lockerId (lk s4) = lockerId (lk s)"
    "shouldConflictWithSecondaryBatchApplication (lk s4) = shouldConflictWithSecondaryBatchApplication (lk s)"
    by (subst b(2), simp)+
  have new: "held s4 = (held s)(k \<mapsto> a)" using b(3,4) by (metis fun_upd_triv fun_upd_upd)
  have keep: "held s j = Some c" "own s4 c = own s c \<or> own s4 c = migrated k (own s c)" if "held s4 j = Some c" "j \<noteq> k" for j c
  proof -
    show "held s j = Some c" using that new by simp
    have "c \<noteq> a" using fm_lookup_inj [OF locker_invD(2) [OF b(1)] that(1)] b(3) that(2) by blast
    then show "own s4 c = own s c \<or> own s4 c = migrated k (own s c)" using b(8) same(3) by simp
  qed
  have "recursiveCount (own s4 c) = 1 \<and> (status (own s4 c) = STATUS_GRANTED \<or> status (own s4 c) = STATUS_WAITING)" if "held s4 j = Some c" for j c
  proof (cases "j = k")
    case True
    then show ?thesis using that b(3,5,7) same(3) by (auto simp: lock_outcome_def)
  next
    case False
    then show ?thesis using keep [OF that False] onceD(2,3) [OF o, of j c] by (auto simp: migrated_def)
  qed
  then have once: "once s4" using b(1) by (simp add: once_def)
  have "status (own s4 c) = STATUS_GRANTED" if "held s4 j = Some c" "j \<noteq> k" for j c
    using keep [OF that] assms(1) by (auto simp: migrated_def granted_but_def)
  then have grant: "granted_but {k} s4" by (auto simp: granted_but_def)
  have modes: "getLockMode j s4 = getLockMode j s" if "j \<noteq> k" for j
  proof (cases "held s4 j")
    case None
    then show ?thesis using new that getLockMode_none [of s4 j] getLockMode_none [of s j] by simp
  next
    case (Some c)
    then show ?thesis using keep [OF Some that] getLockMode_held [of s4 j c] getLockMode_held [of s j c] by (auto simp: migrated_def)
  qed
  have post: "posting k m s s4" using once grant same new b(6) modes by (auto simp: posting_def same_flags_def)
  show ?thesis
  proof (cases "if res = LOCK_OK \<and> hasOpCtx env \<and> uninterruptibleLocksRequested (lk s4) = 0 then interruptStatus env else None")
    case None
    then have run: "lockBegin env k m s = Some (Done res, s4)" unfolding b(10) by simp
    show ?thesis
    proof (cases "res = LOCK_OK")
      case True
      then have "granted_but {} s4" using grant b(3,7) same(3) unfolding granted_but_def lock_outcome_def by (metis (lifting) LockResult.distinct(1) insert_absorb insert_iff insert_not_empty option.inject)
      then show ?thesis using run True post same(2) by (auto simp: taken_def)
    next
      case False
      then show ?thesis using run post same(2) b(7,9) by (auto simp: lock_outcome_def)
    qed
  next
    case (Some e)
    obtain it' s5 where "unlockImpl (fm_find k (requests (lk s4))) s4 = Some (Done (True, it'), s5)" "taken k m s (Throw e :: unit result) s5"
      "k \<noteq> resourceIdGlobal \<longrightarrow> modeForTicket (lk s5) = modeForTicket (lk s4)"
      using give_back [OF post assms(2)] assms(4) same(2) by metis
    then show ?thesis unfolding b(10) Some using same(2) by auto
  qed
qed

text \<open>
  What other operations do to the requests of a Locker while it waits: a request with the lock manager is granted, or moved from its partition to the
  lock head, and a notification for the Locker means that one of its requests has just been granted.
\<close>

definition others_change :: "LockRequest \<Rightarrow> LockRequest \<Rightarrow> bool" where
  "others_change x y \<longleftrightarrow> y = x \<or> posted x \<and> (granted_from x y \<or> (\<exists>k. on_resource x k \<and> y = migrated k x))"

definition others_act :: "LockerId \<Rightarrow> (LockManager \<Rightarrow> LockManager) \<Rightarrow> bool" where
  "others_act i f \<longleftrightarrow> (\<forall>lm. lm_ok lm \<longrightarrow> lm_ok (f lm) \<and>
     (\<forall>a. others_change (requestStore lm (Slot i a)) (requestStore (f lm) (Slot i a))) \<and>
     (\<exists>ns. notifications (f lm) = notifications lm @ ns \<and>
        (\<forall>n \<in> set ns. slot_locker (fst n) = i \<longrightarrow>
           status (requestStore lm (fst n)) \<noteq> STATUS_GRANTED \<and> status (requestStore (f lm) (fst n)) = STATUS_GRANTED)))"

lemma others_change_keeps:
  assumes "others_change x y"
  shows "posted y \<longleftrightarrow> posted x" "on_resource x k \<Longrightarrow> on_resource y k" "recursiveCount y = recursiveCount x"
    "status x = STATUS_GRANTED \<Longrightarrow> status y = STATUS_GRANTED" "status x = STATUS_GRANTED \<or> status x = STATUS_WAITING \<Longrightarrow> mode y = mode x"
    "status x = STATUS_GRANTED \<or> status x = STATUS_WAITING \<Longrightarrow> status y = STATUS_GRANTED \<or> status y = STATUS_WAITING" "status y \<noteq> status x \<Longrightarrow> posted x"
  using assms by (auto simp: others_change_def granted_from_def migrated_def posted_def on_resource_def)

lemma others_act_posting:
  assumes "others_act (lockerId (lk s)) f" "posting k m s0 s"
  defines "s1 \<equiv> s\<lparr>lmgr := f (lmgr s)\<rparr>"
  shows "posting k m s0 s1" "\<not> notifiedSinceClear s \<Longrightarrow> notifiedSinceClear s1 \<Longrightarrow> granted_but {} s1"
proof -
  have p: "once s" "granted_but {k} s" "lk s1 = lk s" "lmgr s1 = f (lmgr s)" using assms(2) by (auto simp: posting_def s1_def)
  note inv = onceD(1) [OF p(1)]
  obtain ns where f: "lm_ok (f (lmgr s))" "\<And>a. others_change (own s a) (own s1 a)" "notifications (f (lmgr s)) = notifications (lmgr s) @ ns"
    "\<And>n. n \<in> set ns \<Longrightarrow> slot_locker (fst n) = lockerId (lk s) \<Longrightarrow>
       status (requestStore (lmgr s) (fst n)) \<noteq> STATUS_GRANTED \<and> status (requestStore (lmgr s1) (fst n)) = STATUS_GRANTED"
    using assms(1) locker_invD(1) [OF inv] p(3,4) unfolding others_act_def by metis
  note keep = others_change_keeps [OF f(2)]
  have "locker_inv s1" using inv f(1) keep(1,2) unfolding locker_inv_def p(3,4) [symmetric] by (simp add: p(3,4))
  moreover have "recursiveCount (own s1 a) = 1 \<and> (status (own s1 a) = STATUS_GRANTED \<or> status (own s1 a) = STATUS_WAITING)" if "held s1 j = Some a" for j a
    using that onceD(2,3) [OF p(1), of j a] keep(3,6) [of a] p(3) by simp
  ultimately have once: "once s1" by (simp add: once_def)
  have "getLockMode j s1 = getLockMode j s" for j
  proof (cases "held s j")
    case None
    then show ?thesis using p(3) getLockMode_none [of s j] getLockMode_none [of s1 j] by simp
  next
    case (Some a)
    then show ?thesis using p(3) getLockMode_held [of s j a] getLockMode_held [of s1 j a] keep(5) [of a] onceD(3) [OF p(1) Some] by simp
  qed
  moreover have "granted_but {k} s1" using p(2) keep(4) unfolding granted_but_def p(3) by (metis p(3))
  ultimately show "posting k m s0 s1" using once assms(2) p(3) by (simp add: posting_def same_flags_def)
  assume quiet: "\<not> notifiedSinceClear s" "notifiedSinceClear s1"
  then obtain n where n: "n \<in> set ns" "slot_locker (fst n) = lockerId (lk s)" using f(3) p(3,4) by (auto simp: notifiedSinceClear_def dest: in_set_dropD)
  then obtain a where a: "fst n = Slot (lockerId (lk s)) a" by (cases "fst n") auto
  have change: "status (own s a) \<noteq> STATUS_GRANTED" "status (own s1 a) = STATUS_GRANTED" using f(4) [OF n] a p(3) by auto
  then have "posted (own s a)" using keep(7) by metis
  then obtain j where j: "held s j = Some a" using locker_invD(5) [OF inv, of a] by (auto simp: ran_def)
  have "j = k" using p(2) j change(1) unfolding granted_but_def by blast
  show "granted_but {} s1"
    unfolding granted_but_def
  proof (intro allI impI)
    fix i c
    assume "held s1 i = Some c"
    then have i: "held s i = Some c" using p(3) by simp
    show "status (own s1 c) = STATUS_GRANTED"
    proof (cases "i = k")
      case True
      then show ?thesis using i j \<open>j = k\<close> change(2) by simp
    next
      case False
      then show ?thesis using p(2) i keep(4) [of c] unfolding granted_but_def by blast
    qed
  qed
qed

lemma unlockOnError_taken:
  assumes "posting k m s0 s" "held s0 k = None" "k = resourceIdGlobal \<Longrightarrow> modeForTicket (lk s) \<noteq> MODE_NONE"
  shows "\<exists>s'. unlockOnError k e s = Some (Throw e, s') \<and> taken k m s0 (Throw e :: unit result) s' \<and> (k \<noteq> resourceIdGlobal \<longrightarrow> modeForTicket (lk s') = modeForTicket (lk s))"
proof -
  obtain a where "held s k = Some a" using assms(1) by (auto simp: posting_def)
  then show ?thesis
    using give_back [OF assms, of e] held_entry(1) [of s k a] by (auto simp: unlockOnError_def Let_def check_def)
qed

lemma waitLoop_taken:
  assumes "\<forall>w \<in> set ws. others_act (lockerId (lk s)) (w_lmgr w)" "posting k m s0 s" "\<not> notifiedSinceClear s" "held s0 k = None"
    "k = resourceIdGlobal \<Longrightarrow> modeForTicket (lk s) \<noteq> MODE_NONE"
  shows "\<exists>out s'. waitLoop env k timeout ws s = Some (out, s') \<and> taken k m s0 out s' \<and> ticket_kept k s out s'"
  using assms
proof (induction ws arbitrary: s)
  case Nil
  then show ?case by (simp add: taken_def ticket_kept_def)
next
  case (Cons w ws)
  define s1 where "s1 = s\<lparr>lmgr := w_lmgr w (lmgr s)\<rparr>"
  have lk: "lk s1 = lk s" by (simp add: s1_def)
  have post: "posting k m s0 s1" and grant: "notifiedSinceClear s1 \<Longrightarrow> granted_but {} s1"
    using others_act_posting [OF _ Cons.prems(2), of "w_lmgr w"] Cons.prems(1,3) unfolding s1_def by auto
  have fail: "\<exists>s'. unlockOnError k e s1 = Some (Throw e, s') \<and> taken k m s0 (Throw e :: unit result) s' \<and> ticket_kept k s (Throw e :: unit result) s'" for e
    using unlockOnError_taken [OF post Cons.prems(4)] Cons.prems(5) lk by (simp add: ticket_kept_def)
  show ?case
  proof (cases "if hasOpCtx env \<and> uninterruptibleLocksRequested (lk s1) = 0 then w_interrupt w else None")
    case (Some e)
    then show ?thesis using fail [of e] by (auto simp: s1_def [symmetric] Let_def)
  next
    case None
    show ?thesis
    proof (cases "notifiedSinceClear s1")
      case True
      then have "waitLoop env k timeout (w # ws) s = Some (Done (), s1)" using None by (simp add: s1_def [symmetric] Let_def)
      then show ?thesis using True grant post lk by (simp add: taken_def ticket_kept_def)
    next
      case False
      have more_waits: "\<exists>out s'. waitLoop env k timeout ws s1 = Some (out, s') \<and> taken k m s0 out s' \<and> ticket_kept k s out s'"
        using Cons.IH [of s1] Cons.prems(1,4,5) post False lk by (simp add: ticket_kept_def cong: result.case_cong)
      have "waitLoop env k timeout (w # ws) s \<in> {waitLoop env k timeout ws s1, unlockOnError k LockTimeout s1}"
        using None False by (auto simp: s1_def [symmetric] Let_def split: option.splits)
      then show ?thesis using more_waits fail [of LockTimeout] by auto
    qed
  qed
qed

text \<open>Every wait of an environment is with others that keep to this.\<close>

definition fair_env :: "LockerId \<Rightarrow> LEnv \<Rightarrow> bool" where
  "fair_env i env \<longleftrightarrow> (\<forall>w \<in> set (wakeUps env). others_act i (w_lmgr w))"

lemma lock_taken:
  assumes "single s" "held s k = None" "m \<noteq> MODE_NONE" "k = resourceIdGlobal \<Longrightarrow> modeForTicket (lk s) \<noteq> MODE_NONE" "fair_env (lockerId (lk s)) env"
  shows "\<exists>out s'. andThen (lockBegin env k m s) (\<lambda>res s1. if res = LOCK_OK then Some (Done (), s1)
      else check (res = LOCK_WAITING) (lockComplete env k m deadline s1)) = Some (out, s') \<and> taken k m s out s' \<and> ticket_kept k s out s'"
  using lockBegin_posting [OF assms(1-4), of env, simplified]
proof (elim disjE exE conjE)
  fix s1
  assume b: "lockBegin env k m s = Some (Done LOCK_WAITING, s1)" "posting k m s s1" "modeForTicket (lk s1) = modeForTicket (lk s)" "\<not> notifiedSinceClear s1"
  have tick: "k = resourceIdGlobal \<Longrightarrow> modeForTicket (lk s1) \<noteq> MODE_NONE" using assms(4) b(3) by simp
  have fair: "\<forall>w \<in> set (wakeUps env). others_act (lockerId (lk s1)) (w_lmgr w)" using assms(5) b(2) by (simp add: fair_env_def posting_def same_flags_def)
  have "\<exists>out s'. lockComplete env k m deadline s1 = Some (out, s') \<and> taken k m s out s' \<and> ticket_kept k s1 out s'"
  proof (cases "uninterruptibleLocksRequested (lk s1) = 0 \<and> failNonIntentLocks env \<and> \<not> (m = MODE_IS \<or> m = MODE_IX)")
    case True
    then have "lockComplete env k m deadline s1 = unlockOnError k LockTimeout s1" by (simp add: lockComplete_def)
    then show ?thesis using unlockOnError_taken [OF b(2) assms(2) tick, of LockTimeout] by (auto simp: ticket_kept_def)
  next
    case False
    then obtain t where "lockComplete env k m deadline s1 = waitLoop env k t (wakeUps env) s1" by (auto simp: lockComplete_def Let_def)
    then show ?thesis using waitLoop_taken [OF fair b(2,4) assms(2) tick, of env t] by simp
  qed
  then show ?thesis using b(1,3) by (simp add: check_def ticket_kept_def cong: result.case_cong)
qed (auto simp: andThen_def ticket_kept_def)

lemma Locker_lock_taken:
  assumes "single s" "held s k = None" "m \<noteq> MODE_NONE" "k \<noteq> resourceIdGlobal" "fair_env (lockerId (lk s)) env"
  shows "\<exists>out s'. Locker_lock env k m deadline s = Some (out, s') \<and> taken k m s out s' \<and> ticket_kept k s out s'"
  using lock_taken [OF assms(1-3) _ assms(5)] assms(4) by (simp add: Locker_lock_def check_def)

subsection \<open>Sets of locks\<close>

text \<open>The state is the earlier one with some more locks, each granted in a mode.\<close>

definition plus_locks :: "(ResourceId \<rightharpoonup> LockMode) \<Rightarrow> LState \<Rightarrow> LState \<Rightarrow> bool" where
  "plus_locks K s s' \<longleftrightarrow> single s' \<and> same_flags s s' \<and> dom (held s') = dom (held s) \<union> dom K \<and>
     (\<forall>k. getLockMode k s' = (case K k of None \<Rightarrow> getLockMode k s | Some m \<Rightarrow> m))"

lemma plus_locks_refl: "single s \<Longrightarrow> plus_locks Map.empty s s"
  by (simp add: plus_locks_def)

lemma plus_locksD:
  assumes "plus_locks K s s'"
  shows "single s'" "same_flags s s'" "lockerId (lk s') = lockerId (lk s)" "inAWriteUnitOfWork (lk s') = inAWriteUnitOfWork (lk s)"
    "shouldConflictWithSecondaryBatchApplication (lk s') = shouldConflictWithSecondaryBatchApplication (lk s)"
    "k \<notin> dom (held s) \<Longrightarrow> K k = None \<Longrightarrow> held s' k = None" "k \<in> dom K \<Longrightarrow> \<exists>a. held s' k = Some a"
  using assms by (auto simp: plus_locks_def same_flags_def inAWriteUnitOfWork_def)

lemma plus_locks_taken:
  assumes "plus_locks K s s1" "taken k m s1 out s'" "out \<noteq> Blocked"
  shows "plus_locks (if \<exists>u. out = Done u then K(k \<mapsto> m) else K) s s'"
proof (cases out)
  case (Done u)
  then have t: "posting k m s1 s'" "granted_but {} s'" using assms(2) by (auto simp: taken_def)
  then obtain a where "held s' = (held s1)(k \<mapsto> a)" by (auto simp: posting_def)
  then have "dom (held s') = insert k (dom (held s1))" by simp
  then show ?thesis using Done assms(1) t same_flags_trans [of s s1 s'] by (auto simp: plus_locks_def posting_def)
next
  case (Throw e)
  then show ?thesis using assms(1,2) same_flags_trans [of s s1 s'] by (auto simp: plus_locks_def taken_def)
qed (use assms(3) in simp)

lemma plus_locks_unlock:
  assumes "plus_locks K s s1" "k \<notin> dom (held s)" "held s' = (held s1)(k := None)" "single s'" "same_flags s1 s'"
    "\<forall>j. j \<noteq> k \<longrightarrow> getLockMode j s' = getLockMode j s1"
  shows "plus_locks (K(k := None)) s s'"
proof -
  have "getLockMode k s' = getLockMode k s" using assms(2,3) by (simp add: getLockMode_none domIff)
  moreover have "dom (held s') = dom (held s) \<union> dom (K(k := None))" using assms(1,2,3) by (auto simp: plus_locks_def)
  ultimately show ?thesis using assms same_flags_trans [of s s1 s'] by (auto simp: plus_locks_def)
qed

text \<open>The steps of a guard: one more lock, one lock less.\<close>

lemma plus_lock:
  assumes "plus_locks K s s1" "k \<notin> dom (held s)" "K k = None" "m \<noteq> MODE_NONE" "k \<noteq> resourceIdGlobal" "fair_env (lockerId (lk s)) env"
  shows "\<exists>out s'. Locker_lock env k m deadline s1 = Some (out, s') \<and>
    ticket_kept k s1 out s' \<and> (case out of Done u \<Rightarrow> plus_locks (K(k \<mapsto> m)) s s' | Throw e \<Rightarrow> plus_locks K s s' | Blocked \<Rightarrow> True)"
proof -
  obtain out s' where l: "Locker_lock env k m deadline s1 = Some (out, s')" "taken k m s1 out s'"
    "ticket_kept k s1 out s'"
    using Locker_lock_taken [of s1 k m env deadline] plus_locksD [OF assms(1)] assms(2-6) by auto
  show ?thesis
    using l plus_locks_taken [OF assms(1) l(2)] by (intro exI [of _ out] exI [of _ s']) (auto split: result.splits)
qed

lemma plus_unlock:
  assumes "plus_locks K s s1" "k \<notin> dom (held s)" "k \<in> dom K" "k \<noteq> resourceIdGlobal" "\<not> inAWriteUnitOfWork (lk s)"
  shows "\<exists>s'. Locker_unlock k s1 = Some (Done True, s') \<and> plus_locks (K(k := None)) s s' \<and> modeForTicket (lk s') = modeForTicket (lk s1)"
proof -
  obtain a where a: "held s1 k = Some a" using plus_locksD(7) [OF assms(1,3)] by blast
  obtain s' where u: "Locker_unlock k s1 = Some (Done True, s')" "single s'" "held s' = (held s1)(k := None)" "same_flags s1 s'"
    "modeForTicket (lk s') = modeForTicket (lk s1)" "\<forall>j. j \<noteq> k \<longrightarrow> getLockMode j s' = getLockMode j s1"
    using Locker_unlock_single [OF plus_locksD(1) [OF assms(1)] a] assms(4,5) plus_locksD(4) [OF assms(1)] by auto
  then show ?thesis using plus_locks_unlock [OF assms(1,2)] by blast
qed

subsection \<open>The global lock\<close>

text \<open>States that differ only in tickets and the state of the client.\<close>

definition same_locks :: "LState \<Rightarrow> LState \<Rightarrow> bool" where
  "same_locks s s' \<longleftrightarrow> lmgr s' = lmgr s \<and> requests (lk s') = requests (lk s) \<and> same_flags s s'"

lemma same_locksD:
  assumes "same_locks s s'"
  shows "single s' = single s" "held s' = held s" "getLockMode k s' = getLockMode k s" "same_flags s s'" "lockerId (lk s') = lockerId (lk s)"
  using assms by (auto simp: same_locks_def same_flags_def once_def granted_but_def locker_inv_def getLockMode_def find_req_def it_req_def)

lemma plus_locks_same: "plus_locks K s s1 \<Longrightarrow> same_locks s1 s' \<Longrightarrow> plus_locks K s s'"
  using same_locksD [of s1 s'] same_flags_trans [of s s1 s'] by (auto simp: plus_locks_def)

lemma acquireTicket_total:
  "\<exists>out s'. acquireTicket env m d s = Some (out, s') \<and> same_locks s s' \<and> (d = None \<longrightarrow> out \<noteq> Done False)"
  by (auto simp: acquireTicket_def Let_def same_locks_def same_flags_def upd_lk_def setTicketsFor_def split: option.splits nat.splits TicketWait.splits)

definition globalModeFor :: "LEnv \<Rightarrow> LockMode \<Rightarrow> LockMode" where
  "globalModeFor env m = (if hasOpCtx env \<and> \<not> supportsDBLocking env then (if isSharedLockMode m then MODE_S else MODE_X) else m)"

lemma globalModeFor_none: "m \<noteq> MODE_NONE \<Longrightarrow> globalModeFor env m \<noteq> MODE_NONE"
  by (simp add: globalModeFor_def)

definition ticketFirst :: "LEnv \<Rightarrow> LockMode \<Rightarrow> int option \<Rightarrow> LState \<Rightarrow> int option step" where
  "ticketFirst env m deadline s =
     (if modeForTicket (lk s) = MODE_NONE
      then if uninterruptibleLocksRequested (lk s) > 0
        then andThen (acquireTicket env m None s)
               (\<lambda>ok s1. check ok (Some (Done deadline, upd_lk (\<lambda>L. L\<lparr>modeForTicket := m\<rparr>) s1)))
        else let d = min_opt deadline (map_option (\<lambda>t. nowMillis env + t) (maxLockTimeout (lk s)))
             in andThen (acquireTicket env m d s)
                  (\<lambda>ok s1. if ok then Some (Done d, upd_lk (\<lambda>L. L\<lparr>modeForTicket := m\<rparr>) s1)
                           else Some (Throw LockTimeout, s1))
      else Some (Done deadline, s))"

lemma ticketFirst_result:
  assumes "m \<noteq> MODE_NONE"
  shows "\<exists>out s'. ticketFirst env m deadline s = Some (out, s') \<and> same_locks s s' \<and> (\<forall>d. out = Done d \<longrightarrow> modeForTicket (lk s') \<noteq> MODE_NONE)"
proof (cases "modeForTicket (lk s) = MODE_NONE")
  case True
  have upd: "same_locks s (upd_lk (\<lambda>L. L\<lparr>modeForTicket := m\<rparr>) s')" if "same_locks s s'" for s'
    using that by (simp add: same_locks_def same_flags_def upd_lk_def)
  define d where "d = (if uninterruptibleLocksRequested (lk s) > 0 then None else min_opt deadline (map_option (\<lambda>t. nowMillis env + t) (maxLockTimeout (lk s))))"
  obtain out s' where a: "acquireTicket env m d s = Some (out, s')" "same_locks s s'" "d = None \<longrightarrow> out \<noteq> Done False"
    using acquireTicket_total by blast
  show ?thesis
  proof (cases "uninterruptibleLocksRequested (lk s) > 0")
    case u: True
    then have "d = None" by (simp add: d_def)
    then show ?thesis using True u a upd assms by (cases out) (auto simp: ticketFirst_def andThen_def check_def)
  next
    case u: False
    then have "d = min_opt deadline (map_option (\<lambda>t. nowMillis env + t) (maxLockTimeout (lk s)))" by (simp add: d_def)
    then show ?thesis using True u a upd assms by (cases out) (auto simp: ticketFirst_def Let_def andThen_def)
  qed
qed (simp add: ticketFirst_def same_locks_def)

lemma lockGlobal_eq:
  "lockGlobal env m deadline s = andThen (ticketFirst env m deadline s) (\<lambda>d s1.
     andThen (lockBegin env resourceIdGlobal (globalModeFor env m) s1) (\<lambda>res s2. if res = LOCK_OK then Some (Done (), s2)
       else check (res = LOCK_WAITING) (lockComplete env resourceIdGlobal (globalModeFor env m) d s2)))"
  unfolding lockGlobal_def ticketFirst_def globalModeFor_def Let_def ..

lemma plus_lockGlobal:
  assumes "plus_locks K s s1" "resourceIdGlobal \<notin> dom (held s)" "K resourceIdGlobal = None" "m \<noteq> MODE_NONE" "fair_env (lockerId (lk s)) env"
  shows "\<exists>out s'. lockGlobal env m deadline s1 = Some (out, s') \<and>
    (case out of Done u \<Rightarrow> plus_locks (K(resourceIdGlobal \<mapsto> globalModeFor env m)) s s' \<and> modeForTicket (lk s') \<noteq> MODE_NONE
     | Throw e \<Rightarrow> plus_locks K s s' | Blocked \<Rightarrow> True)"
proof -
  obtain out s2 where t: "ticketFirst env m deadline s1 = Some (out, s2)" "same_locks s1 s2" "\<And>d. out = Done d \<Longrightarrow> modeForTicket (lk s2) \<noteq> MODE_NONE"
    using ticketFirst_result [OF assms(4)] by blast
  note p = plus_locks_same [OF assms(1) t(2)]
  show ?thesis
  proof (cases out)
    case (Done d)
    obtain out' s' where l: "andThen (lockBegin env resourceIdGlobal (globalModeFor env m) s2) (\<lambda>res s2. if res = LOCK_OK then Some (Done (), s2)
        else check (res = LOCK_WAITING) (lockComplete env resourceIdGlobal (globalModeFor env m) d s2)) = Some (out', s')"
      "taken resourceIdGlobal (globalModeFor env m) s2 out' s'" "ticket_kept resourceIdGlobal s2 out' s'"
      using lock_taken [of s2 resourceIdGlobal "globalModeFor env m" env d] plus_locksD [OF p] assms(2,3,5) t(3) [OF Done] globalModeFor_none [OF assms(4)]
      by auto
    have "lockGlobal env m deadline s1 = Some (out', s')" unfolding lockGlobal_eq using t(1) Done l(1) by simp
    then show ?thesis
      using l(3) t(3) [OF Done] plus_locks_taken [OF p l(2)] by (intro exI [of _ out'] exI [of _ s']) (auto simp: ticket_kept_def split: result.splits)
  qed (use t p in \<open>auto simp: lockGlobal_eq andThen_def\<close>)
qed

text \<open>Giving the global lock back unlocks nothing else when only mutexes and the resources above it are held.\<close>

definition aboveGlobal :: "ResourceId \<Rightarrow> bool" where
  "aboveGlobal k \<longleftrightarrow> getType k \<in> {RESOURCE_GLOBAL, RESOURCE_PBWM, RESOURCE_RSTL, RESOURCE_MUTEX}"

lemma unlockChildren_skips:
  assumes "visit n' (requests (lk s)) it = Some es" "\<forall>e \<in> set es. aboveGlobal (ekey e)" "length es \<le> n"
  shows "unlockChildren n it s = Some (Done (), s)"
  using assms
proof (induction n' arbitrary: it es n)
  case (Suc n')
  show ?case
  proof (cases "it_finished (requests (lk s)) it")
    case False
    then obtain it1 es1 where v: "it_next (requests (lk s)) it = Some it1" "visit n' (requests (lk s)) it1 = Some es1"
      "es = fastAccess (requests (lk s)) ! it # es1"
      using Suc.prems(1) by (auto split: Option.bind_splits)
    then obtain n1 where n: "n = Suc n1" using Suc.prems(3) by (cases n) auto
    have "unlockChildren n1 it1 s = Some (Done (), s)" using Suc.IH [OF v(2)] Suc.prems(2,3) v(3) n by simp
    then show ?thesis using False v n Suc.prems(2) by (simp add: it_key_def aboveGlobal_def)
  qed simp
qed simp

lemma plus_unlockGlobal:
  assumes "plus_locks K s s1" "resourceIdGlobal \<notin> dom (held s)" "resourceIdGlobal \<in> dom K" "\<not> inAWriteUnitOfWork (lk s)" "modeForTicket (lk s1) \<noteq> MODE_NONE"
    "\<forall>k \<in> dom (held s) \<union> dom K. aboveGlobal k"
  shows "\<exists>s'. unlockGlobal s1 = Some (Done True, s') \<and> plus_locks (K(resourceIdGlobal := None)) s s'"
proof -
  obtain a where a: "held s1 resourceIdGlobal = Some a" using plus_locksD(7) [OF assms(1,3)] by blast
  obtain s' where u: "Locker_unlock resourceIdGlobal s1 = Some (Done True, s')" "single s'" "held s' = (held s1)(resourceIdGlobal := None)" "same_flags s1 s'"
    "\<forall>j. j \<noteq> resourceIdGlobal \<longrightarrow> getLockMode j s' = getLockMode j s1"
    using Locker_unlock_single [OF plus_locksD(1) [OF assms(1)] a] assms(4,5) plus_locksD(4) [OF assms(1)] by auto
  note p = plus_locks_unlock [OF assms(1,2) u(3,2,4,5)]
  let ?m = "requests (lk s')"
  have "aboveGlobal (ekey e)" if "e \<in> set (filter inUse (fastAccess ?m))" for e
  proof -
    have "fm_lookup ?m (ekey e) = Some (eaddr e)"
      using that fm_lookup_iff [OF locker_invD(2) [OF onceD(1)]] u(2) by auto
    then have "ekey e \<in> dom (held s) \<union> dom K" using p by (auto simp: plus_locks_def)
    then show ?thesis using assms(6) by blast
  qed
  moreover have "length (filter inUse (fastAccess ?m)) \<le> length (fastAccess ?m)" by simp
  ultimately have "unlockChildren (length (fastAccess ?m)) (fm_begin ?m) s' = Some (Done (), s')"
    using unlockChildren_skips [OF visit_all] by blast
  then show ?thesis using u(1) p plus_locksD(4) [OF p] assms(4) by (simp add: unlockGlobal_def check_def del: unlockChildren.simps)
qed

text \<open>The locks that a guard of the global lock takes.\<close>

definition globalLocks :: "bool \<Rightarrow> LockMode \<Rightarrow> ResourceId \<rightharpoonup> LockMode" where
  "globalLocks conflict m =
     (if conflict then [resourceIdParallelBatchWriterMode \<mapsto> MODE_IS] else Map.empty)
       (resourceIdReplicationStateTransitionLock \<mapsto> MODE_IX, resourceIdGlobal \<mapsto> m)"

abbreviation conflicting :: "LState \<Rightarrow> bool" where
  "conflicting s \<equiv> shouldConflictWithSecondaryBatchApplication (lk s)"

definition batchLock :: "bool \<Rightarrow> ResourceLock" where
  "batchLock conflict = \<lparr>rl_rid = resourceIdParallelBatchWriterMode, rl_result = (if conflict then LOCK_OK else LOCK_INVALID)\<rparr>"

definition batchLocks :: "bool \<Rightarrow> ResourceId \<rightharpoonup> LockMode" where
  "batchLocks conflict = (if conflict then [resourceIdParallelBatchWriterMode \<mapsto> MODE_IS] else Map.empty)"

lemma global_resources:
  "resourceIdParallelBatchWriterMode \<noteq> resourceIdReplicationStateTransitionLock" "resourceIdParallelBatchWriterMode \<noteq> resourceIdGlobal"
  "resourceIdReplicationStateTransitionLock \<noteq> resourceIdGlobal" "aboveGlobal resourceIdGlobal"
  "aboveGlobal resourceIdParallelBatchWriterMode" "aboveGlobal resourceIdReplicationStateTransitionLock"
  "getType resourceIdParallelBatchWriterMode = RESOURCE_PBWM" "getType resourceIdReplicationStateTransitionLock = RESOURCE_RSTL"
  "getType resourceIdGlobal = RESOURCE_GLOBAL"
  by code_simp+

lemmas global_distinct [simp] = global_resources(1-3) global_resources(1-3) [symmetric]

text \<open>An operation that holds at most mutexes, outside of a unit of work, with fair environments.\<close>

definition only_mutexes :: "LState \<Rightarrow> bool" where
  "only_mutexes s \<longleftrightarrow> single s \<and> (\<forall>k \<in> dom (held s). getType k = RESOURCE_MUTEX) \<and> \<not> inAWriteUnitOfWork (lk s)"

lemma only_mutexesD:
  assumes "only_mutexes s"
  shows "single s" "getType k \<noteq> RESOURCE_MUTEX \<Longrightarrow> k \<notin> dom (held s)" "\<not> inAWriteUnitOfWork (lk s)" "k \<in> dom (held s) \<Longrightarrow> aboveGlobal k"
    "resourceIdGlobal \<notin> dom (held s)" "resourceIdParallelBatchWriterMode \<notin> dom (held s)" "resourceIdReplicationStateTransitionLock \<notin> dom (held s)"
proof -
  show none: "k \<notin> dom (held s)" if "getType k \<noteq> RESOURCE_MUTEX" for k using assms that by (auto simp: only_mutexes_def)
  show "resourceIdGlobal \<notin> dom (held s)" "resourceIdParallelBatchWriterMode \<notin> dom (held s)" "resourceIdReplicationStateTransitionLock \<notin> dom (held s)"
    by (rule none, simp add: global_resources(7-9))+
qed (use assms in \<open>auto simp: only_mutexes_def aboveGlobal_def\<close>)

lemma plus_batchLock:
  assumes "only_mutexes s" "fair_env (lockerId (lk s)) env"
  shows "\<exists>out s'. (if conflicting s then ResourceLock_lock env MODE_IS deadline (newResourceLock resourceIdParallelBatchWriterMode) s
      else Some (Done (newResourceLock resourceIdParallelBatchWriterMode), s)) = Some (out, s') \<and>
    (case out of Done l \<Rightarrow> l = batchLock (conflicting s) \<and> plus_locks (batchLocks (conflicting s)) s s' | Throw e \<Rightarrow> plus_locks Map.empty s s' | Blocked \<Rightarrow> True)"
proof (cases "conflicting s")
  case True
  note p = plus_locks_refl [OF only_mutexesD(1) [OF assms(1)]]
  obtain out s' where "Locker_lock env resourceIdParallelBatchWriterMode MODE_IS deadline s = Some (out, s')"
    "case out of Done u \<Rightarrow> plus_locks [resourceIdParallelBatchWriterMode \<mapsto> MODE_IS] s s'
      | Throw e \<Rightarrow> plus_locks Map.empty s s' | Blocked \<Rightarrow> True"
    using plus_lock [OF p only_mutexesD(6) [OF assms(1)] _ _ _ assms(2), of MODE_IS deadline] by auto
  then show ?thesis
    using True by (cases out) (auto simp: ResourceLock_lock_def newResourceLock_def check_def batchLock_def batchLocks_def andThen_def)
next
  case False
  then show ?thesis
    using plus_locks_refl [OF only_mutexesD(1) [OF assms(1)]] by (simp add: newResourceLock_def batchLock_def batchLocks_def)
qed

lemma plus_unlockBatch:
  assumes "only_mutexes s" "plus_locks (batchLocks (conflicting s)) s s1"
  shows "\<exists>l s'. ResourceLock_unlock (batchLock (conflicting s)) s1 = Some (Done l, s') \<and> plus_locks Map.empty s s'"
proof (cases "conflicting s")
  case True
  then show ?thesis
    using plus_unlock [OF assms(2) only_mutexesD(6) [OF assms(1)] _ _ only_mutexesD(3) [OF assms(1)]]
    by (auto simp: batchLock_def batchLocks_def ResourceLock_unlock_def)
next
  case False
  then show ?thesis using assms(2) by (simp add: batchLock_def batchLocks_def ResourceLock_unlock_def)
qed

lemma acquireGlobal_all_or_nothing:
  assumes "only_mutexes s" "m \<noteq> MODE_NONE" "\<And>t. fair_env (lockerId (lk s)) (env t)"
  shows "\<exists>out s'. acquireGlobal env m deadline s = Some (out, s') \<and>
    (case out of
       Done l \<Rightarrow> l = batchLock (conflicting s) \<and> plus_locks (globalLocks (conflicting s) (globalModeFor (env RESOURCE_GLOBAL) m)) s s' \<and> modeForTicket (lk s') \<noteq> MODE_NONE
     | Throw e \<Rightarrow> plus_locks Map.empty s s'
     | Blocked \<Rightarrow> True)"
proof -
  note M = only_mutexesD [OF assms(1)]
  let ?G = "resourceIdGlobal" and ?R = "resourceIdReplicationStateTransitionLock" and ?B = "batchLocks (conflicting s)"
  have undo: "(if conflicting s2 then andThen (ResourceLock_unlock (batchLock (conflicting s)) s2) (\<lambda>_ s3. Some (Done (), s3)) else Some (Done (), s2))
      \<in> {Some (Done (), s3) | s3. plus_locks Map.empty s s3}" if "plus_locks ?B s s2" for s2
    using plus_unlockBatch [OF assms(1) that] that plus_locksD(5) [OF that] by (auto simp: batchLocks_def)
  obtain out1 s1 where b: "(if conflicting s then ResourceLock_lock (env RESOURCE_PBWM) MODE_IS deadline (newResourceLock resourceIdParallelBatchWriterMode) s
      else Some (Done (newResourceLock resourceIdParallelBatchWriterMode), s)) = Some (out1, s1)"
    "case out1 of Done l \<Rightarrow> l = batchLock (conflicting s) \<and> plus_locks ?B s s1 | Throw e \<Rightarrow> plus_locks Map.empty s s1 | Blocked \<Rightarrow> True"
    using plus_batchLock [OF assms(1,3)] by blast
  show ?thesis
  proof (cases out1)
    case (Done l)
    then have l: "l = batchLock (conflicting s)" "plus_locks ?B s s1" using b(2) by auto
    have free: "?B ?R = None" "(?B(?R \<mapsto> MODE_IX)) ?G = None" by (simp_all add: batchLocks_def)
    obtain out2 s2 where r: "Locker_lock (env RESOURCE_RSTL) ?R MODE_IX deadline s1 = Some (out2, s2)"
      "case out2 of Done u \<Rightarrow> plus_locks (?B(?R \<mapsto> MODE_IX)) s s2 | Throw e \<Rightarrow> plus_locks ?B s s2 | Blocked \<Rightarrow> True"
      using plus_lock [OF l(2) M(7) free(1) _ _ assms(3), of MODE_IX RESOURCE_RSTL deadline] by auto
    show ?thesis
    proof (cases out2)
      case d2: (Done u)
      then have p2: "plus_locks (?B(?R \<mapsto> MODE_IX)) s s2" using r(2) by simp
      obtain out3 s3 where g: "lockGlobal (env RESOURCE_GLOBAL) m deadline s2 = Some (out3, s3)"
        "case out3 of Done u \<Rightarrow> plus_locks (?B(?R \<mapsto> MODE_IX, ?G \<mapsto> globalModeFor (env RESOURCE_GLOBAL) m)) s s3 \<and> modeForTicket (lk s3) \<noteq> MODE_NONE
          | Throw e \<Rightarrow> plus_locks (?B(?R \<mapsto> MODE_IX)) s s3 | Blocked \<Rightarrow> True"
        using plus_lockGlobal [OF p2 M(5) free(2) assms(2,3)] by blast
      show ?thesis
      proof (cases out3)
        case (Throw e)
        then have p3: "plus_locks (?B(?R \<mapsto> MODE_IX)) s s3" using g(2) by simp
        have "(?B(?R \<mapsto> MODE_IX))(?R := None) = ?B" using free(1) by (simp add: fun_upd_idem)
        then obtain s4 where u: "Locker_unlock ?R s3 = Some (Done True, s4)" "plus_locks ?B s s4"
          using plus_unlock [OF p3 M(7) _ _ M(3)] by auto
        show ?thesis
          using b(1) Done r(1) d2 g(1) Throw u undo [OF u(2)] l(1)
          by (auto simp: acquireGlobal_def Let_def onThrow_def unlockResource_def andThen_def)
      qed (use b(1) Done r(1) d2 g l(1) in \<open>auto simp: acquireGlobal_def Let_def onThrow_def andThen_def globalLocks_def batchLocks_def\<close>)
    next
      case (Throw e)
      then have "plus_locks ?B s s2" using r(2) by simp
      then show ?thesis
        using b(1) Done r(1) Throw undo l(1) by (force simp: acquireGlobal_def Let_def onThrow_def andThen_def)
    qed (use b(1) Done r(1) in \<open>simp add: acquireGlobal_def Let_def onThrow_def andThen_def\<close>)
  qed (use b in \<open>auto simp: acquireGlobal_def Let_def andThen_def\<close>)
qed

lemma upd_mode_same: "same_locks s (upd_lk (setGlobalLockTakenInMode m) s)" "modeForTicket (lk (upd_lk (setGlobalLockTakenInMode m) s)) = modeForTicket (lk s)"
  by (simp_all add: same_locks_def same_flags_def setGlobalLockTakenInMode_def Let_def)

lemma newGlobalLock_all_or_nothing:
  assumes "only_mutexes s" "m \<noteq> MODE_NONE" "\<And>t. fair_env (lockerId (lk s)) (env t)"
  shows "\<exists>out s'. newGlobalLock env m deadline behavior s = Some (out, s') \<and>
    (case out of
       Done g \<Rightarrow> gl_result g = LOCK_OK \<and> gl_pbwm g = batchLock (conflicting s) \<and> modeForTicket (lk s') \<noteq> MODE_NONE \<and>
           plus_locks (globalLocks (conflicting s) (globalModeFor (env RESOURCE_GLOBAL) m)) s s' \<or>
         behavior = kLeaveUnlocked \<and> gl_result g = LOCK_INVALID \<and> gl_pbwm g = batchLock False \<and> plus_locks Map.empty s s'
     | Throw e \<Rightarrow> plus_locks Map.empty s s'
     | Blocked \<Rightarrow> True)"
proof -
  note p = plus_locks_refl [OF only_mutexesD(1) [OF assms(1)]]
  obtain out s1 where a: "acquireGlobal env m deadline s = Some (out, s1)"
    "case out of
       Done l \<Rightarrow> l = batchLock (conflicting s) \<and> plus_locks (globalLocks (conflicting s) (globalModeFor (env RESOURCE_GLOBAL) m)) s s1 \<and> modeForTicket (lk s1) \<noteq> MODE_NONE
     | Throw e \<Rightarrow> plus_locks Map.empty s s1
     | Blocked \<Rightarrow> True"
    using acquireGlobal_all_or_nothing [OF assms(1,2), of env deadline] assms(3) by blast
  have flow: "getFlowControlTicket (env RESOURCE_GLOBAL) m s \<in> {Some (Done (), s), Some (Blocked, s)} \<union> range (\<lambda>e. Some (Throw e, s))"
    unfolding getFlowControlTicket_def by (auto split: option.split TicketWait.split)
  then consider "getFlowControlTicket (env RESOURCE_GLOBAL) m s = Some (Done (), s)" | e where "getFlowControlTicket (env RESOURCE_GLOBAL) m s = Some (Throw e, s)"
    | "getFlowControlTicket (env RESOURCE_GLOBAL) m s = Some (Blocked, s)"
    by blast
  then show ?thesis
  proof cases
    case 1
    show ?thesis
    proof (cases out)
      case (Done l)
      then show ?thesis
        using 1 a plus_locks_same [OF _ upd_mode_same(1)] upd_mode_same(2) by (auto simp: newGlobalLock_def Let_def andThen_def)
    next
      case (Throw e)
      then show ?thesis
        using 1 a plus_locks_same [OF _ upd_mode_same(1)] by (cases behavior) (auto simp: newGlobalLock_def Let_def andThen_def newResourceLock_def batchLock_def)
    qed (use 1 a in \<open>simp add: newGlobalLock_def Let_def andThen_def\<close>)
  qed (use p in \<open>auto simp: newGlobalLock_def Let_def andThen_def\<close>)
qed

lemma deleteGlobalLock_gives_back:
  assumes "only_mutexes s" "gl_result g = LOCK_OK" "gl_pbwm g = batchLock (conflicting s)" "modeForTicket (lk s1) \<noteq> MODE_NONE"
    "plus_locks (globalLocks (conflicting s) m) s s1"
  shows "\<exists>s'. deleteGlobalLock g s1 = Some (Done (), s') \<and> plus_locks Map.empty s s'"
proof -
  note M = only_mutexesD [OF assms(1)]
  have above: "\<forall>k \<in> dom (held s) \<union> dom (globalLocks (conflicting s) m). aboveGlobal k"
    using M(4) global_resources(4-6) by (auto simp: globalLocks_def split: if_splits)
  have maps: "(globalLocks (conflicting s) m)(resourceIdGlobal := None) = (batchLocks (conflicting s))(resourceIdReplicationStateTransitionLock \<mapsto> MODE_IX)"
    "((batchLocks (conflicting s))(resourceIdReplicationStateTransitionLock \<mapsto> MODE_IX))(resourceIdReplicationStateTransitionLock := None) = batchLocks (conflicting s)"
    by (auto simp: globalLocks_def batchLocks_def fun_eq_iff)
  have "resourceIdGlobal \<in> dom (globalLocks (conflicting s) m)" by (simp add: globalLocks_def)
  then obtain s2 where g: "unlockGlobal s1 = Some (Done True, s2)" "plus_locks ((batchLocks (conflicting s))(resourceIdReplicationStateTransitionLock \<mapsto> MODE_IX)) s s2"
    using plus_unlockGlobal [OF assms(5) M(5) _ M(3) assms(4) above] unfolding maps by blast
  obtain s3 where r: "Locker_unlock resourceIdReplicationStateTransitionLock s2 = Some (Done True, s3)" "plus_locks (batchLocks (conflicting s)) s s3"
    using plus_unlock [OF g(2) M(7) _ _ M(3)] unfolding maps by auto
  obtain l s' where "ResourceLock_unlock (batchLock (conflicting s)) s3 = Some (Done l, s')" "plus_locks Map.empty s s'"
    using plus_unlockBatch [OF assms(1) r(2)] by blast
  then show ?thesis
    using g(1) r assms(2,3) by (auto simp: deleteGlobalLock_def unlockResource_def deleteResourceLock_def batchLock_def batchLocks_def split: if_splits)
qed

subsection \<open>Databases\<close>

definition databaseMode :: "(string \<Rightarrow> ResourceId) \<Rightarrow> string \<Rightarrow> LockMode \<Rightarrow> LockMode" where
  "databaseMode dbId db m = (if dbId db = resourceIdAdminDB dbId \<and> \<not> isSharedLockMode m then MODE_X else m)"

definition databaseLocks :: "GuardEnv \<Rightarrow> bool \<Rightarrow> (string \<Rightarrow> ResourceId) \<Rightarrow> string \<Rightarrow> LockMode \<Rightarrow> ResourceId \<rightharpoonup> LockMode" where
  "databaseLocks env conflict dbId db m =
     (globalLocks conflict (globalModeFor (env RESOURCE_GLOBAL) (if isSharedLockMode m then MODE_IS else MODE_IX)))(dbId db \<mapsto> databaseMode dbId db m)"

lemma database_not_above:
  assumes "getType i = RESOURCE_DATABASE"
  shows "i \<noteq> resourceIdGlobal" "globalLocks c m i = None"
proof -
  show g: "i \<noteq> resourceIdGlobal" using assms global_resources(9) by auto
  have "i \<noteq> resourceIdParallelBatchWriterMode" "i \<noteq> resourceIdReplicationStateTransitionLock" using assms global_resources(7,8) by auto
  then show "globalLocks c m i = None" using g by (simp add: globalLocks_def)
qed

text \<open>Examples: identifiers by the length of the name, others that do nothing, an interruption that comes with one of the locks.\<close>

definition sampleId :: "ResourceType \<Rightarrow> string \<Rightarrow> ResourceId" where
  "sampleId t name = fullHash t (of_nat (length name))"

definition interruptedAt :: "ResourceType \<Rightarrow> GuardEnv" where
  "interruptedAt t r = quietEnv\<lparr>hasOpCtx := True, interruptStatus := (if r = t then Some (InterruptedError 11601) else None),
     wakeUps := [\<lparr>w_lmgr = id, w_elapsed = 1000, w_interrupt = None\<rparr>]\<rparr>"

lemma others_act_id: "others_act i id"
  by (simp add: others_act_def others_change_def)

lemma sample_fair: "fair_env i quietEnv" "fair_env i (interruptedAt t r)"
  by (simp_all add: fair_env_def quietEnv_def interruptedAt_def others_act_id)

lemma idle_only_mutexes: "only_mutexes idleLocker"
proof -
  have none: "held idleLocker k = None" for k by (simp add: idleLocker_def newLocker_def fm_new_ok)
  then have "single idleLocker" using idleLocker_inv by (simp add: once_def granted_but_def)
  moreover have "\<not> inAWriteUnitOfWork (lk idleLocker)" by code_simp
  ultimately show ?thesis using none by (auto simp: only_mutexes_def)
qed

lemma step_done: "(case x of Some (Done a, s) \<Rightarrow> True | _ \<Rightarrow> False) \<Longrightarrow> \<exists>a s. x = Some (Done a, s)"
  by (auto split: option.splits result.splits)

lemma step_interrupted: "(case x of Some (Throw (InterruptedError n), s) \<Rightarrow> n = c | _ \<Rightarrow> False) \<Longrightarrow> \<exists>s. x = Some (Throw (InterruptedError c), s)"
proof (cases x)
  case (Some y)
  then show "(case x of Some (Throw (InterruptedError n), s) \<Rightarrow> n = c | _ \<Rightarrow> False) \<Longrightarrow> \<exists>s. x = Some (Throw (InterruptedError c), s)"
    by (cases y, cases "fst y") (auto split: lock_error.splits)
qed simp

text \<open>(C12) The guard of a database takes all of its locks or none. For an operation outside of a unit of work that holds at most mutexes, whatever the
  other operations do to the lock manager meanwhile: the constructor fails no assertion. When it is done, the global lock and the one of the
  database are granted, the latter in mode X for a write to \<^verbatim>\<open>admin\<close>, with the lock on state transitions in mode IX and the one against batch
  application in mode IS when the operation conflicts with it, and the destructor gives back exactly these. When it throws, after a timeout, an interruption
  or for a bad name, nothing is held that was not held before.\<close>

theorem db_lock_all_or_nothing:
  assumes "only_mutexes s" "m \<noteq> MODE_NONE" "\<forall>t. fair_env (lockerId (lk s)) (env t)" "getType (dbId db) = RESOURCE_DATABASE"
  shows "\<exists>out s'. newDBLock env dbId db m deadline s = Some (out, s') \<and>
    (case out of
       Done l \<Rightarrow> plus_locks (databaseLocks env (conflicting s) dbId db m) s s' \<and> (\<exists>s''. deleteDBLock l s' = Some (Done (), s'') \<and> plus_locks Map.empty s s'')
     | Throw e \<Rightarrow> plus_locks Map.empty s s'
     | Blocked \<Rightarrow> True)"
proof -
  have fair: "fair_env (lockerId (lk s)) (env t)" for t using assms(3) by blast
  note M = only_mutexesD [OF assms(1)]
  note D = database_not_above [OF assms(4)]
  let ?gm = "if isSharedLockMode m then MODE_IS else MODE_IX" and ?m1 = "databaseMode dbId db m"
  let ?G = "globalLocks (conflicting s) (globalModeFor (env RESOURCE_GLOBAL) ?gm)"
  have gm: "?gm \<noteq> MODE_NONE" and m1: "?m1 \<noteq> MODE_NONE" using assms(2) by (auto simp: databaseMode_def)
  have free: "dbId db \<notin> dom (held s)" using M(2) [of "dbId db"] assms(4) by simp
  have upd: "(?G(dbId db \<mapsto> ?m1))(dbId db := None) = ?G" using D(2) by (simp add: fun_upd_idem)
  note release = plus_unlock [of "?G(dbId db \<mapsto> ?m1)" s, OF _ free _ D(1) M(3), unfolded upd]
  obtain out s1 where g: "newGlobalLock env ?gm deadline kThrow s = Some (out, s1)"
    "case out of
       Done g \<Rightarrow> gl_result g = LOCK_OK \<and> gl_pbwm g = batchLock (conflicting s) \<and> modeForTicket (lk s1) \<noteq> MODE_NONE \<and> plus_locks ?G s s1 \<or>
         kThrow = kLeaveUnlocked \<and> gl_result g = LOCK_INVALID \<and> gl_pbwm g = batchLock False \<and> plus_locks Map.empty s s1
     | Throw e \<Rightarrow> plus_locks Map.empty s s1
     | Blocked \<Rightarrow> True"
    using newGlobalLock_all_or_nothing [OF assms(1) gm, of env deadline kThrow] fair by blast
  show ?thesis
  proof (cases out)
    case (Done gl)
    then have gl: "gl_result gl = LOCK_OK" "gl_pbwm gl = batchLock (conflicting s)" "modeForTicket (lk s1) \<noteq> MODE_NONE" "plus_locks ?G s s1"
      using g(2) by auto
    have undo: "\<exists>s'. deleteGlobalLock gl s2 = Some (Done (), s') \<and> plus_locks Map.empty s s'" if "plus_locks ?G s s2" "modeForTicket (lk s2) \<noteq> MODE_NONE" for s2
      by (rule deleteGlobalLock_gives_back [OF assms(1) gl(1,2) that(2,1)])
    show ?thesis
    proof (cases "db \<noteq> [] \<and> nsIsDbOnly db")
      case False
      then have "newDBLock env dbId db m deadline s = andThen (deleteGlobalLock gl s1) (\<lambda>_ s2. Some (Throw (AssertionException 28539), s2))"
        using g(1) Done by (auto simp: newDBLock_def onThrow_def)
      then show ?thesis using undo [OF gl(4,3)] by auto
    next
      case True
      obtain out2 s2 where l: "Locker_lock (env RESOURCE_DATABASE) (dbId db) ?m1 deadline s1 = Some (out2, s2)"
        "case out2 of Done u \<Rightarrow> plus_locks (?G(dbId db \<mapsto> ?m1)) s s2 | Throw e \<Rightarrow> plus_locks ?G s s2 | Blocked \<Rightarrow> True" "ticket_kept (dbId db) s1 out2 s2"
        using plus_lock [OF gl(4) free D(2) m1 D(1) fair] by blast
      have run: "newDBLock env dbId db m deadline s = onThrow (andThen (Some (out2, s2)) (\<lambda>_ s2.
          Some (Done \<lparr>db_id = dbId db, db_result = LOCK_OK, db_mode = ?m1, db_globalLock = gl\<rparr>, s2))) (deleteGlobalLock gl)"
        using g(1) Done True l(1) by (simp add: newDBLock_def Let_def databaseMode_def)
      show ?thesis
      proof (cases out2)
        case d2: (Done u)
        obtain s3 where u: "Locker_unlock (dbId db) s2 = Some (Done True, s3)" "plus_locks ?G s s3" "modeForTicket (lk s3) = modeForTicket (lk s2)"
          using release [of s2] l(2) d2 by auto
        then obtain s4 where "deleteGlobalLock gl s3 = Some (Done (), s4)" "plus_locks Map.empty s s4"
          using undo [OF u(2)] gl(3) l(3) d2 by (auto simp: ticket_kept_def)
        then show ?thesis using run d2 l(2) u(1) by (simp add: onThrow_def deleteDBLock_def unlockResource_def databaseLocks_def)
      next
        case (Throw e)
        then show ?thesis using run l(2,3) undo [of s2] gl(3) D(1) by (auto simp: onThrow_def andThen_def ticket_kept_def)
      qed (use run in \<open>simp add: onThrow_def andThen_def\<close>)
    qed
  next
    case (Throw e)
    then show ?thesis using g by (auto simp: newDBLock_def andThen_def)
  next
    case Blocked
    then show ?thesis using g by (auto simp: newDBLock_def andThen_def)
  qed
qed

theorem db_lock_all_or_nothing_witness:
  "(\<exists>l s' s''. newDBLock (\<lambda>_. quietEnv) (sampleId RESOURCE_DATABASE) ''app'' MODE_IX None idleLocker = Some (Done l, s') \<and>
      getLockMode resourceIdGlobal s' = MODE_IX \<and> getLockMode (sampleId RESOURCE_DATABASE ''app'') s' = MODE_IX \<and>
      deleteDBLock l s' = Some (Done (), s'') \<and> plus_locks Map.empty idleLocker s'') \<and>
   (\<exists>s'. newDBLock (interruptedAt RESOURCE_DATABASE) (sampleId RESOURCE_DATABASE) ''app'' MODE_IX None idleLocker = Some (Throw (InterruptedError 11601), s') \<and>
      plus_locks Map.empty idleLocker s')"
proof
  have t: "getType (sampleId RESOURCE_DATABASE ''app'') = RESOURCE_DATABASE" by code_simp
  have m: "databaseLocks (\<lambda>_. quietEnv) (conflicting idleLocker) (sampleId RESOURCE_DATABASE) ''app'' MODE_IX resourceIdGlobal = Some MODE_IX"
    "databaseLocks (\<lambda>_. quietEnv) (conflicting idleLocker) (sampleId RESOURCE_DATABASE) ''app'' MODE_IX (sampleId RESOURCE_DATABASE ''app'') = Some MODE_IX"
    by code_simp+
  have "case newDBLock (\<lambda>_. quietEnv) (sampleId RESOURCE_DATABASE) ''app'' MODE_IX None idleLocker of Some (Done l, s') \<Rightarrow> True | _ \<Rightarrow> False" by code_simp
  then obtain l s' where run: "newDBLock (\<lambda>_. quietEnv) (sampleId RESOURCE_DATABASE) ''app'' MODE_IX None idleLocker = Some (Done l, s')"
    using step_done by blast
  have "plus_locks (databaseLocks (\<lambda>_. quietEnv) (conflicting idleLocker) (sampleId RESOURCE_DATABASE) ''app'' MODE_IX) idleLocker s' \<and>
      (\<exists>s''. deleteDBLock l s' = Some (Done (), s'') \<and> plus_locks Map.empty idleLocker s'')"
    using db_lock_all_or_nothing [OF idle_only_mutexes, of MODE_IX "\<lambda>_. quietEnv" "sampleId RESOURCE_DATABASE" "''app''" None] t sample_fair(1) run by simp
  then show "\<exists>l s' s''. newDBLock (\<lambda>_. quietEnv) (sampleId RESOURCE_DATABASE) ''app'' MODE_IX None idleLocker = Some (Done l, s') \<and>
      getLockMode resourceIdGlobal s' = MODE_IX \<and> getLockMode (sampleId RESOURCE_DATABASE ''app'') s' = MODE_IX \<and>
      deleteDBLock l s' = Some (Done (), s'') \<and> plus_locks Map.empty idleLocker s''"
    using run m by (auto simp: plus_locks_def [of "databaseLocks _ _ _ _ _"])
  have "case newDBLock (interruptedAt RESOURCE_DATABASE) (sampleId RESOURCE_DATABASE) ''app'' MODE_IX None idleLocker of
      Some (Throw (InterruptedError n), s') \<Rightarrow> n = 11601 | _ \<Rightarrow> False"
    by code_simp
  then obtain s' where "newDBLock (interruptedAt RESOURCE_DATABASE) (sampleId RESOURCE_DATABASE) ''app'' MODE_IX None idleLocker = Some (Throw (InterruptedError 11601), s')"
    using step_interrupted by blast
  then show "\<exists>s'. newDBLock (interruptedAt RESOURCE_DATABASE) (sampleId RESOURCE_DATABASE) ''app'' MODE_IX None idleLocker = Some (Throw (InterruptedError 11601), s') \<and>
      plus_locks Map.empty idleLocker s'"
    using db_lock_all_or_nothing [OF idle_only_mutexes, of MODE_IX "interruptedAt RESOURCE_DATABASE" "sampleId RESOURCE_DATABASE" "''app''" None] t sample_fair(2)
    by auto
qed

subsection \<open>Collections by UUID\<close>

text \<open>The lock is on a name that the catalog gave twice in a row, before and after it was taken.\<close>

lemma lockResolved_name:
  assumes "lockResolved env collId m deadline nss rs s = Some (Done i, s')"
  shows "\<exists>n pre post. i = collId n \<and> Some nss # rs = pre @ Some n # Some n # post"
  using assms
proof (induction rs arbitrary: nss s)
  case Nil
  then show ?case by (auto simp: andThen_def split: option.splits prod.splits result.splits)
next
  case (Cons r rs)
  then obtain u s1 where "Locker_lock env (collId nss) m deadline s = Some (Done u, s1)"
    by (auto simp: andThen_def split: option.splits prod.splits result.splits)
  then obtain n1 where n1: "r = Some n1" "n1 = nss \<and> i = collId nss \<or> n1 \<noteq> nss \<and> andThen (unlockResource (collId nss) s1) (\<lambda>_ s2. lockResolved env collId m deadline n1 rs s2) = Some (Done i, s')"
    using Cons.prems by (auto split: option.splits if_splits)
  show ?case
  proof (cases "n1 = nss")
    case True
    then show ?thesis using n1 by (intro exI [of _ nss] exI [of _ "[]"] exI [of _ rs]) simp
  next
    case False
    then obtain s2 where "lockResolved env collId m deadline n1 rs s2 = Some (Done i, s')"
      using n1(2) by (auto simp: andThen_def split: option.splits prod.splits result.splits)
    then obtain n pre post where "i = collId n" "Some n1 # rs = pre @ Some n # Some n # post" using Cons.IH by blast
    then show ?thesis using n1(1) by (intro exI [of _ n] exI [of _ "Some nss # pre"] exI [of _ post]) simp
  qed
qed

text \<open>
  When the collection is dropped between the two, the constructor throws and its lock stays: the guard is not constructed, so that its destructor, which would give
  it back, does not run. It goes with the global lock, when that is the last one.
\<close>

lemma uuid_lock_left_behind:
  "case newCollectionLockUUID quietEnv True (sampleId RESOURCE_COLLECTION) [Some ''app.c'', None] MODE_IX None idleLocker of
     Some (out, s') \<Rightarrow> out = Throw NamespaceNotFound \<and> getLockMode (sampleId RESOURCE_COLLECTION ''app.c'') s' = MODE_IX
   | None \<Rightarrow> False"
  by code_simp

subsection \<open>Mutexes\<close>

text \<open>The mutexes made have different identifiers, and each keeps its name when others are made.\<close>

lemma mutex_names:
  assumes "length labels < 2 ^ 61" "newResourceIdForMutex label labels = (rid, labels1)"
  shows "ResourceMutex_getName rid (labels1 @ later) = Some label" "length labels' < length labels \<Longrightarrow> fst (newResourceIdForMutex label' labels') \<noteq> rid"
proof -
  have n: "unat (of_nat i :: 64 word) = i" if "i \<le> length labels" for i
    using that assms(1) by (simp add: unat_of_nat take_bit_nat_eq_self)
  have rid: "rid = fullHash RESOURCE_MUTEX (of_nat (length labels))" "labels1 = labels @ [label]" using assms(2) by (auto simp: newResourceIdForMutex_def)
  have hash: "getHashId (fullHash RESOURCE_MUTEX (of_nat i)) = of_nat i" if "i \<le> length labels" for i
    by (rule getHashId_fullHash) (use n [OF that] that assms(1) in simp)
  show "ResourceMutex_getName rid (labels1 @ later) = Some label"
    using hash [of "length labels"] n [of "length labels"] by (simp add: ResourceMutex_getName_def rid nth_append)
  show "fst (newResourceIdForMutex label' labels') \<noteq> rid" if "length labels' < length labels"
  proof
    assume "fst (newResourceIdForMutex label' labels') = rid"
    then have "getHashId (fullHash RESOURCE_MUTEX (of_nat (length labels'))) = getHashId (fullHash RESOURCE_MUTEX (of_nat (length labels)))"
      unfolding newResourceIdForMutex_def rid fst_conv by (rule arg_cong)
    then have "unat (of_nat (length labels') :: 64 word) = unat (of_nat (length labels) :: 64 word)"
      unfolding hash [OF less_imp_le [OF that]] hash [OF order_refl] by (rule arg_cong)
    then show False using that unfolding n [OF less_imp_le [OF that]] n [OF order_refl] by simp
  qed
qed

end
