(* ===== verification/ReplTags.thy ===== *)
theory ReplTags
  imports Prelude
begin

text \<open>
  Replica set tags, \<^verbatim>\<open>db/repl/repl_set_tag.{h,cpp}\<close>: the dictionary of tag keys and values
  (\<open>ReplSetTagConfig\<close>), patterns of count constraints (\<open>ReplSetTagPattern\<close>) and the matcher that
  decides whether the tags of a growing set of nodes satisfy a pattern (\<open>ReplSetTagMatch\<close>).
\<close>

subsection \<open>The dictionary of tags\<close>

record ReplSetTag =
  tag_keyIndex :: int
  tag_valueIndex :: int

definition tag_isValid :: "ReplSetTag \<Rightarrow> bool" where
  "tag_isValid t \<longleftrightarrow> tag_keyIndex t \<ge> 0"

type_synonym TagData = "(string \<times> string list) list"

text \<open>The loop of \<open>_findKeyIndex\<close>: the index of the key, or the length of the vector.\<close>

fun findKeyIndex :: "string \<Rightarrow> TagData \<Rightarrow> nat" where
  "findKeyIndex key [] = 0"
| "findKeyIndex key ((k, vs) # d) = (if k = key then 0 else Suc (findKeyIndex key d))"

fun findValueIndex :: "string \<Rightarrow> string list \<Rightarrow> nat option" where
  "findValueIndex v [] = None"
| "findValueIndex v (w # ws) = (if w = v then Some 0 else map_option Suc (findValueIndex v ws))"

definition makeTag :: "string \<Rightarrow> string \<Rightarrow> TagData \<Rightarrow> ReplSetTag \<times> TagData" where
  "makeTag key v d =
     (let ki = findKeyIndex key d;
          d1 = (if ki = length d then d @ [(key, [])] else d);
          values = snd (d1 ! ki)
      in case findValueIndex v values of
           Some vi \<Rightarrow> (\<lparr>tag_keyIndex = int ki, tag_valueIndex = int vi\<rparr>, d1)
         | None \<Rightarrow> (\<lparr>tag_keyIndex = int ki, tag_valueIndex = int (length values)\<rparr>,
                    d1[ki := (fst (d1 ! ki), values @ [v])]))"

definition noTag :: ReplSetTag where
  "noTag = \<lparr>tag_keyIndex = -1, tag_valueIndex = -1\<rparr>"

definition findTag :: "string \<Rightarrow> string \<Rightarrow> TagData \<Rightarrow> ReplSetTag" where
  "findTag key v d =
     (let ki = findKeyIndex key d
      in if ki = length d then noTag
         else case findValueIndex v (snd (d ! ki)) of
             Some vi \<Rightarrow> \<lparr>tag_keyIndex = int ki, tag_valueIndex = int vi\<rparr>
           | None \<Rightarrow> noTag)"

text \<open>\<open>None\<close> where an assertion of the source fails.\<close>

definition getTagKey :: "ReplSetTag \<Rightarrow> TagData \<Rightarrow> string option" where
  "getTagKey t d =
     (if tag_isValid t \<and> nat (tag_keyIndex t) < length d then Some (fst (d ! nat (tag_keyIndex t))) else None)"

definition getTagValue :: "ReplSetTag \<Rightarrow> TagData \<Rightarrow> string option" where
  "getTagValue t d =
     (if tag_isValid t \<and> nat (tag_keyIndex t) < length d
      then let values = snd (d ! nat (tag_keyIndex t))
           in if tag_valueIndex t \<ge> 0 \<and> nat (tag_valueIndex t) < length values
              then Some (values ! nat (tag_valueIndex t)) else None
      else None)"

subsection \<open>Patterns and matchers\<close>

record TagCountConstraint =
  cons_keyIndex :: int
  minCount :: int

type_synonym ReplSetTagPattern = "TagCountConstraint list"

fun addTagCountConstraint :: "int \<Rightarrow> int \<Rightarrow> ReplSetTagPattern \<Rightarrow> ReplSetTagPattern" where
  "addTagCountConstraint ki n [] = [\<lparr>cons_keyIndex = ki, minCount = n\<rparr>]"
| "addTagCountConstraint ki n (c # cs) =
     (if ki = cons_keyIndex c
      then (if minCount c < n then \<lparr>cons_keyIndex = ki, minCount = n\<rparr> # cs else c # cs)
      else c # addTagCountConstraint ki n cs)"

definition addTagCountConstraintToPattern ::
    "ReplSetTagPattern \<Rightarrow> string \<Rightarrow> int \<Rightarrow> TagData \<Rightarrow> ReplSetTagPattern option" where
  "addTagCountConstraintToPattern p key n d =
     (let ki = findKeyIndex key d
      in if ki = length d then None else Some (addTagCountConstraint (int ki) n p))"

record BoundTagValue =
  bound_constraint :: TagCountConstraint
  boundValues :: "int list"

type_synonym ReplSetTagMatch = "BoundTagValue list"

definition newMatch :: "ReplSetTagPattern \<Rightarrow> ReplSetTagMatch" where
  "newMatch p = map (\<lambda>c. \<lparr>bound_constraint = c, boundValues = []\<rparr>) p"

definition bound_isSatisfied :: "BoundTagValue \<Rightarrow> bool" where
  "bound_isSatisfied b \<longleftrightarrow> minCount (bound_constraint b) \<le> int (length (boundValues b))"

definition isSatisfied :: "ReplSetTagMatch \<Rightarrow> bool" where
  "isSatisfied m \<longleftrightarrow> find (\<lambda>b. \<not> bound_isSatisfied b) m = None"

text \<open>The first bound value list with the key of the tag, if any, gets the value unless it has it.\<close>

fun bindTag :: "ReplSetTag \<Rightarrow> ReplSetTagMatch \<Rightarrow> ReplSetTagMatch" where
  "bindTag t [] = []"
| "bindTag t (b # m) =
     (if tag_keyIndex t = cons_keyIndex (bound_constraint b)
      then (if tag_valueIndex t \<in> set (boundValues b) then b
            else b\<lparr>boundValues := boundValues b @ [tag_valueIndex t]\<rparr>) # m
      else b # bindTag t m)"

definition match_update :: "ReplSetTag \<Rightarrow> ReplSetTagMatch \<Rightarrow> bool \<times> ReplSetTagMatch" where
  "match_update t m = (let m1 = bindTag t m in (isSatisfied m1, m1))"

text \<open>Feeding tags until the pattern is satisfied, as the callers of \<open>update\<close> do.\<close>

fun feedTags :: "ReplSetTag list \<Rightarrow> ReplSetTagMatch \<Rightarrow> bool \<times> ReplSetTagMatch" where
  "feedTags [] m = (False, m)"
| "feedTags (t # ts) m = (let (ok, m1) = match_update t m in if ok then (True, m1) else feedTags ts m1)"

subsection \<open>Tags are read back\<close>

lemma findKeyIndex_le: "findKeyIndex key d \<le> length d"
  by (induction key d rule: findKeyIndex.induct) auto

lemma findKeyIndex_hit: "findKeyIndex key d < length d \<Longrightarrow> fst (d ! findKeyIndex key d) = key"
  by (induction key d rule: findKeyIndex.induct) auto

lemma findKeyIndex_append: "findKeyIndex key d = length d \<Longrightarrow> findKeyIndex key (d @ [(key, vs)]) = length d"
  by (induction key d rule: findKeyIndex.induct) auto

lemma findKeyIndex_update: "i < length d \<Longrightarrow> findKeyIndex key (d[i := (fst (d ! i), vs)]) = findKeyIndex key d"
proof (induction key d arbitrary: i rule: findKeyIndex.induct)
  case (2 key k vs0 d)
  then show ?case by (cases i) auto
qed simp

lemma findValueIndex_Some: "findValueIndex v ws = Some i \<Longrightarrow> i < length ws \<and> ws ! i = v"
  by (induction v ws arbitrary: i rule: findValueIndex.induct) (auto split: if_splits)

lemma findValueIndex_append: "findValueIndex v ws = None \<Longrightarrow> findValueIndex v (ws @ [v]) = Some (length ws)"
  by (induction v ws rule: findValueIndex.induct) (auto split: if_splits)

text \<open>The dictionary only grows: what a tag means never changes.\<close>

definition tags_extend :: "TagData \<Rightarrow> TagData \<Rightarrow> bool" where
  "tags_extend d d' \<longleftrightarrow>
     (\<forall>t k. getTagKey t d = Some k \<longrightarrow> getTagKey t d' = Some k) \<and>
     (\<forall>t v. getTagValue t d = Some v \<longrightarrow> getTagValue t d' = Some v)"

lemma tags_extend_append: "tags_extend d (d @ e)"
  by (auto simp: tags_extend_def getTagKey_def getTagValue_def Let_def nth_append split: if_splits)

lemma tags_extend_update: "i < length d \<Longrightarrow> tags_extend d (d[i := (fst (d ! i), snd (d ! i) @ e)])"
  by (auto simp: tags_extend_def getTagKey_def getTagValue_def Let_def nth_append nth_list_update split: if_splits)

lemma tags_extend_trans: "tags_extend a b \<Longrightarrow> tags_extend b c \<Longrightarrow> tags_extend a c"
  by (simp add: tags_extend_def)

text \<open>Tags round-trip through the dictionary: the tag that \<open>makeTag\<close> returns has the given key and
  value, is what \<open>findTag\<close> finds for them from then on, and no tag made before changes its meaning.\<close>

theorem make_tag_roundtrip:
  "let (t, d') = makeTag key v d
   in getTagKey t d' = Some key \<and> getTagValue t d' = Some v \<and> findTag key v d' = t \<and> tags_extend d d'"
proof -
  define ki where "ki = findKeyIndex key d"
  define d1 where "d1 = (if ki = length d then d @ [(key, [])] else d)"
  have ki: "ki < length d1" "fst (d1 ! ki) = key" "findKeyIndex key d1 = ki"
    using findKeyIndex_le [of key d] findKeyIndex_hit [of key d] findKeyIndex_append [of key d]
    by (auto simp: d1_def ki_def)
  have ext: "tags_extend d d1" using tags_extend_append [of d] by (auto simp: d1_def tags_extend_def)
  show ?thesis
  proof (cases "findValueIndex v (snd (d1 ! ki))")
    case None
    let ?d2 = "d1[ki := (key, snd (d1 ! ki) @ [v])]"
    have "tags_extend d ?d2" using tags_extend_trans [OF ext tags_extend_update [OF ki(1), of "[v]"]] ki(2) by simp
    moreover have "findKeyIndex key ?d2 = ki" using findKeyIndex_update [OF ki(1), of key] ki by simp
    ultimately show ?thesis
      using None ki findValueIndex_append [OF None]
      unfolding makeTag_def ki_def [symmetric] d1_def [symmetric] Let_def
      by (simp add: getTagKey_def getTagValue_def tag_isValid_def findTag_def Let_def)
  next
    case (Some i)
    then show ?thesis
      using ki ext findValueIndex_Some [OF Some]
      unfolding makeTag_def ki_def [symmetric] d1_def [symmetric] Let_def
      by (simp add: getTagKey_def getTagValue_def tag_isValid_def findTag_def Let_def)
  qed
qed

subsection \<open>The matcher counts distinct values\<close>

definition pattern_ok :: "ReplSetTagPattern \<Rightarrow> bool" where
  "pattern_ok p \<longleftrightarrow> distinct (map cons_keyIndex p)"

lemma keys_addTagCountConstraint:
  "cons_keyIndex ` set (addTagCountConstraint k n p) = insert k (cons_keyIndex ` set p)"
  by (induction k n p rule: addTagCountConstraint.induct) auto

lemma pattern_ok_add: "pattern_ok p \<Longrightarrow> pattern_ok (addTagCountConstraint k n p)"
proof (induction k n p rule: addTagCountConstraint.induct)
  case (2 k n c cs)
  then show ?case using keys_addTagCountConstraint [of k n cs] by (auto simp: pattern_ok_def)
qed (simp add: pattern_ok_def)

definition valuesFor :: "int \<Rightarrow> ReplSetTag list \<Rightarrow> int set" where
  "valuesFor k ts = tag_valueIndex ` {t \<in> set ts. tag_keyIndex t = k}"

definition match_ok :: "ReplSetTagPattern \<Rightarrow> ReplSetTag list \<Rightarrow> ReplSetTagMatch \<Rightarrow> bool" where
  "match_ok p ts m \<longleftrightarrow> map bound_constraint m = p \<and>
     (\<forall>b \<in> set m. distinct (boundValues b) \<and> set (boundValues b) = valuesFor (cons_keyIndex (bound_constraint b)) ts)"

lemma match_ok_new: "match_ok p [] (newMatch p)"
  by (simp add: match_ok_def newMatch_def valuesFor_def comp_def)

lemma valuesFor_snoc: "valuesFor k (ts @ [t]) = (if tag_keyIndex t = k then insert (tag_valueIndex t) (valuesFor k ts) else valuesFor k ts)"
  by (auto simp: valuesFor_def)

lemma bindTag_ok:
  assumes "distinct (map (cons_keyIndex \<circ> bound_constraint) m)"
    and "\<forall>b \<in> set m. distinct (boundValues b) \<and> set (boundValues b) = valuesFor (cons_keyIndex (bound_constraint b)) ts"
  shows "map bound_constraint (bindTag t m) = map bound_constraint m \<and>
    (\<forall>b \<in> set (bindTag t m). distinct (boundValues b) \<and>
       set (boundValues b) = valuesFor (cons_keyIndex (bound_constraint b)) (ts @ [t]))"
  using assms
proof (induction t m rule: bindTag.induct)
  case (2 t b m)
  show ?case
  proof (cases "tag_keyIndex t = cons_keyIndex (bound_constraint b)")
    case True
    then have "\<forall>x \<in> set m. cons_keyIndex (bound_constraint x) \<noteq> tag_keyIndex t" using 2(2) by (force simp: image_iff)
    then show ?thesis using 2(3) True by (auto simp: valuesFor_snoc)
  next
    case False
    then show ?thesis using 2 by (auto simp: valuesFor_snoc)
  qed
qed simp

lemma match_ok_update: "pattern_ok p \<Longrightarrow> match_ok p ts m \<Longrightarrow> match_ok p (ts @ [t]) (bindTag t m)"
  using bindTag_ok [of m ts t] by (auto simp: match_ok_def pattern_ok_def)

lemma match_ok_satisfied:
  assumes "match_ok p ts m"
  shows "isSatisfied m \<longleftrightarrow> (\<forall>c \<in> set p. minCount c \<le> int (card (valuesFor (cons_keyIndex c) ts)))"
proof -
  have "isSatisfied m \<longleftrightarrow> (\<forall>b \<in> set m. bound_isSatisfied b)" by (auto simp: isSatisfied_def find_None_iff)
  also have "\<dots> \<longleftrightarrow> (\<forall>b \<in> set m. minCount (bound_constraint b) \<le> int (card (valuesFor (cons_keyIndex (bound_constraint b)) ts)))"
    using assms by (auto simp: bound_isSatisfied_def match_ok_def distinct_card [symmetric])
  also have "\<dots> \<longleftrightarrow> (\<forall>c \<in> set (map bound_constraint m). minCount c \<le> int (card (valuesFor (cons_keyIndex c) ts)))"
    by (simp only: set_map ball_simps)
  finally show ?thesis using assms by (simp only: match_ok_def)
qed

definition satisfies :: "ReplSetTag list \<Rightarrow> ReplSetTagPattern \<Rightarrow> bool" where
  "satisfies ts p \<longleftrightarrow> (\<forall>c \<in> set p. minCount c \<le> int (card (valuesFor (cons_keyIndex c) ts)))"

lemma satisfies_mono:
  assumes "satisfies ts p" "set ts \<subseteq> set us"
  shows "satisfies us p"
  unfolding satisfies_def
proof
  fix c assume "c \<in> set p"
  have "valuesFor (cons_keyIndex c) ts \<subseteq> valuesFor (cons_keyIndex c) us" using assms(2) by (auto simp: valuesFor_def)
  then have "card (valuesFor (cons_keyIndex c) ts) \<le> card (valuesFor (cons_keyIndex c) us)"
    by (rule card_mono [rotated]) (simp add: valuesFor_def)
  then show "minCount c \<le> int (card (valuesFor (cons_keyIndex c) us))"
    using assms(1) \<open>c \<in> set p\<close> by (auto simp: satisfies_def)
qed

lemma feedTags_ok:
  assumes "pattern_ok p" "match_ok p us m"
  shows "fst (feedTags ts m) \<longleftrightarrow> ts \<noteq> [] \<and> satisfies (us @ ts) p"
  using assms(2)
proof (induction ts arbitrary: us m)
  case (Cons t ts)
  note m1 = match_ok_update [OF assms(1) Cons.prems, of t]
  note sat = match_ok_satisfied [OF m1, folded satisfies_def]
  show ?case
  proof (cases "isSatisfied (bindTag t m)")
    case True
    then have "satisfies (us @ t # ts) p" using sat satisfies_mono [of "us @ [t]" p "us @ t # ts"] by auto
    with True show ?thesis by (simp add: match_update_def Let_def)
  next
    case False
    with Cons.IH [OF m1] sat show ?thesis by (cases ts) (auto simp: match_update_def Let_def)
  qed
qed simp

text \<open>The tag matcher is correct: fed with tags, it reports success just when for every constraint of
  the pattern the number of distinct values among the tags of that key reaches the minimal count.\<close>

theorem tag_match_correct:
  assumes "pattern_ok p"
  shows "fst (feedTags (t # ts) (newMatch p)) \<longleftrightarrow>
     (\<forall>c \<in> set p. minCount c \<le> int (card (tag_valueIndex ` {x \<in> set (t # ts). tag_keyIndex x = cons_keyIndex c})))"
  using feedTags_ok [OF assms match_ok_new, of "t # ts"] by (simp add: satisfies_def valuesFor_def)

theorem tag_match_correct_witness:
  "fst (feedTags [\<lparr>tag_keyIndex = 3, tag_valueIndex = 0\<rparr>, \<lparr>tag_keyIndex = 3, tag_valueIndex = 1\<rparr>]
     (newMatch (addTagCountConstraint 3 2 [])))"
proof -
  have "tag_valueIndex ` {x \<in> set [\<lparr>tag_keyIndex = 3, tag_valueIndex = 0\<rparr>, \<lparr>tag_keyIndex = 3, tag_valueIndex = 1\<rparr>].
      tag_keyIndex x = 3} = {0, 1}" by (simp add: Collect_conv_if insert_compr [symmetric] Collect_disj_eq conj_disj_distribR) auto
  then show ?thesis
    using tag_match_correct [of "addTagCountConstraint 3 2 []"
        "\<lparr>tag_keyIndex = 3, tag_valueIndex = 0\<rparr>" "[\<lparr>tag_keyIndex = 3, tag_valueIndex = 1\<rparr>]"]
    by (simp add: pattern_ok_def)
qed

end
