(* ===== verification/OpTimes.thy ===== *)
theory OpTimes
  imports Prelude
begin

text \<open>
  Logical times of replication: \<open>Timestamp\<close> (\<^verbatim>\<open>bson/timestamp.h\<close>), \<open>OpTime\<close>
  (\<^verbatim>\<open>db/repl/optime.h\<close>) and \<open>ConfigVersionAndTerm\<close> (\<^verbatim>\<open>db/repl/repl_set_config.h\<close>).
  The last two are compared by term first, unless a term is missing; their common laws are the locale
  \<open>term_order\<close>. Terms are \<open>long long\<close> in the source; they are only compared and set, so \<open>int\<close>
  stands for them.
\<close>

subsection \<open>Timestamps\<close>

text \<open>An object identifier is compared byte by byte, as the number its bytes spell.\<close>

type_synonym OID = "96 word"

datatype Timestamp = Timestamp (getSecs: "32 word") (getInc: "32 word")

instantiation Timestamp :: linorder
begin

definition less_Timestamp :: "Timestamp \<Rightarrow> Timestamp \<Rightarrow> bool" where
  "a < b \<longleftrightarrow> getSecs a < getSecs b \<or> getSecs a = getSecs b \<and> getInc a < getInc b"

definition less_eq_Timestamp :: "Timestamp \<Rightarrow> Timestamp \<Rightarrow> bool" where
  "a \<le> b \<longleftrightarrow> getSecs a < getSecs b \<or> getSecs a = getSecs b \<and> getInc a \<le> getInc b"

instance
  by standard (auto simp: less_Timestamp_def less_eq_Timestamp_def Timestamp.expand)

end

definition ts_asULL :: "Timestamp \<Rightarrow> 64 word" where
  "ts_asULL t = push_bit 32 (ucast (getSecs t)) OR ucast (getInc t)"

definition ts_fromULL :: "64 word \<Rightarrow> Timestamp" where
  "ts_fromULL v = Timestamp (ucast (drop_bit 32 v)) (ucast v)"

definition ts_isNull :: "Timestamp \<Rightarrow> bool" where
  "ts_isNull t \<longleftrightarrow> getSecs t = 0"

lemma unat_asULL: "unat (ts_asULL t) = unat (getSecs t) * 2 ^ 32 + unat (getInc t)"
proof -
  have disj: "push_bit 32 (ucast (getSecs t) :: 64 word) AND ucast (getInc t) = 0"
    by (rule bit_word_eqI) (auto simp: bit_simps dest: bit_imp_le_length)
  have s: "unat (getSecs t) < 2 ^ 32" and i: "unat (getInc t) < 2 ^ 32"
    using unsigned_less [of "getSecs t"] unsigned_less [of "getInc t"] by simp_all
  have "unat (push_bit 32 (ucast (getSecs t) :: 64 word)) = unat (getSecs t) * 2 ^ 32"
    using s by (simp add: push_bit_eq_mult unat_word_ariths unsigned_ucast_eq take_bit_eq_mod)
  moreover have "unat (ucast (getInc t) :: 64 word) = unat (getInc t)"
    using i by (simp add: unsigned_ucast_eq take_bit_eq_mod)
  moreover have "ts_asULL t = push_bit 32 (ucast (getSecs t)) + ucast (getInc t)"
    unfolding ts_asULL_def using disjunctive_add_eq_or [OF disj] by simp
  ultimately show ?thesis
    using s i by (simp add: unat_word_ariths)
qed

lemma asULL_less: "ts_asULL a < ts_asULL b \<longleftrightarrow> a < b"
proof -
  have s: "unat (getInc a) < 2 ^ 32" "unat (getInc b) < 2 ^ 32"
    using unsigned_less [of "getInc a"] unsigned_less [of "getInc b"] by simp_all
  show ?thesis
    using s unfolding word_less_nat_alt [of "ts_asULL a"] unat_asULL less_Timestamp_def word_less_nat_alt word_unat_eq_iff
    by (cases "unat (getSecs a)" "unat (getSecs b)" rule: linorder_cases) auto
qed

text \<open>The 64-bit form of a timestamp is exact: packing and unpacking give the timestamp back, and
  unsigned comparison of the packed forms is the comparison of timestamps by seconds and increment.\<close>

theorem timestamp_packing:
  "ts_fromULL (ts_asULL t) = t \<and> (ts_asULL t < ts_asULL u \<longleftrightarrow> t < u)"
proof
  have i: "unat (getInc t) < 2 ^ 32" using unsigned_less [of "getInc t"] by simp
  have "ucast (drop_bit 32 (ts_asULL t)) = getSecs t"
    by (rule bit_word_eqI) (auto simp: ts_asULL_def bit_simps dest: bit_imp_le_length)
  moreover have "ucast (ts_asULL t) = getInc t"
    by (rule bit_word_eqI) (auto simp: ts_asULL_def bit_simps dest: bit_imp_le_length)
  ultimately show "ts_fromULL (ts_asULL t) = t" by (simp add: ts_fromULL_def)
  show "ts_asULL t < ts_asULL u \<longleftrightarrow> t < u" by (rule asULL_less)
qed

subsection \<open>Comparison by term\<close>

definition kUninitializedTerm :: int where
  "kUninitializedTerm = -1"

definition kInitialTerm :: int where
  "kInitialTerm = 0"

locale term_order =
  fixes trm :: "'a \<Rightarrow> int"
    and stamp :: "'a \<Rightarrow> 's::linorder"
    and lt :: "'a \<Rightarrow> 'a \<Rightarrow> bool"
    and eqv :: "'a \<Rightarrow> 'a \<Rightarrow> bool"
  assumes lt_unset: "trm x = kUninitializedTerm \<or> trm y = kUninitializedTerm \<Longrightarrow> lt x y \<longleftrightarrow> stamp x < stamp y"
    and lt_set: "trm x \<noteq> kUninitializedTerm \<Longrightarrow> trm y \<noteq> kUninitializedTerm \<Longrightarrow>
      lt x y \<longleftrightarrow> trm x < trm y \<or> trm x = trm y \<and> stamp x < stamp y"
    and eqv_unset: "trm x = kUninitializedTerm \<or> trm y = kUninitializedTerm \<Longrightarrow> eqv x y \<longleftrightarrow> stamp x = stamp y"
    and eqv_set: "trm x \<noteq> kUninitializedTerm \<Longrightarrow> trm y \<noteq> kUninitializedTerm \<Longrightarrow>
      eqv x y \<longleftrightarrow> trm x = trm y \<and> stamp x = stamp y"
begin

lemma trichotomy: "lt x y \<and> \<not> eqv x y \<and> \<not> lt y x \<or> \<not> lt x y \<and> eqv x y \<and> \<not> lt y x \<or> \<not> lt x y \<and> \<not> eqv x y \<and> lt y x"
proof (cases "trm x = kUninitializedTerm \<or> trm y = kUninitializedTerm")
  case True
  then have "lt x y \<longleftrightarrow> stamp x < stamp y" "lt y x \<longleftrightarrow> stamp y < stamp x" "eqv x y \<longleftrightarrow> stamp x = stamp y"
    using lt_unset eqv_unset by blast+
  then show ?thesis by (cases "stamp x" "stamp y" rule: linorder_cases) auto
next
  case False
  then have "lt x y \<longleftrightarrow> trm x < trm y \<or> trm x = trm y \<and> stamp x < stamp y"
    "lt y x \<longleftrightarrow> trm y < trm x \<or> trm y = trm x \<and> stamp y < stamp x" "eqv x y \<longleftrightarrow> trm x = trm y \<and> stamp x = stamp y"
    using lt_set eqv_set by blast+
  then show ?thesis by (cases "stamp x" "stamp y" rule: linorder_cases; cases "trm x" "trm y" rule: linorder_cases) auto
qed

lemma not_lt_iff: "\<not> lt y x \<longleftrightarrow> lt x y \<or> eqv x y"
  using trichotomy [of x y] by blast

lemma lt_trans_set:
  assumes "trm x \<noteq> kUninitializedTerm" "trm y \<noteq> kUninitializedTerm" "trm z \<noteq> kUninitializedTerm"
    and "lt x y" "lt y z"
  shows "lt x z"
  using assms(4,5) unfolding lt_set [OF assms(1,2)] lt_set [OF assms(2,3)] lt_set [OF assms(1,3)]
  by (elim disjE conjE) auto

end

subsection \<open>OpTime\<close>

datatype OpTime = OpTime (getTimestamp: Timestamp) (getTerm: int)

definition nullOpTime :: OpTime where
  "nullOpTime = OpTime (Timestamp 0 0) kUninitializedTerm"

definition op_isNull :: "OpTime \<Rightarrow> bool" where
  "op_isNull a \<longleftrightarrow> ts_isNull (getTimestamp a)"

definition op_eq :: "OpTime \<Rightarrow> OpTime \<Rightarrow> bool" where
  "op_eq a b \<longleftrightarrow>
     (if getTerm a = kUninitializedTerm \<or> getTerm b = kUninitializedTerm then getTimestamp a = getTimestamp b
      else getTerm a = getTerm b \<and> getTimestamp a = getTimestamp b)"

definition op_less :: "OpTime \<Rightarrow> OpTime \<Rightarrow> bool" where
  "op_less a b \<longleftrightarrow>
     (if getTerm a = kUninitializedTerm \<or> getTerm b = kUninitializedTerm then getTimestamp a < getTimestamp b
      else getTerm a < getTerm b \<or> getTerm a = getTerm b \<and> getTimestamp a < getTimestamp b)"

definition op_le :: "OpTime \<Rightarrow> OpTime \<Rightarrow> bool" where
  "op_le a b \<longleftrightarrow> op_less a b \<or> op_eq a b"

definition op_greater :: "OpTime \<Rightarrow> OpTime \<Rightarrow> bool" where
  "op_greater a b \<longleftrightarrow> \<not> op_le a b"

definition op_ge :: "OpTime \<Rightarrow> OpTime \<Rightarrow> bool" where
  "op_ge a b \<longleftrightarrow> \<not> op_less a b"

interpretation op: term_order getTerm getTimestamp op_less op_eq
  by unfold_locales (auto simp: op_less_def op_eq_def)

text \<open>The six comparison operators of \<open>OpTime\<close> agree with each other on all values: exactly one of less,
  equal and greater holds, and \<open><=\<close>, \<open>>=\<close>, \<open>>\<close> are what these say. Less is transitive among values with a
  term; a value without one breaks transitivity, since it is compared by timestamp alone.\<close>

theorem optime_comparisons:
  "(op_less a b \<or> op_eq a b \<or> op_greater a b) \<and> \<not> (op_less a b \<and> op_eq a b) \<and> \<not> (op_less a b \<and> op_greater a b) \<and>
   \<not> (op_eq a b \<and> op_greater a b) \<and> (op_greater a b \<longleftrightarrow> op_less b a) \<and> (op_ge a b \<longleftrightarrow> op_le b a) \<and>
   (getTerm a \<noteq> kUninitializedTerm \<and> getTerm b \<noteq> kUninitializedTerm \<and> getTerm c \<noteq> kUninitializedTerm \<and>
      op_less a b \<and> op_less b c \<longrightarrow> op_less a c) \<and>
   (\<exists>x y z. op_less x y \<and> op_less y z \<and> op_less z x)"
proof -
  have "op_less (OpTime (Timestamp 2 0) 1) (OpTime (Timestamp 3 0) (-1))" "op_less (OpTime (Timestamp 3 0) (-1)) (OpTime (Timestamp 4 0) 0)"
    "op_less (OpTime (Timestamp 4 0) 0) (OpTime (Timestamp 2 0) 1)"
    by (simp_all add: op_less_def kUninitializedTerm_def less_Timestamp_def)
  moreover have "op_less a b \<and> \<not> op_eq a b \<and> \<not> op_less b a \<or> \<not> op_less a b \<and> op_eq a b \<and> \<not> op_less b a \<or>
      \<not> op_less a b \<and> \<not> op_eq a b \<and> op_less b a" by (rule op.trichotomy)
  moreover have "op_eq b a \<longleftrightarrow> op_eq a b" by (auto simp: op_eq_def)
  ultimately show ?thesis
    unfolding op_greater_def op_ge_def op_le_def using op.lt_trans_set [of a b c] by blast
qed

theorem optime_comparisons_witness:
  "op_less (OpTime (Timestamp 1 0) 1) (OpTime (Timestamp 0 1) 3)"
  using optime_comparisons [of "OpTime (Timestamp 1 0) 1" "OpTime (Timestamp 9 9) 2" "OpTime (Timestamp 0 1) 3"]
  by (simp add: op_less_def kUninitializedTerm_def)

text \<open>Among values with a term, less is a strict linear order and equality is identity.\<close>

lemma op_le_set:
  "getTerm a \<noteq> kUninitializedTerm \<Longrightarrow> getTerm b \<noteq> kUninitializedTerm \<Longrightarrow>
     op_le a b \<longleftrightarrow> getTerm a < getTerm b \<or> getTerm a = getTerm b \<and> getTimestamp a \<le> getTimestamp b"
  by (auto simp: op_le_def op_less_def op_eq_def)

text \<open>Optimes that are null or have both a term and a timestamp are linearly ordered; an optime without term is compared by its
  timestamp only, which is why others are excluded.\<close>

definition op_regular :: "OpTime \<Rightarrow> bool" where
  "op_regular t \<longleftrightarrow> t = nullOpTime \<or> getTerm t \<noteq> kUninitializedTerm \<and> getTimestamp t \<noteq> Timestamp 0 0"

lemma ts_zero_least: "\<not> t < Timestamp 0 0"
  by (cases t) (simp add: less_Timestamp_def)

lemma ts_zero_less: "Timestamp 0 0 < t \<longleftrightarrow> t \<noteq> Timestamp 0 0"
  using linorder_neq_iff [of t "Timestamp 0 0"] ts_zero_least [of t] by auto

lemma op_ge_trans:
  assumes "op_regular a" "op_regular b" "op_regular c" "op_ge a b" "op_ge b c"
  shows "op_ge a c"
proof (cases "c = nullOpTime \<or> b = nullOpTime \<or> a = nullOpTime")
  case True
  then show ?thesis using assms by (auto simp: op_ge_def op_less_def op_regular_def nullOpTime_def ts_zero_least ts_zero_less split: if_splits)
next
  case False
  then show ?thesis using assms by (auto simp: op_ge_def op_less_def op_regular_def split: if_splits)
qed

lemma op_ge_total: "op_ge a b \<or> op_ge b a"
  using op.trichotomy [of a b] by (auto simp: op_ge_def)

lemma op_ge_refl: "op_ge a a"
  using op_ge_total by blast

subsection \<open>Configuration versions\<close>

datatype ConfigVersionAndTerm = ConfigVersionAndTerm (cvt_version: int) (cvt_term: int)

definition cvt_eq :: "ConfigVersionAndTerm \<Rightarrow> ConfigVersionAndTerm \<Rightarrow> bool" where
  "cvt_eq a b \<longleftrightarrow>
     (if cvt_term a = kUninitializedTerm \<or> cvt_term b = kUninitializedTerm then cvt_version a = cvt_version b
      else cvt_term a = cvt_term b \<and> cvt_version a = cvt_version b)"

definition cvt_less :: "ConfigVersionAndTerm \<Rightarrow> ConfigVersionAndTerm \<Rightarrow> bool" where
  "cvt_less a b \<longleftrightarrow>
     (if cvt_term a = kUninitializedTerm \<or> cvt_term b = kUninitializedTerm then cvt_version a < cvt_version b
      else cvt_term a < cvt_term b \<or> cvt_term a = cvt_term b \<and> cvt_version a < cvt_version b)"

definition cvt_ge :: "ConfigVersionAndTerm \<Rightarrow> ConfigVersionAndTerm \<Rightarrow> bool" where
  "cvt_ge a b \<longleftrightarrow> \<not> cvt_less a b"

interpretation cvt: term_order cvt_term cvt_version cvt_less cvt_eq
  by unfold_locales (auto simp: cvt_less_def cvt_eq_def)

end
