(* ===== verification/ReplConfig.thy ===== *)
theory ReplConfig
  imports Complex_Main ReplTags OpTimes "HOL-Library.Sublist"
begin

text \<open>
  Replica set configurations: \<open>MemberConfig\<close> and \<open>ReplSetConfig\<close> of \<^verbatim>\<open>db/repl/\<close>, how they
  are built from a configuration document, what \<open>validate\<close> demands of them, and the majorities
  and write concern modes computed from them. A document is given by its fields, each missing,
  present, or malformed with the error its extraction reports; BSON itself is not modelled. A \<open>Status\<close> is a
  value of the sum type, \<open>Inl\<close> with the error code.
\<close>

subsection \<open>Errors and fields\<close>

datatype ErrorCode = BadValue | NoSuchKey | TypeMismatch | FailedToParse | InvalidReplicaSetConfig | RepairedReplicaSetNode
  | NewReplicaSetConfigurationIncompatible | UnknownReplWriteConcern | UnsatisfiableWriteConcern
  | NodeNotFound | NodeNotElectable | Error51001 | InconsistentReplicaSetNames | NotPrimaryOrSecondary
  | ConflictingOperationInProgress | NotWritablePrimary | PrimarySteppedDown | ExceededTimeLimit | NotSecondary | StaleTerm
  | ShutdownInProgress | Unauthorized | AuthenticationFailed | NetworkTimeout | ElectionInProgress | CannotSatisfyWriteConcern
  | InvalidOptions | HostUnreachable | UnsatisfiableCommitQuorum | Overflow | InvalidSeedList | InvalidTopologyType
  | TopologySetNameRequired | InvalidHeartBeatFrequency | InvalidServerType | IncompatibleServerVersion | MaxStalenessOutOfRange
  | DurationOverflow | ShardKeyNotFound | StaleChunkHistory | MigrationConflict | ShardInvalidatedForTargeting | Error50978
  | Error31180 | Error31181 | Error13111 | RangeOverlapConflict | IllegalOperation

type_synonym 'a StatusWith = "ErrorCode + 'a"

abbreviation ifOK :: "'a StatusWith \<Rightarrow> ('a \<Rightarrow> 'b StatusWith) \<Rightarrow> 'b StatusWith" where
  "ifOK s f \<equiv> (case s of Inl e \<Rightarrow> Inl e | Inr a \<Rightarrow> f a)"

abbreviation failIf :: "bool \<Rightarrow> ErrorCode \<Rightarrow> 'a StatusWith \<Rightarrow> 'a StatusWith" where
  "failIf b e s \<equiv> (if b then Inl e else s)"

lemma ifOK_Inr [simp, abort_simps]: "ifOK s f = Inr b \<longleftrightarrow> (\<exists>a. s = Inr a \<and> f a = Inr b)"
  by (cases s) auto

lemma failIf_Inr [simp, abort_simps]: "failIf b e s = Inr a \<longleftrightarrow> \<not> b \<and> s = Inr a"
  by auto

text \<open>An operation with both exceptions and fatal assertions: \<open>None\<close> is a failed assertion, \<open>Inl\<close> an exception.\<close>

type_synonym 'a Checked = "'a StatusWith option"

definition thenC :: "'a Checked \<Rightarrow> ('a \<Rightarrow> 'b Checked) \<Rightarrow> 'b Checked" where
  "thenC x f = (case x of None \<Rightarrow> None | Some (Inl e) \<Rightarrow> Some (Inl e) | Some (Inr a) \<Rightarrow> f a)"

lemma thenC_simps [simp]: "thenC None f = None" "thenC (Some (Inl e)) f = Some (Inl e)" "thenC (Some (Inr a)) f = f a"
  by (simp_all add: thenC_def)

lemma thenC_Inr [abort_simps]: "thenC x f = Some (Inr b) \<longleftrightarrow> (\<exists>a. x = Some (Inr a) \<and> f a = Some (Inr b))"
  by (simp add: thenC_def split: option.split sum.split)

lemma thenC_cong [fundef_cong]: "x = y \<Longrightarrow> (\<And>a. y = Some (Inr a) \<Longrightarrow> f a = g a) \<Longrightarrow> thenC x f = thenC y g"
  by (simp add: thenC_def split: option.split sum.split)

datatype 'a field = Missing | Present 'a | Malformed ErrorCode

definition extractField :: "'a field \<Rightarrow> 'a StatusWith" where
  "extractField f = (case f of Missing \<Rightarrow> Inl NoSuchKey | Present a \<Rightarrow> Inr a | Malformed e \<Rightarrow> Inl e)"

definition extractWithDefault :: "'a \<Rightarrow> 'a field \<Rightarrow> 'a StatusWith" where
  "extractWithDefault d f = (case f of Missing \<Rightarrow> Inr d | Present a \<Rightarrow> Inr a | Malformed e \<Rightarrow> Inl e)"

definition extractWithDefaultIf :: "'a \<Rightarrow> ('a \<Rightarrow> bool) \<Rightarrow> 'a field \<Rightarrow> 'a StatusWith" where
  "extractWithDefaultIf d P f = ifOK (extractWithDefault d f) (\<lambda>a. failIf (\<not> P a) BadValue (Inr a))"

text \<open>Priorities are doubles: comparisons with not-a-number are false.\<close>

datatype double = NaN | NegInf | PosInf | Fin rat

definition d_less :: "double \<Rightarrow> double \<Rightarrow> bool" where
  "d_less a b =
     (case (a, b) of
        (NaN, _) \<Rightarrow> False | (_, NaN) \<Rightarrow> False
      | (NegInf, NegInf) \<Rightarrow> False | (NegInf, _) \<Rightarrow> True
      | (_, NegInf) \<Rightarrow> False | (PosInf, _) \<Rightarrow> False | (_, PosInf) \<Rightarrow> True
      | (Fin x, Fin y) \<Rightarrow> x < y)"

definition d_ne :: "double \<Rightarrow> double \<Rightarrow> bool" where
  "d_ne a b \<longleftrightarrow> a = NaN \<or> b = NaN \<or> a \<noteq> b"

subsection \<open>Members\<close>

text \<open>\<open>port\<close> is the value of \<open>port()\<close>, the default port when none is given; it is negative in the empty object only.\<close>

record HostAndPort =
  hostname :: string
  port :: int

definition isLocalHost :: "HostAndPort \<Rightarrow> bool" where
  "isLocalHost h \<longleftrightarrow> hostname h = ''localhost'' \<or> prefix ''127.'' (hostname h) \<or> hostname h = ''::1'' \<or>
     hostname h = ''anonymous unix socket'' \<or> prefix ''/'' (hostname h)"

record MemberConfig =
  mc_id :: nat
  priority :: double
  votes :: int
  arbiterOnly :: bool
  slaveDelay :: int
  hidden :: bool
  buildIndexes :: bool
  mc_tags :: "ReplSetTag list"
  getHostAndPort :: HostAndPort
  horizonMappings :: "(string \<times> HostAndPort) list"

record MemberDoc =
  md_unknownField :: bool
  md_id :: "int field"
  md_host :: "HostAndPort field"
  md_votes :: "int field"
  md_arbiterOnly :: "bool field"
  md_priority :: "double field"
  md_slaveDelay :: "int field"
  md_hidden :: "bool field"
  md_buildIndexes :: "bool field"
  md_tags :: "(string \<times> string field) list field"
  md_horizons :: "(string \<times> HostAndPort field) list field"

definition isVoter :: "MemberConfig \<Rightarrow> bool" where
  "isVoter m \<longleftrightarrow> votes m \<noteq> 0"

definition getNumVotes :: "MemberConfig \<Rightarrow> int" where
  "getNumVotes m = (if isVoter m then 1 else 0)"

definition isElectable :: "MemberConfig \<Rightarrow> bool" where
  "isElectable m \<longleftrightarrow> \<not> arbiterOnly m \<and> d_less (Fin 0) (priority m)"

definition kDefaultHorizon :: string where
  "kDefaultHorizon = ''__default''"

fun convertHorizons :: "(string \<times> HostAndPort field) list \<Rightarrow> (string \<times> HostAndPort) list StatusWith" where
  "convertHorizons [] = Inr []"
| "convertHorizons ((n, f) # hs) =
     failIf (f = Malformed TypeMismatch) TypeMismatch
      (failIf (n = kDefaultHorizon) BadValue
       (failIf (n = '''') BadValue
         (ifOK (extractField f) (\<lambda>h. ifOK (convertHorizons hs) (\<lambda>r. Inr ((n, h) # r))))))"

definition computeForwardMappings ::
    "HostAndPort \<Rightarrow> (string \<times> HostAndPort field) list field \<Rightarrow> (string \<times> HostAndPort) list StatusWith" where
  "computeForwardMappings h horizons =
     (case horizons of
        Missing \<Rightarrow> Inr [(kDefaultHorizon, h)]
      | Malformed e \<Rightarrow> Inl e
      | Present hs \<Rightarrow>
          failIf (hs = []) BadValue
            (ifOK (convertHorizons hs) (\<lambda>entries.
              failIf (\<not> distinct (map fst entries)) BadValue (Inr (entries @ [(kDefaultHorizon, h)])))))"

text \<open>The reverse mapping goes by host name alone: it has as many entries as there are different names.\<close>

definition computeReverseMappings :: "(string \<times> HostAndPort) list \<Rightarrow> (string \<times> HostAndPort) list StatusWith" where
  "computeReverseMappings fm =
     failIf (length fm \<noteq> length (remdups (map (hostname \<circ> snd) fm))) BadValue (Inr fm)"

text \<open>\<open>std::to_string\<close> on a member id.\<close>

fun showNat :: "nat \<Rightarrow> string" where
  "showNat n = (if n < 10 then [char_of (48 + n)] else showNat (n div 10) @ [char_of (48 + n mod 10)])"

declare showNat.simps [simp del]

fun makeTags :: "(string \<times> string) list \<Rightarrow> TagData \<Rightarrow> ReplSetTag list \<times> TagData" where
  "makeTags [] d = ([], d)"
| "makeTags ((k, v) # kvs) d = (let (t, d1) = makeTag k v d; (ts, d2) = makeTags kvs d1 in (t # ts, d2))"

fun extractTagFields :: "(string \<times> string field) list \<Rightarrow> (string \<times> string) list StatusWith" where
  "extractTagFields [] = Inr []"
| "extractTagFields ((k, f) # kfs) = ifOK (extractField f) (\<lambda>v. ifOK (extractTagFields kfs) (\<lambda>r. Inr ((k, v) # r)))"

text \<open>The internal tags that a member gets from its other properties, in the order of the constructor.\<close>

definition internalTags :: "MemberConfig \<Rightarrow> (string \<times> string) list" where
  "internalTags m =
     (if isVoter m \<and> \<not> arbiterOnly m then [(''$voter'', showNat (mc_id m))] else []) @
     (if isElectable m then [(''$electable'', showNat (mc_id m))] else []) @
     (if \<not> arbiterOnly m then [(''$all'', showNat (mc_id m))] else []) @
     (if isVoter m then [(''$configVoter'', showNat (mc_id m))] else []) @
     [(''$configAll'', showNat (mc_id m))]"

definition MemberConfig_new :: "MemberDoc \<Rightarrow> TagData \<Rightarrow> (MemberConfig \<times> TagData) StatusWith" where
  "MemberConfig_new doc d =
     failIf (md_unknownField doc) BadValue
     (ifOK (extractField (md_id doc)) (\<lambda>i.
      failIf (i < 0) BadValue
     (ifOK (extractField (md_host doc)) (\<lambda>h.
      ifOK (extractWithDefault 1 (md_votes doc)) (\<lambda>v.
      ifOK (extractWithDefault False (md_arbiterOnly doc)) (\<lambda>arb.
      ifOK (extractWithDefault (Fin 1) (md_priority doc)) (\<lambda>p0.
      let p = (if p0 = Fin 1 then (if arb then Fin 0 else Fin 1) else p0) in
      ifOK (extractWithDefault 0 (md_slaveDelay doc)) (\<lambda>delay.
      ifOK (extractWithDefault False (md_hidden doc)) (\<lambda>hid.
      ifOK (extractWithDefault True (md_buildIndexes doc)) (\<lambda>bi.
      ifOK (extractWithDefault [] (md_tags doc)) (\<lambda>tagFields.
      ifOK (extractTagFields tagFields) (\<lambda>userTags.
      ifOK (computeForwardMappings h (md_horizons doc)) (\<lambda>fm.
      ifOK (computeReverseMappings fm) (\<lambda>_.
      let m = \<lparr>mc_id = nat i, priority = p, votes = v, arbiterOnly = arb, slaveDelay = delay, hidden = hid,
               buildIndexes = bi, mc_tags = [], getHostAndPort = h, horizonMappings = fm\<rparr>;
          (ts, d1) = makeTags (userTags @ internalTags m) d
      in Inr (m\<lparr>mc_tags := ts\<rparr>, d1)))))))))))))))"

definition kMaxSlaveDelay :: int where
  "kMaxSlaveDelay = 3600 * 24 * 366"

definition MemberConfig_validate :: "MemberConfig \<Rightarrow> unit StatusWith" where
  "MemberConfig_validate m =
     failIf (d_less (priority m) (Fin 0) \<or> d_less (Fin 1000) (priority m)) BadValue
     (failIf (votes m \<noteq> 0 \<and> votes m \<noteq> 1) BadValue
     (failIf (arbiterOnly m \<and> \<not> isVoter m) BadValue
     (failIf (arbiterOnly m \<and> length (mc_tags m) \<noteq> 2) BadValue
     (failIf (slaveDelay m < 0 \<or> slaveDelay m > kMaxSlaveDelay) BadValue
     (failIf (d_ne (priority m) (Fin 0) \<and> votes m = 0) BadValue
     (failIf (d_ne (priority m) (Fin 0) \<and> slaveDelay m > 0) BadValue
     (failIf (d_ne (priority m) (Fin 0) \<and> hidden m) BadValue
     (failIf (d_ne (priority m) (Fin 0) \<and> \<not> buildIndexes m) BadValue
     (Inr ())))))))))"

subsection \<open>Configurations\<close>

record WriteConcernOptions =
  wNumNodes :: int
  wMode :: string

definition defaultWriteConcernOptions :: WriteConcernOptions where
  "defaultWriteConcernOptions = \<lparr>wNumNodes = 1, wMode = ''''\<rparr>"

record ReplSetConfig =
  isInitialized :: bool
  version :: int
  config_term :: int
  replSetName :: string
  members :: "MemberConfig list"
  defaultWriteConcern :: WriteConcernOptions
  electionTimeoutPeriod :: int
  heartbeatInterval :: int
  heartbeatTimeoutPeriod :: int
  catchUpTimeoutPeriod :: int
  catchUpTakeoverDelay :: int
  chainingAllowed :: bool
  writeConcernMajorityJournalDefault :: bool
  majorityVoteCount :: int
  writableVotingMembersCount :: int
  writeMajority :: int
  totalVotingMembers :: int
  tagConfig :: TagData
  customWriteConcernModes :: "string \<rightharpoonup> ReplSetTagPattern"
  protocolVersion :: int
  configServer :: bool
  replicaSetId :: nat
  connectionString :: "HostAndPort list option"

text \<open>A default-constructed configuration. The object id 0 is the one that is not set.\<close>

definition emptyReplSetConfig :: ReplSetConfig where
  "emptyReplSetConfig =
     \<lparr>isInitialized = False, version = 1, config_term = kUninitializedTerm, replSetName = '''', members = [],
      defaultWriteConcern = defaultWriteConcernOptions, electionTimeoutPeriod = 10000, heartbeatInterval = 2000,
      heartbeatTimeoutPeriod = 10, catchUpTimeoutPeriod = -1, catchUpTakeoverDelay = 30000, chainingAllowed = True,
      writeConcernMajorityJournalDefault = False, majorityVoteCount = 0, writableVotingMembersCount = 0,
      writeMajority = 0, totalVotingMembers = 0, tagConfig = [], customWriteConcernModes = Map.empty,
      protocolVersion = 1, configServer = False, replicaSetId = 0, connectionString = None\<rparr>"

definition getConfigVersionAndTerm :: "ReplSetConfig \<Rightarrow> ConfigVersionAndTerm" where
  "getConfigVersionAndTerm c = ConfigVersionAndTerm (version c) (config_term c)"

definition votingMembers :: "ReplSetConfig \<Rightarrow> MemberConfig list" where
  "votingMembers c = filter (\<lambda>m. getNumVotes m > 0) (members c)"

definition getNumDataBearingMembers :: "ReplSetConfig \<Rightarrow> int" where
  "getNumDataBearingMembers c = int (length (members c)) - int (countp arbiterOnly (members c))"

definition getMemberAt :: "ReplSetConfig \<Rightarrow> nat \<Rightarrow> MemberConfig option" where
  "getMemberAt c i = (if i < length (members c) then Some (members c ! i) else None)"

definition findMemberByID :: "ReplSetConfig \<Rightarrow> nat \<Rightarrow> MemberConfig option" where
  "findMemberByID c i = find (\<lambda>m. mc_id m = i) (members c)"

fun indexWhere :: "('a \<Rightarrow> bool) \<Rightarrow> 'a list \<Rightarrow> int \<Rightarrow> int" where
  "indexWhere P [] x = -1"
| "indexWhere P (m # ms) x = (if P m then x else indexWhere P ms (x + 1))"

definition findMemberIndexByHostAndPort :: "ReplSetConfig \<Rightarrow> HostAndPort \<Rightarrow> int" where
  "findMemberIndexByHostAndPort c h = indexWhere (\<lambda>m. getHostAndPort m = h) (members c) 0"

definition findMemberIndexByConfigId :: "ReplSetConfig \<Rightarrow> nat \<Rightarrow> int" where
  "findMemberIndexByConfigId c i = indexWhere (\<lambda>m. mc_id m = i) (members c) 0"

definition findMemberByHostAndPort :: "ReplSetConfig \<Rightarrow> HostAndPort \<Rightarrow> MemberConfig option" where
  "findMemberByHostAndPort c h =
     (let idx = findMemberIndexByHostAndPort c h in if idx \<noteq> -1 then getMemberAt c (nat idx) else None)"

definition containsArbiter :: "ReplSetConfig \<Rightarrow> bool" where
  "containsArbiter c \<longleftrightarrow> list_ex arbiterOnly (members c)"

definition calculatePriorityRank :: "ReplSetConfig \<Rightarrow> double \<Rightarrow> nat" where
  "calculatePriorityRank c p = countp (\<lambda>m. d_less p (priority m)) (members c)"

definition getPriorityTakeoverDelay :: "ReplSetConfig \<Rightarrow> nat \<Rightarrow> int option" where
  "getPriorityTakeoverDelay c i =
     map_option (\<lambda>m. (int (calculatePriorityRank c (priority m)) + 1) * electionTimeoutPeriod c) (getMemberAt c i)"

definition isLocalHostAllowed :: "ReplSetConfig \<Rightarrow> bool" where
  "isLocalHostAllowed c \<longleftrightarrow> isLocalHost (getHostAndPort (hd (members c)))"

definition findCustomWriteMode :: "ReplSetConfig \<Rightarrow> string \<Rightarrow> ReplSetTagPattern StatusWith" where
  "findCustomWriteMode c n =
     (case customWriteConcernModes c n of None \<Rightarrow> Inl UnknownReplWriteConcern | Some p \<Rightarrow> Inr p)"

subsection \<open>Majorities and write concern modes\<close>

definition calculateMajorities :: "ReplSetConfig \<Rightarrow> ReplSetConfig" where
  "calculateMajorities c =
     (let voters = int (countp isVoter (members c));
          arbiters = int (countp arbiterOnly (members c));
          majority = voters div 2 + 1;
          writable = voters - arbiters
      in c\<lparr>totalVotingMembers := voters, majorityVoteCount := majority,
           writableVotingMembersCount := writable, writeMajority := min majority writable\<rparr>)"

text \<open>A mode whose tag key does not occur in the configuration is left out.\<close>

definition addMode :: "string \<Rightarrow> string \<Rightarrow> int \<Rightarrow> ReplSetConfig \<Rightarrow> ReplSetConfig" where
  "addMode name key n c =
     (case addTagCountConstraintToPattern [] key n (tagConfig c) of
        Some p \<Rightarrow> c\<lparr>customWriteConcernModes := (customWriteConcernModes c)(name \<mapsto> p)\<rparr>
      | None \<Rightarrow> c)"

definition addInternalWriteConcernModes :: "ReplSetConfig \<Rightarrow> ReplSetConfig" where
  "addInternalWriteConcernModes c =
     addMode ''$configAll'' ''$configAll'' (int (length (members c)))
     (addMode ''$configMajority'' ''$configVoter'' (majorityVoteCount c div 2 + 1)
     (addMode ''$stepDownCheck'' ''$electable'' 2
     (addMode ''$votingMembers'' ''$voter'' (writableVotingMembersCount c)
     (addMode ''$majority'' ''$voter'' (writeMajority c) c))))"

definition initializeConnectionString :: "ReplSetConfig \<Rightarrow> ReplSetConfig" where
  "initializeConnectionString c =
     (let visible = map getHostAndPort (filter (\<lambda>m. \<not> hidden m \<and> \<not> arbiterOnly m) (members c))
      in if replSetName c \<noteq> '''' \<and> visible \<noteq> [] then c\<lparr>connectionString := Some visible\<rparr> else c)"

fun enoughDataBearing :: "int \<Rightarrow> MemberConfig list \<Rightarrow> bool" where
  "enoughDataBearing nodesRemaining [] = False"
| "enoughDataBearing nodesRemaining (m # ms) =
     (if \<not> arbiterOnly m
      then (if nodesRemaining - 1 \<le> 0 then True else enoughDataBearing (nodesRemaining - 1) ms)
      else enoughDataBearing nodesRemaining ms)"

text \<open>The nodes of the set in order; each offers its tags to the matcher until it is satisfied.\<close>

definition checkIfWriteConcernCanBeSatisfied :: "WriteConcernOptions \<Rightarrow> ReplSetConfig \<Rightarrow> unit StatusWith" where
  "checkIfWriteConcernCanBeSatisfied wc c =
     (if wMode wc \<noteq> '''' \<and> wMode wc \<noteq> ''majority''
      then ifOK (findCustomWriteMode c (wMode wc)) (\<lambda>p.
        if fst (feedTags (concat (map mc_tags (members c))) (newMatch p)) then Inr ()
        else Inl UnsatisfiableWriteConcern)
      else if enoughDataBearing (wNumNodes wc) (members c) then Inr () else Inl UnsatisfiableWriteConcern)"


subsection \<open>Building a configuration from a document\<close>

record SettingsDoc =
  sd_heartbeatIntervalMillis :: "int field"
  sd_electionTimeoutMillis :: "int field"
  sd_heartbeatTimeoutSecs :: "int field"
  sd_catchUpTimeoutMillis :: "int field"
  sd_catchUpTakeoverDelayMillis :: "int field"
  sd_chainingAllowed :: "bool field"
  sd_getLastErrorDefaults :: "WriteConcernOptions field"
  sd_getLastErrorModes :: "(string \<times> (string \<times> int field) list field) list field"
  sd_replicaSetId :: "nat field"

definition emptySettings :: SettingsDoc where
  "emptySettings =
     \<lparr>sd_heartbeatIntervalMillis = Missing, sd_electionTimeoutMillis = Missing, sd_heartbeatTimeoutSecs = Missing,
      sd_catchUpTimeoutMillis = Missing, sd_catchUpTakeoverDelayMillis = Missing, sd_chainingAllowed = Missing,
      sd_getLastErrorDefaults = Missing, sd_getLastErrorModes = Missing, sd_replicaSetId = Missing\<rparr>"

record ConfigDoc =
  cd_repaired :: bool
  cd_unknownField :: bool
  cd_id :: "string field"
  cd_version :: "int field"
  cd_term :: "int field"
  cd_members :: "MemberDoc field list field"
  cd_configsvr :: "bool field"
  cd_protocolVersion :: "int field"
  cd_writeConcernMajorityJournalDefault :: "bool field"
  cd_settings :: "SettingsDoc field"

fun parseConstraints :: "(string \<times> int field) list \<Rightarrow> TagData \<Rightarrow> ReplSetTagPattern \<Rightarrow> ReplSetTagPattern StatusWith" where
  "parseConstraints [] d p = Inr p"
| "parseConstraints ((k, f) # cs) d p =
     ifOK (extractField f) (\<lambda>n.
       failIf (n \<le> 0) BadValue
         (case addTagCountConstraintToPattern p k n d of
            None \<Rightarrow> Inl NoSuchKey
          | Some p1 \<Rightarrow> parseConstraints cs d p1))"

fun parseModes :: "(string \<times> (string \<times> int field) list field) list \<Rightarrow> ReplSetConfig \<Rightarrow> ReplSetConfig StatusWith" where
  "parseModes [] c = Inr c"
| "parseModes ((n, f) # ms) c =
     failIf (customWriteConcernModes c n \<noteq> None) Error51001
       (ifOK (extractField f) (\<lambda>cs.
         ifOK (parseConstraints cs (tagConfig c) []) (\<lambda>p.
           parseModes ms (c\<lparr>customWriteConcernModes := (customWriteConcernModes c)(n \<mapsto> p)\<rparr>))))"

definition parseSettingsSubdocument :: "SettingsDoc \<Rightarrow> ReplSetConfig \<Rightarrow> ReplSetConfig StatusWith" where
  "parseSettingsSubdocument s c =
     (let validCatchUpParameter = (\<lambda>n. n \<ge> 0 \<or> n = -1) in
      ifOK (extractWithDefault 2000 (sd_heartbeatIntervalMillis s)) (\<lambda>hb.
      ifOK (extractWithDefaultIf 10000 (\<lambda>n. n > 0) (sd_electionTimeoutMillis s)) (\<lambda>el.
      ifOK (extractWithDefaultIf 10 (\<lambda>n. n > 0) (sd_heartbeatTimeoutSecs s)) (\<lambda>ht.
      ifOK (extractWithDefaultIf (-1) validCatchUpParameter (sd_catchUpTimeoutMillis s)) (\<lambda>cu.
      ifOK (extractWithDefaultIf 30000 validCatchUpParameter (sd_catchUpTakeoverDelayMillis s)) (\<lambda>ct.
      ifOK (extractWithDefault True (sd_chainingAllowed s)) (\<lambda>ch.
      ifOK (extractWithDefault defaultWriteConcernOptions (sd_getLastErrorDefaults s)) (\<lambda>wc.
      ifOK (extractWithDefault [] (sd_getLastErrorModes s)) (\<lambda>modes.
      ifOK (parseModes modes (c\<lparr>heartbeatInterval := hb, electionTimeoutPeriod := el, heartbeatTimeoutPeriod := ht,
              catchUpTimeoutPeriod := cu, catchUpTakeoverDelay := ct, chainingAllowed := ch, defaultWriteConcern := wc\<rparr>)) (\<lambda>c1.
      case sd_replicaSetId s of
        Missing \<Rightarrow> Inr (c1\<lparr>replicaSetId := 0\<rparr>)
      | Malformed e \<Rightarrow> Inl e
      | Present i \<Rightarrow> failIf (i = 0) BadValue (Inr (c1\<lparr>replicaSetId := i\<rparr>))))))))))))"

fun parseMembers :: "MemberDoc field list \<Rightarrow> TagData \<Rightarrow> (MemberConfig list \<times> TagData) StatusWith" where
  "parseMembers [] d = Inr ([], d)"
| "parseMembers (f # fs) d =
     (case f of
        Present doc \<Rightarrow>
          (case MemberConfig_new doc d of
             Inl e \<Rightarrow> Inl InvalidReplicaSetConfig
           | Inr (m, d1) \<Rightarrow> ifOK (parseMembers fs d1) (\<lambda>(ms, d2). Inr (m # ms, d2)))
      | _ \<Rightarrow> Inl TypeMismatch)"

text \<open>The top-level fields, without the settings.\<close>

definition parseTopLevel :: "bool \<Rightarrow> ConfigDoc \<Rightarrow> int option \<Rightarrow> (ReplSetConfig \<times> SettingsDoc) StatusWith" where
  "parseTopLevel configsvrDefault cfg forceTerm =
     failIf (cd_repaired cfg) RepairedReplicaSetNode
     (failIf (cd_unknownField cfg) BadValue
     (ifOK (extractField (cd_id cfg)) (\<lambda>name.
      ifOK (extractField (cd_version cfg)) (\<lambda>v.
      ifOK (case forceTerm of Some t \<Rightarrow> Inr t | None \<Rightarrow> extractWithDefault kUninitializedTerm (cd_term cfg)) (\<lambda>t.
      ifOK (extractField (cd_members cfg)) (\<lambda>memberFields.
      ifOK (parseMembers memberFields []) (\<lambda>(ms, d).
      ifOK (extractWithDefault configsvrDefault (cd_configsvr cfg)) (\<lambda>csrs.
      ifOK (extractWithDefault 1 (cd_protocolVersion cfg)) (\<lambda>pv.
      ifOK (extractWithDefault True (cd_writeConcernMajorityJournalDefault cfg)) (\<lambda>j.
      ifOK (extractWithDefault emptySettings (cd_settings cfg)) (\<lambda>settings.
      Inr (emptyReplSetConfig\<lparr>replSetName := name, version := v, config_term := t, members := ms, tagConfig := d,
             configServer := csrs, protocolVersion := pv, writeConcernMajorityJournalDefault := j\<rparr>, settings))))))))))))"

text \<open>
  \<open>_initialize\<close> of a fresh object. \<open>freshOID\<close> stands for \<open>OID::gen()\<close>,
  \<open>isConfigServer\<close> for the cluster role of this process.
\<close>

definition ReplSetConfig_initialize ::
    "bool \<Rightarrow> nat \<Rightarrow> ConfigDoc \<Rightarrow> bool \<Rightarrow> int option \<Rightarrow> nat \<Rightarrow> ReplSetConfig StatusWith" where
  "ReplSetConfig_initialize isConfigServer freshOID cfg forInitiate forceTerm defaultReplicaSetId =
     ifOK (parseTopLevel (if forInitiate then isConfigServer else False) cfg forceTerm) (\<lambda>(c0, settings).
     ifOK (parseSettingsSubdocument settings c0) (\<lambda>c.
     ifOK (if forInitiate then failIf (replicaSetId c \<noteq> 0) InvalidReplicaSetConfig (Inr (c\<lparr>replicaSetId := freshOID\<rparr>))
           else if replicaSetId c = 0 then Inr (c\<lparr>replicaSetId := defaultReplicaSetId\<rparr>) else Inr c) (\<lambda>c1.
     Inr ((initializeConnectionString (addInternalWriteConcernModes (calculateMajorities c1)))\<lparr>isInitialized := True\<rparr>))))"

definition initializeForInitiate :: "bool \<Rightarrow> nat \<Rightarrow> ConfigDoc \<Rightarrow> ReplSetConfig StatusWith" where
  "initializeForInitiate isConfigServer freshOID cfg =
     ReplSetConfig_initialize isConfigServer freshOID cfg True (Some kInitialTerm) 0"

subsection \<open>Validation\<close>

definition kMaxMembers :: nat where
  "kMaxMembers = 50"

definition kMaxVotingMembers :: nat where
  "kMaxVotingMembers = 7"

definition int32_max :: int where
  "int32_max = 2147483647"

text \<open>The counters of the loop of \<open>validate\<close> over the members. \<open>horizonHosts\<close> has each host once per count.\<close>

record ValidationCounts =
  localhostCount :: nat
  voterCount :: nat
  arbiterCount :: nat
  electableCount :: nat
  nonUniversalHorizons :: "string list"
  horizonHosts :: "HostAndPort list"

definition zeroCounts :: ValidationCounts where
  "zeroCounts = \<lparr>localhostCount = 0, voterCount = 0, arbiterCount = 0, electableCount = 0,
     nonUniversalHorizons = [], horizonHosts = []\<rparr>"

definition symmetricDifference :: "string list \<Rightarrow> string list \<Rightarrow> string list" where
  "symmetricDifference xs ys = filter (\<lambda>x. x \<notin> set ys) xs @ filter (\<lambda>y. y \<notin> set xs) ys"

definition sameIdOrHost :: "MemberConfig \<Rightarrow> MemberConfig \<Rightarrow> bool" where
  "sameIdOrHost a b \<longleftrightarrow> mc_id a = mc_id b \<or> getHostAndPort a = getHostAndPort b"

text \<open>The horizon names of a member as a set; the source compares them as sorted vectors.\<close>

definition horizonNames :: "MemberConfig \<Rightarrow> string list" where
  "horizonNames m = map fst (horizonMappings m)"

definition validateMember ::
    "MemberConfig list \<Rightarrow> nat \<Rightarrow> MemberConfig \<Rightarrow> ValidationCounts \<Rightarrow> ValidationCounts StatusWith" where
  "validateMember ms i m k =
     ifOK (MemberConfig_validate m) (\<lambda>_.
       let expected = horizonNames (hd ms); seen = horizonNames m;
           k1 = (if set expected \<noteq> set seen
                 then k\<lparr>nonUniversalHorizons := nonUniversalHorizons k @ symmetricDifference expected seen\<rparr>
                 else k\<lparr>horizonHosts := horizonHosts k @ map snd (horizonMappings m)\<rparr>);
           k2 = (if isLocalHost (getHostAndPort m) then k1\<lparr>localhostCount := localhostCount k1 + 1\<rparr> else k1);
           k3 = (if isVoter m then k2\<lparr>voterCount := voterCount k2 + 1\<rparr> else k2);
           k4 = (if arbiterOnly m then k3\<lparr>arbiterCount := arbiterCount k3 + 1\<rparr>
                 else if d_less (Fin 0) (priority m) then k3\<lparr>electableCount := electableCount k3 + 1\<rparr> else k3)
       in failIf (list_ex (\<lambda>j. j \<noteq> i \<and> sameIdOrHost m (ms ! j)) [0 ..< length ms]) BadValue (Inr k4))"

fun validateMembers ::
    "MemberConfig list \<Rightarrow> nat list \<Rightarrow> ValidationCounts \<Rightarrow> ValidationCounts StatusWith" where
  "validateMembers ms [] k = Inr k"
| "validateMembers ms (i # is) k = ifOK (validateMember ms i (ms ! i) k) (\<lambda>k1. validateMembers ms is k1)"

definition ReplSetConfig_validate :: "bool \<Rightarrow> bool \<Rightarrow> ReplSetConfig \<Rightarrow> unit StatusWith" where
  "ReplSetConfig_validate isConfigServer skipShardingConfigurationChecks c =
     failIf (version c \<le> 0 \<or> version c > int32_max) BadValue
     (failIf (config_term c < -1 \<or> config_term c > int32_max) BadValue
     (failIf (replSetName c = '''') BadValue
     (failIf (heartbeatInterval c < 0) BadValue
     (failIf (length (members c) > kMaxMembers \<or> members c = []) BadValue
     (ifOK (validateMembers (members c) [0 ..< length (members c)] zeroCounts) (\<lambda>k.
      failIf (nonUniversalHorizons k \<noteq> []) BadValue
     (failIf (\<not> distinct (horizonHosts k)) BadValue
     (failIf (localhostCount k \<noteq> 0 \<and> localhostCount k \<noteq> length (members c)) BadValue
     (failIf (voterCount k > kMaxVotingMembers \<or> voterCount k = 0) BadValue
     (failIf (electableCount k = 0) BadValue
     (failIf (if wMode (defaultWriteConcern c) = '''' then wNumNodes (defaultWriteConcern c) = 0
              else wMode (defaultWriteConcern c) \<noteq> ''majority'' \<and>
                   isl (findCustomWriteMode c (wMode (defaultWriteConcern c)))) BadValue
     (failIf (protocolVersion c \<noteq> 1) BadValue
     (failIf (if configServer c
              then arbiterCount k > 0 \<or>
                   list_ex (\<lambda>m. \<not> buildIndexes m \<or> slaveDelay m \<noteq> 0) (members c) \<or>
                   (\<not> isConfigServer \<and> \<not> skipShardingConfigurationChecks) \<or>
                   \<not> writeConcernMajorityJournalDefault c
              else isConfigServer) BadValue
     (failIf (connectionString c = None) BadValue
     (Inr ())))))))))))))))"

end
