(* ===== verification/ReplConfigChecks.thy ===== *)
theory ReplConfigChecks
  imports ReplConfig
begin

text \<open>
  \<^verbatim>\<open>db/repl/repl_set_config_checks.cpp\<close>: what a new configuration is checked for when a replica set is
  initiated, reconfigured, started or learns of a configuration by heartbeat. \<open>isSelf\<close> stands for
  \<open>ReplicationCoordinatorExternalState::isSelf\<close>, which asks the network. The process-wide settings the
  checks read are the record \<open>ServerParams\<close>.
\<close>

record ServerParams =
  roleConfigServer :: bool
  skipShardingChecks :: bool
  fullyUpgradedTo44 :: bool
  enableSafeReplicaSetReconfig :: bool

definition validateConfig :: "ServerParams \<Rightarrow> ReplSetConfig \<Rightarrow> unit StatusWith" where
  "validateConfig sp c = ReplSetConfig_validate (roleConfigServer sp) (skipShardingChecks sp) c"

definition checkElectable :: "ReplSetConfig \<Rightarrow> nat \<Rightarrow> unit StatusWith" where
  "checkElectable c i = failIf (\<not> isElectable (members c ! i)) NodeNotElectable (Inr ())"

definition validateArbiterPriorities :: "ReplSetConfig \<Rightarrow> unit StatusWith" where
  "validateArbiterPriorities c =
     failIf (list_ex (\<lambda>m. arbiterOnly m \<and> d_ne (priority m) (Fin 0)) (members c)) InvalidReplicaSetConfig (Inr ())"

text \<open>The id sets are \<open>std::set\<close>; the size of their symmetric difference decides.\<close>

definition votingIds :: "ReplSetConfig \<Rightarrow> nat set" where
  "votingIds c = set (map mc_id (votingMembers c))"

definition validateSingleNodeChange :: "ReplSetConfig \<Rightarrow> ReplSetConfig \<Rightarrow> unit StatusWith" where
  "validateSingleNodeChange oldConfig newConfig =
     (let symmDiffSize = card (votingIds oldConfig - votingIds newConfig) + card (votingIds newConfig - votingIds oldConfig)
      in failIf (symmDiffSize > 1) InvalidReplicaSetConfig (Inr ()))"

definition kMaxUserMemberId :: nat where
  "kMaxUserMemberId = 255"

definition validateMemberId :: "ReplSetConfig \<Rightarrow> ReplSetConfig \<Rightarrow> unit StatusWith" where
  "validateMemberId newConfig oldConfig =
     failIf (list_ex (\<lambda>m. findMemberIndexByConfigId oldConfig (mc_id m) = -1 \<and> mc_id m > kMaxUserMemberId) (members newConfig))
       BadValue (Inr ())"

text \<open>One step of the two nested loops over the members of both configurations.\<close>

definition memberCompatible :: "MemberConfig \<Rightarrow> MemberConfig \<Rightarrow> bool" where
  "memberCompatible mNew mOld \<longleftrightarrow>
     (let idsEqual = (mc_id mOld = mc_id mNew); hostsEqual = (getHostAndPort mOld = getHostAndPort mNew)
      in if \<not> idsEqual \<and> \<not> hostsEqual then True
         else if hostsEqual \<and> \<not> idsEqual then False
         else buildIndexes mOld = buildIndexes mNew \<and> arbiterOnly mOld = arbiterOnly mNew)"

text \<open>The source also asserts that both configurations are initialized, as those of its callers are.\<close>

definition validateOldAndNewConfigsCompatible :: "ReplSetConfig \<Rightarrow> ReplSetConfig \<Rightarrow> unit StatusWith" where
  "validateOldAndNewConfigsCompatible oldConfig newConfig =
     failIf (cvt_ge (getConfigVersionAndTerm oldConfig) (getConfigVersionAndTerm newConfig)) NewReplicaSetConfigurationIncompatible
     (failIf (replSetName oldConfig \<noteq> replSetName newConfig) NewReplicaSetConfigurationIncompatible
     (failIf (replicaSetId oldConfig \<noteq> replicaSetId newConfig) NewReplicaSetConfigurationIncompatible
     (failIf (configServer oldConfig \<and> \<not> configServer newConfig) NewReplicaSetConfigurationIncompatible
     (failIf (\<not> list_all (\<lambda>mNew. list_all (memberCompatible mNew) (members oldConfig)) (members newConfig))
        NewReplicaSetConfigurationIncompatible
     (Inr ())))))"

definition findSelfInConfig :: "(HostAndPort \<Rightarrow> bool) \<Rightarrow> ReplSetConfig \<Rightarrow> nat StatusWith" where
  "findSelfInConfig isSelf c =
     (case filter (\<lambda>i. isSelf (getHostAndPort (members c ! i))) [0 ..< length (members c)] of
        [] \<Rightarrow> Inl NodeNotFound
      | [i] \<Rightarrow> Inr i
      | _ \<Rightarrow> Inl InvalidReplicaSetConfig)"

definition findSelfInConfigIfElectable :: "(HostAndPort \<Rightarrow> bool) \<Rightarrow> ReplSetConfig \<Rightarrow> nat StatusWith" where
  "findSelfInConfigIfElectable isSelf c =
     ifOK (findSelfInConfig isSelf c) (\<lambda>i. ifOK (checkElectable c i) (\<lambda>_. Inr i))"

definition validateConfigForStartUp :: "ServerParams \<Rightarrow> (HostAndPort \<Rightarrow> bool) \<Rightarrow> ReplSetConfig \<Rightarrow> nat StatusWith" where
  "validateConfigForStartUp sp isSelf c = ifOK (validateConfig sp c) (\<lambda>_. findSelfInConfig isSelf c)"

definition validateConfigForInitiate :: "ServerParams \<Rightarrow> (HostAndPort \<Rightarrow> bool) \<Rightarrow> ReplSetConfig \<Rightarrow> nat StatusWith" where
  "validateConfigForInitiate sp isSelf c =
     ifOK (validateConfig sp c) (\<lambda>_.
     ifOK (validateMemberId c emptyReplSetConfig) (\<lambda>_.
     ifOK (checkIfWriteConcernCanBeSatisfied (defaultWriteConcern c) c) (\<lambda>_.
     ifOK (validateArbiterPriorities c) (\<lambda>_.
     failIf (version c \<noteq> 1) NewReplicaSetConfigurationIncompatible
     (failIf (config_term c \<noteq> kInitialTerm) NewReplicaSetConfigurationIncompatible
     (findSelfInConfigIfElectable isSelf c))))))"

definition validateConfigForReconfig :: "ServerParams \<Rightarrow> ReplSetConfig \<Rightarrow> ReplSetConfig \<Rightarrow> bool \<Rightarrow> unit StatusWith" where
  "validateConfigForReconfig sp oldConfig newConfig force =
     ifOK (validateConfig sp newConfig) (\<lambda>_.
     ifOK (checkIfWriteConcernCanBeSatisfied (defaultWriteConcern newConfig) newConfig) (\<lambda>_.
     ifOK (validateOldAndNewConfigsCompatible oldConfig newConfig) (\<lambda>_.
     ifOK (validateMemberId newConfig oldConfig) (\<lambda>_.
     ifOK (if \<not> force \<and> fullyUpgradedTo44 sp \<and> enableSafeReplicaSetReconfig sp
           then validateSingleNodeChange oldConfig newConfig else Inr ()) (\<lambda>_.
     validateArbiterPriorities newConfig)))))"

definition validateConfigForHeartbeatReconfig :: "ServerParams \<Rightarrow> (HostAndPort \<Rightarrow> bool) \<Rightarrow> ReplSetConfig \<Rightarrow> nat StatusWith" where
  "validateConfigForHeartbeatReconfig sp isSelf c = ifOK (validateConfig sp c) (\<lambda>_. findSelfInConfig isSelf c)"

subsection \<open>What a validated configuration is\<close>

definition config_ok :: "ReplSetConfig \<Rightarrow> bool" where
  "config_ok c \<longleftrightarrow>
     0 < version c \<and> version c \<le> int32_max \<and> -1 \<le> config_term c \<and> config_term c \<le> int32_max \<and>
     replSetName c \<noteq> '''' \<and> 0 < length (members c) \<and> length (members c) \<le> 50 \<and>
     distinct (map mc_id (members c)) \<and> distinct (map getHostAndPort (members c)) \<and>
     (\<forall>m \<in> set (members c). MemberConfig_validate m = Inr ()) \<and>
     0 < countp isVoter (members c) \<and> countp isVoter (members c) \<le> 7 \<and>
     (\<exists>m \<in> set (members c). isElectable m) \<and>
     (list_all (isLocalHost \<circ> getHostAndPort) (members c) \<or> \<not> list_ex (isLocalHost \<circ> getHostAndPort) (members c)) \<and>
     protocolVersion c = 1"

definition countsOf :: "MemberConfig list \<Rightarrow> ValidationCounts \<Rightarrow> ValidationCounts \<Rightarrow> bool" where
  "countsOf ms k k' \<longleftrightarrow>
     localhostCount k' = localhostCount k + countp (isLocalHost \<circ> getHostAndPort) ms \<and>
     voterCount k' = voterCount k + countp isVoter ms \<and>
     arbiterCount k' = arbiterCount k + countp arbiterOnly ms \<and>
     electableCount k' = electableCount k + countp isElectable ms"

lemma validateMember_counts:
  assumes "validateMember ms i m k = Inr k'"
  shows "MemberConfig_validate m = Inr () \<and> (\<forall>j < length ms. j \<noteq> i \<longrightarrow> \<not> sameIdOrHost m (ms ! j)) \<and> countsOf [m] k k'"
  using assms
  by (auto simp: validateMember_def Let_def countsOf_def isElectable_def list_ex_iff split: if_splits)

lemma validateMembers_counts:
  "validateMembers ms is k = Inr k' \<Longrightarrow>
     (\<forall>i \<in> set is. MemberConfig_validate (ms ! i) = Inr () \<and> (\<forall>j < length ms. j \<noteq> i \<longrightarrow> \<not> sameIdOrHost (ms ! i) (ms ! j))) \<and>
     countsOf (map ((!) ms) is) k k'"
proof (induction "is" arbitrary: k)
  case (Cons i "is")
  obtain k1 where 1: "validateMember ms i (ms ! i) k = Inr k1" "validateMembers ms is k1 = Inr k'"
    using Cons.prems by auto
  show ?case using validateMember_counts [OF 1(1)] Cons.IH [OF 1(2)] by (auto simp: countsOf_def)
qed (simp add: countsOf_def)

lemma distinct_map_nth:
  assumes "\<And>i j. i < length xs \<Longrightarrow> j < length xs \<Longrightarrow> i \<noteq> j \<Longrightarrow> f (xs ! i) \<noteq> f (xs ! j)"
  shows "distinct (map f xs)"
  using assms by (auto simp: distinct_conv_nth)

lemma countp_all: "countp P xs = length xs \<longleftrightarrow> list_all P xs"
  unfolding countp_def list_all_iff by (metis filter_True length_filter_less less_irrefl)

lemma validate_config_ok:
  assumes "ReplSetConfig_validate isCfg skip c = Inr ()"
  shows "config_ok c"
proof -
  let ?ms = "members c"
  obtain k where k: "validateMembers ?ms [0 ..< length ?ms] zeroCounts = Inr k"
    "localhostCount k = 0 \<or> localhostCount k = length ?ms" "voterCount k \<le> 7" "0 < voterCount k" "0 < electableCount k"
    using assms by (auto simp: ReplSetConfig_validate_def kMaxVotingMembers_def)
  note v = validateMembers_counts [OF k(1)]
  have c: "countsOf ?ms zeroCounts k" using v by (simp add: map_nth)
  have "distinct (map mc_id ?ms)" "distinct (map getHostAndPort ?ms)"
    by (rule distinct_map_nth, use v in \<open>auto simp: sameIdOrHost_def\<close>)+
  moreover have "\<forall>m \<in> set ?ms. MemberConfig_validate m = Inr ()" using v by (auto simp: in_set_conv_nth)
  moreover have "\<exists>m \<in> set ?ms. isElectable m" using k(5) c by (simp add: countsOf_def zeroCounts_def countp_pos_iff)
  moreover have "list_all (isLocalHost \<circ> getHostAndPort) ?ms \<or> \<not> list_ex (isLocalHost \<circ> getHostAndPort) ?ms"
  proof (rule disjCI)
    assume "\<not> \<not> list_ex (isLocalHost \<circ> getHostAndPort) ?ms"
    then have "0 < countp (isLocalHost \<circ> getHostAndPort) ?ms" by (auto simp: countp_pos_iff list_ex_iff)
    then have "countp (isLocalHost \<circ> getHostAndPort) ?ms = length ?ms"
      using k(2) c by (auto simp: countsOf_def zeroCounts_def)
    then show "list_all (isLocalHost \<circ> getHostAndPort) ?ms" by (simp add: countp_all)
  qed
  ultimately show ?thesis
    using assms k(3,4) c
    by (auto simp: config_ok_def ReplSetConfig_validate_def kMaxMembers_def countsOf_def zeroCounts_def)
qed

end
