(* ===== verification/ReplQuorums.thy ===== *)
theory ReplQuorums
  imports ReplConfigChecks
begin

text \<open>
  Quorums of replica set configurations: what \<open>_calculateMajorities\<close> and the checks of a reconfiguration
  give for elections and for majority writes. The common argument, that majorities of the same or of adjacent
  voter sets overlap, is made once in the locale \<open>majority_quorums\<close>.
\<close>

subsection \<open>Majorities overlap\<close>

locale majority_quorums =
  fixes voters :: "'c \<Rightarrow> 'n set"
    and quorum :: "'c \<Rightarrow> 'n set \<Rightarrow> bool"
  assumes finite_voters: "finite (voters c)"
    and quorum_voters: "quorum c Q \<Longrightarrow> Q \<subseteq> voters c"
    and quorum_majority: "quorum c Q \<Longrightarrow> card (voters c) < 2 * card Q"
begin

lemma quorum_finite: "quorum c Q \<Longrightarrow> finite Q"
  using quorum_voters finite_voters finite_subset by blast

text \<open>The two quorums fit into the union of the voter sets, which has one more element than one of them.\<close>

lemma quorums_overlap_adjacent:
  assumes "quorum c Q" "quorum d R" and one: "card (voters c - voters d) + card (voters d - voters c) \<le> 1"
  shows "Q \<inter> R \<noteq> {}"
proof
  assume "Q \<inter> R = {}"
  let ?U = "voters c \<union> voters d"
  have "card Q + card R = card (Q \<union> R)"
    using \<open>Q \<inter> R = {}\<close> quorum_finite assms(1,2) by (simp add: card_Un_disjoint)
  also have "\<dots> \<le> card ?U"
    using quorum_voters assms(1,2) finite_voters by (intro card_mono) blast+
  finally have le: "card Q + card R \<le> card ?U" .
  have "?U = voters d \<union> (voters c - voters d)" "?U = voters c \<union> (voters d - voters c)" by blast+
  then have u: "card ?U = card (voters d) + card (voters c - voters d)" "card ?U = card (voters c) + card (voters d - voters c)"
    using finite_voters by (metis Diff_disjoint card_Un_disjoint finite_Diff)+
  show False using le u one quorum_majority [OF assms(1)] quorum_majority [OF assms(2)] by linarith
qed

lemma quorums_overlap: "quorum c Q \<Longrightarrow> quorum c R \<Longrightarrow> Q \<inter> R \<noteq> {}"
  using quorums_overlap_adjacent [of c Q c R] by simp

end

subsection \<open>Election quorums\<close>

text \<open>The votes that make a candidate primary: at least \<open>getMajorityVoteCount\<close> different voters.\<close>

definition electionQuorum :: "ReplSetConfig \<Rightarrow> nat set \<Rightarrow> bool" where
  "electionQuorum c Q \<longleftrightarrow> Q \<subseteq> votingIds c \<and> majorityVoteCount (calculateMajorities c) \<le> int (card Q)"

lemma votingIds_eq: "votingIds c = mc_id ` {m \<in> set (members c). isVoter m}"
  by (auto simp: votingIds_def votingMembers_def getNumVotes_def split: if_splits)

lemma card_votingIds: "card (votingIds c) \<le> countp isVoter (members c)"
proof -
  have "votingIds c = set (map mc_id (filter isVoter (members c)))" by (auto simp: votingIds_eq)
  then show ?thesis using card_length [of "map mc_id (filter isVoter (members c))"] by (simp add: countp_def)
qed

interpretation eq: majority_quorums votingIds electionQuorum
proof unfold_locales
  show "finite (votingIds c)" for c by (simp add: votingIds_def)
  show "electionQuorum c Q \<Longrightarrow> Q \<subseteq> votingIds c" for c Q by (simp add: electionQuorum_def)
  show "electionQuorum c Q \<Longrightarrow> card (votingIds c) < 2 * card Q" for c Q
    using card_votingIds [of c] by (auto simp: electionQuorum_def calculateMajorities_def Let_def)
qed

text \<open>Sample configurations: members with the given identifiers, all data-bearing voters of priority 1.\<close>

definition sampleMember :: "nat \<Rightarrow> MemberDoc" where
  "sampleMember i =
     \<lparr>md_unknownField = False, md_id = Present (int i), md_host = Present \<lparr>hostname = CHR ''h'' # showNat i, port = 27017\<rparr>,
      md_votes = Missing, md_arbiterOnly = Missing, md_priority = Missing, md_slaveDelay = Missing, md_hidden = Missing,
      md_buildIndexes = Missing, md_tags = Missing, md_horizons = Missing\<rparr>"

definition sampleDoc :: "int \<Rightarrow> nat list \<Rightarrow> ConfigDoc" where
  "sampleDoc v ids =
     \<lparr>cd_repaired = False, cd_unknownField = False, cd_id = Present ''rs0'', cd_version = Present v, cd_term = Present 1,
      cd_members = Present (map (\<lambda>i. Present (sampleMember i)) ids), cd_configsvr = Missing, cd_protocolVersion = Missing,
      cd_writeConcernMajorityJournalDefault = Missing, cd_settings = Missing\<rparr>"

definition sampleConfig :: "int \<Rightarrow> nat list \<Rightarrow> ReplSetConfig" where
  "sampleConfig v ids =
     (case ReplSetConfig_initialize False 1 (sampleDoc v ids) False None 9 of Inr c \<Rightarrow> c | Inl e \<Rightarrow> emptyReplSetConfig)"

definition sampleParams :: ServerParams where
  "sampleParams = \<lparr>roleConfigServer = False, skipShardingChecks = False, fullyUpgradedTo44 = True, enableSafeReplicaSetReconfig = True\<rparr>"

text \<open>(C16) A safe reconfiguration keeps quorums overlapping: whenever a non-forced reconfiguration passes the
  checks (with safe reconfiguration enabled), every election quorum of the old configuration shares a voter with
  every election quorum of the new one, and the new version and term are greater than the old.\<close>

theorem safe_reconfig_quorums_overlap:
  assumes "validateConfigForReconfig sp old new False = Inr ()" "fullyUpgradedTo44 sp" "enableSafeReplicaSetReconfig sp"
  shows "(\<forall>Q R. electionQuorum old Q \<and> electionQuorum new R \<longrightarrow> Q \<inter> R \<noteq> {}) \<and>
     cvt_less (getConfigVersionAndTerm old) (getConfigVersionAndTerm new) \<and> config_ok new"
proof -
  have v: "ReplSetConfig_validate (roleConfigServer sp) (skipShardingChecks sp) new = Inr ()"
    "validateOldAndNewConfigsCompatible old new = Inr ()" "validateSingleNodeChange old new = Inr ()"
    using assms by (auto simp: validateConfigForReconfig_def validateConfig_def)
  have "card (votingIds old - votingIds new) + card (votingIds new - votingIds old) \<le> 1"
    using v(3) by (auto simp: validateSingleNodeChange_def Let_def)
  then have "Q \<inter> R \<noteq> {}" if "electionQuorum old Q" "electionQuorum new R" for Q R
    using eq.quorums_overlap_adjacent that by blast
  moreover have "cvt_less (getConfigVersionAndTerm old) (getConfigVersionAndTerm new)"
    using v(2) by (auto simp: validateOldAndNewConfigsCompatible_def cvt_ge_def)
  ultimately show ?thesis using validate_config_ok [OF v(1)] by blast
qed

theorem safe_reconfig_quorums_overlap_witness:
  "{1, 2} \<inter> {2, 3, 4} \<noteq> ({} :: nat set) \<and>
   cvt_less (getConfigVersionAndTerm (sampleConfig 1 [1, 2, 3])) (getConfigVersionAndTerm (sampleConfig 2 [1, 2, 3, 4])) \<and>
   config_ok (sampleConfig 2 [1, 2, 3, 4])"
proof -
  have "validateConfigForReconfig sampleParams (sampleConfig 1 [1, 2, 3]) (sampleConfig 2 [1, 2, 3, 4]) False = Inr ()"
    by code_simp
  moreover have "electionQuorum (sampleConfig 1 [1, 2, 3]) {1, 2}" "electionQuorum (sampleConfig 2 [1, 2, 3, 4]) {2, 3, 4}"
    by code_simp+
  moreover have "fullyUpgradedTo44 sampleParams" "enableSafeReplicaSetReconfig sampleParams"
    by (simp_all add: sampleParams_def)
  ultimately show ?thesis
    using safe_reconfig_quorums_overlap [of sampleParams "sampleConfig 1 [1, 2, 3]" "sampleConfig 2 [1, 2, 3, 4]"] by blast
qed

subsection \<open>Majority writes and elections\<close>

text \<open>The nodes that acknowledge a write with write concern majority.\<close>

definition writableVoters :: "ReplSetConfig \<Rightarrow> nat set" where
  "writableVoters c = mc_id ` {m \<in> set (members c). isVoter m \<and> \<not> arbiterOnly m}"

definition writeQuorum :: "ReplSetConfig \<Rightarrow> nat set \<Rightarrow> bool" where
  "writeQuorum c W \<longleftrightarrow> W \<subseteq> writableVoters c \<and> writeMajority (calculateMajorities c) \<le> int (card W)"

lemma countp_diff: "(\<forall>x \<in> set xs. Q x \<longrightarrow> P x) \<Longrightarrow> countp P xs = countp Q xs + countp (\<lambda>x. P x \<and> \<not> Q x) xs"
  by (induction xs) auto

lemma card_writableVoters:
  assumes "distinct (map mc_id (members c))"
  shows "card (writableVoters c) = countp (\<lambda>m. isVoter m \<and> \<not> arbiterOnly m) (members c)"
proof -
  let ?f = "filter (\<lambda>m. isVoter m \<and> \<not> arbiterOnly m) (members c)"
  have "writableVoters c = set (map mc_id ?f)" by (auto simp: writableVoters_def)
  moreover have "distinct (map mc_id ?f)" using assms by (rule distinct_map_filter)
  ultimately show ?thesis by (simp add: distinct_card countp_def del: set_map)
qed

lemma validated_arbiter_votes: "MemberConfig_validate m = Inr () \<Longrightarrow> arbiterOnly m \<Longrightarrow> isVoter m"
  by (auto simp: MemberConfig_validate_def)

lemma voters_split:
  assumes "config_ok c"
  shows "countp isVoter (members c) = countp arbiterOnly (members c) + card (writableVoters c)"
proof -
  have "distinct (map mc_id (members c))" "\<forall>m \<in> set (members c). arbiterOnly m \<longrightarrow> isVoter m"
    using assms validated_arbiter_votes by (auto simp: config_ok_def)
  then show ?thesis using countp_diff [of "members c" arbiterOnly isVoter] by (simp add: card_writableVoters)
qed

text \<open>(C17) In a validated configuration every majority-acknowledged write is known to some voter of every election
  that a data-bearing voter takes part in (as the candidate does): the two quorums share a voter, also when most
  voters are arbiters and the write majority is reduced to all data-bearing voters.\<close>

theorem write_majority_meets_election:
  assumes "config_ok c" "writeQuorum c W" "electionQuorum c Q" "x \<in> Q" "x \<in> writableVoters c"
  shows "W \<inter> Q \<noteq> {}"
proof -
  let ?ms = "members c"
  have sub: "writableVoters c \<subseteq> votingIds c" by (auto simp: writableVoters_def votingIds_eq)
  have W: "W \<subseteq> writableVoters c" "finite (writableVoters c)"
    using assms(2) by (auto simp: writeQuorum_def writableVoters_def)
  have "countp isVoter ?ms = countp arbiterOnly ?ms + card (writableVoters c)" by (rule voters_split [OF assms(1)])
  then have w: "min (majorityVoteCount (calculateMajorities c)) (int (card (writableVoters c))) \<le> int (card W)"
    using assms(2) by (simp add: writeQuorum_def calculateMajorities_def Let_def)
  show ?thesis
  proof (cases "majorityVoteCount (calculateMajorities c) \<le> int (card W)")
    case True
    then have "electionQuorum c W" using W(1) sub by (auto simp: electionQuorum_def)
    then show ?thesis using eq.quorums_overlap assms(3) by blast
  next
    case False
    then have "card (writableVoters c) \<le> card W" using w by linarith
    then have "W = writableVoters c" using W by (metis card_seteq)
    then show ?thesis using assms(4,5) by blast
  qed
qed

theorem write_majority_meets_election_witness:
  "config_ok (sampleConfig 1 [1, 2, 3]) \<and> writeQuorum (sampleConfig 1 [1, 2, 3]) {1, 2} \<and>
   electionQuorum (sampleConfig 1 [1, 2, 3]) {2, 3} \<and> 3 \<in> writableVoters (sampleConfig 1 [1, 2, 3]) \<and> {1, 2 :: nat} \<inter> {2, 3} \<noteq> {}"
proof -
  have "config_ok (sampleConfig 1 [1, 2, 3])" "writeQuorum (sampleConfig 1 [1, 2, 3]) {1, 2}"
    "electionQuorum (sampleConfig 1 [1, 2, 3]) {2, 3}" "3 \<in> writableVoters (sampleConfig 1 [1, 2, 3])"
    by code_simp+
  then show ?thesis using write_majority_meets_election [of _ "{1, 2}" "{2, 3}" 3] by blast
qed

subsection \<open>Bounds of a parsed and validated configuration\<close>

lemma parseModes_fields:
  "parseModes ms c = Inr c' \<Longrightarrow> members c' = members c \<and> electionTimeoutPeriod c' = electionTimeoutPeriod c"
  by (induction ms c rule: parseModes.induct) (fastforce split: option.splits field.splits sum.splits if_splits)+

lemma extractWithDefaultIf_ok: "extractWithDefaultIf d P f = Inr n \<Longrightarrow> P d \<Longrightarrow> P n"
  by (auto simp: extractWithDefaultIf_def split: field.splits if_splits)

lemma parseSettings_fields:
  assumes "parseSettingsSubdocument s c = Inr c'"
  shows "members c' = members c \<and> 0 < electionTimeoutPeriod c'"
proof -
  obtain el ms c0 c1 where "extractWithDefaultIf 10000 (\<lambda>n. n > 0) (sd_electionTimeoutMillis s) = Inr el" "parseModes ms c0 = Inr c1"
    "members c0 = members c" "electionTimeoutPeriod c0 = el" "members c' = members c1" "electionTimeoutPeriod c' = electionTimeoutPeriod c1"
    using assms by (cases "sd_replicaSetId s") (auto simp: parseSettingsSubdocument_def Let_def)
  then show ?thesis using parseModes_fields extractWithDefaultIf_ok [of 10000 "\<lambda>n. n > 0"] by fastforce
qed

lemma addMode_fields [simp]:
  "members (addMode n k i c) = members c" "electionTimeoutPeriod (addMode n k i c) = electionTimeoutPeriod c"
  "majorityVoteCount (addMode n k i c) = majorityVoteCount c" "totalVotingMembers (addMode n k i c) = totalVotingMembers c"
  "writableVotingMembersCount (addMode n k i c) = writableVotingMembersCount c" "writeMajority (addMode n k i c) = writeMajority c"
  by (simp_all add: addMode_def split: option.split)

lemma connectionString_fields [simp]:
  "members (initializeConnectionString c) = members c" "electionTimeoutPeriod (initializeConnectionString c) = electionTimeoutPeriod c"
  "majorityVoteCount (initializeConnectionString c) = majorityVoteCount c"
  "totalVotingMembers (initializeConnectionString c) = totalVotingMembers c"
  "writableVotingMembersCount (initializeConnectionString c) = writableVotingMembersCount c"
  "writeMajority (initializeConnectionString c) = writeMajority c"
  by (simp_all add: initializeConnectionString_def Let_def)

lemma initialize_majorities:
  assumes "ReplSetConfig_initialize isCfg oid doc ini t dflt = Inr c"
  shows "totalVotingMembers c = int (countp isVoter (members c)) \<and> majorityVoteCount c = totalVotingMembers c div 2 + 1 \<and>
     writableVotingMembersCount c = totalVotingMembers c - int (countp arbiterOnly (members c)) \<and>
     writeMajority c = min (majorityVoteCount c) (writableVotingMembersCount c) \<and> 0 < electionTimeoutPeriod c"
proof -
  let ?derive = "\<lambda>c. (initializeConnectionString (addInternalWriteConcernModes (calculateMajorities c)))\<lparr>isInitialized := True\<rparr>"
  obtain c0 s c1 where s: "parseSettingsSubdocument s c0 = Inr c1" and c: "(\<exists>r. c = ?derive (c1\<lparr>replicaSetId := r\<rparr>)) \<or> c = ?derive c1"
    using assms by (auto simp: ReplSetConfig_initialize_def split: if_splits)
  then show ?thesis using parseSettings_fields [OF s] c by (auto simp: addInternalWriteConcernModes_def calculateMajorities_def Let_def)
qed

lemma validated_electable_votes: "MemberConfig_validate m = Inr () \<Longrightarrow> isElectable m \<Longrightarrow> isVoter m \<and> \<not> arbiterOnly m"
  by (cases "priority m") (auto simp: MemberConfig_validate_def isElectable_def isVoter_def d_less_def d_ne_def)

lemma d_less_irrefl [simp]: "\<not> d_less a a"
  by (cases a) (simp_all add: d_less_def)

lemma priorityRank_less: "m \<in> set (members c) \<Longrightarrow> calculatePriorityRank c (priority m) < length (members c)"
  unfolding calculatePriorityRank_def countp_def by (rule length_filter_less [of m]) simp_all

text \<open>The numbers derived from a configuration that parses and validates are within bounds: there are at most seven
  voters, the election majority is the smallest that exceeds half of them and is not more than all of them, the write
  majority is at least one and never more than the voters that hold data, so that majority writes can be acknowledged, and
  the delay of a priority takeover is between one and as many election timeouts as there are members.\<close>

theorem derived_counts_bounded:
  assumes "ReplSetConfig_initialize isCfg oid doc ini t dflt = Inr c" "ReplSetConfig_validate isCfg' skip c = Inr ()"
  shows "1 \<le> writeMajority c \<and> writeMajority c \<le> writableVotingMembersCount c \<and> writeMajority c \<le> majorityVoteCount c \<and>
     majorityVoteCount c \<le> totalVotingMembers c \<and> totalVotingMembers c \<le> 7 \<and>
     totalVotingMembers c < 2 * majorityVoteCount c \<and> 2 * (majorityVoteCount c - 1) \<le> totalVotingMembers c \<and>
     writableVotingMembersCount c = int (card (writableVoters c)) \<and>
     (\<forall>i < length (members c). \<exists>d. getPriorityTakeoverDelay c i = Some d \<and>
        electionTimeoutPeriod c \<le> d \<and> d \<le> int (length (members c)) * electionTimeoutPeriod c)"
proof -
  let ?ms = "members c"
  note n = initialize_majorities [OF assms(1)]
  have ok: "config_ok c" by (rule validate_config_ok [OF assms(2)])
  then have d: "distinct (map mc_id ?ms)" and val: "\<forall>m \<in> set ?ms. MemberConfig_validate m = Inr ()"
    and voters: "0 < countp isVoter ?ms" "countp isVoter ?ms \<le> 7" by (auto simp: config_ok_def)
  have split: "countp isVoter ?ms = countp arbiterOnly ?ms + card (writableVoters c)"
    by (rule voters_split [OF ok])
  obtain e where "e \<in> set ?ms" "isElectable e" using ok by (auto simp: config_ok_def)
  then have "mc_id e \<in> writableVoters c" using validated_electable_votes val by (auto simp: writableVoters_def)
  then have "0 < card (writableVoters c)" by (auto simp: card_gt_0_iff writableVoters_def)
  moreover have "\<exists>d. getPriorityTakeoverDelay c i = Some d \<and> electionTimeoutPeriod c \<le> d \<and> d \<le> int (length ?ms) * electionTimeoutPeriod c"
    if "i < length ?ms" for i
  proof -
    let ?r = "int (calculatePriorityRank c (priority (?ms ! i)))"
    have "?r + 1 \<le> int (length ?ms)" using priorityRank_less [of "?ms ! i" c] that by simp
    then show ?thesis using that n mult_right_mono [of "?r + 1" "int (length ?ms)" "electionTimeoutPeriod c"]
        mult_right_mono [of 1 "?r + 1" "electionTimeoutPeriod c"]
      by (simp add: getPriorityTakeoverDelay_def getMemberAt_def)
  qed
  ultimately show ?thesis using n voters split by auto
qed

theorem derived_counts_bounded_witness:
  "1 \<le> writeMajority (sampleConfig 1 [1, 2, 3]) \<and> totalVotingMembers (sampleConfig 1 [1, 2, 3]) < 2 * majorityVoteCount (sampleConfig 1 [1, 2, 3])"
proof -
  have "isl (ReplSetConfig_initialize False 1 (sampleDoc 1 [1, 2, 3]) False None 9) = False" by code_simp
  then have "ReplSetConfig_initialize False 1 (sampleDoc 1 [1, 2, 3]) False None 9 = Inr (sampleConfig 1 [1, 2, 3])"
    by (auto simp: sampleConfig_def split: sum.split)
  moreover have "ReplSetConfig_validate False False (sampleConfig 1 [1, 2, 3]) = Inr ()" by code_simp
  ultimately show ?thesis using derived_counts_bounded [of False 1 "sampleDoc 1 [1, 2, 3]" False None 9] by blast
qed

subsection \<open>The write concern of a configuration change\<close>

text \<open>
  \<open>$configMajority\<close> is what a reconfiguration waits for, and its comment in \<open>_addInternalWriteConcernModes\<close> says
  "the majority of all voting members including arbiters". The code demands
  \<open>_majorityVoteCount / 2 + 1\<close> members, the majority of a majority: in a set of five, two members satisfy the mode,
  and two disjoint groups can.
\<close>

definition satisfiesMode :: "ReplSetConfig \<Rightarrow> string \<Rightarrow> nat list \<Rightarrow> bool" where
  "satisfiesMode c name ids =
     (case customWriteConcernModes c name of
        None \<Rightarrow> False
      | Some p \<Rightarrow> fst (feedTags (concat (map mc_tags (filter (\<lambda>m. mc_id m \<in> set ids) (members c)))) (newMatch p)))"

lemma config_majority_too_small:
  "validateConfig sampleParams (sampleConfig 1 [1, 2, 3, 4, 5]) = Inr () \<and>
   satisfiesMode (sampleConfig 1 [1, 2, 3, 4, 5]) ''$configMajority'' [1, 2] \<and>
   satisfiesMode (sampleConfig 1 [1, 2, 3, 4, 5]) ''$configMajority'' [3, 4] \<and>
   \<not> electionQuorum (sampleConfig 1 [1, 2, 3, 4, 5]) {1, 2} \<and>
   \<not> satisfiesMode (sampleConfig 1 [1, 2, 3, 4, 5]) ''$majority'' [1, 2]"
proof (intro conjI)
  show "validateConfig sampleParams (sampleConfig 1 [1, 2, 3, 4, 5]) = Inr ()" by code_simp
  show "satisfiesMode (sampleConfig 1 [1, 2, 3, 4, 5]) ''$configMajority'' [1, 2]" by code_simp
  show "satisfiesMode (sampleConfig 1 [1, 2, 3, 4, 5]) ''$configMajority'' [3, 4]" by code_simp
  show "\<not> electionQuorum (sampleConfig 1 [1, 2, 3, 4, 5]) {1, 2}" by code_simp
  show "\<not> satisfiesMode (sampleConfig 1 [1, 2, 3, 4, 5]) ''$majority'' [1, 2]" by code_simp
qed

end
