(* ===== verification/HeartbeatData.thy ===== *)
theory HeartbeatData
  imports ReplQuorums
begin

text \<open>
  What a node knows of one member of its set: \<open>MemberState\<close>, \<open>ReplSetHeartbeatResponse\<close> and
  \<open>MemberData\<close> of \<^verbatim>\<open>db/repl/\<close>. Dates are milliseconds since the epoch, the default-constructed date
  is 0. A field of a heartbeat response that has a separate flag for being set is an option. Operations with a fatal assertion
  return an option, as everywhere in the development.
\<close>

type_synonym Date_t = int

datatype MemberState = RS_STARTUP | RS_PRIMARY | RS_SECONDARY | RS_RECOVERING | RS_STARTUP2 | RS_UNKNOWN
  | RS_ARBITER | RS_DOWN | RS_ROLLBACK | RS_REMOVED

record OpTimeAndWallTime =
  opTime :: OpTime
  wallTime :: Date_t

definition nullOpTimeAndWallTime :: OpTimeAndWallTime where
  "nullOpTimeAndWallTime = \<lparr>opTime = nullOpTime, wallTime = 0\<rparr>"

definition emptyHost :: HostAndPort where
  "emptyHost = \<lparr>hostname = '''', port = -1\<rparr>"

definition host_empty :: "HostAndPort \<Rightarrow> bool" where
  "host_empty h \<longleftrightarrow> hostname h = '''' \<and> port h < 0"

subsection \<open>Heartbeat responses\<close>

record ReplSetHeartbeatResponse =
  hb_setName :: string
  hb_state :: "MemberState option"
  hb_electionTime :: "Timestamp option"
  hb_appliedOpTime :: "OpTimeAndWallTime option"
  hb_durableOpTime :: "OpTimeAndWallTime option"
  hb_configVersion :: int
  hb_configTerm :: int
  hb_config :: "ReplSetConfig option"
  hb_primaryId :: "int option"
  hb_term :: int
  hb_syncingTo :: HostAndPort
  hb_electable :: "bool option"

definition emptyResponse :: ReplSetHeartbeatResponse where
  "emptyResponse =
     \<lparr>hb_setName = '''', hb_state = None, hb_electionTime = None, hb_appliedOpTime = None, hb_durableOpTime = None,
      hb_configVersion = -1, hb_configTerm = kUninitializedTerm, hb_config = None, hb_primaryId = None, hb_term = -1,
      hb_syncingTo = emptyHost, hb_electable = None\<rparr>"

definition hb_getConfigVersionAndTerm :: "ReplSetHeartbeatResponse \<Rightarrow> ConfigVersionAndTerm" where
  "hb_getConfigVersionAndTerm r = ConfigVersionAndTerm (hb_configVersion r) (hb_configTerm r)"

subsection \<open>Member data\<close>

record MemberData =
  health :: int
  upSince :: Date_t
  lastHeartbeat :: Date_t
  lastHeartbeatRecv :: Date_t
  lastHeartbeatMessage :: string
  authIssue :: bool
  lastResponse :: ReplSetHeartbeatResponse
  updatedSinceRestart :: bool
  lastUpdate :: Date_t
  lastUpdateStale :: bool
  lastDurableOpTime :: OpTime
  lastDurableWallTime :: Date_t
  lastAppliedOpTime :: OpTime
  lastAppliedWallTime :: Date_t
  md_configVersion :: int
  md_configTerm :: int
  configIndex :: int
  isSelf :: bool
  memberId :: int
  md_hostAndPort :: HostAndPort

text \<open>A response that holds nothing but a state: what the constructor, a lost member and an authentication
  failure leave behind.\<close>

definition stateOnlyResponse :: "MemberState \<Rightarrow> ReplSetHeartbeatResponse" where
  "stateOnlyResponse st =
     emptyResponse\<lparr>hb_state := Some st, hb_electionTime := Some (Timestamp 0 0),
                   hb_appliedOpTime := Some nullOpTimeAndWallTime\<rparr>"

definition newMemberData :: MemberData where
  "newMemberData =
     \<lparr>health = -1, upSince = 0, lastHeartbeat = 0, lastHeartbeatRecv = 0, lastHeartbeatMessage = '''', authIssue = False,
      lastResponse = stateOnlyResponse RS_UNKNOWN, updatedSinceRestart = False, lastUpdate = 0, lastUpdateStale = False,
      lastDurableOpTime = nullOpTime, lastDurableWallTime = 0, lastAppliedOpTime = nullOpTime, lastAppliedWallTime = 0,
      md_configVersion = -1, md_configTerm = kUninitializedTerm, configIndex = -1, isSelf = False, memberId = -1,
      md_hostAndPort = emptyHost\<rparr>"

text \<open>The getters of the last response assert that the field is set; \<open>md_ok\<close> below is that they never fail.\<close>

definition md_getState :: "MemberData \<Rightarrow> MemberState" where
  "md_getState m = (case hb_state (lastResponse m) of Some s \<Rightarrow> s | None \<Rightarrow> RS_UNKNOWN)"

definition getHeartbeatAppliedOpTime :: "MemberData \<Rightarrow> OpTime" where
  "getHeartbeatAppliedOpTime m = (case hb_appliedOpTime (lastResponse m) of Some t \<Rightarrow> opTime t | None \<Rightarrow> nullOpTime)"

definition getHeartbeatDurableOpTime :: "MemberData \<Rightarrow> OpTime" where
  "getHeartbeatDurableOpTime m = (case hb_durableOpTime (lastResponse m) of Some t \<Rightarrow> opTime t | None \<Rightarrow> nullOpTime)"

definition md_getTerm :: "MemberData \<Rightarrow> int" where
  "md_getTerm m = hb_term (lastResponse m)"

definition md_getConfigVersionAndTerm :: "MemberData \<Rightarrow> ConfigVersionAndTerm" where
  "md_getConfigVersionAndTerm m = ConfigVersionAndTerm (md_configVersion m) (md_configTerm m)"

definition up :: "MemberData \<Rightarrow> bool" where
  "up m \<longleftrightarrow> health m > 0"

definition maybeUp :: "MemberData \<Rightarrow> bool" where
  "maybeUp m \<longleftrightarrow> health m \<noteq> 0"

definition isUnelectable :: "MemberData \<Rightarrow> bool" where
  "isUnelectable m \<longleftrightarrow> hb_electable (lastResponse m) = Some False"

definition restart :: "MemberData \<Rightarrow> MemberData" where
  "restart m = m\<lparr>updatedSinceRestart := False\<rparr>"

definition markLastUpdateStale :: "MemberData \<Rightarrow> MemberData" where
  "markLastUpdateStale m = m\<lparr>lastUpdateStale := True\<rparr>"

definition updateLiveness :: "Date_t \<Rightarrow> MemberData \<Rightarrow> MemberData" where
  "updateLiveness now m = m\<lparr>lastUpdate := now, lastUpdateStale := False\<rparr>"

definition wallTimeOk :: "OpTimeAndWallTime \<Rightarrow> bool" where
  "wallTimeOk t \<longleftrightarrow> op_isNull (opTime t) \<or> wallTime t > 0"

definition setLastAppliedOpTimeAndWallTime :: "OpTimeAndWallTime \<Rightarrow> Date_t \<Rightarrow> MemberData \<Rightarrow> MemberData option" where
  "setLastAppliedOpTimeAndWallTime t now m = do {
     invariant (wallTimeOk t);
     Some ((updateLiveness now m)\<lparr>lastAppliedOpTime := opTime t, lastAppliedWallTime := wallTime t\<rparr>)
   }"

text \<open>The durable optime is set asynchronously and is not let past the applied one.\<close>

definition setLastDurableOpTimeAndWallTime :: "OpTimeAndWallTime \<Rightarrow> Date_t \<Rightarrow> MemberData \<Rightarrow> MemberData option" where
  "setLastDurableOpTimeAndWallTime t now m = do {
     invariant (wallTimeOk t);
     let m' = updateLiveness now m;
     Some (if op_ge (lastAppliedOpTime m) (opTime t)
           then m'\<lparr>lastDurableOpTime := opTime t, lastDurableWallTime := wallTime t\<rparr> else m')
   }"

definition advanceLastAppliedOpTimeAndWallTime ::
    "OpTimeAndWallTime \<Rightarrow> Date_t \<Rightarrow> MemberData \<Rightarrow> (bool \<times> MemberData) option" where
  "advanceLastAppliedOpTimeAndWallTime t now m = do {
     invariant (wallTimeOk t);
     let m' = updateLiveness now m;
     if op_less (lastAppliedOpTime m) (opTime t)
     then do { m'' \<leftarrow> setLastAppliedOpTimeAndWallTime t now m'; Some (True, m'') }
     else Some (False, m')
   }"

definition advanceLastDurableOpTimeAndWallTime ::
    "OpTimeAndWallTime \<Rightarrow> Date_t \<Rightarrow> MemberData \<Rightarrow> (bool \<times> MemberData) option" where
  "advanceLastDurableOpTimeAndWallTime t now m = do {
     invariant (wallTimeOk t);
     let m' = updateLiveness now m;
     Some (if op_less (lastDurableOpTime m) (opTime t)
           then (True, m'\<lparr>lastDurableOpTime := opTime t, lastDurableWallTime := wallTime t\<rparr>) else (False, m'))
   }"

text \<open>The fields that a response lacks are filled in: the state as unknown, election time and applied optime from the
  response before.\<close>

definition completeResponse :: "ReplSetHeartbeatResponse \<Rightarrow> ReplSetHeartbeatResponse \<Rightarrow> ReplSetHeartbeatResponse" where
  "completeResponse old r =
     r\<lparr>hb_state := (case hb_state r of None \<Rightarrow> Some RS_UNKNOWN | Some s \<Rightarrow> Some s),
       hb_electionTime := (case hb_electionTime r of None \<Rightarrow> hb_electionTime old | Some t \<Rightarrow> Some t),
       hb_appliedOpTime := (case hb_appliedOpTime r of None \<Rightarrow> hb_appliedOpTime old | Some t \<Rightarrow> Some t)\<rparr>"

definition setUpValues :: "Date_t \<Rightarrow> ReplSetHeartbeatResponse \<Rightarrow> MemberData \<Rightarrow> (bool \<times> MemberData) option" where
  "setUpValues now resp m = do {
     let m1 = m\<lparr>health := 1, upSince := (if upSince m = 0 then now else upSince m), authIssue := False,
                lastHeartbeat := now, lastUpdate := now, lastUpdateStale := False, updatedSinceRestart := True,
                lastHeartbeatMessage := ''''\<rparr>;
     let r = completeResponse (lastResponse m) resp;
     applied \<leftarrow> hb_appliedOpTime r;
     (advA, m2) \<leftarrow> advanceLastAppliedOpTimeAndWallTime applied now m1;
     (advD, m3) \<leftarrow> advanceLastDurableOpTimeAndWallTime
        (case hb_durableOpTime r of Some t \<Rightarrow> t | None \<Rightarrow> nullOpTimeAndWallTime) now m2;
     let configChanged = cvt_less (md_getConfigVersionAndTerm m3) (hb_getConfigVersionAndTerm r);
     Some (advD \<or> advA \<or> configChanged,
           m3\<lparr>md_configTerm := hb_configTerm r, md_configVersion := hb_configVersion r, lastResponse := r\<rparr>)
   }"

definition setDownValues :: "Date_t \<Rightarrow> string \<Rightarrow> MemberData \<Rightarrow> MemberData" where
  "setDownValues now msg m =
     m\<lparr>health := 0, upSince := 0, lastHeartbeat := now, authIssue := False, updatedSinceRestart := True,
       lastHeartbeatMessage := msg, lastResponse := stateOnlyResponse RS_DOWN\<rparr>"

definition setAuthIssue :: "Date_t \<Rightarrow> MemberData \<Rightarrow> MemberData" where
  "setAuthIssue now m =
     m\<lparr>health := 0, upSince := 0, lastHeartbeat := now, authIssue := True, updatedSinceRestart := True,
       lastHeartbeatMessage := '''', lastResponse := stateOnlyResponse RS_UNKNOWN\<rparr>"

end
