(* ===== verification/Topology.thy ===== *)
theory Topology
  imports HeartbeatData "HOL-Library.AList"
begin

text \<open>
  The state of a node's \<open>TopologyCoordinator\<close> (\<^verbatim>\<open>db/repl/topology_coordinator.cpp\<close>) and the operations that
  move it between follower, candidate and leader: roles, leader modes, terms, stepping down and the installation of a
  configuration. The coordinator is called with the mutex of the replication coordinator held, so each operation is one step.
  Indexes are \<open>int\<close>, -1 meaning none, as in the source.
\<close>

datatype Role = kLeader | kCandidate | kFollower

datatype LeaderMode = kNotLeader | kLeaderElect | kMaster | kSteppingDown | kAttemptingStepDown

datatype ClusterRole = RoleNone | RoleShardServer | RoleConfigServer

datatype ReadCommittedSupport = kUnknown | kNo | kYes

datatype UpdateTermResult = kAlreadyUpToDate | kTriggerStepDown | kUpdatedTerm

record LastVote =
  lv_term :: int
  lv_candidateIndex :: int

subsection \<open>Ping statistics\<close>

datatype HeartbeatState = UNINITIALIZED | TRYING | SUCCEEDED | FAILED

record PingStats =
  hbState :: HeartbeatState
  hitCount :: "32 word"
  averagePingTimeMs :: int
  lastHeartbeatStartDate :: Date_t
  numFailuresSinceLastStart :: int

definition kMaxHeartbeatRetries :: int where
  "kMaxHeartbeatRetries = 2"

definition newPingStats :: PingStats where
  "newPingStats = \<lparr>hbState = UNINITIALIZED, hitCount = 0, averagePingTimeMs = -1, lastHeartbeatStartDate = 0,
     numFailuresSinceLastStart = -1\<rparr>"

definition ping_start :: "Date_t \<Rightarrow> PingStats \<Rightarrow> PingStats" where
  "ping_start now p = p\<lparr>lastHeartbeatStartDate := now, numFailuresSinceLastStart := 0, hbState := TRYING\<rparr>"

text \<open>Division of integers in C++ truncates towards zero.\<close>

definition quotient :: "int \<Rightarrow> int \<Rightarrow> int" where
  "quotient a b = sgn a * sgn b * (\<bar>a\<bar> div \<bar>b\<bar>)"

definition ping_hit :: "int \<Rightarrow> PingStats \<Rightarrow> PingStats" where
  "ping_hit millis p =
     p\<lparr>hbState := SUCCEEDED, hitCount := hitCount p + 1,
       averagePingTimeMs := (if averagePingTimeMs p = -1 then millis else quotient (averagePingTimeMs p * 4 + millis) 5)\<rparr>"

definition ping_miss :: "PingStats \<Rightarrow> PingStats" where
  "ping_miss p =
     (let n = numFailuresSinceLastStart p + 1 in
      p\<lparr>numFailuresSinceLastStart := n, hbState := (if n > kMaxHeartbeatRetries then FAILED else hbState p)\<rparr>)"

definition getMillis :: "PingStats \<Rightarrow> int" where
  "getMillis p = (if averagePingTimeMs p = -1 then 0 else averagePingTimeMs p)"

subsection \<open>The coordinator\<close>

record TopologyCoordinator =
  role :: Role
  electionId :: "int option"
  electionTime :: Timestamp
  tc_term :: int
  currentPrimaryIndex :: int
  syncSource :: HostAndPort
  forceSyncSourceIndex :: int
  clusterRole :: ClusterRole
  skipShardingConfigurationChecks :: bool
  hbmsg :: string
  hbmsgTime :: Date_t
  selfIndex :: int
  rsConfig :: ReplSetConfig
  memberData :: "MemberData list"
  stepDownUntil :: Date_t
  electionSleepUntil :: Date_t
  lastCommittedOpTime :: OpTimeAndWallTime
  firstOpTimeOfMyTerm :: OpTime
  lastCommittedInPrevConfig :: OpTime
  maintenanceModeCalls :: int
  followerMode :: MemberState
  leaderMode :: LeaderMode
  pings :: "(HostAndPort \<times> PingStats) list"
  pingsInConfig :: int
  lastVote :: LastVote
  storageEngineSupportsReadCommitted :: ReadCommittedSupport
  syncSourceBlacklist :: "(HostAndPort \<times> Date_t) list"

definition newTopologyCoordinator :: "ClusterRole \<Rightarrow> bool \<Rightarrow> TopologyCoordinator" where
  "newTopologyCoordinator cr skip =
     \<lparr>role = kFollower, electionId = None, electionTime = Timestamp 0 0, tc_term = kUninitializedTerm, currentPrimaryIndex = -1,
      syncSource = emptyHost, forceSyncSourceIndex = -1, clusterRole = cr, skipShardingConfigurationChecks = skip,
      hbmsg = '''', hbmsgTime = 0, selfIndex = -1, rsConfig = emptyReplSetConfig,
      memberData = [newMemberData\<lparr>isSelf := True\<rparr>], stepDownUntil = 0, electionSleepUntil = 0,
      lastCommittedOpTime = nullOpTimeAndWallTime, firstOpTimeOfMyTerm = nullOpTime, lastCommittedInPrevConfig = nullOpTime,
      maintenanceModeCalls = 0, followerMode = RS_STARTUP2, leaderMode = kNotLeader, pings = [], pingsInConfig = 0,
      lastVote = \<lparr>lv_term = kInitialTerm, lv_candidateIndex = -1\<rparr>, storageEngineSupportsReadCommitted = kUnknown,
      syncSourceBlacklist = []\<rparr>"

text \<open>Vectors are read with a check of the index: out of range is an abort.\<close>

definition vec_at :: "'a list \<Rightarrow> int \<Rightarrow> 'a option" where
  "vec_at xs i = (if 0 \<le> i \<and> i < int (length xs) then Some (xs ! nat i) else None)"

definition vec_update :: "'a list \<Rightarrow> int \<Rightarrow> 'a \<Rightarrow> 'a list" where
  "vec_update xs i x = xs[nat i := x]"

definition getNumMembers :: "ReplSetConfig \<Rightarrow> int" where
  "getNumMembers c = int (length (members c))"

definition memberConfigAt :: "TopologyCoordinator \<Rightarrow> int \<Rightarrow> MemberConfig option" where
  "memberConfigAt s i = vec_at (members (rsConfig s)) i"

definition selfConfig :: "TopologyCoordinator \<Rightarrow> MemberConfig option" where
  "selfConfig s = memberConfigAt s (selfIndex s)"

definition selfMemberDataIndex :: "TopologyCoordinator \<Rightarrow> int option" where
  "selfMemberDataIndex s = do {
     invariant (memberData s \<noteq> []);
     Some (if selfIndex s \<ge> 0 then selfIndex s else 0)
   }"

definition selfMemberData :: "TopologyCoordinator \<Rightarrow> MemberData option" where
  "selfMemberData s = do { i \<leftarrow> selfMemberDataIndex s; vec_at (memberData s) i }"

definition setMemberData :: "int \<Rightarrow> MemberData \<Rightarrow> TopologyCoordinator \<Rightarrow> TopologyCoordinator" where
  "setMemberData i m s = s\<lparr>memberData := vec_update (memberData s) i m\<rparr>"

definition getMyLastAppliedOpTime :: "TopologyCoordinator \<Rightarrow> OpTime option" where
  "getMyLastAppliedOpTime s = map_option lastAppliedOpTime (selfMemberData s)"

definition getMyLastDurableOpTime :: "TopologyCoordinator \<Rightarrow> OpTime option" where
  "getMyLastDurableOpTime s = map_option lastDurableOpTime (selfMemberData s)"

definition getMyLastAppliedOpTimeAndWallTime :: "TopologyCoordinator \<Rightarrow> OpTimeAndWallTime option" where
  "getMyLastAppliedOpTimeAndWallTime s =
     map_option (\<lambda>m. \<lparr>opTime = lastAppliedOpTime m, wallTime = lastAppliedWallTime m\<rparr>) (selfMemberData s)"

definition getMyLastDurableOpTimeAndWallTime :: "TopologyCoordinator \<Rightarrow> OpTimeAndWallTime option" where
  "getMyLastDurableOpTimeAndWallTime s =
     map_option (\<lambda>m. \<lparr>opTime = lastDurableOpTime m, wallTime = lastDurableWallTime m\<rparr>) (selfMemberData s)"

definition getPing :: "TopologyCoordinator \<Rightarrow> HostAndPort \<Rightarrow> PingStats" where
  "getPing s h = (case map_of (pings s) h of None \<Rightarrow> newPingStats | Some p \<Rightarrow> p)"

definition setPing :: "HostAndPort \<Rightarrow> PingStats \<Rightarrow> TopologyCoordinator \<Rightarrow> TopologyCoordinator" where
  "setPing h p s = s\<lparr>pings := AList.update h p (pings s)\<rparr>"

definition getTotalPings :: "TopologyCoordinator \<Rightarrow> 32 word" where
  "getTotalPings s = sum_list (map (hitCount \<circ> snd) (pings s))"

definition setMyHeartbeatMessage :: "Date_t \<Rightarrow> string \<Rightarrow> TopologyCoordinator \<Rightarrow> TopologyCoordinator" where
  "setMyHeartbeatMessage now msg s = s\<lparr>hbmsgTime := now, hbmsg := msg\<rparr>"

definition getHbmsg :: "Date_t \<Rightarrow> TopologyCoordinator \<Rightarrow> string" where
  "getHbmsg now s = (if now - hbmsgTime s > 120000 then '''' else hbmsg s)"

subsection \<open>Member state\<close>

fun hasOnlyAuthErrorUpHeartbeats :: "MemberData list \<Rightarrow> int \<Rightarrow> int \<Rightarrow> bool \<Rightarrow> bool" where
  "hasOnlyAuthErrorUpHeartbeats [] self i foundAuthError = foundAuthError"
| "hasOnlyAuthErrorUpHeartbeats (m # ms) self i foundAuthError =
     (if i = self then hasOnlyAuthErrorUpHeartbeats ms self (i + 1) foundAuthError
      else if up m then False
      else hasOnlyAuthErrorUpHeartbeats ms self (i + 1) (foundAuthError \<or> authIssue m))"

definition leaderChecks :: "TopologyCoordinator \<Rightarrow> unit option" where
  "leaderChecks s = do {
     invariant (currentPrimaryIndex s = selfIndex s);
     invariant (leaderMode s \<noteq> kNotLeader)
   }"

definition iAmPrimary :: "TopologyCoordinator \<Rightarrow> bool option" where
  "iAmPrimary s = (if role s = kLeader then do { leaderChecks s; Some True } else Some False)"

text \<open>A config server needs a matching role and a storage engine with read committed support, any other set must not run as config server.\<close>

definition removedByClusterRole :: "TopologyCoordinator \<Rightarrow> bool option" where
  "removedByClusterRole s =
     (if configServer (rsConfig s)
      then if clusterRole s \<noteq> RoleConfigServer \<and> \<not> skipShardingConfigurationChecks s then Some True
           else do {
             invariant (storageEngineSupportsReadCommitted s \<noteq> kUnknown);
             Some (storageEngineSupportsReadCommitted s = kNo)
           }
      else Some (clusterRole s = RoleConfigServer \<and> \<not> skipShardingConfigurationChecks s))"

definition getMemberState :: "TopologyCoordinator \<Rightarrow> MemberState option" where
  "getMemberState s =
     (if selfIndex s = -1 then Some (if isInitialized (rsConfig s) then RS_REMOVED else RS_STARTUP)
      else do {
        removed \<leftarrow> removedByClusterRole s;
        if removed then Some RS_REMOVED
        else if role s = kLeader then do { leaderChecks s; Some RS_PRIMARY }
        else do {
          me \<leftarrow> selfConfig s;
          if arbiterOnly me then Some RS_ARBITER
          else if (maintenanceModeCalls s > 0 \<or> hasOnlyAuthErrorUpHeartbeats (memberData s) (selfIndex s) 0 False) \<and>
                  followerMode s = RS_SECONDARY then Some RS_RECOVERING
          else Some (followerMode s)
        }
      })"

definition canAcceptWrites :: "TopologyCoordinator \<Rightarrow> bool" where
  "canAcceptWrites s \<longleftrightarrow> leaderMode s = kMaster"

definition isSteppingDownUnconditionally :: "TopologyCoordinator \<Rightarrow> bool" where
  "isSteppingDownUnconditionally s \<longleftrightarrow> leaderMode s = kSteppingDown"

definition isSteppingDown :: "TopologyCoordinator \<Rightarrow> bool" where
  "isSteppingDown s \<longleftrightarrow> isSteppingDownUnconditionally s \<or> leaderMode s = kAttemptingStepDown"

subsection \<open>Leader mode\<close>

fun validLeaderModeChange :: "LeaderMode \<Rightarrow> LeaderMode \<Rightarrow> bool" where
  "validLeaderModeChange kNotLeader n \<longleftrightarrow> n = kLeaderElect"
| "validLeaderModeChange kLeaderElect n \<longleftrightarrow> n = kNotLeader \<or> n = kMaster \<or> n = kAttemptingStepDown \<or> n = kSteppingDown"
| "validLeaderModeChange kMaster n \<longleftrightarrow> n = kNotLeader \<or> n = kAttemptingStepDown \<or> n = kSteppingDown"
| "validLeaderModeChange kAttemptingStepDown n \<longleftrightarrow> n = kNotLeader \<or> n = kMaster \<or> n = kSteppingDown \<or> n = kLeaderElect"
| "validLeaderModeChange kSteppingDown n \<longleftrightarrow> n = kNotLeader"

definition setLeaderMode :: "LeaderMode \<Rightarrow> TopologyCoordinator \<Rightarrow> TopologyCoordinator option" where
  "setLeaderMode n s = do { invariant (validLeaderModeChange (leaderMode s) n); Some (s\<lparr>leaderMode := n\<rparr>) }"

definition setElectionInfo :: "int option \<Rightarrow> Timestamp \<Rightarrow> TopologyCoordinator \<Rightarrow> TopologyCoordinator option" where
  "setElectionInfo oid t s = do { invariant (role s = kLeader); Some (s\<lparr>electionTime := t, electionId := oid\<rparr>) }"

definition processWinElection :: "int option \<Rightarrow> Timestamp \<Rightarrow> TopologyCoordinator \<Rightarrow> TopologyCoordinator option" where
  "processWinElection oid t s = do {
     invariant (role s = kCandidate);
     invariant (leaderMode s = kNotLeader);
     s1 \<leftarrow> setLeaderMode kLeaderElect (s\<lparr>role := kLeader\<rparr>);
     s2 \<leftarrow> setElectionInfo oid t s1;
     Some (s2\<lparr>currentPrimaryIndex := selfIndex s2, syncSource := emptyHost, forceSyncSourceIndex := -1,
              firstOpTimeOfMyTerm := OpTime (Timestamp 2147483647 0) 2147483647\<rparr>)
   }"

definition processLoseElection :: "TopologyCoordinator \<Rightarrow> TopologyCoordinator option" where
  "processLoseElection s = do {
     invariant (role s = kCandidate);
     invariant (leaderMode s = kNotLeader);
     Some (s\<lparr>electionTime := Timestamp 0 0, electionId := None, role := kFollower\<rparr>)
   }"

definition canCompleteTransitionToPrimary :: "int \<Rightarrow> TopologyCoordinator \<Rightarrow> bool" where
  "canCompleteTransitionToPrimary t s \<longleftrightarrow>
     t = tc_term s \<and> \<not> (leaderMode s \<noteq> kLeaderElect \<and> leaderMode s \<noteq> kAttemptingStepDown \<and> leaderMode s \<noteq> kSteppingDown)"

definition completeTransitionToPrimary :: "OpTime \<Rightarrow> TopologyCoordinator \<Rightarrow> TopologyCoordinator option" where
  "completeTransitionToPrimary first s = do {
     invariant (canCompleteTransitionToPrimary (getTerm first) s);
     s1 \<leftarrow> (if leaderMode s = kLeaderElect then setLeaderMode kMaster s else Some s);
     Some (s1\<lparr>firstOpTimeOfMyTerm := first\<rparr>)
   }"

definition setFollowerMode :: "MemberState \<Rightarrow> TopologyCoordinator \<Rightarrow> TopologyCoordinator option" where
  "setFollowerMode n s = do {
     invariant (role s = kFollower);
     (if n = RS_RECOVERING \<or> n = RS_ROLLBACK \<or> n = RS_SECONDARY \<or> n = RS_STARTUP2 then Some (s\<lparr>followerMode := n\<rparr>) else None)
   }"

definition adjustMaintenanceCountBy :: "int \<Rightarrow> TopologyCoordinator \<Rightarrow> TopologyCoordinator option" where
  "adjustMaintenanceCountBy inc s = do {
     invariant (role s = kFollower);
     let n = maintenanceModeCalls s + inc;
     invariant (n \<ge> 0);
     Some (s\<lparr>maintenanceModeCalls := n\<rparr>)
   }"

subsection \<open>Terms and votes of this node\<close>

definition updateTerm :: "int \<Rightarrow> Date_t \<Rightarrow> TopologyCoordinator \<Rightarrow> (UpdateTermResult \<times> TopologyCoordinator) option" where
  "updateTerm t now s =
     (if t \<le> tc_term s then Some (kAlreadyUpToDate, s)
      else do {
        let s1 = s\<lparr>electionSleepUntil := now + electionTimeoutPeriod (rsConfig s)\<rparr>;
        primary \<leftarrow> iAmPrimary s1;
        Some (if primary then (kTriggerStepDown, s1) else (kUpdatedTerm, s1\<lparr>tc_term := t\<rparr>))
      })"

definition loadLastVote :: "LastVote \<Rightarrow> TopologyCoordinator \<Rightarrow> TopologyCoordinator" where
  "loadLastVote v s = s\<lparr>lastVote := v\<rparr>"

definition voteForMyselfV1 :: "TopologyCoordinator \<Rightarrow> TopologyCoordinator" where
  "voteForMyselfV1 s = s\<lparr>lastVote := \<lparr>lv_term = tc_term s, lv_candidateIndex = selfIndex s\<rparr>\<rparr>"

subsection \<open>Stepping down\<close>

definition prepareForUnconditionalStepDown :: "TopologyCoordinator \<Rightarrow> (bool \<times> TopologyCoordinator) option" where
  "prepareForUnconditionalStepDown s =
     (if leaderMode s = kSteppingDown then Some (False, s)
      else do { s1 \<leftarrow> setLeaderMode kSteppingDown s; Some (True, s1) })"

text \<open>On success the caller gets the mode to restore, the value the returned closure captures.\<close>

definition prepareForStepDownAttempt :: "TopologyCoordinator \<Rightarrow> (LeaderMode StatusWith \<times> TopologyCoordinator) option" where
  "prepareForStepDownAttempt s =
     (if leaderMode s = kSteppingDown \<or> leaderMode s = kAttemptingStepDown then Some (Inl ConflictingOperationInProgress, s)
      else if leaderMode s = kNotLeader then Some (Inl NotWritablePrimary, s)
      else do {
        invariant (leaderMode s = kMaster \<or> leaderMode s = kLeaderElect);
        s1 \<leftarrow> setLeaderMode kAttemptingStepDown s;
        Some (Inr (leaderMode s), s1)
      })"

definition stepDownAttemptAbort :: "LeaderMode \<Rightarrow> TopologyCoordinator \<Rightarrow> TopologyCoordinator option" where
  "stepDownAttemptAbort previous s =
     (if leaderMode s = kAttemptingStepDown then setLeaderMode previous s else Some s)"

definition stepDownSelfAndReplaceWith :: "int \<Rightarrow> TopologyCoordinator \<Rightarrow> TopologyCoordinator option" where
  "stepDownSelfAndReplaceWith newPrimary s = do {
     invariant (role s = kLeader);
     invariant (selfIndex s \<noteq> -1);
     invariant (selfIndex s \<noteq> newPrimary);
     invariant (selfIndex s = currentPrimaryIndex s);
     setLeaderMode kNotLeader (s\<lparr>currentPrimaryIndex := newPrimary, role := kFollower\<rparr>)
   }"

fun findRemotePrimary :: "MemberData list \<Rightarrow> int \<Rightarrow> int \<Rightarrow> int \<Rightarrow> int" where
  "findRemotePrimary [] self i remotePrimary = remotePrimary"
| "findRemotePrimary (m # ms) self i remotePrimary =
     (if i = self then findRemotePrimary ms self (i + 1) remotePrimary
      else if md_getState m = RS_PRIMARY \<and> up m
      then if remotePrimary \<noteq> -1 then -1 else findRemotePrimary ms self (i + 1) i
      else findRemotePrimary ms self (i + 1) remotePrimary)"

definition finishUnconditionalStepDown :: "TopologyCoordinator \<Rightarrow> TopologyCoordinator option" where
  "finishUnconditionalStepDown s = do {
     invariant (leaderMode s = kSteppingDown);
     stepDownSelfAndReplaceWith (findRemotePrimary (memberData s) (selfIndex s) 0 (-1)) s
   }"

datatype PrepareFreezeResponseResult = kSingleNodeSelfElect | kNoAction

definition prepareFreezeResponse ::
    "Date_t \<Rightarrow> int \<Rightarrow> TopologyCoordinator \<Rightarrow> PrepareFreezeResponseResult StatusWith \<times> TopologyCoordinator" where
  "prepareFreezeResponse now secs s =
     (if role s \<noteq> kFollower then (Inl NotSecondary, s)
      else if secs = 0 then (Inr kSingleNodeSelfElect, s\<lparr>stepDownUntil := now\<rparr>)
      else (Inr kNoAction, s\<lparr>stepDownUntil := max (stepDownUntil s) (now + secs * 1000)\<rparr>))"

subsection \<open>Installing a configuration\<close>

text \<open>The heartbeat data of a member is kept when its identifier and host are unchanged, or when it is this node.\<close>

definition reconfigMemberData :: "MemberData list \<Rightarrow> int \<Rightarrow> int \<Rightarrow> MemberConfig \<Rightarrow> MemberData" where
  "reconfigMemberData old self i mc =
     (let d = (case find (\<lambda>d. memberId d = int (mc_id mc) \<and> md_hostAndPort d = getHostAndPort mc \<or> i = self \<and> isSelf d) old of
                 Some d \<Rightarrow> d | None \<Rightarrow> newMemberData)
      in d\<lparr>configIndex := i, isSelf := (i = self), md_hostAndPort := getHostAndPort mc, memberId := int (mc_id mc)\<rparr>)"

fun reconfigMembers :: "MemberData list \<Rightarrow> int \<Rightarrow> int \<Rightarrow> MemberConfig list \<Rightarrow> MemberData list" where
  "reconfigMembers old self i [] = []"
| "reconfigMembers old self i (mc # mcs) = reconfigMemberData old self i mc # reconfigMembers old self (i + 1) mcs"

definition updateHeartbeatDataForReconfig :: "ReplSetConfig \<Rightarrow> int \<Rightarrow> TopologyCoordinator \<Rightarrow> TopologyCoordinator" where
  "updateHeartbeatDataForReconfig new self s =
     (if self < 0
      then s\<lparr>syncSource := emptyHost, pingsInConfig := 0,
             memberData := [(case find isSelf (memberData s) of Some d \<Rightarrow> d | None \<Rightarrow> newMemberData)
                              \<lparr>configIndex := -1, isSelf := True\<rparr>]\<rparr>
      else s\<lparr>memberData := reconfigMembers (memberData s) self 0 (members new)\<rparr>)"

definition installMemberData :: "ReplSetConfig \<Rightarrow> int \<Rightarrow> TopologyCoordinator \<Rightarrow> TopologyCoordinator option" where
  "installMemberData new self s = do {
     let s1 = (updateHeartbeatDataForReconfig new self s)\<lparr>rsConfig := new, selfIndex := self\<rparr>;
     if self \<ge> 0
     then do {
       m \<leftarrow> vec_at (memberData s1) self;
       Some (setMemberData self (m\<lparr>md_configVersion := version new, md_configTerm := config_term new\<rparr>) s1)
     }
     else Some s1
   }"

definition updateConfig :: "ReplSetConfig \<Rightarrow> int \<Rightarrow> Date_t \<Rightarrow> TopologyCoordinator \<Rightarrow> TopologyCoordinator option" where
  "updateConfig new self now s = do {
     invariant (role s \<noteq> kCandidate);
     invariant (self < getNumMembers new);
     let s1 = (if \<not> isInitialized (rsConfig s) then s\<lparr>tc_term := kInitialTerm\<rparr> else s);
     s3 \<leftarrow> installMemberData new self s1;
     let s4 = s3\<lparr>forceSyncSourceIndex := -1\<rparr>;
     if role s4 = kLeader
     then do {
       stays \<leftarrow> (if selfIndex s4 = -1 then Some False else do { me \<leftarrow> selfConfig s4; Some (isElectable me) });
       if stays then Some (s4\<lparr>currentPrimaryIndex := selfIndex s4\<rparr>)
       else do {
         s5 \<leftarrow> setLeaderMode kNotLeader (s4\<lparr>role := kFollower\<rparr>);
         Some (s5\<lparr>currentPrimaryIndex := -1\<rparr>)
       }
     }
     else Some (s4\<lparr>currentPrimaryIndex := -1\<rparr>)
   }"

end
