(* ===== verification/TopologyHeartbeat.thy ===== *)
theory TopologyHeartbeat
  imports Topology
begin

text \<open>
  How a node learns about its peers and decides to stand for election: the second part of \<open>TopologyCoordinator\<close>.
  Heartbeats are answered, sent and processed, members time out, and from the collected \<open>MemberData\<close> follow who is
  primary, whether a majority is up, why a node is not electable and when to take over from the primary.
\<close>

subsection \<open>Electability\<close>

datatype UnelectableReason = CannotSeeMajority | ArbiterIAm | NotSecondary | NoPriority | StepDownPeriodActive | NoData
  | NotInitialized | NotCloseEnoughToLatestForPriorityTakeover | NotFreshEnoughForCatchupTakeover

text \<open>A mask of reasons is the list of the reasons set in it, empty for a zero mask.\<close>

type_synonym UnelectableReasonMask = "UnelectableReason list"

datatype StartElectionReasonEnum = kElectionTimeout | kPriorityTakeover | kStepUpRequest | kStepUpRequestSkipDryRun
  | kCatchupTakeover | kSingleNodePromptElection

fun countUpVotes :: "TopologyCoordinator \<Rightarrow> MemberData list \<Rightarrow> int \<Rightarrow> int \<Rightarrow> int option" where
  "countUpVotes s [] i vUp = Some vUp"
| "countUpVotes s (m # ms) i vUp =
     (if i = selfIndex s \<or> up m
      then do { mc \<leftarrow> memberConfigAt s i; countUpVotes s ms (i + 1) (vUp + getNumVotes mc) }
      else countUpVotes s ms (i + 1) vUp)"

definition aMajoritySeemsToBeUp :: "TopologyCoordinator \<Rightarrow> bool option" where
  "aMajoritySeemsToBeUp s = do {
     vUp \<leftarrow> countUpVotes s (memberData s) 0 0;
     Some (vUp * 2 > totalVotingMembers (rsConfig s))
   }"

fun latestOpTime :: "MemberData list \<Rightarrow> OpTime \<Rightarrow> OpTime" where
  "latestOpTime [] latest = latest"
| "latestOpTime (m # ms) latest =
     (if isSelf m \<or> \<not> up m \<or> md_getState m = RS_REMOVED then latestOpTime ms latest
      else let t = getHeartbeatAppliedOpTime m in latestOpTime ms (if op_greater t latest then t else latest))"

definition latestKnownOpTime :: "TopologyCoordinator \<Rightarrow> OpTime option" where
  "latestKnownOpTime s = map_option (latestOpTime (memberData s)) (getMyLastAppliedOpTime s)"

text \<open>Seconds and increments are unsigned 32-bit numbers, and so are the sums.\<close>

definition amIFreshEnoughForPriorityTakeover :: "32 word \<Rightarrow> TopologyCoordinator \<Rightarrow> bool option" where
  "amIFreshEnoughForPriorityTakeover windowSeconds s = do {
     latest \<leftarrow> latestKnownOpTime s;
     mine \<leftarrow> getMyLastAppliedOpTime s;
     Some (if getTerm mine \<noteq> getTerm latest then False
           else if getSecs (getTimestamp mine) \<noteq> getSecs (getTimestamp latest)
           then getSecs (getTimestamp mine) + windowSeconds \<ge> getSecs (getTimestamp latest)
           else getInc (getTimestamp mine) + 1000 \<ge> getInc (getTimestamp latest))
   }"

definition amIFreshEnoughForCatchupTakeover :: "TopologyCoordinator \<Rightarrow> bool option" where
  "amIFreshEnoughForCatchupTakeover s = do {
     latest \<leftarrow> latestKnownOpTime s;
     mine \<leftarrow> getMyLastAppliedOpTime s;
     if op_less mine latest then Some False
     else if currentPrimaryIndex s = -1 then Some False
     else do {
       p \<leftarrow> vec_at (memberData s) (currentPrimaryIndex s);
       Some (if op_le mine (lastAppliedOpTime p) then False else getTerm mine < tc_term s)
     }
   }"

text \<open>The test of a priority: \<open>getPriority() <= 0\<close>, false on not-a-number.\<close>

definition noPriority :: "MemberConfig \<Rightarrow> bool" where
  "noPriority mc \<longleftrightarrow> d_less (priority mc) (Fin 0) \<or> priority mc = Fin 0"

definition getUnelectableReason :: "int \<Rightarrow> TopologyCoordinator \<Rightarrow> UnelectableReasonMask option" where
  "getUnelectableReason i s = do {
     invariant (i \<noteq> selfIndex s);
     mc \<leftarrow> memberConfigAt s i;
     hb \<leftarrow> vec_at (memberData s) i;
     let result = (if arbiterOnly mc then [ArbiterIAm] else []) @ (if noPriority mc then [NoPriority] else []) @
                  (if md_getState hb \<noteq> RS_SECONDARY then [NotSecondary] else []) @
                  (if up hb \<and> isUnelectable hb then [StepDownPeriodActive] else []);
     invariant (result \<noteq> [] \<or> isElectable mc);
     Some result
   }"

definition getMyUnelectableReason ::
    "32 word \<Rightarrow> Date_t \<Rightarrow> StartElectionReasonEnum \<Rightarrow> TopologyCoordinator \<Rightarrow> UnelectableReasonMask option" where
  "getMyUnelectableReason window now reason s = do {
     lastApplied \<leftarrow> getMyLastAppliedOpTime s;
     majorityUp \<leftarrow> aMajoritySeemsToBeUp s;
     let r1 = (if op_isNull lastApplied then [NoData] else []) @ (if \<not> majorityUp then [CannotSeeMajority] else []);
     if selfIndex s = -1 then Some (r1 @ [NotInitialized])
     else do {
       me \<leftarrow> selfConfig s;
       st \<leftarrow> getMemberState s;
       primary \<leftarrow> (if st = RS_SECONDARY then Some False else iAmPrimary s);
       freshP \<leftarrow> (if reason = kPriorityTakeover then amIFreshEnoughForPriorityTakeover window s else Some True);
       freshC \<leftarrow> (if reason = kCatchupTakeover then amIFreshEnoughForCatchupTakeover s else Some True);
       Some (r1 @ (if arbiterOnly me then [ArbiterIAm] else []) @ (if noPriority me then [NoPriority] else []) @
             (if stepDownUntil s > now then [StepDownPeriodActive] else []) @
             (if st \<noteq> RS_SECONDARY \<and> \<not> primary then [NotSecondary] else []) @
             (if \<not> freshP then [NotCloseEnoughToLatestForPriorityTakeover] else []) @
             (if \<not> freshC then [NotFreshEnoughForCatchupTakeover] else []))
     }
   }"

definition becomeCandidateIfElectable ::
    "32 word \<Rightarrow> Date_t \<Rightarrow> StartElectionReasonEnum \<Rightarrow> TopologyCoordinator \<Rightarrow> (unit StatusWith \<times> TopologyCoordinator) option" where
  "becomeCandidateIfElectable window now reason s =
     (if role s = kLeader then Some (Inl NodeNotElectable, s)
      else if role s = kCandidate then Some (Inl NodeNotElectable, s)
      else do {
        r \<leftarrow> getMyUnelectableReason window now reason s;
        Some (if r \<noteq> [] then (Inl NodeNotElectable, s) else (Inr (), s\<lparr>role := kCandidate\<rparr>))
      })"

definition isElectableNodeInSingleNodeReplicaSet :: "TopologyCoordinator \<Rightarrow> bool option" where
  "isElectableNodeInSingleNodeReplicaSet s = do {
     let isSingleNode = (getNumMembers (rsConfig s) = 1 \<and> selfIndex s = 0);
     electable \<leftarrow> (if isSingleNode then do { me \<leftarrow> selfConfig s; Some (isElectable me) } else Some True);
     invariant electable;
     st \<leftarrow> getMemberState s;
     Some (st = RS_SECONDARY \<and> isSingleNode)
   }"

subsection \<open>Liveness of members\<close>

definition setMemberAsDown :: "32 word \<Rightarrow> Date_t \<Rightarrow> int \<Rightarrow> TopologyCoordinator \<Rightarrow> (bool \<times> TopologyCoordinator) option" where
  "setMemberAsDown window now i s = do {
     invariant (i \<noteq> selfIndex s);
     invariant (i \<noteq> -1);
     invariant (currentPrimaryIndex s = selfIndex s);
     m \<leftarrow> vec_at (memberData s) i;
     let s1 = setMemberData i (setDownValues now ''no response within election timeout period'' m) s;
     r \<leftarrow> getMyUnelectableReason window now kElectionTimeout s1;
     Some (CannotSeeMajority \<in> set r, s1)
   }"

text \<open>\<open>stepdown || setMemberAsDown(...)\<close>: once the majority is lost, further members are only marked stale.\<close>

definition checkOneTimeout ::
    "32 word \<Rightarrow> Date_t \<Rightarrow> int \<Rightarrow> bool \<Rightarrow> TopologyCoordinator \<Rightarrow> (bool \<times> TopologyCoordinator) option" where
  "checkOneTimeout window now i stepdown s = do {
     m \<leftarrow> vec_at (memberData s) i;
     if \<not> isSelf m \<and> \<not> lastUpdateStale m \<and> now - lastUpdate m \<ge> electionTimeoutPeriod (rsConfig s)
     then do {
       let s1 = setMemberData i (markLastUpdateStale m) s;
       primary \<leftarrow> iAmPrimary s1;
       if primary \<and> \<not> stepdown then setMemberAsDown window now i s1 else Some (stepdown, s1)
     }
     else Some (stepdown, s)
   }"

fun checkTimeouts ::
    "32 word \<Rightarrow> Date_t \<Rightarrow> nat \<Rightarrow> int \<Rightarrow> bool \<Rightarrow> TopologyCoordinator \<Rightarrow> (bool \<times> TopologyCoordinator) option" where
  "checkTimeouts window now 0 i stepdown s = Some (stepdown, s)"
| "checkTimeouts window now (Suc n) i stepdown s = do {
     (stepdown', s') \<leftarrow> checkOneTimeout window now i stepdown s;
     checkTimeouts window now n (i + 1) stepdown' s'
   }"

datatype Action = NoAction | Reconfig | StepDownSelf | PriorityTakeover | CatchupTakeover | RetryReconfig

record HeartbeatResponseAction =
  action :: Action
  primaryConfigIndex :: int
  nextHeartbeatStartDate :: Date_t
  advancedOpTimeOrUpdatedConfig :: bool
  becameElectable :: bool

definition makeAction :: "Action \<Rightarrow> HeartbeatResponseAction" where
  "makeAction a = \<lparr>action = a, primaryConfigIndex = -1, nextHeartbeatStartDate = 0, advancedOpTimeOrUpdatedConfig = False,
     becameElectable = False\<rparr>"

definition makeStepDownSelfAction :: "int \<Rightarrow> HeartbeatResponseAction" where
  "makeStepDownSelfAction i = (makeAction StepDownSelf)\<lparr>primaryConfigIndex := i\<rparr>"

definition checkMemberTimeouts ::
    "32 word \<Rightarrow> Date_t \<Rightarrow> TopologyCoordinator \<Rightarrow> (HeartbeatResponseAction \<times> TopologyCoordinator) option" where
  "checkMemberTimeouts window now s = do {
     (stepdown, s1) \<leftarrow> checkTimeouts window now (length (memberData s)) 0 False s;
     Some (if stepdown then makeStepDownSelfAction (selfIndex s1) else makeAction NoAction, s1)
   }"

text \<open>\<open>Date_t::max()\<close> is what remains when every other member is stale.\<close>

definition date_max :: Date_t where
  "date_max = 9223372036854775807"

fun stalestLive :: "MemberData list \<Rightarrow> int \<times> Date_t \<Rightarrow> int \<times> Date_t" where
  "stalestLive [] best = best"
| "stalestLive (m # ms) best =
     (if isSelf m \<or> lastUpdateStale m then stalestLive ms best
      else stalestLive ms (if snd best > lastUpdate m then (memberId m, lastUpdate m) else best))"

definition getStalestLiveMember :: "TopologyCoordinator \<Rightarrow> int \<times> Date_t" where
  "getStalestLiveMember s = stalestLive (memberData s) (-1, date_max)"

definition resetMemberTimeouts :: "Date_t \<Rightarrow> HostAndPort list \<Rightarrow> TopologyCoordinator \<Rightarrow> TopologyCoordinator" where
  "resetMemberTimeouts now hosts s =
     s\<lparr>memberData := map (\<lambda>m. if md_hostAndPort m \<in> set hosts then updateLiveness now m else m) (memberData s)\<rparr>"

fun restartFirst :: "Date_t \<Rightarrow> HostAndPort \<Rightarrow> MemberData list \<Rightarrow> MemberData list" where
  "restartFirst now target [] = []"
| "restartFirst now target (m # ms) =
     (if md_hostAndPort m = target then updateLiveness now (restart m) # ms else m # restartFirst now target ms)"

definition restartHeartbeat :: "Date_t \<Rightarrow> HostAndPort \<Rightarrow> TopologyCoordinator \<Rightarrow> TopologyCoordinator" where
  "restartHeartbeat now target s = s\<lparr>memberData := restartFirst now target (memberData s)\<rparr>"

subsection \<open>The current primary\<close>

fun findPrimary :: "MemberData list \<Rightarrow> MemberData list \<Rightarrow> int \<Rightarrow> int \<Rightarrow> int" where
  "findPrimary all [] i primary = primary"
| "findPrimary all (m # ms) i primary =
     (if md_getState m = RS_PRIMARY \<and> up m \<and>
         (primary = -1 \<or> (case vec_at all primary of Some p \<Rightarrow> md_getTerm p < md_getTerm m | None \<Rightarrow> False))
      then findPrimary all ms (i + 1) i else findPrimary all ms (i + 1) primary)"

definition updatePrimaryFromHBDataV1 :: "Date_t \<Rightarrow> TopologyCoordinator \<Rightarrow> TopologyCoordinator option" where
  "updatePrimaryFromHBDataV1 now s = do {
     invariant (selfIndex s \<noteq> -1);
     Some (if currentPrimaryIndex s = selfIndex s then s
           else setMyHeartbeatMessage now '''' (s\<lparr>currentPrimaryIndex := findPrimary (memberData s) (memberData s) 0 (-1)\<rparr>))
   }"

definition shouldTakeOverPrimary :: "int \<Rightarrow> TopologyCoordinator \<Rightarrow> HeartbeatResponseAction option" where
  "shouldTakeOverPrimary updated s =
     (if currentPrimaryIndex s = -1 then Some (makeAction NoAction)
      else do {
        p \<leftarrow> vec_at (memberData s) (currentPrimaryIndex s);
        if md_getTerm p \<noteq> tc_term s \<or> updated \<noteq> currentPrimaryIndex s then Some (makeAction NoAction)
        else do {
          self \<leftarrow> vec_at (memberData s) (selfIndex s);
          pc \<leftarrow> memberConfigAt s (currentPrimaryIndex s);
          me \<leftarrow> selfConfig s;
          let catchupTakeoverDisabled = (catchUpTimeoutPeriod (rsConfig s) = 0 \<or> catchUpTakeoverDelay (rsConfig s) = -1);
          let scheduleCatchup = (\<not> catchupTakeoverDisabled \<and> op_less (lastAppliedOpTime p) (lastAppliedOpTime self));
          let schedulePriority = d_less (priority pc) (priority me);
          Some (makeAction
            (if scheduleCatchup \<and> schedulePriority \<and> calculatePriorityRank (rsConfig s) (priority me) = 0 then PriorityTakeover
             else if scheduleCatchup then CatchupTakeover
             else if schedulePriority then PriorityTakeover
             else NoAction))
        }
      })"

subsection \<open>Heartbeats\<close>

record ReplSetHeartbeatArgsV1 =
  arg_setName :: string
  arg_configVersion :: int
  arg_configTerm :: int
  arg_senderId :: int
  arg_senderHost :: HostAndPort
  arg_term :: int
  arg_primaryId :: int
  arg_heartbeatVersion :: int
  arg_isArbiter :: bool

definition emptyHeartbeatArgs :: ReplSetHeartbeatArgsV1 where
  "emptyHeartbeatArgs = \<lparr>arg_setName = '''', arg_configVersion = -1, arg_configTerm = kUninitializedTerm, arg_senderId = -1,
     arg_senderHost = emptyHost, arg_term = -1, arg_primaryId = -1, arg_heartbeatVersion = -1, arg_isArbiter = False\<rparr>"

text \<open>The identifier looked for is converted to a \<open>MemberId\<close> for each comparison, which throws on a negative number.\<close>

definition getMemberIndex :: "ReplSetConfig \<Rightarrow> int \<Rightarrow> int StatusWith" where
  "getMemberIndex c i =
     (if members c = [] then Inr (-1)
      else if i < 0 then Inl BadValue
      else Inr (indexWhere (\<lambda>mc. int (mc_id mc) = i) (members c) 0))"

text \<open>The part of a heartbeat response that does not depend on the configuration.\<close>

definition fillResponse ::
    "string \<Rightarrow> MemberState \<Rightarrow> ReplSetHeartbeatResponse \<Rightarrow> TopologyCoordinator \<Rightarrow> ReplSetHeartbeatResponse option" where
  "fillResponse ourSetName st r s = do {
     applied \<leftarrow> (if st = RS_STARTUP2 then Some nullOpTimeAndWallTime else getMyLastAppliedOpTimeAndWallTime s);
     durable \<leftarrow> (if st = RS_STARTUP2 then Some nullOpTimeAndWallTime else getMyLastDurableOpTimeAndWallTime s);
     primaryId \<leftarrow> (if currentPrimaryIndex s \<noteq> -1
                  then do { pc \<leftarrow> memberConfigAt s (currentPrimaryIndex s); Some (Some (int (mc_id pc))) }
                  else Some (hb_primaryId r));
     Some (r\<lparr>hb_setName := ourSetName, hb_state := Some st,
             hb_electionTime := (if st = RS_PRIMARY then Some (electionTime s) else hb_electionTime r),
             hb_appliedOpTime := Some applied, hb_durableOpTime := Some durable, hb_primaryId := primaryId,
             hb_term := tc_term s, hb_syncingTo := (if host_empty (syncSource s) then hb_syncingTo r else syncSource s)\<rparr>)
   }"

definition noteHeartbeatFrom :: "Date_t \<Rightarrow> int \<Rightarrow> TopologyCoordinator \<Rightarrow> TopologyCoordinator option" where
  "noteHeartbeatFrom now from s = do {
     invariant (from \<noteq> selfIndex s);
     m \<leftarrow> vec_at (memberData s) from;
     Some (setMemberData from (updateLiveness now (m\<lparr>lastHeartbeatRecv := now\<rparr>)) s)
   }"

definition prepareHeartbeatResponseV1 ::
    "32 word \<Rightarrow> Date_t \<Rightarrow> ReplSetHeartbeatArgsV1 \<Rightarrow> string \<Rightarrow> ReplSetHeartbeatResponse \<Rightarrow> TopologyCoordinator \<Rightarrow>
     (unit StatusWith \<times> ReplSetHeartbeatResponse \<times> TopologyCoordinator) option" where
  "prepareHeartbeatResponseV1 window now args ourSetName response s =
     (if ourSetName \<noteq> arg_setName args then Some (Inl InconsistentReplicaSetNames, response, s)
      else do {
        st \<leftarrow> getMemberState s;
        sameId \<leftarrow> (if selfIndex s = -1 then Some False
                  else do { me \<leftarrow> selfConfig s; Some (arg_senderId args = int (mc_id me)) });
        if selfIndex s = -1 \<and> st = RS_REMOVED then Some (Inl InvalidReplicaSetConfig, response, s)
        else if sameId then Some (Inl BadValue, response, s)
        else do {
          r1 \<leftarrow> fillResponse ourSetName st response s;
          if \<not> isInitialized (rsConfig s) then Some (Inr (), r1\<lparr>hb_configVersion := -2\<rparr>, s)
          else do {
            reason \<leftarrow> getMyUnelectableReason window now kElectionTimeout s;
            let r2 = r1\<lparr>hb_electable := Some (reason = []), hb_configVersion := version (rsConfig s),
                        hb_configTerm := config_term (rsConfig s)\<rparr>;
            let r3 = (if cvt_less (ConfigVersionAndTerm (arg_configVersion args) (arg_configTerm args))
                                  (getConfigVersionAndTerm (rsConfig s))
                      then r2\<lparr>hb_config := Some (rsConfig s)\<rparr> else r2);
            if version (rsConfig s) = arg_configVersion args \<and> arg_senderId args \<noteq> -1
            then (case getMemberIndex (rsConfig s) (arg_senderId args) of
                    Inl e \<Rightarrow> Some (Inl e, r3, s)
                  | Inr from \<Rightarrow>
                      if from = -1 then Some (Inr (), r3, s)
                      else do { s1 \<leftarrow> noteHeartbeatFrom now from s; Some (Inr (), r3, s1) })
            else Some (Inr (), r3, s)
          }
        }
      })"

text \<open>The timeout of a configuration is in seconds; the default that is used without one is ten seconds.\<close>

definition prepareHeartbeatRequestV1 ::
    "Date_t \<Rightarrow> string \<Rightarrow> HostAndPort \<Rightarrow> TopologyCoordinator \<Rightarrow> ((ReplSetHeartbeatArgsV1 \<times> int) \<times> TopologyCoordinator) option" where
  "prepareHeartbeatRequestV1 now ourSetName target s = do {
     let c = rsConfig s;
     let p = getPing s target;
     let elapsed = now - lastHeartbeatStartDate p;
     let fresh = (\<not> isInitialized c \<or> hbState p \<noteq> TRYING \<or> elapsed \<ge> heartbeatTimeoutPeriod c * 1000);
     let s1 = setPing target (if fresh then ping_start now p else p) s;
     let timeout = (if isInitialized c then heartbeatTimeoutPeriod c * 1000 else 10000) - (if fresh then 0 else elapsed);
     args \<leftarrow>
       (if isInitialized c then do {
          primaryId \<leftarrow> (if currentPrimaryIndex s \<ge> 0
                       then do { m \<leftarrow> vec_at (memberData s) (currentPrimaryIndex s); invariant (memberId m \<noteq> -1); Some (memberId m) }
                       else Some (-1));
          let a1 = emptyHeartbeatArgs\<lparr>arg_setName := replSetName c, arg_configVersion := version c,
                     arg_configTerm := config_term c, arg_primaryId := primaryId, arg_term := tc_term s\<rparr>;
          if selfIndex s \<ge> 0
          then do {
            me \<leftarrow> selfConfig s;
            Some (a1\<lparr>arg_senderId := int (mc_id me), arg_senderHost := getHostAndPort me, arg_isArbiter := arbiterOnly me\<rparr>)
          }
          else Some a1
        }
        else Some (emptyHeartbeatArgs\<lparr>arg_setName := ourSetName, arg_configVersion := -2, arg_term := kInitialTerm\<rparr>));
     Some ((args\<lparr>arg_heartbeatVersion := 1\<rparr>, timeout), s1)
   }"

text \<open>A node that looks for a sync source, and an arbiter, send heartbeats more often.\<close>

definition nextHeartbeatInterval :: "TopologyCoordinator \<Rightarrow> int option" where
  "nextHeartbeatInterval s = do {
     st \<leftarrow> getMemberState s;
     primary \<leftarrow> (if st \<noteq> RS_ARBITER \<and> host_empty (syncSource s) then iAmPrimary s else Some True);
     let c = rsConfig s;
     Some (if st = RS_ARBITER then min (quotient (electionTimeoutPeriod c) 2) (heartbeatInterval c)
           else if host_empty (syncSource s) \<and> \<not> primary then min (quotient (electionTimeoutPeriod c) 2) (quotient (heartbeatInterval c) 4)
           else heartbeatInterval c)
   }"

type_synonym HeartbeatReply = "(ErrorCode \<times> string) + ReplSetHeartbeatResponse"

definition isUnauthorized :: "HeartbeatReply \<Rightarrow> bool" where
  "isUnauthorized r = (case r of Inl (e, _) \<Rightarrow> e = Unauthorized \<or> e = AuthenticationFailed | Inr _ \<Rightarrow> False)"

definition isOK :: "'e + 'a \<Rightarrow> bool" where
  "isOK r = (case r of Inl _ \<Rightarrow> False | Inr _ \<Rightarrow> True)"

text \<open>The newer configuration that a reply carries, if any.\<close>

definition replyHasNewerConfig :: "HeartbeatReply \<Rightarrow> TopologyCoordinator \<Rightarrow> bool" where
  "replyHasNewerConfig reply s =
     (case reply of Inl _ \<Rightarrow> False
      | Inr r \<Rightarrow>
          (case hb_config r of None \<Rightarrow> False
           | Some c \<Rightarrow> cvt_less (if isInitialized (rsConfig s) then getConfigVersionAndTerm (rsConfig s)
                                else ConfigVersionAndTerm (-2) kUninitializedTerm) (getConfigVersionAndTerm c)))"

text \<open>The effect of a reply on the data of its sender: whether optime or configuration advanced, whether the
  sender became electable, and the new data.\<close>

definition applyReply ::
    "Date_t \<Rightarrow> bool \<Rightarrow> HeartbeatReply \<Rightarrow> MemberData \<Rightarrow> ((bool \<times> bool) \<times> MemberData) option" where
  "applyReply now giveUp reply m =
     (case reply of
        Inl (e, msg) \<Rightarrow>
          Some ((False, False),
                if isUnauthorized reply then setAuthIssue now m
                else if giveUp then setDownValues now msg m
                else m)
      | Inr r \<Rightarrow> do {
          (advanced, m1) \<leftarrow> setUpValues now r m;
          Some ((advanced, isUnelectable m \<and> \<not> isUnelectable m1), m1)
        })"

definition processMemberReply ::
    "Date_t \<Rightarrow> bool \<Rightarrow> HeartbeatReply \<Rightarrow> int \<Rightarrow> bool \<Rightarrow> Date_t \<Rightarrow> TopologyCoordinator \<Rightarrow>
     (HeartbeatResponseAction \<times> TopologyCoordinator) option" where
  "processMemberReply now giveUp reply i reconfig nextDate s = do {
     invariant (i \<noteq> selfIndex s);
     m \<leftarrow> vec_at (memberData s) i;
     ((advanced, electable), m1) \<leftarrow> applyReply now giveUp reply m;
     let s1 = setMemberData i m1 (if isOK reply then s\<lparr>pingsInConfig := pingsInConfig s + 1\<rparr> else s);
     s2 \<leftarrow> updatePrimaryFromHBDataV1 now s1;
     if reconfig then Some ((makeAction Reconfig)\<lparr>nextHeartbeatStartDate := nextDate\<rparr>, s2)
     else do {
       a \<leftarrow> shouldTakeOverPrimary i s2;
       Some (a\<lparr>nextHeartbeatStartDate := nextDate, advancedOpTimeOrUpdatedConfig := advanced, becameElectable := electable\<rparr>, s2)
     }
   }"

definition processHeartbeatResponse ::
    "Date_t \<Rightarrow> int \<Rightarrow> HostAndPort \<Rightarrow> HeartbeatReply \<Rightarrow> TopologyCoordinator \<Rightarrow>
     (HeartbeatResponseAction \<times> TopologyCoordinator) option" where
  "processHeartbeatResponse now roundTrip target reply s = do {
     let p0 = getPing s target;
     invariant (lastHeartbeatStartDate p0 \<noteq> 0);
     let p = (if isOK reply \<or> isUnauthorized reply then ping_hit roundTrip p0 else ping_miss p0);
     let s1 = setPing target p s;
     interval \<leftarrow> nextHeartbeatInterval s1;
     let c = rsConfig s1;
     let elapsed = now - lastHeartbeatStartDate p;
     let nextDate = (if hbState p = TRYING \<and> elapsed < heartbeatTimeoutPeriod c * 1000 then now else now + interval);
     let reconfig = replyHasNewerConfig reply s1;
     let nextAction = (makeAction (if reconfig then Reconfig else NoAction))\<lparr>nextHeartbeatStartDate := nextDate\<rparr>;
     if reconfig \<and> role s1 \<noteq> kLeader then Some (nextAction, s1)
     else if \<not> isInitialized c then Some (nextAction, s1)
     else if selfIndex s1 = -1 then Some ((makeAction RetryReconfig)\<lparr>nextHeartbeatStartDate := nextDate\<rparr>, s1)
     else do {
       let i = findMemberIndexByHostAndPort c target;
       if i = -1 then Some (nextAction, s1)
       else processMemberReply now (hbState p = FAILED \<or> elapsed \<ge> heartbeatTimeoutPeriod c * 1000) reply i reconfig nextDate s1
     }
   }"

end
