(* ===== verification/TopologyCommit.thy ===== *)
theory TopologyCommit
  imports TopologyHeartbeat
begin

text \<open>
  Replication progress in \<open>TopologyCoordinator\<close>: the optimes that members report, whether a write has reached
  enough of them, the majority commit point, and whether a primary can hand over safely.
\<close>

subsection \<open>Own and reported optimes\<close>

definition setMyLastAppliedOpTimeAndWallTime ::
    "OpTimeAndWallTime \<Rightarrow> Date_t \<Rightarrow> bool \<Rightarrow> TopologyCoordinator \<Rightarrow> TopologyCoordinator option" where
  "setMyLastAppliedOpTimeAndWallTime t now isRollbackAllowed s = do {
     i \<leftarrow> selfMemberDataIndex s;
     m \<leftarrow> vec_at (memberData s) i;
     let mine = lastAppliedOpTime m;
     invariant (isRollbackAllowed \<or> op_eq (opTime t) mine \<or>
       (op_greater (opTime t) mine \<and>
        (getTerm (opTime t) = kUninitializedTerm \<or> getTerm mine = kUninitializedTerm \<or>
         getTimestamp (opTime t) > getTimestamp mine)));
     m1 \<leftarrow> setLastAppliedOpTimeAndWallTime t now m;
     Some (setMemberData i m1 s)
   }"

definition setMyLastDurableOpTimeAndWallTime ::
    "OpTimeAndWallTime \<Rightarrow> Date_t \<Rightarrow> bool \<Rightarrow> TopologyCoordinator \<Rightarrow> TopologyCoordinator option" where
  "setMyLastDurableOpTimeAndWallTime t now isRollbackAllowed s = do {
     i \<leftarrow> selfMemberDataIndex s;
     m \<leftarrow> vec_at (memberData s) i;
     invariant (isRollbackAllowed \<or> op_ge (opTime t) (lastDurableOpTime m));
     m1 \<leftarrow> setLastDurableOpTimeAndWallTime t now m;
     Some (setMemberData i m1 s)
   }"

record UpdateInfo =
  ui_memberId :: int
  ui_cfgver :: int
  ui_applied :: OpTimeAndWallTime
  ui_durable :: OpTimeAndWallTime

text \<open>The result of \<open>setLastOptime\<close>: a status, whether an optime advanced, and the out-parameter \<open>configVersion\<close>.\<close>

definition setLastOptime ::
    "bool \<Rightarrow> UpdateInfo \<Rightarrow> Date_t \<Rightarrow> TopologyCoordinator \<Rightarrow> ((bool StatusWith \<times> int option) \<times> TopologyCoordinator) option" where
  "setLastOptime fullyUpgraded args now s =
     (if selfIndex s = -1 then Some ((Inl NotPrimaryOrSecondary, None), s)
      else do {
        invariant (isInitialized (rsConfig s));
        if ui_memberId args < 0 then Some ((Inl BadValue, None), s)
        else do {
          me \<leftarrow> selfConfig s;
          if ui_memberId args = int (mc_id me) then Some ((Inr False, None), s)
          else if \<not> fullyUpgraded \<and> ui_cfgver args \<noteq> version (rsConfig s)
          then Some ((Inl InvalidReplicaSetConfig, Some (version (rsConfig s))), s)
          else (case getMemberIndex (rsConfig s) (ui_memberId args) of
                  Inl e \<Rightarrow> Some ((Inl e, None), s)
                | Inr i \<Rightarrow>
                    if i < 0 then do {
                      invariant (findMemberByID (rsConfig s) (nat (ui_memberId args)) = None);
                      Some ((Inl NodeNotFound, None), s)
                    }
                    else do {
                      m \<leftarrow> vec_at (memberData s) i;
                      invariant (ui_memberId args = memberId m);
                      (advA, m1) \<leftarrow> advanceLastAppliedOpTimeAndWallTime (ui_applied args) now m;
                      (advD, m2) \<leftarrow> advanceLastDurableOpTimeAndWallTime (ui_durable args) now m1;
                      Some ((Inr (advD \<or> advA), None), setMemberData i m2 s)
                    })
        }
      })"

definition updateLastCommittedInPrevConfig :: "TopologyCoordinator \<Rightarrow> TopologyCoordinator" where
  "updateLastCommittedInPrevConfig s = s\<lparr>lastCommittedInPrevConfig := opTime (lastCommittedOpTime s)\<rparr>"

text \<open>\<open>std::max\<close> returns its first argument unless it is less than the second.\<close>

definition getConfigOplogCommitmentOpTime :: "TopologyCoordinator \<Rightarrow> OpTime" where
  "getConfigOplogCommitmentOpTime s =
     (if op_less (lastCommittedInPrevConfig s) (firstOpTimeOfMyTerm s) then firstOpTimeOfMyTerm s
      else lastCommittedInPrevConfig s)"

subsection \<open>Waiting for a write concern\<close>

definition progressOf :: "bool \<Rightarrow> MemberData \<Rightarrow> OpTime" where
  "progressOf durablyWritten m = (if durablyWritten then lastDurableOpTime m else lastAppliedOpTime m)"

definition hasReached :: "OpTime \<Rightarrow> OpTime \<Rightarrow> bool" where
  "hasReached target t \<longleftrightarrow> getTerm t = getTerm target \<and> getTimestamp t \<ge> getTimestamp target"

fun countReached :: "TopologyCoordinator \<Rightarrow> OpTime \<Rightarrow> bool \<Rightarrow> MemberData list \<Rightarrow> int \<Rightarrow> bool option" where
  "countReached s target durably [] numNodes = Some False"
| "countReached s target durably (m # ms) numNodes = do {
     mc \<leftarrow> memberConfigAt s (configIndex m);
     if arbiterOnly mc then countReached s target durably ms numNodes
     else (let n = (if hasReached target (progressOf durably m) then numNodes - 1 else numNodes)
           in if n \<le> 0 then Some True else countReached s target durably ms n)
   }"

definition haveNumNodesReachedOpTime :: "OpTime \<Rightarrow> int \<Rightarrow> bool \<Rightarrow> TopologyCoordinator \<Rightarrow> bool option" where
  "haveNumNodesReachedOpTime target numNodes durably s = do {
     mine \<leftarrow> (if durably then getMyLastDurableOpTime s else getMyLastAppliedOpTime s);
     if op_less mine target then Some False
     else do {
       applied \<leftarrow> getMyLastAppliedOpTime s;
       invariant (getTerm target = getTerm applied);
       countReached s target durably (memberData s) numNodes
     }
   }"

fun feedMembers :: "TopologyCoordinator \<Rightarrow> (MemberData \<Rightarrow> bool) \<Rightarrow> MemberData list \<Rightarrow> BoundTagValue list \<Rightarrow> bool option" where
  "feedMembers s pred [] matcher = Some False"
| "feedMembers s pred (m # ms) matcher =
     (if pred m
      then do {
        invariant (configIndex m \<ge> 0);
        mc \<leftarrow> memberConfigAt s (configIndex m);
        (case feedTags (mc_tags mc) matcher of (done, matcher') \<Rightarrow>
           if done then Some True else feedMembers s pred ms matcher')
      }
      else feedMembers s pred ms matcher)"

definition haveTaggedNodesSatisfiedCondition ::
    "(MemberData \<Rightarrow> bool) \<Rightarrow> ReplSetTagPattern \<Rightarrow> TopologyCoordinator \<Rightarrow> bool option" where
  "haveTaggedNodesSatisfiedCondition pred p s = feedMembers s pred (memberData s) (newMatch p)"

definition makeOpTimePredicate :: "OpTime \<Rightarrow> bool \<Rightarrow> TopologyCoordinator \<Rightarrow> (MemberData \<Rightarrow> bool) option" where
  "makeOpTimePredicate t durably s = do {
     applied \<leftarrow> getMyLastAppliedOpTime s;
     invariant (getTerm t = getTerm applied);
     Some (\<lambda>m. hasReached t (progressOf durably m))
   }"

definition makeConfigPredicate :: "TopologyCoordinator \<Rightarrow> MemberData \<Rightarrow> bool" where
  "makeConfigPredicate s m \<longleftrightarrow> cvt_eq (md_getConfigVersionAndTerm m) (getConfigVersionAndTerm (rsConfig s))"

definition haveTaggedNodesReachedOpTime :: "OpTime \<Rightarrow> ReplSetTagPattern \<Rightarrow> bool \<Rightarrow> TopologyCoordinator \<Rightarrow> bool option" where
  "haveTaggedNodesReachedOpTime t p durably s = do {
     pred \<leftarrow> makeOpTimePredicate t durably s;
     haveTaggedNodesSatisfiedCondition pred p s
   }"

definition getHostsWrittenTo :: "OpTime \<Rightarrow> bool \<Rightarrow> TopologyCoordinator \<Rightarrow> HostAndPort list" where
  "getHostsWrittenTo t durably s = map md_hostAndPort (filter (\<lambda>m. \<not> op_less (progressOf durably m) t) (memberData s))"

subsection \<open>The commit point\<close>

definition advanceLastCommittedOpTimeAndWallTime ::
    "OpTimeAndWallTime \<Rightarrow> bool \<Rightarrow> TopologyCoordinator \<Rightarrow> (bool \<times> TopologyCoordinator) option" where
  "advanceLastCommittedOpTimeAndWallTime committed fromSyncSource s =
     (if selfIndex s = -1 then Some (False, s)
      else do {
        primary \<leftarrow> iAmPrimary s;
        if primary \<and> op_less (opTime committed) (firstOpTimeOfMyTerm s) then Some (False, s)
        else do {
          me \<leftarrow> selfConfig s;
          mine \<leftarrow> getMyLastAppliedOpTimeAndWallTime s;
          let otherTerm = (\<not> arbiterOnly me \<and> getTerm (opTime mine) \<noteq> getTerm (opTime committed));
          if otherTerm \<and> \<not> fromSyncSource then Some (False, s)
          else do {
            let c = (if otherTerm \<and> op_less (opTime mine) (opTime committed) then mine else committed);
            Some (if op_eq (opTime c) (opTime (lastCommittedOpTime s)) \<or> op_less (opTime c) (opTime (lastCommittedOpTime s))
                  then (False, s) else (True, s\<lparr>lastCommittedOpTime := c\<rparr>))
          }
        }
      })"

text \<open>\<open>std::sort\<close> by \<open>operator<\<close> of \<open>OpTimeAndWallTime\<close>, which compares the optimes only; here an insertion sort.\<close>

fun insertByOpTime :: "OpTimeAndWallTime \<Rightarrow> OpTimeAndWallTime list \<Rightarrow> OpTimeAndWallTime list" where
  "insertByOpTime t [] = [t]"
| "insertByOpTime t (u # us) = (if op_less (opTime u) (opTime t) then u # insertByOpTime t us else t # u # us)"

fun sortByOpTime :: "OpTimeAndWallTime list \<Rightarrow> OpTimeAndWallTime list" where
  "sortByOpTime [] = []"
| "sortByOpTime (t # ts) = insertByOpTime t (sortByOpTime ts)"

definition progressAndWallTime :: "bool \<Rightarrow> MemberData \<Rightarrow> OpTimeAndWallTime" where
  "progressAndWallTime durably m =
     (if durably then \<lparr>opTime = lastDurableOpTime m, wallTime = lastDurableWallTime m\<rparr>
      else \<lparr>opTime = lastAppliedOpTime m, wallTime = lastAppliedWallTime m\<rparr>)"

fun votersProgress :: "TopologyCoordinator \<Rightarrow> bool \<Rightarrow> MemberData list \<Rightarrow> OpTimeAndWallTime list option" where
  "votersProgress s durably [] = Some []"
| "votersProgress s durably (m # ms) = do {
     invariant (configIndex m \<ge> 0);
     mc \<leftarrow> memberConfigAt s (configIndex m);
     ts \<leftarrow> votersProgress s durably ms;
     Some (if isVoter mc then progressAndWallTime durably m # ts else ts)
   }"

definition updateLastCommittedOpTimeAndWallTime :: "TopologyCoordinator \<Rightarrow> (bool \<times> TopologyCoordinator) option" where
  "updateLastCommittedOpTimeAndWallTime s = do {
     primary \<leftarrow> iAmPrimary s;
     if \<not> primary \<or> leaderMode s = kSteppingDown then Some (False, s)
     else do {
       ts \<leftarrow> votersProgress s (writeConcernMajorityJournalDefault (rsConfig s)) (memberData s);
       invariant (ts \<noteq> []);
       if int (length ts) < writeMajority (rsConfig s) then Some (False, s)
       else do {
         committed \<leftarrow> vec_at (sortByOpTime ts) (int (length ts) - writeMajority (rsConfig s));
         advanceLastCommittedOpTimeAndWallTime committed False s
       }
     }
   }"

subsection \<open>Handing over\<close>

definition isCaughtUpAndElectable :: "int \<Rightarrow> OpTime \<Rightarrow> TopologyCoordinator \<Rightarrow> bool option" where
  "isCaughtUpAndElectable i lastApplied s = do {
     r \<leftarrow> getUnelectableReason i s;
     if r \<noteq> [] then Some False
     else do { m \<leftarrow> vec_at (memberData s) i; Some (op_ge (lastAppliedOpTime m) lastApplied) }
   }"

fun someCaughtUpAndElectable :: "nat \<Rightarrow> int \<Rightarrow> OpTime \<Rightarrow> TopologyCoordinator \<Rightarrow> bool option" where
  "someCaughtUpAndElectable 0 i lastApplied s = Some False"
| "someCaughtUpAndElectable (Suc n) i lastApplied s =
     (if i = selfIndex s then someCaughtUpAndElectable n (i + 1) lastApplied s
      else do {
        ok \<leftarrow> isCaughtUpAndElectable i lastApplied s;
        if ok then Some True else someCaughtUpAndElectable n (i + 1) lastApplied s
      })"

definition isSafeToStepDown :: "TopologyCoordinator \<Rightarrow> bool option" where
  "isSafeToStepDown s =
     (if \<not> isInitialized (rsConfig s) \<or> selfIndex s < 0 then Some False
      else do {
        lastApplied \<leftarrow> getMyLastAppliedOpTime s;
        if getTerm lastApplied \<noteq> tc_term s then Some True
        else (case findCustomWriteMode (rsConfig s) ''$majority'' of
                Inl _ \<Rightarrow> None
              | Inr p \<Rightarrow> do {
                  reached \<leftarrow> haveTaggedNodesReachedOpTime lastApplied p False s;
                  if \<not> reached then Some False
                  else someCaughtUpAndElectable (length (members (rsConfig s))) 0 lastApplied s
                })
      })"

definition canCompleteStepDownAttempt :: "Date_t \<Rightarrow> Date_t \<Rightarrow> bool \<Rightarrow> TopologyCoordinator \<Rightarrow> bool option" where
  "canCompleteStepDownAttempt now waitUntil force s =
     (if force \<and> now \<ge> waitUntil then Some True else isSafeToStepDown s)"

text \<open>\<open>uasserted\<close> throws: the error is returned as the status.\<close>

definition tryToStartStepDown ::
    "int \<Rightarrow> Date_t \<Rightarrow> Date_t \<Rightarrow> Date_t \<Rightarrow> bool \<Rightarrow> TopologyCoordinator \<Rightarrow> (bool StatusWith \<times> TopologyCoordinator) option" where
  "tryToStartStepDown termAtStart now waitUntil until force s =
     (if role s \<noteq> kLeader \<or> leaderMode s = kSteppingDown \<or> tc_term s \<noteq> termAtStart then Some (Inl PrimarySteppedDown, s)
      else do {
        invariant (leaderMode s = kAttemptingStepDown);
        if now \<ge> until then Some (Inl ExceededTimeLimit, s)
        else do {
          ok \<leftarrow> canCompleteStepDownAttempt now waitUntil force s;
          if \<not> ok then Some (if now \<ge> waitUntil then Inl ExceededTimeLimit else Inr False, s)
          else do {
            (_, s1) \<leftarrow> prepareForUnconditionalStepDown (s\<lparr>stepDownUntil := until\<rparr>);
            Some (Inr True, s1)
          }
        }
      })"

text \<open>The highest priority so far is an \<open>int\<close>: a priority assigned to it is truncated. Conversion of a value that is not
  finite is undefined.\<close>

definition double_to_int :: "double \<Rightarrow> int option" where
  "double_to_int d = (case d of Fin r \<Rightarrow> Some (if r \<ge> 0 then \<lfloor>r\<rfloor> else \<lceil>r\<rceil>) | _ \<Rightarrow> None)"

fun chooseHandoff :: "nat \<Rightarrow> int \<Rightarrow> OpTime \<Rightarrow> int \<Rightarrow> int \<Rightarrow> TopologyCoordinator \<Rightarrow> int option" where
  "chooseHandoff 0 i lastApplied best highest s = Some best"
| "chooseHandoff (Suc n) i lastApplied best highest s =
     (if i = selfIndex s then chooseHandoff n (i + 1) lastApplied best highest s
      else do {
        ok \<leftarrow> isCaughtUpAndElectable i lastApplied s;
        if \<not> ok then chooseHandoff n (i + 1) lastApplied best highest s
        else do {
          mc \<leftarrow> memberConfigAt s i;
          if d_less (Fin (of_int highest)) (priority mc)
          then do { h \<leftarrow> double_to_int (priority mc); chooseHandoff n (i + 1) lastApplied i h s }
          else chooseHandoff n (i + 1) lastApplied best highest s
        }
      })"

definition chooseElectionHandoffCandidate :: "TopologyCoordinator \<Rightarrow> int option" where
  "chooseElectionHandoffCandidate s = do {
     lastApplied \<leftarrow> getMyLastAppliedOpTime s;
     chooseHandoff (length (members (rsConfig s))) 0 lastApplied (-1) (-1) s
   }"

end
