(* ===== verification/VoteRequests.thy ===== *)
theory VoteRequests
  imports TopologyCommit "HOL-Library.Multiset"
begin

text \<open>
  Casting and collecting votes: \<open>processReplSetRequestVotes\<close> of \<open>TopologyCoordinator\<close>, the counting of votes in
  \<^verbatim>\<open>db/repl/vote_requester.cpp\<close>, and the runner of \<^verbatim>\<open>db/repl/scatter_gather_runner.cpp\<close> that sends one
  request per target and feeds the responses to such an algorithm. The contract between runner and algorithm
  (the abstract class \<open>ScatterGatherAlgorithm\<close>) is the locale \<open>scatter_gather\<close>.
\<close>

subsection \<open>Casting a vote\<close>

record ReplSetRequestVotesArgs =
  va_setName :: string
  va_term :: int
  va_candidateIndex :: int
  va_cfgVer :: int
  va_cfgTerm :: int
  va_lastAppliedOpTime :: OpTime
  va_dryRun :: bool

record ReplSetRequestVotesResponse =
  vr_term :: int
  vr_voteGranted :: bool

definition d_ge :: "double \<Rightarrow> double \<Rightarrow> bool" where
  "d_ge a b \<longleftrightarrow> a \<noteq> NaN \<and> b \<noteq> NaN \<and> \<not> d_less a b"

fun findHealthyPrimary :: "TopologyCoordinator \<Rightarrow> int \<Rightarrow> double \<Rightarrow> MemberData list \<Rightarrow> int \<Rightarrow> int option" where
  "findHealthyPrimary s candidate p [] i = Some (-1)"
| "findHealthyPrimary s candidate p (m # ms) i =
     (if \<not> up m \<or> md_getState m \<noteq> RS_PRIMARY then findHealthyPrimary s candidate p ms (i + 1)
      else do {
        mc \<leftarrow> memberConfigAt s i;
        if i \<noteq> candidate \<and> d_ge (priority mc) p then Some i else findHealthyPrimary s candidate p ms (i + 1)
      })"

definition findHealthyPrimaryOfEqualOrGreaterPriority :: "int \<Rightarrow> TopologyCoordinator \<Rightarrow> int option" where
  "findHealthyPrimaryOfEqualOrGreaterPriority candidate s = do {
     cc \<leftarrow> memberConfigAt s candidate;
     findHealthyPrimary s candidate (priority cc) (memberData s) 0
   }"

text \<open>The fail points are off, and the reasons given for a refusal are left out. The refusal of a second vote looks up the member voted for, to name it in the reason.\<close>

definition processReplSetRequestVotes ::
    "ReplSetRequestVotesArgs \<Rightarrow> TopologyCoordinator \<Rightarrow> (ReplSetRequestVotesResponse \<times> TopologyCoordinator) option" where
  "processReplSetRequestVotes args s = do {
     mine \<leftarrow> getMyLastAppliedOpTime s;
     let no = (\<lparr>vr_term = tc_term s, vr_voteGranted = False\<rparr>, s);
     if \<not> cvt_eq (ConfigVersionAndTerm (va_cfgVer args) (va_cfgTerm args)) (getConfigVersionAndTerm (rsConfig s)) \<or>
        va_term args < tc_term s \<or> va_setName args \<noteq> replSetName (rsConfig s) \<or> op_less (va_lastAppliedOpTime args) mine
     then Some no
     else if \<not> va_dryRun args \<and> lv_term (lastVote s) = va_term args
     then do { _ \<leftarrow> memberConfigAt s (lv_candidateIndex (lastVote s)); Some no }
     else do {
       betterPrimary \<leftarrow> findHealthyPrimaryOfEqualOrGreaterPriority (va_candidateIndex args) s;
       me \<leftarrow> selfConfig s;
       if arbiterOnly me \<and> betterPrimary \<ge> 0 then do { _ \<leftarrow> memberConfigAt s betterPrimary; Some no }
       else Some (\<lparr>vr_term = tc_term s, vr_voteGranted = True\<rparr>,
                  if va_dryRun args then s
                  else s\<lparr>lastVote := \<lparr>lv_term = va_term args, lv_candidateIndex = va_candidateIndex args\<rparr>\<rparr>)
     }
   }"

subsection \<open>Collecting votes\<close>

datatype PrimaryVote = Pending | Yes | No

datatype VoteResult = kSuccessfullyElected | kStaleTerm | kInsufficientVotes | kPrimaryRespondedNo | kCancelled

text \<open>What comes back for a request: nothing, a command error or an unreadable document, or a vote.\<close>

datatype VoteReply = NoReply | InvalidReply | Vote ReplSetRequestVotesResponse

record VoteAlgorithm =
  vq_config :: ReplSetConfig
  vq_candidateIndex :: int
  vq_term :: int
  vq_dryRun :: bool
  vq_lastAppliedOpTime :: OpTime
  vq_targets :: "HostAndPort list"
  vq_responders :: "HostAndPort list"
  vq_staleTerm :: bool
  vq_responsesProcessed :: nat
  vq_votes :: int
  vq_primaryHost :: "HostAndPort option"
  vq_primaryVote :: PrimaryVote

fun voteTargets :: "int \<Rightarrow> MemberConfig list \<Rightarrow> int \<Rightarrow> HostAndPort list" where
  "voteTargets candidate [] i = []"
| "voteTargets candidate (m # ms) i =
     (if isVoter m \<and> i \<noteq> candidate then [getHostAndPort m] else []) @ voteTargets candidate ms (i + 1)"

definition newVoteAlgorithm :: "ReplSetConfig \<Rightarrow> int \<Rightarrow> int \<Rightarrow> bool \<Rightarrow> OpTime \<Rightarrow> int \<Rightarrow> VoteAlgorithm" where
  "newVoteAlgorithm c candidate t dryRun applied primary =
     \<lparr>vq_config = c, vq_candidateIndex = candidate, vq_term = t, vq_dryRun = dryRun, vq_lastAppliedOpTime = applied,
      vq_targets = voteTargets candidate (members c) 0, vq_responders = [], vq_staleTerm = False, vq_responsesProcessed = 0,
      vq_votes = 1, vq_primaryHost = map_option getHostAndPort (vec_at (members c) primary), vq_primaryVote = Pending\<rparr>"

definition voteRequestArgs :: "VoteAlgorithm \<Rightarrow> ReplSetRequestVotesArgs" where
  "voteRequestArgs a =
     \<lparr>va_setName = replSetName (vq_config a), va_term = vq_term a, va_candidateIndex = vq_candidateIndex a,
      va_cfgVer = version (vq_config a), va_cfgTerm = config_term (vq_config a),
      va_lastAppliedOpTime = vq_lastAppliedOpTime a, va_dryRun = vq_dryRun a\<rparr>"

definition vote_getRequests :: "VoteAlgorithm \<Rightarrow> HostAndPort list" where
  "vote_getRequests a = vq_targets a"

definition vote_processResponse :: "HostAndPort \<Rightarrow> VoteReply \<Rightarrow> VoteAlgorithm \<Rightarrow> VoteAlgorithm" where
  "vote_processResponse target reply a0 =
     (let a = a0\<lparr>vq_responsesProcessed := vq_responsesProcessed a0 + 1\<rparr> in
      case reply of
        NoReply \<Rightarrow> a
      | InvalidReply \<Rightarrow>
          a\<lparr>vq_responders := List.insert target (vq_responders a),
            vq_primaryVote := (if vq_primaryHost a = Some target then No else vq_primaryVote a)\<rparr>
      | Vote r \<Rightarrow>
          a\<lparr>vq_responders := List.insert target (vq_responders a),
            vq_primaryVote := (if vq_primaryHost a = Some target then (if vr_voteGranted r then Yes else No) else vq_primaryVote a),
            vq_votes := (if vr_voteGranted r then vq_votes a + 1 else vq_votes a),
            vq_staleTerm := (vq_staleTerm a \<or> vr_term r > vq_term a)\<rparr>)"

definition vote_hasReceivedSufficientResponses :: "VoteAlgorithm \<Rightarrow> bool" where
  "vote_hasReceivedSufficientResponses a =
     (if vq_primaryHost a \<noteq> None \<and> vq_primaryVote a = No then True
      else if vq_primaryHost a \<noteq> None \<and> vq_primaryVote a = Pending then False
      else vq_staleTerm a \<or> vq_votes a \<ge> majorityVoteCount (vq_config a) \<or> vq_responsesProcessed a = length (vq_targets a))"

definition vote_getResult :: "VoteAlgorithm \<Rightarrow> VoteResult" where
  "vote_getResult a =
     (if vq_staleTerm a then kStaleTerm
      else if vq_primaryHost a \<noteq> None \<and> vq_primaryVote a \<noteq> Yes then kPrimaryRespondedNo
      else if vq_votes a \<ge> majorityVoteCount (vq_config a) then kSuccessfullyElected
      else kInsufficientVotes)"

subsection \<open>Scatter and gather\<close>

text \<open>
  The runner keeps the callbacks that have not come back, here the requests they belong to; the event
  \<open>_sufficientResponsesReceived\<close> is valid while the runner has not finished. The algorithm is given by its three operations.
\<close>

record ('a, 'q) Runner =
  algorithm :: 'a
  callbacks :: "'q list"
  finished :: bool

definition runner_signal :: "('a, 'q) Runner \<Rightarrow> ('a, 'q) Runner" where
  "runner_signal r = (if finished r then r else r\<lparr>callbacks := [], finished := True\<rparr>)"

definition runner_start :: "('a \<Rightarrow> 'q list) \<Rightarrow> ('a \<Rightarrow> bool) \<Rightarrow> 'a \<Rightarrow> ('a, 'q) Runner option" where
  "runner_start requests sufficient a = do {
     let r = \<lparr>algorithm = a, callbacks = requests a, finished = False\<rparr>;
     if callbacks r = [] \<or> sufficient a
     then do { invariant (sufficient a); Some (runner_signal r) }
     else Some r
   }"

definition runner_processResponse ::
    "('q \<Rightarrow> 'r \<Rightarrow> 'a \<Rightarrow> 'a) \<Rightarrow> ('a \<Rightarrow> bool) \<Rightarrow> 'q \<Rightarrow> 'r \<Rightarrow> ('a, 'q) Runner \<Rightarrow> ('a, 'q) Runner option" where
  "runner_processResponse process sufficient q reply r =
     (if finished r then Some r
      else do {
        invariant (q \<in> set (callbacks r));
        let r1 = r\<lparr>callbacks := remove1 q (callbacks r), algorithm := process q reply (algorithm r)\<rparr>;
        if sufficient (algorithm r1) then Some (runner_signal r1)
        else do { invariant (callbacks r1 \<noteq> []); Some r1 }
      })"

text \<open>The replies in the order in which they arrive, each for a request that is still out.\<close>

fun runner_run ::
    "('q \<Rightarrow> 'r \<Rightarrow> 'a \<Rightarrow> 'a) \<Rightarrow> ('a \<Rightarrow> bool) \<Rightarrow> ('q \<times> 'r) list \<Rightarrow> ('a, 'q) Runner \<Rightarrow> ('a, 'q) Runner option" where
  "runner_run process sufficient [] r = Some r"
| "runner_run process sufficient ((q, reply) # qs) r = do {
     r1 \<leftarrow> runner_processResponse process sufficient q reply r;
     runner_run process sufficient qs r1
   }"

text \<open>
  The contract: an algorithm that has been given a proper reply to each of its requests has received sufficient responses.
  From it follows that the runner passes its assertions and finishes, whatever the order of the replies.
\<close>

locale scatter_gather =
  fixes requests :: "'a \<Rightarrow> 'q list"
    and process :: "'q \<Rightarrow> 'r \<Rightarrow> 'a \<Rightarrow> 'a"
    and sufficient :: "'a \<Rightarrow> bool"
    and started :: "'a \<Rightarrow> bool"
    and proper :: "'a \<Rightarrow> 'q \<Rightarrow> 'r \<Rightarrow> bool"
  assumes enough: "started a \<Longrightarrow> mset (map fst qs) = mset (requests a) \<Longrightarrow> \<forall>(q, r) \<in> set qs. proper a q r \<Longrightarrow>
    sufficient (fold (\<lambda>(q, r). process q r) qs a)"
begin

definition feed :: "('q \<times> 'r) list \<Rightarrow> 'a \<Rightarrow> 'a" where
  "feed qs a = fold (\<lambda>(q, r). process q r) qs a"

definition runner_ok :: "'a \<Rightarrow> ('q \<times> 'r) list \<Rightarrow> ('a, 'q) Runner \<Rightarrow> bool" where
  "runner_ok a qs r \<longleftrightarrow> algorithm r = feed qs a \<and> (\<forall>(q, reply) \<in> set qs. proper a q reply) \<and>
     (if finished r then sufficient (algorithm r) \<and> callbacks r = []
      else \<not> sufficient (algorithm r) \<and> callbacks r \<noteq> [] \<and> mset (map fst qs) + mset (callbacks r) = mset (requests a))"

lemma feed_snoc: "feed (qs @ [(q, r)]) a = process q r (feed qs a)"
  by (simp add: feed_def)

lemma start_ok:
  assumes "started a"
  shows "\<exists>r. runner_start requests sufficient a = Some r \<and> runner_ok a [] r"
proof (cases "sufficient a")
  case True
  then show ?thesis by (auto simp: runner_start_def runner_ok_def runner_signal_def feed_def)
next
  case False
  then have "requests a \<noteq> []" using enough [OF assms, of "[]"] by auto
  then show ?thesis using False by (auto simp: runner_start_def runner_ok_def feed_def)
qed

lemma process_ok:
  assumes "started a" "runner_ok a qs r" "\<not> finished r" "q \<in> set (callbacks r)" "proper a q reply"
  shows "\<exists>r'. runner_processResponse process sufficient q reply r = Some r' \<and> runner_ok a (qs @ [(q, reply)]) r'"
proof -
  have "q \<in># mset (callbacks r)" using assms(4) by simp
  then obtain M where "mset (callbacks r) = add_mset q M" by (blast dest: multi_member_split)
  then have m: "mset (map fst (qs @ [(q, reply)])) + mset (remove1 q (callbacks r)) = mset (requests a)"
    using assms(2,3) by (simp add: runner_ok_def)
  have p: "\<forall>(q, r) \<in> set (qs @ [(q, reply)]). proper a q r" using assms(2,5) by (auto simp: runner_ok_def)
  have alg: "process q reply (algorithm r) = feed (qs @ [(q, reply)]) a"
    using assms(2) by (simp add: runner_ok_def feed_snoc)
  show ?thesis
  proof (cases "sufficient (process q reply (algorithm r))")
    case True
    then show ?thesis using assms(3,4) alg p
      by (auto simp: runner_processResponse_def runner_ok_def runner_signal_def)
  next
    case False
    have "remove1 q (callbacks r) \<noteq> []"
    proof
      assume "remove1 q (callbacks r) = []"
      then have "mset (map fst (qs @ [(q, reply)])) = mset (requests a)" using m by (metis mset.simps(1) add.right_neutral)
      then have "sufficient (feed (qs @ [(q, reply)]) a)" using enough [OF assms(1)] p by (simp only: feed_def)
      then show False using False alg by simp
    qed
    then have "runner_ok a (qs @ [(q, reply)]) (r\<lparr>callbacks := remove1 q (callbacks r), algorithm := process q reply (algorithm r)\<rparr>)"
      using False assms(3) alg p m unfolding runner_ok_def
      by (simp del: map_append mset_append mset_map mset_remove1 set_append)
    then show ?thesis using False assms(3,4) \<open>remove1 q (callbacks r) \<noteq> []\<close> by (simp add: runner_processResponse_def)
  qed
qed

lemma run_finished: "finished r \<Longrightarrow> runner_run process sufficient qs r = Some r"
  by (induction qs) (auto simp: runner_processResponse_def)

lemma run_ok:
  assumes "started a" "runner_ok a old r" "\<not> finished r \<Longrightarrow> mset (map fst qs) = mset (callbacks r)"
    and "\<forall>(q, reply) \<in> set qs. proper a q reply"
  shows "\<exists>r' n. runner_run process sufficient qs r = Some r' \<and> finished r' \<and> algorithm r' = feed (take n qs) (algorithm r) \<and>
    sufficient (algorithm r')"
  using assms(2-)
proof (induction qs arbitrary: r old)
  case Nil
  then have "finished r" by (auto simp: runner_ok_def)
  then show ?case using Nil.prems(1) by (auto simp: runner_ok_def feed_def)
next
  case (Cons x qs)
  obtain q reply where x: "x = (q, reply)" by (cases x)
  show ?case
  proof (cases "finished r")
    case True
    then have "algorithm r = feed (take 0 (x # qs)) (algorithm r)" by (simp add: feed_def)
    then show ?thesis using True Cons.prems(1) run_finished [OF True] unfolding runner_ok_def by metis
  next
    case False
    have ms: "mset (callbacks r) = add_mset q (mset (map fst qs))" using Cons.prems(2) [OF False] x by simp
    then have q: "q \<in> set (callbacks r)" by (metis set_mset_mset union_single_eq_member add_mset_add_single)
    have "proper a q reply" using Cons.prems(3) x by auto
    then obtain r1 where r1: "runner_processResponse process sufficient q reply r = Some r1" "runner_ok a (old @ [(q, reply)]) r1"
      using process_ok [OF assms(1) Cons.prems(1) False q] by blast
    have alg: "algorithm r1 = process q reply (algorithm r)"
      using r1(2) Cons.prems(1) by (simp add: runner_ok_def feed_snoc)
    have "\<not> finished r1 \<Longrightarrow> mset (map fst qs) = mset (callbacks r1)"
      using r1(1) False ms q by (auto simp: runner_processResponse_def runner_signal_def Let_def abort_simps split: if_splits)
    then obtain r' n where "runner_run process sufficient qs r1 = Some r'" "finished r'"
      "algorithm r' = feed (take n qs) (algorithm r1)" "sufficient (algorithm r')"
      using Cons.IH [OF r1(2)] Cons.prems(3) x by auto
    then show ?thesis using r1(1) x alg
      by (intro exI [of _ r'] exI [of _ "Suc n"]) (simp add: feed_def)
  qed
qed

end

text \<open>The vote requester keeps the contract unless the primary, whose vote a catchup takeover needs, gives no reply.\<close>

definition vote_started :: "VoteAlgorithm \<Rightarrow> bool" where
  "vote_started a \<longleftrightarrow> vq_responsesProcessed a = 0 \<and> (\<forall>h. vq_primaryHost a = Some h \<longrightarrow> h \<in> set (vq_targets a))"

definition vote_proper :: "VoteAlgorithm \<Rightarrow> HostAndPort \<Rightarrow> VoteReply \<Rightarrow> bool" where
  "vote_proper a h reply \<longleftrightarrow> vq_primaryHost a = Some h \<longrightarrow> reply \<noteq> NoReply"

lemma vote_process_fields [simp]:
  "vq_targets (vote_processResponse h r a) = vq_targets a" "vq_primaryHost (vote_processResponse h r a) = vq_primaryHost a"
  "vq_config (vote_processResponse h r a) = vq_config a" "vq_term (vote_processResponse h r a) = vq_term a"
  "vq_candidateIndex (vote_processResponse h r a) = vq_candidateIndex a" "vq_dryRun (vote_processResponse h r a) = vq_dryRun a"
  "vq_responsesProcessed (vote_processResponse h r a) = Suc (vq_responsesProcessed a)"
  by (simp_all add: vote_processResponse_def Let_def split: VoteReply.split)

lemma vote_feed_fields:
  "vq_targets (fold (\<lambda>(h, r). vote_processResponse h r) qs a) = vq_targets a"
  "vq_primaryHost (fold (\<lambda>(h, r). vote_processResponse h r) qs a) = vq_primaryHost a"
  "vq_config (fold (\<lambda>(h, r). vote_processResponse h r) qs a) = vq_config a"
  "vq_responsesProcessed (fold (\<lambda>(h, r). vote_processResponse h r) qs a) = vq_responsesProcessed a + length qs"
  by (induction qs arbitrary: a) auto

lemma vote_process_primary:
  "vq_primaryVote (vote_processResponse h r a) = Pending \<Longrightarrow> vq_primaryVote a = Pending \<and> (vq_primaryHost a = Some h \<longrightarrow> r = NoReply)"
  by (cases r) (auto simp: vote_processResponse_def Let_def split: if_splits)

lemma vote_feed_primary:
  "vq_primaryVote (fold (\<lambda>(h, r). vote_processResponse h r) qs a) = Pending \<Longrightarrow>
     vq_primaryVote a = Pending \<and> (\<forall>(h, r) \<in> set qs. vq_primaryHost a = Some h \<longrightarrow> r = NoReply)"
proof (induction qs arbitrary: a)
  case (Cons x qs)
  obtain h r where x: "x = (h, r)" by (cases x)
  then show ?case using Cons.IH [of "vote_processResponse h r a"] Cons.prems vote_process_primary [of h r a] by auto
qed simp

interpretation vq: scatter_gather vote_getRequests vote_processResponse vote_hasReceivedSufficientResponses vote_started vote_proper
proof
  fix a and qs :: "(HostAndPort \<times> VoteReply) list"
  assume a: "vote_started a" "mset (map fst qs) = mset (vote_getRequests a)" "\<forall>(q, r) \<in> set qs. vote_proper a q r"
  let ?b = "fold (\<lambda>(h, r). vote_processResponse h r) qs a"
  have len: "length qs = length (vq_targets a)"
    using a(2) by (metis length_map mset_eq_length vote_getRequests_def)
  have "vq_primaryVote ?b \<noteq> Pending" if "vq_primaryHost a = Some h" for h
  proof
    assume "vq_primaryVote ?b = Pending"
    moreover have "h \<in> set (map fst qs)" using a(1,2) that mset_eq_setD unfolding vote_started_def vote_getRequests_def by blast
    ultimately show False using vote_feed_primary [of qs a] a(3) that unfolding vote_proper_def by fastforce
  qed
  then show "vote_hasReceivedSufficientResponses ?b"
    using a(1) len by (auto simp: vote_hasReceivedSufficientResponses_def vote_feed_fields vote_started_def)
qed

subsection \<open>Results of a vote request\<close>

definition grants :: "HostAndPort \<times> VoteReply \<Rightarrow> bool" where
  "grants qr = (case snd qr of Vote r \<Rightarrow> vr_voteGranted r | _ \<Rightarrow> False)"

lemma vote_process_votes: "vq_votes (vote_processResponse h r a) = vq_votes a + (if grants (h, r) then 1 else 0)"
  by (simp add: vote_processResponse_def grants_def Let_def split: VoteReply.split)

lemma vote_feed_votes: "vq_votes (fold (\<lambda>(h, r). vote_processResponse h r) qs a) = vq_votes a + int (countp grants qs)"
proof (induction qs arbitrary: a)
  case (Cons x qs)
  then show ?case by (cases x) (simp add: vote_process_votes)
qed simp

lemma voteTargets_set:
  "h \<in> set (voteTargets cand ms i) \<longleftrightarrow> (\<exists>k < length ms. h = getHostAndPort (ms ! k) \<and> isVoter (ms ! k) \<and> i + int k \<noteq> cand)"
proof (induction ms arbitrary: i)
  case (Cons m ms)
  show ?case
  proof
    assume "h \<in> set (voteTargets cand (m # ms) i)"
    then consider "h = getHostAndPort m" "isVoter m" "i \<noteq> cand" | "h \<in> set (voteTargets cand ms (i + 1))"
      by (auto split: if_splits)
    then show "\<exists>k < length (m # ms). h = getHostAndPort ((m # ms) ! k) \<and> isVoter ((m # ms) ! k) \<and> i + int k \<noteq> cand"
    proof cases
      case 1
      then show ?thesis by (intro exI [of _ 0]) simp
    next
      case 2
      then obtain k where "k < length ms" "h = getHostAndPort (ms ! k)" "isVoter (ms ! k)" "i + 1 + int k \<noteq> cand"
        using Cons.IH by blast
      then show ?thesis by (intro exI [of _ "Suc k"]) simp
    qed
  next
    assume "\<exists>k < length (m # ms). h = getHostAndPort ((m # ms) ! k) \<and> isVoter ((m # ms) ! k) \<and> i + int k \<noteq> cand"
    then obtain k where k: "k < length (m # ms)" "h = getHostAndPort ((m # ms) ! k)" "isVoter ((m # ms) ! k)" "i + int k \<noteq> cand"
      by blast
    then show "h \<in> set (voteTargets cand (m # ms) i)" using Cons.IH [of "i + 1"] by (cases k) auto
  qed
qed simp

text \<open>A requester whose required primary is another voter is ready to be run.\<close>

lemma newVoteAlgorithm_started:
  assumes "primary = -1 \<or> primary \<noteq> cand \<and> (\<exists>k < length (members c). primary = int k \<and> isVoter (members c ! k))"
  shows "vote_started (newVoteAlgorithm c cand t dry applied primary)"
  using assms by (auto simp: vote_started_def newVoteAlgorithm_def voteTargets_set vec_at_def)

text \<open>(C21) A vote request comes to an end, provided that the current primary answers when its vote is required: once each
  target has answered or failed to answer, in whatever order, the runner has passed all its assertions and finished. It has then
  looked at some initial part of the replies, has counted one vote more than were granted there, and reports success only when
  this number is a majority of the voters. The primary whose vote is required is taken to be another voting member. Without
  an answer of that primary the runner aborts (\<open>silent_primary_aborts\<close>).\<close>

theorem vote_request_finishes:
  assumes "primary = -1 \<or> primary \<noteq> cand \<and> (\<exists>k < length (members c). primary = int k \<and> isVoter (members c ! k))"
    and "mset (map fst qs) = mset (voteTargets cand (members c) 0)"
    and "\<forall>(h, reply) \<in> set qs. map_option getHostAndPort (vec_at (members c) primary) = Some h \<longrightarrow> reply \<noteq> NoReply"
  shows "\<exists>r r' n. runner_start vote_getRequests vote_hasReceivedSufficientResponses
           (newVoteAlgorithm c cand t dry applied primary) = Some r \<and>
       runner_run vote_processResponse vote_hasReceivedSufficientResponses qs r = Some r' \<and> finished r' \<and>
       vq_votes (algorithm r') = 1 + int (countp grants (take n qs)) \<and>
       (vote_getResult (algorithm r') = kSuccessfullyElected \<longrightarrow> majorityVoteCount c \<le> 1 + int (countp grants (take n qs)))"
proof -
  let ?a = "newVoteAlgorithm c cand t dry applied primary"
  have st: "vote_started ?a" by (rule newVoteAlgorithm_started) (rule assms(1))
  then obtain r where r: "runner_start vote_getRequests vote_hasReceivedSufficientResponses ?a = Some r" "vq.runner_ok ?a [] r"
    using vq.start_ok by blast
  have "\<not> finished r \<Longrightarrow> mset (map fst qs) = mset (callbacks r)"
    using r(2) assms(2) by (simp add: vq.runner_ok_def vote_getRequests_def newVoteAlgorithm_def)
  moreover have "\<forall>(h, reply) \<in> set qs. vote_proper ?a h reply"
    using assms(3) by (auto simp: vote_proper_def newVoteAlgorithm_def)
  ultimately obtain r' n where r': "runner_run vote_processResponse vote_hasReceivedSufficientResponses qs r = Some r'" "finished r'"
      "algorithm r' = vq.feed (take n qs) (algorithm r)"
    using vq.run_ok [OF st r(2)] by blast
  have "algorithm r' = fold (\<lambda>(h, r). vote_processResponse h r) (take n qs) ?a"
    using r'(3) r(2) by (simp add: vq.runner_ok_def vq.feed_def)
  then have "vq_votes (algorithm r') = 1 + int (countp grants (take n qs))" "vq_config (algorithm r') = c"
    by (simp_all add: vote_feed_votes vote_feed_fields newVoteAlgorithm_def)
  then show ?thesis using r(1) r'(1,2) by (auto simp: vote_getResult_def split: if_splits)
qed

definition sampleHost :: "nat \<Rightarrow> HostAndPort" where
  "sampleHost i = \<lparr>hostname = CHR ''h'' # showNat i, port = 27017\<rparr>"

definition yesVote :: "int \<Rightarrow> VoteReply" where
  "yesVote t = Vote \<lparr>vr_term = t, vr_voteGranted = True\<rparr>"

theorem vote_request_finishes_witness:
  "\<exists>r r' n. runner_start vote_getRequests vote_hasReceivedSufficientResponses
           (newVoteAlgorithm (sampleConfig 1 [1, 2, 3]) 0 4 True nullOpTime 1) = Some r \<and>
       runner_run vote_processResponse vote_hasReceivedSufficientResponses
         [(sampleHost 3, NoReply), (sampleHost 2, yesVote 3)] r = Some r' \<and> finished r' \<and>
       vq_votes (algorithm r') = 1 + int (countp grants (take n [(sampleHost 3, NoReply), (sampleHost 2, yesVote 3)]))"
proof -
  let ?c = "sampleConfig 1 [1, 2, 3]" and ?qs = "[(sampleHost 3, NoReply), (sampleHost 2, yesVote 3)]"
  have "length (members ?c) = 3" "isVoter (members ?c ! 1)" by code_simp+
  then have 1: "\<exists>k < length (members ?c). (1 :: int) = int k \<and> isVoter (members ?c ! k)" by (intro exI [of _ 1]) simp
  have 0: "(1 :: int) = -1 \<or> (1 :: int) \<noteq> 0 \<and> (\<exists>k < length (members ?c). (1 :: int) = int k \<and> isVoter (members ?c ! k))"
    using 1 by simp
  have "voteTargets 0 (members ?c) 0 = [sampleHost 2, sampleHost 3]" by code_simp
  then have 2: "mset (map fst ?qs) = mset (voteTargets 0 (members ?c) 0)" by simp
  have "map_option getHostAndPort (vec_at (members ?c) 1) = Some (sampleHost 2)" "sampleHost 3 \<noteq> sampleHost 2" by code_simp+
  then have 3: "\<forall>(h, reply) \<in> set ?qs. map_option getHostAndPort (vec_at (members ?c) 1) = Some h \<longrightarrow> reply \<noteq> NoReply"
    by (auto simp: yesVote_def)
  show ?thesis using vote_request_finishes [OF 0 2 3, of 4 True nullOpTime] by blast
qed

text \<open>
  The hypothesis on the primary is needed. \<open>processResponse\<close> leaves \<open>_primaryVote\<close> pending when the request to the primary fails,
  and \<open>hasReceivedSufficientResponses\<close> then never holds: after the last reply the runner aborts at
  \<open>invariant(!_callbacks.empty())\<close>. A catchup takeover whose primary has become unreachable is enough.
\<close>

lemma silent_primary_aborts:
  "Option.bind (runner_start vote_getRequests vote_hasReceivedSufficientResponses
       (newVoteAlgorithm (sampleConfig 1 [1, 2, 3]) 0 4 True nullOpTime 1))
     (runner_run vote_processResponse vote_hasReceivedSufficientResponses
       [(sampleHost 2, NoReply), (sampleHost 3, yesVote 3)]) = None"
  by code_simp

end
