(* ===== verification/TopologyInv.thy ===== *)
theory TopologyInv
  imports VoteRequests
begin

text \<open>
  The invariant of a \<open>TopologyCoordinator\<close> and that every operation keeps it: role and leader mode agree, the member data
  follows the configuration position by position, and each member's last heartbeat response is complete.
  Most operations only write to member data and progress; that they leave the control state alone is proved once for each and
  collected in \<open>frame_simps\<close>.
\<close>

named_theorems frame_simps \<open>operations leave the control state of the coordinator alone\<close>

subsection \<open>Member data\<close>

definition md_ok :: "MemberData \<Rightarrow> bool" where
  "md_ok m \<longleftrightarrow> hb_state (lastResponse m) \<noteq> None \<and> hb_electionTime (lastResponse m) \<noteq> None \<and>
     (\<exists>t. hb_appliedOpTime (lastResponse m) = Some t \<and> wallTimeOk t)"

text \<open>The part of a member's data that ties it to its place in the configuration.\<close>

definition md_key :: "MemberData \<Rightarrow> int \<times> bool \<times> int \<times> HostAndPort" where
  "md_key m = (configIndex m, isSelf m, memberId m, md_hostAndPort m)"

definition replyOk :: "ReplSetHeartbeatResponse \<Rightarrow> bool" where
  "replyOk r \<longleftrightarrow> (\<forall>t. hb_appliedOpTime r = Some t \<longrightarrow> wallTimeOk t) \<and> (\<forall>t. hb_durableOpTime r = Some t \<longrightarrow> wallTimeOk t)"

lemma wallTimeOk_null [simp]: "wallTimeOk nullOpTimeAndWallTime"
  by (simp add: wallTimeOk_def nullOpTimeAndWallTime_def nullOpTime_def op_isNull_def ts_isNull_def)

lemma md_ok_stateOnly [simp]: "md_ok (m\<lparr>lastResponse := stateOnlyResponse st\<rparr>)"
  by (simp add: md_ok_def stateOnlyResponse_def)

lemma md_ok_new [simp]: "md_ok newMemberData"
  by (simp add: md_ok_def newMemberData_def stateOnlyResponse_def)

lemma md_ok_cong: "lastResponse m = lastResponse m' \<Longrightarrow> md_ok m = md_ok m'"
  by (simp add: md_ok_def)

lemma op_le_refl [simp]: "op_le a a"
  by (simp add: op_le_def op_eq_def)

lemma op_less_le: "op_less a b \<Longrightarrow> op_le a b"
  by (simp add: op_le_def)

lemma advanceApplied_ok:
  assumes "wallTimeOk t"
  obtains b m' where "advanceLastAppliedOpTimeAndWallTime t now m = Some (b, m')"
    "m' = m\<lparr>lastUpdate := now, lastUpdateStale := False, lastAppliedOpTime := lastAppliedOpTime m',
            lastAppliedWallTime := lastAppliedWallTime m'\<rparr>"
    "lastAppliedOpTime m' = (if b then opTime t else lastAppliedOpTime m)" "b \<longleftrightarrow> op_less (lastAppliedOpTime m) (opTime t)"
  using assms
  by (cases "op_less (lastAppliedOpTime m) (opTime t)")
     (auto simp: advanceLastAppliedOpTimeAndWallTime_def setLastAppliedOpTimeAndWallTime_def updateLiveness_def Let_def)

lemma advanceDurable_ok:
  assumes "wallTimeOk t"
  obtains b m' where "advanceLastDurableOpTimeAndWallTime t now m = Some (b, m')"
    "m' = m\<lparr>lastUpdate := now, lastUpdateStale := False, lastDurableOpTime := lastDurableOpTime m',
            lastDurableWallTime := lastDurableWallTime m'\<rparr>"
    "lastDurableOpTime m' = (if b then opTime t else lastDurableOpTime m)" "b \<longleftrightarrow> op_less (lastDurableOpTime m) (opTime t)"
  using assms
  by (cases "op_less (lastDurableOpTime m) (opTime t)")
     (auto simp: advanceLastDurableOpTimeAndWallTime_def updateLiveness_def Let_def)

text \<open>The optime known of a member after a report: the reported one if it is later.\<close>

definition later :: "OpTime \<Rightarrow> OpTime \<Rightarrow> OpTime" where
  "later a b = (if op_less a b then b else a)"

text \<open>What a good heartbeat response does to a member's data.\<close>

lemma setUpValues_ok:
  assumes "md_ok m" "replyOk r"
  obtains b m' where "setUpValues now r m = Some (b, m')" "md_ok m'" "md_key m' = md_key m" "up m'"
    "op_le (lastAppliedOpTime m) (lastAppliedOpTime m')" "op_le (lastDurableOpTime m) (lastDurableOpTime m')"
    "md_getState m' = (case hb_state r of Some st \<Rightarrow> st | None \<Rightarrow> RS_UNKNOWN)"
    "\<forall>t. hb_appliedOpTime r = Some t \<longrightarrow> op_ge (lastAppliedOpTime m') (opTime t)"
    "md_getTerm m' = hb_term r" "md_getConfigVersionAndTerm m' = hb_getConfigVersionAndTerm r"
    "\<forall>t. hb_appliedOpTime r = Some t \<longrightarrow> lastAppliedOpTime m' = later (lastAppliedOpTime m) (opTime t)"
    "\<forall>t. hb_durableOpTime r = Some t \<longrightarrow> lastDurableOpTime m' = later (lastDurableOpTime m) (opTime t)"
proof -
  let ?r = "completeResponse (lastResponse m) r"
  let ?m1 = "m\<lparr>health := 1, upSince := (if upSince m = 0 then now else upSince m), authIssue := False,
                lastHeartbeat := now, lastUpdate := now, lastUpdateStale := False, updatedSinceRestart := True,
                lastHeartbeatMessage := ''''\<rparr>"
  obtain t where t: "hb_appliedOpTime ?r = Some t" "wallTimeOk t" "\<forall>u. hb_appliedOpTime r = Some u \<longrightarrow> u = t"
    using assms by (cases "hb_appliedOpTime r") (auto simp: completeResponse_def md_ok_def replyOk_def)
  let ?d = "case hb_durableOpTime ?r of Some t \<Rightarrow> t | None \<Rightarrow> nullOpTimeAndWallTime"
  have d: "wallTimeOk ?d" using assms(2) by (auto simp: completeResponse_def replyOk_def split: option.split)
  obtain a m2 where a: "advanceLastAppliedOpTimeAndWallTime t now ?m1 = Some (a, m2)"
    "m2 = ?m1\<lparr>lastUpdate := now, lastUpdateStale := False, lastAppliedOpTime := lastAppliedOpTime m2,
            lastAppliedWallTime := lastAppliedWallTime m2\<rparr>"
    "lastAppliedOpTime m2 = (if a then opTime t else lastAppliedOpTime ?m1)" "a \<longleftrightarrow> op_less (lastAppliedOpTime ?m1) (opTime t)"
    by (rule advanceApplied_ok [OF t(2)])
  obtain b m3 where b: "advanceLastDurableOpTimeAndWallTime ?d now m2 = Some (b, m3)"
    "m3 = m2\<lparr>lastUpdate := now, lastUpdateStale := False, lastDurableOpTime := lastDurableOpTime m3,
            lastDurableWallTime := lastDurableWallTime m3\<rparr>"
    "lastDurableOpTime m3 = (if b then opTime ?d else lastDurableOpTime m2)" "b \<longleftrightarrow> op_less (lastDurableOpTime m2) (opTime ?d)"
    by (rule advanceDurable_ok [OF d])
  let ?m' = "m3\<lparr>md_configTerm := hb_configTerm ?r, md_configVersion := hb_configVersion ?r, lastResponse := ?r\<rparr>"
  have eq: "setUpValues now r m = Some (b \<or> a \<or> cvt_less (md_getConfigVersionAndTerm m3) (hb_getConfigVersionAndTerm ?r), ?m')"
    unfolding setUpValues_def Let_def t(1) using a(1) b(1) by simp
  have key: "md_key ?m' = md_key m" by (simp add: md_key_def, subst (1 2 3 4) b(2), subst (1 2 3 4) a(2), simp)
  have "health ?m' = 1" by (simp, subst b(2), subst a(2), simp)
  then have up: "up ?m'" by (simp add: up_def)
  have ap: "lastAppliedOpTime ?m' = lastAppliedOpTime m2" by (simp, subst b(2), simp)
  have du: "lastDurableOpTime m2 = lastDurableOpTime m" by (subst a(2), simp)
  have ok: "md_ok ?m'" using assms(1) t(1,2) by (auto simp: md_ok_def completeResponse_def split: option.split)
  show ?thesis
  proof (rule that [OF eq ok key up])
    show "op_le (lastAppliedOpTime m) (lastAppliedOpTime ?m')" unfolding ap using a(3,4) by (auto simp: op_less_le)
    show "op_le (lastDurableOpTime m) (lastDurableOpTime ?m')" using b(3,4) du by (auto simp: op_less_le)
    show "md_getState ?m' = (case hb_state r of Some st \<Rightarrow> st | None \<Rightarrow> RS_UNKNOWN)"
      by (simp add: md_getState_def completeResponse_def split: option.split)
    show "\<forall>t. hb_appliedOpTime r = Some t \<longrightarrow> op_ge (lastAppliedOpTime ?m') (opTime t)"
      unfolding ap using a(3,4) t(3) op.trichotomy [of "opTime t" "opTime t"] by (auto simp: op_ge_def)
    show "md_getTerm ?m' = hb_term r" by (simp add: md_getTerm_def completeResponse_def)
    show "md_getConfigVersionAndTerm ?m' = hb_getConfigVersionAndTerm r"
      by (simp add: md_getConfigVersionAndTerm_def hb_getConfigVersionAndTerm_def completeResponse_def)
    have "lastAppliedOpTime ?m1 = lastAppliedOpTime m" by simp
    then show "\<forall>t. hb_appliedOpTime r = Some t \<longrightarrow> lastAppliedOpTime ?m' = later (lastAppliedOpTime m) (opTime t)"
      unfolding ap using a(3,4) t(3) by (simp add: later_def)
    have "\<forall>u. hb_durableOpTime r = Some u \<longrightarrow> ?d = u" by (simp add: completeResponse_def)
    then show "\<forall>t. hb_durableOpTime r = Some t \<longrightarrow> lastDurableOpTime ?m' = later (lastDurableOpTime m) (opTime t)"
      using b(3,4) du by (simp add: later_def)
  qed
qed

text \<open>(C22) A member's data stays well-formed, so that the getters of its last response never assert in vain, and its optimes
  never go back. A good response is always taken in: it keeps the place of the member in the configuration, marks it up, moves neither
  optime back, and makes the applied and the durable optime the reported one if that is later. A lost connection or an authentication failure
  mark the member down and keep its place and both optimes as they were.\<close>

theorem member_data_wellformed:
  assumes "md_ok m" "replyOk r"
  shows "(\<exists>b m'. setUpValues now r m = Some (b, m') \<and> md_ok m' \<and> md_key m' = md_key m \<and> up m' \<and>
      op_le (lastAppliedOpTime m) (lastAppliedOpTime m') \<and> op_le (lastDurableOpTime m) (lastDurableOpTime m') \<and>
      (\<forall>t. hb_appliedOpTime r = Some t \<longrightarrow>
         lastAppliedOpTime m' = later (lastAppliedOpTime m) (opTime t) \<and> op_ge (lastAppliedOpTime m') (opTime t)) \<and>
      (\<forall>t. hb_durableOpTime r = Some t \<longrightarrow>
         lastDurableOpTime m' = later (lastDurableOpTime m) (opTime t) \<and> op_ge (lastDurableOpTime m') (opTime t))) \<and>
    (\<forall>m' \<in> {setDownValues now msg m, setAuthIssue now m}. md_ok m' \<and> md_key m' = md_key m \<and> \<not> up m' \<and>
      lastAppliedOpTime m' = lastAppliedOpTime m \<and> lastAppliedWallTime m' = lastAppliedWallTime m \<and>
      lastDurableOpTime m' = lastDurableOpTime m \<and> lastDurableWallTime m' = lastDurableWallTime m)"
proof -
  have "op_ge (later a b) b" for a b using op.trichotomy [of b b] by (auto simp: later_def op_ge_def)
  moreover have "\<forall>m' \<in> {setDownValues now msg m, setAuthIssue now m}. md_ok m' \<and> md_key m' = md_key m \<and> \<not> up m' \<and>
      lastAppliedOpTime m' = lastAppliedOpTime m \<and> lastAppliedWallTime m' = lastAppliedWallTime m \<and>
      lastDurableOpTime m' = lastDurableOpTime m \<and> lastDurableWallTime m' = lastDurableWallTime m"
    by (simp add: setDownValues_def setAuthIssue_def md_key_def up_def)
  moreover obtain b m' where "setUpValues now r m = Some (b, m')" "md_ok m'" "md_key m' = md_key m" "up m'"
    "op_le (lastAppliedOpTime m) (lastAppliedOpTime m')" "op_le (lastDurableOpTime m) (lastDurableOpTime m')"
    "\<forall>t. hb_appliedOpTime r = Some t \<longrightarrow> lastAppliedOpTime m' = later (lastAppliedOpTime m) (opTime t)"
    "\<forall>t. hb_durableOpTime r = Some t \<longrightarrow> lastDurableOpTime m' = later (lastDurableOpTime m) (opTime t)"
    by (rule setUpValues_ok [OF assms])
  ultimately show ?thesis by simp
qed

definition sampleBeat :: ReplSetHeartbeatResponse where
  "sampleBeat = (stateOnlyResponse RS_SECONDARY)\<lparr>
     hb_appliedOpTime := Some \<lparr>opTime = OpTime (Timestamp 9 1) 3, wallTime = 8\<rparr>,
     hb_durableOpTime := Some \<lparr>opTime = OpTime (Timestamp 8 1) 3, wallTime = 7\<rparr>\<rparr>"

theorem member_data_wellformed_witness:
  "md_ok newMemberData \<and> (\<exists>b m'. setUpValues 5 sampleBeat newMemberData = Some (b, m') \<and> md_ok m' \<and> up m' \<and>
     lastAppliedOpTime m' = OpTime (Timestamp 9 1) 3 \<and> lastDurableOpTime m' = OpTime (Timestamp 8 1) 3)"
proof -
  have "replyOk sampleBeat"
    by (simp add: replyOk_def sampleBeat_def stateOnlyResponse_def emptyResponse_def wallTimeOk_def)
  note w = member_data_wellformed [OF md_ok_new this, of 5 "''x''"]
  have "later (lastAppliedOpTime newMemberData) (OpTime (Timestamp 9 1) 3) = OpTime (Timestamp 9 1) 3"
    "later (lastDurableOpTime newMemberData) (OpTime (Timestamp 8 1) 3) = OpTime (Timestamp 8 1) 3"
    by code_simp+
  moreover have "hb_appliedOpTime sampleBeat = Some \<lparr>opTime = OpTime (Timestamp 9 1) 3, wallTime = 8\<rparr>"
    "hb_durableOpTime sampleBeat = Some \<lparr>opTime = OpTime (Timestamp 8 1) 3, wallTime = 7\<rparr>" by (simp_all add: sampleBeat_def)
  ultimately show ?thesis using conjunct1 [OF w] md_ok_new by auto
qed

subsection \<open>The invariant\<close>

fun keysFrom :: "int \<Rightarrow> int \<Rightarrow> MemberConfig list \<Rightarrow> (int \<times> bool \<times> int \<times> HostAndPort) list" where
  "keysFrom self i [] = []"
| "keysFrom self i (mc # mcs) = (i, i = self, int (mc_id mc), getHostAndPort mc) # keysFrom self (i + 1) mcs"

definition aligned :: "TopologyCoordinator \<Rightarrow> bool" where
  "aligned s \<longleftrightarrow>
     (if selfIndex s = -1 then \<exists>m. memberData s = [m] \<and> isSelf m \<and> configIndex m = -1
      else map md_key (memberData s) = keysFrom (selfIndex s) 0 (members (rsConfig s)))"

definition control_ok :: "TopologyCoordinator \<Rightarrow> bool" where
  "control_ok s \<longleftrightarrow>
     (role s = kLeader \<longleftrightarrow> leaderMode s \<noteq> kNotLeader) \<and> (role s = kLeader \<longrightarrow> currentPrimaryIndex s = selfIndex s) \<and>
     (role s \<noteq> kFollower \<longrightarrow> selfIndex s \<noteq> -1) \<and>
     (selfIndex s \<noteq> -1 \<longrightarrow> 0 \<le> selfIndex s \<and> selfIndex s < getNumMembers (rsConfig s) \<and> isInitialized (rsConfig s)) \<and>
     -1 \<le> currentPrimaryIndex s \<and> currentPrimaryIndex s < int (length (memberData s)) \<and>
     (currentPrimaryIndex s \<noteq> -1 \<longrightarrow> selfIndex s \<noteq> -1) \<and> maintenanceModeCalls s \<ge> 0 \<and>
     -1 \<le> forceSyncSourceIndex s \<and> forceSyncSourceIndex s < getNumMembers (rsConfig s) \<and>
     (isInitialized (rsConfig s) \<longrightarrow> config_ok (rsConfig s)) \<and> storageEngineSupportsReadCommitted s \<noteq> kUnknown"

definition data_ok :: "TopologyCoordinator \<Rightarrow> bool" where
  "data_ok s \<longleftrightarrow> list_all md_ok (memberData s) \<and> (members (rsConfig s) = [] \<longrightarrow> list_all (\<lambda>m. \<not> up m) (memberData s))"

definition tc_inv :: "TopologyCoordinator \<Rightarrow> bool" where
  "tc_inv s \<longleftrightarrow> control_ok s \<and> aligned s \<and> data_ok s"

text \<open>The state without member data, pings, messages, dates, progress and sync source: what the invariant of the control state reads.\<close>

definition ctrl :: "TopologyCoordinator \<Rightarrow> TopologyCoordinator" where
  "ctrl s = s\<lparr>memberData := [], pings := [], pingsInConfig := 0, hbmsg := '''', hbmsgTime := 0, stepDownUntil := 0,
     electionSleepUntil := 0, lastCommittedOpTime := nullOpTimeAndWallTime, lastCommittedInPrevConfig := nullOpTime,
     syncSource := emptyHost, syncSourceBlacklist := []\<rparr>"

lemma ctrl_eq_iff:
  "ctrl s' = ctrl s \<longleftrightarrow> role s' = role s \<and> electionId s' = electionId s \<and> electionTime s' = electionTime s \<and>
     tc_term s' = tc_term s \<and> currentPrimaryIndex s' = currentPrimaryIndex s \<and>
     forceSyncSourceIndex s' = forceSyncSourceIndex s \<and> clusterRole s' = clusterRole s \<and>
     skipShardingConfigurationChecks s' = skipShardingConfigurationChecks s \<and> selfIndex s' = selfIndex s \<and>
     rsConfig s' = rsConfig s \<and> firstOpTimeOfMyTerm s' = firstOpTimeOfMyTerm s \<and>
     maintenanceModeCalls s' = maintenanceModeCalls s \<and> followerMode s' = followerMode s \<and> leaderMode s' = leaderMode s \<and>
     lastVote s' = lastVote s \<and> storageEngineSupportsReadCommitted s' = storageEngineSupportsReadCommitted s"
  unfolding ctrl_def by (cases s; cases s') auto

lemma ctrl_fields:
  assumes "ctrl s' = ctrl s"
  shows "role s' = role s" "leaderMode s' = leaderMode s" "selfIndex s' = selfIndex s" "rsConfig s' = rsConfig s"
    "tc_term s' = tc_term s" "lastVote s' = lastVote s" "currentPrimaryIndex s' = currentPrimaryIndex s"
    "firstOpTimeOfMyTerm s' = firstOpTimeOfMyTerm s"
  using assms by (simp_all add: ctrl_eq_iff)

lemma md_key_fields: "md_key m = md_key m' \<longleftrightarrow>
    configIndex m = configIndex m' \<and> isSelf m = isSelf m' \<and> memberId m = memberId m' \<and> md_hostAndPort m = md_hostAndPort m'"
  by (auto simp: md_key_def)

lemma tc_inv_data:
  assumes "tc_inv s" "ctrl s' = ctrl s" "map md_key (memberData s') = map md_key (memberData s)" "data_ok s'"
  shows "tc_inv s'"
proof -
  have len: "length (memberData s') = length (memberData s)" using assms(3) map_eq_imp_length_eq by metis
  have "aligned s'"
  proof (cases "selfIndex s = -1")
    case True
    then obtain m where m: "memberData s = [m]" "isSelf m" "configIndex m = -1" using assms(1) by (auto simp: tc_inv_def aligned_def)
    then obtain m' where "memberData s' = [m']" using len by (cases "memberData s'") auto
    then show ?thesis using True m assms(3) by (auto simp: aligned_def ctrl_fields [OF assms(2)] md_key_def)
  next
    case False
    then show ?thesis using assms(1,3) by (auto simp: tc_inv_def aligned_def ctrl_fields [OF assms(2)])
  qed
  then show ?thesis using assms(1,2,4) len by (simp add: tc_inv_def control_ok_def ctrl_eq_iff)
qed

subsection \<open>Vectors and member data\<close>

lemma vec_at_Some: "vec_at xs i = Some x \<longleftrightarrow> 0 \<le> i \<and> i < int (length xs) \<and> x = xs ! nat i"
  by (auto simp: vec_at_def)

lemma vec_at_None: "vec_at xs i = None \<longleftrightarrow> \<not> (0 \<le> i \<and> i < int (length xs))"
  by (auto simp: vec_at_def)

lemma keysFrom_length [simp]: "length (keysFrom self i mcs) = length mcs"
  by (induction mcs arbitrary: i) auto

lemma keysFrom_nth:
  "k < length mcs \<Longrightarrow> keysFrom self i mcs ! k = (i + int k, i + int k = self, int (mc_id (mcs ! k)), getHostAndPort (mcs ! k))"
proof (induction mcs arbitrary: i k)
  case (Cons mc mcs)
  then show ?case by (cases k) (auto simp: algebra_simps)
qed simp

lemma reconfigMembers_keys: "map md_key (reconfigMembers old self i mcs) = keysFrom self i mcs"
  by (induction mcs arbitrary: i) (auto simp: reconfigMemberData_def Let_def md_key_def)

lemma md_ok_reconfig: "list_all md_ok old \<Longrightarrow> md_ok (reconfigMemberData old self i mc)"
proof -
  assume ok: "list_all md_ok old"
  have "md_ok (case find P old of Some d \<Rightarrow> d | None \<Rightarrow> newMemberData)" for P
    using ok by (auto simp: find_Some_iff list_all_length split: option.split)
  then show ?thesis by (simp add: reconfigMemberData_def Let_def md_ok_def)
qed

lemma reconfigMembers_ok: "list_all md_ok old \<Longrightarrow> list_all md_ok (reconfigMembers old self i mcs)"
  by (induction mcs arbitrary: i) (auto simp: md_ok_reconfig)

text \<open>In a state that satisfies the invariant, the place of a member in the data is its place in the configuration.\<close>

lemma aligned_at:
  assumes "tc_inv s" "selfIndex s \<noteq> -1" "0 \<le> i" "i < getNumMembers (rsConfig s)"
  obtains m mc where "vec_at (memberData s) i = Some m" "memberConfigAt s i = Some mc" "configIndex m = i"
    "isSelf m \<longleftrightarrow> i = selfIndex s" "memberId m = int (mc_id mc)" "md_hostAndPort m = getHostAndPort mc" "md_ok m"
proof -
  let ?ms = "members (rsConfig s)"
  have keys: "map md_key (memberData s) = keysFrom (selfIndex s) 0 ?ms" using assms(1,2) by (simp add: tc_inv_def aligned_def)
  then have len: "length (memberData s) = length ?ms" by (metis keysFrom_length length_map)
  have n: "nat i < length ?ms" using assms(3,4) by (simp add: getNumMembers_def)
  have "md_key (memberData s ! nat i) = keysFrom (selfIndex s) 0 ?ms ! nat i" using keys len n by (metis nth_map)
  then have "md_key (memberData s ! nat i) = (i, i = selfIndex s, int (mc_id (?ms ! nat i)), getHostAndPort (?ms ! nat i))"
    using n assms(3) by (simp add: keysFrom_nth)
  moreover have "md_ok (memberData s ! nat i)" using assms(1) n len by (simp add: tc_inv_def data_ok_def list_all_length)
  ultimately show ?thesis using that [of "memberData s ! nat i" "?ms ! nat i"] n len assms(3)
    by (auto simp: md_key_def vec_at_def memberConfigAt_def)
qed

lemma aligned_length:
  "tc_inv s \<Longrightarrow> int (length (memberData s)) = (if selfIndex s = -1 then 1 else getNumMembers (rsConfig s))"
  unfolding tc_inv_def aligned_def getNumMembers_def by (auto split: if_splits) (metis keysFrom_length length_map)

lemma setMemberData_frame [frame_simps]: "ctrl (setMemberData i m s) = ctrl s"
  by (simp add: setMemberData_def ctrl_def)

lemma setMemberData_inv:
  assumes "tc_inv s" "vec_at (memberData s) i = Some m" "md_key m' = md_key m" "md_ok m'" "up m' \<Longrightarrow> members (rsConfig s) = [] \<Longrightarrow> up m"
  shows "tc_inv (setMemberData i m' s)"
proof (rule tc_inv_data [OF assms(1) setMemberData_frame])
  show "map md_key (memberData (setMemberData i m' s)) = map md_key (memberData s)"
    using assms(2,3) by (auto simp: setMemberData_def vec_update_def vec_at_Some map_update intro: list_update_same_conv [THEN iffD2])
  show "data_ok (setMemberData i m' s)"
    using assms(1,2,4,5) by (auto simp: tc_inv_def data_ok_def setMemberData_def vec_update_def list_all_length nth_list_update vec_at_Some split: if_splits)
qed

subsection \<open>Queries never abort\<close>

lemma tc_inv_self:
  assumes "tc_inv s"
  obtains i m where "selfMemberDataIndex s = Some i" "vec_at (memberData s) i = Some m" "selfMemberData s = Some m" "isSelf m"
    "i = (if selfIndex s = -1 then 0 else selfIndex s)"
proof (cases "selfIndex s = -1")
  case True
  then obtain m where m: "memberData s = [m]" "isSelf m" using assms by (auto simp: tc_inv_def aligned_def)
  then show ?thesis using True that [of 0 m] by (simp add: selfMemberDataIndex_def selfMemberData_def vec_at_def)
next
  case False
  then have i: "0 \<le> selfIndex s" "selfIndex s < getNumMembers (rsConfig s)" using assms by (auto simp: tc_inv_def control_ok_def)
  obtain m where m: "vec_at (memberData s) (selfIndex s) = Some m" "isSelf m \<longleftrightarrow> selfIndex s = selfIndex s"
    by (rule aligned_at [OF assms False i])
  then have "memberData s \<noteq> []" by (auto simp: vec_at_Some)
  then show ?thesis using False i(1) m that [of "selfIndex s" m] by (simp add: selfMemberDataIndex_def selfMemberData_def)
qed

lemma tc_inv_selfConfig:
  assumes "tc_inv s" "selfIndex s \<noteq> -1"
  obtains me where "selfConfig s = Some me" "me \<in> set (members (rsConfig s))"
proof -
  have "0 \<le> selfIndex s" "selfIndex s < getNumMembers (rsConfig s)" using assms by (auto simp: tc_inv_def control_ok_def)
  then show ?thesis using that by (auto simp: selfConfig_def memberConfigAt_def vec_at_def getNumMembers_def)
qed

lemma iAmPrimary_ok: "tc_inv s \<Longrightarrow> iAmPrimary s = Some (role s = kLeader)"
  by (auto simp: iAmPrimary_def leaderChecks_def tc_inv_def control_ok_def)

lemma getMyLastApplied_ok: "tc_inv s \<Longrightarrow> \<exists>t. getMyLastAppliedOpTime s = Some t"
  using tc_inv_self [of s] by (metis getMyLastAppliedOpTime_def option.simps(9))

lemma removedByClusterRole_ok: "tc_inv s \<Longrightarrow> \<exists>b. removedByClusterRole s = Some b"
  by (auto simp: removedByClusterRole_def tc_inv_def control_ok_def)

lemma getMemberState_ok:
  assumes "tc_inv s"
  shows "\<exists>st. getMemberState s = Some st"
proof (cases "selfIndex s = -1")
  case False
  obtain b where b: "removedByClusterRole s = Some b" using removedByClusterRole_ok [OF assms] by blast
  obtain me where me: "selfConfig s = Some me" using tc_inv_selfConfig [OF assms False] by blast
  have "role s = kLeader \<Longrightarrow> leaderChecks s = Some ()" using assms by (auto simp: leaderChecks_def tc_inv_def control_ok_def)
  then show ?thesis using False b me by (auto simp: getMemberState_def)
qed (simp add: getMemberState_def)

text \<open>A primary reports so unless its cluster role is wrong; whoever reports so is a primary.\<close>

lemma getMemberState_primary:
  assumes "tc_inv s" "getMemberState s = Some RS_PRIMARY" "followerMode s \<noteq> RS_PRIMARY"
  shows "role s = kLeader"
  using assms(2,3) by (auto simp: getMemberState_def abort_simps split: if_splits)

lemma countUpVotes_ok:
  assumes "tc_inv s" "length ms + k = length (memberData s)" "\<forall>j < length ms. ms ! j = memberData s ! (k + j)"
  shows "\<exists>n. countUpVotes s ms (int k) v = Some n"
  using assms(2,3)
proof (induction ms arbitrary: k v)
  case (Cons m ms)
  have m: "m = memberData s ! k" using Cons.prems(2) [rule_format, of 0] by simp
  have step: "\<exists>n. countUpVotes s ms (int k + 1) v' = Some n" for v'
  proof -
    have "\<forall>j < length ms. ms ! j = memberData s ! (Suc k + j)" using Cons.prems(2) by fastforce
    then show ?thesis using Cons.IH [of "Suc k" v'] Cons.prems(1) by (simp add: add.commute)
  qed
  have "memberConfigAt s (int k) \<noteq> None" if "int k = selfIndex s \<or> up m"
  proof -
    have "k < length (members (rsConfig s))"
    proof (cases "selfIndex s = -1")
      case True
      then have "k = 0" using aligned_length [OF assms(1)] Cons.prems(1) by simp
      moreover have "members (rsConfig s) \<noteq> []"
        using assms(1) that True m Cons.prems(1) by (auto simp: tc_inv_def data_ok_def list_all_length)
      ultimately show ?thesis by simp
    next
      case False
      then show ?thesis using aligned_length [OF assms(1)] Cons.prems(1) by (simp add: getNumMembers_def)
    qed
    then show ?thesis by (simp add: memberConfigAt_def vec_at_None)
  qed
  then show ?case using step by auto
qed simp

lemma aMajoritySeemsToBeUp_ok: "tc_inv s \<Longrightarrow> \<exists>b. aMajoritySeemsToBeUp s = Some b"
  using countUpVotes_ok [of s "memberData s" 0 0] by (auto simp: aMajoritySeemsToBeUp_def)

lemma latestKnownOpTime_ok: "tc_inv s \<Longrightarrow> \<exists>t. latestKnownOpTime s = Some t"
  using getMyLastApplied_ok [of s] by (auto simp: latestKnownOpTime_def)

lemma tc_inv_primary:
  assumes "tc_inv s" "currentPrimaryIndex s \<noteq> -1"
  obtains p pc where "vec_at (memberData s) (currentPrimaryIndex s) = Some p" "memberConfigAt s (currentPrimaryIndex s) = Some pc"
    "memberId p = int (mc_id pc)"
proof -
  have self: "selfIndex s \<noteq> -1" and range: "0 \<le> currentPrimaryIndex s" "currentPrimaryIndex s < int (length (memberData s))"
    using assms by (auto simp: tc_inv_def control_ok_def)
  have "currentPrimaryIndex s < getNumMembers (rsConfig s)" using aligned_length [OF assms(1)] self range(2) by simp
  then show ?thesis using aligned_at [OF assms(1) self range(1)] that by metis
qed

lemma freshPriority_ok: "tc_inv s \<Longrightarrow> \<exists>b. amIFreshEnoughForPriorityTakeover w s = Some b"
  unfolding amIFreshEnoughForPriorityTakeover_def using latestKnownOpTime_ok [of s] getMyLastApplied_ok [of s] by fastforce

lemma freshCatchup_ok:
  assumes "tc_inv s"
  shows "\<exists>b. amIFreshEnoughForCatchupTakeover s = Some b"
proof -
  obtain t u where tu: "latestKnownOpTime s = Some t" "getMyLastAppliedOpTime s = Some u"
    using latestKnownOpTime_ok getMyLastApplied_ok assms by blast
  show ?thesis
  proof (cases "currentPrimaryIndex s = -1")
    case True
    then show ?thesis using tu by (auto simp: amIFreshEnoughForCatchupTakeover_def)
  next
    case False
    then obtain p where "vec_at (memberData s) (currentPrimaryIndex s) = Some p" using tc_inv_primary [OF assms] by blast
    then show ?thesis using tu False by (auto simp: amIFreshEnoughForCatchupTakeover_def)
  qed
qed

lemma getMyUnelectableReason_ok:
  assumes "tc_inv s"
  shows "\<exists>r. getMyUnelectableReason w now reason s = Some r"
proof -
  obtain t b where tb: "getMyLastAppliedOpTime s = Some t" "aMajoritySeemsToBeUp s = Some b"
    using getMyLastApplied_ok aMajoritySeemsToBeUp_ok assms by blast
  show ?thesis
  proof (cases "selfIndex s = -1")
    case True
    then show ?thesis using tb by (simp add: getMyUnelectableReason_def Let_def)
  next
    case False
    obtain me st p c where "selfConfig s = Some me" "getMemberState s = Some st"
      "amIFreshEnoughForPriorityTakeover w s = Some p" "amIFreshEnoughForCatchupTakeover s = Some c"
      using tc_inv_selfConfig [OF assms False] getMemberState_ok freshPriority_ok freshCatchup_ok assms by metis
    then show ?thesis using tb False iAmPrimary_ok [OF assms] by (simp add: getMyUnelectableReason_def Let_def)
  qed
qed

text \<open>No reason means that the node may stand: it is in the configuration, with data, in state secondary, and electable.\<close>

lemma unelectable_empty:
  assumes "getMyUnelectableReason w now reason s = Some []"
  shows "selfIndex s \<noteq> -1 \<and> (\<exists>me t. selfConfig s = Some me \<and> \<not> arbiterOnly me \<and> \<not> noPriority me \<and>
     getMyLastAppliedOpTime s = Some t \<and> \<not> op_isNull t) \<and> stepDownUntil s \<le> now \<and> aMajoritySeemsToBeUp s = Some True"
  using assms by (auto simp: getMyUnelectableReason_def Let_def abort_simps split: if_splits)

end
