(* ===== verification/TopologyOps.thy ===== *)
theory TopologyOps
  imports TopologyInv
begin

text \<open>
  Each operation of the coordinator keeps the invariant \<open>tc_inv\<close> and, called as its callers call it, passes all its assertions.
\<close>

subsection \<open>Roles and leader modes\<close>

lemma tc_inv_cong:
  assumes "tc_inv s" "control_ok s'" "selfIndex s' = selfIndex s" "rsConfig s' = rsConfig s" "memberData s' = memberData s"
  shows "tc_inv s'"
  using assms by (simp add: tc_inv_def aligned_def data_ok_def)

lemma processWinElection_ok:
  assumes "tc_inv s" "role s = kCandidate"
  shows "\<exists>s'. processWinElection oid t s = Some s' \<and> tc_inv s' \<and> role s' = kLeader \<and> leaderMode s' = kLeaderElect \<and>
    tc_term s' = tc_term s \<and> lastVote s' = lastVote s \<and> selfIndex s' = selfIndex s \<and> rsConfig s' = rsConfig s"
proof -
  have c: "control_ok s" "leaderMode s = kNotLeader" using assms by (auto simp: tc_inv_def control_ok_def)
  let ?s = "s\<lparr>role := kLeader, leaderMode := kLeaderElect, electionTime := t, electionId := oid, currentPrimaryIndex := selfIndex s,
     syncSource := emptyHost, forceSyncSourceIndex := -1, firstOpTimeOfMyTerm := OpTime (Timestamp 2147483647 0) 2147483647\<rparr>"
  have "processWinElection oid t s = Some ?s"
    using assms(2) c(2) by (simp add: processWinElection_def setLeaderMode_def setElectionInfo_def)
  moreover have "control_ok ?s"
    using c(1) assms(2) aligned_length [OF assms(1)] by (auto simp: control_ok_def)
  then have "tc_inv ?s" by (rule tc_inv_cong [OF assms(1)]) simp_all
  ultimately show ?thesis by simp
qed

lemma processLoseElection_ok:
  assumes "tc_inv s" "role s = kCandidate"
  shows "\<exists>s'. processLoseElection s = Some s' \<and> tc_inv s' \<and> role s' = kFollower \<and> tc_term s' = tc_term s \<and>
    lastVote s' = lastVote s \<and> selfIndex s' = selfIndex s \<and> rsConfig s' = rsConfig s"
proof -
  have c: "control_ok s" "leaderMode s = kNotLeader" using assms by (auto simp: tc_inv_def control_ok_def)
  let ?s = "s\<lparr>electionTime := Timestamp 0 0, electionId := None, role := kFollower\<rparr>"
  have "control_ok ?s" using c assms(2) by (simp add: control_ok_def)
  then have "tc_inv ?s" by (rule tc_inv_cong [OF assms(1)]) simp_all
  then show ?thesis using assms(2) c(2) by (simp add: processLoseElection_def)
qed

lemma becomeCandidate_ok:
  assumes "tc_inv s"
  shows "\<exists>e s'. becomeCandidateIfElectable w now reason s = Some (e, s') \<and> tc_inv s' \<and>
    (if e = Inr () then role s = kFollower \<and> s' = s\<lparr>role := kCandidate\<rparr> \<and> getMyUnelectableReason w now reason s = Some []
     else s' = s)"
proof -
  obtain r where r: "getMyUnelectableReason w now reason s = Some r" using getMyUnelectableReason_ok [OF assms] by blast
  show ?thesis
  proof (cases "role s = kFollower \<and> r = []")
    case True
    then have "selfIndex s \<noteq> -1" using unelectable_empty r by blast
    then have "control_ok (s\<lparr>role := kCandidate\<rparr>)" using assms True by (simp add: tc_inv_def control_ok_def)
    then have "tc_inv (s\<lparr>role := kCandidate\<rparr>)" by (rule tc_inv_cong [OF assms]) simp_all
    then show ?thesis using True r by (simp add: becomeCandidateIfElectable_def)
  next
    case False
    then show ?thesis using r assms by (cases "role s") (simp_all add: becomeCandidateIfElectable_def)
  qed
qed

lemma setLeaderMode_inv:
  assumes "tc_inv s" "role s = kLeader" "n \<noteq> kNotLeader" "validLeaderModeChange (leaderMode s) n"
  shows "setLeaderMode n s = Some (s\<lparr>leaderMode := n\<rparr>) \<and> tc_inv (s\<lparr>leaderMode := n\<rparr>)"
proof -
  have "control_ok (s\<lparr>leaderMode := n\<rparr>)" using assms by (simp add: tc_inv_def control_ok_def)
  then have "tc_inv (s\<lparr>leaderMode := n\<rparr>)" by (rule tc_inv_cong [OF assms(1)]) simp_all
  then show ?thesis using assms(4) by (simp add: setLeaderMode_def)
qed

lemma tc_inv_first: "tc_inv s \<Longrightarrow> tc_inv (s\<lparr>firstOpTimeOfMyTerm := t\<rparr>)"
  by (auto simp: tc_inv_def control_ok_def aligned_def data_ok_def)

lemma leader_iff: "tc_inv s \<Longrightarrow> role s = kLeader \<longleftrightarrow> leaderMode s \<noteq> kNotLeader"
  by (simp add: tc_inv_def control_ok_def)

lemma completeTransition_ok:
  assumes "tc_inv s" "canCompleteTransitionToPrimary (getTerm first) s"
  shows "\<exists>s'. completeTransitionToPrimary first s = Some s' \<and> tc_inv s' \<and> role s' = kLeader \<and> tc_term s' = tc_term s \<and>
    lastVote s' = lastVote s \<and> (leaderMode s = kLeaderElect \<longrightarrow> canAcceptWrites s')"
proof -
  have l: "role s = kLeader" using assms leader_iff by (auto simp: canCompleteTransitionToPrimary_def)
  show ?thesis
  proof (cases "leaderMode s = kLeaderElect")
    case True
    then have "setLeaderMode kMaster s = Some (s\<lparr>leaderMode := kMaster\<rparr>)" "tc_inv (s\<lparr>leaderMode := kMaster\<rparr>)"
      using setLeaderMode_inv [OF assms(1) l, of kMaster] by simp_all
    then show ?thesis using assms(2) True l
      by (simp add: completeTransitionToPrimary_def canAcceptWrites_def tc_inv_first)
  next
    case False
    then show ?thesis using assms l by (simp add: completeTransitionToPrimary_def tc_inv_first)
  qed
qed

lemma prepareForUnconditionalStepDown_ok:
  assumes "tc_inv s" "role s = kLeader"
  shows "\<exists>b s'. prepareForUnconditionalStepDown s = Some (b, s') \<and> tc_inv s' \<and> leaderMode s' = kSteppingDown \<and>
    s' = s\<lparr>leaderMode := kSteppingDown\<rparr> \<and> (b \<longleftrightarrow> leaderMode s \<noteq> kSteppingDown)"
proof (cases "leaderMode s = kSteppingDown")
  case True
  then have "s\<lparr>leaderMode := kSteppingDown\<rparr> = s" by (simp flip: True)
  then show ?thesis using True assms by (auto simp: prepareForUnconditionalStepDown_def)
next
  case False
  then have "validLeaderModeChange (leaderMode s) kSteppingDown" using assms leader_iff by (cases "leaderMode s") auto
  then show ?thesis using setLeaderMode_inv [OF assms, of kSteppingDown] False
    by (auto simp: prepareForUnconditionalStepDown_def)
qed

lemma prepareForStepDownAttempt_ok:
  assumes "tc_inv s"
  shows "\<exists>e s'. prepareForStepDownAttempt s = Some (e, s') \<and> tc_inv s' \<and>
    (case e of Inl _ \<Rightarrow> s' = s | Inr m \<Rightarrow> m = leaderMode s \<and> (m = kMaster \<or> m = kLeaderElect) \<and> s' = s\<lparr>leaderMode := kAttemptingStepDown\<rparr>)"
proof (cases "leaderMode s = kMaster \<or> leaderMode s = kLeaderElect")
  case True
  then have "role s = kLeader" using leader_iff [OF assms] by auto
  then show ?thesis using setLeaderMode_inv [OF assms, of kAttemptingStepDown] True
    by (auto simp: prepareForStepDownAttempt_def)
next
  case False
  then show ?thesis using assms by (cases "leaderMode s") (simp_all add: prepareForStepDownAttempt_def)
qed

lemma stepDownAttemptAbort_ok:
  assumes "tc_inv s" "m = kMaster \<or> m = kLeaderElect"
  shows "\<exists>s'. stepDownAttemptAbort m s = Some s' \<and> tc_inv s' \<and> role s' = role s"
proof (cases "leaderMode s = kAttemptingStepDown")
  case True
  then have "role s = kLeader" using leader_iff [OF assms(1)] by auto
  then show ?thesis using setLeaderMode_inv [OF assms(1), of m] True assms(2) by (auto simp: stepDownAttemptAbort_def)
qed (use assms in \<open>simp add: stepDownAttemptAbort_def\<close>)

lemma findRemotePrimary_range:
  "0 \<le> i \<Longrightarrow> (r = -1 \<or> 0 \<le> r \<and> r < i \<and> r \<noteq> self) \<Longrightarrow> n = findRemotePrimary ms self i r \<Longrightarrow>
     n = -1 \<or> 0 \<le> n \<and> n < i + int (length ms) \<and> n \<noteq> self"
proof (induction ms self i r rule: findRemotePrimary.induct)
  case (2 m ms self i r)
  then show ?case by (auto split: if_splits)
qed auto

lemma finishUnconditionalStepDown_ok:
  assumes "tc_inv s" "leaderMode s = kSteppingDown"
  shows "\<exists>s'. finishUnconditionalStepDown s = Some s' \<and> tc_inv s' \<and> role s' = kFollower \<and> leaderMode s' = kNotLeader \<and>
    tc_term s' = tc_term s \<and> lastVote s' = lastVote s \<and> selfIndex s' = selfIndex s \<and> rsConfig s' = rsConfig s"
proof -
  let ?n = "findRemotePrimary (memberData s) (selfIndex s) 0 (-1)"
  have l: "role s = kLeader" using leader_iff [OF assms(1)] assms(2) by simp
  have c: "control_ok s" using assms(1) by (simp add: tc_inv_def)
  have n: "?n = -1 \<or> 0 \<le> ?n \<and> ?n < int (length (memberData s)) \<and> ?n \<noteq> selfIndex s"
    using findRemotePrimary_range [of 0 "-1" "selfIndex s" ?n "memberData s"] by simp
  let ?s = "s\<lparr>currentPrimaryIndex := ?n, role := kFollower, leaderMode := kNotLeader\<rparr>"
  have "selfIndex s \<noteq> -1" using c l by (simp add: control_ok_def)
  then have "finishUnconditionalStepDown s = Some ?s"
    using l n c assms(2) by (auto simp: finishUnconditionalStepDown_def stepDownSelfAndReplaceWith_def setLeaderMode_def control_ok_def)
  moreover have "control_ok ?s" using c n l by (auto simp: control_ok_def)
  then have "tc_inv ?s" by (rule tc_inv_cong [OF assms(1)]) simp_all
  ultimately show ?thesis by simp
qed

lemma updateTerm_ok:
  assumes "tc_inv s"
  shows "\<exists>r s'. updateTerm t now s = Some (r, s') \<and> tc_inv s' \<and> tc_term s \<le> tc_term s' \<and> lastVote s' = lastVote s \<and>
    role s' = role s \<and> leaderMode s' = leaderMode s \<and> selfIndex s' = selfIndex s \<and> rsConfig s' = rsConfig s \<and>
    (role s \<noteq> kLeader \<longrightarrow> t \<le> tc_term s' \<and> r \<noteq> kTriggerStepDown) \<and> (r = kUpdatedTerm \<longrightarrow> tc_term s' = t) \<and>
    (r \<noteq> kUpdatedTerm \<longrightarrow> tc_term s' = tc_term s) \<and> (r = kTriggerStepDown \<longrightarrow> role s = kLeader) \<and>
    (tc_term s < t \<and> role s \<noteq> kLeader \<longrightarrow> r = kUpdatedTerm) \<and> memberData s' = memberData s"
proof (cases "t \<le> tc_term s")
  case True
  then show ?thesis using assms by (simp add: updateTerm_def)
next
  case False
  let ?s = "s\<lparr>electionSleepUntil := now + electionTimeoutPeriod (rsConfig s)\<rparr>"
  have c: "control_ok s" using assms by (simp add: tc_inv_def)
  have i: "tc_inv ?s" by (rule tc_inv_cong [OF assms]) (use c in \<open>simp_all add: control_ok_def\<close>)
  have "tc_inv (?s\<lparr>tc_term := t\<rparr>)" by (rule tc_inv_cong [OF assms]) (use c in \<open>simp_all add: control_ok_def\<close>)
  then show ?thesis using False i iAmPrimary_ok [OF i] by (auto simp: updateTerm_def Let_def)
qed

lemma setFollowerMode_ok:
  assumes "tc_inv s" "role s = kFollower" "n = RS_RECOVERING \<or> n = RS_ROLLBACK \<or> n = RS_SECONDARY \<or> n = RS_STARTUP2"
  shows "setFollowerMode n s = Some (s\<lparr>followerMode := n\<rparr>) \<and> tc_inv (s\<lparr>followerMode := n\<rparr>)"
proof -
  have "tc_inv (s\<lparr>followerMode := n\<rparr>)"
    by (rule tc_inv_cong [OF assms(1)]) (use assms(1) in \<open>simp_all add: tc_inv_def control_ok_def\<close>)
  then show ?thesis using assms(2,3) by (auto simp: setFollowerMode_def)
qed

lemma adjustMaintenance_inv:
  assumes "tc_inv s" "adjustMaintenanceCountBy n s = Some s'"
  shows "tc_inv s' \<and> role s' = kFollower \<and> tc_term s' = tc_term s \<and> lastVote s' = lastVote s"
proof -
  have s': "s' = s\<lparr>maintenanceModeCalls := maintenanceModeCalls s + n\<rparr>" "0 \<le> maintenanceModeCalls s + n" "role s = kFollower"
    using assms(2) by (auto simp: adjustMaintenanceCountBy_def Let_def)
  have "tc_inv s'" unfolding s'(1)
    by (rule tc_inv_cong [OF assms(1)]) (use assms(1) s'(2) in \<open>simp_all add: tc_inv_def control_ok_def\<close>)
  then show ?thesis using s' by simp
qed

subsection \<open>Installing a configuration\<close>

lemma md_ok_find: "list_all md_ok ms \<Longrightarrow> md_ok (case find P ms of Some d \<Rightarrow> d | None \<Rightarrow> newMemberData)"
  by (auto simp: find_Some_iff list_all_length split: option.split)

lemma installMemberData_ok:
  assumes "list_all md_ok (memberData s)" "-1 \<le> self" "self < getNumMembers new"
  obtains s' where "installMemberData new self s = Some s'" "aligned s'" "list_all md_ok (memberData s')"
    "rsConfig s' = new" "selfIndex s' = self" "role s' = role s" "leaderMode s' = leaderMode s" "lastVote s' = lastVote s"
    "tc_term s' = tc_term s" "maintenanceModeCalls s' = maintenanceModeCalls s"
    "storageEngineSupportsReadCommitted s' = storageEngineSupportsReadCommitted s"
proof (cases "self = -1")
  case True
  let ?d = "(case find isSelf (memberData s) of Some d \<Rightarrow> d | None \<Rightarrow> newMemberData)\<lparr>configIndex := -1, isSelf := True\<rparr>"
  let ?s = "(updateHeartbeatDataForReconfig new self s)\<lparr>rsConfig := new, selfIndex := self\<rparr>"
  have "md_ok ?d" using md_ok_find [OF assms(1), of isSelf] by (simp add: md_ok_def)
  moreover have "memberData ?s = [?d]" using True by (simp add: updateHeartbeatDataForReconfig_def)
  ultimately show ?thesis using that [of ?s] True
    by (simp add: installMemberData_def aligned_def updateHeartbeatDataForReconfig_def)
next
  case False
  then have sd: "0 \<le> self" using assms(2) by simp
  let ?ms = "reconfigMembers (memberData s) self 0 (members new)"
  let ?m' = "(?ms ! nat self)\<lparr>md_configVersion := version new, md_configTerm := config_term new\<rparr>"
  let ?s = "s\<lparr>memberData := ?ms[nat self := ?m'], rsConfig := new, selfIndex := self\<rparr>"
  have len: "length ?ms = length (members new)" using reconfigMembers_keys by (metis keysFrom_length length_map)
  have n: "nat self < length ?ms" using sd assms(3) len by (simp add: getNumMembers_def)
  have ok: "list_all md_ok ?ms" using reconfigMembers_ok assms(1) by blast
  then have "md_ok ?m'" using n by (simp add: list_all_length md_ok_def)
  then have "list_all md_ok (?ms[nat self := ?m'])" using ok by (rule list_all_update [rotated])
  moreover have "map md_key (?ms[nat self := ?m']) = map md_key ?ms"
    using n by (simp add: map_update list_update_same_conv md_key_def)
  then have "aligned ?s" using False by (simp add: aligned_def reconfigMembers_keys)
  moreover have "installMemberData new self s = Some ?s"
    using sd n assms(3) len by (simp add: installMemberData_def updateHeartbeatDataForReconfig_def vec_at_def setMemberData_def
      vec_update_def getNumMembers_def Let_def)
  ultimately show ?thesis using that [of ?s] by simp
qed

lemma updateConfig_ok:
  assumes "tc_inv s" "role s \<noteq> kCandidate" "-1 \<le> self" "self < getNumMembers new" "config_ok new" "isInitialized new"
  shows "\<exists>s'. updateConfig new self now s = Some s' \<and> tc_inv s' \<and> rsConfig s' = new \<and> selfIndex s' = self \<and>
    lastVote s' = lastVote s \<and> tc_term s' = (if isInitialized (rsConfig s) then tc_term s else kInitialTerm) \<and>
    role s' = (if role s = kLeader \<and> self \<noteq> -1 \<and> isElectable (members new ! nat self) then kLeader else kFollower) \<and>
    leaderMode s' = (if role s' = kLeader then leaderMode s else kNotLeader)"
proof -
  have c: "control_ok s" and old: "list_all md_ok (memberData s)" using assms(1) by (auto simp: tc_inv_def data_ok_def)
  let ?s1 = "if \<not> isInitialized (rsConfig s) then s\<lparr>tc_term := kInitialTerm\<rparr> else s"
  have "list_all md_ok (memberData ?s1)" using old by simp
  then obtain s3 where s3: "installMemberData new self ?s1 = Some s3" "aligned s3" "list_all md_ok (memberData s3)"
    "rsConfig s3 = new" "selfIndex s3 = self" "role s3 = role s" "leaderMode s3 = leaderMode s" "lastVote s3 = lastVote s"
    "tc_term s3 = tc_term ?s1" "maintenanceModeCalls s3 = maintenanceModeCalls s"
    "storageEngineSupportsReadCommitted s3 = storageEngineSupportsReadCommitted s"
    by (rule installMemberData_ok [OF _ assms(3,4)]) simp_all
  let ?s4 = "s3\<lparr>forceSyncSourceIndex := -1\<rparr>"
  have ne: "members new \<noteq> []" using assms(5) by (auto simp: config_ok_def)
  have len: "int (length (memberData s3)) = (if self = -1 then 1 else getNumMembers new)"
    using s3(2,4,5) by (auto simp: getNumMembers_def aligned_def split: if_splits) (metis keysFrom_length length_map)
  have inv: "tc_inv (?s4\<lparr>role := r, leaderMode := lm, currentPrimaryIndex := p\<rparr>)"
    if "r = kLeader \<longleftrightarrow> lm \<noteq> kNotLeader" "r \<noteq> kCandidate" "if r = kLeader then p = self \<and> self \<noteq> -1 else p = -1" for r lm p
  proof -
    have "r = kLeader \<or> r = kFollower" using that(2) by (cases r) auto
    then have "control_ok (?s4\<lparr>role := r, leaderMode := lm, currentPrimaryIndex := p\<rparr>)"
      using c that assms(3-6) len s3 by (auto simp: control_ok_def split: if_splits)
    then show ?thesis using s3 ne by (simp add: tc_inv_def aligned_def data_ok_def)
  qed
  show ?thesis
  proof (cases "role s = kLeader")
    case True
    have lm: "leaderMode s \<noteq> kNotLeader" using leader_iff [OF assms(1)] True by simp
    have me: "self \<noteq> -1 \<Longrightarrow> selfConfig ?s4 = Some (members new ! nat self)"
      using assms(3,4) s3(4,5) by (simp add: selfConfig_def memberConfigAt_def vec_at_def getNumMembers_def)
    show ?thesis
    proof (cases "self \<noteq> -1 \<and> isElectable (members new ! nat self)")
      case e: True
      have "updateConfig new self now s = Some (?s4\<lparr>currentPrimaryIndex := self\<rparr>)"
        unfolding updateConfig_def Let_def using assms(4) s3 True e me by simp
      moreover have "?s4\<lparr>currentPrimaryIndex := self\<rparr> = ?s4\<lparr>role := kLeader, leaderMode := leaderMode s, currentPrimaryIndex := self\<rparr>"
        using s3(6,7) True by simp
      then have "tc_inv (?s4\<lparr>currentPrimaryIndex := self\<rparr>)"
        by (rule ssubst [where P = tc_inv]) (use inv [of kLeader "leaderMode s" self] e lm in simp)
      ultimately show ?thesis using e lm True s3 by simp
    next
      case e: False
      let ?s = "?s4\<lparr>role := kFollower, leaderMode := kNotLeader, currentPrimaryIndex := -1\<rparr>"
      have v: "validLeaderModeChange (leaderMode s) kNotLeader" using lm by (cases "leaderMode s") auto
      have "updateConfig new self now s = Some ?s"
        unfolding updateConfig_def Let_def using assms(4) s3 True e me v by (auto simp: setLeaderMode_def)
      then show ?thesis using inv [of kFollower kNotLeader "-1"] e True s3 by auto
    qed
  next
    case False
    then have f: "role s = kFollower" "leaderMode s = kNotLeader" using assms(1,2) leader_iff [OF assms(1)] by (cases "role s"; simp)+
    have "updateConfig new self now s = Some (?s4\<lparr>currentPrimaryIndex := -1\<rparr>)"
      unfolding updateConfig_def Let_def using assms(4) s3 f by simp
    moreover have "?s4\<lparr>currentPrimaryIndex := -1\<rparr> = ?s4\<lparr>role := kFollower, leaderMode := kNotLeader, currentPrimaryIndex := -1\<rparr>"
      using s3(6,7) f by simp
    then have "tc_inv (?s4\<lparr>currentPrimaryIndex := -1\<rparr>)"
      by (rule ssubst [where P = tc_inv]) (use inv [of kFollower kNotLeader "-1"] in simp)
    ultimately show ?thesis using f s3 by simp
  qed
qed

end
