(* ===== verification/TopologySteps.thy ===== *)
theory TopologySteps
  imports TopologyOps
begin

text \<open>
  The operations of the topology coordinator that receive heartbeats and replication progress keep the invariant too, and pass their assertions.
\<close>

subsection \<open>Heartbeats\<close>

lemma tc_inv_same_data:
  assumes "tc_inv s" "ctrl s' = ctrl s" "memberData s' = memberData s"
  shows "tc_inv s'"
proof (rule tc_inv_data [OF assms(1,2)])
  show "data_ok s'" using assms by (simp add: tc_inv_def data_ok_def ctrl_fields [OF assms(2)])
qed (simp add: assms(3))

lemma setPing_frame [frame_simps]: "ctrl (setPing h p s) = ctrl s" "memberData (setPing h p s) = memberData s"
  by (simp_all add: setPing_def ctrl_def)

lemma setPing_inv: "tc_inv s \<Longrightarrow> tc_inv (setPing h p s)"
  by (rule tc_inv_same_data) (simp_all add: frame_simps)

lemma pingsInConfig_inv: "tc_inv s \<Longrightarrow> tc_inv (s\<lparr>pingsInConfig := n\<rparr>)"
  by (erule tc_inv_same_data) (simp_all add: ctrl_def)

lemma nextHeartbeatInterval_ok: "tc_inv s \<Longrightarrow> \<exists>n. nextHeartbeatInterval s = Some n"
  using getMemberState_ok [of s] iAmPrimary_ok [of s] by (auto simp: nextHeartbeatInterval_def Let_def)

lemma applyReply_ok:
  assumes "md_ok m" "\<forall>r. reply = Inr r \<longrightarrow> replyOk r"
  shows "\<exists>a e m'. applyReply now giveUp reply m = Some ((a, e), m') \<and> md_ok m' \<and> md_key m' = md_key m"
proof (cases reply)
  case (Inl e)
  have "md_key (setAuthIssue now m) = md_key m" "md_key (setDownValues now msg m) = md_key m" for msg
    by (simp_all add: md_key_def setAuthIssue_def setDownValues_def)
  moreover have "md_ok (setAuthIssue now m)" "md_ok (setDownValues now msg m)" for msg
    by (simp_all add: setAuthIssue_def setDownValues_def)
  ultimately show ?thesis using Inl assms(1) by (cases e) (auto simp: applyReply_def)
next
  case (Inr r)
  then have "replyOk r" using assms(2) by simp
  then obtain b m' where "setUpValues now r m = Some (b, m')" "md_ok m'" "md_key m' = md_key m"
    by (rule setUpValues_ok [OF assms(1)])
  then show ?thesis using Inr by (simp add: applyReply_def)
qed

lemma findPrimary_range:
  "0 \<le> i \<Longrightarrow> (p = -1 \<or> 0 \<le> p \<and> p < i) \<Longrightarrow>
     findPrimary all ms i p = -1 \<or> 0 \<le> findPrimary all ms i p \<and> findPrimary all ms i p < i + int (length ms)"
proof (induction all ms i p rule: findPrimary.induct)
  case (2 all m ms i p)
  have a: "P \<Longrightarrow> findPrimary all ms (i + 1) i = -1 \<or> 0 \<le> findPrimary all ms (i + 1) i \<and> findPrimary all ms (i + 1) i < i + 1 + int (length ms)"
    if "P = (md_getState m = RS_PRIMARY \<and> up m \<and> (p = -1 \<or> (case vec_at all p of Some q \<Rightarrow> md_getTerm q < md_getTerm m | None \<Rightarrow> False)))" for P
    using "2.IH"(1) "2.prems" that by auto
  have b: "\<not> P \<Longrightarrow> findPrimary all ms (i + 1) p = -1 \<or> 0 \<le> findPrimary all ms (i + 1) p \<and> findPrimary all ms (i + 1) p < i + 1 + int (length ms)"
    if "P = (md_getState m = RS_PRIMARY \<and> up m \<and> (p = -1 \<or> (case vec_at all p of Some q \<Rightarrow> md_getTerm q < md_getTerm m | None \<Rightarrow> False)))" for P
    using "2.IH"(2) "2.prems" that by auto
  show ?case using a [OF refl] b [OF refl] by (auto simp: add.assoc)
qed auto

lemma updatePrimary_ok:
  assumes "tc_inv s" "selfIndex s \<noteq> -1"
  shows "\<exists>s'. updatePrimaryFromHBDataV1 now s = Some s' \<and> tc_inv s' \<and> role s' = role s \<and> leaderMode s' = leaderMode s \<and>
    selfIndex s' = selfIndex s \<and> rsConfig s' = rsConfig s \<and> tc_term s' = tc_term s \<and> lastVote s' = lastVote s"
proof (cases "currentPrimaryIndex s = selfIndex s")
  case True
  then show ?thesis using assms by (simp add: updatePrimaryFromHBDataV1_def)
next
  case False
  let ?p = "findPrimary (memberData s) (memberData s) 0 (-1)"
  let ?s = "setMyHeartbeatMessage now '''' (s\<lparr>currentPrimaryIndex := ?p\<rparr>)"
  have "?p = -1 \<or> 0 \<le> ?p \<and> ?p < int (length (memberData s))"
    using findPrimary_range [of 0 "-1" "memberData s" "memberData s"] by simp
  then have "control_ok ?s"
    using assms False by (auto simp: tc_inv_def control_ok_def setMyHeartbeatMessage_def)
  then have "tc_inv ?s" by (rule tc_inv_cong [OF assms(1)]) (simp_all add: setMyHeartbeatMessage_def)
  then show ?thesis using assms(2) False by (simp add: updatePrimaryFromHBDataV1_def setMyHeartbeatMessage_def)
qed

lemma shouldTakeOverPrimary_ok:
  assumes "tc_inv s" "selfIndex s \<noteq> -1"
  shows "\<exists>a. shouldTakeOverPrimary i s = Some a"
proof (cases "currentPrimaryIndex s = -1")
  case False
  then obtain p pc where p: "vec_at (memberData s) (currentPrimaryIndex s) = Some p" "memberConfigAt s (currentPrimaryIndex s) = Some pc"
    using tc_inv_primary [OF assms(1)] by blast
  obtain j m where "vec_at (memberData s) j = Some m" "j = (if selfIndex s = -1 then 0 else selfIndex s)"
    using tc_inv_self [OF assms(1)] by blast
  then have m: "vec_at (memberData s) (selfIndex s) = Some m" using assms(2) by simp
  obtain me where "selfConfig s = Some me" using tc_inv_selfConfig [OF assms] by blast
  then show ?thesis using p m False by (simp add: shouldTakeOverPrimary_def Let_def)
qed (simp add: shouldTakeOverPrimary_def)

definition same_role :: "TopologyCoordinator \<Rightarrow> TopologyCoordinator \<Rightarrow> bool" where
  "same_role s s' \<longleftrightarrow> role s' = role s \<and> leaderMode s' = leaderMode s \<and> selfIndex s' = selfIndex s \<and> rsConfig s' = rsConfig s \<and>
     tc_term s' = tc_term s \<and> lastVote s' = lastVote s"

lemma same_role_refl [simp]: "same_role s s"
  by (simp add: same_role_def)

lemma same_role_trans: "same_role s s' \<Longrightarrow> same_role s' s'' \<Longrightarrow> same_role s s''"
  by (simp add: same_role_def)

lemma same_role_ctrl: "ctrl s' = ctrl s \<Longrightarrow> same_role s s'"
  by (simp add: same_role_def ctrl_eq_iff)

lemma processMemberReply_ok:
  assumes "tc_inv s" "selfIndex s \<noteq> -1" "i \<noteq> selfIndex s" "0 \<le> i" "i < getNumMembers (rsConfig s)" "\<forall>r. reply = Inr r \<longrightarrow> replyOk r"
  shows "\<exists>a s'. processMemberReply now g reply i rc d s = Some (a, s') \<and> tc_inv s' \<and> same_role s s'"
proof -
  obtain m where m: "vec_at (memberData s) i = Some m" "md_ok m" using aligned_at [OF assms(1,2,4,5)] by metis
  obtain a e m1 where r: "applyReply now g reply m = Some ((a, e), m1)" "md_ok m1" "md_key m1 = md_key m"
    using applyReply_ok [OF m(2) assms(6)] by blast
  have ne: "members (rsConfig s) \<noteq> []" using assms(4,5) by (auto simp: getNumMembers_def)
  let ?s = "if isOK reply then s\<lparr>pingsInConfig := pingsInConfig s + 1\<rparr> else s"
  have i: "tc_inv ?s" using assms(1) pingsInConfig_inv by auto
  have "vec_at (memberData ?s) i = Some m" using m(1) by simp
  then have s1: "tc_inv (setMemberData i m1 ?s)" using setMemberData_inv [OF i _ r(3,2)] ne by auto
  have sr: "same_role s (setMemberData i m1 ?s)" by (simp add: same_role_def setMemberData_def)
  then have "selfIndex (setMemberData i m1 ?s) \<noteq> -1" using assms(2) by (simp add: same_role_def)
  then obtain s2 where s2: "updatePrimaryFromHBDataV1 now (setMemberData i m1 ?s) = Some s2" "tc_inv s2" "same_role s s2"
    using updatePrimary_ok [OF s1] sr by (auto simp: same_role_def)
  obtain t where "shouldTakeOverPrimary i s2 = Some t"
    using shouldTakeOverPrimary_ok [OF s2(2)] s2(3) assms(2) by (auto simp: same_role_def)
  then show ?thesis using assms(3) m(1) r(1) s2 by (simp add: processMemberReply_def Let_def)
qed

lemma indexWhere_hit:
  "indexWhere P xs i = j \<Longrightarrow> j \<noteq> -1 \<Longrightarrow> \<exists>k < length xs. j = i + int k \<and> P (xs ! k)"
proof (induction xs arbitrary: i)
  case (Cons x xs)
  show ?case
  proof (cases "P x")
    case True
    then show ?thesis using Cons.prems by (intro exI [of _ 0]) simp
  next
    case False
    then obtain k where "k < length xs" "j = i + 1 + int k" "P (xs ! k)" using Cons.IH [of "i + 1"] Cons.prems by auto
    then show ?thesis by (intro exI [of _ "Suc k"]) simp
  qed
qed simp

lemma findMemberIndex_range:
  "findMemberIndexByHostAndPort c h = -1 \<or> 0 \<le> findMemberIndexByHostAndPort c h \<and> findMemberIndexByHostAndPort c h < getNumMembers c"
  using indexWhere_hit [OF refl, of "\<lambda>m. getHostAndPort m = h" "members c" 0]
  by (auto simp: findMemberIndexByHostAndPort_def getNumMembers_def)

lemma processHeartbeatResponse_ok:
  assumes "tc_inv s" "lastHeartbeatStartDate (getPing s target) \<noteq> 0" "\<forall>r. reply = Inr r \<longrightarrow> replyOk r"
    and "findMemberIndexByHostAndPort (rsConfig s) target \<noteq> selfIndex s \<or> selfIndex s = -1"
  shows "\<exists>a s'. processHeartbeatResponse now rt target reply s = Some (a, s') \<and> tc_inv s' \<and> same_role s s'"
proof -
  define p where "p = (if isOK reply \<or> isUnauthorized reply then ping_hit rt (getPing s target) else ping_miss (getPing s target))"
  define s1 where "s1 = setPing target p s"
  have i: "tc_inv s1" "same_role s s1" using setPing_inv assms(1) by (auto simp: frame_simps same_role_ctrl s1_def)
  obtain n where n: "nextHeartbeatInterval s1 = Some n" using nextHeartbeatInterval_ok [OF i(1)] by blast
  define j where "j = findMemberIndexByHostAndPort (rsConfig s1) target"
  have j: "j = -1 \<or> 0 \<le> j \<and> j < getNumMembers (rsConfig s1)" unfolding j_def by (rule findMemberIndex_range)
  have mem: "\<exists>a s'. processMemberReply now g reply j rc d s1 = Some (a, s') \<and> tc_inv s' \<and> same_role s s'"
    if sj: "selfIndex s1 \<noteq> -1" "j \<noteq> -1" for g rc d
  proof -
    have "j \<noteq> selfIndex s1" using assms(4) i(2) sj(1) by (simp add: j_def same_role_def)
    then obtain a s' where "processMemberReply now g reply j rc d s1 = Some (a, s')" "tc_inv s'" "same_role s1 s'"
      using processMemberReply_ok [OF i(1) sj(1), of j reply now g rc d] j sj(2) assms(3) by blast
    then show ?thesis using same_role_trans [OF i(2)] by blast
  qed
  have eq: "processHeartbeatResponse now rt target reply s = do {
     let c = rsConfig s1;
     let elapsed = now - lastHeartbeatStartDate p;
     let nextDate = (if hbState p = TRYING \<and> elapsed < heartbeatTimeoutPeriod c * 1000 then now else now + n);
     let reconfig = replyHasNewerConfig reply s1;
     let nextAction = (makeAction (if reconfig then Reconfig else NoAction))\<lparr>nextHeartbeatStartDate := nextDate\<rparr>;
     if reconfig \<and> role s1 \<noteq> kLeader then Some (nextAction, s1)
     else if \<not> isInitialized c then Some (nextAction, s1)
     else if selfIndex s1 = -1 then Some ((makeAction RetryReconfig)\<lparr>nextHeartbeatStartDate := nextDate\<rparr>, s1)
     else if j = -1 then Some (nextAction, s1)
     else processMemberReply now (hbState p = FAILED \<or> elapsed \<ge> heartbeatTimeoutPeriod c * 1000) reply j reconfig nextDate s1 }"
    unfolding processHeartbeatResponse_def Let_def p_def [symmetric] s1_def [symmetric] j_def [symmetric] using assms(2) n by simp
  show ?thesis
  proof (cases "selfIndex s1 = -1 \<or> j = -1")
    case True
    then show ?thesis unfolding eq Let_def using i by simp blast
  next
    case False
    then show ?thesis unfolding eq Let_def using i mem by simp
  qed
qed

lemma fillResponse_ok:
  assumes "tc_inv s"
  shows "\<exists>r'. fillResponse name st r s = Some r'"
proof -
  obtain i m where "selfMemberData s = Some m" by (rule tc_inv_self [OF assms])
  then have t: "getMyLastAppliedOpTimeAndWallTime s \<noteq> None" "getMyLastDurableOpTimeAndWallTime s \<noteq> None"
    by (simp_all add: getMyLastAppliedOpTimeAndWallTime_def getMyLastDurableOpTimeAndWallTime_def)
  show ?thesis
  proof (cases "currentPrimaryIndex s = -1")
    case True
    then show ?thesis using t by (auto simp: fillResponse_def)
  next
    case False
    then obtain p pc where "memberConfigAt s (currentPrimaryIndex s) = Some pc" by (rule tc_inv_primary [OF assms])
    then show ?thesis using t False by (auto simp: fillResponse_def)
  qed
qed

lemma noteHeartbeatFrom_ok:
  assumes "tc_inv s" "selfIndex s \<noteq> -1" "src \<noteq> selfIndex s" "0 \<le> src" "src < getNumMembers (rsConfig s)"
  shows "\<exists>s'. noteHeartbeatFrom now src s = Some s' \<and> tc_inv s' \<and> same_role s s'"
proof -
  obtain m where m: "vec_at (memberData s) src = Some m" "md_ok m" using aligned_at [OF assms(1,2,4,5)] by metis
  let ?m = "updateLiveness now (m\<lparr>lastHeartbeatRecv := now\<rparr>)"
  have "md_key ?m = md_key m" "md_ok ?m" "up ?m = up m"
    using m(2) by (simp_all add: updateLiveness_def md_key_def md_ok_def up_def)
  then have "tc_inv (setMemberData src ?m s)" using setMemberData_inv [OF assms(1) m(1)] by blast
  then show ?thesis using assms(3) m(1) by (simp add: noteHeartbeatFrom_def same_role_ctrl frame_simps)
qed

lemma getMemberIndex_hit:
  assumes "getMemberIndex c j = Inr i" "i \<noteq> -1"
  shows "0 \<le> i \<and> i < getNumMembers c \<and> int (mc_id (members c ! nat i)) = j"
proof -
  have "indexWhere (\<lambda>mc. int (mc_id mc) = j) (members c) 0 = i"
    using assms by (auto simp: getMemberIndex_def split: if_splits)
  then show ?thesis using indexWhere_hit assms(2) by (fastforce simp: getNumMembers_def)
qed

lemma prepareHeartbeatResponse_ok:
  assumes "tc_inv s"
  shows "\<exists>e r s'. prepareHeartbeatResponseV1 w now args name resp s = Some (e, r, s') \<and> tc_inv s' \<and> same_role s s'"
proof -
  obtain st where st: "getMemberState s = Some st" using getMemberState_ok [OF assms] by blast
  obtain r1 where r1: "fillResponse name st resp s = Some r1" using fillResponse_ok [OF assms] by blast
  obtain u where u: "getMyUnelectableReason w now kElectionTimeout s = Some u" using getMyUnelectableReason_ok [OF assms] by blast
  have self: "selfIndex s \<noteq> -1 \<Longrightarrow> \<exists>me. selfConfig s = Some me" using tc_inv_selfConfig [OF assms] by metis
  have nt: "\<exists>s'. noteHeartbeatFrom now src s = Some s' \<and> tc_inv s' \<and> same_role s s'"
    if "getMemberIndex (rsConfig s) (arg_senderId args) = Inr src" "src \<noteq> -1" "selfIndex s \<noteq> -1"
      "selfConfig s = Some me" "arg_senderId args \<noteq> int (mc_id me)" for src me
  proof -
    have h: "0 \<le> src" "src < getNumMembers (rsConfig s)" "int (mc_id (members (rsConfig s) ! nat src)) = arg_senderId args"
      using getMemberIndex_hit [OF that(1,2)] by blast+
    then have "src \<noteq> selfIndex s" using that(4,5) by (auto simp: selfConfig_def memberConfigAt_def vec_at_Some)
    then show ?thesis using noteHeartbeatFrom_ok [OF assms that(3) _ h(1,2)] by blast
  qed
  have rem: "selfIndex s = -1 \<Longrightarrow> isInitialized (rsConfig s) \<Longrightarrow> st = RS_REMOVED" using st by (simp add: getMemberState_def)
  show ?thesis
  proof (cases "selfIndex s = -1")
    case True
    then show ?thesis using st r1 rem assms by (auto simp: prepareHeartbeatResponseV1_def)
  next
    case False
    then obtain me where me: "selfConfig s = Some me" using self by blast
    show ?thesis
    proof (cases "arg_senderId args = int (mc_id me)")
      case True
      then show ?thesis using False me st assms by (auto simp: prepareHeartbeatResponseV1_def)
    next
      case sender: False
      have init: "isInitialized (rsConfig s)" using assms False by (simp add: tc_inv_def control_ok_def)
      show ?thesis
      proof (cases "getMemberIndex (rsConfig s) (arg_senderId args)")
        case (Inl e)
        then show ?thesis using False me sender st r1 u init assms by (auto simp: prepareHeartbeatResponseV1_def Let_def)
      next
        case (Inr src)
        then show ?thesis using False me sender st r1 u init assms nt [OF Inr _ False me sender]
          by (cases "src = -1") (auto simp: prepareHeartbeatResponseV1_def Let_def)
      qed
    qed
  qed
qed

lemma prepareHeartbeatRequest_ok:
  assumes "tc_inv s"
  shows "\<exists>a t s'. prepareHeartbeatRequestV1 now name target s = Some ((a, t), s') \<and> tc_inv s' \<and> same_role s s'"
proof -
  define q where "q = (if \<not> isInitialized (rsConfig s) \<or> hbState (getPing s target) \<noteq> TRYING \<or>
      heartbeatTimeoutPeriod (rsConfig s) * 1000 \<le> now - lastHeartbeatStartDate (getPing s target)
      then ping_start now (getPing s target) else getPing s target)"
  have s1: "tc_inv (setPing target q s)" "same_role s (setPing target q s)"
    using setPing_inv assms by (auto simp: frame_simps same_role_ctrl)
  have p: "\<exists>i. (if currentPrimaryIndex s \<ge> 0
               then do { m \<leftarrow> vec_at (memberData s) (currentPrimaryIndex s); invariant (memberId m \<noteq> -1); Some (memberId m) }
               else Some (-1)) = Some i"
  proof (cases "currentPrimaryIndex s \<ge> 0")
    case True
    then have "currentPrimaryIndex s \<noteq> -1" by simp
    then obtain p pc where "vec_at (memberData s) (currentPrimaryIndex s) = Some p"
      "memberConfigAt s (currentPrimaryIndex s) = Some pc" "memberId p = int (mc_id pc)"
      by (rule tc_inv_primary [OF assms])
    then show ?thesis using True by simp
  qed simp
  then obtain i where i: "(if currentPrimaryIndex s \<ge> 0
               then do { m \<leftarrow> vec_at (memberData s) (currentPrimaryIndex s); invariant (memberId m \<noteq> -1); Some (memberId m) }
               else Some (-1)) = Some i" by blast
  note unf = prepareHeartbeatRequestV1_def Let_def q_def [symmetric]
  show ?thesis
  proof (cases "selfIndex s \<ge> 0")
    case True
    then obtain me where "selfConfig s = Some me" using tc_inv_selfConfig [OF assms] by force
    then show ?thesis using True i s1 unfolding unf by (cases "isInitialized (rsConfig s)") simp_all
  next
    case False
    then show ?thesis using i s1 unfolding unf by (cases "isInitialized (rsConfig s)") simp_all
  qed
qed

subsection \<open>Timeouts\<close>

lemma setMemberAsDown_ok:
  assumes "tc_inv s" "role s = kLeader" "i \<noteq> selfIndex s" "0 \<le> i" "i < getNumMembers (rsConfig s)"
  shows "\<exists>b s'. setMemberAsDown w now i s = Some (b, s') \<and> tc_inv s' \<and> same_role s s' \<and> length (memberData s') = length (memberData s)"
proof -
  have self: "selfIndex s \<noteq> -1" "currentPrimaryIndex s = selfIndex s" using assms(1,2) by (auto simp: tc_inv_def control_ok_def)
  obtain m where m: "vec_at (memberData s) i = Some m" using aligned_at [OF assms(1) self(1) assms(4,5)] by metis
  let ?m = "setDownValues now ''no response within election timeout period'' m"
  have "md_key ?m = md_key m" "md_ok ?m" "\<not> up ?m" by (simp_all add: setDownValues_def md_key_def up_def)
  then have i: "tc_inv (setMemberData i ?m s)" using setMemberData_inv [OF assms(1) m] by blast
  obtain r where "getMyUnelectableReason w now kElectionTimeout (setMemberData i ?m s) = Some r"
    using getMyUnelectableReason_ok [OF i] by blast
  then show ?thesis using i m assms(3,4) self(2)
    by (simp add: setMemberAsDown_def Let_def same_role_ctrl frame_simps) (simp add: setMemberData_def vec_update_def)
qed

lemma checkOneTimeout_ok:
  assumes "tc_inv s" "i < int (length (memberData s))" "0 \<le> i"
  shows "\<exists>b s'. checkOneTimeout w now i sd s = Some (b, s') \<and> tc_inv s' \<and> same_role s s' \<and> length (memberData s') = length (memberData s)"
proof -
  obtain m where m: "vec_at (memberData s) i = Some m" using assms by (simp add: vec_at_def)
  let ?late = "\<not> isSelf m \<and> \<not> lastUpdateStale m \<and> now - lastUpdate m \<ge> electionTimeoutPeriod (rsConfig s)"
  let ?s1 = "setMemberData i (markLastUpdateStale m) s"
  have mm: "md_ok m" using m assms(1) by (auto simp: vec_at_Some tc_inv_def data_ok_def list_all_length)
  then have "md_key (markLastUpdateStale m) = md_key m" "md_ok (markLastUpdateStale m)" "up (markLastUpdateStale m) = up m"
    by (simp_all add: markLastUpdateStale_def md_key_def md_ok_def up_def)
  then have s1: "tc_inv ?s1" using setMemberData_inv [OF assms(1) m] by blast
  have r1: "same_role s ?s1" "length (memberData ?s1) = length (memberData s)"
    by (simp_all add: same_role_ctrl frame_simps) (simp add: setMemberData_def vec_update_def)
  show ?thesis
  proof (cases "?late \<and> role s = kLeader \<and> \<not> sd")
    case True
    have self: "selfIndex s \<noteq> -1" using assms(1) True by (auto simp: tc_inv_def control_ok_def)
    have n: "i < getNumMembers (rsConfig s)" using aligned_length [OF assms(1)] self assms(2) by simp
    then have "isSelf m \<longleftrightarrow> i = selfIndex s" using aligned_at [OF assms(1) self assms(3)] m by force
    then have "i \<noteq> selfIndex ?s1" "i < getNumMembers (rsConfig ?s1)" "role ?s1 = kLeader"
      using True n r1(1) by (auto simp: same_role_def)
    then obtain b s2 where s2: "setMemberAsDown w now i ?s1 = Some (b, s2)" "tc_inv s2" "same_role ?s1 s2"
      "length (memberData s2) = length (memberData ?s1)" using setMemberAsDown_ok [OF s1 _ _ assms(3)] by blast
    then have "checkOneTimeout w now i sd s = Some (b, s2)"
      using True m iAmPrimary_ok [OF s1] r1(1) by (simp add: checkOneTimeout_def Let_def same_role_def)
    then show ?thesis using s2 r1 same_role_trans by metis
  next
    case False
    then show ?thesis using assms(1) m s1 r1 iAmPrimary_ok [OF s1] by (auto simp: checkOneTimeout_def Let_def same_role_def)
  qed
qed

lemma checkTimeouts_ok:
  assumes "tc_inv s" "i + int n = int (length (memberData s))" "0 \<le> i"
  shows "\<exists>b s'. checkTimeouts w now n i sd s = Some (b, s') \<and> tc_inv s' \<and> same_role s s'"
  using assms
proof (induction n arbitrary: i sd s)
  case (Suc n)
  obtain b s2 where s2: "checkOneTimeout w now i sd s = Some (b, s2)" "tc_inv s2" "same_role s s2"
      "length (memberData s2) = length (memberData s)"
    using checkOneTimeout_ok [OF Suc.prems(1), of i w now sd] Suc.prems(2,3) by auto
  have "\<exists>b' s'. checkTimeouts w now n (i + 1) b s2 = Some (b', s') \<and> tc_inv s' \<and> same_role s2 s'"
    using Suc.IH [of s2 "i + 1" b] Suc.prems s2 by simp
  then show ?case using s2(1,3) same_role_trans by (simp, blast)
qed simp

lemma checkMemberTimeouts_ok:
  assumes "tc_inv s"
  shows "\<exists>a s'. checkMemberTimeouts w now s = Some (a, s') \<and> tc_inv s' \<and> same_role s s'"
  using checkTimeouts_ok [OF assms, of 0 "length (memberData s)" w now False] by (auto simp: checkMemberTimeouts_def)

lemma tc_inv_mapped:
  assumes "tc_inv s" "ms = map f (memberData s)" "\<And>m. md_key (f m) = md_key m" "\<And>m. md_ok m \<Longrightarrow> md_ok (f m)" "\<And>m. up (f m) = up m"
  shows "tc_inv (s\<lparr>memberData := ms\<rparr>) \<and> same_role s (s\<lparr>memberData := ms\<rparr>)"
proof -
  have "tc_inv (s\<lparr>memberData := ms\<rparr>)"
  proof (rule tc_inv_data [OF assms(1)])
    show "map md_key (memberData (s\<lparr>memberData := ms\<rparr>)) = map md_key (memberData s)" using assms(2,3) by simp
    show "data_ok (s\<lparr>memberData := ms\<rparr>)" using assms by (auto simp: tc_inv_def data_ok_def list_all_iff)
  qed (simp add: ctrl_def)
  then show ?thesis by (simp add: same_role_def)
qed

lemma resetMemberTimeouts_inv: "tc_inv s \<Longrightarrow> tc_inv (resetMemberTimeouts now hs s) \<and> same_role s (resetMemberTimeouts now hs s)"
  unfolding resetMemberTimeouts_def
  by (rule tc_inv_mapped [OF _ refl]) (auto simp: updateLiveness_def md_key_def md_ok_def up_def)

lemma restartFirst_keys:
  "map md_key (restartFirst now h ms) = map md_key ms \<and> (list_all md_ok ms \<longrightarrow> list_all md_ok (restartFirst now h ms)) \<and>
   (list_all (\<lambda>m. \<not> up m) ms \<longrightarrow> list_all (\<lambda>m. \<not> up m) (restartFirst now h ms))"
  by (induction ms) (auto simp: md_key_def md_ok_def up_def restart_def updateLiveness_def)

lemma restartHeartbeat_inv: "tc_inv s \<Longrightarrow> tc_inv (restartHeartbeat now h s) \<and> same_role s (restartHeartbeat now h s)"
proof -
  assume i: "tc_inv s"
  have "tc_inv (restartHeartbeat now h s)"
  proof (rule tc_inv_data [OF i])
    show "data_ok (restartHeartbeat now h s)"
      using i restartFirst_keys [of now h "memberData s"] by (auto simp: tc_inv_def data_ok_def restartHeartbeat_def)
  qed (simp_all add: restartHeartbeat_def ctrl_def restartFirst_keys)
  then show ?thesis by (simp add: same_role_def restartHeartbeat_def)
qed

subsection \<open>Progress and votes\<close>

lemma setLast_inv:
  assumes "tc_inv s" "vec_at (memberData s) i = Some m"
    and "md_key m' = md_key m" "lastResponse m' = lastResponse m" "health m' = health m"
  shows "tc_inv (setMemberData i m' s) \<and> same_role s (setMemberData i m' s)"
proof -
  have "md_ok m" using assms(1,2) by (auto simp: vec_at_Some tc_inv_def data_ok_def list_all_length)
  then have "md_ok m'" "up m' = up m" using assms(4,5) by (simp_all add: md_ok_def up_def)
  then have "tc_inv (setMemberData i m' s)" using setMemberData_inv [OF assms(1,2,3)] by blast
  then show ?thesis by (simp add: same_role_ctrl frame_simps)
qed

lemma setMyLastApplied_inv:
  assumes "tc_inv s" "setMyLastAppliedOpTimeAndWallTime t now rb s = Some s'"
  shows "tc_inv s' \<and> same_role s s'"
proof -
  obtain i m where "vec_at (memberData s) i = Some m"
    "s' = setMemberData i ((updateLiveness now m)\<lparr>lastAppliedOpTime := opTime t, lastAppliedWallTime := wallTime t\<rparr>) s"
    using assms(2) by (auto simp: setMyLastAppliedOpTimeAndWallTime_def setLastAppliedOpTimeAndWallTime_def Let_def abort_simps)
  then show ?thesis using setLast_inv [OF assms(1)] by (simp add: updateLiveness_def md_key_def)
qed

lemma setMyLastDurable_inv:
  assumes "tc_inv s" "setMyLastDurableOpTimeAndWallTime t now rb s = Some s'"
  shows "tc_inv s' \<and> same_role s s'"
proof -
  let ?upd = "\<lambda>m. if op_ge (lastAppliedOpTime m) (opTime t)
     then (updateLiveness now m)\<lparr>lastDurableOpTime := opTime t, lastDurableWallTime := wallTime t\<rparr> else updateLiveness now m"
  obtain i m where im: "vec_at (memberData s) i = Some m" "s' = setMemberData i (?upd m) s"
    using assms(2) by (auto simp: setMyLastDurableOpTimeAndWallTime_def setLastDurableOpTimeAndWallTime_def Let_def abort_simps)
  have "md_key (?upd m) = md_key m" "lastResponse (?upd m) = lastResponse m" "health (?upd m) = health m"
    by (simp_all add: updateLiveness_def md_key_def)
  then show ?thesis using setLast_inv [OF assms(1) im(1)] im(2) by blast
qed

text \<open>A progress report on a member that is not found, and one that is recorded.\<close>

lemma getMemberIndex_miss:
  assumes "getMemberIndex c j = Inr i" "i < 0"
  shows "i = -1 \<and> findMemberByID c (nat j) = None \<and> (\<forall>mc \<in> set (members c). int (mc_id mc) \<noteq> j)"
proof -
  have no: "indexWhere P ms x < 0 \<Longrightarrow> 0 \<le> x \<Longrightarrow> indexWhere P ms x = -1 \<and> (\<forall>mc \<in> set ms. \<not> P mc)" for P and ms :: "MemberConfig list" and x
    by (induction P ms x rule: indexWhere.induct) auto
  have "members c = [] \<or> 0 \<le> j" "i = -1" "\<forall>mc \<in> set (members c). int (mc_id mc) \<noteq> j"
    using assms no [of "\<lambda>mc. int (mc_id mc) = j" "members c" 0] by (auto simp: getMemberIndex_def split: if_splits)
  then show ?thesis by (auto simp: findMemberByID_def find_None_iff)
qed

lemma progress_recorded:
  assumes "wallTimeOk (ui_applied args)" "wallTimeOk (ui_durable args)"
  obtains a m1 d m2 where "advanceLastAppliedOpTimeAndWallTime (ui_applied args) now m = Some (a, m1)"
    "advanceLastDurableOpTimeAndWallTime (ui_durable args) now m1 = Some (d, m2)"
    "m2 = m\<lparr>lastUpdate := now, lastUpdateStale := False, lastAppliedOpTime := lastAppliedOpTime m2,
       lastAppliedWallTime := lastAppliedWallTime m2, lastDurableOpTime := lastDurableOpTime m2, lastDurableWallTime := lastDurableWallTime m2\<rparr>"
    "a \<longleftrightarrow> op_less (lastAppliedOpTime m) (opTime (ui_applied args))" "d \<longleftrightarrow> op_less (lastDurableOpTime m) (opTime (ui_durable args))"
    "lastAppliedOpTime m2 = (if a then opTime (ui_applied args) else lastAppliedOpTime m)"
    "lastDurableOpTime m2 = (if d then opTime (ui_durable args) else lastDurableOpTime m)"
  using assms
  by (cases "op_less (lastAppliedOpTime m) (opTime (ui_applied args))"; cases "op_less (lastDurableOpTime m) (opTime (ui_durable args))")
     (auto simp: advanceLastAppliedOpTimeAndWallTime_def setLastAppliedOpTimeAndWallTime_def advanceLastDurableOpTimeAndWallTime_def
        updateLiveness_def Let_def)

lemma setLastOptime_member:
  assumes "tc_inv s" "wallTimeOk (ui_applied args)" "wallTimeOk (ui_durable args)" "selfIndex s \<noteq> -1" "0 \<le> ui_memberId args"
    and "selfConfig s = Some me" "ui_memberId args \<noteq> int (mc_id me)" "fu \<or> ui_cfgver args = version (rsConfig s)"
    and "getMemberIndex (rsConfig s) (ui_memberId args) = Inr i" "0 \<le> i"
  obtains m m' adv where "setLastOptime fu args now s = Some ((Inr adv, None), setMemberData i m' s)" "vec_at (memberData s) i = Some m"
    "memberId m = ui_memberId args" "i \<noteq> selfIndex s" "isSelf m \<longleftrightarrow> i = selfIndex s"
    "m' = m\<lparr>lastUpdate := now, lastUpdateStale := False, lastAppliedOpTime := lastAppliedOpTime m',
       lastAppliedWallTime := lastAppliedWallTime m', lastDurableOpTime := lastDurableOpTime m', lastDurableWallTime := lastDurableWallTime m'\<rparr>"
    "lastAppliedOpTime m' = (if op_less (lastAppliedOpTime m) (opTime (ui_applied args)) then opTime (ui_applied args) else lastAppliedOpTime m)"
    "lastDurableOpTime m' = (if op_less (lastDurableOpTime m) (opTime (ui_durable args)) then opTime (ui_durable args) else lastDurableOpTime m)"
    "adv \<longleftrightarrow> op_less (lastAppliedOpTime m) (opTime (ui_applied args)) \<or> op_less (lastDurableOpTime m) (opTime (ui_durable args))"
proof -
  have i: "i < getNumMembers (rsConfig s)" "int (mc_id (members (rsConfig s) ! nat i)) = ui_memberId args"
    using getMemberIndex_hit [OF assms(9)] assms(10) by auto
  obtain m mc where m: "vec_at (memberData s) i = Some m" "memberConfigAt s i = Some mc" "memberId m = int (mc_id mc)" "isSelf m \<longleftrightarrow> i = selfIndex s"
    using aligned_at [OF assms(1,4,10) i(1)] by metis
  have id: "memberId m = ui_memberId args" using m(2,3) i(2) by (auto simp: memberConfigAt_def vec_at_Some)
  have other: "i \<noteq> selfIndex s" using assms(6,7) m(2,3) id by (auto simp: selfConfig_def memberConfigAt_def)
  have init: "isInitialized (rsConfig s)" using assms(1,4) by (simp add: tc_inv_def control_ok_def)
  obtain a m1 d m2 where u: "advanceLastAppliedOpTimeAndWallTime (ui_applied args) now m = Some (a, m1)"
    "advanceLastDurableOpTimeAndWallTime (ui_durable args) now m1 = Some (d, m2)"
    "m2 = m\<lparr>lastUpdate := now, lastUpdateStale := False, lastAppliedOpTime := lastAppliedOpTime m2,
       lastAppliedWallTime := lastAppliedWallTime m2, lastDurableOpTime := lastDurableOpTime m2, lastDurableWallTime := lastDurableWallTime m2\<rparr>"
    "a \<longleftrightarrow> op_less (lastAppliedOpTime m) (opTime (ui_applied args))" "d \<longleftrightarrow> op_less (lastDurableOpTime m) (opTime (ui_durable args))"
    "lastAppliedOpTime m2 = (if a then opTime (ui_applied args) else lastAppliedOpTime m)"
    "lastDurableOpTime m2 = (if d then opTime (ui_durable args) else lastDurableOpTime m)"
    by (rule progress_recorded [OF assms(2,3)])
  have "setLastOptime fu args now s = Some ((Inr (d \<or> a), None), setMemberData i m2 s)"
    using assms(4-10) init m(1) id u(1,2) by (auto simp: setLastOptime_def)
  then show ?thesis using that [OF _ m(1) id other m(4) u(3)] u(4-7) by (simp add: disj_commute)
qed

lemma setLastOptime_unrecorded:
  assumes "isInitialized (rsConfig s)" "selfIndex s \<noteq> -1" "selfConfig s = Some me"
    and "\<And>i. getMemberIndex (rsConfig s) (ui_memberId args) = Inr i \<Longrightarrow> 0 \<le> i \<Longrightarrow> 0 \<le> ui_memberId args \<Longrightarrow>
      ui_memberId args \<noteq> int (mc_id me) \<Longrightarrow> fu \<or> ui_cfgver args = version (rsConfig s) \<Longrightarrow> False"
  shows "setLastOptime fu args now s =
      Some (if ui_memberId args < 0 then (Inl BadValue, None)
            else if ui_memberId args = int (mc_id me) then (Inr False, None)
            else if \<not> fu \<and> ui_cfgver args \<noteq> version (rsConfig s) then (Inl InvalidReplicaSetConfig, Some (version (rsConfig s)))
            else (Inl NodeNotFound, None), s) \<and>
    (0 \<le> ui_memberId args \<and> ui_memberId args \<noteq> int (mc_id me) \<and> (fu \<or> ui_cfgver args = version (rsConfig s)) \<longrightarrow>
      (\<forall>mc \<in> set (members (rsConfig s)). int (mc_id mc) \<noteq> ui_memberId args))"
proof -
  consider "ui_memberId args < 0" | "ui_memberId args = int (mc_id me)" | "0 \<le> ui_memberId args" "ui_memberId args \<noteq> int (mc_id me)" "\<not> fu" "ui_cfgver args \<noteq> version (rsConfig s)"
    | "0 \<le> ui_memberId args" "ui_memberId args \<noteq> int (mc_id me)" "fu \<or> ui_cfgver args = version (rsConfig s)" by linarith
  then show ?thesis
  proof cases
    case 4
    obtain i where i: "getMemberIndex (rsConfig s) (ui_memberId args) = Inr i" using 4(1) by (cases "members (rsConfig s) = []") (auto simp: getMemberIndex_def)
    then have "i < 0" using assms(4) 4 by force
    then show ?thesis using getMemberIndex_miss [OF i] assms(1-3) 4 i by (auto simp: setLastOptime_def)
  qed (use assms(1-3) in \<open>simp_all add: setLastOptime_def\<close>)
qed

lemma setLastOptime_ok:
  assumes "tc_inv s" "wallTimeOk (ui_applied args)" "wallTimeOk (ui_durable args)"
  shows "\<exists>r s'. setLastOptime fu args now s = Some (r, s') \<and> tc_inv s' \<and> same_role s s'"
proof (cases "selfIndex s = -1")
  case True
  then show ?thesis using assms(1) by (simp add: setLastOptime_def)
next
  case self: False
  then have init: "isInitialized (rsConfig s)" using assms(1) by (simp add: tc_inv_def control_ok_def)
  obtain me where me: "selfConfig s = Some me" by (rule tc_inv_selfConfig [OF assms(1) self])
  show ?thesis
  proof (cases "\<exists>i. getMemberIndex (rsConfig s) (ui_memberId args) = Inr i \<and> 0 \<le> i \<and> 0 \<le> ui_memberId args \<and>
      ui_memberId args \<noteq> int (mc_id me) \<and> (fu \<or> ui_cfgver args = version (rsConfig s))")
    case True
    then obtain i where i: "getMemberIndex (rsConfig s) (ui_memberId args) = Inr i" "0 \<le> i" "0 \<le> ui_memberId args"
      "ui_memberId args \<noteq> int (mc_id me)" "fu \<or> ui_cfgver args = version (rsConfig s)" by blast
    obtain m m' adv where u: "setLastOptime fu args now s = Some ((Inr adv, None), setMemberData i m' s)" "vec_at (memberData s) i = Some m"
      "m' = m\<lparr>lastUpdate := now, lastUpdateStale := False, lastAppliedOpTime := lastAppliedOpTime m',
         lastAppliedWallTime := lastAppliedWallTime m', lastDurableOpTime := lastDurableOpTime m', lastDurableWallTime := lastDurableWallTime m'\<rparr>"
      by (rule setLastOptime_member [OF assms self i(3) me i(4,5) i(1,2)])
    have "md_key m' = md_key m" "lastResponse m' = lastResponse m" "health m' = health m"
      unfolding md_key_def by (subst u(3), simp)+
    then show ?thesis using setLast_inv [OF assms(1) u(2)] u(1) by blast
  next
    case False
    have "\<exists>r. setLastOptime fu args now s = Some (r, s)" using setLastOptime_unrecorded [OF init self me, of args fu now] False by blast
    then show ?thesis using assms(1) by auto
  qed
qed

lemma advanceLastCommitted_ok:
  assumes "tc_inv s"
  shows "\<exists>b s'. advanceLastCommittedOpTimeAndWallTime c sync s = Some (b, s') \<and> tc_inv s' \<and> same_role s s'"
proof (cases "selfIndex s = -1")
  case True
  then show ?thesis using assms by (auto simp: advanceLastCommittedOpTimeAndWallTime_def)
next
  case False
  obtain me where me: "selfConfig s = Some me" by (rule tc_inv_selfConfig [OF assms False])
  obtain i m where "selfMemberData s = Some m" by (rule tc_inv_self [OF assms])
  then obtain t where t: "getMyLastAppliedOpTimeAndWallTime s = Some t" by (simp add: getMyLastAppliedOpTimeAndWallTime_def)
  have "tc_inv (s\<lparr>lastCommittedOpTime := x\<rparr>) \<and> same_role s (s\<lparr>lastCommittedOpTime := x\<rparr>)" for x
    using tc_inv_same_data [OF assms, of "s\<lparr>lastCommittedOpTime := x\<rparr>"] by (simp add: ctrl_def same_role_def)
  then show ?thesis using False me t assms iAmPrimary_ok [OF assms]
    by (auto simp: advanceLastCommittedOpTimeAndWallTime_def Let_def)
qed

lemma updateLastCommitted_inv:
  assumes "tc_inv s" "updateLastCommittedOpTimeAndWallTime s = Some (b, s')"
  shows "tc_inv s' \<and> same_role s s'"
proof -
  have "s' = s \<or> (\<exists>c. advanceLastCommittedOpTimeAndWallTime c False s = Some (b, s'))"
    using assms(2) by (auto simp: updateLastCommittedOpTimeAndWallTime_def abort_simps split: if_splits)
  then show ?thesis
  proof
    assume "\<exists>c. advanceLastCommittedOpTimeAndWallTime c False s = Some (b, s')"
    then obtain c where "advanceLastCommittedOpTimeAndWallTime c False s = Some (b, s')" by blast
    then show ?thesis using advanceLastCommitted_ok [OF assms(1), of c False] by auto
  qed (use assms(1) in simp)
qed

lemma lastVote_inv: "tc_inv s \<Longrightarrow> tc_inv (s\<lparr>lastVote := v\<rparr>)"
  by (simp add: tc_inv_def control_ok_def aligned_def data_ok_def)

lemma requestVotes_cases:
  assumes "processReplSetRequestVotes args s = Some (r, s')"
  obtains (refused) "r = \<lparr>vr_term = tc_term s, vr_voteGranted = False\<rparr>" "s' = s"
  | (granted) "r = \<lparr>vr_term = tc_term s, vr_voteGranted = True\<rparr>" "tc_term s \<le> va_term args"
      "va_dryRun args \<or> lv_term (lastVote s) \<noteq> va_term args"
      "s' = (if va_dryRun args then s else s\<lparr>lastVote := \<lparr>lv_term = va_term args, lv_candidateIndex = va_candidateIndex args\<rparr>\<rparr>)"
proof -
  obtain mine where mine: "getMyLastAppliedOpTime s = Some mine"
    using assms unfolding processReplSetRequestVotes_def by (cases "getMyLastAppliedOpTime s") simp_all
  let ?bad = "\<not> cvt_eq (ConfigVersionAndTerm (va_cfgVer args) (va_cfgTerm args)) (getConfigVersionAndTerm (rsConfig s)) \<or>
        va_term args < tc_term s \<or> va_setName args \<noteq> replSetName (rsConfig s) \<or> op_less (va_lastAppliedOpTime args) mine"
  let ?again = "\<not> va_dryRun args \<and> lv_term (lastVote s) = va_term args"
  note unf = processReplSetRequestVotes_def Let_def mine Option.bind.bind_lunit
  show ?thesis
  proof (cases "?bad \<or> ?again")
    case True
    then have "r = \<lparr>vr_term = tc_term s, vr_voteGranted = False\<rparr> \<and> s' = s"
      using assms unfolding unf by (cases ?bad; cases "memberConfigAt s (lv_candidateIndex (lastVote s))") (simp_all only: if_True if_False, auto)
    then show ?thesis using refused by blast
  next
    case False
    define x where "x = (if va_dryRun args then s else s\<lparr>lastVote := \<lparr>lv_term = va_term args, lv_candidateIndex = va_candidateIndex args\<rparr>\<rparr>)"
    obtain bp me where bp: "findHealthyPrimaryOfEqualOrGreaterPriority (va_candidateIndex args) s = Some bp" "selfConfig s = Some me"
      and res: "(if arbiterOnly me \<and> bp \<ge> 0 then do { _ \<leftarrow> memberConfigAt s bp; Some (\<lparr>vr_term = tc_term s, vr_voteGranted = False\<rparr>, s) }
         else Some (\<lparr>vr_term = tc_term s, vr_voteGranted = True\<rparr>, x)) = Some (r, s')"
    proof -
      have na: "\<not> ?bad" "\<not> ?again" using False by blast+
      have "findHealthyPrimaryOfEqualOrGreaterPriority (va_candidateIndex args) s \<bind> (\<lambda>bp. selfConfig s \<bind>
          (\<lambda>me. if arbiterOnly me \<and> bp \<ge> 0 then do { _ \<leftarrow> memberConfigAt s bp; Some (\<lparr>vr_term = tc_term s, vr_voteGranted = False\<rparr>, s) }
         else Some (\<lparr>vr_term = tc_term s, vr_voteGranted = True\<rparr>, x))) = Some (r, s')"
        using assms unfolding unf x_def [symmetric] if_not_P [OF na(1)] if_not_P [OF na(2)] .
      then show ?thesis using that unfolding Option.bind_eq_Some_conv [of _ "\<lambda>bp. selfConfig s \<bind> _ bp"] Option.bind_eq_Some_conv [of "selfConfig s"] by blast
    qed
    show ?thesis
    proof (cases "arbiterOnly me \<and> bp \<ge> 0")
      case True
      then have "r = \<lparr>vr_term = tc_term s, vr_voteGranted = False\<rparr> \<and> s' = s" using res by (cases "memberConfigAt s bp") auto
      then show ?thesis using refused by blast
    next
      case nb: False
      then have "r = \<lparr>vr_term = tc_term s, vr_voteGranted = True\<rparr>" "s' = x" using res unfolding if_not_P [OF nb] by simp_all
      moreover have "tc_term s \<le> va_term args" "va_dryRun args \<or> lv_term (lastVote s) \<noteq> va_term args" using False by auto
      ultimately show ?thesis using granted unfolding x_def by blast
    qed
  qed
qed

lemma requestVotes_inv:
  assumes "tc_inv s" "processReplSetRequestVotes args s = Some (r, s')"
  shows "tc_inv s'"
  using assms(2)
proof (cases rule: requestVotes_cases)
  case granted
  then show ?thesis using assms(1) lastVote_inv [OF assms(1)] by (cases "va_dryRun args") simp_all
qed (simp add: assms(1))

lemma prepareFreezeResponse_inv: "tc_inv s \<Longrightarrow> prepareFreezeResponse now secs s = (r, s') \<Longrightarrow> tc_inv s' \<and> same_role s s'"
  using tc_inv_same_data [of s "s\<lparr>stepDownUntil := x\<rparr>" for x]
  by (auto simp: prepareFreezeResponse_def ctrl_def same_role_def split: if_splits)

lemma tryToStartStepDown_inv:
  assumes "tc_inv s" "tryToStartStepDown t now wu u f s = Some (e, s')"
  shows "tc_inv s' \<and> role s' = role s \<and> tc_term s' = tc_term s \<and> lastVote s' = lastVote s \<and>
    (if e = Inr True then leaderMode s' = kSteppingDown else s' = s)"
proof (cases "s' = s \<and> e \<noteq> Inr True")
  case False
  then obtain b where s': "prepareForUnconditionalStepDown (s\<lparr>stepDownUntil := u\<rparr>) = Some (b, s')" "e = Inr True" "role s = kLeader"
    using assms(2) by (auto simp: tryToStartStepDown_def abort_simps split: if_splits)
  have i: "tc_inv (s\<lparr>stepDownUntil := u\<rparr>)" by (rule tc_inv_same_data [OF assms(1)]) (simp_all add: ctrl_def)
  then show ?thesis using prepareForUnconditionalStepDown_ok [OF i] s' by auto
qed (use assms(1) in auto)

end
