(* ===== verification/CommitPoint.thy ===== *)
theory CommitPoint
  imports TopologySteps
begin

text \<open>
  The majority commit point: what \<open>updateLastCommittedOpTimeAndWallTime\<close> counts, that it moves forward only, and that a
  primary commits only operations of its own term which enough voters have. Also the conditions under which the operations
  on the commit point and the attempts to step down pass their assertions.
\<close>

subsection \<open>Sorting optimes\<close>

declare ts_zero_least [simp] ts_zero_less [simp] op_ge_refl [simp]

definition sortedOpTimes :: "OpTimeAndWallTime list \<Rightarrow> bool" where
  "sortedOpTimes ts \<longleftrightarrow> sorted_wrt (\<lambda>t u. op_ge (opTime u) (opTime t)) ts"

lemma insertByOpTime_mset [simp]: "mset (insertByOpTime t ts) = add_mset t (mset ts)"
  by (induction ts) auto

lemma insertByOpTime_set [simp]: "set (insertByOpTime t ts) = insert t (set ts)"
  by (metis insertByOpTime_mset set_mset_add_mset_insert set_mset_mset)

lemma sortByOpTime_mset [simp]: "mset (sortByOpTime ts) = mset ts"
  by (induction ts) auto

lemma sortByOpTime_set [simp]: "set (sortByOpTime ts) = set ts"
  by (metis set_mset_mset sortByOpTime_mset)

lemma sortByOpTime_length [simp]: "length (sortByOpTime ts) = length ts"
  by (metis size_mset sortByOpTime_mset)

lemma insertByOpTime_sorted:
  assumes "sortedOpTimes ts" "\<forall>u \<in> insert t (set ts). op_regular (opTime u)"
  shows "sortedOpTimes (insertByOpTime t ts)"
  using assms
proof (induction ts)
  case (Cons u us)
  show ?case
  proof (cases "op_less (opTime u) (opTime t)")
    case True
    then have "op_ge (opTime t) (opTime u)" using op.trichotomy [of "opTime u" "opTime t"] by (auto simp: op_ge_def)
    then show ?thesis using True Cons by (auto simp: sortedOpTimes_def)
  next
    case False
    then have ge: "op_ge (opTime u) (opTime t)" by (simp add: op_ge_def)
    have "op_ge (opTime v) (opTime t)" if "v \<in> set us" for v
    proof (rule op_ge_trans [OF _ _ _ _ ge])
      show "op_ge (opTime v) (opTime u)" using Cons.prems(1) that by (simp add: sortedOpTimes_def)
    qed (use Cons.prems(2) that in auto)
    then show ?thesis using False ge Cons.prems(1) by (simp add: sortedOpTimes_def)
  qed
qed (simp add: sortedOpTimes_def)

lemma sortByOpTime_sorted: "\<forall>u \<in> set ts. op_regular (opTime u) \<Longrightarrow> sortedOpTimes (sortByOpTime ts)"
proof (induction ts)
  case (Cons t ts)
  then show ?case using insertByOpTime_sorted [of "sortByOpTime ts" t] by simp
qed (simp add: sortedOpTimes_def)

lemma countp_mset: "mset xs = mset ys \<Longrightarrow> countp P xs = countp P ys"
  unfolding countp_def by (metis mset_filter size_mset)

text \<open>At least as many optimes reach the one at place \<open>k\<close> of the sorted vector as stand at or after \<open>k\<close>.\<close>

lemma sortByOpTime_count:
  assumes "\<forall>u \<in> set ts. op_regular (opTime u)" "k < length ts"
  shows "length ts - k \<le> countp (\<lambda>u. op_ge (opTime u) (opTime (sortByOpTime ts ! k))) ts"
proof -
  let ?ys = "sortByOpTime ts" and ?P = "\<lambda>u. op_ge (opTime u) (opTime (sortByOpTime ts ! k))"
  have sorted: "sorted_wrt (\<lambda>t u. op_ge (opTime u) (opTime t)) ?ys" using sortByOpTime_sorted [OF assms(1)] by (simp add: sortedOpTimes_def)
  have "?P u" if "u \<in> set (drop k ?ys)" for u
  proof -
    obtain j where j: "j < length (drop k ?ys)" "u = drop k ?ys ! j" using \<open>u \<in> _\<close> by (auto simp: in_set_conv_nth)
    then have u: "u = ?ys ! (k + j)" "k + j < length ?ys" by auto
    show ?thesis using sorted u by (cases "j = 0") (auto simp: sorted_wrt_iff_nth_less)
  qed
  then have "countp ?P (drop k ?ys) = length ts - k" unfolding countp_def by simp
  moreover have "countp ?P ?ys = countp ?P (take k ?ys) + countp ?P (drop k ?ys)"
    by (metis append_take_drop_id countp_append)
  moreover have "countp ?P ts = countp ?P ?ys" by (rule countp_mset) simp
  ultimately show ?thesis by linarith
qed

subsection \<open>The progress of the voters\<close>

abbreviation configOf :: "TopologyCoordinator \<Rightarrow> MemberData \<Rightarrow> MemberConfig" where
  "configOf s m \<equiv> members (rsConfig s) ! nat (configIndex m)"

lemma votersProgress_eq:
  assumes "\<forall>m \<in> set ms. 0 \<le> configIndex m \<and> configIndex m < getNumMembers (rsConfig s)"
  shows "votersProgress s d ms = Some (map (progressAndWallTime d) (filter (\<lambda>m. isVoter (configOf s m)) ms))"
  using assms by (induction ms) (auto simp: memberConfigAt_def vec_at_def getNumMembers_def)

lemma aligned_index:
  assumes "tc_inv s" "selfIndex s \<noteq> -1"
  shows "map configIndex (memberData s) = map int [0 ..< length (members (rsConfig s))]"
proof (rule nth_equalityI)
  have len: "length (memberData s) = length (members (rsConfig s))"
    using aligned_length [OF assms(1)] assms(2) by (simp add: getNumMembers_def)
  then show "length (map configIndex (memberData s)) = length (map int [0 ..< length (members (rsConfig s))])" by simp
  fix i assume "i < length (map configIndex (memberData s))"
  then have i: "i < length (members (rsConfig s))" using len by simp
  then have "0 \<le> int i" "int i < getNumMembers (rsConfig s)" by (simp_all add: getNumMembers_def)
  then obtain m where "vec_at (memberData s) (int i) = Some m" "configIndex m = int i" using aligned_at [OF assms] by metis
  then have "configIndex (memberData s ! i) = int i" by (simp add: vec_at_Some)
  then show "map configIndex (memberData s) ! i = map int [0 ..< length (members (rsConfig s))] ! i" using i len by simp
qed

lemma aligned_range:
  assumes "tc_inv s" "selfIndex s \<noteq> -1" "m \<in> set (memberData s)"
  shows "0 \<le> configIndex m \<and> configIndex m < getNumMembers (rsConfig s)"
proof -
  have "configIndex m \<in> set (map configIndex (memberData s))" using assms(3) by simp
  then show ?thesis unfolding aligned_index [OF assms(1,2)] by (auto simp: getNumMembers_def)
qed

lemma countp_map [count_simps]: "countp P (map f xs) = countp (P \<circ> f) xs"
  by (induction xs) auto

lemma countp_filter [count_simps]: "countp P (filter Q xs) = countp (\<lambda>x. Q x \<and> P x) xs"
  by (induction xs) auto

lemma countp_card: "countp P [0 ..< n] = card {i. i < n \<and> P i}"
proof -
  have "countp P [0 ..< n] = card (set (filter P [0 ..< n]))" unfolding countp_def by (rule distinct_card [symmetric]) simp
  then show ?thesis by (simp add: conj_commute)
qed

text \<open>Counting voters by their data is counting them by their place in the configuration.\<close>

lemma count_voters:
  assumes "tc_inv s" "selfIndex s \<noteq> -1"
  shows "countp (\<lambda>m. isVoter (configOf s m) \<and> P m) (memberData s) =
    card {i. i < length (members (rsConfig s)) \<and> isVoter (members (rsConfig s) ! i) \<and> P (memberData s ! i)}"
proof -
  let ?n = "length (memberData s)"
  have len: "?n = length (members (rsConfig s))" using aligned_index [OF assms] by (metis length_map length_upt minus_nat.diff_0)
  have idx: "configIndex (memberData s ! i) = int i" if "i < ?n" for i
    using arg_cong [OF aligned_index [OF assms], of "\<lambda>xs. xs ! i"] that len by simp
  have "countp (\<lambda>m. isVoter (configOf s m) \<and> P m) (memberData s) =
      countp (\<lambda>m. isVoter (configOf s m) \<and> P m) (map ((!) (memberData s)) [0 ..< ?n])" by (simp only: map_nth)
  also have "\<dots> = countp (\<lambda>i. isVoter (members (rsConfig s) ! i) \<and> P (memberData s ! i)) [0 ..< ?n]"
    unfolding countp_map by (rule countp_cong) (simp add: idx)
  finally show ?thesis by (simp add: countp_card len)
qed

lemma votersProgress_ok:
  assumes "tc_inv s" "selfIndex s \<noteq> -1"
  shows "votersProgress s d (memberData s) =
      Some (map (progressAndWallTime d) (filter (\<lambda>m. isVoter (configOf s m)) (memberData s)))"
    and "length (filter (\<lambda>m. isVoter (configOf s m)) (memberData s)) = countp isVoter (members (rsConfig s))"
proof -
  show "votersProgress s d (memberData s) = Some (map (progressAndWallTime d) (filter (\<lambda>m. isVoter (configOf s m)) (memberData s)))"
    using votersProgress_eq aligned_range [OF assms] by blast
  have "countp isVoter (members (rsConfig s)) = countp isVoter (map ((!) (members (rsConfig s))) [0 ..< length (members (rsConfig s))])"
    by (simp only: map_nth)
  then show "length (filter (\<lambda>m. isVoter (configOf s m)) (memberData s)) = countp isVoter (members (rsConfig s))"
    using count_voters [OF assms, of "\<lambda>_. True"] by (simp add: countp_def [symmetric] countp_map countp_card)
qed

lemma opTime_progress [simp]: "opTime (progressAndWallTime d m) = progressOf d m"
  by (simp add: progressAndWallTime_def progressOf_def)

subsection \<open>The commit point moves forward\<close>

lemma advanceLastCommitted_effect:
  assumes "tc_inv s" "advanceLastCommittedOpTimeAndWallTime c sync s = Some (b, s')"
  shows "if b then op_less (opTime (lastCommittedOpTime s)) (opTime (lastCommittedOpTime s')) \<and>
        s' = s\<lparr>lastCommittedOpTime := lastCommittedOpTime s'\<rparr> \<and>
        (lastCommittedOpTime s' = c \<or> sync \<and> Some (lastCommittedOpTime s') = getMyLastAppliedOpTimeAndWallTime s \<and>
           op_less (opTime (lastCommittedOpTime s')) (opTime c)) \<and>
        (role s = kLeader \<longrightarrow> op_ge (opTime c) (firstOpTimeOfMyTerm s)) \<and>
        (\<not> sync \<longrightarrow> (\<forall>me mine. selfConfig s = Some me \<and> \<not> arbiterOnly me \<and> getMyLastAppliedOpTime s = Some mine \<longrightarrow>
           getTerm mine = getTerm (opTime c)))
      else s' = s"
proof -
  have fwd: "\<not> op_eq x y \<Longrightarrow> \<not> op_less x y \<Longrightarrow> op_less y x" for x y
    using op.trichotomy [of x y] by blast
  show ?thesis
    using assms(2) fwd
    by (cases b) (auto simp: advanceLastCommittedOpTimeAndWallTime_def iAmPrimary_ok [OF assms(1)] Let_def abort_simps op_ge_def
        getMyLastAppliedOpTime_def getMyLastAppliedOpTimeAndWallTime_def split: if_splits)
qed

text \<open>(C2) The commit point of a primary: when the primary moves it, the new one is later than the old, is not before the first
  operation of its own term and has the term of its own last applied operation, and at least a write majority of voters have reported
  to have reached it (in their journals, when the configuration asks for it). The optimes reported are null or have a term and a timestamp.\<close>

theorem commit_point_majority:
  assumes "tc_inv s" "updateLastCommittedOpTimeAndWallTime s = Some (True, s')"
    and "\<forall>m \<in> set (memberData s). op_regular (lastAppliedOpTime m) \<and> op_regular (lastDurableOpTime m)"
  shows "(canAcceptWrites s \<or> leaderMode s = kLeaderElect \<or> leaderMode s = kAttemptingStepDown) \<and>
    op_less (opTime (lastCommittedOpTime s)) (opTime (lastCommittedOpTime s')) \<and>
    op_ge (opTime (lastCommittedOpTime s')) (firstOpTimeOfMyTerm s) \<and>
    (\<forall>me mine. selfConfig s = Some me \<and> \<not> arbiterOnly me \<and> getMyLastAppliedOpTime s = Some mine \<longrightarrow>
      getTerm mine = getTerm (opTime (lastCommittedOpTime s'))) \<and>
    writeMajority (rsConfig s) \<le> int (card {i. i < length (members (rsConfig s)) \<and> isVoter (members (rsConfig s) ! i) \<and>
      op_ge (progressOf (writeConcernMajorityJournalDefault (rsConfig s)) (memberData s ! i)) (opTime (lastCommittedOpTime s'))})"
proof -
  let ?d = "writeConcernMajorityJournalDefault (rsConfig s)" and ?ms = "filter (\<lambda>m. isVoter (configOf s m)) (memberData s)"
  let ?ts = "map (progressAndWallTime ?d) ?ms" and ?w = "writeMajority (rsConfig s)"
  have lead: "role s = kLeader" "leaderMode s \<noteq> kSteppingDown"
    using assms(2) by (auto simp: updateLastCommittedOpTimeAndWallTime_def iAmPrimary_ok [OF assms(1)] split: if_splits)
  have self: "selfIndex s \<noteq> -1" using lead(1) assms(1) by (auto simp: tc_inv_def control_ok_def)
  obtain c where c: "vec_at (sortByOpTime ?ts) (int (length ?ts) - ?w) = Some c"
    and adv: "advanceLastCommittedOpTimeAndWallTime c False s = Some (True, s')"
    using assms(2) lead by (auto simp: updateLastCommittedOpTimeAndWallTime_def iAmPrimary_ok [OF assms(1)] votersProgress_ok [OF assms(1) self]
        abort_simps split: if_splits)
  note eff = advanceLastCommitted_effect [OF assms(1) adv, unfolded if_True]
  have new: "lastCommittedOpTime s' = c" using eff by blast
  have mode: "canAcceptWrites s \<or> leaderMode s = kLeaderElect \<or> leaderMode s = kAttemptingStepDown"
    using lead leader_iff [OF assms(1)] by (cases "leaderMode s") (auto simp: canAcceptWrites_def)
  define k where "k = nat (int (length ?ts) - ?w)"
  have k: "k < length ?ts" "c = sortByOpTime ?ts ! k" "?w = int (length ?ts - k)"
    using c by (auto simp: vec_at_Some k_def)
  have "\<forall>u \<in> set ?ts. op_regular (opTime u)" using assms(3) by (auto simp: progressAndWallTime_def)
  then have "length ?ts - k \<le> countp (\<lambda>u. op_ge (opTime u) (opTime c)) ?ts" using sortByOpTime_count [of ?ts k] k by simp
  also have "\<dots> = countp (\<lambda>m. isVoter (configOf s m) \<and> op_ge (progressOf ?d m) (opTime c)) (memberData s)"
    by (simp add: countp_map countp_filter comp_def)
  finally have count: "?w \<le> int (card {i. i < length (members (rsConfig s)) \<and> isVoter (members (rsConfig s) ! i) \<and>
      op_ge (progressOf ?d (memberData s ! i)) (opTime c)})"
    using k(3) unfolding count_voters [OF assms(1) self, of "\<lambda>m. op_ge (progressOf ?d m) (opTime c)"] by simp
  have "\<forall>me mine. selfConfig s = Some me \<and> \<not> arbiterOnly me \<and> getMyLastAppliedOpTime s = Some mine \<longrightarrow> getTerm mine = getTerm (opTime c)"
    using eff by blast
  then show ?thesis using mode eff lead(1) count unfolding new by blast
qed

text \<open>A primary of three, with its own and one other member's progress.\<close>

definition sampleNode :: "int \<Rightarrow> TopologyCoordinator" where
  "sampleNode self =
     (case updateConfig (sampleConfig 1 [1, 2, 3]) self 0 ((newTopologyCoordinator RoleNone False)\<lparr>storageEngineSupportsReadCommitted := kYes\<rparr>) of
        Some s \<Rightarrow> s | None \<Rightarrow> newTopologyCoordinator RoleNone False)"

definition sampleProgress :: "OpTime list \<Rightarrow> TopologyCoordinator \<Rightarrow> TopologyCoordinator" where
  "sampleProgress ts s = s\<lparr>memberData := map (\<lambda>(m, t). m\<lparr>lastAppliedOpTime := t, lastDurableOpTime := t\<rparr>) (zip (memberData s) ts)\<rparr>"

definition sampleLeader :: TopologyCoordinator where
  "sampleLeader = (sampleProgress [OpTime (Timestamp 9 1) 3, OpTime (Timestamp 8 2) 3, nullOpTime] (sampleNode 0))
     \<lparr>role := kLeader, leaderMode := kMaster, currentPrimaryIndex := 0, tc_term := 3, firstOpTimeOfMyTerm := OpTime (Timestamp 8 1) 3\<rparr>"

lemma md_ok_code [code]:
  "md_ok m = (hb_state (lastResponse m) \<noteq> None \<and> hb_electionTime (lastResponse m) \<noteq> None \<and>
     (case hb_appliedOpTime (lastResponse m) of Some t \<Rightarrow> wallTimeOk t | None \<Rightarrow> False))"
  by (auto simp: md_ok_def split: option.split)

lemma aligned_code [code]:
  "aligned s = (if selfIndex s = -1 then (case memberData s of [m] \<Rightarrow> isSelf m \<and> configIndex m = -1 | _ \<Rightarrow> False)
     else map md_key (memberData s) = keysFrom (selfIndex s) 0 (members (rsConfig s)))"
  by (auto simp: aligned_def split: list.splits)

lemma sampleLeader_ok:
  "tc_inv sampleLeader"
  "\<forall>m \<in> set (memberData sampleLeader). op_regular (lastAppliedOpTime m) \<and> op_regular (lastDurableOpTime m)"
  "map_option (\<lambda>(b, s'). (b, lastCommittedOpTime s')) (updateLastCommittedOpTimeAndWallTime sampleLeader) =
     Some (True, \<lparr>opTime = OpTime (Timestamp 8 2) 3, wallTime = 0\<rparr>)"
  by code_simp+

theorem commit_point_majority_witness:
  "\<exists>s s'. updateLastCommittedOpTimeAndWallTime s = Some (True, s') \<and> op_less (opTime (lastCommittedOpTime s)) (opTime (lastCommittedOpTime s')) \<and>
     opTime (lastCommittedOpTime s') = OpTime (Timestamp 8 2) 3"
proof -
  obtain s' where s': "updateLastCommittedOpTimeAndWallTime sampleLeader = Some (True, s')" "opTime (lastCommittedOpTime s') = OpTime (Timestamp 8 2) 3"
    using sampleLeader_ok(3) by auto
  then show ?thesis using commit_point_majority [OF sampleLeader_ok(1) s'(1) sampleLeader_ok(2)] by blast
qed

subsection \<open>Progress reports\<close>

definition sampleReport :: "int \<Rightarrow> UpdateInfo" where
  "sampleReport i = \<lparr>ui_memberId = i, ui_cfgver = 1, ui_applied = \<lparr>opTime = OpTime (Timestamp 9 1) 3, wallTime = 40\<rparr>, ui_durable = nullOpTimeAndWallTime\<rparr>"

text \<open>Exactly the data of the reported member change: its optimes become the later of the known and the reported ones, and the result
  says whether one of them advanced.\<close>

definition recorded :: "UpdateInfo \<Rightarrow> Date_t \<Rightarrow> TopologyCoordinator \<Rightarrow> bool StatusWith \<Rightarrow> TopologyCoordinator \<Rightarrow> bool" where
  "recorded args now s st s' \<longleftrightarrow> (\<exists>i < length (memberData s).
     let m = memberData s ! i; m' = memberData s' ! i; applied = opTime (ui_applied args); durable = opTime (ui_durable args) in
     memberId m = ui_memberId args \<and> \<not> isSelf m \<and>
     s' = s\<lparr>memberData := (memberData s)[i := m']\<rparr> \<and> lastUpdate m' = now \<and> \<not> lastUpdateStale m' \<and> md_key m' = md_key m \<and>
     lastAppliedOpTime m' = later (lastAppliedOpTime m) applied \<and> lastDurableOpTime m' = later (lastDurableOpTime m) durable \<and>
     st = Inr (op_less (lastAppliedOpTime m) applied \<or> op_less (lastDurableOpTime m) durable))"

lemma setLastOptime_recorded:
  assumes "tc_inv s" "wallTimeOk (ui_applied args)" "wallTimeOk (ui_durable args)" "selfIndex s \<noteq> -1" "0 \<le> ui_memberId args"
    and "selfConfig s = Some me" "ui_memberId args \<noteq> int (mc_id me)" "fu \<or> ui_cfgver args = version (rsConfig s)"
    and i: "getMemberIndex (rsConfig s) (ui_memberId args) = Inr i" "0 \<le> i"
  shows "\<exists>st s'. setLastOptime fu args now s = Some ((st, None), s') \<and> recorded args now s st s'"
    and "\<exists>mc \<in> set (members (rsConfig s)). int (mc_id mc) = ui_memberId args"
proof -
  obtain m m' adv where u: "setLastOptime fu args now s = Some ((Inr adv, None), setMemberData i m' s)" "vec_at (memberData s) i = Some m"
    "memberId m = ui_memberId args" "i \<noteq> selfIndex s" "isSelf m \<longleftrightarrow> i = selfIndex s"
    "m' = m\<lparr>lastUpdate := now, lastUpdateStale := False, lastAppliedOpTime := lastAppliedOpTime m',
       lastAppliedWallTime := lastAppliedWallTime m', lastDurableOpTime := lastDurableOpTime m', lastDurableWallTime := lastDurableWallTime m'\<rparr>"
    "lastAppliedOpTime m' = (if op_less (lastAppliedOpTime m) (opTime (ui_applied args)) then opTime (ui_applied args) else lastAppliedOpTime m)"
    "lastDurableOpTime m' = (if op_less (lastDurableOpTime m) (opTime (ui_durable args)) then opTime (ui_durable args) else lastDurableOpTime m)"
    "adv \<longleftrightarrow> op_less (lastAppliedOpTime m) (opTime (ui_applied args)) \<or> op_less (lastDurableOpTime m) (opTime (ui_durable args))"
    by (rule setLastOptime_member [OF assms])
  have m': "lastUpdate m' = now" "\<not> lastUpdateStale m'" "md_key m' = md_key m" by (subst u(6), simp add: md_key_def)+
  have n: "nat i < length (memberData s)" "memberData s ! nat i = m" using u(2) by (auto simp: vec_at_Some)
  have set: "setMemberData i m' s = s\<lparr>memberData := (memberData s)[nat i := m']\<rparr>"
    using u(2) by (simp add: setMemberData_def vec_update_def vec_at_Some)
  have "recorded args now s (Inr adv) (setMemberData i m' s)"
    unfolding recorded_def Let_def using n u(3-5,7-9) m'
    by (intro exI [of _ "nat i"]) (simp add: set later_def)
  then show "\<exists>st s'. setLastOptime fu args now s = Some ((st, None), s') \<and> recorded args now s st s'" using u(1) by blast
  have "i < getNumMembers (rsConfig s)" "int (mc_id (members (rsConfig s) ! nat i)) = ui_memberId args"
    using getMemberIndex_hit [OF i(1)] i(2) by auto
  then show "\<exists>mc \<in> set (members (rsConfig s)). int (mc_id mc) = ui_memberId args"
    using i(2) by (intro bexI [of _ "members (rsConfig s) ! nat i"]) (simp_all add: getNumMembers_def)
qed



text \<open>A report that is recorded: member 2 has caught up with the primary.\<close>

lemma sampleReport_recorded:
  "map_option (\<lambda>((st, cv), s'). (st, map lastAppliedOpTime (memberData s'))) (setLastOptime True (sampleReport 2) 50 sampleLeader) =
     Some (Inr True, [OpTime (Timestamp 9 1) 3, OpTime (Timestamp 9 1) 3, nullOpTime])"
  by code_simp

subsection \<open>Operations that pass their assertions\<close>

lemma memberConfigAt_range: "0 \<le> i \<Longrightarrow> i < getNumMembers (rsConfig s) \<Longrightarrow> memberConfigAt s i = Some (members (rsConfig s) ! nat i)"
  by (simp add: memberConfigAt_def vec_at_def getNumMembers_def)

lemma tc_inv_config_ok: "tc_inv s \<Longrightarrow> selfIndex s \<noteq> -1 \<Longrightarrow> config_ok (rsConfig s)"
  by (auto simp: tc_inv_def control_ok_def)

lemma updateLastCommitted_ok:
  assumes "tc_inv s" "0 < writeMajority (rsConfig s)"
  shows "\<exists>b s'. updateLastCommittedOpTimeAndWallTime s = Some (b, s') \<and> tc_inv s' \<and> same_role s s'"
proof (cases "role s = kLeader \<and> leaderMode s \<noteq> kSteppingDown")
  case False
  then have "updateLastCommittedOpTimeAndWallTime s = Some (False, s)"
    by (auto simp: updateLastCommittedOpTimeAndWallTime_def iAmPrimary_ok [OF assms(1)])
  then show ?thesis using assms(1) by auto
next
  case True
  then have self: "selfIndex s \<noteq> -1" using assms(1) by (auto simp: tc_inv_def control_ok_def)
  let ?ts = "map (progressAndWallTime (writeConcernMajorityJournalDefault (rsConfig s))) (filter (\<lambda>m. isVoter (configOf s m)) (memberData s))"
  have "0 < countp isVoter (members (rsConfig s))" using tc_inv_config_ok [OF assms(1) self] by (simp add: config_ok_def)
  then have ne: "?ts \<noteq> []" using votersProgress_ok(2) [OF assms(1) self] by (metis length_0_conv length_map less_irrefl)
  show ?thesis
  proof (cases "int (length ?ts) < writeMajority (rsConfig s)")
    case small: True
    have "updateLastCommittedOpTimeAndWallTime s = Some (False, s)"
      unfolding updateLastCommittedOpTimeAndWallTime_def iAmPrimary_ok [OF assms(1)] votersProgress_ok [OF assms(1) self]
      using True ne small by simp
    then show ?thesis using assms(1) by auto
  next
    case False
    then obtain c where "vec_at (sortByOpTime ?ts) (int (length ?ts) - writeMajority (rsConfig s)) = Some c"
      using assms(2) by (simp add: vec_at_def)
    then have "updateLastCommittedOpTimeAndWallTime s = advanceLastCommittedOpTimeAndWallTime c False s"
      unfolding updateLastCommittedOpTimeAndWallTime_def iAmPrimary_ok [OF assms(1)] votersProgress_ok [OF assms(1) self]
      using True ne False by simp
    then show ?thesis using advanceLastCommitted_ok [OF assms(1), of c False] by metis
  qed
qed

text \<open>No member's priority is a NaN, which validation lets pass (see \<open>nan_priority_aborts\<close>).\<close>

definition realPriorities :: "ReplSetConfig \<Rightarrow> bool" where
  "realPriorities c \<longleftrightarrow> (\<forall>m \<in> set (members c). priority m \<noteq> NaN)"

lemma getUnelectableReason_ok:
  assumes "tc_inv s" "selfIndex s \<noteq> -1" "0 \<le> i" "i < getNumMembers (rsConfig s)" "i \<noteq> selfIndex s" "realPriorities (rsConfig s)"
  shows "\<exists>r. getUnelectableReason i s = Some r"
proof -
  obtain m mc where m: "vec_at (memberData s) i = Some m" "memberConfigAt s i = Some mc" by (rule aligned_at [OF assms(1-4)])
  then have "mc \<in> set (members (rsConfig s))" by (auto simp: memberConfigAt_def vec_at_Some)
  then have "priority mc \<noteq> NaN" using assms(6) by (simp add: realPriorities_def)
  then have "\<not> arbiterOnly mc \<Longrightarrow> \<not> noPriority mc \<Longrightarrow> isElectable mc"
    by (cases "priority mc") (auto simp: noPriority_def isElectable_def d_less_def)
  then show ?thesis using m assms(5) by (simp add: getUnelectableReason_def Let_def invariant_def)
qed

lemma someCaughtUp_ok:
  assumes "tc_inv s" "selfIndex s \<noteq> -1" "realPriorities (rsConfig s)" "0 \<le> i" "i + int n = getNumMembers (rsConfig s)"
  shows "\<exists>b. someCaughtUpAndElectable n i t s = Some b"
  using assms(4,5)
proof (induction n arbitrary: i)
  case (Suc n)
  have next_ok: "\<exists>b. someCaughtUpAndElectable n (i + 1) t s = Some b" using Suc.IH [of "i + 1"] Suc.prems by simp
  show ?case
  proof (cases "i = selfIndex s")
    case False
    have i: "i < getNumMembers (rsConfig s)" using Suc.prems by linarith
    obtain m where "vec_at (memberData s) i = Some m" by (rule aligned_at [OF assms(1,2) Suc.prems(1) i])
    moreover obtain r where "getUnelectableReason i s = Some r"
      using getUnelectableReason_ok [OF assms(1,2) Suc.prems(1) i False assms(3)] by blast
    ultimately show ?thesis using False next_ok by (auto simp: isCaughtUpAndElectable_def)
  qed (use next_ok in simp)
qed auto

lemma feedMembers_ok:
  assumes "\<forall>m \<in> set ms. 0 \<le> configIndex m \<and> configIndex m < getNumMembers (rsConfig s)"
  shows "\<exists>b. feedMembers s pr ms mt = Some b"
  using assms
proof (induction ms arbitrary: mt)
  case (Cons m ms)
  obtain b mt' where "feedTags (mc_tags (configOf s m)) mt = (b, mt')" by fastforce
  then show ?case using Cons by (auto simp: memberConfigAt_range)
qed auto

lemma isSafeToStepDown_ok:
  assumes "tc_inv s" "findCustomWriteMode (rsConfig s) ''$majority'' = Inr p" "realPriorities (rsConfig s)"
  shows "\<exists>b. isSafeToStepDown s = Some b"
proof (cases "isInitialized (rsConfig s) \<and> selfIndex s \<ge> 0")
  case True
  then have self: "selfIndex s \<noteq> -1" by simp
  obtain t where t: "getMyLastAppliedOpTime s = Some t" using getMyLastApplied_ok [OF assms(1)] by blast
  obtain b where b: "feedMembers s (\<lambda>m. hasReached t (progressOf False m)) (memberData s) (newMatch p) = Some b"
    using feedMembers_ok aligned_range [OF assms(1) self] by blast
  obtain c where "someCaughtUpAndElectable (length (members (rsConfig s))) 0 t s = Some c"
    using someCaughtUp_ok [OF assms(1) self assms(3), of 0 "length (members (rsConfig s))" t] by (auto simp: getNumMembers_def)
  then show ?thesis using True assms(2) t b
    by (auto simp: isSafeToStepDown_def haveTaggedNodesReachedOpTime_def makeOpTimePredicate_def haveTaggedNodesSatisfiedCondition_def)
qed (auto simp: isSafeToStepDown_def)

lemma tryToStartStepDown_ok:
  assumes "tc_inv s" "findCustomWriteMode (rsConfig s) ''$majority'' = Inr p" "realPriorities (rsConfig s)"
    and "role s = kLeader \<and> tc_term s = t \<longrightarrow> leaderMode s = kAttemptingStepDown \<or> leaderMode s = kSteppingDown"
  shows "\<exists>e s'. tryToStartStepDown t now wu u f s = Some (e, s')"
proof (cases "role s = kLeader \<and> leaderMode s \<noteq> kSteppingDown \<and> tc_term s = t")
  case True
  obtain b where b: "canCompleteStepDownAttempt now wu f s = Some b"
    using isSafeToStepDown_ok [OF assms(1-3)] by (cases "f \<and> wu \<le> now") (auto simp: canCompleteStepDownAttempt_def)
  have i: "tc_inv (s\<lparr>stepDownUntil := u\<rparr>)" by (rule tc_inv_same_data [OF assms(1)]) (simp_all add: ctrl_def)
  obtain x s1 where "prepareForUnconditionalStepDown (s\<lparr>stepDownUntil := u\<rparr>) = Some (x, s1)"
    using prepareForUnconditionalStepDown_ok [OF i] True by auto
  then show ?thesis using True assms(4) b by (auto simp: tryToStartStepDown_def)
qed (auto simp: tryToStartStepDown_def)

lemma findHealthyPrimary_ok:
  assumes "tc_inv s" "selfIndex s \<noteq> -1" "0 \<le> i" "i + int (length ms) = getNumMembers (rsConfig s)"
  shows "\<exists>j. findHealthyPrimary s c p ms i = Some j \<and> (j \<noteq> -1 \<longrightarrow> 0 \<le> j \<and> j < getNumMembers (rsConfig s))"
  using assms(3,4)
proof (induction ms arbitrary: i)
  case (Cons m ms)
  have "\<exists>j. findHealthyPrimary s c p ms (i + 1) = Some j \<and> (j \<noteq> -1 \<longrightarrow> 0 \<le> j \<and> j < getNumMembers (rsConfig s))"
    using Cons.IH [of "i + 1"] Cons.prems by simp
  then show ?case using Cons.prems by (auto simp: memberConfigAt_range)
qed simp

text \<open>The index of the last candidate voted for is looked up when a second vote is refused; it has to be one of this configuration.\<close>

lemma requestVotes_ok:
  assumes "tc_inv s" "selfIndex s \<noteq> -1" "0 \<le> va_candidateIndex args" "va_candidateIndex args < getNumMembers (rsConfig s)"
    and "lv_term (lastVote s) = va_term args \<and> \<not> va_dryRun args \<longrightarrow>
      0 \<le> lv_candidateIndex (lastVote s) \<and> lv_candidateIndex (lastVote s) < getNumMembers (rsConfig s)"
  shows "\<exists>r s'. processReplSetRequestVotes args s = Some (r, s')"
proof -
  let ?no = "(\<lparr>vr_term = tc_term s, vr_voteGranted = False\<rparr>, s)"
  obtain t where t: "getMyLastAppliedOpTime s = Some t" using getMyLastApplied_ok [OF assms(1)] by blast
  obtain me where me: "selfConfig s = Some me" by (rule tc_inv_selfConfig [OF assms(1,2)])
  have "int (length (memberData s)) = getNumMembers (rsConfig s)" using aligned_length [OF assms(1)] assms(2) by simp
  then obtain j where j: "findHealthyPrimaryOfEqualOrGreaterPriority (va_candidateIndex args) s = Some j"
      "j \<noteq> -1 \<longrightarrow> 0 \<le> j \<and> j < getNumMembers (rsConfig s)"
    using findHealthyPrimary_ok [OF assms(1,2), of 0 "memberData s" "va_candidateIndex args"] assms(3,4)
    by (auto simp: findHealthyPrimaryOfEqualOrGreaterPriority_def memberConfigAt_range)
  have again: "\<exists>m. memberConfigAt s (lv_candidateIndex (lastVote s)) = Some m" if "\<not> va_dryRun args \<and> lv_term (lastVote s) = va_term args"
    using assms(5) that by (simp add: memberConfigAt_range)
  have better: "\<exists>m. memberConfigAt s j = Some m" if "j \<ge> 0" using j(2) that by (simp add: memberConfigAt_range)
  have two: "\<exists>y. (if P then Some ?no else if Q then Option.bind x (\<lambda>_. Some ?no) else if R then Option.bind z (\<lambda>_. Some ?no) else Some w) = Some y"
    if "Q \<Longrightarrow> \<exists>m. x = Some m" "R \<Longrightarrow> \<exists>m. z = Some m" for P Q R and x z :: "MemberConfig option" and w
    using that by (cases P; cases Q; cases R) auto
  show ?thesis
    unfolding processReplSetRequestVotes_def t j(1) me Let_def Option.bind.bind_lunit split_paired_Ex [symmetric]
    using two [OF again better] by simp
qed

subsection \<open>Assertions that a validated configuration does not exclude\<close>

text \<open>
  A priority that is not a number passes every range check of \<open>MemberConfig::validate\<close>. A primary that then looks for a member to hand
  over to finds no reason against that member, and aborts because the member is not electable.
\<close>

definition withPriorities :: "double list \<Rightarrow> ReplSetConfig \<Rightarrow> ReplSetConfig" where
  "withPriorities ps c = c\<lparr>members := map (\<lambda>(m, p). m\<lparr>priority := p\<rparr>) (zip (members c) ps)\<rparr>"

definition caughtUpLeader :: "double list \<Rightarrow> TopologyCoordinator" where
  "caughtUpLeader ps =
     (let t = OpTime (Timestamp 9 1) 3; s = sampleProgress [t, t, t] sampleLeader in
      s\<lparr>rsConfig := withPriorities ps (rsConfig s), memberData := map (\<lambda>m. m\<lparr>lastResponse := stateOnlyResponse RS_SECONDARY, health := 1\<rparr>) (memberData s)\<rparr>)"

lemma nan_priority_aborts:
  "validateConfig sampleParams (rsConfig (caughtUpLeader [Fin 1, Fin 1, NaN])) = Inr ()"
  "tc_inv (caughtUpLeader [Fin 1, Fin 1, NaN])"
  "chooseElectionHandoffCandidate (caughtUpLeader [Fin 1, Fin 1, NaN]) = None"
  by code_simp+

text \<open>
  The candidate to hand over to should be the caught-up electable member of highest priority. The highest priority seen is kept in an
  \<open>int\<close>, so 1.9 is remembered as 1 and the later 1.5 replaces it.
\<close>

lemma handoff_truncates:
  "validateConfig sampleParams (rsConfig (caughtUpLeader [Fin 1, Fin (19 / 10), Fin (3 / 2)])) = Inr ()"
  "tc_inv (caughtUpLeader [Fin 1, Fin (19 / 10), Fin (3 / 2)])"
  "chooseElectionHandoffCandidate (caughtUpLeader [Fin 1, Fin (19 / 10), Fin (3 / 2)]) = Some 2"
  by code_simp+

text \<open>
  The refusal of a second vote in a term looks up the member voted for, also when the vote is the initial one, of term 0 for the
  member with index -1. A freshly initiated node is in term 0.
\<close>

definition sampleVoteArgs :: "int \<Rightarrow> int \<Rightarrow> bool \<Rightarrow> ReplSetRequestVotesArgs" where
  "sampleVoteArgs t cand dry =
     \<lparr>va_setName = ''rs0'', va_term = t, va_candidateIndex = cand, va_cfgVer = 1, va_cfgTerm = 1,
      va_lastAppliedOpTime = OpTime (Timestamp 9 1) 3, va_dryRun = dry\<rparr>"

lemma initial_vote_aborts:
  "tc_inv (sampleNode 1)"
  "processReplSetRequestVotes (sampleVoteArgs 0 0 False) (sampleNode 1) = None"
  by code_simp+

end
