(* ===== verification/ParseNumber.thy ===== *)
theory ParseNumber
  imports ReplConfig
begin

text \<open>
  \<^verbatim>\<open>base/parse_number.h\<close> and \<^verbatim>\<open>base/parse_number.cpp\<close>: the integer parsers behind
  \<open>NumberParser::operator()\<close>. A magnitude is accumulated in an unsigned 64-bit integer with a
  checked multiplication and a checked addition per digit, then compared with the range of the requested type.
  The specialisations for \<^verbatim>\<open>double\<close> and \<^verbatim>\<open>Decimal128\<close> call \<^verbatim>\<open>strtod\<close> and the
  decimal library and are not modelled.

  An integer type is described by its width and signedness. A run returns the position that
  \<^verbatim>\<open>*endptr\<close> is left at, an offset into the input, and the status or the number.
\<close>

record NumberType =
  width :: nat
  is_signed :: bool

definition limits_max :: "NumberType \<Rightarrow> int" where
  "limits_max t = (if is_signed t then 2 ^ (width t - 1) - 1 else 2 ^ width t - 1)"

definition limits_min :: "NumberType \<Rightarrow> int" where
  "limits_min t = (if is_signed t then - (2 ^ (width t - 1)) else 0)"

text \<open>The types \<open>DEFINE_NUMBER_PARSER_OPERATOR\<close> is instantiated with have one of four widths.\<close>

definition machine_type :: "NumberType \<Rightarrow> bool" where
  "machine_type t \<longleftrightarrow> width t = 8 \<or> width t = 16 \<or> width t = 32 \<or> width t = 64"

definition int_type :: NumberType where
  "int_type = \<lparr>width = 32, is_signed = True\<rparr>"

text \<open>The conversion \<open>NumberType(x)\<close> of an unsigned 64-bit value keeps its low bits.\<close>

definition convert_number :: "NumberType \<Rightarrow> 64 word \<Rightarrow> int" where
  "convert_number t x = (if is_signed t then signed_take_bit (width t - 1) (uint x) else take_bit (width t) (uint x))"

record NumberParser =
  base :: int
  skipLeadingWhitespace :: bool
  allowTrailingText :: bool

definition newNumberParser :: NumberParser where
  "newNumberParser = \<lparr>base = 0, skipLeadingWhitespace = False, allowTrailingText = False\<rparr>"

definition strToAny :: "int \<Rightarrow> NumberParser" where
  "strToAny b = newNumberParser\<lparr>skipLeadingWhitespace := True, base := b, allowTrailingText := True\<rparr>"

definition digitValue :: "char \<Rightarrow> nat" where
  "digitValue c =
     (let n = of_char c :: nat
      in if 48 \<le> n \<and> n \<le> 57 then n - 48
         else if 97 \<le> n \<and> n \<le> 122 then n - 97 + 10
         else if 65 \<le> n \<and> n \<le> 90 then n - 65 + 10
         else 36)"

fun extractSign :: "string \<Rightarrow> bool \<times> string" where
  "extractSign [] = (False, [])"
| "extractSign (c # cs) =
     (if c = CHR ''-'' then (True, cs) else if c = CHR ''+'' then (False, cs) else (False, c # cs))"

definition hasHexPrefix :: "string \<Rightarrow> bool" where
  "hasHexPrefix s \<longleftrightarrow> prefix ''0x'' s \<or> prefix ''0X'' s"

definition extractBase :: "string \<Rightarrow> int \<Rightarrow> int \<times> string" where
  "extractBase s inputBase =
     (if inputBase = 0 then
        if 2 < length s \<and> hasHexPrefix s then (16, drop 2 s)
        else if 1 < length s \<and> hd s = CHR ''0'' then (8, s)
        else (10, s)
      else if inputBase = 16 \<and> hasHexPrefix s then (inputBase, drop 2 s)
      else (inputBase, s))"

definition overflow_mul :: "64 word \<Rightarrow> 64 word \<Rightarrow> bool \<times> 64 word" where
  "overflow_mul a b = (2 ^ 64 \<le> uint a * uint b, a * b)"

definition overflow_add :: "64 word \<Rightarrow> 64 word \<Rightarrow> bool \<times> 64 word" where
  "overflow_add a b = (2 ^ 64 \<le> uint a + uint b, a + b)"

text \<open>The loop over the characters: the value so far and how many characters it stands for.\<close>

fun magnitudeLoop :: "64 word \<Rightarrow> 64 word \<Rightarrow> nat \<Rightarrow> string \<Rightarrow> (64 word \<times> nat) StatusWith" where
  "magnitudeLoop b n consumed [] = Inr (n, consumed)"
| "magnitudeLoop b n consumed (c # cs) =
     (let d = word_of_nat (digitValue c) :: 64 word
      in if b \<le> d then Inr (n, consumed)
         else let (mulOver, multiplied) = overflow_mul n b
         in if mulOver then Inl Overflow
         else let (addOver, n') = overflow_add multiplied d
         in if addOver then Inl Overflow
         else magnitudeLoop b n' (consumed + 1) cs)"

definition parseMagnitudeFromStringWithBase ::
    "64 word \<Rightarrow> string \<Rightarrow> nat \<Rightarrow> nat \<Rightarrow> bool \<Rightarrow> nat \<times> 64 word StatusWith" where
  "parseMagnitudeFromStringWithBase b magnitudeStr offset endptr allowTrailing =
     (case magnitudeLoop b 0 0 magnitudeStr of
        Inl e \<Rightarrow> (endptr, Inl e)
      | Inr (n, consumed) \<Rightarrow>
          (offset + consumed,
           if \<not> allowTrailing \<and> consumed \<noteq> length magnitudeStr then Inl FailedToParse
           else if consumed = 0 then Inl FailedToParse
           else Inr n))"

definition isspace :: "char \<Rightarrow> bool" where
  "isspace c \<longleftrightarrow> (let n = of_char c :: nat in (9 \<le> n \<and> n \<le> 13) \<or> n = 32)"

definition removeLeadingWhitespace :: "string \<Rightarrow> string" where
  "removeLeadingWhitespace s = dropWhile isspace s"

definition parseNumberFromStringHelper ::
    "NumberType \<Rightarrow> NumberParser \<Rightarrow> string \<Rightarrow> nat \<times> int StatusWith" where
  "parseNumberFromStringHelper t parser s0 =
     (if base parser = 1 \<or> base parser < 0 \<or> 36 < base parser then (0, Inl BadValue)
      else
        let s = (if skipLeadingWhitespace parser then removeLeadingWhitespace s0 else s0);
            (isNegative, unsignedStr) = extractSign s;
            (b, magnitudeStr) = extractBase unsignedStr (base parser)
        in if isNegative \<and> \<not> is_signed t then (0, Inl FailedToParse)
           else if magnitudeStr = [] then (0, Inl FailedToParse)
           else
             let (endptr, result) = parseMagnitudeFromStringWithBase (word_of_int b) magnitudeStr
                   (length s0 - length magnitudeStr) 0 (allowTrailingText parser)
             in (endptr,
                 case result of
                   Inl e \<Rightarrow> Inl e
                 | Inr magnitude \<Rightarrow>
                     let maxMagnitude = word_of_int (limits_max t) + (if isNegative then 1 else 0)
                     in if maxMagnitude < magnitude then Inl Overflow
                        else Inr (convert_number t (if isNegative then - magnitude else magnitude))))"

definition parseNumber :: "NumberType \<Rightarrow> NumberParser \<Rightarrow> string \<Rightarrow> int StatusWith" where
  "parseNumber t parser s = snd (parseNumberFromStringHelper t parser s)"


subsection \<open>The value of a numeral\<close>

fun horner :: "int \<Rightarrow> int \<Rightarrow> string \<Rightarrow> int" where
  "horner b n [] = n"
| "horner b n (c # cs) = horner b (n * b + int (digitValue c)) cs"

definition digits_of :: "int \<Rightarrow> string \<Rightarrow> bool" where
  "digits_of b cs \<longleftrightarrow> list_all (\<lambda>c. int (digitValue c) < b) cs"

lemma digits_of_simps [simp]:
  "digits_of b []"
  "digits_of b (c # cs) \<longleftrightarrow> int (digitValue c) < b \<and> digits_of b cs"
  by (simp_all add: digits_of_def)

lemma digitValue_le: "digitValue c \<le> 36"
  unfolding digitValue_def Let_def by (split if_split)+ linarith

lemma uint_small: "0 \<le> x \<Longrightarrow> x < 2 ^ 64 \<Longrightarrow> uint (word_of_int x :: 64 word) = x"
  by (simp add: uint_word_of_int_eq take_bit_int_eq_self)

lemma horner_ge: "1 \<le> b \<Longrightarrow> 0 \<le> n \<Longrightarrow> n \<le> horner b n cs"
proof (induction cs arbitrary: n)
  case (Cons c cs)
  then have "n \<le> n * b + int (digitValue c)"
    using mult_left_mono [of 1 b n] by simp
  with Cons.IH [of "n * b + int (digitValue c)"] Cons.prems show ?case by simp
qed simp

lemma digit_word [simp]: "uint (word_of_nat (digitValue c) :: 64 word) = int (digitValue c)"
  using digitValue_le [of c] by (simp add: unsigned_of_nat take_bit_nat_eq_self)

lemma small_base_word: "2 \<le> b \<Longrightarrow> b \<le> 36 \<Longrightarrow> uint (word_of_int b :: 64 word) = b"
  by (simp add: uint_small)

lemma word_of_int_uint_step:
  fixes n b :: "64 word"
  assumes "uint n * uint b + int d < 2 ^ 64"
  shows "uint (n * b + word_of_nat d) = uint n * uint b + int d"
proof -
  have "n * b + word_of_nat d = word_of_int (uint n * uint b + int d)" by simp
  moreover have "0 \<le> uint n * uint b + int d" by simp
  ultimately show ?thesis using assms by (simp only: uint_small)
qed

lemma magnitudeLoop_step:
  assumes b: "2 \<le> b" "b \<le> 36" and d: "int (digitValue c) < b"
  shows "magnitudeLoop (word_of_int b) n k (c # cs) =
     (if uint n * b + int (digitValue c) < 2 ^ 64
      then magnitudeLoop (word_of_int b) (n * word_of_int b + word_of_nat (digitValue c)) (k + 1) cs
      else Inl Overflow)"
proof -
  note ub = small_base_word [OF b]
  have mul: "uint n * b < 2 ^ 64 \<Longrightarrow> uint (n * word_of_int b) = uint n * b"
    using word_of_int_uint_step [of n "word_of_int b" 0] by (simp add: ub)
  show ?thesis
    using d mul by (auto simp: Let_def overflow_mul_def overflow_add_def word_le_def ub)
qed

lemma magnitudeLoop_digits:
  assumes b: "2 \<le> b" "b \<le> 36" and "digits_of b cs"
  shows "magnitudeLoop (word_of_int b) n k cs =
     (if horner b (uint n) cs < 2 ^ 64 then Inr (word_of_int (horner b (uint n) cs), k + length cs) else Inl Overflow)"
  using assms(3)
proof (induction cs arbitrary: n k)
  case Nil
  show ?case using uint_lt2p [of n] by simp
next
  case (Cons c cs)
  let ?v = "uint n * b + int (digitValue c)"
  have d: "int (digitValue c) < b" and ds: "digits_of b cs" using Cons.prems by simp_all
  show ?case
  proof (cases "?v < 2 ^ 64")
    case True
    then have "uint (n * word_of_int b + word_of_nat (digitValue c)) = ?v"
      using word_of_int_uint_step [of n "word_of_int b" "digitValue c"] by (simp add: small_base_word [OF b])
    then show ?thesis
      using Cons.IH [OF ds, of "n * word_of_int b + word_of_nat (digitValue c)" "k + 1"] True
      by (simp add: magnitudeLoop_step [OF b d] del: magnitudeLoop.simps)
  next
    case False
    have "0 \<le> ?v" using b by simp
    then have "?v \<le> horner b ?v cs" by (rule horner_ge [rotated]) (use b in simp)
    with False show ?thesis by (simp add: magnitudeLoop_step [OF b d] del: magnitudeLoop.simps)
  qed
qed

lemma magnitudeLoop_stops:
  assumes b: "2 \<le> b" "b \<le> 36" and "\<not> digits_of b cs"
  shows "magnitudeLoop (word_of_int b) n k cs = Inl Overflow \<or>
     (\<exists>m k'. magnitudeLoop (word_of_int b) n k cs = Inr (m, k') \<and> k' < k + length cs)"
  using assms(3)
proof (induction cs arbitrary: n k)
  case (Cons c cs)
  show ?case
  proof (cases "int (digitValue c) < b")
    case True
    with Cons.prems have "\<not> digits_of b cs" by simp
    from Cons.IH [OF this, of "n * word_of_int b + word_of_nat (digitValue c)" "k + 1"] show ?thesis
      by (auto simp: magnitudeLoop_step [OF b True] simp del: magnitudeLoop.simps)
  next
    case False
    then show ?thesis by (simp add: word_le_def small_base_word [OF b])
  qed
qed simp

subsection \<open>Ranges\<close>

lemma convert_number_pos:
  assumes "machine_type t" "0 \<le> m" "m \<le> limits_max t"
  shows "convert_number t (word_of_int m) = m"
proof -
  have "m < 2 ^ 64" using assms by (auto simp: machine_type_def limits_max_def split: if_splits)
  then have "uint (word_of_int m :: 64 word) = m" using assms(2) by (simp add: uint_word_of_int_eq take_bit_int_eq_self)
  with assms show ?thesis
    by (auto simp: machine_type_def limits_max_def convert_number_def signed_take_bit_int_eq_self take_bit_int_eq_self split: if_splits)
qed

lemma convert_number_neg:
  assumes "machine_type t" "is_signed t" "0 \<le> m" "m \<le> limits_max t + 1"
  shows "convert_number t (- word_of_int m) = - m"
proof -
  have w: "width t - 1 < 64" using assms(1) by (auto simp: machine_type_def)
  have "uint (word_of_int (- m) :: 64 word) = take_bit 64 (- m)" by (subst uint_word_of_int_eq) simp
  then have "uint (- word_of_int m :: 64 word) = take_bit 64 (- m)" by simp
  then have "convert_number t (- word_of_int m) = signed_take_bit (width t - 1) (- m)"
    using w assms(2) by (simp add: convert_number_def signed_take_bit_take_bit)
  also have "\<dots> = - m"
    using assms by (auto simp: machine_type_def limits_max_def intro!: signed_take_bit_int_eq_self)
  finally show ?thesis .
qed

lemma max_magnitude:
  assumes "machine_type t" "neg \<longrightarrow> is_signed t"
  shows "uint (word_of_int (limits_max t) + (if neg then 1 else 0) :: 64 word) = limits_max t + (if neg then 1 else 0)"
proof -
  have "word_of_int (limits_max t) + (if neg then 1 else 0) = (word_of_int (limits_max t + (if neg then 1 else 0)) :: 64 word)"
    by simp
  moreover have "0 \<le> limits_max t + (if neg then 1 else 0)" "limits_max t + (if neg then 1 else 0) < 2 ^ 64"
    using assms by (auto simp: machine_type_def limits_max_def)
  ultimately show ?thesis by (simp only: uint_small)
qed

subsection \<open>What a parse returns\<close>

lemma extractBase_range:
  assumes "extractBase m i = (b, ds)" "i = 0 \<or> (2 \<le> i \<and> i \<le> 36)"
  shows "2 \<le> b" "b \<le> 36"
  using assms by (auto simp: extractBase_def split: if_splits)

definition in_range :: "NumberType \<Rightarrow> int \<Rightarrow> bool" where
  "in_range t v \<longleftrightarrow> limits_min t \<le> v \<and> v \<le> limits_max t"

lemma in_range_signed:
  assumes "machine_type t" "0 \<le> m" "neg \<longrightarrow> is_signed t"
  shows "in_range t (if neg then - m else m) \<longleftrightarrow> m \<le> limits_max t + (if neg then 1 else 0)"
  using assms zero_less_power [of "2 :: int" "width t - 1"]
  by (auto simp: in_range_def limits_min_def limits_max_def simp del: zero_less_power)

lemma limits_max_less: "machine_type t \<Longrightarrow> (neg \<longrightarrow> is_signed t) \<Longrightarrow> limits_max t + (if neg then 1 else 0) < 2 ^ 64"
  by (auto simp: machine_type_def limits_max_def)

text \<open>The digits in place of the string, once the sign and the base have been taken off.\<close>

lemma parseNumber_parts:
  assumes "base p = 0 \<or> (2 \<le> base p \<and> base p \<le> 36)" "\<not> allowTrailingText p"
    and "extractSign (if skipLeadingWhitespace p then removeLeadingWhitespace s else s) = (neg, m)"
    and "extractBase m (base p) = (b, ds)"
  shows "parseNumber t p s =
    (if neg \<and> \<not> is_signed t \<or> ds = [] then Inl FailedToParse
     else case magnitudeLoop (word_of_int b) 0 0 ds of
       Inl e \<Rightarrow> Inl e
     | Inr (n, consumed) \<Rightarrow>
         if consumed \<noteq> length ds then Inl FailedToParse
         else if word_of_int (limits_max t) + (if neg then 1 else 0) < n then Inl Overflow
         else Inr (convert_number t (if neg then - n else n)))"
  using assms
  by (auto simp: parseNumber_def parseNumberFromStringHelper_def parseMagnitudeFromStringWithBase_def Let_def
      split: sum.splits prod.splits)

lemma parseNumber_digits:
  assumes t: "machine_type t" and p: "base p = 0 \<or> (2 \<le> base p \<and> base p \<le> 36)" "\<not> allowTrailingText p"
    and s: "extractSign (if skipLeadingWhitespace p then removeLeadingWhitespace s else s) = (neg, m)"
    and m: "extractBase m (base p) = (b, ds)"
    and ds: "ds \<noteq> []" "digits_of b ds" and neg: "neg \<longrightarrow> is_signed t"
  shows "parseNumber t p s =
    (let v = (if neg then - horner b 0 ds else horner b 0 ds) in if in_range t v then Inr v else Inl Overflow)"
proof -
  note b = extractBase_range [OF m p(1)]
  let ?h = "horner b 0 ds"
  have h: "0 \<le> ?h" using horner_ge [of b 0 ds] b by simp
  note range = in_range_signed [OF t h neg] and less = limits_max_less [OF t neg] and max = max_magnitude [OF t neg]
  show ?thesis
  proof (cases "?h < 2 ^ 64")
    case True
    with h have u: "uint (word_of_int ?h :: 64 word) = ?h" by (simp only: uint_small)
    have "convert_number t (if neg then - word_of_int ?h else word_of_int ?h) = (if neg then - ?h else ?h)"
      if "?h \<le> limits_max t + (if neg then 1 else 0)"
      using that neg convert_number_pos [OF t h] convert_number_neg [OF t _ h] by auto
    with True ds u neg max range show ?thesis
      by (auto simp: parseNumber_parts [OF p s m] magnitudeLoop_digits [OF b ds(2)] word_less_def Let_def)
  next
    case False
    with less range have "\<not> in_range t (if neg then - ?h else ?h)" by linarith
    with False ds neg show ?thesis
      by (simp add: parseNumber_parts [OF p s m] magnitudeLoop_digits [OF b ds(2)] Let_def)
  qed
qed

lemma parseNumber_malformed:
  assumes p: "base p = 0 \<or> (2 \<le> base p \<and> base p \<le> 36)" "\<not> allowTrailingText p"
    and s: "extractSign (if skipLeadingWhitespace p then removeLeadingWhitespace s else s) = (neg, m)"
    and m: "extractBase m (base p) = (b, ds)"
    and bad: "ds = [] \<or> \<not> digits_of b ds \<or> (neg \<and> \<not> is_signed t)"
  shows "parseNumber t p s = Inl FailedToParse \<or> parseNumber t p s = Inl Overflow"
proof (cases "ds = [] \<or> (neg \<and> \<not> is_signed t)")
  case True
  then show ?thesis by (auto simp: parseNumber_parts [OF p s m])
next
  case False
  with bad have "\<not> digits_of b ds" by blast
  from magnitudeLoop_stops [OF extractBase_range [OF m p(1)] this, of 0 0] False show ?thesis
    by (auto simp: parseNumber_parts [OF p s m])
qed

text \<open>(C29) An integer parse without trailing text, in a base that the header calls legal (2 to 35, or 0 for inferring it), accepts exactly
  the numerals of the base: after the optional white space, the sign and the prefix of the base, a nonempty string of digits whose value, an
  unbounded integer, lies in the range of the requested type, which is then the number returned; a numeral out of range is reported
  as \<open>Overflow\<close>, and what is no numeral is refused. No wrap-around of the 64-bit accumulator can turn a numeral that is too large into a
  number. For the base 1, a negative base or one above 36 the result is \<open>BadValue\<close>. The header promises that for base 36 too, which the
  program accepts (\<open>base_36_is_parsed\<close>).\<close>

theorem number_parser_exact:
  assumes "machine_type t" "\<not> allowTrailingText p"
    and "extractSign (if skipLeadingWhitespace p then removeLeadingWhitespace s else s) = (neg, m)"
    and "extractBase m (base p) = (b, ds)"
  defines "v \<equiv> if neg then - horner b 0 ds else horner b 0 ds"
    and "isNumeral \<equiv> ds \<noteq> [] \<and> digits_of b ds \<and> (neg \<longrightarrow> is_signed t)"
  shows "(base p = 0 \<or> (2 \<le> base p \<and> base p \<le> 35) \<longrightarrow>
      (\<forall>n. parseNumber t p s = Inr n \<longleftrightarrow> isNumeral \<and> in_range t v \<and> n = v) \<and>
      (isNumeral \<and> \<not> in_range t v \<longrightarrow> parseNumber t p s = Inl Overflow) \<and>
      (\<not> isNumeral \<longrightarrow> parseNumber t p s = Inl FailedToParse \<or> parseNumber t p s = Inl Overflow)) \<and>
    (base p = 1 \<or> base p < 0 \<or> base p > 36 \<longrightarrow> parseNumber t p s = Inl BadValue)"
proof (intro conjI impI)
  assume "base p = 1 \<or> base p < 0 \<or> base p > 36"
  then show "parseNumber t p s = Inl BadValue" by (simp add: parseNumber_def parseNumberFromStringHelper_def)
next
  assume "base p = 0 \<or> (2 \<le> base p \<and> base p \<le> 35)"
  then have base: "base p = 0 \<or> (2 \<le> base p \<and> base p \<le> 36)" by auto
  have "isNumeral \<Longrightarrow> parseNumber t p s = (if in_range t v then Inr v else Inl Overflow)"
    using parseNumber_digits [OF assms(1) base assms(2-4)] by (simp add: isNumeral_def v_def Let_def)
  moreover have bad: "\<not> isNumeral \<Longrightarrow> parseNumber t p s = Inl FailedToParse \<or> parseNumber t p s = Inl Overflow"
    using parseNumber_malformed [OF base assms(2-4), of t] by (auto simp: isNumeral_def)
  ultimately show "\<forall>n. parseNumber t p s = Inr n \<longleftrightarrow> isNumeral \<and> in_range t v \<and> n = v"
    "isNumeral \<and> \<not> in_range t v \<Longrightarrow> parseNumber t p s = Inl Overflow" by (cases isNumeral; auto)+
  show "\<not> isNumeral \<Longrightarrow> parseNumber t p s = Inl FailedToParse \<or> parseNumber t p s = Inl Overflow" by (rule bad)
qed

theorem number_parser_exact_witness:
  "parseNumber \<lparr>width = 8, is_signed = True\<rparr> newNumberParser ''-0x80'' = Inr (- 128) \<and>
   parseNumber \<lparr>width = 8, is_signed = True\<rparr> newNumberParser ''-0x81'' = Inl Overflow"
proof -
  have "extractSign (if skipLeadingWhitespace newNumberParser then removeLeadingWhitespace ''-0x80'' else ''-0x80'') = (True, ''0x80'')"
    "extractSign (if skipLeadingWhitespace newNumberParser then removeLeadingWhitespace ''-0x81'' else ''-0x81'') = (True, ''0x81'')"
    "extractBase ''0x80'' (base newNumberParser) = (16, ''80'')" "extractBase ''0x81'' (base newNumberParser) = (16, ''81'')"
    by code_simp+
  note parts = this
  have ok: "machine_type \<lparr>width = 8, is_signed = True\<rparr>" "\<not> allowTrailingText newNumberParser" and base: "base newNumberParser = 0"
    by code_simp+
  have "in_range \<lparr>width = 8, is_signed = True\<rparr> (- horner 16 0 ''80'')" "digits_of 16 ''80''" "- horner 16 0 ''80'' = - 128"
    "\<not> in_range \<lparr>width = 8, is_signed = True\<rparr> (- horner 16 0 ''81'')" "digits_of 16 ''81''"
    by code_simp+
  then show ?thesis
    using number_parser_exact [OF ok parts(1,3)] number_parser_exact [OF ok parts(2,4)] base by simp
qed

text \<open>The header calls the bases 2 to 35 legal and promises \<open>BadValue\<close> for any other; base 36 is accepted.\<close>

lemma base_36_is_parsed:
  "parseNumber \<lparr>width = 32, is_signed = True\<rparr> (newNumberParser\<lparr>base := 36\<rparr>) ''z1'' = Inr 1261"
  "parseNumber \<lparr>width = 32, is_signed = True\<rparr> (newNumberParser\<lparr>base := 37\<rparr>) ''z1'' = Inl BadValue"
  by code_simp+

end
