(* ===== verification/HostAndPorts.thy ===== *)
theory HostAndPorts
  imports ParseNumber
begin

text \<open>
  \<^verbatim>\<open>util/net/hostandport.h\<close> and \<^verbatim>\<open>util/net/hostandport.cpp\<close>: parsing, printing and ordering
  of host addresses. The record \<open>HostAndPort\<close> of the configuration theory holds what \<open>host()\<close> and
  \<open>port()\<close> return; the parser works on the members \<^verbatim>\<open>_host\<close> and \<^verbatim>\<open>_port\<close>, where
  \<open>-1\<close> is a port that was not given. A position in a string is an option, \<open>None\<close> being
  \<^verbatim>\<open>npos\<close>, which is larger than every position.
\<close>

definition DefaultDBPort :: int where
  "DefaultDBPort = 27017"

definition portOf :: "int \<Rightarrow> int" where
  "portOf p = (if 0 \<le> p then p else DefaultDBPort)"

definition hostAndPort :: "string \<times> int \<Rightarrow> HostAndPort" where
  "hostAndPort hp = \<lparr>hostname = fst hp, port = portOf (snd hp)\<rparr>"

subsection \<open>Searching a string\<close>

fun find_char :: "char \<Rightarrow> string \<Rightarrow> nat option" where
  "find_char c [] = None"
| "find_char c (x # xs) = (if x = c then Some 0 else map_option Suc (find_char c xs))"

fun rfind_char :: "char \<Rightarrow> string \<Rightarrow> nat option" where
  "rfind_char c [] = None"
| "rfind_char c (x # xs) =
     (case rfind_char c xs of Some i \<Rightarrow> Some (Suc i) | None \<Rightarrow> if x = c then Some 0 else None)"

definition substr_to :: "string \<Rightarrow> nat option \<Rightarrow> string" where
  "substr_to s pos = (case pos of None \<Rightarrow> s | Some i \<Rightarrow> take i s)"

subsection \<open>Parsing\<close>

definition invalidPort :: "int \<Rightarrow> bool" where
  "invalidPort p \<longleftrightarrow> p \<le> 0 \<or> 65535 < p"

text \<open>
  The host part and the position of the colon before the port, after the brackets of a literal
  IPv6 address have been dealt with.
\<close>

definition splitHost :: "string \<Rightarrow> (string \<times> nat option) StatusWith" where
  "splitHost s =
     (let colonPos = rfind_char (CHR '':'') s
      in case find_char (CHR ''['') s of
           Some openPos \<Rightarrow>
             if openPos \<noteq> 0 then Inl FailedToParse
             else (case find_char (CHR '']'') s of
                 None \<Rightarrow> Inl FailedToParse
               | Some closePos \<Rightarrow>
                   let hostPart = take (closePos - openPos - 1) (drop (openPos + 1) s);
                       inside = (case colonPos of None \<Rightarrow> False | Some i \<Rightarrow> i < closePos)
                   in if inside then
                        if length s \<noteq> closePos + 1 then Inl FailedToParse else Inr (hostPart, None)
                      else if colonPos \<noteq> Some (closePos + 1) then Inl FailedToParse
                      else Inr (hostPart, colonPos))
         | None \<Rightarrow>
             if find_char (CHR '']'') s \<noteq> None then Inl FailedToParse
             else if find_char (CHR '':'') s \<noteq> colonPos then Inl FailedToParse
             else Inr (substr_to s colonPos, colonPos))"

definition parsePort :: "string \<Rightarrow> nat option \<Rightarrow> int StatusWith" where
  "parsePort s colonPos =
     (case colonPos of
        None \<Rightarrow> Inr (-1)
      | Some i \<Rightarrow>
          (case parseNumber int_type (newNumberParser\<lparr>base := 10\<rparr>) (drop (i + 1) s) of
             Inl e \<Rightarrow> Inl e
           | Inr p \<Rightarrow> if invalidPort p then Inl FailedToParse else Inr p))"

definition initializeHostAndPort :: "string \<Rightarrow> (string \<times> int) StatusWith" where
  "initializeHostAndPort s =
     (case splitHost s of
        Inl e \<Rightarrow> Inl e
      | Inr (hostPart, colonPos) \<Rightarrow>
          if hostPart = [] then Inl FailedToParse
          else (case parsePort s colonPos of Inl e \<Rightarrow> Inl e | Inr p \<Rightarrow> Inr (hostPart, p)))"

definition parseHostAndPort :: "string \<Rightarrow> HostAndPort StatusWith" where
  "parseHostAndPort s = (case initializeHostAndPort s of Inl e \<Rightarrow> Inl e | Inr hp \<Rightarrow> Inr (hostAndPort hp))"

subsection \<open>Printing\<close>

definition digitChar :: "nat \<Rightarrow> char" where
  "digitChar d = char_of (48 + d)"

function showDecimal :: "int \<Rightarrow> string" where
  "showDecimal n = (if n < 10 then [digitChar (nat n)] else showDecimal (n div 10) @ [digitChar (nat (n mod 10))])"
  by pat_completeness auto

termination showDecimal
  by (relation "measure nat") auto

declare showDecimal.simps [simp del]

text \<open>\<open>port()\<close> reaches the visitor as a \<^verbatim>\<open>uint16_t\<close>.\<close>

definition hostToString :: "HostAndPort \<Rightarrow> string" where
  "hostToString h =
     (if CHR '':'' \<in> set (hostname h) then ''['' @ hostname h @ '']'' else hostname h) @
     (if CHR ''/'' \<in> set (hostname h) then [] else '':'' @ showDecimal (port h mod 2 ^ 16))"

definition isDefaultRoute :: "HostAndPort \<Rightarrow> bool" where
  "isDefaultRoute h \<longleftrightarrow> hostname h = ''0.0.0.0'' \<or>
     list_all (\<lambda>c. c = CHR '':'' \<or> c = CHR ''0'' \<or> c = CHR ''['' \<or> c = CHR '']'') (hostname h)"

subsection \<open>Order\<close>

fun string_less :: "string \<Rightarrow> string \<Rightarrow> bool" where
  "string_less xs [] \<longleftrightarrow> False"
| "string_less [] (y # ys) \<longleftrightarrow> True"
| "string_less (x # xs) (y # ys) \<longleftrightarrow>
     (of_char x :: nat) < of_char y \<or> (x = y \<and> string_less xs ys)"

definition host_less :: "HostAndPort \<Rightarrow> HostAndPort \<Rightarrow> bool" where
  "host_less a b \<longleftrightarrow>
     (if hostname a \<noteq> hostname b then string_less (hostname a) (hostname b) else port a < port b)"

text \<open>Insertion into a \<open>std::set<HostAndPort>\<close>, whose elements are listed in the order of the set.\<close>

fun insertHost :: "HostAndPort \<Rightarrow> HostAndPort list \<Rightarrow> HostAndPort list" where
  "insertHost h [] = [h]"
| "insertHost h (x # xs) =
     (if host_less h x then h # x # xs else if host_less x h then x # insertHost h xs else x # xs)"


subsection \<open>Printed numbers\<close>

lemma digitValue_digitChar [simp]: "d < 10 \<Longrightarrow> digitValue (digitChar d) = d"
  by (simp add: digitValue_def digitChar_def)

lemma digitChar_code: "d < 10 \<Longrightarrow> of_char (digitChar d) = 48 + d"
  by (simp add: digitChar_def)

lemma horner_append [simp]: "horner b n (xs @ ys) = horner b (horner b n xs) ys"
  by (induction xs arbitrary: n) simp_all

lemma digits_of_append [simp]: "digits_of b (xs @ ys) \<longleftrightarrow> digits_of b xs \<and> digits_of b ys"
  by (simp add: digits_of_def)

lemma horner_showDecimal: "0 \<le> n \<Longrightarrow> horner 10 0 (showDecimal n) = n"
proof (induction n rule: showDecimal.induct)
  case (1 n)
  then show ?case by (subst showDecimal.simps) auto
qed

lemma showDecimal_range: "0 \<le> n \<Longrightarrow> c \<in> set (showDecimal n) \<Longrightarrow> 48 \<le> (of_char c :: nat) \<and> (of_char c :: nat) \<le> 57"
proof (induction n rule: showDecimal.induct)
  case (1 n)
  let ?d = "nat (if n < 10 then n else n mod 10)"
  from 1(3) have "c \<in> set (if n < 10 then [digitChar (nat n)] else showDecimal (n div 10) @ [digitChar (nat (n mod 10))])"
    by (subst (asm) showDecimal.simps)
  then have "c = digitChar ?d \<or> \<not> n < 10 \<and> c \<in> set (showDecimal (n div 10))"
    by (auto split: if_splits)
  moreover have "?d < 10" using 1(2) by auto
  ultimately show ?case using 1(1,2) digitChar_code [of ?d] by auto
qed

lemma showDecimal_digits: "0 \<le> n \<Longrightarrow> digits_of 10 (showDecimal n)"
proof -
  assume n: "0 \<le> n"
  have "int (digitValue c) < 10" if "c \<in> set (showDecimal n)" for c
    using showDecimal_range [OF n that] by (simp add: digitValue_def)
  then show ?thesis by (simp add: digits_of_def list_all_iff)
qed

lemma showDecimal_not_Nil [simp]: "showDecimal n \<noteq> []"
  by (subst showDecimal.simps) simp

lemma showDecimal_notin: "0 \<le> n \<Longrightarrow> (of_char c :: nat) < 48 \<or> 57 < (of_char c :: nat) \<Longrightarrow> c \<notin> set (showDecimal n)"
  using showDecimal_range by force

lemma extractSign_showDecimal: "0 \<le> n \<Longrightarrow> extractSign (showDecimal n) = (False, showDecimal n)"
proof -
  assume n: "0 \<le> n"
  obtain c cs where s: "showDecimal n = c # cs" by (cases "showDecimal n") auto
  have "c \<noteq> CHR ''-''" "c \<noteq> CHR ''+''"
    using showDecimal_range [OF n, of c] by (auto simp: s)
  with s show ?thesis by simp
qed

lemma parseNumber_showDecimal:
  assumes "0 \<le> n" "n \<le> 65535"
  shows "parseNumber int_type (newNumberParser\<lparr>base := 10\<rparr>) (showDecimal n) = Inr n"
  using parseNumber_digits [of int_type "newNumberParser\<lparr>base := 10\<rparr>" "showDecimal n" False "showDecimal n" 10 "showDecimal n"] assms
  by (simp add: machine_type_def int_type_def newNumberParser_def extractSign_showDecimal extractBase_def showDecimal_digits horner_showDecimal
      in_range_def limits_min_def limits_max_def)

subsection \<open>Positions\<close>

lemma find_char_None: "find_char c s = None \<longleftrightarrow> c \<notin> set s"
  by (induction s) auto

lemma find_char_notin [simp]: "c \<notin> set s \<Longrightarrow> find_char c s = None"
  by (simp add: find_char_None)

lemma rfind_char_notin [simp]: "c \<notin> set s \<Longrightarrow> rfind_char c s = None"
  by (induction s) auto

lemma find_char_at [simp]: "c \<notin> set xs \<Longrightarrow> find_char c (xs @ c # ys) = Some (length xs)"
  by (induction xs) auto

lemma rfind_char_at [simp]: "c \<notin> set ys \<Longrightarrow> rfind_char c (xs @ c # ys) = Some (length xs)"
  by (induction xs) auto

lemma find_char_hit: "find_char c s = Some i \<Longrightarrow> i < length s \<and> c \<notin> set (take i s)"
proof (induction s arbitrary: i)
  case (Cons x xs)
  then show ?case by (cases i) (auto split: if_splits)
qed simp

subsection \<open>Parsed addresses\<close>

lemma splitHost_chars:
  assumes "splitHost s = Inr (h, pos)"
  shows "CHR '']'' \<notin> set h"
proof (cases "find_char (CHR ''['') s")
  case None
  with assms have "CHR '']'' \<notin> set s" and h: "h = substr_to s pos"
    by (auto simp: splitHost_def Let_def find_char_None split: if_splits)
  moreover have "set h \<subseteq> set s" using h by (auto simp: substr_to_def dest: in_set_takeD split: option.splits)
  ultimately show ?thesis by blast
next
  case (Some i)
  with assms obtain j where i: "i = 0" and j: "find_char (CHR '']'') s = Some j" and h: "h = take (j - 1) (drop 1 s)"
    by (auto simp: splitHost_def Let_def split: if_splits option.splits)
  from Some i obtain r where s: "s = CHR ''['' # r" by (cases s) (auto split: if_splits)
  from j s have "find_char (CHR '']'') r = Some (j - 1)" by auto
  then show ?thesis using find_char_hit [of "CHR '']''" r "j - 1"] h s by simp
qed

lemma parsed_address:
  assumes "parseHostAndPort s = Inr h"
  shows "hostname h \<noteq> []" "CHR '']'' \<notin> set (hostname h)" "1 \<le> port h" "port h \<le> 65535"
proof -
  from assms obtain host pos p where sp: "splitHost s = Inr (host, pos)" and ne: "host \<noteq> []" and p: "parsePort s pos = Inr p"
    and h: "h = hostAndPort (host, p)"
    by (auto simp: parseHostAndPort_def initializeHostAndPort_def split: sum.splits prod.splits if_splits)
  show "hostname h \<noteq> []" "CHR '']'' \<notin> set (hostname h)"
    using h ne splitHost_chars [OF sp] by (simp_all add: hostAndPort_def)
  from p have "p = -1 \<or> (1 \<le> p \<and> p \<le> 65535)"
    by (auto simp: parsePort_def invalidPort_def split: option.splits sum.splits if_splits)
  then show "1 \<le> port h" "port h \<le> 65535"
    using h by (auto simp: hostAndPort_def portOf_def DefaultDBPort_def)
qed

lemma parsePort_showDecimal:
  assumes "1 \<le> p" "p \<le> 65535"
  shows "parsePort (xs @ CHR '':'' # showDecimal p) (Some (length xs)) = Inr p"
  using assms by (simp add: parsePort_def parseNumber_showDecimal invalidPort_def)

lemma splitHost_plain:
  assumes "0 \<le> n" "CHR '':'' \<notin> set h" "CHR ''['' \<notin> set h" "CHR '']'' \<notin> set h"
  shows "splitHost (h @ CHR '':'' # showDecimal n) = Inr (h, Some (length h))"
proof -
  have n: "CHR '':'' \<notin> set (showDecimal n)" "CHR ''['' \<notin> set (showDecimal n)" "CHR '']'' \<notin> set (showDecimal n)"
    by (rule showDecimal_notin [OF assms(1)], simp)+
  then have "find_char (CHR ''['') (h @ CHR '':'' # showDecimal n) = None" "find_char (CHR '']'') (h @ CHR '':'' # showDecimal n) = None"
    using assms by (simp_all del: find_char.simps)
  with n assms show ?thesis by (simp add: splitHost_def substr_to_def Let_def del: find_char.simps rfind_char.simps)
qed

lemma splitHost_bracketed:
  assumes "0 \<le> n" "CHR '']'' \<notin> set h"
  shows "splitHost (CHR ''['' # h @ CHR '']'' # CHR '':'' # showDecimal n) = Inr (h, Some (length h + 2))"
proof -
  let ?s = "CHR ''['' # h @ CHR '']'' # CHR '':'' # showDecimal n"
  have n: "CHR '':'' \<notin> set (showDecimal n)" by (rule showDecimal_notin [OF assms(1)]) simp
  have "find_char (CHR '']'') ?s = Some (length h + 1)"
    using find_char_at [of "CHR '']''" "CHR ''['' # h"] assms by simp
  moreover have "rfind_char (CHR '':'') ?s = Some (length h + 2)"
    using rfind_char_at [of "CHR '':''" "showDecimal n" "CHR ''['' # h @ [CHR '']'']"] n by simp
  moreover have "find_char (CHR ''['') ?s = Some 0" by simp
  ultimately show ?thesis by (simp add: splitHost_def Let_def del: find_char.simps rfind_char.simps)
qed

text \<open>(C28) Printing an address that was parsed and parsing the text again gives the same host and port, for every
  host name without a slash (a path of a local socket prints no port) and without an opening bracket inside the
  brackets of a literal address. The address is the one \<open>host()\<close> and \<open>port()\<close> give, so that a port that was not
  written comes back as the default port.\<close>

theorem host_and_port_roundtrip:
  assumes "parseHostAndPort s = Inr h" "CHR ''/'' \<notin> set (hostname h)" "CHR ''['' \<notin> set (hostname h)"
  shows "parseHostAndPort (hostToString h) = Inr h"
proof -
  note parsed = parsed_address [OF assms(1)]
  have port: "port h mod 2 ^ 16 = port h" using parsed by simp
  have h: "hostAndPort (hostname h, port h) = h" using parsed by (simp add: hostAndPort_def portOf_def)
  show ?thesis
  proof (cases "CHR '':'' \<in> set (hostname h)")
    case True
    let ?s = "CHR ''['' # hostname h @ CHR '']'' # CHR '':'' # showDecimal (port h)"
    have "hostToString h = ?s" using True assms(2) port by (simp add: hostToString_def)
    moreover have "parsePort ?s (Some (length (hostname h) + 2)) = Inr (port h)"
      using parsePort_showDecimal [OF parsed(3,4), of "CHR ''['' # hostname h @ [CHR '']'']"] by simp
    ultimately show ?thesis
      using parsed(1-3) h by (simp add: parseHostAndPort_def initializeHostAndPort_def splitHost_bracketed)
  next
    case False
    then have "hostToString h = hostname h @ CHR '':'' # showDecimal (port h)"
      using assms(2) port by (simp add: hostToString_def)
    with False assms(3) parsed h parsePort_showDecimal [OF parsed(3,4), of "hostname h"] show ?thesis
      by (simp add: parseHostAndPort_def initializeHostAndPort_def splitHost_plain)
  qed
qed

theorem host_and_port_roundtrip_witness:
  "parseHostAndPort ''[::1]'' = Inr \<lparr>hostname = ''::1'', port = 27017\<rparr> \<and>
   hostToString \<lparr>hostname = ''::1'', port = 27017\<rparr> = ''[::1]:27017'' \<and>
   parseHostAndPort ''[::1]:27017'' = Inr \<lparr>hostname = ''::1'', port = 27017\<rparr>"
proof -
  have p: "parseHostAndPort ''[::1]'' = Inr \<lparr>hostname = ''::1'', port = 27017\<rparr>" by code_simp
  have t: "hostToString \<lparr>hostname = ''::1'', port = 27017\<rparr> = ''[::1]:27017''" by code_simp
  from host_and_port_roundtrip [OF p] p t show ?thesis by simp
qed

subsection \<open>The order and the set\<close>

lemma string_less_irrefl [simp]: "\<not> string_less xs xs"
  by (induction xs) simp_all

lemma string_less_trans: "string_less xs ys \<Longrightarrow> string_less ys zs \<Longrightarrow> string_less xs zs"
proof (induction xs ys arbitrary: zs rule: string_less.induct)
  case (2 y ys)
  then show ?case by (cases zs) auto
next
  case (3 x xs y ys)
  then show ?case by (cases zs) auto
qed simp

lemma string_less_total: "xs \<noteq> ys \<Longrightarrow> string_less xs ys \<or> string_less ys xs"
proof (induction xs ys rule: string_less.induct)
  case (1 xs)
  then show ?case by (cases xs) auto
next
  case (3 x xs y ys)
  have "x \<noteq> y \<Longrightarrow> (of_char x :: nat) < of_char y \<or> (of_char y :: nat) < of_char x"
    using of_char_eq_iff [of x y, where 'a = nat] by linarith
  with 3 show ?case by auto
qed simp

lemma host_less_total: "\<not> host_less a b \<Longrightarrow> \<not> host_less b a \<Longrightarrow> a = (b :: HostAndPort)"
  using string_less_total [of "hostname a" "hostname b"] by (auto simp: host_less_def split: if_splits)

lemma host_less_irrefl [simp]: "\<not> host_less a a"
  by (simp add: host_less_def)

lemma host_less_trans: "host_less a b \<Longrightarrow> host_less b c \<Longrightarrow> host_less a c"
  using string_less_trans [of "hostname a" "hostname b" "hostname c"] string_less_trans [of "hostname a" "hostname b" "hostname a"]
  by (auto simp: host_less_def split: if_splits)

lemma set_insertHost [simp]: "set (insertHost h hs) = insert h (set hs)"
  by (induction hs) (auto dest: host_less_total)

lemma sorted_insertHost: "sorted_wrt host_less hs \<Longrightarrow> sorted_wrt host_less (insertHost h hs)"
  by (induction hs) (auto dest: host_less_trans)

end
