(* ===== verification/ReadPreferences.thy ===== *)
theory ReadPreferences
  imports ReplConfig
begin

text \<open>
  \<^verbatim>\<open>client/read_preference.h\<close>, \<^verbatim>\<open>client/read_preference.cpp\<close> and the enumerations of
  \<^verbatim>\<open>read_preference.idl\<close>: the read preference of an operation, its document form and the checks made on it.
  An element of a tag set that is no document is \<open>None\<close>. The minimal optime is set by the caller and is no part of
  the document.
\<close>

datatype ReadPreference = PrimaryOnly | PrimaryPreferred | SecondaryOnly | SecondaryPreferred | Nearest

fun ReadPreference_serializer :: "ReadPreference \<Rightarrow> string" where
  "ReadPreference_serializer PrimaryOnly = ''primary''"
| "ReadPreference_serializer PrimaryPreferred = ''primaryPreferred''"
| "ReadPreference_serializer SecondaryOnly = ''secondary''"
| "ReadPreference_serializer SecondaryPreferred = ''secondaryPreferred''"
| "ReadPreference_serializer Nearest = ''nearest''"

definition ReadPreference_parse :: "string \<Rightarrow> ReadPreference StatusWith" where
  "ReadPreference_parse s =
     (if s = ''primary'' then Inr PrimaryOnly
      else if s = ''primaryPreferred'' then Inr PrimaryPreferred
      else if s = ''secondary'' then Inr SecondaryOnly
      else if s = ''secondaryPreferred'' then Inr SecondaryPreferred
      else if s = ''nearest'' then Inr Nearest
      else Inl BadValue)"

type_synonym TagDocument = "(string \<times> string field) list"
type_synonym TagSet = "TagDocument option list"

record HedgingMode =
  hedge_enabled :: bool

record ReadPreferenceSetting =
  rp_pref :: ReadPreference
  rp_tags :: TagSet
  rp_maxStalenessSeconds :: int
  rp_hedgingMode :: "HedgingMode option"
  rp_minOpTime :: OpTime

definition defaultTagSetForMode :: "ReadPreference \<Rightarrow> TagSet" where
  "defaultTagSetForMode p = (if p = PrimaryOnly then [] else [Some []])"

definition settingForMode :: "ReadPreference \<Rightarrow> ReadPreferenceSetting" where
  "settingForMode p = \<lparr>rp_pref = p, rp_tags = defaultTagSetForMode p, rp_maxStalenessSeconds = 0, rp_hedgingMode = None,
     rp_minOpTime = nullOpTime\<rparr>"

record ReadPreferenceDocument =
  rd_mode :: "string field"
  rd_hedge :: "HedgingMode field"
  rd_tags :: "TagSet field"
  rd_maxStalenessSeconds :: "int field"

definition kMinimalMaxStalenessValue :: int where
  "kMinimalMaxStalenessValue = 90"

definition seconds_max :: int where
  "seconds_max = 2 ^ 63 - 1"

definition hedgingFor :: "ReadPreference \<Rightarrow> HedgingMode field \<Rightarrow> HedgingMode option StatusWith" where
  "hedgingFor mode f =
     (case f of
        Malformed e \<Rightarrow> Inl e
      | Present h \<Rightarrow> if hedge_enabled h \<and> mode = PrimaryOnly then Inl InvalidOptions else Inr (Some h)
      | Missing \<Rightarrow> Inr (if mode = Nearest then Some \<lparr>hedge_enabled = True\<rparr> else None))"

definition tagsFor :: "ReadPreference \<Rightarrow> TagSet field \<Rightarrow> TagSet StatusWith" where
  "tagsFor mode f =
     (case f of
        Present tags \<Rightarrow>
          if tags = [Some []] \<or> tags = [] then Inr (defaultTagSetForMode mode)
          else if mode = PrimaryOnly then Inl BadValue
          else Inr tags
      | Missing \<Rightarrow> Inr (defaultTagSetForMode mode)
      | Malformed e \<Rightarrow> Inl e)"

definition checkMaxStaleness :: "ReadPreference \<Rightarrow> int \<Rightarrow> int StatusWith" where
  "checkMaxStaleness mode v =
     (if v \<noteq> 0 \<and> v < 0 then Inl BadValue
      else if v \<noteq> 0 \<and> seconds_max \<le> v then Inl BadValue
      else if v \<noteq> 0 \<and> v < kMinimalMaxStalenessValue then Inl MaxStalenessOutOfRange
      else if mode = PrimaryOnly \<and> v \<noteq> 0 then Inl BadValue
      else Inr v)"

definition fromInnerBSON :: "ReadPreferenceDocument \<Rightarrow> ReadPreferenceSetting StatusWith" where
  "fromInnerBSON d =
     ifOK (extractField (rd_mode d)) (\<lambda>modeStr. ifOK (ReadPreference_parse modeStr)
      (\<lambda>mode. ifOK (hedgingFor mode (rd_hedge d))
      (\<lambda>hedging. ifOK (tagsFor mode (rd_tags d))
      (\<lambda>tags. ifOK (extractWithDefault 0 (rd_maxStalenessSeconds d))
      (\<lambda>v. ifOK (checkMaxStaleness mode v)
      (\<lambda>v. Inr \<lparr>rp_pref = mode, rp_tags = tags, rp_maxStalenessSeconds = v, rp_hedgingMode = hedging, rp_minOpTime = nullOpTime\<rparr>))))))"

text \<open>The element \<^verbatim>\<open>$readPreference\<close> of a command; another type than a document is malformed.\<close>

definition fromContainingBSON :: "ReadPreference \<Rightarrow> ReadPreferenceDocument field \<Rightarrow> ReadPreferenceSetting StatusWith" where
  "fromContainingBSON defaultReadPref elem =
     (case elem of Missing \<Rightarrow> Inr (settingForMode defaultReadPref) | Present d \<Rightarrow> fromInnerBSON d | Malformed _ \<Rightarrow> Inl TypeMismatch)"

definition toInnerBSON :: "ReadPreferenceSetting \<Rightarrow> ReadPreferenceDocument" where
  "toInnerBSON r =
     \<lparr>rd_mode = Present (ReadPreference_serializer (rp_pref r)),
      rd_hedge = (case rp_hedgingMode r of None \<Rightarrow> Missing | Some h \<Rightarrow> Present h),
      rd_tags = (if rp_tags r \<noteq> defaultTagSetForMode (rp_pref r) then Present (rp_tags r) else Missing),
      rd_maxStalenessSeconds = (if 0 < rp_maxStalenessSeconds r then Present (rp_maxStalenessSeconds r) else Missing)\<rparr>"

definition canRunOnSecondary :: "ReadPreferenceSetting \<Rightarrow> bool" where
  "canRunOnSecondary r \<longleftrightarrow> rp_pref r \<noteq> PrimaryOnly"

definition toContainingBSON :: "ReadPreferenceSetting \<Rightarrow> ReadPreferenceDocument field" where
  "toContainingBSON r = (if canRunOnSecondary r then Present (toInnerBSON r) else Missing)"

subsection \<open>Round trip\<close>

lemma parse_serializer: "ReadPreference_parse (ReadPreference_serializer p) = Inr p"
  by (cases p) (simp_all add: ReadPreference_parse_def)

lemma fromInnerBSON_parts:
  assumes "fromInnerBSON d = Inr r"
  shows "hedgingFor (rp_pref r) (rd_hedge d) = Inr (rp_hedgingMode r)" "tagsFor (rp_pref r) (rd_tags d) = Inr (rp_tags r)"
    "checkMaxStaleness (rp_pref r) (rp_maxStalenessSeconds r) = Inr (rp_maxStalenessSeconds r)" "rp_minOpTime r = nullOpTime"
  using assms by (auto simp: fromInnerBSON_def checkMaxStaleness_def split: if_splits)

text \<open>A parsed setting is the setting of its own document, and the primary mode carries neither tags nor a staleness bound.\<close>

lemma read_preference_roundtrip:
  assumes "fromInnerBSON d = Inr r"
  shows "fromInnerBSON (toInnerBSON r) = Inr r"
proof -
  note p = fromInnerBSON_parts [OF assms]
  have "hedgingFor (rp_pref r) (rd_hedge (toInnerBSON r)) = Inr (rp_hedgingMode r)"
    using p(1) by (cases "rp_hedgingMode r"; cases "rd_hedge d") (auto simp: hedgingFor_def toInnerBSON_def split: if_splits)
  moreover have "tagsFor (rp_pref r) (rd_tags (toInnerBSON r)) = Inr (rp_tags r)"
    using p(2) by (auto simp: tagsFor_def toInnerBSON_def defaultTagSetForMode_def split: field.splits if_splits)
  moreover have "extractWithDefault 0 (rd_maxStalenessSeconds (toInnerBSON r)) = Inr (rp_maxStalenessSeconds r)"
    using p(3) by (auto simp: checkMaxStaleness_def extractWithDefault_def toInnerBSON_def split: if_splits)
  moreover have "extractField (rd_mode (toInnerBSON r)) = Inr (ReadPreference_serializer (rp_pref r))"
    by (simp add: toInnerBSON_def extractField_def)
  moreover have "r = \<lparr>rp_pref = rp_pref r, rp_tags = rp_tags r, rp_maxStalenessSeconds = rp_maxStalenessSeconds r,
      rp_hedgingMode = rp_hedgingMode r, rp_minOpTime = nullOpTime\<rparr>"
    using p(4) by simp
  ultimately show ?thesis
    using p(3) by (simp add: fromInnerBSON_def parse_serializer)
qed

lemma primary_mode_plain:
  "fromInnerBSON d = Inr r \<Longrightarrow> rp_pref r = PrimaryOnly \<Longrightarrow> rp_tags r = [] \<and> rp_maxStalenessSeconds r = 0"
  using fromInnerBSON_parts [of d r]
  by (auto simp: tagsFor_def checkMaxStaleness_def defaultTagSetForMode_def split: field.splits if_splits)

end
