(* ===== verification/SyncSource.thy ===== *)
theory SyncSource
  imports TopologyCommit HostAndPorts ReadPreferences
begin

text \<open>
  From which member a node copies the log: the choice of a sync source in \<open>TopologyCoordinator\<close>, when it is given up, the list of
  sources to avoid, and the request to sync from a given member. Also the answers for catch-up, the metadata documents that sync
  sources send, and the check of a commit quorum. The lag allowed (\<open>maxSyncSourceLagSecs\<close>, an option of the coordinator) is the
  parameter \<open>maxLag\<close>; the fail points are off.
\<close>

subsection \<open>Sources to avoid\<close>

definition memberIsBlacklisted :: "TopologyCoordinator \<Rightarrow> MemberConfig \<Rightarrow> Date_t \<Rightarrow> bool" where
  "memberIsBlacklisted s mc now = (case map_of (syncSourceBlacklist s) (getHostAndPort mc) of None \<Rightarrow> False | Some until \<Rightarrow> until > now)"

definition blacklistSyncSource :: "HostAndPort \<Rightarrow> Date_t \<Rightarrow> TopologyCoordinator \<Rightarrow> TopologyCoordinator" where
  "blacklistSyncSource h until s = s\<lparr>syncSourceBlacklist := AList.update h until (syncSourceBlacklist s)\<rparr>"

definition unblacklistSyncSource :: "HostAndPort \<Rightarrow> Date_t \<Rightarrow> TopologyCoordinator \<Rightarrow> TopologyCoordinator" where
  "unblacklistSyncSource h now s =
     (case map_of (syncSourceBlacklist s) h of
        None \<Rightarrow> s
      | Some until \<Rightarrow> if now \<ge> until then s\<lparr>syncSourceBlacklist := AList.delete h (syncSourceBlacklist s)\<rparr> else s)"

definition clearSyncSourceBlacklist :: "TopologyCoordinator \<Rightarrow> TopologyCoordinator" where
  "clearSyncSourceBlacklist s = s\<lparr>syncSourceBlacklist := []\<rparr>"

subsection \<open>Choosing a sync source\<close>

datatype ChainingPreference = kAllowChaining | kUseConfiguration

definition readable :: "MemberState \<Rightarrow> bool" where
  "readable st \<longleftrightarrow> st = RS_PRIMARY \<or> st = RS_SECONDARY"

text \<open>The assertion is on the index held before, not on the one that is set.\<close>

definition setForceSyncSourceIndex :: "int \<Rightarrow> TopologyCoordinator \<Rightarrow> TopologyCoordinator option" where
  "setForceSyncSourceIndex i s = do {
     invariant (forceSyncSourceIndex s < getNumMembers (rsConfig s));
     Some (s\<lparr>forceSyncSourceIndex := i\<rparr>)
   }"

text \<open>No sync source yet (\<open>Some\<close> of the empty host), a forced one, or none decided in this step.\<close>

definition chooseSyncSourceInitialStep :: "Date_t \<Rightarrow> TopologyCoordinator \<Rightarrow> (HostAndPort option \<times> TopologyCoordinator) option" where
  "chooseSyncSourceInitialStep now s =
     (if selfIndex s = -1 then Some (Some emptyHost, s)
      else if forceSyncSourceIndex s \<noteq> -1 then do {
        invariant (forceSyncSourceIndex s < getNumMembers (rsConfig s));
        mc \<leftarrow> memberConfigAt s (forceSyncSourceIndex s);
        let h = getHostAndPort mc;
        Some (Some h, setMyHeartbeatMessage now (''syncing from: '' @ hostToString h @ '' by request'') (s\<lparr>forceSyncSourceIndex := -1\<rparr>))
      }
      else if (int (length (memberData s)) - 1) * 2 - pingsInConfig s > 0 then Some (Some emptyHost, s)
      else Some (None, s))"

definition choosePrimaryAsSyncSource :: "Date_t \<Rightarrow> OpTime \<Rightarrow> TopologyCoordinator \<Rightarrow> (HostAndPort \<times> TopologyCoordinator) option" where
  "choosePrimaryAsSyncSource now lastOpTimeFetched s =
     (if currentPrimaryIndex s = -1 then Some (emptyHost, s)
      else do {
        mc \<leftarrow> memberConfigAt s (currentPrimaryIndex s);
        if memberIsBlacklisted s mc now then Some (emptyHost, s)
        else if currentPrimaryIndex s = selfIndex s then Some (emptyHost, s)
        else do {
          p \<leftarrow> vec_at (memberData s) (currentPrimaryIndex s);
          if op_less (lastAppliedOpTime p) lastOpTimeFetched then Some (emptyHost, s)
          else do {
            let h = getHostAndPort mc;
            Some (h, setMyHeartbeatMessage now (''syncing from primary: '' @ hostToString h) s)
          }
        }
      })"

text \<open>The tests of a candidate other than latency and the list of sources to avoid; \<open>first\<close> is the stricter first attempt.\<close>

definition sourceOk :: "bool \<Rightarrow> ReadPreference \<Rightarrow> OpTime \<Rightarrow> OpTime \<Rightarrow> MemberConfig \<Rightarrow> MemberConfig \<Rightarrow> MemberData \<Rightarrow> bool" where
  "sourceOk first pref oldest fetched me mc m \<longleftrightarrow>
     up m \<and> readable (md_getState m) \<and>
     \<not> ((pref = SecondaryOnly \<or> pref = SecondaryPreferred \<and> first) \<and> md_getState m = RS_PRIMARY) \<and>
     (first \<longrightarrow> \<not> (isVoter me \<and> \<not> isVoter mc) \<and> \<not> hidden mc \<and> \<not> op_less (getHeartbeatAppliedOpTime m) oldest \<and>
        \<not> slaveDelay me < slaveDelay mc) \<and>
     \<not> (buildIndexes me \<and> \<not> buildIndexes mc) \<and> \<not> op_le (getHeartbeatAppliedOpTime m) fetched"

definition pingOf :: "TopologyCoordinator \<Rightarrow> MemberConfig \<Rightarrow> int" where
  "pingOf s mc = getMillis (getPing s (getHostAndPort mc))"

fun nearbyLoop :: "bool \<Rightarrow> ReadPreference \<Rightarrow> OpTime \<Rightarrow> OpTime \<Rightarrow> Date_t \<Rightarrow> TopologyCoordinator \<Rightarrow> MemberData list \<Rightarrow> int \<Rightarrow> int \<Rightarrow> int option" where
  "nearbyLoop first pref oldest fetched now s [] i closest = Some closest"
| "nearbyLoop first pref oldest fetched now s (m # ms) i closest =
     (if i = selfIndex s then nearbyLoop first pref oldest fetched now s ms (i + 1) closest
      else do {
        mc \<leftarrow> memberConfigAt s i;
        me \<leftarrow> selfConfig s;
        near \<leftarrow> (if closest = -1 then Some True else do { best \<leftarrow> memberConfigAt s closest; Some (\<not> pingOf s mc > pingOf s best) });
        nearbyLoop first pref oldest fetched now s ms (i + 1)
          (if sourceOk first pref oldest fetched me mc m \<and> near \<and> \<not> memberIsBlacklisted s mc now then i else closest)
      })"

definition oldestSyncOpTime :: "32 word \<Rightarrow> TopologyCoordinator \<Rightarrow> OpTime option" where
  "oldestSyncOpTime maxLag s =
     (if currentPrimaryIndex s = -1 then Some nullOpTime
      else do {
        p \<leftarrow> vec_at (memberData s) (currentPrimaryIndex s);
        let t = getHeartbeatAppliedOpTime p;
        let secs = getSecs (getTimestamp t);
        Some (if secs \<ge> maxLag then OpTime (Timestamp (secs - maxLag) 0) (getTerm t) else nullOpTime)
      })"

definition chooseNearbySyncSource ::
    "32 word \<Rightarrow> Date_t \<Rightarrow> OpTime \<Rightarrow> ReadPreference \<Rightarrow> TopologyCoordinator \<Rightarrow> (HostAndPort \<times> TopologyCoordinator) option" where
  "chooseNearbySyncSource maxLag now fetched pref s = do {
     invariant (pref \<noteq> PrimaryOnly);
     oldest \<leftarrow> oldestSyncOpTime maxLag s;
     c1 \<leftarrow> nearbyLoop True pref oldest fetched now s (memberData s) 0 (-1);
     closest \<leftarrow> (if c1 \<noteq> -1 then Some c1 else nearbyLoop False pref oldest fetched now s (memberData s) 0 (-1));
     if closest = -1
     then Some (emptyHost, (setMyHeartbeatMessage now ''Could not find member to sync from'' s)\<lparr>syncSource := emptyHost\<rparr>)
     else do {
       mc \<leftarrow> memberConfigAt s closest;
       let h = getHostAndPort mc;
       Some (h, (setMyHeartbeatMessage now (''syncing from: '' @ hostToString h) s)\<lparr>syncSource := h\<rparr>)
     }
   }"

definition chooseNewSyncSource ::
    "32 word \<Rightarrow> Date_t \<Rightarrow> OpTime \<Rightarrow> ChainingPreference \<Rightarrow> ReadPreference \<Rightarrow> TopologyCoordinator \<Rightarrow> (HostAndPort \<times> TopologyCoordinator) option" where
  "chooseNewSyncSource maxLag now fetched chaining pref s = do {
     (decided, s1) \<leftarrow> chooseSyncSourceInitialStep now s;
     case decided of
       Some h \<Rightarrow> Some (h, s1\<lparr>syncSource := h\<rparr>)
     | None \<Rightarrow>
         if pref = PrimaryOnly \<or> (chaining = kUseConfiguration \<and> \<not> chainingAllowed (rsConfig s1))
         then do {
           invariant (pref \<noteq> SecondaryOnly);
           (h, s2) \<leftarrow> choosePrimaryAsSyncSource now fetched s1;
           Some (h, s2\<lparr>syncSource := h\<rparr>)
         }
         else do {
           (h, s2) \<leftarrow> (if pref = PrimaryPreferred
                      then do { (h, s2) \<leftarrow> choosePrimaryAsSyncSource now fetched s1; Some (h, s2\<lparr>syncSource := h\<rparr>) }
                      else Some (emptyHost, s1));
           if \<not> host_empty h then Some (h, s2)
           else do {
             (h', s3) \<leftarrow> chooseNearbySyncSource maxLag now fetched pref s2;
             Some (h', s3\<lparr>syncSource := h'\<rparr>)
           }
         }
   }"

subsection \<open>The request to sync from a member\<close>

record SyncFromResponse =
  syncFromRequested :: HostAndPort
  sf_warning :: bool
  prevSyncTarget :: "HostAndPort option"

definition prepareSyncFromResponse ::
    "HostAndPort \<Rightarrow> TopologyCoordinator \<Rightarrow> ((unit StatusWith \<times> SyncFromResponse) \<times> TopologyCoordinator) option" where
  "prepareSyncFromResponse target s =
     (let resp = \<lparr>syncFromRequested = target, sf_warning = False, prevSyncTarget = None\<rparr>;
          fail = (\<lambda>e. Some ((Inl e, resp), s)) in
      if selfIndex s = -1 then fail ErrorCode.NotSecondary
      else do {
        me \<leftarrow> selfConfig s;
        if arbiterOnly me then fail ErrorCode.NotSecondary
        else if selfIndex s = currentPrimaryIndex s then fail ErrorCode.NotSecondary
        else do {
          let i = findMemberIndexByHostAndPort (rsConfig s) target;
          if i = -1 then fail NodeNotFound
          else if i = selfIndex s then fail InvalidOptions
          else do {
            mc \<leftarrow> memberConfigAt s i;
            if arbiterOnly mc then fail InvalidOptions
            else if \<not> buildIndexes mc \<and> buildIndexes me then fail InvalidOptions
            else if isVoter me \<and> \<not> isVoter mc then fail InvalidOptions
            else do {
              m \<leftarrow> vec_at (memberData s) i;
              if authIssue m then fail Unauthorized
              else if health m = 0 then fail HostUnreachable
              else do {
                mine \<leftarrow> getMyLastAppliedOpTime s;
                let warn = getSecs (getTimestamp (getHeartbeatAppliedOpTime m)) + 10 < getSecs (getTimestamp mine);
                let prev = (if host_empty (syncSource s) then None else Some (syncSource s));
                s1 \<leftarrow> setForceSyncSourceIndex i s;
                Some ((Inr (), resp\<lparr>sf_warning := warn, prevSyncTarget := prev\<rparr>), s1)
              }
            }
          }
        }
      })"

subsection \<open>Giving up a sync source\<close>

record ReplSetMetadata =
  rm_term :: int
  rm_lastOpCommitted :: OpTimeAndWallTime
  rm_lastOpVisible :: OpTime
  rm_configVersion :: int
  rm_configTerm :: int
  rm_replicaSetId :: nat
  rm_currentPrimaryIndex :: int
  rm_currentSyncSourceIndex :: int
  rm_isPrimary :: "bool option"

record OplogQueryMetadata =
  oq_lastOpCommitted :: OpTimeAndWallTime
  oq_lastOpApplied :: OpTime
  oq_rbid :: int
  oq_currentPrimaryIndex :: int
  oq_currentSyncSourceIndex :: int

definition prepareReplSetMetadata :: "OpTime \<Rightarrow> TopologyCoordinator \<Rightarrow> ReplSetMetadata" where
  "prepareReplSetMetadata lastVisible s =
     \<lparr>rm_term = tc_term s, rm_lastOpCommitted = lastCommittedOpTime s, rm_lastOpVisible = lastVisible,
      rm_configVersion = version (rsConfig s), rm_configTerm = config_term (rsConfig s), rm_replicaSetId = replicaSetId (rsConfig s),
      rm_currentPrimaryIndex = currentPrimaryIndex s,
      rm_currentSyncSourceIndex = findMemberIndexByHostAndPort (rsConfig s) (syncSource s), rm_isPrimary = Some (role s = kLeader)\<rparr>"

definition prepareOplogQueryMetadata :: "int \<Rightarrow> TopologyCoordinator \<Rightarrow> OplogQueryMetadata option" where
  "prepareOplogQueryMetadata rbid s = do {
     mine \<leftarrow> getMyLastAppliedOpTime s;
     Some \<lparr>oq_lastOpCommitted = lastCommittedOpTime s, oq_lastOpApplied = mine, oq_rbid = rbid,
           oq_currentPrimaryIndex = currentPrimaryIndex s,
           oq_currentSyncSourceIndex = findMemberIndexByHostAndPort (rsConfig s) (syncSource s)\<rparr>
   }"

fun someFarAhead :: "32 word \<Rightarrow> Date_t \<Rightarrow> TopologyCoordinator \<Rightarrow> MemberData list \<Rightarrow> int \<Rightarrow> bool option" where
  "someFarAhead goal now s [] i = Some False"
| "someFarAhead goal now s (m # ms) i = do {
     mc \<leftarrow> memberConfigAt s i;
     if \<not> up m then someFarAhead goal now s ms (i + 1)
     else do {
       me \<leftarrow> selfConfig s;
       if (isVoter mc \<or> \<not> isVoter me) \<and> (buildIndexes mc \<or> \<not> buildIndexes me) \<and> readable (md_getState m) \<and>
          \<not> memberIsBlacklisted s mc now \<and> goal < getSecs (getTimestamp (getHeartbeatAppliedOpTime m))
       then do { invariant (i \<noteq> selfIndex s); Some True }
       else someFarAhead goal now s ms (i + 1)
     }
   }"

definition shouldChangeSyncSource ::
    "bool \<Rightarrow> 32 word \<Rightarrow> HostAndPort \<Rightarrow> ReplSetMetadata \<Rightarrow> OplogQueryMetadata \<Rightarrow> Date_t \<Rightarrow> TopologyCoordinator \<Rightarrow> bool option" where
  "shouldChangeSyncSource fullyUpgraded maxLag currentSource rm oq now s =
     (if selfIndex s = -1 then Some False
      else if forceSyncSourceIndex s \<noteq> -1 then do { _ \<leftarrow> memberConfigAt s (forceSyncSourceIndex s); Some True }
      else if \<not> fullyUpgraded \<and> rm_configVersion rm \<noteq> version (rsConfig s) then Some True
      else do {
        let src = findMemberIndexByHostAndPort (rsConfig s) currentSource;
        if src = -1 then Some True
        else do {
          invariant (src \<noteq> selfIndex s);
          m \<leftarrow> vec_at (memberData s) src;
          let t = (if op_less (oq_lastOpApplied oq) (getHeartbeatAppliedOpTime m) then getHeartbeatAppliedOpTime m else oq_lastOpApplied oq);
          invariant (\<not> op_isNull t);
          let sourceIsPrimary = (case rm_isPrimary rm of Some b \<Rightarrow> b | None \<Rightarrow> oq_currentPrimaryIndex oq = src);
          let chainingDisabled = (\<not> chainingAllowed (rsConfig s) \<and> currentPrimaryIndex s \<noteq> selfIndex s);
          let foundNewPrimary = (currentPrimaryIndex s \<noteq> -1 \<and> currentPrimaryIndex s \<noteq> src);
          if \<not> sourceIsPrimary \<and> chainingDisabled \<and> foundNewPrimary
          then do { _ \<leftarrow> memberConfigAt s (currentPrimaryIndex s); Some True }
          else do {
            mine \<leftarrow> getMyLastAppliedOpTime s;
            if oq_currentSyncSourceIndex oq = -1 \<and> op_le t mine \<and> \<not> sourceIsPrimary then Some True
            else someFarAhead (getSecs (getTimestamp t) + maxLag) now s (memberData s) 0
          }
        }
      })"

subsection \<open>Catch-up\<close>

text \<open>\<open>None\<close> inside: some member has not answered since the heartbeats were restarted.\<close>

fun latestSinceRestart :: "int \<Rightarrow> MemberData list \<Rightarrow> int \<Rightarrow> OpTime \<Rightarrow> OpTime option" where
  "latestSinceRestart self [] i latest = Some latest"
| "latestSinceRestart self (m # ms) i latest =
     (if i = self then latestSinceRestart self ms (i + 1) latest
      else if \<not> updatedSinceRestart m then None
      else if \<not> up m then latestSinceRestart self ms (i + 1) latest
      else latestSinceRestart self ms (i + 1)
             (if op_greater (getHeartbeatAppliedOpTime m) latest then getHeartbeatAppliedOpTime m else latest))"

definition latestKnownOpTimeSinceHeartbeatRestart :: "TopologyCoordinator \<Rightarrow> OpTime option" where
  "latestKnownOpTimeSinceHeartbeatRestart s = latestSinceRestart (selfIndex s) (memberData s) 0 (OpTime (Timestamp 0 0) 0)"

fun sinceRestartPerMember :: "TopologyCoordinator \<Rightarrow> MemberData list \<Rightarrow> int \<Rightarrow> (nat \<times> OpTime option) list \<Rightarrow> (nat \<times> OpTime option) list option" where
  "sinceRestartPerMember s [] i acc = Some acc"
| "sinceRestartPerMember s (m # ms) i acc = do {
     mc \<leftarrow> memberConfigAt s i;
     sinceRestartPerMember s ms (i + 1)
       (AList.update (mc_id mc) (if updatedSinceRestart m \<and> up m then Some (getHeartbeatAppliedOpTime m) else None) acc)
   }"

definition latestKnownOpTimeSinceHeartbeatRestartPerMember :: "TopologyCoordinator \<Rightarrow> (nat \<times> OpTime option) list option" where
  "latestKnownOpTimeSinceHeartbeatRestartPerMember s = sinceRestartPerMember s (memberData s) 0 []"

subsection \<open>Commit quorums\<close>

fun enoughIndexBuilders :: "int \<Rightarrow> MemberConfig list \<Rightarrow> bool" where
  "enoughIndexBuilders nodesRemaining [] = False"
| "enoughIndexBuilders nodesRemaining (m # ms) =
     (if arbiterOnly m \<or> isVoter m \<and> \<not> buildIndexes m then enoughIndexBuilders nodesRemaining ms
      else if nodesRemaining - 1 \<le> 0 then True else enoughIndexBuilders (nodesRemaining - 1) ms)"

definition checkIfCommitQuorumCanBeSatisfied :: "WriteConcernOptions \<Rightarrow> TopologyCoordinator \<Rightarrow> unit StatusWith" where
  "checkIfCommitQuorumCanBeSatisfied q s =
     (let c = rsConfig s in
      if wMode q \<noteq> '''' \<and> wMode q \<noteq> ''majority'' \<and> wMode q \<noteq> ''votingMembers''
      then ifOK (findCustomWriteMode c (wMode q)) (\<lambda>p.
        if fst (feedTags (concat (map mc_tags (members c))) (newMatch p)) then Inr () else Inl UnsatisfiableCommitQuorum)
      else
        (let n = (if wMode q = ''majority'' then writeMajority c else if wMode q = ''votingMembers'' then writableVotingMembersCount c
                  else wNumNodes q)
         in if enoughIndexBuilders n (members c) then Inr () else Inl UnsatisfiableCommitQuorum))"

end
