(* ===== verification/SyncSourceProps.thy ===== *)
theory SyncSourceProps
  imports CommitPoint SyncSource
begin

text \<open>
  The choice of a sync source: what \<open>chooseNewSyncSource\<close> returns on every branch, that it picks the candidate with the lowest
  latency, and that a source chosen in the first attempt is not given up at once.
\<close>

subsection \<open>The search for a nearby member\<close>

definition sourceCandidate :: "bool \<Rightarrow> ReadPreference \<Rightarrow> OpTime \<Rightarrow> OpTime \<Rightarrow> Date_t \<Rightarrow> TopologyCoordinator \<Rightarrow> nat \<Rightarrow> bool" where
  "sourceCandidate first pref oldest fetched now s i \<longleftrightarrow>
     (let ms = members (rsConfig s) in
      i < length ms \<and> int i \<noteq> selfIndex s \<and>
      sourceOk first pref oldest fetched (ms ! nat (selfIndex s)) (ms ! i) (memberData s ! i) \<and> \<not> memberIsBlacklisted s (ms ! i) now)"

definition nearest :: "(nat \<Rightarrow> bool) \<Rightarrow> TopologyCoordinator \<Rightarrow> nat \<Rightarrow> bool" where
  "nearest C s i \<longleftrightarrow> C i \<and> (\<forall>j. C j \<longrightarrow> pingOf s (members (rsConfig s) ! i) \<le> pingOf s (members (rsConfig s) ! j))"

text \<open>What the loop has found among the candidates before place \<open>k\<close>.\<close>

definition foundUpTo :: "(nat \<Rightarrow> bool) \<Rightarrow> TopologyCoordinator \<Rightarrow> nat \<Rightarrow> int \<Rightarrow> bool" where
  "foundUpTo C s k closest \<longleftrightarrow>
     (if closest = -1 then \<forall>j < k. \<not> C j else \<exists>b < k. closest = int b \<and> nearest (\<lambda>j. j < k \<and> C j) s b)"

lemma foundUpTo_skip: "foundUpTo C s k c \<Longrightarrow> \<not> C k \<Longrightarrow> foundUpTo C s (Suc k) c"
  by (auto simp: foundUpTo_def nearest_def less_Suc_eq)

lemma foundUpTo_farther:
  assumes "foundUpTo C s k (int b)" "pingOf s (members (rsConfig s) ! b) < pingOf s (members (rsConfig s) ! k)"
  shows "foundUpTo C s (Suc k) (int b)"
  using assms by (auto simp: foundUpTo_def nearest_def less_Suc_eq)

lemma foundUpTo_take:
  assumes "foundUpTo C s k c" "C k" "c \<noteq> -1 \<longrightarrow> (\<exists>b. c = int b \<and> pingOf s (members (rsConfig s) ! k) \<le> pingOf s (members (rsConfig s) ! b))"
  shows "foundUpTo C s (Suc k) (int k)"
  using assms by (fastforce simp: foundUpTo_def nearest_def less_Suc_eq split: if_splits)

lemma memberConfigAt_nat: "k < length (members (rsConfig s)) \<Longrightarrow> memberConfigAt s (int k) = Some (members (rsConfig s) ! k)"
  by (simp add: memberConfigAt_def vec_at_def)

lemma nearbyLoop_found:
  assumes "length (memberData s) = length (members (rsConfig s))" "selfConfig s = Some (members (rsConfig s) ! nat (selfIndex s))"
    and "foundUpTo (sourceCandidate first pref oldest fetched now s) s k closest" "k \<le> length (memberData s)"
  shows "\<exists>r. nearbyLoop first pref oldest fetched now s (drop k (memberData s)) (int k) closest = Some r \<and>
     foundUpTo (sourceCandidate first pref oldest fetched now s) s (length (memberData s)) r"
  using assms(3,4)
proof (induction "length (memberData s) - k" arbitrary: k closest)
  case 0
  then show ?case by simp
next
  case (Suc n)
  let ?C = "sourceCandidate first pref oldest fetched now s" and ?ms = "members (rsConfig s)"
  have k: "k < length (memberData s)" "k < length ?ms" using Suc.hyps(2) assms(1) by auto
  have IH: "foundUpTo ?C s (Suc k) c \<Longrightarrow>
      \<exists>r. nearbyLoop first pref oldest fetched now s (drop (Suc k) (memberData s)) (int k + 1) c = Some r \<and> foundUpTo ?C s (length (memberData s)) r" for c
    using Suc.hyps(1) [of "Suc k" c] Suc.hyps(2) k(1) by (simp add: add.commute)
  have C: "?C k \<longleftrightarrow> int k \<noteq> selfIndex s \<and> sourceOk first pref oldest fetched (?ms ! nat (selfIndex s)) (?ms ! k) (memberData s ! k) \<and>
      \<not> memberIsBlacklisted s (?ms ! k) now" using k(2) by (simp add: sourceCandidate_def Let_def)
  have drop: "drop k (memberData s) = memberData s ! k # drop (Suc k) (memberData s)" by (simp add: Cons_nth_drop_Suc k(1))
  show ?case
  proof (cases "int k = selfIndex s")
    case True
    then have "foundUpTo ?C s (Suc k) closest" using foundUpTo_skip [OF Suc.prems(1)] C by simp
    then show ?thesis using IH True by (simp add: drop)
  next
    case False
    obtain near where near: "(if closest = -1 then Some True else do { best \<leftarrow> memberConfigAt s closest; Some (\<not> pingOf s (?ms ! k) > pingOf s best) }) = Some near"
      "closest \<noteq> -1 \<Longrightarrow> \<exists>b. closest = int b \<and> (near \<longleftrightarrow> pingOf s (?ms ! k) \<le> pingOf s (?ms ! b))" "closest = -1 \<Longrightarrow> near"
    proof (cases "closest = -1")
      case False
      then obtain b where "b < k" "closest = int b" using Suc.prems(1) by (auto simp: foundUpTo_def)
      then show ?thesis using that k(2) by (simp add: memberConfigAt_nat not_less)
    qed (use that in simp)
    let ?c = "if sourceOk first pref oldest fetched (?ms ! nat (selfIndex s)) (?ms ! k) (memberData s ! k) \<and> near \<and> \<not> memberIsBlacklisted s (?ms ! k) now
      then int k else closest"
    have "foundUpTo ?C s (Suc k) ?c"
    proof (cases "?C k \<and> near")
      case True
      then show ?thesis using foundUpTo_take [OF Suc.prems(1)] near(2) C False by auto
    next
      case stay: False
      then have "?c = closest" using C False by auto
      moreover have "foundUpTo ?C s (Suc k) closest"
      proof (cases "?C k")
        case True
        then obtain b where "closest = int b" "pingOf s (?ms ! b) < pingOf s (?ms ! k)" using stay near(2,3) by fastforce
        then show ?thesis using foundUpTo_farther Suc.prems(1) by blast
      qed (rule foundUpTo_skip [OF Suc.prems(1)])
      ultimately show ?thesis by simp
    qed
    then show ?thesis using IH [of ?c] False near(1) by (simp add: drop memberConfigAt_nat k(2) assms(2))
  qed
qed
subsection \<open>The choice\<close>

definition primaryHost :: "OpTime \<Rightarrow> Date_t \<Rightarrow> TopologyCoordinator \<Rightarrow> HostAndPort" where
  "primaryHost fetched now s =
     (let i = currentPrimaryIndex s; mc = members (rsConfig s) ! nat i in
      if i = -1 \<or> i = selfIndex s \<or> memberIsBlacklisted s mc now \<or> op_less (lastAppliedOpTime (memberData s ! nat i)) fetched
      then emptyHost else getHostAndPort mc)"

definition nearbyChoice :: "32 word \<Rightarrow> Date_t \<Rightarrow> OpTime \<Rightarrow> ReadPreference \<Rightarrow> TopologyCoordinator \<Rightarrow> HostAndPort \<Rightarrow> bool" where
  "nearbyChoice maxLag now fetched pref s h \<longleftrightarrow>
     (\<exists>oldest. oldestSyncOpTime maxLag s = Some oldest \<and>
       (let C = (\<lambda>first. sourceCandidate first pref oldest fetched now s); host = (\<lambda>i. getHostAndPort (members (rsConfig s) ! i)) in
        (\<exists>i. nearest (C True) s i \<and> h = host i) \<or>
        (\<forall>j. \<not> C True j) \<and> ((\<exists>i. nearest (C False) s i \<and> h = host i) \<or> (\<forall>j. \<not> C False j) \<and> h = emptyHost)))"

text \<open>The messages and the sync source of the state before do not matter.\<close>

lemma sync_frame [simp]:
  fixes s d msg h
  defines "s' \<equiv> s\<lparr>hbmsgTime := d, hbmsg := msg, syncSource := h\<rparr>"
  shows "memberIsBlacklisted s' = memberIsBlacklisted s" "oldestSyncOpTime maxLag s' = oldestSyncOpTime maxLag s" "pingOf s' = pingOf s"
    "sourceCandidate first pref oldest fetched now s' = sourceCandidate first pref oldest fetched now s" "ctrl s' = ctrl s"
  by (auto simp: s'_def fun_eq_iff memberIsBlacklisted_def oldestSyncOpTime_def pingOf_def getPing_def sourceCandidate_def ctrl_def Let_def)

lemma nearest_frame [simp]: "nearest C (s\<lparr>hbmsgTime := d, hbmsg := msg, syncSource := h\<rparr>) = nearest C s"
  by (auto simp: nearest_def fun_eq_iff)

lemma nearbyChoice_frame [simp]: "nearbyChoice maxLag now fetched pref (s\<lparr>hbmsgTime := d, hbmsg := msg, syncSource := h\<rparr>) = nearbyChoice maxLag now fetched pref s"
  by (simp add: nearbyChoice_def fun_eq_iff)

lemma foundUpTo_all:
  assumes "length (memberData s) = length (members (rsConfig s))" "C = sourceCandidate first pref oldest fetched now s"
    and "foundUpTo C s (length (memberData s)) r"
  shows "r = -1 \<and> (\<forall>j. \<not> C j) \<or> (\<exists>i. r = int i \<and> i < length (members (rsConfig s)) \<and> nearest C s i)"
proof -
  have C: "C j \<Longrightarrow> j < length (memberData s)" for j using assms(1,2) by (auto simp: sourceCandidate_def Let_def)
  then have "(\<lambda>j. j < length (memberData s) \<and> C j) = C" by auto
  then show ?thesis using assms(1,3) C by (auto simp: foundUpTo_def split: if_splits)
qed

lemma chooseNearby_ok:
  assumes "tc_inv s" "selfIndex s \<noteq> -1" "pref \<noteq> PrimaryOnly"
  obtains h d msg where "chooseNearbySyncSource maxLag now fetched pref s = Some (h, s\<lparr>hbmsgTime := d, hbmsg := msg, syncSource := h\<rparr>)"
    "nearbyChoice maxLag now fetched pref s h"
proof -
  let ?ms = "members (rsConfig s)"
  have len: "length (memberData s) = length ?ms" using aligned_length [OF assms(1)] assms(2) by (simp add: getNumMembers_def)
  have self: "0 \<le> selfIndex s" "selfIndex s < getNumMembers (rsConfig s)" using assms(1,2) by (auto simp: tc_inv_def control_ok_def)
  then have me: "selfConfig s = Some (?ms ! nat (selfIndex s))" by (simp add: selfConfig_def memberConfigAt_def vec_at_def getNumMembers_def)
  have prim: "-1 \<le> currentPrimaryIndex s" "currentPrimaryIndex s < int (length (memberData s))"
    using assms(1) by (auto simp: tc_inv_def control_ok_def)
  then obtain oldest where o: "oldestSyncOpTime maxLag s = Some oldest"
    by (cases "currentPrimaryIndex s = -1") (auto simp: oldestSyncOpTime_def vec_at_def Let_def)
  have loop: "\<exists>r. nearbyLoop first pref oldest fetched now s (memberData s) 0 (-1) = Some r \<and>
      (r = -1 \<and> (\<forall>j. \<not> sourceCandidate first pref oldest fetched now s j) \<or>
       (\<exists>i. r = int i \<and> i < length ?ms \<and> nearest (sourceCandidate first pref oldest fetched now s) s i))" for first
    using nearbyLoop_found [OF len me, of first pref oldest fetched now 0 "-1"] foundUpTo_all [OF len refl, of first pref oldest fetched now]
    by (auto simp: foundUpTo_def)
  obtain r1 where r1: "nearbyLoop True pref oldest fetched now s (memberData s) 0 (-1) = Some r1"
    "r1 = -1 \<and> (\<forall>j. \<not> sourceCandidate True pref oldest fetched now s j) \<or>
       (\<exists>i. r1 = int i \<and> i < length ?ms \<and> nearest (sourceCandidate True pref oldest fetched now s) s i)" using loop by blast
  obtain r2 where r2: "nearbyLoop False pref oldest fetched now s (memberData s) 0 (-1) = Some r2"
    "r2 = -1 \<and> (\<forall>j. \<not> sourceCandidate False pref oldest fetched now s j) \<or>
       (\<exists>i. r2 = int i \<and> i < length ?ms \<and> nearest (sourceCandidate False pref oldest fetched now s) s i)" using loop by blast
  let ?r = "if r1 \<noteq> -1 then r1 else r2"
  let ?h = "if ?r = -1 then emptyHost else getHostAndPort (?ms ! nat ?r)"
  have "?r = -1 \<or> (\<exists>i. ?r = int i \<and> i < length ?ms)" using r1(2) r2(2) by auto
  then have "chooseNearbySyncSource maxLag now fetched pref s = Some (?h, s\<lparr>hbmsgTime := now,
      hbmsg := (if ?r = -1 then ''Could not find member to sync from'' else ''syncing from: '' @ hostToString ?h), syncSource := ?h\<rparr>)"
    using assms(3) o r1(1) r2(1) by (auto simp: chooseNearbySyncSource_def setMyHeartbeatMessage_def memberConfigAt_nat Let_def)
  moreover have "nearbyChoice maxLag now fetched pref s ?h" using o r1(2) r2(2) by (auto simp: nearbyChoice_def Let_def)
  ultimately show ?thesis using that by blast
qed

lemma choosePrimary_ok:
  assumes "tc_inv s"
  obtains d msg where "choosePrimaryAsSyncSource now fetched s = Some (primaryHost fetched now s, s\<lparr>hbmsgTime := d, hbmsg := msg\<rparr>)"
proof -
  let ?i = "currentPrimaryIndex s"
  have "?i = -1 \<or> (0 \<le> ?i \<and> ?i < int (length (memberData s)) \<and> ?i < int (length (members (rsConfig s))))"
    using assms aligned_length [OF assms] by (auto simp: tc_inv_def control_ok_def getNumMembers_def)
  then have "choosePrimaryAsSyncSource now fetched s = Some (primaryHost fetched now s, s) \<or>
      (\<exists>msg. choosePrimaryAsSyncSource now fetched s = Some (primaryHost fetched now s, setMyHeartbeatMessage now msg s))"
    unfolding choosePrimaryAsSyncSource_def primaryHost_def memberConfigAt_def vec_at_def Let_def by (elim disjE conjE) auto
  moreover have "s = s\<lparr>hbmsgTime := hbmsgTime s, hbmsg := hbmsg s\<rparr>" by simp
  ultimately show ?thesis using that unfolding setMyHeartbeatMessage_def by metis
qed

text \<open>The search for a source may take the primary only, as the configuration disallows chaining, and the read preference excludes it.\<close>

definition contradictory :: "ChainingPreference \<Rightarrow> ReadPreference \<Rightarrow> TopologyCoordinator \<Rightarrow> bool" where
  "contradictory chaining pref s \<longleftrightarrow> pref = SecondaryOnly \<and> chaining = kUseConfiguration \<and> \<not> chainingAllowed (rsConfig s) \<and>
     selfIndex s \<noteq> -1 \<and> forceSyncSourceIndex s = -1 \<and> 2 * (int (length (memberData s)) - 1) \<le> pingsInConfig s"

text \<open>Up to messages, the sync source and the index of a forced one, a choice leaves the state alone.\<close>

lemma chooseNewSyncSource_ok:
  assumes "tc_inv s" "\<not> contradictory chaining pref s"
  obtains h d msg where
    "chooseNewSyncSource maxLag now fetched chaining pref s =
       Some (h, s\<lparr>hbmsgTime := d, hbmsg := msg, syncSource := h, forceSyncSourceIndex := if selfIndex s = -1 then forceSyncSourceIndex s else -1\<rparr>)"
    "if selfIndex s = -1 then h = emptyHost
     else if forceSyncSourceIndex s \<noteq> -1 then h = getHostAndPort (members (rsConfig s) ! nat (forceSyncSourceIndex s))
     else if pingsInConfig s < 2 * (int (length (memberData s)) - 1) then h = emptyHost
     else if pref = PrimaryOnly \<or> chaining = kUseConfiguration \<and> \<not> chainingAllowed (rsConfig s) \<or>
        pref = PrimaryPreferred \<and> \<not> host_empty (primaryHost fetched now s) then h = primaryHost fetched now s
     else nearbyChoice maxLag now fetched pref s h"
proof -
  have force: "-1 \<le> forceSyncSourceIndex s" "forceSyncSourceIndex s < getNumMembers (rsConfig s)"
    using assms(1) by (auto simp: tc_inv_def control_ok_def)
  consider (removed) "selfIndex s = -1" | (forced) "selfIndex s \<noteq> -1" "forceSyncSourceIndex s \<noteq> -1"
    | (waiting) "selfIndex s \<noteq> -1" "forceSyncSourceIndex s = -1" "pingsInConfig s < 2 * (int (length (memberData s)) - 1)"
    | (search) "selfIndex s \<noteq> -1" "forceSyncSourceIndex s = -1" "\<not> pingsInConfig s < 2 * (int (length (memberData s)) - 1)" by blast
  then show ?thesis
  proof cases
    case removed
    have "s\<lparr>syncSource := emptyHost\<rparr> = s\<lparr>hbmsgTime := hbmsgTime s, hbmsg := hbmsg s, syncSource := emptyHost, forceSyncSourceIndex := forceSyncSourceIndex s\<rparr>" by simp
    then show ?thesis using removed that [where h = emptyHost and d = "hbmsgTime s" and msg = "hbmsg s"] by (simp add: chooseNewSyncSource_def chooseSyncSourceInitialStep_def)
  next
    case forced
    let ?h = "getHostAndPort (members (rsConfig s) ! nat (forceSyncSourceIndex s))"
    have "memberConfigAt s (forceSyncSourceIndex s) = Some (members (rsConfig s) ! nat (forceSyncSourceIndex s))"
      using force forced by (simp add: memberConfigAt_def vec_at_def getNumMembers_def)
    then have "chooseNewSyncSource maxLag now fetched chaining pref s = Some (?h, s\<lparr>hbmsgTime := now,
        hbmsg := ''syncing from: '' @ hostToString ?h @ '' by request'', syncSource := ?h, forceSyncSourceIndex := -1\<rparr>)"
      using forced force by (simp add: chooseNewSyncSource_def chooseSyncSourceInitialStep_def setMyHeartbeatMessage_def Let_def)
    then show ?thesis using forced that by simp
  next
    case waiting
    have "s\<lparr>syncSource := emptyHost\<rparr> = s\<lparr>hbmsgTime := hbmsgTime s, hbmsg := hbmsg s, syncSource := emptyHost, forceSyncSourceIndex := -1\<rparr>"
      using waiting(2) by simp
    then show ?thesis using waiting that [where h = emptyHost and d = "hbmsgTime s" and msg = "hbmsg s"] by (simp add: chooseNewSyncSource_def chooseSyncSourceInitialStep_def)
  next
    case search
    then have initial: "chooseSyncSourceInitialStep now s = Some (None, s)" by (simp add: chooseSyncSourceInitialStep_def)
    have keep: "s\<lparr>hbmsgTime := d, hbmsg := msg, syncSource := h, forceSyncSourceIndex := if selfIndex s = -1 then forceSyncSourceIndex s else -1\<rparr> =
        s\<lparr>hbmsgTime := d, hbmsg := msg, syncSource := h\<rparr>" for d msg h
      using search(1,2) by (cases s) simp
    obtain d msg where p: "choosePrimaryAsSyncSource now fetched s = Some (primaryHost fetched now s, s\<lparr>hbmsgTime := d, hbmsg := msg\<rparr>)"
      by (rule choosePrimary_ok [OF assms(1)])
    show ?thesis
    proof (cases "pref = PrimaryOnly \<or> chaining = kUseConfiguration \<and> \<not> chainingAllowed (rsConfig s) \<or>
        pref = PrimaryPreferred \<and> \<not> host_empty (primaryHost fetched now s)")
      case True
      have "chooseNewSyncSource maxLag now fetched chaining pref s =
          Some (primaryHost fetched now s, s\<lparr>hbmsgTime := d, hbmsg := msg, syncSource := primaryHost fetched now s\<rparr>)"
        using True assms(2) search initial p by (auto simp: chooseNewSyncSource_def contradictory_def)
      then show ?thesis using that [unfolded keep] search True by simp
    next
      case False
      let ?s = "if pref = PrimaryPreferred then s\<lparr>hbmsgTime := d, hbmsg := msg, syncSource := primaryHost fetched now s\<rparr> else s"
      have inv: "tc_inv ?s" using assms(1) by (cases "pref = PrimaryPreferred") (auto intro: tc_inv_same_data)
      have pref: "pref \<noteq> PrimaryOnly" using False by blast
      obtain h d' msg' where n: "chooseNearbySyncSource maxLag now fetched pref ?s = Some (h, ?s\<lparr>hbmsgTime := d', hbmsg := msg', syncSource := h\<rparr>)"
        "nearbyChoice maxLag now fetched pref ?s h"
        by (rule chooseNearby_ok [OF inv _ pref]) (use search in simp)
      have e: "chooseNewSyncSource maxLag now fetched chaining pref s = Some (h, s\<lparr>hbmsgTime := d', hbmsg := msg', syncSource := h\<rparr>)"
        using False initial p n(1) by (cases "pref = PrimaryPreferred") (auto simp: chooseNewSyncSource_def host_empty_def emptyHost_def)
      have "nearbyChoice maxLag now fetched pref s h" using n(2) by (cases "pref = PrimaryPreferred") simp_all
      then show ?thesis using search False by (intro that [unfolded keep, OF e]) auto
    qed
  qed
qed

text \<open>(C24) The sync source is chosen as follows. A node outside the configuration has none. A member that was asked for is taken once. Until twice as
  many heartbeats as other members have come in there is none. With chaining disabled or the read preference \<open>primary\<close>, it is the primary,
  and with \<open>primaryPreferred\<close> the primary if there is a usable one: known, not this node, not to be avoided, and not behind what has been fetched.
  Otherwise it is a member with the lowest latency among those that are up, readable, ahead of what has been fetched, not to be avoided and build indexes if this node does:
  first among those that also vote if this node does, are not hidden, not delayed more and not too far behind the primary, and only if
  there is none, among all. Nothing else of the state but the heartbeat message changes. The process aborts in one case, and no assertion fires in the others:
  when a search starts for a secondary only while the configuration disallows chaining, so that only the primary could be taken.\<close>

theorem sync_source_choice:
  assumes "tc_inv s"
  shows "if contradictory chaining pref s then chooseNewSyncSource maxLag now fetched chaining pref s = None
    else \<exists>h d msg. chooseNewSyncSource maxLag now fetched chaining pref s =
      Some (h, s\<lparr>hbmsgTime := d, hbmsg := msg, syncSource := h, forceSyncSourceIndex := if selfIndex s = -1 then forceSyncSourceIndex s else -1\<rparr>) \<and>
    (if selfIndex s = -1 then h = emptyHost
     else if forceSyncSourceIndex s \<noteq> -1 then h = getHostAndPort (members (rsConfig s) ! nat (forceSyncSourceIndex s))
     else if pingsInConfig s < 2 * (int (length (memberData s)) - 1) then h = emptyHost
     else if pref = PrimaryOnly \<or> chaining = kUseConfiguration \<and> \<not> chainingAllowed (rsConfig s) \<or>
        pref = PrimaryPreferred \<and> \<not> host_empty (primaryHost fetched now s) then h = primaryHost fetched now s
     else nearbyChoice maxLag now fetched pref s h)"
proof (cases "contradictory chaining pref s")
  case True
  then show ?thesis by (simp add: contradictory_def chooseNewSyncSource_def chooseSyncSourceInitialStep_def)
next
  case False
  show ?thesis unfolding if_not_P [OF False] by (rule chooseNewSyncSource_ok [OF assms False, of maxLag now fetched]) blast
qed

text \<open>A secondary of three members; the third answers faster than the second.\<close>

definition sampleSecondary :: TopologyCoordinator where
  "sampleSecondary =
     (let hb = emptyResponse\<lparr>hb_state := Some RS_SECONDARY, hb_electionTime := Some (Timestamp 0 0),
                            hb_appliedOpTime := Some \<lparr>opTime = OpTime (Timestamp 9 1) 3, wallTime = 40\<rparr>\<rparr>;
          s = sampleNode 0 in
      s\<lparr>memberData := map (\<lambda>m. if isSelf m then m else m\<lparr>health := 1, lastResponse := hb\<rparr>) (memberData s), pingsInConfig := 4,
        pings := zip (map getHostAndPort (tl (members (rsConfig s)))) [newPingStats\<lparr>averagePingTimeMs := 30\<rparr>, newPingStats\<lparr>averagePingTimeMs := 10\<rparr>]\<rparr>)"

definition thirdHost :: HostAndPort where
  "thirdHost = getHostAndPort (members (rsConfig sampleSecondary) ! 2)"

theorem sync_source_choice_witness:
  "map_option fst (chooseNewSyncSource 30 50 (OpTime (Timestamp 8 1) 3) kUseConfiguration Nearest sampleSecondary) = Some thirdHost \<and>
   nearbyChoice 30 50 (OpTime (Timestamp 8 1) 3) Nearest sampleSecondary thirdHost"
proof -
  have e: "tc_inv sampleSecondary" "selfIndex sampleSecondary = 0" "forceSyncSourceIndex sampleSecondary = -1" "chainingAllowed (rsConfig sampleSecondary)"
    "pingsInConfig sampleSecondary = 4" "length (memberData sampleSecondary) = 3"
    "map_option fst (chooseNewSyncSource 30 50 (OpTime (Timestamp 8 1) 3) kUseConfiguration Nearest sampleSecondary) = Some thirdHost"
    by code_simp+
  then show ?thesis
    using sync_source_choice [of sampleSecondary kUseConfiguration Nearest 30 50 "OpTime (Timestamp 8 1) 3"] by (auto simp: contradictory_def)
qed

text \<open>
  \<open>setForceSyncSourceIndex\<close> asserts that the index it had before is in range, not the one it is given. An index out of range is
  accepted and aborts the process at the next choice of a sync source.
\<close>

lemma force_index_unchecked:
  "map_option forceSyncSourceIndex (setForceSyncSourceIndex 7 sampleSecondary) = Some 7"
  "(case setForceSyncSourceIndex 7 sampleSecondary of None \<Rightarrow> False
    | Some s \<Rightarrow> chooseNewSyncSource 30 50 nullOpTime kUseConfiguration Nearest s = None)"
  by code_simp+

subsection \<open>Keeping the invariant\<close>

lemma force_inv:
  assumes "tc_inv s" "-1 \<le> i" "i < getNumMembers (rsConfig s)"
  shows "tc_inv (s\<lparr>forceSyncSourceIndex := i\<rparr>)"
  using assms by (simp add: tc_inv_def control_ok_def aligned_def data_ok_def)

lemma chooseNewSyncSource_inv:
  assumes "tc_inv s" "pref = SecondaryOnly \<longrightarrow> chaining = kAllowChaining \<or> chainingAllowed (rsConfig s)"
  shows "\<exists>h s'. chooseNewSyncSource maxLag now fetched chaining pref s = Some (h, s') \<and> tc_inv s' \<and> same_role s s'"
proof -
  let ?i = "if selfIndex s = -1 then forceSyncSourceIndex s else -1"
  obtain h d msg where e: "chooseNewSyncSource maxLag now fetched chaining pref s =
      Some (h, s\<lparr>hbmsgTime := d, hbmsg := msg, syncSource := h, forceSyncSourceIndex := ?i\<rparr>)"
    by (rule chooseNewSyncSource_ok [OF assms(1), of chaining pref]) (use assms(2) in \<open>auto simp: contradictory_def\<close>)
  have "tc_inv (s\<lparr>hbmsgTime := d, hbmsg := msg, syncSource := h\<rparr>)" by (rule tc_inv_same_data [OF assms(1)]) simp_all
  then have "tc_inv (s\<lparr>hbmsgTime := d, hbmsg := msg, syncSource := h, forceSyncSourceIndex := ?i\<rparr>)"
    by (rule force_inv) (use assms(1) in \<open>auto simp: tc_inv_def control_ok_def getNumMembers_def\<close>)
  then show ?thesis using e by (simp add: same_role_def)
qed

lemma prepareSyncFrom_inv:
  assumes "tc_inv s"
  shows "\<exists>r s'. prepareSyncFromResponse target s = Some (r, s') \<and> tc_inv s' \<and> same_role s s'"
proof (cases "selfIndex s = -1")
  case True
  then show ?thesis using assms by (simp add: prepareSyncFromResponse_def)
next
  case self: False
  obtain me where me: "selfConfig s = Some me" by (rule tc_inv_selfConfig [OF assms self])
  let ?i = "findMemberIndexByHostAndPort (rsConfig s) target"
  show ?thesis
  proof (cases "?i = -1")
    case True
    then show ?thesis using assms self me by (simp add: prepareSyncFromResponse_def Let_def)
  next
    case False
    then have i: "0 \<le> ?i" "?i < getNumMembers (rsConfig s)" using findMemberIndex_range by blast+
    obtain m mc where m: "vec_at (memberData s) ?i = Some m" "memberConfigAt s ?i = Some mc" by (rule aligned_at [OF assms self i])
    obtain k m0 where "selfMemberData s = Some m0" by (rule tc_inv_self [OF assms])
    then obtain mine where mine: "getMyLastAppliedOpTime s = Some mine" by (simp add: getMyLastAppliedOpTime_def)
    have "setForceSyncSourceIndex ?i s = Some (s\<lparr>forceSyncSourceIndex := ?i\<rparr>)"
      using assms by (simp add: setForceSyncSourceIndex_def tc_inv_def control_ok_def)
    moreover have "tc_inv (s\<lparr>forceSyncSourceIndex := ?i\<rparr>)" "same_role s (s\<lparr>forceSyncSourceIndex := ?i\<rparr>)"
      using force_inv [OF assms, of ?i] i by (simp_all add: same_role_def)
    ultimately show ?thesis using assms self me False m mine by (simp add: prepareSyncFromResponse_def Let_def)
  qed
qed

lemma blacklist_inv:
  assumes "tc_inv s"
  shows "tc_inv (blacklistSyncSource h d s) \<and> same_role s (blacklistSyncSource h d s)"
    and "tc_inv (unblacklistSyncSource h d s) \<and> same_role s (unblacklistSyncSource h d s)"
    and "tc_inv (clearSyncSourceBlacklist s) \<and> same_role s (clearSyncSourceBlacklist s)"
proof -
  have "tc_inv (s\<lparr>syncSourceBlacklist := b\<rparr>) \<and> same_role s (s\<lparr>syncSourceBlacklist := b\<rparr>)" for b
    using tc_inv_same_data [OF assms, of "s\<lparr>syncSourceBlacklist := b\<rparr>"] by (simp add: ctrl_def same_role_def)
  then show "tc_inv (blacklistSyncSource h d s) \<and> same_role s (blacklistSyncSource h d s)"
    "tc_inv (unblacklistSyncSource h d s) \<and> same_role s (unblacklistSyncSource h d s)"
    "tc_inv (clearSyncSourceBlacklist s) \<and> same_role s (clearSyncSourceBlacklist s)"
    using assms by (auto simp: blacklistSyncSource_def unblacklistSyncSource_def clearSyncSourceBlacklist_def split: option.split)
qed

end
