(* ===== verification/TopologyMachine.thy ===== *)
theory TopologyMachine
  imports SyncSourceProps
begin

text \<open>
  The topology coordinator as a state machine: one event per operation of \<open>TopologyCoordinator\<close> that changes its state, applied
  under the conditions that the callers in \<^verbatim>\<open>db/repl/replication_coordinator_impl*.cpp\<close> establish. The states reached
  from the constructor satisfy the invariant, no assertion fires in them, leadership is won by elections only and terms never go back.
\<close>

subsection \<open>Events\<close>

datatype TopologyEvent =
    UpdateConfig ReplSetConfig int Date_t
  | BecomeCandidate "32 word" Date_t StartElectionReasonEnum
  | WinElection "int option" Timestamp
  | LoseElection
  | CompleteTransition OpTime
  | UpdateTerm int Date_t
  | PrepareUnconditionalStepDown
  | PrepareStepDownAttempt
  | AbortStepDownAttempt LeaderMode
  | TryToStartStepDown int Date_t Date_t Date_t bool
  | FinishStepDown
  | SetFollowerMode MemberState
  | AdjustMaintenance int
  | Freeze Date_t int
  | SendHeartbeat Date_t string HostAndPort
  | ReceiveHeartbeat "32 word" Date_t ReplSetHeartbeatArgsV1 string ReplSetHeartbeatResponse
  | HeartbeatAnswered Date_t int HostAndPort HeartbeatReply
  | CheckTimeouts "32 word" Date_t
  | ResetTimeouts Date_t "HostAndPort list"
  | RestartHeartbeat Date_t HostAndPort
  | MyApplied OpTimeAndWallTime Date_t bool
  | MyDurable OpTimeAndWallTime Date_t bool
  | Progress bool UpdateInfo Date_t
  | AdvanceCommit OpTimeAndWallTime bool
  | UpdateCommit
  | RequestVote ReplSetRequestVotesArgs
  | VoteForMyself
  | LoadLastVote LastVote
  | ChooseSyncSource "32 word" Date_t OpTime ChainingPreference ReadPreference
  | SyncFrom HostAndPort
  | BlacklistSource HostAndPort Date_t
  | UnblacklistSource HostAndPort Date_t
  | ClearBlacklist

abbreviation after :: "('a \<times> TopologyCoordinator) option \<Rightarrow> TopologyCoordinator option" where
  "after r \<equiv> map_option snd r"

fun tc_apply :: "TopologyEvent \<Rightarrow> TopologyCoordinator \<Rightarrow> TopologyCoordinator option" where
  "tc_apply (UpdateConfig c self now) s = updateConfig c self now s"
| "tc_apply (BecomeCandidate w now reason) s = after (becomeCandidateIfElectable w now reason s)"
| "tc_apply (WinElection oid t) s = processWinElection oid t s"
| "tc_apply LoseElection s = processLoseElection s"
| "tc_apply (CompleteTransition first) s = completeTransitionToPrimary first s"
| "tc_apply (UpdateTerm t now) s = after (updateTerm t now s)"
| "tc_apply PrepareUnconditionalStepDown s = after (prepareForUnconditionalStepDown s)"
| "tc_apply PrepareStepDownAttempt s = after (prepareForStepDownAttempt s)"
| "tc_apply (AbortStepDownAttempt m) s = stepDownAttemptAbort m s"
| "tc_apply (TryToStartStepDown t now wu u f) s = after (tryToStartStepDown t now wu u f s)"
| "tc_apply FinishStepDown s = finishUnconditionalStepDown s"
| "tc_apply (SetFollowerMode n) s = setFollowerMode n s"
| "tc_apply (AdjustMaintenance n) s = adjustMaintenanceCountBy n s"
| "tc_apply (Freeze now secs) s = Some (snd (prepareFreezeResponse now secs s))"
| "tc_apply (SendHeartbeat now name target) s = after (prepareHeartbeatRequestV1 now name target s)"
| "tc_apply (ReceiveHeartbeat w now args name resp) s = map_option (snd \<circ> snd) (prepareHeartbeatResponseV1 w now args name resp s)"
| "tc_apply (HeartbeatAnswered now rt target reply) s = after (processHeartbeatResponse now rt target reply s)"
| "tc_apply (CheckTimeouts w now) s = after (checkMemberTimeouts w now s)"
| "tc_apply (ResetTimeouts now hs) s = Some (resetMemberTimeouts now hs s)"
| "tc_apply (RestartHeartbeat now h) s = Some (restartHeartbeat now h s)"
| "tc_apply (MyApplied t now rb) s = setMyLastAppliedOpTimeAndWallTime t now rb s"
| "tc_apply (MyDurable t now rb) s = setMyLastDurableOpTimeAndWallTime t now rb s"
| "tc_apply (Progress fu args now) s = after (setLastOptime fu args now s)"
| "tc_apply (AdvanceCommit c sync) s = after (advanceLastCommittedOpTimeAndWallTime c sync s)"
| "tc_apply UpdateCommit s = after (updateLastCommittedOpTimeAndWallTime s)"
| "tc_apply (RequestVote args) s = after (processReplSetRequestVotes args s)"
| "tc_apply VoteForMyself s = Some (voteForMyselfV1 s)"
| "tc_apply (LoadLastVote v) s = Some (loadLastVote v s)"
| "tc_apply (ChooseSyncSource lag now fetched chaining pref) s = after (chooseNewSyncSource lag now fetched chaining pref s)"
| "tc_apply (SyncFrom h) s = after (prepareSyncFromResponse h s)"
| "tc_apply (BlacklistSource h until) s = Some (blacklistSyncSource h until s)"
| "tc_apply (UnblacklistSource h now) s = Some (unblacklistSyncSource h now s)"
| "tc_apply ClearBlacklist s = Some (clearSyncSourceBlacklist s)"

text \<open>
  What is asked of the callers. A configuration is installed only when validated and not during an election; elections are finished
  by candidates; unconditional step-down starts on a leader and finishes after it was prepared; the mode to restore is the one that the attempt
  saved; a node asked for a vote is in the configuration, and the indexes in the request and in its last vote are of this configuration; its own
  optimes go forward except in rollback; the read preference for sync sources is not \<open>secondary\<close> when chaining is disabled. Not all of this is checked by a caller: nothing ensures that the index
  in the last vote is of this configuration (\<open>initial_vote_aborts\<close>), that the priorities of the configuration are numbers
  (\<open>nan_priority_aborts\<close>) or that the mode \<open>$majority\<close> is defined when a step-down is tried, or that a preference for
  secondaries goes with chaining.
\<close>

fun tc_enabled :: "TopologyEvent \<Rightarrow> TopologyCoordinator \<Rightarrow> bool" where
  "tc_enabled (UpdateConfig c self now) s \<longleftrightarrow> role s \<noteq> kCandidate \<and> -1 \<le> self \<and> self < getNumMembers c \<and> config_ok c \<and> isInitialized c"
| "tc_enabled (WinElection oid t) s \<longleftrightarrow> role s = kCandidate"
| "tc_enabled LoseElection s \<longleftrightarrow> role s = kCandidate"
| "tc_enabled (CompleteTransition first) s \<longleftrightarrow> canCompleteTransitionToPrimary (getTerm first) s"
| "tc_enabled PrepareUnconditionalStepDown s \<longleftrightarrow> role s = kLeader"
| "tc_enabled (AbortStepDownAttempt m) s \<longleftrightarrow> m = kMaster \<or> m = kLeaderElect"
| "tc_enabled (TryToStartStepDown t now wu u f) s \<longleftrightarrow>
     (role s = kLeader \<and> tc_term s = t \<longrightarrow> leaderMode s = kAttemptingStepDown \<or> leaderMode s = kSteppingDown) \<and>
     isOK (findCustomWriteMode (rsConfig s) ''$majority'') \<and> realPriorities (rsConfig s)"
| "tc_enabled FinishStepDown s \<longleftrightarrow> leaderMode s = kSteppingDown"
| "tc_enabled (SetFollowerMode n) s \<longleftrightarrow> role s = kFollower \<and> (n = RS_RECOVERING \<or> n = RS_ROLLBACK \<or> n = RS_SECONDARY \<or> n = RS_STARTUP2)"
| "tc_enabled (AdjustMaintenance n) s \<longleftrightarrow> role s = kFollower \<and> 0 \<le> maintenanceModeCalls s + n"
| "tc_enabled (HeartbeatAnswered now rt target reply) s \<longleftrightarrow>
     lastHeartbeatStartDate (getPing s target) \<noteq> 0 \<and> (case reply of Inr r \<Rightarrow> replyOk r | Inl _ \<Rightarrow> True) \<and>
     (findMemberIndexByHostAndPort (rsConfig s) target \<noteq> selfIndex s \<or> selfIndex s = -1)"
| "tc_enabled (MyApplied t now rb) s \<longleftrightarrow>
     wallTimeOk t \<and> (case getMyLastAppliedOpTime s of None \<Rightarrow> False
       | Some mine \<Rightarrow> rb \<or> op_eq (opTime t) mine \<or> (op_greater (opTime t) mine \<and>
           (getTerm (opTime t) = kUninitializedTerm \<or> getTerm mine = kUninitializedTerm \<or> getTimestamp (opTime t) > getTimestamp mine)))"
| "tc_enabled (MyDurable t now rb) s \<longleftrightarrow>
     wallTimeOk t \<and> (case getMyLastDurableOpTime s of None \<Rightarrow> False | Some mine \<Rightarrow> rb \<or> op_ge (opTime t) mine)"
| "tc_enabled (Progress fu args now) s \<longleftrightarrow> wallTimeOk (ui_applied args) \<and> wallTimeOk (ui_durable args)"
| "tc_enabled UpdateCommit s \<longleftrightarrow> 0 < writeMajority (rsConfig s)"
| "tc_enabled (RequestVote args) s \<longleftrightarrow>
     selfIndex s \<noteq> -1 \<and> 0 \<le> va_candidateIndex args \<and> va_candidateIndex args < getNumMembers (rsConfig s) \<and>
     (lv_term (lastVote s) = va_term args \<and> \<not> va_dryRun args \<longrightarrow>
        0 \<le> lv_candidateIndex (lastVote s) \<and> lv_candidateIndex (lastVote s) < getNumMembers (rsConfig s))"
| "tc_enabled VoteForMyself s \<longleftrightarrow> role s = kCandidate"
| "tc_enabled (ChooseSyncSource lag now fetched chaining pref) s \<longleftrightarrow>
     (pref = SecondaryOnly \<longrightarrow> chaining = kAllowChaining \<or> chainingAllowed (rsConfig s))"
| "tc_enabled e s \<longleftrightarrow> True"

inductive tc_step :: "TopologyCoordinator \<Rightarrow> TopologyEvent \<Rightarrow> TopologyCoordinator \<Rightarrow> bool" where
  step: "tc_enabled e s \<Longrightarrow> tc_apply e s = Some s' \<Longrightarrow> tc_step s e s'"

inductive_cases tc_stepE: "tc_step s e s'"

inductive_simps tc_step_iff: "tc_step s e s'"

text \<open>The coordinator is built by its constructor; the storage engine then reports whether it supports read committed.\<close>

definition initialCoordinator :: "ClusterRole \<Rightarrow> bool \<Rightarrow> bool \<Rightarrow> TopologyCoordinator" where
  "initialCoordinator cr skip supports =
     (newTopologyCoordinator cr skip)\<lparr>storageEngineSupportsReadCommitted := (if supports then kYes else kNo)\<rparr>"

inductive tc_reachable :: "TopologyCoordinator \<Rightarrow> bool" where
  init: "tc_reachable (initialCoordinator cr skip supports)"
| step: "tc_reachable s \<Longrightarrow> tc_step s e s' \<Longrightarrow> tc_reachable s'"

subsection \<open>Every event keeps the invariant\<close>

lemma initial_inv: "tc_inv (initialCoordinator cr skip supports)"
  by (simp add: getNumMembers_def initialCoordinator_def newTopologyCoordinator_def tc_inv_def control_ok_def aligned_def data_ok_def emptyReplSetConfig_def
      newMemberData_def md_ok_def up_def stateOnlyResponse_def emptyResponse_def)
text \<open>What an event may do to the role, the term and the configuration.\<close>

definition step_effect :: "TopologyCoordinator \<Rightarrow> TopologyEvent \<Rightarrow> TopologyCoordinator \<Rightarrow> bool" where
  "step_effect s e s' \<longleftrightarrow>
     (isInitialized (rsConfig s) \<longrightarrow> tc_term s \<le> tc_term s' \<and> isInitialized (rsConfig s')) \<and>
     (role s' = kLeader \<longrightarrow> role s = kLeader \<and> (isInitialized (rsConfig s) \<longrightarrow> tc_term s' = tc_term s) \<or>
        role s = kCandidate \<and> tc_term s' = tc_term s \<and> (\<exists>oid t. e = WinElection oid t)) \<and>
     (role s' = kCandidate \<longrightarrow> role s = kCandidate \<or>
        (\<exists>w now reason. e = BecomeCandidate w now reason \<and> getMyUnelectableReason w now reason s = Some [])) \<and>
     (selfIndex s' = selfIndex s \<and> rsConfig s' = rsConfig s \<or> (\<exists>c self now. e = UpdateConfig c self now)) \<and>
     (lastVote s' = lastVote s \<or> (\<exists>args. e = RequestVote args) \<or> e = VoteForMyself \<or> (\<exists>v. e = LoadLastVote v))"

lemma step_effect_refl [simp]: "step_effect s e s"
  by (auto simp: step_effect_def)

lemma same_role_effect: "same_role s s' \<Longrightarrow> step_effect s e s'"
  by (auto simp: step_effect_def same_role_def)

abbreviation event_ok :: "TopologyCoordinator \<Rightarrow> TopologyEvent \<Rightarrow> bool" where
  "event_ok s e \<equiv> \<exists>s'. tc_apply e s = Some s' \<and> tc_inv s' \<and> step_effect s e s'"

lemma same_role_event:
  assumes "tc_apply e s = Some s'" "tc_inv s'" "same_role s s'"
  shows "event_ok s e"
  using assms same_role_effect by blast

lemma config_event:
  assumes "tc_inv s" "tc_enabled (UpdateConfig c self now) s"
  shows "event_ok s (UpdateConfig c self now)"
proof -
  obtain s' where s': "updateConfig c self now s = Some s'" "tc_inv s'" "rsConfig s' = c" "lastVote s' = lastVote s"
      "tc_term s' = (if isInitialized (rsConfig s) then tc_term s else kInitialTerm)"
      "role s' = (if role s = kLeader \<and> self \<noteq> -1 \<and> isElectable (members c ! nat self) then kLeader else kFollower)"
    using updateConfig_ok [OF assms(1), of self c now] assms(2) unfolding tc_enabled.simps by blast
  then have "step_effect s (UpdateConfig c self now) s'" using assms(2) by (auto simp: step_effect_def split: if_splits)
  then show ?thesis using s'(1,2) by auto
qed

lemma election_events:
  assumes "tc_inv s"
  shows "event_ok s (BecomeCandidate w now reason)"
    and "role s = kCandidate \<Longrightarrow> event_ok s (WinElection oid t)"
    and "role s = kCandidate \<Longrightarrow> event_ok s LoseElection"
    and "canCompleteTransitionToPrimary (getTerm first) s \<Longrightarrow> event_ok s (CompleteTransition first)"
    and "event_ok s (UpdateTerm n now)"
proof -
  obtain e s' where s': "becomeCandidateIfElectable w now reason s = Some (e, s')" "tc_inv s'"
      "if e = Inr () then role s = kFollower \<and> s' = s\<lparr>role := kCandidate\<rparr> \<and> getMyUnelectableReason w now reason s = Some [] else s' = s"
    using becomeCandidate_ok [OF assms, of w now reason] by blast
  then have "step_effect s (BecomeCandidate w now reason) s'" by (cases "e = Inr ()") (auto simp: step_effect_def)
  then show "event_ok s (BecomeCandidate w now reason)" using s'(1,2) by auto
  show "event_ok s (WinElection oid t)" if "role s = kCandidate"
    using processWinElection_ok [OF assms that, of oid t] that by (auto simp: step_effect_def)
  show "event_ok s LoseElection" if "role s = kCandidate"
    using processLoseElection_ok [OF assms that] by (auto simp: step_effect_def)
  show "event_ok s (CompleteTransition first)" if c: "canCompleteTransitionToPrimary (getTerm first) s"
  proof -
    have "role s = kLeader" using c leader_iff [OF assms] by (auto simp: canCompleteTransitionToPrimary_def)
    moreover have "rsConfig s' = rsConfig s \<and> selfIndex s' = selfIndex s" if "completeTransitionToPrimary first s = Some s'" for s'
      using that by (auto simp: completeTransitionToPrimary_def setLeaderMode_def abort_simps split: if_splits)
    ultimately show ?thesis using completeTransition_ok [OF assms c] by (auto simp: step_effect_def)
  qed
  obtain r s' where s': "updateTerm n now s = Some (r, s')" "tc_inv s'" "tc_term s \<le> tc_term s'" "lastVote s' = lastVote s" "role s' = role s"
      "rsConfig s' = rsConfig s" "selfIndex s' = selfIndex s" "r \<noteq> kUpdatedTerm \<longrightarrow> tc_term s' = tc_term s"
    using updateTerm_ok [OF assms, of n now] by blast
  have "r \<noteq> kUpdatedTerm" if "role s = kLeader"
    using s'(1) that by (auto simp: updateTerm_def Let_def iAmPrimary_def abort_simps split: if_splits)
  then have "step_effect s (UpdateTerm n now) s'" using s'(3-) by (auto simp: step_effect_def)
  then show "event_ok s (UpdateTerm n now)" using s'(1,2) by auto
qed

lemma stepdown_events:
  assumes "tc_inv s"
  shows "role s = kLeader \<Longrightarrow> event_ok s PrepareUnconditionalStepDown"
    and "event_ok s PrepareStepDownAttempt"
    and "m = kMaster \<or> m = kLeaderElect \<Longrightarrow> event_ok s (AbortStepDownAttempt m)"
    and "tc_enabled (TryToStartStepDown t now wu u f) s \<Longrightarrow> event_ok s (TryToStartStepDown t now wu u f)"
    and "leaderMode s = kSteppingDown \<Longrightarrow> event_ok s FinishStepDown"
proof -
  show "event_ok s PrepareUnconditionalStepDown" if "role s = kLeader"
    using prepareForUnconditionalStepDown_ok [OF assms that] that by (auto simp: step_effect_def)
  obtain e s' where p: "prepareForStepDownAttempt s = Some (e, s')" "tc_inv s'"
      "case e of Inl _ \<Rightarrow> s' = s | Inr m \<Rightarrow> m = leaderMode s \<and> (m = kMaster \<or> m = kLeaderElect) \<and> s' = s\<lparr>leaderMode := kAttemptingStepDown\<rparr>"
    using prepareForStepDownAttempt_ok [OF assms] by blast
  have "step_effect s PrepareStepDownAttempt s'" using p(3) by (cases e) (auto simp: step_effect_def)
  then show "event_ok s PrepareStepDownAttempt" using p(1,2) by auto
  show "event_ok s (AbortStepDownAttempt m)" if m: "m = kMaster \<or> m = kLeaderElect"
  proof -
    obtain s' where s': "stepDownAttemptAbort m s = Some s'" "tc_inv s'" using stepDownAttemptAbort_ok [OF assms m] by blast
    then have "s' = s \<or> s' = s\<lparr>leaderMode := m\<rparr>" by (auto simp: stepDownAttemptAbort_def setLeaderMode_def split: if_splits)
    then have "step_effect s (AbortStepDownAttempt m) s'" by (auto simp: step_effect_def)
    then show ?thesis using s' by auto
  qed
  show "event_ok s (TryToStartStepDown t now wu u f)" if g: "tc_enabled (TryToStartStepDown t now wu u f) s"
  proof -
    obtain p where "findCustomWriteMode (rsConfig s) ''$majority'' = Inr p"
      using g by (cases "findCustomWriteMode (rsConfig s) ''$majority''") (auto simp: isOK_def)
    then obtain e s' where s': "tryToStartStepDown t now wu u f s = Some (e, s')"
      using tryToStartStepDown_ok [OF assms, of p t now wu u f] g unfolding tc_enabled.simps by blast
    have "rsConfig s' = rsConfig s \<and> selfIndex s' = selfIndex s" using s'
      by (auto simp: tryToStartStepDown_def prepareForUnconditionalStepDown_def setLeaderMode_def abort_simps split: if_splits)
    then have "step_effect s (TryToStartStepDown t now wu u f) s'"
      using tryToStartStepDown_inv [OF assms s'] by (auto simp: step_effect_def)
    then show ?thesis using s' tryToStartStepDown_inv [OF assms s'] by auto
  qed
  show "event_ok s FinishStepDown" if "leaderMode s = kSteppingDown"
    using finishUnconditionalStepDown_ok [OF assms that] by (auto simp: step_effect_def)
qed

lemma follower_events:
  assumes "tc_inv s"
  shows "tc_enabled (SetFollowerMode n) s \<Longrightarrow> event_ok s (SetFollowerMode n)"
    and "tc_enabled (AdjustMaintenance k) s \<Longrightarrow> event_ok s (AdjustMaintenance k)"
    and "event_ok s (Freeze now secs)"
proof -
  show "event_ok s (SetFollowerMode n)" if "tc_enabled (SetFollowerMode n) s"
    using setFollowerMode_ok [OF assms, of n] that by (auto simp: step_effect_def)
  show "event_ok s (AdjustMaintenance k)" if "tc_enabled (AdjustMaintenance k) s"
  proof -
    have a: "adjustMaintenanceCountBy k s = Some (s\<lparr>maintenanceModeCalls := maintenanceModeCalls s + k\<rparr>)"
      using that by (simp add: adjustMaintenanceCountBy_def Let_def)
    show ?thesis using a adjustMaintenance_inv [OF assms a] by (simp add: step_effect_def)
  qed
  obtain r s' where "prepareFreezeResponse now secs s = (r, s')" by fastforce
  then show "event_ok s (Freeze now secs)" using prepareFreezeResponse_inv [OF assms] same_role_effect by simp
qed

lemma heartbeat_events:
  assumes "tc_inv s"
  shows "event_ok s (SendHeartbeat now name target)"
    and "event_ok s (ReceiveHeartbeat w now args name resp)"
    and "tc_enabled (HeartbeatAnswered now rt target reply) s \<Longrightarrow> event_ok s (HeartbeatAnswered now rt target reply)"
    and "event_ok s (CheckTimeouts w now)"
    and "event_ok s (ResetTimeouts now hs)"
    and "event_ok s (RestartHeartbeat now h)"
proof -
  show "event_ok s (SendHeartbeat now name target)"
    using prepareHeartbeatRequest_ok [OF assms, of now name target] same_role_effect by fastforce
  show "event_ok s (ReceiveHeartbeat w now args name resp)"
    using prepareHeartbeatResponse_ok [OF assms, of w now args name resp] same_role_effect by fastforce
  show "event_ok s (HeartbeatAnswered now rt target reply)" if g: "tc_enabled (HeartbeatAnswered now rt target reply) s"
  proof -
    have r: "\<forall>r. reply = Inr r \<longrightarrow> replyOk r" using g by auto
    show ?thesis using processHeartbeatResponse_ok [OF assms _ r, of target now rt] g same_role_effect by fastforce
  qed
  show "event_ok s (CheckTimeouts w now)"
    using checkMemberTimeouts_ok [OF assms, of w now] same_role_effect by fastforce
  show "event_ok s (ResetTimeouts now hs)" using resetMemberTimeouts_inv [OF assms, of now hs] same_role_effect by simp
  show "event_ok s (RestartHeartbeat now h)" using restartHeartbeat_inv [OF assms, of now h] same_role_effect by simp
qed

lemma progress_events:
  assumes "tc_inv s"
  shows "tc_enabled (MyApplied t now rb) s \<Longrightarrow> event_ok s (MyApplied t now rb)"
    and "tc_enabled (MyDurable t now rb) s \<Longrightarrow> event_ok s (MyDurable t now rb)"
    and "tc_enabled (Progress fu args now) s \<Longrightarrow> event_ok s (Progress fu args now)"
    and "event_ok s (AdvanceCommit c sync)"
    and "tc_enabled UpdateCommit s \<Longrightarrow> event_ok s UpdateCommit"
proof -
  obtain i m where m: "selfMemberDataIndex s = Some i" "vec_at (memberData s) i = Some m" "selfMemberData s = Some m"
    by (rule tc_inv_self [OF assms])
  show "event_ok s (MyApplied t now rb)" if g: "tc_enabled (MyApplied t now rb) s"
  proof -
    obtain s' where s': "setMyLastAppliedOpTimeAndWallTime t now rb s = Some s'"
      using g m by (simp add: setMyLastAppliedOpTimeAndWallTime_def getMyLastAppliedOpTime_def setLastAppliedOpTimeAndWallTime_def Let_def)
    then show ?thesis using setMyLastApplied_inv [OF assms s'] same_role_effect by simp
  qed
  show "event_ok s (MyDurable t now rb)" if g: "tc_enabled (MyDurable t now rb) s"
  proof -
    obtain s' where s': "setMyLastDurableOpTimeAndWallTime t now rb s = Some s'"
      using g m by (simp add: setMyLastDurableOpTimeAndWallTime_def getMyLastDurableOpTime_def setLastDurableOpTimeAndWallTime_def Let_def)
    then show ?thesis using setMyLastDurable_inv [OF assms s'] same_role_effect by simp
  qed
  show "event_ok s (Progress fu args now)" if "tc_enabled (Progress fu args now) s"
    using setLastOptime_ok [OF assms, of args fu now] that same_role_effect by fastforce
  show "event_ok s (AdvanceCommit c sync)" using advanceLastCommitted_ok [OF assms, of c sync] same_role_effect by fastforce
  show "event_ok s UpdateCommit" if "tc_enabled UpdateCommit s" using updateLastCommitted_ok [OF assms] that same_role_effect by fastforce
qed

lemma vote_events:
  assumes "tc_inv s"
  shows "tc_enabled (RequestVote args) s \<Longrightarrow> event_ok s (RequestVote args)"
    and "event_ok s VoteForMyself"
    and "event_ok s (LoadLastVote v)"
proof -
  show "event_ok s (RequestVote args)" if g: "tc_enabled (RequestVote args) s"
  proof -
    obtain r s' where s': "processReplSetRequestVotes args s = Some (r, s')"
      using requestVotes_ok [OF assms] g unfolding tc_enabled.simps by blast
    then have "step_effect s (RequestVote args) s'" by (cases rule: requestVotes_cases) (auto simp: step_effect_def)
    then show ?thesis using s' requestVotes_inv [OF assms s'] by simp
  qed
  show "event_ok s VoteForMyself" using lastVote_inv [OF assms] by (simp add: voteForMyselfV1_def step_effect_def)
  show "event_ok s (LoadLastVote v)" using lastVote_inv [OF assms] by (simp add: loadLastVote_def step_effect_def)
qed

lemma sync_events:
  assumes "tc_inv s"
  shows "tc_enabled (ChooseSyncSource lag now fetched chaining pref) s \<Longrightarrow> event_ok s (ChooseSyncSource lag now fetched chaining pref)"
    and "event_ok s (SyncFrom h)"
    and "event_ok s (BlacklistSource h d)" "event_ok s (UnblacklistSource h d)" "event_ok s ClearBlacklist"
proof -
  show "event_ok s (ChooseSyncSource lag now fetched chaining pref)" if "tc_enabled (ChooseSyncSource lag now fetched chaining pref) s"
    using chooseNewSyncSource_inv [OF assms, of pref chaining lag now fetched] that same_role_effect by fastforce
  show "event_ok s (SyncFrom h)" using prepareSyncFrom_inv [OF assms, of h] same_role_effect by fastforce
qed (use blacklist_inv [OF assms] same_role_effect in simp_all)

lemmas event_lemmas = sync_events config_event election_events stepdown_events follower_events heartbeat_events progress_events vote_events

lemma enabled_event_ok:
  assumes "tc_inv s" "tc_enabled e s"
  shows "event_ok s e"
  using assms(2) by (cases e) (simp_all only: event_lemmas [OF assms(1)], simp_all only: event_lemmas [OF assms(1)] tc_enabled.simps)

lemma step_ok: "tc_inv s \<Longrightarrow> tc_step s e s' \<Longrightarrow> tc_inv s' \<and> step_effect s e s'"
  by (auto simp: tc_step_iff dest: enabled_event_ok)

lemma reachable_inv: "tc_reachable s \<Longrightarrow> tc_inv s"
  by (induction rule: tc_reachable.induct) (auto simp: initial_inv dest: step_ok)

subsection \<open>The coordinator in every reachable state\<close>

text \<open>(C18) In every reachable state of the topology coordinator role, leader mode and indexes agree: a node that accepts writes is the leader, is
  a member of an initialized and valid configuration, regards itself as the primary, and reports the state primary (or removed, when
  its cluster role is wrong); a node that is no leader never reports primary unless put into that follower mode; a candidate is in the configuration;
  the data of the members stand in the order of the configuration.\<close>

theorem coordinator_invariant:
  assumes "tc_reachable s"
  shows "(role s = kLeader \<longleftrightarrow> leaderMode s \<noteq> kNotLeader) \<and>
    (canAcceptWrites s \<longrightarrow> role s = kLeader \<and> currentPrimaryIndex s = selfIndex s \<and> 0 \<le> selfIndex s \<and>
       selfIndex s < getNumMembers (rsConfig s) \<and> config_ok (rsConfig s) \<and>
       (\<exists>st \<in> {RS_PRIMARY, RS_REMOVED}. getMemberState s = Some st)) \<and>
    (getMemberState s = Some RS_PRIMARY \<and> followerMode s \<noteq> RS_PRIMARY \<longrightarrow> role s = kLeader) \<and>
    (role s = kCandidate \<longrightarrow> 0 \<le> selfIndex s \<and> selfIndex s < getNumMembers (rsConfig s)) \<and>
    (selfIndex s \<noteq> -1 \<longrightarrow> map memberId (memberData s) = map (int \<circ> mc_id) (members (rsConfig s)) \<and>
       map md_hostAndPort (memberData s) = map getHostAndPort (members (rsConfig s)))"
proof -
  have inv: "tc_inv s" by (rule reachable_inv [OF assms])
  have self: "0 \<le> selfIndex s \<and> selfIndex s < getNumMembers (rsConfig s) \<and> config_ok (rsConfig s)" if "role s \<noteq> kFollower"
    using inv that by (auto simp: tc_inv_def control_ok_def)
  have writes: "role s = kLeader \<and> currentPrimaryIndex s = selfIndex s" if "canAcceptWrites s"
    using inv that by (auto simp: tc_inv_def control_ok_def canAcceptWrites_def)
  have state: "\<exists>st \<in> {RS_PRIMARY, RS_REMOVED}. getMemberState s = Some st" if "role s = kLeader"
  proof -
    obtain b where "removedByClusterRole s = Some b" using removedByClusterRole_ok [OF inv] by blast
    moreover have "leaderChecks s = Some ()" using inv that by (auto simp: leaderChecks_def tc_inv_def control_ok_def)
    ultimately show ?thesis using that self by (cases b) (auto simp: getMemberState_def)
  qed
  have keys: "map memberId (memberData s) = map (int \<circ> mc_id) (members (rsConfig s)) \<and>
      map md_hostAndPort (memberData s) = map getHostAndPort (members (rsConfig s))" if "selfIndex s \<noteq> -1"
  proof -
    have k: "map md_key (memberData s) = keysFrom (selfIndex s) 0 (members (rsConfig s))" using inv that by (simp add: tc_inv_def aligned_def)
    have f: "map (\<lambda>(_, _, i, _). i) (keysFrom self n ms) = map (int \<circ> mc_id) ms"
      "map (\<lambda>(_, _, _, h). h) (keysFrom self n ms) = map getHostAndPort ms" for self n ms
      by (induction ms arbitrary: n) auto
    have "map memberId (memberData s) = map (\<lambda>(_, _, i, _). i) (map md_key (memberData s))"
      "map md_hostAndPort (memberData s) = map (\<lambda>(_, _, _, h). h) (map md_key (memberData s))" by (simp_all add: md_key_def)
    then show ?thesis unfolding k f by simp
  qed
  show ?thesis using leader_iff [OF inv] writes self state keys getMemberState_primary [OF inv] by auto
qed

definition sampleEvents :: "TopologyEvent list" where
  "sampleEvents =
     [UpdateConfig (sampleConfig 1 [1, 2, 3]) 0 1, SetFollowerMode RS_SECONDARY,
      MyApplied \<lparr>opTime = OpTime (Timestamp 5 1) 0, wallTime = 7\<rparr> 1 False,
      SendHeartbeat 2 ''rs0'' (sampleHost 2), HeartbeatAnswered 3 1 (sampleHost 2) (Inr (stateOnlyResponse RS_SECONDARY)),
      BecomeCandidate 0 9 kElectionTimeout, UpdateTerm 1 9, VoteForMyself, WinElection (Some 4) (Timestamp 6 0),
      CompleteTransition (OpTime (Timestamp 6 1) 1)]"

fun tc_run :: "TopologyEvent list \<Rightarrow> TopologyCoordinator \<Rightarrow> TopologyCoordinator option" where
  "tc_run [] s = Some s"
| "tc_run (e # es) s = do { invariant (tc_enabled e s); s1 \<leftarrow> tc_apply e s; tc_run es s1 }"

lemma tc_run_reachable: "tc_reachable s \<Longrightarrow> tc_run es s = Some s' \<Longrightarrow> tc_reachable s'"
proof (induction es arbitrary: s)
  case (Cons e es)
  then obtain s1 where "tc_enabled e s" "tc_apply e s = Some s1" "tc_run es s1 = Some s'" by (auto simp: abort_simps)
  then show ?case using Cons tc_reachable.step tc_step.step by metis
qed simp

lemma replyOk_code [code]:
  "replyOk r = ((case hb_appliedOpTime r of None \<Rightarrow> True | Some t \<Rightarrow> wallTimeOk t) \<and>
     (case hb_durableOpTime r of None \<Rightarrow> True | Some t \<Rightarrow> wallTimeOk t))"
  by (auto simp: replyOk_def split: option.split)

lemma sampleEvents_run:
  "map_option (\<lambda>s. (leaderMode s, selfIndex s, tc_term s)) (tc_run sampleEvents (initialCoordinator RoleNone False True)) = Some (kMaster, 0, 1)"
  by code_simp

lemma sampleEvents_reach:
  obtains s where "tc_run sampleEvents (initialCoordinator RoleNone False True) = Some s" "tc_reachable s" "leaderMode s = kMaster" "tc_term s = 1"
    "selfIndex s = 0"
proof -
  obtain s where "tc_run sampleEvents (initialCoordinator RoleNone False True) = Some s" "leaderMode s = kMaster" "tc_term s = 1" "selfIndex s = 0"
    using sampleEvents_run by auto
  then show ?thesis using that tc_run_reachable [OF tc_reachable.init] by blast
qed

theorem coordinator_invariant_witness:
  "\<exists>s. tc_reachable s \<and> canAcceptWrites s \<and> role s = kLeader \<and> currentPrimaryIndex s = 0"
proof -
  obtain s where s: "tc_reachable s" "leaderMode s = kMaster" "selfIndex s = 0" by (rule sampleEvents_reach)
  then have "canAcceptWrites s" by (simp add: canAcceptWrites_def)
  then show ?thesis using coordinator_invariant [OF s(1)] s by auto
qed



text \<open>(C20) Leadership is won by elections and terms go forward: in one step a node with a configuration never lowers its term; it is leader afterwards only if it was,
  in the same term, or if it was a candidate and won the election of that term; it is a candidate afterwards only if it was, or had no reason against its election.\<close>

theorem leadership_by_election:
  assumes "tc_reachable s" "tc_step s e s'" "isInitialized (rsConfig s)"
  shows "tc_term s \<le> tc_term s' \<and>
    (role s' = kLeader \<longrightarrow> tc_term s' = tc_term s \<and> (role s = kLeader \<or> role s = kCandidate \<and> (\<exists>oid t. e = WinElection oid t))) \<and>
    (role s' = kCandidate \<longrightarrow> role s = kCandidate \<or>
       (\<exists>w now reason. e = BecomeCandidate w now reason \<and> getMyUnelectableReason w now reason s = Some []))"
  using step_ok [OF reachable_inv [OF assms(1)] assms(2)] assms(3) unfolding step_effect_def by blast

theorem leadership_by_election_witness:
  "\<exists>s s'. tc_reachable s \<and> tc_step s (UpdateTerm 5 9) s' \<and> tc_term s = 1 \<and> 1 \<le> tc_term s' \<and> (role s' = kLeader \<longrightarrow> tc_term s' = 1)"
proof -
  obtain s where s: "tc_reachable s" "leaderMode s = kMaster" "tc_term s = 1" by (rule sampleEvents_reach)
  have inv: "tc_inv s" by (rule reachable_inv [OF s(1)])
  have "isInitialized (rsConfig s)" using inv s(2) by (auto simp: tc_inv_def control_ok_def)
  moreover obtain s' where "tc_step s (UpdateTerm 5 9) s'"
    using enabled_event_ok [OF inv, of "UpdateTerm 5 9"] unfolding tc_step_iff by auto
  ultimately show ?thesis using leadership_by_election [OF s(1)] s by metis
qed

end
