(* ===== verification/ReplCoordinator.thy ===== *)
theory ReplCoordinator
  imports TopologyMachine
begin

text \<open>
  The part of \<open>ReplicationCoordinatorImpl\<close> that runs elections and keeps terms and votes: updates of the term and the step-down they
  trigger (\<^verbatim>\<open>replication_coordinator_impl.cpp\<close>, \<^verbatim>\<open>replication_coordinator_impl_heartbeat.cpp\<close>), the phases of an election
  (\<^verbatim>\<open>replication_coordinator_impl_elect_v1.cpp\<close>), answering vote requests, the stored last vote document
  (\<^verbatim>\<open>replication_coordinator_external_state_impl.cpp\<close>) and the restoring of term and vote at startup.

  Each operation runs under the coordinator's mutex and is one step; work handed to the executor is the pending \<open>ElectionTask\<close> of the state
  and is carried out by a later step, so that other operations come in between. The configuration and the index of this node are those of the
  topology coordinator, which the code keeps a copy of. Metrics, timers and the fail points are left out, and the executor is not shut down.
\<close>

subsection \<open>State\<close>

datatype ConfigState = kConfigPreStart | kConfigStartingUp | kConfigReplicationDisabled | kConfigUninitialized | kConfigSteady
  | kConfigInitiating | kConfigReconfiguring | kConfigHBReconfiguring

record VoteRequester =
  requesterRunner :: "(VoteAlgorithm, HostAndPort) Runner"
  isCanceled :: bool

datatype ElectionTask =
    ProcessDryRunResult int StartElectionReasonEnum
  | WriteLastVote LastVote StartElectionReasonEnum
  | LastVoteWritten LastVote StartElectionReasonEnum
  | OnVoteRequestComplete int StartElectionReasonEnum

record ReplicationCoordinator =
  topCoord :: TopologyCoordinator
  pendingTermUpdateDuringStepDown :: "int option"
  voteRequester :: "VoteRequester option"
  electionTask :: "ElectionTask option"
  rsConfigState :: ConfigState
  inShutdown :: bool
  inTerminalShutdown :: bool
  lastVoteDocument :: LastVote

abbreviation nodeTerm :: "ReplicationCoordinator \<Rightarrow> int" where
  "nodeTerm n \<equiv> tc_term (topCoord n)"

subsection \<open>Terms and stepping down\<close>

text \<open>The second component of the result says whether the caller gets an event to wait for.\<close>

definition updateTerm_inlock ::
    "int \<Rightarrow> Date_t \<Rightarrow> ReplicationCoordinator \<Rightarrow> ((UpdateTermResult \<times> bool) \<times> ReplicationCoordinator) option" where
  "updateTerm_inlock t now n = do {
     (result, tc) \<leftarrow> updateTerm t now (topCoord n);
     if result = kTriggerStepDown
     then do {
       let pending = (case pendingTermUpdateDuringStepDown n of None \<Rightarrow> t | Some p \<Rightarrow> if p < t then t else p);
       (started, tc1) \<leftarrow> prepareForUnconditionalStepDown tc;
       Some ((result, started), n\<lparr>topCoord := tc1, pendingTermUpdateDuringStepDown := Some pending\<rparr>)
     }
     else Some ((result, False), n\<lparr>topCoord := tc\<rparr>)
   }"

definition stepDownFinish :: "Date_t \<Rightarrow> ReplicationCoordinator \<Rightarrow> ReplicationCoordinator option" where
  "stepDownFinish now n =
     (if \<not> isSteppingDownUnconditionally (topCoord n) then Some n
      else do {
        tc \<leftarrow> finishUnconditionalStepDown (topCoord n);
        let n1 = n\<lparr>topCoord := tc\<rparr>;
        (case pendingTermUpdateDuringStepDown n1 of
           None \<Rightarrow> Some n1
         | Some t \<Rightarrow> do {
             ((result, _), n2) \<leftarrow> updateTerm_inlock t now n1;
             invariant (result \<noteq> kTriggerStepDown);
             Some (n2\<lparr>pendingTermUpdateDuringStepDown := None\<rparr>)
           })
      })"

subsection \<open>Votes\<close>

text \<open>The document is replaced by one of a higher term only.\<close>

definition storeLocalLastVoteDocument :: "LastVote \<Rightarrow> ReplicationCoordinator \<Rightarrow> ReplicationCoordinator" where
  "storeLocalLastVoteDocument v n = (if lv_term v > lv_term (lastVoteDocument n) then n\<lparr>lastVoteDocument := v\<rparr> else n)"

text \<open>A vote request in three steps: the update of the term (after which the caller may wait for a step-down), the answer, and, when a
  vote was granted, the storing of it before the answer is sent.\<close>

definition answerVoteRequest ::
    "ReplSetRequestVotesArgs \<Rightarrow> ReplicationCoordinator \<Rightarrow> (ReplSetRequestVotesResponse StatusWith \<times> ReplicationCoordinator) option" where
  "answerVoteRequest args n =
     (let tc = topCoord n; cand = va_candidateIndex args in
      if inTerminalShutdown n then Some (Inl ShutdownInProgress, n)
      else if cand < 0 \<or> cand \<ge> getNumMembers (rsConfig tc) then Some (Inl BadValue, n)
      else if selfIndex tc = -1 then Some (Inl InvalidReplicaSetConfig, n)
      else do {
        (r, tc1) \<leftarrow> processReplSetRequestVotes args tc;
        (if va_dryRun args then Some () else do {
           _ \<leftarrow> memberConfigAt tc1 cand;
           _ \<leftarrow> getMyLastAppliedOpTime tc1;
           _ \<leftarrow> latestKnownOpTime tc1;
           _ \<leftarrow> selfConfig tc1;
           Some ()
         });
        Some (Inr r, n\<lparr>topCoord := tc1\<rparr>)
      })"

definition voteOf :: "ReplSetRequestVotesArgs \<Rightarrow> LastVote" where
  "voteOf args = \<lparr>lv_term = va_term args, lv_candidateIndex = va_candidateIndex args\<rparr>"

subsection \<open>Elections\<close>

text \<open>\<open>LoseElectionGuardV1\<close>: every return before the guard is dismissed loses the election.\<close>

definition loseElection :: "ReplicationCoordinator \<Rightarrow> ReplicationCoordinator option" where
  "loseElection n = do {
     tc \<leftarrow> processLoseElection (topCoord n);
     Some (n\<lparr>topCoord := tc, voteRequester := None, electionTask := None\<rparr>)
   }"

definition startVoteRequester ::
    "int \<Rightarrow> bool \<Rightarrow> OpTime \<Rightarrow> int \<Rightarrow> ElectionTask \<Rightarrow> ReplicationCoordinator \<Rightarrow> ReplicationCoordinator option" where
  "startVoteRequester t dryRun lastApplied primary task n = do {
     let tc = topCoord n;
     r \<leftarrow> runner_start vote_getRequests vote_hasReceivedSufficientResponses
            (newVoteAlgorithm (rsConfig tc) (selfIndex tc) t dryRun lastApplied primary);
     Some (n\<lparr>voteRequester := Some \<lparr>requesterRunner = r, isCanceled = False\<rparr>, electionTask := Some task\<rparr>)
   }"

definition startRealElection_inlock ::
    "int \<Rightarrow> Date_t \<Rightarrow> StartElectionReasonEnum \<Rightarrow> ReplicationCoordinator \<Rightarrow> ReplicationCoordinator option" where
  "startRealElection_inlock newTerm now reason n = do {
     _ \<leftarrow> latestKnownOpTime (topCoord n);
     _ \<leftarrow> selfConfig (topCoord n);
     _ \<leftarrow> (if currentPrimaryIndex (topCoord n) = -1 then Some None
           else map_option Some (memberConfigAt (topCoord n) (currentPrimaryIndex (topCoord n))));
     ((result, _), n1) \<leftarrow> updateTerm_inlock newTerm now n;
     invariant (result = kUpdatedTerm);
     let tc = voteForMyselfV1 (topCoord n1);
     Some (n1\<lparr>topCoord := tc,
              electionTask := Some (WriteLastVote \<lparr>lv_term = newTerm, lv_candidateIndex = selfIndex tc\<rparr> reason)\<rparr>)
   }"

definition startElectSelfV1_inlock ::
    "Date_t \<Rightarrow> StartElectionReasonEnum \<Rightarrow> ReplicationCoordinator \<Rightarrow> ReplicationCoordinator option" where
  "startElectSelfV1_inlock now reason n = do {
     invariant (voteRequester n = None);
     (case rsConfigState n of
        kConfigSteady \<Rightarrow> do {
          me \<leftarrow> selfConfig (topCoord n);
          invariant (isElectable me);
          lastApplied \<leftarrow> getMyLastAppliedOpTime (topCoord n);
          if op_eq lastApplied nullOpTime then loseElection n
          else if reason = kStepUpRequestSkipDryRun then startRealElection_inlock (nodeTerm n + 1) now reason n
          else startVoteRequester (nodeTerm n) True lastApplied
                 (if reason = kCatchupTakeover then currentPrimaryIndex (topCoord n) else -1)
                 (ProcessDryRunResult (nodeTerm n) reason) n
        }
      | kConfigInitiating \<Rightarrow> do { tc \<leftarrow> processLoseElection (topCoord n); Some (n\<lparr>topCoord := tc\<rparr>) }
      | kConfigReconfiguring \<Rightarrow> do { tc \<leftarrow> processLoseElection (topCoord n); Some (n\<lparr>topCoord := tc\<rparr>) }
      | kConfigHBReconfiguring \<Rightarrow> do { tc \<leftarrow> processLoseElection (topCoord n); Some (n\<lparr>topCoord := tc\<rparr>) }
      | _ \<Rightarrow> None)
   }"

definition startElectSelfIfEligibleV1 ::
    "32 word \<Rightarrow> Date_t \<Rightarrow> StartElectionReasonEnum \<Rightarrow> ReplicationCoordinator \<Rightarrow> ReplicationCoordinator option" where
  "startElectSelfIfEligibleV1 window now reason n = do {
     single \<leftarrow> (if reason = kSingleNodePromptElection then isElectableNodeInSingleNodeReplicaSet (topCoord n) else Some True);
     if \<not> single \<or> inShutdown n then Some n
     else do {
       (status, tc) \<leftarrow> becomeCandidateIfElectable window now reason (topCoord n);
       if isOK status then startElectSelfV1_inlock now reason (n\<lparr>topCoord := tc\<rparr>) else Some (n\<lparr>topCoord := tc\<rparr>)
     }
   }"

definition requesterResult :: "VoteRequester \<Rightarrow> VoteResult" where
  "requesterResult q = (if isCanceled q then kCancelled else vote_getResult (algorithm (requesterRunner q)))"

text \<open>The callbacks on the end of a vote request run when its runner has finished.\<close>

definition requesterFinished :: "ReplicationCoordinator \<Rightarrow> bool" where
  "requesterFinished n = (case voteRequester n of None \<Rightarrow> True | Some q \<Rightarrow> finished (requesterRunner q))"

definition processDryRunResult ::
    "int \<Rightarrow> Date_t \<Rightarrow> StartElectionReasonEnum \<Rightarrow> ReplicationCoordinator \<Rightarrow> ReplicationCoordinator option" where
  "processDryRunResult originalTerm now reason n =
     (case voteRequester n of
        None \<Rightarrow> None
      | Some q \<Rightarrow>
          if nodeTerm n \<noteq> originalTerm then loseElection n
          else if requesterResult q \<noteq> kSuccessfullyElected then loseElection n
          else startRealElection_inlock (originalTerm + 1) now reason n)"

definition writeLastVoteForMyElection :: "LastVote \<Rightarrow> StartElectionReasonEnum \<Rightarrow> ReplicationCoordinator \<Rightarrow> ReplicationCoordinator" where
  "writeLastVoteForMyElection v reason n = (storeLocalLastVoteDocument v n)\<lparr>electionTask := Some (LastVoteWritten v reason)\<rparr>"

definition lastVoteWritten :: "LastVote \<Rightarrow> StartElectionReasonEnum \<Rightarrow> ReplicationCoordinator \<Rightarrow> ReplicationCoordinator option" where
  "lastVoteWritten v reason n =
     (if nodeTerm n \<noteq> lv_term v then loseElection n
      else do {
        lastApplied \<leftarrow> getMyLastAppliedOpTime (topCoord n);
        startVoteRequester (lv_term v) False lastApplied (-1) (OnVoteRequestComplete (lv_term v) reason) n
      })"

definition postWonElectionUpdateMemberState :: "Timestamp \<Rightarrow> ReplicationCoordinator \<Rightarrow> ReplicationCoordinator option" where
  "postWonElectionUpdateMemberState ts n = do {
     invariant (nodeTerm n \<noteq> kUninitializedTerm);
     tc \<leftarrow> processWinElection (Some (nodeTerm n)) ts (topCoord n);
     st \<leftarrow> getMemberState tc;
     invariant (st = RS_PRIMARY);
     Some (n\<lparr>topCoord := tc\<rparr>)
   }"

definition onVoteRequestComplete :: "int \<Rightarrow> Date_t \<Rightarrow> Timestamp \<Rightarrow> ReplicationCoordinator \<Rightarrow> ReplicationCoordinator option" where
  "onVoteRequestComplete newTerm now ts n =
     (case voteRequester n of
        None \<Rightarrow> None
      | Some q \<Rightarrow>
          if nodeTerm n \<noteq> newTerm then loseElection n
          else do {
            invariant (requesterResult q \<noteq> kPrimaryRespondedNo);
            if requesterResult q \<noteq> kSuccessfullyElected then loseElection n
            else postWonElectionUpdateMemberState ts
                   (n\<lparr>topCoord := resetMemberTimeouts now (vq_responders (algorithm (requesterRunner q))) (topCoord n),
                      voteRequester := None, electionTask := None\<rparr>)
          })"

definition cancelElectionIfNeeded_inlock :: "ReplicationCoordinator \<Rightarrow> ReplicationCoordinator option" where
  "cancelElectionIfNeeded_inlock n =
     (if role (topCoord n) \<noteq> kCandidate then Some n
      else (case voteRequester n of
              None \<Rightarrow> None
            | Some q \<Rightarrow> Some (n\<lparr>voteRequester := Some (q\<lparr>isCanceled := True, requesterRunner := runner_signal (requesterRunner q)\<rparr>)\<rparr>)))"

definition voteReply :: "HostAndPort \<Rightarrow> VoteReply \<Rightarrow> ReplicationCoordinator \<Rightarrow> ReplicationCoordinator option" where
  "voteReply h reply n =
     (case voteRequester n of
        None \<Rightarrow> Some n
      | Some q \<Rightarrow> do {
          r \<leftarrow> runner_processResponse vote_processResponse vote_hasReceivedSufficientResponses h reply (requesterRunner q);
          Some (n\<lparr>voteRequester := Some (q\<lparr>requesterRunner := r\<rparr>)\<rparr>)
        })"

subsection \<open>Startup\<close>

text \<open>The vote and the term after a start come from the last vote document and the top of the oplog.\<close>

definition startUp ::
    "TopologyCoordinator \<Rightarrow> ReplSetConfig \<Rightarrow> int \<Rightarrow> Date_t \<Rightarrow> OpTimeAndWallTime \<Rightarrow> LastVote \<Rightarrow> ReplicationCoordinator option" where
  "startUp fresh c self now lastOp doc = do {
     let tc = loadLastVote doc fresh;
     let t = (if getTerm (opTime lastOp) < lv_term doc then lv_term doc else getTerm (opTime lastOp));
     tc1 \<leftarrow> updateConfig c self now tc;
     tc2 \<leftarrow> (if op_isNull (opTime lastOp) then Some tc1
            else do { x \<leftarrow> setMyLastAppliedOpTimeAndWallTime lastOp now False tc1; setMyLastDurableOpTimeAndWallTime lastOp now False x });
     (_, n) \<leftarrow> updateTerm_inlock t now
       \<lparr>topCoord = tc2, pendingTermUpdateDuringStepDown = None, voteRequester = None, electionTask = None, rsConfigState = kConfigSteady,
        inShutdown = False, inTerminalShutdown = False, lastVoteDocument = doc\<rparr>;
     Some n
   }"

end
