(* ===== verification/Cluster.thy ===== *)
theory Cluster
  imports ReplCoordinator
begin

text \<open>
  A replica set of nodes with one configuration, each running the replication coordinator, exchanging vote requests over a network that
  may lose, delay and reorder messages, and crashing and restarting at any time. Shown, as long as no node grants a vote in a term it has not reached itself:
  a node votes for at most one candidate in a term, and at most one node is leader in a term.

  Beside the nodes the state has four sets that only the statements read: the votes that have been stored and may have been answered, the votes that a node
  has granted but not yet stored, the elections won, and the votes granted early, by a node in an earlier term than that of the vote. A granting answer can be
  delivered to a candidate only when the vote is stored.
\<close>

subsection \<open>The replica set\<close>

type_synonym cast = "int \<times> nat \<times> int"

record Cluster =
  nodes :: "nat \<Rightarrow> ReplicationCoordinator"
  castVotes :: "cast set"
  unsent :: "cast set"
  winners :: "(int \<times> nat) set"
  earlyVotes :: "(int \<times> nat) set"

abbreviation nodeAt :: "Cluster \<Rightarrow> nat \<Rightarrow> ReplicationCoordinator \<Rightarrow> Cluster" where
  "nodeAt S i n \<equiv> S\<lparr>nodes := (nodes S)(i := n)\<rparr>"

fun plainEvent :: "TopologyEvent \<Rightarrow> bool" where
  "plainEvent (UpdateConfig c self now) = False"
| "plainEvent (BecomeCandidate w now reason) = False"
| "plainEvent (WinElection oid t) = False"
| "plainEvent LoseElection = False"
| "plainEvent (RequestVote args) = False"
| "plainEvent VoteForMyself = False"
| "plainEvent (LoadLastVote v) = False"
| "plainEvent e = True"

definition ownVote :: "nat \<Rightarrow> ReplicationCoordinator \<Rightarrow> cast set" where
  "ownVote i n = (case electionTask n of Some (WriteLastVote v _) \<Rightarrow> {(lv_term v, i, lv_candidateIndex v)} | _ \<Rightarrow> {})"

text \<open>An answer that reaches a candidate: anything in a dry run, but in an election a granting answer comes from a member that has stored its vote.\<close>

definition deliverable :: "ReplSetConfig \<Rightarrow> cast set \<Rightarrow> nat \<Rightarrow> ReplicationCoordinator \<Rightarrow> HostAndPort \<Rightarrow> VoteReply \<Rightarrow> bool" where
  "deliverable c V i n h reply =
     (case electionTask n of
        Some (OnVoteRequestComplete t reason) \<Rightarrow>
          (case reply of
             Vote r \<Rightarrow> vr_voteGranted r \<longrightarrow> (\<exists>k < length (members c). getHostAndPort (members c ! k) = h \<and> (t, k, int i) \<in> V)
           | _ \<Rightarrow> True)
      | _ \<Rightarrow> True)"

text \<open>The answer gives the member's vote away, in a real election.\<close>

definition givesVote :: "ReplSetRequestVotesArgs \<Rightarrow> ReplSetRequestVotesResponse StatusWith \<Rightarrow> bool" where
  "givesVote args r \<longleftrightarrow> (case r of Inr resp \<Rightarrow> vr_voteGranted resp \<and> \<not> va_dryRun args | Inl _ \<Rightarrow> False)"

text \<open>
  The steps. A vote request is considered in whatever term the node is. The thread that serves it has tried to update the term before, and waits when that makes the
  node step down, so that the term of the node is then that of the request at least; but a second such thread does not wait, and the node may grant a vote in a
  term it has not reached (\<open>two_votes_in_one_term\<close>). Such a vote is recorded in \<open>earlyVotes\<close>.
\<close>

inductive cluster_step :: "ReplSetConfig \<Rightarrow> Cluster \<Rightarrow> Cluster \<Rightarrow> bool" for c where
  topology: "i < length (members c) \<Longrightarrow> plainEvent e \<Longrightarrow> tc_step (topCoord (nodes S i)) e tc \<Longrightarrow>
    cluster_step c S (nodeAt S i ((nodes S i)\<lparr>topCoord := tc\<rparr>))"
| newTerm: "i < length (members c) \<Longrightarrow> updateTerm_inlock t now (nodes S i) = Some (r, n) \<Longrightarrow> cluster_step c S (nodeAt S i n)"
| stepDown: "i < length (members c) \<Longrightarrow> stepDownFinish now (nodes S i) = Some n \<Longrightarrow> cluster_step c S (nodeAt S i n)"
| stand: "i < length (members c) \<Longrightarrow> electionTask (nodes S i) = None \<Longrightarrow>
    startElectSelfIfEligibleV1 w now reason (nodes S i) = Some n \<Longrightarrow>
    cluster_step c S ((nodeAt S i n)\<lparr>unsent := unsent S \<union> ownVote i n\<rparr>)"
| dryRunDone: "i < length (members c) \<Longrightarrow> electionTask (nodes S i) = Some (ProcessDryRunResult t reason) \<Longrightarrow> requesterFinished (nodes S i) \<Longrightarrow>
    processDryRunResult t now reason (nodes S i) = Some n \<Longrightarrow>
    cluster_step c S ((nodeAt S i n)\<lparr>unsent := unsent S \<union> ownVote i n\<rparr>)"
| storeOwn: "i < length (members c) \<Longrightarrow> electionTask (nodes S i) = Some (WriteLastVote v reason) \<Longrightarrow>
    cluster_step c S ((nodeAt S i (writeLastVoteForMyElection v reason (nodes S i)))
      \<lparr>castVotes := insert (lv_term v, i, lv_candidateIndex v) (castVotes S)\<rparr>)"
| storeOwnFails: "i < length (members c) \<Longrightarrow> electionTask (nodes S i) = Some (WriteLastVote v reason) \<Longrightarrow>
    loseElection (nodes S i) = Some n \<Longrightarrow> cluster_step c S (nodeAt S i n)"
| ownStored: "i < length (members c) \<Longrightarrow> electionTask (nodes S i) = Some (LastVoteWritten v reason) \<Longrightarrow>
    lastVoteWritten v reason (nodes S i) = Some n \<Longrightarrow> cluster_step c S (nodeAt S i n)"
| reply: "i < length (members c) \<Longrightarrow> deliverable c (castVotes S) i (nodes S i) h rep \<Longrightarrow>
    voteReply h rep (nodes S i) = Some n \<Longrightarrow> cluster_step c S (nodeAt S i n)"
| finish: "i < length (members c) \<Longrightarrow> electionTask (nodes S i) = Some (OnVoteRequestComplete t reason) \<Longrightarrow> requesterFinished (nodes S i) \<Longrightarrow>
    onVoteRequestComplete t now ts (nodes S i) = Some n \<Longrightarrow>
    cluster_step c S ((nodeAt S i n)\<lparr>winners := (if role (topCoord n) = kLeader then insert (nodeTerm n, i) (winners S) else winners S)\<rparr>)"
| cancel: "i < length (members c) \<Longrightarrow> cancelElectionIfNeeded_inlock (nodes S i) = Some n \<Longrightarrow> cluster_step c S (nodeAt S i n)"
| vote: "i < length (members c) \<Longrightarrow> answerVoteRequest args (nodes S i) = Some (r, n) \<Longrightarrow>
    cluster_step c S ((nodeAt S i n)\<lparr>
      unsent := (if givesVote args r then insert (va_term args, i, va_candidateIndex args) (unsent S) else unsent S),
      earlyVotes := (if givesVote args r \<and> nodeTerm (nodes S i) < va_term args then insert (va_term args, i) (earlyVotes S) else earlyVotes S)\<rparr>)"
| storeVote: "i < length (members c) \<Longrightarrow> (t, i, a) \<in> unsent S \<Longrightarrow>
    cluster_step c S ((nodeAt S i (storeLocalLastVoteDocument \<lparr>lv_term = t, lv_candidateIndex = a\<rparr> (nodes S i)))\<lparr>castVotes := insert (t, i, a) (castVotes S)\<rparr>)"
| crash: "i < length (members c) \<Longrightarrow> startUp (initialCoordinator cr skip supports) c (int i) now lastOp (lastVoteDocument (nodes S i)) = Some n \<Longrightarrow>
    cluster_step c S ((nodeAt S i n)\<lparr>unsent := {u \<in> unsent S. fst (snd u) \<noteq> i}\<rparr>)"

definition initialVote :: LastVote where
  "initialVote = \<lparr>lv_term = kInitialTerm, lv_candidateIndex = -1\<rparr>"

inductive cluster_reachable :: "ReplSetConfig \<Rightarrow> Cluster \<Rightarrow> bool" for c where
  init: "(\<And>i. i < length (members c) \<Longrightarrow>
      \<exists>cr skip supports now lastOp. startUp (initialCoordinator cr skip supports) c (int i) now lastOp initialVote = Some (nodes S i)) \<Longrightarrow>
    castVotes S = {} \<Longrightarrow> unsent S = {} \<Longrightarrow> winners S = {} \<Longrightarrow> earlyVotes S = {} \<Longrightarrow> cluster_reachable c S"
| step: "cluster_reachable c S \<Longrightarrow> cluster_step c S S' \<Longrightarrow> cluster_reachable c S'"

subsection \<open>Operations of one node\<close>

text \<open>What every operation keeps: configuration and place, the stored vote, the term up to increase, and leadership within a term.\<close>

definition keeps :: "ReplicationCoordinator \<Rightarrow> ReplicationCoordinator \<Rightarrow> bool" where
  "keeps n n' \<longleftrightarrow> tc_inv (topCoord n') \<and> rsConfig (topCoord n') = rsConfig (topCoord n) \<and> selfIndex (topCoord n') = selfIndex (topCoord n) \<and>
     nodeTerm n \<le> nodeTerm n' \<and> lastVoteDocument n' = lastVoteDocument n \<and>
     (role (topCoord n') = kLeader \<longrightarrow> role (topCoord n) = kLeader \<and> nodeTerm n' = nodeTerm n)"

definition sameVote :: "ReplicationCoordinator \<Rightarrow> ReplicationCoordinator \<Rightarrow> bool" where
  "sameVote n n' \<longleftrightarrow> lastVote (topCoord n') = lastVote (topCoord n)"

definition sameElection :: "ReplicationCoordinator \<Rightarrow> ReplicationCoordinator \<Rightarrow> bool" where
  "sameElection n n' \<longleftrightarrow> voteRequester n' = voteRequester n \<and> electionTask n' = electionTask n"

lemma keeps_refl: "tc_inv (topCoord n) \<Longrightarrow> keeps n n"
  by (simp add: keeps_def)

lemma keeps_trans: "keeps n n' \<Longrightarrow> keeps n' n'' \<Longrightarrow> keeps n n''"
  by (auto simp: keeps_def)

lemma plain_keeps:
  assumes "tc_inv (topCoord n)" "isInitialized (rsConfig (topCoord n))" "plainEvent e" "tc_step (topCoord n) e tc"
  shows "keeps n (n\<lparr>topCoord := tc\<rparr>) \<and> sameVote n (n\<lparr>topCoord := tc\<rparr>) \<and> sameElection n (n\<lparr>topCoord := tc\<rparr>)"
  using step_ok [OF assms(1,4)] assms(2,3) by (cases e) (auto simp: keeps_def sameVote_def sameElection_def step_effect_def)

lemma updateTerm_leader: "updateTerm t now s = Some (r, s') \<Longrightarrow> role s = kLeader \<Longrightarrow> r \<noteq> kUpdatedTerm"
  by (auto simp: updateTerm_def Let_def iAmPrimary_def abort_simps split: if_splits)

lemma updateTerm_keeps:
  assumes "tc_inv (topCoord n)" "updateTerm_inlock t now n = Some ((r, w), n')"
  shows "keeps n n' \<and> sameVote n n' \<and> sameElection n n' \<and> (r = kUpdatedTerm \<longrightarrow> nodeTerm n < t \<and> nodeTerm n' = t)"
proof -
  obtain tc where u: "updateTerm t now (topCoord n) = Some (r, tc)"
    using assms(2) by (auto simp: updateTerm_inlock_def abort_simps split: if_splits)
  have less: "r = kUpdatedTerm \<Longrightarrow> nodeTerm n < t" using u by (auto simp: updateTerm_def abort_simps Let_def split: if_splits)
  have ok: "tc_inv tc \<and> tc_term (topCoord n) \<le> tc_term tc \<and> lastVote tc = lastVote (topCoord n) \<and> role tc = role (topCoord n) \<and>
      selfIndex tc = selfIndex (topCoord n) \<and> rsConfig tc = rsConfig (topCoord n) \<and>
      (r = kUpdatedTerm \<longrightarrow> tc_term tc = t) \<and> (r \<noteq> kUpdatedTerm \<longrightarrow> tc_term tc = tc_term (topCoord n)) \<and>
      (r = kTriggerStepDown \<longrightarrow> role (topCoord n) = kLeader)"
    using updateTerm_ok [OF assms(1), of t now] unfolding u option.inject prod.inject by blast
  show ?thesis
  proof (cases "r = kTriggerStepDown")
    case True
    then obtain b where "prepareForUnconditionalStepDown tc = Some (b, tc\<lparr>leaderMode := kSteppingDown\<rparr>)" "tc_inv (tc\<lparr>leaderMode := kSteppingDown\<rparr>)"
      using prepareForUnconditionalStepDown_ok [of tc] ok by auto
    then show ?thesis using assms(2) u True ok by (auto simp: updateTerm_inlock_def keeps_def sameVote_def sameElection_def)
  next
    case False
    then show ?thesis using assms(2) u ok less updateTerm_leader [OF u] by (auto simp: updateTerm_inlock_def keeps_def sameVote_def sameElection_def)
  qed
qed

lemma stepDownFinish_keeps:
  assumes "tc_inv (topCoord n)" "stepDownFinish now n = Some n'"
  shows "keeps n n' \<and> sameVote n n' \<and> sameElection n n'"
proof (cases "isSteppingDownUnconditionally (topCoord n)")
  case False
  then show ?thesis using assms by (auto simp: stepDownFinish_def keeps_def sameVote_def sameElection_def)
next
  case True
  then obtain tc where tc: "finishUnconditionalStepDown (topCoord n) = Some tc" "tc_inv tc" "role tc = kFollower" "tc_term tc = nodeTerm n"
      "lastVote tc = lastVote (topCoord n)" "selfIndex tc = selfIndex (topCoord n)" "rsConfig tc = rsConfig (topCoord n)"
    using finishUnconditionalStepDown_ok [OF assms(1)] by (auto simp: isSteppingDownUnconditionally_def)
  let ?n1 = "n\<lparr>topCoord := tc\<rparr>"
  have k1: "keeps n ?n1" "sameVote n ?n1" "sameElection n ?n1" using tc by (simp_all add: keeps_def sameVote_def sameElection_def)
  show ?thesis
  proof (cases "pendingTermUpdateDuringStepDown n")
    case None
    then have "n' = ?n1" using True tc(1) assms(2) by (simp add: stepDownFinish_def)
    then show ?thesis using k1 by simp
  next
    case (Some t)
    then obtain r w n2 where n2: "updateTerm_inlock t now ?n1 = Some ((r, w), n2)" "n' = n2\<lparr>pendingTermUpdateDuringStepDown := None\<rparr>"
      using True tc(1) assms(2) by (auto simp: stepDownFinish_def abort_simps)
    have "keeps ?n1 n2 \<and> sameVote ?n1 n2 \<and> sameElection ?n1 n2" using updateTerm_keeps [OF _ n2(1)] tc(2) by simp
    then show ?thesis using k1 n2(2) keeps_trans [of n ?n1 n2] by (auto simp: keeps_def sameVote_def sameElection_def)
  qed
qed

lemma loseElection_keeps:
  assumes "tc_inv (topCoord n)" "loseElection n = Some n'"
  shows "keeps n n' \<and> sameVote n n' \<and> electionTask n' = None \<and> voteRequester n' = None"
proof -
  obtain tc where tc: "processLoseElection (topCoord n) = Some tc" "n' = n\<lparr>topCoord := tc, voteRequester := None, electionTask := None\<rparr>"
    using assms(2) by (auto simp: loseElection_def abort_simps)
  then have "role (topCoord n) = kCandidate" by (auto simp: processLoseElection_def abort_simps)
  then show ?thesis using processLoseElection_ok [OF assms(1)] tc by (auto simp: keeps_def sameVote_def)
qed
definition selfElectable :: "ReplicationCoordinator \<Rightarrow> bool" where
  "selfElectable n \<longleftrightarrow> (\<exists>me. selfConfig (topCoord n) = Some me \<and> isElectable me)"

text \<open>An election either goes on without a vote, or has cast the vote of this node for itself in a new term.\<close>

definition castsOwn :: "ReplicationCoordinator \<Rightarrow> ReplicationCoordinator \<Rightarrow> bool" where
  "castsOwn n n' \<longleftrightarrow> (\<exists>reason. electionTask n' = Some (WriteLastVote (lastVote (topCoord n')) reason)) \<and>
     lastVote (topCoord n') = \<lparr>lv_term = nodeTerm n', lv_candidateIndex = selfIndex (topCoord n)\<rparr> \<and> nodeTerm n < nodeTerm n'"

definition electionStep :: "ReplicationCoordinator \<Rightarrow> ReplicationCoordinator \<Rightarrow> bool" where
  "electionStep n n' \<longleftrightarrow> keeps n n' \<and>
     (sameVote n n' \<and> (electionTask n' = None \<or> (\<exists>t r. electionTask n' = Some (ProcessDryRunResult t r))) \<or> castsOwn n n') \<and>
     (electionTask n' \<noteq> None \<longrightarrow> electionTask n \<noteq> None \<or> selfElectable n')"

lemma startRealElection_casts:
  assumes "tc_inv (topCoord n)" "startRealElection_inlock newTerm now reason n = Some n'"
  shows "keeps n n' \<and> castsOwn n n'"
proof -
  obtain w n1 where n1: "updateTerm_inlock newTerm now n = Some ((kUpdatedTerm, w), n1)"
    and n': "n' = n1\<lparr>topCoord := voteForMyselfV1 (topCoord n1),
        electionTask := Some (WriteLastVote \<lparr>lv_term = newTerm, lv_candidateIndex = selfIndex (voteForMyselfV1 (topCoord n1))\<rparr> reason)\<rparr>"
    using assms(2) by (auto simp: startRealElection_inlock_def abort_simps Let_def)
  have k: "keeps n n1 \<and> nodeTerm n < newTerm \<and> nodeTerm n1 = newTerm" using updateTerm_keeps [OF assms(1) n1] by simp
  moreover have "tc_inv (voteForMyselfV1 (topCoord n1))" using k lastVote_inv [of "topCoord n1"] by (simp add: voteForMyselfV1_def keeps_def)
  ultimately show ?thesis unfolding n' by (auto simp: keeps_def castsOwn_def voteForMyselfV1_def)
qed

lemma startVoteRequester_effect:
  assumes "startVoteRequester t dry la p task n = Some n'"
  obtains q where "n' = n\<lparr>voteRequester := Some q, electionTask := Some task\<rparr>" "\<not> isCanceled q"
    "runner_start vote_getRequests vote_hasReceivedSufficientResponses
       (newVoteAlgorithm (rsConfig (topCoord n)) (selfIndex (topCoord n)) t dry la p) = Some (requesterRunner q)"
proof -
  obtain r where "runner_start vote_getRequests vote_hasReceivedSufficientResponses
       (newVoteAlgorithm (rsConfig (topCoord n)) (selfIndex (topCoord n)) t dry la p) = Some r"
    "n' = n\<lparr>voteRequester := Some \<lparr>requesterRunner = r, isCanceled = False\<rparr>, electionTask := Some task\<rparr>"
    using assms by (auto simp: startVoteRequester_def abort_simps Let_def)
  then show ?thesis using that [of "\<lparr>requesterRunner = r, isCanceled = False\<rparr>"] by simp
qed

lemma becomeCandidate_keeps:
  assumes "tc_inv (topCoord n)" "becomeCandidateIfElectable w now reason (topCoord n) = Some (e, tc)"
  shows "keeps n (n\<lparr>topCoord := tc\<rparr>) \<and> sameVote n (n\<lparr>topCoord := tc\<rparr>)"
proof -
  have "tc_inv tc \<and> (tc = topCoord n \<or> tc = (topCoord n)\<lparr>role := kCandidate\<rparr>)"
    using becomeCandidate_ok [OF assms(1), of w now reason] assms(2) by (auto split: if_splits)
  then show ?thesis by (auto simp: keeps_def sameVote_def)
qed

lemma lose_only_keeps:
  assumes "tc_inv (topCoord n)" "processLoseElection (topCoord n) = Some tc"
  shows "keeps n (n\<lparr>topCoord := tc\<rparr>) \<and> sameVote n (n\<lparr>topCoord := tc\<rparr>)"
  using loseElection_keeps [OF assms(1), of "n\<lparr>topCoord := tc, voteRequester := None, electionTask := None\<rparr>"] assms(2)
  by (simp add: loseElection_def keeps_def sameVote_def)

lemma startElectSelf_step:
  assumes "tc_inv (topCoord n)" "electionTask n = None" "startElectSelfV1_inlock now reason n = Some n'"
  shows "electionStep n n'"
proof (cases "rsConfigState n = kConfigSteady")
  case False
  then obtain tc where tc: "processLoseElection (topCoord n) = Some tc" "n' = n\<lparr>topCoord := tc\<rparr>"
    using assms(3) by (cases "rsConfigState n") (auto simp: startElectSelfV1_inlock_def abort_simps)
  then show ?thesis using lose_only_keeps [OF assms(1) tc(1)] assms(2) by (simp add: electionStep_def)
next
  case True
  then obtain me la where me: "selfConfig (topCoord n) = Some me" "isElectable me" "getMyLastAppliedOpTime (topCoord n) = Some la"
    using assms(3) by (auto simp: startElectSelfV1_inlock_def abort_simps)
  have el: "selfElectable n" using me by (simp add: selfElectable_def)
  have el': "selfElectable n'" if "keeps n n'" using el that by (auto simp: selfElectable_def keeps_def selfConfig_def memberConfigAt_def)
  consider (lose) "loseElection n = Some n'" | (real) "startRealElection_inlock (nodeTerm n + 1) now reason n = Some n'"
    | (dry) p where "startVoteRequester (nodeTerm n) True la p (ProcessDryRunResult (nodeTerm n) reason) n = Some n'"
    using assms(3) True me by (auto simp: startElectSelfV1_inlock_def split: if_splits)
  then show ?thesis
  proof cases
    case lose
    then show ?thesis using loseElection_keeps [OF assms(1) lose] by (simp add: electionStep_def)
  next
    case real
    then show ?thesis using startRealElection_casts [OF assms(1) real] el' by (simp add: electionStep_def)
  next
    case dry
    then obtain q where "n' = n\<lparr>voteRequester := Some q, electionTask := Some (ProcessDryRunResult (nodeTerm n) reason)\<rparr>"
      by (rule startVoteRequester_effect)
    then have "keeps n n'" "sameVote n n'" "electionTask n' = Some (ProcessDryRunResult (nodeTerm n) reason)"
      using assms(1) by (simp_all add: keeps_def sameVote_def)
    then show ?thesis using el' by (auto simp: electionStep_def)
  qed
qed

lemma electionStep_from:
  assumes "keeps n m" "sameVote n m" "electionStep m n'" "electionTask m = electionTask n"
  shows "electionStep n n'"
proof -
  have "keeps n n'" using assms(1,3) keeps_trans unfolding electionStep_def by blast
  moreover have "castsOwn n n'" if "castsOwn m n'" using that assms(1) unfolding castsOwn_def keeps_def by (metis order_le_less_trans)
  moreover have "sameVote n n'" if "sameVote m n'" using that assms(2) by (simp add: sameVote_def)
  ultimately show ?thesis using assms(3,4) unfolding electionStep_def by metis
qed

lemma stand_step:
  assumes "tc_inv (topCoord n)" "electionTask n = None" "startElectSelfIfEligibleV1 w now reason n = Some n'"
  shows "electionStep n n'"
proof -
  consider "n' = n" | e tc where "becomeCandidateIfElectable w now reason (topCoord n) = Some (e, tc)"
      "if isOK e then startElectSelfV1_inlock now reason (n\<lparr>topCoord := tc\<rparr>) = Some n' else n' = n\<lparr>topCoord := tc\<rparr>"
    using assms(3) by (auto simp: startElectSelfIfEligibleV1_def abort_simps split: if_splits)
  then show ?thesis
  proof cases
    case 1
    then show ?thesis using assms(1,2) by (simp add: electionStep_def keeps_refl sameVote_def)
  next
    case 2
    let ?m = "n\<lparr>topCoord := tc\<rparr>"
    have k: "keeps n ?m" "sameVote n ?m" using becomeCandidate_keeps [OF assms(1) 2(1)] by auto
    show ?thesis
    proof (cases "isOK e")
      case False
      then show ?thesis using 2(2) k assms(2) by (simp add: electionStep_def)
    next
      case True
      have "electionStep ?m n'" using startElectSelf_step [of ?m] k(1) assms(2) 2(2) True by (simp add: keeps_def)
      then show ?thesis by (rule electionStep_from [OF k]) simp
    qed
  qed
qed

lemma dryRun_step:
  assumes "tc_inv (topCoord n)" "electionTask n \<noteq> None" "processDryRunResult t now reason n = Some n'"
  shows "electionStep n n'"
proof -
  consider "loseElection n = Some n'" | "startRealElection_inlock (t + 1) now reason n = Some n'"
    using assms(3) by (auto simp: processDryRunResult_def split: option.splits if_splits)
  then show ?thesis
    using loseElection_keeps [OF assms(1)] startRealElection_casts [OF assms(1)] assms(2) by cases (auto simp: electionStep_def)
qed

lemma answerVoteRequest_effect:
  assumes "tc_inv (topCoord n)" "answerVoteRequest args n = Some (r, n')"
  shows "keeps n n' \<and> sameElection n n' \<and>
    (case r of
       Inl _ \<Rightarrow> n' = n
     | Inr resp \<Rightarrow>
         (if vr_voteGranted resp \<and> \<not> va_dryRun args
          then nodeTerm n \<le> va_term args \<and> lv_term (lastVote (topCoord n)) \<noteq> va_term args \<and> lastVote (topCoord n') = voteOf args
          else sameVote n n') \<and> nodeTerm n' = nodeTerm n)"
proof (cases r)
  case (Inl e)
  then have "n' = n" using assms(2) by (auto simp: answerVoteRequest_def Let_def abort_simps split: if_splits)
  then show ?thesis using Inl assms(1) by (simp add: keeps_refl sameElection_def)
next
  case (Inr resp)
  then obtain tc where p: "processReplSetRequestVotes args (topCoord n) = Some (resp, tc)" "n' = n\<lparr>topCoord := tc\<rparr>"
    using assms(2) by (auto simp: answerVoteRequest_def Let_def abort_simps split: if_splits)
  have i: "tc_inv tc" by (rule requestVotes_inv [OF assms(1) p(1)])
  from p(1) show ?thesis
  proof (cases rule: requestVotes_cases)
    case refused
    then show ?thesis using Inr p(2) assms(1) by (simp add: keeps_def sameElection_def sameVote_def)
  next
    case granted
    then show ?thesis using Inr p(2) i by (cases "va_dryRun args") (simp_all add: keeps_def sameElection_def sameVote_def voteOf_def)
  qed
qed

lemma resetMemberTimeouts_fields [simp]:
  "role (resetMemberTimeouts now hs s) = role s" "tc_term (resetMemberTimeouts now hs s) = tc_term s" "lastVote (resetMemberTimeouts now hs s) = lastVote s"
  "rsConfig (resetMemberTimeouts now hs s) = rsConfig s" "selfIndex (resetMemberTimeouts now hs s) = selfIndex s"
  by (simp_all add: resetMemberTimeouts_def)

lemma onVoteRequestComplete_effect:
  assumes "tc_inv (topCoord n)" "onVoteRequestComplete t now ts n = Some n'"
  obtains (lost) "loseElection n = Some n'" "role (topCoord n') \<noteq> kLeader"
  | (won) q where "voteRequester n = Some q" "nodeTerm n = t" "\<not> isCanceled q" "vote_getResult (algorithm (requesterRunner q)) = kSuccessfullyElected"
      "tc_inv (topCoord n')" "rsConfig (topCoord n') = rsConfig (topCoord n)" "selfIndex (topCoord n') = selfIndex (topCoord n)"
      "nodeTerm n' = nodeTerm n" "lastVoteDocument n' = lastVoteDocument n" "sameVote n n'" "electionTask n' = None" "role (topCoord n') = kLeader"
proof -
  obtain q where q: "voteRequester n = Some q" using assms(2) by (auto simp: onVoteRequestComplete_def split: option.splits)
  show ?thesis
  proof (cases "nodeTerm n = t \<and> requesterResult q = kSuccessfullyElected")
    case False
    then have l: "loseElection n = Some n'" using assms(2) q by (auto simp: onVoteRequestComplete_def split: if_splits)
    have "role (topCoord n') \<noteq> kLeader"
      using l by (auto simp: loseElection_def processLoseElection_def abort_simps)
    then show ?thesis using lost l by blast
  next
    case True
    let ?tc = "resetMemberTimeouts now (vq_responders (algorithm (requesterRunner q))) (topCoord n)"
    let ?n1 = "n\<lparr>topCoord := ?tc, voteRequester := None, electionTask := None\<rparr>"
    have i: "tc_inv ?tc" using resetMemberTimeouts_inv [OF assms(1)] by blast
    have "postWonElectionUpdateMemberState ts ?n1 = Some n'" using assms(2) q True by (simp add: onVoteRequestComplete_def)
    then obtain tc2 where w: "processWinElection (Some (tc_term ?tc)) ts ?tc = Some tc2" "n' = ?n1\<lparr>topCoord := tc2\<rparr>"
      by (auto simp: postWonElectionUpdateMemberState_def abort_simps)
    then have "role ?tc = kCandidate" by (auto simp: processWinElection_def abort_simps)
    then have "tc_inv tc2 \<and> role tc2 = kLeader \<and> tc_term tc2 = tc_term ?tc \<and> lastVote tc2 = lastVote ?tc \<and> selfIndex tc2 = selfIndex ?tc \<and>
        rsConfig tc2 = rsConfig ?tc"
      using processWinElection_ok [OF i, of "Some (tc_term ?tc)" ts] w(1) by auto
    moreover have "\<not> isCanceled q" "vote_getResult (algorithm (requesterRunner q)) = kSuccessfullyElected"
      using True by (auto simp: requesterResult_def split: if_splits)
    ultimately show ?thesis using won [OF q] True w(2) by (simp add: sameVote_def)
  qed
qed

lemma startUp_effect:
  assumes "startUp (initialCoordinator cr skip supports) c (int i) now lastOp doc = Some n" "config_ok c" "isInitialized c" "i < length (members c)"
  shows "tc_inv (topCoord n) \<and> rsConfig (topCoord n) = c \<and> selfIndex (topCoord n) = int i \<and> lastVote (topCoord n) = doc \<and> lastVoteDocument n = doc \<and>
    lv_term doc \<le> nodeTerm n \<and> role (topCoord n) \<noteq> kLeader \<and> electionTask n = None"
proof -
  let ?s0 = "loadLastVote doc (initialCoordinator cr skip supports)"
  have i0: "tc_inv ?s0" using lastVote_inv [OF initial_inv] by (simp add: loadLastVote_def)
  have r0: "role ?s0 = kFollower" "lastVote ?s0 = doc" by (simp_all add: loadLastVote_def initialCoordinator_def newTopologyCoordinator_def)
  obtain tc1 where tc1: "updateConfig c (int i) now ?s0 = Some tc1" "tc_inv tc1" "rsConfig tc1 = c" "selfIndex tc1 = int i" "lastVote tc1 = doc" "role tc1 = kFollower"
    using updateConfig_ok [OF i0, of "int i" c now] assms(2-4) r0 by (auto simp: getNumMembers_def)
  define t where "t = (if getTerm (opTime lastOp) < lv_term doc then lv_term doc else getTerm (opTime lastOp))"
  obtain tc2 r w where tc2: "(if op_isNull (opTime lastOp) then Some tc1
            else do { x \<leftarrow> setMyLastAppliedOpTimeAndWallTime lastOp now False tc1; setMyLastDurableOpTimeAndWallTime lastOp now False x }) = Some tc2"
    and n: "updateTerm_inlock t now
       \<lparr>topCoord = tc2, pendingTermUpdateDuringStepDown = None, voteRequester = None, electionTask = None, rsConfigState = kConfigSteady,
        inShutdown = False, inTerminalShutdown = False, lastVoteDocument = doc\<rparr> = Some ((r, w), n)"
    using assms(1) tc1(1) unfolding startUp_def Let_def t_def [symmetric] Option.bind_eq_Some_conv by fastforce
  have s2: "tc_inv tc2 \<and> same_role tc1 tc2"
  proof (cases "op_isNull (opTime lastOp)")
    case False
    then obtain x where x: "setMyLastAppliedOpTimeAndWallTime lastOp now False tc1 = Some x" "setMyLastDurableOpTimeAndWallTime lastOp now False x = Some tc2"
      using tc2 by (auto simp: abort_simps)
    have y: "tc_inv x \<and> same_role tc1 x" by (rule setMyLastApplied_inv [OF tc1(2) x(1)])
    then show ?thesis using setMyLastDurable_inv [OF _ x(2)] same_role_trans by blast
  qed (use tc2 tc1(2) in simp)
  have role2: "role tc2 = kFollower" using s2 tc1(6) by (simp add: same_role_def)
  let ?m = "\<lparr>topCoord = tc2, pendingTermUpdateDuringStepDown = None, voteRequester = None, electionTask = None, rsConfigState = kConfigSteady,
        inShutdown = False, inTerminalShutdown = False, lastVoteDocument = doc\<rparr>"
  have k: "keeps ?m n \<and> sameVote ?m n \<and> sameElection ?m n" using updateTerm_keeps [of ?m t now r w n] s2 n by simp
  obtain tc3 where u: "updateTerm t now tc2 = Some (r, tc3)" using n by (auto simp: updateTerm_inlock_def abort_simps split: if_splits)
  have "t \<le> tc_term tc3 \<and> r \<noteq> kTriggerStepDown"
    using updateTerm_ok [of tc2 t now] s2 role2 unfolding u option.inject prod.inject by auto
  then have "t \<le> nodeTerm n" using n u by (auto simp: updateTerm_inlock_def)
  moreover have "lv_term doc \<le> t" by (simp add: t_def)
  ultimately show ?thesis using k s2 tc1 role2 by (auto simp: keeps_def sameVote_def sameElection_def same_role_def)
qed

end
