(* ===== verification/ClusterInv.thy ===== *)
theory ClusterInv
  imports Cluster
begin

text \<open>
  The invariant of the replica set and its preservation by every step of \<open>cluster_step\<close> that leaves no early vote: what a candidate has counted are stored
  votes of distinct members, no vote of a node is later than the one it remembers, and every leader has won the election of its term.
\<close>

subsection \<open>Counting the votes of one election\<close>

text \<open>What the runner of an election has counted: answers of distinct targets, the granting ones by members that stored their vote.\<close>

definition tally :: "ReplSetConfig \<Rightarrow> cast set \<Rightarrow> nat \<Rightarrow> int \<Rightarrow> (VoteAlgorithm, HostAndPort) Runner \<Rightarrow> bool" where
  "tally c V i t r \<longleftrightarrow>
     (\<exists>la qs. algorithm r = fold (\<lambda>(h, rep). vote_processResponse h rep) qs (newVoteAlgorithm c (int i) t False la (-1)) \<and>
        mset (map fst qs) + mset (callbacks r) \<subseteq># mset (voteTargets (int i) (members c) 0) \<and>
        (\<forall>(h, rep) \<in> set qs. grants (h, rep) \<longrightarrow> (\<exists>k < length (members c). getHostAndPort (members c ! k) = h \<and> (t, k, int i) \<in> V)))"

definition supporters :: "ReplSetConfig \<Rightarrow> cast set \<Rightarrow> int \<Rightarrow> nat \<Rightarrow> nat set" where
  "supporters c V t i = {k. k < length (members c) \<and> isVoter (members c ! k) \<and> (t, k, int i) \<in> V}"

lemma tally_mono: "tally c V i t r \<Longrightarrow> V \<subseteq> V' \<Longrightarrow> tally c V' i t r"
  unfolding tally_def by (smt (verit) case_prodD case_prodI2 subsetD)

lemma tally_callbacks:
  assumes "tally c V i t r" "algorithm r' = algorithm r" "mset (callbacks r') \<subseteq># mset (callbacks r)"
  shows "tally c V i t r'"
proof -
  have "M + mset (callbacks r) \<subseteq># T \<Longrightarrow> M + mset (callbacks r') \<subseteq># T" for M T
    by (rule subset_mset.order_trans [OF subset_mset.add_left_mono [OF assms(3)]])
  then show ?thesis using assms(1) unfolding tally_def assms(2) by blast
qed

lemma tally_signal: "tally c V i t r \<Longrightarrow> tally c V i t (runner_signal r)"
  by (erule tally_callbacks) (simp_all add: runner_signal_def)

lemma distinct_submset:
  assumes "mset ys \<subseteq># mset xs" "distinct xs"
  shows "distinct ys"
proof -
  obtain C where "mset xs = mset ys + C" using assms(1) by (auto simp: mset_subset_eq_exists_conv)
  moreover obtain zs where "mset zs = C" using ex_mset by blast
  ultimately have "mset (ys @ zs) = mset xs" by simp
  then have "distinct (ys @ zs)" using assms(2) mset_eq_imp_distinct_iff by blast
  then show ?thesis by simp
qed

lemma tally_start:
  assumes "runner_start vote_getRequests vote_hasReceivedSufficientResponses (newVoteAlgorithm c (int i) t False la (-1)) = Some r"
  shows "tally c V i t r"
proof -
  have "algorithm r = newVoteAlgorithm c (int i) t False la (-1) \<and> mset (callbacks r) \<subseteq># mset (voteTargets (int i) (members c) 0)"
    using assms by (auto simp: runner_start_def Let_def runner_signal_def vote_getRequests_def newVoteAlgorithm_def abort_simps split: if_splits)
  then show ?thesis unfolding tally_def by (intro exI [of _ la] exI [of _ "[]"]) simp
qed

lemma tally_reply:
  assumes "tally c V i t r" "runner_processResponse vote_processResponse vote_hasReceivedSufficientResponses h rep r = Some r'"
    and "grants (h, rep) \<Longrightarrow> \<exists>k < length (members c). getHostAndPort (members c ! k) = h \<and> (t, k, int i) \<in> V"
  shows "tally c V i t r'"
proof (cases "finished r")
  case True
  then show ?thesis using assms(1,2) by (simp add: runner_processResponse_def)
next
  case False
  obtain la qs where q: "algorithm r = fold (\<lambda>(h, rep). vote_processResponse h rep) qs (newVoteAlgorithm c (int i) t False la (-1))"
      "mset (map fst qs) + mset (callbacks r) \<subseteq># mset (voteTargets (int i) (members c) 0)"
      "\<forall>(h, rep) \<in> set qs. grants (h, rep) \<longrightarrow> (\<exists>k < length (members c). getHostAndPort (members c ! k) = h \<and> (t, k, int i) \<in> V)"
    using assms(1) unfolding tally_def by blast
  have h: "h \<in> set (callbacks r)" and r': "algorithm r' = vote_processResponse h rep (algorithm r)" "mset (callbacks r') \<subseteq># mset (remove1 h (callbacks r))"
    using assms(2) False by (auto simp: runner_processResponse_def Let_def runner_signal_def split: if_splits)
  define B where "B = mset (remove1 h (callbacks r))"
  have B: "mset (callbacks r) = add_mset h B" using h by (simp add: B_def)
  have "mset (map fst (qs @ [(h, rep)])) + mset (callbacks r') \<subseteq># mset (map fst qs) + mset (callbacks r)"
    using r'(2) unfolding B B_def [symmetric] by simp
  then have "mset (map fst (qs @ [(h, rep)])) + mset (callbacks r') \<subseteq># mset (voteTargets (int i) (members c) 0)"
    using q(2) by (rule subset_mset.order_trans)
  moreover have "algorithm r' = fold (\<lambda>(h, rep). vote_processResponse h rep) (qs @ [(h, rep)]) (newVoteAlgorithm c (int i) t False la (-1))"
    using r'(1) q(1) by simp
  moreover have "\<forall>(h, rep) \<in> set (qs @ [(h, rep)]). grants (h, rep) \<longrightarrow> (\<exists>k < length (members c). getHostAndPort (members c ! k) = h \<and> (t, k, int i) \<in> V)"
    using q(3) assms(3) by auto
  ultimately show ?thesis unfolding tally_def by blast
qed

lemma voteTargets_distinct: "distinct (map getHostAndPort ms) \<Longrightarrow> distinct (voteTargets cand ms i)"
proof (induction ms arbitrary: i)
  case (Cons m ms)
  have "getHostAndPort m \<notin> set (voteTargets cand ms (i + 1))"
    using Cons.prems unfolding voteTargets_set by (auto dest: nth_mem)
  then show ?case using Cons by auto
qed simp

text \<open>A successful election has a majority of the voters among its supporters.\<close>

lemma tally_quorum:
  assumes "config_ok c" "i < length (members c)" "isVoter (members c ! i)" "(t, i, int i) \<in> V" "tally c V i t r"
    and "vote_getResult (algorithm r) = kSuccessfullyElected"
  shows "majorityVoteCount c \<le> int (card (supporters c V t i))"
proof -
  let ?host = "\<lambda>k. getHostAndPort (members c ! k)" and ?S = "supporters c V t i"
  obtain la qs where q: "algorithm r = fold (\<lambda>(h, rep). vote_processResponse h rep) qs (newVoteAlgorithm c (int i) t False la (-1))"
      "mset (map fst qs) + mset (callbacks r) \<subseteq># mset (voteTargets (int i) (members c) 0)"
      "\<forall>(h, rep) \<in> set qs. grants (h, rep) \<longrightarrow> (\<exists>k < length (members c). ?host k = h \<and> (t, k, int i) \<in> V)"
    using assms(5) unfolding tally_def by blast
  have hosts: "distinct (map getHostAndPort (members c))" using assms(1) by (simp add: config_ok_def)
  have same: "k = k'" if "?host k = ?host k'" "k < length (members c)" "k' < length (members c)" for k k'
    using hosts that by (metis length_map nth_eq_iff_index_eq nth_map)
  have sub: "mset (map fst qs) \<subseteq># mset (voteTargets (int i) (members c) 0)" using q(2) by (rule mset_subset_eq_add_left [THEN subset_mset.order_trans])
  have "distinct (map fst qs)"
    using distinct_submset [OF sub voteTargets_distinct [OF hosts]] .
  then have d: "distinct (map fst (filter grants qs))" by (rule distinct_map_filter)
  have inc: "set (map fst (filter grants qs)) \<subseteq> ?host ` (?S - {i})"
  proof
    fix h assume "h \<in> set (map fst (filter grants qs))"
    then obtain rep where h: "(h, rep) \<in> set qs" "grants (h, rep)" by auto
    obtain k where k: "k < length (members c)" "?host k = h" "(t, k, int i) \<in> V" using q(3) h by auto
    have "h \<in> set (voteTargets (int i) (members c) 0)"
      using h(1) set_mset_mono [OF sub] by force
    then obtain k' where k': "k' < length (members c)" "h = ?host k'" "isVoter (members c ! k')" "k' \<noteq> i" unfolding voteTargets_set by auto
    have "k = k'" using same k k' by simp
    then show "h \<in> ?host ` (?S - {i})" using k k' by (auto simp: supporters_def)
  qed
  have fin: "finite ?S" by (simp add: supporters_def)
  have "card (set (map fst (filter grants qs))) \<le> card (?host ` (?S - {i}))" by (rule card_mono [OF _ inc]) (simp add: fin)
  also have "\<dots> \<le> card (?S - {i})" by (rule card_image_le) (simp add: fin)
  finally have "length (filter grants qs) \<le> card (?S - {i})" using distinct_card [OF d] by simp
  moreover have "i \<in> ?S" using assms(2-4) by (simp add: supporters_def)
  then have "card ?S = Suc (card (?S - {i}))" by (rule card.remove [OF fin])
  ultimately have "countp grants qs + 1 \<le> card ?S" unfolding countp_def by linarith
  moreover have "majorityVoteCount c \<le> 1 + int (countp grants qs)"
    using assms(6) unfolding q(1) by (auto simp: vote_getResult_def vote_feed_votes vote_feed_fields newVoteAlgorithm_def split: if_splits)
  ultimately show ?thesis by linarith
qed

text \<open>Two elections of one term that both succeeded share a supporter, a member that voted for both.\<close>

lemma supporters_overlap:
  assumes "config_ok c" "majorityVoteCount c = majorityVoteCount (calculateMajorities c)"
    and "majorityVoteCount c \<le> int (card (supporters c V t i))" "majorityVoteCount c \<le> int (card (supporters c V t j))"
  obtains k where "(t, k, int i) \<in> V" "(t, k, int j) \<in> V"
proof -
  let ?id = "\<lambda>k. mc_id (members c ! k)"
  have d: "distinct (map mc_id (members c))" using assms(1) by (simp add: config_ok_def)
  have same: "k = k'" if "?id k = ?id k'" "k < length (members c)" "k' < length (members c)" for k k'
    using d that by (metis length_map nth_eq_iff_index_eq nth_map)
  have quorum: "electionQuorum c (?id ` supporters c V t x)" if "majorityVoteCount c \<le> int (card (supporters c V t x))" for x
  proof -
    have "inj_on ?id (supporters c V t x)" using same by (auto simp: inj_on_def supporters_def)
    moreover have "?id ` supporters c V t x \<subseteq> votingIds c" by (auto simp: votingIds_eq supporters_def)
    ultimately show ?thesis using that assms(2) by (simp add: electionQuorum_def card_image)
  qed
  obtain m where "m \<in> ?id ` supporters c V t i" "m \<in> ?id ` supporters c V t j"
    using eq.quorums_overlap [OF quorum [OF assms(3)] quorum [OF assms(4)]] by blast
  then obtain k k' where "k \<in> supporters c V t i" "k' \<in> supporters c V t j" "?id k = ?id k'" by auto
  then show ?thesis using that same by (auto simp: supporters_def)
qed

subsection \<open>The invariant of the replica set\<close>

text \<open>A node remembers its latest vote in memory and the latest stored one in the document, and no vote it has cast is later.\<close>

definition vote_inv :: "cast set \<Rightarrow> cast set \<Rightarrow> nat \<Rightarrow> ReplicationCoordinator \<Rightarrow> bool" where
  "vote_inv V U i n \<longleftrightarrow>
     (let last = lastVote (topCoord n); doc = lastVoteDocument n in
      lv_term last \<le> nodeTerm n \<and> lv_term doc \<le> lv_term last \<and>
      (\<forall>t a. (t, i, a) \<in> V \<union> U \<longrightarrow> t \<le> lv_term last \<and> (t = lv_term last \<longrightarrow> a = lv_candidateIndex last) \<and>
         (t = lv_term doc \<longrightarrow> a = lv_candidateIndex doc)) \<and>
      (\<forall>t a. (t, i, a) \<in> V \<longrightarrow> t \<le> lv_term doc))"

definition task_inv :: "ReplSetConfig \<Rightarrow> cast set \<Rightarrow> cast set \<Rightarrow> nat \<Rightarrow> ReplicationCoordinator \<Rightarrow> bool" where
  "task_inv c V U i n \<longleftrightarrow>
     (case electionTask n of
        None \<Rightarrow> True
      | Some task \<Rightarrow> isElectable (members c ! i) \<and>
          (case task of
             ProcessDryRunResult t r \<Rightarrow> True
           | WriteLastVote v r \<Rightarrow> (lv_term v, i, int i) \<in> U \<and> lv_candidateIndex v = int i
           | LastVoteWritten v r \<Rightarrow> (lv_term v, i, int i) \<in> V
           | OnVoteRequestComplete t r \<Rightarrow> (t, i, int i) \<in> V \<and> (\<exists>q. voteRequester n = Some q \<and> tally c V i t (requesterRunner q))))"

definition node_inv :: "ReplSetConfig \<Rightarrow> cast set \<Rightarrow> cast set \<Rightarrow> (int \<times> nat) set \<Rightarrow> nat \<Rightarrow> ReplicationCoordinator \<Rightarrow> bool" where
  "node_inv c V U W i n \<longleftrightarrow> tc_inv (topCoord n) \<and> rsConfig (topCoord n) = c \<and> selfIndex (topCoord n) = int i \<and>
     (role (topCoord n) = kLeader \<longrightarrow> (nodeTerm n, i) \<in> W) \<and> vote_inv V U i n \<and> task_inv c V U i n"

definition one_vote :: "cast set \<Rightarrow> bool" where
  "one_vote A \<longleftrightarrow> (\<forall>t i a b. (t, i, a) \<in> A \<and> (t, i, b) \<in> A \<longrightarrow> a = b)"

definition cluster_inv :: "ReplSetConfig \<Rightarrow> Cluster \<Rightarrow> bool" where
  "cluster_inv c S \<longleftrightarrow>
     (\<forall>i < length (members c). node_inv c (castVotes S) (unsent S) (winners S) i (nodes S i)) \<and>
     one_vote (castVotes S \<union> unsent S) \<and> (\<forall>(t, i) \<in> winners S. majorityVoteCount c \<le> int (card (supporters c (castVotes S) t i)))"

lemma supporters_mono: "V \<subseteq> V' \<Longrightarrow> card (supporters c V t i) \<le> card (supporters c V' t i)"
  by (rule card_mono) (auto simp: supporters_def)

lemma task_inv_mono:
  assumes "task_inv c V U i n" "V \<subseteq> V'" "\<forall>t a. (t, i, a) \<in> U \<longrightarrow> (t, i, a) \<in> U'"
  shows "task_inv c V' U' i n"
  using assms by (auto simp: task_inv_def split: option.splits ElectionTask.splits intro: tally_mono)

text \<open>The other nodes do not notice the step of one.\<close>

lemma node_inv_frame:
  assumes "node_inv c V U W j n" "V \<subseteq> V'" "W \<subseteq> W'" "\<forall>t a. (t, j, a) \<in> V' \<longleftrightarrow> (t, j, a) \<in> V" "\<forall>t a. (t, j, a) \<in> U' \<longleftrightarrow> (t, j, a) \<in> U"
  shows "node_inv c V' U' W' j n"
proof -
  have "vote_inv V' U' j n" using assms(1,4,5) by (simp add: node_inv_def vote_inv_def Let_def)
  moreover have "task_inv c V' U' j n" using assms(1,2,5) task_inv_mono unfolding node_inv_def by blast
  ultimately show ?thesis using assms(1,3) by (auto simp: node_inv_def)
qed

text \<open>A step of node \<open>i\<close> that keeps the invariant of that node, casts votes of that node only and wins elections for it only.\<close>

lemma cluster_inv_step:
  assumes "cluster_inv c S" "i < length (members c)" "node_inv c V U W i n"
    and "castVotes S \<subseteq> V" "winners S \<subseteq> W" "\<forall>t k a. k \<noteq> i \<longrightarrow> ((t, k, a) \<in> V \<longleftrightarrow> (t, k, a) \<in> castVotes S) \<and> ((t, k, a) \<in> U \<longleftrightarrow> (t, k, a) \<in> unsent S)"
    and "\<forall>t a b. (t, i, a) \<in> V \<union> U \<and> (t, i, b) \<in> V \<union> U \<longrightarrow> a = b"
    and "\<forall>(t, k) \<in> W - winners S. majorityVoteCount c \<le> int (card (supporters c V t k))"
  shows "cluster_inv c \<lparr>nodes = (nodes S)(i := n), castVotes = V, unsent = U, winners = W, earlyVotes = E\<rparr>"
proof -
  have "node_inv c V U W k (((nodes S)(i := n)) k)" if "k < length (members c)" for k
  proof (cases "k = i")
    case False
    have "node_inv c (castVotes S) (unsent S) (winners S) k (nodes S k)" using assms(1) that by (simp add: cluster_inv_def)
    then show ?thesis using node_inv_frame [OF _ assms(4,5)] assms(6) False by simp
  qed (use assms(3) in simp)
  moreover have "one_vote (V \<union> U)"
  proof -
    have old: "one_vote (castVotes S \<union> unsent S)" using assms(1) by (simp add: cluster_inv_def)
    have "a = b" if "(t, k, a) \<in> V \<union> U" "(t, k, b) \<in> V \<union> U" for t k a b
      using that old assms(6,7) by (cases "k = i") (auto simp: one_vote_def)
    then show ?thesis by (auto simp: one_vote_def)
  qed
  moreover have "majorityVoteCount c \<le> int (card (supporters c V t k))" if "(t, k) \<in> W" for t k
  proof (cases "(t, k) \<in> winners S")
    case True
    then have "majorityVoteCount c \<le> int (card (supporters c (castVotes S) t k))" using assms(1) by (auto simp: cluster_inv_def)
    then show ?thesis using supporters_mono [OF assms(4), of c t k] by linarith
  qed (use assms(8) that in auto)
  ultimately show ?thesis by (auto simp: cluster_inv_def)
qed

lemma cluster_inv_node:
  assumes "cluster_inv c S" "i < length (members c)"
  shows "node_inv c (castVotes S) (unsent S) (winners S) i (nodes S i)"
    and "\<forall>t a b. (t, i, a) \<in> castVotes S \<union> unsent S \<and> (t, i, b) \<in> castVotes S \<union> unsent S \<longrightarrow> a = b"
  using assms by (auto simp: cluster_inv_def one_vote_def)

text \<open>Steps that cast no vote.\<close>

lemma cluster_inv_quiet:
  assumes "cluster_inv c S" "i < length (members c)" "node_inv c (castVotes S) (unsent S) (winners S) i n"
  shows "cluster_inv c (nodeAt S i n)"
proof -
  have "cluster_inv c \<lparr>nodes = (nodes S)(i := n), castVotes = castVotes S, unsent = unsent S, winners = winners S, earlyVotes = earlyVotes S\<rparr>"
    by (rule cluster_inv_step [OF assms]) (use cluster_inv_node [OF assms(1,2)] in auto)
  then show ?thesis by (cases S) simp
qed

lemma node_inv_keeps:
  assumes "node_inv c V U W i n" "keeps n n'" "sameVote n n'" "task_inv c V U i n'"
  shows "node_inv c V U W i n'"
  using assms unfolding node_inv_def keeps_def sameVote_def vote_inv_def Let_def by auto

lemma task_inv_same: "task_inv c V U i n \<Longrightarrow> sameElection n n' \<Longrightarrow> task_inv c V U i n'"
  unfolding task_inv_def sameElection_def by (elim conjE) (simp only:)

lemma task_inv_None: "electionTask n = None \<Longrightarrow> task_inv c V U i n"
  by (simp add: task_inv_def)

subsection \<open>Every step keeps the invariant\<close>

lemma vote_invD:
  assumes "vote_inv V U i n"
  shows "lv_term (lastVote (topCoord n)) \<le> nodeTerm n" "lv_term (lastVoteDocument n) \<le> lv_term (lastVote (topCoord n))"
    and "(t, i, a) \<in> V \<union> U \<Longrightarrow> t \<le> lv_term (lastVote (topCoord n)) \<and>
      (t = lv_term (lastVote (topCoord n)) \<longrightarrow> a = lv_candidateIndex (lastVote (topCoord n))) \<and>
      (t = lv_term (lastVoteDocument n) \<longrightarrow> a = lv_candidateIndex (lastVoteDocument n))"
    and "(t, i, a) \<in> V \<Longrightarrow> t \<le> lv_term (lastVoteDocument n)"
  using assms unfolding vote_inv_def Let_def by blast+

lemma vote_invI:
  assumes "lv_term (lastVote (topCoord n)) \<le> nodeTerm n" "lv_term (lastVoteDocument n) \<le> lv_term (lastVote (topCoord n))"
    and "\<And>t a. (t, i, a) \<in> V \<union> U \<Longrightarrow> t \<le> lv_term (lastVote (topCoord n)) \<and>
      (t = lv_term (lastVote (topCoord n)) \<longrightarrow> a = lv_candidateIndex (lastVote (topCoord n))) \<and>
      (t = lv_term (lastVoteDocument n) \<longrightarrow> a = lv_candidateIndex (lastVoteDocument n))"
    and "\<And>t a. (t, i, a) \<in> V \<Longrightarrow> t \<le> lv_term (lastVoteDocument n)"
  shows "vote_inv V U i n"
  using assms unfolding vote_inv_def Let_def by blast

lemma node_initialized: "node_inv c V U W i n \<Longrightarrow> isInitialized (rsConfig (topCoord n)) \<and> config_ok c \<and> i < length (members c)"
  by (auto simp: node_inv_def tc_inv_def control_ok_def getNumMembers_def)

lemma quiet_node:
  assumes "node_inv c V U W i n" "keeps n n' \<and> sameVote n n' \<and> sameElection n n'"
  shows "node_inv c V U W i n'"
  using node_inv_keeps [OF assms(1)] assms task_inv_same unfolding node_inv_def by blast

lemma lose_node:
  assumes "node_inv c V U W i n" "loseElection n = Some n'"
  shows "node_inv c V U W i n'"
  using loseElection_keeps [OF _ assms(2)] node_inv_keeps [OF assms(1)] task_inv_None assms(1) unfolding node_inv_def by blast

text \<open>A vote in a term that is later than that of the last vote.\<close>

lemma vote_inv_cast:
  assumes "vote_inv V U i n" "lastVote (topCoord n') = \<lparr>lv_term = t, lv_candidateIndex = a\<rparr>" "lv_term (lastVote (topCoord n)) < t" "t \<le> nodeTerm n'"
    and "lastVoteDocument n' = lastVoteDocument n"
  shows "vote_inv V (insert (t, i, a) U) i n'"
proof -
  note v = vote_invD [OF assms(1)]
  show ?thesis
  proof (rule vote_invI)
    fix s b assume "(s, i, b) \<in> V \<union> insert (t, i, a) U"
    then consider "s = t" "b = a" | "(s, i, b) \<in> V \<union> U" by auto
    then show "s \<le> lv_term (lastVote (topCoord n')) \<and> (s = lv_term (lastVote (topCoord n')) \<longrightarrow> b = lv_candidateIndex (lastVote (topCoord n'))) \<and>
      (s = lv_term (lastVoteDocument n') \<longrightarrow> b = lv_candidateIndex (lastVoteDocument n'))"
    proof cases
      case 1
      then show ?thesis using v(2) assms(2,3,5) by simp
    next
      case 2
      then show ?thesis using v(3) [OF 2] assms(2,3,5) by auto
    qed
  next
    show "lv_term (lastVote (topCoord n')) \<le> nodeTerm n'" using assms(2,4) by simp
    show "lv_term (lastVoteDocument n') \<le> lv_term (lastVote (topCoord n'))" using v(2) assms(2,3,5) by simp
    show "(s, i, b) \<in> V \<Longrightarrow> s \<le> lv_term (lastVoteDocument n')" for s b using v(4) assms(5) by simp
  qed
qed

lemma cast_fresh:
  assumes "vote_inv V U i n" "lv_term (lastVote (topCoord n)) < t"
    and "\<forall>t a b. (t, i, a) \<in> V \<union> U \<and> (t, i, b) \<in> V \<union> U \<longrightarrow> a = b"
  shows "\<forall>s b d. (s, i, b) \<in> V \<union> insert (t, i, a) U \<and> (s, i, d) \<in> V \<union> insert (t, i, a) U \<longrightarrow> b = d"
proof -
  have "(t, i, x) \<notin> V \<union> U" for x using vote_invD(3) [OF assms(1), of t x] assms(2) by auto
  then show ?thesis using assms(3) by auto
qed

lemma self_electable_index:
  "selfElectable n \<Longrightarrow> rsConfig (topCoord n) = c \<Longrightarrow> selfIndex (topCoord n) = int i \<Longrightarrow> isElectable (members c ! i)"
  by (auto simp: selfElectable_def selfConfig_def memberConfigAt_def vec_at_Some)

lemma election_node:
  assumes "node_inv c V U W i n" "electionStep n n'" "\<forall>t a b. (t, i, a) \<in> V \<union> U \<and> (t, i, b) \<in> V \<union> U \<longrightarrow> a = b"
  shows "node_inv c V (U \<union> ownVote i n') W i n'"
    and "\<forall>t a b. (t, i, a) \<in> V \<union> (U \<union> ownVote i n') \<and> (t, i, b) \<in> V \<union> (U \<union> ownVote i n') \<longrightarrow> a = b"
proof -
  have k: "keeps n n'" using assms(2) by (simp add: electionStep_def)
  have el: "electionTask n' \<noteq> None \<Longrightarrow> isElectable (members c ! i)"
  proof -
    assume "electionTask n' \<noteq> None"
    then consider "electionTask n \<noteq> None" | "selfElectable n'" using assms(2) by (auto simp: electionStep_def)
    then show ?thesis
    proof cases
      case 1
      then show ?thesis using assms(1) by (auto simp: node_inv_def task_inv_def split: option.splits)
    next
      case 2
      then show ?thesis using self_electable_index k assms(1) by (auto simp: node_inv_def keeps_def)
    qed
  qed
  have "node_inv c V (U \<union> ownVote i n') W i n' \<and>
      (\<forall>t a b. (t, i, a) \<in> V \<union> (U \<union> ownVote i n') \<and> (t, i, b) \<in> V \<union> (U \<union> ownVote i n') \<longrightarrow> a = b)"
  proof (cases "castsOwn n n'")
    case False
    then have s: "sameVote n n'" and t: "electionTask n' = None \<or> (\<exists>t r. electionTask n' = Some (ProcessDryRunResult t r))"
      using assms(2) by (auto simp: electionStep_def)
    have o: "ownVote i n' = {}" using t by (auto simp: ownVote_def)
    have "task_inv c V U i n'" using t el by (auto simp: task_inv_def)
    then have "node_inv c V U W i n'" by (rule node_inv_keeps [OF assms(1) k s])
    then show ?thesis using o assms(3) by simp
  next
    case True
    define v where "v = lastVote (topCoord n')"
    obtain reason where c: "electionTask n' = Some (WriteLastVote v reason)" "v = \<lparr>lv_term = nodeTerm n', lv_candidateIndex = int i\<rparr>" "nodeTerm n < nodeTerm n'"
      using True assms(1) by (auto simp: castsOwn_def v_def node_inv_def)
    have o: "ownVote i n' = {(nodeTerm n', i, int i)}" using c(1,2) by (simp add: ownVote_def)
    have less: "lv_term (lastVote (topCoord n)) < nodeTerm n'" using assms(1) c(3) by (auto simp: node_inv_def vote_inv_def Let_def)
    have vi: "vote_inv V U i n" using assms(1) by (simp add: node_inv_def)
    have "vote_inv V (insert (nodeTerm n', i, int i) U) i n'"
      by (rule vote_inv_cast [OF vi _ less]) (use c(2) k in \<open>simp_all add: v_def keeps_def\<close>)
    moreover have "task_inv c V (insert (nodeTerm n', i, int i) U) i n'" using c(1,2) el by (simp add: task_inv_def)
    ultimately have "node_inv c V (insert (nodeTerm n', i, int i) U) W i n'" using assms(1) k by (auto simp: node_inv_def keeps_def)
    moreover have "U \<union> ownVote i n' = insert (nodeTerm n', i, int i) U" using o by simp
    ultimately show ?thesis using cast_fresh [OF vi less assms(3), of "int i"] by (simp only: simp_thms)
  qed
  then show "node_inv c V (U \<union> ownVote i n') W i n'"
    "\<forall>t a b. (t, i, a) \<in> V \<union> (U \<union> ownVote i n') \<and> (t, i, b) \<in> V \<union> (U \<union> ownVote i n') \<longrightarrow> a = b" by blast+
qed

text \<open>Storing a vote that was cast.\<close>

lemma store_fields [simp]:
  "topCoord (storeLocalLastVoteDocument v n) = topCoord n" "electionTask (storeLocalLastVoteDocument v n) = electionTask n"
  "voteRequester (storeLocalLastVoteDocument v n) = voteRequester n"
  by (simp_all add: storeLocalLastVoteDocument_def)

lemma vote_inv_store:
  assumes "vote_inv V U i n" "(lv_term v, i, lv_candidateIndex v) \<in> V \<union> U"
    and "\<forall>t a b. (t, i, a) \<in> V \<union> U \<and> (t, i, b) \<in> V \<union> U \<longrightarrow> a = b"
  shows "vote_inv (insert (lv_term v, i, lv_candidateIndex v) V) U i (storeLocalLastVoteDocument v n)"
proof -
  note v = vote_invD [OF assms(1)]
  let ?doc = "if lv_term (lastVoteDocument n) < lv_term v then v else lastVoteDocument n"
  have doc: "lastVoteDocument (storeLocalLastVoteDocument v n) = ?doc" by (simp add: storeLocalLastVoteDocument_def)
  have V: "insert (lv_term v, i, lv_candidateIndex v) V \<union> U = V \<union> U" using assms(2) by auto
  show ?thesis
  proof (rule vote_invI, unfold V doc store_fields)
    show "lv_term (lastVote (topCoord n)) \<le> nodeTerm n" by (rule v(1))
    show "lv_term ?doc \<le> lv_term (lastVote (topCoord n))" using v(2) v(3) [OF assms(2)] by simp
    show "t \<le> lv_term ?doc" if "(t, i, a) \<in> insert (lv_term v, i, lv_candidateIndex v) V" for t a using that v(4) [of t a] by auto
    fix t a assume ta: "(t, i, a) \<in> V \<union> U"
    have "t = lv_term v \<longrightarrow> a = lv_candidateIndex v" using assms(2,3) ta by blast
    then show "t \<le> lv_term (lastVote (topCoord n)) \<and> (t = lv_term (lastVote (topCoord n)) \<longrightarrow> a = lv_candidateIndex (lastVote (topCoord n))) \<and>
      (t = lv_term ?doc \<longrightarrow> a = lv_candidateIndex ?doc)" using v(3) [OF ta] by simp
  qed
qed

lemma store_node:
  assumes "node_inv c V U W i n" "(lv_term v, i, lv_candidateIndex v) \<in> V \<union> U"
    and "\<forall>t a b. (t, i, a) \<in> V \<union> U \<and> (t, i, b) \<in> V \<union> U \<longrightarrow> a = b"
  shows "node_inv c (insert (lv_term v, i, lv_candidateIndex v) V) U W i (storeLocalLastVoteDocument v n)"
proof -
  have "task_inv c (insert (lv_term v, i, lv_candidateIndex v) V) U i n" using assms(1) task_inv_mono [of c V U i n] unfolding node_inv_def by blast
  then have "task_inv c (insert (lv_term v, i, lv_candidateIndex v) V) U i (storeLocalLastVoteDocument v n)"
    by (rule task_inv_same) (simp add: sameElection_def)
  then show ?thesis using assms(1) vote_inv_store [OF _ assms(2,3)] by (simp add: node_inv_def)
qed

lemma storeOwn_node:
  assumes "node_inv c V U W i n" "electionTask n = Some (WriteLastVote v reason)"
    and "\<forall>t a b. (t, i, a) \<in> V \<union> U \<and> (t, i, b) \<in> V \<union> U \<longrightarrow> a = b"
  shows "node_inv c (insert (lv_term v, i, lv_candidateIndex v) V) U W i (writeLastVoteForMyElection v reason n)"
    and "(lv_term v, i, lv_candidateIndex v) \<in> U"
proof -
  have t: "(lv_term v, i, int i) \<in> U \<and> lv_candidateIndex v = int i \<and> isElectable (members c ! i)"
    using assms(1,2) by (simp add: node_inv_def task_inv_def)
  then show u: "(lv_term v, i, lv_candidateIndex v) \<in> U" by simp
  have s: "node_inv c (insert (lv_term v, i, lv_candidateIndex v) V) U W i (storeLocalLastVoteDocument v n)"
    by (rule store_node [OF assms(1) _ assms(3)]) (simp add: u)
  have "task_inv c (insert (lv_term v, i, lv_candidateIndex v) V) U i (writeLastVoteForMyElection v reason n)"
    using t by (simp add: task_inv_def writeLastVoteForMyElection_def)
  then show "node_inv c (insert (lv_term v, i, lv_candidateIndex v) V) U W i (writeLastVoteForMyElection v reason n)"
    using s by (simp add: node_inv_def vote_inv_def writeLastVoteForMyElection_def Let_def)
qed

lemma electable_votes:
  assumes "config_ok c" "i < length (members c)" "isElectable (members c ! i)"
  shows "isVoter (members c ! i)"
  using validated_electable_votes assms by (auto simp: config_ok_def)

lemma ownStored_node:
  assumes "node_inv c V U W i n" "electionTask n = Some (LastVoteWritten v reason)" "lastVoteWritten v reason n = Some n'"
  shows "node_inv c V U W i n'"
proof (cases "nodeTerm n = lv_term v")
  case False
  then show ?thesis using lose_node [OF assms(1)] assms(3) by (simp add: lastVoteWritten_def)
next
  case True
  then obtain la where "startVoteRequester (lv_term v) False la (-1) (OnVoteRequestComplete (lv_term v) reason) n = Some n'"
    using assms(3) by (auto simp: lastVoteWritten_def abort_simps)
  then obtain q where q: "n' = n\<lparr>voteRequester := Some q, electionTask := Some (OnVoteRequestComplete (lv_term v) reason)\<rparr>"
      "runner_start vote_getRequests vote_hasReceivedSufficientResponses
         (newVoteAlgorithm (rsConfig (topCoord n)) (selfIndex (topCoord n)) (lv_term v) False la (-1)) = Some (requesterRunner q)"
    by (rule startVoteRequester_effect)
  have t: "(lv_term v, i, int i) \<in> V" "isElectable (members c ! i)" "rsConfig (topCoord n) = c" "selfIndex (topCoord n) = int i"
    using assms(1,2) by (simp_all add: node_inv_def task_inv_def)
  have "tally c V i (lv_term v) (requesterRunner q)" by (rule tally_start) (use q(2) t(3,4) in simp)
  then have "task_inv c V U i n'" using q(1) t(1,2) by (simp add: task_inv_def)
  then show ?thesis using assms(1) q(1) by (simp add: node_inv_def vote_inv_def Let_def)
qed

text \<open>The requester changes, the rest of the node does not.\<close>

lemma requester_node:
  assumes "node_inv c V U W i n" "voteRequester n = Some q"
    and "\<And>t reason. electionTask n = Some (OnVoteRequestComplete t reason) \<Longrightarrow> tally c V i t (requesterRunner q) \<Longrightarrow> tally c V i t (requesterRunner q')"
  shows "node_inv c V U W i (n\<lparr>voteRequester := Some q'\<rparr>)"
proof -
  have "task_inv c V U i (n\<lparr>voteRequester := Some q'\<rparr>)"
    using assms by (auto simp: node_inv_def task_inv_def split: option.splits ElectionTask.splits)
  then show ?thesis using assms(1) by (simp add: node_inv_def vote_inv_def Let_def)
qed

lemma reply_node:
  assumes "node_inv c V U W i n" "deliverable c V i n h rep" "voteReply h rep n = Some n'"
  shows "node_inv c V U W i n'"
proof (cases "voteRequester n")
  case None
  then show ?thesis using assms by (simp add: voteReply_def)
next
  case (Some q)
  then obtain r where r: "runner_processResponse vote_processResponse vote_hasReceivedSufficientResponses h rep (requesterRunner q) = Some r"
      "n' = n\<lparr>voteRequester := Some (q\<lparr>requesterRunner := r\<rparr>)\<rparr>"
    using assms(3) by (auto simp: voteReply_def abort_simps)
  show ?thesis unfolding r(2)
  proof (rule requester_node [OF assms(1) Some])
    fix t reason assume a: "electionTask n = Some (OnVoteRequestComplete t reason)" "tally c V i t (requesterRunner q)"
    have "\<exists>k < length (members c). getHostAndPort (members c ! k) = h \<and> (t, k, int i) \<in> V" if "grants (h, rep)"
      using that a(1) assms(2) by (auto simp: deliverable_def grants_def split: VoteReply.splits)
    then show "tally c V i t (requesterRunner (q\<lparr>requesterRunner := r\<rparr>))" using tally_reply [OF a(2) r(1)] by simp
  qed
qed

lemma cancel_node:
  assumes "node_inv c V U W i n" "cancelElectionIfNeeded_inlock n = Some n'"
  shows "node_inv c V U W i n'"
proof (cases "role (topCoord n) = kCandidate")
  case True
  then obtain q where q: "voteRequester n = Some q"
      "n' = n\<lparr>voteRequester := Some (q\<lparr>isCanceled := True, requesterRunner := runner_signal (requesterRunner q)\<rparr>)\<rparr>"
    using assms(2) by (auto simp: cancelElectionIfNeeded_inlock_def split: option.splits)
  show ?thesis unfolding q(2) by (rule requester_node [OF assms(1) q(1)]) (simp add: tally_signal)
qed (use assms in \<open>simp add: cancelElectionIfNeeded_inlock_def\<close>)

lemma finish_node:
  assumes "node_inv c V U W i n" "electionTask n = Some (OnVoteRequestComplete t reason)" "onVoteRequestComplete t now ts n = Some n'"
  shows "node_inv c V U (if role (topCoord n') = kLeader then insert (nodeTerm n', i) W else W) i n'"
    and "role (topCoord n') = kLeader \<Longrightarrow> majorityVoteCount c \<le> int (card (supporters c V (nodeTerm n') i))"
proof -
  have inv: "tc_inv (topCoord n)" using assms(1) by (simp add: node_inv_def)
  have t: "isElectable (members c ! i)" "(t, i, int i) \<in> V" "\<And>q. voteRequester n = Some q \<Longrightarrow> tally c V i t (requesterRunner q)"
    using assms(1,2) by (auto simp: node_inv_def task_inv_def)
  have c: "config_ok c" "i < length (members c)" using node_initialized [OF assms(1)] by auto
  from inv assms(3) have "node_inv c V U (if role (topCoord n') = kLeader then insert (nodeTerm n', i) W else W) i n' \<and>
      (role (topCoord n') = kLeader \<longrightarrow> majorityVoteCount c \<le> int (card (supporters c V (nodeTerm n') i)))"
  proof (cases rule: onVoteRequestComplete_effect)
    case lost
    then show ?thesis using lose_node [OF assms(1)] by simp
  next
    case (won q)
    have "majorityVoteCount c \<le> int (card (supporters c V t i))"
      by (rule tally_quorum [OF c electable_votes [OF c t(1)] t(2) t(3) [OF won(1)] won(4)])
    moreover have "node_inv c V U (insert (nodeTerm n', i) W) i n'"
      using assms(1) won task_inv_None [of n'] by (simp add: node_inv_def vote_inv_def sameVote_def Let_def)
    ultimately show ?thesis using won by simp
  qed
  then show "node_inv c V U (if role (topCoord n') = kLeader then insert (nodeTerm n', i) W else W) i n'"
    "role (topCoord n') = kLeader \<Longrightarrow> majorityVoteCount c \<le> int (card (supporters c V (nodeTerm n') i))" by blast+
qed

lemma vote_node:
  assumes "node_inv c V U W i n" "\<not> (givesVote args r \<and> nodeTerm n < va_term args)" "answerVoteRequest args n = Some (r, n')"
    and "\<forall>t a b. (t, i, a) \<in> V \<union> U \<and> (t, i, b) \<in> V \<union> U \<longrightarrow> a = b"
    and "U' = (if givesVote args r then insert (va_term args, i, va_candidateIndex args) U else U)"
  shows "node_inv c V U' W i n' \<and> (\<forall>t a b. (t, i, a) \<in> V \<union> U' \<and> (t, i, b) \<in> V \<union> U' \<longrightarrow> a = b)"
proof -
  have inv: "tc_inv (topCoord n)" "vote_inv V U i n" "task_inv c V U i n" using assms(1) by (simp_all add: node_inv_def)
  note e = answerVoteRequest_effect [OF inv(1) assms(3)]
  show ?thesis
  proof (cases "givesVote args r")
    case False
    then have "sameVote n n'" "U' = U" using e assms(5) by (auto simp: sameVote_def givesVote_def split: sum.splits if_splits)
    then show ?thesis using quiet_node [OF assms(1), of n'] e assms(4) by simp
  next
    case True
    then obtain resp where r: "r = Inr resp" "vr_voteGranted resp" "\<not> va_dryRun args" by (auto simp: givesVote_def split: sum.splits)
    have v: "nodeTerm n \<le> va_term args" "lv_term (lastVote (topCoord n)) \<noteq> va_term args" "lastVote (topCoord n') = voteOf args" "nodeTerm n' = nodeTerm n"
      and k: "keeps n n'" "sameElection n n'" using e r by auto
    have t: "va_term args = nodeTerm n" using v(1) assms(2) True by simp
    have less: "lv_term (lastVote (topCoord n)) < va_term args" using vote_invD(1) [OF inv(2)] v(2) t by simp
    have U': "U' = insert (va_term args, i, va_candidateIndex args) U" using assms(5) True by simp
    have "vote_inv V U' i n'" unfolding U'
      by (rule vote_inv_cast [OF inv(2) _ less]) (use v t k in \<open>simp_all add: voteOf_def keeps_def\<close>)
    moreover have "task_inv c V U' i n'"
      using task_inv_mono [OF task_inv_same [OF inv(3) k(2)], of V U'] unfolding U' by blast
    ultimately have "node_inv c V U' W i n'" using assms(1) k(1) v(4) by (auto simp: node_inv_def keeps_def)
    then show ?thesis using cast_fresh [OF inv(2) less assms(4), of "va_candidateIndex args"] unfolding U' by blast
  qed
qed

lemma crash_node:
  assumes "node_inv c V U W i n" "startUp (initialCoordinator cr skip supports) c (int i) now lastOp (lastVoteDocument n) = Some n'"
  shows "node_inv c V {u \<in> U. fst (snd u) \<noteq> i} W i n'"
proof -
  have c: "config_ok c" "isInitialized c" "i < length (members c)" using node_initialized [OF assms(1)] assms(1) by (auto simp: node_inv_def)
  note s = startUp_effect [OF assms(2) c]
  have v: "vote_inv V U i n" using assms(1) by (simp add: node_inv_def)
  have "vote_inv V {u \<in> U. fst (snd u) \<noteq> i} i n'"
    by (rule vote_invI) (use s vote_invD [OF v] in auto)
  then show ?thesis using s task_inv_None [of n'] by (simp add: node_inv_def)
qed

text \<open>The same for steps that change one of the sets.\<close>

lemma cluster_inv_unsent:
  assumes "cluster_inv c S" "i < length (members c)" "node_inv c (castVotes S) U (winners S) i n"
    and "\<forall>t a b. (t, i, a) \<in> castVotes S \<union> U \<and> (t, i, b) \<in> castVotes S \<union> U \<longrightarrow> a = b"
    and "\<And>t k a. k \<noteq> i \<Longrightarrow> (t, k, a) \<in> U \<longleftrightarrow> (t, k, a) \<in> unsent S"
  shows "cluster_inv c ((nodeAt S i n)\<lparr>unsent := U\<rparr>)"
proof -
  have "cluster_inv c \<lparr>nodes = (nodes S)(i := n), castVotes = castVotes S, unsent = U, winners = winners S, earlyVotes = earlyVotes S\<rparr>"
    by (rule cluster_inv_step [OF assms(1-3) _ _ _ assms(4)]) (simp_all add: assms(5))
  then show ?thesis by (cases S) simp
qed

lemma cluster_inv_votes:
  assumes "cluster_inv c S" "i < length (members c)" "node_inv c (insert (t, i, a) (castVotes S)) (unsent S) (winners S) i n" "(t, i, a) \<in> unsent S"
  shows "cluster_inv c ((nodeAt S i n)\<lparr>castVotes := insert (t, i, a) (castVotes S)\<rparr>)"
proof -
  have u: "insert (t, i, a) (castVotes S) \<union> unsent S = castVotes S \<union> unsent S" using assms(4) by blast
  have "cluster_inv c \<lparr>nodes = (nodes S)(i := n), castVotes = insert (t, i, a) (castVotes S), unsent = unsent S, winners = winners S, earlyVotes = earlyVotes S\<rparr>"
  proof (rule cluster_inv_step [OF assms(1-3)])
    show "\<forall>s b d. (s, i, b) \<in> insert (t, i, a) (castVotes S) \<union> unsent S \<and> (s, i, d) \<in> insert (t, i, a) (castVotes S) \<union> unsent S \<longrightarrow> b = d"
      unfolding u by (rule cluster_inv_node(2) [OF assms(1,2)])
  qed auto
  then show ?thesis by (cases S) simp
qed

lemma cluster_inv_winners:
  assumes "cluster_inv c S" "i < length (members c)" "node_inv c (castVotes S) (unsent S) W i n" "winners S \<subseteq> W"
    and "\<forall>(t, k) \<in> W - winners S. majorityVoteCount c \<le> int (card (supporters c (castVotes S) t k))"
  shows "cluster_inv c ((nodeAt S i n)\<lparr>winners := W\<rparr>)"
proof -
  have "cluster_inv c \<lparr>nodes = (nodes S)(i := n), castVotes = castVotes S, unsent = unsent S, winners = W, earlyVotes = earlyVotes S\<rparr>"
    by (rule cluster_inv_step [OF assms(1-3) _ assms(4) _ cluster_inv_node(2) [OF assms(1,2)] assms(5)]) simp_all
  then show ?thesis by (cases S) simp
qed

lemma ownVote_self: "(t, k, a) \<in> ownVote i n \<Longrightarrow> k = i"
  by (auto simp: ownVote_def split: option.splits ElectionTask.splits)

lemma early_votes_stay: "cluster_step c S S' \<Longrightarrow> earlyVotes S \<subseteq> earlyVotes S'"
  by (cases rule: cluster_step.cases) auto

lemma cluster_inv_early [simp]: "cluster_inv c (S\<lparr>earlyVotes := E\<rparr>) \<longleftrightarrow> cluster_inv c S"
  by (simp add: cluster_inv_def)

lemma cluster_step_inv:
  assumes "cluster_inv c S" "cluster_step c S S'" "earlyVotes S' = {}"
  shows "cluster_inv c S'"
  using assms(2)
proof cases
  case (topology i e tc)
  note inv = cluster_inv_node(1) [OF assms(1) topology(2)]
  have "tc_inv (topCoord (nodes S i))" "isInitialized (rsConfig (topCoord (nodes S i)))" using inv node_initialized [OF inv] by (simp_all add: node_inv_def)
  then show ?thesis unfolding topology(1)
    using cluster_inv_quiet [OF assms(1) topology(2) quiet_node [OF inv plain_keeps]] topology(3,4) by blast
next
  case (newTerm i t now r n)
  note inv = cluster_inv_node(1) [OF assms(1) newTerm(2)]
  obtain x w where r: "r = (x, w)" by (cases r)
  have "tc_inv (topCoord (nodes S i))" using inv by (simp add: node_inv_def)
  then show ?thesis unfolding newTerm(1)
    using cluster_inv_quiet [OF assms(1) newTerm(2) quiet_node [OF inv]] updateTerm_keeps newTerm(3) unfolding r by blast
next
  case (stepDown i now n)
  note inv = cluster_inv_node(1) [OF assms(1) stepDown(2)]
  have "tc_inv (topCoord (nodes S i))" using inv by (simp add: node_inv_def)
  then show ?thesis unfolding stepDown(1)
    using cluster_inv_quiet [OF assms(1) stepDown(2) quiet_node [OF inv]] stepDownFinish_keeps stepDown(3) by blast
next
  case (stand i w now reason n)
  note inv = cluster_inv_node [OF assms(1) stand(2)]
  have e: "electionStep (nodes S i) n" using stand_step [OF _ stand(3,4)] inv(1) by (simp add: node_inv_def)
  show ?thesis unfolding stand(1)
    by (rule cluster_inv_unsent [OF assms(1) stand(2) election_node [OF inv(1) e inv(2)]]) (auto dest: ownVote_self)
next
  case (dryRunDone i t reason now n)
  note inv = cluster_inv_node [OF assms(1) dryRunDone(2)]
  have e: "electionStep (nodes S i) n" using dryRun_step [OF _ _ dryRunDone(5)] inv(1) dryRunDone(3) by (simp add: node_inv_def)
  show ?thesis unfolding dryRunDone(1)
    by (rule cluster_inv_unsent [OF assms(1) dryRunDone(2) election_node [OF inv(1) e inv(2)]]) (auto dest: ownVote_self)
next
  case (storeOwn i v reason)
  note inv = cluster_inv_node [OF assms(1) storeOwn(2)]
  note o = storeOwn_node [OF inv(1) storeOwn(3) inv(2)]
  show ?thesis unfolding storeOwn(1) by (rule cluster_inv_votes [OF assms(1) storeOwn(2) o])
next
  case (storeOwnFails i v reason n)
  then show ?thesis using cluster_inv_quiet [OF assms(1) _ lose_node [OF cluster_inv_node(1) [OF assms(1)]]] by blast
next
  case (ownStored i v reason n)
  then show ?thesis using cluster_inv_quiet [OF assms(1) _ ownStored_node [OF cluster_inv_node(1) [OF assms(1)]]] by blast
next
  case (reply i h rep n)
  then show ?thesis using cluster_inv_quiet [OF assms(1) _ reply_node [OF cluster_inv_node(1) [OF assms(1)]]] by blast
next
  case (finish i t reason now ts n)
  note inv = cluster_inv_node [OF assms(1) finish(2)]
  note f = finish_node [OF inv(1) finish(3,5)]
  show ?thesis unfolding finish(1) by (rule cluster_inv_winners [OF assms(1) finish(2) f(1)]) (use f(2) in auto)
next
  case (cancel i n)
  then show ?thesis using cluster_inv_quiet [OF assms(1) _ cancel_node [OF cluster_inv_node(1) [OF assms(1)]]] by blast
next
  case (vote i args r n)
  let ?U = "if givesVote args r then insert (va_term args, i, va_candidateIndex args) (unsent S) else unsent S"
  note inv = cluster_inv_node [OF assms(1) vote(2)]
  have "\<not> (givesVote args r \<and> nodeTerm (nodes S i) < va_term args)" using assms(3) unfolding vote(1) by auto
  note v = vote_node [OF inv(1) this vote(3) inv(2) refl]
  have "cluster_inv c ((nodeAt S i n)\<lparr>unsent := ?U\<rparr>)"
    by (rule cluster_inv_unsent [OF assms(1) vote(2) conjunct1 [OF v] conjunct2 [OF v]]) auto
  then show ?thesis unfolding vote(1) by (simp only: cluster_inv_early)
next
  case (storeVote i t a)
  note inv = cluster_inv_node [OF assms(1) storeVote(2)]
  let ?v = "\<lparr>lv_term = t, lv_candidateIndex = a\<rparr>"
  have s: "node_inv c (insert (t, i, a) (castVotes S)) (unsent S) (winners S) i (storeLocalLastVoteDocument ?v (nodes S i))"
    using store_node [OF inv(1) _ inv(2), of ?v] storeVote(3) by simp
  show ?thesis unfolding storeVote(1) by (rule cluster_inv_votes [OF assms(1) storeVote(2) s storeVote(3)])
next
  case (crash i cr skip supports now lastOp n)
  note inv = cluster_inv_node [OF assms(1) crash(2)]
  show ?thesis unfolding crash(1)
    by (rule cluster_inv_unsent [OF assms(1) crash(2) crash_node [OF inv(1) crash(3)]]) (use inv(2) in auto)
qed

lemma cluster_reachable_inv:
  assumes "cluster_reachable c S" "config_ok c" "isInitialized c" "earlyVotes S = {}"
  shows "cluster_inv c S"
  using assms(1,4)
proof induction
  case (init S)
  have "node_inv c {} {} {} i (nodes S i)" if i: "i < length (members c)" for i
  proof -
    obtain cr skip supports now lastOp where "startUp (initialCoordinator cr skip supports) c (int i) now lastOp initialVote = Some (nodes S i)"
      using init(1) [OF i] by blast
    then have "tc_inv (topCoord (nodes S i)) \<and> rsConfig (topCoord (nodes S i)) = c \<and> selfIndex (topCoord (nodes S i)) = int i \<and>
        lastVote (topCoord (nodes S i)) = initialVote \<and> lastVoteDocument (nodes S i) = initialVote \<and> lv_term initialVote \<le> nodeTerm (nodes S i) \<and>
        role (topCoord (nodes S i)) \<noteq> kLeader \<and> electionTask (nodes S i) = None"
      using startUp_effect assms(2,3) i by blast
    then show ?thesis by (simp add: node_inv_def vote_inv_def task_inv_None Let_def)
  qed
  then show ?case using init(2-4) by (simp add: cluster_inv_def one_vote_def)
qed (use cluster_step_inv early_votes_stay in blast)

end
