(* ===== verification/ElectionSafety.thy ===== *)
theory ElectionSafety
  imports ClusterInv
begin

text \<open>
  Election safety of the replica set of \<open>Cluster\<close>, an election of three nodes run step by step, and two sequences of operations
  that the code does not exclude: a double vote during a step-down, which is why the theorems ask that no vote was granted early, and an
  election cancelled too early.
\<close>

subsection \<open>One vote and one leader per term\<close>

text \<open>A node gives at most one vote in a term, through crashes and restarts: of two stored votes of a member in a term, for which a granting answer may have been
  sent, both are for the same candidate; and a vote that a member has granted in memory agrees with them. This holds as long as no member has granted a vote in a term
  it had not reached itself (see \<open>two_votes_in_one_term\<close>).\<close>

theorem one_vote_per_term:
  assumes "cluster_reachable c S" "config_ok c" "isInitialized c" "earlyVotes S = {}"
    and "(t, i, a) \<in> castVotes S \<union> unsent S" "(t, i, b) \<in> castVotes S \<union> unsent S"
  shows "a = b"
  using cluster_reachable_inv [OF assms(1-4)] assms(5,6) unfolding cluster_inv_def one_vote_def by blast

text \<open>(C1) Election safety: in a replica set with a valid configuration, at no time are two nodes leader in the same term, whatever messages are lost, delayed
  or reordered and whichever nodes crash; and whoever is leader has the stored votes of a majority of the voting members for its term. The one condition on the history is that no member has granted a vote in a
  term it had not reached itself: the code does not exclude that while a primary steps down, and then a member can vote twice in one term
  (\<open>two_votes_in_one_term\<close> below), which breaks the safety of elections.\<close>

theorem election_safety:
  assumes "cluster_reachable c S" "earlyVotes S = {}" "config_ok c" "isInitialized c" "majorityVoteCount c = majorityVoteCount (calculateMajorities c)"
    and "i < length (members c)" "role (topCoord (nodes S i)) = kLeader"
  shows "majorityVoteCount c \<le> int (card (supporters c (castVotes S) (nodeTerm (nodes S i)) i)) \<and>
    (\<forall>j < length (members c). role (topCoord (nodes S j)) = kLeader \<and> nodeTerm (nodes S j) = nodeTerm (nodes S i) \<longrightarrow> j = i)"
proof -
  have inv: "cluster_inv c S" by (rule cluster_reachable_inv [OF assms(1,3,4,2)])
  have quorum: "majorityVoteCount c \<le> int (card (supporters c (castVotes S) (nodeTerm (nodes S k)) k))"
    if k: "k < length (members c)" "role (topCoord (nodes S k)) = kLeader" for k
  proof -
    have "(nodeTerm (nodes S k), k) \<in> winners S" using cluster_inv_node(1) [OF inv k(1)] k(2) by (simp add: node_inv_def)
    then show ?thesis using inv by (auto simp: cluster_inv_def)
  qed
  have "j = i" if j: "j < length (members c)" "role (topCoord (nodes S j)) = kLeader" "nodeTerm (nodes S j) = nodeTerm (nodes S i)" for j
  proof -
    obtain k where "(nodeTerm (nodes S i), k, int i) \<in> castVotes S" "(nodeTerm (nodes S i), k, int j) \<in> castVotes S"
      using supporters_overlap [OF assms(3,5) quorum [OF assms(6,7)] quorum [OF j(1,2), unfolded j(3)]] by metis
    then have "int j = int i" using inv unfolding cluster_inv_def one_vote_def by blast
    then show ?thesis by simp
  qed
  then show ?thesis using quorum [OF assms(6,7)] by blast
qed

subsection \<open>An election, and a double vote\<close>

text \<open>Three nodes start; the first stands for election, stores its vote, and wins with the vote of the second.\<close>

definition sample3 :: ReplSetConfig where
  "sample3 = sampleConfig 1 [1, 2, 3]"

abbreviation sampleOp :: OpTimeAndWallTime where
  "sampleOp \<equiv> \<lparr>opTime = OpTime (Timestamp 5 1) 0, wallTime = 7\<rparr>"

definition started :: "nat \<Rightarrow> ReplicationCoordinator" where
  "started i = the (startUp (initialCoordinator RoleNone False True) sample3 (int i) 1 sampleOp initialVote)"

definition topologyEvent :: "TopologyEvent \<Rightarrow> ReplicationCoordinator \<Rightarrow> ReplicationCoordinator" where
  "topologyEvent e n = n\<lparr>topCoord := the (tc_apply e (topCoord n))\<rparr>"

definition electable0 :: ReplicationCoordinator where
  "electable0 = topologyEvent (HeartbeatAnswered 3 1 (sampleHost 2) (Inr (stateOnlyResponse RS_SECONDARY)))
     (topologyEvent (SendHeartbeat 2 ''rs0'' (sampleHost 2)) (topologyEvent (SetFollowerMode RS_SECONDARY) (started 0)))"

definition candidate0 :: ReplicationCoordinator where
  "candidate0 = the (startElectSelfIfEligibleV1 0 9 kStepUpRequestSkipDryRun electable0)"

definition ownVoteStored0 :: ReplicationCoordinator where
  "ownVoteStored0 = writeLastVoteForMyElection \<lparr>lv_term = 1, lv_candidateIndex = 0\<rparr> kStepUpRequestSkipDryRun candidate0"

definition requesting0 :: ReplicationCoordinator where
  "requesting0 = the (lastVoteWritten \<lparr>lv_term = 1, lv_candidateIndex = 0\<rparr> kStepUpRequestSkipDryRun ownVoteStored0)"

definition informed1 :: ReplicationCoordinator where
  "informed1 = snd (the (updateTerm_inlock 1 9 (started 1)))"

definition voted1 :: ReplicationCoordinator where
  "voted1 = snd (the (answerVoteRequest (sampleVoteArgs 1 0 False) informed1))"

definition stored1 :: ReplicationCoordinator where
  "stored1 = storeLocalLastVoteDocument \<lparr>lv_term = 1, lv_candidateIndex = 0\<rparr> voted1"

definition elected0 :: ReplicationCoordinator where
  "elected0 = the (voteReply (sampleHost 2) (yesVote 1) requesting0)"

definition leader0 :: ReplicationCoordinator where
  "leader0 = the (onVoteRequestComplete 1 11 (Timestamp 6 0) elected0)"

lemma the_step: "x \<noteq> None \<Longrightarrow> x = Some (the x)"
  by auto

lemma sample_run:
  "startUp (initialCoordinator RoleNone False True) sample3 0 1 sampleOp initialVote \<noteq> None"
  "startUp (initialCoordinator RoleNone False True) sample3 1 1 sampleOp initialVote \<noteq> None"
  "startUp (initialCoordinator RoleNone False True) sample3 2 1 sampleOp initialVote \<noteq> None"
  "startElectSelfIfEligibleV1 0 9 kStepUpRequestSkipDryRun electable0 \<noteq> None"
  "electionTask electable0 = None"
  "electionTask candidate0 = Some (WriteLastVote \<lparr>lv_term = 1, lv_candidateIndex = 0\<rparr> kStepUpRequestSkipDryRun)"
  "lastVoteWritten \<lparr>lv_term = 1, lv_candidateIndex = 0\<rparr> kStepUpRequestSkipDryRun ownVoteStored0 \<noteq> None"
  "updateTerm_inlock 1 9 (started 1) \<noteq> None"
  "nodeTerm informed1 = 1"
  "map_option fst (answerVoteRequest (sampleVoteArgs 1 0 False) informed1) = Some (Inr \<lparr>vr_term = 1, vr_voteGranted = True\<rparr>)"
  "electionTask requesting0 = Some (OnVoteRequestComplete 1 kStepUpRequestSkipDryRun)"
  "voteReply (sampleHost 2) (yesVote 1) requesting0 \<noteq> None"
  "requesterFinished elected0"
  "electionTask elected0 = Some (OnVoteRequestComplete 1 kStepUpRequestSkipDryRun)"
  "onVoteRequestComplete 1 11 (Timestamp 6 0) elected0 \<noteq> None"
  "role (topCoord leader0) = kLeader" "nodeTerm leader0 = 1"
  by code_simp+

abbreviation sampleCluster :: "ReplicationCoordinator \<Rightarrow> ReplicationCoordinator \<Rightarrow> cast set \<Rightarrow> cast set \<Rightarrow> (int \<times> nat) set \<Rightarrow> Cluster" where
  "sampleCluster a b V U W \<equiv> \<lparr>nodes = started(0 := a, 1 := b), castVotes = V, unsent = U, winners = W, earlyVotes = {}\<rparr>"

lemma sampleCluster_nodes: "nodes (sampleCluster a b V U W) 0 = a" "nodes (sampleCluster a b V U W) (Suc 0) = b"
  by simp_all

lemma sampleCluster_upd:
  "(started(0 := a, Suc 0 := b))(0 := n) = started(0 := n, Suc 0 := b)" "(started(0 := a, Suc 0 := b))(Suc 0 := n) = started(0 := a, Suc 0 := n)"
  by (simp_all add: fun_eq_iff)

lemma sample3_length: "length (members sample3) = 3"
  by code_simp

lemma sample_start: "cluster_reachable sample3 (sampleCluster (started 0) (started 1) {} {} {})"
proof (rule cluster_reachable.init)
  fix i assume "i < length (members sample3)"
  then consider "i = 0" | "i = 1" | "i = 2" using sample3_length by linarith
  then have "startUp (initialCoordinator RoleNone False True) sample3 (int i) 1 sampleOp initialVote = Some (started i)"
    unfolding started_def by cases (simp_all add: sample_run(1-3) [THEN the_step, symmetric] del: One_nat_def)
  moreover have "nodes (sampleCluster (started 0) (started 1) {} {} {}) i = started i" by simp
  ultimately show "\<exists>cr skip supports now lastOp. startUp (initialCoordinator cr skip supports) sample3 (int i) now lastOp initialVote =
      Some (nodes (sampleCluster (started 0) (started 1) {} {} {}) i)" by metis
qed simp_all

lemma sample_topology:
  assumes "cluster_reachable sample3 (sampleCluster a b V U W)" "plainEvent e" "tc_enabled e (topCoord a)" "tc_apply e (topCoord a) \<noteq> None"
  shows "cluster_reachable sample3 (sampleCluster (topologyEvent e a) b V U W)"
proof -
  have "tc_step (topCoord (nodes (sampleCluster a b V U W) 0)) e (the (tc_apply e (topCoord a)))"
    using assms(3) the_step [OF assms(4)] by (simp add: tc_step_iff)
  from cluster_reachable.step [OF assms(1) cluster_step.topology [OF _ assms(2) this]]
  show ?thesis by (simp add: topologyEvent_def sampleCluster_upd sample3_length)
qed

lemma sample_events:
  "tc_enabled (SetFollowerMode RS_SECONDARY) (topCoord (started 0))" "tc_apply (SetFollowerMode RS_SECONDARY) (topCoord (started 0)) \<noteq> None"
  "tc_apply (SendHeartbeat 2 ''rs0'' (sampleHost 2)) (topCoord (topologyEvent (SetFollowerMode RS_SECONDARY) (started 0))) \<noteq> None"
  "tc_enabled (HeartbeatAnswered 3 1 (sampleHost 2) (Inr (stateOnlyResponse RS_SECONDARY)))
     (topCoord (topologyEvent (SendHeartbeat 2 ''rs0'' (sampleHost 2)) (topologyEvent (SetFollowerMode RS_SECONDARY) (started 0))))"
  "tc_apply (HeartbeatAnswered 3 1 (sampleHost 2) (Inr (stateOnlyResponse RS_SECONDARY)))
     (topCoord (topologyEvent (SendHeartbeat 2 ''rs0'' (sampleHost 2)) (topologyEvent (SetFollowerMode RS_SECONDARY) (started 0)))) \<noteq> None"
  "getHostAndPort (members sample3 ! 1) = sampleHost 2"
  by code_simp+

lemma sample_candidate: "cluster_reachable sample3 (sampleCluster requesting0 (started 1) {(1, 0, 0)} {(1, 0, 0)} {})"
proof -
  have 1: "cluster_reachable sample3 (sampleCluster electable0 (started 1) {} {} {})"
    unfolding electable0_def
    by (rule sample_topology [OF sample_topology [OF sample_topology [OF sample_start _ sample_events(1,2)] _ _ sample_events(3)] _ sample_events(4,5)]) simp_all
  have own: "ownVote 0 candidate0 = {(1, 0, 0)}" by (simp add: ownVote_def sample_run)
  have s: "startElectSelfIfEligibleV1 0 9 kStepUpRequestSkipDryRun electable0 = Some candidate0"
    unfolding candidate0_def by (rule the_step [OF sample_run(4)])
  have 2: "cluster_reachable sample3 (sampleCluster candidate0 (started 1) {} {(1, 0, 0)} {})"
    using cluster_reachable.step [OF 1 cluster_step.stand [of 0 sample3 "sampleCluster electable0 (started 1) {} {} {}" 0 9 kStepUpRequestSkipDryRun candidate0]]
      s sample_run(5) by (simp add: sample3_length own sampleCluster_upd)
  have 3: "cluster_reachable sample3 (sampleCluster ownVoteStored0 (started 1) {(1, 0, 0)} {(1, 0, 0)} {})"
    using cluster_reachable.step [OF 2 cluster_step.storeOwn [of 0 sample3 "sampleCluster candidate0 (started 1) {} {(1, 0, 0)} {}"]]
      sample_run(6) by (simp add: sample3_length ownVoteStored0_def sampleCluster_upd)
  have t: "electionTask ownVoteStored0 = Some (LastVoteWritten \<lparr>lv_term = 1, lv_candidateIndex = 0\<rparr> kStepUpRequestSkipDryRun)"
    by (simp add: ownVoteStored0_def writeLastVoteForMyElection_def)
  have w: "lastVoteWritten \<lparr>lv_term = 1, lv_candidateIndex = 0\<rparr> kStepUpRequestSkipDryRun ownVoteStored0 = Some requesting0"
    unfolding requesting0_def by (rule the_step [OF sample_run(7)])
  show ?thesis
    using cluster_reachable.step [OF 3 cluster_step.ownStored [of 0 sample3 "sampleCluster ownVoteStored0 (started 1) {(1, 0, 0)} {(1, 0, 0)} {}"]]
      t w by (simp add: sample3_length sampleCluster_upd)
qed

lemma sample_votes: "cluster_reachable sample3 (sampleCluster requesting0 stored1 {(1, 1, 0), (1, 0, 0)} {(1, 1, 0), (1, 0, 0)} {})"
proof -
  obtain r where u: "updateTerm_inlock 1 9 (started 1) = Some (r, informed1)"
    using the_step [OF sample_run(8)] unfolding informed1_def by (metis prod.collapse)
  have 1: "cluster_reachable sample3 (sampleCluster requesting0 informed1 {(1, 0, 0)} {(1, 0, 0)} {})"
    using cluster_reachable.step [OF sample_candidate cluster_step.newTerm [of 1 sample3 1 9 _ r informed1]] u by (simp add: sample3_length sampleCluster_upd)
  have v: "answerVoteRequest (sampleVoteArgs 1 0 False) informed1 = Some (Inr \<lparr>vr_term = 1, vr_voteGranted = True\<rparr>, voted1)"
    using sample_run(10) unfolding voted1_def by (cases "answerVoteRequest (sampleVoteArgs 1 0 False) informed1") auto
  have 2: "cluster_reachable sample3 (sampleCluster requesting0 voted1 {(1, 0, 0)} {(1, 1, 0), (1, 0, 0)} {})"
    using cluster_reachable.step [OF 1 cluster_step.vote [of 1 sample3 "sampleVoteArgs 1 0 False" _ _ voted1]] v sample_run(9) 
    by (simp add: sample3_length sampleCluster_upd sampleVoteArgs_def givesVote_def)
  show ?thesis
    using cluster_reachable.step [OF 2 cluster_step.storeVote [of 1 sample3 1 0]] by (simp add: sample3_length stored1_def sampleCluster_upd)
qed

lemma sample_leader: "cluster_reachable sample3 (sampleCluster leader0 stored1 {(1, 1, 0), (1, 0, 0)} {(1, 1, 0), (1, 0, 0)} {(1, 0)})"
proof -
  let ?V = "{(1, 1, 0), (1, 0, 0)} :: cast set"
  have h: "getHostAndPort (members sample3 ! 1) = sampleHost 2" by (rule sample_events(6))
  then have d: "deliverable sample3 ?V 0 requesting0 (sampleHost 2) (yesVote 1)"
    by (simp add: sample3_length deliverable_def yesVote_def sample_run(11)) (intro exI [of _ 1], simp)
  have e: "voteReply (sampleHost 2) (yesVote 1) requesting0 = Some elected0" unfolding elected0_def by (rule the_step [OF sample_run(12)])
  have 1: "cluster_reachable sample3 (sampleCluster elected0 stored1 ?V ?V {})"
    using cluster_reachable.step [OF sample_votes cluster_step.reply [of 0 sample3 _ "sampleHost 2" "yesVote 1" elected0]] d e 
    by (simp add: sample3_length sampleCluster_upd)
  have l: "onVoteRequestComplete 1 11 (Timestamp 6 0) elected0 = Some leader0" unfolding leader0_def by (rule the_step [OF sample_run(15)])
  show ?thesis
    using cluster_reachable.step [OF 1 cluster_step.finish [of 0 sample3 _ 1 kStepUpRequestSkipDryRun 11 "Timestamp 6 0" leader0]]
      l sample_run(13,14,16,17) by (simp add: sample3_length sampleCluster_upd)
qed

lemma sample3_ok: "config_ok sample3" "isInitialized sample3" "majorityVoteCount sample3 = majorityVoteCount (calculateMajorities sample3)"
  by code_simp+

theorem one_vote_per_term_witness:
  "\<exists>S. cluster_reachable sample3 S \<and> earlyVotes S = {} \<and> (1, 1, 0) \<in> castVotes S \<and> (\<forall>b. (1, 1, b) \<in> castVotes S \<longrightarrow> b = 0)"
proof -
  let ?S = "sampleCluster leader0 stored1 {(1, 1, 0), (1, 0, 0)} {(1, 1, 0), (1, 0, 0)} {(1, 0)}"
  have v: "(1, 1, 0) \<in> castVotes ?S" by simp
  have "b = 0" if "(1, 1, b) \<in> castVotes ?S" for b
    by (rule one_vote_per_term [OF sample_leader sample3_ok(1,2)]) (use that v in auto)+
  then show ?thesis using sample_leader v by (intro exI [of _ ?S]) simp
qed

theorem election_safety_witness:
  "\<exists>S. cluster_reachable sample3 S \<and> earlyVotes S = {} \<and> role (topCoord (nodes S 0)) = kLeader \<and> nodeTerm (nodes S 0) = 1 \<and>
     2 \<le> card (supporters sample3 (castVotes S) 1 0) \<and> \<not> (role (topCoord (nodes S 1)) = kLeader \<and> nodeTerm (nodes S 1) = 1)"
proof -
  let ?S = "sampleCluster leader0 stored1 {(1, 1, 0), (1, 0, 0)} {(1, 1, 0), (1, 0, 0)} {(1, 0)}"
  have n: "nodes ?S 0 = leader0" by simp
  have m: "majorityVoteCount sample3 = 2" by code_simp
  have "0 < length (members sample3)" "1 < length (members sample3)" by (simp_all add: sample3_length)
  then have "majorityVoteCount sample3 \<le> int (card (supporters sample3 (castVotes ?S) 1 0)) \<and>
      \<not> (role (topCoord (nodes ?S 1)) = kLeader \<and> nodeTerm (nodes ?S 1) = 1)"
    using election_safety [OF sample_leader _ sample3_ok, of 0] sample_run(16,17) unfolding n by fastforce
  then show ?thesis using sample_leader sample_run(16,17) m n by (intro exI [of _ ?S]) simp
qed

text \<open>
  While a primary steps down, its term stays behind. The thread that started the step-down waits for it; a thread that serves another request of a later term meanwhile
  does not, since \<open>_updateTerm_inlock\<close> hands out no event then, and \<open>processReplSetRequestVotes\<close> refuses a second vote only when the
  last one was in the very same term. Requests for terms 2, 3 and 2 again are all granted: two votes in term 2, for members 1 and 3.
\<close>

definition sample5 :: ReplSetConfig where
  "sample5 = sampleConfig 1 [1, 2, 3, 4, 5]"

definition primary5 :: ReplicationCoordinator where
  "primary5 =
     (let n = the (startUp (initialCoordinator RoleNone False True) sample5 0 1 sampleOp initialVote) in
      n\<lparr>topCoord := (topCoord n)\<lparr>role := kLeader, leaderMode := kMaster, currentPrimaryIndex := 0, tc_term := 1\<rparr>\<rparr>)"

definition steppingDown5 :: ReplicationCoordinator where
  "steppingDown5 = snd (the (updateTerm_inlock 4 9 primary5))"

definition serveWithoutWaiting ::
    "ReplSetRequestVotesArgs \<Rightarrow> ReplicationCoordinator \<Rightarrow> (ReplSetRequestVotesResponse StatusWith \<times> ReplicationCoordinator) option" where
  "serveWithoutWaiting args n = do {
     ((_, wait), n1) \<leftarrow> updateTerm_inlock (va_term args) 9 n;
     invariant (\<not> wait);
     answerVoteRequest args n1
   }"

fun serveAll :: "ReplSetRequestVotesArgs list \<Rightarrow> ReplicationCoordinator \<Rightarrow> (ReplSetRequestVotesResponse StatusWith) list option" where
  "serveAll [] n = Some []"
| "serveAll (args # argss) n = do { (r, n1) \<leftarrow> serveWithoutWaiting args n; rs \<leftarrow> serveAll argss n1; Some (r # rs) }"

lemma two_votes_in_one_term:
  "tc_inv (topCoord primary5)"
  "map_option fst (updateTerm_inlock 4 9 primary5) = Some (kTriggerStepDown, True)"
  "serveAll [sampleVoteArgs 2 1 False, sampleVoteArgs 3 2 False, sampleVoteArgs 2 3 False] steppingDown5 =
     Some (replicate 3 (Inr \<lparr>vr_term = 1, vr_voteGranted = True\<rparr>))"
  by code_simp+

text \<open>
  \<open>_cancelElectionIfNeeded_inlock\<close> takes for granted that a candidate has a vote requester. A candidate that skips the dry run has none until
  its own vote is stored: a reconfiguration that comes in between aborts the process.
\<close>

lemma cancel_before_own_vote_aborts:
  "role (topCoord candidate0) = kCandidate" "cancelElectionIfNeeded_inlock candidate0 = None"
  by code_simp+

end
