(* ===== verification/Sdam.thy ===== *)
theory Sdam
  imports HostAndPorts HeartbeatData
begin

text \<open>
  Server discovery and monitoring, \<^verbatim>\<open>client/sdam/\<close>: what a client knows of the servers of a deployment. A reply to
  the \<^verbatim>\<open>isMaster\<close> command becomes a \<open>ServerDescription\<close>
  (\<^verbatim>\<open>server_description.cpp\<close>); the state machine (\<^verbatim>\<open>topology_state_machine.cpp\<close>) merges it into the
  \<open>TopologyDescription\<close> (\<^verbatim>\<open>topology_description.cpp\<close>), under the mutex of the
  \<open>TopologyManager\<close> (\<^verbatim>\<open>topology_manager.cpp\<close>).

  A reply is the record of the fields the code reads, by the accessor it reads them with; a field that is there with
  another type is \<open>Malformed\<close>. An exception is an error value, a failed \<open>invariant\<close> is \<open>None\<close>. The pointer from a description
  to its topology and the identity of a topology are left out.
\<close>

subsection \<open>Types\<close>

datatype TopologyType = kSingle | kReplicaSetNoPrimary | kReplicaSetWithPrimary | kSharded | kTopologyUnknown

datatype ServerType = kStandalone | kMongos | kRSPrimary | kRSSecondary | kRSArbiter | kRSOther | kRSGhost | kServerUnknown

fun serverTypeToString :: "ServerType \<Rightarrow> string" where
  "serverTypeToString kStandalone = ''Standalone''"
| "serverTypeToString kMongos = ''Mongos''"
| "serverTypeToString kRSPrimary = ''RSPrimary''"
| "serverTypeToString kRSSecondary = ''RSSecondary''"
| "serverTypeToString kRSArbiter = ''RSArbiter''"
| "serverTypeToString kRSOther = ''RSOther''"
| "serverTypeToString kRSGhost = ''RSGhost''"
| "serverTypeToString kServerUnknown = ''Unknown''"

definition parseServerType :: "string \<Rightarrow> ServerType StatusWith" where
  "parseServerType s =
     (if s = ''Standalone'' then Inr kStandalone
      else if s = ''Mongos'' then Inr kMongos
      else if s = ''RSPrimary'' then Inr kRSPrimary
      else if s = ''RSSecondary'' then Inr kRSSecondary
      else if s = ''RSArbiter'' then Inr kRSArbiter
      else if s = ''RSOther'' then Inr kRSOther
      else if s = ''RSGhost'' then Inr kRSGhost
      else if s = ''PossiblePrimary'' \<or> s = ''Unknown'' then Inr kServerUnknown
      else Inl InvalidServerType)"

fun topologyTypeToString :: "TopologyType \<Rightarrow> string" where
  "topologyTypeToString kReplicaSetNoPrimary = ''ReplicaSetNoPrimary''"
| "topologyTypeToString kReplicaSetWithPrimary = ''ReplicaSetWithPrimary''"
| "topologyTypeToString kSharded = ''Sharded''"
| "topologyTypeToString kTopologyUnknown = ''Unknown''"
| "topologyTypeToString kSingle = ''Single''"

definition parseTopologyType :: "string \<Rightarrow> TopologyType StatusWith" where
  "parseTopologyType s =
     (if s = ''ReplicaSetNoPrimary'' then Inr kReplicaSetNoPrimary
      else if s = ''ReplicaSetWithPrimary'' then Inr kReplicaSetWithPrimary
      else if s = ''Sharded'' then Inr kSharded
      else if s = ''Unknown'' then Inr kTopologyUnknown
      else if s = ''Single'' then Inr kSingle
      else Inl InvalidTopologyType)"

lemma type_names_roundtrip:
  "parseServerType (serverTypeToString t) = Inr t" "parseTopologyType (topologyTypeToString u) = Inr u"
  by (cases t; simp add: parseServerType_def) (cases u; simp add: parseTopologyType_def)

record TopologyVersion =
  tv_processId :: OID
  tv_counter :: int

subsection \<open>Configuration\<close>

record SdamConfiguration =
  seedList :: "HostAndPort list option"
  initialType :: TopologyType
  heartbeatFrequency :: int
  connectionTimeout :: int
  localThreshold :: int
  sdamSetName :: "string option"

definition kMinHeartbeatFrequency :: int where
  "kMinHeartbeatFrequency = 500"

text \<open>The checks of the constructor, in their order. The second dereferences the seed list of a \<open>Single\<close> topology.\<close>

definition checkSdamConfiguration :: "SdamConfiguration \<Rightarrow> SdamConfiguration StatusWith option" where
  "checkSdamConfiguration c =
     (if seedList c = Some [] then Some (Inl InvalidSeedList)
      else if initialType c = kSingle \<and> seedList c = None then None
      else if initialType c = kSingle \<and> length (the (seedList c)) \<noteq> 1 then Some (Inl InvalidSeedList)
      else if sdamSetName c \<noteq> None \<and> initialType c \<noteq> kReplicaSetNoPrimary \<and> initialType c \<noteq> kSingle
        then Some (Inl InvalidTopologyType)
      else if initialType c = kReplicaSetNoPrimary \<and> sdamSetName c = None then Some (Inl TopologySetNameRequired)
      else if heartbeatFrequency c < kMinHeartbeatFrequency then Some (Inl InvalidHeartBeatFrequency)
      else Some (Inr c))"

subsection \<open>Server descriptions\<close>

record IsMasterResponse =
  r_ok :: int
  r_setName :: "string field"
  r_msg :: "string field"
  r_isreplicaset :: bool
  r_hidden :: bool
  r_ismaster :: bool
  r_secondary :: bool
  r_arbiterOnly :: bool
  r_minWireVersion :: int
  r_maxWireVersion :: int
  r_lastWriteDate :: "Date_t field"
  r_opTimeTs :: "Timestamp field"
  r_opTimeTerm :: "int field"
  r_me :: "string field"
  r_hosts :: "string field list field"
  r_passives :: "string field list field"
  r_arbiters :: "string field list field"
  r_tags :: "(string \<times> string field) list"
  r_electionId :: "OID field"
  r_logicalSessionTimeoutMinutes :: "int field"
  r_setVersion :: "int field"
  r_primary :: "string field"

text \<open>The outcome of an attempt: a reply, or the error message of a failure.\<close>

record IsMasterOutcome =
  out_server :: HostAndPort
  out_response :: "IsMasterResponse option"
  out_errorMsg :: string
  out_rtt :: "int option"
  out_topologyVersion :: "TopologyVersion option"

record ServerDescription =
  sd_address :: HostAndPort
  sd_topologyVersion :: "TopologyVersion option"
  sd_error :: "string option"
  sd_rtt :: "int option"
  sd_lastWriteDate :: "Date_t option"
  sd_opTime :: "OpTime option"
  sd_type :: ServerType
  sd_minWireVersion :: int
  sd_maxWireVersion :: int
  sd_me :: "HostAndPort option"
  sd_hosts :: "HostAndPort list"
  sd_passives :: "HostAndPort list"
  sd_arbiters :: "HostAndPort list"
  sd_tags :: "(string \<times> string) list"
  sd_setName :: "string option"
  sd_setVersion :: "int option"
  sd_electionId :: "OID option"
  sd_primary :: "HostAndPort option"
  sd_lastUpdateTime :: Date_t
  sd_logicalSessionTimeoutMinutes :: "int option"

definition date_min :: Date_t where
  "date_min = - (2 ^ 63)"

definition unknownServer :: "HostAndPort \<Rightarrow> ServerDescription" where
  "unknownServer a = \<lparr>sd_address = a, sd_topologyVersion = None, sd_error = None, sd_rtt = None, sd_lastWriteDate = None,
     sd_opTime = None, sd_type = kServerUnknown, sd_minWireVersion = 0, sd_maxWireVersion = 0, sd_me = None, sd_hosts = [],
     sd_passives = [], sd_arbiters = [], sd_tags = [], sd_setName = None, sd_setVersion = None, sd_electionId = None,
     sd_primary = None, sd_lastUpdateTime = date_min, sd_logicalSessionTimeoutMinutes = None\<rparr>"

definition hasField :: "'a field \<Rightarrow> bool" where
  "hasField f \<longleftrightarrow> f \<noteq> Missing"

definition fieldOption :: "'a field \<Rightarrow> 'a option" where
  "fieldOption f = (case f of Present a \<Rightarrow> Some a | _ \<Rightarrow> None)"

text \<open>\<open>str()\<close> and \<open>getStringField\<close> give the empty string for an element that is no string.\<close>

definition stringField :: "string field \<Rightarrow> string" where
  "stringField f = (case f of Present s \<Rightarrow> s | _ \<Rightarrow> '''')"

definition kIsDbGrid :: string where
  "kIsDbGrid = ''isdbgrid''"

definition parseTypeFromIsMaster :: "IsMasterResponse \<Rightarrow> ServerType" where
  "parseTypeFromIsMaster r =
     (let hasSetName = hasField (r_setName r)
      in if r_ok r \<noteq> 1 then kServerUnknown
         else if \<not> hasSetName \<and> \<not> hasField (r_msg r) \<and> \<not> r_isreplicaset r then kStandalone
         else if kIsDbGrid = stringField (r_msg r) then kMongos
         else if hasSetName \<and> r_hidden r then kRSOther
         else if hasSetName \<and> r_ismaster r then kRSPrimary
         else if hasSetName \<and> r_secondary r then kRSSecondary
         else if hasSetName \<and> r_arbiterOnly r then kRSArbiter
         else if hasSetName then kRSOther
         else if r_isreplicaset r then kRSGhost
         else kServerUnknown)"

subsubsection \<open>Round-trip times\<close>

text \<open>
  The average is computed in \<^verbatim>\<open>double\<close>s. Every value involved is a multiple of \<open>2 ^ - 54\<close>, so it is kept as an
  integer in that unit; \<open>roundToDouble\<close> rounds to 53 significant bits, to even in a tie. \<open>kRttAlpha\<close> is the double
  nearest to 0.2.
\<close>

definition roundSignificand :: "nat \<Rightarrow> nat" where
  "roundSignificand n =
     (let k = bitLength n - 53; q = n div 2 ^ k; r = n mod 2 ^ k
      in if 2 ^ k < 2 * r \<or> (2 ^ k = 2 * r \<and> odd q) then (q + 1) * 2 ^ k else q * 2 ^ k)"

definition roundToDouble :: "int \<Rightarrow> int" where
  "roundToDouble x = sgn x * int (roundSignificand (nat \<bar>x\<bar>))"

definition kRttAlpha :: int where
  "kRttAlpha = 3602879701896397"

definition weightedRtt :: "int \<Rightarrow> int \<Rightarrow> int" where
  "weightedRtt currentMicros lastMicros =
     (let oneMinusAlpha = roundToDouble (2 ^ 54 - kRttAlpha);
          x = roundToDouble (kRttAlpha * roundToDouble currentMicros);
          y = roundToDouble (oneMinusAlpha * roundToDouble lastMicros);
          z = roundToDouble (x + y)
      in sgn z * (\<bar>z\<bar> div 2 ^ 54))"

definition rtt_max :: int where
  "rtt_max = 2 ^ 63 - 1"

definition calculateRtt :: "int option \<Rightarrow> int option \<Rightarrow> ServerDescription \<Rightarrow> ServerDescription" where
  "calculateRtt currentRtt lastRtt s =
     (if sd_type s = kServerUnknown then s
      else case currentRtt of
        None \<Rightarrow> s\<lparr>sd_rtt := (case lastRtt of None \<Rightarrow> Some rtt_max | Some l \<Rightarrow> Some l)\<rparr>
      | Some c \<Rightarrow>
          s\<lparr>sd_rtt := (case lastRtt of
                       None \<Rightarrow> Some c
                     | Some l \<Rightarrow> if l = rtt_max then Some c else Some (weightedRtt c l))\<rparr>)"

definition cloneWithRTT :: "int \<Rightarrow> ServerDescription \<Rightarrow> ServerDescription" where
  "cloneWithRTT rtt s = calculateRtt (Some rtt) (sd_rtt s) s"

subsubsection \<open>Reading a reply\<close>

definition parseOpTimeFromEntry :: "Timestamp field \<Rightarrow> int field \<Rightarrow> OpTime StatusWith" where
  "parseOpTimeFromEntry ts term =
     ifOK (extractField ts) (\<lambda>t. ifOK (extractWithDefault kUninitializedTerm term) (\<lambda>n. Inr (OpTime t n)))"

definition saveLastWriteInfo :: "IsMasterResponse \<Rightarrow> ServerDescription \<Rightarrow> ServerDescription" where
  "saveLastWriteInfo r s =
     s\<lparr>sd_lastWriteDate := fieldOption (r_lastWriteDate r),
       sd_opTime := (case parseOpTimeFromEntry (r_opTimeTs r) (r_opTimeTerm r) of Inl _ \<Rightarrow> None | Inr t \<Rightarrow> Some t)\<rparr>"

fun insertHosts :: "string field list \<Rightarrow> HostAndPort list \<Rightarrow> HostAndPort list StatusWith" where
  "insertHosts [] hs = Inr hs"
| "insertHosts (e # es) hs =
     ifOK (extractField e) (\<lambda>s. ifOK (parseHostAndPort s) (\<lambda>h. insertHosts es (insertHost h hs)))"

definition storeHostListIfPresent :: "string field list field \<Rightarrow> HostAndPort list StatusWith" where
  "storeHostListIfPresent f =
     (case f of Missing \<Rightarrow> Inr [] | Present es \<Rightarrow> insertHosts es [] | Malformed e \<Rightarrow> Inl e)"

definition saveHosts :: "IsMasterResponse \<Rightarrow> ServerDescription \<Rightarrow> ServerDescription StatusWith" where
  "saveHosts r s =
     ifOK (if hasField (r_me r) then ifOK (parseHostAndPort (stringField (r_me r))) (\<lambda>h. Inr (Some h)) else Inr None)
      (\<lambda>me. ifOK (storeHostListIfPresent (r_hosts r))
      (\<lambda>hosts. ifOK (storeHostListIfPresent (r_passives r))
      (\<lambda>passives. ifOK (storeHostListIfPresent (r_arbiters r))
      (\<lambda>arbiters. Inr (s\<lparr>sd_me := me, sd_hosts := hosts, sd_passives := passives, sd_arbiters := arbiters\<rparr>)))))"

text \<open>The names of the tags in the order of a \<open>std::set\<close>, each with the first value of that name.\<close>

fun insertString :: "string \<Rightarrow> string list \<Rightarrow> string list" where
  "insertString s [] = [s]"
| "insertString s (x # xs) =
     (if string_less s x then s # x # xs else if string_less x s then x # insertString s xs else x # xs)"

definition saveTags :: "(string \<times> string field) list \<Rightarrow> ServerDescription \<Rightarrow> ServerDescription" where
  "saveTags tags s =
     s\<lparr>sd_tags := map (\<lambda>k. (k, case map_of tags k of None \<Rightarrow> '''' | Some f \<Rightarrow> stringField f))
        (fold insertString (map fst tags) [])\<rparr>"

definition saveElectionId :: "OID field \<Rightarrow> ServerDescription \<Rightarrow> ServerDescription" where
  "saveElectionId f s = s\<lparr>sd_electionId := fieldOption f\<rparr>"

text \<open>
  The constructor of a description from an outcome. The assignment of the session timeout is commented out in
  the source: the field of the reply is read and dropped.
\<close>

definition newServerDescription ::
    "Date_t \<Rightarrow> IsMasterOutcome \<Rightarrow> int option \<Rightarrow> TopologyVersion option \<Rightarrow> ServerDescription StatusWith" where
  "newServerDescription now outcome lastRtt tv =
     (let s0 = unknownServer (out_server outcome)
      in case out_response outcome of
           None \<Rightarrow> Inr (s0\<lparr>sd_error := Some (out_errorMsg outcome), sd_topologyVersion := tv\<rparr>)
         | Some r \<Rightarrow>
             let s1 = s0\<lparr>sd_type := parseTypeFromIsMaster r\<rparr>;
                 s2 = calculateRtt (out_rtt outcome) lastRtt s1;
                 s3 = s2\<lparr>sd_lastUpdateTime := now, sd_minWireVersion := r_minWireVersion r,
                         sd_maxWireVersion := r_maxWireVersion r, sd_topologyVersion := tv\<rparr>;
                 s4 = saveLastWriteInfo r s3
             in ifOK (saveHosts r s4)
                 (\<lambda>s5. let s6 = saveElectionId (r_electionId r) (saveTags (r_tags r) s5);
                           s7 = s6\<lparr>sd_setVersion := fieldOption (r_setVersion r), sd_setName := fieldOption (r_setName r)\<rparr>
                       in case r_primary r of
                            Present p \<Rightarrow> ifOK (parseHostAndPort p) (\<lambda>h. Inr (s7\<lparr>sd_primary := Some h\<rparr>))
                          | _ \<Rightarrow> Inr s7))"

text \<open>The fields marked \<open>(=)\<close> in the header.\<close>

definition isEquivalent :: "ServerDescription \<Rightarrow> ServerDescription \<Rightarrow> bool" where
  "isEquivalent a b \<longleftrightarrow>
     (case (sd_topologyVersion a, sd_topologyVersion b) of
        (Some x, Some y) \<Rightarrow> tv_processId x = tv_processId y \<and> tv_counter x = tv_counter y
      | (None, None) \<Rightarrow> True
      | _ \<Rightarrow> False) \<and>
     sd_type a = sd_type b \<and> sd_minWireVersion a = sd_minWireVersion b \<and> sd_maxWireVersion a = sd_maxWireVersion b \<and>
     sd_me a = sd_me b \<and> sd_hosts a = sd_hosts b \<and> sd_passives a = sd_passives b \<and> sd_arbiters a = sd_arbiters b \<and>
     sd_tags a = sd_tags b \<and> sd_setName a = sd_setName b \<and> sd_setVersion a = sd_setVersion b \<and>
     sd_electionId a = sd_electionId b \<and> sd_primary a = sd_primary b \<and>
     sd_logicalSessionTimeoutMinutes a = sd_logicalSessionTimeoutMinutes b"

definition isDataBearingServer :: "ServerDescription \<Rightarrow> bool" where
  "isDataBearingServer s \<longleftrightarrow> sd_type s \<in> {kMongos, kRSPrimary, kRSSecondary, kStandalone}"

subsection \<open>Topology descriptions\<close>

text \<open>The text of the compatibility error is made of the server and of the version it requires.\<close>

datatype WireError = RequiresUpTo HostAndPort int | RequiresAtLeast HostAndPort int

record TopologyDescription =
  td_type :: TopologyType
  td_setName :: "string option"
  td_maxSetVersion :: "int option"
  td_maxElectionId :: "OID option"
  td_servers :: "ServerDescription list"
  td_compatible :: bool
  td_compatibleError :: "WireError option"
  td_logicalSessionTimeoutMinutes :: "int option"

definition localServer :: HostAndPort where
  "localServer = \<lparr>hostname = ''localhost'', port = 27017\<rparr>"

definition newTopologyDescription :: "SdamConfiguration \<Rightarrow> TopologyDescription" where
  "newTopologyDescription c =
     \<lparr>td_type = initialType c, td_setName = sdamSetName c, td_maxSetVersion = None, td_maxElectionId = None,
      td_servers = (case seedList c of None \<Rightarrow> [unknownServer localServer] | Some seeds \<Rightarrow> map unknownServer seeds),
      td_compatible = True, td_compatibleError = None, td_logicalSessionTimeoutMinutes = None\<rparr>"

definition findServers :: "(ServerDescription \<Rightarrow> bool) \<Rightarrow> TopologyDescription \<Rightarrow> ServerDescription list" where
  "findServers P t = filter P (td_servers t)"

definition findServerByAddress :: "HostAndPort \<Rightarrow> TopologyDescription \<Rightarrow> ServerDescription option" where
  "findServerByAddress a t =
     (case findServers (\<lambda>s. sd_address s = a) t of [] \<Rightarrow> None | s # _ \<Rightarrow> Some s)"

definition containsServerAddress :: "HostAndPort \<Rightarrow> TopologyDescription \<Rightarrow> bool" where
  "containsServerAddress a t \<longleftrightarrow> findServerByAddress a t \<noteq> None"

definition BATCH_COMMANDS :: int where
  "BATCH_COMMANDS = 2"

definition LATEST_WIRE_VERSION :: int where
  "LATEST_WIRE_VERSION = 9"

fun wireError :: "ServerDescription list \<Rightarrow> WireError option" where
  "wireError [] = None"
| "wireError (s # ss) =
     (if sd_type s = kServerUnknown then wireError ss
      else if LATEST_WIRE_VERSION < sd_minWireVersion s then Some (RequiresUpTo (sd_address s) (sd_minWireVersion s))
      else if sd_maxWireVersion s < BATCH_COMMANDS then Some (RequiresAtLeast (sd_address s) (sd_maxWireVersion s))
      else wireError ss)"

definition checkWireCompatibilityVersions :: "TopologyDescription \<Rightarrow> TopologyDescription" where
  "checkWireCompatibilityVersions t =
     t\<lparr>td_compatible := (wireError (td_servers t) = None), td_compatibleError := wireError (td_servers t)\<rparr>"

text \<open>The loop over the servers: the minimum so far and whether a data bearing server has been seen; \<open>None\<close> when the
  loop meets such a server without a timeout.\<close>

fun sessionTimeoutLoop :: "int \<Rightarrow> bool \<Rightarrow> ServerDescription list \<Rightarrow> (int \<times> bool) option" where
  "sessionTimeoutLoop m found [] = Some (m, found)"
| "sessionTimeoutLoop m found (s # ss) =
     (if \<not> isDataBearingServer s then sessionTimeoutLoop m found ss
      else case sd_logicalSessionTimeoutMinutes s of
             None \<Rightarrow> None
           | Some x \<Rightarrow> sessionTimeoutLoop (min x m) True ss)"

definition calculateLogicalSessionTimeout :: "TopologyDescription \<Rightarrow> TopologyDescription option" where
  "calculateLogicalSessionTimeout t = do {
     invariant (0 < length (td_servers t));
     Some (t\<lparr>td_logicalSessionTimeoutMinutes :=
       (case sessionTimeoutLoop (2 ^ 31 - 1) False (td_servers t) of
          None \<Rightarrow> None | Some (m, found) \<Rightarrow> if found then Some m else None)\<rparr>) }"

fun putServer :: "ServerDescription \<Rightarrow> ServerDescription list \<Rightarrow> ServerDescription list" where
  "putServer s [] = [s]"
| "putServer s (x # xs) = (if sd_address x = sd_address s then s # xs else x # putServer s xs)"

definition installServerDescription :: "TopologyDescription \<Rightarrow> ServerDescription \<Rightarrow> TopologyDescription option" where
  "installServerDescription t s = do {
     servers \<leftarrow> (if td_type t = kSingle
                 then do { invariant (length (td_servers t) = 1); Some [s] }
                 else Some (putServer s (td_servers t)));
     calculateLogicalSessionTimeout (checkWireCompatibilityVersions (t\<lparr>td_servers := servers\<rparr>)) }"

fun dropServer :: "HostAndPort \<Rightarrow> ServerDescription list \<Rightarrow> ServerDescription list" where
  "dropServer a [] = []"
| "dropServer a (x # xs) = (if sd_address x = a then xs else x # dropServer a xs)"

definition removeServerDescription :: "HostAndPort \<Rightarrow> TopologyDescription \<Rightarrow> TopologyDescription" where
  "removeServerDescription a t = t\<lparr>td_servers := dropServer a (td_servers t)\<rparr>"

definition isPrimary :: "ServerDescription \<Rightarrow> bool" where
  "isPrimary s \<longleftrightarrow> sd_type s = kRSPrimary"

definition getPrimary :: "TopologyDescription \<Rightarrow> ServerDescription option option" where
  "getPrimary t =
     (if td_type t \<noteq> kReplicaSetWithPrimary then Some None
      else do {
        invariant (length (findServers isPrimary t) = 1);
        Some (Some (hd (findServers isPrimary t))) })"

subsection \<open>The state machine\<close>

definition addresses :: "ServerDescription \<Rightarrow> HostAndPort list" where
  "addresses s = sd_hosts s @ sd_passives s @ sd_arbiters s"

fun installUnknown :: "HostAndPort list \<Rightarrow> TopologyDescription \<Rightarrow> TopologyDescription option" where
  "installUnknown [] t = Some t"
| "installUnknown (a # as) t =
     (if containsServerAddress a t then installUnknown as t
      else do { t' \<leftarrow> installServerDescription t (unknownServer a); installUnknown as t' })"

definition addUnknownServers :: "TopologyDescription \<Rightarrow> ServerDescription \<Rightarrow> TopologyDescription option" where
  "addUnknownServers t s = installUnknown (addresses s) t"

definition updateUnknownWithStandalone ::
    "SdamConfiguration \<Rightarrow> TopologyDescription \<Rightarrow> ServerDescription \<Rightarrow> TopologyDescription option" where
  "updateUnknownWithStandalone c t s =
     Some (if \<not> containsServerAddress (sd_address s) t then t
           else if map_option length (seedList c) = Some 1 then t\<lparr>td_type := kSingle\<rparr>
           else removeServerDescription (sd_address s) t)"

definition updateRSWithoutPrimary :: "TopologyDescription \<Rightarrow> ServerDescription \<Rightarrow> TopologyDescription option" where
  "updateRSWithoutPrimary t s =
     (if \<not> containsServerAddress (sd_address s) t then Some t
      else if td_setName t \<noteq> None \<and> td_setName t \<noteq> sd_setName s
        then Some (removeServerDescription (sd_address s) t)
      else do {
        t' \<leftarrow> addUnknownServers (if td_setName t = None then t\<lparr>td_setName := sd_setName s\<rparr> else t) s;
        Some (if sd_me s \<noteq> None \<and> Some (sd_address s) \<noteq> sd_me s
              then removeServerDescription (sd_address s) t' else t') })"

definition checkIfHasPrimary :: "TopologyDescription \<Rightarrow> TopologyDescription" where
  "checkIfHasPrimary t =
     t\<lparr>td_type := (if 0 < length (findServers isPrimary t) then kReplicaSetWithPrimary else kReplicaSetNoPrimary)\<rparr>"

definition removeAndCheckIfHasPrimary :: "TopologyDescription \<Rightarrow> ServerDescription \<Rightarrow> TopologyDescription option" where
  "removeAndCheckIfHasPrimary t s = Some (checkIfHasPrimary (removeServerDescription (sd_address s) t))"

definition updateRSWithPrimaryFromMember :: "TopologyDescription \<Rightarrow> ServerDescription \<Rightarrow> TopologyDescription option" where
  "updateRSWithPrimaryFromMember t s =
     (if \<not> containsServerAddress (sd_address s) t then Some t
      else do {
        invariant (sd_setName s \<noteq> None);
        if td_setName t \<noteq> sd_setName s then removeAndCheckIfHasPrimary t s
        else if sd_me s \<noteq> None \<and> Some (sd_address s) \<noteq> sd_me s then removeAndCheckIfHasPrimary t s
        else Some (if length (findServers isPrimary t) = 0 then t\<lparr>td_type := kReplicaSetNoPrimary\<rparr> else t) })"

text \<open>The comparison that detects a primary of an earlier configuration or election.\<close>

definition stalePrimary :: "TopologyDescription \<Rightarrow> ServerDescription \<Rightarrow> bool" where
  "stalePrimary t s \<longleftrightarrow>
     (case (sd_setVersion s, sd_electionId s, td_maxSetVersion t, td_maxElectionId t) of
        (Some v, Some e, Some maxV, Some maxE) \<Rightarrow> v < maxV \<or> (maxV = v \<and> e < maxE)
      | _ \<Rightarrow> False)"

definition recordElection :: "TopologyDescription \<Rightarrow> ServerDescription \<Rightarrow> TopologyDescription" where
  "recordElection t s =
     (let t1 = (if sd_setVersion s \<noteq> None \<and> sd_electionId s \<noteq> None then t\<lparr>td_maxElectionId := sd_electionId s\<rparr> else t)
      in case sd_setVersion s of
           None \<Rightarrow> t1
         | Some v \<Rightarrow>
             (case td_maxSetVersion t of
                None \<Rightarrow> t1\<lparr>td_maxSetVersion := Some v\<rparr>
              | Some maxV \<Rightarrow> if maxV < v then t1\<lparr>td_maxSetVersion := Some v\<rparr> else t1))"

fun installAll :: "HostAndPort list \<Rightarrow> TopologyDescription \<Rightarrow> TopologyDescription option" where
  "installAll [] t = Some t"
| "installAll (a # as) t = do { t' \<leftarrow> installServerDescription t (unknownServer a); installAll as t' }"

definition updateRSFromPrimary :: "TopologyDescription \<Rightarrow> ServerDescription \<Rightarrow> TopologyDescription option" where
  "updateRSFromPrimary t s =
     (if \<not> containsServerAddress (sd_address s) t then Some t
      else if \<not> (td_setName t = None \<and> sd_setName s \<noteq> None) \<and> td_setName t \<noteq> sd_setName s
        then removeAndCheckIfHasPrimary t s
      else
        let t0 = (if td_setName t = None \<and> sd_setName s \<noteq> None then t\<lparr>td_setName := sd_setName s\<rparr> else t)
        in if stalePrimary t0 s then do {
             t' \<leftarrow> installServerDescription t0 (unknownServer (sd_address s));
             Some (checkIfHasPrimary t') }
           else do {
             let t1 = recordElection t0 s;
             let oldPrimaries = findServers (\<lambda>d. sd_address d \<noteq> sd_address s \<and> isPrimary d) t1;
             invariant (length oldPrimaries \<le> 1);
             t2 \<leftarrow> installAll (map sd_address oldPrimaries) t1;
             t3 \<leftarrow> addUnknownServers t2 s;
             let toRemove = filter (\<lambda>a. a \<notin> set (addresses s)) (map sd_address (td_servers t3));
             Some (checkIfHasPrimary (fold removeServerDescription toRemove t3)) })"

text \<open>The transition table: the action for the type of the topology and that of the server; the default is no action.\<close>

definition transition ::
    "SdamConfiguration \<Rightarrow> TopologyType \<Rightarrow> ServerType \<Rightarrow> TopologyDescription \<Rightarrow> ServerDescription \<Rightarrow> TopologyDescription option" where
  "transition c ty sty t s =
     (case ty of
        kTopologyUnknown \<Rightarrow>
          (if sty = kStandalone then updateUnknownWithStandalone c t s
           else if sty = kMongos then Some (t\<lparr>td_type := kSharded\<rparr>)
           else if sty = kRSPrimary then updateRSFromPrimary (t\<lparr>td_type := kReplicaSetWithPrimary\<rparr>) s
           else if sty \<in> {kRSSecondary, kRSArbiter, kRSOther}
             then updateRSWithoutPrimary (t\<lparr>td_type := kReplicaSetNoPrimary\<rparr>) s
           else Some t)
      | kSharded \<Rightarrow>
          (if sty \<in> {kStandalone, kRSPrimary, kRSSecondary, kRSArbiter, kRSOther, kRSGhost}
           then Some (removeServerDescription (sd_address s) t) else Some t)
      | kReplicaSetNoPrimary \<Rightarrow>
          (if sty \<in> {kStandalone, kMongos} then Some (removeServerDescription (sd_address s) t)
           else if sty = kRSPrimary then updateRSFromPrimary (t\<lparr>td_type := kReplicaSetWithPrimary\<rparr>) s
           else if sty \<in> {kRSSecondary, kRSArbiter, kRSOther} then updateRSWithoutPrimary t s
           else Some t)
      | kReplicaSetWithPrimary \<Rightarrow>
          (if sty \<in> {kServerUnknown, kRSGhost} then Some (checkIfHasPrimary t)
           else if sty = kMongos then removeAndCheckIfHasPrimary t s
           else if sty = kRSPrimary then updateRSFromPrimary t s
           else if sty \<in> {kRSSecondary, kRSArbiter, kRSOther} then updateRSWithPrimaryFromMember t s
           else Some t)
      | kSingle \<Rightarrow> Some t)"

definition onServerDescription ::
    "SdamConfiguration \<Rightarrow> TopologyDescription \<Rightarrow> ServerDescription \<Rightarrow> TopologyDescription option" where
  "onServerDescription c t s =
     (if \<not> containsServerAddress (sd_address s) t then Some t
      else
        let d = (if td_type t \<noteq> kSingle \<and> sd_type s = kStandalone then s\<lparr>sd_type := kServerUnknown\<rparr> else s)
        in do {
          t' \<leftarrow> installServerDescription t d;
          if td_type t' \<noteq> kSingle then transition c (td_type t') (sd_type d) t' d else Some t' })"

subsection \<open>The manager\<close>

record TopologyManager =
  tm_config :: SdamConfiguration
  tm_topology :: TopologyDescription
  tm_published :: "(TopologyDescription \<times> TopologyDescription) list"

definition newTopologyManager :: "SdamConfiguration \<Rightarrow> TopologyManager" where
  "newTopologyManager c = \<lparr>tm_config = c, tm_topology = newTopologyDescription c, tm_published = []\<rparr>"

definition isStaleTopologyVersion :: "TopologyVersion option \<Rightarrow> TopologyVersion option \<Rightarrow> bool" where
  "isStaleTopologyVersion lastTv newTv \<longleftrightarrow>
     (case (lastTv, newTv) of
        (Some l, Some n) \<Rightarrow> tv_processId l = tv_processId n \<and> tv_counter n < tv_counter l
      | _ \<Rightarrow> False)"

text \<open>A change is published to the listener with the description before it and the one after it.\<close>

definition publish :: "TopologyDescription \<Rightarrow> TopologyManager \<Rightarrow> TopologyManager" where
  "publish t m = m\<lparr>tm_topology := t, tm_published := tm_published m @ [(tm_topology m, t)]\<rparr>"

text \<open>An exception of the constructor of the description leaves the manager unchanged.\<close>

definition manager_onServerDescription ::
    "Date_t \<Rightarrow> IsMasterOutcome \<Rightarrow> TopologyManager \<Rightarrow> (bool StatusWith \<times> TopologyManager) option" where
  "manager_onServerDescription now outcome m =
     (let old = tm_topology m;
          lastServer = findServerByAddress (out_server outcome) old;
          lastRtt = Option.bind lastServer sd_rtt;
          lastTv = Option.bind lastServer sd_topologyVersion;
          newTv = out_topologyVersion outcome
      in if isStaleTopologyVersion lastTv newTv then Some (Inr False, m)
         else case newServerDescription now outcome lastRtt newTv of
           Inl e \<Rightarrow> Some (Inl e, m)
         | Inr s \<Rightarrow> do {
             t \<leftarrow> (case lastServer of
                    Some l \<Rightarrow> if isEquivalent l s then installServerDescription old s else onServerDescription (tm_config m) old s
                  | None \<Rightarrow> onServerDescription (tm_config m) old s);
             Some (Inr True, publish t m) })"

definition onServerRTTUpdated :: "HostAndPort \<Rightarrow> int \<Rightarrow> TopologyManager \<Rightarrow> TopologyManager option" where
  "onServerRTTUpdated a rtt m =
     (case findServerByAddress a (tm_topology m) of
        None \<Rightarrow> Some m
      | Some s \<Rightarrow> do {
          t \<leftarrow> installServerDescription (tm_topology m) (cloneWithRTT rtt s);
          Some (publish t m) })"

end
