(* ===== verification/SdamProps.thy ===== *)
theory SdamProps
  imports Sdam "HOL-Library.Option_ord"
begin

text \<open>
  What a client may rely on: from a checked configuration, whatever the servers answer, the topology stays well formed, no
  fatal assertion of the state machine fires, there is at most one primary, and a primary of an earlier configuration or
  election does not displace a later one.
\<close>

subsection \<open>Lists of servers\<close>

lemma address_unknownServer [simp]: "sd_address (unknownServer a) = a" and unknown_not_primary [simp]: "\<not> isPrimary (unknownServer a)"
  by (simp_all add: unknownServer_def isPrimary_def)

lemma addresses_putServer:
  "map sd_address (putServer s xs) =
     (if sd_address s \<in> sd_address ` set xs then map sd_address xs else map sd_address xs @ [sd_address s])"
  by (induction xs) auto

lemma set_putServer:
  "distinct (map sd_address xs) \<Longrightarrow> set (putServer s xs) = insert s {x \<in> set xs. sd_address x \<noteq> sd_address s}"
  by (induction xs) (auto, (metis image_eqI)+)

lemma putServer_not_Nil [simp]: "putServer s xs \<noteq> []"
  by (cases xs) auto

lemma addresses_dropServer: "map sd_address (dropServer a xs) = remove1 a (map sd_address xs)"
  by (induction xs) auto

lemma set_dropServer:
  "distinct (map sd_address xs) \<Longrightarrow> set (dropServer a xs) = {x \<in> set xs. sd_address x \<noteq> a}"
  by (induction xs) (auto, (metis image_eqI)+)

lemma contains_iff: "containsServerAddress a t \<longleftrightarrow> a \<in> sd_address ` set (td_servers t)"
proof -
  have "containsServerAddress a t \<longleftrightarrow> filter (\<lambda>s. sd_address s = a) (td_servers t) \<noteq> []"
    by (simp add: containsServerAddress_def findServerByAddress_def findServers_def split: list.split)
  also have "\<dots> \<longleftrightarrow> a \<in> sd_address ` set (td_servers t)"
    by (auto simp: filter_empty_conv)
  finally show ?thesis .
qed

lemma find_by_address: "findServerByAddress a t = Some s \<Longrightarrow> s \<in> set (td_servers t) \<and> sd_address s = a"
  by (auto simp: findServerByAddress_def findServers_def filter_eq_Cons_iff split: list.splits)

lemma length_le_1: "distinct xs \<Longrightarrow> (\<And>a b. a \<in> set xs \<Longrightarrow> b \<in> set xs \<Longrightarrow> a = b) \<Longrightarrow> length xs \<le> 1"
  by (metis One_nat_def card_le_Suc0_iff_eq distinct_card List.finite_set)

subsection \<open>The invariant\<close>

definition prims :: "TopologyDescription \<Rightarrow> ServerDescription set" where
  "prims t = {s \<in> set (td_servers t). isPrimary s}"

definition apart :: "TopologyDescription \<Rightarrow> bool" where
  "apart t \<longleftrightarrow> distinct (map sd_address (td_servers t))"

definition one_primary :: "TopologyDescription \<Rightarrow> bool" where
  "one_primary t \<longleftrightarrow> (\<forall>p\<in>prims t. \<forall>q\<in>prims t. p = q)"

definition type_ok :: "TopologyDescription \<Rightarrow> bool" where
  "type_ok t \<longleftrightarrow> (td_type t = kReplicaSetWithPrimary \<longleftrightarrow> prims t \<noteq> {})"

definition epoch_ok :: "TopologyDescription \<Rightarrow> bool" where
  "epoch_ok t \<longleftrightarrow> (td_maxElectionId t \<noteq> None \<longrightarrow> td_maxSetVersion t \<noteq> None)"

definition sdam_inv :: "TopologyDescription \<Rightarrow> bool" where
  "sdam_inv t \<longleftrightarrow> apart t \<and> epoch_ok t \<and>
     (if td_type t = kSingle then length (td_servers t) = 1 else one_primary t \<and> type_ok t)"

text \<open>The pair of the largest set version and the election within it, in lexicographic order.\<close>

definition epoch_le :: "TopologyDescription \<Rightarrow> TopologyDescription \<Rightarrow> bool" where
  "epoch_le t t' \<longleftrightarrow> td_maxSetVersion t < td_maxSetVersion t' \<or>
     (td_maxSetVersion t = td_maxSetVersion t' \<and> td_maxElectionId t \<le> td_maxElectionId t')"

definition same_epoch :: "TopologyDescription \<Rightarrow> TopologyDescription \<Rightarrow> bool" where
  "same_epoch t t' \<longleftrightarrow> td_maxSetVersion t' = td_maxSetVersion t \<and> td_maxElectionId t' = td_maxElectionId t"

lemma same_epochD:
  assumes "same_epoch t t'"
  shows "epoch_le t t'" "epoch_ok t' = epoch_ok t" "stalePrimary t' = stalePrimary t"
  using assms by (auto simp: same_epoch_def epoch_le_def epoch_ok_def stalePrimary_def fun_eq_iff)

lemma distinct_servers: "apart t \<Longrightarrow> distinct (td_servers t)"
  by (simp add: apart_def distinct_map)

lemma apart_eq: "apart t \<Longrightarrow> p \<in> set (td_servers t) \<Longrightarrow> q \<in> set (td_servers t) \<Longrightarrow> sd_address p = sd_address q \<Longrightarrow> p = q"
  by (simp add: apart_def distinct_map inj_on_def)

subsection \<open>Installing and removing\<close>

text \<open>What the steps of the state machine that only replace or remove descriptions leave as it was.\<close>

definition frame :: "TopologyDescription \<Rightarrow> TopologyDescription \<Rightarrow> bool" where
  "frame t t' \<longleftrightarrow> td_type t' = td_type t \<and> td_setName t' = td_setName t \<and> same_epoch t t' \<and> apart t'"

lemma frame_refl: "apart t \<Longrightarrow> frame t t"
  by (simp add: frame_def same_epoch_def)

lemma frame_trans: "frame t t1 \<Longrightarrow> frame t1 t2 \<Longrightarrow> frame t t2"
  by (simp add: frame_def same_epoch_def)

lemma install_single:
  assumes "td_type t = kSingle" "length (td_servers t) = 1"
  obtains t' where "installServerDescription t s = Some t'" "td_type t' = kSingle" "td_servers t' = [s]" "same_epoch t t'"
  using assms
  by (simp add: installServerDescription_def calculateLogicalSessionTimeout_def checkWireCompatibilityVersions_def same_epoch_def)

lemma install_ok:
  assumes "td_type t \<noteq> kSingle" "apart t"
  obtains t' where "installServerDescription t s = Some t'" "frame t t'"
    "set (td_servers t') = insert s {x \<in> set (td_servers t). sd_address x \<noteq> sd_address s}"
    "prims t' = {p \<in> prims t. sd_address p \<noteq> sd_address s} \<union> {p. p = s \<and> isPrimary s}"
proof -
  let ?xs = "putServer s (td_servers t)"
  obtain t' where t': "installServerDescription t s = Some t'" and servers: "td_servers t' = ?xs"
    and same: "td_type t' = td_type t" "td_setName t' = td_setName t" "same_epoch t t'"
    using assms(1)
    by (simp add: installServerDescription_def calculateLogicalSessionTimeout_def checkWireCompatibilityVersions_def same_epoch_def)
  have "distinct (map sd_address ?xs)"
    using assms(2) by (simp add: addresses_putServer apart_def)
  with servers same have "frame t t'" by (simp add: frame_def apart_def)
  moreover have set: "set (td_servers t') = insert s {x \<in> set (td_servers t). sd_address x \<noteq> sd_address s}"
    using assms(2) servers by (simp add: set_putServer apart_def)
  moreover have "prims t' = {p \<in> prims t. sd_address p \<noteq> sd_address s} \<union> {p. p = s \<and> isPrimary s}"
    by (auto simp: prims_def set)
  ultimately show thesis using t' that by blast
qed

lemma remove_ok:
  assumes "apart t"
  shows "frame t (removeServerDescription a t)"
    and "set (td_servers (removeServerDescription a t)) = {x \<in> set (td_servers t). sd_address x \<noteq> a}"
    and "prims (removeServerDescription a t) = {p \<in> prims t. sd_address p \<noteq> a}"
  using assms
  by (auto simp: frame_def same_epoch_def apart_def prims_def removeServerDescription_def addresses_dropServer set_dropServer)

lemma remove_all_ok:
  assumes "apart t"
  shows "frame t (fold removeServerDescription as t) \<and>
    prims (fold removeServerDescription as t) = {p \<in> prims t. sd_address p \<notin> set as}"
  using assms
proof (induction as arbitrary: t)
  case (Cons a as)
  note r = remove_ok [OF Cons.prems, of a]
  have "apart (removeServerDescription a t)" using r(1) by (simp add: frame_def)
  from Cons.IH [OF this] r(1,3) show ?case by (auto intro: frame_trans)
qed (simp add: frame_refl)

lemma installAll_ok:
  assumes "td_type t \<noteq> kSingle" "apart t"
  obtains t' where "installAll as t = Some t'" "frame t t'" "prims t' = {p \<in> prims t. sd_address p \<notin> set as}"
  using assms
proof (induction as arbitrary: t thesis)
  case Nil
  then show ?case by (simp add: frame_refl)
next
  case (Cons a as)
  obtain t1 where t1: "installServerDescription t (unknownServer a) = Some t1" "frame t t1"
    "prims t1 = {p \<in> prims t. sd_address p \<noteq> a}"
    by (rule install_ok [OF Cons.prems(2,3), of "unknownServer a"]) simp
  have "td_type t1 \<noteq> kSingle" "apart t1" using t1(2) Cons.prems(2) by (auto simp: frame_def)
  then obtain t2 where t2: "installAll as t1 = Some t2" "frame t1 t2" "prims t2 = {p \<in> prims t1. sd_address p \<notin> set as}"
    by (rule Cons.IH [rotated])
  show ?case
  proof (rule Cons.prems(1))
    show "installAll (a # as) t = Some t2" using t1(1) t2(1) by simp
    show "frame t t2" using t1(2) t2(2) by (rule frame_trans)
    show "prims t2 = {p \<in> prims t. sd_address p \<notin> set (a # as)}" using t1(3) t2(3) by auto
  qed
qed

lemma installUnknown_ok:
  assumes "td_type t \<noteq> kSingle" "apart t"
  obtains t' where "installUnknown as t = Some t'" "frame t t'" "prims t' = prims t"
  using assms
proof (induction as arbitrary: t thesis)
  case Nil
  then show ?case by (simp add: frame_refl)
next
  case (Cons a as)
  show ?case
  proof (cases "containsServerAddress a t")
    case True
    obtain t' where "installUnknown as t = Some t'" "frame t t'" "prims t' = prims t" by (rule Cons.IH [OF _ Cons.prems(2,3)])
    with True show ?thesis using Cons.prems(1) by simp
  next
    case False
    obtain t1 where t1: "installServerDescription t (unknownServer a) = Some t1" "frame t t1"
      "prims t1 = {p \<in> prims t. sd_address p \<noteq> a}"
      by (rule install_ok [OF Cons.prems(2,3), of "unknownServer a"]) simp
    have "prims t1 = prims t" using t1(3) False by (auto simp: contains_iff prims_def)
    moreover have "td_type t1 \<noteq> kSingle" "apart t1" using t1(2) Cons.prems(2) by (auto simp: frame_def)
    then obtain t2 where "installUnknown as t1 = Some t2" "frame t1 t2" "prims t2 = prims t1" by (rule Cons.IH [rotated])
    ultimately show ?thesis using Cons.prems(1) [of t2] False t1 by (simp add: frame_trans [OF t1(2)])
  qed
qed

subsection \<open>The actions\<close>

text \<open>
  What every action guarantees on a topology that is not \<open>Single\<close>, for the description \<open>d\<close> it was called with: the result
  is well formed, the epoch has not gone back, and its primary is one of before, or \<open>d\<close> when that is not stale.
\<close>

definition acted :: "TopologyDescription \<Rightarrow> ServerDescription \<Rightarrow> TopologyDescription \<Rightarrow> bool" where
  "acted t d t' \<longleftrightarrow> sdam_inv t' \<and> td_type t' \<noteq> kSingle \<and> epoch_le t t' \<and>
     (\<forall>p\<in>prims t'. (p \<in> prims t \<and> sd_address p \<noteq> sd_address d) \<or> (p = d \<and> \<not> stalePrimary t d))"

lemma actedI:
  assumes "apart t'" "epoch_ok t'" "one_primary t'" "type_ok t'" "td_type t' \<noteq> kSingle" "epoch_le t t'"
    and "\<And>p. p \<in> prims t' \<Longrightarrow> (p \<in> prims t \<and> sd_address p \<noteq> sd_address d) \<or> (p = d \<and> \<not> stalePrimary t d)"
  shows "acted t d t'"
  using assms by (simp add: acted_def sdam_inv_def)

text \<open>The topology the action starts from: \<open>d\<close> has been installed in \<open>t\<close>.\<close>

definition installed :: "TopologyDescription \<Rightarrow> ServerDescription \<Rightarrow> TopologyDescription \<Rightarrow> bool" where
  "installed t d t1 \<longleftrightarrow> apart t1 \<and> same_epoch t t1 \<and> epoch_ok t \<and> d \<in> set (td_servers t1) \<and>
     (\<forall>p\<in>prims t. \<forall>q\<in>prims t. p = q) \<and> prims t1 = {p \<in> prims t. sd_address p \<noteq> sd_address d} \<union> {p. p = d \<and> isPrimary d}"

lemma installedD:
  assumes "installed t d t1"
  shows "apart t1" "same_epoch t t1" "epoch_ok t1" "containsServerAddress (sd_address d) t1"
    "prims t1 = {p \<in> prims t. sd_address p \<noteq> sd_address d} \<union> {p. p = d \<and> isPrimary d}"
    "\<And>p q. p \<in> prims t \<Longrightarrow> q \<in> prims t \<Longrightarrow> p = q"
  using assms same_epochD(2) [of t t1] unfolding installed_def contains_iff by blast+

lemma installed_cong:
  assumes "installed t d t1" "td_servers t2 = td_servers t1" "same_epoch t1 t2"
  shows "installed t d t2"
  using assms by (auto simp: installed_def apart_def same_epoch_def prims_def)

lemma check_primary:
  shows "td_type (checkIfHasPrimary t) \<noteq> kSingle" "type_ok (checkIfHasPrimary t)" "prims (checkIfHasPrimary t) = prims t"
    "apart (checkIfHasPrimary t) = apart t" "same_epoch t (checkIfHasPrimary t)" "one_primary (checkIfHasPrimary t) = one_primary t"
  by (auto simp: checkIfHasPrimary_def type_ok_def prims_def apart_def same_epoch_def one_primary_def findServers_def filter_empty_conv)

lemma check_ok:
  assumes t: "installed t d t1" and t2: "frame t1 t2" "prims t2 \<subseteq> {p \<in> prims t. sd_address p \<noteq> sd_address d}"
  shows "acted t d (checkIfHasPrimary t2)"
proof (rule actedI)
  have e: "same_epoch t (checkIfHasPrimary t2)"
    using installedD(2) [OF t] t2(1) check_primary(5) [of t2] by (simp add: frame_def same_epoch_def)
  show "epoch_ok (checkIfHasPrimary t2)" using same_epochD(2) [OF e] t by (simp add: installed_def)
  show "epoch_le t (checkIfHasPrimary t2)" by (rule same_epochD(1) [OF e])
  show "one_primary (checkIfHasPrimary t2)"
    using t2(2) installedD(6) [OF t] by (auto simp: check_primary one_primary_def)
  show "apart (checkIfHasPrimary t2)" using t2(1) by (simp add: check_primary frame_def)
qed (use t2(2) in \<open>auto simp: check_primary\<close>)

lemma frame_ok:
  assumes t: "installed t d t1" and t2: "frame t1 t2" "prims t2 \<subseteq> {p \<in> prims t. sd_address p \<noteq> sd_address d}"
    and ty: "td_type t1 \<noteq> kSingle" "td_type t1 \<noteq> kReplicaSetWithPrimary" "prims t = {}"
  shows "acted t d t2"
proof (rule actedI)
  have e: "same_epoch t t2" using installedD(2) [OF t] t2(1) by (simp add: frame_def same_epoch_def)
  show "epoch_ok t2" using same_epochD(2) [OF e] t by (simp add: installed_def)
  show "epoch_le t t2" by (rule same_epochD(1) [OF e])
  show "type_ok t2" "td_type t2 \<noteq> kSingle" using t2 ty by (auto simp: frame_def type_ok_def)
qed (use t2 ty in \<open>auto simp: frame_def one_primary_def\<close>)

lemma remove_primary:
  assumes "installed t d t1"
  shows "frame t1 (removeServerDescription (sd_address d) t1)"
    "prims (removeServerDescription (sd_address d) t1) \<subseteq> {p \<in> prims t. sd_address p \<noteq> sd_address d}"
  using remove_ok [OF installedD(1) [OF assms]] installedD(5) [OF assms] by auto

lemma removeAndCheck_ok:
  assumes "installed t d t1"
  obtains t' where "removeAndCheckIfHasPrimary t1 d = Some t'" "acted t d t'"
  using check_ok [OF assms remove_primary [OF assms]] that by (simp add: removeAndCheckIfHasPrimary_def)

lemma updateRSWithoutPrimary_ok:
  assumes t: "installed t d t1" and d: "\<not> isPrimary d" and ty: "td_type t1 = kReplicaSetNoPrimary" "prims t = {}"
  obtains t' where "updateRSWithoutPrimary t1 d = Some t'" "acted t d t'"
proof -
  have here: "containsServerAddress (sd_address d) t1" by (rule installedD(4) [OF t])
  show thesis
  proof (cases "td_setName t1 \<noteq> None \<and> td_setName t1 \<noteq> sd_setName d")
    case True
    from frame_ok [OF t remove_primary [OF t]] ty have "acted t d (removeServerDescription (sd_address d) t1)" by simp
    with True here that show ?thesis by (simp add: updateRSWithoutPrimary_def)
  next
    case False
    let ?t2 = "if td_setName t1 = None then t1\<lparr>td_setName := sd_setName d\<rparr> else t1"
    have t2: "installed t d ?t2" by (rule installed_cong [OF t]) (auto simp: same_epoch_def)
    have ty2: "td_type ?t2 = kReplicaSetNoPrimary" using ty by simp
    obtain t3 where t3: "addUnknownServers ?t2 d = Some t3" "frame ?t2 t3" "prims t3 = prims ?t2"
      using installUnknown_ok [OF _ installedD(1) [OF t2], of "addresses d"] ty2 unfolding addUnknownServers_def by auto
    have none: "prims ?t2 = {}" using installedD(5) [OF t2] d ty by simp
    have a3: "apart t3" using t3(2) by (simp add: frame_def)
    define t4 where "t4 = (if sd_me d \<noteq> None \<and> Some (sd_address d) \<noteq> sd_me d then removeServerDescription (sd_address d) t3 else t3)"
    have "frame t3 t4" "prims t4 = {}"
      using remove_ok(1,3) [OF a3] frame_refl [OF a3] none t3(3) by (auto simp: t4_def)
    with t3(2) have "acted t d t4" by (intro frame_ok [OF t2]) (auto simp: ty ty2 intro: frame_trans)
    moreover have "updateRSWithoutPrimary t1 d = Some t4"
      using t3(1) False here by (auto simp: updateRSWithoutPrimary_def t4_def)
    ultimately show ?thesis using that by blast
  qed
qed

lemma updateRSWithPrimaryFromMember_ok:
  assumes t: "installed t d t1" and d: "\<not> isPrimary d" "sd_setName d \<noteq> None" and ty: "td_type t1 = kReplicaSetWithPrimary"
  obtains t' where "updateRSWithPrimaryFromMember t1 d = Some t'" "acted t d t'"
proof (cases "td_setName t1 \<noteq> sd_setName d \<or> sd_me d \<noteq> None \<and> Some (sd_address d) \<noteq> sd_me d")
  case True
  obtain t' where "removeAndCheckIfHasPrimary t1 d = Some t'" "acted t d t'" by (rule removeAndCheck_ok [OF t])
  moreover have "updateRSWithPrimaryFromMember t1 d = removeAndCheckIfHasPrimary t1 d"
    using True d(2) installedD(4) [OF t] by (auto simp: updateRSWithPrimaryFromMember_def)
  ultimately show ?thesis using that by simp
next
  case False
  have "updateRSWithPrimaryFromMember t1 d = Some (checkIfHasPrimary t1)"
    using False d(2) installedD(4) [OF t] ty by (auto simp: updateRSWithPrimaryFromMember_def checkIfHasPrimary_def)
  moreover have "acted t d (checkIfHasPrimary t1)"
    using installedD(5) [OF t] d by (intro check_ok [OF t frame_refl [OF installedD(1) [OF t]]]) simp
  ultimately show ?thesis by (rule that)
qed

subsubsection \<open>A reply of a primary\<close>

lemma recordElection_frame:
  "td_type (recordElection t s) = td_type t" "td_setName (recordElection t s) = td_setName t"
  "td_servers (recordElection t s) = td_servers t"
  by (auto simp: recordElection_def Let_def split: option.splits)

lemma recordElection_epoch:
  assumes "epoch_ok t" "\<not> stalePrimary t s"
  shows "epoch_le t (recordElection t s)" "epoch_ok (recordElection t s)"
  using assms
  by (auto simp: recordElection_def epoch_le_def epoch_ok_def stalePrimary_def Let_def split: option.splits if_splits)

lemma epoch_le_same: "epoch_le t t1 \<Longrightarrow> same_epoch t1 t2 \<Longrightarrow> epoch_le t t2"
  by (simp add: epoch_le_def same_epoch_def)

text \<open>The part after the set name and the epoch have been recorded.\<close>

lemma demote_and_prune:
  assumes a: "apart t1" and ty: "td_type t1 \<noteq> kSingle"
    and old: "\<And>p q. p \<in> prims t1 \<Longrightarrow> q \<in> prims t1 \<Longrightarrow> sd_address p \<noteq> sd_address d \<Longrightarrow> sd_address q \<noteq> sd_address d \<Longrightarrow> p = q"
  defines "oldPrimaries \<equiv> findServers (\<lambda>s. sd_address s \<noteq> sd_address d \<and> isPrimary s) t1"
  obtains t2 t3 t4 where "length oldPrimaries \<le> 1" "installAll (map sd_address oldPrimaries) t1 = Some t2"
    "addUnknownServers t2 d = Some t3"
    "t4 = fold removeServerDescription (filter (\<lambda>a. a \<notin> set (addresses d)) (map sd_address (td_servers t3))) t3"
    "frame t1 t4" "prims t4 \<subseteq> {p \<in> prims t1. sd_address p = sd_address d}"
proof -
  have op: "set oldPrimaries = {p \<in> prims t1. sd_address p \<noteq> sd_address d}"
    by (auto simp: oldPrimaries_def findServers_def prims_def)
  have "length oldPrimaries \<le> 1"
  proof (rule length_le_1)
    show "distinct oldPrimaries" using distinct_servers [OF a] by (simp add: oldPrimaries_def findServers_def)
  qed (use op old in auto)
  moreover obtain t2 where t2: "installAll (map sd_address oldPrimaries) t1 = Some t2" "frame t1 t2"
    "prims t2 = {p \<in> prims t1. sd_address p \<notin> set (map sd_address oldPrimaries)}"
    by (rule installAll_ok [OF ty a])
  have "td_type t2 \<noteq> kSingle" "apart t2" using t2(2) ty by (simp_all add: frame_def)
  then obtain t3 where t3: "addUnknownServers t2 d = Some t3" "frame t2 t3" "prims t3 = prims t2"
    unfolding addUnknownServers_def by (rule installUnknown_ok)
  define t4 where "t4 = fold removeServerDescription (filter (\<lambda>a. a \<notin> set (addresses d)) (map sd_address (td_servers t3))) t3"
  have "apart t3" using t3(2) by (simp add: frame_def)
  from remove_all_ok [OF this] have t4: "frame t3 t4" "prims t4 \<subseteq> prims t3" by (auto simp: t4_def)
  have "prims t4 \<subseteq> {p \<in> prims t1. sd_address p = sd_address d}"
    using t4(2) t3(3) t2(3) op by auto
  moreover have "frame t1 t4" using t2(2) t3(2) t4(1) by (meson frame_trans)
  ultimately show thesis using that t2(1) t3(1) t4_def by blast
qed

lemma updateRSFromPrimary_ok:
  assumes t: "installed t d t1" and d: "isPrimary d" and ty: "td_type t1 \<noteq> kSingle"
  obtains t' where "updateRSFromPrimary t1 d = Some t'" "acted t d t'"
proof -
  have here: "containsServerAddress (sd_address d) t1" by (rule installedD(4) [OF t])
  let ?named = "td_setName t1 = None \<and> sd_setName d \<noteq> None"
  show thesis
  proof (cases "\<not> ?named \<and> td_setName t1 \<noteq> sd_setName d")
    case True
    obtain t' where "removeAndCheckIfHasPrimary t1 d = Some t'" "acted t d t'" by (rule removeAndCheck_ok [OF t])
    moreover have "updateRSFromPrimary t1 d = removeAndCheckIfHasPrimary t1 d"
      using True here by (auto simp: updateRSFromPrimary_def)
    ultimately show ?thesis using that by simp
  next
    case False
    define t0 where "t0 = (if ?named then t1\<lparr>td_setName := sd_setName d\<rparr> else t1)"
    have t0: "installed t d t0" by (rule installed_cong [OF t]) (auto simp: t0_def same_epoch_def)
    have ty0: "td_type t0 \<noteq> kSingle" using ty by (simp add: t0_def)
    have stale: "stalePrimary t0 = stalePrimary t" by (rule same_epochD(3) [OF installedD(2) [OF t0]])
    show ?thesis
    proof (cases "stalePrimary t0 d")
      case True
      obtain t2 where t2: "installServerDescription t0 (unknownServer (sd_address d)) = Some t2" "frame t0 t2"
        "prims t2 = {p \<in> prims t0. sd_address p \<noteq> sd_address d}"
        by (rule install_ok [OF ty0 installedD(1) [OF t0], of "unknownServer (sd_address d)"]) simp
      have "acted t d (checkIfHasPrimary t2)"
        using t2(3) installedD(5) [OF t0] by (intro check_ok [OF t0 t2(2)]) auto
      moreover have "updateRSFromPrimary t1 d = Some (checkIfHasPrimary t2)"
        using False True here t2(1) unfolding updateRSFromPrimary_def t0_def [symmetric] Let_def by auto
      ultimately show ?thesis using that by blast
    next
      case fresh: False
      let ?r = "recordElection t0 d"
      note rf = recordElection_frame [of t0 d]
      note re = recordElection_epoch [OF installedD(3) [OF t0] fresh]
      have r: "apart ?r" "prims ?r = prims t0" "td_type ?r \<noteq> kSingle"
        using rf installedD(1) [OF t0] ty0 by (simp_all add: apart_def prims_def)
      have old: "p = q" if "p \<in> prims ?r" "q \<in> prims ?r" "sd_address p \<noteq> sd_address d" "sd_address q \<noteq> sd_address d" for p q
        using that installedD(5,6) [OF t0] r(2) by auto
      let ?old = "findServers (\<lambda>s. sd_address s \<noteq> sd_address d \<and> isPrimary s) ?r"
      obtain t2 t3 t4 where run: "length ?old \<le> 1" "installAll (map sd_address ?old) ?r = Some t2" "addUnknownServers t2 d = Some t3"
        "t4 = fold removeServerDescription (filter (\<lambda>a. a \<notin> set (addresses d)) (map sd_address (td_servers t3))) t3"
        and t4: "frame ?r t4" "prims t4 \<subseteq> {p \<in> prims ?r. sd_address p = sd_address d}"
        by (rule demote_and_prune [OF r(1,3) old])
      have p4: "prims t4 \<subseteq> {d}"
        using t4(2) installedD(5) [OF t0] r(2) by auto
      have same: "same_epoch ?r (checkIfHasPrimary t4)" using t4(1) check_primary(5) [of t4] by (simp add: frame_def same_epoch_def)
      have "epoch_le t0 (checkIfHasPrimary t4)" by (rule epoch_le_same [OF re(1) same])
      then have "epoch_le t (checkIfHasPrimary t4)"
        using installedD(2) [OF t0] by (simp add: epoch_le_def same_epoch_def)
      then have "acted t d (checkIfHasPrimary t4)"
        using p4 re(2) same_epochD(2) [OF same] t4(1) fresh stale
        by (intro actedI) (auto simp: check_primary frame_def one_primary_def)
      moreover have "updateRSFromPrimary t1 d = Some (checkIfHasPrimary t4)"
        using False fresh here run unfolding updateRSFromPrimary_def t0_def [symmetric] Let_def by auto
      ultimately show ?thesis using that by blast
    qed
  qed
qed

subsection \<open>The table\<close>

lemma unchanged_ok:
  assumes t: "installed t d t1" and "\<not> isPrimary d" "td_type t1 \<noteq> kSingle" "td_type t1 \<noteq> kReplicaSetWithPrimary" "prims t = {}"
  shows "acted t d t1"
  using assms installedD(5) [OF t] by (intro frame_ok [OF t frame_refl [OF installedD(1) [OF t]]]) auto

text \<open>A description of a member that names its set.\<close>

definition names_set :: "ServerDescription \<Rightarrow> bool" where
  "names_set d \<longleftrightarrow> (sd_type d \<in> {kRSPrimary, kRSSecondary, kRSArbiter, kRSOther} \<longrightarrow> sd_setName d \<noteq> None)"

lemma transition_unknown:
  assumes t: "installed t d t1" and ty: "td_type t1 = kTopologyUnknown" "prims t = {}" and d: "sd_type d \<noteq> kStandalone"
  obtains t' where "transition c kTopologyUnknown (sd_type d) t1 d = Some t'" "acted t d t'"
proof -
  have w: "installed t d (t1\<lparr>td_type := y\<rparr>)" for y by (rule installed_cong [OF t]) (auto simp: same_epoch_def)
  consider "sd_type d = kMongos" | "isPrimary d" | "sd_type d \<in> {kRSSecondary, kRSArbiter, kRSOther}"
    | "sd_type d \<in> {kServerUnknown, kRSGhost}"
    using d by (cases "sd_type d") (auto simp: isPrimary_def)
  then show thesis
  proof cases
    case 1
    then have "acted t d (t1\<lparr>td_type := kSharded\<rparr>)" by (intro unchanged_ok [OF w]) (auto simp: ty isPrimary_def)
    with 1 that show ?thesis by (simp add: transition_def)
  next
    case 2
    obtain t' where "updateRSFromPrimary (t1\<lparr>td_type := kReplicaSetWithPrimary\<rparr>) d = Some t'" "acted t d t'"
      by (rule updateRSFromPrimary_ok [OF w 2, of kReplicaSetWithPrimary]) auto
    with 2 that show ?thesis by (simp add: transition_def isPrimary_def)
  next
    case 3
    then obtain t' where "updateRSWithoutPrimary (t1\<lparr>td_type := kReplicaSetNoPrimary\<rparr>) d = Some t'" "acted t d t'"
      by (auto intro: updateRSWithoutPrimary_ok [OF w, of kReplicaSetNoPrimary] simp: ty isPrimary_def)
    with 3 that show ?thesis by (auto simp: transition_def)
  next
    case 4
    then have "acted t d t1" by (intro unchanged_ok [OF t]) (auto simp: ty isPrimary_def)
    with 4 that show ?thesis by (auto simp: transition_def)
  qed
qed

lemma transition_sharded:
  assumes t: "installed t d t1" and ty: "td_type t1 = kSharded" "prims t = {}"
  obtains t' where "transition c kSharded (sd_type d) t1 d = Some t'" "acted t d t'"
proof (cases "sd_type d \<in> {kMongos, kServerUnknown}")
  case True
  then have "acted t d t1" by (intro unchanged_ok [OF t]) (auto simp: ty isPrimary_def)
  with True that show ?thesis by (auto simp: transition_def)
next
  case False
  have "acted t d (removeServerDescription (sd_address d) t1)" by (rule frame_ok [OF t remove_primary [OF t]]) (simp_all add: ty)
  with False that show ?thesis by (cases "sd_type d") (auto simp: transition_def)
qed

lemma transition_no_primary:
  assumes t: "installed t d t1" and ty: "td_type t1 = kReplicaSetNoPrimary" "prims t = {}"
  obtains t' where "transition c kReplicaSetNoPrimary (sd_type d) t1 d = Some t'" "acted t d t'"
proof -
  have w: "installed t d (t1\<lparr>td_type := y\<rparr>)" for y by (rule installed_cong [OF t]) (auto simp: same_epoch_def)
  consider "sd_type d \<in> {kStandalone, kMongos}" | "isPrimary d" | "sd_type d \<in> {kRSSecondary, kRSArbiter, kRSOther}"
    | "sd_type d \<in> {kServerUnknown, kRSGhost}"
    by (cases "sd_type d") (auto simp: isPrimary_def)
  then show thesis
  proof cases
    case 1
    have "acted t d (removeServerDescription (sd_address d) t1)" by (rule frame_ok [OF t remove_primary [OF t]]) (simp_all add: ty)
    with 1 that show ?thesis by (auto simp: transition_def)
  next
    case 2
    obtain t' where "updateRSFromPrimary (t1\<lparr>td_type := kReplicaSetWithPrimary\<rparr>) d = Some t'" "acted t d t'"
      by (rule updateRSFromPrimary_ok [OF w 2, of kReplicaSetWithPrimary]) auto
    with 2 that show ?thesis by (simp add: transition_def isPrimary_def)
  next
    case 3
    then obtain t' where "updateRSWithoutPrimary t1 d = Some t'" "acted t d t'"
      by (auto intro: updateRSWithoutPrimary_ok [OF t] simp: ty isPrimary_def)
    with 3 that show ?thesis by (auto simp: transition_def)
  next
    case 4
    then have "acted t d t1" by (intro unchanged_ok [OF t]) (auto simp: ty isPrimary_def)
    with 4 that show ?thesis by (auto simp: transition_def)
  qed
qed

lemma transition_with_primary:
  assumes t: "installed t d t1" and ty: "td_type t1 = kReplicaSetWithPrimary" and d: "sd_type d \<noteq> kStandalone" "names_set d"
  obtains t' where "transition c kReplicaSetWithPrimary (sd_type d) t1 d = Some t'" "acted t d t'"
proof -
  consider "sd_type d \<in> {kServerUnknown, kRSGhost}" | "sd_type d = kMongos" | "isPrimary d"
    | "sd_type d \<in> {kRSSecondary, kRSArbiter, kRSOther}"
    using d(1) by (cases "sd_type d") (auto simp: isPrimary_def)
  then show thesis
  proof cases
    case 1
    then have "acted t d (checkIfHasPrimary t1)"
      using installedD(5) [OF t] by (intro check_ok [OF t frame_refl [OF installedD(1) [OF t]]]) (auto simp: isPrimary_def)
    with 1 that show ?thesis by (auto simp: transition_def)
  next
    case 2
    obtain t' where "removeAndCheckIfHasPrimary t1 d = Some t'" "acted t d t'" by (rule removeAndCheck_ok [OF t])
    with 2 that show ?thesis by (simp add: transition_def)
  next
    case 3
    obtain t' where "updateRSFromPrimary t1 d = Some t'" "acted t d t'" by (rule updateRSFromPrimary_ok [OF t 3]) (simp add: ty)
    with 3 that show ?thesis by (simp add: transition_def isPrimary_def)
  next
    case 4
    then have "\<not> isPrimary d" "sd_setName d \<noteq> None" using d(2) by (auto simp: isPrimary_def names_set_def)
    then obtain t' where "updateRSWithPrimaryFromMember t1 d = Some t'" "acted t d t'"
      by (rule updateRSWithPrimaryFromMember_ok [OF t _ _ ty])
    with 4 that show ?thesis by (auto simp: transition_def)
  qed
qed

subsection \<open>Steps of the topology\<close>

definition step_ok :: "TopologyDescription \<Rightarrow> TopologyDescription \<Rightarrow> bool" where
  "step_ok t t' \<longleftrightarrow> sdam_inv t' \<and> (td_type t' = kSingle \<longleftrightarrow> td_type t = kSingle) \<and> epoch_le t t' \<and>
     (td_type t' \<noteq> kSingle \<longrightarrow>
       (\<forall>p\<in>prims t'. (\<exists>q\<in>prims t. sd_address q = sd_address p) \<or> \<not> stalePrimary t p))"

lemma epoch_le_refl [simp]: "epoch_le t t"
  by (simp add: epoch_le_def)

lemma step_ok_refl: "sdam_inv t \<Longrightarrow> step_ok t t"
  by (auto simp: step_ok_def)

lemma install_single_ok:
  assumes "sdam_inv t" "td_type t = kSingle"
  obtains t' where "installServerDescription t d = Some t'" "td_type t' = kSingle" "step_ok t t'"
proof -
  have l: "length (td_servers t) = 1" using assms by (simp add: sdam_inv_def)
  obtain t' where t': "installServerDescription t d = Some t'" "td_type t' = kSingle" "td_servers t' = [d]" "same_epoch t t'"
    by (rule install_single [OF assms(2) l])
  have "step_ok t t'" using assms t' same_epochD [OF t'(4)] by (simp add: step_ok_def sdam_inv_def apart_def)
  with t'(1,2) show thesis by (rule that)
qed

text \<open>A description of the same type takes the place of the one at its address.\<close>

lemma install_same_ok:
  assumes inv: "sdam_inv t" and s: "findServerByAddress (sd_address d) t = Some s" and ty: "sd_type d = sd_type s"
  obtains t' where "installServerDescription t d = Some t'" "step_ok t t'"
proof (cases "td_type t = kSingle")
  case True
  then show ?thesis using that by (metis install_single_ok [OF inv])
next
  case False
  with inv have t: "apart t" "one_primary t" "type_ok t" "epoch_ok t" by (simp_all add: sdam_inv_def)
  have s: "s \<in> set (td_servers t)" "sd_address s = sd_address d" using find_by_address [OF s] by simp_all
  obtain t' where t': "installServerDescription t d = Some t'" "frame t t'"
    and p: "prims t' = {p \<in> prims t. sd_address p \<noteq> sd_address d} \<union> {p. p = d \<and> isPrimary d}"
    by (rule install_ok [OF False t(1), of d])
  have d: "isPrimary d \<longleftrightarrow> s \<in> prims t" using s ty by (simp add: prims_def isPrimary_def)
  have sole: "prims t = {s}" if "isPrimary d" using that d t(2) by (auto simp: one_primary_def)
  have at: "p = s" if "p \<in> prims t" "sd_address p = sd_address d" for p
    using that s apart_eq [OF t(1), of p s] by (auto simp: prims_def)
  have p': "prims t' = (if isPrimary d then {d} else prims t)"
  proof (cases "isPrimary d")
    case True
    with p sole [OF True] s(2) show ?thesis by auto
  next
    case False
    with d at have "{p \<in> prims t. sd_address p \<noteq> sd_address d} = prims t" by blast
    with False p show ?thesis by simp
  qed
  have "one_primary t'" using t(2) by (simp add: one_primary_def p')
  moreover have "type_ok t'" using t(3) t'(2) sole by (simp add: type_ok_def frame_def p')
  moreover have "\<exists>q\<in>prims t. sd_address q = sd_address r" if "r \<in> prims t'" for r
    using that p' sole s(2) by (cases "isPrimary d") auto
  ultimately have "step_ok t t'"
    using t'(2) False t(4) same_epochD [of t t'] by (simp add: step_ok_def sdam_inv_def frame_def)
  with t'(1) show ?thesis by (rule that)
qed

lemma onServerDescription_ok:
  assumes inv: "sdam_inv t" and s: "names_set s"
  obtains t' where "onServerDescription c t s = Some t'" "step_ok t t'"
proof (cases "containsServerAddress (sd_address s) t")
  case False
  with inv that show ?thesis by (simp add: onServerDescription_def step_ok_refl)
next
  case True
  note here = this
  show ?thesis
  proof (cases "td_type t = kSingle")
    case True
    obtain t' where "installServerDescription t s = Some t'" "td_type t' = kSingle" "step_ok t t'"
      by (rule install_single_ok [OF inv True])
    with True here that show ?thesis by (simp add: onServerDescription_def)
  next
    case False
    with inv have t: "apart t" "one_primary t" "type_ok t" "epoch_ok t" by (simp_all add: sdam_inv_def)
    define d where "d = (if sd_type s = kStandalone then s\<lparr>sd_type := kServerUnknown\<rparr> else s)"
    have d: "sd_type d \<noteq> kStandalone" "names_set d" using s by (auto simp: d_def names_set_def)
    obtain t1 where t1: "installServerDescription t d = Some t1" "frame t t1"
      "set (td_servers t1) = insert d {x \<in> set (td_servers t). sd_address x \<noteq> sd_address d}"
      "prims t1 = {p \<in> prims t. sd_address p \<noteq> sd_address d} \<union> {p. p = d \<and> isPrimary d}"
      by (rule install_ok [OF False t(1), of d])
    have i: "installed t d t1" using t t1(2-4) by (simp add: installed_def frame_def one_primary_def)
    have ty: "td_type t1 = td_type t" using t1(2) by (simp add: frame_def)
    have none: "prims t = {}" if "td_type t \<noteq> kReplicaSetWithPrimary" using that t(3) by (simp add: type_ok_def)
    obtain t' where t': "transition c (td_type t1) (sd_type d) t1 d = Some t'" "acted t d t'"
    proof (cases "td_type t")
      case kReplicaSetNoPrimary
      then have "prims t = {}" using none by simp
      with kReplicaSetNoPrimary show ?thesis using transition_no_primary [OF i] that ty by metis
    next
      case kReplicaSetWithPrimary
      then show ?thesis using transition_with_primary [OF i _ d] that ty by metis
    next
      case kSharded
      then have "prims t = {}" using none by simp
      with kSharded show ?thesis using transition_sharded [OF i] that ty by metis
    next
      case kTopologyUnknown
      then have "prims t = {}" using none by simp
      with kTopologyUnknown show ?thesis using transition_unknown [OF i _ _ d(1)] that ty by metis
    qed (use False in simp)
    have "step_ok t t'" using t'(2) False by (auto simp: step_ok_def acted_def)
    moreover have "onServerDescription c t s = Some t'"
      using here False t1(1) t'(1) ty by (simp add: onServerDescription_def d_def Let_def)
    ultimately show ?thesis using that by blast
  qed
qed

subsection \<open>The manager\<close>

lemma calculateRtt_frame [simp]:
  "sd_address (calculateRtt x y s) = sd_address s" "sd_type (calculateRtt x y s) = sd_type s"
  by (simp_all add: calculateRtt_def split: option.split)

lemma saveHosts_frame:
  assumes "saveHosts r s = Inr s'"
  shows "sd_address s' = sd_address s" "sd_type s' = sd_type s"
proof -
  from assms obtain me hosts passives arbiters
    where "s' = s\<lparr>sd_me := me, sd_hosts := hosts, sd_passives := passives, sd_arbiters := arbiters\<rparr>"
    unfolding saveHosts_def ifOK_Inr by blast
  then show "sd_address s' = sd_address s" "sd_type s' = sd_type s" by simp_all
qed

lemma newServerDescription_failure:
  assumes "newServerDescription now out r tv = Inr s" "out_response out = None"
  shows "sd_address s = out_server out" "sd_type s = kServerUnknown"
  using assms by (auto simp: newServerDescription_def unknownServer_def Let_def)

lemma newServerDescription_reply:
  assumes "newServerDescription now out r tv = Inr s" "out_response out = Some reply"
  shows "sd_address s = out_server out \<and> sd_type s = parseTypeFromIsMaster reply \<and> sd_setName s = fieldOption (r_setName reply)"
proof -
  let ?s4 = "saveLastWriteInfo reply ((calculateRtt (out_rtt out) r ((unknownServer (out_server out))\<lparr>sd_type := parseTypeFromIsMaster reply\<rparr>))
    \<lparr>sd_lastUpdateTime := now, sd_minWireVersion := r_minWireVersion reply, sd_maxWireVersion := r_maxWireVersion reply, sd_topologyVersion := tv\<rparr>)"
  from assms obtain s5 p where s5: "saveHosts reply ?s4 = Inr s5"
    and s: "s = (saveElectionId (r_electionId reply) (saveTags (r_tags reply) s5))
      \<lparr>sd_setVersion := fieldOption (r_setVersion reply), sd_setName := fieldOption (r_setName reply), sd_primary := p\<rparr>"
  proof -
    obtain s5 where s5: "saveHosts reply ?s4 = Inr s5"
      using assms unfolding newServerDescription_def Let_def by (auto split: sum.splits)
    let ?s7 = "(saveElectionId (r_electionId reply) (saveTags (r_tags reply) s5))
      \<lparr>sd_setVersion := fieldOption (r_setVersion reply), sd_setName := fieldOption (r_setName reply)\<rparr>"
    have "(case r_primary reply of Present p \<Rightarrow> ifOK (parseHostAndPort p) (\<lambda>h. Inr (?s7\<lparr>sd_primary := Some h\<rparr>)) | _ \<Rightarrow> Inr ?s7) = Inr s"
      using assms s5 unfolding newServerDescription_def Let_def by simp
    then have "s = ?s7 \<or> (\<exists>h. s = ?s7\<lparr>sd_primary := Some h\<rparr>)" by (cases "r_primary reply") auto
    then have "s = ?s7\<lparr>sd_primary := sd_primary s\<rparr>" by auto
    with s5 that show thesis by blast
  qed
  show ?thesis
    using saveHosts_frame [OF s5] by (simp add: s saveElectionId_def saveTags_def saveLastWriteInfo_def)
qed

text \<open>Servers send the name of their set, where they send one, as a string.\<close>

definition string_set_name :: "IsMasterOutcome \<Rightarrow> bool" where
  "string_set_name out \<longleftrightarrow> (case out_response out of
     None \<Rightarrow> True | Some r \<Rightarrow> (case r_setName r of Malformed _ \<Rightarrow> False | _ \<Rightarrow> True))"

lemma new_description_names_set:
  assumes "newServerDescription now out r tv = Inr s" "string_set_name out"
  shows "names_set s"
proof (cases "out_response out")
  case None
  then show ?thesis using newServerDescription_failure [OF assms(1)] by (simp add: names_set_def)
next
  case (Some reply)
  note f = newServerDescription_reply [OF assms(1) Some]
  have "hasField (r_setName reply)" if "parseTypeFromIsMaster reply \<in> {kRSPrimary, kRSSecondary, kRSArbiter, kRSOther}"
    using that by (auto simp: parseTypeFromIsMaster_def Let_def split: if_splits)
  then show ?thesis
    using f assms(2) Some by (auto simp: names_set_def string_set_name_def hasField_def fieldOption_def split: field.splits)
qed

lemma manager_reply_ok:
  assumes inv: "sdam_inv (tm_topology m)" and s: "string_set_name out"
  obtains result m' where "manager_onServerDescription now out m = Some (result, m')" "step_ok (tm_topology m) (tm_topology m')"
    "tm_config m' = tm_config m"
proof -
  let ?t = "tm_topology m"
  let ?last = "findServerByAddress (out_server out) ?t"
  let ?tv = "out_topologyVersion out"
  show thesis
  proof (cases "isStaleTopologyVersion (Option.bind ?last sd_topologyVersion) ?tv")
    case True
    with inv that show ?thesis by (simp add: manager_onServerDescription_def Let_def step_ok_refl)
  next
    case fresh: False
    show ?thesis
    proof (cases "newServerDescription now out (Option.bind ?last sd_rtt) ?tv")
      case (Inl e)
      with inv fresh that show ?thesis by (simp add: manager_onServerDescription_def Let_def step_ok_refl)
    next
      case (Inr d)
      have d: "sd_address d = out_server out"
        using newServerDescription_failure(1) [OF Inr] newServerDescription_reply [OF Inr] by (cases "out_response out") auto
      let ?next = "case ?last of Some l \<Rightarrow> if isEquivalent l d then installServerDescription ?t d else onServerDescription (tm_config m) ?t d
        | None \<Rightarrow> onServerDescription (tm_config m) ?t d"
      obtain t' where t': "?next = Some t'" "step_ok ?t t'"
      proof (cases "\<exists>l. ?last = Some l \<and> isEquivalent l d")
        case True
        then obtain l where l: "?last = Some l" "isEquivalent l d" by blast
        then have "sd_type d = sd_type l" by (simp add: isEquivalent_def)
        with l d that show ?thesis using install_same_ok [OF inv, of d l] by auto
      next
        case False
        then have "?next = onServerDescription (tm_config m) ?t d" by (auto split: option.split)
        with that show ?thesis using onServerDescription_ok [OF inv new_description_names_set [OF Inr s], of "tm_config m"] by metis
      qed
      from t'(1) Inr fresh have "manager_onServerDescription now out m = Some (Inr True, publish t' m)"
        unfolding manager_onServerDescription_def Let_def by simp
      with t'(2) that show ?thesis by (simp add: publish_def)
    qed
  qed
qed

lemma rtt_update_ok:
  assumes inv: "sdam_inv (tm_topology m)"
  obtains m' where "onServerRTTUpdated a rtt m = Some m'" "step_ok (tm_topology m) (tm_topology m')" "tm_config m' = tm_config m"
proof (cases "findServerByAddress a (tm_topology m)")
  case None
  with inv that show ?thesis by (simp add: onServerRTTUpdated_def step_ok_refl)
next
  case (Some s)
  have "findServerByAddress (sd_address (cloneWithRTT rtt s)) (tm_topology m) = Some s"
    using find_by_address [OF Some] Some by (simp add: cloneWithRTT_def)
  then obtain t' where "installServerDescription (tm_topology m) (cloneWithRTT rtt s) = Some t'" "step_ok (tm_topology m) t'"
    by (rule install_same_ok [OF inv]) (simp add: cloneWithRTT_def)
  with Some that show ?thesis by (simp add: onServerRTTUpdated_def publish_def)
qed

subsection \<open>Histories\<close>

datatype SdamEvent = IsMasterReply Date_t IsMasterOutcome | RttUpdate HostAndPort int

fun sdam_step :: "TopologyManager \<Rightarrow> SdamEvent \<Rightarrow> TopologyManager option" where
  "sdam_step m (IsMasterReply now out) = map_option snd (manager_onServerDescription now out m)"
| "sdam_step m (RttUpdate a rtt) = onServerRTTUpdated a rtt m"

fun event_ok :: "SdamEvent \<Rightarrow> bool" where
  "event_ok (IsMasterReply now out) = string_set_name out"
| "event_ok (RttUpdate a rtt) = True"

text \<open>The initial type is one of the three the header of the configuration allows, or \<open>Sharded\<close>; the seeds are distinct.\<close>

definition initial_ok :: "SdamConfiguration \<Rightarrow> bool" where
  "initial_ok c \<longleftrightarrow> checkSdamConfiguration c = Some (Inr c) \<and> initialType c \<noteq> kReplicaSetWithPrimary \<and>
     (case seedList c of None \<Rightarrow> True | Some seeds \<Rightarrow> distinct seeds)"

inductive sdam_reachable :: "SdamConfiguration \<Rightarrow> TopologyManager \<Rightarrow> bool" for c where
  sdam_start: "initial_ok c \<Longrightarrow> sdam_reachable c (newTopologyManager c)"
| sdam_next: "sdam_reachable c m \<Longrightarrow> event_ok e \<Longrightarrow> sdam_step m e = Some m' \<Longrightarrow> sdam_reachable c m'"

lemma initial_sdam_inv:
  assumes "initial_ok c"
  shows "sdam_inv (newTopologyDescription c)"
proof -
  have "prims (newTopologyDescription c) = {}"
    by (auto simp: prims_def newTopologyDescription_def split: option.splits)
  moreover have "apart (newTopologyDescription c)"
    using assms by (auto simp: initial_ok_def apart_def newTopologyDescription_def comp_def split: option.splits)
  moreover have "length (td_servers (newTopologyDescription c)) = 1" if "initialType c = kSingle"
    using that assms by (auto simp: initial_ok_def checkSdamConfiguration_def newTopologyDescription_def split: option.splits if_splits)
  ultimately show ?thesis
    using assms by (auto simp: sdam_inv_def epoch_ok_def one_primary_def type_ok_def initial_ok_def newTopologyDescription_def)
qed

lemma sdam_step_ok:
  assumes "sdam_inv (tm_topology m)" "event_ok e"
  obtains m' where "sdam_step m e = Some m'" "step_ok (tm_topology m) (tm_topology m')"
proof (cases e)
  case (IsMasterReply now out)
  with assms(2) have "string_set_name out" by simp
  then obtain result m' where "manager_onServerDescription now out m = Some (result, m')" "step_ok (tm_topology m) (tm_topology m')"
    by (rule manager_reply_ok [OF assms(1)])
  with IsMasterReply that show ?thesis by simp
next
  case (RttUpdate a rtt)
  then show ?thesis using that rtt_update_ok [OF assms(1), of a rtt] by auto
qed

lemma sdam_reachable_inv: "sdam_reachable c m \<Longrightarrow> sdam_inv (tm_topology m)"
proof (induction rule: sdam_reachable.induct)
  case sdam_start
  then show ?case by (simp add: newTopologyManager_def initial_sdam_inv)
next
  case (sdam_next m e m')
  obtain m1 where "sdam_step m e = Some m1" "step_ok (tm_topology m) (tm_topology m1)"
    by (rule sdam_step_ok [OF sdam_next.IH sdam_next.hyps(2)])
  with sdam_next.hyps(3) show ?case by (simp add: step_ok_def)
qed

lemma primaries_counted:
  assumes "sdam_inv t" "td_type t \<noteq> kSingle"
  shows "length (findServers isPrimary t) = (if td_type t = kReplicaSetWithPrimary then 1 else 0)"
proof -
  have set: "set (findServers isPrimary t) = prims t" by (auto simp: findServers_def prims_def)
  have "distinct (findServers isPrimary t)" using assms distinct_servers [of t] by (simp add: findServers_def sdam_inv_def)
  then have "length (findServers isPrimary t) \<le> 1"
    by (rule length_le_1) (use assms in \<open>auto simp: set sdam_inv_def one_primary_def\<close>)
  moreover have "findServers isPrimary t = [] \<longleftrightarrow> td_type t \<noteq> kReplicaSetWithPrimary"
    using assms set by (metis sdam_inv_def set_empty type_ok_def)
  ultimately show ?thesis by (cases "findServers isPrimary t") auto
qed

lemma getPrimary_prims:
  assumes "sdam_inv t"
  shows "getPrimary t = Some (Some p) \<longleftrightarrow> td_type t = kReplicaSetWithPrimary \<and> p \<in> prims t"
proof (cases "td_type t = kReplicaSetWithPrimary")
  case True
  with primaries_counted [OF assms] have "length (findServers isPrimary t) = 1" by simp
  then obtain s where s: "findServers isPrimary t = [s]" by (auto simp: length_Suc_conv)
  have "set (findServers isPrimary t) = prims t" by (auto simp: findServers_def prims_def)
  with s have "prims t = {s}" by simp
  with s True show ?thesis by (auto simp: getPrimary_def)
qed (simp add: getPrimary_def)

text \<open>(C25) In every history of replies whose set names are strings or missing, and of round-trip updates, from a checked configuration with distinct seeds and an initial type
  other than \<open>ReplicaSetWithPrimary\<close>, the servers of the topology have distinct addresses, a \<open>Single\<close> topology has exactly one
  server, and any other topology has exactly one primary when its type is \<open>ReplicaSetWithPrimary\<close> and none
  otherwise; and the next such event is handled to its end: no fatal assertion of the state machine or of \<open>getPrimary\<close> fires. A reply whose
  set name is of another type is left out: it can abort the client (\<open>malformed_set_name_aborts\<close>).\<close>

theorem topology_one_primary:
  assumes "sdam_reachable c m" "event_ok e"
  defines "t \<equiv> tm_topology m"
  shows "distinct (map sd_address (td_servers t)) \<and>
    (td_type t = kSingle \<longrightarrow> length (td_servers t) = 1) \<and>
    (td_type t \<noteq> kSingle \<longrightarrow>
      length (findServers isPrimary t) = (if td_type t = kReplicaSetWithPrimary then 1 else 0)) \<and>
    (\<exists>p. getPrimary t = Some p) \<and> (\<exists>m'. sdam_step m e = Some m')"
proof -
  have inv: "sdam_inv t" using assms(1) by (simp add: t_def sdam_reachable_inv)
  obtain m' where "sdam_step m e = Some m'" using sdam_step_ok [OF inv [unfolded t_def] assms(2)] by metis
  moreover have "\<exists>p. getPrimary t = Some p"
    using primaries_counted [OF inv] by (cases "td_type t = kReplicaSetWithPrimary") (simp_all add: getPrimary_def)
  ultimately show ?thesis
    using inv primaries_counted [OF inv] by (simp add: sdam_inv_def apart_def)
qed

text \<open>(C26) The largest set version and the election within it that the topology has recorded never go back,
  lexicographically. A server becomes the primary of the topology only with a set version and an election that are
  not older than the recorded ones: a primary that was deposed, or that is of an earlier configuration, does not
  displace the current one.\<close>

theorem stale_primary_rejected:
  assumes "sdam_reachable c m" "event_ok e" "sdam_step m e = Some m'"
  shows "epoch_le (tm_topology m) (tm_topology m') \<and>
    (\<forall>p. getPrimary (tm_topology m') = Some (Some p) \<and>
        \<not> (\<exists>q. getPrimary (tm_topology m) = Some (Some q) \<and> sd_address q = sd_address p)
      \<longrightarrow> \<not> stalePrimary (tm_topology m) p)"
proof -
  have inv: "sdam_inv (tm_topology m)" using assms(1) by (rule sdam_reachable_inv)
  obtain m1 where "sdam_step m e = Some m1" and ok: "step_ok (tm_topology m) (tm_topology m1)"
    by (rule sdam_step_ok [OF inv assms(2)])
  with assms(3) have ok: "step_ok (tm_topology m) (tm_topology m')" by simp
  then have inv': "sdam_inv (tm_topology m')" by (simp add: step_ok_def)
  have "td_type (tm_topology m) = kReplicaSetWithPrimary" if "prims (tm_topology m) \<noteq> {}" "td_type (tm_topology m) \<noteq> kSingle"
    using that inv by (simp add: sdam_inv_def type_ok_def)
  with ok show ?thesis
    unfolding getPrimary_prims [OF inv] getPrimary_prims [OF inv'] step_ok_def by fastforce
qed

subsection \<open>Concrete histories\<close>

fun sdam_run :: "TopologyManager \<Rightarrow> SdamEvent list \<Rightarrow> TopologyManager option" where
  "sdam_run m [] = Some m"
| "sdam_run m (e # es) = (if event_ok e then do { m' \<leftarrow> sdam_step m e; sdam_run m' es } else None)"

lemma sdam_run_reachable: "sdam_reachable c m \<Longrightarrow> sdam_run m es = Some m' \<Longrightarrow> sdam_reachable c m'"
proof (induction es arbitrary: m)
  case (Cons e es)
  then show ?case by (auto simp: Option.bind_eq_Some_conv split: if_splits intro: sdam_next)
qed simp

definition hostA :: HostAndPort where
  "hostA = \<lparr>hostname = ''a'', port = 1\<rparr>"

definition hostB :: HostAndPort where
  "hostB = \<lparr>hostname = ''b'', port = 1\<rparr>"

definition sampleSdamConfiguration :: SdamConfiguration where
  "sampleSdamConfiguration = \<lparr>seedList = Some [hostA, hostB], initialType = kReplicaSetNoPrimary, heartbeatFrequency = 1000,
     connectionTimeout = 1000, localThreshold = 15, sdamSetName = Some ''rs''\<rparr>"

definition samplePrimaryReply :: "HostAndPort \<Rightarrow> int \<Rightarrow> OID \<Rightarrow> SdamEvent" where
  "samplePrimaryReply a v oid = IsMasterReply 0
     \<lparr>out_server = a, out_response = Some \<lparr>r_ok = 1, r_setName = Present ''rs'', r_msg = Missing, r_isreplicaset = False,
        r_hidden = False, r_ismaster = True, r_secondary = False, r_arbiterOnly = False, r_minWireVersion = 0, r_maxWireVersion = 9,
        r_lastWriteDate = Missing, r_opTimeTs = Missing, r_opTimeTerm = Missing, r_me = Missing,
        r_hosts = Present [Present ''b:1'', Present ''a:1'', Present ''c:1''], r_passives = Missing, r_arbiters = Missing, r_tags = [],
        r_electionId = Present oid, r_logicalSessionTimeoutMinutes = Present 30, r_setVersion = Present v, r_primary = Missing\<rparr>,
      out_errorMsg = '''', out_rtt = None, out_topologyVersion = None\<rparr>"

definition sampleManager :: TopologyManager where
  "sampleManager = the (sdam_run (newTopologyManager sampleSdamConfiguration) [samplePrimaryReply hostA 2 5])"

lemma initial_ok_sample: "initial_ok sampleSdamConfiguration"
  by code_simp

lemma sampleManager_run: "sdam_run (newTopologyManager sampleSdamConfiguration) [samplePrimaryReply hostA 2 5] = Some sampleManager"
proof -
  have "sdam_run (newTopologyManager sampleSdamConfiguration) [samplePrimaryReply hostA 2 5] \<noteq> None" by code_simp
  then show ?thesis by (auto simp: sampleManager_def)
qed

lemma sampleManager_reachable: "sdam_reachable sampleSdamConfiguration sampleManager"
  by (rule sdam_run_reachable [OF sdam_start [OF initial_ok_sample] sampleManager_run])

theorem topology_one_primary_witness:
  "map sd_address (td_servers (tm_topology sampleManager)) = [hostA, hostB, \<lparr>hostname = ''c'', port = 1\<rparr>] \<and>
   length (findServers isPrimary (tm_topology sampleManager)) = 1 \<and>
   (\<exists>m'. sdam_step sampleManager (samplePrimaryReply hostB 1 9) = Some m')"
proof -
  have "event_ok (samplePrimaryReply hostB 1 9)" by code_simp
  note t = topology_one_primary [OF sampleManager_reachable this]
  have "td_type (tm_topology sampleManager) = kReplicaSetWithPrimary" by code_simp
  moreover have "map sd_address (td_servers (tm_topology sampleManager)) = [hostA, hostB, \<lparr>hostname = ''c'', port = 1\<rparr>]" by code_simp
  ultimately show ?thesis using t by simp
qed

text \<open>A primary of set version 1 answers after one of set version 2: it becomes unknown; of the same version with a
  later election, it takes over.\<close>

theorem stale_primary_rejected_witness:
  "\<exists>m1 m2. sdam_step sampleManager (samplePrimaryReply hostB 1 9) = Some m1 \<and>
     sdam_step sampleManager (samplePrimaryReply hostB 2 6) = Some m2 \<and>
     map_option (map_option sd_address) (getPrimary (tm_topology m1)) = Some (Some hostA) \<and>
     map_option (map_option sd_address) (getPrimary (tm_topology m2)) = Some (Some hostB) \<and>
     epoch_le (tm_topology sampleManager) (tm_topology m2) \<and>
     (\<forall>p. getPrimary (tm_topology m2) = Some (Some p) \<longrightarrow> \<not> stalePrimary (tm_topology sampleManager) p)"
proof -
  let ?m1 = "the (sdam_step sampleManager (samplePrimaryReply hostB 1 9))"
  let ?m2 = "the (sdam_step sampleManager (samplePrimaryReply hostB 2 6))"
  have "sdam_step sampleManager (samplePrimaryReply hostB 1 9) \<noteq> None" by code_simp
  then have m1: "sdam_step sampleManager (samplePrimaryReply hostB 1 9) = Some ?m1" by auto
  have "sdam_step sampleManager (samplePrimaryReply hostB 2 6) \<noteq> None" by code_simp
  then have m2: "sdam_step sampleManager (samplePrimaryReply hostB 2 6) = Some ?m2" by auto
  have p1: "map_option (map_option sd_address) (getPrimary (tm_topology ?m1)) = Some (Some hostA)" by code_simp
  have p2: "map_option (map_option sd_address) (getPrimary (tm_topology ?m2)) = Some (Some hostB)" by code_simp
  have p0: "map_option (map_option sd_address) (getPrimary (tm_topology sampleManager)) = Some (Some hostA)" by code_simp
  have ne: "hostA \<noteq> hostB" by code_simp
  have "event_ok (samplePrimaryReply hostB 2 6)" by code_simp
  from stale_primary_rejected [OF sampleManager_reachable this m2] p0 p2 ne
  have "epoch_le (tm_topology sampleManager) (tm_topology ?m2) \<and>
     (\<forall>p. getPrimary (tm_topology ?m2) = Some (Some p) \<longrightarrow> \<not> stalePrimary (tm_topology sampleManager) p)"
    by auto
  with m1 m2 p1 p2 show ?thesis by blast
qed

text \<open>A standalone that answers in a topology of one seed and unknown type is replaced by an unknown server before the table is
  consulted: the transition to \<open>Single\<close> is not taken. A set name that is no string aborts the client once there is a primary. An
  initial topology with a primary has none.\<close>

definition sampleStandalone :: SdamEvent where
  "sampleStandalone = IsMasterReply 0
     \<lparr>out_server = hostA, out_response = Some \<lparr>r_ok = 1, r_setName = Missing, r_msg = Missing, r_isreplicaset = False,
        r_hidden = False, r_ismaster = True, r_secondary = False, r_arbiterOnly = False, r_minWireVersion = 0, r_maxWireVersion = 9,
        r_lastWriteDate = Missing, r_opTimeTs = Missing, r_opTimeTerm = Missing, r_me = Missing,
        r_hosts = Missing, r_passives = Missing, r_arbiters = Missing, r_tags = [], r_electionId = Missing,
        r_logicalSessionTimeoutMinutes = Missing, r_setVersion = Missing, r_primary = Missing\<rparr>,
      out_errorMsg = '''', out_rtt = None, out_topologyVersion = None\<rparr>"

lemma standalone_never_single:
  "map_option (\<lambda>m. (td_type (tm_topology m), map sd_type (td_servers (tm_topology m))))
     (sdam_step (newTopologyManager (sampleSdamConfiguration\<lparr>seedList := Some [hostA], initialType := kTopologyUnknown, sdamSetName := None\<rparr>))
        sampleStandalone) = Some (kTopologyUnknown, [kServerUnknown])"
  by code_simp

lemma malformed_set_name_aborts:
  "sdam_step sampleManager (IsMasterReply 0
     \<lparr>out_server = hostB, out_response = Some \<lparr>r_ok = 1, r_setName = Malformed TypeMismatch, r_msg = Missing, r_isreplicaset = False,
        r_hidden = False, r_ismaster = False, r_secondary = True, r_arbiterOnly = False, r_minWireVersion = 0, r_maxWireVersion = 9,
        r_lastWriteDate = Missing, r_opTimeTs = Missing, r_opTimeTerm = Missing, r_me = Missing,
        r_hosts = Missing, r_passives = Missing, r_arbiters = Missing, r_tags = [], r_electionId = Missing,
        r_logicalSessionTimeoutMinutes = Missing, r_setVersion = Missing, r_primary = Missing\<rparr>,
      out_errorMsg = '''', out_rtt = None, out_topologyVersion = None\<rparr>) = None"
  by code_simp

lemma initial_primary_aborts:
  "checkSdamConfiguration (sampleSdamConfiguration\<lparr>initialType := kReplicaSetWithPrimary, sdamSetName := None\<rparr>) \<noteq> None \<and>
   getPrimary (newTopologyDescription (sampleSdamConfiguration\<lparr>initialType := kReplicaSetWithPrimary, sdamSetName := None\<rparr>)) = None"
  by code_simp

end
