(* ===== verification/SdamSelector.thy ===== *)
theory SdamSelector
  imports SdamProps ReadPreferences "HOL-Library.Multiset"
begin

text \<open>
  Server selection, \<^verbatim>\<open>client/sdam/server_selector.cpp\<close>: which servers of the topology a read or a write may go to, for a read
  preference. Exceptions and fatal assertions both occur, so an operation returns an optional status: \<open>None\<close> is a
  failed assertion, \<open>Inl\<close> an exception.

  The order the random generator puts the servers in is a parameter, a function on lists. The topology of a description is the
  one it is selected from. The difference of two dates is a 64-bit subtraction, which wraps.
\<close>

subsection \<open>Filters\<close>

fun filterO :: "('a \<Rightarrow> bool option) \<Rightarrow> 'a list \<Rightarrow> 'a list option" where
  "filterO P [] = Some []"
| "filterO P (x # xs) = do { b \<leftarrow> P x; ys \<leftarrow> filterO P xs; Some (if b then x # ys else ys) }"

fun filterE :: "('a \<Rightarrow> bool StatusWith) \<Rightarrow> 'a list \<Rightarrow> 'a list StatusWith" where
  "filterE P [] = Inr []"
| "filterE P (x # xs) = ifOK (P x) (\<lambda>b. ifOK (filterE P xs) (\<lambda>ys. Inr (if b then x # ys else ys)))"

subsection \<open>Tags\<close>

fun containsAllTags :: "ServerDescription \<Rightarrow> TagDocument \<Rightarrow> bool StatusWith" where
  "containsAllTags s [] = Inr True"
| "containsAllTags s ((key, f) # tags) =
     (case f of
        Present v \<Rightarrow> if map_of (sd_tags s) key = Some v then containsAllTags s tags else Inr False
      | Missing \<Rightarrow> Inl TypeMismatch
      | Malformed e \<Rightarrow> Inl e)"

fun matchesTags :: "ServerDescription \<Rightarrow> TagSet \<Rightarrow> bool StatusWith" where
  "matchesTags s [] = Inr False"
| "matchesTags s (None # docs) = matchesTags s docs"
| "matchesTags s (Some tags # docs) = ifOK (containsAllTags s tags) (\<lambda>b. if b then Inr True else matchesTags s docs)"

definition filterTags :: "TagSet \<Rightarrow> ServerDescription list \<Rightarrow> ServerDescription list StatusWith" where
  "filterTags tags servers = (if tags = [] then Inr servers else filterE (\<lambda>s. matchesTags s tags) servers)"

subsection \<open>Staleness\<close>

definition wrap64 :: "int \<Rightarrow> int" where
  "wrap64 x = signed_take_bit 63 x"

definition lastWriteOf :: "ServerDescription \<Rightarrow> Date_t" where
  "lastWriteOf s = (case sd_lastWriteDate s of None \<Rightarrow> date_min | Some d \<Rightarrow> d)"

definition calculateStaleness :: "SdamConfiguration \<Rightarrow> TopologyDescription \<Rightarrow> ServerDescription \<Rightarrow> int option" where
  "calculateStaleness c t s =
     (if sd_type s \<noteq> kRSSecondary then Some 0
      else if td_type t = kReplicaSetWithPrimary then do {
        primary \<leftarrow> getPrimary t;
        invariant (primary \<noteq> None);
        Some (wrap64 (wrap64 (wrap64 (sd_lastUpdateTime s - lastWriteOf s) -
                wrap64 (sd_lastUpdateTime (the primary) - lastWriteOf (the primary))) + heartbeatFrequency c)) }
      else if td_type t = kReplicaSetNoPrimary then
        let maxLastWriteDate = fold (\<lambda>x m. if sd_type x = kRSSecondary \<and> m < lastWriteOf x then lastWriteOf x else m) (td_servers t) date_min
        in Some (wrap64 (wrap64 (maxLastWriteDate - lastWriteOf s) + heartbeatFrequency c))
      else Some 0)"

definition recencyFilter ::
    "SdamConfiguration \<Rightarrow> TopologyDescription \<Rightarrow> ReadPreferenceSetting \<Rightarrow> ServerDescription \<Rightarrow> bool option" where
  "recencyFilter c t r s =
     (let caughtUp = (op_isNull (rp_minOpTime r) \<or> (case sd_opTime s of None \<Rightarrow> False | Some o' \<Rightarrow> op_ge o' (rp_minOpTime r)))
      in if rp_maxStalenessSeconds r = 0 then Some caughtUp
         else do {
           staleness \<leftarrow> calculateStaleness c t s;
           Some (caughtUp \<and> staleness \<le> 1000 * rp_maxStalenessSeconds r) })"

definition filterByType ::
    "(ServerType \<Rightarrow> bool) \<Rightarrow> SdamConfiguration \<Rightarrow> TopologyDescription \<Rightarrow> ReadPreferenceSetting \<Rightarrow> ServerDescription list option" where
  "filterByType P c t r = filterO (\<lambda>s. if P (sd_type s) then recencyFilter c t r s else Some False) (td_servers t)"

definition secondaryFilter ::
    "SdamConfiguration \<Rightarrow> TopologyDescription \<Rightarrow> ReadPreferenceSetting \<Rightarrow> ServerDescription list option" where
  "secondaryFilter = filterByType (\<lambda>ty. ty = kRSSecondary)"

definition primaryFilter ::
    "SdamConfiguration \<Rightarrow> TopologyDescription \<Rightarrow> ReadPreferenceSetting \<Rightarrow> ServerDescription list option" where
  "primaryFilter = filterByType (\<lambda>ty. ty = kRSPrimary)"

definition nearestFilter ::
    "SdamConfiguration \<Rightarrow> TopologyDescription \<Rightarrow> ReadPreferenceSetting \<Rightarrow> ServerDescription list option" where
  "nearestFilter = filterByType (\<lambda>ty. ty = kRSPrimary \<or> ty = kRSSecondary)"

definition shardedFilter :: "TopologyDescription \<Rightarrow> ServerDescription list" where
  "shardedFilter t = findServers (\<lambda>s. sd_type s = kMongos) t"

definition IDLE_WRITE_PERIOD :: int where
  "IDLE_WRITE_PERIOD = 10000"

text \<open>\<open>heartbeatParam\<close> is the value of the server parameter \<^verbatim>\<open>sdamHeartBeatFrequencyMs\<close>.\<close>

definition verifyMaxstalenessLowerBound :: "int \<Rightarrow> TopologyDescription \<Rightarrow> int \<Rightarrow> unit StatusWith" where
  "verifyMaxstalenessLowerBound heartbeatParam t maxStalenessSeconds =
     (if (td_type t = kReplicaSetWithPrimary \<or> td_type t = kReplicaSetNoPrimary) \<and>
         1000 * maxStalenessSeconds < heartbeatParam + IDLE_WRITE_PERIOD
      then Inl MaxStalenessOutOfRange else Inr ())"

definition COMMANDS_ACCEPT_WRITE_CONCERN :: int where
  "COMMANDS_ACCEPT_WRITE_CONCERN = 5"

definition verifyMaxstalenessWireVersions :: "TopologyDescription \<Rightarrow> unit StatusWith" where
  "verifyMaxstalenessWireVersions t =
     (if list_all (\<lambda>s. COMMANDS_ACCEPT_WRITE_CONCERN \<le> sd_maxWireVersion s) (td_servers t) then Inr () else Inl IncompatibleServerVersion)"

subsection \<open>Candidates\<close>

definition opTime_less :: "OpTime option \<Rightarrow> OpTime option \<Rightarrow> bool" where
  "opTime_less a b = (case (a, b) of (_, None) \<Rightarrow> False | (None, Some _) \<Rightarrow> True | (Some x, Some y) \<Rightarrow> op_less x y)"

definition maxOpTime :: "ServerDescription list \<Rightarrow> OpTime option" where
  "maxOpTime ss = fold (\<lambda>s m. if opTime_less m (sd_opTime s) then sd_opTime s else m) ss None"

text \<open>When no member has reached the requested optime, the whole setting is replaced by the default one of its mode.\<close>

definition effectiveCriteria :: "TopologyDescription \<Rightarrow> ReadPreferenceSetting \<Rightarrow> ReadPreferenceSetting" where
  "effectiveCriteria t r =
     (if op_isNull (rp_minOpTime r) then r
      else case maxOpTime (findServers (\<lambda>s. sd_type s = kRSPrimary \<or> sd_type s = kRSSecondary) t) of
        None \<Rightarrow> r
      | Some m \<Rightarrow> if op_less m (rp_minOpTime r) then settingForMode (rp_pref r) else r)"

definition tagged :: "TagSet \<Rightarrow> ServerDescription list option \<Rightarrow> ServerDescription list Checked" where
  "tagged tags servers = (case servers of None \<Rightarrow> None | Some ss \<Rightarrow> Some (filterTags tags ss))"

function getCandidateServers ::
    "SdamConfiguration \<Rightarrow> TopologyDescription \<Rightarrow> ReadPreferenceSetting \<Rightarrow> ServerDescription list Checked" where
  "getCandidateServers c t criteria =
     (let r = effectiveCriteria t criteria
      in case rp_pref r of
           Nearest \<Rightarrow> tagged (rp_tags r) (if td_type t \<noteq> kSharded then nearestFilter c t r else Some (shardedFilter t))
         | SecondaryOnly \<Rightarrow> tagged (rp_tags r) (secondaryFilter c t r)
         | PrimaryOnly \<Rightarrow> map_option Inr (primaryFilter c t (settingForMode (rp_pref r)))
         | PrimaryPreferred \<Rightarrow>
             thenC (getCandidateServers c t (settingForMode PrimaryOnly))
              (\<lambda>result. if result \<noteq> [] then Some (Inr result)
                 else thenC (getCandidateServers c t (r\<lparr>rp_pref := SecondaryOnly\<rparr>)) (\<lambda>ss. Some (filterTags (rp_tags r) ss)))
         | SecondaryPreferred \<Rightarrow>
             thenC (getCandidateServers c t (r\<lparr>rp_pref := SecondaryOnly\<rparr>))
              (\<lambda>result. if result \<noteq> [] then Some (filterTags (rp_tags r) result)
                 else getCandidateServers c t (settingForMode PrimaryOnly)))"
  by pat_completeness auto

lemma effectiveCriteria_pref [simp]: "rp_pref (effectiveCriteria t r) = rp_pref r"
  by (simp add: effectiveCriteria_def settingForMode_def split: option.split)

termination getCandidateServers
proof (relation "measure (\<lambda>(c, t, r). if rp_pref r \<in> {PrimaryPreferred, SecondaryPreferred} then 1 else 0)", goal_cases)
qed (auto simp: settingForMode_def)

declare getCandidateServers.simps [simp del]

subsection \<open>The latency window\<close>

definition rtt_less :: "ServerDescription \<Rightarrow> ServerDescription \<Rightarrow> bool" where
  "rtt_less a b \<longleftrightarrow> (case (sd_rtt a, sd_rtt b) of (_, None) \<Rightarrow> False | (None, Some _) \<Rightarrow> True | (Some x, Some y) \<Rightarrow> x < y)"

fun minServer :: "ServerDescription \<Rightarrow> ServerDescription list \<Rightarrow> ServerDescription" where
  "minServer m [] = m"
| "minServer m (s # ss) = minServer (if rtt_less s m then s else m) ss"

text \<open>The threshold is in milliseconds, round-trip times in microseconds.\<close>

definition windowUpper :: "int \<Rightarrow> int \<Rightarrow> int StatusWith" where
  "windowUpper lower windowWidth =
     (if lower = rtt_max then Inr lower
      else if rtt_max < lower + 1000 * windowWidth then Inl DurationOverflow
      else Inr (lower + 1000 * windowWidth))"

definition isWithinWindow :: "int \<Rightarrow> int \<Rightarrow> int \<Rightarrow> bool" where
  "isWithinWindow lower upper latency \<longleftrightarrow> lower \<le> latency \<and> latency \<le> upper"

definition windowFilter :: "int \<Rightarrow> int \<Rightarrow> ServerDescription list \<Rightarrow> ServerDescription list option" where
  "windowFilter lower upper = filterO (\<lambda>s. do {
     invariant (sd_type s \<noteq> kServerUnknown);
     invariant (sd_rtt s \<noteq> None);
     Some (isWithinWindow lower upper (the (sd_rtt s))) })"

definition applyWindow :: "SdamConfiguration \<Rightarrow> ServerDescription list \<Rightarrow> ServerDescription list Checked" where
  "applyWindow c results = do {
     let m = minServer (hd results) (tl results);
     invariant (sd_rtt m \<noteq> None);
     let lower = the (sd_rtt m);
     case windowUpper lower (localThreshold c) of
       Inl e \<Rightarrow> Some (Inl e)
     | Inr upper \<Rightarrow> do {
         kept \<leftarrow> windowFilter lower upper results;
         invariant (kept \<noteq> []);
         Some (Inr kept) } }"

subsection \<open>Selection\<close>

definition selectServers ::
    "int \<Rightarrow> (ServerDescription list \<Rightarrow> ServerDescription list) \<Rightarrow> SdamConfiguration \<Rightarrow> TopologyDescription \<Rightarrow> ReadPreferenceSetting
      \<Rightarrow> ServerDescription list option Checked" where
  "selectServers heartbeatParam shuffle c t criteria =
     (let effective = (if td_type t \<noteq> kSharded then criteria else settingForMode Nearest);
          checks = (if rp_maxStalenessSeconds criteria = 0 then Inr ()
                    else ifOK (verifyMaxstalenessLowerBound heartbeatParam t (rp_maxStalenessSeconds effective))
                      (\<lambda>_. verifyMaxstalenessWireVersions t))
      in if \<not> td_compatible t then Some (Inl IncompatibleServerVersion)
         else thenC (Some checks) (\<lambda>_.
           if td_type t = kTopologyUnknown then Some (Inr None)
           else if td_type t = kSingle then
             Some (Inr (case td_servers t of
                 [] \<Rightarrow> None
               | s # _ \<Rightarrow> if sd_type s \<noteq> kServerUnknown then Some [s] else None))
           else thenC (getCandidateServers c t effective) (\<lambda>results.
             if results = [] then Some (Inr None)
             else thenC (applyWindow c results) (\<lambda>kept. Some (Inr (Some (shuffle kept)))))))"

text \<open>\<open>pick\<close> is the index drawn by the random generator for the number of servers.\<close>

definition selectServer ::
    "(nat \<Rightarrow> nat) \<Rightarrow> int \<Rightarrow> (ServerDescription list \<Rightarrow> ServerDescription list) \<Rightarrow> SdamConfiguration \<Rightarrow> TopologyDescription
      \<Rightarrow> ReadPreferenceSetting \<Rightarrow> ServerDescription option Checked" where
  "selectServer pick heartbeatParam shuffle c t criteria =
     thenC (selectServers heartbeatParam shuffle c t criteria)
      (\<lambda>r. Some (Inr (map_option (\<lambda>servers. servers ! pick (length servers)) r)))"

subsection \<open>Every known server has a latency\<close>

definition timed :: "ServerDescription \<Rightarrow> bool" where
  "timed s \<longleftrightarrow> (sd_type s \<noteq> kServerUnknown \<longrightarrow> sd_rtt s \<noteq> None)"

definition all_timed :: "TopologyDescription \<Rightarrow> bool" where
  "all_timed t \<longleftrightarrow> (\<forall>s\<in>set (td_servers t). timed s)"

lemma timed_unknown [simp]: "timed (unknownServer a)"
  by (simp add: timed_def unknownServer_def)

lemma set_putServer_subset: "set (putServer s xs) \<subseteq> insert s (set xs)"
  by (induction xs) auto

lemma set_dropServer_subset: "set (dropServer a xs) \<subseteq> set xs"
  by (induction xs) auto

lemma install_timed: "installServerDescription t s = Some t' \<Longrightarrow> all_timed t \<Longrightarrow> timed s \<Longrightarrow> all_timed t'"
  using set_putServer_subset [of s "td_servers t"]
  by (auto simp: installServerDescription_def calculateLogicalSessionTimeout_def checkWireCompatibilityVersions_def all_timed_def
      split: if_splits)

lemma remove_timed: "all_timed t \<Longrightarrow> all_timed (removeServerDescription a t)"
  using set_dropServer_subset [of a "td_servers t"] by (auto simp: all_timed_def removeServerDescription_def)

lemma remove_all_timed: "all_timed t \<Longrightarrow> all_timed (fold removeServerDescription as t)"
  by (induction as arbitrary: t) (simp_all add: remove_timed)

lemma installAll_timed: "installAll as t = Some t' \<Longrightarrow> all_timed t \<Longrightarrow> all_timed t'"
  by (induction as arbitrary: t) (auto simp: Option.bind_eq_Some_conv dest: install_timed)

lemma installUnknown_timed: "installUnknown as t = Some t' \<Longrightarrow> all_timed t \<Longrightarrow> all_timed t'"
  by (induction as arbitrary: t) (auto simp: Option.bind_eq_Some_conv dest: install_timed split: if_splits)

lemma record_timed [simp]:
  "all_timed (t\<lparr>td_type := x\<rparr>) = all_timed t" "all_timed (t\<lparr>td_setName := y\<rparr>) = all_timed t"
  "all_timed (recordElection t s) = all_timed t" "all_timed (checkIfHasPrimary t) = all_timed t"
  by (simp_all add: all_timed_def recordElection_frame checkIfHasPrimary_def)

lemma action_timed:
  assumes "all_timed t"
  shows "updateUnknownWithStandalone c t s = Some t' \<Longrightarrow> all_timed t'"
    and "removeAndCheckIfHasPrimary t s = Some t' \<Longrightarrow> all_timed t'"
    and "updateRSWithoutPrimary t s = Some t' \<Longrightarrow> all_timed t'"
    and "updateRSWithPrimaryFromMember t s = Some t' \<Longrightarrow> all_timed t'"
    and "updateRSFromPrimary t s = Some t' \<Longrightarrow> all_timed t'"
proof -
  show "updateUnknownWithStandalone c t s = Some t' \<Longrightarrow> all_timed t'"
    using assms by (auto simp: updateUnknownWithStandalone_def remove_timed split: if_splits)
  show rm: "removeAndCheckIfHasPrimary t s = Some t' \<Longrightarrow> all_timed t'"
    using assms by (auto simp: removeAndCheckIfHasPrimary_def remove_timed)
  show "updateRSWithoutPrimary t s = Some t' \<Longrightarrow> all_timed t'"
    using assms
    by (auto simp: updateRSWithoutPrimary_def addUnknownServers_def Option.bind_eq_Some_conv remove_timed
        dest!: installUnknown_timed split: if_splits)
  show "updateRSWithPrimaryFromMember t s = Some t' \<Longrightarrow> all_timed t'"
    using assms rm by (auto simp: updateRSWithPrimaryFromMember_def split: if_splits)
  assume u: "updateRSFromPrimary t s = Some t'"
  define t0 where "t0 = (if td_setName t = None \<and> sd_setName s \<noteq> None then t\<lparr>td_setName := sd_setName s\<rparr> else t)"
  have t0: "all_timed t0" using assms by (simp add: t0_def)
  consider "\<not> containsServerAddress (sd_address s) t"
    | "containsServerAddress (sd_address s) t" "\<not> (td_setName t = None \<and> sd_setName s \<noteq> None) \<and> td_setName t \<noteq> sd_setName s"
    | "containsServerAddress (sd_address s) t" "\<not> (\<not> (td_setName t = None \<and> sd_setName s \<noteq> None) \<and> td_setName t \<noteq> sd_setName s)"
    by blast
  then show "all_timed t'"
  proof cases
    case 1
    with u assms show ?thesis by (simp add: updateRSFromPrimary_def)
  next
    case 2
    then have "updateRSFromPrimary t s = removeAndCheckIfHasPrimary t s" by (simp only: updateRSFromPrimary_def if_True if_False not_not simp_thms)
    with u rm show ?thesis by simp
  next
    case 3
    let ?old = "map sd_address (findServers (\<lambda>d. sd_address d \<noteq> sd_address s \<and> isPrimary d) (recordElection t0 s))"
    show ?thesis
    proof (cases "stalePrimary t0 s")
      case True
      with u 3 obtain t1 where "installServerDescription t0 (unknownServer (sd_address s)) = Some t1" "t' = checkIfHasPrimary t1"
        unfolding updateRSFromPrimary_def t0_def [symmetric] Let_def by (auto simp: Option.bind_eq_Some_conv)
      with t0 show ?thesis using install_timed by simp
    next
      case False
      with u 3 obtain t2 t3 where "installAll ?old (recordElection t0 s) = Some t2" "addUnknownServers t2 s = Some t3"
        "t' = checkIfHasPrimary (fold removeServerDescription (filter (\<lambda>a. a \<notin> set (addresses s)) (map sd_address (td_servers t3))) t3)"
        unfolding updateRSFromPrimary_def t0_def [symmetric] Let_def by (auto simp: Option.bind_eq_Some_conv)
      with t0 show ?thesis
        using installAll_timed installUnknown_timed by (simp add: addUnknownServers_def remove_all_timed)
    qed
  qed
qed

lemma transition_timed:
  assumes "transition c ty sty t s = Some t'" "all_timed t"
  shows "all_timed t'"
proof -
  note a = action_timed [OF assms(2)] and b = action_timed [of "t\<lparr>td_type := x\<rparr>" for x]
  show ?thesis
    using assms by (cases ty) (auto simp: transition_def remove_timed split: if_splits intro: a b)
qed

lemma onServerDescription_timed:
  assumes "onServerDescription c t s = Some t'" "all_timed t" "timed s"
  shows "all_timed t'"
proof -
  have "timed (if td_type t \<noteq> kSingle \<and> sd_type s = kStandalone then s\<lparr>sd_type := kServerUnknown\<rparr> else s)"
    using assms(3) by (simp add: timed_def)
  with assms show ?thesis
    unfolding onServerDescription_def Let_def Option.bind_eq_Some_conv
    by (auto simp: Option.bind_eq_Some_conv split: if_splits dest!: install_timed intro: transition_timed)
qed

lemma newServerDescription_timed: "newServerDescription now out r tv = Inr s \<Longrightarrow> timed s"
proof (cases "out_response out")
  case (Some reply)
  assume s: "newServerDescription now out r tv = Inr s"
  let ?s2 = "calculateRtt (out_rtt out) r ((unknownServer (out_server out))\<lparr>sd_type := parseTypeFromIsMaster reply\<rparr>)"
  have "timed ?s2" by (simp add: timed_def calculateRtt_def split: option.split)
  moreover obtain s5 where s5: "saveHosts reply (saveLastWriteInfo reply (?s2\<lparr>sd_lastUpdateTime := now,
      sd_minWireVersion := r_minWireVersion reply, sd_maxWireVersion := r_maxWireVersion reply, sd_topologyVersion := tv\<rparr>)) = Inr s5"
    using s Some unfolding newServerDescription_def Let_def by (auto split: sum.splits)
  have "sd_rtt s5 = sd_rtt ?s2 \<and> sd_type s5 = sd_type ?s2"
    using s5 unfolding saveHosts_def ifOK_Inr by (auto simp: saveLastWriteInfo_def)
  moreover have "sd_rtt s = sd_rtt s5 \<and> sd_type s = sd_type s5"
    using s Some s5 unfolding newServerDescription_def Let_def
    by (cases "r_primary reply") (auto simp: saveElectionId_def saveTags_def)
  ultimately show ?thesis by (simp add: timed_def)
qed (auto simp: newServerDescription_def timed_def unknownServer_def Let_def)

lemma sdam_step_timed:
  assumes "sdam_step m e = Some m'" "all_timed (tm_topology m)"
  shows "all_timed (tm_topology m')"
proof (cases e)
  case (IsMasterReply now out)
  with assms obtain result where run: "manager_onServerDescription now out m = Some (result, m')" by auto
  show ?thesis
  proof (cases "m' = m")
    case False
    with run obtain s t' where s: "newServerDescription now out (Option.bind (findServerByAddress (out_server out) (tm_topology m)) sd_rtt)
        (out_topologyVersion out) = Inr s" and m': "m' = publish t' m"
      and "installServerDescription (tm_topology m) s = Some t' \<or> onServerDescription (tm_config m) (tm_topology m) s = Some t'"
      unfolding manager_onServerDescription_def Let_def
      by (auto simp: Option.bind_eq_Some_conv split: if_splits sum.splits option.splits)
    then have "all_timed t'"
      using install_timed onServerDescription_timed assms(2) newServerDescription_timed [OF s] by blast
    with m' show ?thesis by (simp add: publish_def)
  qed (use assms in simp)
next
  case (RttUpdate a rtt)
  have "timed (cloneWithRTT rtt s)" for s by (simp add: timed_def cloneWithRTT_def calculateRtt_def split: option.split)
  with RttUpdate assms show ?thesis
    by (auto simp: onServerRTTUpdated_def Option.bind_eq_Some_conv publish_def split: option.splits dest: install_timed)
qed

lemma sdam_reachable_timed: "sdam_reachable c m \<Longrightarrow> all_timed (tm_topology m)"
proof (induction rule: sdam_reachable.induct)
  case sdam_start
  show ?case by (auto simp: newTopologyManager_def newTopologyDescription_def all_timed_def split: option.splits)
qed (rule sdam_step_timed)

subsection \<open>Candidates\<close>

lemma filterO_total: "(\<And>x. x \<in> set xs \<Longrightarrow> P x \<noteq> None) \<Longrightarrow> filterO P xs = Some (filter (\<lambda>x. P x = Some True) xs)"
proof (induction xs)
  case (Cons x xs)
  then obtain b where "P x = Some b" by fastforce
  with Cons show ?case by simp
qed simp

lemma filterE_eq: "filterE P xs = Inr ys \<Longrightarrow> ys = filter (\<lambda>x. P x = Inr True) xs"
  by (induction xs arbitrary: ys) auto

lemma staleness_total: "sdam_inv t \<Longrightarrow> calculateStaleness c t s \<noteq> None"
  using primaries_counted [of t] by (auto simp: calculateStaleness_def getPrimary_def Let_def)

lemma recency_total: "sdam_inv t \<Longrightarrow> recencyFilter c t r s \<noteq> None"
  using staleness_total [of t c s] by (auto simp: recencyFilter_def Let_def Option.bind_eq_None_conv)

lemma filterByType_eq:
  assumes "sdam_inv t"
  shows "filterByType P c t r = Some (filter (\<lambda>s. P (sd_type s) \<and> recencyFilter c t r s = Some True) (td_servers t))"
proof -
  have "filterByType P c t r = Some (filter (\<lambda>s. (if P (sd_type s) then recencyFilter c t r s else Some False) = Some True) (td_servers t))"
    unfolding filterByType_def
  proof (rule filterO_total)
    show "(if P (sd_type s) then recencyFilter c t r s else Some False) \<noteq> None" for s
      using recency_total [OF assms, of c r s] by (cases "P (sd_type s)") simp_all
  qed
  also have "(\<lambda>s. (if P (sd_type s) then recencyFilter c t r s else Some False) = Some True) =
      (\<lambda>s. P (sd_type s) \<and> recencyFilter c t r s = Some True)" by auto
  finally show ?thesis .
qed

lemma recency_default: "recencyFilter c t (settingForMode p) s = Some True"
  by (simp add: recencyFilter_def settingForMode_def op_isNull_def nullOpTime_def ts_isNull_def)

text \<open>A server that passes the filters of a setting.\<close>

definition meets :: "SdamConfiguration \<Rightarrow> TopologyDescription \<Rightarrow> ReadPreferenceSetting \<Rightarrow> ServerDescription \<Rightarrow> bool" where
  "meets c t r s \<longleftrightarrow> recencyFilter c t r s = Some True \<and> (rp_tags r = [] \<or> matchesTags s (rp_tags r) = Inr True)"

definition usableSecondary :: "SdamConfiguration \<Rightarrow> TopologyDescription \<Rightarrow> ReadPreferenceSetting \<Rightarrow> ServerDescription \<Rightarrow> bool" where
  "usableSecondary c t r s \<longleftrightarrow> s \<in> set (td_servers t) \<and> sd_type s = kRSSecondary \<and> meets c t r s"

text \<open>The tags of the setting can be matched against every secondary that is considered: none of its documents is malformed.\<close>

definition tagsMatched :: "SdamConfiguration \<Rightarrow> TopologyDescription \<Rightarrow> ReadPreferenceSetting \<Rightarrow> bool" where
  "tagsMatched c t r \<longleftrightarrow> rp_tags r = [] \<or>
     (\<forall>s\<in>set (td_servers t). sd_type s = kRSSecondary \<and> recencyFilter c t r s = Some True \<longrightarrow> (\<exists>b. matchesTags s (rp_tags r) = Inr b))"

definition eligible :: "SdamConfiguration \<Rightarrow> TopologyDescription \<Rightarrow> ReadPreferenceSetting \<Rightarrow> ServerDescription \<Rightarrow> bool" where
  "eligible c t r s \<longleftrightarrow>
     (case rp_pref r of
        PrimaryOnly \<Rightarrow> isPrimary s
      | SecondaryOnly \<Rightarrow> usableSecondary c t r s
      | Nearest \<Rightarrow> (isPrimary s \<or> sd_type s = kRSSecondary) \<and> meets c t r s
      | PrimaryPreferred \<Rightarrow> isPrimary s \<or> (prims t = {} \<and> usableSecondary c t r s)
      | SecondaryPreferred \<Rightarrow> usableSecondary c t r s \<or> (isPrimary s \<and> \<not> (\<exists>x. usableSecondary c t r x) \<and> tagsMatched c t r))"

lemma filterE_matched: "filterE P xs = Inr ys \<Longrightarrow> x \<in> set xs \<Longrightarrow> \<exists>b. P x = Inr b"
  by (induction xs arbitrary: ys) auto

lemma tagged_filter:
  assumes "sdam_inv t" "tagged (rp_tags r) (filterByType P c t r) = Some (Inr ss)"
  shows "set ss = {s \<in> set (td_servers t). P (sd_type s) \<and> meets c t r s}"
  using assms
  by (auto simp: tagged_def filterTags_def filterByType_eq meets_def dest!: filterE_eq split: if_splits)

lemma tagged_total: "sdam_inv t \<Longrightarrow> tagged tags (filterByType P c t r) \<noteq> None"
  by (simp add: tagged_def filterByType_eq)

lemma filterTags_subset: "filterTags tags xs = Inr ys \<Longrightarrow> set ys \<subseteq> set xs"
  by (auto simp: filterTags_def dest: filterE_eq split: if_splits)

lemma effective_again:
  "effectiveCriteria t ((effectiveCriteria t r)\<lparr>rp_pref := p\<rparr>) = (effectiveCriteria t r)\<lparr>rp_pref := p\<rparr>"
  by (auto simp: effectiveCriteria_def settingForMode_def op_isNull_def nullOpTime_def ts_isNull_def split: option.splits)

lemma effective_default [simp]: "effectiveCriteria t (settingForMode p) = settingForMode p"
  by (simp add: effectiveCriteria_def settingForMode_def op_isNull_def nullOpTime_def ts_isNull_def)

lemma meets_pref [simp]: "meets c t (r\<lparr>rp_pref := p\<rparr>) = meets c t r"
  unfolding meets_def recencyFilter_def fun_eq_iff by (simp add: Let_def cong: option.case_cong)

lemma usable_pref [simp]: "usableSecondary c t (r\<lparr>rp_pref := p\<rparr>) = usableSecondary c t r"
  by (simp add: usableSecondary_def fun_eq_iff)

lemma tagsMatched_pref [simp]: "tagsMatched c t (r\<lparr>rp_pref := p\<rparr>) = tagsMatched c t r"
  unfolding tagsMatched_def recencyFilter_def by (simp add: Let_def cong: option.case_cong)

lemma primary_types: "filter (\<lambda>s. sd_type s = kRSPrimary) = filter isPrimary"
  by (simp add: isPrimary_def [abs_def])

lemma candidates_primary:
  assumes "sdam_inv t"
  obtains ss where "getCandidateServers c t (settingForMode PrimaryOnly) = Some (Inr ss)" "set ss = prims t"
proof -
  have p: "rp_pref (settingForMode PrimaryOnly) = PrimaryOnly" by (simp add: settingForMode_def)
  have "getCandidateServers c t (settingForMode PrimaryOnly) = Some (Inr (filter isPrimary (td_servers t)))"
    by (subst getCandidateServers.simps)
      (simp add: p Let_def primaryFilter_def filterByType_eq [OF assms] recency_default primary_types)
  then show thesis by (rule that) (auto simp: prims_def)
qed

lemma candidates_secondary:
  assumes "sdam_inv t"
  obtains res where "getCandidateServers c t ((effectiveCriteria t r)\<lparr>rp_pref := SecondaryOnly\<rparr>) = Some res"
    "\<And>ss. res = Inr ss \<Longrightarrow> set ss = {s. usableSecondary c t (effectiveCriteria t r) s} \<and> tagsMatched c t (effectiveCriteria t r)"
proof -
  let ?r = "(effectiveCriteria t r)\<lparr>rp_pref := SecondaryOnly\<rparr>"
  have g: "getCandidateServers c t ?r = tagged (rp_tags ?r) (secondaryFilter c t ?r)"
    by (subst getCandidateServers.simps) (simp add: effective_again Let_def)
  obtain res where res: "getCandidateServers c t ?r = Some res"
    using g tagged_total [OF assms, of "rp_tags ?r" "\<lambda>ty. ty = kRSSecondary" c ?r] by (metis not_Some_eq secondaryFilter_def)
  moreover have "set ss = {s. usableSecondary c t (effectiveCriteria t r) s} \<and> tagsMatched c t (effectiveCriteria t r)"
    if "res = Inr ss" for ss
  proof -
    from res g that have ss: "tagged (rp_tags ?r) (filterByType (\<lambda>ty. ty = kRSSecondary) c t ?r) = Some (Inr ss)"
      by (simp add: secondaryFilter_def)
    have "tagsMatched c t ?r"
      using ss filterE_matched
      by (fastforce simp: tagsMatched_def tagged_def filterTags_def filterByType_eq [OF assms] split: if_splits)
    then have "tagsMatched c t (effectiveCriteria t r)" by simp
    with tagged_filter [OF assms ss] show ?thesis by (auto simp: usableSecondary_def)
  qed
  ultimately show thesis by (rule that)
qed

lemma candidates_ok:
  assumes inv: "sdam_inv t" and ty: "td_type t \<noteq> kSharded"
    and r': "r' = effectiveCriteria t r"
  obtains res where "getCandidateServers c t r = Some res"
    "\<And>ss. res = Inr ss \<Longrightarrow> set ss \<subseteq> {s \<in> set (td_servers t). eligible c t r' s}"
proof -
  have pref: "rp_pref r' = rp_pref r" by (simp add: r')
  obtain ps where ps: "getCandidateServers c t (settingForMode PrimaryOnly) = Some (Inr ps)" "set ps = prims t"
    by (rule candidates_primary [OF inv])
  obtain sec where sec: "getCandidateServers c t (r'\<lparr>rp_pref := SecondaryOnly\<rparr>) = Some sec"
    and usable: "\<And>ss. sec = Inr ss \<Longrightarrow> set ss = {s. usableSecondary c t r' s}" and matched: "\<And>ss. sec = Inr ss \<Longrightarrow> tagsMatched c t r'"
    unfolding r' using candidates_secondary [OF inv, of c r] by metis
  have p: "ps \<noteq> [] \<longleftrightarrow> prims t \<noteq> {}" "set ps \<subseteq> {s \<in> set (td_servers t). isPrimary s}"
    by (simp_all flip: ps(2)) (simp add: ps(2) prims_def)
  have u: "{s. usableSecondary c t r' s} \<subseteq> set (td_servers t)" by (auto simp: usableSecondary_def)
  note g = getCandidateServers.simps [of c t r, folded r']
  show thesis
  proof (cases "rp_pref r")
    case PrimaryOnly
    let ?ss = "filter isPrimary (td_servers t)"
    have "getCandidateServers c t r = Some (Inr ?ss)"
      using PrimaryOnly pref
      by (simp add: g Let_def primaryFilter_def filterByType_eq [OF inv] recency_default primary_types)
    then show ?thesis by (rule that) (use PrimaryOnly pref in \<open>auto simp: eligible_def\<close>)
  next
    case PrimaryPreferred
    then have e: "getCandidateServers c t r = (if ps \<noteq> [] then Some (Inr ps) else thenC (Some sec) (\<lambda>ss. Some (filterTags (rp_tags r') ss)))"
      using pref ps sec by (simp add: g Let_def)
    show ?thesis
    proof (cases "ps = []")
      case False
      with e have "getCandidateServers c t r = Some (Inr ps)" by simp
      then show ?thesis by (rule that) (use p(2) PrimaryPreferred pref in \<open>auto simp: eligible_def\<close>)
    next
      case True
      with e obtain res where "getCandidateServers c t r = Some res" by (cases sec) auto
      then show ?thesis
      proof (rule that)
        fix ss assume "res = Inr ss"
        with e True \<open>getCandidateServers c t r = Some res\<close> obtain ss' where "sec = Inr ss'" "filterTags (rp_tags r') ss' = Inr ss" by (cases sec) auto
        with usable filterTags_subset have "set ss \<subseteq> {s. usableSecondary c t r' s}" by blast
        with u True p(1) PrimaryPreferred pref show "set ss \<subseteq> {s \<in> set (td_servers t). eligible c t r' s}" by (auto simp: eligible_def)
      qed
    qed
  next
    case SecondaryOnly
    then have "getCandidateServers c t r = tagged (rp_tags r') (filterByType (\<lambda>ty. ty = kRSSecondary) c t r')"
      using pref by (simp add: g Let_def secondaryFilter_def)
    moreover obtain res where res: "tagged (rp_tags r') (filterByType (\<lambda>ty. ty = kRSSecondary) c t r') = Some res"
      using tagged_total [OF inv] by (metis not_Some_eq)
    ultimately have "getCandidateServers c t r = Some res" by simp
    then show ?thesis
      by (rule that) (use SecondaryOnly pref tagged_filter [OF inv] res in \<open>auto simp: eligible_def usableSecondary_def\<close>)
  next
    case SecondaryPreferred
    then have e: "getCandidateServers c t r = thenC (Some sec) (\<lambda>ss. Some (if ss \<noteq> [] then filterTags (rp_tags r') ss else Inr ps))"
      using pref ps(1) sec by (cases sec) (simp_all add: g Let_def)
    then obtain res where res: "getCandidateServers c t r = Some res" by (cases sec) auto
    then show ?thesis
    proof (rule that)
      fix ss assume ss: "res = Inr ss"
      with e res obtain ss' where s': "sec = Inr ss'" by (cases sec) auto
      have none: "ss' = [] \<Longrightarrow> \<not> (\<exists>x. usableSecondary c t r' x)" using usable [OF s'] by auto
      have "set ss \<subseteq> (if ss' \<noteq> [] then {s. usableSecondary c t r' s} else set ps)"
        using e res ss s' usable [OF s'] filterTags_subset [of "rp_tags r'" ss' ss] by (auto split: if_splits)
      with u p(2) none matched [OF s'] SecondaryPreferred pref show "set ss \<subseteq> {s \<in> set (td_servers t). eligible c t r' s}"
        by (auto simp: eligible_def split: if_splits)
    qed
  next
    case Nearest
    then have "getCandidateServers c t r = tagged (rp_tags r') (filterByType (\<lambda>ty. ty = kRSPrimary \<or> ty = kRSSecondary) c t r')"
      using pref ty by (simp add: g Let_def nearestFilter_def)
    moreover obtain res where res: "tagged (rp_tags r') (filterByType (\<lambda>ty. ty = kRSPrimary \<or> ty = kRSSecondary) c t r') = Some res"
      using tagged_total [OF inv] by (metis not_Some_eq)
    ultimately have "getCandidateServers c t r = Some res" by simp
    then show ?thesis
      by (rule that) (use Nearest pref tagged_filter [OF inv] res in \<open>auto simp: eligible_def isPrimary_def\<close>)
  qed
qed

subsection \<open>What a read preference asks for\<close>

text \<open>
  The contract of a read preference in plain terms, which the filters are measured against. Of a secondary, the staleness is how much
  longer its last write lies back than that of the primary when both answered, or than the latest write of a secondary when there is no primary,
  plus the time between two heartbeats; all in milliseconds and without wrap-around.
\<close>

definition reached :: "OpTime \<Rightarrow> ServerDescription \<Rightarrow> bool" where
  "reached minOp s \<longleftrightarrow> op_isNull minOp \<or> (\<exists>p. sd_opTime s = Some p \<and> op_ge p minOp)"

definition lastWrite :: "ServerDescription \<Rightarrow> int" where
  "lastWrite s = the (sd_lastWriteDate s)"

definition withinStaleness :: "SdamConfiguration \<Rightarrow> TopologyDescription \<Rightarrow> int \<Rightarrow> ServerDescription \<Rightarrow> bool" where
  "withinStaleness c t bound s \<longleftrightarrow> (sd_type s = kRSSecondary \<longrightarrow>
     (\<forall>x\<in>set (td_servers t).
        (td_type t = kReplicaSetWithPrimary \<and> isPrimary x \<longrightarrow>
           (sd_lastUpdateTime s - lastWrite s) - (sd_lastUpdateTime x - lastWrite x) + heartbeatFrequency c \<le> bound) \<and>
        (td_type t = kReplicaSetNoPrimary \<and> sd_type x = kRSSecondary \<longrightarrow> lastWrite x - lastWrite s + heartbeatFrequency c \<le> bound)))"

definition hasTags :: "TagSet \<Rightarrow> ServerDescription \<Rightarrow> bool" where
  "hasTags tags s \<longleftrightarrow> tags = [] \<or>
     (\<exists>doc. Some doc \<in> set tags \<and> (\<forall>(key, f)\<in>set doc. \<exists>v. f = Present v \<and> map_of (sd_tags s) key = Some v))"

definition suitable :: "SdamConfiguration \<Rightarrow> TopologyDescription \<Rightarrow> ReadPreferenceSetting \<Rightarrow> ServerDescription \<Rightarrow> bool" where
  "suitable c t r s \<longleftrightarrow> reached (rp_minOpTime r) s \<and> hasTags (rp_tags r) s \<and>
     (rp_maxStalenessSeconds r \<noteq> 0 \<longrightarrow> withinStaleness c t (1000 * rp_maxStalenessSeconds r) s)"

definition suitableSecondary :: "SdamConfiguration \<Rightarrow> TopologyDescription \<Rightarrow> ReadPreferenceSetting \<Rightarrow> ServerDescription \<Rightarrow> bool" where
  "suitableSecondary c t r s \<longleftrightarrow> s \<in> set (td_servers t) \<and> sd_type s = kRSSecondary \<and> suitable c t r s"

definition permitted :: "SdamConfiguration \<Rightarrow> TopologyDescription \<Rightarrow> ReadPreferenceSetting \<Rightarrow> ServerDescription \<Rightarrow> bool" where
  "permitted c t r s \<longleftrightarrow>
     (case rp_pref r of
        PrimaryOnly \<Rightarrow> isPrimary s
      | SecondaryOnly \<Rightarrow> suitableSecondary c t r s
      | Nearest \<Rightarrow> (isPrimary s \<or> sd_type s = kRSSecondary) \<and> suitable c t r s
      | PrimaryPreferred \<Rightarrow> isPrimary s \<or> (prims t = {} \<and> suitableSecondary c t r s)
      | SecondaryPreferred \<Rightarrow> suitableSecondary c t r s \<or> (isPrimary s \<and> \<not> (\<exists>x. suitableSecondary c t r x)))"

text \<open>The types of server that a mode allows, whatever the rest of the setting.\<close>

definition typeAllowed :: "TopologyDescription \<Rightarrow> ReadPreference \<Rightarrow> ServerDescription \<Rightarrow> bool" where
  "typeAllowed t p s \<longleftrightarrow>
     (case p of
        PrimaryOnly \<Rightarrow> isPrimary s
      | SecondaryOnly \<Rightarrow> sd_type s = kRSSecondary
      | PrimaryPreferred \<Rightarrow> isPrimary s \<or> (prims t = {} \<and> sd_type s = kRSSecondary)
      | _ \<Rightarrow> isPrimary s \<or> sd_type s = kRSSecondary)"

text \<open>No member has reached the requested optime, although some tell theirs. Then the program drops the whole setting but its mode: also the
  tags and the staleness bound.\<close>

definition unreached :: "TopologyDescription \<Rightarrow> ReadPreferenceSetting \<Rightarrow> bool" where
  "unreached t r \<longleftrightarrow> \<not> op_isNull (rp_minOpTime r) \<and>
     (\<exists>s\<in>set (td_servers t). (isPrimary s \<or> sd_type s = kRSSecondary) \<and> sd_opTime s \<noteq> None) \<and>
     (\<forall>s\<in>set (td_servers t). \<forall>p. (isPrimary s \<or> sd_type s = kRSSecondary) \<and> sd_opTime s = Some p \<longrightarrow> op_less p (rp_minOpTime r))"

definition inEffect :: "TopologyDescription \<Rightarrow> ReadPreferenceSetting \<Rightarrow> ReadPreferenceSetting" where
  "inEffect t r = (if unreached t r then settingForMode (rp_pref r) else r)"

text \<open>The reports the contract is measured on: when there is a staleness bound, every member tells the date of its last write, and dates and
  intervals are not so large that their differences wrap; optimes are null or have a term.\<close>

definition wellReported :: "SdamConfiguration \<Rightarrow> TopologyDescription \<Rightarrow> ReadPreferenceSetting \<Rightarrow> bool" where
  "wellReported c t r \<longleftrightarrow>
     (rp_maxStalenessSeconds r \<noteq> 0 \<longrightarrow> heartbeatFrequency c \<in> {0..<2 ^ 60} \<and>
        (\<forall>s\<in>set (td_servers t). isPrimary s \<or> sd_type s = kRSSecondary \<longrightarrow>
           (\<exists>d\<in>{0..<2 ^ 60}. sd_lastWriteDate s = Some d) \<and> sd_lastUpdateTime s \<in> {0..<2 ^ 60})) \<and>
     op_regular (rp_minOpTime r) \<and> (\<forall>s\<in>set (td_servers t). \<forall>p. sd_opTime s = Some p \<longrightarrow> op_regular p)"

lemma wrap64_small: "- (2 ^ 63) \<le> x \<Longrightarrow> x < 2 ^ 63 \<Longrightarrow> wrap64 x = x"
  by (simp add: wrap64_def signed_take_bit_int_eq_self_iff)

lemma latest_write:
  "(\<forall>x\<in>set xs. sd_type x = kRSSecondary \<longrightarrow> lastWriteOf x \<le> fold (\<lambda>x m. if sd_type x = kRSSecondary \<and> m < lastWriteOf x then lastWriteOf x else m) xs m0) \<and>
   m0 \<le> fold (\<lambda>x m. if sd_type x = kRSSecondary \<and> m < lastWriteOf x then lastWriteOf x else m) xs m0 \<and>
   (fold (\<lambda>x m. if sd_type x = kRSSecondary \<and> m < lastWriteOf x then lastWriteOf x else m) xs m0 = m0 \<or>
    (\<exists>x\<in>set xs. sd_type x = kRSSecondary \<and>
       fold (\<lambda>x m. if sd_type x = kRSSecondary \<and> m < lastWriteOf x then lastWriteOf x else m) xs m0 = lastWriteOf x))"
  by (induction xs rule: rev_induct) auto

lemma staleness_meaning:
  assumes "sdam_inv t" "wellReported c t r" "rp_maxStalenessSeconds r \<noteq> 0" "s \<in> set (td_servers t)" "sd_type s = kRSSecondary"
    and ty: "td_type t \<in> {kReplicaSetWithPrimary, kReplicaSetNoPrimary}"
  shows "\<exists>n. calculateStaleness c t s = Some n \<and> (n \<le> bound \<longleftrightarrow> withinStaleness c t bound s)"
proof -
  have hb: "0 \<le> heartbeatFrequency c" "heartbeatFrequency c < 2 ^ 60" using assms(2,3) by (auto simp: wellReported_def)
  have dates: "lastWriteOf x = lastWrite x" "0 \<le> lastWrite x" "lastWrite x < 2 ^ 60" "0 \<le> sd_lastUpdateTime x" "sd_lastUpdateTime x < 2 ^ 60"
    if "x \<in> set (td_servers t)" "isPrimary x \<or> sd_type x = kRSSecondary" for x
    using assms(2,3) that by (auto simp: wellReported_def lastWriteOf_def lastWrite_def)
  note s = dates [OF assms(4) disjI2 [OF assms(5)]]
  show ?thesis
  proof (cases "td_type t = kReplicaSetWithPrimary")
    case True
    obtain p where p: "getPrimary t = Some (Some p)" "prims t = {p}"
    proof -
      have "length (findServers isPrimary t) = 1" using primaries_counted [OF assms(1)] True by simp
      then obtain p where p: "findServers isPrimary t = [p]" by (auto simp: length_Suc_conv)
      moreover have "prims t = set (findServers isPrimary t)" by (auto simp: findServers_def prims_def)
      ultimately show ?thesis using that True by (simp add: getPrimary_def)
    qed
    then have prim: "p \<in> set (td_servers t)" "isPrimary p" by (auto simp: prims_def)
    note q = dates [OF prim(1) disjI1 [OF prim(2)]]
    have "calculateStaleness c t s =
        Some ((sd_lastUpdateTime s - lastWrite s) - (sd_lastUpdateTime p - lastWrite p) + heartbeatFrequency c)"
      using True assms(5) p(1) s q hb by (simp add: calculateStaleness_def wrap64_small)
    moreover have only: "(\<forall>x\<in>set (td_servers t). isPrimary x \<longrightarrow> Q x) \<longleftrightarrow> Q p" for Q
    proof -
      have "(\<forall>x\<in>set (td_servers t). isPrimary x \<longrightarrow> Q x) \<longleftrightarrow> (\<forall>x\<in>prims t. Q x)" by (auto simp: prims_def)
      then show ?thesis by (simp add: p(2))
    qed
    have "withinStaleness c t bound s \<longleftrightarrow>
        (sd_lastUpdateTime s - lastWrite s) - (sd_lastUpdateTime p - lastWrite p) + heartbeatFrequency c \<le> bound"
      unfolding withinStaleness_def True using assms(5) by (simp only: only simp_thms TopologyType.distinct)
    ultimately show ?thesis by simp
  next
    case False
    with ty have none: "td_type t = kReplicaSetNoPrimary" by simp
    define w where "w = fold (\<lambda>x m. if sd_type x = kRSSecondary \<and> m < lastWriteOf x then lastWriteOf x else m) (td_servers t) date_min"
    have w: "\<forall>x\<in>set (td_servers t). sd_type x = kRSSecondary \<longrightarrow> lastWrite x \<le> w"
      "w = date_min \<or> (\<exists>x\<in>set (td_servers t). sd_type x = kRSSecondary \<and> w = lastWrite x)"
      using latest_write [of "td_servers t" date_min] dates(1) unfolding w_def by fastforce+
    have "lastWrite s \<le> w" using w(1) assms(4,5) by blast
    then obtain x where x: "x \<in> set (td_servers t)" "sd_type x = kRSSecondary" "w = lastWrite x"
      using w(2) s(2) by (auto simp: date_min_def)
    note q = dates [OF x(1) disjI2 [OF x(2)]]
    have "calculateStaleness c t s = Some (w - lastWrite s + heartbeatFrequency c)"
      using none assms(5) s q hb x(3) by (simp add: calculateStaleness_def wrap64_small flip: w_def)
    moreover have "w - lastWrite s + heartbeatFrequency c \<le> bound \<longleftrightarrow>
        (\<forall>x\<in>set (td_servers t). sd_type x = kRSSecondary \<longrightarrow> lastWrite x - lastWrite s + heartbeatFrequency c \<le> bound)"
      using w(1) x by (auto intro: order_trans [rotated])
    ultimately show ?thesis using none assms(5) by (simp add: withinStaleness_def)
  qed
qed

lemma containsAllTags_iff: "containsAllTags s doc = Inr True \<longleftrightarrow> (\<forall>(key, f)\<in>set doc. \<exists>v. f = Present v \<and> map_of (sd_tags s) key = Some v)"
  by (induction s doc rule: containsAllTags.induct) (auto split: field.splits)

lemma hasTags_iff: "hasTags tags s \<longleftrightarrow> tags = [] \<or> (\<exists>doc. Some doc \<in> set tags \<and> containsAllTags s doc = Inr True)"
  by (simp add: hasTags_def containsAllTags_iff)

lemma matchesTags_iff:
  assumes "matchesTags s tags = Inr b"
  shows "b \<longleftrightarrow> (\<exists>doc. Some doc \<in> set tags \<and> containsAllTags s doc = Inr True)"
  using assms
proof (induction tags)
  case (Cons tag tags)
  show ?case
  proof (cases tag)
    case (Some doc)
    with Cons.prems obtain c where c: "containsAllTags s doc = Inr c" by (cases "containsAllTags s doc") auto
    show ?thesis using Cons Some c by (cases c) auto
  qed (use Cons in auto)
qed simp

text \<open>The setting in effect.\<close>

lemma maxOpTime_ok:
  assumes "\<forall>s\<in>set ss. \<forall>p. sd_opTime s = Some p \<longrightarrow> op_regular p"
  shows "case maxOpTime ss of
      None \<Rightarrow> \<forall>s\<in>set ss. sd_opTime s = None
    | Some m \<Rightarrow> (\<exists>s\<in>set ss. sd_opTime s = Some m) \<and> (\<forall>s\<in>set ss. \<forall>p. sd_opTime s = Some p \<longrightarrow> op_ge m p)"
  using assms
proof (induction ss rule: rev_induct)
  case (snoc x xs)
  have step: "maxOpTime (xs @ [x]) = (if opTime_less (maxOpTime xs) (sd_opTime x) then sd_opTime x else maxOpTime xs)"
    by (simp add: maxOpTime_def)
  show ?case
  proof (cases "sd_opTime x")
    case None
    then show ?thesis using snoc step by (auto simp: opTime_less_def split: option.splits)
  next
    case (Some p)
    show ?thesis
    proof (cases "maxOpTime xs")
      case None
      then show ?thesis using snoc step Some by (auto simp: opTime_less_def op_ge_refl)
    next
      case m: (Some m)
      have reg: "op_regular m" "op_regular p" using snoc m Some by auto
      show ?thesis
      proof (cases "op_less m p")
        case True
        then have "op_ge p m" using op_ge_total [of p m] by (auto simp: op_ge_def)
        then have "op_ge p q" if "s \<in> set xs" "sd_opTime s = Some q" for s q
          using snoc m that reg op_ge_trans [of p m q] by auto
        then show ?thesis using step Some m True by (auto simp: opTime_less_def op_ge_refl)
      next
        case False
        then show ?thesis using snoc step Some m by (auto simp: opTime_less_def op_ge_def)
      qed
    qed
  qed
qed (simp add: maxOpTime_def)

lemma effective_eq:
  assumes "wellReported c t r"
  shows "effectiveCriteria t r = inEffect t r"
proof (cases "op_isNull (rp_minOpTime r)")
  case False
  let ?ms = "findServers (\<lambda>s. sd_type s = kRSPrimary \<or> sd_type s = kRSSecondary) t"
  have ms: "s \<in> set ?ms \<longleftrightarrow> s \<in> set (td_servers t) \<and> (isPrimary s \<or> sd_type s = kRSSecondary)" for s
    by (auto simp: findServers_def isPrimary_def)
  have reg: "op_regular (rp_minOpTime r)" "\<forall>s\<in>set ?ms. \<forall>p. sd_opTime s = Some p \<longrightarrow> op_regular p"
    using assms ms by (auto simp: wellReported_def)
  note mx = maxOpTime_ok [OF reg(2)]
  show ?thesis
  proof (cases "maxOpTime ?ms")
    case None
    then have "\<not> unreached t r" using mx ms by (auto simp: unreached_def)
    then show ?thesis using None False by (simp add: effectiveCriteria_def inEffect_def)
  next
    case (Some m)
    then obtain s0 where s0: "s0 \<in> set ?ms" "sd_opTime s0 = Some m" using mx by auto
    have "op_less p (rp_minOpTime r)" if "op_less m (rp_minOpTime r)" "s \<in> set ?ms" "sd_opTime s = Some p" for s p
      using op_ge_trans [of m p "rp_minOpTime r"] mx Some that reg s0 by (auto simp: op_ge_def)
    then have "unreached t r \<longleftrightarrow> op_less m (rp_minOpTime r)"
      using False s0 ms unfolding unreached_def by (metis option.distinct(1))
    then show ?thesis using Some False by (simp add: effectiveCriteria_def inEffect_def)
  qed
qed (simp add: effectiveCriteria_def inEffect_def unreached_def)

lemma inEffect_reached:
  assumes "p \<in> set (td_servers t)" "isPrimary p" "sd_opTime p = Some (rp_minOpTime r)"
  shows "inEffect t r = r"
proof -
  have "\<not> op_less (rp_minOpTime r) (rp_minOpTime r)" using op_ge_refl [of "rp_minOpTime r"] by (simp add: op_ge_def)
  then have "\<not> unreached t r" using assms unfolding unreached_def by metis
  then show ?thesis by (simp add: inEffect_def)
qed

lemma wellReported_inEffect: "wellReported c t r \<Longrightarrow> wellReported c t (inEffect t r)"
  by (auto simp: inEffect_def wellReported_def settingForMode_def op_regular_def)

text \<open>Passing the filters is being suitable.\<close>

lemma recency_suitable:
  assumes "sdam_inv t" "wellReported c t r" "s \<in> set (td_servers t)"
    and "td_type t \<in> {kReplicaSetWithPrimary, kReplicaSetNoPrimary}" "recencyFilter c t r s = Some True"
  shows "reached (rp_minOpTime r) s \<and> (rp_maxStalenessSeconds r \<noteq> 0 \<longrightarrow> withinStaleness c t (1000 * rp_maxStalenessSeconds r) s)"
proof (cases "rp_maxStalenessSeconds r = 0 \<or> sd_type s \<noteq> kRSSecondary")
  case True
  then show ?thesis
    using assms(5) by (auto simp: recencyFilter_def reached_def withinStaleness_def Let_def Option.bind_eq_Some_conv split: option.splits if_splits)
next
  case False
  then show ?thesis
    using assms(5) staleness_meaning [OF assms(1,2) _ assms(3) _ assms(4), of "1000 * rp_maxStalenessSeconds r"]
    by (auto simp: recencyFilter_def reached_def Let_def split: option.splits)
qed

lemma recency_of_suitable:
  assumes "sdam_inv t" "wellReported c t r" "s \<in> set (td_servers t)" "sd_type s = kRSSecondary"
    and "td_type t \<in> {kReplicaSetWithPrimary, kReplicaSetNoPrimary}" "reached (rp_minOpTime r) s"
    and "rp_maxStalenessSeconds r \<noteq> 0 \<longrightarrow> withinStaleness c t (1000 * rp_maxStalenessSeconds r) s"
  shows "recencyFilter c t r s = Some True"
proof (cases "rp_maxStalenessSeconds r = 0")
  case True
  then show ?thesis using assms(6) by (auto simp: recencyFilter_def reached_def split: option.split)
next
  case False
  then show ?thesis
    using assms(6,7) staleness_meaning [OF assms(1,2) False assms(3,4,5), of "1000 * rp_maxStalenessSeconds r"]
    by (auto simp: recencyFilter_def reached_def Let_def split: option.split)
qed

lemma meets_suitable:
  assumes "sdam_inv t" "wellReported c t r" "s \<in> set (td_servers t)" "td_type t \<in> {kReplicaSetWithPrimary, kReplicaSetNoPrimary}" "meets c t r s"
  shows "suitable c t r s"
  using recency_suitable [OF assms(1-4)] assms(5) matchesTags_iff [of s "rp_tags r" True]
  by (auto simp: meets_def suitable_def hasTags_iff)

lemma eligible_permitted:
  assumes inv: "sdam_inv t" and well: "wellReported c t r" and s: "s \<in> set (td_servers t)"
    and ty: "td_type t \<in> {kReplicaSetWithPrimary, kReplicaSetNoPrimary}" and el: "eligible c t r s"
  shows "permitted c t r s"
proof -
  have sec: "usableSecondary c t r x \<Longrightarrow> suitableSecondary c t r x" for x
    using meets_suitable [OF inv well _ ty] by (simp add: usableSecondary_def suitableSecondary_def)
  have "usableSecondary c t r x" if x: "suitableSecondary c t r x" and m: "tagsMatched c t r" for x
  proof -
    have x': "x \<in> set (td_servers t)" "sd_type x = kRSSecondary" "suitable c t r x" using x by (simp_all add: suitableSecondary_def)
    then have rec: "recencyFilter c t r x = Some True" using recency_of_suitable [OF inv well _ _ ty] by (simp add: suitable_def)
    have "rp_tags r = [] \<or> matchesTags x (rp_tags r) = Inr True"
    proof (cases "rp_tags r = []")
      case False
      then obtain b where b: "matchesTags x (rp_tags r) = Inr b" using m x' rec by (auto simp: tagsMatched_def)
      then show ?thesis using matchesTags_iff [OF b] x'(3) False by (auto simp: suitable_def hasTags_iff)
    qed simp
    then show ?thesis using x' rec by (simp add: usableSecondary_def meets_def)
  qed
  then show ?thesis
    using el sec meets_suitable [OF inv well s ty] by (auto simp: eligible_def permitted_def split: ReadPreference.splits)
qed

lemma eligible_type: "eligible c t r s \<Longrightarrow> typeAllowed t (rp_pref r) s"
  by (auto simp: eligible_def typeAllowed_def usableSecondary_def split: ReadPreference.splits)

subsection \<open>The window\<close>

lemma minServer_ok:
  assumes "sd_rtt m \<noteq> None" "\<And>s. s \<in> set ss \<Longrightarrow> sd_rtt s \<noteq> None"
  shows "minServer m ss \<in> insert m (set ss) \<and> (\<forall>s\<in>insert m (set ss). the (sd_rtt (minServer m ss)) \<le> the (sd_rtt s))"
  using assms
proof (induction ss arbitrary: m)
  case (Cons s ss)
  let ?m = "if rtt_less s m then s else m"
  have "sd_rtt ?m \<noteq> None" using Cons.prems by simp
  then have IH: "minServer ?m ss \<in> insert ?m (set ss)" "\<forall>x\<in>insert ?m (set ss). the (sd_rtt (minServer ?m ss)) \<le> the (sd_rtt x)"
    using Cons.IH [of ?m] Cons.prems(2) by auto
  have "the (sd_rtt ?m) \<le> the (sd_rtt m)" "the (sd_rtt ?m) \<le> the (sd_rtt s)"
    using Cons.prems(1) Cons.prems(2) [of s] by (auto simp: rtt_less_def)
  with IH show ?case by (auto intro: order_trans)
qed simp

lemma applyWindow_ok:
  assumes ne: "results \<noteq> []" and known: "\<And>s. s \<in> set results \<Longrightarrow> sd_type s \<noteq> kServerUnknown \<and> sd_rtt s \<noteq> None"
    and w: "0 \<le> localThreshold c"
  obtains res where "applyWindow c results = Some res"
    "\<And>kept. res = Inr kept \<Longrightarrow> kept \<noteq> [] \<and> set kept \<subseteq> set results \<and>
       (\<forall>s\<in>set kept. \<forall>s'\<in>set kept. the (sd_rtt s) \<le> the (sd_rtt s') + 1000 * localThreshold c)"
proof -
  obtain x xs where r: "results = x # xs" using ne by (cases results) auto
  let ?m = "minServer x xs"
  let ?lower = "the (sd_rtt ?m)"
  have m: "?m \<in> set results" "\<And>s. s \<in> set results \<Longrightarrow> ?lower \<le> the (sd_rtt s)"
    using minServer_ok [of x xs] known by (auto simp: r)
  show thesis
  proof (cases "windowUpper ?lower (localThreshold c)")
    case (Inl e)
    with m(1) known have "applyWindow c results = Some (Inl e)" by (simp add: applyWindow_def r)
    then show ?thesis by (rule that) simp
  next
    case (Inr upper)
    then have upper: "?lower \<le> upper" "upper \<le> ?lower + 1000 * localThreshold c"
      using w by (auto simp: windowUpper_def split: if_splits)
    let ?kept = "filter (\<lambda>s. isWithinWindow ?lower upper (the (sd_rtt s))) results"
    have "windowFilter ?lower upper results =
        Some (filter (\<lambda>s. (do { invariant (sd_type s \<noteq> kServerUnknown); invariant (sd_rtt s \<noteq> None);
          Some (isWithinWindow ?lower upper (the (sd_rtt s))) }) = Some True) results)"
      unfolding windowFilter_def using known by (intro filterO_total) (simp add: Option.bind_eq_None_conv)
    also have "\<dots> = Some ?kept" using known by (simp cong: filter_cong)
    finally have f: "windowFilter ?lower upper results = Some ?kept" .
    have ne: "?m \<in> set ?kept" using m(1) upper by (simp add: isWithinWindow_def)
    then have ne: "?kept \<noteq> []" by force
    have "applyWindow c results = Some (Inr ?kept)"
      using f ne m(1) known Inr by (simp add: applyWindow_def r)
    then show ?thesis
    proof (rule that)
      fix kept assume "Inr ?kept = (Inr kept :: ServerDescription list StatusWith)"
      then have k: "kept = ?kept" by simp
      show "kept \<noteq> [] \<and> set kept \<subseteq> set results \<and>
          (\<forall>s\<in>set kept. \<forall>s'\<in>set kept. the (sd_rtt s) \<le> the (sd_rtt s') + 1000 * localThreshold c)"
        using ne upper unfolding k by (fastforce simp: isWithinWindow_def)
    qed
  qed
qed

lemma sharded_candidates:
  assumes "td_type t = kSharded"
  shows "getCandidateServers c t (settingForMode Nearest) = Some (Inr (shardedFilter t))"
proof -
  have "filterE (\<lambda>s. matchesTags s [Some []]) xs = Inr xs" for xs :: "ServerDescription list" by (induction xs) simp_all
  moreover have "rp_pref (settingForMode Nearest) = Nearest" "rp_tags (settingForMode Nearest) = [Some []]"
    by (simp_all add: settingForMode_def defaultTagSetForMode_def)
  ultimately show ?thesis
    using assms by (subst getCandidateServers.simps) (simp add: Let_def tagged_def filterTags_def)
qed

text \<open>What a selection may return.\<close>

definition good_selection :: "SdamConfiguration \<Rightarrow> TopologyDescription \<Rightarrow> ReadPreferenceSetting \<Rightarrow> ServerDescription list \<Rightarrow> bool" where
  "good_selection c t r servers \<longleftrightarrow> servers \<noteq> [] \<and> set servers \<subseteq> set (td_servers t) \<and>
     (\<forall>s\<in>set servers. sd_type s \<noteq> kServerUnknown) \<and>
     (td_type t \<in> {kReplicaSetWithPrimary, kReplicaSetNoPrimary} \<longrightarrow>
        (\<forall>s\<in>set servers. typeAllowed t (rp_pref r) s \<and> (wellReported c t r \<longrightarrow> permitted c t (inEffect t r) s))) \<and>
     (td_type t = kSharded \<longrightarrow> (\<forall>s\<in>set servers. sd_type s = kMongos)) \<and>
     (\<forall>s\<in>set servers. \<forall>s'\<in>set servers. the (sd_rtt s) \<le> the (sd_rtt s') + 1000 * localThreshold c)"

lemma good_permitted:
  "good_selection c t r servers \<Longrightarrow> td_type t = kReplicaSetWithPrimary \<Longrightarrow> wellReported c t r \<Longrightarrow>
     \<forall>s\<in>set servers. permitted c t (inEffect t r) s"
  unfolding good_selection_def by blast

lemma eligible_good:
  assumes "sdam_inv t" "s \<in> set (td_servers t)" "td_type t \<in> {kReplicaSetWithPrimary, kReplicaSetNoPrimary}"
    and "eligible c t (effectiveCriteria t r) s"
  shows "typeAllowed t (rp_pref r) s \<and> (wellReported c t r \<longrightarrow> permitted c t (inEffect t r) s)"
  using eligible_type [OF assms(4)] eligible_permitted [OF assms(1) wellReported_inEffect assms(2,3)] assms(4) effective_eq by auto

lemma eligible_known: "eligible c t r s \<Longrightarrow> sd_type s \<noteq> kServerUnknown"
  by (auto simp: eligible_def isPrimary_def usableSecondary_def split: ReadPreference.splits)

lemma window_selection:
  assumes inv: "all_timed t" and w: "0 \<le> localThreshold c" and shuffle: "\<And>xs. mset (shuffle xs) = mset xs"
    and cand: "\<And>s. s \<in> set results \<Longrightarrow> s \<in> set (td_servers t) \<and> sd_type s \<noteq> kServerUnknown \<and> P s"
    and ne: "results \<noteq> []"
  obtains res where "thenC (applyWindow c results) (\<lambda>kept. Some (Inr (Some (shuffle kept)))) = Some res"
    "\<And>servers. res = Inr (Some servers) \<Longrightarrow> servers \<noteq> [] \<and> set servers \<subseteq> set results \<and>
       (\<forall>s\<in>set servers. \<forall>s'\<in>set servers. the (sd_rtt s) \<le> the (sd_rtt s') + 1000 * localThreshold c)"
proof -
  have known: "sd_type s \<noteq> kServerUnknown \<and> sd_rtt s \<noteq> None" if "s \<in> set results" for s
    using cand [OF that] inv by (auto simp: all_timed_def timed_def)
  obtain res where res: "applyWindow c results = Some res"
    and kept: "\<And>kept. res = Inr kept \<Longrightarrow> kept \<noteq> [] \<and> set kept \<subseteq> set results \<and>
       (\<forall>s\<in>set kept. \<forall>s'\<in>set kept. the (sd_rtt s) \<le> the (sd_rtt s') + 1000 * localThreshold c)"
    using applyWindow_ok [OF ne known w] by metis
  have same: "set (shuffle xs) = set xs" "shuffle xs = [] \<longleftrightarrow> xs = []" for xs
    using shuffle [of xs] by (metis set_mset_mset, metis mset_zero_iff_right)
  show thesis
  proof (cases res)
    case (Inl e)
    with res show ?thesis using that by simp
  next
    case (Inr k)
    have "thenC (applyWindow c results) (\<lambda>kept. Some (Inr (Some (shuffle kept)))) = Some (Inr (Some (shuffle k)))"
      using res Inr by simp
    then show ?thesis by (rule that) (use kept [OF Inr] same in auto)
  qed
qed

text \<open>Three members answer, with the date and optime of their last write; the second has a tag, which a read asks for.\<close>

lemma wellReported_code [code]:
  "wellReported c t r =
     ((rp_maxStalenessSeconds r \<noteq> 0 \<longrightarrow> 0 \<le> heartbeatFrequency c \<and> heartbeatFrequency c < 2 ^ 60 \<and>
        list_all (\<lambda>s. isPrimary s \<or> sd_type s = kRSSecondary \<longrightarrow>
          (case sd_lastWriteDate s of None \<Rightarrow> False | Some d \<Rightarrow> 0 \<le> d \<and> d < 2 ^ 60) \<and>
          0 \<le> sd_lastUpdateTime s \<and> sd_lastUpdateTime s < 2 ^ 60) (td_servers t)) \<and>
      op_regular (rp_minOpTime r) \<and>
      list_all (\<lambda>s. case sd_opTime s of None \<Rightarrow> True | Some p \<Rightarrow> op_regular p) (td_servers t))"
  by (auto simp: wellReported_def list_all_iff split: option.split)

definition datedReply :: "HostAndPort \<Rightarrow> bool \<Rightarrow> Date_t \<Rightarrow> (string \<times> string field) list \<Rightarrow> SdamEvent" where
  "datedReply a primary written tags = (case samplePrimaryReply a 2 5 of
     IsMasterReply _ out \<Rightarrow> IsMasterReply 100000 (out\<lparr>out_response := map_option (\<lambda>r. r\<lparr>r_ismaster := primary, r_secondary := \<not> primary,
       r_lastWriteDate := Present written, r_opTimeTs := Present (Timestamp 9 1), r_opTimeTerm := Present 3, r_tags := tags\<rparr>) (out_response out)\<rparr>)
   | e \<Rightarrow> e)"

definition datedHistory :: "SdamEvent list" where
  "datedHistory = [datedReply hostA True 99000 [], datedReply hostB False 98000 [(''dc'', Present ''east'')],
     datedReply \<lparr>hostname = ''c'', port = 1\<rparr> False 97000 []]"

definition datedManager :: TopologyManager where
  "datedManager = the (sdam_run (newTopologyManager sampleSdamConfiguration) datedHistory)"

definition eastReads :: ReadPreferenceSetting where
  "eastReads = \<lparr>rp_pref = SecondaryOnly, rp_tags = [Some [(''dc'', Present ''east'')]], rp_maxStalenessSeconds = 90, rp_hedgingMode = None,
     rp_minOpTime = OpTime (Timestamp 9 1) 3\<rparr>"

lemma datedManager_reachable: "sdam_reachable sampleSdamConfiguration datedManager"
proof -
  have "sdam_run (newTopologyManager sampleSdamConfiguration) datedHistory \<noteq> None" by code_simp
  then have "sdam_run (newTopologyManager sampleSdamConfiguration) datedHistory = Some datedManager" by (auto simp: datedManager_def)
  then show ?thesis by (rule sdam_run_reachable [OF sdam_start [OF initial_ok_sample]])
qed

text \<open>(C27) Server selection over any reachable topology ends: none of its assertions fires, whatever the read preference. When it returns
  servers, they are known servers of the topology, in a replica set of a type that the mode allows (the primary for a write or for
  \<open>primaryPreferred\<close> whenever there is one, secondaries for a secondary read), in a sharded cluster routers; and their latencies lie within
  the configured window of each other. In a replica set every one of them is moreover permitted by the setting in effect: it has reached the optime, has all tags of one
  of the tag documents, and its staleness, computed from the reports without wrap-around, is within the bound; and the primary is taken for
  \<open>secondaryPreferred\<close> only when there is no such secondary. This needs that every member reports the date of its last write when there is a
  staleness bound (a secondary that does not always counts as fresh, \<open>missing_write_date_is_fresh\<close>). The setting in effect is the caller's, unless no member has
  reached its optime: then the default setting of its mode is, so that tags and staleness are not asked for
  either (\<open>min_optime_fallback_drops_tags\<close>; the comment in the code speaks of the optime only).\<close>

theorem server_selection_sound:
  assumes "sdam_reachable c m" "0 \<le> localThreshold c" "\<And>xs. mset (shuffle xs) = mset xs"
  defines "t \<equiv> tm_topology m"
  shows "\<exists>res. selectServers heartbeatParam shuffle c t r = Some res \<and>
    (\<forall>servers. res = Inr (Some servers) \<longrightarrow> good_selection c t r servers)"
proof -
  have inv: "sdam_inv t" and timed: "all_timed t"
    using assms(1) by (simp_all add: t_def sdam_reachable_inv sdam_reachable_timed)
  let ?r = "if td_type t \<noteq> kSharded then r else settingForMode Nearest"
  let ?checks = "if rp_maxStalenessSeconds r = 0 then Inr ()
    else ifOK (verifyMaxstalenessLowerBound heartbeatParam t (rp_maxStalenessSeconds ?r)) (\<lambda>_. verifyMaxstalenessWireVersions t)"
  consider "\<not> td_compatible t \<or> (\<exists>e. ?checks = Inl e)" | "td_compatible t" "?checks = Inr ()" "td_type t = kTopologyUnknown"
    | "td_compatible t" "?checks = Inr ()" "td_type t = kSingle"
    | "td_compatible t" "?checks = Inr ()" "td_type t \<noteq> kTopologyUnknown" "td_type t \<noteq> kSingle"
    by (cases ?checks) auto
  then show ?thesis
  proof cases
    case 1
    then show ?thesis unfolding selectServers_def Let_def by (cases "td_compatible t") auto
  next
    case 2
    then show ?thesis unfolding selectServers_def Let_def by simp
  next
    case 3
    then show ?thesis
      using assms(2) unfolding selectServers_def Let_def
      by (auto simp: good_selection_def split: list.splits if_splits)
  next
    case 4
    let ?ok = "\<lambda>s. s \<in> set (td_servers t) \<and> sd_type s \<noteq> kServerUnknown \<and>
      (if td_type t = kSharded then sd_type s = kMongos else eligible c t (effectiveCriteria t r) s)"
    obtain cand where cand: "getCandidateServers c t ?r = Some cand" "\<And>ss s. cand = Inr ss \<Longrightarrow> s \<in> set ss \<Longrightarrow> ?ok s"
    proof (cases "td_type t = kSharded")
      case True
      have "getCandidateServers c t ?r = Some (Inr (shardedFilter t))" using sharded_candidates [OF True] True by simp
      then show ?thesis by (rule that) (use True in \<open>auto simp: shardedFilter_def findServers_def\<close>)
    next
      case False
      obtain res where "getCandidateServers c t r = Some res"
        "\<And>ss. res = Inr ss \<Longrightarrow> set ss \<subseteq> {s \<in> set (td_servers t). eligible c t (effectiveCriteria t r) s}"
        using candidates_ok [OF inv False refl, of c r] by metis
      with False have "?ok s" if "res = Inr ss" "s \<in> set ss" for ss s using that eligible_known by auto
      with False \<open>getCandidateServers c t r = Some res\<close> show ?thesis using that [of res] by simp
    qed
    have sel: "selectServers heartbeatParam shuffle c t r = thenC (Some cand) (\<lambda>results. if results = [] then Some (Inr None)
        else thenC (applyWindow c results) (\<lambda>kept. Some (Inr (Some (shuffle kept)))))"
      unfolding selectServers_def Let_def 4(2) cand(1) using 4 by simp
    show ?thesis
    proof (cases "\<exists>ss. cand = Inr ss \<and> ss \<noteq> []")
      case False
      then show ?thesis using sel by (cases cand) auto
    next
      case True
      then obtain ss where ss: "cand = Inr ss" "ss \<noteq> []" by blast
      obtain res where res: "thenC (applyWindow c ss) (\<lambda>kept. Some (Inr (Some (shuffle kept)))) = Some res"
        and good: "\<And>servers. res = Inr (Some servers) \<Longrightarrow> servers \<noteq> [] \<and> set servers \<subseteq> set ss \<and>
          (\<forall>s\<in>set servers. \<forall>s'\<in>set servers. the (sd_rtt s) \<le> the (sd_rtt s') + 1000 * localThreshold c)"
        using window_selection [where P = ?ok, OF timed assms(2,3) _ ss(2)] cand(2) [OF ss(1)] by metis
      have "good_selection c t r servers" if "res = Inr (Some servers)" for servers
        using good [OF that] cand(2) [OF ss(1)] eligible_good [OF inv, of _ c r] unfolding good_selection_def by (auto split: if_splits)
      then show ?thesis using sel ss res by auto
    qed
  qed
qed

theorem server_selection_sound_witness:
  "\<exists>servers. selectServers 10000 rev sampleSdamConfiguration (tm_topology datedManager) eastReads = Some (Inr (Some servers)) \<and>
    map sd_address servers = [hostB] \<and>
    good_selection sampleSdamConfiguration (tm_topology datedManager) eastReads servers \<and>
    (\<forall>s\<in>set servers. permitted sampleSdamConfiguration (tm_topology datedManager) eastReads s)"
proof -
  let ?c = sampleSdamConfiguration and ?t = "tm_topology datedManager"
  let ?sel = "selectServers 10000 rev ?c ?t eastReads"
  have run: "(case ?sel of Some (Inr (Some servers)) \<Rightarrow> map sd_address servers = [hostB] | _ \<Rightarrow> False)" by code_simp
  have "0 \<le> localThreshold ?c" by code_simp
  from server_selection_sound [OF datedManager_reachable this, of rev 10000 eastReads]
  obtain res where res: "?sel = Some res" and good: "\<And>servers. res = Inr (Some servers) \<Longrightarrow> good_selection ?c ?t eastReads servers"
    by auto
  from run [unfolded res] obtain servers where servers: "res = Inr (Some servers)" "map sd_address servers = [hostB]"
    by (simp split: option.splits sum.splits)
  have well: "td_type ?t = kReplicaSetWithPrimary" "wellReported ?c ?t eastReads" by code_simp+
  have "list_ex (\<lambda>s. isPrimary s \<and> sd_opTime s = Some (OpTime (Timestamp 9 1) 3)) (td_servers ?t)" by code_simp
  then obtain p where p: "p \<in> set (td_servers ?t)" "isPrimary p" "sd_opTime p = Some (rp_minOpTime eastReads)"
    unfolding list_ex_iff by (auto simp: eastReads_def)
  then have same: "inEffect ?t eastReads = eastReads" by (rule inEffect_reached)
  show ?thesis
  proof (intro exI conjI)
    show "?sel = Some (Inr (Some servers))" unfolding res servers(1) ..
    show "map sd_address servers = [hostB]" by (rule servers(2))
    show "good_selection ?c ?t eastReads servers" by (rule good [OF servers(1)])
    show "\<forall>s\<in>set servers. permitted ?c ?t eastReads s"
      using good_permitted [OF good [OF servers(1)] well] unfolding same .
  qed
qed

text \<open>
  A secondary that reports no date of its last write is measured against the smallest date: the subtraction wraps and the
  secondary counts as fresher than any bound. And when no member has reached the requested optime, not only the optime is
  ignored: the tags and the staleness bound of the caller are replaced as well.
\<close>

definition sampleSecondary :: ServerDescription where
  "sampleSecondary = (unknownServer hostB)\<lparr>sd_type := kRSSecondary, sd_rtt := Some 1, sd_lastUpdateTime := 1000000\<rparr>"

definition samplePrimary :: ServerDescription where
  "samplePrimary = (unknownServer hostA)\<lparr>sd_type := kRSPrimary, sd_rtt := Some 1, sd_lastUpdateTime := 1000000,
     sd_lastWriteDate := Some 1000000, sd_opTime := Some (OpTime (Timestamp 1 1) 1)\<rparr>"

definition sampleTopology :: TopologyDescription where
  "sampleTopology = (newTopologyDescription sampleSdamConfiguration)\<lparr>td_type := kReplicaSetWithPrimary,
     td_servers := [samplePrimary, sampleSecondary]\<rparr>"

lemma missing_write_date_is_fresh:
  "map_option (\<lambda>staleness. staleness < 0) (calculateStaleness sampleSdamConfiguration sampleTopology sampleSecondary) = Some True"
  by code_simp

lemma min_optime_fallback_drops_tags:
  "effectiveCriteria sampleTopology \<lparr>rp_pref = SecondaryOnly, rp_tags = [Some [(''dc'', Present ''east'')]], rp_maxStalenessSeconds = 90,
      rp_hedgingMode = None, rp_minOpTime = OpTime (Timestamp 2 1) 1\<rparr> = settingForMode SecondaryOnly"
  by code_simp

end
