(* ===== verification/RadixStore.thy ===== *)
theory RadixStore
  imports Prelude "HOL-Library.List_Lexorder"
begin

text \<open>
  \<^verbatim>\<open>db/storage/biggie/store.h\<close>: the path-compressed radix tree that holds all data of the in-memory storage engine, as
  \<open>StringStore\<close> instantiates it. Copies of a store share nodes; a shared node is copied before it is changed. The model is a tree in which
  a change builds new nodes along the path, which is what the other owners of a node see.

  Whether two slots hold the same pointer matters to the three-way merge only. A node carries the \<open>stamp\<close> of the operation
  that wrote it last: two stores have the same pointer in a slot just when the nodes there have the same stamp, since stamps are given out
  once. A node that is changed in place, being owned by one store, is in no other store, so its new stamp
  changes no comparison.

  The array of 256 children is the list of its entries that are not null, in the order of their indices. The key and the value in a node are
  its \<open>data\<close>. Undefined behaviour (a value taken from \<^verbatim>\<open>boost::none\<close>, the first element of an empty vector, a
  null pointer) and exceptions that are not caught are \<open>None\<close>.
\<close>

type_synonym byte = "8 word"
type_synonym bytes = "byte list"

datatype node = Node (stamp: nat) (depth: nat) (trieKey: bytes) (data: "(bytes \<times> bytes) option") (children: "(byte \<times> node) list")

record Head =
  root :: node
  count :: int
  dataSize :: int

definition emptyHead :: Head where
  "emptyHead = \<lparr>root = Node 0 0 [] None [], count = 0, dataSize = 0\<rparr>"

definition isLeaf :: "node \<Rightarrow> bool" where
  "isLeaf n \<longleftrightarrow> children n = []"

definition store_empty :: "Head \<Rightarrow> bool" where
  "store_empty s \<longleftrightarrow> isLeaf (root s) \<and> data (root s) = None"

subsection \<open>Children and keys\<close>

fun setChild :: "byte \<Rightarrow> node \<Rightarrow> (byte \<times> node) list \<Rightarrow> (byte \<times> node) list" where
  "setChild c n [] = [(c, n)]"
| "setChild c n ((k, m) # cs) =
     (if c < k then (c, n) # (k, m) # cs else if c = k then (c, n) # cs else (k, m) # setChild c n cs)"

definition clearChild :: "byte \<Rightarrow> (byte \<times> node) list \<Rightarrow> (byte \<times> node) list" where
  "clearChild c cs = filter (\<lambda>(k, m). k \<noteq> c) cs"

text \<open>A string ends with a zero byte, which can be read.\<close>

definition byteAt :: "bytes \<Rightarrow> nat \<Rightarrow> byte" where
  "byteAt key i = (if i < length key then key ! i else 0)"

fun comparePrefix :: "bytes \<Rightarrow> bytes \<Rightarrow> nat" where
  "comparePrefix (x # xs) (y # ys) = (if x \<noteq> y then 0 else Suc (comparePrefix xs ys))"
| "comparePrefix _ _ = 0"

lemma child_size: "map_of cs c = Some n \<Longrightarrow> size n < Suc (size_list (size_prod (\<lambda>_. 0) size) cs)"
  by (induction cs) (auto split: if_splits)

subsection \<open>Lookup\<close>

text \<open>The loop of \<open>_findNode\<close> from a child on.\<close>

function findAt :: "bytes \<Rightarrow> node \<Rightarrow> node option" where
  "findAt key n =
     (let m = comparePrefix (trieKey n) (drop (depth n) key)
      in if m \<noteq> length (trieKey n) then None
         else if m = length key - depth n \<and> data n \<noteq> None then Some n
         else case map_of (children n) (byteAt key (depth n + length (trieKey n))) of
                None \<Rightarrow> None
              | Some c \<Rightarrow> findAt key c)"
  by pat_completeness auto

termination findAt
proof (relation "measure (\<lambda>(key, n). size n)", goal_cases)
  case (2 key n m c)
  then show ?case using child_size by (cases n) auto
qed simp

declare findAt.simps [simp del]

text \<open>
  The root of a subtree has a key of its own. Its bytes are compared with the characters of the search key, which are signed: a byte of
  128 or more never compares equal.
\<close>

fun matchRoot :: "bytes \<Rightarrow> nat \<Rightarrow> bytes \<Rightarrow> bool option" where
  "matchRoot key d [] = Some False"
| "matchRoot key d (t # ts) =
     (if sint (byteAt key d) \<noteq> uint t then None
      else if d + 1 = length key then Some True
      else matchRoot key (d + 1) ts)"

definition findNode :: "bytes \<Rightarrow> node \<Rightarrow> node option" where
  "findNode key r =
     (case matchRoot key (depth r) (trieKey r) of
        None \<Rightarrow> None
      | Some True \<Rightarrow> Some r
      | Some False \<Rightarrow>
          (case map_of (children r) (byteAt key (depth r + length (trieKey r))) of
             None \<Rightarrow> None
           | Some c \<Rightarrow> findAt key c))"

definition find :: "bytes \<Rightarrow> Head \<Rightarrow> (bytes \<times> bytes) option" where
  "find key s = (case findNode key (root s) of None \<Rightarrow> None | Some n \<Rightarrow> data n)"

subsection \<open>Insertion and update\<close>

definition addChild :: "nat \<Rightarrow> node \<Rightarrow> bytes \<Rightarrow> (bytes \<times> bytes) option \<Rightarrow> node option" where
  "addChild v n key value =
     (if key = [] then None
      else Some (Node v (depth n) (trieKey n) (data n)
             (setChild (hd key) (Node v (depth n + length (trieKey n)) key value []) (children n))))"

definition compressOnlyChild :: "nat \<Rightarrow> node \<Rightarrow> node option" where
  "compressOnlyChild v n =
     (if data n \<noteq> None \<or> trieKey n = [] then Some n
      else case children n of
             [] \<Rightarrow> None
           | [(_, c)] \<Rightarrow> Some (Node v (depth n) (trieKey n @ trieKey c) (data c) (children c))
           | _ \<Rightarrow> Some n)"

text \<open>Splitting \<open>n\<close> after the first \<open>m\<close> bytes of its key; \<open>d\<close> is the depth of the slot it is in.\<close>

definition splitNode :: "nat \<Rightarrow> bytes \<Rightarrow> (bytes \<times> bytes) option \<Rightarrow> nat \<Rightarrow> nat \<Rightarrow> node \<Rightarrow> (node \<times> int \<times> int) option" where
  "splitNode v key value d m n = do {
     x \<leftarrow> value;
     invariant (0 < m);
     let new = Node v d (take m (trieKey n)) None [];
     new1 \<leftarrow> (if length key - (d + m) \<noteq> 0 then addChild v new (drop (d + m) key) value
              else Some (Node v d (take m (trieKey n)) value []));
     let rest = drop m (trieKey n);
     let moved = Node v (d + m) rest (data n) (children n);
     Some (Node v d (trieKey new1) (data new1) (setChild (hd rest) moved (children new1)), 1, int (length (snd x))) }"

definition addedSize :: "(bytes \<times> bytes) option \<Rightarrow> int" where
  "addedSize value = (case value of None \<Rightarrow> 0 | Some x \<Rightarrow> int (length (snd x)))"

text \<open>
  The loop of \<open>_upsertWithCopyOnSharedNodes\<close> from a child in a slot of depth \<open>d\<close> on: the node for that slot and the changes of the
  number of entries and of the size of the data.
\<close>

function upsertAt :: "nat \<Rightarrow> bytes \<Rightarrow> (bytes \<times> bytes) option \<Rightarrow> nat \<Rightarrow> node \<Rightarrow> (node \<times> int \<times> int) option" where
  "upsertAt v key value d n =
     (let m = comparePrefix (trieKey n) (drop d key)
      in if m \<noteq> length (trieKey n) then splitNode v key value d m n
         else if m = length key - d then
           let removedCount = (if data n \<noteq> None then -1 else 0);
               removedSize = - addedSize (data n)
           in (case value of
                 None \<Rightarrow> do {
                   n' \<leftarrow> compressOnlyChild v (Node v (depth n) (trieKey n) None (children n));
                   Some (n', removedCount, removedSize) }
               | Some x \<Rightarrow> Some (Node v (depth n) (trieKey n) (Some x) (children n), removedCount + 1, removedSize + addedSize value))
         else
           let d' = depth n + length (trieKey n)
           in case map_of (children n) (byteAt key d') of
                None \<Rightarrow> do {
                  x \<leftarrow> value;
                  n' \<leftarrow> addChild v n (drop d' key) value;
                  Some (n', 1, addedSize value) }
              | Some c \<Rightarrow> do {
                  (c', dc, ds) \<leftarrow> upsertAt v key value d' c;
                  Some (Node v (depth n) (trieKey n) (data n) (setChild (byteAt key d') c' (children n)), dc, ds) })"
  by pat_completeness auto

termination upsertAt
proof (relation "measure (\<lambda>(v, key, value, d, n). size n)", goal_cases)
  case (2 v key x d n m e c)
  then show ?case using child_size by (cases n) auto
qed simp

declare upsertAt.simps [simp del]

definition upsert :: "nat \<Rightarrow> bytes \<Rightarrow> (bytes \<times> bytes) option \<Rightarrow> Head \<Rightarrow> Head option" where
  "upsert v key value s =
     (let r = root s; d = depth r + length (trieKey r)
      in case map_of (children r) (byteAt key d) of
           None \<Rightarrow> do {
             x \<leftarrow> value;
             r' \<leftarrow> addChild v r (drop d key) value;
             Some (s\<lparr>root := r', count := count s + 1, dataSize := dataSize s + addedSize value\<rparr>) }
         | Some c \<Rightarrow> do {
             (c', dc, ds) \<leftarrow> upsertAt v key value d c;
             Some (s\<lparr>root := Node v (depth r) (trieKey r) (data r) (setChild (byteAt key d) c' (children r)),
                     count := count s + dc, dataSize := dataSize s + ds\<rparr>) })"

definition insertKey :: "nat \<Rightarrow> bytes \<Rightarrow> bytes \<Rightarrow> Head \<Rightarrow> (bool \<times> Head) option" where
  "insertKey v key value s =
     (if findNode key (root s) \<noteq> None \<or> length key = 0 then Some (False, s)
      else map_option (Pair True) (upsert v key (Some (key, value)) s))"

definition updateKey :: "nat \<Rightarrow> bytes \<Rightarrow> bytes \<Rightarrow> Head \<Rightarrow> (bool \<times> Head) option" where
  "updateKey v key value s =
     (if findNode key (root s) = None then Some (False, s)
      else map_option (Pair True) (upsert v key (Some (key, value)) s))"

subsection \<open>Removal\<close>

text \<open>
  The outcome of following a key to its end: no such path, a node that is not a leaf, or a leaf that was removed, with
  the new node and the size of the data removed.
\<close>

datatype erased = NoPath | Interior | Removed node nat

function eraseBelow :: "nat \<Rightarrow> bytes \<Rightarrow> node \<Rightarrow> erased option" where
  "eraseBelow v key n =
     (let c = byteAt key (depth n + length (trieKey n))
      in case map_of (children n) c of
           None \<Rightarrow> Some NoPath
         | Some ch \<Rightarrow>
             let d = depth n + length (trieKey n);
                 p = comparePrefix (trieKey ch) (drop d key)
             in if p \<noteq> length (trieKey ch) then Some NoPath
                else if depth ch + length (trieKey ch) < length key then do {
                  e \<leftarrow> eraseBelow v key ch;
                  Some (case e of
                          Removed ch' k \<Rightarrow> Removed (Node v (depth n) (trieKey n) (data n) (setChild c ch' (children n))) k
                        | other \<Rightarrow> other) }
                else if \<not> isLeaf ch then Some Interior
                else do {
                  x \<leftarrow> data ch;
                  n' \<leftarrow> compressOnlyChild v (Node v (depth n) (trieKey n) (data n) (clearChild (hd (trieKey ch)) (children n)));
                  Some (Removed n' (length (snd x))) })"
  by pat_completeness auto

termination eraseBelow
proof (relation "measure (\<lambda>(v, key, n). size n)", goal_cases)
  case (2 v key n c ch d p)
  then show ?case using child_size by (cases n) auto
qed simp

declare eraseBelow.simps [simp del]

text \<open>The empty key leads to the root, which has no parent: the access to it throws or is undefined.\<close>

definition erase :: "nat \<Rightarrow> bytes \<Rightarrow> Head \<Rightarrow> (bool \<times> Head) option" where
  "erase v key s =
     (if length key \<le> depth (root s) + length (trieKey (root s)) then None
      else do {
        e \<leftarrow> eraseBelow v key (root s);
        (case e of
           NoPath \<Rightarrow> Some (False, s)
         | Interior \<Rightarrow> map_option (Pair True) (upsert v key None s)
         | Removed r k \<Rightarrow> Some (True, s\<lparr>root := r, count := count s - 1, dataSize := dataSize s - int k\<rparr>)) })"

subsection \<open>Iteration\<close>

text \<open>
  An iterator is at a node with data or, as \<open>None\<close>, at the end; the outer option is the one for undefined behaviour, which here
  includes a loop that does not end. \<open>_begin\<close> and \<open>_traverseLeftSubtree\<close> go to the first node with data, the first of them from the node on,
  the second strictly below it.
\<close>

fun beginNode :: "node \<Rightarrow> node option" where
  "beginNode (Node v d k (Some x) cs) = Some (Node v d k (Some x) cs)"
| "beginNode (Node v d k None []) = None"
| "beginNode (Node v d k None ((b, c) # cs)) = beginNode c"

definition traverseLeftSubtree :: "node \<Rightarrow> node option" where
  "traverseLeftSubtree n = (case children n of [] \<Rightarrow> None | (b, c) # _ \<Rightarrow> beginNode c)"

text \<open>The path from a node to the key, with the deepest node first.\<close>

function buildContext :: "bytes \<Rightarrow> node \<Rightarrow> node list \<Rightarrow> node list option" where
  "buildContext key n ctx =
     (let d = depth n + length (trieKey n)
      in if d < length key then
           (case map_of (children n) (byteAt key d) of
              None \<Rightarrow> None
            | Some c \<Rightarrow> buildContext key c (n # ctx))
         else Some (n # ctx))"
  by pat_completeness auto

termination buildContext
proof (relation "measure (\<lambda>(key, n, ctx). size n)", goal_cases)
  case (2 key n ctx d c)
  then show ?case using child_size by (cases n) auto
qed simp

declare buildContext.simps [simp del]

text \<open>Going up from \<open>n\<close>: the first node with data to the right of the path.\<close>

fun climb :: "node \<Rightarrow> node list \<Rightarrow> node option option" where
  "climb n [] = Some None"
| "climb n (p # ps) =
     (case filter (\<lambda>(b, c). hd (trieKey n) < b) (children p) of
        [] \<Rightarrow> climb p ps
      | (b, c) # _ \<Rightarrow> map_option Some (beginNode c))"

definition findNext :: "node \<Rightarrow> node \<Rightarrow> node option option" where
  "findNext r n =
     (if \<not> isLeaf n then map_option Some (traverseLeftSubtree n)
      else do {
        x \<leftarrow> data n;
        ctx \<leftarrow> buildContext (fst x) r [];
        (case ctx of [] \<Rightarrow> None | m # ps \<Rightarrow> climb m ps) })"

definition store_begin :: "Head \<Rightarrow> node option option" where
  "store_begin s = (if store_empty s then Some None else map_option Some (beginNode (root s)))"

lemma member_size: "x \<in> set cs \<Longrightarrow> size (snd x) < Suc (size_list (size_prod (\<lambda>_. 0) size) cs)"
  by (induction cs) auto

text \<open>
  The reverse iterator: to the rightmost leaf, and going up from \<open>n\<close> to the last node with data to the left of the path or on it.
\<close>

function traverseRightSubtree :: "node \<Rightarrow> node" where
  "traverseRightSubtree n = (if children n = [] then n else traverseRightSubtree (snd (last (children n))))"
  by pat_completeness auto

termination traverseRightSubtree
proof (relation "measure size", goal_cases)
  case (2 n)
  then have "last (children n) \<in> set (children n)" by simp
  from member_size [OF this] 2 show ?case by (cases n) auto
qed simp

declare traverseRightSubtree.simps [simp del]

fun climbReverse :: "node \<Rightarrow> node list \<Rightarrow> node option" where
  "climbReverse n [] = None"
| "climbReverse n (p # ps) =
     (case filter (\<lambda>(b, c). b < hd (trieKey n)) (children p) of
        [] \<Rightarrow> if data p \<noteq> None then Some p else climbReverse p ps
      | c # cs \<Rightarrow> Some (traverseRightSubtree (snd (last (c # cs)))))"

definition findNextReverse :: "node \<Rightarrow> node \<Rightarrow> node option option" where
  "findNextReverse r n = do {
     x \<leftarrow> data n;
     ctx \<leftarrow> buildContext (fst x) r [];
     (case ctx of [] \<Rightarrow> None | m # ps \<Rightarrow> Some (climbReverse m ps)) }"

definition store_rbegin :: "Head \<Rightarrow> node option" where
  "store_rbegin s = (if isLeaf (root s) then None else Some (traverseRightSubtree (root s)))"

text \<open>\<open>operator==\<close>: both stores are walked through together.\<close>

partial_function (option) sameEntries :: "node \<Rightarrow> node \<Rightarrow> node option \<Rightarrow> node option \<Rightarrow> bool option" where
  "sameEntries r r' i j =
     (case i of
        None \<Rightarrow> Some (j = None)
      | Some n \<Rightarrow>
          (case j of
             None \<Rightarrow> Some False
           | Some n' \<Rightarrow>
               if data n \<noteq> data n' then Some False
               else Option.bind (findNext r n) (\<lambda>i'. Option.bind (findNext r' n') (\<lambda>j'. sameEntries r r' i' j'))))"

definition store_equals :: "Head \<Rightarrow> Head \<Rightarrow> bool option" where
  "store_equals s t =
     (if count s \<noteq> count t \<or> dataSize s \<noteq> dataSize t then Some False
      else do {
        i \<leftarrow> store_begin s;
        j \<leftarrow> store_begin t;
        sameEntries (root s) (root t) i j })"

subsection \<open>Search for the least key that is not smaller\<close>

text \<open>
  The first loop of \<open>lower_bound\<close>: the node found, or the places to search, the innermost first, each a node and the index of
  the first child to look at.
\<close>

function lowerDown :: "bytes \<Rightarrow> nat \<Rightarrow> node \<Rightarrow> (node \<times> nat) list \<Rightarrow> (node + (node \<times> nat) list) option" where
  "lowerDown key d n ctx =
     (if d < length key then
        let idx = byteAt key d;
            ctx1 = (if idx \<noteq> 255 then (n, Suc (unat idx)) # ctx else ctx)
        in case map_of (children n) idx of
             None \<Rightarrow> Some (Inr ctx1)
           | Some c \<Rightarrow>
               let m = comparePrefix (trieKey c) (drop d key)
               in if m < length (trieKey c) then
                    if m = length key - d \<or> trieKey c ! m > byteAt key (m + d) then
                      if data c \<noteq> None then Some (Inl c) else Some (Inr ((c, 0) # ctx1))
                    else Some (Inr ctx1)
                  else lowerDown key (depth c + length (trieKey c)) c ctx1
      else if d = length key then
        if data n \<noteq> None then Some (Inl n)
        else (case ctx of [] \<Rightarrow> None | _ # ctx' \<Rightarrow> Some (Inr ((n, 0) # ctx')))
      else Some (Inr ctx))"
  by pat_completeness auto

termination lowerDown
proof (relation "measure (\<lambda>(key, d, n, ctx). size n)", goal_cases)
  case (2 key d n ctx idx ctx1 c m)
  then show ?case using child_size by (cases n) auto
qed simp

declare lowerDown.simps [simp del]

text \<open>The second loop.\<close>

lemma filter_child_size: "filter P cs = (b, c) # r \<Longrightarrow> size c < Suc (size_list (size_prod (\<lambda>_. 0) size) cs)"
  by (induction cs) (auto split: if_splits)

function searchRight :: "(node \<times> nat) list \<Rightarrow> node option" where
  "searchRight [] = None"
| "searchRight ((n, i) # ctx) =
     (case filter (\<lambda>(b, c). i \<le> unat b) (children n) of
        [] \<Rightarrow> searchRight ctx
      | (b, c) # _ \<Rightarrow> if data c \<noteq> None then Some c else searchRight ((c, 0) # ctx))"
  by pat_completeness auto

termination searchRight
proof (relation "measure (\<lambda>ctx. sum_list (map (\<lambda>x. Suc (size (fst x))) ctx))", goal_cases)
  case (3 n i ctx x r b c)
  then show ?case using filter_child_size by (cases n) auto
qed simp_all

declare searchRight.simps(2) [simp del]

definition lower_bound :: "bytes \<Rightarrow> Head \<Rightarrow> node option option" where
  "lower_bound key s = do {
     e \<leftarrow> lowerDown key 0 (root s) [];
     Some (case e of Inl n \<Rightarrow> Some n | Inr ctx \<Rightarrow> searchRight ctx) }"

definition upper_bound :: "bytes \<Rightarrow> Head \<Rightarrow> node option option" where
  "upper_bound key s = do {
     it \<leftarrow> lower_bound key s;
     (case it of
        None \<Rightarrow> Some None
      | Some n \<Rightarrow> (do {
          x \<leftarrow> data n;
          if fst x = key then findNext (root s) n else Some (Some n) })) }"

text \<open>
  \<open>repositionIfChanged\<close> of both iterators: the store has a later version, the last of them \<open>s\<close>. Keys are compared as
  strings, whose characters compare as unsigned.
\<close>

definition repositionIfChanged :: "Head \<Rightarrow> node option \<Rightarrow> node option option" where
  "repositionIfChanged s current =
     (case current of
        None \<Rightarrow> Some None
      | Some n \<Rightarrow> (do {
          x \<leftarrow> data n;
          lower_bound (fst x) s }))"

definition repositionReverse :: "Head \<Rightarrow> node option \<Rightarrow> node option option" where
  "repositionReverse s current =
     (case current of
        None \<Rightarrow> Some None
      | Some n \<Rightarrow> (do {
          x \<leftarrow> data n;
          it \<leftarrow> lower_bound (fst x) s;
          (case it of
             None \<Rightarrow> Some (store_rbegin s)
           | Some m \<Rightarrow> (do {
               y \<leftarrow> data m;
               if fst x < fst y then findNextReverse (root s) m else Some (Some m) })) }))"

end
