(* ===== verification/RadixProps.thy ===== *)
theory RadixProps
  imports RadixStore "HOL-Library.Sublist"
begin

text \<open>
  The radix store refines a finite map from keys to values: every operation keeps the shape of the tree, does what the operation on the
  map does, and never runs into undefined behaviour; iteration gives the entries in the order of their keys.
\<close>

subsection \<open>Prefixes\<close>

lemma comparePrefix_le: "comparePrefix xs ys \<le> length xs" "comparePrefix xs ys \<le> length ys"
  by (induction xs ys rule: comparePrefix.induct) auto

lemma comparePrefix_take: "take (comparePrefix xs ys) xs = take (comparePrefix xs ys) ys"
  by (induction xs ys rule: comparePrefix.induct) auto

lemma comparePrefix_all: "comparePrefix xs ys = length xs \<longleftrightarrow> prefix xs ys"
  by (induction xs ys rule: comparePrefix.induct) auto

lemma comparePrefix_differ:
  "comparePrefix xs ys < length xs \<Longrightarrow> comparePrefix xs ys < length ys \<Longrightarrow> xs ! comparePrefix xs ys \<noteq> ys ! comparePrefix xs ys"
  by (induction xs ys rule: comparePrefix.induct) auto

lemma comparePrefix_pos: "xs \<noteq> [] \<Longrightarrow> ys \<noteq> [] \<Longrightarrow> hd xs = hd ys \<Longrightarrow> 0 < comparePrefix xs ys"
  by (cases xs; cases ys) auto

lemma drop_prefix: "prefix p key \<Longrightarrow> p @ drop (length p) key = key"
  by (auto simp: prefix_def)

lemma prefix_drop_iff: "prefix p key \<Longrightarrow> prefix k (drop (length p) key) \<longleftrightarrow> prefix (p @ k) key"
  by (auto simp: prefix_def)

lemma byteAt_less [simp]: "i < length key \<Longrightarrow> byteAt key i = key ! i"
  by (simp add: byteAt_def)

subsection \<open>Children\<close>

definition sorted_children :: "(byte \<times> node) list \<Rightarrow> bool" where
  "sorted_children cs \<longleftrightarrow> sorted_wrt (<) (map fst cs)"

lemma sorted_children_simps [simp]:
  "sorted_children []" "sorted_children ((b, c) # cs) \<longleftrightarrow> (\<forall>b'\<in>fst ` set cs. b < b') \<and> sorted_children cs"
  by (auto simp: sorted_children_def)

lemma sorted_children_distinct: "sorted_children cs \<Longrightarrow> distinct (map fst cs)"
  unfolding sorted_children_def using strict_sorted_iff by blast

lemma slots_setChild: "fst ` set (setChild c n cs) = insert c (fst ` set cs)"
  by (induction c n cs rule: setChild.induct) auto

lemma sorted_setChild: "sorted_children cs \<Longrightarrow> sorted_children (setChild c n cs)"
  by (induction c n cs rule: setChild.induct) (auto simp: slots_setChild)

lemma map_of_setChild: "sorted_children cs \<Longrightarrow> map_of (setChild c n cs) = (map_of cs)(c \<mapsto> n)"
proof (induction c n cs rule: setChild.induct)
  case (2 c n k m cs)
  then show ?case by (auto simp: fun_eq_iff)
qed simp

lemma length_setChild: "length cs \<le> length (setChild c n cs)"
  by (induction c n cs rule: setChild.induct) auto

lemma map_of_clearChild: "map_of (clearChild c cs) = (map_of cs)(c := None)"
  by (induction cs) (auto simp: clearChild_def)

lemma sorted_clearChild: "sorted_children cs \<Longrightarrow> sorted_children (clearChild c cs)"
  by (auto simp: sorted_children_def clearChild_def sorted_wrt_map intro: sorted_wrt_filter)

lemma length_clearChild: "sorted_children cs \<Longrightarrow> length cs \<le> Suc (length (clearChild c cs))"
proof -
  assume "sorted_children cs"
  then have d: "distinct (map fst cs)" by (rule sorted_children_distinct)
  then show ?thesis
  proof (induction cs)
    case (Cons x cs)
    obtain k m where x: "x = (k, m)" by (cases x)
    show ?case
    proof (cases "k = c")
      case True
      with Cons.prems x have "clearChild c cs = cs" by (force simp: clearChild_def filter_id_conv)
      with True x show ?thesis by (simp add: clearChild_def)
    qed (use Cons x in \<open>auto simp: clearChild_def\<close>)
  qed (simp add: clearChild_def)
qed

subsection \<open>Well-formed trees\<close>

text \<open>
  \<open>wf_at p n\<close>: a node in a slot whose path is \<open>p\<close>. Its depth is the length of the path, its data is under its own key, its children are in
  the slots of their first bytes, and a node without data has at least two children.
\<close>

fun wf_at :: "bytes \<Rightarrow> node \<Rightarrow> bool" where
  "wf_at p (Node v d k x cs) \<longleftrightarrow> d = length p \<and> k \<noteq> [] \<and> (x = None \<longrightarrow> 2 \<le> length cs) \<and> (\<forall>y. x = Some y \<longrightarrow> fst y = p @ k) \<and>
     sorted_children cs \<and> (\<forall>(b, c)\<in>set cs. wf_at (p @ k) c \<and> hd (trieKey c) = b)"

declare wf_at.simps [simp del]

definition wf_children :: "bytes \<Rightarrow> (byte \<times> node) list \<Rightarrow> bool" where
  "wf_children p cs \<longleftrightarrow> sorted_children cs \<and> (\<forall>b c. map_of cs b = Some c \<longrightarrow> wf_at p c \<and> hd (trieKey c) = b)"

lemma wf_at_iff:
  "wf_at p n \<longleftrightarrow> depth n = length p \<and> trieKey n \<noteq> [] \<and> (data n = None \<longrightarrow> 2 \<le> length (children n)) \<and>
     (\<forall>y. data n = Some y \<longrightarrow> fst y = p @ trieKey n) \<and> wf_children (p @ trieKey n) (children n)"
proof -
  have conv: "sorted_children cs \<Longrightarrow> (\<forall>(b, c)\<in>set cs. P b c) \<longleftrightarrow> (\<forall>b c. map_of cs b = Some c \<longrightarrow> P b c)" for cs and P :: "byte \<Rightarrow> node \<Rightarrow> bool"
    using sorted_children_distinct [of cs] map_of_eq_Some_iff [of cs] by fastforce
  obtain v d k x cs where "n = Node v d k x cs" by (cases n)
  then show ?thesis by (simp add: wf_at.simps wf_children_def conv cong: conj_cong)
qed

definition wf_root :: "node \<Rightarrow> bool" where
  "wf_root r \<longleftrightarrow> depth r = 0 \<and> trieKey r = [] \<and> data r = None \<and> wf_children [] (children r)"

subsection \<open>Entries\<close>

fun entries :: "node \<Rightarrow> (bytes \<times> bytes) list" where
  "entries (Node v d k x cs) = (case x of None \<Rightarrow> [] | Some y \<Rightarrow> [y]) @ concat (map (\<lambda>(b, c). entries c) cs)"

declare entries.simps [simp del]

definition child_entries :: "(byte \<times> node) list \<Rightarrow> (bytes \<times> bytes) list" where
  "child_entries cs = concat (map (\<lambda>(b, c). entries c) cs)"

lemma entries_eq: "entries n = (case data n of None \<Rightarrow> [] | Some y \<Rightarrow> [y]) @ child_entries (children n)"
  by (cases n) (simp add: entries.simps child_entries_def)

definition look :: "node \<Rightarrow> bytes \<Rightarrow> bytes option" where
  "look n = map_of (entries n)"

lemma wf_child:
  assumes "wf_children p cs" "(b, c) \<in> set cs"
  shows "wf_at p c" "hd (trieKey c) = b" "map_of cs b = Some c"
proof -
  have "map_of cs b = Some c" using assms sorted_children_distinct by (simp add: wf_children_def)
  then show "wf_at p c" "hd (trieKey c) = b" "map_of cs b = Some c" using assms(1) by (auto simp: wf_children_def)
qed

lemma entries_prefix: "wf_at p n \<Longrightarrow> (key, x) \<in> set (entries n) \<Longrightarrow> prefix (p @ trieKey n) key"
proof (induction n arbitrary: p)
  case (Node v d k y cs)
  show ?case
  proof (cases "y = Some (key, x)")
    case True
    with Node.prems(1) show ?thesis by (simp add: wf_at.simps)
  next
    case False
    with Node.prems(2) obtain b c where c: "(b, c) \<in> set cs" "(key, x) \<in> set (entries c)"
      by (auto simp: entries.simps split: option.splits)
    with Node.prems(1) have "wf_at (p @ k) c" by (auto simp: wf_at.simps)
    with Node.IH [OF c(1), of c "p @ k"] c(2) have "prefix ((p @ k) @ trieKey c) key" by simp
    then show ?thesis by (auto simp: prefix_def)
  qed
qed

lemma child_entries_byte:
  assumes "wf_children p cs" "(b, c) \<in> set cs" "(key, x) \<in> set (entries c)"
  shows "prefix p key" "length p < length key" "key ! length p = b"
proof -
  have "prefix (p @ trieKey c) key" using entries_prefix wf_child(1) [OF assms(1,2)] assms(3) by blast
  moreover have "trieKey c \<noteq> []" using wf_child(1) [OF assms(1,2)] by (simp add: wf_at_iff)
  moreover have "hd (trieKey c) = b" by (rule wf_child(2) [OF assms(1,2)])
  ultimately show "prefix p key" "length p < length key" "key ! length p = b"
    by (auto simp: prefix_def nth_append hd_conv_nth)
qed

lemma map_of_child_entries:
  assumes "wf_children p cs"
  shows "map_of (child_entries cs) key =
    (if prefix p key \<and> length p < length key then
       (case map_of cs (key ! length p) of None \<Rightarrow> None | Some c \<Rightarrow> look c key) else None)"
  using assms
proof (induction cs)
  case (Cons bc cs)
  obtain b c where bc: "bc = (b, c)" by (cases bc)
  have s: "sorted_children ((b, c) # cs)" using Cons.prems bc by (simp add: wf_children_def)
  have wf: "wf_children p cs"
    using Cons.prems bc s unfolding wf_children_def
    by (metis map_of_SomeD sorted_children_simps(2) list.set_intros(2) map_of_eq_Some_iff sorted_children_distinct)
  have e: "map_of (child_entries (bc # cs)) key = (case look c key of None \<Rightarrow> map_of (child_entries cs) key | Some x \<Rightarrow> Some x)"
    by (simp add: child_entries_def bc look_def map_add_def split: option.split)
  show ?case
  proof (cases "look c key")
    case None
    have fresh: "map_of cs b = None" using s by (force simp: map_of_eq_None_iff)
    show ?thesis using None e Cons.IH [OF wf] fresh by (auto simp: bc)
  next
    case (Some x)
    then have "(key, x) \<in> set (entries c)" by (simp add: look_def map_of_SomeD)
    from child_entries_byte [OF Cons.prems _ this, of b] bc have "prefix p key \<and> length p < length key" "key ! length p = b" by auto
    with Some e bc show ?thesis by simp
  qed
qed (simp add: child_entries_def)

lemma look_node:
  assumes "wf_at p n"
  shows "look n key = (if key = p @ trieKey n then map_option snd (data n)
    else if prefix (p @ trieKey n) key then
      (case map_of (children n) (key ! (length p + length (trieKey n))) of None \<Rightarrow> None | Some c \<Rightarrow> look c key)
    else None)"
proof -
  have cs: "wf_children (p @ trieKey n) (children n)" and d: "\<And>y. data n = Some y \<Longrightarrow> fst y = p @ trieKey n"
    using assms by (auto simp: wf_at_iff)
  note m = map_of_child_entries [OF cs, of key]
  have "look n key = (case data n of None \<Rightarrow> map_of (child_entries (children n)) key
    | Some y \<Rightarrow> if key = fst y then Some (snd y) else map_of (child_entries (children n)) key)"
    by (cases "data n") (auto simp: look_def entries_eq)
  moreover have "length p + length (trieKey n) < length key" if "prefix (p @ trieKey n) key" "key \<noteq> p @ trieKey n"
    using that prefix_length_less [of "p @ trieKey n" key] by (simp add: strict_prefix_def)
  ultimately show ?thesis using m d by (cases "data n") auto
qed

lemma look_root:
  assumes "wf_root r"
  shows "look r key = (if key = [] then None else (case map_of (children r) (hd key) of None \<Rightarrow> None | Some c \<Rightarrow> look c key))"
proof -
  have "wf_children [] (children r)" "data r = None" using assms by (simp_all add: wf_root_def)
  with map_of_child_entries [of "[]" "children r" key] show ?thesis
    by (cases key) (simp_all add: look_def entries_eq)
qed

subsection \<open>Lookup\<close>

lemma prefix_less: "prefix xs ys \<Longrightarrow> ys \<noteq> xs \<Longrightarrow> length xs < length ys"
  using prefix_length_less [of xs ys] by (simp add: strict_prefix_def)

lemma byteAt_end: "byteAt key (length key) = 0"
  by (simp add: byteAt_def)

text \<open>A search that has come to the end of the key finds nothing below.\<close>

lemma findAt_short:
  assumes "wf_at p c" "length key \<le> length p"
  shows "findAt key c = None"
proof -
  have "trieKey c \<noteq> []" "depth c = length p" using assms(1) by (simp_all add: wf_at_iff)
  moreover from this assms(2) have "comparePrefix (trieKey c) (drop (depth c) key) = 0" by (cases "trieKey c") auto
  ultimately show ?thesis by (subst findAt.simps) (simp add: Let_def)
qed

lemma findAt_ok:
  assumes "wf_at p n" "prefix p key" "length p < length key"
  shows "(case findAt key n of None \<Rightarrow> look n key = None | Some m \<Rightarrow> \<exists>y. data m = Some (key, y) \<and> look n key = Some y)"
  using assms
proof (induction key n arbitrary: p rule: findAt.induct)
  case (1 key n)
  let ?q = "p @ trieKey n"
  have wf: "depth n = length p" "wf_children ?q (children n)" "\<And>y. data n = Some y \<Longrightarrow> fst y = ?q"
    using 1(2) by (auto simp: wf_at_iff)
  have m: "comparePrefix (trieKey n) (drop (depth n) key) = length (trieKey n) \<longleftrightarrow> prefix ?q key"
    using 1(3) by (simp add: comparePrefix_all wf(1) prefix_drop_iff)
  note find = findAt.simps [of key n, unfolded Let_def] and look = look_node [OF 1(2), of key]
  show ?case
  proof (cases "prefix ?q key")
    case False
    with m have "findAt key n = None" by (subst find) simp
    moreover from False have "key \<noteq> ?q" by auto
    with False have "look n key = None" by (subst look) simp
    ultimately show ?thesis by simp
  next
    case True
    then obtain z where z: "key = ?q @ z" by (auto simp: prefix_def)
    have len: "length (trieKey n) = length key - depth n \<longleftrightarrow> key = ?q" by (simp add: z wf(1))
    show ?thesis
    proof (cases "key = ?q \<and> data n \<noteq> None")
      case True
      then obtain y where "data n = Some (key, y)" using wf(3) by (metis not_Some_eq prod.collapse)
      moreover from True m len \<open>prefix ?q key\<close> have "findAt key n = Some n" by (subst find) simp
      moreover from True \<open>data n = Some (key, y)\<close> have "look n key = Some y" by (subst look) simp
      ultimately show ?thesis by simp
    next
      case other: False
      let ?b = "byteAt key (depth n + length (trieKey n))"
      have find: "findAt key n = (case map_of (children n) ?b of None \<Rightarrow> None | Some c \<Rightarrow> findAt key c)"
        by (subst find) (use m True len other in auto)
      show ?thesis
      proof (cases "key = ?q")
        case True
        then have "findAt key n = None"
          using find wf(2) findAt_short [of ?q _ key] by (auto simp: wf_children_def split: option.splits)
        moreover from True other have none: "data n = None" by blast
        have "look n key = None" by (subst look) (simp only: True none simp_thms if_True option.map)
        ultimately show ?thesis by simp
      next
        case False
        note longer = prefix_less [OF True False]
        then have b: "?b = key ! (length p + length (trieKey n))" using wf(1) by simp
        show ?thesis
        proof (cases "map_of (children n) ?b")
          case None
          then have "findAt key n = None" by (subst find) simp
          moreover have "look n key = None" by (subst look) (use None b True False in simp)
          ultimately show ?thesis by simp
        next
          case (Some c)
          with wf(2) have "wf_at ?q c" by (simp add: wf_children_def)
          then have "case findAt key c of None \<Rightarrow> look c key = None | Some m \<Rightarrow> \<exists>y. data m = Some (key, y) \<and> look c key = Some y"
            by (intro 1(1) [OF refl _ _ Some _ True longer]) (use m True len other in auto)
          moreover have "findAt key n = findAt key c" by (subst find) (use Some in simp)
          moreover have "look n key = look c key" by (subst look) (use Some b True False in simp)
          ultimately show ?thesis by (simp only:)
        qed
      qed
    qed
  qed
qed

lemma findNode_ok:
  assumes "wf_root r"
  shows "(case findNode key r of None \<Rightarrow> look r key = None | Some m \<Rightarrow> \<exists>y. data m = Some (key, y) \<and> look r key = Some y)"
proof -
  have r: "depth r = 0" "trieKey r = []" "wf_children [] (children r)" using assms by (simp_all add: wf_root_def)
  have f: "findNode key r = (case map_of (children r) (byteAt key 0) of None \<Rightarrow> None | Some c \<Rightarrow> findAt key c)"
    by (simp add: findNode_def r)
  show ?thesis
  proof (cases key)
    case Nil
    then have "findNode key r = None"
      using f r(3) findAt_short [of "[]" _ key] by (auto simp: wf_children_def split: option.splits)
    with Nil show ?thesis by (simp add: look_root [OF assms])
  next
    case (Cons b bs)
    show ?thesis
    proof (cases "map_of (children r) b")
      case None
      with f Cons show ?thesis by (simp add: look_root [OF assms] byteAt_def)
    next
      case (Some c)
      then have "wf_at [] c" using r(3) by (simp add: wf_children_def)
      moreover have "prefix [] key" "length [] < length key" using Cons by simp_all
      ultimately have ok: "case findAt key c of None \<Rightarrow> look c key = None | Some m \<Rightarrow> \<exists>y. data m = Some (key, y) \<and> look c key = Some y"
        by (rule findAt_ok)
      have "look r key = look c key" using Cons Some by (simp add: look_root [OF assms])
      moreover have "findNode key r = findAt key c" using Cons Some f by (simp add: byteAt_def)
      ultimately show ?thesis using ok by (simp only:)
    qed
  qed
qed

lemma find_look: "wf_root (root s) \<Longrightarrow> find key s = map_option (Pair key) (look (root s) key)"
  using findNode_ok [of "root s" key] by (auto simp: find_def split: option.splits)

lemma findNode_look: "wf_root r \<Longrightarrow> findNode key r = None \<longleftrightarrow> look r key = None"
  using findNode_ok [of r key] by (auto split: option.splits)

subsection \<open>Changing a child\<close>

lemma wf_setChild: "wf_children q cs \<Longrightarrow> wf_at q c \<Longrightarrow> hd (trieKey c) = b \<Longrightarrow> wf_children q (setChild b c cs)"
  by (auto simp: wf_children_def sorted_setChild map_of_setChild)

lemma wf_clearChild: "wf_children q cs \<Longrightarrow> wf_children q (clearChild b cs)"
  by (auto simp: wf_children_def sorted_clearChild map_of_clearChild)

lemma wf_children_simps [simp]: "wf_children q []" "wf_children q [(b, c)] \<longleftrightarrow> wf_at q c \<and> hd (trieKey c) = b"
  by (auto simp: wf_children_def)

lemma child_entries_setChild:
  assumes "wf_children q cs" "wf_at q c" "hd (trieKey c) = b" "prefix q key" "length q < length key" "key ! length q = b"
    and "look c = (case map_of cs b of None \<Rightarrow> Map.empty | Some c \<Rightarrow> look c)(key := x)"
  shows "map_of (child_entries (setChild b c cs)) = (map_of (child_entries cs))(key := x)"
proof
  fix k
  have "sorted_children cs" using assms(1) by (simp add: wf_children_def)
  then show "map_of (child_entries (setChild b c cs)) k = ((map_of (child_entries cs))(key := x)) k"
    unfolding map_of_child_entries [OF wf_setChild [OF assms(1-3)]] fun_upd_apply map_of_child_entries [OF assms(1)]
    using assms(4-7) by (auto simp: map_of_setChild split: option.splits)
qed

lemma look_eq: "look n = (case data n of None \<Rightarrow> map_of (child_entries (children n))
    | Some y \<Rightarrow> (map_of (child_entries (children n)))(fst y \<mapsto> snd y))"
  by (cases "data n") (simp_all add: look_def entries_eq fun_eq_iff)

lemma look_setChild:
  fixes v :: nat
  assumes "wf_at p n" "wf_at (p @ trieKey n) c" "hd (trieKey c) = b" "prefix (p @ trieKey n) key"
    and "length p + length (trieKey n) < length key" "key ! (length p + length (trieKey n)) = b"
    and "look c = (case map_of (children n) b of None \<Rightarrow> Map.empty | Some c \<Rightarrow> look c)(key := x)"
  defines "n' \<equiv> Node v (length p) (trieKey n) (data n) (setChild b c (children n))"
  shows "wf_at p n'" "look n' = (look n)(key := x)"
proof -
  have wf: "wf_children (p @ trieKey n) (children n)" "\<And>y. data n = Some y \<Longrightarrow> fst y = p @ trieKey n"
    using assms(1) by (auto simp: wf_at_iff)
  note ce = child_entries_setChild [OF wf(1) assms(2,3,4) _ _ assms(7)]
  have key: "key \<noteq> p @ trieKey n" using assms(5) by auto
  show "wf_at p n'" using assms(1) wf_setChild [OF wf(1) assms(2,3)] length_setChild [of "children n" b c]
    by (auto simp: n'_def wf_at_iff)
  show "look n' = (look n)(key := x)"
    using ce assms(5,6) wf(2) key by (cases "data n") (auto simp: n'_def look_eq fun_upd_twist)
qed

lemma look_leaf: "look (Node v d k (Some (key, x)) []) = [key \<mapsto> x]"
  by (simp add: look_eq child_entries_def)

lemma wf_leaf: "q @ k = key \<Longrightarrow> k \<noteq> [] \<Longrightarrow> d = length q \<Longrightarrow> wf_at q (Node v d k (Some (key, x)) [])"
  by (simp add: wf_at_iff)

lemma look_outside: "wf_at p n \<Longrightarrow> \<not> prefix (p @ trieKey n) key \<Longrightarrow> look n key = None"
  by (auto simp: look_node)

subsection \<open>Insertion and update\<close>

text \<open>What an insertion of \<open>x\<close> under \<open>key\<close> adds to the number of entries and to the size of the data.\<close>

definition newCount :: "bytes option \<Rightarrow> int" where
  "newCount old = (if old = None then 1 else 0)"

definition oldSize :: "bytes option \<Rightarrow> int" where
  "oldSize old = (case old of None \<Rightarrow> 0 | Some y \<Rightarrow> int (length y))"

lemma splitNode_ok:
  fixes x :: bytes
  assumes "wf_at p n" "prefix p key" "length p < length key" "hd (trieKey n) = key ! length p"
  defines "m \<equiv> comparePrefix (trieKey n) (drop (length p) key)"
  assumes m: "m \<noteq> length (trieKey n)"
  shows "\<exists>n'. splitNode v key (Some (key, x)) (length p) m n = Some (n', 1, int (length x)) \<and> wf_at p n' \<and>
    hd (trieKey n') = hd (trieKey n) \<and> look n key = None \<and> look n' = (look n)(key \<mapsto> x)"
proof -
  let ?k = "take m (trieKey n)" and ?r = "drop m (trieKey n)" and ?s = "drop (length p + m) key"
  let ?moved = "Node v (length p + m) ?r (data n) (children n)"
  have n: "trieKey n \<noteq> []" "depth n = length p" "wf_children (p @ trieKey n) (children n)"
    using assms(1) by (simp_all add: wf_at_iff)
  have "hd (drop (length p) key) = hd (trieKey n)" using assms(3,4) by (simp add: hd_drop_conv_nth)
  then have pos: "0 < m" using comparePrefix_pos [OF n(1), of "drop (length p) key"] assms(3) by (simp add: m_def)
  have less: "m < length (trieKey n)" "m \<le> length key - length p"
    using m comparePrefix_le [of "trieKey n" "drop (length p) key"] by (simp_all add: m_def)
  have common: "?k = take m (drop (length p) key)" unfolding m_def by (rule comparePrefix_take)
  have out: "\<not> prefix (p @ trieKey n) key"
    using m comparePrefix_all [of "trieKey n" "drop (length p) key"] prefix_drop_iff [OF assms(2)] by (simp add: m_def)
  have key: "key = p @ ?k @ ?s"
    unfolding common using drop_prefix [OF assms(2)] by (metis append_take_drop_id drop_drop add.commute)
  have none: "look n key = None" by (rule look_outside [OF assms(1) out])
  have k: "?k \<noteq> []" "?r \<noteq> []" "hd ?k = hd (trieKey n)" "length ?k = m" using pos less(1) n(1) by auto
  have kr: "(p @ ?k) @ ?r = p @ trieKey n" by simp
  have moved: "wf_at (p @ ?k) ?moved" "look ?moved = look n"
    using assms(1) k(2,4) n(3) kr by (auto simp: wf_at_iff look_def entries_eq)
  show ?thesis
  proof (cases "?s = []")
    case True
    let ?n = "Node v (length p) ?k (Some (key, x)) [(hd ?r, ?moved)]"
    have "splitNode v key (Some (key, x)) (length p) m n = Some (?n, 1, int (length x))"
      using True pos by (simp add: splitNode_def Let_def)
    moreover from key True have "p @ ?k = key" by (simp only: append_Nil2)
    with moved(1) k(1) have "wf_at p ?n" by (simp add: wf_at_iff [of p ?n])
    moreover have "look ?n = (look n)(key \<mapsto> x)" using moved(2) by (simp add: look_def entries_eq [of ?n] child_entries_def)
    ultimately show ?thesis using none k(3) by auto
  next
    case False
    let ?leaf = "Node v (length p + m) ?s (Some (key, x)) []"
    let ?n = "Node v (length p) ?k None (setChild (hd ?r) ?moved [(hd ?s, ?leaf)])"
    have ne: "hd ?r \<noteq> hd ?s"
      using comparePrefix_differ [of "trieKey n" "drop (length p) key"] less False
      by (simp add: m_def [symmetric] hd_drop_conv_nth add.commute)
    have split: "splitNode v key (Some (key, x)) (length p) m n = Some (?n, 1, int (length x))"
      using False pos less by (simp add: splitNode_def addChild_def Let_def min_absorb2)
    have "wf_at (p @ ?k) ?leaf"
      using False key [symmetric] k(4) by (intro wf_leaf) (simp_all only: append_assoc length_append not_False_eq_True)
    then have "wf_children (p @ ?k) [(hd ?s, ?leaf)]" by simp
    from wf_setChild [OF this moved(1)] have "wf_children (p @ ?k) (setChild (hd ?r) ?moved [(hd ?s, ?leaf)])"
      by (simp only: node.sel)
    moreover have "2 \<le> length (setChild (hd ?r) ?moved [(hd ?s, ?leaf)])" using ne by simp
    ultimately have wf: "wf_at p ?n" using k(1) by (simp only: wf_at_iff [of p ?n] node.sel) simp
    have e: "entries ?leaf = [(key, x)]" "entries ?moved = entries n"
      by (simp_all add: entries_eq [of ?leaf] entries_eq [of ?moved] entries_eq [of n] child_entries_def)
    have "entries ?n = child_entries (setChild (hd ?r) ?moved [(hd ?s, ?leaf)])"
      by (simp only: entries_eq [of ?n] node.sel option.case append_Nil)
    also have "\<dots> = (if hd ?r < hd ?s then entries n @ [(key, x)] else (key, x) # entries n)"
      using e ne by (simp add: child_entries_def)
    finally have "look ?n = (look n)(key \<mapsto> x)"
      using none by (simp only: look_def) (auto simp: fun_eq_iff map_add_def split: option.splits)
    with split wf none k(3) show ?thesis by (intro exI [of _ ?n] conjI) (simp_all only: node.sel)
  qed
qed

lemma upsertAt_ok:
  assumes "wf_at p n" "prefix p key" "length p < length key" "hd (trieKey n) = key ! length p"
  shows "\<exists>n'. upsertAt v key (Some (key, x)) (length p) n = Some (n', newCount (look n key), int (length x) - oldSize (look n key)) \<and>
    wf_at p n' \<and> hd (trieKey n') = hd (trieKey n) \<and> look n' = (look n)(key \<mapsto> x)"
  using assms
proof (induction n arbitrary: p rule: measure_induct_rule [of size])
  case (less n)
  let ?q = "p @ trieKey n" and ?m = "comparePrefix (trieKey n) (drop (length p) key)"
  let ?b = "byteAt key (depth n + length (trieKey n))"
  note up = upsertAt.simps [of v key "Some (key, x)" "length p" n, unfolded Let_def]
  have n: "trieKey n \<noteq> []" "depth n = length p" "wf_children ?q (children n)" "\<And>y. data n = Some y \<Longrightarrow> fst y = ?q"
    using less.prems(1) by (auto simp: wf_at_iff)
  show ?case
  proof (cases "?m = length (trieKey n)")
    case False
    from splitNode_ok [OF less.prems False, of v x] False show ?thesis
      by (subst up) (auto simp: newCount_def oldSize_def)
  next
    case m: True
    then have pre: "prefix ?q key" using comparePrefix_all prefix_drop_iff [OF less.prems(2)] by blast
    show ?thesis
    proof (cases "key = ?q")
      case True
      let ?n = "Node v (length p) (trieKey n) (Some (key, x)) (children n)"
      have "upsertAt v key (Some (key, x)) (length p) n = Some (?n, newCount (look n key), int (length x) - oldSize (look n key))"
        by (subst up) (use m True n(2) look_node [OF less.prems(1), of key] in
          \<open>auto simp: newCount_def oldSize_def addedSize_def split: option.splits\<close>)
      moreover have "wf_at p ?n" using n True by (simp add: wf_at_iff)
      moreover have "look ?n = (look n)(key \<mapsto> x)" using n(4) True by (cases "data n") (simp_all add: look_eq)
      ultimately show ?thesis by auto
    next
      case False
      have longer: "length p + length (trieKey n) < length key" using prefix_less [OF pre False] by simp
      then have b: "?b = key ! (length p + length (trieKey n))" using n(2) by simp
      have nm: "length (trieKey n) \<noteq> length key - length p" using longer by simp
      have look: "look n key = (case map_of (children n) ?b of None \<Rightarrow> None | Some c \<Rightarrow> look c key)"
        using look_node [OF less.prems(1), of key] False pre b by simp
      show ?thesis
      proof (cases "map_of (children n) ?b")
        case None
        let ?leaf = "Node v (length p + length (trieKey n)) (drop (length p + length (trieKey n)) key) (Some (key, x)) []"
        have "wf_at ?q ?leaf" using drop_prefix [OF pre] longer by (intro wf_leaf) simp_all
        moreover have "hd (trieKey ?leaf) = ?b" unfolding b using longer by (simp add: hd_drop_conv_nth)
        ultimately have leaf: "wf_at ?q ?leaf" "hd (trieKey ?leaf) = ?b" .
        have "look ?leaf = (case map_of (children n) ?b of None \<Rightarrow> Map.empty | Some c \<Rightarrow> look c)(key := Some x)"
          using None by (simp add: look_leaf)
        note new = look_setChild [OF less.prems(1) leaf pre longer b [symmetric] this, of v]
        have "upsertAt v key (Some (key, x)) (length p) n =
          Some (Node v (length p) (trieKey n) (data n) (setChild ?b ?leaf (children n)), newCount (look n key), int (length x) - oldSize (look n key))"
          by (subst up) (use m nm None n(2) longer look leaf(2) in \<open>simp add: addChild_def addedSize_def newCount_def oldSize_def\<close>)
        with new show ?thesis by auto
      next
        case (Some c)
        have c: "wf_at ?q c" "hd (trieKey c) = ?b" using n(3) Some by (simp_all add: wf_children_def)
        have "size c < size n" using child_size [OF Some] by (cases n) simp
        have "length ?q < length key" "hd (trieKey c) = key ! length ?q" using longer b c(2) by simp_all
        from less.IH [OF \<open>size c < size n\<close> c(1) pre this] obtain c' where
          c': "upsertAt v key (Some (key, x)) (length ?q) c = Some (c', newCount (look c key), int (length x) - oldSize (look c key))"
            "wf_at ?q c'" "hd (trieKey c') = hd (trieKey c)" "look c' = (look c)(key \<mapsto> x)" by blast
        have "look c' = (case map_of (children n) ?b of None \<Rightarrow> Map.empty | Some c \<Rightarrow> look c)(key := Some x)"
          using Some c'(4) by simp
        note new = look_setChild [OF less.prems(1) c'(2) _ pre longer b [symmetric] this, of v, unfolded c'(3), OF c(2)]
        have "upsertAt v key (Some (key, x)) (length p) n =
          Some (Node v (length p) (trieKey n) (data n) (setChild ?b c' (children n)), newCount (look n key), int (length x) - oldSize (look n key))"
          by (subst up) (use m nm Some n(2) c'(1) look in simp)
        with new show ?thesis by auto
      qed
    qed
  qed
qed

subsection \<open>Sizes\<close>

definition mapSize :: "(bytes \<rightharpoonup> bytes) \<Rightarrow> int" where
  "mapSize m = (\<Sum>k\<in>dom m. oldSize (m k))"

lemma finite_look [simp]: "finite (dom (look n))"
  by (simp add: look_def finite_dom_map_of)

lemma mapSize_remove: "finite (dom m) \<Longrightarrow> mapSize (m(k := None)) = mapSize m - oldSize (m k)"
proof -
  assume "finite (dom m)"
  have "(\<Sum>j\<in>dom m - {k}. oldSize ((m(k := None)) j)) = (\<Sum>j\<in>dom m - {k}. oldSize (m j))" by (rule sum.cong) auto
  with \<open>finite (dom m)\<close> show ?thesis
    by (cases "m k") (auto simp: mapSize_def sum_diff1 domIff oldSize_def)
qed

lemma mapSize_update: "finite (dom m) \<Longrightarrow> mapSize (m(k \<mapsto> x)) = mapSize m - oldSize (m k) + int (length x)"
proof -
  assume f: "finite (dom m)"
  have "(\<Sum>j\<in>insert k (dom m - {k}). oldSize ((m(k \<mapsto> x)) j)) = int (length x) + (\<Sum>j\<in>dom m - {k}. oldSize (m j))"
    using f by (subst sum.insert) (auto simp: oldSize_def intro!: sum.cong)
  moreover have "dom (m(k \<mapsto> x)) = insert k (dom m - {k})" by auto
  ultimately show ?thesis using f by (cases "m k") (auto simp: mapSize_def sum_diff1 domIff oldSize_def)
qed

lemma card_update: "finite (dom m) \<Longrightarrow> int (card (dom (m(k \<mapsto> x)))) = int (card (dom m)) + newCount (m k)"
  by (cases "m k") (auto simp: newCount_def domIff card_insert_if)

lemma card_remove: "finite (dom m) \<Longrightarrow> int (card (dom (m(k := None)))) = int (card (dom m)) + newCount (m k) - 1"
proof (cases "m k")
  case (Some y)
  assume "finite (dom m)"
  moreover have "k \<in> dom m" using Some by blast
  ultimately have "card (dom m) = Suc (card (dom m - {k}))" by (meson card.remove)
  with Some show ?thesis by (simp add: newCount_def)
qed (simp add: newCount_def domIff)

text \<open>The store: a well-formed tree whose counters are those of its contents.\<close>

definition contents :: "Head \<Rightarrow> bytes \<rightharpoonup> bytes" where
  "contents s = look (root s)"

definition wf_store :: "Head \<Rightarrow> bool" where
  "wf_store s \<longleftrightarrow> wf_root (root s) \<and> count s = int (card (dom (contents s))) \<and> dataSize s = mapSize (contents s)"

lemma upsert_root_child:
  assumes "wf_root r" "wf_at [] c" "hd (trieKey c) = hd key" "key \<noteq> []"
    and "look c = (case map_of (children r) (hd key) of None \<Rightarrow> Map.empty | Some c \<Rightarrow> look c)(key := x)"
  shows "wf_root (Node v 0 [] None (setChild (hd key) c (children r)))"
    "look (Node v 0 [] None (setChild (hd key) c (children r))) = (look r)(key := x)"
proof -
  have r: "wf_children [] (children r)" "data r = None" using assms(1) by (simp_all add: wf_root_def)
  show "wf_root (Node v 0 [] None (setChild (hd key) c (children r)))"
    using wf_setChild [OF r(1) assms(2,3)] by (simp add: wf_root_def)
  have "key ! length [] = hd key" using assms(4) by (simp add: hd_conv_nth)
  from child_entries_setChild [OF r(1) assms(2,3) _ _ this assms(5)] assms(4) r(2)
  show "look (Node v 0 [] None (setChild (hd key) c (children r))) = (look r)(key := x)"
    by (simp add: look_eq)
qed

lemma upsert_ok:
  assumes "wf_store s" "key \<noteq> []"
  shows "\<exists>s'. upsert v key (Some (key, x)) s = Some s' \<and> wf_store s' \<and> contents s' = (contents s)(key \<mapsto> x)"
proof -
  let ?r = "root s"
  have r: "wf_root ?r" "depth ?r = 0" "trieKey ?r = []" "data ?r = None" "wf_children [] (children ?r)"
    using assms(1) by (simp_all add: wf_store_def wf_root_def)
  have b: "byteAt key 0 = hd key" using assms(2) by (simp add: byteAt_def hd_conv_nth)
  have "\<exists>c. look c = (case map_of (children ?r) (hd key) of None \<Rightarrow> Map.empty | Some c \<Rightarrow> look c)(key \<mapsto> x) \<and>
    wf_at [] c \<and> hd (trieKey c) = hd key \<and>
    upsert v key (Some (key, x)) s = Some (s\<lparr>root := Node v 0 [] None (setChild (hd key) c (children ?r)),
      count := count s + newCount (look ?r key), dataSize := dataSize s + (int (length x) - oldSize (look ?r key))\<rparr>)"
  proof (cases "map_of (children ?r) (hd key)")
    case None
    then have "look ?r key = None" using look_root [OF r(1)] assms(2) by simp
    moreover have "wf_at [] (Node v 0 key (Some (key, x)) [])" using assms(2) by (intro wf_leaf) simp_all
    ultimately show ?thesis using None assms(2) b r
      by (intro exI [of _ "Node v 0 key (Some (key, x)) []"])
        (simp add: upsert_def addChild_def look_leaf addedSize_def newCount_def oldSize_def)
  next
    case (Some c)
    have c: "wf_at [] c" "hd (trieKey c) = key ! length []" using r(5) Some assms(2) by (simp_all add: wf_children_def hd_conv_nth)
    have l: "look ?r key = look c key" using look_root [OF r(1)] assms(2) Some by simp
    from upsertAt_ok [OF c(1) _ _ c(2), of v x] assms(2) obtain c' where
      c': "upsertAt v key (Some (key, x)) 0 c = Some (c', newCount (look c key), int (length x) - oldSize (look c key))"
        "wf_at [] c'" "hd (trieKey c') = hd (trieKey c)" "look c' = (look c)(key \<mapsto> x)" by auto
    moreover have "hd (trieKey c) = hd key" using c(2) by (simp add: hd_conv_nth [OF assms(2)])
    ultimately show ?thesis using Some b l r by (intro exI [of _ c']) (simp add: upsert_def)
  qed
  then obtain c where c: "look c = (case map_of (children ?r) (hd key) of None \<Rightarrow> Map.empty | Some c \<Rightarrow> look c)(key \<mapsto> x)"
      "wf_at [] c" "hd (trieKey c) = hd key"
    and up: "upsert v key (Some (key, x)) s = Some (s\<lparr>root := Node v 0 [] None (setChild (hd key) c (children ?r)),
      count := count s + newCount (look ?r key), dataSize := dataSize s + (int (length x) - oldSize (look ?r key))\<rparr>)" by blast
  note new = upsert_root_child [OF r(1) c(2,3) assms(2) c(1), of v]
  from assms(1) new up show ?thesis
    by (simp add: wf_store_def contents_def card_update mapSize_update del: dom_fun_upd)
qed

lemma insertKey_ok:
  assumes "wf_store s"
  shows "\<exists>s'. insertKey v key x s = Some (contents s key = None \<and> key \<noteq> [], s') \<and> wf_store s' \<and>
    contents s' = (if contents s key = None \<and> key \<noteq> [] then (contents s)(key \<mapsto> x) else contents s)"
  using upsert_ok [OF assms, of key v x] findNode_look [of "root s" key] assms
  by (auto simp: insertKey_def wf_store_def contents_def)

lemma look_empty_key: "wf_root r \<Longrightarrow> look r [] = None"
  by (simp add: look_root)

lemma updateKey_ok:
  assumes "wf_store s"
  shows "\<exists>s'. updateKey v key x s = Some (contents s key \<noteq> None, s') \<and> wf_store s' \<and>
    contents s' = (if contents s key \<noteq> None then (contents s)(key \<mapsto> x) else contents s)"
proof -
  have r: "wf_root (root s)" using assms by (simp add: wf_store_def)
  then have "key \<noteq> [] \<or> contents s key = None" by (auto simp: contents_def look_empty_key)
  then show ?thesis using upsert_ok [OF assms, of key v x] findNode_look [OF r, of key] assms
    by (cases "key = []") (auto simp: updateKey_def contents_def)
qed

subsection \<open>Removal\<close>

lemma slot_child:
  assumes "wf_children q cs" "map_of cs b = Some c"
  shows "wf_at q c" "hd (trieKey c) = b" "depth c = length q" "trieKey c \<noteq> []"
proof -
  show "wf_at q c" "hd (trieKey c) = b" using assms by (simp_all add: wf_children_def)
  then show "depth c = length q" "trieKey c \<noteq> []" by (simp_all add: wf_at_iff)
qed

text \<open>A node below the root, or the root.\<close>

definition wf_any :: "bytes \<Rightarrow> node \<Rightarrow> bool" where
  "wf_any p n \<longleftrightarrow> (if trieKey n = [] then p = [] \<and> wf_root n else wf_at p n)"

lemma wf_anyD:
  assumes "wf_any p n"
  shows "depth n = length p" "wf_children (p @ trieKey n) (children n)" "\<And>y. data n = Some y \<Longrightarrow> fst y = p @ trieKey n"
  using assms by (auto simp: wf_any_def wf_root_def wf_at_iff split: if_splits)

lemma wf_any_child: "wf_at q c \<Longrightarrow> wf_any q c"
  by (simp add: wf_any_def wf_at_iff)

lemma wf_any_change:
  assumes "wf_any p n" "wf_children (p @ trieKey n) cs" "data n = None \<Longrightarrow> trieKey n \<noteq> [] \<Longrightarrow> length (children n) \<le> length cs"
  shows "wf_any p (Node v (depth n) (trieKey n) (data n) cs)"
  using assms by (fastforce simp: wf_any_def wf_root_def wf_at_iff)

lemma look_below:
  assumes "wf_any p n" "prefix (p @ trieKey n) key" "length (p @ trieKey n) < length key"
  shows "look n key = (case map_of (children n) (key ! length (p @ trieKey n)) of None \<Rightarrow> None | Some c \<Rightarrow> look c key)"
  using wf_anyD(3) [OF assms(1)] assms(2,3) map_of_child_entries [OF wf_anyD(2) [OF assms(1)], of key]
  by (cases "data n") (auto simp: look_eq)

lemma look_change:
  assumes "wf_any p n" "length (p @ trieKey n) < length key"
    and "map_of (child_entries cs) = (map_of (child_entries (children n)))(key := x)"
  shows "look (Node v (depth n) (trieKey n) (data n) cs) = (look n)(key := x)"
proof -
  have "key \<noteq> p @ trieKey n" using assms(2) by auto
  then show ?thesis using wf_anyD(3) [OF assms(1)] assms(3) by (cases "data n") (auto simp: look_eq fun_upd_twist)
qed

lemma child_entries_clearChild:
  assumes "wf_children q cs" "map_of cs b = Some c" "look c = [key \<mapsto> y]" "prefix q key" "length q < length key" "key ! length q = b"
  shows "map_of (child_entries (clearChild b cs)) = (map_of (child_entries cs))(key := None)"
proof
  fix k
  show "map_of (child_entries (clearChild b cs)) k = ((map_of (child_entries cs))(key := None)) k"
    unfolding map_of_child_entries [OF wf_clearChild [OF assms(1)]] fun_upd_apply map_of_child_entries [OF assms(1)]
    using assms(2-6) by (auto simp: map_of_clearChild split: option.splits)
qed

lemma compressOnlyChild_ok:
  assumes "depth n = length p" "trieKey n \<noteq> []" "\<And>y. data n = Some y \<Longrightarrow> fst y = p @ trieKey n"
    and "wf_children (p @ trieKey n) (children n)" "data n \<noteq> None \<or> children n \<noteq> []"
  shows "\<exists>n'. compressOnlyChild v n = Some n' \<and> wf_at p n' \<and> hd (trieKey n') = hd (trieKey n) \<and> look n' = look n"
proof (cases "data n = None \<and> length (children n) = 1")
  case False
  then have "compressOnlyChild v n = Some n"
    using assms(5) by (auto simp: compressOnlyChild_def split: list.splits)
  moreover have "2 \<le> length (children n)" if "data n = None"
    using that False assms(5) by (cases "children n" rule: remdups_adj.cases) auto
  with assms have "wf_at p n" by (simp add: wf_at_iff)
  ultimately show ?thesis by simp
next
  case True
  then obtain b c where c: "children n = [(b, c)]" by (auto simp: length_Suc_conv)
  let ?n = "Node v (depth n) (trieKey n @ trieKey c) (data c) (children c)"
  have wc: "wf_at (p @ trieKey n) c" using assms(4) c by simp
  then have "wf_at p ?n" unfolding wf_at_iff [of p ?n] using assms(1,2) by (simp add: wf_at_iff [of "p @ trieKey n" c])
  moreover have "look ?n = look n"
    using True c by (simp add: look_def entries_eq [of ?n] entries_eq [of n] entries_eq [of c] child_entries_def)
  moreover have "compressOnlyChild v n = Some ?n" using True assms(2) c by (simp add: compressOnlyChild_def)
  ultimately show ?thesis using assms(2) by auto
qed

text \<open>Storing no value at a node that has children removes its value.\<close>

lemma upsertAt_remove:
  assumes "wf_at p n" "key = p @ trieKey n" "children n \<noteq> []"
  shows "\<exists>n'. upsertAt v key None (length p) n = Some (n', newCount (look n key) - 1, - oldSize (look n key)) \<and>
    wf_at p n' \<and> hd (trieKey n') = hd (trieKey n) \<and> look n' = (look n)(key := None)"
proof -
  let ?n = "Node v (depth n) (trieKey n) None (children n)"
  have n: "trieKey n \<noteq> []" "depth n = length p" "wf_children (p @ trieKey n) (children n)" "\<And>y. data n = Some y \<Longrightarrow> fst y = key"
    using assms(1,2) by (auto simp: wf_at_iff)
  obtain n' where n': "compressOnlyChild v ?n = Some n'" "wf_at p n'" "hd (trieKey n') = hd (trieKey n)" "look n' = look ?n"
    using compressOnlyChild_ok [of ?n p v] n assms(3) by auto
  have none: "map_of (child_entries (children n)) key = None" using map_of_child_entries [OF n(3), of key] assms(2) by simp
  then have "look ?n = (look n)(key := None)" using n(4) by (cases "data n") (auto simp: look_eq fun_upd_idem)
  moreover have "comparePrefix (trieKey n) (drop (length p) key) = length (trieKey n)" by (simp add: comparePrefix_all assms(2))
  moreover have "look n key = map_option snd (data n)" using look_node [OF assms(1), of key] assms(2) by simp
  ultimately show ?thesis using n' assms(2)
    by (subst upsertAt.simps) (auto simp: Let_def newCount_def oldSize_def addedSize_def split: option.splits)
qed

text \<open>Two keys of the map go on from the given one with different bytes: the tree has a node there, with or without a value.\<close>

definition branches :: "(bytes \<rightharpoonup> bytes) \<Rightarrow> bytes \<Rightarrow> bool" where
  "branches m key \<longleftrightarrow> (\<exists>k1 k2. m k1 \<noteq> None \<and> m k2 \<noteq> None \<and> strict_prefix key k1 \<and> strict_prefix key k2 \<and>
     k1 ! length key \<noteq> k2 ! length key)"

lemma branches_cong: "(\<And>k. strict_prefix key k \<Longrightarrow> m k = m' k) \<Longrightarrow> branches m key \<longleftrightarrow> branches m' key"
  unfolding branches_def by metis

lemma no_branches:
  assumes "\<And>k. m k \<noteq> None \<Longrightarrow> prefix w k" "\<not> prefix w key"
  shows "\<not> branches m key"
proof
  assume "branches m key"
  then obtain k1 k2 where k: "m k1 \<noteq> None" "m k2 \<noteq> None" "strict_prefix key k1" "strict_prefix key k2" "k1 ! length key \<noteq> k2 ! length key"
    unfolding branches_def by blast
  have w: "prefix w k1" "prefix w k2" using assms(1) k(1,2) by blast+
  have "strict_prefix key w" using prefix_same_cases [of key k1 w] k(3) w(1) assms(2) by (auto simp: strict_prefix_def)
  then have "length key < length w" by (rule prefix_length_less)
  then have "k1 ! length key = w ! length key" "k2 ! length key = w ! length key"
    using w by (auto simp: prefix_def nth_append)
  with k(5) show False by simp
qed

lemma entries_nonempty: "wf_at p n \<Longrightarrow> entries n \<noteq> []"
proof (induction n arbitrary: p)
  case (Node v d k x cs)
  show ?case
  proof (cases x)
    case None
    then obtain b c cs' where cs: "cs = (b, c) # cs'" using Node.prems by (cases cs) (auto simp: wf_at.simps)
    then have "wf_at (p @ k) c" using Node.prems by (simp add: wf_at.simps)
    from Node.IH [of "(b, c)" c, OF _ _ this] cs show ?thesis by (simp add: entries.simps None)
  qed (simp add: entries.simps)
qed

lemma look_some: "wf_at p n \<Longrightarrow> \<exists>k. look n k \<noteq> None"
  using entries_nonempty [of p n] by (cases "entries n") (auto simp: look_def)

lemma look_prefix: "wf_at p n \<Longrightarrow> look n k \<noteq> None \<Longrightarrow> prefix (p @ trieKey n) k"
  by (rule ccontr) (simp add: look_outside)

text \<open>A node without a value has two children, whose keys branch there.\<close>

lemma interior_branches:
  assumes "wf_at p c" "data c = None"
  shows "branches (look c) (p @ trieKey c)"
proof -
  let ?w = "p @ trieKey c"
  have cs: "wf_children ?w (children c)" "2 \<le> length (children c)" using assms by (auto simp: wf_at_iff)
  then obtain b1 c1 b2 c2 rest where ch: "children c = (b1, c1) # (b2, c2) # rest"
    by (cases "children c"; cases "tl (children c)") auto
  have "b1 \<noteq> b2" using cs(1) ch sorted_children_distinct [of "children c"] by (auto simp: wf_children_def)
  moreover have "\<exists>k. look c k \<noteq> None \<and> strict_prefix ?w k \<and> k ! length ?w = b" if bd: "(b, d) \<in> set (children c)" for b d
  proof -
    note d = wf_child [OF cs(1) bd]
    obtain k x where k: "look d k = Some x" using look_some [OF d(1)] by auto
    then have "(k, x) \<in> set (entries d)" by (auto simp: look_def dest: map_of_SomeD)
    note byte = child_entries_byte [OF cs(1) bd this]
    then have "look c k = look d k" using look_below [OF wf_any_child [OF assms(1)], of k] d(3) by simp
    then show ?thesis using k byte by (intro exI [of _ k]) (auto simp: strict_prefix_def)
  qed
  ultimately show ?thesis using ch unfolding branches_def by (metis list.set_intros(1,2))
qed

lemma branches_below:
  assumes "wf_any p n" "prefix (p @ trieKey n) key" "length (p @ trieKey n) < length key"
  shows "branches (look n) key \<longleftrightarrow>
    (case map_of (children n) (key ! length (p @ trieKey n)) of None \<Rightarrow> False | Some c \<Rightarrow> branches (look c) key)"
proof -
  have below: "look n k = (case map_of (children n) (key ! length (p @ trieKey n)) of None \<Rightarrow> None | Some c \<Rightarrow> look c k)"
    if "strict_prefix key k" for k
  proof -
    have "prefix (p @ trieKey n) k" using assms(2) that prefix_order.trans strict_prefix_def by blast
    moreover have "length (p @ trieKey n) < length k" using assms(3) prefix_length_less [OF that] by linarith
    moreover have "k ! length (p @ trieKey n) = key ! length (p @ trieKey n)"
      using that assms(3) by (auto simp: strict_prefix_def prefix_def nth_append)
    ultimately show ?thesis using look_below [OF assms(1)] by metis
  qed
  show ?thesis
  proof (cases "map_of (children n) (key ! length (p @ trieKey n))")
    case None
    then have "branches (look n) key \<longleftrightarrow> branches Map.empty key" by (intro branches_cong) (simp add: below)
    then show ?thesis using None by (simp add: branches_def)
  next
    case (Some c)
    then have "branches (look n) key \<longleftrightarrow> branches (look c) key" by (intro branches_cong) (simp add: below)
    then show ?thesis using Some by simp
  qed
qed

text \<open>What following a key below a node promises.\<close>

fun erase_spec :: "nat \<Rightarrow> bytes \<Rightarrow> bytes \<Rightarrow> node \<Rightarrow> erased \<Rightarrow> bool" where
  "erase_spec v key p n NoPath \<longleftrightarrow> look n key = None \<and> \<not> branches (look n) key"
| "erase_spec v key p n Interior \<longleftrightarrow>
     (\<exists>c c'. map_of (children n) (key ! length (p @ trieKey n)) = Some c \<and>
        upsertAt v key None (length (p @ trieKey n)) c = Some (c', newCount (look n key) - 1, - oldSize (look n key)) \<and>
        wf_at (p @ trieKey n) c' \<and> hd (trieKey c') = hd (trieKey c) \<and> look c' = (look c)(key := None)) \<and>
     (look n key \<noteq> None \<or> branches (look n) key)"
| "erase_spec v key p n (Removed n' k) \<longleftrightarrow>
     wf_any p n' \<and> (trieKey n' = [] \<longleftrightarrow> trieKey n = []) \<and> hd (trieKey n') = hd (trieKey n) \<and>
     look n' = (look n)(key := None) \<and> (\<exists>y. look n key = Some y \<and> k = length y)"

lemma erase_spec_leaf:
  assumes "wf_any p n" "map_of (children n) b = Some c" "key = (p @ trieKey n) @ trieKey c" "isLeaf c"
  shows "\<exists>x n'. data c = Some x \<and>
    compressOnlyChild v (Node v (depth n) (trieKey n) (data n) (clearChild b (children n))) = Some n' \<and>
    erase_spec v key p n (Removed n' (length (snd x)))"
proof -
  let ?q = "p @ trieKey n" and ?n = "Node v (depth n) (trieKey n) (data n) (clearChild b (children n))"
  note n = wf_anyD [OF assms(1)]
  have c: "wf_at ?q c" "hd (trieKey c) = b" using n(2) assms(2) by (simp_all add: wf_children_def)
  then have tk: "trieKey c \<noteq> []" by (simp add: wf_at_iff)
  obtain y where y: "data c = Some (key, y)" using c(1) assms(3,4) by (cases "data c") (auto simp: wf_at_iff isLeaf_def)
  have key: "prefix ?q key" "length ?q < length key" "key ! length ?q = b"
    using tk c(2) by (simp_all add: assms(3) hd_conv_nth nth_append)
  have lc: "look c = [key \<mapsto> y]" using y assms(4) by (simp add: look_eq isLeaf_def child_entries_def)
  have ln: "look ?n = (look n)(key := None)"
    using look_change [OF assms(1) key(2) child_entries_clearChild [OF n(2) assms(2) lc key]] .
  have look: "look n key = Some y" using look_below [OF assms(1) key(1,2)] assms(2) key(3) lc by simp
  show ?thesis
  proof (cases "trieKey n = []")
    case True
    then have "compressOnlyChild v ?n = Some ?n" by (simp add: compressOnlyChild_def)
    moreover have "wf_any p ?n" using wf_any_change [OF assms(1) wf_clearChild [OF n(2)]] True by simp
    ultimately show ?thesis using y ln look True by simp
  next
    case False
    have "sorted_children (children n)" using n(2) by (simp add: wf_children_def)
    then have "data n \<noteq> None \<or> clearChild b (children n) \<noteq> []"
      using assms(1) False length_clearChild [of "children n" b] by (auto simp: wf_any_def wf_at_iff)
    then obtain n' where "compressOnlyChild v ?n = Some n'" "wf_at p n'" "hd (trieKey n') = hd (trieKey n)" "look n' = look ?n"
      using compressOnlyChild_ok [of ?n p v] n False wf_clearChild [OF n(2)] by auto
    moreover from this have "trieKey n' \<noteq> []" "wf_any p n'" by (simp_all add: wf_at_iff wf_any_def)
    ultimately show ?thesis using y ln look False by simp
  qed
qed
text \<open>The promise about a child gives the promise about its parent.\<close>

lemma erase_spec_deeper:
  assumes "wf_any p n" "prefix (p @ trieKey n) key" "length (p @ trieKey n) < length key"
    and "map_of (children n) (key ! length (p @ trieKey n)) = Some c"
    and "prefix ((p @ trieKey n) @ trieKey c) key" "length ((p @ trieKey n) @ trieKey c) < length key"
    and "erase_spec v key (p @ trieKey n) c e"
  shows "erase_spec v key p n (case e of
      Removed c' k \<Rightarrow> Removed (Node v (depth n) (trieKey n) (data n) (setChild (key ! length (p @ trieKey n)) c' (children n))) k
    | other \<Rightarrow> other)"
proof -
  let ?q = "p @ trieKey n" and ?b = "key ! length (p @ trieKey n)"
  note n = wf_anyD [OF assms(1)]
  have c: "wf_at ?q c" "hd (trieKey c) = ?b" "depth c = length ?q" "trieKey c \<noteq> []"
    by (rule slot_child [OF n(2) assms(4)])+
  have look: "look n key = look c key" using look_below [OF assms(1-3)] assms(4) by simp
  have br: "branches (look n) key \<longleftrightarrow> branches (look c) key" using branches_below [OF assms(1-3)] assms(4) by simp
  show ?thesis
  proof (cases e)
    case NoPath
    with assms(7) look br show ?thesis by simp
  next
    case Interior
    let ?b' = "key ! length (?q @ trieKey c)"
    from assms(7) Interior obtain d d' where
      d: "map_of (children c) ?b' = Some d" "wf_at (?q @ trieKey c) d'" "hd (trieKey d') = hd (trieKey d)" "look d' = (look d)(key := None)"
      and up: "upsertAt v key None (length (?q @ trieKey c)) d = Some (d', newCount (look c key) - 1, - oldSize (look c key))" by auto
    have hd: "hd (trieKey d') = ?b'" using slot_child(2) [OF wf_anyD(2) [OF wf_any_child [OF c(1)]] d(1)] d(3) by simp
    have "look d' = (case map_of (children c) ?b' of None \<Rightarrow> Map.empty | Some c \<Rightarrow> look c)(key := None)" using d(1,4) by simp
    moreover have "length ?q + length (trieKey c) < length key" "key ! (length ?q + length (trieKey c)) = ?b'"
      using assms(6) by (simp_all add: add.assoc)
    ultimately have new: "wf_at ?q (Node v (length ?q) (trieKey c) (data c) (setChild ?b' d' (children c)))"
        "look (Node v (length ?q) (trieKey c) (data c) (setChild ?b' d' (children c))) = (look c)(key := None)"
      using look_setChild [OF c(1) d(2) hd assms(5), of None v] by blast+
    have ne: "length (trieKey c) \<noteq> length key - length ?q" using assms(6) by simp
    have "comparePrefix (trieKey c) (drop (length ?q) key) = length (trieKey c)"
      using comparePrefix_all prefix_drop_iff [OF assms(2)] assms(5) by blast
    then have "upsertAt v key None (length ?q) c =
        Some (Node v (length ?q) (trieKey c) (data c) (setChild ?b' d' (children c)), newCount (look c key) - 1, - oldSize (look c key))"
      using up d(1) c(3) assms(6) ne by (subst upsertAt.simps) (simp add: Let_def add.assoc)
    with Interior assms(4,6,7) look br c(4) new show ?thesis by simp
  next
    case (Removed c' k)
    let ?n = "Node v (depth n) (trieKey n) (data n) (setChild ?b c' (children n))"
    from assms(7) Removed c(2,4) have c': "wf_at ?q c'" "hd (trieKey c') = ?b" "look c' = (look c)(key := None)"
      by (auto simp: wf_any_def)
    have "look c' = (case map_of (children n) ?b of None \<Rightarrow> Map.empty | Some c \<Rightarrow> look c)(key := None)" using c'(3) assms(4) by simp
    from child_entries_setChild [OF n(2) c'(1,2) assms(2,3) refl this]
    have "look ?n = (look n)(key := None)" by (rule look_change [OF assms(1,3)])
    moreover have "wf_any p ?n" using wf_setChild [OF n(2) c'(1,2)] length_setChild by (intro wf_any_change [OF assms(1)])
    ultimately show ?thesis using Removed assms(7) look by simp
  qed
qed

lemma eraseBelow_ok:
  assumes "wf_any p n" "prefix (p @ trieKey n) key" "length (p @ trieKey n) < length key"
  shows "\<exists>e. eraseBelow v key n = Some e \<and> erase_spec v key p n e"
  using assms
proof (induction n arbitrary: p rule: measure_induct_rule [of size])
  case (less n)
  let ?q = "p @ trieKey n" and ?b = "key ! length (p @ trieKey n)"
  note n = wf_anyD [OF less.prems(1)] and look = look_below [OF less.prems]
  have d: "depth n + length (trieKey n) = length ?q" using n(1) by simp
  have b: "byteAt key (length ?q) = ?b" using less.prems(3) by simp
  note er = eraseBelow.simps [of v key n, unfolded Let_def d b]
  show ?case
  proof (cases "map_of (children n) ?b")
    case None
    then show ?thesis using look branches_below [OF less.prems] by (intro exI [of _ NoPath]) (subst er, simp)
  next
    case (Some c)
    let ?p = "comparePrefix (trieKey c) (drop (length ?q) key)"
    have c: "wf_at ?q c" "hd (trieKey c) = ?b" "depth c = length ?q" by (rule slot_child [OF n(2) Some])+
    have look: "look n key = look c key" using look Some by simp
    have br: "branches (look n) key \<longleftrightarrow> branches (look c) key" using branches_below [OF less.prems] Some by simp
    have m: "?p = length (trieKey c) \<longleftrightarrow> prefix (?q @ trieKey c) key"
      using comparePrefix_all prefix_drop_iff [OF less.prems(2)] by blast
    show ?thesis
    proof (cases "prefix (?q @ trieKey c) key")
      case False
      with m have "eraseBelow v key n = Some NoPath" by (subst er) (simp only: Some option.case if_True simp_thms)
      moreover have "look n key = None" using look look_outside [OF c(1) False] by simp
      moreover have "\<not> branches (look n) key" using br no_branches [OF look_prefix [OF c(1)] False] by blast
      ultimately show ?thesis by simp
    next
      case pre: True
      have er: "eraseBelow v key n = (if length (?q @ trieKey c) < length key then do {
            e \<leftarrow> eraseBelow v key c;
            Some (case e of
                    Removed ch' k \<Rightarrow> Removed (Node v (depth n) (trieKey n) (data n) (setChild ?b ch' (children n))) k
                  | other \<Rightarrow> other) }
          else if \<not> isLeaf c then Some Interior
          else do {
            x \<leftarrow> data c;
            n' \<leftarrow> compressOnlyChild v (Node v (depth n) (trieKey n) (data n) (clearChild ?b (children n)));
            Some (Removed n' (length (snd x))) })"
        by (subst er) (use Some m pre c(2,3) in simp)
      show ?thesis
      proof (cases "key = ?q @ trieKey c")
        case False
        then have longer: "length (?q @ trieKey c) < length key" using pre prefix_less by blast
        have "size c < size n" using child_size [OF Some] by (cases n) simp
        from less.IH [OF this wf_any_child [OF c(1)] pre longer] obtain e where
          e: "eraseBelow v key c = Some e" "erase_spec v key ?q c e" by blast
        show ?thesis using erase_spec_deeper [OF less.prems Some pre longer e(2)] e(1) longer
          by (subst er) (cases e; simp)
      next
        case True
        show ?thesis
        proof (cases "isLeaf c")
          case leaf: True
          from erase_spec_leaf [OF less.prems(1) Some True leaf, of v] True leaf show ?thesis by (subst er) auto
        next
          case False
          then have "children c \<noteq> []" by (simp add: isLeaf_def)
          moreover have "look n key \<noteq> None \<or> branches (look n) key"
            using interior_branches [OF c(1)] look_node [OF c(1), of key] look br True by (cases "data c") auto
          ultimately have "erase_spec v key p n Interior" using upsertAt_remove [OF c(1) True, of v] Some look by auto
          then show ?thesis using True False by (subst er) simp
        qed
      qed
    qed
  qed
qed

lemma wf_any_root: "wf_root r \<Longrightarrow> wf_any [] r"
  by (simp add: wf_any_def wf_root_def)

lemma erase_ok:
  assumes "wf_store s" "key \<noteq> []"
  shows "\<exists>b s'. erase v key s = Some (b, s') \<and> wf_store s' \<and> contents s' = (contents s)(key := None) \<and>
    (b \<longleftrightarrow> contents s key \<noteq> None \<or> branches (contents s) key)"
proof -
  let ?r = "root s"
  have r: "wf_root ?r" "depth ?r = 0" "trieKey ?r = []" "data ?r = None" "wf_children [] (children ?r)"
    using assms(1) by (simp_all add: wf_store_def wf_root_def)
  have sizes: "count s = int (card (dom (look ?r)))" "dataSize s = mapSize (look ?r)"
    using assms(1) by (simp_all add: wf_store_def contents_def)
  obtain e where e: "eraseBelow v key ?r = Some e" "erase_spec v key [] ?r e"
    using eraseBelow_ok [OF wf_any_root [OF r(1)], of key v] r(3) assms(2) by auto
  have b: "key ! 0 = hd key" "byteAt key 0 = hd key" using assms(2) by (simp_all add: hd_conv_nth)
  show ?thesis
  proof (cases e)
    case NoPath
    then have "look ?r key = None \<and> \<not> branches (look ?r) key" using e(2) by simp
    moreover have "erase v key s = Some (False, s)" using NoPath e(1) r assms(2) by (simp add: erase_def)
    ultimately show ?thesis using assms(1) by (intro exI [of _ False] exI [of _ s]) (simp add: contents_def fun_upd_idem)
  next
    case Interior
    then have there: "look ?r key \<noteq> None \<or> branches (look ?r) key" using e(2) by simp
    from Interior e(2) r(3) b obtain c c' where c: "map_of (children ?r) (hd key) = Some c" "wf_at [] c'" "hd (trieKey c') = hd (trieKey c)"
        "look c' = (look c)(key := None)"
      and up: "upsertAt v key None 0 c = Some (c', newCount (look ?r key) - 1, - oldSize (look ?r key))" by auto
    have hd: "hd (trieKey c') = hd key" using c(3) slot_child(2) [OF r(5) c(1)] by simp
    have "look c' = (case map_of (children ?r) (hd key) of None \<Rightarrow> Map.empty | Some c \<Rightarrow> look c)(key := None)" using c(1,4) by simp
    note new = upsert_root_child [OF r(1) c(2) hd assms(2) this, of v]
    have "upsert v key None s = Some (s\<lparr>root := Node v 0 [] None (setChild (hd key) c' (children ?r)),
        count := count s + (newCount (look ?r key) - 1), dataSize := dataSize s + - oldSize (look ?r key)\<rparr>)"
      using up c(1) b r by (simp add: upsert_def Let_def)
    with Interior e(1) new sizes r assms(2) there show ?thesis
      by (intro exI [of _ True]) (simp add: erase_def wf_store_def contents_def card_remove mapSize_remove del: dom_fun_upd)
  next
    case (Removed r' k)
    with e(2) r(3) have r': "wf_root r'" "look r' = (look ?r)(key := None)" by (auto simp: wf_any_def)
    from e(2) Removed obtain y where "look ?r key = Some y" "k = length y" by auto
    with Removed e(1) r' sizes r assms(2) show ?thesis
      by (intro exI [of _ True]) (simp add: erase_def wf_store_def contents_def card_remove mapSize_remove newCount_def oldSize_def del: dom_fun_upd)
  qed
qed

lemma erase_exact:
  assumes "wf_store s" "key \<noteq> []"
  shows "\<exists>s'. erase v key s = Some (contents s key \<noteq> None \<or> branches (contents s) key, s') \<and> wf_store s' \<and> contents s' = (contents s)(key := None)"
proof -
  obtain b s' where "erase v key s = Some (b, s')" "wf_store s'" "contents s' = (contents s)(key := None)"
    and b: "b \<longleftrightarrow> contents s key \<noteq> None \<or> branches (contents s) key"
    using erase_ok [OF assms] by blast
  then show ?thesis unfolding b by (intro exI [of _ s'] conjI)
qed

subsection \<open>The store as a map\<close>

datatype store_op = InsertOp bytes bytes | UpdateOp bytes bytes | EraseOp bytes

text \<open>An operation on a map.\<close>

fun map_op :: "store_op \<Rightarrow> (bytes \<rightharpoonup> bytes) \<Rightarrow> (bytes \<rightharpoonup> bytes)" where
  "map_op (InsertOp key x) m = (if m key = None \<and> key \<noteq> [] then m(key \<mapsto> x) else m)"
| "map_op (UpdateOp key x) m = (if m key \<noteq> None then m(key \<mapsto> x) else m)"
| "map_op (EraseOp key) m = m(key := None)"

text \<open>What an operation reports: an insertion that the key was absent, an update that it was present. A removal reports that the key was
  present, but also a key that is absent when two keys of the map branch there.\<close>

fun reported :: "store_op \<Rightarrow> (bytes \<rightharpoonup> bytes) \<Rightarrow> bool" where
  "reported (InsertOp key x) m \<longleftrightarrow> m key = None \<and> key \<noteq> []"
| "reported (UpdateOp key x) m \<longleftrightarrow> m key \<noteq> None"
| "reported (EraseOp key) m \<longleftrightarrow> m key \<noteq> None \<or> branches m key"

fun apply_op :: "(nat \<Rightarrow> bytes \<Rightarrow> bytes \<Rightarrow> 's \<Rightarrow> (bool \<times> 's) option) \<Rightarrow> (nat \<Rightarrow> bytes \<Rightarrow> bytes \<Rightarrow> 's \<Rightarrow> (bool \<times> 's) option) \<Rightarrow>
    (nat \<Rightarrow> bytes \<Rightarrow> 's \<Rightarrow> (bool \<times> 's) option) \<Rightarrow> nat \<Rightarrow> store_op \<Rightarrow> 's \<Rightarrow> (bool \<times> 's) option" where
  "apply_op ins upd del v (InsertOp key x) = ins v key x"
| "apply_op ins upd del v (UpdateOp key x) = upd v key x"
| "apply_op ins upd del v (EraseOp key) = del v key"

fun run_ops :: "(nat \<Rightarrow> store_op \<Rightarrow> 's \<Rightarrow> (bool \<times> 's) option) \<Rightarrow> nat \<Rightarrow> store_op list \<Rightarrow> 's \<Rightarrow> (bool list \<times> 's) option" where
  "run_ops f v [] s = Some ([], s)"
| "run_ops f v (a # as) s = do {
     (b, s1) \<leftarrow> f v a s;
     (bs, s2) \<leftarrow> run_ops f (Suc v) as s1;
     Some (b # bs, s2) }"

fun run_map :: "store_op list \<Rightarrow> (bytes \<rightharpoonup> bytes) \<Rightarrow> (bytes \<rightharpoonup> bytes)" where
  "run_map [] m = m"
| "run_map (a # as) m = run_map as (map_op a m)"

fun reports :: "store_op list \<Rightarrow> (bytes \<rightharpoonup> bytes) \<Rightarrow> bool list" where
  "reports [] m = []"
| "reports (a # as) m = reported a m # reports as (map_op a m)"

text \<open>The contract of a store: each operation ends, does to the contents what it does to a map, and reports what is said above.\<close>

locale key_value_store =
  fixes inv :: "'s \<Rightarrow> bool" and abs :: "'s \<Rightarrow> bytes \<rightharpoonup> bytes"
    and ins upd :: "nat \<Rightarrow> bytes \<Rightarrow> bytes \<Rightarrow> 's \<Rightarrow> (bool \<times> 's) option" and del :: "nat \<Rightarrow> bytes \<Rightarrow> 's \<Rightarrow> (bool \<times> 's) option"
  assumes insert_law: "inv s \<Longrightarrow> \<exists>s'. ins v key x s = Some (abs s key = None \<and> key \<noteq> [], s') \<and> inv s' \<and>
      abs s' = (if abs s key = None \<and> key \<noteq> [] then (abs s)(key \<mapsto> x) else abs s)"
    and update_law: "inv s \<Longrightarrow> \<exists>s'. upd v key x s = Some (abs s key \<noteq> None, s') \<and> inv s' \<and>
      abs s' = (if abs s key \<noteq> None then (abs s)(key \<mapsto> x) else abs s)"
    and erase_law: "inv s \<Longrightarrow> key \<noteq> [] \<Longrightarrow> \<exists>s'. del v key s = Some (abs s key \<noteq> None \<or> branches (abs s) key, s') \<and> inv s' \<and>
      abs s' = (abs s)(key := None)"
begin

lemma step_refines:
  assumes "inv s" "a \<noteq> EraseOp []"
  shows "\<exists>s'. apply_op ins upd del v a s = Some (reported a (abs s), s') \<and> inv s' \<and> abs s' = map_op a (abs s)"
proof (cases a)
  case (InsertOp key x)
  then show ?thesis using insert_law [OF assms(1), of v key x] by simp
next
  case (UpdateOp key x)
  then show ?thesis using update_law [OF assms(1), of v key x] by simp
next
  case (EraseOp key)
  then show ?thesis using erase_law [OF assms(1), of key v] assms(2) by simp
qed

lemma run_refines:
  assumes "inv s" "EraseOp [] \<notin> set as"
  shows "\<exists>s'. run_ops (apply_op ins upd del) v as s = Some (reports as (abs s), s') \<and> inv s' \<and> abs s' = run_map as (abs s)"
  using assms
proof (induction as arbitrary: s v)
  case (Cons a as)
  obtain s1 where s1: "apply_op ins upd del v a s = Some (reported a (abs s), s1)" "inv s1" "abs s1 = map_op a (abs s)"
    using step_refines [OF Cons.prems(1), of a v] Cons.prems(2) by auto
  show ?case using Cons.IH [OF s1(2), of "Suc v"] Cons.prems(2) s1(1,3) by auto
qed simp

end

interpretation radix: key_value_store wf_store contents insertKey updateKey erase
  by unfold_locales (use insertKey_ok updateKey_ok erase_exact in blast)+

lemma emptyHead_ok: "wf_store emptyHead" "contents emptyHead = Map.empty"
  by (simp_all add: wf_store_def contents_def emptyHead_def wf_root_def look_def entries.simps mapSize_def)

definition runStore :: "nat \<Rightarrow> store_op list \<Rightarrow> Head \<Rightarrow> (bool list \<times> Head) option" where
  "runStore = run_ops (apply_op insertKey updateKey erase)"

definition radixSample :: "store_op list" where
  "radixSample = [InsertOp [97, 98] [1], InsertOp [97, 98, 99] [2], InsertOp [97, 120] [3, 4], UpdateOp [97, 120] [5],
     EraseOp [97, 98], InsertOp [200] [6], InsertOp [97] [7]]"

lemma radixSample_no_empty: "EraseOp [] \<notin> set radixSample"
  by code_simp

text \<open>Operations that fail beside ones that succeed, and the removal of an absent key where two others branch.\<close>

definition mixedSample :: "store_op list" where
  "mixedSample = [InsertOp [97, 98] [1], InsertOp [97, 98] [2], InsertOp [97, 99] [2, 3], UpdateOp [97] [5], EraseOp [97], EraseOp [98], EraseOp [97, 98]]"

text \<open>(C30) Every sequence of insertions, updates and removals on a store that is empty at first, in which the empty key is not removed, runs
  without undefined behaviour and leaves a well-formed tree with the contents of a map after the same operations: every lookup gives what the map
  gives, and the counters are the number of entries and the sum of the sizes of the values. The reported results are exactly these: an
  insertion reports whether the key was absent (the empty key is never inserted), an update whether it was present, and a removal whether it
  was present or two keys branch there; so a removal can report a key that is absent (\<open>erase_reports_absent_prefix\<close>), which the comment in the code excludes. The
  removal of the empty key is left out because it is undefined (\<open>erase_empty_key_undefined\<close>).\<close>

theorem radix_store_refines_map:
  assumes "EraseOp [] \<notin> set as"
  defines "m \<equiv> run_map as Map.empty"
  shows "\<exists>s. runStore v as emptyHead = Some (reports as Map.empty, s) \<and> wf_root (root s) \<and>
    (\<forall>key. find key s = map_option (Pair key) (m key)) \<and> count s = int (card (dom m)) \<and> dataSize s = mapSize m"
proof -
  from radix.run_refines [OF emptyHead_ok(1) assms(1), of v] obtain s where
    s: "runStore v as emptyHead = Some (reports as Map.empty, s)" "wf_store s" "contents s = m"
    by (auto simp: runStore_def m_def emptyHead_ok(2))
  then show ?thesis using find_look [of s] by (auto simp: wf_store_def contents_def)
qed

theorem radix_store_refines_map_witness:
  "EraseOp [] \<notin> set mixedSample \<and> reports mixedSample Map.empty = [True, False, True, False, True, False, True] \<and>
   (\<exists>s. runStore 1 mixedSample emptyHead = Some (reports mixedSample Map.empty, s) \<and> wf_root (root s) \<and>
      (\<forall>key. find key s = map_option (Pair key) (run_map mixedSample Map.empty key)) \<and>
      count s = int (card (dom (run_map mixedSample Map.empty))) \<and> dataSize s = mapSize (run_map mixedSample Map.empty))"
proof -
  have no: "EraseOp [] \<notin> set mixedSample" by code_simp
  have "map_option fst (runStore 1 mixedSample emptyHead) = Some [True, False, True, False, True, False, True]" by code_simp
  then show ?thesis using radix_store_refines_map [OF no, of 1] no by auto
qed

end
