(* ===== verification/RadixIter.thy ===== *)
theory RadixIter
  imports RadixProps
begin

text \<open>
  Iteration over a radix store: both iterators visit the entries in the order of their keys, equality compares the contents, and
  \<open>lower_bound\<close> finds the first entry whose key is not smaller.
\<close>

subsection \<open>The order of the keys\<close>

lemma less_at_byte:
  assumes "prefix q k" "prefix q k'" "length q < length k" "length q < length k'" "k ! length q < k' ! length q"
  shows "(k :: bytes) < k'"
proof -
  obtain x xs y ys where "k = q @ x # xs" "k' = q @ y # ys"
    using assms(1-4) by (metis append_Nil2 less_irrefl list.exhaust prefixE)
  moreover from this assms(5) have "x < y" by simp
  then have "q @ x # xs < q @ y # ys" by (induction q) auto
  ultimately show ?thesis by simp
qed

lemma prefix_shorter: "prefix q k \<Longrightarrow> length q < length k \<Longrightarrow> (q :: bytes) < k"
proof -
  assume "prefix q k" "length q < length k"
  then obtain x xs where "k = q @ x # xs" by (metis append_Nil2 less_irrefl list.exhaust prefixE)
  moreover have "q < q @ x # xs" by (induction q) auto
  ultimately show ?thesis by simp
qed

lemma wf_children_tl: "wf_children q ((b, c) # cs) \<Longrightarrow> wf_children q cs"
  unfolding wf_children_def
  by (metis map_of_SomeD sorted_children_simps(2) list.set_intros(2) map_of_eq_Some_iff sorted_children_distinct)

lemma child_entries_simps [simp]: "child_entries [] = []" "child_entries ((b, c) # cs) = entries c @ child_entries cs"
  by (simp_all add: child_entries_def)

lemma child_entries_at:
  assumes "wf_children q cs" "k \<in> fst ` set (child_entries cs)"
  shows "\<exists>b\<in>fst ` set cs. prefix q k \<and> length q < length k \<and> k ! length q = b"
proof -
  obtain b c x where "(b, c) \<in> set cs" "(k, x) \<in> set (entries c)" using assms(2) by (auto simp: child_entries_def)
  with child_entries_byte [OF assms(1) this] show ?thesis by force
qed

lemma child_entries_sorted:
  assumes "wf_children q cs" "\<And>b c. (b, c) \<in> set cs \<Longrightarrow> sorted_wrt (<) (map fst (entries c))"
  shows "sorted_wrt (<) (map fst (child_entries cs))"
  using assms
proof (induction cs)
  case (Cons bc cs)
  obtain b c where bc: "bc = (b, c)" by (cases bc)
  have "k < k'" if in_c: "k \<in> fst ` set (entries c)" and in_cs: "k' \<in> fst ` set (child_entries cs)" for k k'
  proof -
    have k: "prefix q k" "length q < length k" "k ! length q = b"
      using child_entries_byte [OF Cons.prems(1), of b c] in_c bc by auto
    obtain b' where "b' \<in> fst ` set cs" "prefix q k'" "length q < length k'" "k' ! length q = b'"
      using child_entries_at [OF wf_children_tl [OF Cons.prems(1) [unfolded bc]] in_cs] by blast
    moreover have "sorted_children (bc # cs)" using Cons.prems(1) unfolding wf_children_def by (rule conjunct1)
    with calculation(1) have "b < b'" by (auto simp: bc)
    ultimately show ?thesis using k by (intro less_at_byte [of q]) simp_all
  qed
  moreover have "sorted_wrt (<) (map fst (child_entries cs))"
    using Cons.IH [OF wf_children_tl] Cons.prems bc by auto
  ultimately show ?case using Cons.prems(2) [of b c] bc by (simp add: sorted_wrt_append)
qed simp

lemma entries_sorted_at: "wf_at p n \<Longrightarrow> sorted_wrt (<) (map fst (entries n))"
proof (induction n arbitrary: p)
  case (Node v d k x cs)
  let ?n = "Node v d k x cs"
  have n: "wf_children (p @ k) cs" "\<And>y. x = Some y \<Longrightarrow> fst y = p @ k"
    using wf_anyD [OF wf_any_child [OF Node.prems]] by simp_all
  have "sorted_wrt (<) (map fst (child_entries cs))"
    by (rule child_entries_sorted [OF n(1)], rule Node.IH [OF _ _ wf_child(1) [OF n(1)]]) (auto simp: snds.simps)
  moreover have "p @ k < k'" if "k' \<in> fst ` set (child_entries cs)" for k'
    using child_entries_at [OF n(1) that] prefix_shorter [of "p @ k" k'] by blast
  ultimately show ?case unfolding entries_eq [of ?n] using n(2) by (cases x) auto
qed

lemma entries_sorted: "wf_root r \<Longrightarrow> sorted_wrt (<) (map fst (entries r))"
  using child_entries_sorted [of "[]" "children r"] entries_sorted_at wf_child(1)
  by (fastforce simp: wf_root_def entries_eq [of r])

subsection \<open>The nodes with data in order\<close>

fun nodes :: "node \<Rightarrow> node list" where
  "nodes (Node v d k x cs) = (if x = None then [] else [Node v d k x cs]) @ concat (map (\<lambda>(b, c). nodes c) cs)"

declare nodes.simps [simp del]

definition child_nodes :: "(byte \<times> node) list \<Rightarrow> node list" where
  "child_nodes cs = concat (map (\<lambda>(b, c). nodes c) cs)"

definition own_node :: "node \<Rightarrow> node list" where
  "own_node n = (if data n = None then [] else [n])"

lemma child_nodes_simps [simp]: "child_nodes [] = []" "child_nodes ((b, c) # cs) = nodes c @ child_nodes cs"
    "child_nodes (cs @ cs') = child_nodes cs @ child_nodes cs'"
  by (simp_all add: child_nodes_def)

lemma nodes_eq: "nodes n = own_node n @ child_nodes (children n)"
  by (cases n) (simp add: nodes.simps child_nodes_def own_node_def)

lemma nodes_data: "map data (nodes n) = map Some (entries n)"
proof (induction n)
  case (Node v d k x cs)
  have "\<And>b c. (b, c) \<in> set cs \<Longrightarrow> map data (nodes c) = map Some (entries c)" using Node.IH by fastforce
  then have "map data (child_nodes cs) = map Some (child_entries cs)" by (induction cs) (simp, fastforce)
  then show ?case
    unfolding nodes_eq [of "Node v d k x cs"] entries_eq [of "Node v d k x cs"] by (cases x) (simp_all add: own_node_def)
qed

definition first :: "'a list \<Rightarrow> 'a option" where
  "first xs = (case xs of [] \<Rightarrow> None | x # _ \<Rightarrow> Some x)"

definition final :: "'a list \<Rightarrow> 'a option" where
  "final xs = (if xs = [] then None else Some (last xs))"

lemma first_append: "first (xs @ ys) = (if xs = [] then first ys else first xs)"
  by (cases xs) (simp_all add: first_def)

lemma final_append: "final (xs @ ys) = (if ys = [] then final xs else final ys)"
  by (simp add: final_def)

lemma first_simps [simp]: "first [] = None" "first (x # xs) = Some x" "first xs = None \<longleftrightarrow> xs = []"
  by (simp_all add: first_def split: list.split)

lemma first_some [simp]: "xs \<noteq> [] \<Longrightarrow> map_option Some (first xs) = Some (first xs)"
  by (cases xs) simp_all

lemma final_simps [simp]: "final [] = None" "final [x] = Some x" "final (xs @ [x]) = Some x" "final xs = None \<longleftrightarrow> xs = []"
  by (simp_all add: final_def)

lemma beginNode_ok: "wf_at p n \<Longrightarrow> beginNode n = first (nodes n) \<and> nodes n \<noteq> []"
proof (induction n arbitrary: p rule: beginNode.induct)
  case (1 v d k x cs)
  then show ?case by (simp add: nodes_eq own_node_def)
next
  case (2 v d k)
  then show ?case by (simp add: wf_at_iff)
next
  case (3 v d k b c cs)
  have "wf_at (p @ k) c"
    using 3(2) wf_child(1) [of "p @ k" "(b, c) # cs" b c] by (simp add: wf_at_iff [of p "Node v d k None ((b, c) # cs)"])
  with 3(1) show ?case by (simp add: nodes_eq [of "Node v d k None ((b, c) # cs)"] own_node_def first_append)
qed

lemma traverseLeftSubtree_ok:
  assumes "wf_children q (children n)"
  shows "traverseLeftSubtree n = first (child_nodes (children n))"
proof (cases "children n")
  case (Cons bc cs)
  obtain b c where bc: "bc = (b, c)" by (cases bc)
  have "wf_at q c" using assms wf_child(1) [of q "children n" b c] Cons bc by simp
  from beginNode_ok [OF this] Cons bc show ?thesis by (simp add: traverseLeftSubtree_def first_append)
qed (simp add: traverseLeftSubtree_def)

lemma traverseRightSubtree_ok: "wf_at p n \<Longrightarrow> nodes n \<noteq> [] \<and> traverseRightSubtree n = last (nodes n)"
proof (induction n arbitrary: p rule: traverseRightSubtree.induct)
  case (1 n)
  have n: "wf_children (p @ trieKey n) (children n)" using 1(2) by (simp add: wf_at_iff)
  show ?case
  proof (cases "children n" rule: rev_cases)
    case Nil
    then have "data n \<noteq> None" using 1(2) by (auto simp: wf_at_iff)
    with Nil show ?thesis by (subst traverseRightSubtree.simps) (simp add: nodes_eq own_node_def)
  next
    case (snoc cs bc)
    obtain b c where bc: "bc = (b, c)" by (cases bc)
    have "wf_at (p @ trieKey n) c" using wf_child(1) [OF n, of b c] snoc bc by simp
    with 1(1) [of "p @ trieKey n"] snoc bc have "nodes c \<noteq> [] \<and> traverseRightSubtree c = last (nodes c)" by simp
    with snoc bc show ?thesis by (subst traverseRightSubtree.simps) (simp add: nodes_eq [of n])
  qed
qed
subsection \<open>The path to a node\<close>

text \<open>The nodes with data to the right and to the left of a path, whose nodes are listed from the innermost on.\<close>

fun after :: "node \<Rightarrow> node list \<Rightarrow> node list" where
  "after n [] = []"
| "after n (p # ps) = child_nodes (filter (\<lambda>(b, c). hd (trieKey n) < b) (children p)) @ after p ps"

fun before :: "node \<Rightarrow> node list \<Rightarrow> node list" where
  "before n [] = []"
| "before n (p # ps) = before p ps @ own_node p @ child_nodes (filter (\<lambda>(b, c). b < hd (trieKey n)) (children p))"

definition around :: "node \<Rightarrow> node list \<Rightarrow> node list" where
  "around n ps = before n ps @ nodes n @ after n ps"

lemma children_split:
  assumes "sorted_children cs" "(b, c) \<in> set cs"
  shows "cs = filter (\<lambda>(b', c). b' < b) cs @ (b, c) # filter (\<lambda>(b', c). b < b') cs"
  using assms
proof (induction cs)
  case (Cons bc cs)
  obtain b1 c1 where bc: "bc = (b1, c1)" by (cases bc)
  show ?case
  proof (cases "b1 = b")
    case True
    with Cons.prems bc have all: "\<forall>x\<in>set cs. b < fst x" and "c1 = c" by auto
    from all have "filter (\<lambda>(b', c). b' < b) cs = []" "filter (\<lambda>(b', c). b < b') cs = cs"
      by (auto simp: filter_empty_conv filter_id_conv)
    with True bc \<open>c1 = c\<close> show ?thesis by simp
  next
    case False
    with Cons.prems bc have "(b, c) \<in> set cs" "b1 < b" "sorted_children cs" by auto
    with Cons.IH bc show ?thesis by auto
  qed
qed simp

lemma around_child:
  assumes "wf_children q (children n)" "map_of (children n) b = Some c"
  shows "around c (n # ps) = around n ps"
proof -
  have "sorted_children (children n)" using assms(1) unfolding wf_children_def by (rule conjunct1)
  note split = children_split [OF this map_of_SomeD [OF assms(2)]]
  have "child_nodes (children n) = child_nodes (filter (\<lambda>(b', c). b' < b) (children n)) @ nodes c @
      child_nodes (filter (\<lambda>(b', c). b < b') (children n))"
    by (subst split) simp
  then show ?thesis using slot_child(2) [OF assms] by (simp add: around_def nodes_eq [of n])
qed

definition wf_path :: "node list \<Rightarrow> bool" where
  "wf_path ps \<longleftrightarrow> (\<forall>p\<in>set ps. \<exists>q. wf_children q (children p))"

lemma child_nodes_filter:
  assumes "wf_children q cs" "filter P cs = bc # cs'"
  shows "wf_at q (snd bc)"
proof -
  have "bc \<in> set cs" using assms(2) by (metis filter_is_subset list.set_intros(1) subsetD)
  then show ?thesis using wf_child(1) [OF assms(1), of "fst bc" "snd bc"] by simp
qed

lemma climb_ok: "wf_path ps \<Longrightarrow> climb n ps = Some (first (after n ps))"
proof (induction n ps rule: climb.induct)
  case (2 n p ps)
  obtain q where q: "wf_children q (children p)" using 2(2) by (auto simp: wf_path_def)
  have path: "wf_path ps" using 2(2) by (simp add: wf_path_def)
  show ?case
  proof (cases "filter (\<lambda>(b, c). hd (trieKey n) < b) (children p)")
    case Nil
    with 2(1) path show ?thesis by simp
  next
    case (Cons bc cs)
    obtain b c where bc: "bc = (b, c)" by (cases bc)
    from beginNode_ok [OF child_nodes_filter [OF q Cons]] bc obtain m ms where "beginNode c = Some m" "nodes c = m # ms"
      by (cases "nodes c") auto
    with bc Cons show ?thesis by simp
  qed
qed simp

lemma climbReverse_ok: "wf_path ps \<Longrightarrow> climbReverse n ps = final (before n ps)"
proof (induction n ps rule: climbReverse.induct)
  case (2 n p ps)
  let ?f = "filter (\<lambda>(b, c). b < hd (trieKey n)) (children p)"
  obtain q where q: "wf_children q (children p)" using 2(2) by (auto simp: wf_path_def)
  have path: "wf_path ps" using 2(2) by (simp add: wf_path_def)
  show ?case
  proof (cases ?f rule: rev_cases)
    case Nil
    with 2(1) path show ?thesis by (simp add: own_node_def final_append)
  next
    case (snoc cs bc)
    obtain b c where bc: "bc = (b, c)" by (cases bc)
    have "bc \<in> set (children p)" using snoc by (metis filter_is_subset in_set_conv_decomp subsetD)
    then have "wf_at q c" using wf_child(1) [OF q, of b c] bc by simp
    note right = traverseRightSubtree_ok [OF this]
    have "climbReverse n (p # ps) = Some (traverseRightSubtree (snd (last ?f)))" 
      by (cases ?f) (use snoc in simp_all)
    with right snoc bc show ?thesis by (simp add: final_def)
  qed
qed simp

lemma buildContext_ok:
  assumes "wf_any p n" "m \<in> set (nodes n)" "data m = Some (key, y)" "wf_path ps"
  shows "\<exists>ps'. buildContext key n ps = Some (m # ps') \<and> around m ps' = around n ps \<and> wf_path ps' \<and> (\<exists>q. wf_children q (children m))"
  using assms
proof (induction n arbitrary: p ps rule: measure_induct_rule [of size])
  case (less n)
  note n = wf_anyD [OF less.prems(1)]
  have d: "depth n + length (trieKey n) = length (p @ trieKey n)" using n(1) by simp
  note build = buildContext.simps [of key n ps, unfolded Let_def d]
  show ?case
  proof (cases "m \<in> set (child_nodes (children n))")
    case False
    then have "m = n" "data n \<noteq> None" using less.prems(2) by (auto simp: nodes_eq [of n] own_node_def split: if_splits)
    with n(3) less.prems(3) have "key = p @ trieKey n" by fastforce
    then have "buildContext key n ps = Some (n # ps)" by (subst build) simp
    with \<open>m = n\<close> less.prems(4) n(2) show ?thesis by blast
  next
    case True
    then obtain b c where bc: "(b, c) \<in> set (children n)" "m \<in> set (nodes c)" by (auto simp: child_nodes_def)
    have c: "wf_at (p @ trieKey n) c" "map_of (children n) b = Some c" by (rule wf_child [OF n(2) bc(1)])+
    have "Some (key, y) \<in> set (map data (nodes c))" using bc(2) less.prems(3) by force
    then have "(key, y) \<in> set (entries c)" by (auto simp: nodes_data)
    note key = child_entries_byte [OF n(2) bc(1) this]
    have "buildContext key n ps = buildContext key c (n # ps)" using key c(2) by (subst build) simp
    moreover have "size c < size n" using child_size [OF c(2)] by (cases n) simp
    moreover have "wf_path (n # ps)" using less.prems(4) n(2) by (auto simp: wf_path_def)
    ultimately show ?thesis
      using less.IH [OF _ wf_any_child [OF c(1)] bc(2) less.prems(3), of "n # ps"] around_child [OF n(2) c(2), of ps] by simp
  qed
qed

subsection \<open>Iteration\<close>

lemma distinct_entries: "wf_root r \<Longrightarrow> distinct (map fst (entries r))"
  using entries_sorted by (simp add: strict_sorted_iff)

lemma distinct_nodes: "wf_root r \<Longrightarrow> distinct (nodes r)"
proof -
  assume "wf_root r"
  then have "distinct (entries r)" using distinct_entries by (simp add: distinct_map)
  then have "distinct (map data (nodes r))" by (simp add: nodes_data distinct_map)
  then show ?thesis by (simp add: distinct_map)
qed

lemma nodes_split:
  assumes "wf_root r" "nodes r = xs @ m # ys"
  shows "\<exists>ps y. data m = Some y \<and> buildContext (fst y) r [] = Some (m # ps) \<and> xs = before m ps \<and>
    ys = child_nodes (children m) @ after m ps \<and> wf_path ps \<and> (\<exists>q. wf_children q (children m))"
proof -
  have m: "m \<in> set (nodes r)" using assms(2) by simp
  then obtain key y where y: "data m = Some (key, y)"
    using nodes_data [of r] by (metis image_iff list.set_map surj_pair)
  from buildContext_ok [OF wf_any_root [OF assms(1)] m this, of "[]"] obtain ps where
    ps: "buildContext key r [] = Some (m # ps)" "around m ps = nodes r" "wf_path ps" "\<exists>q. wf_children q (children m)"
    by (auto simp: around_def wf_path_def)
  have "nodes m = m # child_nodes (children m)" using y by (simp add: nodes_eq own_node_def)
  then have "before m ps @ m # (child_nodes (children m) @ after m ps) = xs @ m # ys"
    using ps(2) assms(2) by (simp add: around_def)
  moreover have "distinct (xs @ m # ys)" using distinct_nodes [OF assms(1)] assms(2) by simp
  moreover from calculation have "distinct (before m ps @ m # (child_nodes (children m) @ after m ps))" by (simp only:)
  then have "m \<notin> set (before m ps)" "m \<notin> set (child_nodes (children m) @ after m ps)" by simp_all
  ultimately have "xs = before m ps \<and> ys = child_nodes (children m) @ after m ps"
    using append_Cons_eq_iff [of m "before m ps" "child_nodes (children m) @ after m ps" xs ys] by simp
  with y ps show ?thesis by auto
qed

lemma findNext_ok:
  assumes "wf_root r" "nodes r = xs @ m # ys"
  shows "findNext r m = Some (first ys)" "findNextReverse r m = Some (final xs)"
proof -
  from nodes_split [OF assms] obtain ps y q where
    y: "data m = Some y" "buildContext (fst y) r [] = Some (m # ps)" "xs = before m ps"
      "ys = child_nodes (children m) @ after m ps" "wf_path ps" "wf_children q (children m)" by blast
  show "findNextReverse r m = Some (final xs)" using y by (simp add: findNextReverse_def climbReverse_ok)
  show "findNext r m = Some (first ys)"
  proof (cases "isLeaf m")
    case True
    then have "children m = []" by (simp add: isLeaf_def)
    with True y show ?thesis by (simp add: findNext_def climb_ok)
  next
    case False
    then obtain b c cs where c: "children m = (b, c) # cs" by (cases "children m") (auto simp: isLeaf_def)
    then have "wf_at q c" using wf_child(1) [OF y(6), of b c] by simp
    from beginNode_ok [OF this] have "child_nodes (children m) \<noteq> []" using c by simp
    then show ?thesis using False y(4) by (simp add: findNext_def traverseLeftSubtree_ok [OF y(6)] first_append)
  qed
qed

lemma store_begin_ok:
  assumes "wf_root (root s)"
  shows "store_begin s = Some (first (nodes (root s)))" "store_rbegin s = final (nodes (root s))"
proof -
  let ?r = "root s"
  have r: "data ?r = None" "wf_children [] (children ?r)" "nodes ?r = child_nodes (children ?r)"
    using assms by (simp_all add: wf_root_def nodes_eq own_node_def)
  show "store_begin s = Some (first (nodes ?r))"
  proof (cases "children ?r")
    case Nil
    then show ?thesis using r by (simp add: store_begin_def store_empty_def isLeaf_def)
  next
    case (Cons bc cs)
    obtain b c where bc: "bc = (b, c)" by (cases bc)
    have c: "beginNode c = first (nodes c)" "nodes c \<noteq> []" using beginNode_ok wf_child(1) [OF r(2), of b c] Cons bc by auto
    have "beginNode ?r = beginNode c" using Cons bc r(1) by (cases ?r) simp
    with c Cons bc r show ?thesis by (simp add: store_begin_def store_empty_def isLeaf_def first_append)
  qed
  show "store_rbegin s = final (nodes ?r)"
  proof (cases "children ?r" rule: rev_cases)
    case Nil
    then show ?thesis using r by (simp add: store_rbegin_def isLeaf_def)
  next
    case (snoc cs bc)
    obtain b c where bc: "bc = (b, c)" by (cases bc)
    have "wf_at [] c" using wf_child(1) [OF r(2), of b c] snoc bc by simp
    from traverseRightSubtree_ok [OF this] have c: "nodes c \<noteq> []" "traverseRightSubtree c = last (nodes c)" by simp_all
    have "traverseRightSubtree ?r = traverseRightSubtree c" using snoc bc by (subst traverseRightSubtree.simps) simp
    with c snoc bc r show ?thesis by (simp add: store_rbegin_def isLeaf_def final_def)
  qed
qed

lemma runStore_ok:
  assumes "runStore v as emptyHead = Some (bs, s)" "EraseOp [] \<notin> set as"
  shows "wf_store s" "contents s = run_map as Map.empty"
  using radix.run_refines [OF emptyHead_ok(1) assms(2), of v] assms(1) by (auto simp: runStore_def emptyHead_ok(2))

lemma runStore_root: "runStore v as emptyHead = Some (bs, s) \<Longrightarrow> EraseOp [] \<notin> set as \<Longrightarrow> wf_root (root s)"
  using runStore_ok(1) by (simp add: wf_store_def)

definition radixStore :: Head where
  "radixStore = snd (the (runStore 1 radixSample emptyHead))"

lemma radixSample_run: "runStore 1 radixSample emptyHead = Some ([True, True, True, True, True, True, True], radixStore)"
  by code_simp

text \<open>The same contents by other operations.\<close>

definition radixSample2 :: "store_op list" where
  "radixSample2 = [InsertOp [97] [7], InsertOp [200] [6], InsertOp [97, 120] [5], InsertOp [97, 98, 99] [2]]"

definition radixStore2 :: Head where
  "radixStore2 = snd (the (runStore 1 radixSample2 emptyHead))"

lemma radixSample2_run: "runStore 1 radixSample2 emptyHead = Some ([True, True, True, True], radixStore2)"
  by code_simp

text \<open>(C31) Iteration over a store reached by any sequence of operations visits its entries in the strict lexicographic order of their
  keys, unsigned byte by byte: \<open>begin\<close> is at the first of them or the end, every step of the iterator goes to the one after, and
  \<open>rbegin\<close> and the reverse iterator go through them backwards. The entries are those of the map after the same operations. No
  step has undefined behaviour.\<close>

theorem radix_iteration_ordered:
  assumes "runStore v as emptyHead = Some (bs, s)" "EraseOp [] \<notin> set as"
  shows "\<exists>ns es. map data ns = map Some es \<and> sorted_wrt (<) (map fst es) \<and> map_of es = run_map as Map.empty \<and>
    store_begin s = Some (first ns) \<and> store_rbegin s = final ns \<and>
    (\<forall>i<length ns. findNext (root s) (ns ! i) = Some (if i + 1 < length ns then Some (ns ! (i + 1)) else None) \<and>
       findNextReverse (root s) (ns ! i) = Some (if i = 0 then None else Some (ns ! (i - 1))))"
proof (intro exI conjI allI impI)
  note r = runStore_root [OF assms]
  let ?ns = "nodes (root s)"
  show "map data ?ns = map Some (entries (root s))" by (rule nodes_data)
  show "sorted_wrt (<) (map fst (entries (root s)))" by (rule entries_sorted [OF r])
  show "map_of (entries (root s)) = run_map as Map.empty"
    using runStore_ok(2) [OF assms] by (simp add: contents_def look_def)
  show "store_begin s = Some (first ?ns)" "store_rbegin s = final ?ns" by (rule store_begin_ok [OF r])+
  fix i
  assume i: "i < length ?ns"
  note step = findNext_ok [OF r id_take_nth_drop [OF i]]
  show "findNext (root s) (?ns ! i) = Some (if i + 1 < length ?ns then Some (?ns ! (i + 1)) else None)"
    using step(1) by (simp add: first_def Cons_nth_drop_Suc [symmetric] split: list.split)
  show "findNextReverse (root s) (?ns ! i) = Some (if i = 0 then None else Some (?ns ! (i - 1)))"
    using step(2) i by (auto simp: final_def last_conv_nth)
qed

theorem radix_iteration_ordered_witness:
  "\<exists>ns es. map data ns = map Some es \<and> sorted_wrt (<) (map fst es) \<and> map_of es = run_map radixSample Map.empty \<and>
    store_begin radixStore = Some (first ns) \<and> store_rbegin radixStore = final ns \<and>
    (\<forall>i<length ns. findNext (root radixStore) (ns ! i) = Some (if i + 1 < length ns then Some (ns ! (i + 1)) else None) \<and>
       findNextReverse (root radixStore) (ns ! i) = Some (if i = 0 then None else Some (ns ! (i - 1))))"
  by (rule radix_iteration_ordered [OF radixSample_run radixSample_no_empty])

subsection \<open>Equality\<close>

lemma sameEntries_ok:
  assumes "wf_root r" "wf_root r'" "nodes r = xs @ ns" "nodes r' = xs' @ ns'"
  shows "sameEntries r r' (first ns) (first ns') = Some (map data ns = map data ns')"
  using assms(3,4)
proof (induction ns arbitrary: xs xs' ns')
  case Nil
  then show ?case by (subst sameEntries.simps) auto
next
  case (Cons n ns)
  show ?case
  proof (cases ns')
    case Nil
    then show ?thesis by (subst sameEntries.simps) simp
  next
    case (Cons n' ns1)
    have "sameEntries r r' (first ns) (first ns1) = Some (map data ns = map data ns1)"
      by (rule Cons.IH [of "xs @ [n]" "xs' @ [n']"]) (use Cons.prems Cons in simp_all)
    then show ?thesis
      using findNext_ok(1) [OF assms(1) Cons.prems(1)] findNext_ok(1) [OF assms(2) Cons.prems(2) [unfolded Cons]] Cons
      by (subst sameEntries.simps) simp
  qed
qed

lemma sorted_map_of_eq:
  fixes es es' :: "(bytes \<times> bytes) list"
  assumes "sorted_wrt (<) (map fst es)" "sorted_wrt (<) (map fst es')" "map_of es = map_of es'"
  shows "es = es'"
proof -
  have rep: "xs = map (\<lambda>k. (k, the (map_of xs k))) (map fst xs)" if "sorted_wrt (<) (map fst xs)" for xs :: "(bytes \<times> bytes) list"
    using that by (auto simp: strict_sorted_iff intro!: map_idI [symmetric])
  have "set (map fst es) = set (map fst es')" using assms(3) by (metis dom_map_of_conv_image_fst list.set_map)
  then have "map fst es = map fst es'" using assms(1,2) strict_sorted_equal by blast
  with rep [OF assms(1)] rep [OF assms(2)] assms(3) show ?thesis by metis
qed

text \<open>(C33) \<open>operator==\<close> on two stores, each reached by any sequence of operations, ends and decides whether they
  hold the same entries, whatever the shapes and the histories of their trees.\<close>

theorem radix_equality_decides_contents:
  assumes "runStore v as emptyHead = Some (bs, s)" "EraseOp [] \<notin> set as"
    and "runStore w as' emptyHead = Some (bs', t)" "EraseOp [] \<notin> set as'"
  shows "store_equals s t = Some (run_map as Map.empty = run_map as' Map.empty)"
proof -
  note s = runStore_ok [OF assms(1,2)] runStore_root [OF assms(1,2)] and t = runStore_ok [OF assms(3,4)] runStore_root [OF assms(3,4)]
  have "sameEntries (root s) (root t) (first (nodes (root s))) (first (nodes (root t))) =
      Some (map data (nodes (root s)) = map data (nodes (root t)))"
    by (rule sameEntries_ok [OF s(3) t(3), of "[]" _ "[]"]) simp_all
  also have "(map data (nodes (root s)) = map data (nodes (root t))) \<longleftrightarrow> entries (root s) = entries (root t)"
    by (simp add: nodes_data inj_map_eq_map)
  also have "\<dots> \<longleftrightarrow> contents s = contents t"
    unfolding contents_def look_def using sorted_map_of_eq entries_sorted [OF s(3)] entries_sorted [OF t(3)] by metis
  finally have same: "sameEntries (root s) (root t) (first (nodes (root s))) (first (nodes (root t))) = Some (contents s = contents t)" .
  have "count s = count t \<and> dataSize s = dataSize t" if "contents s = contents t" using s(1) t(1) that by (simp add: wf_store_def)
  then show ?thesis using same store_begin_ok(1) [OF s(3)] store_begin_ok(1) [OF t(3)] s(2) t(2)
    by (auto simp: store_equals_def)
qed

theorem radix_equality_decides_contents_witness:
  "store_equals radixStore radixStore2 = Some (run_map radixSample Map.empty = run_map radixSample2 Map.empty)"
  by (rule radix_equality_decides_contents [OF radixSample_run radixSample_no_empty radixSample2_run])
    (simp add: radixSample2_def)

subsection \<open>The least key that is not smaller\<close>

abbreviation node_key :: "node \<Rightarrow> bytes" where
  "node_key m \<equiv> fst (the (data m))"

definition geq :: "bytes \<Rightarrow> node list \<Rightarrow> node option" where
  "geq key = List.find (\<lambda>m. key \<le> node_key m)"

lemma geq_simps [simp]: "geq key [] = None" "geq key (m # ms) = (if key \<le> node_key m then Some m else geq key ms)"
  by (simp_all add: geq_def)

lemma geq_less: "\<forall>m\<in>set xs. node_key m < key \<Longrightarrow> geq key (xs @ ys) = geq key ys"
  by (induction xs) auto

lemma geq_first: "\<forall>m\<in>set xs. key < node_key m \<Longrightarrow> geq key xs = first xs"
  by (cases xs) auto

text \<open>The nodes with data that are still to be searched.\<close>

fun rights :: "(node \<times> nat) list \<Rightarrow> node list" where
  "rights [] = []"
| "rights ((n, i) # ctx) = child_nodes (filter (\<lambda>(b, c). i \<le> unat b) (children n)) @ rights ctx"

lemma searchRight_ok: "wf_path (map fst ctx) \<Longrightarrow> searchRight ctx = first (rights ctx)"
proof (induction ctx rule: searchRight.induct)
  case (2 n i ctx)
  let ?f = "filter (\<lambda>(b, c). i \<le> unat b) (children n)"
  obtain q where q: "wf_children q (children n)" using 2(3) by (auto simp: wf_path_def)
  have path: "wf_path (map fst ctx)" using 2(3) by (simp add: wf_path_def)
  show ?case
  proof (cases ?f)
    case Nil
    then show ?thesis using 2(1) path by (subst searchRight.simps) simp
  next
    case (Cons bc cs)
    obtain b c where bc: "bc = (b, c)" by (cases bc)
    have c: "wf_at q c" using child_nodes_filter [OF q Cons] bc by simp
    from beginNode_ok [OF this] have ne: "nodes c \<noteq> []" by simp
    show ?thesis
    proof (cases "data c = None")
      case True
      have "wf_path (map fst ((c, 0) # ctx))" using path wf_anyD(2) [OF wf_any_child [OF c]] by (auto simp: wf_path_def)
      with 2(2) [OF Cons bc [symmetric]] True have "searchRight ((c, 0) # ctx) = first (rights ((c, 0) # ctx))" by simp
      moreover have "nodes c = child_nodes (children c)" using True by (simp add: nodes_eq [of c] own_node_def)
      ultimately show ?thesis using ne Cons bc True by (subst searchRight.simps) (simp add: first_append)
    next
      case False
      then have "nodes c = c # child_nodes (children c)" by (simp add: nodes_eq [of c] own_node_def)
      with False show ?thesis using Cons bc by (subst searchRight.simps) simp
    qed
  qed
qed simp

lemma children_partition:
  assumes "b \<notin> fst ` set cs" "sorted_children cs"
  shows "cs = filter (\<lambda>(b', c). b' < b) cs @ filter (\<lambda>(b', c). b < b') cs"
  using assms
proof (induction cs)
  case (Cons bc cs)
  obtain b1 c1 where bc: "bc = (b1, c1)" by (cases bc)
  show ?case
  proof (cases "b1 < b")
    case True
    with Cons bc show ?thesis by auto
  next
    case False
    with Cons.prems bc have "b < b1" by auto
    with Cons.prems bc have "\<forall>x\<in>set cs. b < fst x" by fastforce
    then have "filter (\<lambda>(b', c). b' < b) cs = []" "filter (\<lambda>(b', c). b < b') cs = cs"
      by (auto simp: filter_empty_conv filter_id_conv)
    with \<open>b < b1\<close> bc show ?thesis by auto
  qed
qed simp

lemma node_key_entry: "m \<in> set (nodes n) \<Longrightarrow> \<exists>x. (node_key m, x) \<in> set (entries n)"
proof -
  assume "m \<in> set (nodes n)"
  then have "data m \<in> Some ` set (entries n)" using nodes_data [of n] by (metis image_eqI list.set_map)
  then show ?thesis by force
qed

lemma child_node_key:
  assumes "wf_children q cs" "m \<in> set (child_nodes cs)"
  shows "\<exists>b c. (b, c) \<in> set cs \<and> prefix q (node_key m) \<and> length q < length (node_key m) \<and> node_key m ! length q = b"
proof -
  obtain b c where c: "(b, c) \<in> set cs" "m \<in> set (nodes c)" using assms(2) by (auto simp: child_nodes_def)
  then show ?thesis using node_key_entry [OF c(2)] child_entries_byte [OF assms(1) c(1)] by blast
qed

lemma set_child_nodes_filter: "m \<in> set (child_nodes (filter P cs)) \<longleftrightarrow> (\<exists>b c. (b, c) \<in> set cs \<and> P (b, c) \<and> m \<in> set (nodes c))"
  by (auto simp: child_nodes_def)

text \<open>The children of a node on the path of \<open>key\<close>: those before the slot of the key, and those after it.\<close>

lemma slot_order:
  assumes "wf_children q cs" "prefix q key" "length q < length key"
  shows "m \<in> set (child_nodes (filter (\<lambda>(b, c). b < key ! length q) cs)) \<Longrightarrow> node_key m < key"
    and "m \<in> set (child_nodes (filter (\<lambda>(b, c). key ! length q < b) cs)) \<Longrightarrow> key < node_key m"
  using assms(2,3) node_key_entry child_entries_byte [OF assms(1)]
  by (fastforce simp: set_child_nodes_filter intro!: less_at_byte [of q])+

lemma rights_slot: "rights (if b \<noteq> 255 then (n, Suc (unat b)) # ctx else ctx) =
    child_nodes (filter (\<lambda>(b', c). b < b') (children n)) @ rights ctx" for b :: byte
proof (cases "b = 255")
  case True
  have "\<not> 255 < b'" for b' :: byte
  proof -
    have "unat b' < 2 ^ LENGTH(8)" by (rule unsigned_less)
    then show ?thesis by (simp add: word_less_nat_alt)
  qed
  with True show ?thesis by simp
qed (simp add: Suc_le_eq word_less_nat_alt [symmetric])

lemma geq_below:
  assumes "wf_any p n" "prefix (p @ trieKey n) key" "length (p @ trieKey n) < length key" "\<forall>m\<in>set rest. key < node_key m"
  defines "b \<equiv> key ! length (p @ trieKey n)"
  shows "geq key (nodes n @ rest) = geq key ((case map_of (children n) b of None \<Rightarrow> [] | Some c \<Rightarrow> nodes c) @
      child_nodes (filter (\<lambda>(b', c). b < b') (children n)) @ rest)"
proof -
  let ?q = "p @ trieKey n"
  note n = wf_anyD [OF assms(1)] and order = slot_order [OF wf_anyD(2) [OF assms(1)] assms(2,3)]
  let ?l = "child_nodes (filter (\<lambda>(b', c). b' < b) (children n))" and ?r = "child_nodes (filter (\<lambda>(b', c). b < b') (children n))"
  have s: "sorted_children (children n)" using n(2) unfolding wf_children_def by (rule conjunct1)
  have "child_nodes (children n) = ?l @ (case map_of (children n) b of None \<Rightarrow> [] | Some c \<Rightarrow> nodes c) @ ?r"
  proof (cases "map_of (children n) b")
    case None
    then have "b \<notin> fst ` set (children n)" by (simp add: map_of_eq_None_iff)
    then have "children n = filter (\<lambda>(b', c). b' < b) (children n) @ filter (\<lambda>(b', c). b < b') (children n)"
      using s by (rule children_partition)
    with None show ?thesis by (metis append_Nil child_nodes_simps(3) option.case(1))
  next
    case (Some c)
    from children_split [OF s map_of_SomeD [OF this]] Some show ?thesis
      by (metis append_Cons child_nodes_simps(2,3) option.case(2))
  qed
  then have "nodes n @ rest = (own_node n @ ?l) @ (case map_of (children n) b of None \<Rightarrow> [] | Some c \<Rightarrow> nodes c) @ ?r @ rest"
    by (simp add: nodes_eq [of n])
  moreover have "\<forall>m\<in>set (own_node n @ ?l). node_key m < key"
    using order(1) n(3) prefix_shorter [OF assms(2,3)] by (auto simp: own_node_def b_def)
  ultimately show ?thesis by (simp only: geq_less)
qed

text \<open>A child whose key differs from the one searched for is on one side of it as a whole.\<close>

lemma mismatch_order:
  assumes "wf_at q c" "prefix q key" "length q < length key"
  defines "m \<equiv> comparePrefix (trieKey c) (drop (length q) key)"
  assumes "m < length (trieKey c)" "x \<in> set (nodes c)"
  shows "(m = length key - length q \<or> trieKey c ! m > byteAt key (m + length q)) \<Longrightarrow> key < node_key x"
    and "\<not> (m = length key - length q \<or> trieKey c ! m > byteAt key (m + length q)) \<Longrightarrow> node_key x < key"
proof -
  obtain y where "(node_key x, y) \<in> set (entries c)" using node_key_entry [OF assms(6)] by blast
  from entries_prefix [OF assms(1) this] obtain z where z: "node_key x = q @ trieKey c @ z" by (auto simp: prefix_def)
  let ?t = "take m (trieKey c)"
  have common: "?t = take m (drop (length q) key)" unfolding m_def by (rule comparePrefix_take)
  have le: "m \<le> length key - length q" using comparePrefix_le [of "trieKey c" "drop (length q) key"] by (simp add: m_def)
  have pk: "prefix (q @ ?t) key"
    unfolding common using drop_prefix [OF assms(2)] by (metis append_take_drop_id append.assoc prefixI)
  have px: "prefix (q @ ?t) (node_key x)" unfolding z by (simp add: take_is_prefix prefix_prefix)
  have lt: "length (q @ ?t) = length q + m" using assms(5) by simp
  have nx: "node_key x ! (length q + m) = trieKey c ! m" "length q + m < length (node_key x)"
    using assms(5) by (simp_all add: z nth_append)
  show "key < node_key x" if "m = length key - length q \<or> trieKey c ! m > byteAt key (m + length q)"
  proof (cases "m = length key - length q")
    case True
    then have "length key = length (q @ ?t)" using assms(3) lt by simp
    with pk have "key = q @ ?t" by (metis append_eq_conv_conj prefix_def prefix_length_prefix prefix_order.eq_iff order_refl)
    with px nx(2) lt show ?thesis using prefix_shorter [of key "node_key x"] by simp
  next
    case False
    with le assms(3) have "length q + m < length key" by simp
    with False that pk px nx lt show ?thesis by (intro less_at_byte [of "q @ ?t"]) (simp_all add: add.commute)
  qed
  show "node_key x < key" if "\<not> (m = length key - length q \<or> trieKey c ! m > byteAt key (m + length q))"
  proof -
    from that have "m \<noteq> length key - length q" by blast
    with le assms(3) have l: "length q + m < length key" by linarith
    have "trieKey c ! m \<noteq> drop (length q) key ! m"
      using comparePrefix_differ [of "trieKey c" "drop (length q) key"] assms(5) l by (simp add: m_def [symmetric])
    with that l have "trieKey c ! m < key ! (length q + m)" by (auto simp: add.commute)
    with l pk px nx lt show ?thesis by (intro less_at_byte [of "q @ ?t"]) simp_all
  qed
qed

definition found :: "node + (node \<times> nat) list \<Rightarrow> node option" where
  "found e = (case e of Inl n \<Rightarrow> Some n | Inr ctx \<Rightarrow> searchRight ctx)"

lemma geq_rights: "wf_path (map fst ctx) \<Longrightarrow> \<forall>m\<in>set (rights ctx). key < node_key m \<Longrightarrow> found (Inr ctx) = geq key (rights ctx)"
  by (simp add: found_def searchRight_ok geq_first)

lemma lowerDown_ok:
  assumes "wf_any p n" "prefix (p @ trieKey n) key" "wf_path (map fst ctx)" "\<forall>m\<in>set (rights ctx). key < node_key m"
    and "ctx \<noteq> [] \<and> trieKey n \<noteq> [] \<or> key \<noteq> [] \<and> hd key \<noteq> 255 \<and> p @ trieKey n = []"
  shows "\<exists>e. lowerDown key (length (p @ trieKey n)) n ctx = Some e \<and> found e = geq key (nodes n @ rights ctx)"
  using assms
proof (induction n arbitrary: p ctx rule: measure_induct_rule [of size])
  case (less n)
  let ?q = "p @ trieKey n"
  note n = wf_anyD [OF less.prems(1)]
  note down = lowerDown.simps [of key "length ?q" n ctx, unfolded Let_def]
  show ?case
  proof (cases "length ?q < length key")
    case False
    with less.prems(2) have key: "key = ?q" using prefix_less by (metis)
    with less.prems(5) obtain x ctx' where ctx: "ctx = x # ctx'" "trieKey n \<noteq> []" by (cases ctx) auto
    have above: "\<forall>m\<in>set (child_nodes (children n)). key < node_key m"
      using child_node_key [OF n(2)] prefix_shorter key by blast
    show ?thesis
    proof (cases "data n")
      case None
      have "2 \<le> length (children n)" using less.prems(1) None ctx(2) by (simp add: wf_any_def wf_at_iff)
      then obtain b c cs where c: "children n = (b, c) # cs" by (cases "children n") auto
      have "wf_at ?q c" using wf_child(1) [OF n(2), of b c] c by simp
      from beginNode_ok [OF this] c have ne: "child_nodes (children n) \<noteq> []" by simp
      have path: "wf_path (map fst ((n, 0) # ctx'))" using less.prems(3) ctx(1) n(2) by (auto simp: wf_path_def)
      have "lowerDown key (length ?q) n ctx = Some (Inr ((n, 0) # ctx'))" by (subst down) (use False key None ctx in simp)
      moreover have "found (Inr ((n, 0) # ctx')) = first (child_nodes (children n))"
        using ne by (simp add: found_def searchRight_ok [OF path] first_append)
      moreover have "geq key (nodes n @ rights ctx) = first (nodes n @ rights ctx)"
        using above less.prems(4) None by (intro geq_first) (auto simp: nodes_eq [of n] own_node_def)
      ultimately show ?thesis using None ne by (auto simp: nodes_eq [of n] own_node_def first_append)
    next
      case (Some y)
      have "lowerDown key (length ?q) n ctx = Some (Inl n)" by (subst down) (use False key Some in simp)
      moreover have "geq key (nodes n @ rights ctx) = Some n" using Some n(3) key by (simp add: nodes_eq [of n] own_node_def)
      ultimately show ?thesis by (simp add: found_def)
    qed
  next
    case True
    let ?b = "key ! length ?q"
    let ?ctx = "if ?b \<noteq> 255 then (n, Suc (unat ?b)) # ctx else ctx"
    have b: "byteAt key (length ?q) = ?b" using True by simp
    note below = geq_below [OF less.prems(1,2) True less.prems(4)] and down = down [unfolded b]
    have rights: "rights ?ctx = child_nodes (filter (\<lambda>(b', c). ?b < b') (children n)) @ rights ctx" by (rule rights_slot)
    have path: "wf_path (map fst ?ctx)" using less.prems(3) n(2) by (auto simp: wf_path_def)
    have above: "\<forall>m\<in>set (rights ?ctx). key < node_key m"
      unfolding rights using slot_order(2) [OF n(2) less.prems(2) True] less.prems(4) by auto
    have ctx: "?ctx \<noteq> []" using less.prems(5) by (auto simp: hd_conv_nth)
    show ?thesis
    proof (cases "map_of (children n) ?b")
      case None
      then have "lowerDown key (length ?q) n ctx = Some (Inr ?ctx)" by (subst down) (use True in simp)
      with below None rights geq_rights [OF path above] show ?thesis by simp
    next
      case (Some c)
      note c = slot_child [OF n(2) Some]
      let ?m = "comparePrefix (trieKey c) (drop (length ?q) key)"
      have goal: "geq key (nodes n @ rights ctx) = geq key (nodes c @ rights ?ctx)" using below Some rights by simp
      show ?thesis
      proof (cases "?m < length (trieKey c)")
        case mis: True
        note order = mismatch_order [OF c(1) less.prems(2) True mis]
        show ?thesis
        proof (cases "?m = length key - length ?q \<or> trieKey c ! ?m > byteAt key (?m + length ?q)")
          case larger: True
          have all: "\<forall>m\<in>set (nodes c @ rights ?ctx). key < node_key m" using order(1) larger above by auto
          show ?thesis
          proof (cases "data c")
            case None
            have "wf_path (map fst ((c, 0) # ?ctx))" using path wf_anyD(2) [OF wf_any_child [OF c(1)]] by (auto simp: wf_path_def)
            moreover have "rights ((c, 0) # ?ctx) = nodes c @ rights ?ctx" using None by (simp add: nodes_eq [of c] own_node_def)
            ultimately have "found (Inr ((c, 0) # ?ctx)) = geq key (nodes c @ rights ?ctx)" using geq_rights all by metis
            moreover have "lowerDown key (length ?q) n ctx = Some (Inr ((c, 0) # ?ctx))"
              by (subst down) (use True Some mis larger None in auto)
            ultimately show ?thesis using goal by simp
          next
            case (Some y)
            then have "geq key (nodes c @ rights ?ctx) = Some c"
              using geq_first [OF all] by (simp add: nodes_eq [of c] own_node_def)
            moreover have "lowerDown key (length ?q) n ctx = Some (Inl c)"
              by (subst down) (use True \<open>map_of (children n) ?b = Some c\<close> mis larger Some in auto)
            ultimately show ?thesis using goal by (simp add: found_def)
          qed
        next
          case False
          then have "geq key (nodes c @ rights ?ctx) = geq key (rights ?ctx)" using order(2) by (intro geq_less) auto
          moreover have "lowerDown key (length ?q) n ctx = Some (Inr ?ctx)" by (subst down) (use True Some mis False in auto)
          ultimately show ?thesis using goal geq_rights [OF path above] by simp
        qed
      next
        case False
        then have "?m = length (trieKey c)" using comparePrefix_le(1) [of "trieKey c" "drop (length ?q) key"] by simp
        then have pre: "prefix (?q @ trieKey c) key" using comparePrefix_all prefix_drop_iff [OF less.prems(2)] by blast
        have "lowerDown key (length ?q) n ctx = lowerDown key (length (?q @ trieKey c)) c ?ctx"
          by (subst down) (use True Some False c(3) in \<open>simp add: add.assoc\<close>)
        moreover have "size c < size n" using child_size [OF Some] by (cases n) simp
        moreover from less.IH [OF this wf_any_child [OF c(1)] pre path above] c(4) ctx
        have "\<exists>e. lowerDown key (length (?q @ trieKey c)) c ?ctx = Some e \<and> found e = geq key (nodes c @ rights ?ctx)" by blast
        ultimately show ?thesis using goal by simp
      qed
    qed
  qed
qed

lemma lower_bound_geq:
  assumes "wf_root (root s)" "key \<noteq> []" "hd key \<noteq> 255"
  shows "lower_bound key s = Some (geq key (nodes (root s)))"
proof -
  have "trieKey (root s) = []" using assms(1) by (simp add: wf_root_def)
  with lowerDown_ok [OF wf_any_root [OF assms(1)], of key "[]"] assms(2,3) obtain e where
    "lowerDown key 0 (root s) [] = Some e" "found e = geq key (nodes (root s))" by (auto simp: wf_path_def)
  then show ?thesis by (simp add: lower_bound_def found_def)
qed

text \<open>The node at which a search ends, in terms of the map: the first entry whose key satisfies \<open>P\<close>.\<close>

definition least_entry :: "(bytes \<Rightarrow> bool) \<Rightarrow> (bytes \<rightharpoonup> bytes) \<Rightarrow> node option \<Rightarrow> bool" where
  "least_entry P m it \<longleftrightarrow>
     (case it of
        None \<Rightarrow> \<forall>k\<in>dom m. \<not> P k
      | Some n \<Rightarrow> \<exists>k y. data n = Some (k, y) \<and> m k = Some y \<and> P k \<and> (\<forall>k'\<in>dom m. P k' \<longrightarrow> k \<le> k'))"

lemma node_entry:
  assumes "wf_root r" "n \<in> set (nodes r)"
  shows "\<exists>y. data n = Some (node_key n, y) \<and> look r (node_key n) = Some y"
proof -
  have "data n \<in> Some ` set (entries r)" using assms(2) nodes_data [of r] by (metis image_eqI list.set_map)
  then obtain k y where "data n = Some (k, y)" "(k, y) \<in> set (entries r)" by auto
  then show ?thesis using distinct_entries [OF assms(1)] by (simp add: look_def)
qed

lemma keys_of_nodes: "dom (look r) = node_key ` set (nodes r)"
proof -
  have "node_key ` set (nodes r) = set (map (fst \<circ> the) (map data (nodes r)))" by force
  also have "\<dots> = fst ` set (entries r)" by (simp add: nodes_data image_image)
  finally show ?thesis by (simp add: look_def dom_map_of_conv_image_fst)
qed

lemma nodes_sorted: "wf_root r \<Longrightarrow> sorted_wrt (\<lambda>n m. node_key n < node_key m) (nodes r)"
proof -
  assume "wf_root r"
  have "map node_key (nodes r) = map (fst \<circ> the) (map data (nodes r))" by simp
  also have "\<dots> = map fst (entries r)" by (simp add: nodes_data)
  finally show ?thesis using entries_sorted [OF \<open>wf_root r\<close>] by (metis sorted_wrt_map)
qed

text \<open>The first node of the list whose key satisfies \<open>P\<close> is the least, when the list is sorted.\<close>

lemma least_entry_find:
  assumes "wf_root r"
  shows "least_entry P (look r) (List.find (\<lambda>n. P (node_key n)) (nodes r))"
proof (cases "List.find (\<lambda>n. P (node_key n)) (nodes r)")
  case None
  then have "\<forall>n\<in>set (nodes r). \<not> P (node_key n)" by (auto simp: find_None_iff)
  with None show ?thesis unfolding least_entry_def keys_of_nodes by simp
next
  case (Some n)
  then obtain i where i: "i < length (nodes r)" "P (node_key (nodes r ! i))" "n = nodes r ! i" "\<forall>j<i. \<not> P (node_key (nodes r ! j))"
    by (auto simp: find_Some_iff)
  have "node_key n \<le> node_key n'" if n': "n' \<in> set (nodes r)" "P (node_key n')" for n'
  proof -
    obtain j where j: "j < length (nodes r)" "n' = nodes r ! j" using n'(1) by (auto simp: in_set_conv_nth)
    with i(4) n'(2) have "i \<le> j" by (meson linorder_not_less)
    with sorted_wrt_nth_less [OF nodes_sorted [OF assms], of i j] i(3) j show ?thesis by (cases "i = j") auto
  qed
  moreover obtain y where "data n = Some (node_key n, y)" "look r (node_key n) = Some y" 
    using node_entry [OF assms, of n] i(1,3) by (meson nth_mem)
  ultimately show ?thesis unfolding least_entry_def keys_of_nodes using Some i by auto
qed

lemma upper_bound_find:
  assumes "wf_root (root s)" "key \<noteq> []" "hd key \<noteq> 255"
  shows "upper_bound key s = Some (List.find (\<lambda>n. key < node_key n) (nodes (root s)))"
proof (cases "geq key (nodes (root s))")
  case None
  then have "List.find (\<lambda>n. key < node_key n) (nodes (root s)) = None" by (auto simp: geq_def find_None_iff)
  with None show ?thesis by (simp add: upper_bound_def lower_bound_geq [OF assms])
next
  case (Some n)
  then obtain i where i: "i < length (nodes (root s))" "key \<le> node_key n" "n = nodes (root s) ! i"
      "\<forall>j<i. \<not> key \<le> node_key (nodes (root s) ! j)"
    by (auto simp: geq_def find_Some_iff)
  have small: "\<forall>m\<in>set (take i (nodes (root s))). \<not> key \<le> node_key m" using i(1,4) by (auto simp: in_set_conv_nth)
  obtain xs ys where split: "nodes (root s) = xs @ n # ys" "\<forall>m\<in>set xs. \<not> key \<le> node_key m" "key \<le> node_key n"
    by (rule that [OF id_take_nth_drop [OF i(1), folded i(3)] small i(2)])
  have sorted: "sorted_wrt (\<lambda>n m. node_key n < node_key m) (xs @ n # ys)" using nodes_sorted [OF assms(1)] split(1) by simp
  have "n \<in> set (nodes (root s))" using split(1) by simp
  from node_entry [OF assms(1) this] obtain k y where y: "data n = Some (k, y)" by blast
  have xs: "List.find (\<lambda>n. key < node_key n) (xs @ zs) = List.find (\<lambda>n. key < node_key n) zs" for zs
    using split(2) by (induction xs) auto
  show ?thesis
  proof (cases "node_key n = key")
    case True
    then have "List.find (\<lambda>n. key < node_key n) (n # ys) = first ys" using sorted by (cases ys) (auto simp: sorted_wrt_append)
    with True y Some findNext_ok(1) [OF assms(1) split(1)] split(1) xs show ?thesis
      by (simp add: upper_bound_def lower_bound_geq [OF assms])
  next
    case False
    with split(3) have "List.find (\<lambda>n. key < node_key n) (n # ys) = Some n" by simp
    with False y Some split(1) xs show ?thesis by (simp add: upper_bound_def lower_bound_geq [OF assms])
  qed
qed

text \<open>(C32) \<open>lower_bound\<close> and \<open>upper_bound\<close> of a key that is not empty and does not start with the byte 255, in a store reached by any
  sequence of operations: the entry with the least key that is not smaller, or greater, than the one given, or the end when there is none.
  An iterator at the key is repositioned to the entry \<open>lower_bound\<close> finds when the store has a later version.\<close>

theorem radix_bounds_correct:
  assumes "runStore v as emptyHead = Some (bs, s)" "EraseOp [] \<notin> set as" "key \<noteq> []" "hd key \<noteq> 255"
  defines "m \<equiv> run_map as Map.empty"
  shows "\<exists>it it'. lower_bound key s = Some it \<and> least_entry (\<lambda>k. key \<le> k) m it \<and>
    upper_bound key s = Some it' \<and> least_entry (\<lambda>k. key < k) m it' \<and>
    (\<forall>n y. data n = Some (key, y) \<longrightarrow> repositionIfChanged s (Some n) = Some it)"
proof -
  note r = runStore_root [OF assms(1,2)]
  have m: "look (root s) = m" using runStore_ok(2) [OF assms(1,2)] by (simp add: m_def contents_def)
  have "least_entry (\<lambda>k. key \<le> k) m (geq key (nodes (root s)))"
    using least_entry_find [OF r] m by (simp add: geq_def)
  moreover have "least_entry (\<lambda>k. key < k) m (List.find (\<lambda>n. key < node_key n) (nodes (root s)))"
    using least_entry_find [OF r] m by simp
  ultimately show ?thesis
    using lower_bound_geq [OF r assms(3,4)] upper_bound_find [OF r assms(3,4)] by (simp add: repositionIfChanged_def)
qed

theorem radix_bounds_correct_witness:
  "\<exists>it it'. lower_bound [97, 98] radixStore = Some it \<and> least_entry (\<lambda>k. [97, 98] \<le> k) (run_map radixSample Map.empty) it \<and>
    upper_bound [97, 98] radixStore = Some it' \<and> least_entry (\<lambda>k. [97, 98] < k) (run_map radixSample Map.empty) it' \<and>
    (\<forall>n y. data n = Some ([97, 98], y) \<longrightarrow> repositionIfChanged radixStore (Some n) = Some it)"
  by (rule radix_bounds_correct [OF radixSample_run radixSample_no_empty]) simp_all

subsection \<open>Examples\<close>

text \<open>The removal of a key that is absent reports that it was removed, when it is a prefix shared by other keys.\<close>

lemma erase_reports_absent_prefix:
  "\<exists>s s'. runStore 1 [InsertOp [97, 98] [1], InsertOp [97, 99] [2]] emptyHead = Some ([True, True], s) \<and>
     find [97] s = None \<and> erase 3 [97] s = Some (True, s')"
proof -
  let ?s = "snd (the (runStore 1 [InsertOp [97, 98] [1], InsertOp [97, 99] [2]] emptyHead))"
  have "runStore 1 [InsertOp [97, 98] [1], InsertOp [97, 99] [2]] emptyHead = Some ([True, True], ?s)" by code_simp
  moreover have "find [97] ?s = None" by code_simp
  moreover have "erase 3 [97] ?s = Some (True, snd (the (erase 3 [97] ?s)))" by code_simp
  ultimately show ?thesis by blast
qed

text \<open>
  \<open>lower_bound\<close> of the empty key takes the last element of an empty vector, and so does that of a key of bytes 255 only that two
  other keys share as a prefix.
\<close>

lemma lower_bound_undefined: "lower_bound [] emptyHead = None"
    "lower_bound [255] (snd (the (runStore 1 [InsertOp [255, 1] [1], InsertOp [255, 2] [2]] emptyHead))) = None"
  by code_simp+

text \<open>The removal of the empty key is undefined.\<close>

lemma erase_empty_key_undefined: "erase 1 [] emptyHead = None"
  by code_simp

end
