(* ===== verification/RadixMerge.thy ===== *)
theory RadixMerge
  imports RadixIter
begin

text \<open>
  The three-way merge of radix stores (\<open>merge3\<close> and its helpers in \<^verbatim>\<open>db/storage/biggie/store.h\<close>), by which a transaction of the
  in-memory engine is committed: the changes from \<open>base\<close> to \<open>other\<close> are merged into this store.

  A merge is an operation with a stamp of its own. The path to the node the helper is at, in the code a vector of pointers that is rebuilt after each
  change, is the list of the slots from the root.
\<close>

datatype 'a outcome = Undefined | Conflict | Done 'a

fun bindO :: "'a outcome \<Rightarrow> ('a \<Rightarrow> 'b outcome) \<Rightarrow> 'b outcome" where
  "bindO (Done x) f = f x"
| "bindO Conflict f = Conflict"
| "bindO Undefined f = Undefined"

definition defined :: "'a option \<Rightarrow> 'a outcome" where
  "defined x = (case x of None \<Rightarrow> Undefined | Some y \<Rightarrow> Done y)"

fun foldO :: "('a \<Rightarrow> 's \<Rightarrow> 's outcome) \<Rightarrow> 'a list \<Rightarrow> 's \<Rightarrow> 's outcome" where
  "foldO f [] s = Done s"
| "foldO f (x # xs) s = bindO (f x s) (foldO f xs)"

text \<open>The entries in the order of iteration, starting from an iterator.\<close>

partial_function (option) walk :: "node \<Rightarrow> node option \<Rightarrow> (bytes \<times> bytes) list option" where
  "walk r i =
     (case i of
        None \<Rightarrow> Some []
      | Some n \<Rightarrow>
          Option.bind (data n) (\<lambda>x. Option.bind (findNext r n) (\<lambda>j. Option.bind (walk r j) (\<lambda>xs. Some (x # xs)))))"

text \<open>A store whose root is a copy of a node.\<close>

definition subtree :: "node \<Rightarrow> Head" where
  "subtree n = \<lparr>root = n, count = 0, dataSize = 0\<rparr>"

definition iterateAll :: "node \<Rightarrow> (bytes \<times> bytes) list outcome" where
  "iterateAll n = defined (Option.bind (store_begin (subtree n)) (walk n))"

text \<open>The value an iterator is at; there is none at the end or at a node without data.\<close>

definition valueAt :: "node option \<Rightarrow> bytes outcome" where
  "valueAt it = defined (do { n \<leftarrow> it; x \<leftarrow> data n; Some (snd x) })"

subsection \<open>Merging entry by entry\<close>

definition mergeInsertion :: "nat \<Rightarrow> node \<Rightarrow> node \<Rightarrow> bytes \<times> bytes \<Rightarrow> Head \<Rightarrow> Head outcome" where
  "mergeInsertion v current baseNode otherVal this =
     (let baseIter = findNode (fst otherVal) baseNode;
          thisIter = findNode (fst otherVal) current
      in if thisIter \<noteq> None \<and> baseIter \<noteq> None then
           bindO (valueAt thisIter) (\<lambda>t. bindO (valueAt baseIter) (\<lambda>b.
             if t = b \<and> b \<noteq> snd otherVal then bindO (defined (updateKey v (fst otherVal) (snd otherVal) this)) (\<lambda>r. Done (snd r))
             else if t \<noteq> b \<and> b \<noteq> snd otherVal then Conflict
             else if t \<noteq> b \<and> t = snd otherVal then Conflict
             else Done this))
         else
           bindO (if baseIter \<noteq> None then bindO (valueAt baseIter) (\<lambda>b. Done (b \<noteq> snd otherVal)) else Done False) (\<lambda>changed.
             if changed then Conflict
             else if thisIter \<noteq> None then Conflict
             else if thisIter = None \<and> baseIter = None then
               bindO (defined (insertKey v (fst otherVal) (snd otherVal) this)) (\<lambda>r. Done (snd r))
             else Done this))"

definition mergeDeletion :: "nat \<Rightarrow> node \<Rightarrow> node \<Rightarrow> bytes \<times> bytes \<Rightarrow> Head \<Rightarrow> Head outcome" where
  "mergeDeletion v current otherNode baseVal this =
     (let otherIter = findNode (fst baseVal) otherNode;
          thisIter = findNode (fst baseVal) current
      in if otherIter = None then
           if thisIter \<noteq> None then
             bindO (valueAt thisIter) (\<lambda>t.
               if t = snd baseVal then bindO (defined (erase v (fst baseVal) this)) (\<lambda>r. Done (snd r)) else Conflict)
           else Done this
         else Done this)"

definition mergeResolveConflict :: "nat \<Rightarrow> node \<Rightarrow> node \<Rightarrow> node \<Rightarrow> Head \<Rightarrow> Head outcome" where
  "mergeResolveConflict v current baseNode otherNode this =
     bindO (iterateAll otherNode) (\<lambda>others.
       bindO (foldO (mergeInsertion v current baseNode) others this) (\<lambda>this1.
         bindO (iterateAll baseNode) (\<lambda>bases.
           foldO (mergeDeletion v current otherNode) bases this1)))"

definition mergeTwoBranches :: "nat \<Rightarrow> node \<Rightarrow> node \<Rightarrow> Head \<Rightarrow> Head outcome" where
  "mergeTwoBranches v current otherNode this =
     bindO (iterateAll otherNode) (\<lambda>others.
       foldO (\<lambda>otherVal this.
         if findNode (fst otherVal) current \<noteq> None then Conflict
         else bindO (defined (insertKey v (fst otherVal) (snd otherVal) this)) (\<lambda>r. Done (snd r))) others this)"

subsection \<open>Merging tree by tree\<close>

text \<open>The node at the end of a path, and the replacement of its children, by which every node on the path gets a new stamp.\<close>

fun nodeAt :: "byte list \<Rightarrow> node \<Rightarrow> node option" where
  "nodeAt [] n = Some n"
| "nodeAt (b # bs) n = (case map_of (children n) b of None \<Rightarrow> None | Some c \<Rightarrow> nodeAt bs c)"

fun changeAt :: "nat \<Rightarrow> ((byte \<times> node) list \<Rightarrow> (byte \<times> node) list) \<Rightarrow> byte list \<Rightarrow> node \<Rightarrow> node option" where
  "changeAt v f [] n = Some (Node v (depth n) (trieKey n) (data n) (f (children n)))"
| "changeAt v f (b # bs) n =
     (case map_of (children n) b of
        None \<Rightarrow> None
      | Some c \<Rightarrow> map_option (\<lambda>c'. Node v (depth n) (trieKey n) (data n) (setChild b c' (children n))) (changeAt v f bs c))"

definition assignChild :: "nat \<Rightarrow> byte \<Rightarrow> node option \<Rightarrow> byte list \<Rightarrow> Head \<Rightarrow> Head outcome" where
  "assignChild v key c path this =
     bindO (defined (changeAt v (case c of None \<Rightarrow> clearChild key | Some n \<Rightarrow> setChild key n) path (root this)))
       (\<lambda>r. Done (this\<lparr>root := r\<rparr>))"

text \<open>Two slots hold the same pointer: both are null, or their nodes have the same stamp.\<close>

definition samePtr :: "node option \<Rightarrow> node option \<Rightarrow> bool" where
  "samePtr a b = (map_option stamp a = map_option stamp b)"

definition allKeys :: "byte list" where
  "allKeys = map word_of_nat [0..<256]"

function merge3Loop :: "nat \<Rightarrow> byte list \<Rightarrow> node \<Rightarrow> node \<Rightarrow> byte list \<Rightarrow> Head \<Rightarrow> Head outcome" where
  "merge3Loop v path base other [] this = Done this"
| "merge3Loop v path base other (key # keys) this =
     bindO (defined (nodeAt path (root this))) (\<lambda>current.
       let node = map_of (children current) key;
           baseNode = map_of (children base) key;
           otherNode = map_of (children other) key;
           unique = (\<not> samePtr node otherNode \<and> \<not> samePtr node baseNode)
       in bindO
            (case node of
               None \<Rightarrow>
                 if baseNode = None \<and> otherNode \<noteq> None then assignChild v key otherNode path this
                 else if baseNode = None \<and> otherNode = None then Done this
                 else if otherNode = None \<or> (baseNode \<noteq> None \<and> \<not> samePtr baseNode otherNode) then Conflict
                 else Done this
             | Some n \<Rightarrow>
                 if \<not> unique then
                   if baseNode \<noteq> None \<and> otherNode = None \<and> samePtr baseNode node then assignChild v key None path this
                   else if baseNode \<noteq> None \<and> otherNode \<noteq> None \<and> samePtr baseNode node then assignChild v key otherNode path this
                   else Done this
                 else
                   (case baseNode of
                      Some b \<Rightarrow>
                        (case otherNode of
                           Some o' \<Rightarrow>
                             if samePtr baseNode otherNode then Done this
                             else if isLeaf n \<and> isLeaf b \<and> isLeaf o' then Conflict
                             else if trieKey n = trieKey b \<and> trieKey b = trieKey o' then
                               merge3Loop v (path @ [key]) b o' allKeys this
                             else mergeResolveConflict v n b o' this
                         | None \<Rightarrow> Conflict)
                    | None \<Rightarrow>
                        (case otherNode of
                           Some o' \<Rightarrow> mergeTwoBranches v n o' this
                         | None \<Rightarrow> Done this)))
            (merge3Loop v path base other keys))"
  by pat_completeness auto

termination merge3Loop
proof (relation "measures [\<lambda>(v, path, base, other, keys, this). size base, \<lambda>(v, path, base, other, keys, this). length keys]", goal_cases)
  case (2 v path base other key keys this current node baseNode otherNode unique n b o')
  then show ?case using child_size [of "children base" key b] by (cases base) auto
qed simp_all

declare merge3Loop.simps(2) [simp del]

text \<open>The roots have no keys, which is an invariant of the code.\<close>

definition merge3 :: "nat \<Rightarrow> Head \<Rightarrow> Head \<Rightarrow> Head \<Rightarrow> Head outcome" where
  "merge3 v this base other =
     (if trieKey (root this) \<noteq> [] \<or> trieKey (root base) \<noteq> [] \<or> trieKey (root other) \<noteq> [] then Undefined
      else bindO (merge3Loop v [] (root base) (root other) allKeys this) (\<lambda>s.
        Done (s\<lparr>count := count other + (count this - count base), dataSize := dataSize other + (dataSize this - dataSize base)\<rparr>)))"

subsection \<open>Changes in different branches\<close>

definition branch :: "Head \<Rightarrow> byte \<Rightarrow> node option" where
  "branch s b = map_of (children (root s)) b"

text \<open>The same pointer in a slot of the three roots leads to the same node.\<close>

definition coherent :: "Head \<Rightarrow> Head \<Rightarrow> Head \<Rightarrow> bool" where
  "coherent this base other \<longleftrightarrow>
     (\<forall>b. \<forall>x\<in>{branch this b, branch base b, branch other b}. \<forall>y\<in>{branch this b, branch base b, branch other b}. samePtr x y \<longrightarrow> x = y)"

definition mergedBranch :: "Head \<Rightarrow> Head \<Rightarrow> Head \<Rightarrow> byte \<Rightarrow> node option" where
  "mergedBranch this base other b = (if branch this b = branch base b then branch other b else branch this b)"

lemma samePtr_refl [simp]: "samePtr x x"
  by (simp add: samePtr_def)

lemma samePtr_None [simp]: "samePtr None (Some n) \<longleftrightarrow> False" "samePtr (Some n) None \<longleftrightarrow> False"
  by (simp_all add: samePtr_def)

lemma assignChild_root:
  "assignChild v key c [] s = Done (s\<lparr>root := Node v (depth (root s)) (trieKey (root s)) (data (root s))
     ((case c of None \<Rightarrow> clearChild key | Some n \<Rightarrow> setChild key n) (children (root s)))\<rparr>)"
  by (simp add: assignChild_def defined_def)

lemma branch_assign:
  assumes "sorted_children (children (root s))" "assignChild v key c [] s = Done s'"
  shows "branch s' = (branch s)(key := c)" "sorted_children (children (root s'))"
    "depth (root s') = depth (root s)" "trieKey (root s') = trieKey (root s)" "data (root s') = data (root s)"
    "count s' = count s" "dataSize s' = dataSize s"
  using assms by (auto simp: assignChild_root branch_def fun_eq_iff map_of_setChild map_of_clearChild sorted_setChild sorted_clearChild
      split: option.splits)

text \<open>One turn of the loop at a slot that at most one side has changed.\<close>

lemma merge3_turn:
  assumes "sorted_children (children (root s))" "branch s key = branch this key" "coherent this base other"
    and "branch this key = branch base key \<or> branch other key = branch base key"
  shows "\<exists>s'. merge3Loop v [] (root base) (root other) (key # keys) s = merge3Loop v [] (root base) (root other) keys s' \<and>
    branch s' = (branch s)(key := mergedBranch this base other key) \<and> sorted_children (children (root s')) \<and>
    depth (root s') = depth (root s) \<and> trieKey (root s') = trieKey (root s) \<and> data (root s') = data (root s)"
proof -
  let ?t = "branch this key" and ?b = "branch base key" and ?o = "branch other key"
  have same: "samePtr x y \<longleftrightarrow> x = y" if "x \<in> {?t, ?b, ?o}" "y \<in> {?t, ?b, ?o}" for x y
    using assms(3) that unfolding coherent_def by (metis samePtr_refl)
  have ptr: "samePtr ?t ?b \<longleftrightarrow> ?t = ?b" "samePtr ?b ?t \<longleftrightarrow> ?b = ?t" "samePtr ?t ?o \<longleftrightarrow> ?t = ?o" "samePtr ?b ?o \<longleftrightarrow> ?b = ?o"
    using same by blast+
  have step: "merge3Loop v [] (root base) (root other) (key # keys) s =
      bindO (if mergedBranch this base other key = ?t \<and> (?t \<noteq> ?b \<or> ?t = None) then Done s
             else assignChild v key (mergedBranch this base other key) [] s) (merge3Loop v [] (root base) (root other) keys)"
  proof -
    note turn = merge3Loop.simps(2) [of v "[]" "root base" "root other" key keys s]
    have cur: "map_of (children (root s)) key = ?t" "map_of (children (root base)) key = ?b" "map_of (children (root other)) key = ?o"
      using assms(2) by (simp_all add: branch_def)
    show ?thesis
    proof (cases "?t = ?b")
      case True
      then have "mergedBranch this base other key = ?o" by (simp add: mergedBranch_def)
      then show ?thesis using True
        by (subst turn) (cases ?b; cases ?o; simp add: defined_def cur Let_def)
    next
      case False
      with assms(4) have "?o = ?b" "mergedBranch this base other key = ?t" by (simp_all add: mergedBranch_def)
      then show ?thesis using False ptr
        by (subst turn) (cases ?t; cases ?b; simp add: defined_def cur Let_def)
    qed
  qed
  show ?thesis
  proof (cases "mergedBranch this base other key = ?t \<and> (?t \<noteq> ?b \<or> ?t = None)")
    case True
    with step have "merge3Loop v [] (root base) (root other) (key # keys) s = merge3Loop v [] (root base) (root other) keys s" by simp
    moreover have "(branch s)(key := mergedBranch this base other key) = branch s" using True assms(2) by (simp add: fun_upd_idem)
    ultimately show ?thesis using assms(1) by metis
  next
    case False
    obtain s' where s': "assignChild v key (mergedBranch this base other key) [] s = Done s'" by (simp add: assignChild_root)
    with step False have "merge3Loop v [] (root base) (root other) (key # keys) s = merge3Loop v [] (root base) (root other) keys s'" by auto
    with branch_assign [OF assms(1) s'] show ?thesis by metis
  qed
qed

lemma merge3_turns:
  assumes "sorted_children (children (root s))" "distinct keys" "\<forall>b\<in>set keys. branch s b = branch this b" "coherent this base other"
    and "\<forall>b. branch this b = branch base b \<or> branch other b = branch base b"
  shows "\<exists>s'. merge3Loop v [] (root base) (root other) keys s = Done s' \<and> sorted_children (children (root s')) \<and>
    branch s' = (\<lambda>b. if b \<in> set keys then mergedBranch this base other b else branch s b) \<and>
    depth (root s') = depth (root s) \<and> trieKey (root s') = trieKey (root s) \<and> data (root s') = data (root s)"
  using assms(1-3)
proof (induction keys arbitrary: s)
  case (Cons key keys)
  from merge3_turn [OF Cons.prems(1) _ assms(4), of key v keys] Cons.prems(3) assms(5) obtain s1 where
    s1: "merge3Loop v [] (root base) (root other) (key # keys) s = merge3Loop v [] (root base) (root other) keys s1"
      "branch s1 = (branch s)(key := mergedBranch this base other key)" "sorted_children (children (root s1))"
      "depth (root s1) = depth (root s)" "trieKey (root s1) = trieKey (root s)" "data (root s1) = data (root s)" by auto
  moreover have "\<forall>b\<in>set keys. branch s1 b = branch this b" using Cons.prems(2,3) s1(2) by auto
  with Cons.IH [OF s1(3)] Cons.prems(2) obtain s2 where
    "merge3Loop v [] (root base) (root other) keys s1 = Done s2" "sorted_children (children (root s2))"
    "branch s2 = (\<lambda>b. if b \<in> set keys then mergedBranch this base other b else branch s1 b)"
    "depth (root s2) = depth (root s1)" "trieKey (root s2) = trieKey (root s1)" "data (root s2) = data (root s1)" by auto
  ultimately show ?case using Cons.prems(2) by (auto simp: fun_eq_iff)
qed simp

lemma allKeys_all: "b \<in> set allKeys"
proof -
  have "unat b < 2 ^ LENGTH(8)" by (rule unsigned_less)
  then have "unat b \<in> {0..<256}" by simp
  then have "word_of_nat (unat b) \<in> set allKeys" unfolding allKeys_def by (simp only: set_map set_upt) (rule imageI)
  then show ?thesis by simp
qed

lemma allKeys_distinct: "distinct allKeys"
proof -
  have "inj_on (word_of_nat :: nat \<Rightarrow> byte) {0..<256}"
    by (rule inj_on_inverseI [of _ unat]) (simp add: unsigned_of_nat take_bit_nat_eq_self)
  then show ?thesis by (simp add: allKeys_def distinct_map)
qed

text \<open>The sizes add up.\<close>

definition weight :: "(bytes option \<Rightarrow> int) \<Rightarrow> (bytes \<rightharpoonup> bytes) \<Rightarrow> int" where
  "weight f m = (\<Sum>k\<in>dom m. f (m k))"

lemma weight_card: "weight (\<lambda>_. 1) m = int (card (dom m))"
  by (simp add: weight_def)

lemma weight_size: "weight oldSize m = mapSize m"
  by (simp add: weight_def mapSize_def)

lemma weight_split: "finite (dom m) \<Longrightarrow> weight f m = weight f (m |` K) + weight f (m |` (- K))"
proof -
  assume "finite (dom m)"
  have part: "(\<Sum>k\<in>dom m \<inter> A. f (m k)) = weight f (m |` A)" for A
    unfolding weight_def dom_restrict by (rule sum.cong) auto
  have "weight f m = (\<Sum>k\<in>dom m \<inter> K. f (m k)) + (\<Sum>k\<in>dom m \<inter> - K. f (m k))"
    unfolding weight_def using \<open>finite (dom m)\<close> by (subst sum.Int_Diff [of _ _ K]) (simp_all add: Diff_eq)
  then show ?thesis by (simp only: part)
qed

lemma weight_merge:
  assumes "finite (dom t)" "finite (dom b)" "finite (dom oth)" "finite (dom s)"
    and "s |` K = t |` K" "b |` K = oth |` K" "s |` (- K) = oth |` (- K)" "b |` (- K) = t |` (- K)"
  shows "weight f s = weight f oth + (weight f t - weight f b)"
  using weight_split [OF assms(1), of f K] weight_split [OF assms(2), of f K] weight_split [OF assms(3), of f K]
    weight_split [OF assms(4), of f K] assms(5-8) by simp

lemma finite_contents [simp]: "finite (dom (contents s))"
  by (simp add: contents_def)

lemma contents_branch:
  "wf_root (root s) \<Longrightarrow> contents s key = (if key = [] then None else (case branch s (hd key) of None \<Rightarrow> None | Some c \<Rightarrow> look c key))"
  by (simp add: contents_def look_root branch_def)

text \<open>(C34) A three-way merge of stores in which no branch below the root was changed both since \<open>base\<close> by this store and by the
  other succeeds. The result is well-formed with right counters, and holds under each key the value of the other store if that store changed it, and the
  value of this store otherwise: no change of either side is lost.\<close>

theorem merge3_disjoint_branches:
  assumes "wf_store this" "wf_store base" "wf_store other" "coherent this base other"
    and "\<forall>b. branch this b = branch base b \<or> branch other b = branch base b"
  shows "\<exists>s. merge3 v this base other = Done s \<and> wf_store s \<and>
    (\<forall>key. contents s key = (if contents other key \<noteq> contents base key then contents other key else contents this key))"
proof -
  have roots: "wf_root (root this)" "wf_root (root base)" "wf_root (root other)" using assms(1-3) by (simp_all add: wf_store_def)
  then have r: "trieKey (root this) = []" "trieKey (root base) = []" "trieKey (root other) = []" "depth (root this) = 0" "data (root this) = None"
    by (simp_all add: wf_root_def)
  have "sorted_children (children (root this))" using roots(1) by (simp add: wf_root_def wf_children_def)
  from merge3_turns [OF this allKeys_distinct _ assms(4,5), of v] obtain s where
    s: "merge3Loop v [] (root base) (root other) allKeys this = Done s" "sorted_children (children (root s))"
      "branch s = mergedBranch this base other" "depth (root s) = 0" "trieKey (root s) = []" "data (root s) = None"
    using r by (auto simp: allKeys_all)
  let ?s = "s\<lparr>count := count other + (count this - count base), dataSize := dataSize other + (dataSize this - dataSize base)\<rparr>"
  have "wf_at [] c \<and> hd (trieKey c) = b" if "branch s b = Some c" for b c
    using that roots unfolding s(3) mergedBranch_def branch_def wf_root_def wf_children_def by (auto split: if_splits)
  then have root: "wf_root (root ?s)" using s(2,4-6) by (simp add: wf_root_def wf_children_def branch_def)
  have merged: "branch ?s = mergedBranch this base other" using s(3) by (simp add: branch_def fun_eq_iff)
  have key: "contents ?s key = (if branch this (hd key) = branch base (hd key) then contents other key else contents this key)"
      "branch this (hd key) = branch base (hd key) \<Longrightarrow> contents base key = contents this key"
      "branch this (hd key) \<noteq> branch base (hd key) \<Longrightarrow> contents base key = contents other key" for key
    using contents_branch [OF root, of key] contents_branch [OF roots(1), of key] contents_branch [OF roots(2), of key]
      contents_branch [OF roots(3), of key] assms(5)
    by (auto simp: merged mergedBranch_def)
  let ?K = "{key. branch this (hd key) \<noteq> branch base (hd key)}"
  have "weight f (contents ?s) = weight f (contents other) + (weight f (contents this) - weight f (contents base))" for f
    by (rule weight_merge [of _ _ _ _ ?K]) (auto simp: restrict_map_def fun_eq_iff key)
  then have "wf_store ?s" using root assms(1-3) by (simp add: wf_store_def flip: weight_card weight_size)
  moreover have "merge3 v this base other = Done ?s" using s(1) r by (simp add: merge3_def)
  moreover have "contents ?s key = (if contents other key \<noteq> contents base key then contents other key else contents this key)" for key
    using key [of key] by auto
  ultimately show ?thesis by blast
qed

subsection \<open>Examples\<close>

text \<open>Two transactions on the sample store, one below \<open>a\<close> and one in other branches.\<close>

definition mergeThis :: Head where
  "mergeThis = snd (the (runStore 10 [InsertOp [97, 99] [8], EraseOp [97, 98, 99]] radixStore))"

definition mergeOther :: Head where
  "mergeOther = snd (the (runStore 20 [UpdateOp [200] [9], InsertOp [5] [9, 9]] radixStore))"

lemma mergeSample_wf: "wf_store radixStore" "wf_store mergeThis" "wf_store mergeOther"
proof -
  show base: "wf_store radixStore" by (rule runStore_ok(1) [OF radixSample_run radixSample_no_empty])
  have "runStore 10 [InsertOp [97, 99] [8], EraseOp [97, 98, 99]] radixStore = Some ([True, True], mergeThis)"
      "runStore 20 [UpdateOp [200] [9], InsertOp [5] [9, 9]] radixStore = Some ([True, True], mergeOther)"
    by code_simp+
  then show "wf_store mergeThis" "wf_store mergeOther"
    using radix.run_refines [OF base, of "[InsertOp [97, 99] [8], EraseOp [97, 98, 99]]" 10]
      radix.run_refines [OF base, of "[UpdateOp [200] [9], InsertOp [5] [9, 9]]" 20]
    by (auto simp: runStore_def)
qed

lemma mergeSample_coherent: "coherent mergeThis radixStore mergeOther"
    "\<forall>b. branch mergeThis b = branch radixStore b \<or> branch mergeOther b = branch radixStore b"
proof -
  let ?P = "\<lambda>b. (\<forall>x\<in>{branch mergeThis b, branch radixStore b, branch mergeOther b}.
      \<forall>y\<in>{branch mergeThis b, branch radixStore b, branch mergeOther b}. samePtr x y \<longrightarrow> x = y) \<and>
      (branch mergeThis b = branch radixStore b \<or> branch mergeOther b = branch radixStore b)"
  have slots: "map fst (children (root mergeThis)) = [97, 200]" "map fst (children (root radixStore)) = [97, 200]"
      "map fst (children (root mergeOther)) = [5, 97, 200]"
    by code_simp+
  have none: "branch s b = None" if "b \<notin> set (map fst (children (root s)))" for s b
    using that by (simp add: branch_def map_of_eq_None_iff)
  have "\<forall>b\<in>set [5, 97, 200]. ?P b" by code_simp
  moreover have "?P b" if "b \<notin> set [5, 97, 200]" for b
    using that none [of b mergeThis] none [of b radixStore] none [of b mergeOther] by (simp add: slots)
  ultimately have "?P b" for b by blast
  then show "coherent mergeThis radixStore mergeOther"
      "\<forall>b. branch mergeThis b = branch radixStore b \<or> branch mergeOther b = branch radixStore b"
    by (simp_all add: coherent_def)
qed

theorem merge3_disjoint_branches_witness:
  "\<exists>s. merge3 30 mergeThis radixStore mergeOther = Done s \<and> wf_store s \<and>
    (\<forall>key. contents s key = (if contents mergeOther key \<noteq> contents radixStore key then contents mergeOther key else contents mergeThis key))"
  by (rule merge3_disjoint_branches [OF mergeSample_wf(2,1,3) mergeSample_coherent])

text \<open>
  The merge of nodes with equal keys goes on with their children and never looks at their own data. An update under a key that is a prefix of other
  keys is lost, without a conflict, when this store has changed an entry below it.
\<close>

lemma merge3_skip:
  assumes "nodeAt path (root s) = Some n"
    and "\<forall>k\<in>set ks. map_of (children n) k = None \<and> map_of (children base) k = None \<and> map_of (children other) k = None"
  shows "merge3Loop v path base other (ks @ keys) s = merge3Loop v path base other keys s"
  using assms(2) by (induction ks) (simp_all add: merge3Loop.simps(2) assms(1) defined_def)

definition keysBetween :: "nat \<Rightarrow> nat \<Rightarrow> byte list" where
  "keysBetween i j = map word_of_nat [i..<j]"

lemma keysBetween_slot: "x \<in> set (keysBetween i j) \<Longrightarrow> j \<le> 256 \<Longrightarrow> i \<le> unat x \<and> unat x < j"
  by (auto simp: keysBetween_def unsigned_of_nat take_bit_nat_eq_self)

lemma allKeys_split: "i < 256 \<Longrightarrow> allKeys = keysBetween 0 i @ word_of_nat i # keysBetween (Suc i) 256"
proof -
  assume i: "i < 256"
  have "[0..<256] = [0..<i] @ i # [Suc i..<256]" using i by (metis le_add_same_cancel1 less_or_eq_imp_le upt_add_eq_append upt_conv_Cons zero_le add_0 le_add_diff_inverse)
  then show ?thesis by (simp only: allKeys_def keysBetween_def list.map map_append)
qed

definition lostNode :: "nat \<Rightarrow> bytes \<Rightarrow> node \<Rightarrow> node \<Rightarrow> node" where
  "lostNode v x b c = Node v 0 [97] (Some ([97], x)) [(98, b), (99, c)]"

definition lostBase :: Head where
  "lostBase = snd (the (runStore 1 [InsertOp [97] [1], InsertOp [97, 98] [2], InsertOp [97, 99] [3]] emptyHead))"

definition lostThis :: Head where
  "lostThis = snd (the (runStore 10 [UpdateOp [97, 98] [4]] lostBase))"

definition lostOther :: Head where
  "lostOther = snd (the (runStore 20 [UpdateOp [97] [5]] lostBase))"

lemma lost_trees:
  defines "b \<equiv> Node 2 1 [98] (Some ([97, 98], [2])) []" and "c \<equiv> Node 3 1 [99] (Some ([97, 99], [3])) []"
  shows "lostBase = \<lparr>root = Node 3 0 [] None [(97, lostNode 3 [1] b c)], count = 3, dataSize = 3\<rparr>"
    "lostThis = \<lparr>root = Node 10 0 [] None [(97, lostNode 10 [1] (Node 10 1 [98] (Some ([97, 98], [4])) []) c)], count = 3, dataSize = 3\<rparr>"
    "lostOther = \<lparr>root = Node 20 0 [] None [(97, lostNode 20 [5] b c)], count = 3, dataSize = 3\<rparr>"
  unfolding b_def c_def by code_simp+


lemma merge3_skip_between:
  assumes "nodeAt path (root s) = Some n" "j \<le> 256"
    and "\<forall>b\<in>fst ` set (children n @ children base @ children other). unat b < i \<or> j \<le> unat b"
  shows "merge3Loop v path base other (keysBetween i j @ keys) s = merge3Loop v path base other keys s"
proof (rule merge3_skip [OF assms(1)], intro ballI conjI)
  fix k
  assume "k \<in> set (keysBetween i j)"
  from keysBetween_slot [OF this assms(2)] assms(3) have "k \<notin> fst ` set (children n @ children base @ children other)"
    by (meson leD)
  then show "map_of (children n) k = None" "map_of (children base) k = None" "map_of (children other) k = None"
    by (auto simp: map_of_eq_None_iff)
qed

lemma merge3_skip_end:
  assumes "nodeAt path (root s) = Some n" "j \<le> 256"
    and "\<forall>b\<in>fst ` set (children n @ children base @ children other). unat b < i \<or> j \<le> unat b"
  shows "merge3Loop v path base other (keysBetween i j) s = Done s"
  using merge3_skip_between [OF assms, of v "[]"] by simp

lemma merge3_loses_update:
  shows "find [97] lostOther = Some ([97], [5])"
    and "\<exists>s. merge3 30 lostThis lostBase lostOther = Done s \<and> find [97] s = Some ([97], [1])"
proof -
  show "find [97] lostOther = Some ([97], [5])" by code_simp
  let ?b = "Node 2 1 [98] (Some ([97, 98], [2])) []" and ?b' = "Node 10 1 [98] (Some ([97, 98], [4])) []"
    and ?c = "Node 3 1 [99] (Some ([97, 99], [3])) []"
  let ?base = "lostNode 3 [1] ?b ?c" and ?other = "lostNode 20 [5] ?b ?c"
  let ?s = "lostThis\<lparr>root := Node 30 0 [] None [(97, lostNode 30 [1] ?b' ?c)]\<rparr>"
  have inner: "merge3Loop 30 [97] ?base ?other allKeys lostThis = Done ?s"
  proof -
    have keys: "allKeys = keysBetween 0 98 @ 98 # 99 # keysBetween 100 256"
      using allKeys_split [of 98] by (simp add: keysBetween_def upt_conv_Cons)
    have "merge3Loop 30 [97] ?base ?other allKeys lostThis = merge3Loop 30 [97] ?base ?other (98 # 99 # keysBetween 100 256) lostThis"
      unfolding keys by (rule merge3_skip_between [of _ _ "lostNode 10 [1] ?b' ?c"]) (simp_all add: lost_trees lostNode_def)
    also have "\<dots> = merge3Loop 30 [97] ?base ?other (99 # keysBetween 100 256) lostThis"
      by (subst merge3Loop.simps(2)) (simp add: lost_trees lostNode_def defined_def samePtr_def)
    also have "\<dots> = merge3Loop 30 [97] ?base ?other (keysBetween 100 256) ?s"
      by (subst merge3Loop.simps(2)) (simp add: lost_trees lostNode_def defined_def samePtr_def assignChild_def)
    also have "\<dots> = Done ?s" by (rule merge3_skip_end [of _ _ "lostNode 30 [1] ?b' ?c"]) (simp_all add: lost_trees lostNode_def)
    finally show ?thesis .
  qed
  have keys: "allKeys = keysBetween 0 97 @ 97 # keysBetween 98 256" using allKeys_split [of 97] by simp
  have "merge3Loop 30 [] (root lostBase) (root lostOther) allKeys lostThis =
      merge3Loop 30 [] (root lostBase) (root lostOther) (97 # keysBetween 98 256) lostThis"
    unfolding keys by (rule merge3_skip_between [of _ _ "root lostThis"]) (simp_all add: lost_trees)
  also have "\<dots> = bindO (merge3Loop 30 [97] ?base ?other allKeys lostThis)
      (merge3Loop 30 [] (root lostBase) (root lostOther) (keysBetween 98 256))"
    by (subst merge3Loop.simps(2)) (simp add: lost_trees defined_def samePtr_def lostNode_def isLeaf_def)
  also have "\<dots> = merge3Loop 30 [] (root lostBase) (root lostOther) (keysBetween 98 256) ?s" by (simp only: inner bindO.simps)
  also have "\<dots> = Done ?s" by (rule merge3_skip_end [of _ _ "root ?s"]) (simp_all add: lost_trees)
  finally have "merge3 30 lostThis lostBase lostOther = Done (?s\<lparr>count := 3, dataSize := 3\<rparr>)"
    by (simp add: merge3_def lost_trees)
  moreover have "find [97] (?s\<lparr>count := 3, dataSize := 3\<rparr>) = Some ([97], [1])"
    by (simp add: find_def findNode_def byteAt_def findAt.simps lostNode_def)
  ultimately show "\<exists>s. merge3 30 lostThis lostBase lostOther = Done s \<and> find [97] s = Some ([97], [1])" by blast
qed


text \<open>
  On the root of a subtree \<open>_findNode\<close> compares signed characters with bytes, so that a byte of 128 or more is never found, and takes a key that is a
  proper prefix of the root's for the root's.
\<close>

lemma subtree_find_wrong:
  "findNode [200] (Node 1 0 [200] (Some ([200], [1])) []) = None"
  "findNode [97] (Node 1 0 [97, 98] (Some ([97, 98], [1])) []) = Some (Node 1 0 [97, 98] (Some ([97, 98], [1])) [])"
  by code_simp+

end
