(* ===== verification/ChunkVersions.thy ===== *)
theory ChunkVersions
  imports ReplConfig
begin

text \<open>
  Versions of the chunks of a sharded collection, \<^verbatim>\<open>s/chunk_version.h\<close> and \<^verbatim>\<open>s/chunk_version.cpp\<close>: a major and a minor
  version packed in 64 bits, and the epoch of the collection. A document is the list of its elements.
\<close>

record ChunkVersion =
  combined :: "64 word"
  epoch :: OID
  canThrowSSVOnIgnored :: bool

definition chunkVersion :: "32 word \<Rightarrow> 32 word \<Rightarrow> OID \<Rightarrow> ChunkVersion" where
  "chunkVersion major minor e = \<lparr>combined = ucast minor OR push_bit 32 (ucast major), epoch = e, canThrowSSVOnIgnored = False\<rparr>"

definition majorVersion :: "ChunkVersion \<Rightarrow> 32 word" where
  "majorVersion v = ucast (drop_bit 32 (combined v))"

definition minorVersion :: "ChunkVersion \<Rightarrow> 32 word" where
  "minorVersion v = ucast (combined v AND 0xFFFFFFFF)"

definition DROPPED :: ChunkVersion where
  "DROPPED = chunkVersion 0 0 0"

definition IGNORED :: ChunkVersion where
  "IGNORED = \<lparr>combined = 0, epoch = 0xFFFFFFFFFFFFFFFF, canThrowSSVOnIgnored = False\<rparr>"

definition isIgnoredVersion :: "ChunkVersion \<Rightarrow> bool" where
  "isIgnoredVersion v \<longleftrightarrow> majorVersion v = 0 \<and> minorVersion v = 0 \<and> epoch v = epoch IGNORED"

definition incMajor :: "ChunkVersion \<Rightarrow> ChunkVersion StatusWith" where
  "incMajor v = failIf (majorVersion v = 0xFFFFFFFF) Error31180 (Inr (v\<lparr>combined := push_bit 32 (ucast (majorVersion v + 1))\<rparr>))"

definition incMinor :: "ChunkVersion \<Rightarrow> ChunkVersion StatusWith" where
  "incMinor v = failIf (minorVersion v = 0xFFFFFFFF) Error31181 (Inr (v\<lparr>combined := combined v + 1\<rparr>))"

definition isSet :: "ChunkVersion \<Rightarrow> bool" where
  "isSet v \<longleftrightarrow> combined v > 0"

text \<open>The operators: equality looks at the epoch, the orders do not.\<close>

definition version_eq :: "ChunkVersion \<Rightarrow> ChunkVersion \<Rightarrow> bool" where
  "version_eq v w \<longleftrightarrow> epoch w = epoch v \<and> combined w = combined v"

definition version_gt :: "ChunkVersion \<Rightarrow> ChunkVersion \<Rightarrow> bool" where
  "version_gt v w \<longleftrightarrow> combined v > combined w"

definition version_ge :: "ChunkVersion \<Rightarrow> ChunkVersion \<Rightarrow> bool" where
  "version_ge v w \<longleftrightarrow> combined v \<ge> combined w"

definition isWriteCompatibleWith :: "ChunkVersion \<Rightarrow> ChunkVersion \<Rightarrow> bool" where
  "isWriteCompatibleWith v w \<longleftrightarrow> epoch v = epoch w \<and> majorVersion v = majorVersion w"

definition isOlderThan :: "ChunkVersion \<Rightarrow> ChunkVersion \<Rightarrow> bool" where
  "isOlderThan v w =
     (if epoch w \<noteq> epoch v then False
      else if majorVersion v \<noteq> majorVersion w then majorVersion v < majorVersion w
      else minorVersion v < minorVersion w)"

subsection \<open>Documents\<close>

datatype versionElement = TimestampElement "64 word" | DateElement "64 word" | OIDElement OID | BoolElement bool | OtherElement

definition version_toBSON :: "ChunkVersion \<Rightarrow> versionElement list" where
  "version_toBSON v =
     [TimestampElement (combined v), OIDElement (epoch v)] @ (if canThrowSSVOnIgnored v then [BoolElement True] else [])"

text \<open>The element after the last has no type. A third element that is not a boolean is an exception.\<close>

definition version_fromBSON :: "versionElement list \<Rightarrow> ChunkVersion StatusWith" where
  "version_fromBSON es =
     (case es of
        [] \<Rightarrow> Inl BadValue
      | TimestampElement c # es1 \<Rightarrow>
          (case es1 of
             OIDElement e # es2 \<Rightarrow>
               (case es2 of
                  [] \<Rightarrow> Inr \<lparr>combined = c, epoch = e, canThrowSSVOnIgnored = False\<rparr>
                | BoolElement b # _ \<Rightarrow> Inr \<lparr>combined = c, epoch = e, canThrowSSVOnIgnored = b\<rparr>
                | _ # _ \<Rightarrow> Inl Error13111)
           | _ \<Rightarrow> Inl TypeMismatch)
      | _ # _ \<Rightarrow> Inl TypeMismatch)"

text \<open>The legacy form: a field with a timestamp or a date, and an optional field with the epoch.\<close>

definition numberLong :: "versionElement \<Rightarrow> (64 word) StatusWith" where
  "numberLong e = (case e of TimestampElement c \<Rightarrow> Inr c | DateElement c \<Rightarrow> Inr c | _ \<Rightarrow> Inl TypeMismatch)"

definition parseLegacyWithField :: "versionElement option \<Rightarrow> versionElement option \<Rightarrow> ChunkVersion StatusWith" where
  "parseLegacyWithField versionElem epochElem =
     (case versionElem of
        None \<Rightarrow> Inl NoSuchKey
      | Some e \<Rightarrow> ifOK (numberLong e) (\<lambda>c.
          (case epochElem of
             Some (OIDElement i) \<Rightarrow> Inr \<lparr>combined = c, epoch = i, canThrowSSVOnIgnored = False\<rparr>
           | None \<Rightarrow> Inr \<lparr>combined = c, epoch = 0, canThrowSSVOnIgnored = False\<rparr>
           | Some _ \<Rightarrow> Inl TypeMismatch)))"

definition appendLegacyWithField :: "ChunkVersion \<Rightarrow> versionElement option \<times> versionElement option" where
  "appendLegacyWithField v = (Some (TimestampElement (combined v)), Some (OIDElement (epoch v)))"

definition parseWithField :: "versionElement list field \<Rightarrow> ChunkVersion StatusWith" where
  "parseWithField f = ifOK (extractField f) version_fromBSON"

subsection \<open>Packing and order\<close>

lemma less_div_mod: "(a :: nat) < b \<longleftrightarrow> a div k < b div k \<or> a div k = b div k \<and> a mod k < b mod k"
proof (cases "a div k" "b div k" rule: linorder_cases)
  case equal
  have "a = a div k * k + a mod k" "b = b div k * k + b mod k" by simp_all
  with equal show ?thesis by (metis less_irrefl nat_add_left_cancel_less)
next
  case less
  then show ?thesis by (meson div_le_mono leD leI)
next
  case greater
  then show ?thesis by (metis div_le_mono leD less_imp_le less_irrefl not_less_iff_gr_or_eq)
qed

lemma Suc_div_mod: "Suc (a mod k) < k \<Longrightarrow> Suc a div k = a div k \<and> Suc a mod k = Suc (a mod k)"
  by (auto simp: div_Suc mod_Suc)

lemma unat_versions: "unat (majorVersion v) = unat (combined v) div 2 ^ 32" "unat (minorVersion v) = unat (combined v) mod 2 ^ 32"
proof -
  have "unat (combined v) < 2 ^ LENGTH(64)" by (rule unsigned_less)
  then have "unat (combined v) div 2 ^ 32 < 2 ^ 32" by simp
  then show "unat (majorVersion v) = unat (combined v) div 2 ^ 32"
    by (simp add: majorVersion_def unsigned_ucast_eq unsigned_drop_bit_eq take_bit_nat_eq_self drop_bit_eq_div [where 'a = nat])
  have "(0xFFFFFFFF :: 64 word) = mask 32" by (simp add: mask_eq_exp_minus_1)
  then have "combined v AND 0xFFFFFFFF = take_bit 32 (combined v)" by (simp add: take_bit_eq_mask)
  then show "unat (minorVersion v) = unat (combined v) mod 2 ^ 32"
    unfolding minorVersion_def by (simp only: unsigned_ucast_eq unsigned_take_bit_eq) (simp add: take_bit_eq_mod)
qed

lemma combined_asULL: "combined (chunkVersion major minor e) = ts_asULL (Timestamp major minor)"
  by (simp add: chunkVersion_def ts_asULL_def or.commute)

lemma versions_of_new [simp]: "majorVersion (chunkVersion major minor e) = major" "minorVersion (chunkVersion major minor e) = minor"
proof -
  have "unat minor < 2 ^ 32" using unsigned_less [of minor] by simp
  then show "majorVersion (chunkVersion major minor e) = major" "minorVersion (chunkVersion major minor e) = minor"
    unfolding word_unat_eq_iff unat_versions combined_asULL unat_asULL by simp_all
qed

lemma isOlderThan_combined: "isOlderThan v w \<longleftrightarrow> epoch v = epoch w \<and> combined v < combined w"
proof -
  show ?thesis
    unfolding isOlderThan_def word_less_nat_alt word_unat_eq_iff [of "majorVersion v"] unat_versions
      less_div_mod [of "unat (combined v)" _ "2 ^ 32"] by auto
qed

lemma max_version: "x = 0xFFFFFFFF \<longleftrightarrow> unat x = 2 ^ 32 - 1" for x :: "32 word"
  by (simp add: word_unat_eq_iff)

lemma incMajor_combined:
  assumes "incMajor v = Inr w"
  shows "epoch w = epoch v" "majorVersion w = majorVersion v + 1" "minorVersion w = 0" "combined v < combined w"
proof -
  from assms have w: "w = v\<lparr>combined := push_bit 32 (ucast (majorVersion v + 1))\<rparr>" and "majorVersion v \<noteq> 0xFFFFFFFF"
    by (auto simp: incMajor_def)
  then have c: "combined w = combined (chunkVersion (majorVersion v + 1) 0 0)" by (simp add: chunkVersion_def)
  have same: "majorVersion w = majorVersion (chunkVersion (majorVersion v + 1) 0 0)" "minorVersion w = minorVersion (chunkVersion (majorVersion v + 1) 0 0)"
    by (simp_all only: majorVersion_def minorVersion_def c)
  then show "majorVersion w = majorVersion v + 1" "minorVersion w = 0" by simp_all
  show "epoch w = epoch v" using w by simp
  have "unat (majorVersion v) < 2 ^ LENGTH(32)" by (rule unsigned_less)
  with \<open>majorVersion v \<noteq> 0xFFFFFFFF\<close> have "unat (majorVersion v) + 1 < 2 ^ 32" by (simp add: max_version)
  then have "unat (majorVersion w) = unat (majorVersion v) + 1" using \<open>majorVersion w = majorVersion v + 1\<close> by (simp add: unat_word_ariths)
  then show "combined v < combined w" unfolding word_less_nat_alt unat_versions
    by (simp only: less_div_mod [of "unat (combined v)" _ "2 ^ 32"]) simp
qed

lemma incMinor_combined:
  assumes "incMinor v = Inr w"
  shows "epoch w = epoch v" "majorVersion w = majorVersion v" "minorVersion w = minorVersion v + 1" "combined v < combined w"
proof -
  from assms have w: "w = v\<lparr>combined := combined v + 1\<rparr>" and "minorVersion v \<noteq> 0xFFFFFFFF" by (auto simp: incMinor_def)
  have "unat (minorVersion v) < 2 ^ LENGTH(32)" by (rule unsigned_less)
  with \<open>minorVersion v \<noteq> 0xFFFFFFFF\<close> have "Suc (unat (combined v) mod 2 ^ 32) < 2 ^ 32"
    by (simp add: max_version unat_versions)
  note m = Suc_div_mod [OF this]
  have "combined v + 1 \<noteq> 0"
  proof
    assume "combined v + 1 = 0"
    then have "combined v = - 1" by (simp add: add_eq_0_iff2)
    then have "minorVersion v = 0xFFFFFFFF" by (simp add: minorVersion_def)
    with \<open>minorVersion v \<noteq> 0xFFFFFFFF\<close> show False ..
  qed
  then have c: "unat (combined w) = Suc (unat (combined v))" using w unatSuc [of "combined v"] by (simp add: add.commute)
  then show "combined v < combined w" by (simp add: word_less_nat_alt)
  have "unat (minorVersion v + 1) = Suc (unat (minorVersion v))"
    using \<open>Suc (unat (combined v) mod 2 ^ 32) < 2 ^ 32\<close> unfolding unat_word_ariths unat_versions by simp
  then show "majorVersion w = majorVersion v" "minorVersion w = minorVersion v + 1"
    using m unfolding word_unat_eq_iff unat_versions c by simp_all
  show "epoch w = epoch v" using w by simp
qed

text \<open>The document forms are round trips; the legacy form loses the flag.\<close>

lemma version_roundtrip: "version_fromBSON (version_toBSON v) = Inr v"
    "parseLegacyWithField (fst (appendLegacyWithField v)) (snd (appendLegacyWithField v)) = Inr (v\<lparr>canThrowSSVOnIgnored := False\<rparr>)"
  by (simp_all add: version_fromBSON_def version_toBSON_def parseLegacyWithField_def appendLegacyWithField_def numberLong_def)

text \<open>(C38) Versions of one epoch are ordered as their packed forms. A version that can be increased grows by it: the major version counts up by one and
  the minor starts again at zero, or the minor counts up and the major stays; an increase that would wrap around or carry is refused.\<close>

theorem chunk_version_increases:
  "(isOlderThan v w \<longleftrightarrow> epoch v = epoch w \<and> combined v < combined w) \<and>
   (case incMajor v of
      Inl e \<Rightarrow> e = Error31180 \<and> unat (majorVersion v) = 2 ^ 32 - 1
    | Inr u \<Rightarrow> isOlderThan v u \<and> unat (majorVersion u) = unat (majorVersion v) + 1 \<and> minorVersion u = 0) \<and>
   (case incMinor v of
      Inl e \<Rightarrow> e = Error31181 \<and> unat (minorVersion v) = 2 ^ 32 - 1
    | Inr u \<Rightarrow> isOlderThan v u \<and> majorVersion u = majorVersion v \<and> unat (minorVersion u) = unat (minorVersion v) + 1)"
proof (intro conjI)
  have count: "unat x = unat y + 1" if "x = y + 1" "y \<noteq> 0xFFFFFFFF" for x y :: "32 word"
  proof -
    have "unat y < 2 ^ LENGTH(32)" by (rule unsigned_less)
    with that show ?thesis by (simp add: max_version unat_word_ariths)
  qed
  show "isOlderThan v w \<longleftrightarrow> epoch v = epoch w \<and> combined v < combined w" by (rule isOlderThan_combined)
  show "case incMajor v of Inl e \<Rightarrow> e = Error31180 \<and> unat (majorVersion v) = 2 ^ 32 - 1
    | Inr u \<Rightarrow> isOlderThan v u \<and> unat (majorVersion u) = unat (majorVersion v) + 1 \<and> minorVersion u = 0"
  proof (cases "incMajor v")
    case (Inr u)
    then have "majorVersion v \<noteq> 0xFFFFFFFF" by (auto simp: incMajor_def)
    with incMajor_combined [OF Inr] count [of "majorVersion u" "majorVersion v"] Inr show ?thesis by (simp add: isOlderThan_combined)
  qed (simp add: incMajor_def split: if_splits)
  show "case incMinor v of Inl e \<Rightarrow> e = Error31181 \<and> unat (minorVersion v) = 2 ^ 32 - 1
    | Inr u \<Rightarrow> isOlderThan v u \<and> majorVersion u = majorVersion v \<and> unat (minorVersion u) = unat (minorVersion v) + 1"
  proof (cases "incMinor v")
    case (Inr u)
    then have "minorVersion v \<noteq> 0xFFFFFFFF" by (auto simp: incMinor_def)
    with incMinor_combined [OF Inr] count [of "minorVersion u" "minorVersion v"] Inr show ?thesis by (simp add: isOlderThan_combined)
  qed (simp add: incMinor_def split: if_splits)
qed

end
