(* ===== verification/RoutingTable.thy ===== *)
theory RoutingTable
  imports ChunkVersions "HOL-Library.List_Lexorder" "HOL-Library.AList"
begin

text \<open>
  The routing table of a sharded collection (\<^verbatim>\<open>s/chunk_manager.cpp\<close>, \<^verbatim>\<open>s/chunk.cpp\<close>): which shard owns which range of shard
  keys, how the table is brought up to date from a list of changed chunks, and to which shards an operation is sent.

  A shard key is a document. What the table uses of documents is the record \<open>KeyOps\<close>: the order of documents, the key string by which chunks
  are ordered in the table, the names of the fields, and tests of their types. These come from the BSON library and are a parameter. The
  bounds of a query are a parameter too: they are what the query planner gives.
\<close>

type_synonym KeyString = "8 word list"
type_synonym ShardId = string

record 'k KeyOps =
  extractKeyString :: "'k \<Rightarrow> KeyString"
  woCompare :: "'k \<Rightarrow> 'k \<Rightarrow> int"
  keyFields :: "'k \<Rightarrow> string list"
  allMinKey :: "'k \<Rightarrow> bool"
  allMaxKey :: "'k \<Rightarrow> bool"
  anyCollatable :: "'k \<Rightarrow> bool"

subsection \<open>Chunks\<close>

record ChunkHistory =
  ch_validAfter :: Timestamp
  ch_shard :: ShardId

text \<open>A chunk as the catalog stores it. All its fields are there when it was parsed.\<close>

record 'k ChunkType =
  ct_min :: 'k
  ct_max :: 'k
  ct_version :: ChunkVersion
  ct_shard :: ShardId
  ct_history :: "ChunkHistory list"
  ct_jumbo :: bool

definition validateChunk :: "'k KeyOps \<Rightarrow> 'k ChunkType \<Rightarrow> unit StatusWith" where
  "validateChunk K c =
     failIf (keyFields K (ct_min c) = []) NoSuchKey (
     failIf (keyFields K (ct_max c) = []) NoSuchKey (
     failIf (\<not> isSet (ct_version c)) NoSuchKey (
     failIf (ct_shard c = []) NoSuchKey (
     failIf (length (keyFields K (ct_min c)) \<noteq> length (keyFields K (ct_max c))) BadValue (
     failIf (keyFields K (ct_min c) \<noteq> keyFields K (ct_max c)) BadValue (
     failIf (woCompare K (ct_min c) (ct_max c) \<ge> 0) BadValue (
     failIf (ct_history c \<noteq> [] \<and> ch_shard (hd (ct_history c)) \<noteq> ct_shard c) BadValue (Inr ()))))))))"

record 'k ChunkInfo =
  ci_min :: 'k
  ci_max :: 'k
  ci_shardId :: ShardId
  ci_lastmod :: ChunkVersion
  ci_history :: "ChunkHistory list"
  ci_jumbo :: bool
  ci_bytesWritten :: "64 word"

definition newChunkInfo :: "'k KeyOps \<Rightarrow> 'k ChunkType \<Rightarrow> 'k ChunkInfo StatusWith" where
  "newChunkInfo K c = ifOK (validateChunk K c) (\<lambda>_.
     Inr \<lparr>ci_min = ct_min c, ci_max = ct_max c, ci_shardId = ct_shard c, ci_lastmod = ct_version c, ci_history = ct_history c,
          ci_jumbo = ct_jumbo c, ci_bytesWritten = 0\<rparr>)"

definition getShardIdAt :: "Timestamp option \<Rightarrow> 'k ChunkInfo \<Rightarrow> ShardId Checked" where
  "getShardIdAt ts c =
     (if ci_history c = [] then Some (Inr (ci_shardId c))
      else case ts of
             None \<Rightarrow> (if ci_shardId c = ch_shard (hd (ci_history c)) then Some (Inr (ch_shard (hd (ci_history c)))) else None)
           | Some t \<Rightarrow>
               (case List.find (\<lambda>h. ch_validAfter h \<le> t) (ci_history c) of
                  Some h \<Rightarrow> Some (Inr (ch_shard h))
                | None \<Rightarrow> Some (Inl StaleChunkHistory)))"

definition throwIfMovedSince :: "Timestamp \<Rightarrow> 'k ChunkInfo \<Rightarrow> unit StatusWith" where
  "throwIfMovedSince t c =
     failIf (ci_history c = []) Error50978 (
       if ch_validAfter (hd (ci_history c)) \<le> t then Inr ()
       else failIf (\<not> ch_validAfter (last (ci_history c)) \<le> t) StaleChunkHistory (Inl MigrationConflict))"

definition markAsJumbo :: "'k ChunkInfo \<Rightarrow> 'k ChunkInfo" where
  "markAsJumbo c = c\<lparr>ci_jumbo := True\<rparr>"

definition throwIfMoved :: "Timestamp option \<Rightarrow> 'k ChunkInfo \<Rightarrow> unit StatusWith" where
  "throwIfMoved atClusterTime c = (case atClusterTime of None \<Rightarrow> Inr () | Some t \<Rightarrow> throwIfMovedSince t c)"

definition containsKey :: "'k KeyOps \<Rightarrow> 'k ChunkInfo \<Rightarrow> 'k \<Rightarrow> bool" where
  "containsKey K c key \<longleftrightarrow> woCompare K (ci_min c) key \<le> 0 \<and> woCompare K key (ci_max c) < 0"

subsection \<open>The table\<close>

text \<open>A map ordered by its keys is the list of its entries. An iterator is the rest of the list.\<close>

type_synonym 'k ChunkInfoMap = "(KeyString \<times> 'k ChunkInfo) list"

definition upper_bound_of :: "KeyString \<Rightarrow> (KeyString \<times> 'v) list \<Rightarrow> (KeyString \<times> 'v) list" where
  "upper_bound_of key m = dropWhile (\<lambda>e. fst e \<le> key) m"

definition lower_bound_of :: "KeyString \<Rightarrow> (KeyString \<times> 'v) list \<Rightarrow> (KeyString \<times> 'v) list" where
  "lower_bound_of key m = dropWhile (\<lambda>e. fst e < key) m"

fun map_insert :: "KeyString \<Rightarrow> 'v \<Rightarrow> (KeyString \<times> 'v) list \<Rightarrow> (KeyString \<times> 'v) list" where
  "map_insert key v [] = [(key, v)]"
| "map_insert key v ((k, w) # m) =
     (if key < k then (key, v) # (k, w) # m else if key = k then (k, w) # m else (k, w) # map_insert key v m)"

record ShardVersionTargetingInfo =
  isStale :: bool
  shardVersion :: ChunkVersion

type_synonym ShardVersionMap = "(ShardId \<times> ShardVersionTargetingInfo) list"

record 'k RoutingTableHistory =
  rt_sequenceNumber :: nat
  rt_hasDefaultCollator :: bool
  rt_chunkMap :: "'k ChunkInfoMap"
  rt_collectionVersion :: ChunkVersion
  rt_shardVersions :: ShardVersionMap

text \<open>
  \<open>_constructShardVersionMap\<close>. The inner search goes over the chunks that follow on the same shard, gathers the largest version and gives
  the last of them and the rest.
\<close>

fun scanRun :: "ShardId \<Rightarrow> ChunkVersion \<Rightarrow> 'k ChunkInfo \<Rightarrow> 'k ChunkInfo list \<Rightarrow> (ChunkVersion \<times> 'k ChunkInfo \<times> 'k ChunkInfo list) Checked" where
  "scanRun shard v l [] = Some (Inr (v, l, []))"
| "scanRun shard v l (c # cs) =
     thenC (getShardIdAt None c) (\<lambda>s.
       if s \<noteq> shard then Some (Inr (v, l, c # cs))
       else scanRun shard (if version_gt (ci_lastmod c) v then ci_lastmod c else v) c cs)"

lemma scanRun_length: "scanRun shard v l cs = Some (Inr (v', l', rest)) \<Longrightarrow> length rest \<le> length cs"
  by (induction cs arbitrary: v l) (fastforce simp: thenC_Inr split: if_splits)+

function shardVersionLoop ::
    "'k KeyOps \<Rightarrow> OID \<Rightarrow> 'k option \<Rightarrow> 'k option \<Rightarrow> ShardVersionMap \<Rightarrow> 'k ChunkInfo list \<Rightarrow> ('k option \<times> 'k option \<times> ShardVersionMap) Checked" where
  "shardVersionLoop K e firstMin lastMax versions [] = Some (Inr (firstMin, lastMax, versions))"
| "shardVersionLoop K e firstMin lastMax versions (c # cs) =
     thenC (getShardIdAt None c) (\<lambda>shard.
       let info = (case map_of versions shard of
                     None \<Rightarrow> \<lparr>isStale = False, shardVersion = chunkVersion 0 0 e\<rparr>
                   | Some i \<Rightarrow> i);
           v0 = shardVersion info
       in thenC (scanRun shard (if version_gt (ci_lastmod c) v0 then ci_lastmod c else v0) c cs) (\<lambda>(v, l, rest).
            if lastMax \<noteq> None \<and> woCompare K (the lastMax) (ci_min c) \<noteq> 0 then Some (Inl ConflictingOperationInProgress)
            else if \<not> isSet v then None
            else shardVersionLoop K e (if firstMin = None then Some (ci_min c) else firstMin) (Some (ci_max l))
                   (AList.update shard (info\<lparr>shardVersion := v\<rparr>) versions) rest))"
  by pat_completeness auto

termination shardVersionLoop
  by (relation "measure (\<lambda>(K, e, f, l, vs, cs). length cs)") (auto dest: scanRun_length)

declare shardVersionLoop.simps(2) [simp del]

definition constructShardVersionMap :: "'k KeyOps \<Rightarrow> 'k ChunkInfoMap \<Rightarrow> ChunkVersion \<Rightarrow> ShardVersionMap Checked" where
  "constructShardVersionMap K m v =
     thenC (shardVersionLoop K (epoch v) None None [] (map snd m)) (\<lambda>(firstMin, lastMax, versions).
       if m = [] then Some (Inr versions)
       else case firstMin of None \<Rightarrow> None | Some f \<Rightarrow> (case lastMax of None \<Rightarrow> None | Some l \<Rightarrow>
         if versions = [] then None
         else if \<not> allMinKey K f then Some (Inl ConflictingOperationInProgress)
         else if \<not> allMaxKey K l then Some (Inl ConflictingOperationInProgress)
         else Some (Inr versions)))"

definition newRoutingTable :: "'k KeyOps \<Rightarrow> nat \<Rightarrow> bool \<Rightarrow> 'k ChunkInfoMap \<Rightarrow> ChunkVersion \<Rightarrow> 'k RoutingTableHistory Checked" where
  "newRoutingTable K n collator m v =
     thenC (constructShardVersionMap K m v) (\<lambda>versions.
       Some (Inr \<lparr>rt_sequenceNumber = n, rt_hasDefaultCollator = collator, rt_chunkMap = m, rt_collectionVersion = v,
                  rt_shardVersions = versions\<rparr>))"

text \<open>
  One changed chunk: the chunks that overlap it are erased and it is put in their place. The distance of two iterators in the wrong
  order is undefined. The bytes written are carried over when a single chunk is replaced or split.
\<close>

definition applyChunk :: "'k KeyOps \<Rightarrow> 'k ChunkType \<Rightarrow> ChunkVersion \<times> 'k ChunkInfoMap \<Rightarrow> (ChunkVersion \<times> 'k ChunkInfoMap) Checked" where
  "applyChunk K c s =
     (let v = ct_version c; m = snd s;
          minKey = extractKeyString K (ct_min c); maxKey = extractKeyString K (ct_max c);
          low = upper_bound_of minKey m; high = upper_bound_of maxKey m;
          single = ((length low = length high \<or> length low = length high + 1) \<and> low \<noteq> [])
      in if epoch (fst s) \<noteq> epoch v then Some (Inl ConflictingOperationInProgress)
         else if \<not> version_ge v (fst s) then None
         else if length low < length high then None
         else thenC (Some (newChunkInfo K c)) (\<lambda>new.
           let new1 = (if single then new\<lparr>ci_bytesWritten := ci_bytesWritten new + ci_bytesWritten (snd (hd low))\<rparr> else new)
           in Some (Inr (v, map_insert maxKey new1 (takeWhile (\<lambda>e. fst e \<le> minKey) m @ high)))))"

fun applyChunks :: "'k KeyOps \<Rightarrow> 'k ChunkType list \<Rightarrow> ChunkVersion \<times> 'k ChunkInfoMap \<Rightarrow> (ChunkVersion \<times> 'k ChunkInfoMap) Checked" where
  "applyChunks K [] s = Some (Inr s)"
| "applyChunks K (c # cs) s = thenC (applyChunk K c s) (applyChunks K cs)"

definition makeUpdated :: "'k KeyOps \<Rightarrow> nat \<Rightarrow> 'k RoutingTableHistory \<Rightarrow> 'k ChunkType list \<Rightarrow> 'k RoutingTableHistory Checked" where
  "makeUpdated K n rt changed =
     thenC (applyChunks K changed (rt_collectionVersion rt, rt_chunkMap rt)) (\<lambda>(v, m).
       if version_eq v (rt_collectionVersion rt) then Some (Inr rt)
       else newRoutingTable K n (rt_hasDefaultCollator rt) m v)"

text \<open>
  A new table is updated from an empty one that no shared pointer owns: returning that one itself, when the list of chunks is empty, throws
  \<^verbatim>\<open>std::bad_weak_ptr\<close>.
\<close>

definition makeNew :: "'k KeyOps \<Rightarrow> nat \<Rightarrow> bool \<Rightarrow> OID \<Rightarrow> 'k ChunkType list \<Rightarrow> 'k RoutingTableHistory Checked" where
  "makeNew K n collator e chunks =
     thenC (newRoutingTable K n collator [] (chunkVersion 0 0 e)) (\<lambda>rt.
       thenC (makeUpdated K (n + 1) rt chunks) (\<lambda>rt1. if rt_sequenceNumber rt1 = n then None else Some (Inr rt1)))"

text \<open>Staleness of shards; \<open>enabled\<close> is the parameter \<^verbatim>\<open>gEnableFinerGrainedCatalogCacheRefresh\<close>.\<close>

definition setShardStale :: "bool \<Rightarrow> ShardId \<Rightarrow> 'k RoutingTableHistory \<Rightarrow> 'k RoutingTableHistory" where
  "setShardStale enabled shard rt =
     (if enabled then
        case map_of (rt_shardVersions rt) shard of
          None \<Rightarrow> rt
        | Some i \<Rightarrow> rt\<lparr>rt_shardVersions := AList.update shard (i\<lparr>isStale := True\<rparr>) (rt_shardVersions rt)\<rparr>
      else rt)"

definition setAllShardsRefreshed :: "bool \<Rightarrow> 'k RoutingTableHistory \<Rightarrow> 'k RoutingTableHistory" where
  "setAllShardsRefreshed enabled rt =
     (if enabled then rt\<lparr>rt_shardVersions := map (\<lambda>(s, i). (s, i\<lparr>isStale := False\<rparr>)) (rt_shardVersions rt)\<rparr> else rt)"

definition getVersionOf :: "bool \<Rightarrow> bool \<Rightarrow> ShardId \<Rightarrow> 'k RoutingTableHistory \<Rightarrow> ChunkVersion StatusWith" where
  "getVersionOf enabled throwOnStaleShard shard rt =
     (case map_of (rt_shardVersions rt) shard of
        None \<Rightarrow> Inr (chunkVersion 0 0 (epoch (rt_collectionVersion rt)))
      | Some i \<Rightarrow> failIf (throwOnStaleShard \<and> enabled \<and> isStale i) ShardInvalidatedForTargeting (Inr (shardVersion i)))"

definition rt_compatibleWith :: "bool \<Rightarrow> 'k RoutingTableHistory \<Rightarrow> 'k RoutingTableHistory \<Rightarrow> ShardId \<Rightarrow> bool StatusWith" where
  "rt_compatibleWith enabled rt other shard =
     ifOK (getVersionOf enabled True shard other) (\<lambda>v. ifOK (getVersionOf enabled True shard rt) (\<lambda>w. Inr (version_eq v w)))"

definition getAllShardIds :: "'k RoutingTableHistory \<Rightarrow> ShardId set" where
  "getAllShardIds rt = set (map fst (rt_shardVersions rt))"

definition getNShardsOwningChunks :: "'k RoutingTableHistory \<Rightarrow> nat" where
  "getNShardsOwningChunks rt = length (rt_shardVersions rt)"

text \<open>
  The entries from \<open>itMin\<close> up to \<open>itMax\<close>, which is one past the entry the bound is in. The bounds are in order: past that the range of
  iterators is not one.
\<close>

definition overlappingRanges :: "'k KeyOps \<Rightarrow> 'k \<Rightarrow> 'k \<Rightarrow> bool \<Rightarrow> 'k RoutingTableHistory \<Rightarrow> 'k ChunkInfo list" where
  "overlappingRanges K mn mx isMaxInclusive rt =
     (let m = rt_chunkMap rt;
          itMin = upper_bound_of (extractKeyString K mn) m;
          itMax = tl (if isMaxInclusive then upper_bound_of (extractKeyString K mx) m else lower_bound_of (extractKeyString K mx) m)
      in map snd (take (length itMin - length itMax) itMin))"

subsection \<open>Targeting\<close>

record 'k ChunkManager =
  cm_rt :: "'k RoutingTableHistory"
  cm_clusterTime :: "Timestamp option"

definition findIntersectingChunk :: "'k KeyOps \<Rightarrow> 'k ChunkManager \<Rightarrow> 'k \<Rightarrow> bool \<Rightarrow> 'k ChunkInfo StatusWith" where
  "findIntersectingChunk K cm key hasSimpleCollation =
     failIf (\<not> hasSimpleCollation \<and> anyCollatable K key) ShardKeyNotFound (
       case upper_bound_of (extractKeyString K key) (rt_chunkMap (cm_rt cm)) of
         [] \<Rightarrow> Inl ShardKeyNotFound
       | (_, c) # _ \<Rightarrow> failIf (\<not> containsKey K c key) ShardKeyNotFound (Inr c))"

definition getMinKeyShardIdWithSimpleCollation :: "'k KeyOps \<Rightarrow> 'k ChunkManager \<Rightarrow> 'k \<Rightarrow> ShardId Checked" where
  "getMinKeyShardIdWithSimpleCollation K cm globalMin =
     thenC (Some (findIntersectingChunk K cm globalMin True)) (getShardIdAt (cm_clusterTime cm))"

definition keyBelongsToShard :: "'k KeyOps \<Rightarrow> 'k ChunkManager \<Rightarrow> 'k \<Rightarrow> ShardId \<Rightarrow> bool Checked" where
  "keyBelongsToShard K cm key shard =
     (if keyFields K key = [] then Some (Inr False)
      else case upper_bound_of (extractKeyString K key) (rt_chunkMap (cm_rt cm)) of
             [] \<Rightarrow> Some (Inr False)
           | (_, c) # _ \<Rightarrow>
               if \<not> containsKey K c key then None
               else thenC (getShardIdAt (cm_clusterTime cm) c) (\<lambda>s. Some (Inr (s = shard))))"

fun addShards :: "'k ChunkManager \<Rightarrow> 'k ChunkInfo list \<Rightarrow> ShardId set \<Rightarrow> ShardId set Checked" where
  "addShards cm [] ids = Some (Inr ids)"
| "addShards cm (c # cs) ids =
     thenC (getShardIdAt (cm_clusterTime cm) c) (\<lambda>s.
       let ids1 = insert s ids
       in if cm_clusterTime cm = None \<and> card ids1 = length (rt_shardVersions (cm_rt cm)) then Some (Inr ids1)
          else addShards cm cs ids1)"

definition getShardIdsForRange :: "'k KeyOps \<Rightarrow> 'k ChunkManager \<Rightarrow> 'k \<Rightarrow> 'k \<Rightarrow> ShardId set \<Rightarrow> ShardId set Checked" where
  "getShardIdsForRange K cm mn mx ids =
     (if cm_clusterTime cm = None \<and> allMinKey K mn \<and> allMaxKey K mx then Some (Inr (ids \<union> getAllShardIds (cm_rt cm)))
      else addShards cm (overlappingRanges K mn mx True (cm_rt cm)) ids)"

fun addRanges :: "'k KeyOps \<Rightarrow> 'k ChunkManager \<Rightarrow> ('k \<times> 'k) list \<Rightarrow> ShardId set \<Rightarrow> ShardId set Checked" where
  "addRanges K cm [] ids = Some (Inr ids)"
| "addRanges K cm ((mn, mx) # rs) ids =
     thenC (getShardIdsForRange K cm mn mx ids) (\<lambda>ids1.
       if cm_clusterTime cm = None \<and> card ids1 = length (rt_shardVersions (cm_rt cm)) then Some (Inr ids1)
       else addRanges K cm rs ids1)"

text \<open>
  \<open>getShardIdsForQuery\<close> after the planner: \<open>equality\<close> is the shard key the query fixes, if any, and \<open>ranges\<close> are the bounds of the query as ranges of
  shard keys. An exception on the fast path is caught.
\<close>

definition getShardIdsForQuery :: "'k KeyOps \<Rightarrow> 'k ChunkManager \<Rightarrow> 'k option \<Rightarrow> bool \<Rightarrow> ('k \<times> 'k) list \<Rightarrow> ShardId set \<Rightarrow> ShardId set Checked" where
  "getShardIdsForQuery K cm equality hasSimpleCollation ranges ids =
     (let slow = thenC (addRanges K cm ranges ids) (\<lambda>ids1.
            if ids1 = {} then
              (case rt_chunkMap (cm_rt cm) of
                 [] \<Rightarrow> None
               | (_, c) # _ \<Rightarrow> thenC (getShardIdAt (cm_clusterTime cm) c) (\<lambda>s. Some (Inr {s})))
            else Some (Inr ids1))
      in case equality of
           None \<Rightarrow> slow
         | Some key \<Rightarrow>
             (case thenC (Some (findIntersectingChunk K cm key hasSimpleCollation)) (getShardIdAt (cm_clusterTime cm)) of
                None \<Rightarrow> None
              | Some (Inr s) \<Rightarrow> Some (Inr (insert s ids))
              | Some (Inl _) \<Rightarrow> slow))"

fun anyOnShard :: "Timestamp option \<Rightarrow> ShardId \<Rightarrow> 'k ChunkInfo list \<Rightarrow> bool Checked" where
  "anyOnShard ts shard [] = Some (Inr False)"
| "anyOnShard ts shard (c # cs) =
     thenC (getShardIdAt ts c) (\<lambda>s. if s = shard then Some (Inr True) else anyOnShard ts shard cs)"

definition rangeOverlapsShard :: "'k KeyOps \<Rightarrow> 'k ChunkManager \<Rightarrow> 'k \<Rightarrow> 'k \<Rightarrow> ShardId \<Rightarrow> bool Checked" where
  "rangeOverlapsShard K cm mn mx shard = anyOnShard (cm_clusterTime cm) shard (overlappingRanges K mn mx False (cm_rt cm))"

fun firstOnShard :: "Timestamp option \<Rightarrow> ShardId \<Rightarrow> 'k ChunkInfo list \<Rightarrow> 'k ChunkInfo option Checked" where
  "firstOnShard ts shard [] = Some (Inr None)"
| "firstOnShard ts shard (c # cs) =
     thenC (getShardIdAt ts c) (\<lambda>s. if s = shard then Some (Inr (Some c)) else firstOnShard ts shard cs)"

definition getNextChunkOnShard :: "'k KeyOps \<Rightarrow> 'k ChunkManager \<Rightarrow> 'k \<Rightarrow> ShardId \<Rightarrow> 'k ChunkInfo option Checked" where
  "getNextChunkOnShard K cm key shard =
     firstOnShard (cm_clusterTime cm) shard (map snd (upper_bound_of (extractKeyString K key) (rt_chunkMap (cm_rt cm))))"

end
