(* ===== verification/RoutingProps.thy ===== *)
theory RoutingProps
  imports RoutingTable
begin

text \<open>
  What the routing table promises: the chunks are in order and their versions are accounted for, an update replaces exactly the range it is
  about, and an operation is sent to the shards that own its keys.
\<close>

subsection \<open>Keys and chunks\<close>

text \<open>
  The documents of type \<open>'k\<close> have the fields of the shard key. Their key strings compare as they do, and the documents with the smallest or with the
  largest value in every field are the ends of their order.
\<close>

definition key_laws :: "'k KeyOps \<Rightarrow> bool" where
  "key_laws K \<longleftrightarrow>
     (\<forall>a b. (woCompare K a b < 0 \<longleftrightarrow> extractKeyString K a < extractKeyString K b) \<and>
            (woCompare K a b = 0 \<longleftrightarrow> extractKeyString K a = extractKeyString K b)) \<and>
     (\<forall>a. (allMinKey K a \<longleftrightarrow> (\<forall>k. extractKeyString K a \<le> extractKeyString K k)) \<and>
          (allMaxKey K a \<longleftrightarrow> (\<forall>k. extractKeyString K k \<le> extractKeyString K a)))"

lemma key_ends:
  assumes "key_laws K"
  shows "allMinKey K a \<longleftrightarrow> (\<forall>k. extractKeyString K a \<le> extractKeyString K k)"
    "allMaxKey K a \<longleftrightarrow> (\<forall>k. extractKeyString K k \<le> extractKeyString K a)"
  using assms unfolding key_laws_def by blast+

lemma key_lawsD:
  assumes "key_laws K"
  shows "woCompare K a b < 0 \<longleftrightarrow> extractKeyString K a < extractKeyString K b"
    "woCompare K a b = 0 \<longleftrightarrow> extractKeyString K a = extractKeyString K b"
    "woCompare K a b \<le> 0 \<longleftrightarrow> extractKeyString K a \<le> extractKeyString K b"
    "woCompare K a b \<ge> 0 \<longleftrightarrow> extractKeyString K b \<le> extractKeyString K a"
proof -
  show lt: "woCompare K a b < 0 \<longleftrightarrow> extractKeyString K a < extractKeyString K b"
    and eq: "woCompare K a b = 0 \<longleftrightarrow> extractKeyString K a = extractKeyString K b"
    using assms unfolding key_laws_def by blast+
  show "woCompare K a b \<le> 0 \<longleftrightarrow> extractKeyString K a \<le> extractKeyString K b"
    unfolding order_le_less [of "woCompare K a b"] order_le_less [of "extractKeyString K a"] lt eq ..
  show "woCompare K a b \<ge> 0 \<longleftrightarrow> extractKeyString K b \<le> extractKeyString K a"
    unfolding not_less [symmetric] lt ..
qed

abbreviation minKey :: "'k KeyOps \<Rightarrow> 'k ChunkInfo \<Rightarrow> KeyString" where
  "minKey K c \<equiv> extractKeyString K (ci_min c)"

abbreviation maxKey :: "'k KeyOps \<Rightarrow> 'k ChunkInfo \<Rightarrow> KeyString" where
  "maxKey K c \<equiv> extractKeyString K (ci_max c)"

definition chunk_ok :: "'k KeyOps \<Rightarrow> ChunkVersion \<Rightarrow> KeyString \<times> 'k ChunkInfo \<Rightarrow> bool" where
  "chunk_ok K v e \<longleftrightarrow> fst e = maxKey K (snd e) \<and> minKey K (snd e) < maxKey K (snd e) \<and> isSet (ci_lastmod (snd e)) \<and>
     (ci_history (snd e) = [] \<or> ch_shard (hd (ci_history (snd e))) = ci_shardId (snd e)) \<and>
     ci_shardId (snd e) \<noteq> [] \<and> keyFields K (ci_min (snd e)) \<noteq> [] \<and> keyFields K (ci_max (snd e)) = keyFields K (ci_min (snd e)) \<and>
     epoch (ci_lastmod (snd e)) = epoch v \<and> combined (ci_lastmod (snd e)) \<le> combined v"

definition table_ok :: "'k KeyOps \<Rightarrow> ChunkVersion \<times> 'k ChunkInfoMap \<Rightarrow> bool" where
  "table_ok K s \<longleftrightarrow> sorted_wrt (<) (map fst (snd s)) \<and> (\<forall>e\<in>set (snd s). chunk_ok K (fst s) e) \<and>
     (snd s \<noteq> [] \<longrightarrow> (\<exists>e\<in>set (snd s). combined (ci_lastmod (snd e)) = combined (fst s)))"

lemma current_shard: "chunk_ok K v e \<Longrightarrow> getShardIdAt None (snd e) = Some (Inr (ci_shardId (snd e)))"
  by (auto simp: chunk_ok_def getShardIdAt_def)

subsection \<open>Maps in order\<close>

lemma in_dropWhile_le:
  fixes k :: "'a :: linorder"
  assumes "sorted_wrt (<) (map fst m)"
  shows "e \<in> set (dropWhile (\<lambda>e. fst e \<le> k) m) \<longleftrightarrow> e \<in> set m \<and> k < fst e"
  using assms by (induction m) (auto simp: not_le dest: less_trans)

lemma in_takeWhile_le:
  fixes k :: "'a :: linorder"
  assumes "sorted_wrt (<) (map fst m)"
  shows "e \<in> set (takeWhile (\<lambda>e. fst e \<le> k) m) \<longleftrightarrow> e \<in> set m \<and> fst e \<le> k"
  using assms by (induction m) (auto simp: not_le dest: less_trans)

lemmas sorted_bounds = in_dropWhile_le in_takeWhile_le

lemma map_insert_between:
  assumes "\<forall>e\<in>set xs. fst e < k" "\<forall>e\<in>set ys. k < fst e"
  shows "map_insert k v (xs @ ys) = xs @ (k, v) # ys"
  using assms
proof (induction xs)
  case Nil
  then show ?case by (cases ys) auto
qed auto

lemma dropWhile_le_trans:
  assumes "k \<le> (k' :: 'a :: linorder)"
  shows "dropWhile (\<lambda>e. fst e \<le> k') (dropWhile (\<lambda>e. fst e \<le> k) m) = dropWhile (\<lambda>e. fst e \<le> k') m"
  using assms by (induction m) auto

lemma sorted_parts:
  assumes "sorted_wrt R (map fst m)"
  shows "sorted_wrt R (map fst (takeWhile P m))" "sorted_wrt R (map fst (dropWhile P m))"
proof -
  have "sorted_wrt R (map fst (takeWhile P m) @ map fst (dropWhile P m))"
    using assms by (simp flip: map_append)
  then show "sorted_wrt R (map fst (takeWhile P m))" "sorted_wrt R (map fst (dropWhile P m))"
    by (simp_all add: sorted_wrt_append)
qed

lemma sorted_middle:
  assumes "sorted_wrt (<) (map fst m)" "a < (b :: 'a :: linorder)"
  shows "sorted_wrt (<) (map fst (takeWhile (\<lambda>e. fst e \<le> a) m @ (b, v) # dropWhile (\<lambda>e. fst e \<le> b) m))"
  using assms sorted_parts [OF assms(1)] by (auto simp: sorted_wrt_append sorted_bounds [OF assms(1)])

subsection \<open>One changed chunk\<close>

text \<open>The entry that a changed chunk becomes; the bytes written do not matter.\<close>

definition entry_of :: "'k KeyOps \<Rightarrow> 'k ChunkType \<Rightarrow> KeyString \<times> 'k ChunkInfo \<Rightarrow> bool" where
  "entry_of K c e \<longleftrightarrow> fst e = extractKeyString K (ct_max c) \<and> ci_min (snd e) = ct_min c \<and> ci_max (snd e) = ct_max c \<and>
     ci_shardId (snd e) = ct_shard c \<and> ci_lastmod (snd e) = ct_version c \<and> ci_history (snd e) = ct_history c"

lemma validateChunk_ok:
  assumes "key_laws K" "validateChunk K c = Inr u"
  shows "extractKeyString K (ct_min c) < extractKeyString K (ct_max c)" "isSet (ct_version c)"
    "ct_history c = [] \<or> ch_shard (hd (ct_history c)) = ct_shard c"
    "ct_shard c \<noteq> [] \<and> keyFields K (ct_min c) \<noteq> [] \<and> keyFields K (ct_max c) = keyFields K (ct_min c)"
  using assms(2) by (auto simp: validateChunk_def key_lawsD [OF assms(1)] not_le split: if_splits)

lemma applyChunk_eq:
  assumes "key_laws K" "sorted_wrt (<) (map fst m)" "validateChunk K c = Inr u" "epoch v = epoch (ct_version c)" "version_ge (ct_version c) v"
  defines "a \<equiv> extractKeyString K (ct_min c)" and "b \<equiv> extractKeyString K (ct_max c)"
  shows "\<exists>x. applyChunk K c (v, m) = Some (Inr (ct_version c, takeWhile (\<lambda>e. fst e \<le> a) m @ (b, x) # dropWhile (\<lambda>e. fst e \<le> b) m)) \<and>
    entry_of K c (b, x)"
proof -
  have ab: "a < b" using validateChunk_ok(1) [OF assms(1,3)] by (simp add: a_def b_def)
  have le: "length (dropWhile (\<lambda>e. fst e \<le> b) m) \<le> length (dropWhile (\<lambda>e. fst e \<le> a) m)"
    using dropWhile_le_trans [of a b m] ab length_dropWhile_le by (metis less_imp_le)
  have ins: "map_insert b x (takeWhile (\<lambda>e. fst e \<le> a) m @ dropWhile (\<lambda>e. fst e \<le> b) m) =
      takeWhile (\<lambda>e. fst e \<le> a) m @ (b, x) # dropWhile (\<lambda>e. fst e \<le> b) m" for x
    using ab by (intro map_insert_between) (auto simp: sorted_bounds [OF assms(2)])
  show ?thesis
    using assms(3-5) le by (auto simp: applyChunk_def Let_def upper_bound_of_def newChunkInfo_def a_def [symmetric] b_def [symmetric] ins
        entry_of_def not_less)
qed

lemma applyChunk_valid:
  assumes "applyChunk K c s = Some (Inr s')"
  shows "validateChunk K c = Inr ()" "epoch (fst s) = epoch (ct_version c)" "version_ge (ct_version c) (fst s)" "fst s' = ct_version c"
  using assms by (auto simp: applyChunk_def Let_def newChunkInfo_def thenC_Inr split: if_splits)

lemma applyChunk_ok:
  assumes "key_laws K" "table_ok K s" "applyChunk K c s = Some (Inr s')"
  shows "table_ok K s'" "epoch (fst s') = epoch (fst s)" "combined (fst s) \<le> combined (fst s')" "snd s' \<noteq> []"
proof -
  note valid = applyChunk_valid [OF assms(3)]
  let ?a = "extractKeyString K (ct_min c)" and ?b = "extractKeyString K (ct_max c)"
  have sorted: "sorted_wrt (<) (map fst (snd s))" using assms(2) by (simp add: table_ok_def)
  obtain x where x: "s' = (ct_version c, takeWhile (\<lambda>e. fst e \<le> ?a) (snd s) @ (?b, x) # dropWhile (\<lambda>e. fst e \<le> ?b) (snd s))" "entry_of K c (?b, x)"
    using applyChunk_eq [OF assms(1) sorted valid(1-3)] assms(3) by auto
  note c = validateChunk_ok [OF assms(1) valid(1)]
  have grow: "combined (fst s) \<le> combined (ct_version c)" using valid(3) by (simp add: version_ge_def)
  have "chunk_ok K (ct_version c) e" if "e \<in> set (snd s)" for e
    using assms(2) that valid(2) grow by (auto simp: table_ok_def chunk_ok_def)
  moreover have "chunk_ok K (ct_version c) (?b, x)" using x(2) c by (auto simp: chunk_ok_def entry_of_def)
  ultimately show "table_ok K s'" using sorted_middle [OF sorted c(1), of x] x
    by (auto simp: table_ok_def entry_of_def dest: set_takeWhileD set_dropWhileD)
  show "epoch (fst s') = epoch (fst s)" "combined (fst s) \<le> combined (fst s')" "snd s' \<noteq> []" using x valid(2) grow by simp_all
qed

lemma applyChunks_ok:
  assumes "key_laws K" "table_ok K s" "applyChunks K cs s = Some (Inr s')"
  shows "table_ok K s' \<and> epoch (fst s') = epoch (fst s) \<and> combined (fst s) \<le> combined (fst s') \<and> (snd s' = [] \<longrightarrow> s' = s)"
  using assms(2,3)
proof (induction cs arbitrary: s)
  case (Cons c cs)
  from Cons.prems(2) obtain s1 where s1: "applyChunk K c s = Some (Inr s1)" "applyChunks K cs s1 = Some (Inr s')"
    by (auto simp: thenC_Inr)
  note step = applyChunk_ok [OF assms(1) Cons.prems(1) s1(1)]
  from Cons.IH [OF step(1) s1(2)] step show ?case by auto
qed simp

subsection \<open>Versions of the shards\<close>

definition larger :: "'k ChunkInfo \<Rightarrow> ChunkVersion \<Rightarrow> ChunkVersion" where
  "larger c v = (if version_gt (ci_lastmod c) v then ci_lastmod c else v)"

lemma fold_larger:
  "combined v \<le> combined (fold larger cs v)" "\<forall>c\<in>set cs. combined (ci_lastmod c) \<le> combined (fold larger cs v)"
  "fold larger cs v = v \<or> (\<exists>c\<in>set cs. fold larger cs v = ci_lastmod c)"
proof -
  have "combined v \<le> combined (fold larger cs v) \<and> (\<forall>c\<in>set cs. combined (ci_lastmod c) \<le> combined (fold larger cs v)) \<and>
    (fold larger cs v = v \<or> (\<exists>c\<in>set cs. fold larger cs v = ci_lastmod c))"
  proof (induction cs arbitrary: v)
    case (Cons c cs)
    have "combined v \<le> combined (larger c v)" "combined (ci_lastmod c) \<le> combined (larger c v)"
      by (auto simp: larger_def version_gt_def)
    moreover have "larger c v = v \<or> larger c v = ci_lastmod c" by (simp add: larger_def)
    ultimately show ?case using Cons.IH [of "larger c v"] by (auto intro: order_trans)
  qed simp
  then show "combined v \<le> combined (fold larger cs v)" "\<forall>c\<in>set cs. combined (ci_lastmod c) \<le> combined (fold larger cs v)"
    "fold larger cs v = v \<or> (\<exists>c\<in>set cs. fold larger cs v = ci_lastmod c)" by blast+
qed

text \<open>A chunk whose version is set and whose history, if any, starts with its shard.\<close>

definition sane :: "'k ChunkInfo \<Rightarrow> bool" where
  "sane c \<longleftrightarrow> isSet (ci_lastmod c) \<and> getShardIdAt None c = Some (Inr (ci_shardId c))"

lemma scanRun_eq:
  fixes shard
  assumes "\<forall>c\<in>set cs. sane c"
  defines "run \<equiv> takeWhile (\<lambda>c. ci_shardId c = shard) cs"
  shows "scanRun shard v l cs = Some (Inr (fold larger run v, last (l # run), dropWhile (\<lambda>c. ci_shardId c = shard) cs))"
  using assms(1) unfolding run_def by (induction cs arbitrary: v l) (simp_all add: sane_def larger_def)

text \<open>What the map of versions says of the chunks gone over so far: it has the shards that own one, each with its largest version.\<close>

definition owns_version :: "'k ChunkInfo list \<Rightarrow> ShardId \<Rightarrow> ChunkVersion \<Rightarrow> bool" where
  "owns_version cs s v \<longleftrightarrow> (\<exists>c\<in>set cs. ci_shardId c = s \<and> ci_lastmod c = v) \<and>
     (\<forall>c\<in>set cs. ci_shardId c = s \<longrightarrow> combined (ci_lastmod c) \<le> combined v)"

definition versions_ok :: "'k ChunkInfo list \<Rightarrow> ShardVersionMap \<Rightarrow> bool" where
  "versions_ok cs vs \<longleftrightarrow> distinct (map fst vs) \<and> fst ` set vs = ci_shardId ` set cs \<and>
     (\<forall>s i. map_of vs s = Some i \<longrightarrow> owns_version cs s (shardVersion i))"

lemma versions_ok_run:
  assumes "versions_ok ds vs" "\<forall>r\<in>set (c # run). ci_shardId r = s" "isSet (ci_lastmod c)"
    and v0: "v0 = (case map_of vs s of None \<Rightarrow> chunkVersion 0 0 e | Some i \<Rightarrow> shardVersion i)"
  shows "versions_ok (ds @ c # run) (AList.update s (info\<lparr>shardVersion := fold larger (c # run) v0\<rparr>) vs)"
    "isSet (fold larger (c # run) v0)"
proof -
  let ?v = "fold larger (c # run) v0"
  note big = fold_larger [where v = v0 and cs = "c # run"]
  have "combined (ci_lastmod c) \<le> combined ?v" using big(2) by auto
  then show set: "isSet ?v" using assms(3) unfolding isSet_def by (rule less_le_trans [rotated])
  have notin: "map_of vs s = None \<Longrightarrow> s \<notin> ci_shardId ` set ds"
    using assms(1) by (auto simp: versions_ok_def map_of_eq_None_iff)
  have zero: "map_of vs s = None \<Longrightarrow> \<not> isSet v0" by (simp add: v0 isSet_def chunkVersion_def)
  have old: "owns_version ds s v0" if "map_of vs s \<noteq> None"
    using that assms(1) by (auto simp: v0 versions_ok_def)
  have "owns_version (ds @ c # run) s ?v"
  proof (cases "map_of vs s = None")
    case True
    then have "?v \<noteq> v0" using zero set by metis
    then obtain d where d: "d \<in> set (c # run)" "?v = ci_lastmod d" using big(3) by blast
    have "combined (ci_lastmod r) \<le> combined ?v" if "r \<in> set (ds @ c # run)" "ci_shardId r = s" for r
      using that big(2) notin [OF True] by (metis Un_iff image_eqI set_append)
    moreover have "d \<in> set (ds @ c # run)" "ci_shardId d = s" using d(1) assms(2) by auto
    ultimately show ?thesis unfolding owns_version_def using d(2) by metis
  next
    case False
    note old = old [OF False]
    have "combined (ci_lastmod r) \<le> combined ?v" if "r \<in> set ds" "ci_shardId r = s" for r
      using old that big(1) unfolding owns_version_def by (blast intro: order_trans)
    moreover have "\<exists>d\<in>set (ds @ c # run). ci_shardId d = s \<and> ci_lastmod d = ?v"
      using old big(3) assms(2) unfolding owns_version_def set_append by (metis Un_iff)
    ultimately show ?thesis unfolding owns_version_def set_append using big(2) by blast
  qed
  moreover have "owns_version (ds @ c # run) s' w" if "s' \<noteq> s" "owns_version ds s' w" for s' w
    using that assms(2) by (auto simp: owns_version_def)
  ultimately show "versions_ok (ds @ c # run) (AList.update s (info\<lparr>shardVersion := ?v\<rparr>) vs)"
    using assms(1,2) by (auto simp: versions_ok_def update_conv' distinct_update dom_update)
qed

text \<open>Neighbouring chunks on different shards must meet: that is all that is looked at.\<close>

definition meets :: "'k KeyOps \<Rightarrow> 'k ChunkInfo \<Rightarrow> 'k ChunkInfo \<Rightarrow> bool" where
  "meets K c d \<longleftrightarrow> woCompare K (ci_max c) (ci_min d) = 0"

definition shards_meet :: "'k KeyOps \<Rightarrow> 'k ChunkInfo list \<Rightarrow> bool" where
  "shards_meet K cs \<longleftrightarrow> successively (\<lambda>c d. ci_shardId c = ci_shardId d \<or> meets K c d) cs"

lemma shards_meet_run:
  assumes "\<forall>r\<in>set (c # run). ci_shardId r = s" "rest = [] \<or> ci_shardId (hd rest) \<noteq> s"
  shows "shards_meet K (c # run @ rest) \<longleftrightarrow> (rest = [] \<or> meets K (last (c # run)) (hd rest)) \<and> shards_meet K rest"
proof -
  have "shards_meet K (c # run)"
    unfolding shards_meet_def using assms(1) by (intro successively_if_sorted_wrt) (simp add: sorted_wrt_iff_nth_less nth_Cons')
  moreover have "ci_shardId (last (c # run)) = s" using assms(1) last_in_set [of "c # run"] by blast
  ultimately show ?thesis using assms(2)
    unfolding shards_meet_def append_Cons [symmetric] successively_append_iff by auto
qed

lemma shardVersionLoop_step:
  fixes vs c e cs
  defines "info \<equiv> (case map_of vs (ci_shardId c) of None \<Rightarrow> \<lparr>isStale = False, shardVersion = chunkVersion 0 0 e\<rparr> | Some i \<Rightarrow> i)"
    and "run \<equiv> takeWhile (\<lambda>d. ci_shardId d = ci_shardId c) cs" and "rest \<equiv> dropWhile (\<lambda>d. ci_shardId d = ci_shardId c) cs"
  assumes "sane c" "\<forall>d\<in>set cs. sane d" "isSet (fold larger (c # run) (shardVersion info))"
  shows "shardVersionLoop K e f l vs (c # cs) =
    (if l \<noteq> None \<and> woCompare K (the l) (ci_min c) \<noteq> 0 then Some (Inl ConflictingOperationInProgress)
     else shardVersionLoop K e (if f = None then Some (ci_min c) else f) (Some (ci_max (last (c # run))))
            (AList.update (ci_shardId c) (info\<lparr>shardVersion := fold larger (c # run) (shardVersion info)\<rparr>) vs) rest)"
proof -
  have shard: "getShardIdAt None c = Some (Inr (ci_shardId c))" using assms(4) by (simp add: sane_def)
  show ?thesis
    using assms(6) unfolding shardVersionLoop.simps(2) shard Let_def thenC_simps larger_def [symmetric] scanRun_eq [OF assms(5)]
      info_def [symmetric] run_def [symmetric] rest_def [symmetric] prod.case by (simp del: last.simps)
qed

lemma shardVersionLoop_result:
  fixes K :: "'k KeyOps" and l :: "'k option"
  assumes "\<forall>c\<in>set cs. sane c" "versions_ok ds vs"
  defines "good \<equiv> (l = None \<or> cs = [] \<or> woCompare K (the l) (ci_min (hd cs)) = 0) \<and> shards_meet K cs"
  shows "if good then \<exists>vs'. versions_ok (ds @ cs) vs' \<and> shardVersionLoop K e f l vs cs =
      Some (Inr (if cs \<noteq> [] \<and> f = None then Some (ci_min (hd cs)) else f, if cs = [] then l else Some (ci_max (last cs)), vs'))
    else shardVersionLoop K e f l vs cs = Some (Inl ConflictingOperationInProgress)"
  using assms(1,2) unfolding good_def
proof (induction cs arbitrary: ds f l vs rule: measure_induct_rule [of length])
  case (less cs)
  show ?case
  proof (cases cs)
    case Nil
    then show ?thesis using less.prems by (simp add: shards_meet_def)
  next
    case (Cons c cs1)
    let ?s = "ci_shardId c"
    define run rest where "run = takeWhile (\<lambda>d. ci_shardId d = ?s) cs1" and "rest = dropWhile (\<lambda>d. ci_shardId d = ?s) cs1"
    have cs: "cs = c # run @ rest" and on: "\<forall>r\<in>set (c # run). ci_shardId r = ?s" and off: "rest = [] \<or> ci_shardId (hd rest) \<noteq> ?s"
      using Cons hd_dropWhile [of "\<lambda>d. ci_shardId d = ?s" cs1] by (auto simp: run_def rest_def dest: set_takeWhileD)
    have sane: "sane c" "\<forall>d\<in>set cs1. sane d" "\<forall>d\<in>set rest. sane d" using less.prems(1) Cons by (auto simp: rest_def dest: set_dropWhileD)
    define info where "info = (case map_of vs ?s of None \<Rightarrow> \<lparr>isStale = False, shardVersion = chunkVersion 0 0 e\<rparr> | Some i \<Rightarrow> i)"
    have v0: "shardVersion info = (case map_of vs ?s of None \<Rightarrow> chunkVersion 0 0 e | Some i \<Rightarrow> shardVersion i)"
      by (simp add: info_def split: option.split)
    let ?v = "fold larger (c # run) (shardVersion info)"
    let ?vs = "AList.update ?s (info\<lparr>shardVersion := ?v\<rparr>) vs"
    have set: "isSet (ci_lastmod c)" using sane(1) by (simp add: sane_def)
    note ok = versions_ok_run(1) [OF less.prems(2) on set v0, of info] versions_ok_run(2) [OF less.prems(2) on set v0]
    note step = shardVersionLoop_step [OF sane(1,2) ok(2) [unfolded info_def run_def], of K f l, folded info_def run_def rest_def Cons]
    have rest: "length rest < length cs" using cs by simp
    have nil: "shards_meet K []" by (simp add: shards_meet_def)
    note IH = less.IH [OF rest sane(3) ok(1), of "Some (ci_max (last (c # run)))" "if f = None then Some (ci_min c) else f"]
    show ?thesis
    proof (cases "l = None \<or> woCompare K (the l) (ci_min c) = 0")
      case True
      with IH show ?thesis unfolding step [unfolded cs] cs shards_meet_run [OF on off, of K]
        by (cases "rest = []") (auto simp: meets_def nil simp del: fold_simps split: if_splits)
    qed (use step cs in auto)
  qed
qed

lemma constructShardVersionMap_result:
  assumes "\<forall>e\<in>set m. sane (snd e)" "m \<noteq> []"
  shows "if shards_meet K (map snd m) \<and> allMinKey K (ci_min (snd (hd m))) \<and> allMaxKey K (ci_max (snd (last m)))
    then \<exists>vs. versions_ok (map snd m) vs \<and> constructShardVersionMap K m v = Some (Inr vs)
    else constructShardVersionMap K m v = Some (Inl ConflictingOperationInProgress)"
proof -
  have sane: "\<forall>c\<in>set (map snd m). sane c" using assms(1) by simp
  have none: "versions_ok [] []" by (simp add: versions_ok_def)
  have some: "vs \<noteq> []" if "versions_ok (map snd m) vs" for vs using that assms(2) by (auto simp: versions_ok_def)
  from shardVersionLoop_result [OF sane none, of None K "epoch v" None] show ?thesis
    using assms(2) some by (auto simp: constructShardVersionMap_def hd_map last_map split: if_splits)
qed

subsection \<open>Every table\<close>

inductive rt_reachable :: "'k KeyOps \<Rightarrow> 'k RoutingTableHistory \<Rightarrow> bool" for K where
  new: "makeNew K n collator e chunks = Some (Inr rt) \<Longrightarrow> rt_reachable K rt"
| updated: "rt_reachable K rt \<Longrightarrow> makeUpdated K n rt changed = Some (Inr rt') \<Longrightarrow> rt_reachable K rt'"
| stale: "rt_reachable K rt \<Longrightarrow> rt_reachable K (setShardStale enabled shard rt)"
| refreshed: "rt_reachable K rt \<Longrightarrow> rt_reachable K (setAllShardsRefreshed enabled rt)"

definition rt_ok :: "'k KeyOps \<Rightarrow> 'k RoutingTableHistory \<Rightarrow> bool" where
  "rt_ok K rt \<longleftrightarrow> table_ok K (rt_collectionVersion rt, rt_chunkMap rt) \<and> rt_chunkMap rt \<noteq> [] \<and>
     shards_meet K (map snd (rt_chunkMap rt)) \<and> allMinKey K (ci_min (snd (hd (rt_chunkMap rt)))) \<and>
     allMaxKey K (ci_max (snd (last (rt_chunkMap rt)))) \<and> versions_ok (map snd (rt_chunkMap rt)) (rt_shardVersions rt)"

lemma table_sane: "table_ok K s \<Longrightarrow> \<forall>e\<in>set (snd s). sane (snd e)"
  using current_shard by (fastforce simp: table_ok_def sane_def chunk_ok_def)

lemma newRoutingTable_ok:
  assumes "table_ok K (v, m)" "m \<noteq> []" "newRoutingTable K n collator m v = Some (Inr rt)"
  shows "rt_ok K rt"
  using constructShardVersionMap_result [of m K v] table_sane [OF assms(1)] assms
  by (auto simp: newRoutingTable_def rt_ok_def thenC_Inr split: if_splits)

lemma makeUpdated_from:
  assumes "key_laws K" "table_ok K (rt_collectionVersion rt, rt_chunkMap rt)" "makeUpdated K n rt changed = Some (Inr rt')"
  shows "rt' = rt \<or> (\<exists>v m. table_ok K (v, m) \<and> m \<noteq> [] \<and> newRoutingTable K n (rt_hasDefaultCollator rt) m v = Some (Inr rt'))"
proof -
  from assms(3) obtain v m where vm: "applyChunks K changed (rt_collectionVersion rt, rt_chunkMap rt) = Some (Inr (v, m))"
    "(if version_eq v (rt_collectionVersion rt) then Some (Inr rt) else newRoutingTable K n (rt_hasDefaultCollator rt) m v) = Some (Inr rt')"
    by (auto simp: makeUpdated_def thenC_Inr)
  from applyChunks_ok [OF assms(1,2) vm(1)] vm(2) show ?thesis
    by (auto simp: version_eq_def split: if_splits)
qed

lemma newRoutingTable_number: "newRoutingTable K n collator m v = Some (Inr rt) \<Longrightarrow> rt_sequenceNumber rt = n"
  by (auto simp: newRoutingTable_def thenC_Inr)

lemma makeNew_ok:
  assumes "key_laws K" "makeNew K n collator e chunks = Some (Inr rt)"
  shows "rt_ok K rt"
proof -
  let ?rt = "\<lparr>rt_sequenceNumber = n, rt_hasDefaultCollator = collator, rt_chunkMap = [], rt_collectionVersion = chunkVersion 0 0 e,
    rt_shardVersions = []\<rparr>"
  have "makeUpdated K (n + 1) ?rt chunks = Some (Inr rt)" "rt_sequenceNumber rt \<noteq> n"
    using assms(2) by (auto simp: makeNew_def newRoutingTable_def constructShardVersionMap_def thenC_Inr split: if_splits)
  moreover have "table_ok K (rt_collectionVersion ?rt, rt_chunkMap ?rt)" by (simp add: table_ok_def)
  ultimately consider "rt = ?rt" | v m where "table_ok K (v, m)" "m \<noteq> []" "newRoutingTable K (n + 1) collator m v = Some (Inr rt)"
    using makeUpdated_from [OF assms(1), of ?rt "n + 1" chunks rt] by auto
  then show ?thesis
    by cases (use \<open>rt_sequenceNumber rt \<noteq> n\<close> newRoutingTable_ok in auto)
qed

lemma versions_ok_same:
  assumes "versions_ok cs vs" "map fst vs' = map fst vs" "\<And>s i. map_of vs' s = Some i \<Longrightarrow> \<exists>j. map_of vs s = Some j \<and> shardVersion j = shardVersion i"
  shows "versions_ok cs vs'"
  using assms(1,3) unfolding versions_ok_def set_map [symmetric] assms(2) by metis

lemma staleness_keeps:
  assumes "rt_ok K rt"
  shows "rt_ok K (setShardStale enabled shard rt)" "rt_ok K (setAllShardsRefreshed enabled rt)"
proof -
  have refresh: "map_of (map (\<lambda>(s, i). (s, i\<lparr>isStale := False\<rparr>)) vs) s = map_option (\<lambda>i. i\<lparr>isStale := False\<rparr>) (map_of vs s)" for vs s
    by (induction vs) auto
  have ok: "versions_ok (map snd (rt_chunkMap rt)) (rt_shardVersions rt)" using assms by (simp add: rt_ok_def)
  have "versions_ok (map snd (rt_chunkMap rt)) (map (\<lambda>(s, i). (s, i\<lparr>isStale := False\<rparr>)) (rt_shardVersions rt))"
    by (rule versions_ok_same [OF ok]) (auto simp: refresh)
  then show "rt_ok K (setAllShardsRefreshed enabled rt)" using assms by (simp add: rt_ok_def setAllShardsRefreshed_def)
  have "versions_ok (map snd (rt_chunkMap rt)) (AList.update shard (i\<lparr>isStale := True\<rparr>) (rt_shardVersions rt))"
    if i: "map_of (rt_shardVersions rt) shard = Some i" for i
    using i by (intro versions_ok_same [OF ok]) (auto simp: update_keys update_conv' split: if_splits dest!: map_of_SomeD intro: rev_image_eqI)
  then show "rt_ok K (setShardStale enabled shard rt)" using assms
    by (auto simp: rt_ok_def setShardStale_def split: option.split)
qed

lemma rt_reachable_ok:
  assumes "key_laws K" "rt_reachable K rt"
  shows "rt_ok K rt"
  using assms(2)
proof induction
  case (updated rt n changed rt')
  then have "table_ok K (rt_collectionVersion rt, rt_chunkMap rt)" by (simp add: rt_ok_def)
  from makeUpdated_from [OF assms(1) this updated.hyps(2)] newRoutingTable_ok updated.IH show ?case by blast
qed (auto intro: makeNew_ok [OF assms(1)] staleness_keeps)

subsection \<open>The invariant\<close>

text \<open>Keys of one byte, and a collection of two chunks on two shards.\<close>

definition byteKeys :: "8 word KeyOps" where
  "byteKeys = \<lparr>extractKeyString = (\<lambda>a. [a]), woCompare = (\<lambda>a b. if a < b then -1 else if a = b then 0 else 1), keyFields = (\<lambda>_. [''x'']),
     allMinKey = (\<lambda>a. a = 0), allMaxKey = (\<lambda>a. a = 0xFF), anyCollatable = (\<lambda>_. False)\<rparr>"

lemma byteKeys_laws: "key_laws byteKeys"
proof -
  have "(\<forall>k. k < a \<or> k = a) \<longleftrightarrow> a = 0xFF" for a :: "8 word"
  proof -
    have "(0xFF :: 8 word) = - 1" by simp
    then show ?thesis by (metis leD order_le_less word_n1_ge)
  qed
  moreover have "(\<forall>k. a < k \<or> a = k) \<longleftrightarrow> a = 0" for a :: "8 word" by (metis leD order_le_less word_zero_le)
  ultimately show ?thesis by (simp add: key_laws_def byteKeys_def)
qed

definition byteChunk :: "8 word \<Rightarrow> 8 word \<Rightarrow> 32 word \<Rightarrow> ShardId \<Rightarrow> 8 word ChunkType" where
  "byteChunk a b v s = \<lparr>ct_min = a, ct_max = b, ct_version = chunkVersion v 0 7, ct_shard = s, ct_history = [], ct_jumbo = False\<rparr>"

definition byteTable :: "8 word RoutingTableHistory" where
  "byteTable = \<lparr>rt_sequenceNumber = 1, rt_hasDefaultCollator = False,
     rt_chunkMap = [([100], \<lparr>ci_min = 0, ci_max = 100, ci_shardId = ''A'', ci_lastmod = chunkVersion 1 0 7, ci_history = [], ci_jumbo = False, ci_bytesWritten = 0\<rparr>),
       ([255], \<lparr>ci_min = 100, ci_max = 255, ci_shardId = ''B'', ci_lastmod = chunkVersion 2 0 7, ci_history = [], ci_jumbo = False, ci_bytesWritten = 0\<rparr>)],
     rt_collectionVersion = chunkVersion 2 0 7,
     rt_shardVersions = [(''A'', \<lparr>isStale = False, shardVersion = chunkVersion 1 0 7\<rparr>), (''B'', \<lparr>isStale = False, shardVersion = chunkVersion 2 0 7\<rparr>)]\<rparr>"

lemma makeNew_byteTable: "makeNew byteKeys 0 False 7 [byteChunk 0 100 1 ''A'', byteChunk 100 255 2 ''B''] = Some (Inr byteTable)"
  by code_simp

lemma byteTable_reachable: "rt_reachable byteKeys byteTable"
  by (rule rt_reachable.new [OF makeNew_byteTable])

text \<open>(C36) In every routing table built from catalog chunks and updated, made stale or refreshed any number of times: the chunks are in the order
  of their keys, each is a valid chunk of the collection's epoch under its largest key; the collection version is the largest version of a chunk and some
  chunk has it; the first chunk starts at the smallest key and the last ends at the largest; where the shard changes the chunks meet; and the
  shard versions are those of the shards that own a chunk, each the largest version of one of its chunks.
\<close>

theorem routing_table_invariant:
  assumes "key_laws K" "rt_reachable K rt"
  shows "table_ok K (rt_collectionVersion rt, rt_chunkMap rt) \<and> rt_chunkMap rt \<noteq> [] \<and>
    allMinKey K (ci_min (snd (hd (rt_chunkMap rt)))) \<and> allMaxKey K (ci_max (snd (last (rt_chunkMap rt)))) \<and>
    successively (\<lambda>c d. ci_shardId c = ci_shardId d \<or> woCompare K (ci_max c) (ci_min d) = 0) (map snd (rt_chunkMap rt)) \<and>
    getAllShardIds rt = ci_shardId ` snd ` set (rt_chunkMap rt) \<and>
    (\<forall>s i. map_of (rt_shardVersions rt) s = Some i \<longrightarrow>
       (\<exists>e\<in>set (rt_chunkMap rt). ci_shardId (snd e) = s \<and> ci_lastmod (snd e) = shardVersion i) \<and>
       (\<forall>e\<in>set (rt_chunkMap rt). ci_shardId (snd e) = s \<longrightarrow> combined (ci_lastmod (snd e)) \<le> combined (shardVersion i)))"
  using rt_reachable_ok [OF assms]
  by (simp add: rt_ok_def shards_meet_def meets_def versions_ok_def owns_version_def getAllShardIds_def image_image)

theorem routing_table_invariant_witness:
  "rt_reachable byteKeys byteTable \<and> combined (shardVersion (the (map_of (rt_shardVersions byteTable) ''B''))) = push_bit 32 2 \<and>
   getAllShardIds byteTable = ci_shardId ` snd ` set (rt_chunkMap byteTable)"
  using routing_table_invariant [OF byteKeys_laws byteTable_reachable] byteTable_reachable
  by (simp add: byteTable_def chunkVersion_def)

end
