(* ===== verification/RoutingTiles.thy ===== *)
theory RoutingTiles
  imports RoutingProps
begin

text \<open>
  Routing tables without a gap: every key is in exactly one chunk, operations are sent to the shards that own the chunks they need, and an
  update that covers a range of keys replaces the chunks of that range and no others.
\<close>

subsection \<open>Tables without a gap\<close>

definition tiled :: "'k KeyOps \<Rightarrow> 'k ChunkInfoMap \<Rightarrow> bool" where
  "tiled K m \<longleftrightarrow> successively (meets K) (map snd m)"

definition chunk_at :: "'k KeyOps \<Rightarrow> KeyString \<Rightarrow> KeyString \<times> 'k ChunkInfo \<Rightarrow> bool" where
  "chunk_at K k e \<longleftrightarrow> minKey K (snd e) \<le> k \<and> k < fst e"

definition proper :: "'k KeyOps \<Rightarrow> 'k ChunkInfoMap \<Rightarrow> bool" where
  "proper K m \<longleftrightarrow> (\<forall>e\<in>set m. fst e = maxKey K (snd e) \<and> minKey K (snd e) < maxKey K (snd e))"

lemma table_proper: "table_ok K s \<Longrightarrow> proper K (snd s)"
  by (auto simp: table_ok_def chunk_ok_def proper_def)

lemma tiled_append:
  assumes "key_laws K" "proper K (xs @ ys)"
  shows "tiled K (xs @ ys) \<longleftrightarrow> tiled K xs \<and> tiled K ys \<and> (xs = [] \<or> ys = [] \<or> fst (last xs) = minKey K (snd (hd ys)))"
proof -
  have "fst (last xs) = maxKey K (snd (last xs))" if "xs \<noteq> []" using that assms(2) by (auto simp: proper_def)
  then show ?thesis
    unfolding tiled_def map_append successively_append_iff
    by (cases "xs = []"; cases "ys = []") (auto simp: hd_map last_map meets_def key_lawsD(2) [OF assms(1)])
qed

lemma tiled_disjoint:
  assumes "key_laws K" "proper K m" "tiled K m"
  shows "sorted_wrt (\<lambda>e d. fst e \<le> minKey K (snd d)) m"
  using assms(2,3)
proof (induction m)
  case (Cons e m)
  have parts: "proper K m" "tiled K m" "m = [] \<or> fst e = minKey K (snd (hd m))"
    using Cons.prems tiled_append [OF assms(1), of "[e]" m] by (auto simp: proper_def)
  have "fst e \<le> minKey K (snd d)" if "d \<in> set m" for d
  proof (cases m)
    case (Cons h t)
    have "minKey K (snd h) < fst h" using parts(1) Cons by (simp add: proper_def)
    moreover have "d = h \<or> fst h \<le> minKey K (snd d)" using Cons.IH [OF parts(1,2)] that Cons by auto
    ultimately show ?thesis using parts(3) Cons by auto
  qed (use that in simp)
  then show ?case using Cons.IH parts by simp
qed simp

text \<open>The first chunk past a key is the chunk it is in, and the only one.\<close>

lemma tile_at:
  assumes "key_laws K" "proper K m" "sorted_wrt (<) (map fst m)" "tiled K m" "m \<noteq> []" "minKey K (snd (hd m)) \<le> k" "k < fst (last m)"
  shows "\<exists>e rest. dropWhile (\<lambda>e. fst e \<le> k) m = e # rest \<and> {d \<in> set m. chunk_at K k d} = {e}"
proof -
  let ?low = "takeWhile (\<lambda>e. fst e \<le> k) m" and ?high = "dropWhile (\<lambda>e. fst e \<le> k) m"
  have "?high \<noteq> []" using assms(5,7) by (auto simp: not_le intro!: bexI [of _ "last m"])
  then obtain e rest where high: "?high = e # rest" by (cases ?high) auto
  have e: "e \<in> set m" "k < fst e" using in_dropWhile_le [OF assms(3), of e k] high by simp_all
  have "tiled K (?low @ ?high)" "proper K (?low @ ?high)" using assms(2,4) by simp_all
  then have "?low = [] \<or> fst (last ?low) = minKey K (snd e)" unfolding tiled_append [OF assms(1) \<open>proper K (?low @ ?high)\<close>] by (simp add: high)
  note meet = this
  have here: "chunk_at K k e"
  proof (cases "?low = []")
    case True
    then have "m = e # rest" using high takeWhile_dropWhile_id [of "\<lambda>e. fst e \<le> k" m] by simp
    then show ?thesis using assms(6) e(2) by (simp add: chunk_at_def)
  next
    case False
    then have "fst (last ?low) \<le> k" using last_in_set set_takeWhileD by fastforce
    then show ?thesis using meet False e(2) by (simp add: chunk_at_def)
  qed
  have "sorted_wrt (\<lambda>e d. fst e \<le> minKey K (snd d)) (?low @ ?high)" using tiled_disjoint [OF assms(1,2,4)] by simp
  then have after: "fst e \<le> minKey K (snd d)" if "d \<in> set rest" for d
    using that unfolding sorted_wrt_append high by simp
  have "d = e" if d: "d \<in> set m" "chunk_at K k d" for d
  proof -
    have "d \<in> set ?high" using d in_dropWhile_le [OF assms(3)] by (simp add: chunk_at_def)
    then show ?thesis using after [of d] d(2) e(2) high by (auto simp: chunk_at_def)
  qed
  then have "{d \<in> set m. chunk_at K k d} = {e}" using here e(1) by blast
  with high show ?thesis by blast
qed

subsection \<open>Targeting\<close>

lemma rt_okD:
  assumes "rt_ok K rt"
  shows "table_ok K (rt_collectionVersion rt, rt_chunkMap rt)" "rt_chunkMap rt \<noteq> []" "proper K (rt_chunkMap rt)"
    "sorted_wrt (<) (map fst (rt_chunkMap rt))" "allMinKey K (ci_min (snd (hd (rt_chunkMap rt))))"
    "allMaxKey K (ci_max (snd (last (rt_chunkMap rt))))" "\<forall>e\<in>set (rt_chunkMap rt). sane (snd e)"
proof -
  show ok: "table_ok K (rt_collectionVersion rt, rt_chunkMap rt)" using assms unfolding rt_ok_def by blast
  show "rt_chunkMap rt \<noteq> []" "allMinKey K (ci_min (snd (hd (rt_chunkMap rt))))" "allMaxKey K (ci_max (snd (last (rt_chunkMap rt))))"
    using assms unfolding rt_ok_def by blast+
  show "proper K (rt_chunkMap rt)" "\<forall>e\<in>set (rt_chunkMap rt). sane (snd e)"
    using table_proper [OF ok] table_sane [OF ok] by simp_all
  show "sorted_wrt (<) (map fst (rt_chunkMap rt))" using ok by (simp add: table_ok_def)
qed

lemma sorted_last:
  assumes "sorted_wrt (<) (map fst m)" "e \<in> set m"
  shows "fst e \<le> (fst (last m) :: 'a :: linorder)"
  using assms by (induction m rule: rev_induct) (auto simp: sorted_wrt_append less_imp_le)

lemma rt_tile_at:
  assumes "key_laws K" "rt_ok K rt" "tiled K (rt_chunkMap rt)" "extractKeyString K key < fst (last (rt_chunkMap rt))"
  shows "\<exists>e rest. dropWhile (\<lambda>e. fst e \<le> extractKeyString K key) (rt_chunkMap rt) = e # rest \<and>
    {d \<in> set (rt_chunkMap rt). chunk_at K (extractKeyString K key) d} = {e}"
proof -
  have "minKey K (snd (hd (rt_chunkMap rt))) \<le> extractKeyString K key" using rt_okD(5) [OF assms(2)] unfolding key_ends(1) [OF assms(1)] ..
  from tile_at [OF assms(1) rt_okD(3,4) [OF assms(2)] assms(3) rt_okD(2) [OF assms(2)] this assms(4)] show ?thesis .
qed

lemma take_through:
  "take (length (xs @ ys) - length (tl ys)) (xs @ ys) = xs @ take 1 ys"
  by (cases ys) auto

lemma overlapping_inclusive:
  assumes "key_laws K" "rt_ok K rt" "tiled K (rt_chunkMap rt)" "woCompare K mn mx \<le> 0"
  shows "set (overlappingRanges K mn mx True rt) =
    {c \<in> snd ` set (rt_chunkMap rt). woCompare K mn (ci_max c) < 0 \<and> woCompare K (ci_min c) mx \<le> 0}"
proof -
  let ?m = "rt_chunkMap rt" and ?a = "extractKeyString K mn" and ?b = "extractKeyString K mx"
  note ok = rt_okD [OF assms(2)]
  have ab: "?a \<le> ?b" using assms(4) by (simp add: key_lawsD [OF assms(1)])
  let ?low = "dropWhile (\<lambda>e. fst e \<le> ?a) ?m" and ?high = "dropWhile (\<lambda>e. fst e \<le> ?b) ?m"
  have split: "?low = takeWhile (\<lambda>e. fst e \<le> ?b) ?low @ ?high" 
    by (subst dropWhile_le_trans [OF ab, of ?m, symmetric]) (rule takeWhile_dropWhile_id [symmetric])
  have eq: "overlappingRanges K mn mx True rt = map snd (takeWhile (\<lambda>e. fst e \<le> ?b) ?low @ take 1 ?high)"
    unfolding overlappingRanges_def Let_def upper_bound_of_def if_True
    by (subst (1 2) split, subst take_through) simp
  have "e \<in> set (takeWhile (\<lambda>e. fst e \<le> ?b) ?low @ take 1 ?high) \<longleftrightarrow> e \<in> set ?m \<and> ?a < fst e \<and> minKey K (snd e) \<le> ?b" for e
  proof -
    have "e \<in> set (takeWhile (\<lambda>e. fst e \<le> ?b) ?low) \<longleftrightarrow> e \<in> set ?m \<and> ?a < fst e \<and> fst e \<le> ?b"
      using sorted_parts(2) [OF ok(4)] by (auto simp: sorted_bounds ok(4))
    moreover have "e \<in> set (take 1 ?high) \<longleftrightarrow> e \<in> set ?m \<and> ?b < fst e \<and> minKey K (snd e) \<le> ?b"
    proof (cases "?b < fst (last ?m)")
      case True
      from rt_tile_at [OF assms(1-3) True] obtain d rest where d: "?high = d # rest" "{d \<in> set ?m. chunk_at K ?b d} = {d}" by blast
      have "set (take 1 ?high) = {d \<in> set ?m. chunk_at K ?b d}" unfolding d by simp
      then show ?thesis unfolding chunk_at_def by blast
    next
      case False
      then have "d \<notin> set ?m \<or> \<not> ?b < fst d" for d using sorted_last [OF ok(4), of d] by (meson less_le_trans)
      then show ?thesis using in_dropWhile_le [OF ok(4)] by (meson in_set_takeD)
    qed
    moreover have "minKey K (snd e) < fst e" if "e \<in> set ?m" using that ok(3) by (auto simp: proper_def)
    ultimately show ?thesis using ab by (auto dest: less_imp_le order_trans le_less_trans)
  qed
  then have "set (takeWhile (\<lambda>e. fst e \<le> ?b) ?low @ take 1 ?high) = {e \<in> set ?m. ?a < maxKey K (snd e) \<and> minKey K (snd e) \<le> ?b}"
    using ok(3) unfolding proper_def by (intro set_eqI) (simp del: take_Suc set_append, metis)
  then show ?thesis unfolding eq set_map key_lawsD [OF assms(1)] by blast
qed

lemma addShards_result:
  assumes "cm_clusterTime cm = None" "finite S" "card S = length (rt_shardVersions (cm_rt cm))" "ids \<subseteq> S"
    "\<forall>c\<in>set cs. sane c \<and> ci_shardId c \<in> S"
  shows "addShards cm cs ids = Some (Inr (ids \<union> ci_shardId ` set cs))"
  using assms(4,5)
proof (induction cs arbitrary: ids)
  case (Cons c cs)
  let ?ids = "insert (ci_shardId c) ids"
  have sub: "?ids \<subseteq> S" using Cons.prems by auto
  then have "?ids = S" if "card ?ids = card S" using card_subset_eq [OF assms(2)] that by blast
  moreover have "ids \<union> ci_shardId ` set (c # cs) \<subseteq> S" using Cons.prems by auto
  ultimately show ?case using Cons.IH [OF sub] Cons.prems(2) assms(1,3) by (auto simp: sane_def Let_def)
qed simp

lemma rt_shards:
  assumes "rt_ok K rt"
  shows "getAllShardIds rt = ci_shardId ` snd ` set (rt_chunkMap rt)" "card (getAllShardIds rt) = length (rt_shardVersions rt)"
proof -
  have ok: "versions_ok (map snd (rt_chunkMap rt)) (rt_shardVersions rt)" using assms by (simp add: rt_ok_def)
  then show "getAllShardIds rt = ci_shardId ` snd ` set (rt_chunkMap rt)" by (simp add: getAllShardIds_def versions_ok_def image_image)
  have "distinct (map fst (rt_shardVersions rt))" using ok by (simp add: versions_ok_def)
  from distinct_card [OF this] show "card (getAllShardIds rt) = length (rt_shardVersions rt)" by (simp add: getAllShardIds_def)
qed

text \<open>The chunks that overlap a closed range of keys.\<close>

definition overlapping :: "'k KeyOps \<Rightarrow> 'k RoutingTableHistory \<Rightarrow> 'k \<times> 'k \<Rightarrow> 'k ChunkInfo set" where
  "overlapping K rt r = {c \<in> snd ` set (rt_chunkMap rt). woCompare K (fst r) (ci_max c) < 0 \<and> woCompare K (ci_min c) (snd r) \<le> 0}"

lemma getShardIdsForRange_result:
  assumes "key_laws K" "rt_ok K rt" "tiled K (rt_chunkMap rt)" "cm = \<lparr>cm_rt = rt, cm_clusterTime = None\<rparr>" "woCompare K mn mx \<le> 0"
    "ids \<subseteq> getAllShardIds rt"
  shows "getShardIdsForRange K cm mn mx ids = Some (Inr (ids \<union> ci_shardId ` overlapping K rt (mn, mx)))"
proof (cases "allMinKey K mn \<and> allMaxKey K mx")
  case True
  have "overlapping K rt (mn, mx) = snd ` set (rt_chunkMap rt)"
  proof -
    have "extractKeyString K mn < maxKey K c" "minKey K c \<le> extractKeyString K mx" if "c \<in> snd ` set (rt_chunkMap rt)" for c
      using True rt_okD(3) [OF assms(2)] that unfolding key_ends [OF assms(1)] proper_def by (auto intro: le_less_trans)
    then show ?thesis unfolding overlapping_def key_lawsD [OF assms(1)] by auto
  qed
  then show ?thesis using True assms(4) rt_shards(1) [OF assms(2)] by (simp add: getShardIdsForRange_def)
next
  case False
  have over: "set (overlappingRanges K mn mx True rt) = overlapping K rt (mn, mx)"
    using overlapping_inclusive [OF assms(1-3,5)] by (simp add: overlapping_def)
  have "\<forall>c\<in>set (overlappingRanges K mn mx True rt). sane c \<and> ci_shardId c \<in> getAllShardIds rt"
    using rt_okD(7) [OF assms(2)] unfolding over rt_shards(1) [OF assms(2)] by (auto simp: overlapping_def)
  from addShards_result [OF _ _ _ assms(6) this, of cm] False assms(4) rt_shards(2) [OF assms(2)] over show ?thesis
    by (auto simp: getShardIdsForRange_def getAllShardIds_def)
qed

lemma addRanges_result:
  assumes "key_laws K" "rt_ok K rt" "tiled K (rt_chunkMap rt)" "cm = \<lparr>cm_rt = rt, cm_clusterTime = None\<rparr>"
    "\<forall>r\<in>set ranges. woCompare K (fst r) (snd r) \<le> 0" "ids \<subseteq> getAllShardIds rt"
  shows "addRanges K cm ranges ids = Some (Inr (ids \<union> ci_shardId ` (\<Union>r\<in>set ranges. overlapping K rt r)))"
  using assms(5,6)
proof (induction ranges arbitrary: ids)
  case (Cons r rs)
  obtain mn mx where r: "r = (mn, mx)" by (cases r)
  let ?ids = "ids \<union> ci_shardId ` overlapping K rt r"
  have all: "ci_shardId ` overlapping K rt r' \<subseteq> getAllShardIds rt" for r' unfolding rt_shards(1) [OF assms(2)] overlapping_def by blast
  have one: "getShardIdsForRange K cm mn mx ids = Some (Inr ?ids)"
    using getShardIdsForRange_result [OF assms(1-4), of mn mx ids] Cons.prems r by simp
  have sub: "?ids \<subseteq> getAllShardIds rt" using Cons.prems(2) all by blast
  have "?ids = getAllShardIds rt" if "card ?ids = length (rt_shardVersions rt)"
    using card_subset_eq [OF _ sub] that rt_shards(2) [OF assms(2)] by (simp add: getAllShardIds_def)
  then have "?ids \<union> ci_shardId ` (\<Union>r\<in>set rs. overlapping K rt r) = ?ids" if "card ?ids = length (rt_shardVersions rt)"
    using that all by blast
  with Cons.IH [OF _ sub] Cons.prems(1) one assms(4) r show ?case by (auto simp: image_Un Un_assoc)
qed simp

lemma point_target:
  assumes "key_laws K" "rt_ok K rt" "tiled K (rt_chunkMap rt)" "cm = \<lparr>cm_rt = rt, cm_clusterTime = None\<rparr>" "\<not> allMaxKey K key"
    "keyFields K key \<noteq> []" "simple \<or> \<not> anyCollatable K key"
  shows "\<exists>c. {d \<in> snd ` set (rt_chunkMap rt). containsKey K d key} = {c} \<and> findIntersectingChunk K cm key simple = Inr c \<and>
    (\<forall>s. keyBelongsToShard K cm key s = Some (Inr (s = ci_shardId c)))"
proof -
  let ?m = "rt_chunkMap rt" and ?k = "extractKeyString K key"
  note ok = rt_okD [OF assms(2)]
  obtain k where "?k < extractKeyString K k" using assms(5) unfolding key_ends(2) [OF assms(1)] by (auto simp: not_le)
  also have "\<dots> \<le> fst (last ?m)" using ok(2,3,6) unfolding key_ends(2) [OF assms(1)] proper_def by auto
  finally have below: "?k < fst (last ?m)" .
  from rt_tile_at [OF assms(1-3) below] obtain e rest where e: "dropWhile (\<lambda>e. fst e \<le> ?k) ?m = e # rest" "{d \<in> set ?m. chunk_at K ?k d} = {e}"
    by blast
  have same: "containsKey K (snd d) key \<longleftrightarrow> chunk_at K ?k d" if "d \<in> set ?m" for d
    using that ok(3) by (auto simp: containsKey_def chunk_at_def proper_def key_lawsD [OF assms(1)])
  have "{d \<in> snd ` set ?m. containsKey K d key} = snd ` {d \<in> set ?m. chunk_at K ?k d}" using same by blast
  moreover have "e \<in> set ?m" "chunk_at K ?k e" using e(2) by blast+
  moreover have "sane (snd e)" using ok(7) \<open>e \<in> set ?m\<close> by blast
  ultimately show ?thesis using same [of e] assms(4,6,7) e
    by (auto simp: findIntersectingChunk_def keyBelongsToShard_def upper_bound_of_def sane_def split: prod.split)
qed

subsection \<open>A change of a whole range\<close>

text \<open>Changed chunks that cover the keys from \<open>x\<close> up to \<open>y\<close>, in order, each valid and no older than the one before.\<close>

fun covers :: "'k KeyOps \<Rightarrow> ChunkVersion \<Rightarrow> KeyString \<Rightarrow> 'k ChunkType list \<Rightarrow> KeyString \<Rightarrow> bool" where
  "covers K v x [] y \<longleftrightarrow> x = y"
| "covers K v x (c # cs) y \<longleftrightarrow> extractKeyString K (ct_min c) = x \<and> validateChunk K c = Inr () \<and> epoch v = epoch (ct_version c) \<and>
     version_ge (ct_version c) v \<and> covers K (ct_version c) (extractKeyString K (ct_max c)) cs y"

text \<open>No chunk goes across the key.\<close>

definition boundary :: "'k KeyOps \<Rightarrow> 'k ChunkInfoMap \<Rightarrow> KeyString \<Rightarrow> bool" where
  "boundary K m x \<longleftrightarrow> (\<forall>e\<in>set m. fst e \<le> x \<or> x \<le> minKey K (snd e))"

lemma takeWhile_of_rest: "takeWhile P (dropWhile P m) = []"
  by (induction m) auto

lemma applyChunks_covers:
  assumes "key_laws K" "sorted_wrt (<) (map fst m)" "sorted_wrt (<) (map fst low)" "\<forall>e\<in>set low. fst e \<le> x" "covers K v x cs y"
  shows "\<exists>es. applyChunks K cs (v, low @ dropWhile (\<lambda>e. fst e \<le> x) m) =
      Some (Inr (if cs = [] then v else ct_version (last cs), low @ es @ dropWhile (\<lambda>e. fst e \<le> y) m)) \<and> list_all2 (entry_of K) cs es"
  using assms(3-5)
proof (induction cs arbitrary: v x low)
  case (Cons c cs)
  let ?cur = "low @ dropWhile (\<lambda>e. fst e \<le> x) m" and ?z = "extractKeyString K (ct_max c)"
  have c: "extractKeyString K (ct_min c) = x" "validateChunk K c = Inr ()" "epoch v = epoch (ct_version c)" "version_ge (ct_version c) v"
    "covers K (ct_version c) ?z cs y" using Cons.prems(3) by auto
  have xz: "x < ?z" using validateChunk_ok(1) [OF assms(1) c(2)] c(1) by simp
  have sorted: "sorted_wrt (<) (map fst ?cur)" using Cons.prems(1,2) sorted_parts(2) [OF assms(2)]
    by (auto simp: sorted_wrt_append in_dropWhile_le [OF assms(2)] intro: le_less_trans)
  have low: "takeWhile (\<lambda>e. fst e \<le> x) ?cur = low" using Cons.prems(2) by (subst takeWhile_append2) (auto simp: takeWhile_of_rest)
  have "\<forall>e\<in>set low. fst e \<le> ?z" using Cons.prems(2) xz by (blast intro: less_imp_le le_less_trans)
  then have high: "dropWhile (\<lambda>e. fst e \<le> ?z) ?cur = dropWhile (\<lambda>e. fst e \<le> ?z) m"
    using dropWhile_le_trans [of x ?z m] xz by (subst dropWhile_append2) auto
  obtain w where w: "applyChunk K c (v, ?cur) = Some (Inr (ct_version c, low @ (?z, w) # dropWhile (\<lambda>e. fst e \<le> ?z) m))" "entry_of K c (?z, w)"
    using applyChunk_eq [OF assms(1) sorted c(2,3,4)] unfolding c(1) low high by blast
  have "sorted_wrt (<) (map fst (low @ [(?z, w)]))" "\<forall>e\<in>set (low @ [(?z, w)]). fst e \<le> ?z"
    using Cons.prems(1,2) xz by (auto simp: sorted_wrt_append intro: le_less_trans less_imp_le)
  from Cons.IH [OF this c(5)] obtain es where es:
    "applyChunks K cs (ct_version c, (low @ [(?z, w)]) @ dropWhile (\<lambda>e. fst e \<le> ?z) m) =
      Some (Inr (if cs = [] then ct_version c else ct_version (last cs), (low @ [(?z, w)]) @ es @ dropWhile (\<lambda>e. fst e \<le> y) m))"
    "list_all2 (entry_of K) cs es" by blast
  then show ?case using w by (intro exI [of _ "(?z, w) # es"]) auto
qed simp

lemma covers_entries:
  assumes "key_laws K" "covers K v x cs y" "list_all2 (entry_of K) cs es"
  shows "proper K es \<and> tiled K es \<and> x \<le> y \<and> (\<forall>e\<in>set es. x \<le> minKey K (snd e) \<and> fst e \<le> y) \<and>
    (es \<noteq> [] \<longrightarrow> minKey K (snd (hd es)) = x \<and> fst (last es) = y)"
  using assms(2,3)
proof (induction cs arbitrary: v x es)
  case (Cons c cs)
  let ?z = "extractKeyString K (ct_max c)"
  obtain e es1 where es: "es = e # es1" "entry_of K c e" "list_all2 (entry_of K) cs es1" using Cons.prems(2) by (auto simp: list_all2_Cons1)
  have c: "extractKeyString K (ct_min c) = x" "validateChunk K c = Inr ()" "covers K (ct_version c) ?z cs y" using Cons.prems(1) by auto
  have xz: "x < ?z" using validateChunk_ok(1) [OF assms(1) c(2)] c(1) by simp
  have e: "minKey K (snd e) = x" "fst e = ?z" "maxKey K (snd e) = ?z" using es(2) c(1) by (auto simp: entry_of_def)
  note IH = Cons.IH [OF c(3) es(3)]
  have proper: "proper K ([e] @ es1)" using IH e xz by (simp add: proper_def)
  have "tiled K ([e] @ es1)" unfolding tiled_append [OF assms(1) proper] using IH e by (auto simp: tiled_def)
  moreover have "fst (last es) = y" using IH e es(1) c(3) es(3) by (cases cs) (auto simp: list_all2_Cons1)
  ultimately show ?case using IH proper e xz es(1) by (auto intro: order_trans less_imp_le)
qed (simp add: proper_def tiled_def)

text \<open>Around a boundary the table can be cut.\<close>

lemma cut_at:
  assumes "key_laws K" "rt_ok K rt" "tiled K (rt_chunkMap rt)" "boundary K (rt_chunkMap rt) x"
  defines "low \<equiv> takeWhile (\<lambda>e. fst e \<le> x) (rt_chunkMap rt)" and "high \<equiv> dropWhile (\<lambda>e. fst e \<le> x) (rt_chunkMap rt)"
  shows "tiled K low" "tiled K high" "\<forall>e\<in>set high. x \<le> minKey K (snd e)" "low \<noteq> [] \<Longrightarrow> high \<noteq> [] \<Longrightarrow> fst (last low) = x \<and> minKey K (snd (hd high)) = x"
proof -
  note ok = rt_okD [OF assms(2)]
  have split: "rt_chunkMap rt = low @ high" by (simp add: low_def high_def)
  have proper: "proper K (low @ high)" using ok(3) by (simp add: split)
  have parts: "tiled K low" "tiled K high" "low = [] \<or> high = [] \<or> fst (last low) = minKey K (snd (hd high))"
    using assms(3) unfolding split tiled_append [OF assms(1) proper] by blast+
  then show "tiled K low" "tiled K high" by blast+
  have high: "x \<le> minKey K (snd e)" if "e \<in> set high" for e
    using that assms(4) unfolding high_def in_dropWhile_le [OF ok(4)] boundary_def by auto
  then show "\<forall>e\<in>set high. x \<le> minKey K (snd e)" by blast
  assume ne: "low \<noteq> []" "high \<noteq> []"
  have "fst (last low) \<le> x" using ne(1) last_in_set [of low] unfolding low_def in_takeWhile_le [OF ok(4)] by blast
  moreover have "x \<le> minKey K (snd (hd high))" using high ne(2) by simp
  ultimately show "fst (last low) = x \<and> minKey K (snd (hd high)) = x" using parts(3) ne by auto
qed

lemma covers_within:
  assumes "key_laws K" "rt_ok K rt" "covers K v x cs y" "list_all2 (entry_of K) cs es" "cs \<noteq> []"
  shows "es \<noteq> []" "minKey K (snd (hd es)) = x" "fst (last es) = y" "maxKey K (snd (last es)) = y" "x < y"
    "minKey K (snd (hd (rt_chunkMap rt))) \<le> x" "y \<le> fst (last (rt_chunkMap rt))"
proof -
  note es = covers_entries [OF assms(1,3,4)] and ok = rt_okD [OF assms(2)]
  show ne: "es \<noteq> []" using assms(4,5) by auto
  with es show hd: "minKey K (snd (hd es)) = x" and last: "fst (last es) = y" by blast+
  have "minKey K (snd (hd es)) < fst (hd es)" using es ne by (auto simp: proper_def)
  also have "fst (hd es) \<le> y" using es ne by auto
  finally show "x < y" using hd by simp
  show "minKey K (snd (hd (rt_chunkMap rt))) \<le> x" using ok(5) unfolding key_ends(1) [OF assms(1)] hd [symmetric] ..
  have "last es \<in> set es" using ne by simp
  then show lastmax: "maxKey K (snd (last es)) = y" using last es unfolding proper_def by metis
  have "last (rt_chunkMap rt) \<in> set (rt_chunkMap rt)" using ok(2) by simp
  then have "fst (last (rt_chunkMap rt)) = maxKey K (snd (last (rt_chunkMap rt)))" using ok(3) unfolding proper_def by blast
  then show "y \<le> fst (last (rt_chunkMap rt))" using ok(6) unfolding key_ends(2) [OF assms(1)] lastmax [symmetric] by simp
qed

lemma covers_not_outside:
  assumes "key_laws K" "rt_ok K rt" "tiled K (rt_chunkMap rt)" "boundary K (rt_chunkMap rt) y"
    "minKey K (snd (hd (rt_chunkMap rt))) \<le> x" "x < y" "y \<le> fst (last (rt_chunkMap rt))"
  shows "dropWhile (\<lambda>e. fst e \<le> x) (rt_chunkMap rt) \<noteq> []" "takeWhile (\<lambda>e. fst e \<le> y) (rt_chunkMap rt) \<noteq> []"
proof -
  let ?m = "rt_chunkMap rt"
  note ok = rt_okD [OF assms(2)]
  have "last ?m \<in> set ?m" "\<not> fst (last ?m) \<le> x" using assms(6,7) ok(2) by auto
  then show "dropWhile (\<lambda>e. fst e \<le> x) ?m \<noteq> []" unfolding dropWhile_eq_Nil_conv by blast
  show "takeWhile (\<lambda>e. fst e \<le> y) ?m \<noteq> []"
  proof
    assume "takeWhile (\<lambda>e. fst e \<le> y) ?m = []"
    then have "dropWhile (\<lambda>e. fst e \<le> y) ?m = ?m" using takeWhile_dropWhile_id [of "\<lambda>e. fst e \<le> y" ?m] by simp
    then have "y \<le> minKey K (snd (hd ?m))" using cut_at(3) [OF assms(1-4)] ok(2) by simp
    with assms(5,6) show False by simp
  qed
qed

lemma covers_tiled:
  assumes "key_laws K" "rt_ok K rt" "tiled K (rt_chunkMap rt)" "boundary K (rt_chunkMap rt) x" "boundary K (rt_chunkMap rt) y"
    "covers K v x cs y" "list_all2 (entry_of K) cs es" "cs \<noteq> []"
  shows "tiled K (takeWhile (\<lambda>e. fst e \<le> x) (rt_chunkMap rt) @ es @ dropWhile (\<lambda>e. fst e \<le> y) (rt_chunkMap rt))"
proof -
  let ?low = "takeWhile (\<lambda>e. fst e \<le> x) (rt_chunkMap rt)" and ?high = "dropWhile (\<lambda>e. fst e \<le> y) (rt_chunkMap rt)"
  note cutx = cut_at [OF assms(1-4)] and cuty = cut_at [OF assms(1-3,5)] and es = covers_within [OF assms(1,2,6-8)]
  note outside = covers_not_outside [OF assms(1-3,5) es(6,5,7)]
  have entries: "proper K es" "tiled K es" using covers_entries [OF assms(1,6,7)] by blast+
  have proper: "proper K ?low" "proper K (es @ ?high)" "proper K (?low @ es @ ?high)"
    using rt_okD(3) [OF assms(2)] entries(1) unfolding proper_def by (auto dest: set_takeWhileD set_dropWhileD)
  have "tiled K (es @ ?high)"
    unfolding tiled_append [OF assms(1) proper(2)] using entries(2) cuty(2) cuty(4) [OF outside(2)] es(3) by metis
  then show ?thesis
    unfolding tiled_append [OF assms(1) proper(3)] using cutx(1) cutx(4) [OF _ outside(1)] es(1,2) by (metis hd_append2)
qed

lemma covers_ends:
  assumes "key_laws K" "rt_ok K rt" "tiled K (rt_chunkMap rt)" "boundary K (rt_chunkMap rt) x" "boundary K (rt_chunkMap rt) y"
    "covers K v x cs y" "list_all2 (entry_of K) cs es" "cs \<noteq> []"
  defines "m' \<equiv> takeWhile (\<lambda>e. fst e \<le> x) (rt_chunkMap rt) @ es @ dropWhile (\<lambda>e. fst e \<le> y) (rt_chunkMap rt)"
  shows "allMinKey K (ci_min (snd (hd m')))" "allMaxKey K (ci_max (snd (last m')))"
proof -
  let ?m = "rt_chunkMap rt"
  let ?low = "takeWhile (\<lambda>e. fst e \<le> x) ?m" and ?high = "dropWhile (\<lambda>e. fst e \<le> y) ?m"
  note ok = rt_okD [OF assms(2)] and es = covers_within [OF assms(1,2,6-8)]
  show "allMinKey K (ci_min (snd (hd m')))"
  proof (cases "?low = []")
    case True
    then have "dropWhile (\<lambda>e. fst e \<le> x) ?m = ?m" using takeWhile_dropWhile_id [of "\<lambda>e. fst e \<le> x" ?m] by simp
    then have "x \<le> minKey K (snd (hd ?m))" using cut_at(3) [OF assms(1-4)] ok(2) by simp
    then have "x = minKey K (snd (hd ?m))" using es(6) by simp
    moreover have "hd m' = hd es" using True es(1) by (simp add: m'_def)
    ultimately show ?thesis using ok(5) es(2) unfolding key_ends(1) [OF assms(1)] by simp
  next
    case False
    then have "hd m' = hd ?m" unfolding m'_def by (metis hd_append2 takeWhile_dropWhile_id)
    then show ?thesis using ok(5) by simp
  qed
  show "allMaxKey K (ci_max (snd (last m')))"
  proof (cases "?high = []")
    case True
    then have "fst (last ?m) \<le> y" using ok(2) last_in_set unfolding dropWhile_eq_Nil_conv by blast
    moreover have "fst (last ?m) = maxKey K (snd (last ?m))" using ok(3) last_in_set [OF ok(2)] unfolding proper_def by blast
    ultimately have "maxKey K (snd (last ?m)) = y" using es(7) by simp
    moreover have "last m' = last es" using True es(1) by (simp add: m'_def)
    ultimately show ?thesis using ok(6) es(4) unfolding key_ends(2) [OF assms(1)] by simp
  next
    case False
    have "last (takeWhile (\<lambda>e. fst e \<le> y) ?m @ ?high) = last ?high" using False by (rule last_appendR)
    moreover have "last m' = last ?high" using False by (simp add: m'_def)
    ultimately have "last m' = last ?m" by simp
    then show ?thesis using ok(6) by simp
  qed
qed

lemma covers_owner:
  assumes "key_laws K" "rt_ok K rt" "tiled K (rt_chunkMap rt)" "boundary K (rt_chunkMap rt) x" "boundary K (rt_chunkMap rt) y"
    "covers K v x cs y" "list_all2 (entry_of K) cs es"
  defines "m' \<equiv> takeWhile (\<lambda>e. fst e \<le> x) (rt_chunkMap rt) @ es @ dropWhile (\<lambda>e. fst e \<le> y) (rt_chunkMap rt)"
  shows "e \<in> set m' \<and> chunk_at K k e \<longleftrightarrow> chunk_at K k e \<and> (if x \<le> k \<and> k < y then e \<in> set es else e \<in> set (rt_chunkMap rt))"
proof (cases "chunk_at K k e")
  case at: True
  note sorted = rt_okD(4) [OF assms(2)] and es = covers_entries [OF assms(1,6,7)]
  have low: "k < x" if "fst e \<le> x" using that at by (auto simp: chunk_at_def)
  have high: "y \<le> k" if "e \<in> set (dropWhile (\<lambda>e. fst e \<le> y) (rt_chunkMap rt))"
    using that cut_at(3) [OF assms(1-3,5)] at by (auto simp: chunk_at_def)
  have mid: "x \<le> k \<and> k < y" if "e \<in> set es" using that es at by (auto simp: chunk_at_def)
  have left: "fst e \<le> x" if "e \<in> set (rt_chunkMap rt)" "k < x" using that assms(4) at by (auto simp: boundary_def chunk_at_def)
  have right: "y < fst e" if "y \<le> k" using that at by (auto simp: chunk_at_def)
  have xy: "x \<le> y" using es by blast
  have mem: "e \<in> set m' \<longleftrightarrow> e \<in> set (rt_chunkMap rt) \<and> fst e \<le> x \<or> e \<in> set es \<or> e \<in> set (dropWhile (\<lambda>e. fst e \<le> y) (rt_chunkMap rt))"
    unfolding m'_def set_append Un_iff in_takeWhile_le [OF sorted] ..
  consider "k < x" "\<not> x \<le> k" "\<not> y \<le> k" | "x \<le> k" "k < y" "\<not> k < x" "\<not> y \<le> k" | "y \<le> k" "\<not> k < y" "\<not> k < x"
    using xy by (meson leI less_le_trans not_le)
  then show ?thesis
  proof cases
    case 1
    then show ?thesis using at mid high left unfolding mem by auto
  next
    case 2
    then show ?thesis using at low high unfolding mem by auto
  next
    case 3
    then show ?thesis using at low mid right unfolding mem in_dropWhile_le [OF sorted] by auto
  qed
qed simp

lemma makeUpdated_covers:
  assumes "key_laws K" "rt_ok K rt" "tiled K (rt_chunkMap rt)" "changed \<noteq> []" "boundary K (rt_chunkMap rt) x" "boundary K (rt_chunkMap rt) y"
    "covers K (rt_collectionVersion rt) x changed y" "version_gt (ct_version (last changed)) (rt_collectionVersion rt)"
  shows "\<exists>rt' es. makeUpdated K n rt changed = Some (Inr rt') \<and> list_all2 (entry_of K) changed es \<and>
    rt_chunkMap rt' = takeWhile (\<lambda>e. fst e \<le> x) (rt_chunkMap rt) @ es @ dropWhile (\<lambda>e. fst e \<le> y) (rt_chunkMap rt) \<and>
    tiled K (rt_chunkMap rt') \<and> rt_collectionVersion rt' = ct_version (last changed)"
proof -
  let ?m = "rt_chunkMap rt" and ?v = "ct_version (last changed)"
  let ?low = "takeWhile (\<lambda>e. fst e \<le> x) ?m"
  note ok = rt_okD [OF assms(2)]
  have low: "sorted_wrt (<) (map fst ?low)" "\<forall>e\<in>set ?low. fst e \<le> x" using sorted_parts(1) [OF ok(4)] by (auto dest: set_takeWhileD)
  obtain es where es: "applyChunks K changed (rt_collectionVersion rt, ?m) = Some (Inr (?v, ?low @ es @ dropWhile (\<lambda>e. fst e \<le> y) ?m))"
    "list_all2 (entry_of K) changed es" using applyChunks_covers [OF assms(1) ok(4) low assms(7)] assms(4) by auto
  define m' where "m' = ?low @ es @ dropWhile (\<lambda>e. fst e \<le> y) ?m"
  have ne: "m' \<noteq> []" using es(2) assms(4) by (auto simp: m'_def)
  have table: "table_ok K (?v, m')" using applyChunks_ok [OF assms(1) ok(1) es(1)] by (simp add: m'_def)
  have tiled: "tiled K m'" using covers_tiled [OF assms(1-3,5-7) es(2) assms(4)] by (simp add: m'_def)
  then have "shards_meet K (map snd m')" unfolding tiled_def shards_meet_def by (rule successively_mono) auto
  then obtain vs where "constructShardVersionMap K m' ?v = Some (Inr vs)"
    using constructShardVersionMap_result [OF _ ne, of K ?v] table_sane [OF table] covers_ends [OF assms(1-3,5-7) es(2) assms(4)]
    by (auto simp: m'_def [symmetric])
  then show ?thesis using es assms(8) tiled unfolding makeUpdated_def
    by (intro exI [of _ "\<lparr>rt_sequenceNumber = n, rt_hasDefaultCollator = rt_hasDefaultCollator rt, rt_chunkMap = m', rt_collectionVersion = ?v,
      rt_shardVersions = vs\<rparr>"] exI [of _ es]) (auto simp: newRoutingTable_def version_gt_def version_eq_def m'_def)
qed

lemma query_ranges:
  assumes "addRanges K cm ranges {} = Some (Inr T)" "cm = \<lparr>cm_rt = rt, cm_clusterTime = None\<rparr>" "rt_chunkMap rt = e # m"
    "getShardIdAt None (snd e) = Some (Inr (ci_shardId (snd e)))"
  shows "getShardIdsForQuery K cm None simple ranges {} = Some (Inr (if T = {} then {ci_shardId (snd (hd (rt_chunkMap rt)))} else T))"
  unfolding getShardIdsForQuery_def assms(1) Let_def option.case thenC_simps using assms(2-4) by (cases e) simp

text \<open>
  A gap between two chunks of one shard is not found when the table is made, and whether a key in it belongs to a shard ends the process. The list
  of chunks may not be empty.
\<close>

lemma gap_on_one_shard:
  "case makeNew byteKeys 0 False 7 [byteChunk 0 100 1 ''A'', byteChunk 150 255 2 ''A''] of
     Some (Inr rt) \<Rightarrow> \<not> tiled byteKeys (rt_chunkMap rt) \<and> keyBelongsToShard byteKeys \<lparr>cm_rt = rt, cm_clusterTime = None\<rparr> 120 ''A'' = None
   | _ \<Rightarrow> False"
  by code_simp

lemma gap_between_shards:
  "makeNew byteKeys 0 False 7 [byteChunk 0 100 1 ''A'', byteChunk 150 255 2 ''B''] = Some (Inl ConflictingOperationInProgress)"
  by code_simp

lemma makeNew_empty: "makeNew K n collator e [] = None"
  by (simp add: makeNew_def makeUpdated_def newRoutingTable_def constructShardVersionMap_def version_eq_def)

subsection \<open>What the table promises\<close>

text \<open>(C37) In a table without a gap every key below the largest is in exactly one chunk. That chunk is the one an operation on the key is
  targeted to, and the key belongs to the shard that owns it and to no other. A query with given bounds is sent to exactly the shards that own
  a chunk which overlaps one of the bounds, and to the shard of the first chunk when there is none.
\<close>

theorem routing_targets_owners:
  assumes "key_laws K" "rt_reachable K rt" "tiled K (rt_chunkMap rt)" "cm = \<lparr>cm_rt = rt, cm_clusterTime = None\<rparr>"
  shows "(\<forall>key simple. \<not> allMaxKey K key \<and> keyFields K key \<noteq> [] \<and> (simple \<or> \<not> anyCollatable K key) \<longrightarrow>
      (\<exists>c. {d \<in> snd ` set (rt_chunkMap rt). containsKey K d key} = {c} \<and> findIntersectingChunk K cm key simple = Inr c \<and>
        (\<forall>s. keyBelongsToShard K cm key s = Some (Inr (s = ci_shardId c))))) \<and>
    (\<forall>ranges simple. (\<forall>r\<in>set ranges. woCompare K (fst r) (snd r) \<le> 0) \<longrightarrow>
      getShardIdsForQuery K cm None simple ranges {} =
        Some (Inr (let T = {ci_shardId c | c r. r \<in> set ranges \<and> c \<in> snd ` set (rt_chunkMap rt) \<and>
                             woCompare K (fst r) (ci_max c) < 0 \<and> woCompare K (ci_min c) (snd r) \<le> 0}
                   in if T = {} then {ci_shardId (snd (hd (rt_chunkMap rt)))} else T)))"
proof (intro conjI allI impI)
  note ok = rt_reachable_ok [OF assms(1,2)]
  show "\<exists>c. {d \<in> snd ` set (rt_chunkMap rt). containsKey K d key} = {c} \<and> findIntersectingChunk K cm key simple = Inr c \<and>
      (\<forall>s. keyBelongsToShard K cm key s = Some (Inr (s = ci_shardId c)))"
    if "\<not> allMaxKey K key \<and> keyFields K key \<noteq> [] \<and> (simple \<or> \<not> anyCollatable K key)" for key simple
    using point_target [OF assms(1) ok assms(3,4)] that by blast
  fix ranges simple
  assume ranges: "\<forall>r\<in>set ranges. woCompare K (fst r) (snd r) \<le> 0"
  let ?T = "{ci_shardId c | c r. r \<in> set ranges \<and> c \<in> snd ` set (rt_chunkMap rt) \<and>
    woCompare K (fst r) (ci_max c) < 0 \<and> woCompare K (ci_min c) (snd r) \<le> 0}"
  have "ci_shardId ` (\<Union>r\<in>set ranges. overlapping K rt r) = ?T" unfolding overlapping_def by blast
  then have T: "addRanges K cm ranges {} = Some (Inr ?T)" using addRanges_result [OF assms(1) ok assms(3,4) ranges, of "{}"] by simp
  obtain e m where m: "rt_chunkMap rt = e # m" using rt_okD(2) [OF ok] by (cases "rt_chunkMap rt") auto
  have "getShardIdAt None (snd e) = Some (Inr (ci_shardId (snd e)))" using rt_okD(7) [OF ok] by (simp add: m sane_def)
  then show "getShardIdsForQuery K cm None simple ranges {} =
    Some (Inr (let T = ?T in if T = {} then {ci_shardId (snd (hd (rt_chunkMap rt)))} else T))"
    unfolding Let_def by (rule query_ranges [OF T assms(4) m])
qed

lemma byteTable_tiled: "tiled byteKeys (rt_chunkMap byteTable)"
  by code_simp

theorem routing_targets_owners_witness:
  "keyBelongsToShard byteKeys \<lparr>cm_rt = byteTable, cm_clusterTime = None\<rparr> 170 ''B'' = Some (Inr True) \<and>
   (\<exists>c. {d \<in> snd ` set (rt_chunkMap byteTable). containsKey byteKeys d 170} = {c} \<and>
     findIntersectingChunk byteKeys \<lparr>cm_rt = byteTable, cm_clusterTime = None\<rparr> 170 True = Inr c)"
proof -
  have "\<not> allMaxKey byteKeys 170" "keyFields byteKeys 170 \<noteq> []" by (simp_all add: byteKeys_def)
  then have "\<exists>c. {d \<in> snd ` set (rt_chunkMap byteTable). containsKey byteKeys d 170} = {c} \<and>
     findIntersectingChunk byteKeys \<lparr>cm_rt = byteTable, cm_clusterTime = None\<rparr> 170 True = Inr c"
    using routing_targets_owners [OF byteKeys_laws byteTable_reachable byteTable_tiled refl] by blast
  moreover have "keyBelongsToShard byteKeys \<lparr>cm_rt = byteTable, cm_clusterTime = None\<rparr> 170 ''B'' = Some (Inr True)" by code_simp
  ultimately show ?thesis by blast
qed

text \<open>(C35) A change of chunks that covers the keys from \<open>x\<close> to \<open>y\<close>, both at the edge of chunks of a table without a gap, each changed chunk valid, in
  order and of increasing version (as a split, a merge or a migration leaves them), is applied whole: the update succeeds, the table has again no gap, the
  collection version is that of the last change, every key of the range is in a changed chunk and every other key is in the chunk it was in.
\<close>

theorem routing_update_exact:
  assumes "key_laws K" "rt_reachable K rt" "tiled K (rt_chunkMap rt)" "changed \<noteq> []" "boundary K (rt_chunkMap rt) x" "boundary K (rt_chunkMap rt) y"
    "covers K (rt_collectionVersion rt) x changed y" "version_gt (ct_version (last changed)) (rt_collectionVersion rt)"
  shows "\<exists>rt' es. makeUpdated K n rt changed = Some (Inr rt') \<and> list_all2 (entry_of K) changed es \<and>
    tiled K (rt_chunkMap rt') \<and> rt_collectionVersion rt' = ct_version (last changed) \<and>
    (\<forall>k. {e \<in> set (rt_chunkMap rt'). chunk_at K k e} =
      {e \<in> (if x \<le> k \<and> k < y then set es else set (rt_chunkMap rt)). chunk_at K k e})"
proof -
  note ok = rt_reachable_ok [OF assms(1,2)]
  from makeUpdated_covers [OF assms(1) ok assms(3-8)] obtain rt' es where up: "makeUpdated K n rt changed = Some (Inr rt')"
    "list_all2 (entry_of K) changed es" "rt_chunkMap rt' = takeWhile (\<lambda>e. fst e \<le> x) (rt_chunkMap rt) @ es @ dropWhile (\<lambda>e. fst e \<le> y) (rt_chunkMap rt)"
    "tiled K (rt_chunkMap rt')" "rt_collectionVersion rt' = ct_version (last changed)" by blast
  have "{e \<in> set (rt_chunkMap rt'). chunk_at K k e} = {e \<in> (if x \<le> k \<and> k < y then set es else set (rt_chunkMap rt)). chunk_at K k e}" for k
    unfolding up(3) set_eq_iff mem_Collect_eq covers_owner [OF assms(1) ok assms(3,5,6,7) up(2)] by auto
  with up show ?thesis by blast
qed

text \<open>A split of the second chunk.\<close>

theorem routing_update_exact_witness:
  "\<exists>rt' es. makeUpdated byteKeys 2 byteTable [byteChunk 100 170 3 ''B'', byteChunk 170 255 4 ''C''] = Some (Inr rt') \<and>
    tiled byteKeys (rt_chunkMap rt') \<and> {e \<in> set (rt_chunkMap rt'). chunk_at byteKeys [170] e} = {e \<in> set es. chunk_at byteKeys [170] e}"
proof -
  let ?changed = "[byteChunk 100 170 3 ''B'', byteChunk 170 255 4 ''C'']"
  have covers: "covers byteKeys (rt_collectionVersion byteTable) [100] ?changed [255]" by code_simp
  have edges: "boundary byteKeys (rt_chunkMap byteTable) [100]" "boundary byteKeys (rt_chunkMap byteTable) [255]" by code_simp+
  have newer: "version_gt (ct_version (last ?changed)) (rt_collectionVersion byteTable)" by code_simp
  obtain rt' es where "makeUpdated byteKeys 2 byteTable ?changed = Some (Inr rt')"
    "tiled byteKeys (rt_chunkMap rt')" "\<forall>k. {e \<in> set (rt_chunkMap rt'). chunk_at byteKeys k e} =
      {e \<in> (if [100] \<le> k \<and> k < [255] then set es else set (rt_chunkMap byteTable)). chunk_at byteKeys k e}"
    using routing_update_exact [OF byteKeys_laws byteTable_reachable byteTable_tiled list.distinct(2) edges covers newer] by blast
  moreover have "[100] \<le> [170 :: 8 word]" "[170] < [255 :: 8 word]" by simp_all
  ultimately show ?thesis by (intro exI [of _ rt'] exI [of _ es]) simp
qed

end
