(* ===== verification/BalancerPolicy.thy ===== *)
theory BalancerPolicy
  imports RoutingTable "HOL-Library.Char_ord"
begin

text \<open>
  The policy of the balancer, \<^verbatim>\<open>db/s/balancer/balancer_policy.cpp\<close>: how the chunks of a collection are spread over the shards and
  zones, and which of them should be moved. \<^verbatim>\<open>cluster_statistics.cpp\<close> has what is known of a shard. Documents are the parameter \<open>KeyOps\<close>
  of the routing table. A failed assertion is \<open>None\<close>. The random migrations of a fail point for tests are left out.
\<close>

subsection \<open>Shards and migrations\<close>

record ShardStatistics =
  st_shardId :: ShardId
  st_maxSizeMB :: "64 word"
  st_currSizeMB :: "64 word"
  st_isDraining :: bool
  st_shardTags :: "string set"

definition isSizeMaxed :: "ShardStatistics \<Rightarrow> bool" where
  "isSizeMaxed st = (if st_maxSizeMB st = 0 \<or> st_currSizeMB st = 0 then False else st_currSizeMB st \<ge> st_maxSizeMB st)"

datatype ForceJumbo = kDoNotForce | kForceManual | kForceBalancer

datatype MigrationReason = drain | zoneViolation | chunksImbalance

record 'k MigrateInfo =
  mi_to :: ShardId
  mi_from :: ShardId
  mi_minKey :: 'k
  mi_maxKey :: 'k
  mi_version :: ChunkVersion
  mi_forceJumbo :: ForceJumbo
  mi_reason :: MigrationReason

definition newMigrateInfo :: "'k KeyOps \<Rightarrow> ShardId \<Rightarrow> 'k ChunkType \<Rightarrow> ForceJumbo \<Rightarrow> MigrationReason \<Rightarrow> 'k MigrateInfo option" where
  "newMigrateInfo K to c force reason =
     do {
       invariant (validateChunk K c = Inr ());
       invariant (to \<noteq> []);
       Some \<lparr>mi_to = to, mi_from = ct_shard c, mi_minKey = ct_min c, mi_maxKey = ct_max c, mi_version = ct_version c,
             mi_forceJumbo = force, mi_reason = reason\<rparr>
     }"

subsection \<open>Distribution of the chunks\<close>

text \<open>Zones are kept in a map from their largest key; it is the list of its entries in order. The set of tags is in order too.\<close>

record 'k ZoneRange =
  zr_min :: 'k
  zr_max :: 'k
  zr_zone :: string

record 'k DistributionStatus =
  ds_shardChunks :: "(ShardId \<times> 'k ChunkType list) list"
  ds_zoneRanges :: "'k ZoneRange list"
  ds_allTags :: "string list"

definition newDistributionStatus :: "(ShardId \<times> 'k ChunkType list) list \<Rightarrow> 'k DistributionStatus" where
  "newDistributionStatus chunks = \<lparr>ds_shardChunks = chunks, ds_zoneRanges = [], ds_allTags = []\<rparr>"

definition getChunks :: "'k DistributionStatus \<Rightarrow> ShardId \<Rightarrow> 'k ChunkType list option" where
  "getChunks d shard = map_of (ds_shardChunks d) shard"

definition zone_upper :: "'k KeyOps \<Rightarrow> 'k \<Rightarrow> 'k ZoneRange list \<Rightarrow> 'k ZoneRange list" where
  "zone_upper K x zs = dropWhile (\<lambda>z. woCompare K (zr_max z) x \<le> 0) zs"

definition zone_lower :: "'k KeyOps \<Rightarrow> 'k \<Rightarrow> 'k ZoneRange list \<Rightarrow> 'k ZoneRange list" where
  "zone_lower K x zs = dropWhile (\<lambda>z. woCompare K (zr_max z) x < 0) zs"

fun zone_emplace :: "'k KeyOps \<Rightarrow> 'k ZoneRange \<Rightarrow> 'k ZoneRange list \<Rightarrow> 'k ZoneRange list" where
  "zone_emplace K r [] = [r]"
| "zone_emplace K r (z # zs) =
     (if woCompare K (zr_max r) (zr_max z) < 0 then r # z # zs
      else if woCompare K (zr_max r) (zr_max z) = 0 then z # zs else z # zone_emplace K r zs)"

text \<open>Reading past the end of the map is undefined and is \<open>None\<close>, as an assertion is.\<close>

definition addRangeToZone :: "'k KeyOps \<Rightarrow> 'k ZoneRange \<Rightarrow> 'k DistributionStatus \<Rightarrow> 'k DistributionStatus Checked" where
  "addRangeToZone K r d =
     (let zs = ds_zoneRanges d; minIntersect = zone_upper K (zr_min r) zs; maxIntersect = zone_upper K (zr_max r) zs;
          new = Some (Inr (d\<lparr>ds_zoneRanges := zone_emplace K r zs, ds_allTags := insort_insert (zr_zone r) (ds_allTags d)\<rparr>))
      in if length minIntersect \<noteq> length maxIntersect then
           (case minIntersect of
              [] \<Rightarrow> None
            | z # _ \<Rightarrow>
                (case (if woCompare K (zr_min z) (zr_max r) < 0 then minIntersect else maxIntersect) of
                   [] \<Rightarrow> None
                 | i # _ \<Rightarrow>
                     if woCompare K (zr_min i) (zr_min r) = 0 \<and> woCompare K (zr_max i) (zr_max r) = 0 \<and> zr_zone i = zr_zone r
                     then Some (Inr d) else Some (Inl RangeOverlapConflict)))
         else
           (case minIntersect of
              [] \<Rightarrow> new
            | z # _ \<Rightarrow>
                if woCompare K (zr_max r) (zr_min z) > 0
                then (if woCompare K (zr_max r) (zr_max z) < 0 then Some (Inl RangeOverlapConflict) else None)
                else new))"

definition getTagForChunk :: "'k KeyOps \<Rightarrow> 'k DistributionStatus \<Rightarrow> 'k ChunkType \<Rightarrow> string" where
  "getTagForChunk K d c =
     (let minIntersect = zone_upper K (ct_min c) (ds_zoneRanges d); maxIntersect = zone_lower K (ct_max c) (ds_zoneRanges d)
      in if length minIntersect \<noteq> length maxIntersect then []
         else case minIntersect of
                [] \<Rightarrow> []
              | z # _ \<Rightarrow> if woCompare K (zr_min z) (ct_min c) \<le> 0 \<and> woCompare K (ct_max c) (zr_max z) \<le> 0 then zr_zone z else [])"

definition totalChunks :: "'k DistributionStatus \<Rightarrow> nat" where
  "totalChunks d = sum_list (map (\<lambda>e. length (snd e)) (ds_shardChunks d))"

definition numberOfChunksInShard :: "'k DistributionStatus \<Rightarrow> ShardId \<Rightarrow> nat option" where
  "numberOfChunksInShard d shard = map_option length (getChunks d shard)"

definition withTag :: "'k KeyOps \<Rightarrow> 'k DistributionStatus \<Rightarrow> string \<Rightarrow> 'k ChunkType list \<Rightarrow> nat" where
  "withTag K d tag cs = countp (\<lambda>c. tag = getTagForChunk K d c) cs"

definition numberOfChunksInShardWithTag :: "'k KeyOps \<Rightarrow> 'k DistributionStatus \<Rightarrow> ShardId \<Rightarrow> string \<Rightarrow> nat option" where
  "numberOfChunksInShardWithTag K d shard tag = map_option (withTag K d tag) (getChunks d shard)"

definition totalChunksWithTag :: "'k KeyOps \<Rightarrow> 'k DistributionStatus \<Rightarrow> string \<Rightarrow> nat" where
  "totalChunksWithTag K d tag = sum_list (map (\<lambda>e. withTag K d tag (snd e)) (ds_shardChunks d))"

subsection \<open>Choice of shards\<close>

definition isShardSuitableReceiver :: "ShardStatistics \<Rightarrow> string \<Rightarrow> unit StatusWith" where
  "isShardSuitableReceiver st chunkTag =
     failIf (isSizeMaxed st) IllegalOperation (
     failIf (st_isDraining st) IllegalOperation (
     failIf (chunkTag \<noteq> [] \<and> chunkTag \<notin> st_shardTags st) IllegalOperation (Inr ())))"

text \<open>Counts are kept in 32 bits here. No shard is the empty name.\<close>

fun leastLoaded :: "'k DistributionStatus \<Rightarrow> string \<Rightarrow> ShardId set \<Rightarrow> ShardId \<Rightarrow> nat \<Rightarrow> ShardStatistics list \<Rightarrow> ShardId option" where
  "leastLoaded d tag excluded best minChunks [] = Some best"
| "leastLoaded d tag excluded best minChunks (st # sts) =
     (if st_shardId st \<in> excluded then leastLoaded d tag excluded best minChunks sts
      else if isShardSuitableReceiver st tag \<noteq> Inr () then leastLoaded d tag excluded best minChunks sts
      else do {
        n \<leftarrow> numberOfChunksInShard d (st_shardId st);
        let myChunks = n mod 2 ^ 32;
        if myChunks \<ge> minChunks then leastLoaded d tag excluded best minChunks sts
        else leastLoaded d tag excluded (st_shardId st) myChunks sts
      })"

definition getLeastLoadedReceiverShard :: "ShardStatistics list \<Rightarrow> 'k DistributionStatus \<Rightarrow> string \<Rightarrow> ShardId set \<Rightarrow> ShardId option" where
  "getLeastLoadedReceiverShard sts d tag excluded = leastLoaded d tag excluded [] (2 ^ 32 - 1) sts"

fun mostOverloaded :: "'k KeyOps \<Rightarrow> 'k DistributionStatus \<Rightarrow> string \<Rightarrow> ShardId set \<Rightarrow> ShardId \<Rightarrow> nat \<Rightarrow> ShardStatistics list \<Rightarrow> ShardId option" where
  "mostOverloaded K d tag excluded worst maxChunks [] = Some worst"
| "mostOverloaded K d tag excluded worst maxChunks (st # sts) =
     (if st_shardId st \<in> excluded then mostOverloaded K d tag excluded worst maxChunks sts
      else do {
        n \<leftarrow> numberOfChunksInShardWithTag K d (st_shardId st) tag;
        let count = n mod 2 ^ 32;
        if count \<le> maxChunks then mostOverloaded K d tag excluded worst maxChunks sts
        else mostOverloaded K d tag excluded (st_shardId st) count sts
      })"

definition getMostOverloadedShard :: "'k KeyOps \<Rightarrow> ShardStatistics list \<Rightarrow> 'k DistributionStatus \<Rightarrow> string \<Rightarrow> ShardId set \<Rightarrow> ShardId option" where
  "getMostOverloadedShard K sts d tag excluded = mostOverloaded K d tag excluded [] 0 sts"

subsection \<open>Balancing\<close>

text \<open>The migrations so far and the shards that take part in one. A suggestion moves a chunk between two shards that do not yet.\<close>

type_synonym 'k plan = "'k MigrateInfo list \<times> ShardId set"

definition suggest :: "'k KeyOps \<Rightarrow> ShardId \<Rightarrow> ShardId \<Rightarrow> 'k ChunkType \<Rightarrow> ForceJumbo \<Rightarrow> MigrationReason \<Rightarrow> 'k plan \<Rightarrow> 'k plan option" where
  "suggest K shard to c force reason p =
     do {
       mi \<leftarrow> newMigrateInfo K to c force reason;
       invariant (shard \<notin> snd p);
       invariant (to \<notin> insert shard (snd p));
       Some (fst p @ [mi], insert to (insert shard (snd p)))
     }"

text \<open>The loop over the chunks of a shard in the first two passes: the first that is wanted elsewhere and has a receiver is moved.\<close>

fun moveOne :: "'k KeyOps \<Rightarrow> ShardStatistics list \<Rightarrow> 'k DistributionStatus \<Rightarrow> ShardStatistics \<Rightarrow> (string \<Rightarrow> 'k ChunkType \<Rightarrow> bool) \<Rightarrow>
    ForceJumbo \<Rightarrow> MigrationReason \<Rightarrow> 'k ChunkType list \<Rightarrow> 'k plan \<Rightarrow> 'k plan option" where
  "moveOne K sts d st wanted force reason [] p = Some p"
| "moveOne K sts d st wanted force reason (c # cs) p =
     (let tag = getTagForChunk K d c
      in if \<not> wanted tag c then moveOne K sts d st wanted force reason cs p
         else if ct_jumbo c then moveOne K sts d st wanted force reason cs p
         else do {
           to \<leftarrow> getLeastLoadedReceiverShard sts d tag (snd p);
           if to = [] then moveOne K sts d st wanted force reason cs p
           else do {
             invariant (to \<noteq> st_shardId st);
             suggest K (st_shardId st) to c force reason p
           }
         })"

fun drainPass :: "'k KeyOps \<Rightarrow> ShardStatistics list \<Rightarrow> 'k DistributionStatus \<Rightarrow> ShardStatistics list \<Rightarrow> 'k plan \<Rightarrow> 'k plan option" where
  "drainPass K sts d [] p = Some p"
| "drainPass K sts d (st # rest) p =
     (if \<not> st_isDraining st \<or> st_shardId st \<in> snd p then drainPass K sts d rest p
      else do {
        chunks \<leftarrow> getChunks d (st_shardId st);
        p1 \<leftarrow> moveOne K sts d st (\<lambda>tag c. True) kForceBalancer drain chunks p;
        drainPass K sts d rest p1
      })"

fun zonePass :: "'k KeyOps \<Rightarrow> bool \<Rightarrow> ShardStatistics list \<Rightarrow> 'k DistributionStatus \<Rightarrow> ShardStatistics list \<Rightarrow> 'k plan \<Rightarrow> 'k plan option" where
  "zonePass K forceJumbo sts d [] p = Some p"
| "zonePass K forceJumbo sts d (st # rest) p =
     (if st_shardId st \<in> snd p then zonePass K forceJumbo sts d rest p
      else do {
        chunks \<leftarrow> getChunks d (st_shardId st);
        p1 \<leftarrow> moveOne K sts d st (\<lambda>tag c. tag \<noteq> [] \<and> tag \<notin> st_shardTags st)
                (if forceJumbo then kForceBalancer else kDoNotForce) zoneViolation chunks p;
        zonePass K forceJumbo sts d rest p1
      })"

definition kDefaultImbalanceThreshold :: nat where
  "kDefaultImbalanceThreshold = 1"

text \<open>The search of \<open>_singleZoneBalance\<close> for a chunk of the zone that can be moved; the result says whether one was found.\<close>

fun moveFromZone :: "'k KeyOps \<Rightarrow> 'k DistributionStatus \<Rightarrow> string \<Rightarrow> ShardId \<Rightarrow> ForceJumbo \<Rightarrow> 'k ChunkType list \<Rightarrow> 'k plan \<Rightarrow> (bool \<times> 'k plan) option" where
  "moveFromZone K d tag to force [] p = Some (False, p)"
| "moveFromZone K d tag to force (c # cs) p =
     (if getTagForChunk K d c \<noteq> tag \<or> ct_jumbo c then moveFromZone K d tag to force cs p
      else map_option (Pair True) (suggest K (ct_shard c) to c force chunksImbalance p))"

definition singleZoneBalance :: "'k KeyOps \<Rightarrow> ShardStatistics list \<Rightarrow> 'k DistributionStatus \<Rightarrow> string \<Rightarrow> nat \<Rightarrow> ForceJumbo \<Rightarrow> 'k plan \<Rightarrow> (bool \<times> 'k plan) option" where
  "singleZoneBalance K sts d tag ideal force p =
     do {
       source \<leftarrow> getMostOverloadedShard K sts d tag (snd p);
       if source = [] then Some (False, p)
       else do {
         most \<leftarrow> numberOfChunksInShardWithTag K d source tag;
         if most \<le> ideal then Some (False, p)
         else do {
           to \<leftarrow> getLeastLoadedReceiverShard sts d tag (snd p);
           if to = [] then Some (False, p)
           else do {
             least \<leftarrow> numberOfChunksInShardWithTag K d to tag;
             if least \<ge> ideal then Some (False, p)
             else if most - ideal < kDefaultImbalanceThreshold then Some (False, p)
             else do {
               chunks \<leftarrow> getChunks d source;
               moveFromZone K d tag to force chunks p
             }
           }
         }
       }
     }"

subsubsection \<open>The ideal number of chunks\<close>

text \<open>
  It is computed in \<^verbatim>\<open>float\<close>: both numbers and their quotient are rounded to 24 significant bits, to even in a tie, and \<^verbatim>\<open>roundf\<close>
  rounds a half away from zero. The quotient is \<open>m * 2 ^ - e\<close>.
\<close>

definition roundDiv :: "nat \<Rightarrow> nat \<Rightarrow> nat" where
  "roundDiv n k = (let q = n div k; r = n mod k in if k < 2 * r \<or> k = 2 * r \<and> odd q then q + 1 else q)"

definition floatOf :: "nat \<Rightarrow> nat" where
  "floatOf n = (let k = bitLength n - 24 in roundDiv n (2 ^ k) * 2 ^ k)"

definition scaledQuotient :: "nat \<Rightarrow> nat \<Rightarrow> int \<Rightarrow> nat" where
  "scaledQuotient a b e = (if e \<ge> 0 then roundDiv (a * 2 ^ nat e) b else roundDiv a (b * 2 ^ nat (- e)))"

definition roundf_div :: "nat \<Rightarrow> nat \<Rightarrow> nat" where
  "roundf_div a b =
     (let e0 = 24 + int (bitLength b) - int (bitLength a);
          whole = (if e0 \<ge> 0 then a * 2 ^ nat e0 div b else a div (b * 2 ^ nat (- e0)));
          e = (if whole \<ge> 2 ^ 24 then e0 - 1 else e0);
          m = scaledQuotient a b e
      in if e > 0 then (m + 2 ^ nat (e - 1)) div 2 ^ nat e else m * 2 ^ nat (- e))"

definition idealNumberOfChunks :: "nat \<Rightarrow> nat \<Rightarrow> nat" where
  "idealNumberOfChunks chunks shards = roundf_div (floatOf chunks) (floatOf shards)"

subsubsection \<open>All zones\<close>

lemma leastLoaded_in:
  assumes "leastLoaded d tag excluded best n sts = Some to"
  shows "to = best \<or> (\<exists>st\<in>set sts. st_shardId st = to \<and> to \<notin> excluded \<and> isShardSuitableReceiver st tag = Inr ())"
  using assms
  by (induction sts arbitrary: best n) (fastforce simp: Let_def abort_simps split: if_splits)+

lemma suggest_used: "suggest K shard to c force reason p = Some p' \<Longrightarrow> snd p' = insert to (insert shard (snd p)) \<and> to \<notin> snd p"
  by (auto simp: suggest_def abort_simps)

lemma moveFromZone_used:
  "moveFromZone K d tag to force cs p = Some (True, p') \<Longrightarrow> \<exists>shard. snd p' = insert to (insert shard (snd p)) \<and> to \<notin> snd p"
  by (induction cs) (auto split: if_splits dest: suggest_used)

lemma singleZoneBalance_used:
  assumes "singleZoneBalance K sts d tag ideal force p = Some (True, p')"
  shows "\<exists>to shard. to \<in> st_shardId ` set sts \<and> to \<notin> snd p \<and> snd p' = insert to (insert shard (snd p))"
proof -
  obtain to cs where to: "getLeastLoadedReceiverShard sts d tag (snd p) = Some to" "to \<noteq> []" "moveFromZone K d tag to force cs p = Some (True, p')"
    using assms by (auto simp: singleZoneBalance_def abort_simps split: if_splits)
  have "to \<in> st_shardId ` set sts" using leastLoaded_in [OF to(1) [unfolded getLeastLoadedReceiverShard_def]] to(2) by blast
  then show ?thesis using moveFromZone_used [OF to(3)] by blast
qed

text \<open>Every migration takes two shards, so the loop ends.\<close>

function zoneLoop :: "'k KeyOps \<Rightarrow> ShardStatistics list \<Rightarrow> 'k DistributionStatus \<Rightarrow> string \<Rightarrow> nat \<Rightarrow> ForceJumbo \<Rightarrow> 'k plan \<Rightarrow> 'k plan option" where
  "zoneLoop K sts d tag ideal force p =
     (case singleZoneBalance K sts d tag ideal force p of
        None \<Rightarrow> None
      | Some (again, p1) \<Rightarrow> if again then zoneLoop K sts d tag ideal force p1 else Some p1)"
  by pat_completeness auto

termination zoneLoop
proof (relation "measure (\<lambda>(K, sts, d, tag, ideal, force, p). card (st_shardId ` set sts - snd p))", goal_cases)
  case (2 K sts d tag ideal force p r again p1)
  then obtain to shard where to: "to \<in> st_shardId ` set sts - snd p" "snd p1 = insert to (insert shard (snd p))"
    using singleZoneBalance_used [of K sts d tag ideal force p p1] by auto
  then have "st_shardId ` set sts - snd p1 \<subset> st_shardId ` set sts - snd p" by blast
  then show ?case by (simp add: psubset_card_mono)
qed simp

declare zoneLoop.simps [simp del]

fun balanceTags :: "'k KeyOps \<Rightarrow> ShardStatistics list \<Rightarrow> 'k DistributionStatus \<Rightarrow> ForceJumbo \<Rightarrow> string list \<Rightarrow> 'k plan \<Rightarrow> 'k plan option" where
  "balanceTags K sts d force [] p = Some p"
| "balanceTags K sts d force (tag # tags) p =
     (let chunks = (if tag = [] then totalChunks d else totalChunksWithTag K d tag);
          shards = countp (\<lambda>st. tag = [] \<or> tag \<in> st_shardTags st) sts
      in if shards = 0 then balanceTags K sts d force tags p
         else do {
           p1 \<leftarrow> zoneLoop K sts d tag (idealNumberOfChunks chunks shards) force p;
           balanceTags K sts d force tags p1
         })"

definition balance :: "'k KeyOps \<Rightarrow> ShardStatistics list \<Rightarrow> 'k DistributionStatus \<Rightarrow> ShardId set \<Rightarrow> bool \<Rightarrow> 'k plan option" where
  "balance K sts d used forceJumbo =
     do {
       p1 \<leftarrow> drainPass K sts d sts ([], used);
       p2 \<leftarrow> (if ds_allTags d = [] then Some p1 else zonePass K forceJumbo sts d sts p1);
       balanceTags K sts d (if forceJumbo then kForceBalancer else kDoNotForce) (ds_allTags d @ [[]]) p2
     }"

definition balanceSingleChunk :: "'k KeyOps \<Rightarrow> 'k ChunkType \<Rightarrow> ShardStatistics list \<Rightarrow> 'k DistributionStatus \<Rightarrow> 'k MigrateInfo option option" where
  "balanceSingleChunk K c sts d =
     do {
       to \<leftarrow> getLeastLoadedReceiverShard sts d (getTagForChunk K d c) {};
       if to = [] \<or> to = ct_shard c then Some None
       else map_option Some (newMigrateInfo K to c kDoNotForce chunksImbalance)
     }"

subsection \<open>The distribution of a routing table\<close>

text \<open>
  \<open>createCollectionDistributionStatus\<close> of \<^verbatim>\<open>balancer_chunk_selection_policy_impl.cpp\<close>. The zones of the collection, with their bounds extended to
  the shard key, are given. The map of shards is only searched and added up, so its order does not matter.
\<close>

definition chunkOf :: "ShardId \<Rightarrow> 'k ChunkInfo \<Rightarrow> 'k ChunkType" where
  "chunkOf shard c = \<lparr>ct_min = ci_min c, ct_max = ci_max c, ct_version = ci_lastmod c, ct_shard = shard, ct_history = [], ct_jumbo = ci_jumbo c\<rparr>"

fun collectChunks :: "'k ChunkManager \<Rightarrow> 'k ChunkInfo list \<Rightarrow> (ShardId \<times> 'k ChunkType list) list \<Rightarrow> (ShardId \<times> 'k ChunkType list) list Checked" where
  "collectChunks cm [] m = Some (Inr m)"
| "collectChunks cm (c # cs) m =
     thenC (getShardIdAt (cm_clusterTime cm) c) (\<lambda>shard.
       collectChunks cm cs (AList.update shard ((case map_of m shard of None \<Rightarrow> [] | Some l \<Rightarrow> l) @ [chunkOf shard c]) m))"

fun addZones :: "'k KeyOps \<Rightarrow> 'k ZoneRange list \<Rightarrow> 'k DistributionStatus \<Rightarrow> 'k DistributionStatus Checked" where
  "addZones K [] d = Some (Inr d)"
| "addZones K (z # zs) d = thenC (addRangeToZone K z d) (addZones K zs)"

definition createCollectionDistributionStatus ::
    "'k KeyOps \<Rightarrow> ShardStatistics list \<Rightarrow> 'k ChunkManager \<Rightarrow> 'k ZoneRange list \<Rightarrow> 'k DistributionStatus Checked" where
  "createCollectionDistributionStatus K allShards cm zones =
     thenC (collectChunks cm (map snd (rt_chunkMap (cm_rt cm))) (fold (\<lambda>st. AList.update (st_shardId st) []) allShards [])) (\<lambda>chunks.
       addZones K zones (newDistributionStatus chunks))"

end
