(* ===== verification/BalancerProps.thy ===== *)
theory BalancerProps
  imports BalancerPolicy RoutingProps
begin

text \<open>
  What the balancer's policy promises: zones never overlap and a chunk has the zone it lies in; the migrations that are suggested use each
  shard once, have a suitable receiver and a reason.
\<close>

subsection \<open>Zones\<close>

abbreviation zmin :: "'k KeyOps \<Rightarrow> 'k ZoneRange \<Rightarrow> KeyString" where
  "zmin K z \<equiv> extractKeyString K (zr_min z)"

abbreviation zmax :: "'k KeyOps \<Rightarrow> 'k ZoneRange \<Rightarrow> KeyString" where
  "zmax K z \<equiv> extractKeyString K (zr_max z)"

definition zones_ok :: "'k KeyOps \<Rightarrow> 'k ZoneRange list \<Rightarrow> bool" where
  "zones_ok K zs \<longleftrightarrow> sorted_wrt (\<lambda>y z. zmax K y \<le> zmin K z) zs \<and> (\<forall>z\<in>set zs. zmin K z < zmax K z)"

definition overlaps :: "'k KeyOps \<Rightarrow> 'k ZoneRange \<Rightarrow> 'k ZoneRange \<Rightarrow> bool" where
  "overlaps K y z \<longleftrightarrow> zmin K y < zmax K z \<and> zmin K z < zmax K y"

definition same_zone :: "'k KeyOps \<Rightarrow> 'k ZoneRange \<Rightarrow> 'k ZoneRange \<Rightarrow> bool" where
  "same_zone K y z \<longleftrightarrow> zmin K y = zmin K z \<and> zmax K y = zmax K z \<and> zr_zone y = zr_zone z"

lemma zone_bounds:
  assumes "key_laws K"
  shows "zone_upper K x zs = dropWhile (\<lambda>z. zmax K z \<le> extractKeyString K x) zs"
    "zone_lower K x zs = dropWhile (\<lambda>z. zmax K z < extractKeyString K x) zs"
  by (simp_all add: zone_upper_def zone_lower_def key_lawsD [OF assms])

text \<open>The zones that end by a key come first.\<close>

lemma zones_split:
  assumes "zones_ok K zs"
  shows "z \<in> set (dropWhile (\<lambda>z. zmax K z \<le> k) zs) \<longleftrightarrow> z \<in> set zs \<and> k < zmax K z"
  using assms
proof (induction zs)
  case (Cons y zs)
  have ok: "zones_ok K zs" using Cons.prems by (simp add: zones_ok_def)
  have "k < zmax K z" if "k < zmax K y" "z \<in> set zs"
  proof -
    have "zmax K y \<le> zmin K z" "zmin K z < zmax K z" using Cons.prems that(2) by (auto simp: zones_ok_def)
    with that(1) show ?thesis by (blast intro: less_trans le_less_trans)
  qed
  with Cons.IH [OF ok] show ?case by (auto simp: not_le)
qed simp

lemma zone_emplace_at:
  assumes "key_laws K" "\<forall>z\<in>set xs. zmax K z < zmax K r" "\<forall>z\<in>set ys. zmax K r < zmax K z"
  shows "zone_emplace K r (xs @ ys) = xs @ r # ys"
  using assms(2)
proof (induction xs)
  case Nil
  then show ?case using assms(3) by (cases ys) (simp_all add: key_lawsD [OF assms(1)])
next
  case (Cons z xs)
  have "\<not> zmax K r < zmax K z" "zmax K r \<noteq> zmax K z" using Cons.prems by auto
  then show ?case using Cons by (simp add: key_lawsD [OF assms(1)])
qed

lemma zones_ok_append:
  "zones_ok K (xs @ ys) \<longleftrightarrow> zones_ok K xs \<and> zones_ok K ys \<and> (\<forall>x\<in>set xs. \<forall>y\<in>set ys. zmax K x \<le> zmin K y)"
  by (auto simp: zones_ok_def sorted_wrt_append)

lemma zones_ok_Cons:
  "zones_ok K (x # ys) \<longleftrightarrow> zmin K x < zmax K x \<and> zones_ok K ys \<and> (\<forall>y\<in>set ys. zmax K x \<le> zmin K y)"
  by (auto simp: zones_ok_def)

text \<open>A range that has no zone in its way goes between those that end before it and those that start after it.\<close>

lemma zone_inserted:
  assumes "key_laws K" "zones_ok K zs" "zmin K r < zmax K r" "\<forall>z\<in>set zs. \<not> overlaps K z r"
  defines "zs' \<equiv> zone_emplace K r zs"
  shows "zones_ok K zs'" "set zs' = insert r (set zs)"
proof -
  let ?low = "takeWhile (\<lambda>z. zmax K z \<le> zmin K r) zs" and ?high = "dropWhile (\<lambda>z. zmax K z \<le> zmin K r) zs"
  have low: "\<forall>z\<in>set ?low. zmax K z \<le> zmin K r" by (auto dest: set_takeWhileD)
  have high: "zmax K r \<le> zmin K z" "zmax K r < zmax K z" if "z \<in> set ?high" for z
  proof -
    have z: "z \<in> set zs" "zmin K r < zmax K z" using that zones_split [OF assms(2)] by blast+
    then show le: "zmax K r \<le> zmin K z" using assms(4) by (auto simp: overlaps_def not_less)
    have "zmin K z < zmax K z" using z(1) assms(2) by (simp add: zones_ok_def)
    with le show "zmax K r < zmax K z" by (rule le_less_trans)
  qed
  have "zone_emplace K r (?low @ ?high) = ?low @ r # ?high"
    using low high(2) assms(3) by (intro zone_emplace_at [OF assms(1)]) (auto intro: le_less_trans)
  then have eq: "zs' = ?low @ r # ?high" by (simp add: zs'_def)
  have "zones_ok K (?low @ ?high)" using assms(2) unfolding takeWhile_dropWhile_id .
  then have parts: "zones_ok K ?low" "zones_ok K ?high" "\<forall>x\<in>set ?low. \<forall>y\<in>set ?high. zmax K x \<le> zmin K y"
    unfolding zones_ok_append by blast+
  show "zones_ok K zs'" unfolding eq zones_ok_append zones_ok_Cons set_simps using parts low high(1) assms(3) by blast
  have "set zs = set ?low \<union> set ?high" unfolding set_append [symmetric] takeWhile_dropWhile_id ..
  then show "set zs' = insert r (set zs)" unfolding eq set_append set_simps by blast
qed

text \<open>The first zone that ends after a key, given another key beyond it.\<close>

lemma zone_first:
  assumes "zones_ok K zs" "dropWhile (\<lambda>z. zmax K z \<le> a) zs = z # rest"
  shows "z \<in> set zs" "a < zmax K z" "\<forall>y\<in>set zs. a < zmax K y \<longrightarrow> y = z \<or> zmax K z \<le> zmin K y"
proof -
  have in_high: "y \<in> set (z # rest) \<longleftrightarrow> y \<in> set zs \<and> a < zmax K y" for y using zones_split [OF assms(1), of y a] assms(2) by simp
  then show "z \<in> set zs" "a < zmax K z" by auto
  have "zones_ok K (takeWhile (\<lambda>z. zmax K z \<le> a) zs @ z # rest)" using assms by (simp flip: assms(2))
  then have "\<forall>y\<in>set rest. zmax K z \<le> zmin K y" unfolding zones_ok_append zones_ok_Cons by blast
  then show "\<forall>y\<in>set zs. a < zmax K y \<longrightarrow> y = z \<or> zmax K z \<le> zmin K y" using in_high by (metis set_ConsD)
qed

lemma dropWhile_weaker: "(\<And>x. P x \<Longrightarrow> Q x) \<Longrightarrow> dropWhile Q (dropWhile P xs) = dropWhile Q xs"
  by (induction xs) auto

lemma dropWhile_same_length:
  assumes "length (dropWhile P xs) = length (dropWhile Q xs)" "\<And>x. P x \<Longrightarrow> Q x"
  shows "dropWhile P xs = dropWhile Q xs"
  using assms(1)
proof (induction xs)
  case (Cons x xs)
  have shorter: "length (dropWhile Q xs) \<le> length xs" by (rule length_dropWhile_le)
  show ?case
  proof (cases "P x")
    case True
    then show ?thesis using Cons assms(2) by simp
  next
    case False
    then have "\<not> Q x" using Cons.prems shorter by auto
    with False show ?thesis by simp
  qed
qed simp

lemma addRangeToZone_partial:
  assumes "key_laws K" "zones_ok K (ds_zoneRanges d)" "zmin K r < zmax K r"
    "length (zone_upper K (zr_min r) (ds_zoneRanges d)) \<noteq> length (zone_upper K (zr_max r) (ds_zoneRanges d))"
  shows "\<exists>z\<in>set (ds_zoneRanges d). overlaps K z r"
    "addRangeToZone K r d = (if \<exists>z\<in>set (ds_zoneRanges d). same_zone K z r then Some (Inr d) else Some (Inl RangeOverlapConflict))"
proof -
  let ?zs = "ds_zoneRanges d"
  let ?A = "dropWhile (\<lambda>z. zmax K z \<le> zmin K r) ?zs" and ?B = "dropWhile (\<lambda>z. zmax K z \<le> zmax K r) ?zs"
  have differ: "length ?A \<noteq> length ?B" using assms(4) by (simp add: zone_bounds [OF assms(1)])
  have split: "set ?A = {z \<in> set ?zs. zmin K r < zmax K z}" "set ?B = {z \<in> set ?zs. zmax K r < zmax K z}"
    using zones_split [OF assms(2)] by blast+
  have "?A \<noteq> []"
  proof
    assume "?A = []"
    then have "set ?A = {}" by (simp only: set_empty)
    then have "set ?B = {}" unfolding split using assms(3) by (auto intro: less_trans)
    then have none: "?B = []" by (simp only: set_empty)
    show False using differ unfolding \<open>?A = []\<close> none by simp
  qed
  then obtain z rest where A: "?A = z # rest" by (cases ?A) auto
  note z = zone_first [OF assms(2) A]
  have upto: "zmax K z \<le> zmax K r"
  proof (rule ccontr)
    assume "\<not> zmax K z \<le> zmax K r"
    then have "dropWhile (\<lambda>z. zmax K z \<le> zmax K r) ?A = ?A" using A by simp
    moreover have "dropWhile (\<lambda>z. zmax K z \<le> zmax K r) ?A = ?B" using assms(3) by (intro dropWhile_weaker) (auto intro: order_trans)
    ultimately show False using differ by simp
  qed
  have inner: "zmin K z < zmax K z" using z(1) assms(2) by (simp add: zones_ok_def)
  then have below: "zmin K z < zmax K r" using upto by (rule less_le_trans)
  then show "\<exists>z\<in>set ?zs. overlaps K z r" using z(1,2) by (auto simp: overlaps_def)
  have "same_zone K z r" if "y \<in> set ?zs" "same_zone K y r" for y
  proof -
    have "zmin K r < zmax K y" "zmin K y = zmin K r" using that(2) assms(3) by (auto simp: same_zone_def)
    then have "y = z \<or> zmax K z \<le> zmin K r" using z(3) that(1) by auto
    then show ?thesis using that(2) z(2) by auto
  qed
  then have "(\<exists>z\<in>set ?zs. same_zone K z r) \<longleftrightarrow> same_zone K z r" using z(1) by blast
  then show "addRangeToZone K r d = (if \<exists>z\<in>set ?zs. same_zone K z r then Some (Inr d) else Some (Inl RangeOverlapConflict))"
    using differ below unfolding addRangeToZone_def Let_def zone_bounds [OF assms(1)] A
    by (simp add: same_zone_def key_lawsD [OF assms(1)])
qed

lemma addRangeToZone_between:
  assumes "key_laws K" "zones_ok K (ds_zoneRanges d)" "zmin K r < zmax K r"
    "length (zone_upper K (zr_min r) (ds_zoneRanges d)) = length (zone_upper K (zr_max r) (ds_zoneRanges d))"
  shows "\<not> (\<exists>z\<in>set (ds_zoneRanges d). same_zone K z r)"
    "addRangeToZone K r d = (if \<exists>z\<in>set (ds_zoneRanges d). overlaps K z r then Some (Inl RangeOverlapConflict)
      else Some (Inr (d\<lparr>ds_zoneRanges := zone_emplace K r (ds_zoneRanges d), ds_allTags := insort_insert (zr_zone r) (ds_allTags d)\<rparr>)))"
proof -
  let ?zs = "ds_zoneRanges d"
  let ?A = "dropWhile (\<lambda>z. zmax K z \<le> zmin K r) ?zs" and ?B = "dropWhile (\<lambda>z. zmax K z \<le> zmax K r) ?zs"
  have len: "length ?A = length ?B" using assms(4) by (simp add: zone_bounds [OF assms(1)])
  have AB: "?A = ?B" using assms(3) by (intro dropWhile_same_length [OF len]) (auto intro: order_trans)
  have above: "zmax K r < zmax K z" if "z \<in> set ?zs" "zmin K r < zmax K z" for z
    using zones_split [OF assms(2), of z "zmin K r"] zones_split [OF assms(2), of z "zmax K r"] AB that by simp
  then show none: "\<not> (\<exists>z\<in>set ?zs. same_zone K z r)" using assms(3) by (fastforce simp: same_zone_def)
  show "addRangeToZone K r d = (if \<exists>z\<in>set ?zs. overlaps K z r then Some (Inl RangeOverlapConflict)
      else Some (Inr (d\<lparr>ds_zoneRanges := zone_emplace K r ?zs, ds_allTags := insort_insert (zr_zone r) (ds_allTags d)\<rparr>)))"
  proof (cases ?A)
    case Nil
    have "\<not> zmin K r < zmax K z" if "z \<in> set ?zs" for z using zones_split [OF assms(2), of z "zmin K r"] Nil that by auto
    then have "\<not> (\<exists>z\<in>set ?zs. overlaps K z r)" by (auto simp: overlaps_def)
    then show ?thesis using len unfolding addRangeToZone_def Let_def zone_bounds [OF assms(1)] Nil by simp
  next
    case (Cons z rest)
    note z = zone_first [OF assms(2) Cons]
    have "overlaps K y r \<Longrightarrow> overlaps K z r" if "y \<in> set ?zs" for y
    proof -
      assume o: "overlaps K y r"
      then have "y = z \<or> zmax K z \<le> zmin K y" using z(3) that by (auto simp: overlaps_def)
      moreover have "zmin K z < zmax K z" using z(1) assms(2) by (simp add: zones_ok_def)
      ultimately show ?thesis using o z(2) by (auto simp: overlaps_def intro: less_trans less_le_trans)
    qed
    then have any: "(\<exists>z\<in>set ?zs. overlaps K z r) \<longleftrightarrow> zmin K z < zmax K r" using z(1,2) by (auto simp: overlaps_def)
    have pos: "woCompare K (zr_max r) (zr_min z) > 0 \<longleftrightarrow> zmin K z < zmax K r"
      using key_lawsD(3) [OF assms(1), of "zr_max r" "zr_min z"] by (simp add: not_le [symmetric])
    show ?thesis using len above [OF z(1,2)] unfolding any addRangeToZone_def Let_def zone_bounds [OF assms(1)] Cons
      by (simp add: pos key_lawsD(1) [OF assms(1)])
  qed
qed

text \<open>The zone of a chunk.\<close>

lemma getTagForChunk_exact:
  assumes "key_laws K" "zones_ok K (ds_zoneRanges d)" "extractKeyString K (ct_min c) < extractKeyString K (ct_max c)"
  defines "inside \<equiv> \<lambda>z. zmin K z \<le> extractKeyString K (ct_min c) \<and> extractKeyString K (ct_max c) \<le> zmax K z"
  shows "\<forall>z\<in>set (ds_zoneRanges d). inside z \<longrightarrow> getTagForChunk K d c = zr_zone z"
    "(\<forall>z\<in>set (ds_zoneRanges d). \<not> inside z) \<longrightarrow> getTagForChunk K d c = []"
proof -
  let ?zs = "ds_zoneRanges d" and ?a = "extractKeyString K (ct_min c)" and ?b = "extractKeyString K (ct_max c)"
  let ?A = "dropWhile (\<lambda>z. zmax K z \<le> ?a) ?zs" and ?B = "dropWhile (\<lambda>z. zmax K z < ?b) ?zs"
  show "\<forall>z\<in>set ?zs. inside z \<longrightarrow> getTagForChunk K d c = zr_zone z"
  proof (intro ballI impI)
    fix z
    assume z: "z \<in> set ?zs" "inside z"
    have "?a < zmax K z" using z(2) assms(3) unfolding inside_def by (blast intro: less_le_trans)
    then have "z \<in> set ?A" using zones_split [OF assms(2)] z(1) by blast
    then obtain y rest where A: "?A = y # rest" by (cases ?A) auto
    note y = zone_first [OF assms(2) A]
    have "z = y" using y(3) z \<open>?a < zmax K z\<close> y(2) unfolding inside_def by (meson leD less_le_trans)
    have B: "?B = y # rest"
    proof -
      have "\<not> zmax K y < ?b" using z(2) \<open>z = y\<close> by (auto simp: inside_def)
      moreover have "zmax K x < ?b" if "x \<in> set (takeWhile (\<lambda>z. zmax K z \<le> ?a) ?zs)" for x
        using that assms(3) by (auto dest!: set_takeWhileD intro: le_less_trans)
      then have "dropWhile (\<lambda>z. zmax K z < ?b) (takeWhile (\<lambda>z. zmax K z \<le> ?a) ?zs @ ?A) = dropWhile (\<lambda>z. zmax K z < ?b) ?A"
        by (intro dropWhile_append2)
      then have "?B = dropWhile (\<lambda>z. zmax K z < ?b) ?A" unfolding takeWhile_dropWhile_id .
      ultimately show ?thesis by (simp add: A)
    qed
    then show "getTagForChunk K d c = zr_zone z"
      using z(2) \<open>z = y\<close> unfolding getTagForChunk_def Let_def zone_bounds [OF assms(1)] A B
      by (simp add: inside_def key_lawsD [OF assms(1)])
  qed
  show "(\<forall>z\<in>set ?zs. \<not> inside z) \<longrightarrow> getTagForChunk K d c = []"
  proof (intro impI)
    assume none: "\<forall>z\<in>set ?zs. \<not> inside z"
    have "y \<in> set ?zs" if "?A = y # rest" for y rest using zone_first(1) [OF assms(2) that] .
    then show "getTagForChunk K d c = []"
      using none unfolding getTagForChunk_def Let_def zone_bounds [OF assms(1)]
      by (auto simp: inside_def key_lawsD [OF assms(1)] split: list.split)
  qed
qed

text \<open>(C40) Zones never overlap: in order, each range that is added is accepted when no range overlaps it, or when it is there already; any other range
  is refused, nothing is changed then, and no assertion fails. A chunk has the zone of the range it lies in, and none when it lies in none.\<close>

theorem zones_disjoint:
  assumes "key_laws K" "zones_ok K (ds_zoneRanges d)" "woCompare K (zr_min r) (zr_max r) < 0" "woCompare K (ct_min c) (ct_max c) < 0"
  shows "(case addRangeToZone K r d of
      None \<Rightarrow> False
    | Some (Inl e) \<Rightarrow> e = RangeOverlapConflict \<and> (\<exists>z\<in>set (ds_zoneRanges d). overlaps K z r \<and> \<not> same_zone K z r)
    | Some (Inr d') \<Rightarrow> zones_ok K (ds_zoneRanges d') \<and> ds_shardChunks d' = ds_shardChunks d \<and>
        (if \<exists>z\<in>set (ds_zoneRanges d). same_zone K z r then d' = d
         else (\<forall>z\<in>set (ds_zoneRanges d). \<not> overlaps K z r) \<and> set (ds_zoneRanges d') = insert r (set (ds_zoneRanges d)) \<and>
              set (ds_allTags d') = insert (zr_zone r) (set (ds_allTags d)))) \<and>
    (\<forall>z\<in>set (ds_zoneRanges d). woCompare K (zr_min z) (ct_min c) \<le> 0 \<and> woCompare K (ct_max c) (zr_max z) \<le> 0 \<longrightarrow> getTagForChunk K d c = zr_zone z) \<and>
    ((\<forall>z\<in>set (ds_zoneRanges d). \<not> (woCompare K (zr_min z) (ct_min c) \<le> 0 \<and> woCompare K (ct_max c) (zr_max z) \<le> 0)) \<longrightarrow> getTagForChunk K d c = [])"
proof (intro conjI)
  have valid: "zmin K r < zmax K r" "extractKeyString K (ct_min c) < extractKeyString K (ct_max c)"
    using assms(3,4) by (simp_all add: key_lawsD [OF assms(1)])
  note inserted = zone_inserted [OF assms(1,2) valid(1)]
  show "case addRangeToZone K r d of
      None \<Rightarrow> False
    | Some (Inl e) \<Rightarrow> e = RangeOverlapConflict \<and> (\<exists>z\<in>set (ds_zoneRanges d). overlaps K z r \<and> \<not> same_zone K z r)
    | Some (Inr d') \<Rightarrow> zones_ok K (ds_zoneRanges d') \<and> ds_shardChunks d' = ds_shardChunks d \<and>
        (if \<exists>z\<in>set (ds_zoneRanges d). same_zone K z r then d' = d
         else (\<forall>z\<in>set (ds_zoneRanges d). \<not> overlaps K z r) \<and> set (ds_zoneRanges d') = insert r (set (ds_zoneRanges d)) \<and>
              set (ds_allTags d') = insert (zr_zone r) (set (ds_allTags d)))"
  proof (cases "length (zone_upper K (zr_min r) (ds_zoneRanges d)) = length (zone_upper K (zr_max r) (ds_zoneRanges d))")
    case True
    note between = addRangeToZone_between [OF assms(1,2) valid(1) True]
    show ?thesis unfolding between(2) using between(1) inserted by (auto simp: set_insort_insert)
  next
    case False
    note partial = addRangeToZone_partial [OF assms(1,2) valid(1) False]
    show ?thesis unfolding partial(2) using partial(1) assms(2) by auto
  qed
  note exact = getTagForChunk_exact [OF assms(1,2) valid(2)]
  show "\<forall>z\<in>set (ds_zoneRanges d). woCompare K (zr_min z) (ct_min c) \<le> 0 \<and> woCompare K (ct_max c) (zr_max z) \<le> 0 \<longrightarrow> getTagForChunk K d c = zr_zone z"
    "(\<forall>z\<in>set (ds_zoneRanges d). \<not> (woCompare K (zr_min z) (ct_min c) \<le> 0 \<and> woCompare K (ct_max c) (zr_max z) \<le> 0)) \<longrightarrow> getTagForChunk K d c = []"
    unfolding key_lawsD [OF assms(1)] by (rule exact)+
qed

definition byteZones :: "8 word DistributionStatus" where
  "byteZones = \<lparr>ds_shardChunks = [(''A'', [byteChunk 0 100 1 ''A'']), (''B'', [byteChunk 100 255 2 ''B''])],
     ds_zoneRanges = [\<lparr>zr_min = 0, zr_max = 50, zr_zone = ''east''\<rparr>, \<lparr>zr_min = 100, zr_max = 255, zr_zone = ''west''\<rparr>],
     ds_allTags = [''east'', ''west'']\<rparr>"

theorem zones_disjoint_witness:
  "addRangeToZone byteKeys \<lparr>zr_min = 40, zr_max = 60, zr_zone = ''north''\<rparr> byteZones = Some (Inl RangeOverlapConflict) \<and>
   getTagForChunk byteKeys byteZones (byteChunk 100 255 2 ''B'') = ''west''"
proof -
  have "zones_ok byteKeys (ds_zoneRanges byteZones)" by code_simp
  moreover have "woCompare byteKeys (zr_min \<lparr>zr_min = 40, zr_max = 60, zr_zone = ''north''\<rparr>) (zr_max \<lparr>zr_min = 40, zr_max = 60, zr_zone = ''north''\<rparr>) < 0"
    "woCompare byteKeys (ct_min (byteChunk 100 255 2 ''B'')) (ct_max (byteChunk 100 255 2 ''B'')) < 0" by code_simp+
  ultimately have "\<forall>z\<in>set (ds_zoneRanges byteZones). woCompare byteKeys (zr_min z) (ct_min (byteChunk 100 255 2 ''B'')) \<le> 0 \<and>
      woCompare byteKeys (ct_max (byteChunk 100 255 2 ''B'')) (zr_max z) \<le> 0 \<longrightarrow>
      getTagForChunk byteKeys byteZones (byteChunk 100 255 2 ''B'') = zr_zone z"
    using zones_disjoint [OF byteKeys_laws] by blast
  moreover have "\<lparr>zr_min = 100, zr_max = 255, zr_zone = ''west''\<rparr> \<in> set (ds_zoneRanges byteZones)" by (simp add: byteZones_def)
  moreover have "woCompare byteKeys 100 (ct_min (byteChunk 100 255 2 ''B'')) \<le> 0" "woCompare byteKeys (ct_max (byteChunk 100 255 2 ''B'')) 255 \<le> 0"
    by code_simp+
  moreover have "addRangeToZone byteKeys \<lparr>zr_min = 40, zr_max = 60, zr_zone = ''north''\<rparr> byteZones = Some (Inl RangeOverlapConflict)" by code_simp
  ultimately show ?thesis by force
qed

subsection \<open>Migrations\<close>

text \<open>
  The shards have different names, none empty; each has its chunks, all valid and its own.
\<close>

definition dist_ok :: "'k KeyOps \<Rightarrow> ShardStatistics list \<Rightarrow> 'k DistributionStatus \<Rightarrow> bool" where
  "dist_ok K sts d \<longleftrightarrow> distinct (map st_shardId sts) \<and>
     (\<forall>st\<in>set sts. st_shardId st \<noteq> [] \<and> (\<exists>cs. getChunks d (st_shardId st) = Some cs \<and>
        (\<forall>c\<in>set cs. validateChunk K c = Inr () \<and> ct_shard c = st_shardId st)))"

text \<open>Why a chunk is moved: its shard is drained, is not in its zone, or has at least two more chunks of the zone than the receiver.\<close>

definition has_reason :: "'k KeyOps \<Rightarrow> 'k DistributionStatus \<Rightarrow> ShardStatistics \<Rightarrow> ShardStatistics \<Rightarrow> string \<Rightarrow> MigrationReason \<Rightarrow> bool" where
  "has_reason K d donor receiver tag reason =
     (case reason of
        drain \<Rightarrow> st_isDraining donor
      | zoneViolation \<Rightarrow> tag \<noteq> [] \<and> tag \<notin> st_shardTags donor
      | chunksImbalance \<Rightarrow> (\<exists>m n. numberOfChunksInShardWithTag K d (st_shardId donor) tag = Some m \<and>
          numberOfChunksInShardWithTag K d (st_shardId receiver) tag = Some n \<and> n + 2 \<le> m))"

text \<open>A shard that may receive a chunk of a zone: it is not being drained, belongs to the zone, and has not reached its size limit if one is
  set and its size is known.\<close>

definition mayReceive :: "ShardStatistics \<Rightarrow> string \<Rightarrow> bool" where
  "mayReceive st tag \<longleftrightarrow> \<not> st_isDraining st \<and> (tag = [] \<or> tag \<in> st_shardTags st) \<and>
     (st_maxSizeMB st \<noteq> 0 \<and> st_currSizeMB st \<noteq> 0 \<longrightarrow> st_currSizeMB st < st_maxSizeMB st)"

lemma suitable_mayReceive: "isShardSuitableReceiver st tag = Inr () \<Longrightarrow> mayReceive st tag"
  by (auto simp: isShardSuitableReceiver_def isSizeMaxed_def mayReceive_def split: if_splits)

definition good_move :: "'k KeyOps \<Rightarrow> ShardStatistics list \<Rightarrow> 'k DistributionStatus \<Rightarrow> 'k MigrateInfo \<Rightarrow> bool" where
  "good_move K sts d m \<longleftrightarrow> (\<exists>donor\<in>set sts. \<exists>receiver\<in>set sts. \<exists>cs. \<exists>c\<in>set cs.
     mi_from m = st_shardId donor \<and> mi_to m = st_shardId receiver \<and> getChunks d (st_shardId donor) = Some cs \<and>
     mi_minKey m = ct_min c \<and> mi_maxKey m = ct_max c \<and> mi_version m = ct_version c \<and> \<not> ct_jumbo c \<and>
     mayReceive receiver (getTagForChunk K d c) \<and> has_reason K d donor receiver (getTagForChunk K d c) (mi_reason m))"

definition shards_of :: "'k MigrateInfo list \<Rightarrow> ShardId list" where
  "shards_of ms = concat (map (\<lambda>m. [mi_from m, mi_to m]) ms)"

definition plan_ok :: "'k KeyOps \<Rightarrow> ShardStatistics list \<Rightarrow> 'k DistributionStatus \<Rightarrow> ShardId set \<Rightarrow> 'k plan \<Rightarrow> bool" where
  "plan_ok K sts d used p \<longleftrightarrow> distinct (shards_of (fst p)) \<and> set (shards_of (fst p)) \<inter> used = {} \<and>
     snd p = used \<union> set (shards_of (fst p)) \<and> (\<forall>m\<in>set (fst p). good_move K sts d m)"

lemma same_shard:
  assumes "dist_ok K sts d" "st \<in> set sts" "st' \<in> set sts" "st_shardId st = st_shardId st'"
  shows "st = st'"
  using assms by (auto simp: dist_ok_def distinct_map dest: inj_onD)

lemma leastLoaded_total:
  assumes "dist_ok K sts d" "set rest \<subseteq> set sts"
  shows "\<exists>to. leastLoaded d tag excluded best n rest = Some to"
  using assms(2)
proof (induction rest arbitrary: best n)
  case (Cons st rest)
  then obtain cs where "getChunks d (st_shardId st) = Some cs" using assms(1) by (auto simp: dist_ok_def)
  then show ?case using Cons by (auto simp: numberOfChunksInShard_def Let_def)
qed simp

lemma receiver:
  assumes "dist_ok K sts d"
  obtains to where "getLeastLoadedReceiverShard sts d tag excluded = Some to"
    "to = [] \<or> (\<exists>st\<in>set sts. st_shardId st = to \<and> to \<notin> excluded \<and> isShardSuitableReceiver st tag = Inr ())"
  using leastLoaded_total [OF assms subset_refl] leastLoaded_in unfolding getLeastLoadedReceiverShard_def by metis

lemma suggest_ok:
  assumes "dist_ok K sts d" "plan_ok K sts d used p" "donor \<in> set sts" "rcv \<in> set sts" "getChunks d (st_shardId donor) = Some cs" "c \<in> set cs"
    "\<not> ct_jumbo c" "st_shardId donor \<notin> snd p" "st_shardId rcv \<notin> snd p" "st_shardId rcv \<noteq> st_shardId donor"
    "isShardSuitableReceiver rcv (getTagForChunk K d c) = Inr ()" "has_reason K d donor rcv (getTagForChunk K d c) reason"
  shows "\<exists>p'. suggest K (st_shardId donor) (st_shardId rcv) c force reason p = Some p' \<and> plan_ok K sts d used p'"
proof -
  have c: "validateChunk K c = Inr ()" "ct_shard c = st_shardId donor" "st_shardId rcv \<noteq> []" using assms(1,3-6) by (auto simp: dist_ok_def)
  let ?m = "\<lparr>mi_to = st_shardId rcv, mi_from = ct_shard c, mi_minKey = ct_min c, mi_maxKey = ct_max c, mi_version = ct_version c,
    mi_forceJumbo = force, mi_reason = reason\<rparr>"
  have eq: "suggest K (st_shardId donor) (st_shardId rcv) c force reason p =
      Some (fst p @ [?m], insert (st_shardId rcv) (insert (st_shardId donor) (snd p)))"
    using c assms(8-10) by (simp add: suggest_def newMigrateInfo_def)
  have good: "good_move K sts d ?m" unfolding good_move_def using assms(3-7,12) suitable_mayReceive [OF assms(11)] c(2) by fastforce
  have "shards_of (fst p @ [?m]) = shards_of (fst p) @ [st_shardId donor, st_shardId rcv]" by (simp add: shards_of_def c(2))
  then show ?thesis using assms(2,8-10) good unfolding eq by (auto simp: plan_ok_def)
qed

lemma moveOne_ok:
  assumes "dist_ok K sts d" "plan_ok K sts d used p" "donor \<in> set sts" "getChunks d (st_shardId donor) = Some all" "set cs \<subseteq> set all"
    "st_shardId donor \<notin> snd p" "\<And>c rcv. wanted (getTagForChunk K d c) c \<Longrightarrow> isShardSuitableReceiver rcv (getTagForChunk K d c) = Inr () \<Longrightarrow>
      rcv \<noteq> donor \<and> has_reason K d donor rcv (getTagForChunk K d c) reason"
  shows "\<exists>p'. moveOne K sts d donor wanted force reason cs p = Some p' \<and> plan_ok K sts d used p'"
  using assms(5)
proof (induction cs)
  case (Cons c cs)
  let ?tag = "getTagForChunk K d c"
  show ?case
  proof (cases "wanted ?tag c \<and> \<not> ct_jumbo c")
    case True
    obtain to where to: "getLeastLoadedReceiverShard sts d ?tag (snd p) = Some to"
      "to = [] \<or> (\<exists>st\<in>set sts. st_shardId st = to \<and> to \<notin> snd p \<and> isShardSuitableReceiver st ?tag = Inr ())"
      by (rule receiver [OF assms(1)])
    show ?thesis
    proof (cases "to = []")
      case False
      then obtain rcv where rcv: "rcv \<in> set sts" "st_shardId rcv = to" "to \<notin> snd p" "isShardSuitableReceiver rcv ?tag = Inr ()"
        using to(2) by blast
      have other: "rcv \<noteq> donor" "has_reason K d donor rcv ?tag reason" using assms(7) [OF conjunct1 [OF True] rcv(4)] by blast+
      have ne: "st_shardId rcv \<noteq> st_shardId donor" using same_shard [OF assms(1) rcv(1) assms(3)] other(1) by blast
      have "\<exists>p'. suggest K (st_shardId donor) (st_shardId rcv) c force reason p = Some p' \<and> plan_ok K sts d used p'"
        using suggest_ok [OF assms(1-3) rcv(1) assms(4)] Cons.prems True assms(6) rcv(2-4) ne other(2) by simp
      then show ?thesis using True to(1) False rcv(2) ne by (simp add: Let_def)
    qed (use Cons True to in \<open>simp add: Let_def\<close>)
  qed (use Cons in \<open>auto simp: Let_def\<close>)
qed (use assms(2) in simp)

lemma suitable:
  assumes "isShardSuitableReceiver st tag = Inr ()"
  shows "\<not> isSizeMaxed st" "\<not> st_isDraining st" "tag = [] \<or> tag \<in> st_shardTags st"
  using assms by (auto simp: isShardSuitableReceiver_def split: if_splits)

lemma drainPass_ok:
  assumes "dist_ok K sts d" "plan_ok K sts d used p" "set rest \<subseteq> set sts"
  shows "\<exists>p'. drainPass K sts d rest p = Some p' \<and> plan_ok K sts d used p'"
  using assms(2,3)
proof (induction rest arbitrary: p)
  case (Cons st rest)
  show ?case
  proof (cases "\<not> st_isDraining st \<or> st_shardId st \<in> snd p")
    case False
    obtain cs where cs: "getChunks d (st_shardId st) = Some cs" using assms(1) Cons.prems(2) by (auto simp: dist_ok_def)
    have "rcv \<noteq> st \<and> has_reason K d st rcv tag drain" if "isShardSuitableReceiver rcv tag = Inr ()" for rcv tag
      using False suitable(2) [OF that] by (auto simp: has_reason_def)
    then obtain p1 where p1: "moveOne K sts d st (\<lambda>tag c. True) kForceBalancer drain cs p = Some p1" "plan_ok K sts d used p1"
      using moveOne_ok [OF assms(1) Cons.prems(1) _ cs subset_refl, of "\<lambda>tag c. True" drain kForceBalancer] False Cons.prems(2) by auto
    then show ?thesis using Cons.IH [OF p1(2)] Cons.prems(2) False cs by simp
  qed (use Cons in auto)
qed simp

lemma zonePass_ok:
  assumes "dist_ok K sts d" "plan_ok K sts d used p" "set rest \<subseteq> set sts"
  shows "\<exists>p'. zonePass K forceJumbo sts d rest p = Some p' \<and> plan_ok K sts d used p'"
  using assms(2,3)
proof (induction rest arbitrary: p)
  case (Cons st rest)
  let ?wanted = "\<lambda>tag c. tag \<noteq> [] \<and> tag \<notin> st_shardTags st" and ?force = "if forceJumbo then kForceBalancer else kDoNotForce"
  show ?case
  proof (cases "st_shardId st \<in> snd p")
    case False
    obtain cs where cs: "getChunks d (st_shardId st) = Some cs" using assms(1) Cons.prems(2) by (auto simp: dist_ok_def)
    have "rcv \<noteq> st \<and> has_reason K d st rcv tag zoneViolation" if "tag \<noteq> [] \<and> tag \<notin> st_shardTags st" "isShardSuitableReceiver rcv tag = Inr ()" for rcv tag
      using that(1) suitable(3) [OF that(2)] by (auto simp: has_reason_def)
    then obtain p1 where p1: "moveOne K sts d st ?wanted ?force zoneViolation cs p = Some p1" "plan_ok K sts d used p1"
      using moveOne_ok [OF assms(1) Cons.prems(1) _ cs subset_refl, of ?wanted zoneViolation ?force] False Cons.prems(2) by auto
    then show ?thesis using Cons.IH [OF p1(2)] Cons.prems(2) False cs by simp
  qed (use Cons in auto)
qed simp

lemma mostOverloaded_result:
  assumes "dist_ok K sts d" "set rest \<subseteq> set sts"
  shows "\<exists>s. mostOverloaded K d tag excluded worst n rest = Some s \<and> (s = worst \<or> (\<exists>st\<in>set rest. st_shardId st = s \<and> s \<notin> excluded))"
  using assms(2)
proof (induction rest arbitrary: worst n)
  case (Cons st rest)
  then obtain cs where cs: "getChunks d (st_shardId st) = Some cs" using assms(1) by (auto simp: dist_ok_def)
  have IH: "\<exists>s. mostOverloaded K d tag excluded w m rest = Some s \<and> (s = w \<or> (\<exists>st\<in>set rest. st_shardId st = s \<and> s \<notin> excluded))" for w m
    using Cons by simp
  show ?case
  proof (cases "st_shardId st \<in> excluded \<or> withTag K d tag cs mod 2 ^ 32 \<le> n")
    case True
    then show ?thesis using IH [of worst n] cs by (auto simp: numberOfChunksInShardWithTag_def Let_def)
  next
    case False
    then show ?thesis using IH [of "st_shardId st" "withTag K d tag cs mod 2 ^ 32"] cs by (auto simp: numberOfChunksInShardWithTag_def Let_def)
  qed
qed simp

lemma moveFromZone_ok:
  assumes "dist_ok K sts d" "plan_ok K sts d used p" "donor \<in> set sts" "rcv \<in> set sts" "getChunks d (st_shardId donor) = Some all" "set cs \<subseteq> set all"
    "st_shardId donor \<notin> snd p" "st_shardId rcv \<notin> snd p" "st_shardId rcv \<noteq> st_shardId donor" "isShardSuitableReceiver rcv tag = Inr ()"
    "has_reason K d donor rcv tag chunksImbalance"
  shows "\<exists>b p'. moveFromZone K d tag (st_shardId rcv) force cs p = Some (b, p') \<and> plan_ok K sts d used p'"
  using assms(6)
proof (induction cs)
  case (Cons c cs)
  show ?case
  proof (cases "getTagForChunk K d c \<noteq> tag \<or> ct_jumbo c")
    case False
    have "ct_shard c = st_shardId donor" using assms(1,3,5) Cons.prems by (auto simp: dist_ok_def)
    then show ?thesis using suggest_ok [OF assms(1-5), of c reason force] suggest_ok [OF assms(1-5), of c chunksImbalance force] Cons.prems False assms(7-11)
      by auto
  qed (use Cons in auto)
qed (cases p; use assms(2) in auto)

lemma singleZoneBalance_ok:
  assumes "dist_ok K sts d" "plan_ok K sts d used p"
  shows "\<exists>b p'. singleZoneBalance K sts d tag ideal force p = Some (b, p') \<and> plan_ok K sts d used p'"
proof -
  obtain s where s: "getMostOverloadedShard K sts d tag (snd p) = Some s" "s = [] \<or> (\<exists>st\<in>set sts. st_shardId st = s \<and> s \<notin> snd p)"
    using mostOverloaded_result [OF assms(1) subset_refl] unfolding getMostOverloadedShard_def by blast
  obtain to where to: "getLeastLoadedReceiverShard sts d tag (snd p) = Some to"
    "to = [] \<or> (\<exists>st\<in>set sts. st_shardId st = to \<and> to \<notin> snd p \<and> isShardSuitableReceiver st tag = Inr ())"
    by (rule receiver [OF assms(1)])
  show ?thesis
  proof (cases "s = [] \<or> to = []")
    case False
    then obtain donor rcv where who: "donor \<in> set sts" "st_shardId donor = s" "s \<notin> snd p" "rcv \<in> set sts" "st_shardId rcv = to" "to \<notin> snd p"
      "isShardSuitableReceiver rcv tag = Inr ()" using s(2) to(2) by blast
    obtain cs ds where chunks: "getChunks d s = Some cs" "getChunks d to = Some ds" using assms(1) who by (fastforce simp: dist_ok_def)
    let ?m = "withTag K d tag cs" and ?n = "withTag K d tag ds"
    show ?thesis
    proof (cases "?m \<le> ideal \<or> ?n \<ge> ideal")
      case True
      then show ?thesis using s(1) to(1) False chunks assms(2) by (cases p) (auto simp: singleZoneBalance_def numberOfChunksInShardWithTag_def)
    next
      case more: False
      then have "?n + 2 \<le> ?m" by simp
      then have "has_reason K d donor rcv tag chunksImbalance" "to \<noteq> s"
        using chunks who(2,5) by (auto simp: has_reason_def numberOfChunksInShardWithTag_def)
      then obtain b p' where "moveFromZone K d tag to force cs p = Some (b, p')" "plan_ok K sts d used p'"
        using moveFromZone_ok [OF assms who(1,4), of cs cs tag force] chunks who by auto
      then show ?thesis using s(1) to(1) False chunks more
        by (simp add: singleZoneBalance_def numberOfChunksInShardWithTag_def kDefaultImbalanceThreshold_def)
    qed
  next
    case True
    obtain cs where "s \<noteq> [] \<Longrightarrow> getChunks d s = Some cs" using assms(1) s(2) by (fastforce simp: dist_ok_def)
    then show ?thesis using s(1) to(1) True assms(2) by (cases p; cases "s = []") (auto simp: singleZoneBalance_def numberOfChunksInShardWithTag_def)
  qed
qed

lemma zoneLoop_ok:
  assumes "dist_ok K sts d" "plan_ok K sts d used p"
  shows "\<exists>p'. zoneLoop K sts d tag ideal force p = Some p' \<and> plan_ok K sts d used p'"
  using assms
proof (induction K sts d tag ideal force p rule: zoneLoop.induct)
  case (1 K sts d tag ideal force p)
  obtain b p1 where one: "singleZoneBalance K sts d tag ideal force p = Some (b, p1)" "plan_ok K sts d used p1"
    using singleZoneBalance_ok [OF "1.prems"] by blast
  show ?case
  proof (cases b)
    case True
    then show ?thesis using "1.IH" [OF one(1) refl] one "1.prems"(1) by (simp add: zoneLoop.simps [of K sts d tag ideal force p])
  next
    case False
    then show ?thesis using one by (simp add: zoneLoop.simps [of K sts d tag ideal force p])
  qed
qed

lemma balanceTags_ok:
  assumes "dist_ok K sts d" "plan_ok K sts d used p"
  shows "\<exists>p'. balanceTags K sts d force tags p = Some p' \<and> plan_ok K sts d used p'"
  using assms(2)
proof (induction tags arbitrary: p)
  case (Cons tag tags)
  let ?ideal = "idealNumberOfChunks (if tag = [] then totalChunks d else totalChunksWithTag K d tag) (countp (\<lambda>st. tag = [] \<or> tag \<in> st_shardTags st) sts)"
  obtain p1 where p1: "zoneLoop K sts d tag ?ideal force p = Some p1" "plan_ok K sts d used p1"
    using zoneLoop_ok [OF assms(1) Cons.prems] by metis
  show ?case unfolding balanceTags.simps Let_def p1(1) using Cons.IH [OF p1(2)] Cons.IH [OF Cons.prems] by simp
qed simp

lemma balance_ok:
  assumes "dist_ok K sts d"
  shows "\<exists>p. balance K sts d used forceJumbo = Some p \<and> plan_ok K sts d used p"
proof -
  have start: "plan_ok K sts d used ([], used)" by (simp add: plan_ok_def shards_of_def)
  obtain p1 where p1: "drainPass K sts d sts ([], used) = Some p1" "plan_ok K sts d used p1"
    using drainPass_ok [OF assms start subset_refl] by blast
  obtain p2 where p2: "(if ds_allTags d = [] then Some p1 else zonePass K forceJumbo sts d sts p1) = Some p2" "plan_ok K sts d used p2"
    using zonePass_ok [OF assms p1(2) subset_refl, of forceJumbo] p1(2) by (cases "ds_allTags d = []") (simp_all, blast)
  from balanceTags_ok [OF assms p2(2)] show ?thesis unfolding balance_def p1(1) using p2(1) by simp
qed

text \<open>The receiver is one of the least loaded of the suitable shards that are not excluded.\<close>

definition load :: "'k DistributionStatus \<Rightarrow> ShardStatistics \<Rightarrow> nat" where
  "load d st = (case numberOfChunksInShard d (st_shardId st) of None \<Rightarrow> 0 | Some n \<Rightarrow> n mod 2 ^ 32)"

definition eligible :: "string \<Rightarrow> ShardId set \<Rightarrow> ShardStatistics \<Rightarrow> bool" where
  "eligible tag excluded st \<longleftrightarrow> st_shardId st \<notin> excluded \<and> isShardSuitableReceiver st tag = Inr ()"

lemma leastLoaded_least:
  assumes "leastLoaded d tag excluded best n sts = Some to"
  shows "to = best \<and> (\<forall>st\<in>set sts. eligible tag excluded st \<longrightarrow> n \<le> load d st) \<or>
    (\<exists>r\<in>set sts. eligible tag excluded r \<and> st_shardId r = to \<and> load d r < n \<and> (\<forall>st\<in>set sts. eligible tag excluded st \<longrightarrow> load d r \<le> load d st))"
  using assms
proof (induction sts arbitrary: best n)
  case (Cons st sts)
  show ?case
  proof (cases "eligible tag excluded st")
    case False
    then have "leastLoaded d tag excluded best n sts = Some to" using Cons.prems by (simp add: eligible_def split: if_splits)
    from Cons.IH [OF this] False show ?thesis by auto
  next
    case True
    then obtain k where k: "numberOfChunksInShard d (st_shardId st) = Some k" "load d st = k mod 2 ^ 32"
      using Cons.prems by (auto simp: eligible_def load_def abort_simps)
    show ?thesis
    proof (cases "n \<le> load d st")
      case le: True
      then have "leastLoaded d tag excluded best n sts = Some to" using Cons.prems True k by (simp add: eligible_def Let_def)
      from Cons.IH [OF this] le show ?thesis by (auto intro: order_trans less_imp_le less_le_trans)
    next
      case False
      then have "leastLoaded d tag excluded (st_shardId st) (load d st) sts = Some to" using Cons.prems True k by (simp add: eligible_def Let_def)
      from Cons.IH [OF this] False True show ?thesis by (auto intro: order_trans less_imp_le less_trans)
    qed
  qed
qed simp

subsection \<open>From the routing table\<close>

definition collected :: "'k KeyOps \<Rightarrow> (ShardId \<times> 'k ChunkType list) list \<Rightarrow> bool" where
  "collected K m \<longleftrightarrow> (\<forall>s cs. map_of m s = Some cs \<longrightarrow> (\<forall>c\<in>set cs. validateChunk K c = Inr () \<and> ct_shard c = s))"

lemma chunkOf_valid:
  assumes "key_laws K" "chunk_ok K v e"
  shows "validateChunk K (chunkOf (ci_shardId (snd e)) (snd e)) = Inr ()"
proof -
  have "woCompare K (ci_min (snd e)) (ci_max (snd e)) < 0" using assms(2) by (simp add: chunk_ok_def key_lawsD [OF assms(1)])
  then show ?thesis using assms(2) by (simp add: validateChunk_def chunkOf_def chunk_ok_def not_le)
qed

lemma collectChunks_ok:
  assumes "key_laws K" "cm_clusterTime cm = None" "\<forall>e\<in>set es. chunk_ok K v e" "collected K m"
  shows "\<exists>m'. collectChunks cm (map snd es) m = Some (Inr m') \<and> collected K m' \<and> fst ` set m \<subseteq> fst ` set m'"
  using assms(3,4)
proof (induction es arbitrary: m)
  case (Cons e es)
  let ?s = "ci_shardId (snd e)"
  let ?m = "AList.update ?s ((case map_of m ?s of None \<Rightarrow> [] | Some l \<Rightarrow> l) @ [chunkOf ?s (snd e)]) m"
  have shard: "getShardIdAt None (snd e) = Some (Inr ?s)" using Cons.prems(1) current_shard [of K v e] by simp
  have valid: "validateChunk K (chunkOf ?s (snd e)) = Inr ()" using Cons.prems(1) chunkOf_valid [OF assms(1), of v e] by simp
  have "ct_shard (chunkOf ?s (snd e)) = ?s" by (simp add: chunkOf_def)
  moreover have "\<forall>c\<in>set (case map_of m ?s of None \<Rightarrow> [] | Some l \<Rightarrow> l). validateChunk K c = Inr () \<and> ct_shard c = ?s"
    using Cons.prems(2) by (cases "map_of m ?s") (auto simp: collected_def)
  ultimately have "collected K ?m" using valid Cons.prems(2) by (auto simp: collected_def update_conv' split: if_splits)
  from Cons.IH [OF _ this] Cons.prems(1)
  obtain m' where "collectChunks cm (map snd es) ?m = Some (Inr m')" "collected K m'" "fst ` set ?m \<subseteq> fst ` set m'"
    by (meson list.set_intros(2))
  then show ?case using shard assms(2) by (auto simp: dom_update)
qed simp

lemma addRangeToZone_chunks: "addRangeToZone K r d = Some (Inr d') \<Longrightarrow> ds_shardChunks d' = ds_shardChunks d"
  by (auto simp: addRangeToZone_def Let_def split: if_splits list.splits)

lemma addZones_chunks: "addZones K zs d = Some (Inr d') \<Longrightarrow> ds_shardChunks d' = ds_shardChunks d"
  by (induction zs arbitrary: d) (auto simp: thenC_Inr dest: addRangeToZone_chunks)

lemma empty_entries: "fst ` set (fold (\<lambda>st. AList.update (st_shardId st) []) sts m) = st_shardId ` set sts \<union> fst ` set m"
  by (induction sts arbitrary: m) (auto simp: dom_update)

lemma collected_empty: "collected K m \<Longrightarrow> collected K (fold (\<lambda>st. AList.update (st_shardId st) []) sts m)"
proof (induction sts arbitrary: m)
  case (Cons st sts)
  have "collected K (AList.update (st_shardId st) [] m)" using Cons.prems by (auto simp: collected_def update_conv' split: if_splits)
  then show ?case using Cons.IH by simp
qed simp

lemma createCollectionDistributionStatus_ok:
  fixes K :: "'k KeyOps"
  assumes "key_laws K" "rt_reachable K rt" "cm = \<lparr>cm_rt = rt, cm_clusterTime = None\<rparr>" "distinct (map st_shardId sts)" "\<forall>st\<in>set sts. st_shardId st \<noteq> []"
    "createCollectionDistributionStatus K sts cm zones = Some (Inr d)"
  shows "dist_ok K sts d"
proof -
  let ?m = "fold (\<lambda>st. AList.update (st_shardId st) []) sts ([] :: (ShardId \<times> 'k ChunkType list) list)"
  have chunks: "\<forall>e\<in>set (rt_chunkMap rt). chunk_ok K (rt_collectionVersion rt) e"
    using rt_reachable_ok [OF assms(1,2)] by (simp add: rt_ok_def table_ok_def)
  have start: "collected K ?m" by (rule collected_empty) (simp add: collected_def)
  have now: "cm_clusterTime cm = None" by (simp add: assms(3))
  from collectChunks_ok [OF assms(1) now chunks start]
  obtain m where m: "collectChunks cm (map snd (rt_chunkMap rt)) ?m = Some (Inr m)" "collected K m" "fst ` set ?m \<subseteq> fst ` set m"
    by (elim exE conjE)
  have rt: "cm_rt cm = rt" by (simp add: assms(3))
  have "addZones K zones (newDistributionStatus m) = Some (Inr d)"
    using assms(6) unfolding createCollectionDistributionStatus_def rt m(1) thenC_simps .
  then have "ds_shardChunks d = m" by (auto simp: newDistributionStatus_def dest: addZones_chunks)
  moreover have "map_of m (st_shardId st) \<noteq> None" if "st \<in> set sts" for st
    using m(3) that unfolding empty_entries map_of_eq_None_iff by auto
  ultimately show ?thesis using assms(4,5) m(2) unfolding dist_ok_def getChunks_def collected_def by fastforce
qed

text \<open>(C39) The balancer never aborts on a routing table that was made and updated, whatever the zones, the state of the shards and the shards already in use:
  it ends with a set of migrations in which every shard takes part at most once, none of them in use before, and all of them in use
  after. Each moves a chunk of the shard it is on that is not jumbo to a shard that is not full, not drained and in the zone of the chunk, because the shard
  is drained, or is not in the zone of the chunk, or has at least two more chunks of the zone than the receiver.\<close>

theorem balance_sound:
  assumes "key_laws K" "rt_reachable K rt" "cm = \<lparr>cm_rt = rt, cm_clusterTime = None\<rparr>" "distinct (map st_shardId sts)" "\<forall>st\<in>set sts. st_shardId st \<noteq> []"
    "createCollectionDistributionStatus K sts cm zones = Some (Inr d)"
  shows "\<exists>ms used'. balance K sts d used forceJumbo = Some (ms, used') \<and> distinct (shards_of ms) \<and> set (shards_of ms) \<inter> used = {} \<and>
    used' = used \<union> set (shards_of ms) \<and> (\<forall>m\<in>set ms. good_move K sts d m)"
  using balance_ok [OF createCollectionDistributionStatus_ok [OF assms], of used forceJumbo] unfolding plan_ok_def by auto

definition byteShards :: "ShardStatistics list" where
  "byteShards = [\<lparr>st_shardId = ''A'', st_maxSizeMB = 0, st_currSizeMB = 0, st_isDraining = False, st_shardTags = {''west''}\<rparr>,
     \<lparr>st_shardId = ''B'', st_maxSizeMB = 0, st_currSizeMB = 0, st_isDraining = True, st_shardTags = {}\<rparr>]"

theorem balance_sound_witness:
  "case createCollectionDistributionStatus byteKeys byteShards \<lparr>cm_rt = byteTable, cm_clusterTime = None\<rparr> [\<lparr>zr_min = 100, zr_max = 255, zr_zone = ''west''\<rparr>] of
     Some (Inr d) \<Rightarrow> \<exists>ms used'. balance byteKeys byteShards d {} False = Some (ms, used') \<and> distinct (shards_of ms) \<and>
       (\<forall>m\<in>set ms. good_move byteKeys byteShards d m)
   | _ \<Rightarrow> False"
proof -
  let ?d = "createCollectionDistributionStatus byteKeys byteShards \<lparr>cm_rt = byteTable, cm_clusterTime = None\<rparr> [\<lparr>zr_min = 100, zr_max = 255, zr_zone = ''west''\<rparr>]"
  have "case ?d of Some (Inr d) \<Rightarrow> True | _ \<Rightarrow> False" by code_simp
  then obtain d where d: "?d = Some (Inr d)" by (auto split: option.splits sum.splits)
  have "distinct (map st_shardId byteShards)" "\<forall>st\<in>set byteShards. st_shardId st \<noteq> []" by (simp_all add: byteShards_def)
  from balance_sound [OF byteKeys_laws byteTable_reachable refl this d, of "{}" False] show ?thesis unfolding d by auto
qed

end
