(* ===== verification/Spec2Isabelle.thy ===== *)
theory Spec2Isabelle
  imports LockProtocol RequestList FastMap Locker LockerProps LockGuardProps ReplQuorums CommitPoint ElectionSafety SdamSelector RadixMerge RoutingTiles BalancerProps
begin

text \<open>
  Verification of the core of the MongoDB server 4.4: the lock manager of \<^verbatim>\<open>src/mongo-r4.4.6/src/mongo/db/concurrency/\<close>, the
  replica set layer of \<^verbatim>\<open>src/mongo-r4.4.6/src/mongo/db/repl/\<close>, server discovery in the client, \<^verbatim>\<open>client/sdam/\<close>, the data
  structure of the in-memory storage engine, \<^verbatim>\<open>db/storage/biggie/store.h\<close>, and the routing table and balancer policy of sharded collections,
  \<^verbatim>\<open>s/chunk_manager.cpp\<close> and \<^verbatim>\<open>db/s/balancer/balancer_policy.cpp\<close>. Paths below are relative to \<^verbatim>\<open>src/mongo-r4.4.6/src/mongo/\<close>.

  \<^bold>\<open>The program and the parts modelled.\<close>
  An operation of the server asks its \<open>Locker\<close> for locks on a hierarchy of resources; the locker keeps a map from resources to its requests
  and posts them to the one \<open>LockManager\<close>, which keeps a lock head per resource with a queue of granted and a queue of waiting requests. The
  members of a replica set copy the log of operations of one of them, the primary. Each member knows the others through a
  \<open>TopologyCoordinator\<close>, a passive state machine that the \<open>ReplicationCoordinatorImpl\<close> drives from heartbeats, progress reports, vote
  requests and commands, under one mutex. The primary is elected in numbered terms by a majority of the voting members of a configuration. A
  client, also a router or a member, learns from the replies of servers which of them is the primary and picks the servers for an operation.
  The in-memory storage engine keeps all records and index entries in one radix tree; a transaction works on a copy that shares nodes with
  it and is merged back when it commits. A sharded collection is cut into chunks, ranges of the shard key that replica sets, the shards, own; a
  router sends an operation to the shards that its copy of the routing table names, with the version it knows, and brings the table up to date from
  changed chunks. The balancer looks at the table, the zones and the shards and suggests chunks to move.

  \<^bold>\<open>Conventions.\<close> An operation with fatal assertions returns an option, and \<open>None\<close> is the process aborting; a status that the
  program returns is a sum with the error at the left. Classes are records, and an operation that changes its object takes and returns the
  record. What runs under a mutex is one step. 32-bit and 64-bit quantities whose wrap-around is visible (lock masks, resource identifiers,
  timestamps, counters of pings) are words; other counters are \<open>nat\<close> or \<open>int\<close>. Most loops of the sources run over
  lists or down a tree, and loops that wait are steps that other steps come between. The loops of the \<open>Locker\<close> over an iterator of its map
  take the number of entries of the map as fuel, which \<open>FastMap.visit_all\<close> shows to be enough for a pass. The two loops over an iterator of the radix store are
  partial functions, and the one the properties rest on is shown to end.

  \<^bold>\<open>Locking.\<close>
  \<^item> \<open>Prelude\<close>: fatal assertions, counting in lists, facts shared by all theories.
  \<^item> \<open>LockModes\<close> (\<^verbatim>\<open>db/concurrency/lock_manager_defs.h\<close>): modes, conflict masks, resource identifiers packed in 64 bits. Shown: the conflict
    table is the compatibility matrix of the modes; packing is a round trip.
  \<^item> \<open>LockHead\<close>, \<open>LockManager\<close> (\<^verbatim>\<open>db/concurrency/lock_manager.cpp\<close>): requests, lock heads with their counters and masks, partitioned
    lock heads, and all public operations. A request is addressed by the slot of the map of its locker; a lock head by its resource.
  \<^item> \<open>LockHeadInv\<close>, \<open>LockHeadOps\<close>, \<open>GrantLoops\<close>, \<open>LockManagerInv\<close>, \<open>LockManagerOps\<close>, \<open>LockManagerSteps\<close>: the invariant
    and that every operation keeps it and passes its assertions.
  \<^item> \<open>LockProtocol\<close>: the lock manager under any sequence of calls. Shown: no two granted requests conflict, results are those the granted
    requests call for, no waiter that could run is left waiting, counters are exact, cleaning up removes unused heads only.
  \<^item> \<open>RequestList\<close> (\<^verbatim>\<open>lock_request_list.h\<close>) and \<open>FastMap\<close> (\<^verbatim>\<open>fast_map_noalloc.h\<close>): the intrusive list and the map that never moves its
    entries, with links and slots written out; each refines the plain list or map, stated as the locales \<open>request_queue\<close> and \<open>address_map\<close>.
  \<^item> \<open>Locker\<close>, \<open>LockerProps\<close> (\<^verbatim>\<open>lock_state.cpp\<close>): locking, waiting, timeouts and interruption, delayed unlocking inside units of work,
    saving and restoring of all locks. Waiting for a lock or a ticket is a parameter that gives the outcome. Shown: two-phase locking, an
    interrupted request leaves nothing behind, locks are restored in the canonical order.
  \<^item> \<open>LockGuards\<close>, \<open>LockGuardProps\<close> (\<^verbatim>\<open>d_concurrency.cpp\<close>): the scoped locks of operations on resources, mutexes, the whole server, databases
    and collections, the latter also by UUID, whose resolution by the catalog is a parameter. A constructor that throws undoes what it
    did as unwinding does. Shown: the guard of a database takes all of its locks or none, and gives back what it took, while other operations work on
    the lock manager; what these may do to the requests of a waiting Locker is the predicate \<open>others_act\<close>.

  \<^bold>\<open>Configurations and times.\<close>
  \<^item> \<open>OpTimes\<close> (\<^verbatim>\<open>bson/timestamp.h\<close>, \<^verbatim>\<open>db/repl/optime.h\<close>): timestamps, optimes and configuration versions; the comparisons as the locale \<open>term_order\<close>.
  \<^item> \<open>ReplTags\<close>, \<open>ReplConfig\<close>, \<open>ReplConfigChecks\<close>, \<open>ReplQuorums\<close> (\<^verbatim>\<open>repl_set_tag.cpp\<close>, \<^verbatim>\<open>member_config.cpp\<close>, \<^verbatim>\<open>repl_set_config.cpp\<close>,
    \<^verbatim>\<open>repl_set_config_checks.cpp\<close>): parsing from documents given as records of fields, validation, majorities, write concern modes,
    the checks of a reconfiguration. Shown: a safe reconfiguration keeps election quorums overlapping, majority writes meet elections, the
    derived counts are within bounds; tag matching is exact.

  \<^bold>\<open>The topology coordinator\<close> (\<^verbatim>\<open>topology_coordinator.cpp\<close>, \<^verbatim>\<open>member_data.cpp\<close>).
  \<^item> \<open>HeartbeatData\<close>: what is known of one member. \<open>Topology\<close>: the state, roles, leader modes, terms, step-down, installing a
    configuration. \<open>TopologyHeartbeat\<close>: timeouts, heartbeats both ways, who may stand for election. \<open>TopologyCommit\<close>: progress,
    write concerns, the commit point, the step-down attempt and the choice of a successor. \<open>VoteRequests\<close>: answering and
    collecting votes (\<^verbatim>\<open>vote_requester.cpp\<close>, \<^verbatim>\<open>scatter_gather_runner.cpp\<close>, the latter as the locale \<open>scatter_gather\<close>).
  \<^item> \<open>SyncSource\<close>, \<open>SyncSourceProps\<close>: from which member the log is copied and when that is changed. Shown: what is chosen on every branch,
    in the end a member of lowest latency among the acceptable ones, and the one case in which the process aborts.
  \<^item> \<open>TopologyInv\<close>, \<open>TopologyOps\<close>, \<open>TopologySteps\<close>: the invariant \<open>tc_inv\<close> and that every operation keeps it and passes its assertions.
  \<^item> \<open>CommitPoint\<close>: the commit point moves forward only, to an operation of the primary's term that a majority has; the outcome of every
    progress report. \<open>TopologyMachine\<close>: all operations as events of a step relation with the duties of the callers as guards. Shown: the
    invariant and that no assertion fires in a reachable state, terms never decrease, leadership comes from an election only.

  \<^bold>\<open>Elections in a replica set.\<close>
  \<^item> \<open>ReplCoordinator\<close> (\<^verbatim>\<open>replication_coordinator_impl.cpp\<close>, \<^verbatim>\<open>replication_coordinator_impl_elect_v1.cpp\<close>,
    \<^verbatim>\<open>replication_coordinator_impl_heartbeat.cpp\<close>): updates of the term and the step-down they start, dry run and election, storing of votes,
    answering vote requests, restarting. Work given to the executor is the \<open>electionTask\<close> of the state.
  \<^item> \<open>Cluster\<close>, \<open>ClusterInv\<close>, \<open>ElectionSafety\<close>: a set of such nodes whose messages are lost, delayed and reordered at will and which crash
    and restart with what they had stored. Shown: one vote per member and term, and at most one leader per term, in every
    history in which no member grants a vote in a term it has not reached itself (\<open>earlyVotes\<close>). The code does not exclude such votes: while a
    primary steps down, a serving thread that does not wait for it can grant them, and vote twice in a term (\<open>two_votes_in_one_term\<close>).
    The configuration is fixed there.

  \<^bold>\<open>The client's view of a deployment\<close> (\<^verbatim>\<open>client/sdam/\<close>).
  \<^item> \<open>ParseNumber\<close> (\<^verbatim>\<open>base/parse_number.cpp\<close>) and \<open>HostAndPorts\<close> (\<^verbatim>\<open>util/net/hostandport.cpp\<close>): integers and host addresses read from
    text. Shown: in the bases of the header a parse accepts exactly the numerals in range of the type; a printed address parses to itself.
  \<^item> \<open>ReadPreferences\<close> (\<^verbatim>\<open>client/read_preference.cpp\<close>): read preferences and their documents.
  \<^item> \<open>Sdam\<close> (\<^verbatim>\<open>server_description.cpp\<close>, \<^verbatim>\<open>topology_description.cpp\<close>, \<^verbatim>\<open>topology_state_machine.cpp\<close>, \<^verbatim>\<open>topology_manager.cpp\<close>): descriptions
    of servers from their replies, the topology and its transition table. The average of round-trip times is computed in
    \<^verbatim>\<open>double\<close>s, which the model rounds as the machine does. \<open>SdamProps\<close>: histories of replies. Shown, for replies whose set
    name is a string or missing: at most one primary, the type of the topology agrees with its servers, no assertion fires, and a stale primary
    is not accepted.
  \<^item> \<open>SdamSelector\<close> (\<^verbatim>\<open>server_selector.cpp\<close>): the servers an operation may go to. Shown: selection never aborts and every server
    selected is of an allowed type and within the latency window, and is permitted by the setting in effect, stated over the reports in plain
    integers (\<open>permitted\<close>), when the members report the dates of their writes. The shuffle is a parameter, assumed to be a permutation.

  \<^bold>\<open>The radix store\<close> (\<^verbatim>\<open>db/storage/biggie/store.h\<close>).
  \<^item> \<open>RadixStore\<close>: nodes with compressed paths, lookup, insertion, update, removal, forward and reverse iterators, bounds, equality. The tree
    is persistent in the model; a node carries the stamp of the operation that wrote it, which stands for its address. \<open>RadixProps\<close>: the
    shape of a tree and its contents. Shown: the store refines a map, stated as the locale \<open>key_value_store\<close>, under every sequence of operations
    that does not remove the empty key, with the exact result of every operation.
  \<^item> \<open>RadixIter\<close>: iteration in the order of the keys in both directions, equality of stores as equality of contents, bounds and repositioning.
  \<^item> \<open>RadixMerge\<close>: the three-way merge. Shown: changes in different branches below the root are merged without loss. Merges inside a branch are
    modelled in full; \<open>merge3_loses_update\<close> shows that they may lose an update.

  \<^bold>\<open>Sharding\<close> (\<^verbatim>\<open>s/\<close>).
  \<^item> \<open>ChunkVersions\<close> (\<^verbatim>\<open>chunk_version.h\<close>, \<^verbatim>\<open>chunk_version.cpp\<close>): versions packed in 64 bits, their order and their documents. Shown: the order of
    packed versions is that of their parts, and an increment grows or is refused.
  \<^item> \<open>RoutingTable\<close> (\<^verbatim>\<open>chunk.cpp\<close>, \<^verbatim>\<open>chunk_manager.cpp\<close>, \<^verbatim>\<open>catalog/type_chunk.cpp\<close>): chunks, the table from the largest key of a chunk to
    the chunk, its update, shard versions and staleness, and targeting. A map is the list of its entries in order. What is used of
    documents is the record \<open>KeyOps\<close>, a parameter; \<open>key_laws\<close> says what the proofs need of it. The bounds of a query, which the planner gives, are
    an argument.
  \<^item> \<open>RoutingProps\<close>: the invariant of every table that was made and updated. \<open>RoutingTiles\<close>: tables without a gap; every key is in one
    chunk, operations go to the owners of the chunks they need, and an update of a range replaces that range and nothing else.
  \<^item> \<open>BalancerPolicy\<close> (\<^verbatim>\<open>db/s/balancer/balancer_policy.cpp\<close>, \<^verbatim>\<open>cluster_statistics.cpp\<close>): zones, the spread of the chunks of a routing table over shards, and
    the migrations that drain shards, mend zone violations and even out the numbers of chunks; the ideal number is rounded as in \<^verbatim>\<open>float\<close>.
    \<open>BalancerProps\<close>. Shown: zones stay disjoint; on every table that can be reached balancing ends without a failed assertion, with migrations that use each
    shard once, have a suitable receiver and a reason.

  Sequences of operations in which the program does not do what it means to are evaluated in lemmas beside the theorems: \<open>config_majority_too_small\<close>,
  \<open>handoff_truncates\<close>, \<open>nan_priority_aborts\<close>, \<open>initial_vote_aborts\<close>, \<open>silent_primary_aborts\<close>, \<open>two_votes_in_one_term\<close>,
  \<open>cancel_before_own_vote_aborts\<close>, \<open>force_index_unchecked\<close>, \<open>standalone_never_single\<close>, \<open>malformed_set_name_aborts\<close>,
  \<open>initial_primary_aborts\<close>, \<open>missing_write_date_is_fresh\<close>, \<open>min_optime_fallback_drops_tags\<close>,
  \<open>base_36_is_parsed\<close>, \<open>erase_reports_absent_prefix\<close>, \<open>erase_empty_key_undefined\<close>, \<open>lower_bound_undefined\<close>, \<open>subtree_find_wrong\<close>, \<open>merge3_loses_update\<close>,
  \<open>gap_on_one_shard\<close>.

  \<^bold>\<open>Not modelled.\<close>
  Threads inside an operation: mutexes make the operations atomic, and spinning or sleeping is left out; so is the race of
  \<^verbatim>\<open>LockManager::unlock\<close>, which reads the status of its request before it takes the mutex of the bucket. Logging, metrics, fail points,
  diagnostics and the documents that commands return. Catch-up and drain mode, the loop of the step-down command,
  write concern waiters and reconfiguration during elections. Reference counts and the
  list of versions of the radix store. The byte format of BSON; the rest of storage and sharding, queries, transactions,
  networking and tools, which are other subsystems.

  \<^bold>\<open>Extensions.\<close> The library is laid out for the rest of the coordinator's duties (waiters, the step-down command, reconfiguration in the
  replica set model) and for the catalog cache over \<open>RoutingTable\<close>.
\<close>

end
